(* ===== verification/Ccsds_Prelude.thy ===== *)
theory Ccsds_Prelude
  imports Main "HOL-Library.Word"
begin

text \<open>
  Shared vocabulary of the development.

  \<^item> The C integer types \<open>uint8_t\<close> .. \<open>uint64_t\<close> are words of that width; a buffer with its
    length is a list of octets, so \<open>buf + i\<close> with \<open>len - i\<close> bytes is \<open>drop i buf\<close>.
  \<^item> \<open>size_t\<close> values are naturals: every size the code computes is a buffer length or is bounded
    by one, far below the width of \<open>size_t\<close>.
  \<^item> An \<open>int\<close> return value (0 or a negative errno) is an \<open>int\<close>; a function that returns an
    errno or fills an output is a sum, \<open>Inl\<close> the error code and \<open>Inr\<close> the output.
  \<^item> The big-endian octet order of words, with the round trips every codec proof uses.
\<close>

unbundle bit_operations_syntax

type_synonym u8 = "8 word"
type_synonym u16 = "16 word"
type_synonym u32 = "32 word"
type_synonym u64 = "64 word"
type_synonym octets = "u8 list"
type_synonym 'a result = "int + 'a"

named_theorems errno_defs "values of the errno constants"
named_theorems octet_simps "big-endian octet order of words"

section \<open>Error numbers\<close>

definition EPERM :: int where [errno_defs]: "EPERM = 1"
definition ENOENT :: int where [errno_defs]: "ENOENT = 2"
definition EIO :: int where [errno_defs]: "EIO = 5"
definition EAGAIN :: int where [errno_defs]: "EAGAIN = 11"
definition ENOMEM :: int where [errno_defs]: "ENOMEM = 12"
definition EACCES :: int where [errno_defs]: "EACCES = 13"
definition EBUSY :: int where [errno_defs]: "EBUSY = 16"
definition EEXIST :: int where [errno_defs]: "EEXIST = 17"
definition ENODEV :: int where [errno_defs]: "ENODEV = 19"
definition EINVAL :: int where [errno_defs]: "EINVAL = 22"
definition EFBIG :: int where [errno_defs]: "EFBIG = 27"
definition ENOSPC :: int where [errno_defs]: "ENOSPC = 28"
definition ERANGE :: int where [errno_defs]: "ERANGE = 34"
definition ENODATA :: int where [errno_defs]: "ENODATA = 61"
definition EBADMSG :: int where [errno_defs]: "EBADMSG = 77"
definition ENAMETOOLONG :: int where [errno_defs]: "ENAMETOOLONG = 91"
definition ETIMEDOUT :: int where [errno_defs]: "ETIMEDOUT = 116"
definition EMSGSIZE :: int where [errno_defs]: "EMSGSIZE = 122"
definition ENOTSUP :: int where [errno_defs]: "ENOTSUP = 134"

section \<open>Big-endian octets of a word\<close>

definition put_be16 :: "u16 \<Rightarrow> octets" where
  "put_be16 w = [ucast (drop_bit 8 w), ucast w]"

definition get_be16 :: "octets \<Rightarrow> u16" where
  "get_be16 b = push_bit 8 (ucast (b ! 0)) OR ucast (b ! 1)"

definition put_be32 :: "u32 \<Rightarrow> octets" where
  "put_be32 w = put_be16 (ucast (drop_bit 16 w)) @ put_be16 (ucast w)"

definition get_be32 :: "octets \<Rightarrow> u32" where
  "get_be32 b = push_bit 16 (ucast (get_be16 b)) OR ucast (get_be16 (drop 2 b))"

definition put_be64 :: "u64 \<Rightarrow> octets" where
  "put_be64 w = put_be32 (ucast (drop_bit 32 w)) @ put_be32 (ucast w)"

definition get_be64 :: "octets \<Rightarrow> u64" where
  "get_be64 b = push_bit 32 (ucast (get_be32 b)) OR ucast (get_be32 (drop 4 b))"

lemma length_put_be [simp]:
  "length (put_be16 v) = 2" "length (put_be32 w) = 4" "length (put_be64 x) = 8"
  by (simp_all add: put_be16_def put_be32_def put_be64_def)

lemma get_put_be16 [simp, octet_simps]: "get_be16 (put_be16 w @ r) = w"
  by (rule bit_word_eqI)
    (auto simp: get_be16_def put_be16_def bit_simps)

lemma get_put_be16' [simp, octet_simps]: "get_be16 (put_be16 w) = w"
  using get_put_be16 [of w "[]"] by simp

lemma drop_put_be16 [simp]: "drop 2 (put_be16 w @ r) = r"
  by simp

lemma get_put_be32 [simp, octet_simps]: "get_be32 (put_be32 w @ r) = w"
  by (rule bit_word_eqI) (auto simp: get_be32_def put_be32_def bit_simps)

lemma get_put_be32' [simp, octet_simps]: "get_be32 (put_be32 w) = w"
  using get_put_be32 [of w "[]"] by simp

lemma get_put_be64 [simp, octet_simps]: "get_be64 (put_be64 w @ r) = w"
  by (rule bit_word_eqI) (auto simp: get_be64_def put_be64_def bit_simps)

lemma get_put_be64' [simp, octet_simps]: "get_be64 (put_be64 w) = w"
  using get_put_be64 [of w "[]"] by simp

lemma put_get_be16: "2 \<le> length b \<Longrightarrow> put_be16 (get_be16 b) = take 2 b"
proof -
  assume "2 \<le> length b"
  then obtain x y r where b: "b = x # y # r"
    by (auto simp: numeral_2_eq_2 Suc_le_length_iff)
  have hi: "ucast (drop_bit 8 (get_be16 b)) = x"
    by (rule bit_word_eqI) (auto simp: b get_be16_def bit_simps dest: bit_imp_le_length)
  have lo: "ucast (get_be16 b) = y"
    by (rule bit_word_eqI) (auto simp: b get_be16_def bit_simps)
  show ?thesis by (simp add: put_be16_def hi lo) (simp add: b)
qed

lemma unat_u16_less [simp]: "unat (x :: u16) < 65536"
  using unsigned_less [of x] by simp

section \<open>Tables indexed by an octet\<close>

lemma unat_octet_less [simp]: "unat (x :: u8) < 256"
  using unsigned_less [of x] by simp

text \<open>
  A 256-entry table given as the values of \<open>f\<close> on 0..255; \<open>octet_upto\<close> makes the simplifier
  enumerate it.
\<close>

lemmas octet_upto = upto_rec1 [of 0] upto_rec1 [of 1]

lemma upto_table_nth: "int k \<le> m \<Longrightarrow> map f [0..m] ! k = f (int k)"
  by (simp add: nth_map)

lemma octet_table_nth: "map f [0..255] ! unat (x :: u8) = f (uint x)"
proof -
  have "int (unat x) \<le> 255" using unat_octet_less [of x] by linarith
  from upto_table_nth [OF this, of f] show ?thesis by (simp only: of_nat_unat)
qed

section \<open>Exclusive or\<close>

lemma xor_self_left [simp]: "a XOR (a XOR b) = b" for a b :: "'a::len word"
  by (simp flip: xor.assoc)

lemma xor_self_right [simp]: "(a XOR b) XOR b = a" for a b :: "'a::len word"
  by (simp add: xor.assoc)

lemma xor_eq_0_iff' [simp]: "a XOR b = 0 \<longleftrightarrow> a = b" for a b :: "'a::len word"
  by (metis xor_self_eq xor_self_left xor.right_neutral)

lemma xor_cancel_right [simp]: "a XOR c = b XOR c \<longleftrightarrow> a = b" for a b c :: "'a::len word"
  by (metis xor.commute xor_self_left)

lemma xor_cancel_left [simp]: "c XOR a = c XOR b \<longleftrightarrow> a = b" for a b c :: "'a::len word"
  by (metis xor_self_left)

section \<open>Masks\<close>

lemma and_mask_id: "unat w < 2 ^ n \<Longrightarrow> w AND mask n = w" for w :: "'a::len word"
  by (simp add: word_unat_eq_iff unsigned_take_bit_eq take_bit_nat_eq_self flip: take_bit_eq_mask)

lemma unat_and_mask_less [simp]: "unat (w AND mask n) < 2 ^ n" for w :: "'a::len word"
  using take_bit_nat_less_exp [of n "unat w"]
  by (simp add: unsigned_take_bit_eq flip: take_bit_eq_mask)

lemma word_less_4: "unat v < 4 \<Longrightarrow> v = 0 \<or> v = 1 \<or> v = 2 \<or> v = 3" for v :: "'a::len word"
proof -
  assume "unat v < 4"
  then have "unat v = 0 \<or> unat v = 1 \<or> unat v = 2 \<or> unat v = 3" by linarith
  moreover have "unat v = n \<Longrightarrow> v = of_nat n" for n by auto
  from this [of 0] this [of 1] this [of 2] this [of 3]
  show ?thesis using calculation by auto
qed

section \<open>Lists\<close>

lemma list_end2: "2 \<le> length xs \<Longrightarrow> \<exists>ys a b. xs = ys @ [a, b]"
proof (induction xs rule: rev_induct)
  case (snoc b xs)
  then show ?case by (cases xs rule: rev_cases) auto
qed simp

lemma list_of_8: "length xs = 8 \<Longrightarrow> \<exists>a b c d e f g h. xs = [a, b, c, d, e, f, g, h]"
  by (auto simp: numeral_eq_Suc length_Suc_conv)

lemma take_header6:
  "take (6 + n) xs = take 2 xs @ take 2 (drop 2 xs) @ take 2 (drop 4 xs) @ take n (drop 6 xs)"
proof -
  have six: "6 + n = 2 + (2 + (2 + n))" by simp
  show ?thesis unfolding six take_add by (simp add: drop_drop)
qed

text \<open>The index of the first element that satisfies a condition.\<close>

fun first_index :: "('a \<Rightarrow> bool) \<Rightarrow> 'a list \<Rightarrow> nat option" where
  "first_index P [] = None"
| "first_index P (x # xs) = (if P x then Some 0 else map_option Suc (first_index P xs))"

lemma first_index_Some:
  "first_index P xs = Some i \<Longrightarrow> i < length xs \<and> P (xs ! i) \<and> (\<forall>k < i. \<not> P (xs ! k))"
proof (induction xs arbitrary: i)
  case (Cons x xs)
  then show ?case by (cases i) (auto simp: less_Suc_eq_0_disj split: if_splits)
qed simp

lemma first_index_None: "first_index P xs = None \<longleftrightarrow> (\<forall>x \<in> set xs. \<not> P x)"
  by (induction xs) auto

lemma first_index_SomeI:
  "i < length xs \<Longrightarrow> P (xs ! i) \<Longrightarrow> (\<And>k. k < length xs \<Longrightarrow> P (xs ! k) \<Longrightarrow> k = i) \<Longrightarrow> first_index P xs = Some i"
proof -
  assume a: "i < length xs" "P (xs ! i)" "\<And>k. k < length xs \<Longrightarrow> P (xs ! k) \<Longrightarrow> k = i"
  have "first_index P xs \<noteq> None" using a(1,2) first_index_None [of P xs] nth_mem by blast
  then obtain k where "first_index P xs = Some k" by blast
  then show ?thesis using first_index_Some [of P xs k] a(3) [of k] by simp
qed

lemma first_index_cong:
  "length xs = length ys \<Longrightarrow> (\<And>k. k < length xs \<Longrightarrow> P (xs ! k) = Q (ys ! k)) \<Longrightarrow> first_index P xs = first_index Q ys"
proof (induction xs ys rule: list_induct2')
  case (4 x xs y ys)
  have "P x = Q y" using 4(3) [of 0] by simp
  moreover have "first_index P xs = first_index Q ys"
    by (rule 4(1)) (use 4(2) 4(3) [of "Suc _"] in auto)
  ultimately show ?case by simp
qed auto

end
