(* ===== verification/Crc16.thy ===== *)
theory Crc16
  imports Ccsds_Prelude
begin

text \<open>
  The table-driven CRC-16 of \<open>ccsds_crc16.c\<close>: the table, the per-octet update, the whole-buffer
  computation and the syndrome check. The lemmas show that the table loop is the bit-serial
  division by \<open>x^16 + x^12 + x^5 + 1\<close>, that the syndrome is zero exactly for data followed by
  its own CRC, and that a change confined to two adjacent octets is always detected.
\<close>

unbundle bit_operations_syntax

definition CCSDS_CRC16_INIT :: u16 where "CCSDS_CRC16_INIT = 0xffff"
definition CCSDS_CRC16_POLY :: u16 where "CCSDS_CRC16_POLY = 0x1021"
definition CCSDS_CRC16_LEN :: nat where "CCSDS_CRC16_LEN = 2"

definition crc16_table :: "u16 list" where
  "crc16_table =
    [
     0x0000, 0x1021, 0x2042, 0x3063, 0x4084, 0x50A5, 0x60C6, 0x70E7,
     0x8108, 0x9129, 0xA14A, 0xB16B, 0xC18C, 0xD1AD, 0xE1CE, 0xF1EF,
     0x1231, 0x0210, 0x3273, 0x2252, 0x52B5, 0x4294, 0x72F7, 0x62D6,
     0x9339, 0x8318, 0xB37B, 0xA35A, 0xD3BD, 0xC39C, 0xF3FF, 0xE3DE,
     0x2462, 0x3443, 0x0420, 0x1401, 0x64E6, 0x74C7, 0x44A4, 0x5485,
     0xA56A, 0xB54B, 0x8528, 0x9509, 0xE5EE, 0xF5CF, 0xC5AC, 0xD58D,
     0x3653, 0x2672, 0x1611, 0x0630, 0x76D7, 0x66F6, 0x5695, 0x46B4,
     0xB75B, 0xA77A, 0x9719, 0x8738, 0xF7DF, 0xE7FE, 0xD79D, 0xC7BC,
     0x48C4, 0x58E5, 0x6886, 0x78A7, 0x0840, 0x1861, 0x2802, 0x3823,
     0xC9CC, 0xD9ED, 0xE98E, 0xF9AF, 0x8948, 0x9969, 0xA90A, 0xB92B,
     0x5AF5, 0x4AD4, 0x7AB7, 0x6A96, 0x1A71, 0x0A50, 0x3A33, 0x2A12,
     0xDBFD, 0xCBDC, 0xFBBF, 0xEB9E, 0x9B79, 0x8B58, 0xBB3B, 0xAB1A,
     0x6CA6, 0x7C87, 0x4CE4, 0x5CC5, 0x2C22, 0x3C03, 0x0C60, 0x1C41,
     0xEDAE, 0xFD8F, 0xCDEC, 0xDDCD, 0xAD2A, 0xBD0B, 0x8D68, 0x9D49,
     0x7E97, 0x6EB6, 0x5ED5, 0x4EF4, 0x3E13, 0x2E32, 0x1E51, 0x0E70,
     0xFF9F, 0xEFBE, 0xDFDD, 0xCFFC, 0xBF1B, 0xAF3A, 0x9F59, 0x8F78,
     0x9188, 0x81A9, 0xB1CA, 0xA1EB, 0xD10C, 0xC12D, 0xF14E, 0xE16F,
     0x1080, 0x00A1, 0x30C2, 0x20E3, 0x5004, 0x4025, 0x7046, 0x6067,
     0x83B9, 0x9398, 0xA3FB, 0xB3DA, 0xC33D, 0xD31C, 0xE37F, 0xF35E,
     0x02B1, 0x1290, 0x22F3, 0x32D2, 0x4235, 0x5214, 0x6277, 0x7256,
     0xB5EA, 0xA5CB, 0x95A8, 0x8589, 0xF56E, 0xE54F, 0xD52C, 0xC50D,
     0x34E2, 0x24C3, 0x14A0, 0x0481, 0x7466, 0x6447, 0x5424, 0x4405,
     0xA7DB, 0xB7FA, 0x8799, 0x97B8, 0xE75F, 0xF77E, 0xC71D, 0xD73C,
     0x26D3, 0x36F2, 0x0691, 0x16B0, 0x6657, 0x7676, 0x4615, 0x5634,
     0xD94C, 0xC96D, 0xF90E, 0xE92F, 0x99C8, 0x89E9, 0xB98A, 0xA9AB,
     0x5844, 0x4865, 0x7806, 0x6827, 0x18C0, 0x08E1, 0x3882, 0x28A3,
     0xCB7D, 0xDB5C, 0xEB3F, 0xFB1E, 0x8BF9, 0x9BD8, 0xABBB, 0xBB9A,
     0x4A75, 0x5A54, 0x6A37, 0x7A16, 0x0AF1, 0x1AD0, 0x2AB3, 0x3A92,
     0xFD2E, 0xED0F, 0xDD6C, 0xCD4D, 0xBDAA, 0xAD8B, 0x9DE8, 0x8DC9,
     0x7C26, 0x6C07, 0x5C64, 0x4C45, 0x3CA2, 0x2C83, 0x1CE0, 0x0CC1,
     0xEF1F, 0xFF3E, 0xCF5D, 0xDF7C, 0xAF9B, 0xBFBA, 0x8FD9, 0x9FF8,
     0x6E17, 0x7E36, 0x4E55, 0x5E74, 0x2E93, 0x3EB2, 0x0ED1, 0x1EF0]"

definition crc16_index :: "u16 \<Rightarrow> u8 \<Rightarrow> u8" where
  "crc16_index crc b = ucast (drop_bit 8 crc XOR ucast b)"

definition crc16_step :: "u16 \<Rightarrow> u8 \<Rightarrow> u16" where
  "crc16_step crc b = push_bit 8 crc XOR (crc16_table ! unat (crc16_index crc b))"

fun ccsds_crc16_update :: "u16 \<Rightarrow> octets \<Rightarrow> u16" where
  "ccsds_crc16_update crc [] = crc"
| "ccsds_crc16_update crc (b # bs) = ccsds_crc16_update (crc16_step crc b) bs"

definition ccsds_crc16_compute :: "octets \<Rightarrow> u16" where
  "ccsds_crc16_compute data = ccsds_crc16_update CCSDS_CRC16_INIT data"

definition ccsds_crc16_check :: "octets \<Rightarrow> bool" where
  "ccsds_crc16_check data =
     (if length data < CCSDS_CRC16_LEN then False else ccsds_crc16_compute data = 0)"

section \<open>The bit-serial reference\<close>

text \<open>One step of the division register: shift, and subtract the generator on a carry.\<close>

definition crc16_shift :: "u16 \<Rightarrow> u16" where
  "crc16_shift r = (if bit r 15 then push_bit 1 r XOR CCSDS_CRC16_POLY else push_bit 1 r)"

definition crc16_shift8 :: "u16 \<Rightarrow> u16" where
  "crc16_shift8 r = crc16_shift (crc16_shift (crc16_shift (crc16_shift
     (crc16_shift (crc16_shift (crc16_shift (crc16_shift r)))))))"

fun crc16_serial :: "u16 \<Rightarrow> octets \<Rightarrow> u16" where
  "crc16_serial r [] = r"
| "crc16_serial r (b # bs) = crc16_serial (crc16_shift8 (r XOR push_bit 8 (ucast b))) bs"

lemma crc16_shift_xor: "crc16_shift (a XOR b) = crc16_shift a XOR crc16_shift b"
  by (rule bit_word_eqI) (auto simp: crc16_shift_def bit_simps CCSDS_CRC16_POLY_def)

lemma crc16_shift8_xor: "crc16_shift8 (a XOR b) = crc16_shift8 a XOR crc16_shift8 b"
  by (simp add: crc16_shift8_def crc16_shift_xor)

text \<open>An octet in the low half is shifted up without a carry.\<close>

lemma crc16_shift_no_carry: "\<not> bit r 15 \<Longrightarrow> crc16_shift r = push_bit 1 r"
  by (simp add: crc16_shift_def)

lemma crc16_shift_carry: "bit r 15 \<Longrightarrow> crc16_shift r = push_bit 1 r XOR 0x1021"
  by (simp add: crc16_shift_def CCSDS_CRC16_POLY_def)

lemma crc16_shift8_low: "crc16_shift8 (ucast (x :: u8)) = push_bit 8 (ucast x)"
proof -
  have step: "crc16_shift (push_bit k (ucast x)) = push_bit (Suc k) (ucast x)" if "k < 8" for k
    using that by (subst crc16_shift_no_carry) (auto simp: bit_simps dest: bit_imp_le_length)
  have "crc16_shift8 (push_bit 0 (ucast x)) = push_bit (8 :: nat) (ucast x)"
    unfolding crc16_shift8_def by (simp only: step) (simp add: step numeral_eq_Suc)
  then show ?thesis by simp
qed

section \<open>The table against the reference\<close>

lemma length_crc16_table [simp]: "length crc16_table = 256"
  by (simp add: crc16_table_def)

lemma crc16_table_serial:
  "crc16_table = map (\<lambda>i. crc16_shift8 (push_bit 8 (word_of_int i))) [0..255]"
  by (simp add: crc16_table_def crc16_shift_carry crc16_shift_no_carry crc16_shift8_def octet_upto)

lemma crc16_table_nth: "crc16_table ! unat x = crc16_shift8 (push_bit 8 (ucast x))" for x :: u8
  unfolding crc16_table_serial octet_table_nth by (simp add: unsigned_ucast_eq)

lemma crc16_split:
  "r = push_bit 8 (ucast (ucast (drop_bit 8 r) :: u8)) XOR ucast (ucast r :: u8)" for r :: u16
  by (rule bit_word_eqI) (auto simp: bit_simps)

lemma crc16_step_serial: "crc16_step r b = crc16_shift8 (r XOR push_bit 8 (ucast b))"
proof -
  have "r XOR push_bit 8 (ucast b)
      = push_bit 8 (ucast (crc16_index r b)) XOR ucast (ucast r :: u8)"
    by (rule bit_word_eqI) (auto simp: crc16_index_def bit_simps)
  moreover have "push_bit 8 (ucast (ucast r :: u8)) = push_bit 8 r"
    by (rule bit_word_eqI) (auto simp: bit_simps)
  ultimately show ?thesis
    by (simp add: crc16_step_def crc16_table_nth crc16_shift8_xor crc16_shift8_low xor.commute)
qed

lemma crc16_update_serial: "ccsds_crc16_update r bs = crc16_serial r bs"
  by (induction bs arbitrary: r) (simp_all add: crc16_step_serial)

lemma crc16_update_append [simp]:
  "ccsds_crc16_update r (xs @ ys) = ccsds_crc16_update (ccsds_crc16_update r xs) ys"
  by (induction xs arbitrary: r) simp_all

section \<open>The update is injective in the register and in the octet\<close>

lemma crc16_table_low_nonzero: "list_all (\<lambda>w. (ucast w :: u8) \<noteq> 0) (tl crc16_table)"
  by (simp add: crc16_table_def)

definition crc16_low :: "u8 \<Rightarrow> u8" where
  "crc16_low x = ucast (crc16_shift8 (push_bit 8 (ucast x)))"

lemma crc16_low_xor: "crc16_low (x XOR y) = crc16_low x XOR crc16_low y"
proof -
  have "push_bit 8 (ucast (x XOR y)) = push_bit 8 (ucast x) XOR (push_bit 8 (ucast y) :: u16)"
    by (rule bit_word_eqI) (auto simp: bit_simps)
  moreover have "ucast (v XOR w) = (ucast v :: u8) XOR ucast w" for v w :: u16
    by (rule bit_word_eqI) (auto simp: bit_simps)
  ultimately show ?thesis by (simp add: crc16_low_def crc16_shift8_xor)
qed

lemma crc16_low_eq_0: "crc16_low x = 0 \<Longrightarrow> x = 0"
proof (rule ccontr)
  assume z: "crc16_low x = 0" and "x \<noteq> 0"
  then have "0 < unat x" by (simp add: unat_gt_0)
  then obtain k where k: "unat x = Suc k" by (auto simp: gr0_conv_Suc)
  with unat_octet_less [of x] have "k < length (tl crc16_table)" by simp
  then have "tl crc16_table ! k \<in> set (tl crc16_table)" by (rule nth_mem)
  then have "crc16_table ! unat x \<in> set (tl crc16_table)"
    using \<open>k < length (tl crc16_table)\<close> by (simp add: k nth_tl)
  with z crc16_table_low_nonzero show False
    by (auto simp: list_all_iff crc16_low_def crc16_table_nth)
qed

lemma crc16_low_inject: "crc16_low x = crc16_low y \<Longrightarrow> x = y"
  using crc16_low_eq_0 [of "x XOR y"] by (simp add: crc16_low_xor)

lemma crc16_step_low: "(ucast (crc16_step r b) :: u8) = crc16_low (crc16_index r b)"
  by (rule bit_word_eqI) (auto simp: crc16_step_def crc16_table_nth crc16_low_def bit_simps)

lemma crc16_step_inject:
  assumes "crc16_step r b = crc16_step s c"
  shows "crc16_index r b = crc16_index s c \<and> push_bit 8 r = push_bit 8 s"
proof -
  have "crc16_low (crc16_index r b) = crc16_low (crc16_index s c)"
    using assms by (metis crc16_step_low)
  then have "crc16_index r b = crc16_index s c" by (rule crc16_low_inject)
  with assms show ?thesis by (simp add: crc16_step_def)
qed

lemma crc16_split_inject:
  fixes r s :: u16
  assumes "push_bit 8 r = push_bit 8 s" "(ucast (drop_bit 8 r) :: u8) = ucast (drop_bit 8 s)"
  shows "r = s"
proof (rule bit_word_eqI)
  fix n assume n: "n < LENGTH(16)"
  show "bit r n = bit s n"
  proof (cases "n < 8")
    case True
    from assms(1) have "bit (push_bit 8 r) (n + 8) = bit (push_bit 8 s) (n + 8)" by simp
    with True show ?thesis by (simp add: bit_simps)
  next
    case False
    from assms(2) have "bit (ucast (drop_bit 8 r) :: u8) (n - 8) = bit (ucast (drop_bit 8 s) :: u8) (n - 8)"
      by simp
    moreover from n have "n < 16" by simp
    ultimately show ?thesis using False by (auto simp: bit_simps)
  qed
qed

lemma crc16_step_cancel_register: "crc16_step r b = crc16_step s b \<Longrightarrow> r = s"
proof (rule crc16_split_inject)
  assume eq: "crc16_step r b = crc16_step s b"
  then show "push_bit 8 r = push_bit 8 s" using crc16_step_inject by blast
  from eq have idx: "crc16_index r b = crc16_index s b" using crc16_step_inject by blast
  have split: "crc16_index q b = ucast (drop_bit 8 q) XOR b" for q
    by (rule bit_word_eqI) (auto simp: crc16_index_def bit_simps)
  from idx show "(ucast (drop_bit 8 r) :: u8) = ucast (drop_bit 8 s)" by (simp add: split)
qed

lemma crc16_update_cancel: "ccsds_crc16_update r bs = ccsds_crc16_update s bs \<Longrightarrow> r = s"
  by (induction bs arbitrary: r s) (auto dest: crc16_step_cancel_register)

lemma crc16_index_cancel: "crc16_index r b = crc16_index r c \<Longrightarrow> b = c"
proof -
  have split: "crc16_index r q = ucast (drop_bit 8 r) XOR q" for q
    by (rule bit_word_eqI) (auto simp: crc16_index_def bit_simps)
  show "crc16_index r b = crc16_index r c \<Longrightarrow> b = c" by (simp add: split)
qed

lemma crc16_step_cancel_octet: "crc16_step r b = crc16_step r c \<Longrightarrow> b = c"
  using crc16_step_inject crc16_index_cancel by blast

text \<open>Two octets reach each register at most once: from one register, different pairs differ.\<close>

lemma crc16_pair_cancel:
  assumes "ccsds_crc16_update r [a, b] = ccsds_crc16_update r [c, d]"
  shows "a = c \<and> b = d"
proof -
  from assms have eq: "crc16_step (crc16_step r a) b = crc16_step (crc16_step r c) d" by simp
  then have shifted: "push_bit 8 (crc16_step r a) = push_bit 8 (crc16_step r c)"
    using crc16_step_inject by blast
  have low: "(ucast x :: u8) = ucast y" if "push_bit 8 x = push_bit 8 y" for x y :: u16
  proof (rule bit_word_eqI)
    fix n assume "n < LENGTH(8)"
    then have n: "n < 8" by simp
    from that have "bit (push_bit 8 x) (n + 8) = bit (push_bit 8 y) (n + 8)" by simp
    with n show "bit (ucast x :: u8) n = bit (ucast y :: u8) n" by (simp add: bit_simps)
  qed
  from low [OF shifted]
  have "crc16_index r a = crc16_index r c"
    by (simp add: crc16_step_low crc16_low_inject)
  then have "a = c" by (rule crc16_index_cancel)
  with eq show ?thesis by (auto dest: crc16_step_cancel_octet)
qed

section \<open>The syndrome\<close>

lemma crc16_step_zero_table: "crc16_index r b = 0 \<Longrightarrow> crc16_step r b = push_bit 8 r"
  by (simp add: crc16_step_def crc16_table_def)

lemma crc16_own_octets: "ccsds_crc16_update r (put_be16 r) = 0"
proof -
  have i0: "crc16_index r (ucast (drop_bit 8 r)) = 0"
    by (rule bit_word_eqI) (auto simp: crc16_index_def bit_simps)
  have i1: "crc16_index (push_bit 8 r) (ucast r) = 0"
    by (rule bit_word_eqI) (auto simp: crc16_index_def bit_simps)
  have "push_bit 8 (push_bit 8 r) = 0"
    by (rule bit_word_eqI) (auto simp: bit_simps)
  then show ?thesis
    by (simp add: put_be16_def crc16_step_zero_table [OF i0] crc16_step_zero_table [OF i1])
qed

lemma crc16_check_snoc2:
  "ccsds_crc16_check (data @ [h, l]) \<longleftrightarrow> [h, l] = put_be16 (ccsds_crc16_compute data)"
proof -
  let ?c = "ccsds_crc16_compute data"
  have "ccsds_crc16_check (data @ [h, l]) \<longleftrightarrow> ccsds_crc16_update ?c [h, l] = 0"
    by (simp add: ccsds_crc16_check_def CCSDS_CRC16_LEN_def ccsds_crc16_compute_def)
  also have "\<dots> \<longleftrightarrow> ccsds_crc16_update ?c [h, l] = ccsds_crc16_update ?c (put_be16 ?c)"
    by (simp only: crc16_own_octets)
  also have "\<dots> \<longleftrightarrow> [h, l] = put_be16 ?c"
    by (auto simp: put_be16_def simp del: ccsds_crc16_update.simps dest: crc16_pair_cancel)
  finally show ?thesis .
qed

section \<open>Properties\<close>

text \<open>
  C38: The table-driven CRC loop computes, from every start register and over every buffer, the
  bit-serial division by the polynomial 0x1021: the 256 table entries and the index arithmetic
  of \<open>ccsds_crc16_update\<close> are right.
\<close>

theorem crc16_equals_bit_serial_division:
  "ccsds_crc16_update crc data = crc16_serial crc data"
  by (rule crc16_update_serial)

text \<open>
  \<open>ccsds_crc16_check\<close> accepts a buffer exactly when its last two octets are the CRC of the
  rest, most significant octet first (so a frame with its CRC appended is always accepted, and
  one with any other trailer never is); buffers shorter than a CRC are refused.
\<close>

theorem crc16_check_accepts_exactly_own_crc:
  "ccsds_crc16_check frame \<longleftrightarrow>
     (\<exists>data. frame = data @ put_be16 (ccsds_crc16_compute data))"
proof (cases "length frame < 2")
  case True
  then show ?thesis by (auto simp: ccsds_crc16_check_def CCSDS_CRC16_LEN_def)
next
  case False
  then obtain data h l where f: "frame = data @ [h, l]" using list_end2 [of frame] by auto
  then show ?thesis
    by (auto simp: crc16_check_snoc2 put_be16_def)
qed

text \<open>
  A change confined to two adjacent octets (in particular any burst of at most nine bits, or
  any single-bit error) of a buffer that passes the check makes it fail the check.
\<close>

theorem crc16_detects_two_octet_errors:
  assumes "ccsds_crc16_check (pre @ [a, b] @ post)" and "(c, d) \<noteq> (a, b)"
  shows "\<not> ccsds_crc16_check (pre @ [c, d] @ post)"
proof
  assume "ccsds_crc16_check (pre @ [c, d] @ post)"
  with assms(1)
  have "ccsds_crc16_update (ccsds_crc16_update (ccsds_crc16_update CCSDS_CRC16_INIT pre) [a, b]) post
      = ccsds_crc16_update (ccsds_crc16_update (ccsds_crc16_update CCSDS_CRC16_INIT pre) [c, d]) post"
    by (simp add: ccsds_crc16_check_def ccsds_crc16_compute_def split: if_splits)
  then have "ccsds_crc16_update (ccsds_crc16_update CCSDS_CRC16_INIT pre) [a, b]
      = ccsds_crc16_update (ccsds_crc16_update CCSDS_CRC16_INIT pre) [c, d]"
    by (rule crc16_update_cancel)
  then show False using crc16_pair_cancel assms(2) by blast
qed

lemma crc16_detects_two_octet_errors_witness:
  "ccsds_crc16_check ([0x31] @ [0x32, 0x33] @ [0x5b, 0xce]) \<and>
   \<not> ccsds_crc16_check ([0x31] @ [0x32, 0x34] @ [0x5b, 0xce])"
proof -
  have "ccsds_crc16_compute [0x31, 0x32, 0x33] = 0x5bce"
    by (simp add: ccsds_crc16_compute_def crc16_update_serial crc16_shift8_def
        crc16_shift_carry crc16_shift_no_carry CCSDS_CRC16_INIT_def)
  then have "ccsds_crc16_check ([0x31] @ [0x32, 0x33] @ [0x5b, 0xce])"
    using crc16_check_snoc2 [of "[0x31, 0x32, 0x33]" "0x5b" "0xce"] by (simp add: put_be16_def)
  then show ?thesis
    using crc16_detects_two_octet_errors [of "[0x31]" "0x32" "0x33" "[0x5b, 0xce]" "0x32" "0x34"]
    by simp
qed

end
