(* ===== verification/Bch.thy ===== *)
theory Bch
  imports Ccsds_Prelude
begin

text \<open>
  The BCH(63,56) block decoder of \<open>ccsds_bch.c\<close>: the syndrome loop over the 63 code bits, the
  search for the error position and the four results. A block has 56 data bits, seven inverted
  parity bits and a filler bit. The lemmas read the loop as a linear map over the bits, so that
  the result of one and two bit errors on a valid block follows from the 63 single-bit syndromes.
\<close>

unbundle bit_operations_syntax

datatype ccsds_bch_result =
    CCSDS_BCH_OK
  | CCSDS_BCH_CORRECTED
  | CCSDS_BCH_DETECTED_EVEN
  | CCSDS_BCH_DETECTED_ODD

definition CCSDS_BCH_BLOCK_SIZE :: nat where "CCSDS_BCH_BLOCK_SIZE = 8"
definition CCSDS_BCH_DATA_SIZE :: nat where "CCSDS_BCH_DATA_SIZE = 7"

text \<open>One iteration of the syndrome loop: bit \<open>i\<close> of the block, inverted in the parity field.\<close>

definition bch_bit :: "octets \<Rightarrow> nat \<Rightarrow> u8" where
  "bch_bit block i =
     (let bit = drop_bit (7 - i mod 8) (block ! (i div 8)) AND 1
      in if i \<ge> 56 then bit XOR 1 else bit)"

definition bch_syndrome_step :: "octets \<Rightarrow> nat \<Rightarrow> u8 \<times> bool \<Rightarrow> u8 \<times> bool" where
  "bch_syndrome_step block i = (\<lambda>(syndrome, odd_parity).
     (let bit = bch_bit block i;
          carry = (syndrome AND 0x20 \<noteq> 0);
          odd_parity = (odd_parity \<noteq> (bit \<noteq> 0));
          syndrome = (push_bit 1 syndrome AND 0x3f) OR bit
      in (if carry then syndrome XOR 0x03 else syndrome, odd_parity)))"

definition bch_syndrome :: "octets \<Rightarrow> u8 \<times> bool" where
  "bch_syndrome block = fold (bch_syndrome_step block) [0..<63] (0, False)"

text \<open>The search loop: position \<open>i\<close> carries the syndrome \<open>single\<close>; give up after 63 positions.\<close>

definition bch_next_single :: "u32 \<Rightarrow> u32" where
  "bch_next_single single =
     (if single AND 1 \<noteq> 0 then drop_bit 1 (single XOR 0x03) OR 0x20 else drop_bit 1 single)"

function bch_locate :: "u8 \<Rightarrow> nat \<Rightarrow> u32 \<Rightarrow> nat option" where
  "bch_locate syndrome i single =
     (if i < 63
      then (if ucast syndrome = single then Some i
            else bch_locate syndrome (Suc i) (bch_next_single single))
      else None)"
  by pat_completeness auto
termination
  by (relation "measure (\<lambda>(syndrome, i, single). 63 - i)") auto

declare bch_locate.simps [simp del]

definition bch_flip_data :: "octets \<Rightarrow> nat \<Rightarrow> octets" where
  "bch_flip_data data i = data[i div 8 := data ! (i div 8) XOR drop_bit (i mod 8) 0x80]"

text \<open>
  The decoder returns the result, the 7 data octets it leaves in \<open>data\<close> and \<open>corrected_bit\<close>.
\<close>

definition ccsds_bch_decode_block :: "octets \<Rightarrow> ccsds_bch_result \<times> octets \<times> int" where
  "ccsds_bch_decode_block block =
     (let data = take CCSDS_BCH_DATA_SIZE block;
          (syndrome, odd_parity) = bch_syndrome block
      in if syndrome = 0
         then (if odd_parity then CCSDS_BCH_DETECTED_ODD else CCSDS_BCH_OK, data, -1)
         else if \<not> odd_parity then (CCSDS_BCH_DETECTED_EVEN, data, -1)
         else (case bch_locate syndrome 0 0x21 of
                 Some i \<Rightarrow>
                   (CCSDS_BCH_CORRECTED, if i < 56 then bch_flip_data data i else data, int i)
               | None \<Rightarrow> (CCSDS_BCH_DETECTED_ODD, data, -1)))"

section \<open>The syndrome loop as a linear map over code bits\<close>

text \<open>Multiplication of the register by \<open>x\<close>, modulo \<open>x^6 + x + 1\<close>.\<close>

definition bch_mul_x :: "u8 \<Rightarrow> u8" where
  "bch_mul_x s = (push_bit 1 s AND 0x3f) XOR (if bit s 5 then 3 else 0)"

fun bch_fold :: "u8 \<Rightarrow> bool list \<Rightarrow> u8" where
  "bch_fold s [] = s"
| "bch_fold s (b # bs) = bch_fold (bch_mul_x s XOR of_bool b) bs"

definition code_bit :: "octets \<Rightarrow> nat \<Rightarrow> bool" where
  "code_bit block i \<longleftrightarrow> bit (block ! (i div 8)) (7 - i mod 8) \<noteq> (i \<ge> 56)"

definition code_bits :: "octets \<Rightarrow> bool list" where
  "code_bits block = map (code_bit block) [0..<63]"

definition parity :: "bool list \<Rightarrow> bool" where
  "parity bs \<longleftrightarrow> odd (length (filter id bs))"

lemma bch_bit_eq: "bch_bit block i = of_bool (code_bit block i)"
proof -
  have one: "w AND 1 = of_bool (bit w 0)" for w :: u8
    by (rule bit_word_eqI) (auto simp: bit_simps)
  show ?thesis by (simp add: bch_bit_def code_bit_def one bit_simps Let_def)
qed

lemma bch_syndrome_step_eq:
  "bch_syndrome_step block i (s, p)
     = (bch_mul_x s XOR of_bool (code_bit block i), p \<noteq> code_bit block i)"
proof -
  have carry: "s AND 0x20 \<noteq> 0 \<longleftrightarrow> bit s 5"
    by (simp add: and_exp_eq_0_iff_not_bit [of s 5, simplified])
  have "(push_bit 1 s AND 0x3f) OR of_bool b = (push_bit 1 s AND 0x3f) XOR of_bool b" for b
    by (rule bit_word_eqI) (auto simp: bit_simps bit_0)
  then show ?thesis
    by (simp add: bch_syndrome_step_def bch_bit_eq carry bch_mul_x_def Let_def ac_simps)
qed

lemma bch_syndrome_fold:
  "fold (bch_syndrome_step block) is (s, p)
     = (bch_fold s (map (code_bit block) is), p \<noteq> parity (map (code_bit block) is))"
  by (induction "is" arbitrary: s p) (auto simp: bch_syndrome_step_eq parity_def)

lemma bch_syndrome_eq:
  "bch_syndrome block = (bch_fold 0 (code_bits block), parity (code_bits block))"
  by (simp add: bch_syndrome_def code_bits_def bch_syndrome_fold)

lemma bch_mul_x_xor: "bch_mul_x (a XOR b) = bch_mul_x a XOR bch_mul_x b"
  by (rule bit_word_eqI) (auto simp: bch_mul_x_def bit_simps)

lemma bch_mul_x_0 [simp]: "bch_mul_x 0 = 0"
  by (simp add: bch_mul_x_def)

lemma of_bool_xor: "of_bool (a \<noteq> b) = of_bool a XOR (of_bool b :: u8)"
  by simp

lemma bch_fold_xor:
  "length as = length bs \<Longrightarrow>
     bch_fold (s XOR t) (map2 (\<noteq>) as bs) = bch_fold s as XOR bch_fold t bs"
proof (induction as bs arbitrary: s t rule: list_induct2)
  case (Cons a as b bs)
  have "bch_mul_x (s XOR t) XOR of_bool (a \<noteq> b)
      = (bch_mul_x s XOR of_bool a) XOR (bch_mul_x t XOR of_bool b)"
    by (simp only: bch_mul_x_xor of_bool_xor ac_simps)
  with Cons.IH show ?case by simp
qed simp

lemma bch_fold_append: "bch_fold s (as @ bs) = bch_fold (bch_fold s as) bs"
  by (induction as arbitrary: s) simp_all

lemma bch_fold_zeros: "bch_fold s (replicate k False) = (bch_mul_x ^^ k) s"
  by (induction k arbitrary: s) (simp_all add: funpow_swap1)

section \<open>The syndromes of single bits\<close>

definition bch_locator :: "nat \<Rightarrow> u8" where
  "bch_locator i = (bch_mul_x ^^ (62 - i)) 1"

definition unit_bits :: "nat \<Rightarrow> bool list" where
  "unit_bits i = replicate i False @ True # replicate (62 - i) False"

lemma bch_fold_unit: "bch_fold 0 (unit_bits i) = bch_locator i"
proof -
  have "(bch_mul_x ^^ k) 0 = 0" for k by (induction k) simp_all
  then show ?thesis
    by (simp add: unit_bits_def bch_fold_append bch_fold_zeros bch_locator_def)
qed

lemma flip_eq_map2:
  assumes "i < 63" "length bs = 63"
  shows "bs[i := \<not> bs ! i] = map2 (\<noteq>) bs (unit_bits i)"
proof (rule nth_equalityI)
  show "length (bs[i := \<not> bs ! i]) = length (map2 (\<noteq>) bs (unit_bits i))"
    using assms by (simp add: unit_bits_def)
  fix k assume "k < length (bs[i := \<not> bs ! i])"
  then have "k < 63" using assms by simp
  then have "unit_bits i ! k = (k = i)"
    using assms by (auto simp: unit_bits_def nth_append nth_Cons')
  with \<open>k < 63\<close> show "bs[i := \<not> bs ! i] ! k = map2 (\<noteq>) bs (unit_bits i) ! k"
    using assms by (auto simp: unit_bits_def nth_list_update)
qed

lemma bch_fold_flip:
  assumes "i < 63" "length bs = 63"
  shows "bch_fold 0 (bs[i := \<not> bs ! i]) = bch_fold 0 bs XOR bch_locator i"
proof -
  have "length bs = length (unit_bits i)" using assms by (simp add: unit_bits_def)
  from bch_fold_xor [OF this, of 0 0] show ?thesis
    by (simp only: flip_eq_map2 [OF assms] bch_fold_unit xor_self_eq)
qed

lemma parity_flip: "i < length bs \<Longrightarrow> parity (bs[i := \<not> bs ! i]) = (\<not> parity bs)"
proof (induction bs arbitrary: i)
  case (Cons b bs)
  then show ?case by (cases i) (auto simp: parity_def)
qed simp

fun bch_powers :: "nat \<Rightarrow> u8 \<Rightarrow> u8 list" where
  "bch_powers 0 s = []"
| "bch_powers (Suc n) s = s # bch_powers n (bch_mul_x s)"

lemma bch_powers_numeral:
  "bch_powers (numeral k) s = s # bch_powers (pred_numeral k) (bch_mul_x s)"
  by (simp add: numeral_eq_Suc)

lemma bch_powers_nth: "k < n \<Longrightarrow> bch_powers n s ! k = (bch_mul_x ^^ k) s"
  by (induction n arbitrary: k s) (auto simp: nth_Cons' funpow_swap1 gr0_conv_Suc)

lemma length_bch_powers [simp]: "length (bch_powers n s) = n"
  by (induction n arbitrary: s) simp_all

text \<open>\<open>x\<close> has order 63: its powers are distinct, nonzero and within the register.\<close>

lemma bch_powers_eval: "bch_powers 63 1 =
  [1, 2, 4, 8, 16, 32, 3, 6, 12, 24, 48, 35, 5, 10, 20, 40, 19, 38, 15, 30, 60, 59, 53, 41, 17,
   34, 7, 14, 28, 56, 51, 37, 9, 18, 36, 11, 22, 44, 27, 54, 47, 29, 58, 55, 45, 25, 50, 39, 13,
   26, 52, 43, 21, 42, 23, 46, 31, 62, 63, 61, 57, 49, 33]"
  by (simp add: bch_powers_numeral bch_mul_x_def)

lemma bch_powers_distinct: "distinct (0 # bch_powers 63 1)"
  by (simp add: bch_powers_eval)

lemma bch_powers_range: "\<forall>s \<in> set (bch_powers 63 1). \<not> bit s 6 \<and> \<not> bit s 7"
  by (simp add: bch_powers_eval)

lemma bch_locator_nth: "i < 63 \<Longrightarrow> bch_locator i = bch_powers 63 1 ! (62 - i)"
  by (simp add: bch_locator_def bch_powers_nth)

lemma bch_locator_nonzero: "i < 63 \<Longrightarrow> bch_locator i \<noteq> 0"
  using bch_powers_distinct by (auto simp: bch_locator_nth in_set_conv_nth)

lemma bch_locator_inject: "i < 63 \<Longrightarrow> j < 63 \<Longrightarrow> bch_locator i = bch_locator j \<longleftrightarrow> i = j"
  using bch_powers_distinct by (auto simp: bch_locator_nth nth_eq_iff_index_eq)

lemma bch_locator_range: "i < 63 \<Longrightarrow> \<not> bit (bch_locator i) 6 \<and> \<not> bit (bch_locator i) 7"
  using bch_powers_range by (simp add: bch_locator_nth)

section \<open>The position search\<close>

lemma bch_next_single_powers:
  "map (\<lambda>s. bch_next_single (ucast s)) (tl (bch_powers 63 1))
     = map ucast (butlast (bch_powers 63 1))"
  by (simp add: bch_powers_eval bch_next_single_def)

lemma bch_next_single_locator:
  assumes "Suc i < 63"
  shows "bch_next_single (ucast (bch_locator i)) = ucast (bch_locator (Suc i))"
proof -
  let ?k = "61 - i"
  from assms have k: "62 - i = Suc ?k" "62 - Suc i = ?k" "?k < 62" by auto
  from bch_next_single_powers
  have "map (\<lambda>s. bch_next_single (ucast s)) (tl (bch_powers 63 1)) ! ?k
      = map ucast (butlast (bch_powers 63 1)) ! ?k" by simp
  with k assms show ?thesis by (simp add: bch_locator_nth nth_tl nth_butlast)
qed

lemma bch_ucast_inject: "(ucast (a :: u8) :: u32) = ucast b \<longleftrightarrow> a = b"
proof
  assume eq: "(ucast a :: u32) = ucast b"
  have "ucast (ucast x :: u32) = x" for x :: u8 by (rule bit_word_eqI) (auto simp: bit_simps)
  with eq show "a = b" by metis
qed simp

lemma bch_locate_iff:
  "i \<le> 63 \<Longrightarrow> (i < 63 \<Longrightarrow> single = ucast (bch_locator i)) \<Longrightarrow>
     bch_locate syndrome i single = Some j \<longleftrightarrow> i \<le> j \<and> j < 63 \<and> syndrome = bch_locator j"
proof (induction syndrome i single rule: bch_locate.induct)
  case (1 syndrome i single)
  show ?case
  proof (cases "i < 63")
    case True
    then have single: "single = ucast (bch_locator i)" using "1.prems" by simp
    show ?thesis
    proof (cases "syndrome = bch_locator i")
      case eq: True
      then show ?thesis
        using True by (subst bch_locate.simps) (auto simp: single bch_locator_inject)
    next
      case False
      then have ne: "ucast syndrome \<noteq> single" by (simp add: single bch_ucast_inject)
      have "bch_locate syndrome i single = bch_locate syndrome (Suc i) (bch_next_single single)"
        using True ne by (subst bch_locate.simps) simp
      moreover have "bch_locate syndrome (Suc i) (bch_next_single single) = Some j
          \<longleftrightarrow> Suc i \<le> j \<and> j < 63 \<and> syndrome = bch_locator j"
        using True ne by (intro "1.IH") (auto simp: single bch_next_single_locator)
      ultimately show ?thesis using False by (auto simp: le_less_Suc_eq Suc_le_eq nat_less_le)
    qed
  next
    case False
    then show ?thesis by (subst bch_locate.simps) auto
  qed
qed

lemma bch_locate_start:
  "bch_locate syndrome 0 0x21 = Some j \<longleftrightarrow> j < 63 \<and> syndrome = bch_locator j"
proof -
  have "ucast (bch_locator 0) = (0x21 :: u32)"
    by (simp add: bch_locator_nth bch_powers_eval)
  then show ?thesis by (subst bch_locate_iff) auto
qed

section \<open>Blocks and bit errors\<close>

text \<open>An error in bit \<open>i\<close> of the block, counted from the most significant bit of octet 0.\<close>

definition flip_code_bit :: "octets \<Rightarrow> nat \<Rightarrow> octets" where
  "flip_code_bit block i = block[i div 8 := block ! (i div 8) XOR push_bit (7 - i mod 8) 1]"

lemma length_flip_code_bit [simp]: "length (flip_code_bit block i) = length block"
  by (simp add: flip_code_bit_def)

lemma code_bit_flip:
  assumes "length block = 8" "i < 64" "k < 64"
  shows "code_bit (flip_code_bit block i) k = (code_bit block k \<noteq> (k = i))"
proof (cases "k div 8 = i div 8")
  case True
  have "7 - k mod 8 = 7 - i mod 8 \<longleftrightarrow> k = i"
    using True div_mult_mod_eq [of k 8] div_mult_mod_eq [of i 8]
      mod_less_divisor [of 8 k] mod_less_divisor [of 8 i] by linarith
  then show ?thesis
    using True assms by (auto simp: code_bit_def flip_code_bit_def bit_simps)
next
  case False
  then show ?thesis using assms by (auto simp: code_bit_def flip_code_bit_def)
qed

lemma length_code_bits [simp]: "length (code_bits block) = 63"
  by (simp add: code_bits_def del: upt_rec_numeral)

lemma code_bits_nth: "k < 63 \<Longrightarrow> code_bits block ! k = code_bit block k"
  by (simp add: code_bits_def del: upt_rec_numeral)

lemma code_bits_flip:
  assumes "length block = 8" "i < 63"
  shows "code_bits (flip_code_bit block i) = (code_bits block)[i := \<not> code_bits block ! i]"
proof (rule nth_equalityI)
  fix k assume "k < length (code_bits (flip_code_bit block i))"
  then have "k < 63" by simp
  then show "code_bits (flip_code_bit block i) ! k = (code_bits block)[i := \<not> code_bits block ! i] ! k"
    using assms by (simp add: code_bit_flip nth_list_update code_bits_nth)
qed simp

lemma flip_code_bit_twice: "flip_code_bit (flip_code_bit block i) i = block"
proof (cases "i div 8 < length block")
  case True
  then show ?thesis by (simp add: flip_code_bit_def)
next
  case False
  then show ?thesis by (simp add: flip_code_bit_def list_update_beyond)
qed

text \<open>A word of the code: zero syndrome and even parity.\<close>

definition bch_word :: "octets \<Rightarrow> bool" where
  "bch_word block \<longleftrightarrow> bch_fold 0 (code_bits block) = 0 \<and> \<not> parity (code_bits block)"

lemma bch_word_flip:
  assumes "length block = 8" "i < 63"
  shows "bch_word (flip_code_bit block i) \<longleftrightarrow>
           bch_fold 0 (code_bits block) = bch_locator i \<and> parity (code_bits block)"
proof -
  have "length (code_bits block) = 63" by (simp add: code_bits_def)
  then show ?thesis
    using assms by (simp add: bch_word_def code_bits_flip bch_fold_flip parity_flip)
qed

lemma bch_decode_ok:
  "ccsds_bch_decode_block block = (CCSDS_BCH_OK, d, p) \<longleftrightarrow>
     bch_word block \<and> d = take 7 block \<and> p = -1"
  by (auto simp: ccsds_bch_decode_block_def bch_syndrome_eq bch_word_def CCSDS_BCH_DATA_SIZE_def
      Let_def split: option.splits)

lemma bch_decode_corrected:
  assumes "length block = 8"
  shows "ccsds_bch_decode_block block = (CCSDS_BCH_CORRECTED, d, p) \<longleftrightarrow>
     (\<exists>i < 63. p = int i \<and> bch_word (flip_code_bit block i) \<and>
        d = (if i < 56 then bch_flip_data (take 7 block) i else take 7 block))"
proof -
  let ?s = "bch_fold 0 (code_bits block)" and ?odd = "parity (code_bits block)"
  have "ccsds_bch_decode_block block = (CCSDS_BCH_CORRECTED, d, p) \<longleftrightarrow>
      ?s \<noteq> 0 \<and> ?odd \<and> (\<exists>i. bch_locate ?s 0 0x21 = Some i \<and> p = int i \<and>
        d = (if i < 56 then bch_flip_data (take 7 block) i else take 7 block))"
    by (cases "bch_locate ?s 0 0x21")
      (auto simp: ccsds_bch_decode_block_def bch_syndrome_eq CCSDS_BCH_DATA_SIZE_def Let_def)
  also have "\<dots> \<longleftrightarrow> (\<exists>i < 63. p = int i \<and> (?s = bch_locator i \<and> ?odd) \<and>
        d = (if i < 56 then bch_flip_data (take 7 block) i else take 7 block))"
    unfolding bch_locate_start using bch_locator_nonzero by metis
  also have "\<dots> \<longleftrightarrow> (\<exists>i < 63. p = int i \<and> bch_word (flip_code_bit block i) \<and>
        d = (if i < 56 then bch_flip_data (take 7 block) i else take 7 block))"
    using bch_word_flip [OF assms] by blast
  finally show ?thesis .
qed

lemma push_bit_drop_bit_octet: "m < 8 \<Longrightarrow> push_bit (7 - m) 1 = drop_bit m (0x80 :: u8)"
proof -
  assume m: "m < 8"
  have top: "bit (0x80 :: u8) n \<longleftrightarrow> n = 7" for n
    using bit_exp_iff [where 'a = "8 word", of 7 n] by (auto simp: possible_bit_def)
  show ?thesis
  proof (rule bit_word_eqI)
    fix n assume "n < LENGTH(8)"
    then show "bit (push_bit (7 - m) 1 :: u8) n = bit (drop_bit m (0x80 :: u8)) n"
      using m by (simp only: bit_drop_bit_eq comp_apply top)
        (auto simp: bit_push_bit_iff bit_1_iff possible_bit_def simp del: push_bit_of_1)
  qed
qed

lemma take_flip_code_bit:
  assumes "length block = 8" "i < 63"
  shows "take 7 (flip_code_bit block i)
       = (if i < 56 then bch_flip_data (take 7 block) i else take 7 block)"
proof (cases "i < 56")
  case True
  then have "i div 8 < 7" by auto
  with True assms show ?thesis
    by (simp add: flip_code_bit_def bch_flip_data_def take_update_swap
        flip: push_bit_drop_bit_octet)
next
  case False
  then have "7 \<le> i div 8" by auto
  with False show ?thesis by (simp add: flip_code_bit_def)
qed

lemma bch_decode_even:
  assumes "bch_fold 0 (code_bits block) \<noteq> 0" "\<not> parity (code_bits block)"
  shows "ccsds_bch_decode_block block = (CCSDS_BCH_DETECTED_EVEN, take 7 block, -1)"
  using assms by (simp add: ccsds_bch_decode_block_def bch_syndrome_eq CCSDS_BCH_DATA_SIZE_def)

lemma bch_example_word: "bch_word (replicate 7 0 @ [0xfe])"
proof -
  have "\<not> code_bit (replicate 7 0 @ [0xfe]) k" if "k < 63" for k
  proof (cases "k < 56")
    case True
    then have "k div 8 < 7" by auto
    with True show ?thesis by (simp add: code_bit_def nth_append)
  next
    case False
    with that have "k = 56 \<or> k = 57 \<or> k = 58 \<or> k = 59 \<or> k = 60 \<or> k = 61 \<or> k = 62" by linarith
    then show ?thesis by (auto simp: code_bit_def nth_append)
  qed
  then have "code_bits (replicate 7 0 @ [0xfe]) = replicate 63 False"
    by (intro nth_equalityI) (simp_all add: code_bits_nth)
  moreover have "(bch_mul_x ^^ k) 0 = 0" for k by (induction k) simp_all
  ultimately show ?thesis by (simp add: bch_word_def bch_fold_zeros parity_def)
qed

section \<open>Properties\<close>

text \<open>
  C36: The decoder corrects exactly the single-bit errors. It returns \<open>CORRECTED\<close> with data \<open>d\<close>
  and position \<open>p\<close> exactly when \<open>p\<close> is one of the 63 code bits and the block with bit \<open>p\<close> flipped
  back decodes with result \<open>OK\<close> to the same data; so one flipped bit of a valid block is always
  located and undone, and a correction never leaves a block that is not valid.
\<close>

theorem bch_corrects_exactly_single_bit_errors:
  assumes "length block = CCSDS_BCH_BLOCK_SIZE"
  shows "ccsds_bch_decode_block block = (CCSDS_BCH_CORRECTED, d, p) \<longleftrightarrow>
           (\<exists>i < 63. p = int i \<and>
              ccsds_bch_decode_block (flip_code_bit block i) = (CCSDS_BCH_OK, d, -1))"
proof -
  have len: "length block = 8" using assms by (simp add: CCSDS_BCH_BLOCK_SIZE_def)
  show ?thesis
    unfolding bch_decode_corrected [OF len] bch_decode_ok
    using take_flip_code_bit [OF len] by auto
qed

lemma bch_corrects_exactly_single_bit_errors_witness:
  "ccsds_bch_decode_block (flip_code_bit (replicate 7 0 @ [0xfe]) 9)
     = (CCSDS_BCH_CORRECTED, replicate 7 0, int 9)"
proof -
  let ?block = "replicate 7 0 @ [0xfe] :: octets"
  have "ccsds_bch_decode_block (flip_code_bit (flip_code_bit ?block 9) 9)
      = (CCSDS_BCH_OK, replicate 7 0, -1)"
    by (simp only: flip_code_bit_twice bch_decode_ok bch_example_word) simp
  moreover have "length (flip_code_bit ?block 9) = CCSDS_BCH_BLOCK_SIZE"
    by (simp add: CCSDS_BCH_BLOCK_SIZE_def)
  moreover have "(9 :: nat) < 63" by simp
  ultimately show ?thesis using bch_corrects_exactly_single_bit_errors by blast
qed

text \<open>
  Two flipped bits of a valid block are always detected, never miscorrected: the decoder
  reports \<open>DETECTED_EVEN\<close> and no position, whichever two of the 63 code bits are hit.
\<close>

theorem bch_detects_double_errors:
  assumes "length block = CCSDS_BCH_BLOCK_SIZE"
    and "ccsds_bch_decode_block block = (CCSDS_BCH_OK, d, -1)"
    and "i < 63" "j < 63" "i \<noteq> j"
  shows "fst (ccsds_bch_decode_block (flip_code_bit (flip_code_bit block i) j))
           = CCSDS_BCH_DETECTED_EVEN"
proof -
  let ?one = "flip_code_bit block i" and ?two = "flip_code_bit (flip_code_bit block i) j"
  have len: "length block = 8" using assms(1) by (simp add: CCSDS_BCH_BLOCK_SIZE_def)
  have word: "bch_word block" using assms(2) by (simp add: bch_decode_ok)
  have "code_bits ?two = (code_bits ?one)[j := \<not> code_bits ?one ! j]"
    using len assms(4) by (simp add: code_bits_flip)
  moreover have "code_bits ?one = (code_bits block)[i := \<not> code_bits block ! i]"
    using len assms(3) by (rule code_bits_flip)
  ultimately have "bch_fold 0 (code_bits ?two) = bch_locator i XOR bch_locator j"
      "\<not> parity (code_bits ?two)"
    using word assms(3,4) by (simp_all only: bch_fold_flip parity_flip length_code_bits
        length_list_update) (simp_all add: bch_word_def)
  with assms(3-5) show ?thesis
    by (subst bch_decode_even) (simp_all add: bch_locator_inject)
qed

lemma bch_detects_double_errors_witness:
  "fst (ccsds_bch_decode_block (flip_code_bit (flip_code_bit (replicate 7 0 @ [0xfe]) 3) 40))
     = CCSDS_BCH_DETECTED_EVEN"
proof (rule bch_detects_double_errors)
  show "ccsds_bch_decode_block (replicate 7 0 @ [0xfe]) = (CCSDS_BCH_OK, replicate 7 0, -1)"
    by (simp only: bch_decode_ok bch_example_word) simp
qed (simp_all add: CCSDS_BCH_BLOCK_SIZE_def)

end
