(* ===== verification/Reed_Solomon.thy ===== *)
theory Reed_Solomon
  imports Ccsds_Prelude
begin

text \<open>
  The Reed-Solomon parity encoder of \<open>ccsds_rs.c\<close>: the logarithm tables, the in-place parity
  register loop of one codeblock and the loop over the codeblocks. The lemmas show that the
  tables are the powers of \<open>x\<close> in GF(256) modulo 0x187, that table look-up is multiplication
  there, and that the loop is the division register for the polynomial \<open>GG_LOG\<close> stores. That
  polynomial is then evaluated at the roots the CCSDS code prescribes.
\<close>

unbundle bit_operations_syntax

definition CCSDS_RS_DATA_LEN :: nat where "CCSDS_RS_DATA_LEN = 223"
definition CCSDS_RS_PARITY_LEN :: nat where "CCSDS_RS_PARITY_LEN = 32"
definition CCSDS_RS_PARITY_LAST_INDEX :: nat where
  "CCSDS_RS_PARITY_LAST_INDEX = CCSDS_RS_PARITY_LEN - 1"
definition CCSDS_RS_CODEBLOCK_LEN :: nat where
  "CCSDS_RS_CODEBLOCK_LEN = CCSDS_RS_DATA_LEN + CCSDS_RS_PARITY_LEN"
definition CCSDS_RS_INTERLEAVE_DEPTH :: nat where "CCSDS_RS_INTERLEAVE_DEPTH = 5"
definition CCSDS_RS_INTERLEAVED_DATA_LEN :: nat where
  "CCSDS_RS_INTERLEAVED_DATA_LEN = CCSDS_RS_DATA_LEN * CCSDS_RS_INTERLEAVE_DEPTH"
definition CCSDS_RS_INTERLEAVED_PARITY_LEN :: nat where
  "CCSDS_RS_INTERLEAVED_PARITY_LEN = CCSDS_RS_PARITY_LEN * CCSDS_RS_INTERLEAVE_DEPTH"

definition GF_LOG :: "u8 list" where
  "GF_LOG =
    [
     0x00, 0x00, 0x01, 0x63, 0x02, 0xc6, 0x64, 0x6a, 0x03, 0xcd, 0xc7, 0xbc,
     0x65, 0x7e, 0x6b, 0x2a, 0x04, 0x8d, 0xce, 0x4e, 0xc8, 0xd4, 0xbd, 0xe1,
     0x66, 0xdd, 0x7f, 0x31, 0x6c, 0x20, 0x2b, 0xf3, 0x05, 0x57, 0x8e, 0xe8,
     0xcf, 0xac, 0x4f, 0x83, 0xc9, 0xd9, 0xd5, 0x41, 0xbe, 0x94, 0xe2, 0xb4,
     0x67, 0x27, 0xde, 0xf0, 0x80, 0xb1, 0x32, 0x35, 0x6d, 0x45, 0x21, 0x12,
     0x2c, 0x0d, 0xf4, 0x38, 0x06, 0x9b, 0x58, 0x1a, 0x8f, 0x79, 0xe9, 0x70,
     0xd0, 0xc2, 0xad, 0xa8, 0x50, 0x75, 0x84, 0x48, 0xca, 0xfc, 0xda, 0x8a,
     0xd6, 0x54, 0x42, 0x24, 0xbf, 0x98, 0x95, 0xf9, 0xe3, 0x5e, 0xb5, 0x15,
     0x68, 0x61, 0x28, 0xba, 0xdf, 0x4c, 0xf1, 0x2f, 0x81, 0xe6, 0xb2, 0x3f,
     0x33, 0xee, 0x36, 0x10, 0x6e, 0x18, 0x46, 0xa6, 0x22, 0x88, 0x13, 0xf7,
     0x2d, 0xb8, 0x0e, 0x3d, 0xf5, 0xa4, 0x39, 0x3b, 0x07, 0x9e, 0x9c, 0x9d,
     0x59, 0x9f, 0x1b, 0x08, 0x90, 0x09, 0x7a, 0x1c, 0xea, 0xa0, 0x71, 0x5a,
     0xd1, 0x1d, 0xc3, 0x7b, 0xae, 0x0a, 0xa9, 0x91, 0x51, 0x5b, 0x76, 0x72,
     0x85, 0xa1, 0x49, 0xeb, 0xcb, 0x7c, 0xfd, 0xc4, 0xdb, 0x1e, 0x8b, 0xd2,
     0xd7, 0x92, 0x55, 0xaa, 0x43, 0x0b, 0x25, 0xaf, 0xc0, 0x73, 0x99, 0x77,
     0x96, 0x5c, 0xfa, 0x52, 0xe4, 0xec, 0x5f, 0x4a, 0xb6, 0xa2, 0x16, 0x86,
     0x69, 0xc5, 0x62, 0xfe, 0x29, 0x7d, 0xbb, 0xcc, 0xe0, 0xd3, 0x4d, 0x8c,
     0xf2, 0x1f, 0x30, 0xdc, 0x82, 0xab, 0xe7, 0x56, 0xb3, 0x93, 0x40, 0xd8,
     0x34, 0xb0, 0xef, 0x26, 0x37, 0x0c, 0x11, 0x44, 0x6f, 0x78, 0x19, 0x9a,
     0x47, 0x74, 0xa7, 0xc1, 0x23, 0x53, 0x89, 0xfb, 0x14, 0x5d, 0xf8, 0x97,
     0x2e, 0x4b, 0xb9, 0x60, 0x0f, 0xed, 0x3e, 0xe5, 0xf6, 0x87, 0xa5, 0x17,
     0x3a, 0xa3, 0x3c, 0xb7]"

definition GF_ILOG :: "u8 list" where
  "GF_ILOG =
    [
     0x01, 0x02, 0x04, 0x08, 0x10, 0x20, 0x40, 0x80, 0x87, 0x89, 0x95, 0xad,
     0xdd, 0x3d, 0x7a, 0xf4, 0x6f, 0xde, 0x3b, 0x76, 0xec, 0x5f, 0xbe, 0xfb,
     0x71, 0xe2, 0x43, 0x86, 0x8b, 0x91, 0xa5, 0xcd, 0x1d, 0x3a, 0x74, 0xe8,
     0x57, 0xae, 0xdb, 0x31, 0x62, 0xc4, 0x0f, 0x1e, 0x3c, 0x78, 0xf0, 0x67,
     0xce, 0x1b, 0x36, 0x6c, 0xd8, 0x37, 0x6e, 0xdc, 0x3f, 0x7e, 0xfc, 0x7f,
     0xfe, 0x7b, 0xf6, 0x6b, 0xd6, 0x2b, 0x56, 0xac, 0xdf, 0x39, 0x72, 0xe4,
     0x4f, 0x9e, 0xbb, 0xf1, 0x65, 0xca, 0x13, 0x26, 0x4c, 0x98, 0xb7, 0xe9,
     0x55, 0xaa, 0xd3, 0x21, 0x42, 0x84, 0x8f, 0x99, 0xb5, 0xed, 0x5d, 0xba,
     0xf3, 0x61, 0xc2, 0x03, 0x06, 0x0c, 0x18, 0x30, 0x60, 0xc0, 0x07, 0x0e,
     0x1c, 0x38, 0x70, 0xe0, 0x47, 0x8e, 0x9b, 0xb1, 0xe5, 0x4d, 0x9a, 0xb3,
     0xe1, 0x45, 0x8a, 0x93, 0xa1, 0xc5, 0x0d, 0x1a, 0x34, 0x68, 0xd0, 0x27,
     0x4e, 0x9c, 0xbf, 0xf9, 0x75, 0xea, 0x53, 0xa6, 0xcb, 0x11, 0x22, 0x44,
     0x88, 0x97, 0xa9, 0xd5, 0x2d, 0x5a, 0xb4, 0xef, 0x59, 0xb2, 0xe3, 0x41,
     0x82, 0x83, 0x81, 0x85, 0x8d, 0x9d, 0xbd, 0xfd, 0x7d, 0xfa, 0x73, 0xe6,
     0x4b, 0x96, 0xab, 0xd1, 0x25, 0x4a, 0x94, 0xaf, 0xd9, 0x35, 0x6a, 0xd4,
     0x2f, 0x5e, 0xbc, 0xff, 0x79, 0xf2, 0x63, 0xc6, 0x0b, 0x16, 0x2c, 0x58,
     0xb0, 0xe7, 0x49, 0x92, 0xa3, 0xc1, 0x05, 0x0a, 0x14, 0x28, 0x50, 0xa0,
     0xc7, 0x09, 0x12, 0x24, 0x48, 0x90, 0xa7, 0xc9, 0x15, 0x2a, 0x54, 0xa8,
     0xd7, 0x29, 0x52, 0xa4, 0xcf, 0x19, 0x32, 0x64, 0xc8, 0x17, 0x2e, 0x5c,
     0xb8, 0xf7, 0x69, 0xd2, 0x23, 0x46, 0x8c, 0x9f, 0xb9, 0xf5, 0x6d, 0xda,
     0x33, 0x66, 0xcc, 0x1f, 0x3e, 0x7c, 0xf8, 0x77, 0xee, 0x5b, 0xb6, 0xeb,
     0x51, 0xa2, 0xc3]"

definition GG_LOG :: "u8 list" where
  "GG_LOG =
    [
     0x00, 0x66, 0xc8, 0x20, 0xcf, 0x8d, 0x7f, 0x65, 0x2b, 0x8e, 0x6a, 0x65,
     0xac, 0x3c, 0x61, 0x4f, 0x97, 0xbe, 0x0d, 0xd5, 0xbe, 0x14, 0xef, 0xfb,
     0xc5, 0x36, 0xef, 0x05, 0xc9, 0xbe, 0xc5, 0xd7]"

text \<open>The 16-bit index of a product, reduced once by 255.\<close>

definition rs_index :: "u8 \<Rightarrow> u8 \<Rightarrow> nat" where
  "rs_index feedback_log coefficient_log =
     (let idx = unat feedback_log + unat coefficient_log
      in if idx \<ge> 255 then idx - 255 else idx)"

text \<open>The inner loop, \<open>j\<close> counting down to 1 over the register that is being shifted.\<close>

fun rs_shift_loop :: "u8 \<Rightarrow> nat \<Rightarrow> octets \<Rightarrow> octets" where
  "rs_shift_loop feedback_log 0 parity = parity"
| "rs_shift_loop feedback_log (Suc j) parity =
     rs_shift_loop feedback_log j
       (parity[Suc j := parity ! j XOR GF_ILOG ! rs_index feedback_log (GG_LOG ! Suc j)])"

definition rs_step :: "u8 \<Rightarrow> octets \<Rightarrow> octets" where
  "rs_step d parity =
     (let feedback = d XOR parity ! CCSDS_RS_PARITY_LAST_INDEX
      in if feedback \<noteq> 0
         then (let feedback_log = GF_LOG ! unat feedback
               in (rs_shift_loop feedback_log CCSDS_RS_PARITY_LAST_INDEX parity)
                    [0 := GF_ILOG ! unat feedback_log])
         else 0 # take CCSDS_RS_PARITY_LAST_INDEX parity)"

definition ccsds_rs_encode_codeblock :: "octets \<Rightarrow> octets" where
  "ccsds_rs_encode_codeblock data = fold rs_step data (replicate CCSDS_RS_PARITY_LEN 0)"

text \<open>\<open>data\<close> holds \<open>depth\<close> codeblocks of 223 octets one after the other.\<close>

fun rs_encode_blocks :: "nat \<Rightarrow> octets \<Rightarrow> octets" where
  "rs_encode_blocks 0 data = []"
| "rs_encode_blocks (Suc depth) data =
     ccsds_rs_encode_codeblock (take CCSDS_RS_DATA_LEN data)
       @ rs_encode_blocks depth (drop CCSDS_RS_DATA_LEN data)"

definition ccsds_rs_encode :: "octets \<Rightarrow> octets" where
  "ccsds_rs_encode data = rs_encode_blocks CCSDS_RS_INTERLEAVE_DEPTH data"

section \<open>The field GF(256) modulo 0x187\<close>

definition gf_double :: "u8 \<Rightarrow> u8" where
  "gf_double a = (if bit a 7 then push_bit 1 a XOR 0x87 else push_bit 1 a)"

definition gf_mul :: "u8 \<Rightarrow> u8 \<Rightarrow> u8" where
  "gf_mul a b = foldr (XOR) (map (\<lambda>i. if bit a i then (gf_double ^^ i) b else 0) [0..<8]) 0"

lemma gf_double_xor: "gf_double (a XOR b) = gf_double a XOR gf_double b"
  by (rule bit_word_eqI) (auto simp: gf_double_def bit_simps)

lemma gf_double_0 [simp]: "gf_double 0 = 0"
  by (simp add: gf_double_def)

lemma gf_double_carry: "bit a 7 \<Longrightarrow> gf_double a = push_bit 1 a XOR 0x87"
  and gf_double_no_carry: "\<not> bit a 7 \<Longrightarrow> gf_double a = push_bit 1 a"
  by (simp_all add: gf_double_def)

fun gf_powers :: "nat \<Rightarrow> u8 \<Rightarrow> u8 list" where
  "gf_powers 0 a = []"
| "gf_powers (Suc n) a = a # gf_powers n (gf_double a)"

lemma gf_powers_numeral:
  "gf_powers (numeral k) a = a # gf_powers (pred_numeral k) (gf_double a)"
  by (simp add: numeral_eq_Suc)

lemma length_gf_powers [simp]: "length (gf_powers n a) = n"
  by (induction n arbitrary: a) simp_all

lemma gf_powers_nth: "k < n \<Longrightarrow> gf_powers n a ! k = (gf_double ^^ k) a"
  by (induction n arbitrary: k a) (auto simp: nth_Cons' funpow_swap1 gr0_conv_Suc)

text \<open>The antilogarithm table is the list of the first 255 powers of \<open>x\<close>; \<open>x^255 = 1\<close>.\<close>

lemma gf_ilog_powers: "GF_ILOG = gf_powers 255 1"
  by (simp add: GF_ILOG_def gf_powers_numeral gf_double_carry gf_double_no_carry)

lemma gf_ilog_nth: "k < 255 \<Longrightarrow> GF_ILOG ! k = (gf_double ^^ k) 1"
  by (simp add: gf_ilog_powers gf_powers_nth)

lemma gf_ilog_254: "GF_ILOG ! 254 = 0xc3"
  by (simp add: GF_ILOG_def)

lemma gf_power_255: "(gf_double ^^ 255) 1 = 1"
proof -
  have "(gf_double ^^ 255) 1 = gf_double (GF_ILOG ! 254)"
    by (subst gf_ilog_nth) (simp_all add: numeral_eq_Suc)
  then show ?thesis by (simp add: gf_ilog_254 gf_double_carry)
qed

lemma funpow_numeral: "(f ^^ numeral k) x = f ((f ^^ pred_numeral k) x)"
  by (simp add: numeral_eq_Suc)

lemma gf_power_mod: "(gf_double ^^ (k + 255)) 1 = (gf_double ^^ k) 1"
  by (simp only: funpow_add comp_apply gf_power_255)

lemma length_gf_log [simp]: "length GF_LOG = 256"
  by (simp add: GF_LOG_def)

lemma gf_log_range: "list_all (\<lambda>l. l \<noteq> 255) GF_LOG"
  by (simp add: GF_LOG_def)

lemma gf_log_table: "map (\<lambda>l. GF_ILOG ! unat l) (tl GF_LOG) = map word_of_int [1..255]"
  by (simp add: GF_LOG_def GF_ILOG_def octet_upto)

lemma gf_log_less: "unat (GF_LOG ! unat (f :: u8)) < 255"
proof -
  have "GF_LOG ! unat f \<in> set GF_LOG" by (rule nth_mem) simp
  then have "GF_LOG ! unat f \<noteq> 255" using gf_log_range by (auto simp: list_all_iff)
  then have "unat (GF_LOG ! unat f) \<noteq> 255" by (simp add: word_unat_eq_iff)
  then show ?thesis using unat_octet_less [of "GF_LOG ! unat f"] by linarith
qed

lemma gf_log_ilog:
  assumes "f \<noteq> 0"
  shows "GF_ILOG ! unat (GF_LOG ! unat f) = f"
proof -
  from assms have "0 < unat f" by (simp add: unat_gt_0)
  then obtain k where k: "unat f = Suc k" by (auto simp: gr0_conv_Suc)
  with unat_octet_less [of f] have "k < 255" by simp
  then have tl: "tl GF_LOG ! k = GF_LOG ! unat f" by (simp add: nth_tl k)
  have "length ([1..255]) = 255" by simp
  then have "k < length [1..255]" using \<open>k < 255\<close> by linarith
  then have rhs: "map word_of_int [1..255] ! k = (word_of_int (1 + int k) :: u8)"
    using \<open>k < 255\<close> by (simp only: nth_map) (subst nth_upto, simp_all)
  have "GF_ILOG ! unat (tl GF_LOG ! k) = map (\<lambda>l. GF_ILOG ! unat l) (tl GF_LOG) ! k"
    using \<open>k < 255\<close> by simp
  also have "\<dots> = word_of_int (1 + int k)" by (simp only: gf_log_table rhs)
  also have "\<dots> = of_nat (unat f)" by (simp add: k)
  finally show ?thesis by (simp add: tl)
qed

lemma gf_log_power: "f \<noteq> 0 \<Longrightarrow> (gf_double ^^ unat (GF_LOG ! unat f)) 1 = f"
  using gf_log_ilog [of f] gf_ilog_nth [OF gf_log_less, of f] by simp

text \<open>Products by the reference multiplication.\<close>

lemma gf_mul_terms:
  "gf_mul a b =
     (if bit a 0 then b else 0) XOR (if bit a 1 then (gf_double ^^ 1) b else 0) XOR
     (if bit a 2 then (gf_double ^^ 2) b else 0) XOR (if bit a 3 then (gf_double ^^ 3) b else 0) XOR
     (if bit a 4 then (gf_double ^^ 4) b else 0) XOR (if bit a 5 then (gf_double ^^ 5) b else 0) XOR
     (if bit a 6 then (gf_double ^^ 6) b else 0) XOR (if bit a 7 then (gf_double ^^ 7) b else 0)"
  by (simp add: gf_mul_def numeral_eq_Suc xor.assoc)

lemma gf_power_poly: "(gf_double ^^ 8) b = (gf_double ^^ 7) b XOR (gf_double ^^ 2) b XOR gf_double b XOR b"
proof -
  have x: "gf_double (a XOR c) = gf_double a XOR gf_double c" for a c by (rule gf_double_xor)
  have funpow_xor: "(gf_double ^^ k) (a XOR c) = (gf_double ^^ k) a XOR (gf_double ^^ k) c" for k a c
    by (induction k) (simp_all add: x)
  have one: "(gf_double ^^ 8) 1 = (gf_double ^^ 7) 1 XOR (gf_double ^^ 2) 1 XOR gf_double 1 XOR 1"
    using gf_ilog_nth [of 8] gf_ilog_nth [of 7] gf_ilog_nth [of 2] gf_ilog_nth [of 1]
    by (simp add: GF_ILOG_def)
  show ?thesis
  proof (cases "b = 0")
    case True
    have "(gf_double ^^ k) 0 = 0" for k by (induction k) simp_all
    with True show ?thesis by simp
  next
    case False
    then obtain n where b: "b = (gf_double ^^ n) 1" using gf_log_power [of b] by metis
    have swap: "(gf_double ^^ k) ((gf_double ^^ n) 1) = (gf_double ^^ n) ((gf_double ^^ k) 1)" for k
      by (metis add.commute comp_apply funpow_add)
    have swap1: "gf_double ((gf_double ^^ n) 1) = (gf_double ^^ n) (gf_double 1)"
      using swap [of 1] by simp
    show ?thesis unfolding b swap swap1 one funpow_xor by simp
  qed
qed

lemma gf_double_bits:
  "bit (gf_double a) 0 = bit a 7" "bit (gf_double a) 1 = (bit a 0 \<noteq> bit a 7)"
  "bit (gf_double a) 2 = (bit a 1 \<noteq> bit a 7)" "bit (gf_double a) 3 = bit a 2"
  "bit (gf_double a) 4 = bit a 3" "bit (gf_double a) 5 = bit a 4" "bit (gf_double a) 6 = bit a 5"
  "bit (gf_double a) 7 = (bit a 6 \<noteq> bit a 7)"
  by (simp_all only: gf_double_def bit_xor_iff bit_push_bit_iff split: if_split) simp_all

lemma gf_mul_double: "gf_mul (gf_double a) b = gf_double (gf_mul a b)"
proof -
  have p: "gf_double ((gf_double ^^ k) b) = (gf_double ^^ Suc k) b" for k by simp
  have e: "gf_double (if c then x else 0) = (if c then gf_double x else 0)" for c x by simp
  have n: "(if c \<noteq> bit a 7 then x else 0) = (if c then x else 0) XOR (if bit a 7 then x else 0)"
    for c and x :: u8 by simp
  have b: "(if bit a 7 then (gf_double ^^ 8) b else 0) =
      (if bit a 7 then (gf_double ^^ 7) b else 0) XOR (if bit a 7 then (gf_double ^^ 2) b else 0) XOR
      (if bit a 7 then (gf_double ^^ 1) b else 0) XOR (if bit a 7 then b else 0)"
    by (simp add: gf_power_poly)
  show ?thesis
    unfolding gf_mul_terms gf_double_bits gf_double_xor e p n Suc_numeral
    by (simp only: b Suc_numeral semiring_norm One_nat_def Suc_1 ac_simps)
       (simp add: b ac_simps)
qed

lemma gf_mul_power: "gf_mul ((gf_double ^^ n) 1) b = (gf_double ^^ n) b"
proof (induction n)
  case 0
  show ?case by (simp add: gf_mul_terms)
qed (simp add: gf_mul_double)

lemma gf_ilog_rs_index:
  assumes "unat l < 255" "unat m < 255"
  shows "GF_ILOG ! rs_index l m = (gf_double ^^ (unat l + unat m)) 1"
proof (cases "unat l + unat m \<ge> 255")
  case True
  then have "GF_ILOG ! rs_index l m = (gf_double ^^ (unat l + unat m - 255)) 1"
    using assms by (simp add: rs_index_def gf_ilog_nth)
  then show ?thesis using gf_power_mod [of "unat l + unat m - 255"] True by simp
next
  case False
  then show ?thesis by (simp add: rs_index_def gf_ilog_nth)
qed

lemma gf_table_product:
  assumes "f \<noteq> 0" "unat m < 255"
  shows "GF_ILOG ! rs_index (GF_LOG ! unat f) m = gf_mul f (GF_ILOG ! unat m)"
proof -
  let ?l = "unat (GF_LOG ! unat f)"
  have "gf_mul f (GF_ILOG ! unat m) = gf_mul ((gf_double ^^ ?l) 1) ((gf_double ^^ unat m) 1)"
    using assms by (simp add: gf_log_power gf_ilog_nth)
  also have "\<dots> = (gf_double ^^ (?l + unat m)) 1"
    by (simp add: gf_mul_power funpow_add)
  finally show ?thesis using assms by (simp add: gf_ilog_rs_index gf_log_less)
qed

lemma gf_mul_0 [simp]: "gf_mul 0 b = 0"
  by (simp add: gf_mul_terms)

lemma gf_mul_xor_left: "gf_mul (a XOR c) b = gf_mul a b XOR gf_mul c b"
proof -
  have n: "(if p \<noteq> q then x else 0) = (if p then x else 0) XOR (if q then x else 0)"
    for p q and x :: u8 by simp
  show ?thesis unfolding gf_mul_terms bit_xor_iff n by (simp only: ac_simps)
qed

lemma gf_mul_1 [simp]: "gf_mul f 1 = f"
proof (cases "f = 0")
  case False
  then show ?thesis
    using gf_mul_power [of "unat (GF_LOG ! unat f)" 1] by (simp add: gf_log_power)
qed simp

section \<open>The parity register as polynomial division\<close>

text \<open>
  The monic polynomial whose lower coefficients \<open>GG_LOG\<close> stores, and one step of dividing by it:
  the register holds the remainder so far, low coefficient first.
\<close>

definition rs_generator :: octets where
  "rs_generator = map (\<lambda>l. GF_ILOG ! unat l) GG_LOG"

definition rs_divide_step :: "octets \<Rightarrow> u8 \<Rightarrow> octets \<Rightarrow> octets" where
  "rs_divide_step g d r =
     (let f = d XOR last r in map2 (\<lambda>a c. a XOR gf_mul f c) (0 # butlast r) g)"

lemma length_gg_log [simp]: "length GG_LOG = 32"
  by (simp add: GG_LOG_def)

lemma gg_log_range: "list_all (\<lambda>l. l \<noteq> 255) GG_LOG"
  by (simp add: GG_LOG_def)

lemma gg_log_less: "j < 32 \<Longrightarrow> unat (GG_LOG ! j) < 255"
proof -
  assume "j < 32"
  then have "GG_LOG ! j \<noteq> 255" using gg_log_range by (simp add: list_all_length)
  then have "unat (GG_LOG ! j) \<noteq> 255" by (simp add: word_unat_eq_iff)
  then show ?thesis using unat_octet_less [of "GG_LOG ! j"] by linarith
qed

lemma length_rs_generator [simp]: "length rs_generator = 32"
  by (simp add: rs_generator_def)

lemma length_rs_shift_loop [simp]: "length (rs_shift_loop l j p) = length p"
  by (induction l j p rule: rs_shift_loop.induct) simp_all

lemma rs_shift_loop_nth:
  "j < length p \<Longrightarrow> i < length p \<Longrightarrow>
     rs_shift_loop l j p ! i =
       (if 0 < i \<and> i \<le> j then p ! (i - 1) XOR GF_ILOG ! rs_index l (GG_LOG ! i) else p ! i)"
proof (induction l j p arbitrary: i rule: rs_shift_loop.induct)
  case (2 l j p)
  then show ?case by (cases "i = Suc j") (auto simp: nth_list_update)
qed auto

lemma length_rs_step [simp]: "length p = 32 \<Longrightarrow> length (rs_step d p) = 32"
  by (simp add: rs_step_def CCSDS_RS_PARITY_LAST_INDEX_def CCSDS_RS_PARITY_LEN_def Let_def)

lemma length_rs_divide_step [simp]: "length r = 32 \<Longrightarrow> length (rs_divide_step rs_generator d r) = 32"
  by (simp add: rs_divide_step_def Let_def)

lemma rs_step_divides:
  assumes p: "length p = 32"
  shows "rs_step d p = rs_divide_step rs_generator d p"
proof (rule nth_equalityI)
  show "length (rs_step d p) = length (rs_divide_step rs_generator d p)" using p by simp
  fix i assume "i < length (rs_step d p)"
  with p have i: "i < 32" by simp
  define f where "f = d XOR p ! 31"
  have last: "last p = p ! 31" using p by (subst last_conv_nth) auto
  have rhs: "rs_divide_step rs_generator d p ! i =
      (if i = 0 then 0 else p ! (i - 1)) XOR gf_mul f (GF_ILOG ! unat (GG_LOG ! i))"
    using i p by (simp add: rs_divide_step_def last f_def [symmetric] rs_generator_def
        nth_Cons' nth_butlast)
  show "rs_step d p ! i = rs_divide_step rs_generator d p ! i"
  proof (cases "f = 0")
    case True
    then have step: "rs_step d p = 0 # take 31 p"
      by (simp add: rs_step_def f_def CCSDS_RS_PARITY_LAST_INDEX_def CCSDS_RS_PARITY_LEN_def)
    from True i p show ?thesis unfolding step rhs by (simp add: nth_Cons')
  next
    case False
    then have step: "rs_step d p = (rs_shift_loop (GF_LOG ! unat f) 31 p)
        [0 := GF_ILOG ! unat (GF_LOG ! unat f)]"
      by (simp add: rs_step_def f_def Let_def CCSDS_RS_PARITY_LAST_INDEX_def CCSDS_RS_PARITY_LEN_def)
    have g0: "GF_ILOG ! unat (GG_LOG ! 0) = 1"
      by (simp add: GF_ILOG_def GG_LOG_def)
    show ?thesis
    proof (cases "i = 0")
      case True
      from rhs have "rs_divide_step rs_generator d p ! 0 = f" by (simp add: True g0)
      with False p show ?thesis unfolding step True by (simp add: gf_log_ilog)
    next
      case pos: False
      with False i p show ?thesis
        unfolding step rhs by (simp add: rs_shift_loop_nth gf_table_product gg_log_less)
    qed
  qed
qed

lemma rs_encode_codeblock_divides:
  "ccsds_rs_encode_codeblock data = fold (rs_divide_step rs_generator) data (replicate 32 0)"
proof -
  have "length p = 32 \<Longrightarrow> fold rs_step data p = fold (rs_divide_step rs_generator) data p" for p
    by (induction data arbitrary: p) (simp_all add: rs_step_divides)
  then show ?thesis by (simp add: ccsds_rs_encode_codeblock_def CCSDS_RS_PARITY_LEN_def)
qed

lemma length_rs_encode_codeblock [simp]: "length (ccsds_rs_encode_codeblock data) = 32"
proof -
  have "length p = 32 \<Longrightarrow> length (fold rs_step data p) = 32" for p
    by (induction data arbitrary: p) simp_all
  then show ?thesis by (simp add: ccsds_rs_encode_codeblock_def CCSDS_RS_PARITY_LEN_def)
qed

lemma length_rs_encode_blocks [simp]: "length (rs_encode_blocks depth data) = 32 * depth"
  by (induction depth arbitrary: data) simp_all

text \<open>Linearity.\<close>

definition xor_octets :: "octets \<Rightarrow> octets \<Rightarrow> octets" where
  "xor_octets a b = map2 (XOR) a b"

lemma length_xor_octets [simp]: "length (xor_octets a b) = min (length a) (length b)"
  by (simp add: xor_octets_def)

lemma xor_octets_nth [simp]:
  "i < length a \<Longrightarrow> i < length b \<Longrightarrow> xor_octets a b ! i = a ! i XOR b ! i"
  by (simp add: xor_octets_def)

lemma xor_octets_Nil [simp]: "xor_octets [] [] = []"
  and xor_octets_Cons: "xor_octets (a # as) (b # bs) = (a XOR b) # xor_octets as bs"
  by (simp_all add: xor_octets_def)

lemma xor_octets_append:
  "length a = length c \<Longrightarrow> xor_octets (a @ b) (c @ d) = xor_octets a c @ xor_octets b d"
  by (simp add: xor_octets_def)

lemma rs_divide_step_xor:
  assumes "length r = 32" "length s = 32"
  shows "rs_divide_step rs_generator (d XOR e) (xor_octets r s)
       = xor_octets (rs_divide_step rs_generator d r) (rs_divide_step rs_generator e s)"
proof (rule nth_equalityI)
  fix i assume "i < length (rs_divide_step rs_generator (d XOR e) (xor_octets r s))"
  then have i: "i < 32" using assms by simp
  have nth: "rs_divide_step rs_generator x q ! i =
      (if i = 0 then 0 else q ! (i - 1)) XOR gf_mul (x XOR q ! 31) (rs_generator ! i)"
    if "length q = 32" for x q
  proof -
    have "last q = q ! 31" using that by (subst last_conv_nth) auto
    with i that show ?thesis by (simp add: rs_divide_step_def nth_Cons' nth_butlast)
  qed
  have "(d XOR e) XOR (r ! 31 XOR s ! 31) = (d XOR r ! 31) XOR (e XOR s ! 31)"
    by (simp only: ac_simps)
  then show "rs_divide_step rs_generator (d XOR e) (xor_octets r s) ! i
      = xor_octets (rs_divide_step rs_generator d r) (rs_divide_step rs_generator e s) ! i"
    using assms i by (auto simp: nth gf_mul_xor_left ac_simps)
qed (use assms in simp)

lemma rs_encode_codeblock_xor:
  assumes "length a = length b"
  shows "ccsds_rs_encode_codeblock (xor_octets a b)
       = xor_octets (ccsds_rs_encode_codeblock a) (ccsds_rs_encode_codeblock b)"
proof -
  let ?f = "fold (rs_divide_step rs_generator)"
  have "length r = 32 \<Longrightarrow> length s = 32 \<Longrightarrow>
      ?f (xor_octets a b) (xor_octets r s) = xor_octets (?f a r) (?f b s)" for r s
    using assms
    by (induction a b arbitrary: r s rule: list_induct2)
      (simp_all add: xor_octets_Cons rs_divide_step_xor)
  moreover have "xor_octets (replicate 32 0) (replicate 32 0) = (replicate 32 0 :: octets)"
    by (simp add: xor_octets_def zip_replicate)
  ultimately show ?thesis by (metis length_replicate rs_encode_codeblock_divides)
qed

lemma rs_encode_blocks_xor:
  "length a = length b \<Longrightarrow>
     rs_encode_blocks k (xor_octets a b) = xor_octets (rs_encode_blocks k a) (rs_encode_blocks k b)"
proof (induction k arbitrary: a b)
  case (Suc k)
  have "take n (xor_octets a b) = xor_octets (take n a) (take n b)"
    "drop n (xor_octets a b) = xor_octets (drop n a) (drop n b)" for n
    by (simp_all add: xor_octets_def take_map drop_map take_zip drop_zip)
  with Suc show ?case by (simp add: rs_encode_codeblock_xor xor_octets_append)
qed (simp add: xor_octets_def)

section \<open>Properties\<close>

text \<open>
  The logarithm and antilogarithm tables are right: looking up a product of a nonzero octet
  with any tabulated coefficient, with the one conditional subtraction of 255, gives the product
  in GF(256) modulo the polynomial 0x187, computed by shift and add.
\<close>

theorem rs_table_product_is_field_product:
  assumes "feedback \<noteq> 0" and "coefficient_log \<noteq> 255"
  shows "GF_ILOG ! rs_index (GF_LOG ! unat feedback) coefficient_log
           = gf_mul feedback (GF_ILOG ! unat coefficient_log)"
proof -
  have "unat coefficient_log \<noteq> 255" using assms(2) by (simp add: word_unat_eq_iff)
  then have "unat coefficient_log < 255" using unat_octet_less [of coefficient_log] by linarith
  then show ?thesis using assms(1) by (rule gf_table_product [rotated])
qed

lemma rs_table_product_is_field_product_witness:
  "GF_ILOG ! rs_index (GF_LOG ! unat (0x53 :: u8)) 0xd7 = gf_mul 0x53 (GF_ILOG ! unat (0xd7 :: u8))"
  by (rule rs_table_product_is_field_product) simp_all

text \<open>
  C37: The in-place register loop of the codeblock encoder, with its zero-feedback shortcut, is
  polynomial division: after every prefix of the data the parity octets are the register of the
  division by \<open>x^32 + g_31 x^31 + ... + g_0\<close> over GF(256), with \<open>g\<close> the stored coefficients.
\<close>

theorem rs_encode_codeblock_is_division:
  "ccsds_rs_encode_codeblock data = fold (rs_divide_step rs_generator) data (replicate 32 0)"
  by (rule rs_encode_codeblock_divides)

text \<open>
  The frame encoder is linear and produces one 32-octet parity field per codeblock: the
  parity of the exclusive or of two frames is the exclusive or of their parities.
\<close>

theorem rs_encode_is_linear:
  assumes "length a = length b"
  shows "length (ccsds_rs_encode a) = CCSDS_RS_INTERLEAVED_PARITY_LEN \<and>
         ccsds_rs_encode (xor_octets a b) = xor_octets (ccsds_rs_encode a) (ccsds_rs_encode b)"
  using rs_encode_blocks_xor [OF assms]
  by (simp add: ccsds_rs_encode_def CCSDS_RS_INTERLEAVED_PARITY_LEN_def CCSDS_RS_PARITY_LEN_def)

lemma rs_encode_is_linear_witness:
  "length (ccsds_rs_encode [1, 2, 3]) = CCSDS_RS_INTERLEAVED_PARITY_LEN \<and>
   ccsds_rs_encode (xor_octets [1, 2, 3] [4, 5, 6])
     = xor_octets (ccsds_rs_encode [1, 2, 3]) (ccsds_rs_encode [4, 5, 6])"
  by (rule rs_encode_is_linear) simp

text \<open>
  Evaluation of a polynomial with coefficients \<open>cs\<close>, low first. The CCSDS code has the generator
  with the roots \<open>a^(11 j)\<close> for \<open>j\<close> in 112..143, where \<open>a\<close> is the element \<open>x\<close>.
\<close>

fun gf_eval :: "octets \<Rightarrow> u8 \<Rightarrow> u8" where
  "gf_eval [] z = 0"
| "gf_eval (c # cs) z = c XOR gf_mul z (gf_eval cs z)"

definition ccsds_code_roots :: octets where
  "ccsds_code_roots = map (\<lambda>j. (gf_double ^^ (11 * j)) 1) [112..<144]"

text \<open>The value at \<open>a^r\<close>, times \<open>a^k\<close>, as a sum of table entries.\<close>

fun gf_log_sum :: "nat \<Rightarrow> nat \<Rightarrow> u8 list \<Rightarrow> u8" where
  "gf_log_sum r k [] = GF_ILOG ! (k mod 255)"
| "gf_log_sum r k (l # ls) =
     GF_ILOG ! ((unat l + k) mod 255) XOR gf_log_sum r ((k + r) mod 255) ls"

lemma gf_power_reduce: "(gf_double ^^ k) 1 = GF_ILOG ! (k mod 255)"
proof (induction k rule: less_induct)
  case (less k)
  show ?case
  proof (cases "k < 255")
    case False
    with less [of "k - 255"] show ?thesis
      using gf_power_mod [of "k - 255"] by (simp add: mod_if [of k])
  qed (simp add: gf_ilog_nth)
qed

lemma gf_power_xor: "(gf_double ^^ k) (a XOR b) = (gf_double ^^ k) a XOR (gf_double ^^ k) b"
  by (induction k) (simp_all add: gf_double_xor)

lemma gf_eval_log_sum:
  assumes "list_all (\<lambda>l. l \<noteq> 255) ls"
  shows "(gf_double ^^ k) (gf_eval (map (\<lambda>l. GF_ILOG ! unat l) ls @ [1]) ((gf_double ^^ r) 1))
       = gf_log_sum r k ls"
  using assms
proof (induction ls arbitrary: k)
  case Nil
  have "gf_mul z 0 = 0" for z
  proof -
    have "(gf_double ^^ n) 0 = 0" for n by (induction n) simp_all
    then show ?thesis by (simp add: gf_mul_terms del: funpow.simps)
  qed
  then show ?case by (simp add: gf_power_reduce)
next
  case (Cons l ls)
  let ?v = "gf_eval (map (\<lambda>l. GF_ILOG ! unat l) ls @ [1]) ((gf_double ^^ r) 1)"
  from Cons.prems have "unat l \<noteq> 255" by (simp add: word_unat_eq_iff)
  then have l: "unat l < 255" using unat_octet_less [of l] by linarith
  have "(gf_double ^^ k) (gf_eval (map (\<lambda>l. GF_ILOG ! unat l) (l # ls) @ [1]) ((gf_double ^^ r) 1))
      = (gf_double ^^ k) ((gf_double ^^ unat l) 1) XOR (gf_double ^^ (k + r)) ?v"
    using l by (simp add: gf_power_xor gf_mul_power gf_ilog_nth funpow_add)
  also have "(gf_double ^^ k) ((gf_double ^^ unat l) 1) = GF_ILOG ! ((unat l + k) mod 255)"
    by (metis add.commute comp_apply funpow_add gf_power_reduce)
  also have "(gf_double ^^ (k + r)) ?v = gf_log_sum r ((k + r) mod 255) ls"
  proof -
    have "gf_log_sum r m ls = gf_log_sum r (m mod 255) ls" for m
      by (cases ls) (simp_all add: mod_simps)
    then show ?thesis using Cons by simp
  qed
  finally show ?case by simp
qed

lemma rs_generator_eval_log_sum:
  "gf_eval (rs_generator @ [1]) ((gf_double ^^ r) 1) = gf_log_sum (r mod 255) 0 GG_LOG"
proof -
  have "(gf_double ^^ r) 1 = (gf_double ^^ (r mod 255)) 1" by (simp add: gf_power_reduce)
  then show ?thesis
    using gf_eval_log_sum [OF gg_log_range, of 0 "r mod 255"] by (simp add: rs_generator_def)
qed

text \<open>
  The stored generator is not the generator of the CCSDS (255,223) code its comment names:
  that polynomial vanishes at all 32 prescribed roots, and this one does not (it is nonzero at
  the first of them already), so parity computed with it is rejected by a conforming decoder.
\<close>

theorem rs_generator_misses_ccsds_roots:
  "\<not> list_all (\<lambda>z. gf_eval (rs_generator @ [1]) z = 0) ccsds_code_roots"
proof -
  have "gf_log_sum 212 0 GG_LOG \<noteq> 0"
    by (simp add: GG_LOG_def GF_ILOG_def)
  then have "gf_eval (rs_generator @ [1]) ((gf_double ^^ (11 * 112)) 1) \<noteq> 0"
    by (subst rs_generator_eval_log_sum) simp
  moreover have "(gf_double ^^ (11 * 112)) 1 \<in> set ccsds_code_roots"
    unfolding ccsds_code_roots_def set_map by (rule imageI) simp
  ultimately show ?thesis
    unfolding list_all_iff by blast
qed

end
