(* ===== verification/Randomizer.thy ===== *)
theory Randomizer
  imports Ccsds_Prelude
begin

text \<open>
  The pseudo-randomizer of \<open>ccsds_rnd.c\<close>: the mask table and the in-place loop with its wrapping
  table index. The lemmas show that the loop is its own inverse, that octet \<open>i\<close> is masked by
  entry \<open>i mod 255\<close>, and that the table is the octet sequence of the CCSDS shift register.
\<close>

unbundle bit_operations_syntax

definition CCSDS_RND_SEQ_BYTES :: nat where "CCSDS_RND_SEQ_BYTES = 255"

definition ccsds_rnd_seq :: "u8 list" where
  "ccsds_rnd_seq =
    [
     0xff, 0x48, 0x0e, 0xc0, 0x9a, 0x0d, 0x70, 0xbc, 0x8e, 0x2c, 0x93, 0xad,
     0xa7, 0xb7, 0x46, 0xce, 0x5a, 0x97, 0x7d, 0xcc, 0x32, 0xa2, 0xbf, 0x3e,
     0x0a, 0x10, 0xf1, 0x88, 0x94, 0xcd, 0xea, 0xb1, 0xfe, 0x90, 0x1d, 0x81,
     0x34, 0x1a, 0xe1, 0x79, 0x1c, 0x59, 0x27, 0x5b, 0x4f, 0x6e, 0x8d, 0x9c,
     0xb5, 0x2e, 0xfb, 0x98, 0x65, 0x45, 0x7e, 0x7c, 0x14, 0x21, 0xe3, 0x11,
     0x29, 0x9b, 0xd5, 0x63, 0xfd, 0x20, 0x3b, 0x02, 0x68, 0x35, 0xc2, 0xf2,
     0x38, 0xb2, 0x4e, 0xb6, 0x9e, 0xdd, 0x1b, 0x39, 0x6a, 0x5d, 0xf7, 0x30,
     0xca, 0x8a, 0xfc, 0xf8, 0x28, 0x43, 0xc6, 0x22, 0x53, 0x37, 0xaa, 0xc7,
     0xfa, 0x40, 0x76, 0x04, 0xd0, 0x6b, 0x85, 0xe4, 0x71, 0x64, 0x9d, 0x6d,
     0x3d, 0xba, 0x36, 0x72, 0xd4, 0xbb, 0xee, 0x61, 0x95, 0x15, 0xf9, 0xf0,
     0x50, 0x87, 0x8c, 0x44, 0xa6, 0x6f, 0x55, 0x8f, 0xf4, 0x80, 0xec, 0x09,
     0xa0, 0xd7, 0x0b, 0xc8, 0xe2, 0xc9, 0x3a, 0xda, 0x7b, 0x74, 0x6c, 0xe5,
     0xa9, 0x77, 0xdc, 0xc3, 0x2a, 0x2b, 0xf3, 0xe0, 0xa1, 0x0f, 0x18, 0x89,
     0x4c, 0xde, 0xab, 0x1f, 0xe9, 0x01, 0xd8, 0x13, 0x41, 0xae, 0x17, 0x91,
     0xc5, 0x92, 0x75, 0xb4, 0xf6, 0xe8, 0xd9, 0xcb, 0x52, 0xef, 0xb9, 0x86,
     0x54, 0x57, 0xe7, 0xc1, 0x42, 0x1e, 0x31, 0x12, 0x99, 0xbd, 0x56, 0x3f,
     0xd2, 0x03, 0xb0, 0x26, 0x83, 0x5c, 0x2f, 0x23, 0x8b, 0x24, 0xeb, 0x69,
     0xed, 0xd1, 0xb3, 0x96, 0xa5, 0xdf, 0x73, 0x0c, 0xa8, 0xaf, 0xcf, 0x82,
     0x84, 0x3c, 0x62, 0x25, 0x33, 0x7a, 0xac, 0x7f, 0xa4, 0x07, 0x60, 0x4d,
     0x06, 0xb8, 0x5e, 0x47, 0x16, 0x49, 0xd6, 0xd3, 0xdb, 0xa3, 0x67, 0x2d,
     0x4b, 0xbe, 0xe6, 0x19, 0x51, 0x5f, 0x9f, 0x05, 0x08, 0x78, 0xc4, 0x4a,
     0x66, 0xf5, 0x58]"

text \<open>The loop carries \<open>seq_index\<close>, reset when it reaches the end of the table.\<close>

fun rnd_loop :: "nat \<Rightarrow> octets \<Rightarrow> octets" where
  "rnd_loop seq_index [] = []"
| "rnd_loop seq_index (d # data) =
     (d XOR ccsds_rnd_seq ! seq_index)
       # rnd_loop (if seq_index + 1 = CCSDS_RND_SEQ_BYTES then 0 else seq_index + 1) data"

definition ccsds_rnd_apply :: "octets \<Rightarrow> octets" where
  "ccsds_rnd_apply data = rnd_loop 0 data"

lemma length_rnd_loop [simp]: "length (rnd_loop k data) = length data"
  by (induction k data rule: rnd_loop.induct) simp_all

lemma rnd_loop_nth:
  "k < 255 \<Longrightarrow> i < length data \<Longrightarrow>
     rnd_loop k data ! i = data ! i XOR ccsds_rnd_seq ! ((k + i) mod 255)"
proof (induction k data arbitrary: i rule: rnd_loop.induct)
  case (2 k d data)
  let ?k = "if k + 1 = CCSDS_RND_SEQ_BYTES then 0 else k + 1"
  show ?case
  proof (cases i)
    case 0
    with "2.prems" show ?thesis by simp
  next
    case (Suc n)
    have "?k < 255" using "2.prems" by (auto simp: CCSDS_RND_SEQ_BYTES_def)
    with 2 Suc have "rnd_loop k (d # data) ! i = data ! n XOR ccsds_rnd_seq ! ((?k + n) mod 255)"
      by simp
    moreover have "(?k + n) mod 255 = (k + i) mod 255"
      using Suc by (auto simp: CCSDS_RND_SEQ_BYTES_def)
    ultimately show ?thesis using Suc by simp
  qed
qed simp

lemma rnd_loop_twice: "rnd_loop k (rnd_loop k data) = data"
  by (induction k data rule: rnd_loop.induct) simp_all

text \<open>One shift of the register with polynomial \<open>x^8 + x^7 + x^5 + x^3 + 1\<close>, and eight of them.\<close>

definition rnd_shift :: "u8 \<Rightarrow> u8" where
  "rnd_shift w =
     push_bit 1 w OR ((drop_bit 7 w XOR drop_bit 4 w XOR drop_bit 2 w XOR w) AND 1)"

fun rnd_register :: "nat \<Rightarrow> u8 \<Rightarrow> u8 list" where
  "rnd_register 0 w = []"
| "rnd_register (Suc n) w = w # rnd_register n ((rnd_shift ^^ 8) w)"

lemma rnd_register_numeral:
  "rnd_register (numeral k) w = w # rnd_register (pred_numeral k) ((rnd_shift ^^ 8) w)"
  by (simp add: numeral_eq_Suc)

text \<open>Eight shifts are linear, so they are given by their values on the eight unit vectors.\<close>

lemma rnd_shift_xor: "rnd_shift (a XOR b) = rnd_shift a XOR rnd_shift b"
  by (rule bit_word_eqI) (auto simp: rnd_shift_def bit_simps bit_0)

lemma rnd_shift8_xor: "(rnd_shift ^^ 8) (a XOR b) = (rnd_shift ^^ 8) a XOR (rnd_shift ^^ 8) b"
proof -
  have "(rnd_shift ^^ k) (a XOR b) = (rnd_shift ^^ k) a XOR (rnd_shift ^^ k) b" for k
    by (induction k) (simp_all add: rnd_shift_xor)
  then show ?thesis .
qed

lemma octet_unit_sum:
  "w = (if bit w 0 then 1 else 0) XOR (if bit w 1 then 2 else 0) XOR
     (if bit w 2 then 4 else 0) XOR (if bit w 3 then 8 else 0) XOR
     (if bit w 4 then 16 else 0) XOR (if bit w 5 then 32 else 0) XOR
     (if bit w 6 then 64 else 0) XOR (if bit w 7 then 128 else 0)" for w :: u8
proof (rule bit_word_eqI)
  fix n assume "n < LENGTH(8)"
  then have n: "n = 0 \<or> n = 1 \<or> n = 2 \<or> n = 3 \<or> n = 4 \<or> n = 5 \<or> n = 6 \<or> n = 7" by auto
  have b: "bit (if c then v else 0) n = (c \<and> bit v n)" for c and v :: u8 by simp
  show "bit w n = bit (((if bit w 0 then 1 else 0) XOR (if bit w 1 then 2 else 0) XOR
     (if bit w 2 then 4 else 0) XOR (if bit w 3 then 8 else 0) XOR
     (if bit w 4 then 16 else 0) XOR (if bit w 5 then 32 else 0) XOR
     (if bit w 6 then 64 else 0) XOR (if bit w 7 then 128 else 0)) :: u8) n"
    unfolding bit_xor_iff b using n by (elim disjE; hypsubst) simp_all
qed

lemma rnd_shift8_columns:
  "(rnd_shift ^^ 8) w =
     (if bit w 0 then 216 else 0) XOR (if bit w 1 then 104 else 0) XOR
     (if bit w 2 then 208 else 0) XOR (if bit w 3 then 120 else 0) XOR
     (if bit w 4 then 241 else 0) XOR (if bit w 5 then 59 else 0) XOR
     (if bit w 6 then 118 else 0) XOR (if bit w 7 then 236 else 0)"
proof -
  have unfold8: "(rnd_shift ^^ 8) v = rnd_shift (rnd_shift (rnd_shift (rnd_shift
      (rnd_shift (rnd_shift (rnd_shift (rnd_shift v)))))))" for v
    by (simp add: numeral_eq_Suc)
  have cond: "(rnd_shift ^^ 8) (if c then v else 0) = (if c then (rnd_shift ^^ 8) v else 0)" for c v
    unfolding unfold8 by (simp add: rnd_shift_def)
  show ?thesis
    by (subst octet_unit_sum [of w], simp only: rnd_shift8_xor cond)
      (simp add: unfold8 rnd_shift_def)
qed

section \<open>Properties\<close>

text \<open>
  Randomizing is self-inverse on every buffer, keeps its length, and masks octet \<open>i\<close> with
  table entry \<open>i mod 255\<close>, whatever the length of the buffer.
\<close>

theorem rnd_apply_self_inverse:
  "ccsds_rnd_apply (ccsds_rnd_apply data) = data \<and>
   ccsds_rnd_apply data = map (\<lambda>i. data ! i XOR ccsds_rnd_seq ! (i mod 255)) [0..<length data]"
  by (auto simp: ccsds_rnd_apply_def rnd_loop_twice rnd_loop_nth intro: nth_equalityI)

text \<open>
  The mask table is the CCSDS pseudo-random sequence: its 255 octets are the successive
  states, eight shifts apart, of the register \<open>x^8 + x^7 + x^5 + x^3 + 1\<close> started at all ones.
\<close>

theorem rnd_table_is_shift_register_sequence:
  "ccsds_rnd_seq = rnd_register CCSDS_RND_SEQ_BYTES 0xff"
  unfolding CCSDS_RND_SEQ_BYTES_def
  by (simp add: ccsds_rnd_seq_def rnd_register_numeral rnd_shift8_columns)

end
