(* ===== verification/Cltu.thy ===== *)
theory Cltu
  imports Bch
begin

text \<open>
  The CLTU layer of \<open>ccsds_cltu.c\<close> and \<open>ccsds_cltu.h\<close>: the start sequence test with its one-bit
  tolerance, the tail sequence test, the receiver state and the decoder of a complete CLTU into
  transfer frame octets. The lemmas give the exact language the decoder accepts and its tolerance
  of one bit error per code block.
\<close>

unbundle bit_operations_syntax

definition CLTU_START_SEQUENCE :: u16 where "CLTU_START_SEQUENCE = 0xeb90"
definition CONFIG_AKIRA_CCSDS_MAX_CLTU_LEN :: nat where "CONFIG_AKIRA_CCSDS_MAX_CLTU_LEN = 1024"

definition cltu_tail_sequence :: octets where
  "cltu_tail_sequence = [0xc5, 0xc5, 0xc5, 0xc5, 0xc5, 0xc5, 0xc5, 0x79]"

text \<open>The compiler's population count, on an octet.\<close>

definition popcount :: "u8 \<Rightarrow> nat" where
  "popcount w = length (filter (bit w) [0..<8])"

definition ccsds_cltu_is_start_sequence :: "octets \<Rightarrow> bool" where
  "ccsds_cltu_is_start_sequence candidate =
     (let errors = popcount (candidate ! 0 XOR ucast (drop_bit 8 CLTU_START_SEQUENCE))
      in if errors > 1 then False
         else errors + popcount (candidate ! 1 XOR ucast (CLTU_START_SEQUENCE AND 0xff)) \<le> 1)"

definition ccsds_cltu_has_tail_sequence :: "octets \<Rightarrow> bool" where
  "ccsds_cltu_has_tail_sequence cltu =
     (let tail_offset = length cltu - CCSDS_BCH_BLOCK_SIZE
      in if cltu ! (length cltu - 1) \<noteq> cltu_tail_sequence ! (CCSDS_BCH_BLOCK_SIZE - 1) then False
         else list_all (\<lambda>i. cltu ! (tail_offset + i) = cltu_tail_sequence ! i)
                [0..<CCSDS_BCH_BLOCK_SIZE - 1])"

text \<open>The streaming receiver. Pushing is not implemented by the source: it returns an error.\<close>

record 'cb ccsds_cltu_rx =
  on_frame :: "'cb option"
  buffered_len :: nat
  in_cltu :: bool
  cltu_buffer :: octets

definition ccsds_cltu_rx_init :: "'cb \<Rightarrow> 'cb ccsds_cltu_rx" where
  "ccsds_cltu_rx_init frame_cb =
     \<lparr>on_frame = Some frame_cb, buffered_len = 0, in_cltu = False,
      cltu_buffer = replicate CONFIG_AKIRA_CCSDS_MAX_CLTU_LEN 0\<rparr>"

definition ccsds_cltu_rx_reset :: "'cb ccsds_cltu_rx \<Rightarrow> 'cb ccsds_cltu_rx" where
  "ccsds_cltu_rx_reset rx = rx\<lparr>buffered_len := 0, in_cltu := False\<rparr>"

definition ccsds_cltu_rx_push :: "'cb ccsds_cltu_rx \<Rightarrow> octets \<Rightarrow> int \<times> 'cb ccsds_cltu_rx" where
  "ccsds_cltu_rx_push rx chunk = (- ENOTSUP, rx)"

text \<open>The block loop over \<open>body\<close>, with \<open>blocks\<close> blocks left to decode.\<close>

fun cltu_decode_blocks :: "octets \<Rightarrow> nat \<Rightarrow> octets result" where
  "cltu_decode_blocks body 0 = Inr []"
| "cltu_decode_blocks body (Suc blocks) =
     (case ccsds_bch_decode_block (take CCSDS_BCH_BLOCK_SIZE body) of
        (CCSDS_BCH_DETECTED_EVEN, data, corrected_bit) \<Rightarrow> Inl (- EIO)
      | (CCSDS_BCH_DETECTED_ODD, data, corrected_bit) \<Rightarrow> Inl (- EIO)
      | (_, data, corrected_bit) \<Rightarrow>
          (case cltu_decode_blocks (drop CCSDS_BCH_BLOCK_SIZE body) blocks of
             Inl ret \<Rightarrow> Inl ret
           | Inr rest \<Rightarrow> Inr (data @ rest)))"

definition ccsds_cltu_decode_message :: "octets \<Rightarrow> nat \<Rightarrow> octets result" where
  "ccsds_cltu_decode_message cltu tc_frame_cap =
     (let start_len = 2;
          min_len = start_len + 2 * CCSDS_BCH_BLOCK_SIZE;
          bch_len = length cltu - start_len;
          decoded_block_count = bch_len div CCSDS_BCH_BLOCK_SIZE - 1;
          decoded_len = decoded_block_count * CCSDS_BCH_DATA_SIZE
      in if length cltu < min_len then Inl (- EINVAL)
         else if length cltu > CONFIG_AKIRA_CCSDS_MAX_CLTU_LEN then Inl (- EINVAL)
         else if \<not> ccsds_cltu_is_start_sequence cltu then Inl (- EINVAL)
         else if bch_len mod CCSDS_BCH_BLOCK_SIZE \<noteq> 0 then Inl (- EINVAL)
         else if \<not> ccsds_cltu_has_tail_sequence cltu then Inl (- EINVAL)
         else if tc_frame_cap < decoded_len then Inl (- ENOSPC)
         else cltu_decode_blocks (drop start_len cltu) decoded_block_count)"

section \<open>The start and tail sequences\<close>

lemma ccsds_cltu_is_start_append:
  "2 \<le> length s \<Longrightarrow> ccsds_cltu_is_start_sequence (s @ r) = ccsds_cltu_is_start_sequence s"
  by (cases s; cases "tl s") (simp_all add: ccsds_cltu_is_start_sequence_def)

lemma cltu_tail_append:
  assumes "length t = 8"
  shows "ccsds_cltu_has_tail_sequence (pre @ t) \<longleftrightarrow> t = cltu_tail_sequence"
proof -
  from list_of_8 [OF assms] obtain a b c d e f g h where t: "t = [a, b, c, d, e, f, g, h]"
    by blast
  have upt: "[0..<7] = [0, 1, 2, 3, 4, 5, 6 :: nat]" by (simp add: upt_rec)
  show ?thesis
    by (auto simp: ccsds_cltu_has_tail_sequence_def CCSDS_BCH_BLOCK_SIZE_def t upt nth_append
        cltu_tail_sequence_def simp del: upt_rec_numeral)
qed

definition bch_accepted :: "octets \<Rightarrow> bool" where
  "bch_accepted b \<longleftrightarrow>
     fst (ccsds_bch_decode_block b) = CCSDS_BCH_OK \<or>
     fst (ccsds_bch_decode_block b) = CCSDS_BCH_CORRECTED"

definition bch_data :: "octets \<Rightarrow> octets" where
  "bch_data b = fst (snd (ccsds_bch_decode_block b))"

lemma cltu_decode_blocks_step:
  "length b = 8 \<Longrightarrow>
     cltu_decode_blocks (b @ body) (Suc n) =
       (if bch_accepted b
        then (case cltu_decode_blocks body n of
                Inl ret \<Rightarrow> Inl ret | Inr rest \<Rightarrow> Inr (bch_data b @ rest))
        else Inl (- EIO))"
  by (cases "ccsds_bch_decode_block b")
    (auto simp: CCSDS_BCH_BLOCK_SIZE_def bch_accepted_def bch_data_def
      split: ccsds_bch_result.split sum.split)

lemma cltu_decode_blocks_concat:
  "list_all (\<lambda>b. length b = 8) blocks \<Longrightarrow>
     cltu_decode_blocks (concat blocks @ rest) (length blocks) =
       (if list_all bch_accepted blocks then Inr (concat (map bch_data blocks))
        else Inl (- EIO))"
proof (induction blocks)
  case (Cons b blocks)
  then show ?case
    by (simp add: cltu_decode_blocks_step del: cltu_decode_blocks.simps)
qed simp

text \<open>Splitting a body into blocks of eight octets.\<close>

lemma blocks_of_body:
  "length body = 8 * n \<Longrightarrow> \<exists>blocks. body = concat blocks \<and> length blocks = n \<and>
     list_all (\<lambda>b. length b = 8) blocks"
proof (induction n arbitrary: body)
  case (Suc n)
  have "length (drop 8 body) = 8 * n" using Suc.prems by simp
  from Suc.IH [OF this] obtain blocks where "drop 8 body = concat blocks" "length blocks = n"
      "list_all (\<lambda>b. length b = 8) blocks" by blast
  with Suc.prems show ?case
    by (intro exI [of _ "take 8 body # blocks"]) (simp flip: \<open>drop 8 body = concat blocks\<close>)
qed simp

lemma length_concat_blocks:
  "list_all (\<lambda>b. length b = 8) blocks \<Longrightarrow> length (concat blocks) = 8 * length blocks"
  by (induction blocks) simp_all

text \<open>A message in CLTU form: a start sequence, code blocks and the tail.\<close>

definition cltu_of :: "octets \<Rightarrow> octets list \<Rightarrow> octets" where
  "cltu_of start blocks = start @ concat blocks @ cltu_tail_sequence"

definition cltu_form :: "octets \<Rightarrow> octets list \<Rightarrow> bool" where
  "cltu_form start blocks \<longleftrightarrow>
     length start = 2 \<and> blocks \<noteq> [] \<and> list_all (\<lambda>b. length b = CCSDS_BCH_BLOCK_SIZE) blocks \<and>
     length (cltu_of start blocks) \<le> CONFIG_AKIRA_CCSDS_MAX_CLTU_LEN"

lemma length_tail [simp]: "length cltu_tail_sequence = 8"
  by (simp add: cltu_tail_sequence_def)

lemma cltu_decode_of:
  assumes "cltu_form start blocks"
  shows "ccsds_cltu_decode_message (cltu_of start blocks) cap =
     (if \<not> ccsds_cltu_is_start_sequence start then Inl (- EINVAL)
      else if cap < 7 * length blocks then Inl (- ENOSPC)
      else if list_all bch_accepted blocks then Inr (concat (map bch_data blocks))
      else Inl (- EIO))"
proof -
  have start: "length start = 2" and ne: "blocks \<noteq> []"
    and bl: "list_all (\<lambda>b. length b = 8) blocks"
    and max: "length (cltu_of start blocks) \<le> 1024"
    using assms by (simp_all add: cltu_form_def CCSDS_BCH_BLOCK_SIZE_def
        CONFIG_AKIRA_CCSDS_MAX_CLTU_LEN_def)
  have len: "length (cltu_of start blocks) = 2 + 8 * length blocks + 8"
    using start bl by (simp add: cltu_of_def length_concat_blocks)
  have "0 < length blocks" using ne by simp
  have tail: "ccsds_cltu_has_tail_sequence (cltu_of start blocks)"
    using cltu_tail_append [of cltu_tail_sequence "start @ concat blocks"] by (simp add: cltu_of_def)
  have div: "(2 + 8 * length blocks + 8 - 2) div 8 - 1 = length blocks"
    "(2 + 8 * length blocks + 8 - 2) mod 8 = 0" by simp_all
  have first: "ccsds_cltu_is_start_sequence (cltu_of start blocks) = ccsds_cltu_is_start_sequence start"
    using start by (simp add: cltu_of_def ccsds_cltu_is_start_append)
  have body: "drop 2 (cltu_of start blocks) = concat blocks @ cltu_tail_sequence"
    using start by (simp add: cltu_of_def)
  show ?thesis
    unfolding ccsds_cltu_decode_message_def Let_def CCSDS_BCH_BLOCK_SIZE_def CCSDS_BCH_DATA_SIZE_def
      CONFIG_AKIRA_CCSDS_MAX_CLTU_LEN_def len div first body
    using tail max len \<open>0 < length blocks\<close> bl
    by (simp add: cltu_decode_blocks_concat mult.commute)
qed

lemma cltu_decode_form:
  assumes "ccsds_cltu_decode_message cltu cap = Inr frame"
  shows "\<exists>start blocks. cltu = cltu_of start blocks \<and> cltu_form start blocks"
proof -
  from assms have conds: "18 \<le> length cltu" "length cltu \<le> 1024" "(length cltu - 2) mod 8 = 0"
      "ccsds_cltu_has_tail_sequence cltu"
    by (auto simp: ccsds_cltu_decode_message_def Let_def CCSDS_BCH_BLOCK_SIZE_def
        CONFIG_AKIRA_CCSDS_MAX_CLTU_LEN_def split: if_splits)
  define n where "n = (length cltu - 2) div 8 - 1"
  have len: "length cltu = 2 + 8 * n + 8" using conds(1,3) unfolding n_def by presburger
  let ?body = "take (8 * n) (drop 2 cltu)" and ?tail = "drop (8 * n) (drop 2 cltu)"
  have cltu: "cltu = take 2 cltu @ ?body @ ?tail" by (simp only: append_take_drop_id)
  have "length ?tail = 8" using len by simp
  then have tail: "?tail = cltu_tail_sequence"
    using conds(4) cltu cltu_tail_append [of ?tail "take 2 cltu @ ?body"] by simp
  have "length ?body = 8 * n" using len by simp
  from blocks_of_body [OF this] obtain blocks where blocks: "?body = concat blocks"
      "length blocks = n" "list_all (\<lambda>b. length b = 8) blocks" by blast
  have "0 < n" using len conds(1) by linarith
  have "cltu = cltu_of (take 2 cltu) blocks"
    using cltu tail blocks(1) by (simp add: cltu_of_def)
  moreover have "cltu_form (take 2 cltu) blocks"
    using calculation blocks(2,3) conds(1,2) \<open>0 < n\<close> len
    by (auto simp: cltu_form_def CCSDS_BCH_BLOCK_SIZE_def CONFIG_AKIRA_CCSDS_MAX_CLTU_LEN_def)
  ultimately show ?thesis by blast
qed

text \<open>Bit errors: at most one per code block.\<close>

fun damage :: "octets \<Rightarrow> nat option \<Rightarrow> octets" where
  "damage b None = b"
| "damage b (Some i) = flip_code_bit b i"

definition bch_valid :: "octets \<Rightarrow> bool" where
  "bch_valid b \<longleftrightarrow> fst (ccsds_bch_decode_block b) = CCSDS_BCH_OK"

definition code_bit_position :: "nat option \<Rightarrow> bool" where
  "code_bit_position pos \<longleftrightarrow> (case pos of None \<Rightarrow> True | Some i \<Rightarrow> i < 63)"

lemma bch_damage:
  assumes "length b = 8" "bch_valid b" "code_bit_position pos"
  shows "bch_accepted (damage b pos) \<and> bch_data (damage b pos) = bch_data b"
proof (cases pos)
  case None
  with assms show ?thesis by (simp add: bch_accepted_def bch_valid_def)
next
  case (Some i)
  with assms have i: "i < 63" by (simp add: code_bit_position_def)
  obtain d p where "ccsds_bch_decode_block b = (CCSDS_BCH_OK, d, p)"
    using assms(2) by (metis bch_valid_def prod.collapse)
  then have ok: "bch_word b" and b: "ccsds_bch_decode_block b = (CCSDS_BCH_OK, take 7 b, -1)"
    by (auto simp: bch_decode_ok)
  let ?d = "flip_code_bit b i"
  have "bch_word (flip_code_bit ?d i)" using ok by (simp add: flip_code_bit_twice)
  then have "ccsds_bch_decode_block ?d = (CCSDS_BCH_CORRECTED,
      if i < 56 then bch_flip_data (take 7 ?d) i else take 7 ?d, int i)"
    using assms(1) i by (subst bch_decode_corrected) auto
  moreover have "(if i < 56 then bch_flip_data (take 7 ?d) i else take 7 ?d) = take 7 b"
    using take_flip_code_bit [of ?d i] assms(1) i by (simp add: flip_code_bit_twice)
  ultimately show ?thesis
    by (simp add: Some bch_accepted_def bch_data_def b)
qed

lemma bch_damage_blocks:
  assumes "length positions = length blocks" "list_all (\<lambda>b. length b = 8) blocks"
    "list_all bch_valid blocks" "list_all code_bit_position positions"
  shows "list_all bch_accepted (map2 damage blocks positions) \<and>
         map bch_data (map2 damage blocks positions) = map bch_data blocks \<and>
         list_all (\<lambda>b. length b = 8) (map2 damage blocks positions)"
  using assms
proof (induction positions blocks rule: list_induct2)
  case (Cons pos positions b blocks)
  then have "length (damage b pos) = 8" by (cases pos) simp_all
  with Cons bch_damage [of b pos] show ?case by simp
qed simp

lemma popcount16_split:
  assumes "2 \<le> length c"
  shows "length (filter (bit (get_be16 c XOR CLTU_START_SEQUENCE)) [0..<16])
       = popcount (c ! 1 XOR 0x90) + popcount (c ! 0 XOR 0xeb)"
proof -
  let ?w = "get_be16 c XOR CLTU_START_SEQUENCE"
  have upt: "[0..<16] = [0..<8] @ map (\<lambda>i. i + 8) [0..<8]"
    by (simp add: upt_rec)
  have split: "(push_bit 8 (ucast a) OR ucast b) XOR (push_bit 8 (ucast x) OR ucast y)
      = (push_bit 8 (ucast (a XOR x)) OR ucast (b XOR y) :: u16)" for a b x y :: u8
  proof (rule bit_word_eqI)
    fix n
    have "8 \<le> n \<Longrightarrow> \<not> bit v n" for v :: u8 using bit_imp_le_length [of v n] by auto
    then show "bit ((push_bit 8 (ucast a) OR ucast b) XOR (push_bit 8 (ucast x) OR ucast y) :: u16) n
        = bit (push_bit 8 (ucast (a XOR x)) OR ucast (b XOR y) :: u16) n"
      by (cases "n < 8") (auto simp: bit_simps)
  qed
  have start: "CLTU_START_SEQUENCE = push_bit 8 (ucast (0xeb :: u8)) OR ucast (0x90 :: u8)"
    by (simp add: CLTU_START_SEQUENCE_def)
  have w: "?w = push_bit 8 (ucast (c ! 0 XOR 0xeb)) OR ucast (c ! 1 XOR 0x90)"
    unfolding get_be16_def start split ..
  have join: "bit (push_bit 8 (ucast x) OR ucast y :: u16) i = bit y i"
    "bit (push_bit 8 (ucast x) OR ucast y :: u16) (i + 8) = bit x i" if "i < 8" for x y :: u8 and i
    using that by (auto simp: bit_simps dest: bit_imp_le_length)
  have "filter (bit ?w) [0..<8] = filter (bit (c ! 1 XOR 0x90)) [0..<8]"
    unfolding w by (rule filter_cong) (simp_all only: set_upt atLeastLessThan_iff join)
  moreover have "filter (\<lambda>i. bit ?w (i + 8)) [0..<8] = filter (bit (c ! 0 XOR 0xeb)) [0..<8]"
    unfolding w by (rule filter_cong) (simp_all only: set_upt atLeastLessThan_iff join)
  ultimately show ?thesis
    by (simp add: upt filter_map comp_def popcount_def del: upt_rec_numeral) 
qed

section \<open>Properties\<close>

text \<open>
  The start sequence test accepts exactly the two-octet candidates within Hamming distance
  one of 0xEB90; the early exit after the first octet never changes the answer.
\<close>

theorem cltu_start_sequence_is_hamming_ball:
  assumes "2 \<le> length candidate"
  shows "ccsds_cltu_is_start_sequence candidate \<longleftrightarrow>
           length (filter (bit (get_be16 candidate XOR CLTU_START_SEQUENCE)) [0..<16]) \<le> 1"
  unfolding popcount16_split [OF assms]
  by (auto simp: ccsds_cltu_is_start_sequence_def CLTU_START_SEQUENCE_def Let_def)

lemma cltu_start_sequence_is_hamming_ball_witness:
  "ccsds_cltu_is_start_sequence [0xeb, 0x94]"
  by (subst cltu_start_sequence_is_hamming_ball)
    (simp_all add: get_be16_def CLTU_START_SEQUENCE_def upt_rec)

text \<open>
  C35: The decoder succeeds exactly on the messages that are a start sequence, at least one code
  block and the exact tail, within the length limit and the output capacity, with every block
  decodable; the frame is then the seven data octets of every block in order. Each other input
  is an error.
\<close>

theorem cltu_decode_accepts_exactly_cltus:
  "ccsds_cltu_decode_message cltu cap = Inr frame \<longleftrightarrow>
     (\<exists>start blocks. cltu = cltu_of start blocks \<and> cltu_form start blocks \<and>
        ccsds_cltu_is_start_sequence start \<and> 7 * length blocks \<le> cap \<and>
        list_all bch_accepted blocks \<and> frame = concat (map bch_data blocks))"
    (is "?dec \<longleftrightarrow> ?form")
proof
  assume ?dec
  then obtain start blocks where "cltu = cltu_of start blocks" "cltu_form start blocks"
    using cltu_decode_form by blast
  with \<open>?dec\<close> show ?form
    by (intro exI [of _ start] exI [of _ blocks]) (auto simp: cltu_decode_of split: if_splits)
next
  assume ?form
  then show ?dec by (auto simp: cltu_decode_of)
qed

text \<open>
  One bit error per code block, and one in the start sequence, do not change the decoded
  frame: if every block of a decodable CLTU is valid, then flipping at most one of the 63 code
  bits of each block and using any accepted start sequence decodes to the same frame.
\<close>

theorem cltu_decode_tolerates_one_error_per_block:
  assumes "cltu_form start blocks"
    and "ccsds_cltu_decode_message (cltu_of start blocks) cap = Inr frame"
    and "list_all bch_valid blocks"
    and "length positions = length blocks" "list_all code_bit_position positions"
    and "length start' = 2" "ccsds_cltu_is_start_sequence start'"
  shows "ccsds_cltu_decode_message (cltu_of start' (map2 damage blocks positions)) cap = Inr frame"
proof -
  have bl: "list_all (\<lambda>b. length b = 8) blocks"
    using assms(1) by (simp add: cltu_form_def CCSDS_BCH_BLOCK_SIZE_def)
  note dam = bch_damage_blocks [OF assms(4) bl assms(3,5)]
  have "cltu_form start' (map2 damage blocks positions)"
    using assms(1,4,6) dam
    by (auto simp: cltu_form_def cltu_of_def length_concat_blocks CCSDS_BCH_BLOCK_SIZE_def)
  then show ?thesis
    using assms dam by (auto simp: cltu_decode_of split: if_splits)
qed

lemma cltu_decode_tolerates_one_error_per_block_witness:
  "ccsds_cltu_decode_message
     (cltu_of [0xeb, 0x91] [flip_code_bit (replicate 7 0 @ [0xfe]) 20]) 64 = Inr (replicate 7 0)"
proof -
  let ?b = "replicate 7 0 @ [0xfe] :: octets"
  have dec: "ccsds_bch_decode_block ?b = (CCSDS_BCH_OK, replicate 7 0, -1)"
    by (simp only: bch_decode_ok bch_example_word) simp
  have form: "cltu_form [0xeb, 0x90] [?b]"
    by (simp add: cltu_form_def cltu_of_def CCSDS_BCH_BLOCK_SIZE_def
        CONFIG_AKIRA_CCSDS_MAX_CLTU_LEN_def)
  have start: "ccsds_cltu_is_start_sequence [0xeb, 0x90]" "ccsds_cltu_is_start_sequence [0xeb, 0x91]"
    by (simp_all add: ccsds_cltu_is_start_sequence_def CLTU_START_SEQUENCE_def popcount_def upt_rec)
  have "ccsds_cltu_decode_message (cltu_of [0xeb, 0x90] [?b]) 64 = Inr (replicate 7 0)"
    using start(1) by (simp add: cltu_decode_of [OF form] bch_accepted_def bch_data_def dec)
  from cltu_decode_tolerates_one_error_per_block [OF form this, of "[Some 20]" "[0xeb, 0x91]"]
  show ?thesis using start(2) by (simp add: bch_valid_def dec code_bit_position_def)
qed

end
