(* ===== verification/Space_Packet.thy ===== *)
theory Space_Packet
  imports Ccsds_Prelude
begin

text \<open>
  The Space Packet codec of \<open>ccsds_space_packet.c\<close> with the shared types of \<open>ccsds_types.h\<close>: the
  6-octet primary header, its field guards and the payload view. The lemmas give both round trips
  and the exact error conditions.
\<close>

unbundle bit_operations_syntax

definition CCSDS_APID_MAX :: u16 where "CCSDS_APID_MAX = 0x07ff"
definition CCSDS_SPACE_PACKET_PRIMARY_HDR_LEN :: nat where
  "CCSDS_SPACE_PACKET_PRIMARY_HDR_LEN = 6"

datatype ccsds_packet_type = CCSDS_PACKET_TYPE_TM | CCSDS_PACKET_TYPE_TC

datatype ccsds_sequence_flags =
    CCSDS_SEQUENCE_CONTINUATION
  | CCSDS_SEQUENCE_FIRST
  | CCSDS_SEQUENCE_LAST
  | CCSDS_SEQUENCE_UNSEGMENTED

text \<open>The numbers of the enumerators, and the casts from a masked field.\<close>

fun packet_type_value :: "ccsds_packet_type \<Rightarrow> u16" where
  "packet_type_value CCSDS_PACKET_TYPE_TM = 0"
| "packet_type_value CCSDS_PACKET_TYPE_TC = 1"

definition packet_type_of :: "u16 \<Rightarrow> ccsds_packet_type" where
  "packet_type_of v = (if v = 0 then CCSDS_PACKET_TYPE_TM else CCSDS_PACKET_TYPE_TC)"

fun sequence_flags_value :: "ccsds_sequence_flags \<Rightarrow> u16" where
  "sequence_flags_value CCSDS_SEQUENCE_CONTINUATION = 0"
| "sequence_flags_value CCSDS_SEQUENCE_FIRST = 1"
| "sequence_flags_value CCSDS_SEQUENCE_LAST = 2"
| "sequence_flags_value CCSDS_SEQUENCE_UNSEGMENTED = 3"

definition sequence_flags_of :: "u16 \<Rightarrow> ccsds_sequence_flags" where
  "sequence_flags_of v =
     (if v = 0 then CCSDS_SEQUENCE_CONTINUATION else if v = 1 then CCSDS_SEQUENCE_FIRST
      else if v = 2 then CCSDS_SEQUENCE_LAST else CCSDS_SEQUENCE_UNSEGMENTED)"

text \<open>\<open>payload_len\<close> is the length of the payload list.\<close>

record ccsds_space_packet =
  sp_version :: u8
  sp_type :: ccsds_packet_type
  sp_secondary_header :: bool
  sp_apid :: u16
  sp_sequence_flags :: ccsds_sequence_flags
  sp_sequence_count :: u16
  sp_payload :: octets

definition ccsds_space_packet_encoded_len :: "nat \<Rightarrow> nat" where
  "ccsds_space_packet_encoded_len payload_len = CCSDS_SPACE_PACKET_PRIMARY_HDR_LEN + payload_len"

definition ccsds_space_packet_decode :: "octets \<Rightarrow> ccsds_space_packet result" where
  "ccsds_space_packet_decode buf =
     (if length buf < CCSDS_SPACE_PACKET_PRIMARY_HDR_LEN then Inl (- EINVAL)
      else
        let word0 = get_be16 buf;
            word1 = get_be16 (drop 2 buf);
            length_field = get_be16 (drop 4 buf);
            payload_len = unat length_field + 1
        in if length buf < CCSDS_SPACE_PACKET_PRIMARY_HDR_LEN + payload_len
           then Inl (- EMSGSIZE)
           else Inr \<lparr>sp_version = ucast (drop_bit 13 word0 AND 0x7),
                     sp_type = packet_type_of (drop_bit 12 word0 AND 0x1),
                     sp_secondary_header = (word0 AND 0x0800 \<noteq> 0),
                     sp_apid = word0 AND CCSDS_APID_MAX,
                     sp_sequence_flags = sequence_flags_of (drop_bit 14 word1 AND 0x3),
                     sp_sequence_count = word1 AND 0x3fff,
                     sp_payload = take payload_len (drop CCSDS_SPACE_PACKET_PRIMARY_HDR_LEN buf)\<rparr>)"

definition space_packet_word0 :: "ccsds_space_packet \<Rightarrow> u16" where
  "space_packet_word0 packet =
     push_bit 13 (ucast (sp_version packet AND 0x7)) OR
     push_bit 12 (packet_type_value (sp_type packet) AND 0x1) OR
     (if sp_secondary_header packet then 0x0800 else 0) OR
     (sp_apid packet AND CCSDS_APID_MAX)"

definition space_packet_word1 :: "ccsds_space_packet \<Rightarrow> u16" where
  "space_packet_word1 packet =
     push_bit 14 (sequence_flags_value (sp_sequence_flags packet) AND 0x3) OR
     (sp_sequence_count packet AND 0x3fff)"

definition ccsds_space_packet_encode :: "ccsds_space_packet \<Rightarrow> nat \<Rightarrow> octets result" where
  "ccsds_space_packet_encode packet cap =
     (if sp_apid packet > CCSDS_APID_MAX \<or> sp_sequence_count packet > 0x3fff \<or>
         length (sp_payload packet) = 0 \<or> length (sp_payload packet) > 0x10000
      then Inl (- EINVAL)
      else
        let needed = ccsds_space_packet_encoded_len (length (sp_payload packet))
        in if cap < needed then Inl (- ENOSPC)
           else Inr (put_be16 (space_packet_word0 packet) @
                     put_be16 (space_packet_word1 packet) @
                     put_be16 (of_nat (length (sp_payload packet) - 1)) @
                     sp_payload packet))"

section \<open>Header fields\<close>

lemma packet_type_of_value [simp]: "packet_type_of (packet_type_value t AND 1) = t"
  by (cases t) (simp_all add: packet_type_of_def)

lemma sequence_flags_of_value [simp]: "sequence_flags_of (sequence_flags_value f AND 3) = f"
  by (cases f) (simp_all add: sequence_flags_of_def)

lemma word_mask_bits:
  "(0x7 :: u16) = mask 3" "(0x7 :: u8) = mask 3" "(0x3 :: u16) = mask 2"
  "(0x7ff :: u16) = mask 11" "(0x3fff :: u16) = mask 14" "(1 :: u16) = mask 1"
  by (simp_all add: mask_eq_exp_minus_1)

lemma word_0x800: "(if c then (0x800 :: u16) else 0) = push_bit 11 (of_bool c)"
  by simp

lemma and_0x800: "w AND (0x800 :: u16) \<noteq> 0 \<longleftrightarrow> bit w 11"
  by (simp add: and_exp_eq_0_iff_not_bit [of w 11, simplified])

lemmas field_bits = bit_and_iff bit_or_iff bit_push_bit_iff bit_drop_bit_eq bit_mask_iff
  bit_unsigned_iff possible_bit_word comp_apply bit_of_bool_iff

text \<open>Reading the four fields of a word put together from them, and the converse.\<close>

definition word0_of :: "u16 \<Rightarrow> u16 \<Rightarrow> bool \<Rightarrow> u16 \<Rightarrow> u16" where
  "word0_of v t s a = push_bit 13 (v AND mask 3) OR push_bit 12 (t AND mask 1) OR
     push_bit 11 (of_bool s) OR (a AND mask 11)"

lemma word0_split:
  "drop_bit 13 (word0_of v t s a) AND mask 3 = v AND mask 3"
  "drop_bit 12 (word0_of v t s a) AND mask 1 = t AND mask 1"
  "bit (word0_of v t s a) 11 = s"
  "word0_of v t s a AND mask 11 = a AND mask 11"
  unfolding word0_of_def
  by (rule bit_word_eqI, simp only: field_bits, force)
    (rule bit_word_eqI, simp only: field_bits, force,
     simp only: field_bits, force,
     rule bit_word_eqI, simp only: field_bits, force)

lemma word0_join: "word0_of (drop_bit 13 w) (drop_bit 12 w) (bit w 11) w = w"
proof (rule bit_word_eqI)
  fix n assume "n < LENGTH(16)"
  then have "n < 11 \<or> n = 11 \<or> n = 12 \<or> n = 13 \<or> n = 14 \<or> n = 15" by auto
  then show "bit (word0_of (drop_bit 13 w) (drop_bit 12 w) (bit w 11) w) n = bit w n"
    unfolding word0_of_def by (elim disjE) (simp_all add: field_bits)
qed

definition word1_of :: "u16 \<Rightarrow> u16 \<Rightarrow> u16" where
  "word1_of f c = push_bit 14 (f AND mask 2) OR (c AND mask 14)"

lemma word1_split:
  "drop_bit 14 (word1_of f c) AND mask 2 = f AND mask 2"
  "word1_of f c AND mask 14 = c AND mask 14"
  unfolding word1_of_def
  by (rule bit_word_eqI, simp only: field_bits, force)+

lemma word1_join: "word1_of (drop_bit 14 w) w = w"
proof (rule bit_word_eqI)
  fix n assume "n < LENGTH(16)"
  then have "n < 14 \<or> n = 14 \<or> n = 15" by auto
  then show "bit (word1_of (drop_bit 14 w) w) n = bit w n"
    unfolding word1_of_def by (elim disjE) (simp_all add: field_bits)
qed

lemma space_packet_word0_of:
  "space_packet_word0 p = word0_of (ucast (sp_version p)) (packet_type_value (sp_type p))
     (sp_secondary_header p) (sp_apid p)"
proof -
  have "(ucast (sp_version p AND 0x7) :: u16) = ucast (sp_version p) AND mask 3"
    by (rule bit_word_eqI) (auto simp: field_bits word_mask_bits simp del: mask_eq_exp_minus_1)
  then show ?thesis
    unfolding space_packet_word0_def word0_of_def CCSDS_APID_MAX_def word_0x800 word_mask_bits
    by (simp only:)
qed

lemma space_packet_word1_of:
  "space_packet_word1 p = word1_of (sequence_flags_value (sp_sequence_flags p)) (sp_sequence_count p)"
  unfolding space_packet_word1_def word1_of_def word_mask_bits ..

lemma version_field: "ucast (drop_bit 13 (space_packet_word0 p) AND 0x7) = sp_version p AND 0x7"
proof -
  have "(ucast (ucast v AND mask 3 :: u16) :: u8) = v AND mask 3" for v
    by (rule bit_word_eqI) (auto simp: field_bits)
  then show ?thesis by (simp only: space_packet_word0_of word_mask_bits word0_split)
qed

lemma header_fields:
  "packet_type_of (drop_bit 12 (space_packet_word0 p) AND 0x1) = sp_type p"
  "space_packet_word0 p AND 0x0800 \<noteq> 0 \<longleftrightarrow> sp_secondary_header p"
  "space_packet_word0 p AND CCSDS_APID_MAX = sp_apid p AND CCSDS_APID_MAX"
  "sequence_flags_of (drop_bit 14 (space_packet_word1 p) AND 0x3) = sp_sequence_flags p"
  "space_packet_word1 p AND 0x3fff = sp_sequence_count p AND 0x3fff"
proof -
  show "packet_type_of (drop_bit 12 (space_packet_word0 p) AND 0x1) = sp_type p"
    using packet_type_of_value [of "sp_type p"]
    by (simp only: space_packet_word0_of word_mask_bits word0_split)
  show "space_packet_word0 p AND 0x0800 \<noteq> 0 \<longleftrightarrow> sp_secondary_header p"
    by (simp only: and_0x800 space_packet_word0_of word0_split)
  show "space_packet_word0 p AND CCSDS_APID_MAX = sp_apid p AND CCSDS_APID_MAX"
    by (simp only: CCSDS_APID_MAX_def space_packet_word0_of word_mask_bits word0_split)
  show "sequence_flags_of (drop_bit 14 (space_packet_word1 p) AND 0x3) = sp_sequence_flags p"
    using sequence_flags_of_value [of "sp_sequence_flags p"]
    by (simp only: space_packet_word1_of word_mask_bits word1_split)
  show "space_packet_word1 p AND 0x3fff = sp_sequence_count p AND 0x3fff"
    by (simp only: space_packet_word1_of word_mask_bits word1_split)
qed

lemma field_limits:
  "a \<le> CCSDS_APID_MAX \<Longrightarrow> a AND CCSDS_APID_MAX = a" "c \<le> 0x3fff \<Longrightarrow> c AND 0x3fff = c" for a c :: u16
  using and_mask_id [of a 11] and_mask_id [of c 14]
  by (simp_all add: CCSDS_APID_MAX_def word_le_nat_alt mask_eq_exp_minus_1)

lemma field_limits_and: "a AND CCSDS_APID_MAX \<le> CCSDS_APID_MAX" "c AND 0x3fff \<le> 0x3fff" for a c :: u16
  by (simp_all add: word_and_le1)

section \<open>The codec\<close>

lemma encode_success:
  "ccsds_space_packet_encode p cap = Inr bytes \<longleftrightarrow>
     sp_apid p \<le> CCSDS_APID_MAX \<and> sp_sequence_count p \<le> 0x3fff \<and> 0 < length (sp_payload p) \<and>
     length (sp_payload p) \<le> 0x10000 \<and> 6 + length (sp_payload p) \<le> cap \<and>
     bytes = put_be16 (space_packet_word0 p) @ put_be16 (space_packet_word1 p) @
       put_be16 (of_nat (length (sp_payload p) - 1)) @ sp_payload p"
  by (auto simp: ccsds_space_packet_encode_def ccsds_space_packet_encoded_len_def
      CCSDS_SPACE_PACKET_PRIMARY_HDR_LEN_def Let_def not_less)

lemma length_field_value:
  "0 < n \<Longrightarrow> n \<le> 0x10000 \<Longrightarrow> unat (of_nat (n - 1) :: u16) + 1 = n"
  by (simp add: unat_of_nat take_bit_nat_eq_self del: of_nat_diff)

lemma decode_append:
  assumes "ccsds_space_packet_encode p cap = Inr bytes"
  shows "ccsds_space_packet_decode (bytes @ rest) = Inr (p\<lparr>sp_version := sp_version p AND 0x7\<rparr>)"
proof -
  let ?n = "length (sp_payload p)"
  have guards: "sp_apid p \<le> CCSDS_APID_MAX" "sp_sequence_count p \<le> 0x3fff" "0 < ?n" "?n \<le> 0x10000"
    and bytes: "bytes = put_be16 (space_packet_word0 p) @ put_be16 (space_packet_word1 p) @
       put_be16 (of_nat (?n - 1)) @ sp_payload p"
    using assms by (simp_all add: encode_success)
  have d4: "drop 4 (bytes @ rest) = put_be16 (of_nat (?n - 1)) @ sp_payload p @ rest"
    and d6: "drop 6 (bytes @ rest) = sp_payload p @ rest"
    by (simp_all add: bytes)
  have words: "get_be16 (bytes @ rest) = space_packet_word0 p"
    "get_be16 (drop 2 (bytes @ rest)) = space_packet_word1 p"
    by (simp_all add: bytes)
  have len: "unat (get_be16 (drop 4 (bytes @ rest))) + 1 = ?n"
    unfolding d4 get_put_be16 using guards(3,4) by (rule length_field_value)
  have fields: "sp_apid p AND CCSDS_APID_MAX = sp_apid p" "sp_sequence_count p AND 0x3fff = sp_sequence_count p"
    using guards(1,2) by (simp_all add: field_limits)
  have "6 + ?n \<le> length (bytes @ rest)" by (simp add: bytes)
  then show ?thesis
    unfolding ccsds_space_packet_decode_def CCSDS_SPACE_PACKET_PRIMARY_HDR_LEN_def Let_def words len
      version_field header_fields fields d6
    by simp
qed

lemma encode_decode:
  assumes "ccsds_space_packet_decode buf = Inr p" and "6 + length (sp_payload p) \<le> cap"
  shows "ccsds_space_packet_encode p cap = Inr (take (6 + length (sp_payload p)) buf)"
proof -
  let ?w0 = "get_be16 buf" and ?w1 = "get_be16 (drop 2 buf)" and ?l = "get_be16 (drop 4 buf)"
  have len: "6 + (unat ?l + 1) \<le> length buf" and
    p: "p = \<lparr>sp_version = ucast (drop_bit 13 ?w0 AND 0x7),
                     sp_type = packet_type_of (drop_bit 12 ?w0 AND 0x1),
                     sp_secondary_header = (?w0 AND 0x0800 \<noteq> 0),
                     sp_apid = ?w0 AND CCSDS_APID_MAX,
                     sp_sequence_flags = sequence_flags_of (drop_bit 14 ?w1 AND 0x3),
                     sp_sequence_count = ?w1 AND 0x3fff,
                     sp_payload = take (unat ?l + 1) (drop 6 buf)\<rparr>"
    using assms(1)
    by (auto simp: ccsds_space_packet_decode_def CCSDS_SPACE_PACKET_PRIMARY_HDR_LEN_def Let_def
        split: if_splits)
  have n: "length (sp_payload p) = unat ?l + 1" using len by (simp add: p)
  have type: "packet_type_value (packet_type_of (v AND mask 1)) AND mask 1 = v AND mask 1" for v :: u16
    by (cases "bit v 0") (simp_all add: packet_type_of_def and_one_eq mod2_eq_if flip: bit_0_eq)
  have flags: "sequence_flags_value (sequence_flags_of (v AND mask 2)) AND mask 2 = v AND mask 2" for v :: u16
  proof -
    have "unat (v AND mask 2) < 4"
      using take_bit_nat_less_exp [of 2 "unat v"]
      by (simp add: unsigned_take_bit_eq flip: take_bit_eq_mask)
    then have "v AND mask 2 = 0 \<or> v AND mask 2 = 1 \<or> v AND mask 2 = 2 \<or> v AND mask 2 = 3"
      by (rule word_less_4)
    then show ?thesis by (auto simp: sequence_flags_of_def mask_eq_exp_minus_1)
  qed
  have "(ucast (ucast (v AND mask 3 :: u16) :: u8) :: u16) AND mask 3 = v AND mask 3" for v
    by (rule bit_word_eqI) (auto simp: field_bits)
  then have w0: "space_packet_word0 p = ?w0"
    unfolding space_packet_word0_of word0_of_def
    by (simp only: p ccsds_space_packet.simps CCSDS_APID_MAX_def word_mask_bits type and_0x800
        and.assoc and.idem) (simp only: word0_join flip: word0_of_def)
  have w1: "space_packet_word1 p = ?w1"
    unfolding space_packet_word1_of word1_of_def
    by (simp only: p ccsds_space_packet.simps word_mask_bits flags and.assoc and.idem)
      (simp only: word1_join flip: word1_of_def)
  have w2: "of_nat (length (sp_payload p) - 1) = ?l" by (simp add: n)
  have len3: "2 \<le> length buf" "2 \<le> length (drop 2 buf)" "2 \<le> length (drop 4 buf)"
    using len by simp_all
  have "put_be16 ?w0 @ put_be16 ?w1 @ put_be16 ?l @ sp_payload p = take (6 + length (sp_payload p)) buf"
    unfolding put_get_be16 [OF len3(1)] put_get_be16 [OF len3(2)] put_get_be16 [OF len3(3)] n
    unfolding take_header6 using len by (simp add: p)
  moreover have "sp_apid p \<le> CCSDS_APID_MAX" "sp_sequence_count p \<le> 0x3fff"
    by (simp_all add: p field_limits_and)
  moreover have "length (sp_payload p) \<le> 0x10000" "0 < length (sp_payload p)"
    using unat_u16_less [of ?l] by (simp_all add: n del: unat_u16_less)
  ultimately show ?thesis
    unfolding encode_success w0 w1 w2 using assms(2) by metis
qed

section \<open>Properties\<close>

text \<open>
  Decoding what was encoded, whatever octets follow it, gives back the packet: type, flags,
  APID, sequence count and payload unchanged, the version cut to its three bits.
\<close>

theorem space_packet_decode_encode:
  assumes "ccsds_space_packet_encode packet cap = Inr bytes"
  shows "ccsds_space_packet_decode (bytes @ rest)
           = Inr (packet\<lparr>sp_version := sp_version packet AND 0x7\<rparr>)"
  using assms by (rule decode_append)

lemma space_packet_decode_encode_witness:
  "ccsds_space_packet_decode ([0x1a, 0x34, 0xc0, 0x05, 0, 1, 7, 8] @ [9])
     = Inr (\<lparr>sp_version = 0, sp_type = CCSDS_PACKET_TYPE_TC, sp_secondary_header = True,
         sp_apid = 0x234, sp_sequence_flags = CCSDS_SEQUENCE_UNSEGMENTED, sp_sequence_count = 5,
         sp_payload = [7, 8]\<rparr>\<lparr>sp_version := 0 AND 0x7\<rparr>)"
proof -
  let ?p = "\<lparr>sp_version = 0, sp_type = CCSDS_PACKET_TYPE_TC, sp_secondary_header = True,
         sp_apid = 0x234, sp_sequence_flags = CCSDS_SEQUENCE_UNSEGMENTED, sp_sequence_count = 5,
         sp_payload = [7, 8]\<rparr>"
  have "ccsds_space_packet_encode ?p 8 = Inr [0x1a, 0x34, 0xc0, 0x05, 0, 1, 7, 8]"
    by (simp add: encode_success space_packet_word0_def space_packet_word1_def put_be16_def
        CCSDS_APID_MAX_def)
  from space_packet_decode_encode [OF this, of "[9]"] show ?thesis by simp
qed

text \<open>
  The encoding is canonical: re-encoding a decoded packet into a large enough buffer always
  succeeds and gives back exactly the octets it was decoded from.
\<close>

theorem space_packet_encode_decode:
  assumes "ccsds_space_packet_decode buf = Inr packet"
    and "ccsds_space_packet_encoded_len (length (sp_payload packet)) \<le> cap"
  shows "ccsds_space_packet_encode packet cap
           = Inr (take (ccsds_space_packet_encoded_len (length (sp_payload packet))) buf)"
  using encode_decode assms
  by (simp add: ccsds_space_packet_encoded_len_def CCSDS_SPACE_PACKET_PRIMARY_HDR_LEN_def)

lemma space_packet_encode_decode_witness:
  "ccsds_space_packet_encode
     \<lparr>sp_version = 0, sp_type = CCSDS_PACKET_TYPE_TM, sp_secondary_header = False, sp_apid = 1,
      sp_sequence_flags = CCSDS_SEQUENCE_CONTINUATION, sp_sequence_count = 2, sp_payload = [9]\<rparr> 7
     = Inr [0, 1, 0, 2, 0, 0, 9]"
proof -
  have "ccsds_space_packet_decode [0, 1, 0, 2, 0, 0, 9, 4] = Inr \<lparr>sp_version = 0,
      sp_type = CCSDS_PACKET_TYPE_TM, sp_secondary_header = False, sp_apid = 1,
      sp_sequence_flags = CCSDS_SEQUENCE_CONTINUATION, sp_sequence_count = 2, sp_payload = [9]\<rparr>"
    by (simp add: ccsds_space_packet_decode_def CCSDS_SPACE_PACKET_PRIMARY_HDR_LEN_def
        get_be16_def packet_type_of_def sequence_flags_of_def CCSDS_APID_MAX_def)
  from space_packet_encode_decode [OF this, of 7] show ?thesis
    by (simp add: ccsds_space_packet_encoded_len_def CCSDS_SPACE_PACKET_PRIMARY_HDR_LEN_def)
qed

end
