(* ===== verification/Tc_Frame.thy ===== *)
theory Tc_Frame
  imports Space_Packet
begin

text \<open>
  The telecommand transfer frame decoder of \<open>ccsds_tc_frame.c\<close>: version, length field, fill and
  spacecraft checks, and the decoded view. The configured spacecraft identifier is the argument
  \<open>scid\<close>. The lemmas state the frame layout as an encoder and show that the decoder accepts
  exactly the encoded frames followed by admissible fill.
\<close>

unbundle bit_operations_syntax

definition CCSDS_TC_PRIMARY_HDR_LEN :: nat where "CCSDS_TC_PRIMARY_HDR_LEN = 5"
definition CCSDS_TC_FILL_BYTE :: u8 where "CCSDS_TC_FILL_BYTE = 0x55"
definition CCSDS_TC_VERSION_MASK :: u8 where "CCSDS_TC_VERSION_MASK = 0x03"
definition CCSDS_TC_MAX_SCID :: u16 where "CCSDS_TC_MAX_SCID = 0x03ff"
definition CCSDS_TC_MAX_FRAME_LEN_FIELD :: u16 where "CCSDS_TC_MAX_FRAME_LEN_FIELD = 0x03ff"

definition CCSDS_TC_VERSION :: "u8 \<Rightarrow> u8" where
  "CCSDS_TC_VERSION byte0 = drop_bit 6 byte0 AND CCSDS_TC_VERSION_MASK"
definition CCSDS_TC_BYPASS :: "u8 \<Rightarrow> bool" where
  "CCSDS_TC_BYPASS byte0 \<longleftrightarrow> byte0 AND 0x20 \<noteq> 0"
definition CCSDS_TC_CONTROL :: "u8 \<Rightarrow> bool" where
  "CCSDS_TC_CONTROL byte0 \<longleftrightarrow> byte0 AND 0x10 \<noteq> 0"

text \<open>\<open>data_len\<close> is the length of the data list.\<close>

record ccsds_tc_frame =
  tc_spacecraft_id :: u16
  tc_virtual_channel_id :: u8
  tc_bypass :: bool
  tc_control_command :: bool
  tc_frame_sequence_number :: u8
  tc_data :: octets

definition tc_invalid_fill :: "octets \<Rightarrow> nat \<Rightarrow> bool" where
  "tc_invalid_fill buf frame_len \<longleftrightarrow>
     frame_len < length buf \<and>
     (buf ! frame_len \<noteq> CCSDS_TC_FILL_BYTE \<or> buf ! (length buf - 1) \<noteq> CCSDS_TC_FILL_BYTE)"

definition ccsds_tc_frame_decode :: "u16 \<Rightarrow> octets \<Rightarrow> ccsds_tc_frame result" where
  "ccsds_tc_frame_decode scid buf =
     (let len = length buf
      in if len < CCSDS_TC_PRIMARY_HDR_LEN then Inl (- EINVAL)
         else if CCSDS_TC_VERSION (buf ! 0) \<noteq> 0 then Inl (- EINVAL)
         else
           let word1 = get_be16 (drop 2 buf);
               frame_len_field = word1 AND CCSDS_TC_MAX_FRAME_LEN_FIELD;
               frame_len = unat frame_len_field + 1
           in if frame_len < CCSDS_TC_PRIMARY_HDR_LEN then Inl (- EMSGSIZE)
              else if frame_len > len then Inl (- EMSGSIZE)
              else if tc_invalid_fill buf frame_len then Inl (- EMSGSIZE)
              else
                let word0 = get_be16 buf;
                    spacecraft_id = word0 AND CCSDS_TC_MAX_SCID
                in if spacecraft_id \<noteq> scid then Inl (- EACCES)
                   else Inr \<lparr>tc_spacecraft_id = spacecraft_id,
                             tc_virtual_channel_id = ucast (drop_bit 10 word1 AND 0x3f),
                             tc_bypass = CCSDS_TC_BYPASS (buf ! 0),
                             tc_control_command = CCSDS_TC_CONTROL (buf ! 0),
                             tc_frame_sequence_number = buf ! 4,
                             tc_data = take (frame_len - CCSDS_TC_PRIMARY_HDR_LEN)
                                         (drop CCSDS_TC_PRIMARY_HDR_LEN buf)\<rparr>)"

definition ccsds_tc_frame_extract_packet :: "ccsds_tc_frame \<Rightarrow> ccsds_space_packet result" where
  "ccsds_tc_frame_extract_packet frame = ccsds_space_packet_decode (tc_data frame)"

section \<open>The frame layout\<close>

definition tc_word0 :: "u16 \<Rightarrow> ccsds_tc_frame \<Rightarrow> u16" where
  "tc_word0 spare f = push_bit 13 (of_bool (tc_bypass f)) OR push_bit 12 (of_bool (tc_control_command f))
     OR push_bit 10 (spare AND mask 2) OR (tc_spacecraft_id f AND mask 10)"

definition tc_word1 :: "ccsds_tc_frame \<Rightarrow> u16" where
  "tc_word1 f = push_bit 10 (ucast (tc_virtual_channel_id f) AND mask 6) OR
     (of_nat (length (tc_data f) + 4) AND mask 10)"

definition tc_frame_octets :: "u16 \<Rightarrow> ccsds_tc_frame \<Rightarrow> octets" where
  "tc_frame_octets spare f = put_be16 (tc_word0 spare f) @ put_be16 (tc_word1 f) @
     tc_frame_sequence_number f # tc_data f"

definition tc_fill :: "octets \<Rightarrow> bool" where
  "tc_fill fill \<longleftrightarrow> fill = [] \<or> hd fill = CCSDS_TC_FILL_BYTE \<and> last fill = CCSDS_TC_FILL_BYTE"

definition tc_frame_wf :: "u16 \<Rightarrow> ccsds_tc_frame \<Rightarrow> bool" where
  "tc_frame_wf scid f \<longleftrightarrow> tc_spacecraft_id f = scid \<and> scid \<le> CCSDS_TC_MAX_SCID \<and>
     tc_virtual_channel_id f < 64 \<and> length (tc_data f) \<le> 1019"

lemma tc_mask_bits: "(0x03ff :: u16) = mask 10" "(0x3f :: u16) = mask 6" "(0x03 :: u8) = mask 2"
  by (simp_all add: mask_eq_exp_minus_1)

text \<open>The first octet against the first word.\<close>

lemma tc_version_bits: "CCSDS_TC_VERSION b = 0 \<longleftrightarrow> \<not> bit b 6 \<and> \<not> bit b 7"
proof
  assume z: "CCSDS_TC_VERSION b = 0"
  have "bit (CCSDS_TC_VERSION b) 0 = bit b 6" "bit (CCSDS_TC_VERSION b) 1 = bit b 7"
    unfolding CCSDS_TC_VERSION_def CCSDS_TC_VERSION_MASK_def tc_mask_bits field_bits by simp_all
  then show "\<not> bit b 6 \<and> \<not> bit b 7" by (simp add: z)
next
  assume b: "\<not> bit b 6 \<and> \<not> bit b 7"
  show "CCSDS_TC_VERSION b = 0"
  proof (rule bit_word_eqI)
    fix n assume "n < LENGTH(8)"
    have "n = 0 \<or> n = 1 \<or> 2 \<le> n" by auto
    then show "bit (CCSDS_TC_VERSION b) n = bit (0 :: u8) n"
      unfolding CCSDS_TC_VERSION_def CCSDS_TC_VERSION_MASK_def tc_mask_bits field_bits
      using b by (elim disjE) simp_all
  qed
qed

lemma tc_byte0:
  fixes w :: u16
  shows "CCSDS_TC_VERSION (ucast (drop_bit 8 w)) = 0 \<longleftrightarrow> \<not> bit w 14 \<and> \<not> bit w 15"
    "CCSDS_TC_BYPASS (ucast (drop_bit 8 w)) = bit w 13"
    "CCSDS_TC_CONTROL (ucast (drop_bit 8 w)) = bit w 12"
proof -
  show "CCSDS_TC_VERSION (ucast (drop_bit 8 w)) = 0 \<longleftrightarrow> \<not> bit w 14 \<and> \<not> bit w 15"
    unfolding tc_version_bits field_bits by simp
  have b5: "v AND 0x20 \<noteq> 0 \<longleftrightarrow> bit v 5" and b4: "v AND 0x10 \<noteq> 0 \<longleftrightarrow> bit v 4" for v :: u8
    by (simp_all add: and_exp_eq_0_iff_not_bit [of v 5, simplified]
        and_exp_eq_0_iff_not_bit [of v 4, simplified])
  show "CCSDS_TC_BYPASS (ucast (drop_bit 8 w)) = bit w 13"
    "CCSDS_TC_CONTROL (ucast (drop_bit 8 w)) = bit w 12"
    by (simp_all add: CCSDS_TC_BYPASS_def CCSDS_TC_CONTROL_def b5 b4 field_bits)
qed

lemma tc_word0_fields:
  "\<not> bit (tc_word0 spare f) 14" "\<not> bit (tc_word0 spare f) 15"
  "bit (tc_word0 spare f) 13 = tc_bypass f" "bit (tc_word0 spare f) 12 = tc_control_command f"
  unfolding tc_word0_def field_bits by simp_all

lemma tc_word0_scid: "tc_word0 spare f AND mask 10 = tc_spacecraft_id f AND mask 10"
  unfolding tc_word0_def
  by (rule bit_word_eqI, simp only: field_bits, force)

lemma tc_word1_fields:
  "drop_bit 10 (tc_word1 f) AND mask 6 = ucast (tc_virtual_channel_id f) AND mask 6"
  "tc_word1 f AND mask 10 = of_nat (length (tc_data f) + 4) AND mask 10"
  unfolding tc_word1_def
  by (rule bit_word_eqI, simp only: field_bits, force)+

lemma tc_word0_join:
  assumes "\<not> bit w 14" "\<not> bit w 15" "tc_bypass f = bit w 13" "tc_control_command f = bit w 12"
    "tc_spacecraft_id f AND mask 10 = w AND mask 10"
  shows "tc_word0 (drop_bit 10 w) f = w"
proof (rule bit_word_eqI)
  fix n assume "n < LENGTH(16)"
  then have "n < 10 \<or> n = 10 \<or> n = 11 \<or> n = 12 \<or> n = 13 \<or> n = 14 \<or> n = 15" by auto
  then show "bit (tc_word0 (drop_bit 10 w) f) n = bit w n"
    using assms(1-4) unfolding tc_word0_def assms(5)
    by (elim disjE) (simp_all add: field_bits)
qed

lemma tc_word1_join:
  assumes "ucast (tc_virtual_channel_id f) AND mask 6 = drop_bit 10 w AND mask 6"
    "of_nat (length (tc_data f) + 4) AND mask 10 = w AND mask 10"
  shows "tc_word1 f = w"
proof (rule bit_word_eqI)
  fix n assume n: "n < LENGTH(16)"
  show "bit (tc_word1 f) n = bit w n"
    unfolding tc_word1_def assms field_bits using n by (cases "n < 10") auto
qed

section \<open>Decoding in terms of the two words\<close>

lemma tc_frame_split:
  assumes "5 \<le> length buf"
  shows "\<exists>w0 w1 s rest. buf = put_be16 w0 @ put_be16 w1 @ s # rest"
proof (intro exI)
  have "2 \<le> length buf" "2 \<le> length (drop 2 buf)" using assms by simp_all
  then have "put_be16 (get_be16 buf) @ put_be16 (get_be16 (drop 2 buf)) = take 4 buf"
    using take_add [of 2 2 buf] by (simp add: put_get_be16)
  moreover have "buf = take 4 buf @ buf ! 4 # drop 5 buf"
    using assms id_take_nth_drop [of 4 buf] by simp
  ultimately show "buf = put_be16 (get_be16 buf) @ put_be16 (get_be16 (drop 2 buf)) @ buf ! 4 # drop 5 buf"
    by (simp only: append_assoc [symmetric])
qed

lemma tc_decode_words:
  fixes w0 w1 :: u16
  defines "n \<equiv> unat (w1 AND mask 10) + 1"
  shows "ccsds_tc_frame_decode scid (put_be16 w0 @ put_be16 w1 @ s # rest) = Inr f \<longleftrightarrow>
     \<not> bit w0 14 \<and> \<not> bit w0 15 \<and> 5 \<le> n \<and> n - 5 \<le> length rest \<and>
     tc_fill (drop (n - 5) rest) \<and> w0 AND mask 10 = scid \<and>
     f = \<lparr>tc_spacecraft_id = w0 AND mask 10,
          tc_virtual_channel_id = ucast (drop_bit 10 w1 AND mask 6),
          tc_bypass = bit w0 13, tc_control_command = bit w0 12,
          tc_frame_sequence_number = s, tc_data = take (n - 5) rest\<rparr>"
proof -
  define buf where "buf = put_be16 w0 @ put_be16 w1 @ s # rest"
  have len: "length buf = 5 + length rest" by (simp add: buf_def)
  have b0: "buf ! 0 = ucast (drop_bit 8 w0)" and b4: "buf ! 4 = s" and d5: "drop 5 buf = rest"
    by (simp_all add: buf_def put_be16_def)
  have w: "get_be16 buf = w0" "get_be16 (drop 2 buf) = w1"
    by (simp_all only: buf_def get_put_be16 drop_put_be16)
  have fill: "tc_invalid_fill buf n \<longleftrightarrow> \<not> tc_fill (drop (n - 5) rest)"
    if n: "5 \<le> n" "n \<le> 5 + length rest"
  proof (cases "n = length buf")
    case False
    then have lt: "n - 5 < length rest" using n len by simp
    have "5 \<le> length buf" using len by simp
    then have "drop 5 buf ! (n - 5) = buf ! n" using n(1) by simp
    then have "buf ! n = rest ! (n - 5)" unfolding d5 ..
    moreover have "buf ! (length buf - 1) = last rest"
      using lt by (subst last_conv_nth [symmetric]) (auto simp: buf_def)
    ultimately show ?thesis
      using lt n len False by (auto simp: tc_invalid_fill_def tc_fill_def hd_drop_conv_nth)
  qed (use n len in \<open>simp add: tc_invalid_fill_def tc_fill_def\<close>)
  show ?thesis
    unfolding buf_def [symmetric]
    unfolding ccsds_tc_frame_decode_def CCSDS_TC_PRIMARY_HDR_LEN_def CCSDS_TC_MAX_FRAME_LEN_FIELD_def
      CCSDS_TC_MAX_SCID_def tc_mask_bits Let_def w b0 b4 d5 len tc_byte0 n_def [symmetric]
    using fill by (cases "5 \<le> n"; cases "n \<le> 5 + length rest") auto
qed

lemma tc_decode_octets:
  assumes "tc_frame_wf scid f" "tc_fill fill"
  shows "ccsds_tc_frame_decode scid (tc_frame_octets spare f @ fill) = Inr f"
proof -
  let ?m = "length (tc_data f)" and ?w0 = "tc_word0 spare f" and ?w1 = "tc_word1 f"
  have wf: "tc_spacecraft_id f = scid" "scid AND mask 10 = scid" "?m \<le> 1019"
    "tc_virtual_channel_id f AND mask 6 = tc_virtual_channel_id f"
    using assms(1) and_mask_id [of scid 10] and_mask_id [of "tc_virtual_channel_id f" 6]
    by (auto simp: tc_frame_wf_def CCSDS_TC_MAX_SCID_def word_le_nat_alt word_less_nat_alt)
  have "unat (of_nat (?m + 4) :: u16) = ?m + 4"
    using wf(3) by (simp add: unat_of_nat take_bit_nat_eq_self del: of_nat_add)
  then have "of_nat (?m + 4) AND mask 10 = (of_nat (?m + 4) :: u16)"
    using wf(3) by (intro and_mask_id) simp
  then have n: "unat (?w1 AND mask 10) + 1 = ?m + 5"
    using \<open>unat (of_nat (?m + 4) :: u16) = ?m + 4\<close> by (simp add: tc_word1_fields del: of_nat_add)
  have vc: "ucast (ucast v AND mask 6 :: u16) = (v AND mask 6 :: u8)" for v
    by (rule bit_word_eqI) (auto simp: field_bits)
  have oct: "tc_frame_octets spare f @ fill
      = put_be16 ?w0 @ put_be16 ?w1 @ tc_frame_sequence_number f # (tc_data f @ fill)"
    by (simp add: tc_frame_octets_def)
  show ?thesis
    unfolding oct tc_decode_words n tc_word0_scid wf(1,2) tc_word1_fields(1) vc wf(4)
    using assms(2) wf(1) by (simp add: tc_word0_fields)
qed

lemma tc_decode_form:
  assumes dec: "ccsds_tc_frame_decode scid buf = Inr f"
  shows "\<exists>spare fill. buf = tc_frame_octets spare f @ fill \<and> tc_fill fill \<and> tc_frame_wf scid f"
proof -
  have "5 \<le> length buf"
    using dec by (auto simp: ccsds_tc_frame_decode_def CCSDS_TC_PRIMARY_HDR_LEN_def Let_def
        split: if_splits)
  from tc_frame_split [OF this] obtain w0 w1 s rest
    where buf: "buf = put_be16 w0 @ put_be16 w1 @ s # rest" by blast
  define n where "n = unat (w1 AND mask 10) + 1"
  have facts: "\<not> bit w0 14" "\<not> bit w0 15" "5 \<le> n" "n - 5 \<le> length rest"
    "tc_fill (drop (n - 5) rest)" "w0 AND mask 10 = scid" and
    f: "f = \<lparr>tc_spacecraft_id = w0 AND mask 10,
          tc_virtual_channel_id = ucast (drop_bit 10 w1 AND mask 6),
          tc_bypass = bit w0 13, tc_control_command = bit w0 12,
          tc_frame_sequence_number = s, tc_data = take (n - 5) rest\<rparr>"
    using dec unfolding buf tc_decode_words n_def by blast+
  have len: "length (tc_data f) = n - 5" using facts(4) by (simp add: f)
  have w0: "tc_word0 (drop_bit 10 w0) f = w0"
    by (rule tc_word0_join)
      (simp_all only: facts(1,2) f ccsds_tc_frame.simps and.assoc and.idem not_False_eq_True)
  have "n - 5 + 4 = unat (w1 AND mask 10)" using facts(3) by (simp add: n_def)
  then have "length (tc_data f) + 4 = unat (w1 AND mask 10)" by (simp only: len)
  then have lf: "of_nat (length (tc_data f) + 4) = w1 AND mask 10" by (simp only:) simp
  have vcf: "tc_virtual_channel_id f = ucast (drop_bit 10 w1 AND mask 6)" by (simp add: f)
  have vcu: "ucast (ucast (v AND mask 6 :: u16) :: u8) AND mask 6 = v AND mask 6" for v
    by (rule bit_word_eqI) (auto simp: field_bits)
  have w1: "tc_word1 f = w1"
    by (rule tc_word1_join) (simp_all only: vcf vcu lf and.assoc and.idem)
  have "buf = tc_frame_octets (drop_bit 10 w0) f @ drop (n - 5) rest"
    unfolding tc_frame_octets_def w0 w1 by (simp add: buf f)
  moreover have "tc_frame_wf scid f"
  proof -
    have "scid \<le> CCSDS_TC_MAX_SCID"
      by (simp add: CCSDS_TC_MAX_SCID_def tc_mask_bits word_and_le1 flip: facts(6) del: mask_eq_exp_minus_1)
    moreover have "unat (ucast (drop_bit 10 w1 AND mask 6) :: u8) < 64"
      using unat_and_mask_less [of "drop_bit 10 w1" 6]
      by (simp add: unsigned_ucast_eq take_bit_nat_eq_self)
    moreover have "n \<le> 1024" using unat_and_mask_less [of w1 10] by (simp add: n_def)
    ultimately show ?thesis
      using len facts(6) by (auto simp: tc_frame_wf_def f word_less_nat_alt)
  qed
  ultimately show ?thesis using facts(5) by blast
qed

section \<open>Properties\<close>

text \<open>
  C39: The transfer frame decoder accepts exactly the encodings of frames addressed to this
  spacecraft (version 0, any reserved bits, at most 1019 data octets) followed by nothing or by
  fill that begins and ends with the fill octet, and it returns the encoded frame.
\<close>

theorem tc_frame_decode_accepts_exactly_frames:
  "ccsds_tc_frame_decode scid buf = Inr f \<longleftrightarrow>
     (\<exists>spare fill. buf = tc_frame_octets spare f @ fill \<and> tc_fill fill \<and> tc_frame_wf scid f)"
  using tc_decode_form tc_decode_octets by blast

end
