(* ===== verification/Tc_Segment.thy ===== *)
theory Tc_Segment
  imports Tc_Frame
begin

text \<open>
  TC segments, \<open>ccsds_tc_segment.c\<close>: the segment header and the walk over the packets or packet
  fragments of the data field. The part handler is an argument acting on a state \<open>'s\<close>. The
  lemmas show that the walk of an unsegmented field is the delivery of exactly the packets the
  field is made of, in order, up to the first handler error.
\<close>

unbundle bit_operations_syntax

definition CCSDS_TC_SEGMENT_HDR_LEN :: nat where "CCSDS_TC_SEGMENT_HDR_LEN = 1"
definition CCSDS_TC_SEGMENT_BOUNDARY_MASK :: u8 where "CCSDS_TC_SEGMENT_BOUNDARY_MASK = 0x03"
definition CCSDS_TC_SEGMENT_MAP_MASK :: u8 where "CCSDS_TC_SEGMENT_MAP_MASK = 0x3f"

datatype ccsds_tc_segment_boundary =
    CCSDS_TC_SEGMENT_CONTINUATION
  | CCSDS_TC_SEGMENT_FIRST
  | CCSDS_TC_SEGMENT_LAST
  | CCSDS_TC_SEGMENT_UNSEGMENTED

text \<open>The cast from the two boundary bits.\<close>

definition segment_boundary_of :: "u8 \<Rightarrow> ccsds_tc_segment_boundary" where
  "segment_boundary_of v =
     (if v = 0 then CCSDS_TC_SEGMENT_CONTINUATION else if v = 1 then CCSDS_TC_SEGMENT_FIRST
      else if v = 2 then CCSDS_TC_SEGMENT_LAST else CCSDS_TC_SEGMENT_UNSEGMENTED)"

definition CCSDS_TC_SEGMENT_BOUNDARY :: "u8 \<Rightarrow> u8" where
  "CCSDS_TC_SEGMENT_BOUNDARY header = drop_bit 6 header AND CCSDS_TC_SEGMENT_BOUNDARY_MASK"
definition CCSDS_TC_SEGMENT_MAP_ID :: "u8 \<Rightarrow> u8" where
  "CCSDS_TC_SEGMENT_MAP_ID header = header AND CCSDS_TC_SEGMENT_MAP_MASK"

record ccsds_tc_segment =
  seg_boundary :: ccsds_tc_segment_boundary
  seg_map_id :: u8
  seg_data :: octets

record ccsds_tc_segment_part =
  part_map_id :: u8
  part_boundary :: ccsds_tc_segment_boundary
  part_starts :: bool
  part_ends :: bool
  part_data :: octets
  part_packet_len :: nat

type_synonym 's part_handler = "ccsds_tc_segment_part \<Rightarrow> 's \<Rightarrow> int \<times> 's"

definition segment_ends_packet :: "ccsds_tc_segment_boundary \<Rightarrow> bool" where
  "segment_ends_packet b \<longleftrightarrow> b = CCSDS_TC_SEGMENT_LAST \<or> b = CCSDS_TC_SEGMENT_UNSEGMENTED"

definition encoded_packet_len :: "octets \<Rightarrow> nat" where
  "encoded_packet_len packet =
     CCSDS_SPACE_PACKET_PRIMARY_HDR_LEN + unat (get_be16 (drop 4 packet)) + 1"

definition emit_part ::
  "ccsds_tc_segment \<Rightarrow> bool \<Rightarrow> bool \<Rightarrow> octets \<Rightarrow> nat \<Rightarrow> 's part_handler \<Rightarrow> 's \<Rightarrow> int \<times> 's" where
  "emit_part segment starts ends data plen handler s =
     handler \<lparr>part_map_id = seg_map_id segment, part_boundary = seg_boundary segment,
              part_starts = starts, part_ends = ends, part_data = data,
              part_packet_len = plen\<rparr> s"

definition ccsds_tc_segment_decode :: "octets \<Rightarrow> ccsds_tc_segment result" where
  "ccsds_tc_segment_decode buf =
     (if length buf < CCSDS_TC_SEGMENT_HDR_LEN then Inl (- EINVAL)
      else Inr \<lparr>seg_boundary = segment_boundary_of (CCSDS_TC_SEGMENT_BOUNDARY (buf ! 0)),
                seg_map_id = CCSDS_TC_SEGMENT_MAP_ID (buf ! 0),
                seg_data = drop CCSDS_TC_SEGMENT_HDR_LEN buf\<rparr>)"

definition ccsds_tc_segment_decode_frame :: "ccsds_tc_frame \<Rightarrow> ccsds_tc_segment result" where
  "ccsds_tc_segment_decode_frame frame = ccsds_tc_segment_decode (tc_data frame)"

text \<open>The loop over an unsegmented field: \<open>rest\<close> is the data from \<open>offset\<close> on.\<close>

function walk_packets :: "ccsds_tc_segment \<Rightarrow> 's part_handler \<Rightarrow> octets \<Rightarrow> 's \<Rightarrow> int \<times> 's" where
  "walk_packets segment handler rest s =
     (if rest = [] then (0, s)
      else if length rest < CCSDS_SPACE_PACKET_PRIMARY_HDR_LEN then (- EINVAL, s)
      else
        let plen = encoded_packet_len rest
        in if plen > length rest then (- EINVAL, s)
           else
             (case emit_part segment True True (take plen rest) plen handler s of
                (ret, s') \<Rightarrow>
                  if ret \<noteq> 0 then (ret, s')
                  else walk_packets segment handler (drop plen rest) s'))"
  by pat_completeness auto
termination
  by (relation "measure (\<lambda>(segment, handler, rest, s). length rest)")
    (auto simp: encoded_packet_len_def)

declare walk_packets.simps [simp del]

definition ccsds_tc_segment_walk_parts ::
  "ccsds_tc_segment \<Rightarrow> 's part_handler \<Rightarrow> 's \<Rightarrow> int \<times> 's" where
  "ccsds_tc_segment_walk_parts segment handler s =
     (if seg_data segment = [] then (- EINVAL, s)
      else if seg_boundary segment = CCSDS_TC_SEGMENT_CONTINUATION \<or>
              seg_boundary segment = CCSDS_TC_SEGMENT_LAST
      then emit_part segment False (segment_ends_packet (seg_boundary segment)) (seg_data segment) 0
             handler s
      else if seg_boundary segment = CCSDS_TC_SEGMENT_FIRST
      then (if length (seg_data segment) < CCSDS_SPACE_PACKET_PRIMARY_HDR_LEN then (- EINVAL, s)
            else
              let plen = encoded_packet_len (seg_data segment)
              in if plen \<le> length (seg_data segment) then (- EINVAL, s)
                 else emit_part segment True False (seg_data segment) plen handler s)
      else walk_packets segment handler (seg_data segment) s)"

section \<open>Fields made of whole packets\<close>

text \<open>An octet list that is one encoded packet by its own length field.\<close>

definition is_packet :: "octets \<Rightarrow> bool" where
  "is_packet p \<longleftrightarrow> CCSDS_SPACE_PACKET_PRIMARY_HDR_LEN \<le> length p \<and> encoded_packet_len p = length p"

text \<open>Delivery of a list of packets: one complete part per packet, stopping at an error.\<close>

fun deliver_packets :: "ccsds_tc_segment \<Rightarrow> 's part_handler \<Rightarrow> octets list \<Rightarrow> 's \<Rightarrow> int \<times> 's" where
  "deliver_packets segment handler [] s = (0, s)"
| "deliver_packets segment handler (p # ps) s =
     (case emit_part segment True True p (length p) handler s of
        (ret, s') \<Rightarrow> if ret \<noteq> 0 then (ret, s') else deliver_packets segment handler ps s')"

lemma encoded_packet_len_append:
  "6 \<le> length p \<Longrightarrow> encoded_packet_len (p @ r) = encoded_packet_len p"
proof -
  assume "6 \<le> length p"
  then have "drop 4 (p @ r) = drop 4 p @ r" "2 \<le> length (drop 4 p)" by simp_all
  moreover have "get_be16 (xs @ r) = get_be16 xs" if "2 \<le> length xs" for xs
    using that by (cases xs; cases "tl xs") (simp_all add: get_be16_def)
  ultimately show ?thesis by (simp add: encoded_packet_len_def)
qed

lemma walk_packets_concat:
  assumes "list_all is_packet ps"
  shows "walk_packets segment handler (concat ps @ bad) s =
     (case deliver_packets segment handler ps s of
        (ret, s') \<Rightarrow> if ret \<noteq> 0 then (ret, s') else walk_packets segment handler bad s')"
  using assms
proof (induction ps arbitrary: s)
  case (Cons p ps)
  then have p: "6 \<le> length p" "encoded_packet_len p = length p"
    by (simp_all add: is_packet_def CCSDS_SPACE_PACKET_PRIMARY_HDR_LEN_def)
  have "encoded_packet_len (p @ concat ps @ bad) = length p"
    using p by (simp add: encoded_packet_len_append)
  moreover have "p \<noteq> []" using p by auto
  ultimately show ?case
    using Cons p by (subst walk_packets.simps)
      (simp add: CCSDS_SPACE_PACKET_PRIMARY_HDR_LEN_def Let_def split: prod.split)
qed simp

text \<open>
  Every field splits uniquely into whole packets and a remainder that starts with none;
  \<open>packets_of\<close> computes the split.
\<close>

function packets_of :: "octets \<Rightarrow> octets list \<times> octets" where
  "packets_of rest =
     (if length rest < CCSDS_SPACE_PACKET_PRIMARY_HDR_LEN \<or> encoded_packet_len rest > length rest
      then ([], rest)
      else let plen = encoded_packet_len rest; (ps, bad) = packets_of (drop plen rest)
           in (take plen rest # ps, bad))"
  by pat_completeness auto
termination
  by (relation "measure length") (auto simp: encoded_packet_len_def)

declare packets_of.simps [simp del]

lemma take_is_packet:
  assumes "6 \<le> length rest" "encoded_packet_len rest \<le> length rest"
  shows "is_packet (take (encoded_packet_len rest) rest)"
proof -
  let ?p = "take (encoded_packet_len rest) rest"
  have len: "length ?p = encoded_packet_len rest" using assms by simp
  then have "6 \<le> length ?p"
    by (simp add: encoded_packet_len_def CCSDS_SPACE_PACKET_PRIMARY_HDR_LEN_def)
  then have "encoded_packet_len (?p @ drop (encoded_packet_len rest) rest) = encoded_packet_len ?p"
    by (rule encoded_packet_len_append)
  with len \<open>6 \<le> length ?p\<close> show ?thesis
    by (simp add: is_packet_def CCSDS_SPACE_PACKET_PRIMARY_HDR_LEN_def)
qed

lemma packets_of_split:
  "packets_of rest = (ps, bad) \<Longrightarrow> rest = concat ps @ bad \<and> list_all is_packet ps"
proof (induction rest arbitrary: ps bad rule: packets_of.induct)
  case (1 rest)
  show ?case
  proof (cases "length rest < CCSDS_SPACE_PACKET_PRIMARY_HDR_LEN \<or> encoded_packet_len rest > length rest")
    case True
    with "1.prems" show ?thesis by (subst (asm) packets_of.simps) simp
  next
    case False
    obtain qs b where rec: "packets_of (drop (encoded_packet_len rest) rest) = (qs, b)" by force
    with "1.prems" False have eq: "ps = take (encoded_packet_len rest) rest # qs" "bad = b"
      by (simp_all add: packets_of.simps [of rest] Let_def)
    from "1.IH" [OF False refl rec] False show ?thesis
      using take_is_packet [of rest]
      by (simp add: eq CCSDS_SPACE_PACKET_PRIMARY_HDR_LEN_def)
        (metis append_take_drop_id)
  qed
qed

lemma walk_packets_bad:
  "packets_of rest = (ps, bad) \<Longrightarrow>
     walk_packets segment handler bad s = (if bad = [] then 0 else - EINVAL, s)"
proof (induction rest arbitrary: ps rule: packets_of.induct)
  case (1 rest)
  show ?case
  proof (cases "length rest < CCSDS_SPACE_PACKET_PRIMARY_HDR_LEN \<or> encoded_packet_len rest > length rest")
    case True
    with "1.prems" have "bad = rest" by (subst (asm) packets_of.simps) simp
    with True show ?thesis by (subst walk_packets.simps) (auto simp: Let_def)
  next
    case False
    obtain qs b where rec: "packets_of (drop (encoded_packet_len rest) rest) = (qs, b)" by force
    with "1.prems" False have "bad = b"
      by (simp_all add: packets_of.simps [of rest] Let_def)
    with "1.IH" [OF False refl] rec show ?thesis by blast
  qed
qed

text \<open>What every handler call keeps, the walk keeps.\<close>

lemma walk_packets_invariant:
  assumes "\<And>part s. P s \<Longrightarrow> P (snd (handler part s))" and "P s"
  shows "P (snd (walk_packets segment handler rest s))"
  using assms
proof (induction segment handler rest s rule: walk_packets.induct)
  case (1 segment handler rest s)
  let ?plen = "encoded_packet_len rest"
  obtain ret s1 where emit: "emit_part segment True True (take ?plen rest) ?plen handler s = (ret, s1)"
    by force
  then have "P s1" using "1.prems"(1) [OF "1.prems"(2)] by (metis emit_part_def snd_conv)
  with 1 emit show ?case
    by (subst walk_packets.simps) (auto simp: Let_def)
qed

lemma walk_parts_invariant:
  assumes "\<And>part s. P s \<Longrightarrow> P (snd (handler part s))" and "P s"
  shows "P (snd (ccsds_tc_segment_walk_parts segment handler s))"
  using assms walk_packets_invariant [of P handler s segment, OF assms]
  by (auto simp: ccsds_tc_segment_walk_parts_def emit_part_def Let_def)

definition count_parts :: "nat part_handler" where
  "count_parts part n = (0, n + 1)"

section \<open>Properties\<close>

text \<open>
  Walking an unsegmented field calls the handler once for each whole packet the field starts
  with, in order and marked as complete, and stops with the first nonzero handler result; if no
  handler fails, it returns 0 exactly when the packets are the whole field, and -EINVAL when a
  remainder is left over. The walk always ends.
\<close>

theorem segment_walk_delivers_exactly_packets:
  assumes "seg_boundary segment = CCSDS_TC_SEGMENT_UNSEGMENTED" and "seg_data segment \<noteq> []"
    and "packets_of (seg_data segment) = (ps, bad)"
  shows "seg_data segment = concat ps @ bad \<and> list_all is_packet ps \<and>
     ccsds_tc_segment_walk_parts segment handler s =
       (case deliver_packets segment handler ps s of
          (ret, s') \<Rightarrow> if ret \<noteq> 0 then (ret, s')
                       else (if bad = [] then 0 else - EINVAL, s'))"
proof -
  note parts = packets_of_split [OF assms(3)]
  have "ccsds_tc_segment_walk_parts segment handler s
      = walk_packets segment handler (seg_data segment) s"
    using assms(1,2) by (simp add: ccsds_tc_segment_walk_parts_def)
  also have "\<dots> = walk_packets segment handler (concat ps @ bad) s"
    using parts by metis
  finally show ?thesis
    using parts by (simp add: walk_packets_concat walk_packets_bad [OF assms(3)]
        walk_packets.simps [of _ _ "[]"] split: prod.split)
qed

lemma segment_walk_delivers_exactly_packets_witness:
  "ccsds_tc_segment_walk_parts
     \<lparr>seg_boundary = CCSDS_TC_SEGMENT_UNSEGMENTED, seg_map_id = 0, seg_data = [0, 1, 0, 2, 0, 0, 9]\<rparr>
     count_parts 0 = (0, 1)"
proof -
  let ?seg = "\<lparr>seg_boundary = CCSDS_TC_SEGMENT_UNSEGMENTED, seg_map_id = 0,
    seg_data = [0, 1, 0, 2, 0, 0, 9]\<rparr>"
  have "encoded_packet_len [0, 1, 0, 2, 0, 0, 9] = 7"
    by (simp add: encoded_packet_len_def get_be16_def CCSDS_SPACE_PACKET_PRIMARY_HDR_LEN_def)
  then have "packets_of [0, 1, 0, 2, 0, 0, 9] = ([[0, 1, 0, 2, 0, 0, 9]], [])"
    by (simp add: packets_of.simps [of "_ # _"] packets_of.simps [of "[]"]
        CCSDS_SPACE_PACKET_PRIMARY_HDR_LEN_def)
  then have "packets_of (seg_data ?seg) = ([[0, 1, 0, 2, 0, 0, 9]], [])" by simp
  from segment_walk_delivers_exactly_packets [OF _ _ this, of count_parts 0] show ?thesis
    by (simp add: count_parts_def emit_part_def)
qed

end
