(* ===== verification/Router.thy ===== *)
theory Router
  imports Space_Packet
begin

text \<open>
  The APID router of \<open>ccsds_router.c\<close>: a table of eight entries, each with its APID, handler, user
  data and active flag. A handler with its user data is a value of type \<open>'h\<close>; the argument
  \<open>call\<close> of the dispatch functions runs it on a packet and a state. The interface
  \<open>bounded_table\<close> states what a client of such a table relies on; the router is shown to provide
  it, which gives the refinement of the table by a finite map with bounded domain.
\<close>

definition CONFIG_AKIRA_CCSDS_ROUTER_MAX_APIDS :: nat where
  "CONFIG_AKIRA_CCSDS_ROUTER_MAX_APIDS = 8"

record 'h ccsds_router_entry =
  entry_apid :: u16
  entry_handler :: "'h option"
  active :: bool

record 'h ccsds_router =
  entries :: "'h ccsds_router_entry list"

text \<open>An entry or table cleared by \<open>memset\<close>.\<close>

definition cleared_entry :: "'h ccsds_router_entry" where
  "cleared_entry = \<lparr>entry_apid = 0, entry_handler = None, active = False\<rparr>"

definition ccsds_router_init :: "'h ccsds_router" where
  "ccsds_router_init =
     \<lparr>entries = replicate CONFIG_AKIRA_CCSDS_ROUTER_MAX_APIDS cleared_entry\<rparr>"

text \<open>The search loops: the first index whose entry satisfies the test.\<close>

fun find_index :: "('a \<Rightarrow> bool) \<Rightarrow> 'a list \<Rightarrow> nat option" where
  "find_index P [] = None"
| "find_index P (x # xs) = (if P x then Some 0 else map_option Suc (find_index P xs))"

definition ccsds_router_register_apid ::
  "'h ccsds_router \<Rightarrow> u16 \<Rightarrow> 'h \<Rightarrow> int \<times> 'h ccsds_router" where
  "ccsds_router_register_apid router apid handler =
     (if apid > CCSDS_APID_MAX then (- EINVAL, router)
      else
        case find_index (\<lambda>e. active e \<and> entry_apid e = apid) (entries router) of
          Some i \<Rightarrow>
            (0, router\<lparr>entries := (entries router)
                 [i := (entries router ! i)\<lparr>entry_handler := Some handler\<rparr>]\<rparr>)
        | None \<Rightarrow>
            (case find_index (\<lambda>e. \<not> active e) (entries router) of
               Some i \<Rightarrow>
                 (0, router\<lparr>entries := (entries router)
                      [i := (entries router ! i)\<lparr>entry_apid := apid, entry_handler := Some handler,
                               active := True\<rparr>]\<rparr>)
             | None \<Rightarrow> (- ENOSPC, router)))"

definition ccsds_router_unregister_apid :: "'h ccsds_router \<Rightarrow> u16 \<Rightarrow> int \<times> 'h ccsds_router" where
  "ccsds_router_unregister_apid router apid =
     (if apid > CCSDS_APID_MAX then (- EINVAL, router)
      else
        case find_index (\<lambda>e. active e \<and> entry_apid e = apid) (entries router) of
          Some i \<Rightarrow> (0, router\<lparr>entries := (entries router)[i := cleared_entry]\<rparr>)
        | None \<Rightarrow> (- ENOENT, router))"

type_synonym ('h, 's) packet_call = "'h \<Rightarrow> ccsds_space_packet \<Rightarrow> 's \<Rightarrow> int \<times> 's"

text \<open>An active entry always has a handler (\<open>router_inv\<close> below), so the last case is unreachable.\<close>

definition ccsds_router_dispatch ::
  "('h, 's) packet_call \<Rightarrow> 'h ccsds_router \<Rightarrow> ccsds_space_packet \<Rightarrow> 's \<Rightarrow> int \<times> 's" where
  "ccsds_router_dispatch call router packet s =
     (if sp_apid packet > CCSDS_APID_MAX then (- EINVAL, s)
      else
        case find_index (\<lambda>e. active e \<and> entry_apid e = sp_apid packet) (entries router) of
          Some i \<Rightarrow>
            (case entry_handler (entries router ! i) of
               Some handler \<Rightarrow> call handler packet s
             | None \<Rightarrow> (- EINVAL, s))
        | None \<Rightarrow> (- ENOENT, s))"

definition ccsds_router_dispatch_bytes ::
  "('h, 's) packet_call \<Rightarrow> 'h ccsds_router \<Rightarrow> octets \<Rightarrow> 's \<Rightarrow> int \<times> 's" where
  "ccsds_router_dispatch_bytes call router packet_bytes s =
     (case ccsds_space_packet_decode packet_bytes of
        Inl ret \<Rightarrow> (ret, s)
      | Inr packet \<Rightarrow> ccsds_router_dispatch call router packet s)"

section \<open>Searching\<close>

lemma find_index_split:
  "find_index P xs = Some i \<Longrightarrow>
     \<exists>pre x post. xs = pre @ x # post \<and> length pre = i \<and> P x \<and> (\<forall>y \<in> set pre. \<not> P y)"
proof (induction xs arbitrary: i)
  case (Cons a xs)
  show ?case
  proof (cases "P a")
    case True
    with Cons.prems show ?thesis by (intro exI [of _ "[]"]) auto
  next
    case False
    with Cons.prems obtain k where "find_index P xs = Some k" "i = Suc k" by auto
    with Cons.IH [of k] False show ?thesis
      by (metis append_Cons length_Cons set_ConsD)
  qed
qed simp

lemma find_index_None_iff: "find_index P xs = None \<longleftrightarrow> (\<forall>x \<in> set xs. \<not> P x)"
  by (induction xs) auto

section \<open>The interface of a bounded table\<close>

text \<open>Sequences of updates, on a table and on the bounded map it stands for.\<close>

datatype ('k, 'v) table_op = Add 'k 'v | Remove 'k

fun run_table ::
  "('t \<Rightarrow> 'k \<Rightarrow> 'v \<Rightarrow> int \<times> 't) \<Rightarrow> ('t \<Rightarrow> 'k \<Rightarrow> int \<times> 't) \<Rightarrow> ('k, 'v) table_op list \<Rightarrow> 't
     \<Rightarrow> int list \<times> 't" where
  "run_table add remove [] t = ([], t)"
| "run_table add remove (op # ops) t =
     (let (ret, t1) = (case op of Add k v \<Rightarrow> add t k v | Remove k \<Rightarrow> remove t k);
          (rets, t2) = run_table add remove ops t1
      in (ret # rets, t2))"

definition map_add_bounded ::
  "('k \<Rightarrow> bool) \<Rightarrow> nat \<Rightarrow> ('k \<rightharpoonup> 'v) \<Rightarrow> 'k \<Rightarrow> 'v \<Rightarrow> int \<times> ('k \<rightharpoonup> 'v)" where
  "map_add_bounded valid capacity m k v =
     (if \<not> valid k then (- EINVAL, m)
      else if k \<in> dom m \<or> card (dom m) < capacity then (0, m(k \<mapsto> v))
      else (- ENOSPC, m))"

definition map_remove :: "('k \<Rightarrow> bool) \<Rightarrow> ('k \<rightharpoonup> 'v) \<Rightarrow> 'k \<Rightarrow> int \<times> ('k \<rightharpoonup> 'v)" where
  "map_remove valid m k =
     (if \<not> valid k then (- EINVAL, m)
      else if k \<in> dom m then (0, m(k := None)) else (- ENOENT, m))"

text \<open>
  What a client needs of a table: an invariant and the map it stands for, and that both updates
  give the result and the effect of the updates of the bounded map.
\<close>

locale bounded_table =
  fixes inv :: "'t \<Rightarrow> bool"
    and lookup :: "'t \<Rightarrow> 'k \<Rightarrow> 'v option"
    and valid :: "'k \<Rightarrow> bool"
    and capacity :: nat
    and empty :: 't
    and add :: "'t \<Rightarrow> 'k \<Rightarrow> 'v \<Rightarrow> int \<times> 't"
    and remove :: "'t \<Rightarrow> 'k \<Rightarrow> int \<times> 't"
  assumes inv_empty: "inv empty" and lookup_empty: "lookup empty = Map.empty"
    and inv_add: "inv t \<Longrightarrow> inv (snd (add t k v))"
    and inv_remove: "inv t \<Longrightarrow> inv (snd (remove t k))"
    and bounded: "inv t \<Longrightarrow> finite (dom (lookup t)) \<and> card (dom (lookup t)) \<le> capacity"
    and keys: "inv t \<Longrightarrow> k \<in> dom (lookup t) \<Longrightarrow> valid k"
    and add_map: "inv t \<Longrightarrow>
      map_prod id lookup (add t k v) = map_add_bounded valid capacity (lookup t) k v"
    and remove_map: "inv t \<Longrightarrow>
      map_prod id lookup (remove t k) = map_remove valid (lookup t) k"
begin

lemma remove_then_add:
  assumes "inv t" "k \<in> dom (lookup t)"
  shows "fst (add (snd (remove t k)) k v) = 0"
proof -
  have "finite (dom (lookup t))" "card (dom (lookup t)) \<le> capacity" using bounded [OF assms(1)] by auto
  then have "card (dom (lookup t) - {k}) < capacity"
    using assms(2) by (metis card_Diff1_less order_less_le_trans)
  moreover have "lookup (snd (remove t k)) = (lookup t)(k := None)"
    using arg_cong [OF remove_map [OF assms(1), of k], of snd] assms keys [OF assms]
    by (simp add: map_remove_def)
  ultimately show ?thesis
    using arg_cong [OF add_map [OF inv_remove [OF assms(1)], of k k v], of fst] keys [OF assms]
    by (simp add: map_add_bounded_def)
qed

lemma run_refines:
  "inv t \<Longrightarrow>
     map_prod id lookup (run_table add remove ops t)
       = run_table (map_add_bounded valid capacity) (map_remove valid) ops (lookup t)
     \<and> inv (snd (run_table add remove ops t))"
proof (induction ops arbitrary: t)
  case (Cons op ops)
  let ?step = "case op of Add k v \<Rightarrow> add t k v | Remove k \<Rightarrow> remove t k"
  have inv: "inv (snd ?step)" using Cons.prems inv_add inv_remove by (simp split: table_op.split)
  let ?abs = "case op of Add k v \<Rightarrow> map_add_bounded valid capacity (lookup t) k v
      | Remove k \<Rightarrow> map_remove valid (lookup t) k"
  obtain ret t1 where step: "?step = (ret, t1)" by force
  have "map_prod id lookup ?step = ?abs"
    using Cons.prems add_map remove_map by (simp split: table_op.split)
  then have abs: "?abs = (ret, lookup t1)" by (simp add: step)
  obtain rets t2 where rec: "run_table add remove ops t1 = (rets, t2)" by force
  have "run_table (map_add_bounded valid capacity) (map_remove valid) ops (lookup t1)
      = (rets, lookup t2)" "inv t2"
    using Cons.IH [of t1] inv by (simp_all add: step rec)
  then show ?case
    by (simp only: run_table.simps step abs rec Let_def prod.case map_prod_simp id_apply snd_conv)
qed simp

end

section \<open>The router as a bounded table\<close>

definition bindings :: "'h ccsds_router_entry list \<Rightarrow> (u16 \<times> 'h) list" where
  "bindings es = map (\<lambda>e. (entry_apid e, the (entry_handler e))) (filter active es)"

definition router_map :: "'h ccsds_router \<Rightarrow> u16 \<Rightarrow> 'h option" where
  "router_map r = map_of (bindings (entries r))"

definition router_inv :: "'h ccsds_router \<Rightarrow> bool" where
  "router_inv r \<longleftrightarrow>
     length (entries r) = CONFIG_AKIRA_CCSDS_ROUTER_MAX_APIDS \<and>
     distinct (map fst (bindings (entries r))) \<and>
     list_all (\<lambda>e. active e \<longrightarrow> entry_apid e \<le> CCSDS_APID_MAX \<and> entry_handler e \<noteq> None) (entries r)"

lemma bindings_append [simp]:
  "bindings (xs @ ys) = bindings xs @ bindings ys"
  "bindings [] = []"
  "bindings (e # es) = (if active e then (entry_apid e, the (entry_handler e)) # bindings es else bindings es)"
  by (simp_all add: bindings_def)

lemma fst_bindings: "fst ` set (bindings es) = entry_apid ` {e \<in> set es. active e}"
  by (force simp: bindings_def)

lemma router_find_None:
  "find_index (\<lambda>e. active e \<and> entry_apid e = k) es = None \<longleftrightarrow> k \<notin> dom (map_of (bindings es))"
  by (auto simp: find_index_None_iff dom_map_of_conv_image_fst fst_bindings)

lemma card_dom_bindings:
  "distinct (map fst (bindings es)) \<Longrightarrow> card (dom (map_of (bindings es))) = length (filter active es)"
  by (metis bindings_def distinct_card dom_map_of_conv_image_fst length_map list.set_map)

lemma free_entry:
  "length (filter active es) < length es \<longleftrightarrow> find_index (\<lambda>e. \<not> active e) es \<noteq> None"
  by (induction es) (auto simp: less_Suc_eq_le dest: le_neq_implies_less)

lemma map_of_insert_middle:
  "k \<notin> fst ` set (xs @ ys) \<Longrightarrow> map_of (xs @ (k, v) # ys) = (map_of (xs @ ys))(k \<mapsto> v)"
  by (simp add: map_add_upd_left dom_map_of_conv_image_fst image_Un)

lemma map_of_middle:
  assumes "distinct (map fst (xs @ (k, v) # ys))"
  shows "map_of (xs @ (k, w) # ys) = (map_of (xs @ (k, v) # ys))(k \<mapsto> w)"
    "map_of (xs @ ys) = (map_of (xs @ (k, v) # ys))(k := None)"
proof -
  have k: "k \<notin> fst ` set (xs @ ys)" using assms by auto
  show "map_of (xs @ (k, w) # ys) = (map_of (xs @ (k, v) # ys))(k \<mapsto> w)"
    unfolding map_of_insert_middle [OF k] by simp
  have "map_of (xs @ ys) k = None" using k by (simp only: map_of_eq_None_iff not_False_eq_True)
  then show "map_of (xs @ ys) = (map_of (xs @ (k, v) # ys))(k := None)"
    unfolding map_of_insert_middle [OF k] by (simp only: fun_upd_upd fun_upd_idem)
qed

text \<open>The three effects of the updates on the entry list.\<close>

lemma router_register_cases:
  assumes "router_inv r"
  obtains (invalid) "k > CCSDS_APID_MAX" "ccsds_router_register_apid r k h = (- EINVAL, r)"
  | (replace) pre e post where "k \<le> CCSDS_APID_MAX" "entries r = pre @ e # post" "active e"
      "entry_apid e = k" "ccsds_router_register_apid r k h
        = (0, r\<lparr>entries := pre @ e\<lparr>entry_handler := Some h\<rparr> # post\<rparr>)"
  | (insert) pre e post where "k \<le> CCSDS_APID_MAX" "entries r = pre @ e # post" "\<not> active e"
      "k \<notin> dom (router_map r)" "ccsds_router_register_apid r k h
        = (0, r\<lparr>entries := pre @ \<lparr>entry_apid = k, entry_handler = Some h, active = True\<rparr> # post\<rparr>)"
  | (full) "k \<le> CCSDS_APID_MAX" "k \<notin> dom (router_map r)"
      "length (filter active (entries r)) = CONFIG_AKIRA_CCSDS_ROUTER_MAX_APIDS"
      "ccsds_router_register_apid r k h = (- ENOSPC, r)"
proof (cases "k > CCSDS_APID_MAX")
  case True
  then show thesis by (intro invalid) (simp_all add: ccsds_router_register_apid_def)
next
  case valid: False
  let ?find = "find_index (\<lambda>e. active e \<and> entry_apid e = k) (entries r)"
  show thesis
  proof (cases ?find)
    case (Some i)
    from find_index_split [OF Some] obtain pre e post where
      split: "entries r = pre @ e # post" "i = length pre" "active e" "entry_apid e = k" by blast
    show thesis
      by (rule replace [of pre e post])
        (use valid split Some in \<open>simp_all add: ccsds_router_register_apid_def nth_append\<close>)
  next
    case None
    then have new: "k \<notin> dom (router_map r)" by (simp add: router_find_None router_map_def)
    show thesis
    proof (cases "find_index (\<lambda>e. \<not> active e) (entries r)")
      case (Some i)
      from find_index_split [OF Some] obtain pre e post where
        split: "entries r = pre @ e # post" "i = length pre" "\<not> active e" by blast
      show thesis
        by (rule insert [of pre e post])
          (use valid split Some None new in \<open>simp_all add: ccsds_router_register_apid_def nth_append\<close>)
    next
      case full_table: None
      have "length (filter active (entries r)) = CONFIG_AKIRA_CCSDS_ROUTER_MAX_APIDS"
        using full_table free_entry [of "entries r"] length_filter_le [of active "entries r"] assms
        by (simp add: router_inv_def)
      then show thesis
        by (intro full) (use valid None full_table new in \<open>simp_all add: ccsds_router_register_apid_def\<close>)
    qed
  qed
qed

lemma router_unregister_cases:
  assumes "router_inv r"
  obtains (invalid) "k \<notin> dom (router_map r)" "ccsds_router_unregister_apid r k =
      (if k \<le> CCSDS_APID_MAX then - ENOENT else - EINVAL, r)"
  | (remove) pre e post where "entries r = pre @ e # post" "active e" "entry_apid e = k"
      "ccsds_router_unregister_apid r k = (0, r\<lparr>entries := pre @ cleared_entry # post\<rparr>)"
proof (cases "find_index (\<lambda>e. active e \<and> entry_apid e = k) (entries r)")
  case None
  then have "k \<notin> dom (router_map r)" by (simp add: router_find_None router_map_def)
  with None show thesis
    by (intro invalid) (auto simp: ccsds_router_unregister_apid_def)
next
  case (Some i)
  from find_index_split [OF Some] obtain pre e post where
    split: "entries r = pre @ e # post" "i = length pre" "active e" "entry_apid e = k" by blast
  then have "\<not> CCSDS_APID_MAX < k" using assms by (auto simp: router_inv_def not_less)
  then show thesis
    by (intro remove [of pre e post])
      (use split Some in \<open>simp_all add: ccsds_router_unregister_apid_def\<close>)
qed

lemma router_invD:
  assumes "router_inv r"
  shows "distinct (map fst (bindings (entries r)))"
    "card (dom (router_map r)) = length (filter active (entries r))"
    "length (entries r) = CONFIG_AKIRA_CCSDS_ROUTER_MAX_APIDS"
  using assms by (simp_all add: router_inv_def router_map_def card_dom_bindings)

lemma router_register_inv:
  assumes "router_inv r"
  shows "router_inv (snd (ccsds_router_register_apid r k h))"
  using assms
  by (cases rule: router_register_cases [OF assms, of k h])
    (auto simp: router_inv_def router_map_def dom_map_of_conv_image_fst)

lemma router_unregister_inv:
  assumes "router_inv r"
  shows "router_inv (snd (ccsds_router_unregister_apid r k))"
  using assms
  by (cases rule: router_unregister_cases [OF assms, of k])
    (auto simp: router_inv_def cleared_entry_def)

lemma router_register_map:
  assumes "router_inv r"
  shows "map_prod id router_map (ccsds_router_register_apid r k h)
       = map_add_bounded (\<lambda>k. k \<le> CCSDS_APID_MAX) CONFIG_AKIRA_CCSDS_ROUTER_MAX_APIDS (router_map r) k h"
  using assms
proof (cases rule: router_register_cases [where k = k and h = h])
  case (replace pre e post)
  then have "k \<in> dom (router_map r)" by (simp add: router_map_def dom_map_of_conv_image_fst)
  then show ?thesis
    using replace router_invD(1) [OF assms]
      map_of_middle(1) [of "bindings pre" k "the (entry_handler e)" "bindings post" h]
    by (simp add: router_map_def map_add_bounded_def)
next
  case (insert pre e post)
  have "length (filter active (entries r)) < length (entries r)"
    using insert(2,3) length_filter_le [of active pre] length_filter_le [of active post]
    by (simp add: less_Suc_eq_le add_mono)
  then have "card (dom (router_map r)) < CONFIG_AKIRA_CCSDS_ROUTER_MAX_APIDS"
    using router_invD [OF assms] by simp
  moreover have "router_map (r\<lparr>entries := pre @ \<lparr>entry_apid = k, entry_handler = Some h, active = True\<rparr> # post\<rparr>)
      = (router_map r)(k \<mapsto> h)"
    using insert(2-4) map_of_insert_middle [of k "bindings pre" "bindings post" h]
    by (simp add: router_map_def dom_map_of_conv_image_fst image_Un)
  ultimately show ?thesis
    using insert(1,5) by (simp add: map_add_bounded_def)
next
  case full
  then show ?thesis using router_invD [OF assms] by (simp add: map_add_bounded_def)
qed (auto simp: map_add_bounded_def)

lemma router_unregister_map:
  assumes "router_inv r"
  shows "map_prod id router_map (ccsds_router_unregister_apid r k)
       = map_remove (\<lambda>k. k \<le> CCSDS_APID_MAX) (router_map r) k"
  using assms
proof (cases rule: router_unregister_cases [where k = k])
  case invalid
  then show ?thesis by (simp add: map_remove_def)
next
  case (remove pre e post)
  then have "k \<in> dom (router_map r)" "k \<le> CCSDS_APID_MAX"
    using assms by (simp_all add: router_map_def dom_map_of_conv_image_fst router_inv_def)
  then show ?thesis
    using remove router_invD(1) [OF assms]
      map_of_middle(2) [of "bindings pre" k "the (entry_handler e)" "bindings post"]
    by (simp add: router_map_def cleared_entry_def map_remove_def)
qed

lemma router_keys: "router_inv r \<Longrightarrow> k \<in> dom (router_map r) \<Longrightarrow> k \<le> CCSDS_APID_MAX"
  by (auto simp: router_inv_def router_map_def dom_map_of_conv_image_fst fst_bindings list_all_iff)

lemma router_init_inv: "router_inv ccsds_router_init" "router_map ccsds_router_init = Map.empty"
proof -
  have "filter active (replicate n cleared_entry) = []" for n :: nat
    by (induction n) (simp_all add: cleared_entry_def)
  then show "router_inv ccsds_router_init" "router_map ccsds_router_init = Map.empty"
    by (simp_all add: router_inv_def router_map_def ccsds_router_init_def bindings_def
        cleared_entry_def list_all_iff)
qed

interpretation apids: bounded_table router_inv router_map "\<lambda>k. k \<le> CCSDS_APID_MAX"
  CONFIG_AKIRA_CCSDS_ROUTER_MAX_APIDS ccsds_router_init
  ccsds_router_register_apid ccsds_router_unregister_apid
proof (unfold_locales, goal_cases)
  case (5 t)
  then show ?case
    using router_invD [OF 5] length_filter_le [of active "entries t"]
    by (simp add: router_map_def finite_dom_map_of)
qed (simp_all add: router_init_inv router_register_inv router_unregister_inv router_keys
    router_register_map router_unregister_map)

lemma router_dispatch_lookup:
  assumes "router_inv r"
  shows "ccsds_router_dispatch call r packet s =
     (if sp_apid packet > CCSDS_APID_MAX then (- EINVAL, s)
      else case router_map r (sp_apid packet) of
             Some handler \<Rightarrow> call handler packet s | None \<Rightarrow> (- ENOENT, s))"
proof (cases "find_index (\<lambda>e. active e \<and> entry_apid e = sp_apid packet) (entries r)")
  case None
  then have "router_map r (sp_apid packet) = None"
    by (simp add: router_find_None router_map_def domIff)
  with None show ?thesis by (simp add: ccsds_router_dispatch_def)
next
  case (Some i)
  from find_index_split [OF Some] obtain pre e post where
    split: "entries r = pre @ e # post" "i = length pre" "active e" "entry_apid e = sp_apid packet"
    by blast
  then obtain h where h: "entry_handler e = Some h" using assms by (auto simp: router_inv_def)
  have "router_map r (sp_apid packet) = Some h"
    unfolding router_map_def using router_invD(1) [OF assms]
    by (rule map_of_is_SomeI) (simp add: split h)
  with Some split h show ?thesis by (simp add: ccsds_router_dispatch_def)
qed

section \<open>Properties\<close>

text \<open>
  C40: The router is a finite map of at most eight APIDs. After any sequence of registrations and
  removals from the cleared table, every call returned what it returns on the map (refusing
  invalid APIDs, a ninth APID, and unknown removals, and nothing else), and dispatching a packet
  runs exactly the handler the map holds for its APID, or reports that there is none.
\<close>

theorem router_refines_bounded_map:
  fixes ops :: "(u16, 'h) table_op list"
  shows "case run_table ccsds_router_register_apid ccsds_router_unregister_apid ops ccsds_router_init of
     (rets, r) \<Rightarrow>
       (case run_table (map_add_bounded (\<lambda>k. k \<le> CCSDS_APID_MAX) 8)
               (map_remove (\<lambda>k. k \<le> CCSDS_APID_MAX)) ops Map.empty of
          (map_rets, m) \<Rightarrow>
            rets = map_rets \<and>
            ccsds_router_dispatch call r packet s =
              (if sp_apid packet > CCSDS_APID_MAX then (- EINVAL, s)
               else case m (sp_apid packet) of
                      Some handler \<Rightarrow> call handler packet s | None \<Rightarrow> (- ENOENT, s)))"
proof -
  obtain rets r where run: "run_table ccsds_router_register_apid ccsds_router_unregister_apid ops
      (ccsds_router_init :: 'h ccsds_router) = (rets, r)" by force
  have "router_inv r" and "run_table (map_add_bounded (\<lambda>k. k \<le> CCSDS_APID_MAX) 8)
      (map_remove (\<lambda>k. k \<le> CCSDS_APID_MAX)) ops Map.empty = (rets, router_map r)"
    using apids.run_refines [OF router_init_inv(1), of ops]
    by (simp_all add: run router_init_inv(2) CONFIG_AKIRA_CCSDS_ROUTER_MAX_APIDS_def)
  then show ?thesis by (simp add: run router_dispatch_lookup)
qed

text \<open>
  An entry that was removed can always be registered again: removal really frees the slot,
  even in a full table.
\<close>

theorem router_remove_frees_slot:
  assumes "router_inv router" and "apid \<in> dom (router_map router)"
  shows "fst (ccsds_router_register_apid (snd (ccsds_router_unregister_apid router apid)) apid handler) = 0"
  using assms by (rule apids.remove_then_add)

lemma router_remove_frees_slot_witness:
  "fst (ccsds_router_register_apid (snd (ccsds_router_unregister_apid
     (snd (ccsds_router_register_apid ccsds_router_init 5 True)) 5)) 5 False) = 0"
proof (rule router_remove_frees_slot)
  show "router_inv (snd (ccsds_router_register_apid ccsds_router_init 5 True))"
    by (rule router_register_inv [OF router_init_inv(1)])
  have "(5 :: u16) \<le> CCSDS_APID_MAX" by (simp add: CCSDS_APID_MAX_def)
  then show "5 \<in> dom (router_map (snd (ccsds_router_register_apid ccsds_router_init 5 True)))"
    using arg_cong [OF router_register_map [OF router_init_inv(1), of 5 True], of snd]
    by (simp add: map_add_bounded_def router_init_inv(2) CONFIG_AKIRA_CCSDS_ROUTER_MAX_APIDS_def)
qed

end
