(* ===== verification/Tc_Profile.thy ===== *)
theory Tc_Profile
  imports Cltu Randomizer Tc_Segment Router
begin

text \<open>
  The telecommand receive profile of \<open>ccsds_profile.c\<close>: the frame acceptance state of COP-1
  (FARM-1), control frames, the control word CLCW, packet reassembly, the receive counters and the
  dispatch of one complete CLTU through all layers.

  The spacecraft identifier and the derandomizer option are in a configuration record; the sizes
  and the window are the defaults of \<open>Kconfig\<close>. The frame buffer is scratch that is written
  before it is read, so it is not part of the state. Counters are 32-bit words and wrap.
\<close>

unbundle bit_operations_syntax

definition CONFIG_AKIRA_CCSDS_TC_MAX_SPACE_PACKET_LEN :: nat where
  "CONFIG_AKIRA_CCSDS_TC_MAX_SPACE_PACKET_LEN = 2048"
definition CONFIG_AKIRA_CCSDS_MAX_FRAME_LEN :: nat where "CONFIG_AKIRA_CCSDS_MAX_FRAME_LEN = 1115"
definition CONFIG_AKIRA_CCSDS_COP1_WINDOW_SIZE :: nat where
  "CONFIG_AKIRA_CCSDS_COP1_WINDOW_SIZE = 128"
definition CCSDS_TC_VC_COUNT :: u8 where "CCSDS_TC_VC_COUNT = 64"
definition CCSDS_TC_CONTROL_UNLOCK :: u8 where "CCSDS_TC_CONTROL_UNLOCK = 0x00"
definition CCSDS_TC_CONTROL_SET_VR :: u8 where "CCSDS_TC_CONTROL_SET_VR = 0x82"
definition CCSDS_TC_CONTROL_SET_VR_QUALIFIER :: u8 where "CCSDS_TC_CONTROL_SET_VR_QUALIFIER = 0x00"
definition CCSDS_TC_CONTROL_SET_VR_MIN_LEN :: nat where "CCSDS_TC_CONTROL_SET_VR_MIN_LEN = 3"
definition CCSDS_CLCW_CONTROL_WORD_TYPE :: u32 where "CCSDS_CLCW_CONTROL_WORD_TYPE = 0"
definition CCSDS_CLCW_VERSION_NUMBER :: u32 where "CCSDS_CLCW_VERSION_NUMBER = 0"
definition CCSDS_CLCW_STATUS_FIELD :: u32 where "CCSDS_CLCW_STATUS_FIELD = 0"
definition CCSDS_CLCW_COP_IN_EFFECT :: u32 where "CCSDS_CLCW_COP_IN_EFFECT = 1"
definition CCSDS_TC_COP1_HALF_WINDOW :: u8 where
  "CCSDS_TC_COP1_HALF_WINDOW = of_nat (CONFIG_AKIRA_CCSDS_COP1_WINDOW_SIZE div 2)"

record tc_config =
  cfg_scid :: u16
  cfg_tc_rnd :: bool

section \<open>State\<close>

record ccsds_profile_tc_vc_state =
  no_rf_available_flag :: bool
  no_bit_lock_flag :: bool
  wait_flag :: bool
  lockout_flag :: bool
  retransmit_flag :: bool
  farm_b_counter :: u8
  report_value :: u8

text \<open>The buffer is the octets written so far; \<open>len\<close> is its length.\<close>

record ccsds_profile_tc_reassembly =
  re_active :: bool
  re_map_id :: u8
  re_expected_len :: nat
  re_buffer :: octets

record 'h ccsds_profile_tc_rx =
  prof_router :: "'h ccsds_router"
  accepted_vcid :: u8
  vc_state :: ccsds_profile_tc_vc_state
  reassembly :: ccsds_profile_tc_reassembly

record ccsds_profile_tc_rx_stats =
  cltus_received :: u32
  cltus_oversize :: u32
  cltu_decode_failures :: u32
  tc_frame_rejects :: u32
  control_frames_seen :: u32
  stat_packets_dispatched :: u32
  dispatch_failures :: u32
  last_error :: int
  last_cltu_len :: nat
  last_tc_frame_len :: nat

datatype ccsds_profile_tc_cltu_stage =
    CCSDS_PROFILE_TC_CLTU_STAGE_NONE
  | CCSDS_PROFILE_TC_CLTU_STAGE_OVERSIZE
  | CCSDS_PROFILE_TC_CLTU_STAGE_CLTU
  | CCSDS_PROFILE_TC_CLTU_STAGE_TC_FRAME
  | CCSDS_PROFILE_TC_CLTU_STAGE_CONTROL
  | CCSDS_PROFILE_TC_CLTU_STAGE_PACKET
  | CCSDS_PROFILE_TC_CLTU_STAGE_ROUTER
  | CCSDS_PROFILE_TC_CLTU_STAGE_DISPATCHED

record ccsds_profile_tc_cltu_result =
  res_stage :: ccsds_profile_tc_cltu_stage
  res_error :: int
  res_tc_frame_len :: nat
  res_packets_dispatched :: u32

record 'h ccsds_profile_segment_dispatch =
  sd_profile :: "'h ccsds_profile_tc_rx"
  sd_packets_dispatched :: u32

definition cleared_vc_state :: ccsds_profile_tc_vc_state where
  "cleared_vc_state =
     \<lparr>no_rf_available_flag = False, no_bit_lock_flag = False, wait_flag = False,
      lockout_flag = False, retransmit_flag = False, farm_b_counter = 0, report_value = 0\<rparr>"

definition cleared_reassembly :: ccsds_profile_tc_reassembly where
  "cleared_reassembly =
     \<lparr>re_active = False, re_map_id = 0, re_expected_len = 0, re_buffer = []\<rparr>"

definition ccsds_profile_tc_rx_init :: "'h ccsds_router \<Rightarrow> 'h ccsds_profile_tc_rx" where
  "ccsds_profile_tc_rx_init router =
     \<lparr>prof_router = router, accepted_vcid = 0, vc_state = cleared_vc_state,
      reassembly = cleared_reassembly\<rparr>"

definition ccsds_profile_tc_set_accepted_vcid ::
  "'h ccsds_profile_tc_rx \<Rightarrow> u8 \<Rightarrow> int \<times> 'h ccsds_profile_tc_rx" where
  "ccsds_profile_tc_set_accepted_vcid profile tc_vcid =
     (if tc_vcid \<ge> CCSDS_TC_VC_COUNT then (- EINVAL, profile)
      else (0, profile\<lparr>accepted_vcid := tc_vcid\<rparr>))"

section \<open>Counters\<close>

definition init_tc_result :: ccsds_profile_tc_cltu_result where
  "init_tc_result =
     \<lparr>res_stage = CCSDS_PROFILE_TC_CLTU_STAGE_NONE, res_error = 0, res_tc_frame_len = 0,
      res_packets_dispatched = 0\<rparr>"

definition set_tc_result_error ::
  "ccsds_profile_tc_cltu_result \<Rightarrow> ccsds_profile_tc_cltu_stage \<Rightarrow> int
     \<Rightarrow> ccsds_profile_tc_cltu_result" where
  "set_tc_result_error result stage err = result\<lparr>res_stage := stage, res_error := err\<rparr>"

definition record_tc_result ::
  "ccsds_profile_tc_cltu_result \<Rightarrow> nat \<Rightarrow> int \<Rightarrow> ccsds_profile_tc_rx_stats
     \<Rightarrow> ccsds_profile_tc_rx_stats" where
  "record_tc_result result cltu_len ret stats =
     (let stats = stats\<lparr>cltus_received := cltus_received stats + 1, last_cltu_len := cltu_len,
                        last_tc_frame_len := res_tc_frame_len result\<rparr>;
          stats =
            (case res_stage result of
               CCSDS_PROFILE_TC_CLTU_STAGE_OVERSIZE \<Rightarrow>
                 stats\<lparr>cltus_oversize := cltus_oversize stats + 1\<rparr>
             | CCSDS_PROFILE_TC_CLTU_STAGE_CLTU \<Rightarrow>
                 stats\<lparr>cltu_decode_failures := cltu_decode_failures stats + 1\<rparr>
             | CCSDS_PROFILE_TC_CLTU_STAGE_TC_FRAME \<Rightarrow>
                 stats\<lparr>tc_frame_rejects := tc_frame_rejects stats + 1\<rparr>
             | CCSDS_PROFILE_TC_CLTU_STAGE_PACKET \<Rightarrow>
                 stats\<lparr>tc_frame_rejects := tc_frame_rejects stats + 1\<rparr>
             | CCSDS_PROFILE_TC_CLTU_STAGE_CONTROL \<Rightarrow>
                 stats\<lparr>control_frames_seen := control_frames_seen stats + 1\<rparr>
             | CCSDS_PROFILE_TC_CLTU_STAGE_ROUTER \<Rightarrow>
                 stats\<lparr>dispatch_failures := dispatch_failures stats + 1\<rparr>
             | CCSDS_PROFILE_TC_CLTU_STAGE_DISPATCHED \<Rightarrow>
                 stats\<lparr>stat_packets_dispatched :=
                        stat_packets_dispatched stats + res_packets_dispatched result\<rparr>
             | CCSDS_PROFILE_TC_CLTU_STAGE_NONE \<Rightarrow>
                 stats\<lparr>dispatch_failures := dispatch_failures stats + 1\<rparr>)
      in if ret \<noteq> 0 then stats\<lparr>last_error := ret\<rparr> else stats)"

definition ccsds_profile_tc_rx_reset_stats :: ccsds_profile_tc_rx_stats where
  "ccsds_profile_tc_rx_reset_stats =
     \<lparr>cltus_received = 0, cltus_oversize = 0, cltu_decode_failures = 0, tc_frame_rejects = 0,
      control_frames_seen = 0, stat_packets_dispatched = 0, dispatch_failures = 0,
      last_error = 0, last_cltu_len = 0, last_tc_frame_len = 0\<rparr>"

definition ccsds_profile_tc_rx_get_stats ::
  "ccsds_profile_tc_rx_stats \<Rightarrow> ccsds_profile_tc_rx_stats" where
  "ccsds_profile_tc_rx_get_stats stats = stats"

section \<open>Reassembly of segmented packets\<close>

text \<open>
  The handler of the segment walk; its state is the dispatch context and the application state of
  the packet handlers. \<open>finish_packet\<close> is the common end of the segmented path.
\<close>

type_synonym ('h, 's) dispatch_state = "'h ccsds_profile_segment_dispatch \<times> 's"

definition with_reassembly ::
  "'h ccsds_profile_segment_dispatch \<Rightarrow> ccsds_profile_tc_reassembly
     \<Rightarrow> 'h ccsds_profile_segment_dispatch" where
  "with_reassembly d re = d\<lparr>sd_profile := (sd_profile d)\<lparr>reassembly := re\<rparr>\<rparr>"

definition finish_packet ::
  "('h, 's) packet_call \<Rightarrow> ccsds_profile_tc_reassembly \<Rightarrow> ('h, 's) dispatch_state
     \<Rightarrow> int \<times> ('h, 's) dispatch_state" where
  "finish_packet call re = (\<lambda>(d, s).
     (if length (re_buffer re) \<noteq> re_expected_len re
      then (- EMSGSIZE, with_reassembly d cleared_reassembly, s)
      else
        let (ret, s') =
              (case ccsds_space_packet_decode (re_buffer re) of
                 Inl err \<Rightarrow> (err, s)
               | Inr packet \<Rightarrow>
                   ccsds_router_dispatch call (prof_router (sd_profile d)) packet s);
            d' = with_reassembly d cleared_reassembly
        in if ret \<noteq> 0 then (ret, d', s')
           else (0, d'\<lparr>sd_packets_dispatched := sd_packets_dispatched d' + 1\<rparr>, s')))"

definition append_part ::
  "('h, 's) packet_call \<Rightarrow> ccsds_tc_segment_part \<Rightarrow> ccsds_profile_tc_reassembly
     \<Rightarrow> ('h, 's) dispatch_state \<Rightarrow> int \<times> ('h, 's) dispatch_state" where
  "append_part call part re = (\<lambda>(d, s).
     (if length (part_data part) > CONFIG_AKIRA_CCSDS_TC_MAX_SPACE_PACKET_LEN - length (re_buffer re)
      then (- EMSGSIZE, with_reassembly d cleared_reassembly, s)
      else
        let re = re\<lparr>re_buffer := re_buffer re @ part_data part\<rparr>
        in if re_expected_len re > CONFIG_AKIRA_CCSDS_TC_MAX_SPACE_PACKET_LEN \<or>
              length (re_buffer re) > re_expected_len re
           then (- EMSGSIZE, with_reassembly d cleared_reassembly, s)
           else if \<not> part_ends part then (0, with_reassembly d re, s)
           else finish_packet call re (d, s)))"

definition dispatch_tc_segment_part ::
  "('h, 's) packet_call \<Rightarrow> ('h, 's) dispatch_state part_handler" where
  "dispatch_tc_segment_part call part = (\<lambda>(d, s).
     (let re = reassembly (sd_profile d)
      in if part_starts part \<and> part_ends part
         then (if re_active re then (- EBUSY, d, s)
               else
                 case ccsds_space_packet_decode (part_data part) of
                   Inl ret \<Rightarrow> (ret, d, s)
                 | Inr packet \<Rightarrow>
                     (case ccsds_router_dispatch call (prof_router (sd_profile d)) packet s of
                        (ret, s') \<Rightarrow>
                          if ret \<noteq> 0 then (ret, d, s')
                          else (0, d\<lparr>sd_packets_dispatched := sd_packets_dispatched d + 1\<rparr>, s')))
         else if part_starts part
         then (if re_active re then (- EBUSY, with_reassembly d cleared_reassembly, s)
               else if part_packet_len part = 0 \<or>
                       part_packet_len part > CONFIG_AKIRA_CCSDS_TC_MAX_SPACE_PACKET_LEN
               then (- EMSGSIZE, d, s)
               else append_part call part
                      \<lparr>re_active = True, re_map_id = part_map_id part,
                       re_expected_len = part_packet_len part, re_buffer = []\<rparr> (d, s))
         else if \<not> re_active re \<or> re_map_id re \<noteq> part_map_id part
         then (- EINVAL, with_reassembly d cleared_reassembly, s)
         else append_part call part re (d, s)))"

section \<open>Frame acceptance and control frames\<close>

definition with_vc_state ::
  "'h ccsds_profile_tc_rx \<Rightarrow> (ccsds_profile_tc_vc_state \<Rightarrow> ccsds_profile_tc_vc_state)
     \<Rightarrow> 'h ccsds_profile_tc_rx" where
  "with_vc_state profile f = profile\<lparr>vc_state := f (vc_state profile)\<rparr>"

definition handle_tc_control_frame ::
  "'h ccsds_profile_tc_rx \<Rightarrow> ccsds_tc_frame \<Rightarrow> int \<times> 'h ccsds_profile_tc_rx" where
  "handle_tc_control_frame profile frame =
     (if length (tc_data frame) = 0 then (- EINVAL, profile)
      else if tc_data frame ! 0 = CCSDS_TC_CONTROL_UNLOCK
      then (0, with_vc_state profile (\<lambda>vc. vc\<lparr>lockout_flag := False, retransmit_flag := False\<rparr>))
      else if lockout_flag (vc_state profile) then (- EACCES, profile)
      else if length (tc_data frame) \<ge> CCSDS_TC_CONTROL_SET_VR_MIN_LEN \<and>
              tc_data frame ! 0 = CCSDS_TC_CONTROL_SET_VR \<and>
              tc_data frame ! 1 = CCSDS_TC_CONTROL_SET_VR_QUALIFIER
      then (0, with_vc_state profile
                 (\<lambda>vc. vc\<lparr>report_value := tc_data frame ! 2, retransmit_flag := False\<rparr>))
      else (- ENOTSUP, profile))"

definition update_tc_sequence_state ::
  "'h ccsds_profile_tc_rx \<Rightarrow> ccsds_tc_frame \<Rightarrow> int \<times> 'h ccsds_profile_tc_rx" where
  "update_tc_sequence_state profile frame =
     (if lockout_flag (vc_state profile) then (- EACCES, profile)
      else if tc_bypass frame \<or> tc_control_command frame then (0, profile)
      else
        let expected_fsn = report_value (vc_state profile);
            received_fsn = tc_frame_sequence_number frame
        in if received_fsn = expected_fsn
           then (0, with_vc_state profile
                      (\<lambda>vc. vc\<lparr>report_value := expected_fsn + 1, retransmit_flag := False\<rparr>))
           else if expected_fsn - received_fsn < CCSDS_TC_COP1_HALF_WINDOW then (- EAGAIN, profile)
           else if received_fsn - expected_fsn < CCSDS_TC_COP1_HALF_WINDOW
           then (- EAGAIN, with_vc_state profile (\<lambda>vc. vc\<lparr>retransmit_flag := True\<rparr>))
           else (- EAGAIN, with_vc_state profile (\<lambda>vc. vc\<lparr>lockout_flag := True\<rparr>)))"

definition ccsds_profile_tc_build_clcw :: "'h ccsds_profile_tc_rx \<Rightarrow> u32 result" where
  "ccsds_profile_tc_build_clcw profile =
     (if accepted_vcid profile \<ge> CCSDS_TC_VC_COUNT then Inl (- EINVAL)
      else
        let st = vc_state profile;
            flag = (\<lambda>b. if b then 1 else 0 :: u32)
        in Inr (push_bit 31 (CCSDS_CLCW_CONTROL_WORD_TYPE AND 0x1) OR
                push_bit 29 (CCSDS_CLCW_VERSION_NUMBER AND 0x3) OR
                push_bit 26 (CCSDS_CLCW_STATUS_FIELD AND 0x7) OR
                push_bit 24 (CCSDS_CLCW_COP_IN_EFFECT AND 0x3) OR
                push_bit 18 (ucast (accepted_vcid profile AND 0x3f)) OR
                push_bit 15 (flag (no_rf_available_flag st)) OR
                push_bit 14 (flag (no_bit_lock_flag st)) OR
                push_bit 13 (flag (lockout_flag st)) OR
                push_bit 12 (flag (wait_flag st)) OR
                push_bit 11 (flag (retransmit_flag st)) OR
                push_bit 9 (ucast (farm_b_counter st AND 0x3)) OR
                ucast (report_value st)))"

definition ccsds_profile_tc_clcw_provider :: "'h ccsds_profile_tc_rx \<Rightarrow> u32 result" where
  "ccsds_profile_tc_clcw_provider profile = ccsds_profile_tc_build_clcw profile"

section \<open>Dispatch of one CLTU\<close>

text \<open>The state the dispatch works on: the profile, the shared counters, the application state.\<close>

type_synonym ('h, 's) tc_state =
  "'h ccsds_profile_tc_rx \<times> ccsds_profile_tc_rx_stats \<times> 's"

text \<open>Recording a failure and returning its code, the common end of every error path.\<close>

definition tc_fail ::
  "ccsds_profile_tc_cltu_result \<Rightarrow> nat \<Rightarrow> ccsds_profile_tc_cltu_stage \<Rightarrow> int
     \<Rightarrow> ('h, 's) tc_state \<Rightarrow> int \<times> ('h, 's) tc_state" where
  "tc_fail result cltu_len stage err = (\<lambda>(profile, stats, s).
     (err, profile, record_tc_result (set_tc_result_error result stage err) cltu_len err stats, s))"

text \<open>The data path of an accepted frame: segment header, walk over the parts, success record.\<close>

definition tc_dispatch_segment ::
  "('h, 's) packet_call \<Rightarrow> ccsds_profile_tc_cltu_result \<Rightarrow> nat \<Rightarrow> ccsds_tc_frame
     \<Rightarrow> ('h, 's) tc_state \<Rightarrow> int \<times> ('h, 's) tc_state" where
  "tc_dispatch_segment call result cltu_len frame = (\<lambda>(profile, stats, s).
     (case ccsds_tc_segment_decode_frame frame of
        Inl ret \<Rightarrow> tc_fail result cltu_len CCSDS_PROFILE_TC_CLTU_STAGE_PACKET ret (profile, stats, s)
      | Inr segment \<Rightarrow>
          (case ccsds_tc_segment_walk_parts segment (dispatch_tc_segment_part call)
                  (\<lparr>sd_profile = profile, sd_packets_dispatched = 0\<rparr>, s) of
             (ret, d, s) \<Rightarrow>
               if ret \<noteq> 0
               then tc_fail result cltu_len CCSDS_PROFILE_TC_CLTU_STAGE_ROUTER ret (sd_profile d, stats, s)
               else
                 (0, sd_profile d,
                  record_tc_result
                    (result\<lparr>res_stage := CCSDS_PROFILE_TC_CLTU_STAGE_DISPATCHED, res_error := 0,
                            res_packets_dispatched := sd_packets_dispatched d\<rparr>)
                    cltu_len 0 stats, s))))"

text \<open>The steps after frame decoding: virtual channel, FARM-B counter, control or data.\<close>

definition tc_dispatch_frame ::
  "('h, 's) packet_call \<Rightarrow> ccsds_profile_tc_cltu_result \<Rightarrow> nat \<Rightarrow> ccsds_tc_frame
     \<Rightarrow> ('h, 's) tc_state \<Rightarrow> int \<times> ('h, 's) tc_state" where
  "tc_dispatch_frame call result cltu_len frame = (\<lambda>(profile, stats, s).
     (if tc_virtual_channel_id frame \<ge> CCSDS_TC_VC_COUNT
      then tc_fail result cltu_len CCSDS_PROFILE_TC_CLTU_STAGE_TC_FRAME (- EINVAL) (profile, stats, s)
      else if tc_virtual_channel_id frame \<noteq> accepted_vcid profile
      then tc_fail result cltu_len CCSDS_PROFILE_TC_CLTU_STAGE_TC_FRAME (- EACCES) (profile, stats, s)
      else
        let profile = with_vc_state profile
              (\<lambda>vc. vc\<lparr>farm_b_counter := (farm_b_counter vc + 1) AND 0x03\<rparr>)
        in if tc_control_command frame
           then
             (case handle_tc_control_frame profile frame of
                (ret, profile) \<Rightarrow>
                  tc_fail result cltu_len CCSDS_PROFILE_TC_CLTU_STAGE_CONTROL ret (profile, stats, s))
           else
             (case update_tc_sequence_state profile frame of
                (ret, profile) \<Rightarrow>
                  if ret \<noteq> 0
                  then tc_fail result cltu_len CCSDS_PROFILE_TC_CLTU_STAGE_TC_FRAME ret (profile, stats, s)
                  else tc_dispatch_segment call result cltu_len frame (profile, stats, s))))"

definition ccsds_profile_tc_cltu_dispatch ::
  "tc_config \<Rightarrow> ('h, 's) packet_call \<Rightarrow> octets \<Rightarrow> ('h, 's) tc_state \<Rightarrow> int \<times> ('h, 's) tc_state" where
  "ccsds_profile_tc_cltu_dispatch cfg call cltu st =
     (let cltu_len = length cltu;
          result = init_tc_result
      in if cltu_len > CONFIG_AKIRA_CCSDS_MAX_CLTU_LEN
         then tc_fail result cltu_len CCSDS_PROFILE_TC_CLTU_STAGE_OVERSIZE (- EMSGSIZE) st
         else
           case ccsds_cltu_decode_message cltu CONFIG_AKIRA_CCSDS_MAX_FRAME_LEN of
             Inl ret \<Rightarrow> tc_fail result cltu_len CCSDS_PROFILE_TC_CLTU_STAGE_CLTU ret st
           | Inr decoded \<Rightarrow>
               let result = result\<lparr>res_tc_frame_len := length decoded\<rparr>;
                   frame_buf = (if cfg_tc_rnd cfg then ccsds_rnd_apply decoded else decoded)
               in case ccsds_tc_frame_decode (cfg_scid cfg) frame_buf of
                    Inl ret \<Rightarrow> tc_fail result cltu_len CCSDS_PROFILE_TC_CLTU_STAGE_TC_FRAME ret st
                  | Inr frame \<Rightarrow> tc_dispatch_frame call result cltu_len frame st)"

definition ccsds_profile_packet_dispatch ::
  "('h, 's) packet_call \<Rightarrow> 'h ccsds_router \<Rightarrow> octets \<Rightarrow> 's \<Rightarrow> int \<times> 's" where
  "ccsds_profile_packet_dispatch call router packet s =
     ccsds_router_dispatch_bytes call router packet s"

text \<open>
  The bounded input: with frame support the unit is a CLTU for the profile, without it an encoded
  packet for the router.
\<close>

record 'h ccsds_profile_input =
  input_router :: "'h ccsds_router"
  input_tc_rx :: "'h ccsds_profile_tc_rx option"

definition ccsds_profile_input_init ::
  "'h ccsds_router \<Rightarrow> 'h ccsds_profile_tc_rx option \<Rightarrow> 'h ccsds_profile_input" where
  "ccsds_profile_input_init router tc_rx = \<lparr>input_router = router, input_tc_rx = tc_rx\<rparr>"

definition ccsds_profile_input_dispatch_unit ::
  "tc_config \<Rightarrow> ('h, 's) packet_call \<Rightarrow> octets
     \<Rightarrow> 'h ccsds_profile_input \<times> ccsds_profile_tc_rx_stats \<times> 's
     \<Rightarrow> int \<times> 'h ccsds_profile_input \<times> ccsds_profile_tc_rx_stats \<times> 's" where
  "ccsds_profile_input_dispatch_unit cfg call unit = (\<lambda>(input, stats, s).
     (case input_tc_rx input of
        Some profile \<Rightarrow>
          (case ccsds_profile_tc_cltu_dispatch cfg call unit (profile, stats, s) of
             (ret, profile, stats, s) \<Rightarrow> (ret, input\<lparr>input_tc_rx := Some profile\<rparr>, stats, s))
      | None \<Rightarrow>
          (case ccsds_profile_packet_dispatch call (input_router input) unit s of
             (ret, s) \<Rightarrow> (ret, input, stats, s))))"

section \<open>Invariant of the profile\<close>

definition reassembly_inv :: "ccsds_profile_tc_reassembly \<Rightarrow> bool" where
  "reassembly_inv re \<longleftrightarrow>
     (if re_active re
      then 0 < re_expected_len re \<and> length (re_buffer re) \<le> re_expected_len re \<and>
           re_expected_len re \<le> CONFIG_AKIRA_CCSDS_TC_MAX_SPACE_PACKET_LEN
      else re = cleared_reassembly)"

definition tc_profile_inv :: "'h ccsds_profile_tc_rx \<Rightarrow> bool" where
  "tc_profile_inv profile \<longleftrightarrow>
     accepted_vcid profile < CCSDS_TC_VC_COUNT \<and> farm_b_counter (vc_state profile) < 4 \<and>
     reassembly_inv (reassembly profile)"

lemma reassembly_inv_cleared [simp]: "reassembly_inv cleared_reassembly"
  by (simp add: reassembly_inv_def cleared_reassembly_def)

lemma with_reassembly_simps [simp]:
  "sd_profile (with_reassembly d re) = (sd_profile d)\<lparr>reassembly := re\<rparr>"
  "sd_packets_dispatched (with_reassembly d re) = sd_packets_dispatched d"
  by (simp_all add: with_reassembly_def)

text \<open>The part handler touches nothing of the profile but the reassembly state.\<close>

definition same_but_reassembly :: "'h ccsds_profile_tc_rx \<Rightarrow> 'h ccsds_profile_tc_rx \<Rightarrow> bool" where
  "same_but_reassembly p q \<longleftrightarrow> p\<lparr>reassembly := cleared_reassembly\<rparr> = q\<lparr>reassembly := cleared_reassembly\<rparr>"

lemma same_but_reassembly_simps [simp]:
  "same_but_reassembly p p"
  "same_but_reassembly p (q\<lparr>reassembly := re\<rparr>) = same_but_reassembly p q"
  by (simp_all add: same_but_reassembly_def)

lemma same_but_reassemblyD:
  "same_but_reassembly p q \<Longrightarrow>
     accepted_vcid q = accepted_vcid p \<and> vc_state q = vc_state p \<and> prof_router q = prof_router p"
  by (cases p; cases q) (simp add: same_but_reassembly_def)

definition part_inv :: "'h ccsds_profile_tc_rx \<Rightarrow> ('h, 's) dispatch_state \<Rightarrow> bool" where
  "part_inv p st \<longleftrightarrow> same_but_reassembly p (sd_profile (fst st)) \<and>
     reassembly_inv (reassembly (sd_profile (fst st)))"

lemma finish_packet_inv: "part_inv p (d, s) \<Longrightarrow> part_inv p (snd (finish_packet call re (d, s)))"
  by (simp add: finish_packet_def part_inv_def Let_def split: prod.split)

lemma append_part_inv:
  assumes "part_inv p (d, s)" "re_active re" "0 < re_expected_len re"
  shows "part_inv p (snd (append_part call part re (d, s)))"
proof -
  let ?re = "re\<lparr>re_buffer := re_buffer re @ part_data part\<rparr>"
  have fin: "part_inv p (snd (finish_packet call ?re (d, s)))"
    using assms(1) by (rule finish_packet_inv)
  have cleared: "part_inv p (with_reassembly d cleared_reassembly, s)"
    using assms(1) by (simp add: part_inv_def)
  have stored: "part_inv p (with_reassembly d ?re, s)"
    if "re_expected_len re \<le> CONFIG_AKIRA_CCSDS_TC_MAX_SPACE_PACKET_LEN"
      "length (re_buffer re @ part_data part) \<le> re_expected_len re"
    using assms that by (simp add: part_inv_def reassembly_inv_def)
  show ?thesis
    using fin cleared stored by (simp add: append_part_def Let_def not_less not_le)
qed

lemma dispatch_part_inv:
  assumes "part_inv p st"
  shows "part_inv p (snd (dispatch_tc_segment_part call part st))"
proof -
  obtain d s where st: "st = (d, s)" by force
  let ?new = "\<lparr>re_active = True, re_map_id = part_map_id part,
    re_expected_len = part_packet_len part, re_buffer = []\<rparr>"
  have new: "0 < part_packet_len part \<Longrightarrow> part_inv p (snd (append_part call part ?new (d, s)))"
    using assms st by (intro append_part_inv) auto
  have old: "re_active (reassembly (sd_profile d)) \<Longrightarrow>
      part_inv p (snd (append_part call part (reassembly (sd_profile d)) (d, s)))"
    using assms st by (intro append_part_inv) (auto simp: part_inv_def reassembly_inv_def)
  show ?thesis
    using assms new old unfolding st dispatch_tc_segment_part_def
    by (auto simp: part_inv_def Let_def split: prod.split sum.split)
qed

lemma finish_packet_same:
  "same_but_reassembly p (sd_profile d) \<Longrightarrow>
     same_but_reassembly p (sd_profile (fst (snd (finish_packet call re (d, s)))))"
  by (simp add: finish_packet_def Let_def split: prod.split)

lemma append_part_same:
  "same_but_reassembly p (sd_profile d) \<Longrightarrow>
     same_but_reassembly p (sd_profile (fst (snd (append_part call part re (d, s)))))"
  by (simp add: append_part_def Let_def finish_packet_same)

lemma dispatch_part_same:
  "same_but_reassembly p (sd_profile (fst st)) \<Longrightarrow>
     same_but_reassembly p (sd_profile (fst (snd (dispatch_tc_segment_part call part st))))"
  by (cases st) (simp add: dispatch_tc_segment_part_def Let_def append_part_same
      split: prod.split sum.split)

lemma segment_walk_same:
  assumes "ccsds_tc_segment_walk_parts segment (dispatch_tc_segment_part call)
           (\<lparr>sd_profile = profile, sd_packets_dispatched = 0\<rparr>, s) = (ret, d, s')"
  shows "same_but_reassembly profile (sd_profile d)"
proof -
  let ?P = "\<lambda>st. same_but_reassembly profile (sd_profile (fst st))"
  have "?P (snd (ccsds_tc_segment_walk_parts segment (dispatch_tc_segment_part call)
           (\<lparr>sd_profile = profile, sd_packets_dispatched = 0\<rparr>, s)))"
    by (rule walk_parts_invariant [where P = ?P], rule dispatch_part_same) simp_all
  then show ?thesis by (simp add: assms)
qed

lemma segment_walk_inv:
  assumes "tc_profile_inv profile"
    and "ccsds_tc_segment_walk_parts segment (dispatch_tc_segment_part call)
           (\<lparr>sd_profile = profile, sd_packets_dispatched = 0\<rparr>, s) = (ret, d, s')"
  shows "same_but_reassembly profile (sd_profile d) \<and> tc_profile_inv (sd_profile d)"
proof -
  have "part_inv profile (snd (ccsds_tc_segment_walk_parts segment (dispatch_tc_segment_part call)
           (\<lparr>sd_profile = profile, sd_packets_dispatched = 0\<rparr>, s)))"
  proof (rule walk_parts_invariant [where P = "part_inv profile"])
    show "part_inv profile (\<lparr>sd_profile = profile, sd_packets_dispatched = 0\<rparr>, s)"
      using assms(1) by (simp add: part_inv_def tc_profile_inv_def)
  qed (rule dispatch_part_inv)
  then show ?thesis
    using assms same_but_reassemblyD [of profile "sd_profile d"]
    by (simp add: part_inv_def tc_profile_inv_def)
qed

section \<open>Cases of the dispatch\<close>

definition bump_farm_b :: "'h ccsds_profile_tc_rx \<Rightarrow> 'h ccsds_profile_tc_rx" where
  "bump_farm_b profile = with_vc_state profile
     (\<lambda>vc. vc\<lparr>farm_b_counter := (farm_b_counter vc + 1) AND 0x03\<rparr>)"

text \<open>The frame a CLTU carries for this spacecraft, if it decodes.\<close>

definition tc_frame_of :: "tc_config \<Rightarrow> octets \<Rightarrow> ccsds_tc_frame option" where
  "tc_frame_of cfg cltu =
     (if length cltu > CONFIG_AKIRA_CCSDS_MAX_CLTU_LEN then None
      else case ccsds_cltu_decode_message cltu CONFIG_AKIRA_CCSDS_MAX_FRAME_LEN of
        Inl ret \<Rightarrow> None
      | Inr decoded \<Rightarrow>
          (case ccsds_tc_frame_decode (cfg_scid cfg)
                  (if cfg_tc_rnd cfg then ccsds_rnd_apply decoded else decoded) of
             Inl ret \<Rightarrow> None | Inr frame \<Rightarrow> Some frame))"

definition tc_addressed :: "tc_config \<Rightarrow> 'h ccsds_profile_tc_rx \<Rightarrow> octets \<Rightarrow> ccsds_tc_frame \<Rightarrow> bool" where
  "tc_addressed cfg profile cltu frame \<longleftrightarrow>
     tc_frame_of cfg cltu = Some frame \<and> tc_virtual_channel_id frame = accepted_vcid profile \<and>
     accepted_vcid profile < CCSDS_TC_VC_COUNT"

lemma tc_fail_simps [simp]:
  "fst (tc_fail result len stage err (profile, stats, s)) = err"
  "fst (snd (tc_fail result len stage err (profile, stats, s))) = profile"
  "snd (snd (snd (tc_fail result len stage err (profile, stats, s)))) = s"
  by (simp_all add: tc_fail_def)

lemma bump_farm_b_simps [simp]:
  "accepted_vcid (bump_farm_b p) = accepted_vcid p"
  "reassembly (bump_farm_b p) = reassembly p"
  "prof_router (bump_farm_b p) = prof_router p"
  "lockout_flag (vc_state (bump_farm_b p)) = lockout_flag (vc_state p)"
  "report_value (vc_state (bump_farm_b p)) = report_value (vc_state p)"
  "retransmit_flag (vc_state (bump_farm_b p)) = retransmit_flag (vc_state p)"
  "farm_b_counter (vc_state (bump_farm_b p)) = (farm_b_counter (vc_state p) + 1) AND 3"
  by (simp_all add: bump_farm_b_def with_vc_state_def)

text \<open>
  The outcomes of one CLTU: no frame for this receiver, a control frame, a data frame the
  acceptance check refused, or an accepted data frame.
\<close>

lemma tc_dispatch_frame_cases:
  assumes "tc_dispatch_frame call result len frame (profile, stats, s) = (ret, profile', stats', s')"
    and "tc_frame_of cfg cltu = Some frame"
  obtains (ignored) "profile' = profile" "s' = s" "ret \<noteq> 0"
  | (control) "tc_addressed cfg profile cltu frame" "tc_control_command frame"
      "handle_tc_control_frame (bump_farm_b profile) frame = (ret, profile')" "s' = s"
  | (refused) "tc_addressed cfg profile cltu frame" "\<not> tc_control_command frame"
      "update_tc_sequence_state (bump_farm_b profile) frame = (ret, profile')" "ret \<noteq> 0" "s' = s"
  | (empty) "tc_addressed cfg profile cltu frame" "\<not> tc_control_command frame"
      "update_tc_sequence_state (bump_farm_b profile) frame = (0, profile')" "s' = s"
  | (walked) profile1 segment d where
      "tc_addressed cfg profile cltu frame" "\<not> tc_control_command frame"
      "update_tc_sequence_state (bump_farm_b profile) frame = (0, profile1)"
      "ccsds_tc_segment_decode_frame frame = Inr segment"
      "ccsds_tc_segment_walk_parts segment (dispatch_tc_segment_part call)
         (\<lparr>sd_profile = profile1, sd_packets_dispatched = 0\<rparr>, s) = (ret, d, s')"
      "profile' = sd_profile d"
proof (cases "tc_virtual_channel_id frame = accepted_vcid profile \<and> accepted_vcid profile < CCSDS_TC_VC_COUNT")
  case False
  then show thesis
    using assms(1)
    by (intro ignored) (auto simp: tc_dispatch_frame_def tc_fail_def errno_defs split: if_splits)
next
  case True
  then have addr: "tc_addressed cfg profile cltu frame" using assms(2) by (simp add: tc_addressed_def)
  have body: "tc_dispatch_frame call result len frame (profile, stats, s) =
      (if tc_control_command frame
       then (case handle_tc_control_frame (bump_farm_b profile) frame of (ret, profile) \<Rightarrow>
               tc_fail result len CCSDS_PROFILE_TC_CLTU_STAGE_CONTROL ret (profile, stats, s))
       else (case update_tc_sequence_state (bump_farm_b profile) frame of (ret, profile) \<Rightarrow>
               if ret \<noteq> 0 then tc_fail result len CCSDS_PROFILE_TC_CLTU_STAGE_TC_FRAME ret (profile, stats, s)
               else tc_dispatch_segment call result len frame (profile, stats, s)))"
    using True by (auto simp: tc_dispatch_frame_def bump_farm_b_def Let_def not_le)
  show thesis
  proof (cases "tc_control_command frame")
    case ctl: True
    obtain r p where h: "handle_tc_control_frame (bump_farm_b profile) frame = (r, p)" by force
    with ctl assms(1) body addr show thesis by (intro control) (auto simp: tc_fail_def)
  next
    case data: False
    obtain r p where u: "update_tc_sequence_state (bump_farm_b profile) frame = (r, p)" by force
    show thesis
    proof (cases "r = 0")
      case False
      with data assms(1) body addr u show thesis by (intro refused) (auto simp: tc_fail_def)
    next
      case ok: True
      show thesis
      proof (cases "ccsds_tc_segment_decode_frame frame")
        case (Inl e)
        with ok data assms(1) body addr u show thesis
          by (intro empty) (auto simp: tc_fail_def tc_dispatch_segment_def)
      next
        case (Inr segment)
        obtain r' d s1 where w: "ccsds_tc_segment_walk_parts segment (dispatch_tc_segment_part call)
            (\<lparr>sd_profile = p, sd_packets_dispatched = 0\<rparr>, s) = (r', d, s1)" by (metis prod_cases3)
        have "r' = ret \<and> profile' = sd_profile d \<and> s1 = s'"
          using ok data assms(1) body u Inr w
          by (auto simp: tc_fail_def tc_dispatch_segment_def split: if_splits)
        with ok data addr u Inr w show thesis by (intro walked [of p segment d]) auto
      qed
    qed
  qed
qed

lemma tc_dispatch_cases:
  assumes "ccsds_profile_tc_cltu_dispatch cfg call cltu (profile, stats, s) = (ret, profile', stats', s')"
  obtains (ignored) "profile' = profile" "s' = s" "ret \<noteq> 0 \<or> tc_frame_of cfg cltu = None"
  | (control) frame where "tc_addressed cfg profile cltu frame" "tc_control_command frame"
      "handle_tc_control_frame (bump_farm_b profile) frame = (ret, profile')" "s' = s"
  | (refused) frame where "tc_addressed cfg profile cltu frame" "\<not> tc_control_command frame"
      "update_tc_sequence_state (bump_farm_b profile) frame = (ret, profile')" "ret \<noteq> 0" "s' = s"
  | (empty) frame where "tc_addressed cfg profile cltu frame" "\<not> tc_control_command frame"
      "update_tc_sequence_state (bump_farm_b profile) frame = (0, profile')" "s' = s"
  | (walked) frame profile1 segment d where
      "tc_addressed cfg profile cltu frame" "\<not> tc_control_command frame"
      "update_tc_sequence_state (bump_farm_b profile) frame = (0, profile1)"
      "ccsds_tc_segment_decode_frame frame = Inr segment"
      "ccsds_tc_segment_walk_parts segment (dispatch_tc_segment_part call)
         (\<lparr>sd_profile = profile1, sd_packets_dispatched = 0\<rparr>, s) = (ret, d, s')"
      "profile' = sd_profile d"
proof (cases "tc_frame_of cfg cltu")
  case None
  then show thesis
    using assms
    by (intro ignored)
      (auto simp: tc_frame_of_def ccsds_profile_tc_cltu_dispatch_def tc_fail_def Let_def
        split: if_splits sum.splits)
next
  case (Some frame)
  then obtain result where
    "tc_dispatch_frame call result (length cltu) frame (profile, stats, s) = (ret, profile', stats', s')"
    using assms
    by (auto simp: tc_frame_of_def ccsds_profile_tc_cltu_dispatch_def Let_def
        split: if_splits sum.splits)
  then show thesis
    using Some
  proof (cases rule: tc_dispatch_frame_cases)
    case ignored
    then show thesis using that(1) by blast
  qed (use that in blast)+
qed

section \<open>Preservation\<close>

lemma octet_and_3_less: "w AND 3 < 4" for w :: u8
proof -
  have "unat (w AND mask 2) < 4" using unat_and_mask_less [of w 2] by simp
  then show ?thesis by (simp add: word_less_nat_alt mask_eq_exp_minus_1)
qed

lemma bump_farm_b_inv: "tc_profile_inv p \<Longrightarrow> tc_profile_inv (bump_farm_b p)"
  by (simp add: tc_profile_inv_def octet_and_3_less)

lemma with_vc_state_simps [simp]:
  "accepted_vcid (with_vc_state p f) = accepted_vcid p"
  "reassembly (with_vc_state p f) = reassembly p"
  "prof_router (with_vc_state p f) = prof_router p"
  "vc_state (with_vc_state p f) = f (vc_state p)"
  by (simp_all add: with_vc_state_def)

lemma control_frame_inv:
  "handle_tc_control_frame p frame = (ret, p') \<Longrightarrow> tc_profile_inv p \<Longrightarrow> tc_profile_inv p'"
  by (auto simp: handle_tc_control_frame_def tc_profile_inv_def split: if_splits)

lemma sequence_state_inv:
  assumes "update_tc_sequence_state p frame = (ret, p')" and "tc_profile_inv p"
  shows "tc_profile_inv p'"
proof -
  have "tc_profile_inv (snd (update_tc_sequence_state p frame))"
    using assms(2) by (simp add: update_tc_sequence_state_def tc_profile_inv_def Let_def)
  then show ?thesis by (simp add: assms(1))
qed

lemma sequence_accept:
  "update_tc_sequence_state p frame = (0, p') \<longleftrightarrow>
     \<not> lockout_flag (vc_state p) \<and>
     (if tc_bypass frame \<or> tc_control_command frame then p' = p
      else tc_frame_sequence_number frame = report_value (vc_state p) \<and>
           p' = with_vc_state p (\<lambda>vc. vc\<lparr>report_value := report_value (vc_state p) + 1,
                                           retransmit_flag := False\<rparr>))"
  by (simp add: update_tc_sequence_state_def Let_def errno_defs eq_commute [of p'])

lemma cltu_dispatch_inv:
  assumes "ccsds_profile_tc_cltu_dispatch cfg call cltu (profile, stats, s) = (ret, profile', stats', s')"
    and "tc_profile_inv profile"
  shows "tc_profile_inv profile'"
proof -
  note bump = bump_farm_b_inv [OF assms(2)]
  from assms(1) show ?thesis
  proof (cases rule: tc_dispatch_cases)
    case ignored
    then show ?thesis using assms(2) by simp
  next
    case (control frame)
    show ?thesis by (rule control_frame_inv [OF control(3) bump])
  next
    case (refused frame)
    show ?thesis by (rule sequence_state_inv [OF refused(3) bump])
  next
    case (empty frame)
    show ?thesis by (rule sequence_state_inv [OF empty(3) bump])
  next
    case (walked frame profile1 segment d)
    have "tc_profile_inv profile1" by (rule sequence_state_inv [OF walked(3) bump])
    then show ?thesis using segment_walk_inv [OF _ walked(5)] walked(6) by simp
  qed
qed

text \<open>What the receive steps of the system can reach from an initialised profile.\<close>

inductive tc_reachable ::
  "tc_config \<Rightarrow> ('h, 's) packet_call \<Rightarrow> ('h, 's) tc_state \<Rightarrow> bool" for cfg call where
  init: "tc_reachable cfg call (ccsds_profile_tc_rx_init router, stats, s)"
| set_vcid: "tc_reachable cfg call (profile, stats, s) \<Longrightarrow>
    tc_reachable cfg call (snd (ccsds_profile_tc_set_accepted_vcid profile vcid), stats, s)"
| cltu: "tc_reachable cfg call (profile, stats, s) \<Longrightarrow>
    ccsds_profile_tc_cltu_dispatch cfg call octs (profile, stats, s) = (ret, st) \<Longrightarrow>
    tc_reachable cfg call st"
| application: "tc_reachable cfg call (profile, stats, s) \<Longrightarrow>
    tc_reachable cfg call (profile\<lparr>prof_router := router\<rparr>, stats, s')"

lemma tc_reachable_inv: "tc_reachable cfg call st \<Longrightarrow> tc_profile_inv (fst st)"
proof (induction rule: tc_reachable.induct)
  case (init router stats s)
  then show ?case
    by (simp add: ccsds_profile_tc_rx_init_def tc_profile_inv_def cleared_vc_state_def
        CCSDS_TC_VC_COUNT_def)
next
  case (set_vcid profile stats s vcid)
  then show ?case
    by (auto simp: ccsds_profile_tc_set_accepted_vcid_def tc_profile_inv_def not_le)
next
  case (cltu profile stats s octs ret st)
  then show ?case by (cases st) (auto dest: cltu_dispatch_inv)
next
  case (application profile stats s router s')
  then show ?case by (simp add: tc_profile_inv_def)
qed

lemma no_frame_empty: "tc_frame_of cfg [] = None"
  by (simp add: tc_frame_of_def ccsds_cltu_decode_message_def CCSDS_BCH_BLOCK_SIZE_def)

lemma dispatch_empty:
  "ccsds_profile_tc_cltu_dispatch cfg call [] (profile, stats, s) =
     (- EINVAL, profile,
      record_tc_result (set_tc_result_error init_tc_result CCSDS_PROFILE_TC_CLTU_STAGE_CLTU (- EINVAL))
        0 (- EINVAL) stats, s)"
  by (simp add: ccsds_profile_tc_cltu_dispatch_def ccsds_cltu_decode_message_def tc_fail_def
      CCSDS_BCH_BLOCK_SIZE_def)

section \<open>Segments of one packet\<close>

text \<open>The parts of a packet cut into a first, middle and last piece, and their delivery in turn.\<close>

fun deliver_parts :: "'s part_handler \<Rightarrow> ccsds_tc_segment_part list \<Rightarrow> 's \<Rightarrow> int \<times> 's" where
  "deliver_parts handler [] s = (0, s)"
| "deliver_parts handler (p # ps) s =
     (case handler p s of (ret, s') \<Rightarrow> if ret \<noteq> 0 then (ret, s') else deliver_parts handler ps s')"

definition first_part :: "u8 \<Rightarrow> nat \<Rightarrow> octets \<Rightarrow> ccsds_tc_segment_part" where
  "first_part mapid n data = \<lparr>part_map_id = mapid, part_boundary = CCSDS_TC_SEGMENT_FIRST,
     part_starts = True, part_ends = False, part_data = data, part_packet_len = n\<rparr>"

definition middle_part :: "u8 \<Rightarrow> octets \<Rightarrow> ccsds_tc_segment_part" where
  "middle_part mapid data = \<lparr>part_map_id = mapid, part_boundary = CCSDS_TC_SEGMENT_CONTINUATION,
     part_starts = False, part_ends = False, part_data = data, part_packet_len = 0\<rparr>"

definition last_part :: "u8 \<Rightarrow> octets \<Rightarrow> ccsds_tc_segment_part" where
  "last_part mapid data = \<lparr>part_map_id = mapid, part_boundary = CCSDS_TC_SEGMENT_LAST,
     part_starts = False, part_ends = True, part_data = data, part_packet_len = 0\<rparr>"

definition partial :: "u8 \<Rightarrow> nat \<Rightarrow> octets \<Rightarrow> ccsds_profile_tc_reassembly" where
  "partial mapid n data =
     \<lparr>re_active = True, re_map_id = mapid, re_expected_len = n, re_buffer = data\<rparr>"

lemma first_part_step:
  assumes "\<not> re_active (reassembly (sd_profile d))" "0 < n" "n \<le> 2048" "length data \<le> n"
  shows "dispatch_tc_segment_part call (first_part mapid n data) (d, s)
       = (0, with_reassembly d (partial mapid n data), s)"
  using assms
  by (simp add: dispatch_tc_segment_part_def first_part_def append_part_def partial_def
      CONFIG_AKIRA_CCSDS_TC_MAX_SPACE_PACKET_LEN_def)

lemma middle_part_step:
  assumes "reassembly (sd_profile d) = partial mapid n acc" "n \<le> 2048" "length acc + length data \<le> n"
  shows "dispatch_tc_segment_part call (middle_part mapid data) (d, s)
       = (0, with_reassembly d (partial mapid n (acc @ data)), s)"
  using assms
  by (auto simp: dispatch_tc_segment_part_def middle_part_def append_part_def partial_def Let_def
      CONFIG_AKIRA_CCSDS_TC_MAX_SPACE_PACKET_LEN_def)

lemma last_part_step:
  assumes "reassembly (sd_profile d) = partial mapid n acc" "n \<le> 2048" "length acc + length data = n"
  shows "dispatch_tc_segment_part call (last_part mapid data) (d, s)
       = finish_packet call (partial mapid n (acc @ data)) (d, s)"
  using assms
  by (auto simp: dispatch_tc_segment_part_def last_part_def append_part_def partial_def Let_def
      CONFIG_AKIRA_CCSDS_TC_MAX_SPACE_PACKET_LEN_def)

lemma with_reassembly_twice [simp]: "with_reassembly (with_reassembly d a) b = with_reassembly d b"
  by (simp add: with_reassembly_def)

lemma middle_parts_run:
  assumes "n \<le> 2048"
  shows "reassembly (sd_profile d) = partial mapid n acc \<Longrightarrow>
     length acc + length (concat mids) \<le> n \<Longrightarrow>
     deliver_parts (dispatch_tc_segment_part call) (map (middle_part mapid) mids @ rest) (d, s) =
     deliver_parts (dispatch_tc_segment_part call) rest
       (with_reassembly d (partial mapid n (acc @ concat mids)), s)"
proof (induction mids arbitrary: acc d)
  case Nil
  have "with_reassembly d (reassembly (sd_profile d)) = d" by (simp add: with_reassembly_def)
  then have "with_reassembly d (partial mapid n acc) = d" by (simp only: Nil(1))
  then show ?case by simp
next
  case (Cons m mids)
  have "length acc + length m \<le> n" using Cons.prems(2) by simp
  from middle_part_step [OF Cons.prems(1) assms this, of call s]
  have "deliver_parts (dispatch_tc_segment_part call) (map (middle_part mapid) (m # mids) @ rest) (d, s) =
      deliver_parts (dispatch_tc_segment_part call) (map (middle_part mapid) mids @ rest)
        (with_reassembly d (partial mapid n (acc @ m)), s)"
    by simp
  also have "\<dots> = deliver_parts (dispatch_tc_segment_part call) rest
        (with_reassembly (with_reassembly d (partial mapid n (acc @ m)))
          (partial mapid n ((acc @ m) @ concat mids)), s)"
    by (rule Cons.IH) (use Cons.prems(2) in simp_all)
  finally show ?case by simp
qed

lemma parts_run:
  assumes "\<not> re_active (reassembly (sd_profile d))" "0 < length p" "length p \<le> 2048"
    "p = a @ concat mids @ b"
  shows "deliver_parts (dispatch_tc_segment_part call)
       (first_part m (length p) a # map (middle_part m) mids @ [last_part m b]) (d, s) =
     finish_packet call (partial m (length p) p) (with_reassembly d (partial m (length p) (a @ concat mids)), s)"
proof -
  let ?n = "length p" and ?h = "dispatch_tc_segment_part call"
  have "?h (first_part m ?n a) (d, s) = (0, with_reassembly d (partial m ?n a), s)"
    by (rule first_part_step) (use assms in simp_all)
  then have "deliver_parts ?h (first_part m ?n a # map (middle_part m) mids @ [last_part m b]) (d, s)
      = deliver_parts ?h (map (middle_part m) mids @ [last_part m b]) (with_reassembly d (partial m ?n a), s)"
    by simp
  also have "\<dots> = deliver_parts ?h [last_part m b]
      (with_reassembly (with_reassembly d (partial m ?n a)) (partial m ?n (a @ concat mids)), s)"
    by (rule middle_parts_run [OF assms(3)]) (use assms(4) in simp_all)
  also have "\<dots> = finish_packet call (partial m ?n ((a @ concat mids) @ b))
      (with_reassembly d (partial m ?n (a @ concat mids)), s)"
  proof -
    have "?h (last_part m b) (with_reassembly d (partial m ?n (a @ concat mids)), s)
        = finish_packet call (partial m ?n ((a @ concat mids) @ b))
            (with_reassembly d (partial m ?n (a @ concat mids)), s)"
      by (rule last_part_step) (use assms(3,4) in simp_all)
    then show ?thesis by (simp split: prod.split)
  qed
  finally show ?thesis using assms(4) by simp
qed

text \<open>The segments that carry the pieces, walked one after the other.\<close>

definition packet_segments :: "u8 \<Rightarrow> octets \<Rightarrow> octets list \<Rightarrow> octets \<Rightarrow> ccsds_tc_segment list" where
  "packet_segments m a mids b =
     \<lparr>seg_boundary = CCSDS_TC_SEGMENT_FIRST, seg_map_id = m, seg_data = a\<rparr> #
     map (\<lambda>x. \<lparr>seg_boundary = CCSDS_TC_SEGMENT_CONTINUATION, seg_map_id = m, seg_data = x\<rparr>) mids @
     [\<lparr>seg_boundary = CCSDS_TC_SEGMENT_LAST, seg_map_id = m, seg_data = b\<rparr>]"

fun walk_segments :: "'s part_handler \<Rightarrow> ccsds_tc_segment list \<Rightarrow> 's \<Rightarrow> int \<times> 's" where
  "walk_segments handler [] s = (0, s)"
| "walk_segments handler (seg # segs) s =
     (case ccsds_tc_segment_walk_parts seg handler s of
        (ret, s') \<Rightarrow> if ret \<noteq> 0 then (ret, s') else walk_segments handler segs s')"

lemma walk_middle_last:
  "x \<noteq> [] \<Longrightarrow> ccsds_tc_segment_walk_parts
     \<lparr>seg_boundary = CCSDS_TC_SEGMENT_CONTINUATION, seg_map_id = m, seg_data = x\<rparr> h = h (middle_part m x)"
  "x \<noteq> [] \<Longrightarrow> ccsds_tc_segment_walk_parts
     \<lparr>seg_boundary = CCSDS_TC_SEGMENT_LAST, seg_map_id = m, seg_data = x\<rparr> h = h (last_part m x)"
  by (simp_all add: fun_eq_iff ccsds_tc_segment_walk_parts_def emit_part_def middle_part_def
      last_part_def segment_ends_packet_def)

lemma walk_segments_middle:
  "list_all (\<lambda>x. x \<noteq> []) mids \<Longrightarrow>
     walk_segments h (map (\<lambda>x. \<lparr>seg_boundary = CCSDS_TC_SEGMENT_CONTINUATION, seg_map_id = m,
       seg_data = x\<rparr>) mids @ rest) s =
     (case deliver_parts h (map (middle_part m) mids) s of
        (ret, s') \<Rightarrow> if ret \<noteq> 0 then (ret, s') else walk_segments h rest s')"
  by (induction mids arbitrary: s) (auto simp: walk_middle_last split: prod.split)

lemma deliver_parts_append:
  "deliver_parts h (xs @ ys) s =
     (case deliver_parts h xs s of
        (ret, s') \<Rightarrow> if ret \<noteq> 0 then (ret, s') else deliver_parts h ys s')"
  by (induction xs arbitrary: s) (auto split: prod.split)

lemma walk_packet_segments:
  assumes "is_packet p" "p = a @ concat mids @ b" "6 \<le> length a" "length a < length p"
    "list_all (\<lambda>x. x \<noteq> []) mids" "b \<noteq> []"
  shows "walk_segments h (packet_segments m a mids b) s =
     deliver_parts h (first_part m (length p) a # map (middle_part m) mids @ [last_part m b]) s"
proof -
  have "encoded_packet_len a = length p"
    using assms encoded_packet_len_append [of a "concat mids @ b"] by (simp add: is_packet_def)
  then have first: "ccsds_tc_segment_walk_parts
      \<lparr>seg_boundary = CCSDS_TC_SEGMENT_FIRST, seg_map_id = m, seg_data = a\<rparr> h s'
      = h (first_part m (length p) a) s'" for s'
    using assms(3,4)
    by (auto simp: ccsds_tc_segment_walk_parts_def emit_part_def first_part_def
        CCSDS_SPACE_PACKET_PRIMARY_HDR_LEN_def Let_def)
  have tail: "walk_segments h (map (\<lambda>x. \<lparr>seg_boundary = CCSDS_TC_SEGMENT_CONTINUATION, seg_map_id = m,
       seg_data = x\<rparr>) mids @
     [\<lparr>seg_boundary = CCSDS_TC_SEGMENT_LAST, seg_map_id = m, seg_data = b\<rparr>]) s'
      = deliver_parts h (map (middle_part m) mids @ [last_part m b]) s'" for s'
    unfolding walk_segments_middle [OF assms(5)] deliver_parts_append
    by (simp add: walk_middle_last assms(6) split: prod.split)
  show ?thesis
    unfolding packet_segments_def walk_segments.simps deliver_parts.simps first tail ..
qed

lemma octet_opposites: "(unat (x - y) + unat (y - x)) mod 256 = 0" for x y :: u8
  using unat_word_ariths(1) [of "x - y" "y - x"] by simp

lemma opposite_window:
  assumes "(a + b) mod 256 = 0" "a < 256" "b < 256" "b \<noteq> 0"
  shows "a < 64 \<longleftrightarrow> 192 < (b :: nat)"
proof -
  have "256 * ((a + b) div 256) = a + b" using assms(1) by (simp add: mod_0_imp_dvd)
  moreover have "(a + b) div 256 < 2" using assms(2,3) by (simp add: less_mult_imp_div_less)
  moreover have "(a + b) div 256 \<noteq> 0"
    using calculation(1) assms(4) by auto
  ultimately have "a + b = 256" by (metis One_nat_def less_2_cases mult.right_neutral)
  then show ?thesis by linarith
qed

lemma tc_dispatched_frame:
  assumes "ccsds_profile_tc_cltu_dispatch cfg call cltu (profile, stats, s) = (ret, profile', stats', s')"
    and "s' \<noteq> s"
  shows "\<exists>frame. tc_addressed cfg profile cltu frame \<and> \<not> tc_control_command frame \<and>
     \<not> lockout_flag (vc_state profile) \<and>
     report_value (vc_state profile') =
       (if tc_bypass frame then report_value (vc_state profile)
        else report_value (vc_state profile) + 1) \<and>
     (tc_bypass frame \<or> tc_frame_sequence_number frame = report_value (vc_state profile))"
  using assms(1)
proof (cases rule: tc_dispatch_cases)
  case (walked frame profile1 segment d)
  have facts: "\<not> lockout_flag (vc_state profile)"
    "report_value (vc_state profile1) = (if tc_bypass frame then report_value (vc_state profile)
        else report_value (vc_state profile) + 1)"
    "tc_bypass frame \<or> tc_frame_sequence_number frame = report_value (vc_state profile)"
  proof -
    note acc = walked(3) [unfolded sequence_accept]
    then show "\<not> lockout_flag (vc_state profile)" by simp
    from acc show "tc_bypass frame \<or> tc_frame_sequence_number frame = report_value (vc_state profile)"
      using walked(2) by (cases "tc_bypass frame") simp_all
    show "report_value (vc_state profile1) = (if tc_bypass frame then report_value (vc_state profile)
        else report_value (vc_state profile) + 1)"
    proof (cases "tc_bypass frame")
      case True
      with acc have "profile1 = bump_farm_b profile" by simp
      with True show ?thesis by simp
    next
      case False
      with acc walked(2) have "profile1 = with_vc_state (bump_farm_b profile)
          (\<lambda>vc. vc\<lparr>report_value := report_value (vc_state profile) + 1, retransmit_flag := False\<rparr>)"
        by simp
      with False show ?thesis by simp
    qed
  qed
  have "vc_state profile' = vc_state profile1"
    using walked(6) same_but_reassemblyD [OF segment_walk_same [OF walked(5)]] by simp
  then show ?thesis using walked(1,2) facts by auto
qed (use assms(2) in blast)+

section \<open>Counting\<close>

definition outcome_total :: "ccsds_profile_tc_rx_stats \<Rightarrow> u32" where
  "outcome_total st = cltus_oversize st + cltu_decode_failures st + tc_frame_rejects st +
     control_frames_seen st + dispatch_failures st"

text \<open>What one CLTU of length \<open>len\<close> with result \<open>ret\<close> does to the counters.\<close>

definition counted ::
  "nat \<Rightarrow> int \<Rightarrow> ccsds_profile_tc_rx_stats \<Rightarrow> ccsds_profile_tc_rx_stats \<Rightarrow> bool" where
  "counted len ret st st' \<longleftrightarrow>
     cltus_received st' = cltus_received st + 1 \<and> last_cltu_len st' = len \<and>
     last_error st' = (if ret = 0 then last_error st else ret) \<and>
     (outcome_total st' = outcome_total st + 1 \<and>
        stat_packets_dispatched st' = stat_packets_dispatched st \<or>
      outcome_total st' = outcome_total st \<and> ret = 0)"

definition counted_run :: "nat \<Rightarrow> ccsds_profile_tc_rx_stats \<Rightarrow> int \<times> ('h, 's) tc_state \<Rightarrow> bool" where
  "counted_run len st r \<longleftrightarrow> counted len (fst r) st (fst (snd (snd r)))"

lemma tc_fail_counted:
  "stage \<noteq> CCSDS_PROFILE_TC_CLTU_STAGE_DISPATCHED \<Longrightarrow>
     counted_run len stats (tc_fail result len stage err (profile, stats, s))"
  by (cases stage)
    (simp_all add: counted_run_def counted_def tc_fail_def record_tc_result_def set_tc_result_error_def
      outcome_total_def Let_def)

lemma tc_dispatch_segment_counted:
  "counted_run len stats (tc_dispatch_segment call result len frame (profile, stats, s))"
proof -
  have ok: "counted_run len stats (0, p, record_tc_result
      (result\<lparr>res_stage := CCSDS_PROFILE_TC_CLTU_STAGE_DISPATCHED, res_error := 0,
              res_packets_dispatched := n\<rparr>) len 0 stats, s')" for p n s'
    by (simp add: counted_run_def counted_def record_tc_result_def outcome_total_def Let_def)
  show ?thesis
    by (simp add: tc_dispatch_segment_def tc_fail_counted ok split: sum.split prod.split)
qed

lemma tc_dispatch_frame_counted:
  "counted_run len stats (tc_dispatch_frame call result len frame (profile, stats, s))"
  by (simp add: tc_dispatch_frame_def Let_def tc_fail_counted tc_dispatch_segment_counted
      split: prod.split)

lemma cltu_dispatch_counted:
  "counted_run (length cltu) stats (ccsds_profile_tc_cltu_dispatch cfg call cltu (profile, stats, s))"
  by (simp add: ccsds_profile_tc_cltu_dispatch_def Let_def tc_fail_counted tc_dispatch_frame_counted
      split: sum.split)

section \<open>The control word\<close>

definition clcw_word ::
  "u8 \<Rightarrow> bool \<Rightarrow> bool \<Rightarrow> bool \<Rightarrow> bool \<Rightarrow> bool \<Rightarrow> u8 \<Rightarrow> u8 \<Rightarrow> u32" where
  "clcw_word v a b c d e f r =
     push_bit 24 1 OR push_bit 18 (ucast (v AND mask 6)) OR push_bit 15 (of_bool a) OR
     push_bit 14 (of_bool b) OR push_bit 13 (of_bool c) OR push_bit 12 (of_bool d) OR
     push_bit 11 (of_bool e) OR push_bit 9 (ucast (f AND mask 2)) OR ucast r"

lemma clcw_word_fields:
  "drop_bit 24 (clcw_word v a b c d e f r) = 1"
  "ucast (drop_bit 18 (clcw_word v a b c d e f r) AND mask 6) = v AND mask 6"
  "bit (clcw_word v a b c d e f r) 15 = a" "bit (clcw_word v a b c d e f r) 14 = b"
  "bit (clcw_word v a b c d e f r) 13 = c" "bit (clcw_word v a b c d e f r) 12 = d"
  "bit (clcw_word v a b c d e f r) 11 = e"
  "ucast (drop_bit 9 (clcw_word v a b c d e f r) AND mask 2) = f AND mask 2"
  "ucast (clcw_word v a b c d e f r) = r"
proof -
  have hi: "8 \<le> n \<Longrightarrow> \<not> bit x n" for x :: u8 and n using bit_imp_le_length [of x n] by auto
  note bits = clcw_word_def field_bits bit_1_iff
  show "drop_bit 24 (clcw_word v a b c d e f r) = 1"
    by (rule bit_word_eqI) (simp only: bits, auto simp: hi)
  show "ucast (drop_bit 18 (clcw_word v a b c d e f r) AND mask 6) = v AND mask 6"
    by (rule bit_word_eqI) (simp only: bits, force simp: hi)
  show "bit (clcw_word v a b c d e f r) 15 = a" "bit (clcw_word v a b c d e f r) 14 = b"
    "bit (clcw_word v a b c d e f r) 13 = c" "bit (clcw_word v a b c d e f r) 12 = d"
    "bit (clcw_word v a b c d e f r) 11 = e"
    by (simp_all only: bits) (simp_all add: hi)
  show "ucast (drop_bit 9 (clcw_word v a b c d e f r) AND mask 2) = f AND mask 2"
    by (rule bit_word_eqI) (simp only: bits, force simp: hi)
  show "ucast (clcw_word v a b c d e f r) = r"
    by (rule bit_word_eqI) (simp only: bits, force)
qed

section \<open>Properties\<close>

text \<open>
  C8: The FARM-1 window. For a sequence-controlled frame and an unlocked receiver the outcome is
  decided by the distance from the expected number V(R), modulo 256: distance 0 is accepted and
  advances V(R); 1 to 63 ahead is refused and requests retransmission; 1 to 63 behind is refused
  as a duplicate with no change of state; every other distance locks the receiver out.
\<close>

theorem farm_window_decision:
  assumes "\<not> lockout_flag (vc_state profile)" "\<not> tc_bypass frame" "\<not> tc_control_command frame"
    and "ahead = unat (tc_frame_sequence_number frame - report_value (vc_state profile))"
  shows "update_tc_sequence_state profile frame =
     (if ahead = 0
      then (0, with_vc_state profile
             (\<lambda>vc. vc\<lparr>report_value := report_value vc + 1, retransmit_flag := False\<rparr>))
      else if ahead < 64
      then (- EAGAIN, with_vc_state profile (\<lambda>vc. vc\<lparr>retransmit_flag := True\<rparr>))
      else if 192 < ahead then (- EAGAIN, profile)
      else (- EAGAIN, with_vc_state profile (\<lambda>vc. vc\<lparr>lockout_flag := True\<rparr>)))"
proof -
  let ?r = "tc_frame_sequence_number frame" and ?e = "report_value (vc_state profile)"
  have half: "CCSDS_TC_COP1_HALF_WINDOW = 64"
    by (simp add: CCSDS_TC_COP1_HALF_WINDOW_def CONFIG_AKIRA_CCSDS_COP1_WINDOW_SIZE_def)
  have zero: "?r = ?e \<longleftrightarrow> ahead = 0" by (auto simp: assms(4) unat_eq_0)
  have ahead: "?r - ?e < CCSDS_TC_COP1_HALF_WINDOW \<longleftrightarrow> ahead < 64"
    by (simp add: half assms(4) word_less_nat_alt)
  have behind: "?e - ?r < CCSDS_TC_COP1_HALF_WINDOW \<longleftrightarrow> 192 < ahead" if "ahead \<noteq> 0"
  proof -
    have "(unat (?e - ?r) + ahead) mod 256 = 0" unfolding assms(4) by (rule octet_opposites)
    then have "unat (?e - ?r) < 64 \<longleftrightarrow> 192 < ahead"
      by (rule opposite_window) (simp_all only: unat_octet_less assms(4) that [unfolded assms(4)] not_False_eq_True)
    then show ?thesis unfolding half word_less_nat_alt by simp
  qed
  show ?thesis
    using assms(1-3) zero ahead behind
    by (cases "ahead = 0"; cases "ahead < 64"; cases "192 < ahead")
      (simp_all add: update_tc_sequence_state_def Let_def with_vc_state_def)
qed

lemma farm_window_decision_witness:
  "update_tc_sequence_state (ccsds_profile_tc_rx_init ccsds_router_init :: nat ccsds_profile_tc_rx)
     \<lparr>tc_spacecraft_id = 1, tc_virtual_channel_id = 0, tc_bypass = False,
      tc_control_command = False, tc_frame_sequence_number = 70, tc_data = []\<rparr>
   = (- EAGAIN, with_vc_state (ccsds_profile_tc_rx_init ccsds_router_init)
        (\<lambda>vc. vc\<lparr>lockout_flag := True\<rparr>))"
  using farm_window_decision [where profile = "ccsds_profile_tc_rx_init ccsds_router_init :: nat ccsds_profile_tc_rx"
      and frame = "\<lparr>tc_spacecraft_id = 1, tc_virtual_channel_id = 0, tc_bypass = False,
        tc_control_command = False, tc_frame_sequence_number = 70, tc_data = []\<rparr>" and ahead = 70]
  by (simp add: ccsds_profile_tc_rx_init_def cleared_vc_state_def)

text \<open>
  C7: Only accepted frames reach the application. Dispatching a CLTU leaves the application state
  alone, unless it decodes to a data frame for this spacecraft and the configured virtual channel,
  the receiver is not locked out, and the frame is a bypass frame or carries exactly the expected
  number, in which case V(R) advances by one.
\<close>

theorem tc_only_accepted_frames_dispatched:
  "case ccsds_profile_tc_cltu_dispatch cfg call cltu (profile, stats, s) of
     (ret, profile', stats', s') \<Rightarrow>
       s' = s \<or>
       (\<exists>frame. tc_addressed cfg profile cltu frame \<and> tc_control_command frame = False \<and>
          lockout_flag (vc_state profile) = False \<and>
          report_value (vc_state profile') =
            (if tc_bypass frame then report_value (vc_state profile)
             else report_value (vc_state profile) + 1) \<and>
          (tc_bypass frame \<or> tc_frame_sequence_number frame = report_value (vc_state profile)))"
proof -
  obtain ret profile' stats' s' where
    run: "ccsds_profile_tc_cltu_dispatch cfg call cltu (profile, stats, s) = (ret, profile', stats', s')"
    by (metis prod_cases4)
  show ?thesis using tc_dispatched_frame [OF run] unfolding run prod.case by blast
qed

text \<open>
  C9: Lockout is absolute. While the lockout flag is set no CLTU, whatever its content, runs a
  packet handler, moves V(R) or changes the reassembly state; and it clears the flag only by being
  an UNLOCK control frame for the configured virtual channel, which the dispatcher acknowledges
  with 0.
\<close>

theorem tc_lockout_only_unlocks:
  assumes "lockout_flag (vc_state profile)"
    and "ccsds_profile_tc_cltu_dispatch cfg call cltu (profile, stats, s) = (ret, profile', stats', s')"
  shows "s' = s \<and> report_value (vc_state profile') = report_value (vc_state profile) \<and>
     reassembly profile' = reassembly profile \<and>
     (lockout_flag (vc_state profile') \<or>
      (\<exists>frame. tc_addressed cfg profile cltu frame \<and> tc_control_command frame \<and>
         tc_data frame \<noteq> [] \<and> tc_data frame ! 0 = CCSDS_TC_CONTROL_UNLOCK \<and> ret = 0))"
  using assms(2)
proof (cases rule: tc_dispatch_cases)
  case (control frame)
  then show ?thesis
    using assms(1) by (auto simp: handle_tc_control_frame_def split: if_splits)
next
  case (refused frame)
  then show ?thesis
    using assms(1) by (auto simp: update_tc_sequence_state_def)
next
  case (empty frame)
  then show ?thesis using assms(1) by (simp add: sequence_accept)
next
  case (walked frame profile1 segment d)
  then show ?thesis using assms(1) by (simp add: sequence_accept)
qed (use assms(1) in simp)

lemma tc_lockout_only_unlocks_witness:
  "\<exists>stats'. lockout_flag (vc_state (with_vc_state (ccsds_profile_tc_rx_init ccsds_router_init :: nat ccsds_profile_tc_rx)
       (\<lambda>vc. vc\<lparr>lockout_flag := True\<rparr>))) \<and>
     ccsds_profile_tc_cltu_dispatch \<lparr>cfg_scid = 123, cfg_tc_rnd = False\<rparr> (\<lambda>h p n. (0, n + 1)) []
       (with_vc_state (ccsds_profile_tc_rx_init ccsds_router_init) (\<lambda>vc. vc\<lparr>lockout_flag := True\<rparr>),
        ccsds_profile_tc_rx_reset_stats, 0 :: nat)
     = (- EINVAL, with_vc_state (ccsds_profile_tc_rx_init ccsds_router_init)
          (\<lambda>vc. vc\<lparr>lockout_flag := True\<rparr>), stats', 0)"
proof -
  let ?p = "with_vc_state (ccsds_profile_tc_rx_init ccsds_router_init :: nat ccsds_profile_tc_rx)
    (\<lambda>vc. vc\<lparr>lockout_flag := True\<rparr>)"
  let ?run = "ccsds_profile_tc_cltu_dispatch \<lparr>cfg_scid = 123, cfg_tc_rnd = False\<rparr>
    (\<lambda>h p n. (0, n + 1)) [] (?p, ccsds_profile_tc_rx_reset_stats, 0 :: nat)"
  have lock: "lockout_flag (vc_state ?p)" by simp
  obtain ret profile' stats' s' where run: "?run = (ret, profile', stats', s')" by (metis prod_cases4)
  from tc_lockout_only_unlocks [OF lock run] have "s' = 0" by simp
  with run lock show ?thesis by (auto simp: dispatch_empty)
qed

text \<open>
  C11: In every state reachable from initialisation by configuration, received CLTUs and any
  activity of the application, the reassembly buffer never exceeds the announced packet length nor
  that length the buffer, an idle reassembly is empty, and the configured virtual channel and the
  FARM-B counter stay in their fields.
\<close>

theorem tc_reachable_profile_invariant:
  assumes "tc_reachable cfg call (profile, stats, s)"
  shows "tc_profile_inv profile"
  using tc_reachable_inv [OF assms] by simp

lemma tc_reachable_profile_invariant_witness:
  "tc_profile_inv (ccsds_profile_tc_rx_init (ccsds_router_init :: nat ccsds_router))"
  by (rule tc_reachable_profile_invariant [OF tc_reachable.init
        [of "\<lparr>cfg_scid = 123, cfg_tc_rnd = False\<rparr>" "\<lambda>h p n. (0, n)" _
          ccsds_profile_tc_rx_reset_stats "0 :: nat"]])



text \<open>
  Every CLTU is counted once. The receive counter goes up by one, the last length is that of
  this CLTU and the last error its error; either exactly one unit is added to the failure and
  control counters together and no packet is counted, or the CLTU succeeded and none of them moves.
\<close>

theorem tc_every_cltu_counted_once:
  "case ccsds_profile_tc_cltu_dispatch cfg call cltu (profile, stats, s) of
     (ret, profile', stats', s') \<Rightarrow>
       cltus_received stats' = cltus_received stats + 1 \<and> last_cltu_len stats' = length cltu \<and>
       last_error stats' = (if ret = 0 then last_error stats else ret) \<and>
       (outcome_total stats' = outcome_total stats + 1 \<and>
          stat_packets_dispatched stats' = stat_packets_dispatched stats \<or>
        outcome_total stats' = outcome_total stats \<and> ret = 0)"
  using cltu_dispatch_counted [of cltu stats cfg call profile s]
  by (simp add: counted_run_def counted_def case_prod_beta)

text \<open>
  The control word carries the receiver state in the CLCW layout: type, version and status
  zero, COP-1 in effect, then the virtual channel, the five flags, the FARM-B counter and V(R) in
  their bit positions; and it is refused only for a virtual channel outside 0..63.
\<close>

theorem clcw_layout:
  assumes "farm_b_counter (vc_state profile) < 4"
  shows "case ccsds_profile_tc_build_clcw profile of
     Inl err \<Rightarrow> err = - EINVAL \<and> CCSDS_TC_VC_COUNT \<le> accepted_vcid profile
   | Inr clcw \<Rightarrow>
       drop_bit 24 clcw = CCSDS_CLCW_COP_IN_EFFECT \<and>
       ucast (drop_bit 18 clcw AND mask 6) = accepted_vcid profile \<and>
       bit clcw 15 = no_rf_available_flag (vc_state profile) \<and>
       bit clcw 14 = no_bit_lock_flag (vc_state profile) \<and>
       bit clcw 13 = lockout_flag (vc_state profile) \<and>
       bit clcw 12 = wait_flag (vc_state profile) \<and>
       bit clcw 11 = retransmit_flag (vc_state profile) \<and>
       ucast (drop_bit 9 clcw AND mask 2) = farm_b_counter (vc_state profile) \<and>
       ucast clcw = report_value (vc_state profile)"
proof (cases "CCSDS_TC_VC_COUNT \<le> accepted_vcid profile")
  case True
  then show ?thesis by (simp add: ccsds_profile_tc_build_clcw_def)
next
  case False
  let ?vc = "vc_state profile"
  have v: "accepted_vcid profile AND mask 6 = accepted_vcid profile"
    using False by (intro and_mask_id) (simp add: CCSDS_TC_VC_COUNT_def word_le_nat_alt)
  have f: "farm_b_counter ?vc AND mask 2 = farm_b_counter ?vc"
    using assms by (intro and_mask_id) (simp add: word_less_nat_alt)
  have build: "ccsds_profile_tc_build_clcw profile = Inr (clcw_word (accepted_vcid profile)
      (no_rf_available_flag ?vc) (no_bit_lock_flag ?vc) (lockout_flag ?vc) (wait_flag ?vc)
      (retransmit_flag ?vc) (farm_b_counter ?vc) (report_value ?vc))"
    using False by (simp add: ccsds_profile_tc_build_clcw_def clcw_word_def Let_def
        CCSDS_CLCW_CONTROL_WORD_TYPE_def CCSDS_CLCW_VERSION_NUMBER_def CCSDS_CLCW_STATUS_FIELD_def
        CCSDS_CLCW_COP_IN_EFFECT_def mask_eq_exp_minus_1)
  show ?thesis
    unfolding build sum.case clcw_word_fields CCSDS_CLCW_COP_IN_EFFECT_def v f by simp
qed

lemma clcw_layout_witness:
  "farm_b_counter (vc_state (ccsds_profile_tc_rx_init (ccsds_router_init :: nat ccsds_router))) < 4 \<and>
   (case ccsds_profile_tc_build_clcw (ccsds_profile_tc_rx_init (ccsds_router_init :: nat ccsds_router)) of
      Inl err \<Rightarrow> False | Inr clcw \<Rightarrow> drop_bit 24 clcw = 1 \<and> \<not> bit clcw 13)"
proof -
  let ?p = "ccsds_profile_tc_rx_init (ccsds_router_init :: nat ccsds_router)"
  have f: "farm_b_counter (vc_state ?p) < 4" and v: "\<not> CCSDS_TC_VC_COUNT \<le> accepted_vcid ?p"
    and l: "\<not> lockout_flag (vc_state ?p)"
    by (simp_all add: ccsds_profile_tc_rx_init_def cleared_vc_state_def CCSDS_TC_VC_COUNT_def)
  from clcw_layout [OF f] v l f show ?thesis
    by (simp add: CCSDS_CLCW_COP_IN_EFFECT_def split: sum.splits)
qed

end
