(* ===== verification/Tm_Frame.thy ===== *)
theory Tm_Frame
  imports Crc16 Reed_Solomon Randomizer Space_Packet Tc_Segment
begin

text \<open>
  The telemetry frame generator of \<open>ccsds_tm_frame.c\<close>: virtual channel queues, packet admission,
  the data field of a transfer frame with its first header pointer and idle fill, header, control
  field and error control, channel coding, channel selection and frame routing.

  The build options are in \<open>tm_config\<close>. The kernel's pipe is external: its content is the
  octet list \<open>pending\<close>, and how much a read or write call transfers is decided by the functions
  in \<open>pipe_ops\<close>, with the documented bounds stated as \<open>pipe_contract\<close>. Route callbacks and the CLCW
  provider are arguments over an application state; delays are numbers of ticks.
\<close>

unbundle bit_operations_syntax

definition CCSDS_TM_MAX_VC_ID :: u8 where "CCSDS_TM_MAX_VC_ID = 7"
definition CCSDS_TM_VC_COUNT :: nat where "CCSDS_TM_VC_COUNT = 8"
definition CCSDS_TM_ROUTE_COUNT :: nat where "CCSDS_TM_ROUTE_COUNT = 32"
definition CCSDS_SPACE_PACKET_MIN_LEN :: nat where
  "CCSDS_SPACE_PACKET_MIN_LEN = CCSDS_SPACE_PACKET_PRIMARY_HDR_LEN + 1"
definition CCSDS_TM_ASM_LEN :: nat where "CCSDS_TM_ASM_LEN = 4"
definition CCSDS_TM_PRIMARY_HDR_LEN :: nat where "CCSDS_TM_PRIMARY_HDR_LEN = 6"
definition CCSDS_TM_OCF_LEN :: nat where "CCSDS_TM_OCF_LEN = 4"
definition CCSDS_TM_IDLE_VC_ID :: u8 where "CCSDS_TM_IDLE_VC_ID = CCSDS_TM_MAX_VC_ID"
definition CCSDS_TM_IDLE_FIRST_HEADER_POINTER :: u16 where
  "CCSDS_TM_IDLE_FIRST_HEADER_POINTER = 0x7fe"
definition CCSDS_TM_NO_FIRST_HEADER_POINTER :: u16 where "CCSDS_TM_NO_FIRST_HEADER_POINTER = 0x7ff"
definition CCSDS_TM_SECONDARY_HEADER_FLAG :: u16 where "CCSDS_TM_SECONDARY_HEADER_FLAG = 0"
definition CCSDS_TM_SYNC_FLAG :: u16 where "CCSDS_TM_SYNC_FLAG = 0"
definition CCSDS_TM_PACKET_ORDER_FLAG :: u16 where "CCSDS_TM_PACKET_ORDER_FLAG = 0"
definition CCSDS_TM_SEGMENT_LENGTH_ID :: u16 where "CCSDS_TM_SEGMENT_LENGTH_ID = 3"
definition CCSDS_TM_IDLE_APID :: u16 where "CCSDS_TM_IDLE_APID = CCSDS_APID_MAX"
definition CCSDS_TM_ASM :: octets where "CCSDS_TM_ASM = [0x1a, 0xcf, 0xfc, 0x1d]"
definition CCSDS_TM_ROUTE_NONE :: u32 where "CCSDS_TM_ROUTE_NONE = 0"
definition CCSDS_TM_LOCAL_ROUTE_MASK :: u32 where "CCSDS_TM_LOCAL_ROUTE_MASK = 0x1f"
definition CCSDS_TM_DOWNLINK_ROUTE_MASK :: u32 where "CCSDS_TM_DOWNLINK_ROUTE_MASK = 0x70000"
definition CCSDS_TM_SUPPORTED_ROUTE_MASK :: u32 where
  "CCSDS_TM_SUPPORTED_ROUTE_MASK = CCSDS_TM_LOCAL_ROUTE_MASK OR CCSDS_TM_DOWNLINK_ROUTE_MASK"

section \<open>Configuration and state\<close>

record tm_config =
  tm_scid :: u16
  tm_rs :: bool
  tm_fecf :: bool
  tm_rnd :: bool
  tm_max_frame_len :: nat
  tm_queue_depth :: nat
  tm_max_packet_len :: nat

definition CCSDS_TM_FRAME_LEN :: "tm_config \<Rightarrow> nat" where
  "CCSDS_TM_FRAME_LEN cfg = (if tm_rs cfg then CCSDS_RS_INTERLEAVED_DATA_LEN else tm_max_frame_len cfg)"

definition CCSDS_TM_CODED_FRAME_LEN :: "tm_config \<Rightarrow> nat" where
  "CCSDS_TM_CODED_FRAME_LEN cfg =
     (if tm_rs cfg then CCSDS_TM_ASM_LEN + CCSDS_TM_FRAME_LEN cfg + CCSDS_RS_INTERLEAVED_PARITY_LEN
      else CCSDS_TM_ASM_LEN + CCSDS_TM_FRAME_LEN cfg)"

definition CCSDS_TM_FECF_LEN :: "tm_config \<Rightarrow> nat" where
  "CCSDS_TM_FECF_LEN cfg = (if tm_fecf cfg then CCSDS_CRC16_LEN else 0)"

definition tm_data_len :: "tm_config \<Rightarrow> nat" where
  "tm_data_len cfg = CCSDS_TM_FRAME_LEN cfg - CCSDS_TM_PRIMARY_HDR_LEN - CCSDS_TM_OCF_LEN -
     CCSDS_TM_FECF_LEN cfg"

text \<open>The assertions the build makes about the configuration.\<close>

definition tm_build_assert :: "tm_config \<Rightarrow> bool" where
  "tm_build_assert cfg \<longleftrightarrow>
     tm_scid cfg \<le> 0x3ff \<and> CCSDS_TM_FRAME_LEN cfg \<le> tm_max_frame_len cfg \<and>
     CCSDS_TM_FRAME_LEN cfg > CCSDS_TM_PRIMARY_HDR_LEN + CCSDS_TM_OCF_LEN + CCSDS_TM_FECF_LEN cfg \<and>
     tm_queue_depth cfg \<ge> tm_max_packet_len cfg"

record pipe_ops =
  pipe_read :: "octets \<Rightarrow> nat \<Rightarrow> int"
  pipe_write :: "octets \<Rightarrow> octets \<Rightarrow> int"

record ccsds_tm_vc =
  pending :: octets
  pending_len :: nat
  packet_rem :: nat
  packet_is_idle :: bool
  vcfc :: u8
  route_mask :: u32

record ('r, 'c) tm_state =
  vcs :: "ccsds_tm_vc list"
  routes :: "'r option list"
  clcw_provider :: "'c option"
  generator_work :: "int option"
  generator_active_delay :: int
  generator_idle_delay :: int
  mcfc :: u8
  generator_last_vcid :: u8
  generator_running :: bool
  generator_last_cycle_active :: bool
  initialized :: bool

definition cleared_vc :: ccsds_tm_vc where
  "cleared_vc = \<lparr>pending = [], pending_len = 0, packet_rem = 0, packet_is_idle = False, vcfc = 0,
     route_mask = CCSDS_TM_ROUTE_NONE\<rparr>"

definition upd_vc ::
  "u8 \<Rightarrow> (ccsds_tm_vc \<Rightarrow> ccsds_tm_vc) \<Rightarrow> ('r, 'c) tm_state \<Rightarrow> ('r, 'c) tm_state" where
  "upd_vc vcid f tm = tm\<lparr>vcs := (vcs tm)[unat vcid := f (vcs tm ! unat vcid)]\<rparr>"

definition ccsds_tm_frame_stop :: "('r, 'c) tm_state \<Rightarrow> ('r, 'c) tm_state" where
  "ccsds_tm_frame_stop tm = tm\<lparr>generator_running := False, generator_work := None\<rparr>"

text \<open>Scheduling a work item that is already scheduled leaves its time as it is.\<close>

definition k_work_schedule :: "int \<Rightarrow> ('r, 'c) tm_state \<Rightarrow> ('r, 'c) tm_state" where
  "k_work_schedule delay tm =
     (case generator_work tm of
        Some d \<Rightarrow> tm
      | None \<Rightarrow> tm\<lparr>generator_work := Some delay\<rparr>)"

definition ccsds_tm_frame_start :: "int \<Rightarrow> int \<Rightarrow> ('r, 'c) tm_state \<Rightarrow> ('r, 'c) tm_state" where
  "ccsds_tm_frame_start active_delay idle_delay tm =
     k_work_schedule 0
       (tm\<lparr>generator_active_delay := active_delay, generator_idle_delay := idle_delay,
           generator_running := True\<rparr>)"

definition ccsds_tm_frame_init :: "('r, 'c) tm_state \<Rightarrow> ('r, 'c) tm_state" where
  "ccsds_tm_frame_init tm =
     (ccsds_tm_frame_stop tm)
       \<lparr>vcs := replicate CCSDS_TM_VC_COUNT cleared_vc,
        routes := replicate CCSDS_TM_ROUTE_COUNT None,
        clcw_provider := None, mcfc := 0, generator_active_delay := 0, generator_idle_delay := 0,
        generator_last_vcid := CCSDS_TM_MAX_VC_ID, generator_last_cycle_active := False,
        initialized := True\<rparr>"

section \<open>Routes\<close>

definition route_bit_is_valid :: "u32 \<Rightarrow> bool" where
  "route_bit_is_valid route_bit =
     (if route_bit = CCSDS_TM_ROUTE_NONE then False
      else if route_bit AND (route_bit - 1) \<noteq> 0 then False
      else route_bit AND CCSDS_TM_SUPPORTED_ROUTE_MASK \<noteq> 0)"

definition route_mask_is_valid :: "u32 \<Rightarrow> bool" where
  "route_mask_is_valid mask_bits \<longleftrightarrow> mask_bits AND NOT CCSDS_TM_SUPPORTED_ROUTE_MASK = 0"

text \<open>The search ends below 32 for a single bit; the bound makes the function total.\<close>

function route_bit_index_from :: "u32 \<Rightarrow> nat \<Rightarrow> nat" where
  "route_bit_index_from route_bit bit_num =
     (if bit_num < 32 \<and> drop_bit bit_num route_bit \<noteq> 1
      then route_bit_index_from route_bit (Suc bit_num) else bit_num)"
  by pat_completeness auto
termination by (relation "measure (\<lambda>(route_bit, bit_num). 32 - bit_num)") auto

declare route_bit_index_from.simps [simp del]

definition route_bit_index :: "u32 \<Rightarrow> nat" where
  "route_bit_index route_bit = route_bit_index_from route_bit 0"

definition ccsds_tm_frame_register_route ::
  "u32 \<Rightarrow> 'r \<Rightarrow> ('r, 'c) tm_state \<Rightarrow> int \<times> ('r, 'c) tm_state" where
  "ccsds_tm_frame_register_route route_bit route tm =
     (if \<not> route_bit_is_valid route_bit then (- EINVAL, tm)
      else (0, tm\<lparr>routes := (routes tm)[route_bit_index route_bit := Some route]\<rparr>))"

definition ccsds_tm_frame_set_clcw_provider ::
  "'c option \<Rightarrow> ('r, 'c) tm_state \<Rightarrow> ('r, 'c) tm_state" where
  "ccsds_tm_frame_set_clcw_provider provider tm = tm\<lparr>clcw_provider := provider\<rparr>"

definition ccsds_tm_frame_set_vc_route ::
  "u8 \<Rightarrow> u32 \<Rightarrow> ('r, 'c) tm_state \<Rightarrow> int \<times> ('r, 'c) tm_state" where
  "ccsds_tm_frame_set_vc_route vcid mask_bits tm =
     (if vcid > CCSDS_TM_MAX_VC_ID \<or> \<not> route_mask_is_valid mask_bits then (- EINVAL, tm)
      else (0, upd_vc vcid (\<lambda>vc. vc\<lparr>route_mask := mask_bits\<rparr>) tm))"

definition ccsds_tm_frame_get_vc_route :: "u8 \<Rightarrow> ('r, 'c) tm_state \<Rightarrow> u32 result" where
  "ccsds_tm_frame_get_vc_route vcid tm =
     (if vcid > CCSDS_TM_MAX_VC_ID then Inl (- EINVAL)
      else Inr (route_mask (vcs tm ! unat vcid)))"

text \<open>The loop over the route bits, with the mask bits still to serve.\<close>

type_synonym ('r, 's) route_call = "'r \<Rightarrow> u8 \<Rightarrow> octets \<Rightarrow> 's \<Rightarrow> 's"

fun route_loop ::
  "('r, 's) route_call \<Rightarrow> u8 \<Rightarrow> octets \<Rightarrow> nat \<Rightarrow> 'r option list \<Rightarrow> u32 \<Rightarrow> 's \<Rightarrow> 's" where
  "route_loop call vcid frame bit_num [] remaining s = s"
| "route_loop call vcid frame bit_num (route # rs) remaining s =
     (if remaining = CCSDS_TM_ROUTE_NONE then s
      else
        let route_bit = push_bit bit_num 1
        in if remaining AND route_bit = 0
           then route_loop call vcid frame (Suc bit_num) rs remaining s
           else route_loop call vcid frame (Suc bit_num) rs (remaining AND NOT route_bit)
                  (case route of Some r \<Rightarrow> call r vcid frame s | None \<Rightarrow> s))"

definition route_frame ::
  "('r, 's) route_call \<Rightarrow> ('r, 'c) tm_state \<Rightarrow> u8 \<Rightarrow> octets \<Rightarrow> 's \<Rightarrow> 's" where
  "route_frame call tm vcid frame s =
     route_loop call vcid frame 0 (routes tm) (route_mask (vcs tm ! unat vcid)) s"

section \<open>Frame fields\<close>

definition packet_total_len :: "octets \<Rightarrow> nat" where
  "packet_total_len packet =
     CCSDS_SPACE_PACKET_PRIMARY_HDR_LEN + unat (get_be16 (drop 4 packet)) + 1"

definition tm_word0 :: "tm_config \<Rightarrow> u8 \<Rightarrow> u16" where
  "tm_word0 cfg vcid =
     push_bit 4 (tm_scid cfg AND 0x3ff) OR push_bit 1 (ucast (vcid AND 0x7)) OR 0x1"

definition tm_word2 :: "u16 \<Rightarrow> u16" where
  "tm_word2 first_header_pointer =
     push_bit 15 (CCSDS_TM_SECONDARY_HEADER_FLAG AND 0x1) OR
     push_bit 14 (CCSDS_TM_SYNC_FLAG AND 0x1) OR
     push_bit 13 (CCSDS_TM_PACKET_ORDER_FLAG AND 0x1) OR
     push_bit 11 (CCSDS_TM_SEGMENT_LENGTH_ID AND 0x3) OR
     (first_header_pointer AND 0x7ff)"

definition build_primary_header ::
  "tm_config \<Rightarrow> ('r, 'c) tm_state \<Rightarrow> u8 \<Rightarrow> u16 \<Rightarrow> octets" where
  "build_primary_header cfg tm vcid first_header_pointer =
     put_be16 (tm_word0 cfg vcid) @ [mcfc tm, vcfc (vcs tm ! unat vcid)] @
     put_be16 (tm_word2 first_header_pointer)"

text \<open>The octets the two appending steps put after the zero-filled data field.\<close>

definition append_fecf :: "tm_config \<Rightarrow> octets \<Rightarrow> octets" where
  "append_fecf cfg body =
     (if tm_fecf cfg then body @ put_be16 (ccsds_crc16_compute body) else body)"

type_synonym ('c, 's) clcw_call = "'c \<Rightarrow> 's \<Rightarrow> u32 result"

definition append_ocf :: "('c, 's) clcw_call \<Rightarrow> ('r, 'c) tm_state \<Rightarrow> 's \<Rightarrow> octets \<Rightarrow> octets" where
  "append_ocf clcw_call tm s body =
     (case clcw_provider tm of
        None \<Rightarrow> body @ replicate CCSDS_TM_OCF_LEN 0
      | Some fn \<Rightarrow>
          (case clcw_call fn s of
             Inl err \<Rightarrow> body @ replicate CCSDS_TM_OCF_LEN 0
           | Inr clcw \<Rightarrow> body @ put_be32 clcw))"

definition increment_frame_counters :: "u8 \<Rightarrow> ('r, 'c) tm_state \<Rightarrow> ('r, 'c) tm_state" where
  "increment_frame_counters vcid tm =
     upd_vc vcid (\<lambda>vc. vc\<lparr>vcfc := vcfc vc + 1\<rparr>) (tm\<lparr>mcfc := mcfc tm + 1\<rparr>)"

definition fill_idle_space_packet :: "nat \<Rightarrow> octets" where
  "fill_idle_space_packet len =
     (if len < CCSDS_SPACE_PACKET_MIN_LEN then replicate len 0
      else put_be16 CCSDS_TM_IDLE_APID @
           put_be16 (push_bit 14 (sequence_flags_value CCSDS_SEQUENCE_UNSEGMENTED)) @
           put_be16 (of_nat (len - CCSDS_SPACE_PACKET_PRIMARY_HDR_LEN - 1)) @
           replicate (len - CCSDS_SPACE_PACKET_PRIMARY_HDR_LEN) 0)"

section \<open>Draining a queue into a data field\<close>

function read_pending_loop ::
  "pipe_ops \<Rightarrow> nat \<Rightarrow> nat \<Rightarrow> octets \<Rightarrow> ccsds_tm_vc \<Rightarrow> int \<times> octets \<times> ccsds_tm_vc" where
  "read_pending_loop ops len read_len buf vc =
     (if read_len < len
      then
        let ret = pipe_read ops (pending vc) (len - read_len)
        in if ret < 0 then (ret, buf, vc)
           else if ret = 0 then (- EIO, buf, vc)
           else read_pending_loop ops len (read_len + nat ret) (buf @ take (nat ret) (pending vc))
                  (vc\<lparr>pending := drop (nat ret) (pending vc),
                      pending_len := pending_len vc - nat ret\<rparr>)
      else (0, buf, vc))"
  by pat_completeness auto
termination by (relation "measure (\<lambda>(ops, len, read_len, buf, vc). len - read_len)") auto

declare read_pending_loop.simps [simp del]

definition read_pending_bytes ::
  "pipe_ops \<Rightarrow> ccsds_tm_vc \<Rightarrow> nat \<Rightarrow> int \<times> octets \<times> ccsds_tm_vc" where
  "read_pending_bytes ops vc len = read_pending_loop ops len 0 [] vc"

text \<open>
  The packing loop: \<open>data\<close> is the data field so far, \<open>used\<close> its length. It returns the error, the
  data, the used length, the first header pointer and the channel.
\<close>

function pack_loop ::
  "pipe_ops \<Rightarrow> nat \<Rightarrow> octets \<Rightarrow> nat \<Rightarrow> u16 \<Rightarrow> ccsds_tm_vc
     \<Rightarrow> int \<times> octets \<times> nat \<times> u16 \<times> ccsds_tm_vc" where
  "pack_loop ops data_len data used fhp vc =
     (if used < data_len \<and> (packet_rem vc > 0 \<or> pending_len vc > 0)
      then
        let space = data_len - used
        in if packet_rem vc > 0
           then
             let chunk_len = min (packet_rem vc) space
             in case read_pending_bytes ops vc chunk_len of
                  (ret, bytes, vc1) \<Rightarrow>
                    if ret \<noteq> 0 then (ret, data, used, fhp, vc1)
                    else pack_loop ops data_len (data @ bytes) (used + chunk_len) fhp
                           (vc1\<lparr>packet_rem := packet_rem vc1 - chunk_len\<rparr>)
           else if space < CCSDS_SPACE_PACKET_PRIMARY_HDR_LEN then (0, data, used, fhp, vc)
           else if pending_len vc < CCSDS_SPACE_PACKET_PRIMARY_HDR_LEN
           then (- EIO, data, used, fhp, vc)
           else
             let fhp1 = (if fhp = CCSDS_TM_NO_FIRST_HEADER_POINTER then of_nat used else fhp)
             in case read_pending_bytes ops vc CCSDS_SPACE_PACKET_PRIMARY_HDR_LEN of
                  (ret, bytes, vc1) \<Rightarrow>
                    if ret \<noteq> 0 then (ret, data, used, fhp1, vc1)
                    else pack_loop ops data_len (data @ bytes)
                           (used + CCSDS_SPACE_PACKET_PRIMARY_HDR_LEN) fhp1
                           (vc1\<lparr>packet_rem :=
                                  packet_total_len bytes - CCSDS_SPACE_PACKET_PRIMARY_HDR_LEN\<rparr>)
      else (0, data, used, fhp, vc))"
  by pat_completeness auto
termination
  by (relation "measure (\<lambda>(ops, data_len, data, used, fhp, vc). data_len - used)")
    (auto simp: CCSDS_SPACE_PACKET_PRIMARY_HDR_LEN_def)

declare pack_loop.simps [simp del]

definition finish_data_field :: "nat \<Rightarrow> octets \<Rightarrow> nat \<Rightarrow> u16 \<Rightarrow> octets \<times> u16" where
  "finish_data_field data_len data used fhp =
     (if used < data_len
      then
        (data @ fill_idle_space_packet (data_len - used),
         if fhp = CCSDS_TM_NO_FIRST_HEADER_POINTER \<and> data_len - used \<ge> CCSDS_SPACE_PACKET_MIN_LEN
         then of_nat used else fhp)
      else (data, fhp))"

section \<open>Frames\<close>

definition assemble_frame ::
  "tm_config \<Rightarrow> ('c, 's) clcw_call \<Rightarrow> ('r, 'c) tm_state \<Rightarrow> 's \<Rightarrow> u8 \<Rightarrow> u16 \<Rightarrow> octets \<Rightarrow> octets" where
  "assemble_frame cfg clcw_call tm s vcid fhp data =
     append_fecf cfg (append_ocf clcw_call tm s (build_primary_header cfg tm vcid fhp @ data))"

definition build_idle_transfer_frame ::
  "tm_config \<Rightarrow> ('c, 's) clcw_call \<Rightarrow> u8 \<Rightarrow> ('r, 'c) tm_state \<Rightarrow> 's
     \<Rightarrow> octets \<times> ('r, 'c) tm_state" where
  "build_idle_transfer_frame cfg clcw_call vcid tm s =
     (assemble_frame cfg clcw_call tm s vcid CCSDS_TM_IDLE_FIRST_HEADER_POINTER
        (replicate (tm_data_len cfg) 0),
      increment_frame_counters vcid tm)"

definition build_packet_transfer_frame ::
  "tm_config \<Rightarrow> pipe_ops \<Rightarrow> ('c, 's) clcw_call \<Rightarrow> u8 \<Rightarrow> ('r, 'c) tm_state \<Rightarrow> 's
     \<Rightarrow> octets result \<times> ('r, 'c) tm_state" where
  "build_packet_transfer_frame cfg ops clcw_call vcid tm s =
     (case pack_loop ops (tm_data_len cfg) [] 0 CCSDS_TM_NO_FIRST_HEADER_POINTER
             (vcs tm ! unat vcid) of
        (ret, data, used, fhp, vc) \<Rightarrow>
          let tm = upd_vc vcid (\<lambda>_. vc) tm
          in if ret \<noteq> 0 then (Inl ret, tm)
             else
               case finish_data_field (tm_data_len cfg) data used fhp of
                 (data, fhp) \<Rightarrow>
                   (Inr (assemble_frame cfg clcw_call tm s vcid fhp data),
                    increment_frame_counters vcid tm))"

definition code_transfer_frame :: "tm_config \<Rightarrow> octets \<Rightarrow> octets" where
  "code_transfer_frame cfg frame =
     (let coded = (if tm_rs cfg then frame @ ccsds_rs_encode frame else frame)
      in CCSDS_TM_ASM @ (if tm_rnd cfg then ccsds_rnd_apply coded else coded))"

section \<open>The generator\<close>

definition vc_has_pending_bytes :: "('r, 'c) tm_state \<Rightarrow> u8 \<Rightarrow> bool" where
  "vc_has_pending_bytes tm vcid \<longleftrightarrow>
     pending_len (vcs tm ! unat vcid) > 0 \<or> packet_rem (vcs tm ! unat vcid) > 0"

fun select_vc_loop :: "('r, 'c) tm_state \<Rightarrow> u8 list \<Rightarrow> u8 option" where
  "select_vc_loop tm [] = None"
| "select_vc_loop tm (i # is) = (if vc_has_pending_bytes tm i then Some i else select_vc_loop tm is)"

definition generator_select_active_vc :: "('r, 'c) tm_state \<Rightarrow> u8 option" where
  "generator_select_active_vc tm = select_vc_loop tm [0, 1, 2, 3, 4, 5, 6, 7]"

record ('r, 'c, 's) tm_env =
  env_cfg :: tm_config
  env_ops :: pipe_ops
  env_clcw :: "('c, 's) clcw_call"
  env_route :: "('r, 's) route_call"

definition generator_cycle ::
  "('r, 'c, 's) tm_env \<Rightarrow> ('r, 'c) tm_state \<times> 's \<Rightarrow> bool \<times> ('r, 'c) tm_state \<times> 's" where
  "generator_cycle env = (\<lambda>(tm, s).
     (case generator_select_active_vc tm of
        None \<Rightarrow>
          (let tm = tm\<lparr>generator_last_cycle_active := False,
                       generator_last_vcid := CCSDS_TM_IDLE_VC_ID\<rparr>;
               (frame, tm) = build_idle_transfer_frame (env_cfg env) (env_clcw env)
                               CCSDS_TM_IDLE_VC_ID tm s
           in (False, tm, route_frame (env_route env) tm CCSDS_TM_IDLE_VC_ID
                            (code_transfer_frame (env_cfg env) frame) s))
      | Some vcid \<Rightarrow>
          (let tm = tm\<lparr>generator_last_cycle_active := True, generator_last_vcid := vcid\<rparr>;
               (r, tm) = build_packet_transfer_frame (env_cfg env) (env_ops env) (env_clcw env)
                           vcid tm s
           in case r of
                Inl ret \<Rightarrow> (True, tm, s)
              | Inr frame \<Rightarrow>
                  (True, tm, route_frame (env_route env) tm vcid
                               (code_transfer_frame (env_cfg env) frame) s))))"

text \<open>The kernel runs the handler of a scheduled work item, which is then no longer scheduled.\<close>

definition generator_work_handler ::
  "('r, 'c, 's) tm_env \<Rightarrow> ('r, 'c) tm_state \<times> 's \<Rightarrow> ('r, 'c) tm_state \<times> 's" where
  "generator_work_handler env = (\<lambda>(tm, s).
     (if \<not> generator_running tm then (tm\<lparr>generator_work := None\<rparr>, s)
      else
        case generator_cycle env (tm\<lparr>generator_work := None\<rparr>, s) of
          (active, tm, s) \<Rightarrow>
            let next_delay = (if active then generator_active_delay tm else generator_idle_delay tm)
            in if generator_running tm then (k_work_schedule next_delay tm, s) else (tm, s)))"

section \<open>Admission\<close>

function write_loop :: "pipe_ops \<Rightarrow> octets \<Rightarrow> nat \<Rightarrow> ccsds_tm_vc \<Rightarrow> int \<times> ccsds_tm_vc" where
  "write_loop ops packet written vc =
     (if written < length packet
      then
        let ret = pipe_write ops (pending vc) (drop written packet)
        in if ret < 0 then (ret, vc)
           else if ret = 0 then (- EIO, vc)
           else write_loop ops packet (written + nat ret)
                  (vc\<lparr>pending := pending vc @ take (nat ret) (drop written packet),
                      pending_len := pending_len vc + nat ret\<rparr>)
      else (0, vc))"
  by pat_completeness auto
termination by (relation "measure (\<lambda>(ops, packet, written, vc). length packet - written)") auto

declare write_loop.simps [simp del]

text \<open>\<open>lock\<close> is the result of taking the write lock with the caller's timeout.\<close>

definition ccsds_tm_frame_add ::
  "tm_config \<Rightarrow> pipe_ops \<Rightarrow> int \<Rightarrow> u8 \<Rightarrow> octets \<Rightarrow> ('r, 'c) tm_state \<Rightarrow> int \<times> ('r, 'c) tm_state" where
  "ccsds_tm_frame_add cfg ops lock vcid packet tm =
     (if length packet < CCSDS_SPACE_PACKET_MIN_LEN then (- EINVAL, tm)
      else if packet_total_len packet \<noteq> length packet then (- EINVAL, tm)
      else if length packet > tm_max_packet_len cfg then (- EMSGSIZE, tm)
      else if length packet > tm_queue_depth cfg then (- EMSGSIZE, tm)
      else if vcid > CCSDS_TM_MAX_VC_ID then (- EINVAL, tm)
      else if lock \<noteq> 0 then (lock, tm)
      else
        case write_loop ops packet 0 (vcs tm ! unat vcid) of
          (ret, vc) \<Rightarrow> (ret, upd_vc vcid (\<lambda>_. vc) tm))"

section \<open>Queues\<close>

text \<open>
  What the kernel documents of a pipe: a read of a non-empty pipe transfers at least one octet and at
  most what was asked for and what is there; a successful write transfers at least one octet, at
  most what was offered, and never overfills the pipe.
\<close>

definition pipe_contract :: "nat \<Rightarrow> pipe_ops \<Rightarrow> bool" where
  "pipe_contract capacity ops \<longleftrightarrow>
     (\<forall>c n. 0 < n \<and> c \<noteq> [] \<longrightarrow>
        0 < pipe_read ops c n \<and> pipe_read ops c n \<le> int n \<and> pipe_read ops c n \<le> int (length c)) \<and>
     (\<forall>c d. 0 < pipe_write ops c d \<longrightarrow>
        pipe_write ops c d \<le> int (length d) \<and> int (length c) + pipe_write ops c d \<le> int capacity)"

text \<open>A pipe that transfers as much as it can, and fails with \<open>EAGAIN\<close> when it can do nothing.\<close>

definition greedy_pipe :: "nat \<Rightarrow> pipe_ops" where
  "greedy_pipe capacity =
     \<lparr>pipe_read = (\<lambda>c n. if c = [] then - EAGAIN else int (min n (length c))),
      pipe_write = (\<lambda>c d. if length c < capacity then int (min (length d) (capacity - length c))
                          else - EAGAIN)\<rparr>"

lemma greedy_pipe_contract: "pipe_contract capacity (greedy_pipe capacity)"
  by (auto simp: pipe_contract_def greedy_pipe_def errno_defs)

definition encoded_packet :: "octets \<Rightarrow> bool" where
  "encoded_packet p \<longleftrightarrow> CCSDS_SPACE_PACKET_MIN_LEN \<le> length p \<and> packet_total_len p = length p"

text \<open>The queue holds the rest \<open>cur\<close> of the packet being emitted and then the packets \<open>ps\<close>.\<close>

definition vc_holds :: "ccsds_tm_vc \<Rightarrow> octets \<Rightarrow> octets list \<Rightarrow> bool" where
  "vc_holds vc cur ps \<longleftrightarrow>
     pending vc = cur @ concat ps \<and> packet_rem vc = length cur \<and>
     pending_len vc = length (pending vc) \<and> (\<forall>p\<in>set ps. encoded_packet p)"

lemma vc_holds_cleared: "vc_holds cleared_vc [] []"
  by (simp add: vc_holds_def cleared_vc_def)

lemma vc_holds_pending_len:
  "vc_holds vc cur ps \<Longrightarrow> pending_len vc = length cur + length (concat ps)"
  by (simp add: vc_holds_def)

lemma encoded_packet_length: "encoded_packet p \<Longrightarrow> 7 \<le> length p"
  by (simp add: encoded_packet_def CCSDS_SPACE_PACKET_MIN_LEN_def CCSDS_SPACE_PACKET_PRIMARY_HDR_LEN_def)

lemma get_be16_drop_take: "n + 2 \<le> m \<Longrightarrow> m \<le> length p \<Longrightarrow>
    get_be16 (drop n (take m p)) = get_be16 (drop n p)"
  by (simp add: get_be16_def)

lemma encoded_packet_header:
  "encoded_packet p \<Longrightarrow> packet_total_len (take 6 p) = length p"
  using encoded_packet_length [of p] get_be16_drop_take [of 4 6 p]
  by (simp add: encoded_packet_def packet_total_len_def)

lemma vc_holds_idle_iff:
  "vc_holds vc cur ps \<Longrightarrow> packet_rem vc > 0 \<or> pending_len vc > 0 \<longleftrightarrow> cur \<noteq> [] \<or> ps \<noteq> []"
  using encoded_packet_length [of "hd ps"] by (cases ps) (auto simp: vc_holds_def)

definition vc_after :: "ccsds_tm_vc \<Rightarrow> nat \<Rightarrow> ccsds_tm_vc" where
  "vc_after vc k = vc\<lparr>pending := drop k (pending vc), pending_len := pending_len vc - k\<rparr>"

lemma vc_after_simps [simp]:
  "pending (vc_after vc k) = drop k (pending vc)"
  "pending_len (vc_after vc k) = pending_len vc - k"
  "packet_rem (vc_after vc k) = packet_rem vc" "vcfc (vc_after vc k) = vcfc vc"
  "route_mask (vc_after vc k) = route_mask vc"
  by (simp_all add: vc_after_def)

lemma vc_after_add: "vc_after (vc_after vc a) b = vc_after vc (a + b)"
  by (simp add: vc_after_def add.commute)

lemma pipe_contract_read:
  assumes "pipe_contract cap ops" "0 < n" "c \<noteq> []"
  shows "0 < pipe_read ops c n" "nat (pipe_read ops c n) \<le> n" "nat (pipe_read ops c n) \<le> length c"
proof -
  have "0 < pipe_read ops c n \<and> pipe_read ops c n \<le> int n \<and> pipe_read ops c n \<le> int (length c)"
    using assms by (simp add: pipe_contract_def)
  then show "0 < pipe_read ops c n" "nat (pipe_read ops c n) \<le> n"
    "nat (pipe_read ops c n) \<le> length c" by linarith+
qed

lemma pipe_contract_write:
  assumes "pipe_contract cap ops" "0 < pipe_write ops c d"
  shows "nat (pipe_write ops c d) \<le> length d" "length c + nat (pipe_write ops c d) \<le> cap"
proof -
  have "pipe_write ops c d \<le> int (length d) \<and> int (length c) + pipe_write ops c d \<le> int cap"
    using assms by (simp add: pipe_contract_def)
  then show "nat (pipe_write ops c d) \<le> length d" "length c + nat (pipe_write ops c d) \<le> cap"
    using assms(2) by linarith+
qed

lemma read_pending_loop_reads:
  assumes "pipe_contract cap ops" "r \<le> len" "len - r \<le> length (pending vc)"
  shows "read_pending_loop ops len r buf vc =
    (0, buf @ take (len - r) (pending vc), vc_after vc (len - r))"
  using assms
proof (induction ops len r buf vc rule: read_pending_loop.induct)
  case (1 ops len r buf vc)
  show ?case
  proof (cases "r < len")
    case True
    let ?n = "pipe_read ops (pending vc) (len - r)"
    have ne: "pending vc \<noteq> []" using 1 True by auto
    then have n: "0 < ?n" "nat ?n \<le> len - r" "nat ?n \<le> length (pending vc)"
      using pipe_contract_read [OF 1(2) _ ne, of "len - r"] True by auto
    let ?vc = "vc_after vc (nat ?n)"
    have step: "read_pending_loop ops len (r + nat ?n) (buf @ take (nat ?n) (pending vc)) ?vc =
        (0, (buf @ take (nat ?n) (pending vc)) @ take (len - (r + nat ?n)) (pending ?vc),
         vc_after ?vc (len - (r + nat ?n)))"
    proof (rule 1(1) [OF True refl, folded vc_after_def])
      show "\<not> ?n < 0" "?n \<noteq> 0" "r + nat ?n \<le> len" using n by simp_all
      show "len - (r + nat ?n) \<le> length (pending ?vc)"
        using diff_le_mono [OF 1(4), of "nat ?n"] by simp
    qed (fact 1(2))
    have split: "len - r = nat ?n + (len - (r + nat ?n))" using n by simp
    have data: "take (len - r) (pending vc) =
        take (nat ?n) (pending vc) @ take (len - (r + nat ?n)) (pending ?vc)"
      by (subst split) (simp add: take_add)
    have after: "vc_after ?vc (len - (r + nat ?n)) = vc_after vc (len - r)"
      by (simp only: vc_after_add flip: split)
    have unfold: "read_pending_loop ops len r buf vc =
        read_pending_loop ops len (r + nat ?n) (buf @ take (nat ?n) (pending vc)) ?vc"
      using True n(1) by (subst read_pending_loop.simps) (simp add: Let_def vc_after_def)
    show ?thesis unfolding unfold step after data by simp
  qed (use 1 in \<open>simp add: read_pending_loop.simps vc_after_def\<close>)
qed


lemma read_pending_bytes_reads:
  assumes "pipe_contract cap ops" "len \<le> length (pending vc)"
  shows "read_pending_bytes ops vc len = (0, take len (pending vc), vc_after vc len)"
  using read_pending_loop_reads [OF assms(1), of 0 len vc "[]"] assms(2)
  by (simp add: read_pending_bytes_def)

section \<open>The data field of a packet frame\<close>

definition first_start :: "nat \<Rightarrow> nat \<Rightarrow> octets list \<Rightarrow> u16" where
  "first_start data_len pos ps =
     (if ps \<noteq> [] \<and> pos + CCSDS_SPACE_PACKET_PRIMARY_HDR_LEN \<le> data_len then of_nat pos
      else CCSDS_TM_NO_FIRST_HEADER_POINTER)"

text \<open>
  What packing does to a queue: \<open>k\<close> octets move to the data field and the queue holds the rest;
  packing stops when the field is full, the queue is empty, or no packet header fits any more.
\<close>

definition packs ::
  "nat \<Rightarrow> nat \<Rightarrow> ccsds_tm_vc \<Rightarrow> octets \<Rightarrow> octets list \<Rightarrow> nat \<Rightarrow> ccsds_tm_vc \<Rightarrow> octets \<Rightarrow> octets list \<Rightarrow> bool"
  where
  "packs data_len used vc cur ps k vc' cur' ps' \<longleftrightarrow>
     vc' = vc\<lparr>pending := drop k (pending vc), pending_len := pending_len vc - k,
              packet_rem := length cur'\<rparr> \<and>
     vc_holds vc' cur' ps' \<and> cur' @ concat ps' = drop k (cur @ concat ps) \<and>
     k \<le> length (cur @ concat ps) \<and> used + k \<le> data_len \<and>
     (used + k = data_len \<or>
      cur' = [] \<and> (ps' = [] \<or> data_len < used + k + CCSDS_SPACE_PACKET_PRIMARY_HDR_LEN))"

lemma packs_step:
  assumes "packs data_len (used + m) (vc\<lparr>pending := drop m (pending vc),
      pending_len := pending_len vc - m, packet_rem := r\<rparr>) cur1 ps1 k vc' cur' ps'"
    and "cur1 @ concat ps1 = drop m (cur @ concat ps)" "m \<le> length (cur @ concat ps)"
  shows "packs data_len used vc cur ps (m + k) vc' cur' ps'"
proof -
  have "length (cur1 @ concat ps1) = length (cur @ concat ps) - m"
    unfolding assms(2) by simp
  moreover have "drop k (cur1 @ concat ps1) = drop (m + k) (cur @ concat ps)"
    unfolding assms(2) by (simp only: drop_drop add.commute)
  ultimately show ?thesis using assms(1,3) unfolding packs_def
    by (auto simp: add.assoc add.commute simp del: drop_append length_append)
qed

lemma vc_holds_continue:
  assumes "vc_holds vc cur ps"
  shows "vc_holds (vc\<lparr>pending := drop m (pending vc), pending_len := pending_len vc - m,
      packet_rem := length (drop m cur)\<rparr>) (drop m cur) ps \<or> length cur < m"
  using assms by (auto simp: vc_holds_def)

lemma vc_holds_start:
  assumes "vc_holds vc [] (p # ps)"
  shows "vc_holds (vc\<lparr>pending := drop 6 (pending vc), pending_len := pending_len vc - 6,
      packet_rem := packet_total_len (take 6 (pending vc)) - 6\<rparr>) (drop 6 p) ps"
    and "6 \<le> length (pending vc)"
proof -
  have p: "encoded_packet p" using assms by (simp add: vc_holds_def)
  then have l: "7 \<le> length p" by (rule encoded_packet_length)
  have "take 6 (pending vc) = take 6 p" using assms l by (simp add: vc_holds_def)
  with assms l p show "vc_holds (vc\<lparr>pending := drop 6 (pending vc), pending_len := pending_len vc - 6,
      packet_rem := packet_total_len (take 6 (pending vc)) - 6\<rparr>) (drop 6 p) ps"
    by (simp add: vc_holds_def encoded_packet_header)
  show "6 \<le> length (pending vc)" using assms l by (simp add: vc_holds_def)
qed

definition late_pointer :: "u16 \<Rightarrow> u16 \<Rightarrow> u16" where
  "late_pointer fhp start = (if fhp = CCSDS_TM_NO_FIRST_HEADER_POINTER then start else fhp)"

lemma pack_loop_stops:
  assumes "vc_holds vc cur ps" "used \<le> data_len"
    "used = data_len \<or> cur = [] \<and> (ps = [] \<or> data_len < used + CCSDS_SPACE_PACKET_PRIMARY_HDR_LEN)"
  shows "pack_loop ops data_len data used fhp vc = (0, data, used, fhp, vc) \<and>
    packs data_len used vc cur ps 0 vc cur ps \<and>
    late_pointer fhp (first_start data_len (used + length cur) ps) = fhp"
proof -
  have "packs data_len used vc cur ps 0 vc cur ps"
    using assms by (auto simp: packs_def vc_holds_def)
  moreover have "pack_loop ops data_len data used fhp vc = (0, data, used, fhp, vc)"
    using assms(2,3) vc_holds_idle_iff [OF assms(1)] assms(1)
    by (subst pack_loop.simps) (auto simp: vc_holds_def)
  moreover have "late_pointer fhp (first_start data_len (used + length cur) ps) = fhp"
    using assms(3) by (auto simp: late_pointer_def first_start_def CCSDS_SPACE_PACKET_PRIMARY_HDR_LEN_def)
  ultimately show ?thesis by simp
qed

lemma pack_loop_packs:
  assumes "pipe_contract cap ops" "vc_holds vc cur ps" "used \<le> data_len" "data_len \<le> 0x7fe"
  shows "\<exists>k vc' cur' ps'. packs data_len used vc cur ps k vc' cur' ps' \<and>
    pack_loop ops data_len data used fhp vc =
      (0, data @ take k (cur @ concat ps), used + k,
       late_pointer fhp (first_start data_len (used + length cur) ps), vc')"
  using assms(2,3)
proof (induction "data_len - used" arbitrary: used data fhp vc cur ps rule: less_induct)
  case less
  note contract = assms(1) and holds = less(2) and used = less(3)
  have pend: "pending vc = cur @ concat ps" "packet_rem vc = length cur"
    using holds by (simp_all add: vc_holds_def)
  consider (stop) "used = data_len \<or> cur = [] \<and>
        (ps = [] \<or> data_len < used + CCSDS_SPACE_PACKET_PRIMARY_HDR_LEN)"
    | (continue) "used < data_len" "cur \<noteq> []"
    | (start) p rest where "used + 6 \<le> data_len" "cur = []" "ps = p # rest"
    using used by (cases ps) (force simp: CCSDS_SPACE_PACKET_PRIMARY_HDR_LEN_def)+
  then show ?case
  proof cases
    case stop
    from pack_loop_stops [OF holds used stop] show ?thesis
      by (intro exI [of _ 0] exI [of _ vc] exI [of _ cur] exI [of _ ps]) simp
  next
    case continue
    define m where "m = min (length cur) (data_len - used)"
    let ?vc = "vc\<lparr>pending := drop m (pending vc), pending_len := pending_len vc - m,
      packet_rem := length (drop m cur)\<rparr>"
    let ?data = "data @ take m cur"
    have m: "0 < m" "used + m \<le> data_len" "m \<le> length cur" "m = length cur \<or> used + m = data_len"
      using continue by (auto simp: m_def)
    then have dec: "data_len - (used + m) < data_len - used" using continue by linarith
    have "vc_holds ?vc (drop m cur) ps" using vc_holds_continue [OF holds, of m] m by auto
    from less(1) [OF dec this m(2), of ?data fhp] obtain k vc' cur' ps' where
      p: "packs data_len (used + m) ?vc (drop m cur) ps k vc' cur' ps'" and
      l: "pack_loop ops data_len ?data (used + m) fhp ?vc =
        (0, ?data @ take k (drop m cur @ concat ps), used + m + k,
         late_pointer fhp (first_start data_len (used + m + length (drop m cur)) ps), vc')"
      by blast
    have "pack_loop ops data_len data used fhp vc = pack_loop ops data_len ?data (used + m) fhp ?vc"
      using continue read_pending_bytes_reads [OF contract, of m vc] pend m
      by (subst pack_loop.simps) (simp add: Let_def vc_after_def flip: m_def)
    moreover have "take (m + k) (cur @ concat ps) = take m cur @ take k (drop m cur @ concat ps)"
      using m take_add [of m k "cur @ concat ps"] by simp
    moreover have "first_start data_len (used + m + length (drop m cur)) ps =
        first_start data_len (used + length cur) ps"
      using m by (auto simp: first_start_def CCSDS_SPACE_PACKET_PRIMARY_HDR_LEN_def)
    ultimately show ?thesis
      using l packs_step [OF p] m
      by (intro exI [of _ "m + k"] exI [of _ vc'] exI [of _ cur'] exI [of _ ps']) (simp add: add.assoc)
  next
    case start
    let ?vc = "vc\<lparr>pending := drop 6 (pending vc), pending_len := pending_len vc - 6,
      packet_rem := packet_total_len (take 6 (pending vc)) - 6\<rparr>"
    let ?data = "data @ take 6 p" and ?fhp = "late_pointer fhp (of_nat used)"
    have s: "vc_holds ?vc (drop 6 p) rest" "6 \<le> length (pending vc)"
      using vc_holds_start [of vc p rest] holds start by auto
    have p6: "take 6 (pending vc) = take 6 p" "7 \<le> length p"
      using pend start holds encoded_packet_length [of p] by (auto simp: vc_holds_def)
    have dec: "data_len - (used + 6) < data_len - used" using start by linarith
    from less(1) [OF dec s(1) start(1), of ?data ?fhp] obtain k vc' cur' ps' where
      p: "packs data_len (used + 6) ?vc (drop 6 p) rest k vc' cur' ps'" and
      l: "pack_loop ops data_len ?data (used + 6) ?fhp ?vc =
        (0, ?data @ take k (drop 6 p @ concat rest), used + 6 + k,
         late_pointer ?fhp (first_start data_len (used + 6 + length (drop 6 p)) rest), vc')"
      by blast
    have "pending_len vc \<ge> 6" using holds s(2) by (simp add: vc_holds_def)
    then have "pack_loop ops data_len data used fhp vc = pack_loop ops data_len ?data (used + 6) ?fhp ?vc"
      using start read_pending_bytes_reads [OF contract s(2)] pend p6
      by (subst pack_loop.simps)
        (auto simp: Let_def vc_after_def CCSDS_SPACE_PACKET_PRIMARY_HDR_LEN_def late_pointer_def)
    moreover have "take (6 + k) (cur @ concat ps) = take 6 p @ take k (drop 6 p @ concat rest)"
      using start p6 take_add [of 6 k "cur @ concat ps"] by simp
    moreover have "(of_nat used :: u16) \<noteq> CCSDS_TM_NO_FIRST_HEADER_POINTER"
    proof -
      have "unat (of_nat used :: u16) = used" using start(1) assms(4) by (simp add: unat_of_nat)
      moreover have "unat CCSDS_TM_NO_FIRST_HEADER_POINTER = 0x7ff"
        by (simp add: CCSDS_TM_NO_FIRST_HEADER_POINTER_def)
      ultimately show ?thesis using start(1) assms(4) by auto
    qed
    then have "late_pointer ?fhp x = late_pointer fhp (first_start data_len (used + length cur) ps)" for x
      using start by (simp add: late_pointer_def first_start_def CCSDS_SPACE_PACKET_PRIMARY_HDR_LEN_def)
    moreover have "packs data_len used vc cur ps (6 + k) vc' cur' ps'"
    proof (rule packs_step)
      show "drop 6 p @ concat rest = drop 6 (cur @ concat ps)" "6 \<le> length (cur @ concat ps)"
        using start p6 by simp_all
    qed (fact p)
    ultimately show ?thesis
      using l
      by (intro exI [of _ "6 + k"] exI [of _ vc'] exI [of _ cur'] exI [of _ ps']) (simp add: add.assoc)
  qed
qed

section \<open>Whole frames\<close>

text \<open>
  The configuration is in its documented range (at least 32 octets of frame) and the data field is
  short enough for its offsets to be first header pointers.
\<close>

definition tm_config_ok :: "tm_config \<Rightarrow> bool" where
  "tm_config_ok cfg \<longleftrightarrow>
     tm_build_assert cfg \<and> 32 \<le> tm_max_frame_len cfg \<and> tm_data_len cfg \<le> 0x7fe"

lemma fill_idle_length [simp]: "length (fill_idle_space_packet n) = n"
  by (simp add: fill_idle_space_packet_def CCSDS_SPACE_PACKET_MIN_LEN_def
      CCSDS_SPACE_PACKET_PRIMARY_HDR_LEN_def) arith

lemma frame_len_split:
  "tm_build_assert cfg \<Longrightarrow> CCSDS_TM_FRAME_LEN cfg = 6 + tm_data_len cfg + 4 + CCSDS_TM_FECF_LEN cfg"
  by (simp add: tm_build_assert_def tm_data_len_def CCSDS_TM_PRIMARY_HDR_LEN_def CCSDS_TM_OCF_LEN_def)

lemma build_primary_header_length [simp]: "length (build_primary_header cfg tm vcid fhp) = 6"
  by (simp add: build_primary_header_def)

text \<open>The control field the frame carries: the provider's word, or zeros.\<close>

definition tm_ocf :: "('c, 's) clcw_call \<Rightarrow> ('r, 'c) tm_state \<Rightarrow> 's \<Rightarrow> octets" where
  "tm_ocf clcw_call tm s =
     (case clcw_provider tm of
        Some fn \<Rightarrow> (case clcw_call fn s of Inr clcw \<Rightarrow> put_be32 clcw | Inl err \<Rightarrow> replicate 4 0)
      | None \<Rightarrow> replicate 4 0)"

lemma tm_ocf_length [simp]: "length (tm_ocf clcw_call tm s) = 4"
  by (simp add: tm_ocf_def split: option.split sum.split)

lemma append_ocf_eq: "append_ocf clcw_call tm s body = body @ tm_ocf clcw_call tm s"
  by (simp add: append_ocf_def tm_ocf_def CCSDS_TM_OCF_LEN_def split: option.split sum.split)

lemma assemble_frame_eq:
  "assemble_frame cfg clcw_call tm s vcid fhp data =
     append_fecf cfg (build_primary_header cfg tm vcid fhp @ data @ tm_ocf clcw_call tm s)"
  by (simp add: assemble_frame_def append_ocf_eq)

lemma append_fecf_extends: "\<exists>tail. append_fecf cfg body = body @ tail"
  by (simp add: append_fecf_def)

lemma append_fecf_length: "length (append_fecf cfg body) = length body + CCSDS_TM_FECF_LEN cfg"
  by (simp add: append_fecf_def CCSDS_TM_FECF_LEN_def CCSDS_CRC16_LEN_def)

lemma append_fecf_check: "tm_fecf cfg \<Longrightarrow> ccsds_crc16_check (append_fecf cfg body)"
  using crc16_check_snoc2 [of body] by (simp add: append_fecf_def put_be16_def)

lemma assemble_frame_length:
  "tm_build_assert cfg \<Longrightarrow> length data = tm_data_len cfg \<Longrightarrow>
   length (assemble_frame cfg clcw_call tm s vcid fhp data) = CCSDS_TM_FRAME_LEN cfg"
  by (simp add: assemble_frame_eq append_fecf_length frame_len_split)

lemma code_transfer_frame_length:
  "length frame = CCSDS_TM_FRAME_LEN cfg \<Longrightarrow>
   length (code_transfer_frame cfg frame) = CCSDS_TM_CODED_FRAME_LEN cfg"
  by (simp add: code_transfer_frame_def CCSDS_TM_CODED_FRAME_LEN_def CCSDS_TM_ASM_LEN_def
      CCSDS_TM_ASM_def ccsds_rnd_apply_def ccsds_rs_encode_def CCSDS_RS_INTERLEAVED_PARITY_LEN_def
      CCSDS_RS_PARITY_LEN_def)

lemma tm_word0_fields:
  assumes "tm_scid cfg \<le> 0x3ff" "vcid \<le> CCSDS_TM_MAX_VC_ID"
  shows "drop_bit 14 (tm_word0 cfg vcid) = 0"
    "drop_bit 4 (tm_word0 cfg vcid) AND mask 10 = tm_scid cfg"
    "drop_bit 1 (tm_word0 cfg vcid) AND mask 3 = ucast vcid" "bit (tm_word0 cfg vcid) 0"
proof -
  have m: "(0x3ff :: u16) = mask 10" "(7 :: u8) = mask 3" "(1 :: u16) = mask 1"
    by (simp_all add: mask_eq_exp_minus_1)
  have "unat (tm_scid cfg) < 2 ^ 10" using assms(1) by (simp add: word_le_nat_alt)
  then have s: "tm_scid cfg AND mask 10 = tm_scid cfg" by (rule and_mask_id)
  have "unat vcid < 2 ^ 3"
    using assms(2) by (simp add: word_le_nat_alt CCSDS_TM_MAX_VC_ID_def)
  then have v: "vcid AND mask 3 = vcid" by (rule and_mask_id)
  have w: "tm_word0 cfg vcid =
      push_bit 4 (tm_scid cfg AND mask 10) OR push_bit 1 (ucast (vcid AND mask 3)) OR mask 1"
    by (simp only: tm_word0_def m)
  show "drop_bit 14 (tm_word0 cfg vcid) = 0"
    unfolding w by (rule bit_word_eqI, simp only: field_bits bit_0_eq bot_apply, force)
  have "drop_bit 4 (tm_word0 cfg vcid) AND mask 10 = tm_scid cfg AND mask 10"
    unfolding w by (rule bit_word_eqI, simp only: field_bits, force)
  then show "drop_bit 4 (tm_word0 cfg vcid) AND mask 10 = tm_scid cfg" by (simp only: s)
  have "drop_bit 1 (tm_word0 cfg vcid) AND mask 3 = ucast (vcid AND mask 3)"
    unfolding w by (rule bit_word_eqI, simp only: field_bits, force)
  then show "drop_bit 1 (tm_word0 cfg vcid) AND mask 3 = ucast vcid" by (simp only: v)
  show "bit (tm_word0 cfg vcid) 0" unfolding w by (simp only: field_bits, force)
qed

lemma tm_word2_fields:
  "drop_bit 11 (tm_word2 fhp) = 3" "tm_word2 fhp AND mask 11 = fhp AND mask 11"
proof -
  have m: "(0x7ff :: u16) = mask 11" by (simp add: mask_eq_exp_minus_1)
  have w: "tm_word2 fhp = push_bit 11 3 OR (fhp AND mask 11)"
    by (simp add: tm_word2_def m CCSDS_TM_SECONDARY_HEADER_FLAG_def CCSDS_TM_SYNC_FLAG_def
        CCSDS_TM_PACKET_ORDER_FLAG_def CCSDS_TM_SEGMENT_LENGTH_ID_def)
  have three: "(3 :: u16) = mask 2" by (simp add: mask_eq_exp_minus_1)
  show "drop_bit 11 (tm_word2 fhp) = 3"
    unfolding w three by (rule bit_word_eqI, simp only: field_bits, force)
  show "tm_word2 fhp AND mask 11 = fhp AND mask 11"
    unfolding w three by (rule bit_word_eqI, simp only: field_bits, force)
qed

definition data_pointer :: "nat \<Rightarrow> octets \<Rightarrow> octets list \<Rightarrow> u16" where
  "data_pointer n cur ps =
     (if ps \<noteq> [] \<and> length cur + 6 \<le> n \<or> ps = [] \<and> length cur + 7 \<le> n then of_nat (length cur)
      else CCSDS_TM_NO_FIRST_HEADER_POINTER)"

lemma holds_concat_length:
  "vc_holds vc cur ps \<Longrightarrow> ps \<noteq> [] \<Longrightarrow> 7 \<le> length (concat ps)"
  using encoded_packet_length [of "hd ps"] by (cases ps) (auto simp: vc_holds_def)

lemma packs_pointer:
  assumes "packs n 0 vc cur ps k vc' cur' ps'" "vc_holds vc cur ps" "n \<le> 0x7fe"
  shows "finish_data_field n data k (first_start n (length cur) ps) =
    (data @ fill_idle_space_packet (n - k), data_pointer n cur ps)"
proof -
  have len: "length cur' + length (concat ps') + k = length cur + length (concat ps)"
    and rest: "vc_holds vc' cur' ps'" and k: "k \<le> n"
    and stop: "k = n \<or> cur' = [] \<and> (ps' = [] \<or> n < k + 6)"
  proof -
    have "length (cur' @ concat ps') = length (drop k (cur @ concat ps))" "k \<le> length (cur @ concat ps)"
      using assms(1) by (simp_all add: packs_def)
    then show "length cur' + length (concat ps') + k = length cur + length (concat ps)"
      by (simp only: length_append length_drop)
  qed (use assms(1) in \<open>auto simp: packs_def CCSDS_SPACE_PACKET_PRIMARY_HDR_LEN_def\<close>)
  have c: "ps \<noteq> [] \<Longrightarrow> 7 \<le> length (concat ps)" "ps' \<noteq> [] \<Longrightarrow> 7 \<le> length (concat ps')"
    using holds_concat_length assms(2) rest by blast+
  have no: "(of_nat (length cur) :: u16) \<noteq> CCSDS_TM_NO_FIRST_HEADER_POINTER" if "length cur \<le> n"
  proof -
    have "unat (of_nat (length cur) :: u16) = length cur" using that assms(3) by (simp add: unat_of_nat)
    then show ?thesis using that assms(3) by (auto simp: CCSDS_TM_NO_FIRST_HEADER_POINTER_def)
  qed
  have fill0: "fill_idle_space_packet 0 = []"
    by (simp add: fill_idle_space_packet_def CCSDS_SPACE_PACKET_MIN_LEN_def)
  show ?thesis
  proof (cases "ps = []")
    case True
    then have "length cur + 7 \<le> n \<longleftrightarrow> k + 7 \<le> n" "length cur + 7 \<le> n \<Longrightarrow> k = length cur"
      using len stop c k by (cases ps'; fastforce)+
    then show ?thesis using True k fill0
      by (auto simp: finish_data_field_def first_start_def data_pointer_def
          CCSDS_SPACE_PACKET_MIN_LEN_def CCSDS_SPACE_PACKET_PRIMARY_HDR_LEN_def)
  next
    case False
    then have "\<not> length cur + 6 \<le> n \<Longrightarrow> n < k + 7"
      using len stop c k by (cases ps'; fastforce)
    then show ?thesis using False k fill0 no
      by (auto simp: finish_data_field_def first_start_def data_pointer_def
          CCSDS_SPACE_PACKET_MIN_LEN_def CCSDS_SPACE_PACKET_PRIMARY_HDR_LEN_def)
  qed
qed

definition tm_shape :: "('r, 'c) tm_state \<Rightarrow> bool" where
  "tm_shape tm \<longleftrightarrow> length (vcs tm) = CCSDS_TM_VC_COUNT \<and> length (routes tm) = CCSDS_TM_ROUTE_COUNT"

lemma vcid_index:
  "vcid \<le> CCSDS_TM_MAX_VC_ID \<Longrightarrow> tm_shape tm \<Longrightarrow> unat vcid < length (vcs tm)"
  by (simp add: tm_shape_def CCSDS_TM_VC_COUNT_def CCSDS_TM_MAX_VC_ID_def word_le_nat_alt)

lemma upd_vc_simps [simp]:
  "mcfc (upd_vc vcid f tm) = mcfc tm" "routes (upd_vc vcid f tm) = routes tm"
  "clcw_provider (upd_vc vcid f tm) = clcw_provider tm"
  "length (vcs (upd_vc vcid f tm)) = length (vcs tm)"
  "tm_shape (upd_vc vcid f tm) = tm_shape tm"
  "generator_running (upd_vc vcid f tm) = generator_running tm"
  by (simp_all add: upd_vc_def tm_shape_def)

lemma upd_vc_nth:
  "unat vcid < length (vcs tm) \<Longrightarrow>
   vcs (upd_vc vcid f tm) ! i = (if i = unat vcid then f (vcs tm ! i) else vcs tm ! i)"
  by (simp add: upd_vc_def nth_list_update)

lemma assemble_frame_upd:
  assumes "unat vcid < length (vcs tm)" "vcfc vc = vcfc (vcs tm ! unat vcid)"
  shows "assemble_frame cfg clcw_call (upd_vc vcid (\<lambda>_. vc) tm) s vcid fhp data =
    assemble_frame cfg clcw_call tm s vcid fhp data"
  using assms by (simp add: assemble_frame_eq build_primary_header_def tm_ocf_def upd_vc_nth)

lemma build_packet_frame_packs:
  assumes "tm_config_ok cfg" "pipe_contract cap ops" "vcid \<le> CCSDS_TM_MAX_VC_ID" "tm_shape tm"
    and "vc_holds (vcs tm ! unat vcid) cur ps"
  shows "\<exists>k vc' cur' ps'.
    packs (tm_data_len cfg) 0 (vcs tm ! unat vcid) cur ps k vc' cur' ps' \<and>
    build_packet_transfer_frame cfg ops clcw_call vcid tm s =
      (Inr (assemble_frame cfg clcw_call tm s vcid (data_pointer (tm_data_len cfg) cur ps)
              (take k (cur @ concat ps) @ fill_idle_space_packet (tm_data_len cfg - k))),
       increment_frame_counters vcid (upd_vc vcid (\<lambda>_. vc') tm))"
proof -
  let ?n = "tm_data_len cfg"
  have n: "?n \<le> 0x7fe" using assms(1) by (simp add: tm_config_ok_def)
  obtain k vc' cur' ps' where p: "packs ?n 0 (vcs tm ! unat vcid) cur ps k vc' cur' ps'"
    and l: "pack_loop ops ?n [] 0 CCSDS_TM_NO_FIRST_HEADER_POINTER (vcs tm ! unat vcid) =
      (0, [] @ take k (cur @ concat ps), 0 + k,
       late_pointer CCSDS_TM_NO_FIRST_HEADER_POINTER (first_start ?n (0 + length cur) ps), vc')"
    using pack_loop_packs [OF assms(2,5), of 0 ?n "[]" CCSDS_TM_NO_FIRST_HEADER_POINTER] n by auto
  have v: "vcfc vc' = vcfc (vcs tm ! unat vcid)" using p by (simp add: packs_def)
  have "finish_data_field ?n (take k (cur @ concat ps)) k (first_start ?n (length cur) ps) =
      (take k (cur @ concat ps) @ fill_idle_space_packet (?n - k), data_pointer ?n cur ps)"
    by (rule packs_pointer [OF p assms(5) n])
  then have "build_packet_transfer_frame cfg ops clcw_call vcid tm s =
      (Inr (assemble_frame cfg clcw_call tm s vcid (data_pointer ?n cur ps)
              (take k (cur @ concat ps) @ fill_idle_space_packet (?n - k))),
       increment_frame_counters vcid (upd_vc vcid (\<lambda>_. vc') tm))"
    using assemble_frame_upd [OF vcid_index [OF assms(3,4)] v]
    by (simp add: build_packet_transfer_frame_def l late_pointer_def Let_def)
  with p show ?thesis by blast
qed

section \<open>One generator cycle\<close>

text \<open>
  The abstract state of the generator: for each virtual channel the rest of the packet in progress
  and the packets behind it.
\<close>

type_synonym vc_queue = "octets \<times> octets list"

definition queue_octets :: "vc_queue \<Rightarrow> octets" where
  "queue_octets q = fst q @ concat (snd q)"

definition tm_holds :: "('r, 'c) tm_state \<Rightarrow> vc_queue list \<Rightarrow> bool" where
  "tm_holds tm qs \<longleftrightarrow> tm_shape tm \<and> list_all2 (\<lambda>vc q. vc_holds vc (fst q) (snd q)) (vcs tm) qs"

lemma tm_holds_length: "tm_holds tm qs \<Longrightarrow> length qs = 8"
  by (auto simp: tm_holds_def tm_shape_def CCSDS_TM_VC_COUNT_def dest: list_all2_lengthD)

lemma tm_holds_nth:
  "tm_holds tm qs \<Longrightarrow> i < 8 \<Longrightarrow> vc_holds (vcs tm ! i) (fst (qs ! i)) (snd (qs ! i))"
  by (auto simp: tm_holds_def tm_shape_def CCSDS_TM_VC_COUNT_def list_all2_conv_all_nth)

lemma queue_octets_empty_iff:
  "vc_holds vc (fst q) (snd q) \<Longrightarrow>
   packet_rem vc > 0 \<or> pending_len vc > 0 \<longleftrightarrow> queue_octets q \<noteq> []"
proof -
  assume h: "vc_holds vc (fst q) (snd q)"
  have "concat (snd q) = [] \<longleftrightarrow> snd q = []"
    using holds_concat_length [OF h] by (metis concat.simps(1) list.size(3) not_numeral_le_zero)
  then show ?thesis using vc_holds_idle_iff [OF h] by (simp add: queue_octets_def del: concat_eq_Nil_conv)
qed

lemma select_vc_loop_spec:
  "case select_vc_loop tm vs of
     None \<Rightarrow> \<forall>v\<in>set vs. \<not> vc_has_pending_bytes tm v
   | Some v \<Rightarrow> \<exists>pre post. vs = pre @ v # post \<and> vc_has_pending_bytes tm v \<and>
       (\<forall>u\<in>set pre. \<not> vc_has_pending_bytes tm u)"
proof (induction vs)
  case (Cons i vs)
  show ?case
  proof (cases "vc_has_pending_bytes tm i")
    case True
    then have "\<exists>pre post. i # vs = pre @ i # post \<and> vc_has_pending_bytes tm i \<and>
        (\<forall>u\<in>set pre. \<not> vc_has_pending_bytes tm u)"
      by (intro exI [of _ "[]"] exI [of _ vs]) simp
    with True show ?thesis by simp
  next
    case False
    with Cons.IH show ?thesis
      by (auto split: option.splits) (metis append_Cons set_ConsD)
  qed
qed simp

lemma below_8: "unat v < 8 \<Longrightarrow> v \<in> {0, 1, 2, 3, 4, 5, 6, 7}" for v :: u8
proof -
  assume "unat v < 8"
  then have "unat v \<in> {0, 1, 2, 3, 4, 5, 6, 7}" by auto
  moreover have "unat v = n \<Longrightarrow> v = of_nat n" for n by auto
  from this [of 0] this [of 1] this [of 2] this [of 3] this [of 4] this [of 5] this [of 6] this [of 7]
  show ?thesis using calculation by auto
qed

lemma select_active_spec:
  assumes "tm_holds tm qs"
  shows "case generator_select_active_vc tm of
     None \<Rightarrow> \<forall>i<8. queue_octets (qs ! i) = []
   | Some v \<Rightarrow> v \<le> CCSDS_TM_MAX_VC_ID \<and> queue_octets (qs ! unat v) \<noteq> [] \<and>
       (\<forall>i<unat v. queue_octets (qs ! i) = [])"
proof -
  have pend: "vc_has_pending_bytes tm v \<longleftrightarrow> queue_octets (qs ! unat v) \<noteq> []" if "unat v < 8" for v
    using queue_octets_empty_iff [OF tm_holds_nth [OF assms that]]
    by (auto simp: vc_has_pending_bytes_def)
  have idx: "\<exists>v :: u8. unat v = i \<and> unat v < 8" if "i < 8" for i
    using that by (intro exI [of _ "of_nat i"]) (simp add: unat_of_nat)
  show ?thesis
  proof (cases "generator_select_active_vc tm")
    case None
    then have "\<not> vc_has_pending_bytes tm v" if "unat v < 8" for v
      using select_vc_loop_spec [where tm = tm and vs = "[0, 1, 2, 3, 4, 5, 6, 7]"] below_8 [OF that]
      by (auto simp: generator_select_active_vc_def)
    with None pend idx show ?thesis by auto
  next
    case (Some v)
    then obtain pre post where l: "[0, 1, 2, 3, 4, 5, 6, 7] = pre @ v # post"
      and v: "vc_has_pending_bytes tm v" and u: "\<forall>u\<in>set pre. \<not> vc_has_pending_bytes tm u"
      using select_vc_loop_spec [where tm = tm and vs = "[0, 1, 2, 3, 4, 5, 6, 7]"]
      by (auto simp: generator_select_active_vc_def)
    have "sorted_wrt (\<lambda>a b. unat a < unat b) ([0, 1, 2, 3, 4, 5, 6, 7] :: u8 list)" by simp
    then have post: "\<forall>b\<in>set post. unat v < unat b" unfolding l by (simp add: sorted_wrt_append)
    have "v \<in> set [0, 1, 2, 3, 4, 5, 6, 7]" unfolding l by simp
    then have v8: "unat v < 8" "v \<le> CCSDS_TM_MAX_VC_ID"
      by (auto simp: CCSDS_TM_MAX_VC_ID_def)
    have "queue_octets (qs ! i) = []" if i: "i < unat v" for i
    proof -
      obtain w :: u8 where w: "unat w = i" "unat w < 8" using idx [of i] less_trans [OF i v8(1)] by blast
      then have "w \<in> set (pre @ v # post)" using below_8 [of w] unfolding l [symmetric] by simp
      then have "w \<in> set pre" using post w i by auto
      with u pend w show ?thesis by auto
    qed
    with Some v v8 pend show ?thesis by auto
  qed
qed

lemma increment_simps:
  assumes "unat vcid < length (vcs tm)"
  shows "mcfc (increment_frame_counters vcid tm) = mcfc tm + 1"
    "vcfc (vcs (increment_frame_counters vcid tm) ! unat vcid) = vcfc (vcs tm ! unat vcid) + 1"
  using assms by (simp_all add: increment_frame_counters_def upd_vc_nth)

lemma vc_holds_vcfc [simp]: "vc_holds (vc\<lparr>vcfc := c\<rparr>) cur ps = vc_holds vc cur ps"
  by (simp add: vc_holds_def)

lemma tm_holds_fields [simp]:
  "tm_holds (tm\<lparr>generator_last_cycle_active := a\<rparr>) qs = tm_holds tm qs"
  "tm_holds (tm\<lparr>generator_last_vcid := v\<rparr>) qs = tm_holds tm qs"
  "tm_holds (tm\<lparr>mcfc := m\<rparr>) qs = tm_holds tm qs"
  by (simp_all add: tm_holds_def tm_shape_def)

lemma tm_holds_upd:
  assumes "tm_holds tm qs" "unat vcid < 8" "vc_holds (f (vcs tm ! unat vcid)) cur ps"
  shows "tm_holds (upd_vc vcid f tm) (qs[unat vcid := (cur, ps)])"
proof -
  have "list_all2 (\<lambda>vc q. vc_holds vc (fst q) (snd q)) ((vcs tm)[unat vcid := f (vcs tm ! unat vcid)])
      (qs[unat vcid := (cur, ps)])"
    using assms by (intro list_all2_update_cong) (auto simp: tm_holds_def)
  then show ?thesis using assms(1) by (simp add: tm_holds_def) (simp add: upd_vc_def)
qed

lemma tm_holds_increment:
  assumes "tm_holds tm qs" "unat vcid < 8"
  shows "tm_holds (increment_frame_counters vcid tm) qs"
proof -
  have "tm_holds (upd_vc vcid (\<lambda>vc. vc\<lparr>vcfc := vcfc vc + 1\<rparr>) (tm\<lparr>mcfc := mcfc tm + 1\<rparr>))
      (qs[unat vcid := (fst (qs ! unat vcid), snd (qs ! unat vcid))])"
    by (rule tm_holds_upd) (use assms tm_holds_nth [OF assms] in simp_all)
  then show ?thesis by (simp add: increment_frame_counters_def)
qed

lemma packs_progress:
  assumes "packs n 0 vc cur ps k vc' cur' ps'" "vc_holds vc cur ps" "cur @ concat ps \<noteq> []" "6 \<le> n"
  shows "0 < k"
proof (rule ccontr)
  assume "\<not> 0 < k"
  then have "cur' = []" "cur' @ concat ps' = cur @ concat ps" "ps' = [] \<or> n < 6"
    using assms(1,4) by (auto simp: packs_def CCSDS_SPACE_PACKET_PRIMARY_HDR_LEN_def)
  with assms(3,4) show False by auto
qed

lemma tm_config_data_len: "tm_config_ok cfg \<Longrightarrow> 6 \<le> tm_data_len cfg"
  by (simp add: tm_config_ok_def tm_build_assert_def tm_data_len_def CCSDS_TM_FRAME_LEN_def
      CCSDS_TM_PRIMARY_HDR_LEN_def CCSDS_TM_OCF_LEN_def CCSDS_TM_FECF_LEN_def CCSDS_CRC16_LEN_def
      CCSDS_RS_INTERLEAVED_DATA_LEN_def CCSDS_RS_DATA_LEN_def CCSDS_RS_INTERLEAVE_DEPTH_def)
    arith

lemma assemble_frame_data:
  "take k (drop 6 (assemble_frame cfg clcw_call tm s vcid fhp data)) = take k data"
  if "k \<le> length data"
  using that by (simp add: assemble_frame_eq append_fecf_def)

text \<open>
  One cycle on the abstract queues: channel \<open>v\<close> loses its first \<open>k\<close> octets to \<open>frame\<close>.
\<close>

definition cycle_serves ::
  "('r, 'c, 's) tm_env \<Rightarrow> ('r, 'c) tm_state \<Rightarrow> 's \<Rightarrow> vc_queue list \<Rightarrow> bool \<Rightarrow> ('r, 'c) tm_state \<Rightarrow> 's
     \<Rightarrow> u8 \<Rightarrow> nat \<Rightarrow> octets \<Rightarrow> vc_queue list \<Rightarrow> bool" where
  "cycle_serves env tm s qs active tm' s' v k frame qs' \<longleftrightarrow>
     v \<le> CCSDS_TM_MAX_VC_ID \<and> tm_holds tm' qs' \<and>
     (\<forall>i. i \<noteq> unat v \<longrightarrow> qs' ! i = qs ! i) \<and>
     queue_octets (qs' ! unat v) = drop k (queue_octets (qs ! unat v)) \<and>
     take k (drop 6 frame) = take k (queue_octets (qs ! unat v)) \<and>
     k \<le> length (queue_octets (qs ! unat v)) \<and>
     length frame = CCSDS_TM_FRAME_LEN (env_cfg env) \<and>
     mcfc tm' = mcfc tm + 1 \<and> vcfc (vcs tm' ! unat v) = vcfc (vcs tm ! unat v) + 1 \<and>
     s' = route_frame (env_route env) tm' v (code_transfer_frame (env_cfg env) frame) s \<and>
     (if active then 0 < k \<and> (\<forall>i<unat v. queue_octets (qs ! i) = [])
      else v = CCSDS_TM_IDLE_VC_ID \<and> qs' = qs \<and> (\<forall>i<8. queue_octets (qs ! i) = []))"

lemma generator_cycle_serves:
  assumes "tm_config_ok (env_cfg env)" "pipe_contract cap (env_ops env)" "tm_holds tm qs"
  shows "case generator_cycle env (tm, s) of (active, tm', s') \<Rightarrow>
    \<exists>v k frame qs'. cycle_serves env tm s qs active tm' s' v k frame qs'"
proof (cases "generator_select_active_vc tm")
  case None
  have idle: "unat CCSDS_TM_IDLE_VC_ID = 7"
    by (simp add: CCSDS_TM_IDLE_VC_ID_def CCSDS_TM_MAX_VC_ID_def)
  have shape: "unat CCSDS_TM_IDLE_VC_ID < length (vcs tm)"
    using assms(3) idle by (simp add: tm_holds_def tm_shape_def CCSDS_TM_VC_COUNT_def)
  have empty: "\<forall>i<8. queue_octets (qs ! i) = []" using select_active_spec [OF assms(3)] None by simp
  let ?tm = "tm\<lparr>generator_last_cycle_active := False, generator_last_vcid := CCSDS_TM_IDLE_VC_ID\<rparr>"
  let ?frame = "fst (build_idle_transfer_frame (env_cfg env) (env_clcw env) CCSDS_TM_IDLE_VC_ID ?tm s)"
  let ?tm' = "increment_frame_counters CCSDS_TM_IDLE_VC_ID ?tm"
  have "tm_holds ?tm' qs" using tm_holds_increment [of ?tm qs CCSDS_TM_IDLE_VC_ID] assms(3) idle by simp
  then have "cycle_serves env tm s qs False ?tm'
      (route_frame (env_route env) ?tm' CCSDS_TM_IDLE_VC_ID (code_transfer_frame (env_cfg env) ?frame) s)
      CCSDS_TM_IDLE_VC_ID 0 ?frame qs"
    using empty increment_simps [of CCSDS_TM_IDLE_VC_ID ?tm] shape assms(1)
    by (simp add: cycle_serves_def build_idle_transfer_frame_def assemble_frame_length tm_config_ok_def
        idle CCSDS_TM_IDLE_VC_ID_def)
  moreover have "generator_cycle env (tm, s) = (False, ?tm',
      route_frame (env_route env) ?tm' CCSDS_TM_IDLE_VC_ID (code_transfer_frame (env_cfg env) ?frame) s)"
    using None by (simp add: generator_cycle_def build_idle_transfer_frame_def Let_def)
  ultimately show ?thesis by auto
next
  case (Some v)
  let ?n = "tm_data_len (env_cfg env)"
  have v: "v \<le> CCSDS_TM_MAX_VC_ID" "queue_octets (qs ! unat v) \<noteq> []"
    "\<forall>i<unat v. queue_octets (qs ! i) = []"
    using select_active_spec [OF assms(3)] Some by auto
  then have v8: "unat v < 8" by (simp add: CCSDS_TM_MAX_VC_ID_def word_le_nat_alt)
  let ?tm = "tm\<lparr>generator_last_cycle_active := True, generator_last_vcid := v\<rparr>"
  have holds: "tm_holds ?tm qs" and shape: "tm_shape ?tm" and len: "unat v < length (vcs ?tm)"
    using assms(3) v8 by (simp_all add: tm_holds_def tm_shape_def CCSDS_TM_VC_COUNT_def)
  note q = tm_holds_nth [OF holds v8]
  obtain k vc' cur' ps' where
    p: "packs ?n 0 (vcs ?tm ! unat v) (fst (qs ! unat v)) (snd (qs ! unat v)) k vc' cur' ps'" and
    b: "build_packet_transfer_frame (env_cfg env) (env_ops env) (env_clcw env) v ?tm s =
      (Inr (assemble_frame (env_cfg env) (env_clcw env) ?tm s v
              (data_pointer ?n (fst (qs ! unat v)) (snd (qs ! unat v)))
              (take k (queue_octets (qs ! unat v)) @ fill_idle_space_packet (?n - k))),
       increment_frame_counters v (upd_vc v (\<lambda>_. vc') ?tm))"
    using build_packet_frame_packs [OF assms(1,2) v(1) shape q, of "env_clcw env" s]
    by (auto simp: queue_octets_def)
  let ?tm' = "increment_frame_counters v (upd_vc v (\<lambda>_. vc') ?tm)"
  let ?qs = "qs[unat v := (cur', ps')]"
  have k: "k \<le> length (queue_octets (qs ! unat v))" "k \<le> ?n" "0 < k"
    "queue_octets (cur', ps') = drop k (queue_octets (qs ! unat v))" "vcfc vc' = vcfc (vcs tm ! unat v)"
    using p packs_progress [OF p q] v(2) tm_config_data_len [OF assms(1)]
    by (simp_all add: packs_def queue_octets_def)
  have "tm_holds ?tm' ?qs"
    using p unfolding packs_def by (intro tm_holds_increment tm_holds_upd holds v8) blast
  moreover have "?qs ! unat v = (cur', ps')" using tm_holds_length [OF holds] v8 by simp
  ultimately have "\<exists>frame. fst (build_packet_transfer_frame (env_cfg env) (env_ops env) (env_clcw env) v ?tm s) = Inr frame \<and>
      cycle_serves env tm s qs True ?tm'
        (route_frame (env_route env) ?tm' v (code_transfer_frame (env_cfg env) frame) s) v k frame ?qs"
    using increment_simps [of v "upd_vc v (\<lambda>_. vc') ?tm"] len k v assms(1)
    by (simp add: b cycle_serves_def assemble_frame_length tm_config_ok_def assemble_frame_data upd_vc_nth)
  then show ?thesis
    using Some b by (auto simp: generator_cycle_def Let_def)
qed

section \<open>Runs of the generator\<close>

definition generator_next ::
  "('r, 'c, 's) tm_env \<Rightarrow> ('r, 'c) tm_state \<times> 's \<Rightarrow> ('r, 'c) tm_state \<times> 's" where
  "generator_next env x = snd (generator_cycle env x)"

definition total_queued :: "vc_queue list \<Rightarrow> nat" where
  "total_queued qs = sum_list (map (length \<circ> queue_octets) qs)"

lemma sum_list_less_one:
  fixes xs ys :: "nat list"
  assumes "length xs = length ys" "i < length xs" "ys ! i < xs ! i"
    and "\<forall>j<length xs. j \<noteq> i \<longrightarrow> ys ! j = xs ! j"
  shows "sum_list ys < sum_list xs"
proof -
  have "xs = take i xs @ xs ! i # drop (Suc i) xs" "ys = take i ys @ ys ! i # drop (Suc i) ys"
    using assms(1,2) by (simp_all add: id_take_nth_drop [symmetric])
  moreover have "take i ys = take i xs" "drop (Suc i) ys = drop (Suc i) xs"
    using assms by (auto intro!: nth_equalityI)
  ultimately show ?thesis
    using assms(3) by (metis add_less_cancel_left add_less_cancel_right sum_list.Cons sum_list_append)
qed

lemma total_queued_zero: "total_queued qs = 0 \<Longrightarrow> i < length qs \<Longrightarrow> queue_octets (qs ! i) = []"
  by (auto simp: total_queued_def)

lemma cycle_serves_total:
  assumes "cycle_serves env tm s qs True tm' s' v k frame qs'" "tm_holds tm qs"
  shows "total_queued qs' < total_queued qs"
proof -
  have len: "length qs = 8" "length qs' = 8"
    using assms tm_holds_length by (auto simp: cycle_serves_def)
  have v: "unat v < 8"
    using assms(1) by (simp add: cycle_serves_def CCSDS_TM_MAX_VC_ID_def word_le_nat_alt)
  have "length (queue_octets (qs' ! unat v)) < length (queue_octets (qs ! unat v))"
    using assms(1) by (cases "queue_octets (qs ! unat v)") (auto simp: cycle_serves_def)
  moreover have "qs' ! j = qs ! j" if "j \<noteq> unat v" for j
    using assms(1) that by (simp add: cycle_serves_def)
  ultimately show ?thesis
    unfolding total_queued_def
    by (intro sum_list_less_one [of _ _ "unat v"]) (simp_all add: len v)
qed

lemma generator_next_holds:
  assumes "tm_config_ok (env_cfg env)" "pipe_contract cap (env_ops env)" "tm_holds (fst x) qs"
  shows "\<exists>qs'. tm_holds (fst (generator_next env x)) qs' \<and> total_queued qs' \<le> total_queued qs - 1"
proof -
  obtain tm s where x: "x = (tm, s)" by (cases x)
  obtain active tm' s' where c: "generator_cycle env (tm, s) = (active, tm', s')" by (cases rule: prod_cases3)
  then obtain v k frame qs' where serves: "cycle_serves env tm s qs active tm' s' v k frame qs'"
    using generator_cycle_serves [OF assms(1,2), of tm qs s] assms(3) x by auto
  then have "tm_holds tm' qs'" by (simp add: cycle_serves_def)
  moreover have "total_queued qs' \<le> total_queued qs - 1"
  proof (cases active)
    case True
    then show ?thesis using cycle_serves_total serves assms(3) x by fastforce
  next
    case False
    then have "qs' = qs" "\<forall>i<8. queue_octets (qs ! i) = []"
      using serves by (simp_all add: cycle_serves_def)
    moreover have "length qs = 8" using tm_holds_length assms(3) x by simp
    ultimately have "total_queued qs' = 0"
      unfolding total_queued_def by (auto simp: sum_list_eq_0_iff in_set_conv_nth) (metis)
    then show ?thesis by simp
  qed
  ultimately show ?thesis by (auto simp: x generator_next_def c)
qed

lemma generator_run_holds:
  assumes "tm_config_ok (env_cfg env)" "pipe_contract cap (env_ops env)" "tm_holds (fst x) qs"
  shows "\<exists>qs'. tm_holds (fst ((generator_next env ^^ n) x)) qs' \<and> total_queued qs' \<le> total_queued qs - n"
proof (induction n)
  case 0
  show ?case using assms(3) by auto
next
  case (Suc n)
  then obtain qs1 where q: "tm_holds (fst ((generator_next env ^^ n) x)) qs1"
    "total_queued qs1 \<le> total_queued qs - n" by blast
  with generator_next_holds [OF assms(1,2) q(1)] show ?case by fastforce
qed

section \<open>Admission of a packet\<close>

definition vc_appended :: "octets \<Rightarrow> ccsds_tm_vc \<Rightarrow> ccsds_tm_vc" where
  "vc_appended bytes vc =
     vc\<lparr>pending := pending vc @ bytes, pending_len := pending_len vc + length bytes\<rparr>"

lemma vc_appended_append: "vc_appended b (vc_appended a vc) = vc_appended (a @ b) vc"
  by (simp add: vc_appended_def)

lemma write_loop_writes:
  assumes "pipe_contract cap ops" "written \<le> length packet"
  shows "\<exists>k ret. write_loop ops packet written vc = (ret, vc_appended (take k (drop written packet)) vc) \<and>
    (if ret = 0 then written + k = length packet else written + k < length packet)"
  using assms
proof (induction ops packet written vc rule: write_loop.induct)
  case (1 ops packet written vc)
  show ?case
  proof (cases "written < length packet")
    case False
    then show ?thesis using 1(3)
      by (intro exI [of _ 0] exI [of _ "0 :: int"]) (simp add: write_loop.simps vc_appended_def)
  next
    case True
    let ?r = "pipe_write ops (pending vc) (drop written packet)"
    show ?thesis
    proof (cases "0 < ?r")
      case False
      define ret where "ret = (if ?r < 0 then ?r else - EIO)"
      have "write_loop ops packet written vc = (ret, vc_appended (take 0 (drop written packet)) vc)" "ret \<noteq> 0"
        using True False by (subst write_loop.simps) (auto simp: vc_appended_def ret_def errno_defs Let_def)
      with True show ?thesis by (intro exI [of _ 0] exI [of _ ret]) simp
    next
      case r: True
      define m where "m = nat ?r"
      have m: "0 < m" "written + m \<le> length packet"
        using pipe_contract_write [OF 1(2) r] r True by (auto simp: m_def)
      let ?vc = "vc_appended (take m (drop written packet)) vc"
      have vc: "vc\<lparr>pending := pending vc @ take m (drop written packet), pending_len := pending_len vc + m\<rparr> = ?vc"
        using m by (simp add: vc_appended_def)
      have "\<exists>k ret. write_loop ops packet (written + m) ?vc =
          (ret, vc_appended (take k (drop (written + m) packet)) ?vc) \<and>
          (if ret = 0 then written + m + k = length packet else written + m + k < length packet)"
      proof (rule 1(1) [OF True refl _ _ 1(2), folded m_def, unfolded vc])
        show "\<not> ?r < 0" "?r \<noteq> 0" "written + m \<le> length packet" using r m by simp_all
      qed
      then obtain k ret where l: "write_loop ops packet (written + m) ?vc =
          (ret, vc_appended (take k (drop (written + m) packet)) ?vc)"
        and k: "if ret = 0 then written + m + k = length packet else written + m + k < length packet"
        by blast
      have "write_loop ops packet written vc = write_loop ops packet (written + m) ?vc"
        using True r vc by (subst write_loop.simps) (simp add: Let_def m_def)
      moreover have "vc_appended (take k (drop (written + m) packet)) ?vc =
          vc_appended (take (m + k) (drop written packet)) vc"
        unfolding vc_appended_append by (simp only: take_add drop_drop add.commute [of m written])
      ultimately show ?thesis using l k unfolding add.assoc [of written m k]
        by (intro exI [of _ "m + k"] exI [of _ ret]) simp
    qed
  qed
qed

lemma vc_holds_appended:
  "vc_holds vc cur ps \<Longrightarrow> encoded_packet packet \<Longrightarrow> vc_holds (vc_appended packet vc) cur (ps @ [packet])"
  by (auto simp: vc_holds_def vc_appended_def)

lemma upd_vc_const:
  "upd_vc vcid (\<lambda>_. f (vcs tm ! unat vcid)) tm = upd_vc vcid f tm"
  by (simp add: upd_vc_def)

lemma upd_vc_id:
  "unat vcid < length (vcs tm) \<Longrightarrow> upd_vc vcid (vc_appended []) tm = tm"
  by (simp add: upd_vc_def vc_appended_def)

section \<open>Properties\<close>

text \<open>A generator with 32-octet frames whose one route records the frames it is given.\<close>

definition demo_cfg :: tm_config where
  "demo_cfg = \<lparr>tm_scid = 0x7b, tm_rs = False, tm_fecf = True, tm_rnd = False, tm_max_frame_len = 32,
     tm_queue_depth = 64, tm_max_packet_len = 64\<rparr>"

definition demo_env :: "(nat, unit, octets list) tm_env" where
  "demo_env = \<lparr>env_cfg = demo_cfg, env_ops = greedy_pipe 64, env_clcw = (\<lambda>_ _. Inl (- EIO)),
     env_route = (\<lambda>_ _ frame sent. sent @ [frame])\<rparr>"

definition demo_packet :: octets where
  "demo_packet = [0x08, 0x05, 0xc0, 0x01, 0x00, 0x01, 0xaa, 0xbb]"

definition demo_vcs :: "ccsds_tm_vc list" where
  "demo_vcs = cleared_vc # cleared_vc\<lparr>pending := demo_packet, pending_len := 8, route_mask := 1\<rparr> #
     replicate 6 cleared_vc"

definition demo_tm :: "(nat, unit) tm_state" where
  "demo_tm = \<lparr>vcs = demo_vcs, routes = Some 0 # replicate 31 None, clcw_provider = None,
     generator_work = None, generator_active_delay = 1, generator_idle_delay = 10, mcfc = 0,
     generator_last_vcid = 7, generator_running = True, generator_last_cycle_active = False,
     initialized = True\<rparr>"

definition demo_queues :: "vc_queue list" where
  "demo_queues = ([], []) # ([], [demo_packet]) # replicate 6 ([], [])"

lemma demo_packet_encoded: "encoded_packet demo_packet"
  by (simp add: encoded_packet_def demo_packet_def packet_total_len_def get_be16_def
      CCSDS_SPACE_PACKET_MIN_LEN_def CCSDS_SPACE_PACKET_PRIMARY_HDR_LEN_def)

lemma demo_config:
  "tm_config_ok (env_cfg demo_env)" "pipe_contract 64 (env_ops demo_env)" "tm_config_ok demo_cfg"
  using greedy_pipe_contract [of 64]
  by (simp_all add: demo_env_def demo_cfg_def tm_config_ok_def tm_build_assert_def tm_data_len_def
      CCSDS_TM_FRAME_LEN_def CCSDS_TM_PRIMARY_HDR_LEN_def CCSDS_TM_OCF_LEN_def CCSDS_TM_FECF_LEN_def
      CCSDS_CRC16_LEN_def)

lemma demo_holds: "tm_holds demo_tm demo_queues" "tm_shape demo_tm"
  using demo_packet_encoded
  by (simp_all add: tm_holds_def tm_shape_def demo_tm_def demo_vcs_def demo_queues_def
      CCSDS_TM_VC_COUNT_def CCSDS_TM_ROUTE_COUNT_def vc_holds_def cleared_vc_def numeral_eq_Suc)
    (simp add: demo_packet_def)

text \<open>
  A transfer frame of a valid build is exactly the configured number of octets: version 0, the
  spacecraft and channel identifiers and the control-field flag in the first word, the two frame
  counters, the segment length identifier and first header pointer in the third word, then the data
  field, the provider's control word or zeros, and, when configured, an error control field under
  which the frame passes the CRC check; the coded frame has the configured coded length and starts
  with the sync marker.
\<close>

theorem tm_frame_layout:
  assumes "tm_build_assert cfg" "vcid \<le> CCSDS_TM_MAX_VC_ID" "length data = tm_data_len cfg"
    and frame_def: "frame = assemble_frame cfg clcw_call tm s vcid fhp data"
  shows "length frame = CCSDS_TM_FRAME_LEN cfg \<and>
    drop_bit 14 (get_be16 frame) = 0 \<and>
    drop_bit 4 (get_be16 frame) AND mask 10 = tm_scid cfg \<and>
    drop_bit 1 (get_be16 frame) AND mask 3 = ucast vcid \<and> bit (get_be16 frame) 0 \<and>
    frame ! 2 = mcfc tm \<and> frame ! 3 = vcfc (vcs tm ! unat vcid) \<and>
    drop_bit 11 (get_be16 (drop 4 frame)) = 3 \<and>
    get_be16 (drop 4 frame) AND mask 11 = fhp AND mask 11 \<and>
    take (tm_data_len cfg) (drop 6 frame) = data \<and>
    take 4 (drop (6 + tm_data_len cfg) frame) = tm_ocf clcw_call tm s \<and>
    (ccsds_crc16_check frame \<or> \<not> tm_fecf cfg) \<and>
    length (code_transfer_frame cfg frame) = CCSDS_TM_CODED_FRAME_LEN cfg \<and>
    take 4 (code_transfer_frame cfg frame) = CCSDS_TM_ASM"
proof -
  obtain tail where f: "frame = put_be16 (tm_word0 cfg vcid) @ [mcfc tm, vcfc (vcs tm ! unat vcid)] @
      put_be16 (tm_word2 fhp) @ data @ tm_ocf clcw_call tm s @ tail"
    unfolding frame_def assemble_frame_eq build_primary_header_def append_assoc [symmetric]
    using append_fecf_extends by blast
  have data: "take (tm_data_len cfg) (drop 6 frame) = data"
    "take 4 (drop (6 + tm_data_len cfg) frame) = tm_ocf clcw_call tm s"
  proof -
    have six: "drop 6 frame = data @ tm_ocf clcw_call tm s @ tail" by (simp add: f)
    have "drop (6 + tm_data_len cfg) frame = drop (tm_data_len cfg) (drop 6 frame)"
      by (simp only: drop_drop add.commute)
    with six assms(3) show "take (tm_data_len cfg) (drop 6 frame) = data"
      "take 4 (drop (6 + tm_data_len cfg) frame) = tm_ocf clcw_call tm s" by simp_all
  qed
  have scid: "tm_scid cfg \<le> 0x3ff" using assms(1) by (simp add: tm_build_assert_def)
  have len: "length frame = CCSDS_TM_FRAME_LEN cfg"
    unfolding frame_def by (rule assemble_frame_length [OF assms(1,3)])
  have check: "ccsds_crc16_check frame \<or> \<not> tm_fecf cfg"
    unfolding frame_def assemble_frame_eq using append_fecf_check by blast
  have asm: "take 4 (code_transfer_frame cfg frame) = CCSDS_TM_ASM"
    by (simp add: code_transfer_frame_def CCSDS_TM_ASM_def Let_def)
  have "get_be16 frame = tm_word0 cfg vcid" "get_be16 (drop 4 frame) = tm_word2 fhp"
    "frame ! 2 = mcfc tm" "frame ! 3 = vcfc (vcs tm ! unat vcid)"
    by (simp_all add: f nth_append)
  then show ?thesis
    using len data check asm code_transfer_frame_length [OF len] tm_word0_fields [OF scid assms(2)]
      tm_word2_fields [of fhp] by simp
qed

lemma tm_frame_layout_witness:
  "let frame = assemble_frame demo_cfg (\<lambda>_ _. Inl (- EIO)) demo_tm [] 1 0 (replicate 20 0xaa) in
     length frame = CCSDS_TM_FRAME_LEN demo_cfg \<and> (ccsds_crc16_check frame \<or> \<not> tm_fecf demo_cfg) \<and>
     drop_bit 1 (get_be16 frame) AND mask 3 = ucast (1 :: u8)"
proof -
  have len: "tm_data_len demo_cfg = 20"
    by (simp add: tm_data_len_def demo_cfg_def CCSDS_TM_FRAME_LEN_def CCSDS_TM_PRIMARY_HDR_LEN_def
        CCSDS_TM_OCF_LEN_def CCSDS_TM_FECF_LEN_def CCSDS_CRC16_LEN_def)
  have hyps: "tm_build_assert demo_cfg" "(1 :: u8) \<le> CCSDS_TM_MAX_VC_ID"
    "length (replicate 20 (0xaa :: u8)) = tm_data_len demo_cfg"
    using demo_config(3) len by (simp_all add: tm_config_ok_def CCSDS_TM_MAX_VC_ID_def)
  show ?thesis
    unfolding Let_def
    using tm_frame_layout [OF hyps refl, where clcw_call = "\<lambda>_ _. Inl (- EIO)" and tm = demo_tm
        and s = "[]" and fhp = 0] by blast
qed



text \<open>
  One generator cycle from a state whose queues hold whole packets serves exactly one channel:
  the lowest-numbered channel with data, or the idle channel when there is none. It routes one coded
  frame of the configured length under that channel's mask, carrying the next octets of the channel's
  stream (at least one when there is data), removes exactly those, leaves the other queues alone,
  and advances the master counter and the channel's counter by one.
\<close>

theorem tm_generator_cycle_serves_lowest:
  assumes "tm_config_ok (env_cfg env)" "pipe_contract cap (env_ops env)" "tm_holds tm qs"
  shows "case generator_cycle env (tm, s) of (active, tm', s') \<Rightarrow>
    \<exists>v k frame qs'. cycle_serves env tm s qs active tm' s' v k frame qs'"
  using assms by (rule generator_cycle_serves)

lemma tm_generator_cycle_serves_lowest_witness:
  "case generator_cycle demo_env (demo_tm, []) of (active, tm', s') \<Rightarrow>
    \<exists>v k frame qs'. cycle_serves demo_env demo_tm [] demo_queues active tm' s' v k frame qs'"
  by (rule tm_generator_cycle_serves_lowest [OF demo_config(1,2) demo_holds(1)])



text \<open>
  Admission succeeds only for a well-formed packet within the limits and then appends exactly
  that packet to the channel's queue; when it reports an error, the channel holds an initial part
  of the packet short of all of it, and nothing else has changed.
\<close>

theorem tm_add_appends_or_leaves_prefix:
  assumes "pipe_contract cap ops" "tm_holds tm qs"
  shows "case ccsds_tm_frame_add cfg ops lock vcid packet tm of (ret, tm') \<Rightarrow>
    if ret = 0
    then encoded_packet packet \<and> length packet \<le> tm_max_packet_len cfg \<and> vcid \<le> CCSDS_TM_MAX_VC_ID \<and>
      tm_holds tm' (qs[unat vcid := (fst (qs ! unat vcid), snd (qs ! unat vcid) @ [packet])])
    else tm' = tm \<or> (\<exists>k<length packet. tm' = upd_vc vcid (vc_appended (take k packet)) tm)"
proof (cases "length packet < CCSDS_SPACE_PACKET_MIN_LEN \<or> packet_total_len packet \<noteq> length packet \<or>
    length packet > tm_max_packet_len cfg \<or> length packet > tm_queue_depth cfg \<or>
    vcid > CCSDS_TM_MAX_VC_ID \<or> lock \<noteq> 0")
  case True
  then show ?thesis by (auto simp: ccsds_tm_frame_add_def errno_defs)
next
  case False
  then have enc: "encoded_packet packet" and v8: "unat vcid < 8" and v: "vcid \<le> CCSDS_TM_MAX_VC_ID"
    by (auto simp: encoded_packet_def CCSDS_TM_MAX_VC_ID_def word_le_nat_alt not_less)
  obtain k ret where w: "write_loop ops packet 0 (vcs tm ! unat vcid) =
      (ret, vc_appended (take k packet) (vcs tm ! unat vcid))"
    and k: "if ret = 0 then k = length packet else k < length packet"
    using write_loop_writes [OF assms(1), of 0 packet "vcs tm ! unat vcid"]
    by (simp only: drop_0 add_0 le0) blast
  have "tm_holds (upd_vc vcid (vc_appended packet) tm)
      (qs[unat vcid := (fst (qs ! unat vcid), snd (qs ! unat vcid) @ [packet])])"
    using tm_holds_upd [OF assms(2) v8, where f = "vc_appended packet"]
      vc_holds_appended [OF tm_holds_nth [OF assms(2) v8] enc] by blast
  with False w k enc v show ?thesis
    by (auto simp: ccsds_tm_frame_add_def upd_vc_const)
qed

lemma tm_add_appends_or_leaves_prefix_witness:
  "case ccsds_tm_frame_add demo_cfg (greedy_pipe 64) 0 2 demo_packet demo_tm of (ret, tm') \<Rightarrow>
    if ret = 0
    then encoded_packet demo_packet \<and> length demo_packet \<le> tm_max_packet_len demo_cfg \<and>
      (2 :: u8) \<le> CCSDS_TM_MAX_VC_ID \<and>
      tm_holds tm' (demo_queues[unat (2 :: u8) := (fst (demo_queues ! unat (2 :: u8)),
        snd (demo_queues ! unat (2 :: u8)) @ [demo_packet])])
    else tm' = demo_tm \<or> (\<exists>k<length demo_packet. tm' = upd_vc 2 (vc_appended (take k demo_packet)) demo_tm)"
  by (rule tm_add_appends_or_leaves_prefix [OF greedy_pipe_contract demo_holds(1)])

end
