(* ===== verification/Cfdp_Types.thy ===== *)
theory Cfdp_Types
  imports Ccsds_Prelude
begin

text \<open>
  Status codes, protocol codes and limits of the file delivery protocol
  (\<open>ccsds_cfdp_status.h\<close>, \<open>ccsds_cfdp_types.h\<close>, \<open>ccsds_cfdp_config.h\<close>).

  The protocol enumerations are numbers, not datatypes: the decoders cast the bits they read, so a
  C variable of such a type also holds values that are not enumerators (the condition codes
  \<open>0xC\<close> and \<open>0xD\<close>), and the encoders test the range. The limits have their default values.
\<close>

named_theorems cfdp_codes "values of the protocol codes"
named_theorems cfdp_limits "values of the configured limits"

datatype cfdp_status =
    CCSDS_CFDP_STATUS_OK
  | CCSDS_CFDP_STATUS_INVALID_ARGUMENT
  | CCSDS_CFDP_STATUS_BUFFER_TOO_SMALL
  | CCSDS_CFDP_STATUS_MALFORMED_PDU
  | CCSDS_CFDP_STATUS_UNSUPPORTED
  | CCSDS_CFDP_STATUS_UNSUPPORTED_CHECKSUM
  | CCSDS_CFDP_STATUS_INVALID_TRANSMISSION_MODE
  | CCSDS_CFDP_STATUS_CHECKSUM_FAILURE
  | CCSDS_CFDP_STATUS_FILE_SIZE_ERROR
  | CCSDS_CFDP_STATUS_INACTIVITY_DETECTED
  | CCSDS_CFDP_STATUS_NAK_LIMIT_REACHED
  | CCSDS_CFDP_STATUS_CANCEL_REQUEST
  | CCSDS_CFDP_STATUS_FILESTORE_REJECTION
  | CCSDS_CFDP_STATUS_TRANSACTION_BUSY

text \<open>A function with an output: \<open>Inl\<close> a status other than OK, or \<open>Inr\<close> the output.\<close>

type_synonym 'a cfdp_result = "cfdp_status + 'a"

text \<open>Return the status of a call unless it is OK, as the callers do after each call.\<close>

definition on_ok :: "'a cfdp_result \<Rightarrow> ('a \<Rightarrow> 'b cfdp_result) \<Rightarrow> 'b cfdp_result" where
  "on_ok r f = (case r of Inl status \<Rightarrow> Inl status | Inr x \<Rightarrow> f x)"

lemma on_ok_simps [simp]: "on_ok (Inl status) f = Inl status" "on_ok (Inr x) f = f x"
  by (simp_all add: on_ok_def)

lemma on_ok_Inr [simp]: "on_ok r f = Inr y \<longleftrightarrow> (\<exists>x. r = Inr x \<and> f x = Inr y)"
  by (cases r) simp_all

section \<open>Limits\<close>

definition CCSDS_CFDP_VERSION_1 :: u8 where [cfdp_limits]: "CCSDS_CFDP_VERSION_1 = 1"
definition CCSDS_CFDP_MAX_ENTITY_ID_LEN :: u8 where [cfdp_limits]: "CCSDS_CFDP_MAX_ENTITY_ID_LEN = 4"
definition CCSDS_CFDP_MAX_TRANS_SEQ_LEN :: u8 where [cfdp_limits]: "CCSDS_CFDP_MAX_TRANS_SEQ_LEN = 4"
definition CCSDS_CFDP_MAX_FILENAME_LEN :: nat where [cfdp_limits]: "CCSDS_CFDP_MAX_FILENAME_LEN = 64"
definition CCSDS_CFDP_MAX_PDU_SIZE :: nat where [cfdp_limits]: "CCSDS_CFDP_MAX_PDU_SIZE = 512"
definition CCSDS_CFDP_MAX_SEGMENT_SIZE :: nat where [cfdp_limits]: "CCSDS_CFDP_MAX_SEGMENT_SIZE = 384"
definition CCSDS_CFDP_MAX_NAK_RANGES :: nat where [cfdp_limits]: "CCSDS_CFDP_MAX_NAK_RANGES = 4"
definition CCSDS_CFDP_MAX_NAK_ROUNDS :: nat where [cfdp_limits]: "CCSDS_CFDP_MAX_NAK_ROUNDS = 4"
definition CCSDS_CFDP_RETRY_INTERVAL_MS :: u32 where [cfdp_limits]: "CCSDS_CFDP_RETRY_INTERVAL_MS = 1000"

section \<open>Protocol codes\<close>

definition CCSDS_CFDP_PDU_TYPE_FILE_DIRECTIVE :: u8 where [cfdp_codes]: "CCSDS_CFDP_PDU_TYPE_FILE_DIRECTIVE = 0"
definition CCSDS_CFDP_PDU_TYPE_FILE_DATA :: u8 where [cfdp_codes]: "CCSDS_CFDP_PDU_TYPE_FILE_DATA = 1"
definition CCSDS_CFDP_DIRECTION_TOWARD_RECEIVER :: u8 where [cfdp_codes]: "CCSDS_CFDP_DIRECTION_TOWARD_RECEIVER = 0"
definition CCSDS_CFDP_DIRECTION_TOWARD_SENDER :: u8 where [cfdp_codes]: "CCSDS_CFDP_DIRECTION_TOWARD_SENDER = 1"
definition CCSDS_CFDP_TRANSMISSION_MODE_ACKNOWLEDGED :: u8 where
  [cfdp_codes]: "CCSDS_CFDP_TRANSMISSION_MODE_ACKNOWLEDGED = 0"
definition CCSDS_CFDP_TRANSMISSION_MODE_UNACKNOWLEDGED :: u8 where
  [cfdp_codes]: "CCSDS_CFDP_TRANSMISSION_MODE_UNACKNOWLEDGED = 1"
definition CCSDS_CFDP_CRC_NOT_PRESENT :: u8 where [cfdp_codes]: "CCSDS_CFDP_CRC_NOT_PRESENT = 0"
definition CCSDS_CFDP_CRC_PRESENT :: u8 where [cfdp_codes]: "CCSDS_CFDP_CRC_PRESENT = 1"
definition CCSDS_CFDP_FILE_SIZE_SMALL :: u8 where [cfdp_codes]: "CCSDS_CFDP_FILE_SIZE_SMALL = 0"
definition CCSDS_CFDP_SEGMENTATION_RECORD_BOUNDARIES_NOT_PRESERVED :: u8 where
  [cfdp_codes]: "CCSDS_CFDP_SEGMENTATION_RECORD_BOUNDARIES_NOT_PRESERVED = 0"
definition CCSDS_CFDP_SEGMENTATION_RECORD_BOUNDARIES_PRESERVED :: u8 where
  [cfdp_codes]: "CCSDS_CFDP_SEGMENTATION_RECORD_BOUNDARIES_PRESERVED = 1"

definition CCSDS_CFDP_DIRECTIVE_EOF :: u8 where [cfdp_codes]: "CCSDS_CFDP_DIRECTIVE_EOF = 0x04"
definition CCSDS_CFDP_DIRECTIVE_FINISHED :: u8 where [cfdp_codes]: "CCSDS_CFDP_DIRECTIVE_FINISHED = 0x05"
definition CCSDS_CFDP_DIRECTIVE_ACK :: u8 where [cfdp_codes]: "CCSDS_CFDP_DIRECTIVE_ACK = 0x06"
definition CCSDS_CFDP_DIRECTIVE_METADATA :: u8 where [cfdp_codes]: "CCSDS_CFDP_DIRECTIVE_METADATA = 0x07"
definition CCSDS_CFDP_DIRECTIVE_NAK :: u8 where [cfdp_codes]: "CCSDS_CFDP_DIRECTIVE_NAK = 0x08"

definition CCSDS_CFDP_CONDITION_NO_ERROR :: u8 where [cfdp_codes]: "CCSDS_CFDP_CONDITION_NO_ERROR = 0x0"
definition CCSDS_CFDP_CONDITION_INVALID_TRANSMISSION_MODE :: u8 where
  [cfdp_codes]: "CCSDS_CFDP_CONDITION_INVALID_TRANSMISSION_MODE = 0x3"
definition CCSDS_CFDP_CONDITION_FILESTORE_REJECTION :: u8 where
  [cfdp_codes]: "CCSDS_CFDP_CONDITION_FILESTORE_REJECTION = 0x4"
definition CCSDS_CFDP_CONDITION_FILE_CHECKSUM_FAILURE :: u8 where
  [cfdp_codes]: "CCSDS_CFDP_CONDITION_FILE_CHECKSUM_FAILURE = 0x5"
definition CCSDS_CFDP_CONDITION_FILE_SIZE_ERROR :: u8 where
  [cfdp_codes]: "CCSDS_CFDP_CONDITION_FILE_SIZE_ERROR = 0x6"
definition CCSDS_CFDP_CONDITION_NAK_LIMIT_REACHED :: u8 where
  [cfdp_codes]: "CCSDS_CFDP_CONDITION_NAK_LIMIT_REACHED = 0x7"
definition CCSDS_CFDP_CONDITION_INACTIVITY_DETECTED :: u8 where
  [cfdp_codes]: "CCSDS_CFDP_CONDITION_INACTIVITY_DETECTED = 0x8"
definition CCSDS_CFDP_CONDITION_UNSUPPORTED_CHECKSUM_TYPE :: u8 where
  [cfdp_codes]: "CCSDS_CFDP_CONDITION_UNSUPPORTED_CHECKSUM_TYPE = 0xB"
definition CCSDS_CFDP_CONDITION_CANCEL_REQUEST_RECEIVED :: u8 where
  [cfdp_codes]: "CCSDS_CFDP_CONDITION_CANCEL_REQUEST_RECEIVED = 0xF"

definition CCSDS_CFDP_DELIVERY_CODE_DATA_COMPLETE :: u8 where
  [cfdp_codes]: "CCSDS_CFDP_DELIVERY_CODE_DATA_COMPLETE = 0"
definition CCSDS_CFDP_DELIVERY_CODE_DATA_INCOMPLETE :: u8 where
  [cfdp_codes]: "CCSDS_CFDP_DELIVERY_CODE_DATA_INCOMPLETE = 1"
definition CCSDS_CFDP_FILE_STATUS_DISCARDED_DELIBERATELY :: u8 where
  [cfdp_codes]: "CCSDS_CFDP_FILE_STATUS_DISCARDED_DELIBERATELY = 0"
definition CCSDS_CFDP_FILE_STATUS_DISCARDED_FILESTORE_REJECTION :: u8 where
  [cfdp_codes]: "CCSDS_CFDP_FILE_STATUS_DISCARDED_FILESTORE_REJECTION = 1"
definition CCSDS_CFDP_FILE_STATUS_RETAINED :: u8 where [cfdp_codes]: "CCSDS_CFDP_FILE_STATUS_RETAINED = 2"
definition CCSDS_CFDP_FILE_STATUS_UNREPORTED :: u8 where [cfdp_codes]: "CCSDS_CFDP_FILE_STATUS_UNREPORTED = 3"

definition CCSDS_CFDP_CHECKSUM_TYPE_MODULAR :: u8 where [cfdp_codes]: "CCSDS_CFDP_CHECKSUM_TYPE_MODULAR = 0"
definition CCSDS_CFDP_CHECKSUM_TYPE_CRC32C :: u8 where [cfdp_codes]: "CCSDS_CFDP_CHECKSUM_TYPE_CRC32C = 2"
definition CCSDS_CFDP_CHECKSUM_TYPE_IEEE_802_3_FCS :: u8 where
  [cfdp_codes]: "CCSDS_CFDP_CHECKSUM_TYPE_IEEE_802_3_FCS = 3"
definition CCSDS_CFDP_CHECKSUM_TYPE_NULL :: u8 where [cfdp_codes]: "CCSDS_CFDP_CHECKSUM_TYPE_NULL = 15"

definition CCSDS_CFDP_ACK_DIRECTIVE_SUBTYPE_OTHER :: u8 where
  [cfdp_codes]: "CCSDS_CFDP_ACK_DIRECTIVE_SUBTYPE_OTHER = 0"
definition CCSDS_CFDP_ACK_DIRECTIVE_SUBTYPE_FINISHED :: u8 where
  [cfdp_codes]: "CCSDS_CFDP_ACK_DIRECTIVE_SUBTYPE_FINISHED = 1"
definition CCSDS_CFDP_TRANSACTION_STATUS_ACTIVE :: u8 where
  [cfdp_codes]: "CCSDS_CFDP_TRANSACTION_STATUS_ACTIVE = 1"
definition CCSDS_CFDP_TRANSACTION_STATUS_TERMINATED :: u8 where
  [cfdp_codes]: "CCSDS_CFDP_TRANSACTION_STATUS_TERMINATED = 2"
definition CCSDS_CFDP_TRANSACTION_STATUS_UNRECOGNIZED :: u8 where
  [cfdp_codes]: "CCSDS_CFDP_TRANSACTION_STATUS_UNRECOGNIZED = 3"

text \<open>The same test appears in the PDU codec and in the checksum module.\<close>

definition checksum_type_is_supported :: "u8 \<Rightarrow> bool" where
  "checksum_type_is_supported type \<longleftrightarrow>
     type = CCSDS_CFDP_CHECKSUM_TYPE_MODULAR \<or> type = CCSDS_CFDP_CHECKSUM_TYPE_CRC32C \<or>
     type = CCSDS_CFDP_CHECKSUM_TYPE_IEEE_802_3_FCS \<or> type = CCSDS_CFDP_CHECKSUM_TYPE_NULL"

end
