(* ===== verification/Cfdp_Pdu.thy ===== *)
theory Cfdp_Pdu
  imports Cfdp_Types Space_Packet
begin

text \<open>
  The PDU codec of \<open>ccsds_cfdp_pdu.c\<close>: the fixed header with its variable-length identifiers, LV and
  TLV fields, and the Metadata, File Data, EOF, Finished, ACK and NAK PDUs, encoder and decoder with
  every guard. An encoder takes the capacity of its buffer and returns the octets it writes; a
  decoder returns the PDU and the number of octets consumed. Value views are sublists of the input.
\<close>

unbundle bit_operations_syntax

definition CCSDS_CFDP_FIXED_HEADER_MIN_LEN :: nat where [cfdp_limits]: "CCSDS_CFDP_FIXED_HEADER_MIN_LEN = 4"
definition CCSDS_CFDP_MAX_ENCODED_INT_LEN :: nat where [cfdp_limits]: "CCSDS_CFDP_MAX_ENCODED_INT_LEN = 8"
definition CCSDS_CFDP_FILEDATA_OFFSET_LEN :: nat where [cfdp_limits]: "CCSDS_CFDP_FILEDATA_OFFSET_LEN = 4"
definition CCSDS_CFDP_EOF_DATA_LEN :: nat where [cfdp_limits]: "CCSDS_CFDP_EOF_DATA_LEN = 10"
definition CCSDS_CFDP_FINISHED_DATA_LEN :: nat where [cfdp_limits]: "CCSDS_CFDP_FINISHED_DATA_LEN = 2"
definition CCSDS_CFDP_ACK_DATA_LEN :: nat where [cfdp_limits]: "CCSDS_CFDP_ACK_DATA_LEN = 3"
definition CCSDS_CFDP_NAK_MIN_DATA_LEN :: nat where [cfdp_limits]: "CCSDS_CFDP_NAK_MIN_DATA_LEN = 9"
definition CCSDS_CFDP_NAK_RANGE_LEN :: nat where [cfdp_limits]: "CCSDS_CFDP_NAK_RANGE_LEN = 8"
definition CCSDS_CFDP_METADATA_MIN_DATA_LEN :: nat where [cfdp_limits]: "CCSDS_CFDP_METADATA_MIN_DATA_LEN = 8"
definition UINT16_MAX :: nat where [cfdp_limits]: "UINT16_MAX = 65535"
definition CCSDS_CFDP_METADATA_CLOSURE_REQUESTED :: u8 where [cfdp_codes]: "CCSDS_CFDP_METADATA_CLOSURE_REQUESTED = 0x40"
definition CCSDS_CFDP_METADATA_RESERVED_MASK :: u8 where [cfdp_codes]: "CCSDS_CFDP_METADATA_RESERVED_MASK = 0xb0"
definition CCSDS_CFDP_METADATA_CHECKSUM_MASK :: u8 where [cfdp_codes]: "CCSDS_CFDP_METADATA_CHECKSUM_MASK = 0x0f"
definition CCSDS_CFDP_EOF_CONDITION_MASK :: u8 where [cfdp_codes]: "CCSDS_CFDP_EOF_CONDITION_MASK = 0xf0"
definition CCSDS_CFDP_FINISHED_CONDITION_MASK :: u8 where [cfdp_codes]: "CCSDS_CFDP_FINISHED_CONDITION_MASK = 0xf0"
definition CCSDS_CFDP_FINISHED_SPARE_MASK :: u8 where [cfdp_codes]: "CCSDS_CFDP_FINISHED_SPARE_MASK = 0x08"
definition CCSDS_CFDP_FINISHED_DELIVERY_MASK :: u8 where [cfdp_codes]: "CCSDS_CFDP_FINISHED_DELIVERY_MASK = 0x04"
definition CCSDS_CFDP_FINISHED_FILE_STATUS_MASK :: u8 where [cfdp_codes]: "CCSDS_CFDP_FINISHED_FILE_STATUS_MASK = 0x03"
definition CCSDS_CFDP_ACK_DIRECTIVE_MASK :: u8 where [cfdp_codes]: "CCSDS_CFDP_ACK_DIRECTIVE_MASK = 0xf0"
definition CCSDS_CFDP_ACK_SUBTYPE_MASK :: u8 where [cfdp_codes]: "CCSDS_CFDP_ACK_SUBTYPE_MASK = 0x0f"
definition CCSDS_CFDP_ACK_CONDITION_MASK :: u8 where [cfdp_codes]: "CCSDS_CFDP_ACK_CONDITION_MASK = 0xf0"
definition CCSDS_CFDP_ACK_SPARE_MASK :: u8 where [cfdp_codes]: "CCSDS_CFDP_ACK_SPARE_MASK = 0x0c"
definition CCSDS_CFDP_ACK_TRANSACTION_STATUS_MASK :: u8 where
  [cfdp_codes]: "CCSDS_CFDP_ACK_TRANSACTION_STATUS_MASK = 0x03"

section \<open>The fixed header\<close>

record cfdp_pdu_header =
  hdr_version :: u8
  pdu_type :: u8
  direction :: u8
  transmission_mode :: u8
  crc_flag :: u8
  file_size_mode :: u8
  pdu_data_field_len :: u16
  segmentation_control :: u8
  segment_metadata_present :: bool
  entity_id_len :: u8
  transaction_sequence_number_len :: u8
  source_entity_id :: u64
  transaction_sequence_number :: u64
  destination_entity_id :: u64

definition encoded_int_len_is_valid :: "u8 \<Rightarrow> u8 \<Rightarrow> bool" where
  "encoded_int_len_is_valid len max_len \<longleftrightarrow>
     len \<ge> 1 \<and> len \<le> max_len \<and> unat len \<le> CCSDS_CFDP_MAX_ENCODED_INT_LEN"

definition header_lengths_are_valid :: "cfdp_pdu_header \<Rightarrow> bool" where
  "header_lengths_are_valid header \<longleftrightarrow>
     encoded_int_len_is_valid (entity_id_len header) CCSDS_CFDP_MAX_ENTITY_ID_LEN \<and>
     encoded_int_len_is_valid (transaction_sequence_number_len header) CCSDS_CFDP_MAX_TRANS_SEQ_LEN"

definition value_fits_len :: "u64 \<Rightarrow> u8 \<Rightarrow> bool" where
  "value_fits_len value len \<longleftrightarrow>
     (if unat len \<ge> CCSDS_CFDP_MAX_ENCODED_INT_LEN then True else drop_bit (unat len * 8) value = 0)"

definition write_be_uint :: "nat \<Rightarrow> u64 \<Rightarrow> octets" where
  "write_be_uint len value = drop (CCSDS_CFDP_MAX_ENCODED_INT_LEN - len) (put_be64 value)"

definition read_be_uint :: "octets \<Rightarrow> nat \<Rightarrow> u64" where
  "read_be_uint buf len =
     get_be64 (replicate (CCSDS_CFDP_MAX_ENCODED_INT_LEN - len) 0 @ take len buf)"

definition ccsds_cfdp_header_encoded_len :: "cfdp_pdu_header \<Rightarrow> nat" where
  "ccsds_cfdp_header_encoded_len header =
     (if \<not> header_lengths_are_valid header then 0
      else CCSDS_CFDP_FIXED_HEADER_MIN_LEN + 2 * unat (entity_id_len header) +
           unat (transaction_sequence_number_len header))"

definition header_byte0 :: "cfdp_pdu_header \<Rightarrow> u8" where
  "header_byte0 h =
     push_bit 5 (hdr_version h AND 0x7) OR push_bit 4 (pdu_type h AND 0x1) OR
     push_bit 3 (direction h AND 0x1) OR push_bit 2 (transmission_mode h AND 0x1) OR
     push_bit 1 (crc_flag h AND 0x1) OR (file_size_mode h AND 0x1)"

definition header_byte3 :: "cfdp_pdu_header \<Rightarrow> u8" where
  "header_byte3 h =
     push_bit 7 (segmentation_control h AND 0x1) OR push_bit 4 ((entity_id_len h - 1) AND 0x7) OR
     (if segment_metadata_present h then 0x08 else 0) OR
     ((transaction_sequence_number_len h - 1) AND 0x7)"

definition ccsds_cfdp_encode_header :: "cfdp_pdu_header \<Rightarrow> nat \<Rightarrow> octets cfdp_result" where
  "ccsds_cfdp_encode_header header cap =
     (if hdr_version header \<noteq> CCSDS_CFDP_VERSION_1 \<or>
         pdu_type header > CCSDS_CFDP_PDU_TYPE_FILE_DATA \<or>
         direction header > CCSDS_CFDP_DIRECTION_TOWARD_SENDER \<or>
         transmission_mode header > CCSDS_CFDP_TRANSMISSION_MODE_UNACKNOWLEDGED \<or>
         crc_flag header > CCSDS_CFDP_CRC_PRESENT \<or>
         segmentation_control header > CCSDS_CFDP_SEGMENTATION_RECORD_BOUNDARIES_PRESERVED
      then Inl CCSDS_CFDP_STATUS_INVALID_ARGUMENT
      else if file_size_mode header \<noteq> CCSDS_CFDP_FILE_SIZE_SMALL
      then Inl CCSDS_CFDP_STATUS_UNSUPPORTED
      else if \<not> header_lengths_are_valid header \<or>
         \<not> value_fits_len (source_entity_id header) (entity_id_len header) \<or>
         \<not> value_fits_len (transaction_sequence_number header)
              (transaction_sequence_number_len header) \<or>
         \<not> value_fits_len (destination_entity_id header) (entity_id_len header)
      then Inl CCSDS_CFDP_STATUS_INVALID_ARGUMENT
      else if cap < ccsds_cfdp_header_encoded_len header then Inl CCSDS_CFDP_STATUS_BUFFER_TOO_SMALL
      else Inr ([header_byte0 header] @ put_be16 (pdu_data_field_len header) @
                [header_byte3 header] @
                write_be_uint (unat (entity_id_len header)) (source_entity_id header) @
                write_be_uint (unat (transaction_sequence_number_len header))
                  (transaction_sequence_number header) @
                write_be_uint (unat (entity_id_len header)) (destination_entity_id header)))"

definition ccsds_cfdp_decode_header :: "octets \<Rightarrow> (cfdp_pdu_header \<times> nat) cfdp_result" where
  "ccsds_cfdp_decode_header buf =
     (if length buf < CCSDS_CFDP_FIXED_HEADER_MIN_LEN then Inl CCSDS_CFDP_STATUS_MALFORMED_PDU
      else
        let version = drop_bit 5 (buf ! 0) AND 0x7
        in if version \<noteq> CCSDS_CFDP_VERSION_1 then Inl CCSDS_CFDP_STATUS_UNSUPPORTED
           else
             let file_size_mode = buf ! 0 AND 0x1
             in if file_size_mode \<noteq> CCSDS_CFDP_FILE_SIZE_SMALL then Inl CCSDS_CFDP_STATUS_UNSUPPORTED
                else
                  let id_len = (drop_bit 4 (buf ! 3) AND 0x7) + 1;
                      seq_len = (buf ! 3 AND 0x7) + 1
                  in if \<not> encoded_int_len_is_valid id_len CCSDS_CFDP_MAX_ENTITY_ID_LEN \<or>
                        \<not> encoded_int_len_is_valid seq_len CCSDS_CFDP_MAX_TRANS_SEQ_LEN
                     then Inl CCSDS_CFDP_STATUS_UNSUPPORTED
                     else
                       let needed = CCSDS_CFDP_FIXED_HEADER_MIN_LEN + 2 * unat id_len + unat seq_len
                       in if length buf < needed then Inl CCSDS_CFDP_STATUS_MALFORMED_PDU
                          else Inr
                            (\<lparr>hdr_version = version,
                              pdu_type = drop_bit 4 (buf ! 0) AND 0x1,
                              direction = drop_bit 3 (buf ! 0) AND 0x1,
                              transmission_mode = drop_bit 2 (buf ! 0) AND 0x1,
                              crc_flag = drop_bit 1 (buf ! 0) AND 0x1,
                              file_size_mode = file_size_mode,
                              pdu_data_field_len = get_be16 (drop 1 buf),
                              segmentation_control = drop_bit 7 (buf ! 3) AND 0x1,
                              segment_metadata_present = (buf ! 3 AND 0x08 \<noteq> 0),
                              entity_id_len = id_len,
                              transaction_sequence_number_len = seq_len,
                              source_entity_id =
                                read_be_uint (drop CCSDS_CFDP_FIXED_HEADER_MIN_LEN buf) (unat id_len),
                              transaction_sequence_number =
                                read_be_uint
                                  (drop (CCSDS_CFDP_FIXED_HEADER_MIN_LEN + unat id_len) buf)
                                  (unat seq_len),
                              destination_entity_id =
                                read_be_uint
                                  (drop (CCSDS_CFDP_FIXED_HEADER_MIN_LEN + unat id_len + unat seq_len) buf)
                                  (unat id_len)\<rparr>, needed))"

section \<open>LV and TLV fields\<close>

text \<open>A value view is the list of its octets; its length field is one octet.\<close>

definition ccsds_cfdp_lv_read :: "octets \<Rightarrow> (octets \<times> nat) cfdp_result" where
  "ccsds_cfdp_lv_read buf =
     (if length buf < 1 then Inl CCSDS_CFDP_STATUS_MALFORMED_PDU
      else
        let value_len = unat (buf ! 0)
        in if length buf - 1 < value_len then Inl CCSDS_CFDP_STATUS_MALFORMED_PDU
           else Inr (take value_len (drop 1 buf), 1 + value_len))"

definition ccsds_cfdp_lv_write :: "octets \<Rightarrow> nat \<Rightarrow> octets cfdp_result" where
  "ccsds_cfdp_lv_write value cap =
     (if cap < 1 + length value then Inl CCSDS_CFDP_STATUS_BUFFER_TOO_SMALL
      else Inr (of_nat (length value) # value))"

definition ccsds_cfdp_tlv_read :: "octets \<Rightarrow> ((u8 \<times> octets) \<times> nat) cfdp_result" where
  "ccsds_cfdp_tlv_read buf =
     (if length buf < 1 then Inl CCSDS_CFDP_STATUS_MALFORMED_PDU
      else if length buf < 2 then Inl CCSDS_CFDP_STATUS_MALFORMED_PDU
      else
        let value_len = unat (buf ! 1)
        in if length buf - 2 < value_len then Inl CCSDS_CFDP_STATUS_MALFORMED_PDU
           else Inr ((buf ! 0, take value_len (drop 2 buf)), 2 + value_len))"

definition ccsds_cfdp_tlv_write :: "u8 \<Rightarrow> octets \<Rightarrow> nat \<Rightarrow> octets cfdp_result" where
  "ccsds_cfdp_tlv_write type value cap =
     (if cap < 2 + length value then Inl CCSDS_CFDP_STATUS_BUFFER_TOO_SMALL
      else Inr (type # of_nat (length value) # value))"

definition filename_len_is_valid :: "octets \<Rightarrow> bool" where
  "filename_len_is_valid filename \<longleftrightarrow>
     length filename > 0 \<and> length filename \<le> CCSDS_CFDP_MAX_FILENAME_LEN"

definition condition_code_is_valid :: "u8 \<Rightarrow> bool" where
  "condition_code_is_valid code \<longleftrightarrow>
     code \<ge> CCSDS_CFDP_CONDITION_NO_ERROR \<and> code \<le> CCSDS_CFDP_CONDITION_CANCEL_REQUEST_RECEIVED"

definition ack_directive_is_supported :: "u8 \<Rightarrow> bool" where
  "ack_directive_is_supported directive \<longleftrightarrow>
     directive = CCSDS_CFDP_DIRECTIVE_EOF \<or> directive = CCSDS_CFDP_DIRECTIVE_FINISHED"

definition ack_subtype_is_valid :: "u8 \<Rightarrow> u8 \<Rightarrow> bool" where
  "ack_subtype_is_valid directive subtype \<longleftrightarrow>
     (if directive = CCSDS_CFDP_DIRECTIVE_FINISHED
      then subtype = CCSDS_CFDP_ACK_DIRECTIVE_SUBTYPE_FINISHED
      else subtype = CCSDS_CFDP_ACK_DIRECTIVE_SUBTYPE_OTHER)"

section \<open>Metadata\<close>

record cfdp_metadata_pdu =
  md_header :: cfdp_pdu_header
  closure_requested :: bool
  checksum_type :: u8
  md_file_size :: u32
  source_filename :: octets
  destination_filename :: octets

definition metadata_control :: "cfdp_metadata_pdu \<Rightarrow> u8" where
  "metadata_control md =
     (if closure_requested md \<and>
         transmission_mode (md_header md) \<noteq> CCSDS_CFDP_TRANSMISSION_MODE_ACKNOWLEDGED
      then CCSDS_CFDP_METADATA_CLOSURE_REQUESTED else 0) OR
     (checksum_type md AND CCSDS_CFDP_METADATA_CHECKSUM_MASK)"

definition ccsds_cfdp_encode_metadata :: "cfdp_metadata_pdu \<Rightarrow> nat \<Rightarrow> octets cfdp_result" where
  "ccsds_cfdp_encode_metadata md cap =
     (if pdu_type (md_header md) \<noteq> CCSDS_CFDP_PDU_TYPE_FILE_DIRECTIVE \<or>
         file_size_mode (md_header md) \<noteq> CCSDS_CFDP_FILE_SIZE_SMALL \<or>
         segment_metadata_present (md_header md)
      then Inl CCSDS_CFDP_STATUS_INVALID_ARGUMENT
      else if \<not> checksum_type_is_supported (checksum_type md)
      then Inl CCSDS_CFDP_STATUS_UNSUPPORTED_CHECKSUM
      else if \<not> filename_len_is_valid (source_filename md) \<or>
         \<not> filename_len_is_valid (destination_filename md)
      then Inl CCSDS_CFDP_STATUS_INVALID_ARGUMENT
      else
        let data_len = CCSDS_CFDP_METADATA_MIN_DATA_LEN + length (source_filename md) +
              length (destination_filename md)
        in if data_len > UINT16_MAX then Inl CCSDS_CFDP_STATUS_INVALID_ARGUMENT
           else
             on_ok (ccsds_cfdp_encode_header
                      ((md_header md)\<lparr>pdu_data_field_len := of_nat data_len\<rparr>) cap)
               (\<lambda>hdr. if cap - length hdr < data_len then Inl CCSDS_CFDP_STATUS_BUFFER_TOO_SMALL
                 else
                   let fixed = hdr @ [CCSDS_CFDP_DIRECTIVE_METADATA, metadata_control md] @
                         write_be_uint 4 (ucast (md_file_size md))
                   in on_ok (ccsds_cfdp_lv_write (source_filename md) (cap - length fixed))
                        (\<lambda>src. on_ok (ccsds_cfdp_lv_write (destination_filename md)
                                       (cap - (length fixed + length src)))
                                 (\<lambda>dst. Inr (fixed @ src @ dst)))))"

definition ccsds_cfdp_decode_metadata :: "octets \<Rightarrow> (cfdp_metadata_pdu \<times> nat) cfdp_result" where
  "ccsds_cfdp_decode_metadata buf =
     on_ok (ccsds_cfdp_decode_header buf) (\<lambda>(header, header_len).
       if pdu_type header \<noteq> CCSDS_CFDP_PDU_TYPE_FILE_DIRECTIVE \<or>
          file_size_mode header \<noteq> CCSDS_CFDP_FILE_SIZE_SMALL \<or> segment_metadata_present header
       then Inl CCSDS_CFDP_STATUS_MALFORMED_PDU
       else if unat (pdu_data_field_len header) < CCSDS_CFDP_METADATA_MIN_DATA_LEN \<or>
          length buf - header_len < unat (pdu_data_field_len header)
       then Inl CCSDS_CFDP_STATUS_MALFORMED_PDU
       else
         let pdu_end = header_len + unat (pdu_data_field_len header);
             control = buf ! (header_len + 1)
         in if buf ! header_len \<noteq> CCSDS_CFDP_DIRECTIVE_METADATA then Inl CCSDS_CFDP_STATUS_MALFORMED_PDU
            else if control AND CCSDS_CFDP_METADATA_RESERVED_MASK \<noteq> 0
            then Inl CCSDS_CFDP_STATUS_MALFORMED_PDU
            else if \<not> checksum_type_is_supported (control AND CCSDS_CFDP_METADATA_CHECKSUM_MASK)
            then Inl CCSDS_CFDP_STATUS_UNSUPPORTED_CHECKSUM
            else if pdu_end - (header_len + 2) < 4 then Inl CCSDS_CFDP_STATUS_MALFORMED_PDU
            else
              let offset = header_len + 6
              in on_ok (ccsds_cfdp_lv_read (take (pdu_end - offset) (drop offset buf))) (\<lambda>(src, n).
                   if \<not> filename_len_is_valid src then Inl CCSDS_CFDP_STATUS_INVALID_ARGUMENT
                   else
                     let offset = offset + n
                     in on_ok (ccsds_cfdp_lv_read (take (pdu_end - offset) (drop offset buf))) (\<lambda>(dst, n).
                          if \<not> filename_len_is_valid dst then Inl CCSDS_CFDP_STATUS_INVALID_ARGUMENT
                          else
                            let offset = offset + n
                            in if offset < pdu_end
                               then on_ok (ccsds_cfdp_tlv_read (take (pdu_end - offset) (drop offset buf)))
                                      (\<lambda>_. Inl CCSDS_CFDP_STATUS_UNSUPPORTED)
                               else Inr
                                 (\<lparr>md_header = header,
                                   closure_requested =
                                     (control AND CCSDS_CFDP_METADATA_CLOSURE_REQUESTED \<noteq> 0),
                                   checksum_type = control AND CCSDS_CFDP_METADATA_CHECKSUM_MASK,
                                   md_file_size = ucast (read_be_uint (drop (header_len + 2) buf) 4),
                                   source_filename = src, destination_filename = dst\<rparr>, pdu_end))))"

section \<open>File data\<close>

record cfdp_filedata_pdu =
  fd_header :: cfdp_pdu_header
  fd_offset :: u32
  fd_data :: octets

definition ccsds_cfdp_encode_filedata :: "cfdp_filedata_pdu \<Rightarrow> nat \<Rightarrow> octets cfdp_result" where
  "ccsds_cfdp_encode_filedata fd cap =
     (if pdu_type (fd_header fd) \<noteq> CCSDS_CFDP_PDU_TYPE_FILE_DATA \<or>
         segment_metadata_present (fd_header fd)
      then Inl CCSDS_CFDP_STATUS_INVALID_ARGUMENT
      else if file_size_mode (fd_header fd) \<noteq> CCSDS_CFDP_FILE_SIZE_SMALL
      then Inl CCSDS_CFDP_STATUS_UNSUPPORTED
      else if length (fd_data fd) = 0 \<or>
         length (fd_data fd) > UINT16_MAX - CCSDS_CFDP_FILEDATA_OFFSET_LEN
      then Inl CCSDS_CFDP_STATUS_INVALID_ARGUMENT
      else
        let data_len = CCSDS_CFDP_FILEDATA_OFFSET_LEN + length (fd_data fd)
        in on_ok (ccsds_cfdp_encode_header
                    ((fd_header fd)\<lparr>pdu_data_field_len := of_nat data_len\<rparr>) cap)
             (\<lambda>hdr. if cap - length hdr < data_len then Inl CCSDS_CFDP_STATUS_BUFFER_TOO_SMALL
               else Inr (hdr @ put_be32 (fd_offset fd) @ fd_data fd)))"

definition ccsds_cfdp_decode_filedata :: "octets \<Rightarrow> (cfdp_filedata_pdu \<times> nat) cfdp_result" where
  "ccsds_cfdp_decode_filedata buf =
     on_ok (ccsds_cfdp_decode_header buf) (\<lambda>(header, header_len).
       if pdu_type header \<noteq> CCSDS_CFDP_PDU_TYPE_FILE_DATA \<or> segment_metadata_present header
       then Inl CCSDS_CFDP_STATUS_MALFORMED_PDU
       else if file_size_mode header \<noteq> CCSDS_CFDP_FILE_SIZE_SMALL then Inl CCSDS_CFDP_STATUS_UNSUPPORTED
       else if unat (pdu_data_field_len header) \<le> CCSDS_CFDP_FILEDATA_OFFSET_LEN \<or>
          length buf - header_len < unat (pdu_data_field_len header)
       then Inl CCSDS_CFDP_STATUS_MALFORMED_PDU
       else
         let pdu_end = header_len + unat (pdu_data_field_len header)
         in if pdu_end - header_len < CCSDS_CFDP_FILEDATA_OFFSET_LEN
            then Inl CCSDS_CFDP_STATUS_MALFORMED_PDU
            else
              let offset = header_len + CCSDS_CFDP_FILEDATA_OFFSET_LEN
              in Inr (\<lparr>fd_header = header, fd_offset = get_be32 (drop header_len buf),
                       fd_data = take (pdu_end - offset) (drop offset buf)\<rparr>, pdu_end))"

section \<open>End of file\<close>

record cfdp_eof_pdu =
  eof_header :: cfdp_pdu_header
  eof_condition_code :: u8
  eof_file_checksum :: u32
  eof_file_size :: u32

definition ccsds_cfdp_encode_eof :: "cfdp_eof_pdu \<Rightarrow> nat \<Rightarrow> octets cfdp_result" where
  "ccsds_cfdp_encode_eof eof cap =
     (if pdu_type (eof_header eof) \<noteq> CCSDS_CFDP_PDU_TYPE_FILE_DIRECTIVE \<or>
         segment_metadata_present (eof_header eof)
      then Inl CCSDS_CFDP_STATUS_INVALID_ARGUMENT
      else if file_size_mode (eof_header eof) \<noteq> CCSDS_CFDP_FILE_SIZE_SMALL
      then Inl CCSDS_CFDP_STATUS_UNSUPPORTED
      else if \<not> condition_code_is_valid (eof_condition_code eof)
      then Inl CCSDS_CFDP_STATUS_INVALID_ARGUMENT
      else
        on_ok (ccsds_cfdp_encode_header
                 ((eof_header eof)\<lparr>pdu_data_field_len := of_nat CCSDS_CFDP_EOF_DATA_LEN\<rparr>) cap)
          (\<lambda>hdr. if cap - length hdr < CCSDS_CFDP_EOF_DATA_LEN
            then Inl CCSDS_CFDP_STATUS_BUFFER_TOO_SMALL
            else Inr (hdr @ [CCSDS_CFDP_DIRECTIVE_EOF, push_bit 4 (eof_condition_code eof AND 0x0f)] @
                      put_be32 (eof_file_checksum eof) @ put_be32 (eof_file_size eof))))"

definition ccsds_cfdp_decode_eof :: "octets \<Rightarrow> (cfdp_eof_pdu \<times> nat) cfdp_result" where
  "ccsds_cfdp_decode_eof buf =
     on_ok (ccsds_cfdp_decode_header buf) (\<lambda>(header, header_len).
       if pdu_type header \<noteq> CCSDS_CFDP_PDU_TYPE_FILE_DIRECTIVE \<or> segment_metadata_present header
       then Inl CCSDS_CFDP_STATUS_MALFORMED_PDU
       else if file_size_mode header \<noteq> CCSDS_CFDP_FILE_SIZE_SMALL then Inl CCSDS_CFDP_STATUS_UNSUPPORTED
       else if unat (pdu_data_field_len header) \<noteq> CCSDS_CFDP_EOF_DATA_LEN \<or>
          length buf - header_len < unat (pdu_data_field_len header)
       then Inl CCSDS_CFDP_STATUS_MALFORMED_PDU
       else
         let pdu_end = header_len + unat (pdu_data_field_len header)
         in if pdu_end - header_len < 1 then Inl CCSDS_CFDP_STATUS_MALFORMED_PDU
            else if buf ! header_len \<noteq> CCSDS_CFDP_DIRECTIVE_EOF then Inl CCSDS_CFDP_STATUS_MALFORMED_PDU
            else if pdu_end - (header_len + 1) < 1 then Inl CCSDS_CFDP_STATUS_MALFORMED_PDU
            else if pdu_end - (header_len + 2) < 4 then Inl CCSDS_CFDP_STATUS_MALFORMED_PDU
            else if pdu_end - (header_len + 6) < 4 then Inl CCSDS_CFDP_STATUS_MALFORMED_PDU
            else Inr (\<lparr>eof_header = header,
                       eof_condition_code =
                         drop_bit 4 (buf ! (header_len + 1) AND CCSDS_CFDP_EOF_CONDITION_MASK),
                       eof_file_checksum = get_be32 (drop (header_len + 2) buf),
                       eof_file_size = get_be32 (drop (header_len + 6) buf)\<rparr>, header_len + 10))"

section \<open>Finished\<close>

record cfdp_finished_pdu =
  fin_header :: cfdp_pdu_header
  fin_condition_code :: u8
  delivery_code :: u8
  file_status :: u8

definition finished_status_byte :: "cfdp_finished_pdu \<Rightarrow> u8" where
  "finished_status_byte fin =
     push_bit 4 (fin_condition_code fin AND 0x0f) OR push_bit 2 (delivery_code fin AND 0x01) OR
     (file_status fin AND CCSDS_CFDP_FINISHED_FILE_STATUS_MASK)"

definition ccsds_cfdp_encode_finished :: "cfdp_finished_pdu \<Rightarrow> nat \<Rightarrow> octets cfdp_result" where
  "ccsds_cfdp_encode_finished fin cap =
     (if pdu_type (fin_header fin) \<noteq> CCSDS_CFDP_PDU_TYPE_FILE_DIRECTIVE \<or>
         segment_metadata_present (fin_header fin)
      then Inl CCSDS_CFDP_STATUS_INVALID_ARGUMENT
      else if file_size_mode (fin_header fin) \<noteq> CCSDS_CFDP_FILE_SIZE_SMALL
      then Inl CCSDS_CFDP_STATUS_UNSUPPORTED
      else if \<not> condition_code_is_valid (fin_condition_code fin) \<or>
         delivery_code fin > CCSDS_CFDP_DELIVERY_CODE_DATA_INCOMPLETE \<or>
         file_status fin > CCSDS_CFDP_FILE_STATUS_UNREPORTED
      then Inl CCSDS_CFDP_STATUS_INVALID_ARGUMENT
      else
        on_ok (ccsds_cfdp_encode_header
                 ((fin_header fin)\<lparr>pdu_data_field_len := of_nat CCSDS_CFDP_FINISHED_DATA_LEN\<rparr>) cap)
          (\<lambda>hdr. if cap - length hdr < CCSDS_CFDP_FINISHED_DATA_LEN
            then Inl CCSDS_CFDP_STATUS_BUFFER_TOO_SMALL
            else Inr (hdr @ [CCSDS_CFDP_DIRECTIVE_FINISHED, finished_status_byte fin])))"

definition ccsds_cfdp_decode_finished :: "octets \<Rightarrow> (cfdp_finished_pdu \<times> nat) cfdp_result" where
  "ccsds_cfdp_decode_finished buf =
     on_ok (ccsds_cfdp_decode_header buf) (\<lambda>(header, header_len).
       if pdu_type header \<noteq> CCSDS_CFDP_PDU_TYPE_FILE_DIRECTIVE \<or> segment_metadata_present header
       then Inl CCSDS_CFDP_STATUS_MALFORMED_PDU
       else if file_size_mode header \<noteq> CCSDS_CFDP_FILE_SIZE_SMALL then Inl CCSDS_CFDP_STATUS_UNSUPPORTED
       else if unat (pdu_data_field_len header) \<noteq> CCSDS_CFDP_FINISHED_DATA_LEN \<or>
          length buf - header_len < unat (pdu_data_field_len header)
       then Inl CCSDS_CFDP_STATUS_MALFORMED_PDU
       else
         let pdu_end = header_len + unat (pdu_data_field_len header)
         in if pdu_end - header_len < 1 then Inl CCSDS_CFDP_STATUS_MALFORMED_PDU
            else if buf ! header_len \<noteq> CCSDS_CFDP_DIRECTIVE_FINISHED
            then Inl CCSDS_CFDP_STATUS_MALFORMED_PDU
            else if pdu_end - (header_len + 1) < 1 then Inl CCSDS_CFDP_STATUS_MALFORMED_PDU
            else
              let status_byte = buf ! (header_len + 1);
                  condition = drop_bit 4 (status_byte AND CCSDS_CFDP_FINISHED_CONDITION_MASK)
              in if status_byte AND CCSDS_CFDP_FINISHED_SPARE_MASK \<noteq> 0
                 then Inl CCSDS_CFDP_STATUS_MALFORMED_PDU
                 else if \<not> condition_code_is_valid condition then Inl CCSDS_CFDP_STATUS_MALFORMED_PDU
                 else Inr (\<lparr>fin_header = header, fin_condition_code = condition,
                            delivery_code =
                              drop_bit 2 (status_byte AND CCSDS_CFDP_FINISHED_DELIVERY_MASK),
                            file_status = status_byte AND CCSDS_CFDP_FINISHED_FILE_STATUS_MASK\<rparr>,
                           header_len + 2))"

section \<open>Acknowledgement\<close>

record cfdp_ack_pdu =
  ack_header :: cfdp_pdu_header
  acknowledged_directive :: u8
  directive_subtype :: u8
  ack_condition_code :: u8
  transaction_status :: u8

definition ack_directive_byte :: "cfdp_ack_pdu \<Rightarrow> u8" where
  "ack_directive_byte ack =
     push_bit 4 (acknowledged_directive ack AND 0x0f) OR (directive_subtype ack AND 0x0f)"

definition ack_status_byte :: "cfdp_ack_pdu \<Rightarrow> u8" where
  "ack_status_byte ack =
     push_bit 4 (ack_condition_code ack AND 0x0f) OR
     (transaction_status ack AND CCSDS_CFDP_ACK_TRANSACTION_STATUS_MASK)"

definition ccsds_cfdp_encode_ack :: "cfdp_ack_pdu \<Rightarrow> nat \<Rightarrow> octets cfdp_result" where
  "ccsds_cfdp_encode_ack ack cap =
     (if pdu_type (ack_header ack) \<noteq> CCSDS_CFDP_PDU_TYPE_FILE_DIRECTIVE \<or>
         segment_metadata_present (ack_header ack) \<or>
         \<not> ack_directive_is_supported (acknowledged_directive ack) \<or>
         \<not> ack_subtype_is_valid (acknowledged_directive ack) (directive_subtype ack) \<or>
         \<not> condition_code_is_valid (ack_condition_code ack) \<or>
         transaction_status ack > CCSDS_CFDP_TRANSACTION_STATUS_UNRECOGNIZED
      then Inl CCSDS_CFDP_STATUS_INVALID_ARGUMENT
      else if file_size_mode (ack_header ack) \<noteq> CCSDS_CFDP_FILE_SIZE_SMALL
      then Inl CCSDS_CFDP_STATUS_UNSUPPORTED
      else
        on_ok (ccsds_cfdp_encode_header
                 ((ack_header ack)\<lparr>pdu_data_field_len := of_nat CCSDS_CFDP_ACK_DATA_LEN\<rparr>) cap)
          (\<lambda>hdr. if cap - length hdr < CCSDS_CFDP_ACK_DATA_LEN
            then Inl CCSDS_CFDP_STATUS_BUFFER_TOO_SMALL
            else Inr (hdr @ [CCSDS_CFDP_DIRECTIVE_ACK, ack_directive_byte ack, ack_status_byte ack])))"

definition ccsds_cfdp_decode_ack :: "octets \<Rightarrow> (cfdp_ack_pdu \<times> nat) cfdp_result" where
  "ccsds_cfdp_decode_ack buf =
     on_ok (ccsds_cfdp_decode_header buf) (\<lambda>(header, header_len).
       if pdu_type header \<noteq> CCSDS_CFDP_PDU_TYPE_FILE_DIRECTIVE \<or> segment_metadata_present header
       then Inl CCSDS_CFDP_STATUS_MALFORMED_PDU
       else if file_size_mode header \<noteq> CCSDS_CFDP_FILE_SIZE_SMALL then Inl CCSDS_CFDP_STATUS_UNSUPPORTED
       else if unat (pdu_data_field_len header) \<noteq> CCSDS_CFDP_ACK_DATA_LEN \<or>
          length buf - header_len < unat (pdu_data_field_len header)
       then Inl CCSDS_CFDP_STATUS_MALFORMED_PDU
       else
         let pdu_end = header_len + unat (pdu_data_field_len header)
         in if buf ! header_len \<noteq> CCSDS_CFDP_DIRECTIVE_ACK then Inl CCSDS_CFDP_STATUS_MALFORMED_PDU
            else
              let directive_byte = buf ! (header_len + 1);
                  directive = drop_bit 4 (directive_byte AND CCSDS_CFDP_ACK_DIRECTIVE_MASK);
                  subtype = directive_byte AND CCSDS_CFDP_ACK_SUBTYPE_MASK
              in if \<not> ack_directive_is_supported directive \<or> \<not> ack_subtype_is_valid directive subtype
                 then Inl CCSDS_CFDP_STATUS_UNSUPPORTED
                 else
                   let status_byte = buf ! (header_len + 2);
                       condition = drop_bit 4 (status_byte AND CCSDS_CFDP_ACK_CONDITION_MASK)
                   in if status_byte AND CCSDS_CFDP_ACK_SPARE_MASK \<noteq> 0
                      then Inl CCSDS_CFDP_STATUS_MALFORMED_PDU
                      else if \<not> condition_code_is_valid condition
                      then Inl CCSDS_CFDP_STATUS_MALFORMED_PDU
                      else Inr
                        (\<lparr>ack_header = header, acknowledged_directive = directive,
                          directive_subtype = subtype, ack_condition_code = condition,
                          transaction_status =
                            status_byte AND CCSDS_CFDP_ACK_TRANSACTION_STATUS_MASK\<rparr>, pdu_end))"

section \<open>Negative acknowledgement\<close>

record cfdp_nak_range =
  nak_start :: u32
  nak_end :: u32

text \<open>\<open>ranges\<close> is the initial part of the range array that \<open>range_count\<close> counts.\<close>

record cfdp_nak_pdu =
  nak_header :: cfdp_pdu_header
  scope_start :: u32
  scope_end :: u32
  nak_ranges :: "cfdp_nak_range list"

definition nak_range_in_scope :: "u32 \<Rightarrow> u32 \<Rightarrow> cfdp_nak_range \<Rightarrow> bool" where
  "nak_range_in_scope lo hi r \<longleftrightarrow>
     \<not> (nak_start r \<ge> nak_end r \<or> nak_start r < lo \<or> nak_end r > hi)"

definition nak_validate_ranges :: "cfdp_nak_pdu \<Rightarrow> cfdp_status" where
  "nak_validate_ranges nak =
     (if scope_start nak \<ge> scope_end nak \<or> length (nak_ranges nak) > CCSDS_CFDP_MAX_NAK_RANGES
      then CCSDS_CFDP_STATUS_INVALID_ARGUMENT
      else if list_all (nak_range_in_scope (scope_start nak) (scope_end nak)) (nak_ranges nak)
      then CCSDS_CFDP_STATUS_OK else CCSDS_CFDP_STATUS_INVALID_ARGUMENT)"

definition put_nak_range :: "cfdp_nak_range \<Rightarrow> octets" where
  "put_nak_range r = put_be32 (nak_start r) @ put_be32 (nak_end r)"

definition ccsds_cfdp_encode_nak :: "cfdp_nak_pdu \<Rightarrow> nat \<Rightarrow> octets cfdp_result" where
  "ccsds_cfdp_encode_nak nak cap =
     (if pdu_type (nak_header nak) \<noteq> CCSDS_CFDP_PDU_TYPE_FILE_DIRECTIVE \<or>
         segment_metadata_present (nak_header nak)
      then Inl CCSDS_CFDP_STATUS_INVALID_ARGUMENT
      else if file_size_mode (nak_header nak) \<noteq> CCSDS_CFDP_FILE_SIZE_SMALL
      then Inl CCSDS_CFDP_STATUS_UNSUPPORTED
      else if nak_validate_ranges nak \<noteq> CCSDS_CFDP_STATUS_OK then Inl (nak_validate_ranges nak)
      else
        let data_len = CCSDS_CFDP_NAK_MIN_DATA_LEN + length (nak_ranges nak) * CCSDS_CFDP_NAK_RANGE_LEN
        in if data_len > UINT16_MAX then Inl CCSDS_CFDP_STATUS_INVALID_ARGUMENT
           else
             on_ok (ccsds_cfdp_encode_header
                      ((nak_header nak)\<lparr>pdu_data_field_len := of_nat data_len\<rparr>) cap)
               (\<lambda>hdr. if cap - length hdr < data_len then Inl CCSDS_CFDP_STATUS_BUFFER_TOO_SMALL
                 else Inr (hdr @ [CCSDS_CFDP_DIRECTIVE_NAK] @ put_be32 (scope_start nak) @
                           put_be32 (scope_end nak) @ concat (map put_nak_range (nak_ranges nak)))))"

fun read_nak_ranges :: "nat \<Rightarrow> octets \<Rightarrow> cfdp_nak_range list" where
  "read_nak_ranges 0 buf = []"
| "read_nak_ranges (Suc n) buf =
     \<lparr>nak_start = get_be32 buf, nak_end = get_be32 (drop 4 buf)\<rparr> # read_nak_ranges n (drop 8 buf)"

definition ccsds_cfdp_decode_nak :: "octets \<Rightarrow> (cfdp_nak_pdu \<times> nat) cfdp_result" where
  "ccsds_cfdp_decode_nak buf =
     on_ok (ccsds_cfdp_decode_header buf) (\<lambda>(header, header_len).
       if pdu_type header \<noteq> CCSDS_CFDP_PDU_TYPE_FILE_DIRECTIVE \<or> segment_metadata_present header
       then Inl CCSDS_CFDP_STATUS_MALFORMED_PDU
       else if file_size_mode header \<noteq> CCSDS_CFDP_FILE_SIZE_SMALL then Inl CCSDS_CFDP_STATUS_UNSUPPORTED
       else if unat (pdu_data_field_len header) < CCSDS_CFDP_NAK_MIN_DATA_LEN \<or>
          length buf - header_len < unat (pdu_data_field_len header)
       then Inl CCSDS_CFDP_STATUS_MALFORMED_PDU
       else
         let pdu_end = header_len + unat (pdu_data_field_len header);
             remaining = unat (pdu_data_field_len header) - CCSDS_CFDP_NAK_MIN_DATA_LEN
         in if remaining mod CCSDS_CFDP_NAK_RANGE_LEN \<noteq> 0 \<or>
               remaining div CCSDS_CFDP_NAK_RANGE_LEN > CCSDS_CFDP_MAX_NAK_RANGES
            then Inl CCSDS_CFDP_STATUS_MALFORMED_PDU
            else if buf ! header_len \<noteq> CCSDS_CFDP_DIRECTIVE_NAK then Inl CCSDS_CFDP_STATUS_MALFORMED_PDU
            else
              let nak = \<lparr>nak_header = header, scope_start = get_be32 (drop (header_len + 1) buf),
                    scope_end = get_be32 (drop (header_len + 5) buf),
                    nak_ranges = read_nak_ranges (remaining div CCSDS_CFDP_NAK_RANGE_LEN)
                      (drop (header_len + 9) buf)\<rparr>
              in if nak_validate_ranges nak \<noteq> CCSDS_CFDP_STATUS_OK
                 then Inl CCSDS_CFDP_STATUS_MALFORMED_PDU
                 else Inr (nak, pdu_end))"

section \<open>Integers of a chosen length\<close>

lemma put_be64_octets:
  "put_be64 w = map (\<lambda>k. ucast (drop_bit (8 * k) w)) [7, 6, 5, 4, 3, 2, 1, 0]"
  by (simp add: put_be64_def put_be32_def put_be16_def)
    (intro conjI; rule bit_word_eqI; auto simp: bit_simps)

lemma put_be64_nth: "k < 8 \<Longrightarrow> put_be64 w ! (7 - k) = ucast (drop_bit (8 * k) w)"
proof -
  assume "k < 8"
  then have "k \<in> {0, 1, 2, 3, 4, 5, 6, 7}" by auto
  then show ?thesis by (auto simp: put_be64_octets)
qed

lemma bit_put_be64: "i < 64 \<Longrightarrow> bit w i \<longleftrightarrow> bit (put_be64 w ! (7 - i div 8)) (i mod 8)"
proof -
  assume i: "i < 64"
  then have "i div 8 < 8" by (simp add: less_mult_imp_div_less)
  then have "put_be64 w ! (7 - i div 8) = ucast (drop_bit (8 * (i div 8)) w)" by (rule put_be64_nth)
  moreover have "8 * (i div 8) + i mod 8 = i" by simp
  ultimately show ?thesis by (simp add: bit_ucast_iff bit_drop_bit_eq)
qed

lemma put_be64_inject: "put_be64 v = put_be64 w \<Longrightarrow> v = w"
  by (metis get_put_be64')

lemma put_be32_octets:
  "put_be32 w = map (\<lambda>k. ucast (drop_bit (8 * k) w)) [3, 2, 1, 0]"
  by (simp add: put_be32_def put_be16_def) (intro conjI; rule bit_word_eqI; auto simp: bit_simps)

lemma put_get_be64_list: "put_be64 (get_be64 [a, b, c, d, e, f, g, h]) = [a, b, c, d, e, f, g, h]"
proof -
  have p: "put_be16 (get_be16 (x # y # r)) = [x, y]" for x y r
    using put_get_be16 [of "x # y # r"] by simp
  have q: "put_be32 (get_be32 (x # y # z # v # r)) = [x, y, z, v]" for x y z v r
  proof -
    have "ucast (drop_bit 16 (get_be32 (x # y # z # v # r))) = get_be16 (x # y # z # v # r)"
      "ucast (get_be32 (x # y # z # v # r)) = get_be16 (z # v # r)"
      by (rule bit_word_eqI; auto simp: get_be32_def bit_simps dest: bit_imp_le_length)+
    then show ?thesis by (simp add: put_be32_def p)
  qed
  have "ucast (drop_bit 32 (get_be64 [a, b, c, d, e, f, g, h])) = get_be32 [a, b, c, d, e, f, g, h]"
    "ucast (get_be64 [a, b, c, d, e, f, g, h]) = get_be32 [e, f, g, h]"
    by (rule bit_word_eqI; auto simp: get_be64_def bit_simps dest: bit_imp_le_length)+
  then show ?thesis by (simp add: put_be64_def q)
qed

lemma put_get_be64: "length b = 8 \<Longrightarrow> put_be64 (get_be64 b) = b"
  using list_of_8 put_get_be64_list by blast

lemma value_fits_iff:
  assumes "unat len \<le> 8"
  shows "value_fits_len v len \<longleftrightarrow> take (8 - unat len) (put_be64 v) = replicate (8 - unat len) 0"
proof -
  let ?n = "unat len"
  have zero: "take (8 - ?n) (put_be64 v) = replicate (8 - ?n) 0 \<longleftrightarrow>
      (\<forall>k. ?n \<le> k \<and> k < 8 \<longrightarrow> put_be64 v ! (7 - k) = 0)"
  proof
    assume t: "take (8 - ?n) (put_be64 v) = replicate (8 - ?n) 0"
    show "\<forall>k. ?n \<le> k \<and> k < 8 \<longrightarrow> put_be64 v ! (7 - k) = 0"
    proof (intro allI impI)
      fix k assume "?n \<le> k \<and> k < 8"
      then have "7 - k < 8 - ?n" by linarith
      with t show "put_be64 v ! (7 - k) = 0" by (metis nth_replicate nth_take)
    qed
  next
    assume z: "\<forall>k. ?n \<le> k \<and> k < 8 \<longrightarrow> put_be64 v ! (7 - k) = 0"
    show "take (8 - ?n) (put_be64 v) = replicate (8 - ?n) 0"
    proof (rule nth_equalityI)
      fix i assume "i < length (take (8 - ?n) (put_be64 v))"
      then have "i < 8 - ?n" by simp
      moreover from this have "?n \<le> 7 - i \<and> 7 - i < 8" "7 - (7 - i) = i" by linarith+
      ultimately show "take (8 - ?n) (put_be64 v) ! i = replicate (8 - ?n) 0 ! i"
        using z [rule_format, of "7 - i"] by simp
    qed simp
  qed
  have "drop_bit (?n * 8) v = 0 \<longleftrightarrow> (\<forall>k. ?n \<le> k \<and> k < 8 \<longrightarrow> put_be64 v ! (7 - k) = 0)"
  proof
    assume d: "drop_bit (?n * 8) v = 0"
    show "\<forall>k. ?n \<le> k \<and> k < 8 \<longrightarrow> put_be64 v ! (7 - k) = 0"
    proof (intro allI impI)
      fix k assume k: "?n \<le> k \<and> k < 8"
      then have "drop_bit (8 * k) v = drop_bit (8 * (k - ?n)) (drop_bit (?n * 8) v)"
        by (simp add: algebra_simps flip: distrib_left)
      with d k show "put_be64 v ! (7 - k) = 0" by (simp add: put_be64_nth)
    qed
  next
    assume z: "\<forall>k. ?n \<le> k \<and> k < 8 \<longrightarrow> put_be64 v ! (7 - k) = 0"
    show "drop_bit (?n * 8) v = 0"
    proof (rule bit_word_eqI)
      fix i
      have "\<not> bit v (?n * 8 + i)"
      proof (cases "?n * 8 + i < 64")
        case True
        then have "?n \<le> (?n * 8 + i) div 8" "(?n * 8 + i) div 8 < 8" by simp_all
        with z show ?thesis using bit_put_be64 [OF True, of v] by simp
      qed (auto dest: bit_imp_le_length)
      then show "bit (drop_bit (?n * 8) v) i = bit 0 i" by (simp add: bit_drop_bit_eq)
    qed
  qed
  then show ?thesis unfolding zero value_fits_len_def CCSDS_CFDP_MAX_ENCODED_INT_LEN_def by auto
qed

lemma length_write_be_uint [simp]: "n \<le> 8 \<Longrightarrow> length (write_be_uint n v) = n"
  by (simp add: write_be_uint_def CCSDS_CFDP_MAX_ENCODED_INT_LEN_def)

lemma read_write_be_uint:
  assumes "unat len \<le> 8" "value_fits_len v len"
  shows "read_be_uint (write_be_uint (unat len) v @ rest) (unat len) = v"
proof -
  have "replicate (8 - unat len) 0 @ write_be_uint (unat len) v = put_be64 v"
    using assms value_fits_iff [OF assms(1), of v]
    by (metis CCSDS_CFDP_MAX_ENCODED_INT_LEN_def append_take_drop_id write_be_uint_def)
  then show ?thesis using assms(1)
    by (simp add: read_be_uint_def CCSDS_CFDP_MAX_ENCODED_INT_LEN_def)
qed

lemma write_read_be_uint:
  assumes "unat len \<le> 8" "unat len \<le> length buf"
  shows "write_be_uint (unat len) (read_be_uint buf (unat len)) = take (unat len) buf"
    and "value_fits_len (read_be_uint buf (unat len)) len"
proof -
  have p: "put_be64 (read_be_uint buf (unat len)) = replicate (8 - unat len) 0 @ take (unat len) buf"
    unfolding read_be_uint_def CCSDS_CFDP_MAX_ENCODED_INT_LEN_def
    by (rule put_get_be64) (use assms in simp)
  show "write_be_uint (unat len) (read_be_uint buf (unat len)) = take (unat len) buf"
    by (simp add: write_be_uint_def p CCSDS_CFDP_MAX_ENCODED_INT_LEN_def)
  show "value_fits_len (read_be_uint buf (unat len)) len"
    unfolding value_fits_iff [OF assms(1)] p by simp
qed

section \<open>Header octets\<close>

lemma octet_masks:
  "x AND 7 = x AND mask 3" "x AND 1 = x AND mask 1" "x AND 0x0f = x AND mask 4"
  "x AND 3 = x AND mask 2" for x :: u8
  by (simp_all add: mask_eq_exp_minus_1)

lemma octet_mask_id:
  "x \<le> 1 \<Longrightarrow> x AND mask 1 = x" "x \<le> 3 \<Longrightarrow> x AND mask 2 = x" "x \<le> 7 \<Longrightarrow> x AND mask 3 = x"
  "x \<le> 15 \<Longrightarrow> x AND mask 4 = x" for x :: u8
  by (rule and_mask_id, simp add: word_le_nat_alt)+

lemma octet_mask_le:
  "x AND mask 1 \<le> 1" "x AND mask 2 \<le> 3" "x AND mask 3 \<le> 7" "x AND mask 4 \<le> 15" for x :: u8
  by (simp_all add: word_le_nat_alt)
    (use unat_and_mask_less [of x 1] unat_and_mask_less [of x 2] unat_and_mask_less [of x 3]
      unat_and_mask_less [of x 4] in auto)

definition byte0_of :: "u8 \<Rightarrow> u8 \<Rightarrow> u8 \<Rightarrow> u8 \<Rightarrow> u8 \<Rightarrow> u8 \<Rightarrow> u8" where
  "byte0_of v t d m c f =
     push_bit 5 (v AND mask 3) OR push_bit 4 (t AND mask 1) OR push_bit 3 (d AND mask 1) OR
     push_bit 2 (m AND mask 1) OR push_bit 1 (c AND mask 1) OR (f AND mask 1)"

lemma byte0_split:
  "drop_bit 5 (byte0_of v t d m c f) AND mask 3 = v AND mask 3"
  "drop_bit 4 (byte0_of v t d m c f) AND mask 1 = t AND mask 1"
  "drop_bit 3 (byte0_of v t d m c f) AND mask 1 = d AND mask 1"
  "drop_bit 2 (byte0_of v t d m c f) AND mask 1 = m AND mask 1"
  "drop_bit 1 (byte0_of v t d m c f) AND mask 1 = c AND mask 1"
  "byte0_of v t d m c f AND mask 1 = f AND mask 1"
  unfolding byte0_of_def
  by (rule bit_word_eqI, simp only: field_bits, force)+

lemma byte0_join:
  "byte0_of (drop_bit 5 b) (drop_bit 4 b) (drop_bit 3 b) (drop_bit 2 b) (drop_bit 1 b) b = b"
proof (rule bit_word_eqI)
  fix n assume "n < LENGTH(8)"
  then have "n = 0 \<or> n = 1 \<or> n = 2 \<or> n = 3 \<or> n = 4 \<or> n = 5 \<or> n = 6 \<or> n = 7" by auto
  then show "bit (byte0_of (drop_bit 5 b) (drop_bit 4 b) (drop_bit 3 b) (drop_bit 2 b) (drop_bit 1 b) b) n = bit b n"
    unfolding byte0_of_def by (elim disjE; simp only: field_bits; simp)
qed

definition byte3_of :: "u8 \<Rightarrow> u8 \<Rightarrow> bool \<Rightarrow> u8 \<Rightarrow> u8" where
  "byte3_of s i m t =
     push_bit 7 (s AND mask 1) OR push_bit 4 (i AND mask 3) OR push_bit 3 (of_bool m) OR (t AND mask 3)"

lemma byte3_split:
  "drop_bit 7 (byte3_of s i m t) AND mask 1 = s AND mask 1"
  "drop_bit 4 (byte3_of s i m t) AND mask 3 = i AND mask 3"
  "byte3_of s i m t AND mask 3 = t AND mask 3"
  "bit (byte3_of s i m t) 3 = m"
  unfolding byte3_of_def
  by (rule bit_word_eqI, simp only: field_bits, force)+ (simp only: field_bits, force)

lemma byte3_join: "byte3_of (drop_bit 7 b) (drop_bit 4 b) (bit b 3) b = b"
proof (rule bit_word_eqI)
  fix n assume "n < LENGTH(8)"
  then have "n = 0 \<or> n = 1 \<or> n = 2 \<or> n = 3 \<or> n = 4 \<or> n = 5 \<or> n = 6 \<or> n = 7" by auto
  then show "bit (byte3_of (drop_bit 7 b) (drop_bit 4 b) (bit b 3) b) n = bit b n"
    unfolding byte3_of_def by (elim disjE) (simp_all add: field_bits)
qed

lemma and_8_bit: "(x AND 8 \<noteq> 0) = bit x 3" for x :: u8
  by (simp add: bit_iff_and_push_bit_not_eq_0 [where ?n = 3])

lemma header_byte0_of:
  "header_byte0 h = byte0_of (hdr_version h) (pdu_type h) (direction h) (transmission_mode h)
     (crc_flag h) (file_size_mode h)"
  by (simp only: header_byte0_def byte0_of_def octet_masks)

lemma header_byte3_of:
  "header_byte3 h = byte3_of (segmentation_control h) (entity_id_len h - 1)
     (segment_metadata_present h) (transaction_sequence_number_len h - 1)"
proof -
  have "(if m then 0x08 else 0) = push_bit 3 (of_bool m :: u8)" for m by simp
  then show ?thesis by (simp only: header_byte3_def byte3_of_def octet_masks)
qed

lemma len_field:
  "1 \<le> l \<Longrightarrow> l \<le> 4 \<Longrightarrow> ((l - 1) AND mask 3) + 1 = l"
  "((x AND mask 3) + 1 - 1) AND mask 3 = x AND mask 3" for l x :: u8
proof -
  assume "1 \<le> l" "l \<le> 4"
  then have "l - 1 \<le> 7" by (simp add: word_le_nat_alt unat_sub)
  then show "((l - 1) AND mask 3) + 1 = l" by (simp add: octet_mask_id)
qed (simp add: and.assoc)

lemma byte0_of_masked:
  "byte0_of (v AND mask 3) (t AND mask 1) (d AND mask 1) (m AND mask 1) (c AND mask 1) (f AND mask 1) =
     byte0_of v t d m c f"
  by (simp only: byte0_of_def and.assoc and.idem)

lemma byte3_of_masked:
  "byte3_of (s AND mask 1) ((i AND mask 3) + 1 - 1) m ((t AND mask 3) + 1 - 1) = byte3_of s i m t"
  by (simp only: byte3_of_def len_field and.assoc and.idem)

definition header_wf :: "cfdp_pdu_header \<Rightarrow> bool" where
  "header_wf h \<longleftrightarrow>
     hdr_version h = CCSDS_CFDP_VERSION_1 \<and> pdu_type h \<le> 1 \<and> direction h \<le> 1 \<and>
     transmission_mode h \<le> 1 \<and> crc_flag h \<le> 1 \<and> segmentation_control h \<le> 1 \<and>
     file_size_mode h = CCSDS_CFDP_FILE_SIZE_SMALL \<and> header_lengths_are_valid h \<and>
     value_fits_len (source_entity_id h) (entity_id_len h) \<and>
     value_fits_len (transaction_sequence_number h) (transaction_sequence_number_len h) \<and>
     value_fits_len (destination_entity_id h) (entity_id_len h)"

definition header_octets :: "cfdp_pdu_header \<Rightarrow> octets" where
  "header_octets h = [header_byte0 h] @ put_be16 (pdu_data_field_len h) @ [header_byte3 h] @
     write_be_uint (unat (entity_id_len h)) (source_entity_id h) @
     write_be_uint (unat (transaction_sequence_number_len h)) (transaction_sequence_number h) @
     write_be_uint (unat (entity_id_len h)) (destination_entity_id h)"

lemma encode_header_iff:
  "ccsds_cfdp_encode_header h cap = Inr b \<longleftrightarrow>
     header_wf h \<and> ccsds_cfdp_header_encoded_len h \<le> cap \<and> b = header_octets h"
  by (auto simp: ccsds_cfdp_encode_header_def header_wf_def header_octets_def cfdp_codes not_le)

lemma header_wf_lens:
  assumes "header_wf h"
  shows "1 \<le> entity_id_len h" "entity_id_len h \<le> 4" "1 \<le> transaction_sequence_number_len h"
    "transaction_sequence_number_len h \<le> 4" "unat (entity_id_len h) \<le> 8"
    "unat (transaction_sequence_number_len h) \<le> 8"
  using assms by (auto simp: header_wf_def header_lengths_are_valid_def encoded_int_len_is_valid_def cfdp_limits)

lemma length_header_octets:
  "header_wf h \<Longrightarrow> length (header_octets h) = ccsds_cfdp_header_encoded_len h"
  using header_wf_lens [of h]
  by (auto simp: header_octets_def ccsds_cfdp_header_encoded_len_def header_wf_def cfdp_limits)

lemma fixed_codes:
  "CCSDS_CFDP_VERSION_1 AND mask 3 = CCSDS_CFDP_VERSION_1"
  "CCSDS_CFDP_FILE_SIZE_SMALL AND mask 1 = CCSDS_CFDP_FILE_SIZE_SMALL"
  by (simp_all add: octet_mask_id CCSDS_CFDP_VERSION_1_def CCSDS_CFDP_FILE_SIZE_SMALL_def)

lemma decode_header_octets:
  assumes "header_wf h"
  shows "ccsds_cfdp_decode_header (header_octets h @ rest) = Inr (h, length (header_octets h))"
proof -
  let ?buf = "header_octets h @ rest"
  let ?i = "unat (entity_id_len h)" and ?t = "unat (transaction_sequence_number_len h)"
  note lens = header_wf_lens [OF assms] and wf = assms [unfolded header_wf_def]
  have bytes: "?buf ! 0 = header_byte0 h" "?buf ! 3 = header_byte3 h"
    "get_be16 (drop 1 ?buf) = pdu_data_field_len h"
    by (simp_all add: header_octets_def nth_append nth_Cons')
  have body: "drop 4 ?buf = write_be_uint ?i (source_entity_id h) @
      write_be_uint ?t (transaction_sequence_number h) @
      write_be_uint ?i (destination_entity_id h) @ rest"
    by (simp add: header_octets_def put_be16_def)
  then have "drop (4 + ?i) ?buf = write_be_uint ?t (transaction_sequence_number h) @
      write_be_uint ?i (destination_entity_id h) @ rest"
    using lens by (simp only: drop_drop [symmetric] add.commute [of 4]) simp
  moreover from this have "drop (4 + ?i + ?t) ?buf = write_be_uint ?i (destination_entity_id h) @ rest"
    using lens by (simp only: drop_drop [symmetric] add.commute [of _ ?t]) simp
  ultimately have ints: "read_be_uint (drop 4 ?buf) ?i = source_entity_id h"
    "read_be_uint (drop (4 + ?i) ?buf) ?t = transaction_sequence_number h"
    "read_be_uint (drop (4 + ?i + ?t) ?buf) ?i = destination_entity_id h"
    using body read_write_be_uint lens wf by metis+
  have len: "length (header_octets h) = 4 + 2 * ?i + ?t"
    using length_header_octets [OF assms] wf
    by (simp add: ccsds_cfdp_header_encoded_len_def CCSDS_CFDP_FIXED_HEADER_MIN_LEN_def)
  have f0: "drop_bit 5 (header_byte0 h) AND mask 3 = CCSDS_CFDP_VERSION_1"
    "drop_bit 4 (header_byte0 h) AND mask 1 = pdu_type h"
    "drop_bit 3 (header_byte0 h) AND mask 1 = direction h"
    "drop_bit 2 (header_byte0 h) AND mask 1 = transmission_mode h"
    "drop_bit 1 (header_byte0 h) AND mask 1 = crc_flag h"
    "header_byte0 h AND mask 1 = CCSDS_CFDP_FILE_SIZE_SMALL"
    using wf by (simp_all only: header_byte0_of byte0_split octet_mask_id fixed_codes)
  have f3: "drop_bit 7 (header_byte3 h) AND mask 1 = segmentation_control h"
    "(drop_bit 4 (header_byte3 h) AND mask 3) + 1 = entity_id_len h"
    "(header_byte3 h AND mask 3) + 1 = transaction_sequence_number_len h"
    "(header_byte3 h AND 8 \<noteq> 0) = segment_metadata_present h"
    using wf lens by (simp_all only: header_byte3_of byte3_split octet_mask_id len_field and_8_bit)
  show ?thesis
    using wf lens
    by (simp only: ccsds_cfdp_decode_header_def Let_def octet_masks CCSDS_CFDP_FIXED_HEADER_MIN_LEN_def
        bytes ints f0 f3 len length_append header_lengths_are_valid_def) simp
qed

lemma take_header_fields:
  "take (4 + 2 * i + t) buf = take 1 buf @ take 2 (drop 1 buf) @ take 1 (drop 3 buf) @
     take i (drop 4 buf) @ take t (drop (4 + i) buf) @ take i (drop (4 + i + t) buf)"
proof -
  have "take (1 + 2 + 1) buf = take 1 buf @ take 2 (drop 1 buf) @ take 1 (drop (1 + 2) buf)"
    by (simp only: take_add append_assoc)
  then have four: "take 4 buf = take 1 buf @ take 2 (drop 1 buf) @ take 1 (drop 3 buf)"
    by (simp only: numeral_plus_one one_plus_numeral add_num_simps)
  have "4 + 2 * i + t = 4 + i + t + i" by simp
  then show ?thesis by (simp only: take_add append_assoc four)
qed

lemma decode_header_canonical:
  assumes "ccsds_cfdp_decode_header buf = Inr (h, n)"
  shows "header_wf h" "n = length (header_octets h)" "n \<le> length buf" "take n buf = header_octets h"
proof -
  let ?id = "(drop_bit 4 (buf ! 3) AND 0x7) + 1" and ?seq = "(buf ! 3 AND 0x7) + 1"
  have c: "4 \<le> length buf" "drop_bit 5 (buf ! 0) AND 0x7 = CCSDS_CFDP_VERSION_1"
    "buf ! 0 AND 0x1 = CCSDS_CFDP_FILE_SIZE_SMALL"
    "encoded_int_len_is_valid ?id CCSDS_CFDP_MAX_ENTITY_ID_LEN"
    "encoded_int_len_is_valid ?seq CCSDS_CFDP_MAX_TRANS_SEQ_LEN"
    "n = 4 + 2 * unat ?id + unat ?seq" "n \<le> length buf"
    and h: "h = \<lparr>hdr_version = CCSDS_CFDP_VERSION_1, pdu_type = drop_bit 4 (buf ! 0) AND 0x1,
      direction = drop_bit 3 (buf ! 0) AND 0x1, transmission_mode = drop_bit 2 (buf ! 0) AND 0x1,
      crc_flag = drop_bit 1 (buf ! 0) AND 0x1, file_size_mode = CCSDS_CFDP_FILE_SIZE_SMALL,
      pdu_data_field_len = get_be16 (drop 1 buf), segmentation_control = drop_bit 7 (buf ! 3) AND 0x1,
      segment_metadata_present = (buf ! 3 AND 0x08 \<noteq> 0), entity_id_len = ?id,
      transaction_sequence_number_len = ?seq, source_entity_id = read_be_uint (drop 4 buf) (unat ?id),
      transaction_sequence_number = read_be_uint (drop (4 + unat ?id) buf) (unat ?seq),
      destination_entity_id = read_be_uint (drop (4 + unat ?id + unat ?seq) buf) (unat ?id)\<rparr>"
    using assms
    by (simp_all only: ccsds_cfdp_decode_header_def Let_def CCSDS_CFDP_FIXED_HEADER_MIN_LEN_def
        not_less not_not de_Morgan_disj sum.distinct sum.inject prod.inject split: if_splits)
  have lens: "unat ?id \<le> 8" "unat ?seq \<le> 8"
    using c by (simp_all add: encoded_int_len_is_valid_def CCSDS_CFDP_MAX_ENCODED_INT_LEN_def)
  have room: "unat ?id \<le> length (drop 4 buf)" "unat ?seq \<le> length (drop (4 + unat ?id) buf)"
    "unat ?id \<le> length (drop (4 + unat ?id + unat ?seq) buf)"
    using c(7) unfolding c(6) length_drop by linarith+
  note ints = write_read_be_uint [OF lens(1) room(1)] write_read_be_uint [OF lens(2) room(2)]
    write_read_be_uint [OF lens(1) room(3)]
  show wf: "header_wf h"
    using c(4,5) ints(2,4,6)
    by (simp only: header_wf_def h header_lengths_are_valid_def cfdp_pdu_header.simps octet_masks
        octet_mask_le simp_thms)
  have "take n buf = take 1 buf @ take 2 (drop 1 buf) @ take 1 (drop 3 buf) @
      take (unat ?id) (drop 4 buf) @ take (unat ?seq) (drop (4 + unat ?id) buf) @
      take (unat ?id) (drop (4 + unat ?id + unat ?seq) buf)"
    unfolding c(6) by (rule take_header_fields)
  moreover have "take 1 buf = [header_byte0 h]"
  proof -
    have "header_byte0 h = byte0_of (drop_bit 5 (buf ! 0) AND mask 3) (drop_bit 4 (buf ! 0) AND mask 1)
        (drop_bit 3 (buf ! 0) AND mask 1) (drop_bit 2 (buf ! 0) AND mask 1)
        (drop_bit 1 (buf ! 0) AND mask 1) (buf ! 0 AND mask 1)"
      by (simp only: header_byte0_of h cfdp_pdu_header.simps octet_masks c(2,3) [unfolded octet_masks])
    then have "header_byte0 h = buf ! 0" by (simp only: byte0_of_masked byte0_join)
    with c(1) show ?thesis by (cases buf) simp_all
  qed
  moreover have "take 2 (drop 1 buf) = put_be16 (pdu_data_field_len h)"
    using put_get_be16 [of "drop 1 buf"] c(1) by (simp add: h)
  moreover have "take 1 (drop 3 buf) = [header_byte3 h]"
  proof -
    have "header_byte3 h = byte3_of (drop_bit 7 (buf ! 3) AND mask 1)
        ((drop_bit 4 (buf ! 3) AND mask 3) + 1 - 1) (bit (buf ! 3) 3) ((buf ! 3 AND mask 3) + 1 - 1)"
      by (simp only: header_byte3_of h cfdp_pdu_header.simps octet_masks and_8_bit)
    then have "header_byte3 h = buf ! 3" by (simp only: byte3_of_masked byte3_join)
    with c(1) show ?thesis by (cases "drop 3 buf") (auto simp: nth_via_drop)
  qed
  ultimately show t: "take n buf = header_octets h"
    using ints(1,3,5)
    by (simp only: header_octets_def h cfdp_pdu_header.simps)
  show "n \<le> length buf" by (rule c)
  then show "n = length (header_octets h)" using t by (metis length_take min.absorb2)
qed

section \<open>Status octets\<close>

lemma octet_eq_bits: "x = y \<longleftrightarrow> bit x 0 = bit y 0 \<and> bit x 1 = bit y 1 \<and> bit x 2 = bit y 2 \<and>
    bit x 3 = bit y 3 \<and> bit x 4 = bit y 4 \<and> bit x 5 = bit y 5 \<and> bit x 6 = bit y 6 \<and> bit x 7 = bit y 7"
  for x y :: u8
proof
  assume e: "bit x 0 = bit y 0 \<and> bit x 1 = bit y 1 \<and> bit x 2 = bit y 2 \<and> bit x 3 = bit y 3 \<and>
    bit x 4 = bit y 4 \<and> bit x 5 = bit y 5 \<and> bit x 6 = bit y 6 \<and> bit x 7 = bit y 7"
  show "x = y"
  proof (rule bit_word_eqI)
    fix n assume "n < LENGTH(8)"
    then have "n = 0 \<or> n = 1 \<or> n = 2 \<or> n = 3 \<or> n = 4 \<or> n = 5 \<or> n = 6 \<or> n = 7" by auto
    with e show "bit x n = bit y n" by (elim disjE) simp_all
  qed
qed simp

lemma octet_fields:
  "drop_bit 4 (x AND 0xf0) = drop_bit 4 x AND mask 4"
  "drop_bit 2 (x AND 0x04) = drop_bit 2 x AND mask 1"
  "x AND 0xb0 = 0 \<longleftrightarrow> \<not> bit x 4 \<and> \<not> bit x 5 \<and> \<not> bit x 7"
  "x AND 0x40 \<noteq> 0 \<longleftrightarrow> bit x 6"
  "x AND 0x0c = 0 \<longleftrightarrow> \<not> bit x 2 \<and> \<not> bit x 3"
  "x AND 0x08 = 0 \<longleftrightarrow> \<not> bit x 3" for x :: u8
  by (simp_all add: octet_eq_bits field_bits)

lemma status_fields:
  "drop_bit 4 (push_bit 4 (c AND mask 4) OR push_bit 2 (d AND mask 1) OR (s AND mask 2)) AND mask 4 = c AND mask 4"
  "drop_bit 2 (push_bit 4 (c AND mask 4) OR push_bit 2 (d AND mask 1) OR (s AND mask 2)) AND mask 1 = d AND mask 1"
  "(push_bit 4 (c AND mask 4) OR push_bit 2 (d AND mask 1) OR (s AND mask 2)) AND mask 2 = s AND mask 2"
  "\<not> bit (push_bit 4 (c AND mask 4) OR push_bit 2 (d AND mask 1) OR (s AND mask 2)) 3"
  "drop_bit 4 (push_bit 4 (c AND mask 4) OR (e AND mask 4)) AND mask 4 = c AND mask 4"
  "(push_bit 4 (c AND mask 4) OR (e AND mask 4)) AND mask 4 = e AND mask 4"
  "drop_bit 4 (push_bit 4 (c AND mask 4) OR (s AND mask 2)) AND mask 4 = c AND mask 4"
  "(push_bit 4 (c AND mask 4) OR (s AND mask 2)) AND mask 2 = s AND mask 2"
  "\<not> bit (push_bit 4 (c AND mask 4) OR (s AND mask 2)) 2"
  "\<not> bit (push_bit 4 (c AND mask 4) OR (s AND mask 2)) 3"
  "drop_bit 4 (push_bit 4 (c AND mask 4)) AND mask 4 = c AND mask 4"
  for c d s e :: u8
  by ((rule bit_word_eqI)?, simp only: field_bits, force)+

lemma control_fields:
  "((if b then 0x40 else 0) OR (t AND mask 4)) AND mask 4 = t AND mask 4"
  "\<not> bit ((if b then 0x40 else 0) OR (t AND mask 4)) 4"
  "\<not> bit ((if b then 0x40 else 0) OR (t AND mask 4)) 5"
  "\<not> bit ((if b then 0x40 else 0) OR (t AND mask 4)) 7"
  "bit ((if b then 0x40 else 0) OR (t AND mask 4)) 6 = b" for t :: u8
  by (simp_all add: octet_eq_bits field_bits)

section \<open>Decoding what was encoded\<close>

text \<open>The payload of a PDU behind its header.\<close>

lemma pdu_nth: "n = length hdr \<Longrightarrow> (hdr @ xs) ! (n + i) = xs ! i"
  "n = length hdr \<Longrightarrow> (hdr @ xs) ! n = xs ! 0"
  "(hdr @ xs) ! Suc (length hdr) = xs ! 1"
  "(hdr @ xs) ! Suc (Suc (length hdr)) = xs ! 2"
  "n = length hdr \<Longrightarrow> drop (n + i) (hdr @ xs) = drop i xs"
  "n = length hdr \<Longrightarrow> drop n (hdr @ xs) = xs"
  by (simp_all add: nth_append)

definition with_len :: "cfdp_pdu_header \<Rightarrow> nat \<Rightarrow> cfdp_pdu_header" where
  "with_len h n = h\<lparr>pdu_data_field_len := of_nat n\<rparr>"

lemma with_len_simps [simp]:
  "pdu_type (with_len h n) = pdu_type h" "file_size_mode (with_len h n) = file_size_mode h"
  "segment_metadata_present (with_len h n) = segment_metadata_present h"
  "transmission_mode (with_len h n) = transmission_mode h"
  "n \<le> 65535 \<Longrightarrow> unat (pdu_data_field_len (with_len h n)) = n"
  by (simp_all add: with_len_def unat_of_nat)

lemma encode_headerE:
  assumes "ccsds_cfdp_encode_header (h\<lparr>pdu_data_field_len := of_nat n\<rparr>) cap = Inr hdr"
  shows "ccsds_cfdp_decode_header (hdr @ rest) = Inr (with_len h n, length hdr)"
  using assms decode_header_octets by (auto simp: encode_header_iff with_len_def)

lemma decode_encoded_filedata:
  assumes "ccsds_cfdp_encode_filedata fd cap = Inr b"
  shows "ccsds_cfdp_decode_filedata (b @ rest) =
    Inr (fd\<lparr>fd_header := with_len (fd_header fd) (4 + length (fd_data fd))\<rparr>, length b)"
proof -
  obtain hdr where h: "ccsds_cfdp_encode_header
      ((fd_header fd)\<lparr>pdu_data_field_len := of_nat (4 + length (fd_data fd))\<rparr>) cap = Inr hdr"
    and b: "b = hdr @ put_be32 (fd_offset fd) @ fd_data fd"
    and g: "pdu_type (fd_header fd) = CCSDS_CFDP_PDU_TYPE_FILE_DATA"
      "\<not> segment_metadata_present (fd_header fd)" "file_size_mode (fd_header fd) = CCSDS_CFDP_FILE_SIZE_SMALL"
      "0 < length (fd_data fd)" "4 + length (fd_data fd) \<le> 65535"
    using assms by (auto simp: ccsds_cfdp_encode_filedata_def cfdp_limits Let_def split: if_splits)
  show ?thesis
    unfolding ccsds_cfdp_decode_filedata_def b append_assoc encode_headerE [OF h]
    using g by (simp add: Let_def cfdp_limits pdu_nth)
qed

lemma decode_encoded_eof:
  assumes "ccsds_cfdp_encode_eof eof cap = Inr b"
  shows "ccsds_cfdp_decode_eof (b @ rest) =
    Inr (eof\<lparr>eof_header := with_len (eof_header eof) 10\<rparr>, length b)"
proof -
  obtain hdr where h: "ccsds_cfdp_encode_header
      ((eof_header eof)\<lparr>pdu_data_field_len := of_nat 10\<rparr>) cap = Inr hdr"
    and b: "b = hdr @ [CCSDS_CFDP_DIRECTIVE_EOF, push_bit 4 (eof_condition_code eof AND 0x0f)] @
        put_be32 (eof_file_checksum eof) @ put_be32 (eof_file_size eof)"
    and g: "pdu_type (eof_header eof) = CCSDS_CFDP_PDU_TYPE_FILE_DIRECTIVE"
      "\<not> segment_metadata_present (eof_header eof)" "file_size_mode (eof_header eof) = CCSDS_CFDP_FILE_SIZE_SMALL"
      "eof_condition_code eof \<le> 15"
    using assms
    by (auto simp: ccsds_cfdp_encode_eof_def cfdp_limits Let_def condition_code_is_valid_def
        CCSDS_CFDP_CONDITION_CANCEL_REQUEST_RECEIVED_def split: if_splits)
  have c: "drop_bit 4 (push_bit 4 (eof_condition_code eof AND 0x0f) AND CCSDS_CFDP_EOF_CONDITION_MASK) =
      eof_condition_code eof"
    unfolding CCSDS_CFDP_EOF_CONDITION_MASK_def octet_fields octet_masks status_fields
    by (rule octet_mask_id(4) [OF g(4)])
  show ?thesis
    unfolding ccsds_cfdp_decode_eof_def b append_assoc encode_headerE [OF h]
    using g c by (simp add: Let_def cfdp_limits pdu_nth)
qed

lemma decode_encoded_finished:
  assumes "ccsds_cfdp_encode_finished fin cap = Inr b"
  shows "ccsds_cfdp_decode_finished (b @ rest) =
    Inr (fin\<lparr>fin_header := with_len (fin_header fin) 2\<rparr>, length b)"
proof -
  obtain hdr where h: "ccsds_cfdp_encode_header
      ((fin_header fin)\<lparr>pdu_data_field_len := of_nat 2\<rparr>) cap = Inr hdr"
    and b: "b = hdr @ [CCSDS_CFDP_DIRECTIVE_FINISHED, finished_status_byte fin]"
    and g: "pdu_type (fin_header fin) = CCSDS_CFDP_PDU_TYPE_FILE_DIRECTIVE"
      "\<not> segment_metadata_present (fin_header fin)" "file_size_mode (fin_header fin) = CCSDS_CFDP_FILE_SIZE_SMALL"
      "condition_code_is_valid (fin_condition_code fin)" "fin_condition_code fin \<le> 15"
      "delivery_code fin \<le> 1" "file_status fin \<le> 3"
    using assms
    by (auto simp: ccsds_cfdp_encode_finished_def cfdp_limits Let_def condition_code_is_valid_def not_less
        CCSDS_CFDP_CONDITION_CANCEL_REQUEST_RECEIVED_def CCSDS_CFDP_DELIVERY_CODE_DATA_INCOMPLETE_def
        CCSDS_CFDP_FILE_STATUS_UNREPORTED_def split: if_splits)
  let ?s = "finished_status_byte fin"
  have s: "?s AND CCSDS_CFDP_FINISHED_SPARE_MASK = 0"
    "drop_bit 4 (?s AND CCSDS_CFDP_FINISHED_CONDITION_MASK) = fin_condition_code fin"
    "drop_bit 2 (?s AND CCSDS_CFDP_FINISHED_DELIVERY_MASK) = delivery_code fin"
    "?s AND CCSDS_CFDP_FINISHED_FILE_STATUS_MASK = file_status fin"
    unfolding finished_status_byte_def CCSDS_CFDP_FINISHED_SPARE_MASK_def
      CCSDS_CFDP_FINISHED_CONDITION_MASK_def CCSDS_CFDP_FINISHED_DELIVERY_MASK_def
      CCSDS_CFDP_FINISHED_FILE_STATUS_MASK_def octet_fields octet_masks status_fields
    by (rule octet_mask_id g status_fields)+
  show ?thesis
    unfolding ccsds_cfdp_decode_finished_def b append_assoc encode_headerE [OF h]
    using g s by (simp add: Let_def cfdp_limits pdu_nth)
qed

lemma decode_encoded_ack:
  assumes "ccsds_cfdp_encode_ack ack cap = Inr b"
  shows "ccsds_cfdp_decode_ack (b @ rest) =
    Inr (ack\<lparr>ack_header := with_len (ack_header ack) 3\<rparr>, length b)"
proof -
  obtain hdr where h: "ccsds_cfdp_encode_header
      ((ack_header ack)\<lparr>pdu_data_field_len := of_nat 3\<rparr>) cap = Inr hdr"
    and b: "b = hdr @ [CCSDS_CFDP_DIRECTIVE_ACK, ack_directive_byte ack, ack_status_byte ack]"
    and g: "pdu_type (ack_header ack) = CCSDS_CFDP_PDU_TYPE_FILE_DIRECTIVE"
      "\<not> segment_metadata_present (ack_header ack)" "file_size_mode (ack_header ack) = CCSDS_CFDP_FILE_SIZE_SMALL"
      "condition_code_is_valid (ack_condition_code ack)" "transaction_status ack \<le> 3"
      "ack_directive_is_supported (acknowledged_directive ack)"
      "ack_subtype_is_valid (acknowledged_directive ack) (directive_subtype ack)"
    using assms
    by (auto simp: ccsds_cfdp_encode_ack_def cfdp_limits Let_def not_less
        CCSDS_CFDP_TRANSACTION_STATUS_UNRECOGNIZED_def split: if_splits)
  have r: "ack_condition_code ack \<le> 15" "acknowledged_directive ack \<le> 15" "directive_subtype ack \<le> 15"
    using g by (auto simp: condition_code_is_valid_def ack_directive_is_supported_def
        ack_subtype_is_valid_def cfdp_codes split: if_splits)
  have d: "drop_bit 4 (ack_directive_byte ack AND CCSDS_CFDP_ACK_DIRECTIVE_MASK) = acknowledged_directive ack"
    "ack_directive_byte ack AND CCSDS_CFDP_ACK_SUBTYPE_MASK = directive_subtype ack"
    unfolding ack_directive_byte_def CCSDS_CFDP_ACK_DIRECTIVE_MASK_def CCSDS_CFDP_ACK_SUBTYPE_MASK_def
      octet_fields octet_masks status_fields by (rule octet_mask_id r)+
  have s: "ack_status_byte ack AND CCSDS_CFDP_ACK_SPARE_MASK = 0"
    "drop_bit 4 (ack_status_byte ack AND CCSDS_CFDP_ACK_CONDITION_MASK) = ack_condition_code ack"
    "ack_status_byte ack AND CCSDS_CFDP_ACK_TRANSACTION_STATUS_MASK = transaction_status ack"
    unfolding ack_status_byte_def CCSDS_CFDP_ACK_SPARE_MASK_def CCSDS_CFDP_ACK_CONDITION_MASK_def
      CCSDS_CFDP_ACK_TRANSACTION_STATUS_MASK_def octet_fields octet_masks status_fields
    by (rule octet_mask_id r g status_fields conjI)+
  show ?thesis
    unfolding ccsds_cfdp_decode_ack_def b append_assoc encode_headerE [OF h]
    using g d s by (simp add: Let_def cfdp_limits pdu_nth)
qed

lemma length_put_nak_ranges [simp]: "length (concat (map put_nak_range rs)) = 8 * length rs"
  by (induction rs) (simp_all add: put_nak_range_def)

lemma read_put_nak_ranges: "read_nak_ranges (length rs) (concat (map put_nak_range rs) @ rest) = rs"
  by (induction rs) (simp_all add: put_nak_range_def)

lemma decode_encoded_nak:
  assumes "ccsds_cfdp_encode_nak nak cap = Inr b"
  shows "ccsds_cfdp_decode_nak (b @ rest) =
    Inr (nak\<lparr>nak_header := with_len (nak_header nak) (9 + length (nak_ranges nak) * 8)\<rparr>, length b)"
proof -
  obtain hdr where h: "ccsds_cfdp_encode_header
      ((nak_header nak)\<lparr>pdu_data_field_len := of_nat (9 + length (nak_ranges nak) * 8)\<rparr>) cap = Inr hdr"
    and b: "b = hdr @ [CCSDS_CFDP_DIRECTIVE_NAK] @ put_be32 (scope_start nak) @
        put_be32 (scope_end nak) @ concat (map put_nak_range (nak_ranges nak))"
    and g: "pdu_type (nak_header nak) = CCSDS_CFDP_PDU_TYPE_FILE_DIRECTIVE"
      "\<not> segment_metadata_present (nak_header nak)" "file_size_mode (nak_header nak) = CCSDS_CFDP_FILE_SIZE_SMALL"
      "nak_validate_ranges nak = CCSDS_CFDP_STATUS_OK" "9 + length (nak_ranges nak) * 8 \<le> 65535"
    using assms by (auto simp: ccsds_cfdp_encode_nak_def cfdp_limits Let_def split: if_splits)
  have n: "length (nak_ranges nak) \<le> CCSDS_CFDP_MAX_NAK_RANGES"
    using g(4) by (auto simp: nak_validate_ranges_def split: if_splits)
  have v: "nak_validate_ranges (nak\<lparr>nak_header := x\<rparr>) = CCSDS_CFDP_STATUS_OK" for x
    using g(4) by (auto simp: nak_validate_ranges_def split: if_splits)
  have lit: "\<lparr>nak_header = x, scope_start = scope_start nak, scope_end = scope_end nak,
      nak_ranges = nak_ranges nak\<rparr> = nak\<lparr>nak_header := x\<rparr>" for x by simp
  show ?thesis
    unfolding ccsds_cfdp_decode_nak_def b append_assoc encode_headerE [OF h]
    using g n read_put_nak_ranges [of "nak_ranges nak" rest] v [unfolded lit [symmetric]]
    by (simp add: Let_def CCSDS_CFDP_NAK_MIN_DATA_LEN_def CCSDS_CFDP_NAK_RANGE_LEN_def pdu_nth)
qed

lemma lv_read_write:
  assumes "ccsds_cfdp_lv_write v cap = Inr b" "length v < 256"
  shows "ccsds_cfdp_lv_read (b @ rest) = Inr (v, length b)" "length b = 1 + length v" "length b \<le> cap"
  using assms by (auto simp: ccsds_cfdp_lv_write_def ccsds_cfdp_lv_read_def Let_def unat_of_nat split: if_splits)

lemma tlv_read_write:
  assumes "ccsds_cfdp_tlv_write t v cap = Inr b" "length v < 256"
  shows "ccsds_cfdp_tlv_read (b @ rest) = Inr ((t, v), length b)" "length b = 2 + length v" "length b \<le> cap"
  using assms by (auto simp: ccsds_cfdp_tlv_write_def ccsds_cfdp_tlv_read_def Let_def unat_of_nat split: if_splits)

lemma file_size_field: "(ucast (read_be_uint (write_be_uint 4 (ucast w) @ rest) 4) :: u32) = w" for w :: u32
proof -
  have "drop_bit 32 (ucast w :: u64) = 0"
    by (rule bit_word_eqI) (auto simp: bit_simps dest: bit_imp_le_length)
  then have "value_fits_len (ucast w) 4" by (simp add: value_fits_len_def)
  then have "read_be_uint (write_be_uint (unat (4 :: u8)) (ucast w) @ rest) (unat (4 :: u8)) = ucast w"
    by (intro read_write_be_uint) simp_all
  then have "read_be_uint (write_be_uint 4 (ucast w) @ rest) 4 = (ucast w :: u64)" by simp
  moreover have "ucast (ucast w :: u64) = w"
    by (rule bit_word_eqI) (simp add: bit_simps)
  ultimately show ?thesis by simp
qed

definition sent_metadata :: "cfdp_metadata_pdu \<Rightarrow> cfdp_metadata_pdu" where
  "sent_metadata md = md
     \<lparr>md_header := with_len (md_header md)
        (8 + length (source_filename md) + length (destination_filename md)),
      closure_requested := closure_requested md \<and>
        transmission_mode (md_header md) \<noteq> CCSDS_CFDP_TRANSMISSION_MODE_ACKNOWLEDGED\<rparr>"

lemma decode_encoded_metadata:
  assumes "ccsds_cfdp_encode_metadata md cap = Inr b"
  shows "ccsds_cfdp_decode_metadata (b @ rest) = Inr (sent_metadata md, length b)"
proof -
  let ?n = "8 + length (source_filename md) + length (destination_filename md)"
  let ?fixed = "\<lambda>hdr. hdr @ [CCSDS_CFDP_DIRECTIVE_METADATA, metadata_control md] @
      write_be_uint 4 (ucast (md_file_size md))"
  obtain hdr src dst c1 c2 where h: "ccsds_cfdp_encode_header
      ((md_header md)\<lparr>pdu_data_field_len := of_nat ?n\<rparr>) cap = Inr hdr"
    and src: "ccsds_cfdp_lv_write (source_filename md) c1 = Inr src"
    and dst: "ccsds_cfdp_lv_write (destination_filename md) c2 = Inr dst"
    and b: "b = ?fixed hdr @ src @ dst"
    and g: "pdu_type (md_header md) = CCSDS_CFDP_PDU_TYPE_FILE_DIRECTIVE"
      "\<not> segment_metadata_present (md_header md)" "file_size_mode (md_header md) = CCSDS_CFDP_FILE_SIZE_SMALL"
      "checksum_type_is_supported (checksum_type md)" "?n \<le> 65535"
      "filename_len_is_valid (source_filename md)" "filename_len_is_valid (destination_filename md)"
    using assms by (auto simp: ccsds_cfdp_encode_metadata_def CCSDS_CFDP_METADATA_MIN_DATA_LEN_def
        UINT16_MAX_def Let_def not_less split: if_splits)
  have short: "length (source_filename md) < 256" "length (destination_filename md) < 256"
    using g by (auto simp: filename_len_is_valid_def CCSDS_CFDP_MAX_FILENAME_LEN_def)
  note s = lv_read_write [OF src short(1)] and d = lv_read_write [OF dst short(2)]
  have t: "checksum_type md AND mask 4 = checksum_type md"
    using g(4) by (intro octet_mask_id) (auto simp: checksum_type_is_supported_def cfdp_codes)
  let ?closure = "closure_requested md \<and>
      transmission_mode (md_header md) \<noteq> CCSDS_CFDP_TRANSMISSION_MODE_ACKNOWLEDGED"
  have control: "metadata_control md = ((if ?closure then 0x40 else 0) OR (checksum_type md AND mask 4))"
    by (simp only: metadata_control_def CCSDS_CFDP_METADATA_CLOSURE_REQUESTED_def
        CCSDS_CFDP_METADATA_CHECKSUM_MASK_def octet_masks)
  have c: "metadata_control md AND CCSDS_CFDP_METADATA_RESERVED_MASK = 0"
    "metadata_control md AND CCSDS_CFDP_METADATA_CHECKSUM_MASK = checksum_type md"
    "(metadata_control md AND CCSDS_CFDP_METADATA_CLOSURE_REQUESTED \<noteq> 0) = ?closure"
    unfolding CCSDS_CFDP_METADATA_RESERVED_MASK_def CCSDS_CFDP_METADATA_CHECKSUM_MASK_def
      CCSDS_CFDP_METADATA_CLOSURE_REQUESTED_def octet_fields octet_masks control control_fields
    by (rule t refl control_fields conjI)+
  let ?rest = "[CCSDS_CFDP_DIRECTIVE_METADATA, metadata_control md] @
      write_be_uint 4 (ucast (md_file_size md)) @ src @ dst @ rest"
  have buf: "b @ rest = hdr @ ?rest" by (simp add: b)
  have at: "(hdr @ ?rest) ! length hdr = CCSDS_CFDP_DIRECTIVE_METADATA"
    "(hdr @ ?rest) ! (length hdr + 1) = metadata_control md"
    "drop (length hdr + 2) (hdr @ ?rest) = write_be_uint 4 (ucast (md_file_size md)) @ src @ dst @ rest"
    "drop (length hdr + 6) (hdr @ ?rest) = src @ dst @ rest"
    by (simp_all add: nth_append)
  then have at2: "drop (length hdr + 6 + length src) (hdr @ ?rest) = dst @ rest"
    by (simp only: drop_drop [symmetric] add.commute [of _ "length src"]) simp
  have fields: "take (length hdr + ?n - (length hdr + 6)) (src @ dst @ rest) = src @ dst"
    "take (length hdr + ?n - (length hdr + 6 + length src)) (dst @ rest) = dst"
    using s(2) d(2) by simp_all
  have reads: "ccsds_cfdp_lv_read (src @ dst) = Inr (source_filename md, length src)"
    "ccsds_cfdp_lv_read dst = Inr (destination_filename md, length dst)"
    using s(1) [of dst] d(1) [of "[]"] by simp_all
  show ?thesis
    unfolding ccsds_cfdp_decode_metadata_def buf encode_headerE [OF h] on_ok_simps prod.case Let_def
      with_len_simps(1-4) with_len_simps(5) [OF g(5)] at at2 fields reads
    using g s(2) d(2) c file_size_field [of "md_file_size md"]
    by (simp add: sent_metadata_def b CCSDS_CFDP_METADATA_MIN_DATA_LEN_def)
qed

lemma encoded_header_length:
  "ccsds_cfdp_encode_header h cap = Inr b \<Longrightarrow> length b \<le> cap"
  using length_header_octets by (auto simp: encode_header_iff)

lemma encoded_lengths:
  "ccsds_cfdp_encode_metadata md cap = Inr b \<Longrightarrow> length b \<le> cap"
  "ccsds_cfdp_encode_filedata fd cap = Inr b \<Longrightarrow> length b \<le> cap"
  "ccsds_cfdp_encode_eof eof cap = Inr b \<Longrightarrow> length b \<le> cap"
  "ccsds_cfdp_encode_finished fin cap = Inr b \<Longrightarrow> length b \<le> cap"
  "ccsds_cfdp_encode_ack ack cap = Inr b \<Longrightarrow> length b \<le> cap"
  "ccsds_cfdp_encode_nak nak cap = Inr b \<Longrightarrow> length b \<le> cap"
proof -
  show "length b \<le> cap" if "ccsds_cfdp_encode_metadata md cap = Inr b"
    using that by (auto simp: ccsds_cfdp_encode_metadata_def ccsds_cfdp_lv_write_def
        CCSDS_CFDP_METADATA_MIN_DATA_LEN_def Let_def dest!: encoded_header_length split: if_splits)
  show "length b \<le> cap" if "ccsds_cfdp_encode_filedata fd cap = Inr b"
    using that by (auto simp: ccsds_cfdp_encode_filedata_def CCSDS_CFDP_FILEDATA_OFFSET_LEN_def
        Let_def dest!: encoded_header_length split: if_splits)
  show "length b \<le> cap" if "ccsds_cfdp_encode_eof eof cap = Inr b"
    using that by (auto simp: ccsds_cfdp_encode_eof_def CCSDS_CFDP_EOF_DATA_LEN_def
        Let_def dest!: encoded_header_length split: if_splits)
  show "length b \<le> cap" if "ccsds_cfdp_encode_finished fin cap = Inr b"
    using that by (auto simp: ccsds_cfdp_encode_finished_def CCSDS_CFDP_FINISHED_DATA_LEN_def
        Let_def dest!: encoded_header_length split: if_splits)
  show "length b \<le> cap" if "ccsds_cfdp_encode_ack ack cap = Inr b"
    using that by (auto simp: ccsds_cfdp_encode_ack_def CCSDS_CFDP_ACK_DATA_LEN_def
        Let_def dest!: encoded_header_length split: if_splits)
  show "length b \<le> cap" if "ccsds_cfdp_encode_nak nak cap = Inr b"
    using that by (auto simp: ccsds_cfdp_encode_nak_def CCSDS_CFDP_NAK_MIN_DATA_LEN_def
        CCSDS_CFDP_NAK_RANGE_LEN_def Let_def dest!: encoded_header_length split: if_splits)
qed

section \<open>What the decoders consume\<close>

lemma decode_header_bound: "ccsds_cfdp_decode_header buf = Inr (h, n) \<Longrightarrow> 4 \<le> n \<and> n \<le> length buf"
  using decode_header_canonical [of buf h n] by (auto simp: header_octets_def)

lemma decode_header_case:
  "case ccsds_cfdp_decode_header buf of Inl _ \<Rightarrow> True | Inr (h, n) \<Rightarrow> 4 \<le> n \<and> n \<le> length buf"
  using decode_header_bound [of buf] by (auto split: sum.split)

lemma lv_read_bound:
  "ccsds_cfdp_lv_read b = Inr (v, k) \<Longrightarrow> k = 1 + length v \<and> k \<le> length b"
  by (cases b) (auto simp: ccsds_cfdp_lv_read_def Let_def split: if_splits)

lemma length_read_nak_ranges [simp]: "length (read_nak_ranges n buf) = n"
  by (induction n buf rule: read_nak_ranges.induct) simp_all

lemma filedata_bound:
  "case ccsds_cfdp_decode_filedata buf of Inl _ \<Rightarrow> True | Inr (fd, n) \<Rightarrow>
     n \<le> length buf \<and> 0 < length (fd_data fd) \<and> length (fd_data fd) + 4 \<le> n"
  by (auto simp: ccsds_cfdp_decode_filedata_def Let_def CCSDS_CFDP_FILEDATA_OFFSET_LEN_def
      dest!: decode_header_bound split: sum.split if_splits)

lemma eof_bound:
  "case ccsds_cfdp_decode_eof buf of Inl _ \<Rightarrow> True | Inr (eof, n) \<Rightarrow> 10 \<le> n \<and> n \<le> length buf"
  by (auto simp: ccsds_cfdp_decode_eof_def Let_def CCSDS_CFDP_EOF_DATA_LEN_def
      dest!: decode_header_bound split: sum.split if_splits)

lemma finished_bound:
  "case ccsds_cfdp_decode_finished buf of Inl _ \<Rightarrow> True | Inr (fin, n) \<Rightarrow> 2 \<le> n \<and> n \<le> length buf"
  by (auto simp: ccsds_cfdp_decode_finished_def Let_def CCSDS_CFDP_FINISHED_DATA_LEN_def
      dest!: decode_header_bound split: sum.split if_splits)

lemma ack_bound:
  "case ccsds_cfdp_decode_ack buf of Inl _ \<Rightarrow> True | Inr (ack, n) \<Rightarrow> 3 \<le> n \<and> n \<le> length buf"
  by (auto simp: ccsds_cfdp_decode_ack_def Let_def CCSDS_CFDP_ACK_DATA_LEN_def
      dest!: decode_header_bound split: sum.split if_splits)

lemma nak_bound:
  "case ccsds_cfdp_decode_nak buf of Inl _ \<Rightarrow> True | Inr (nak, n) \<Rightarrow> 9 \<le> n \<and> n \<le> length buf \<and>
     length (nak_ranges nak) \<le> CCSDS_CFDP_MAX_NAK_RANGES"
  by (auto simp: ccsds_cfdp_decode_nak_def Let_def CCSDS_CFDP_NAK_MIN_DATA_LEN_def
      dest!: decode_header_bound split: sum.split if_splits)

lemma metadata_bound:
  "case ccsds_cfdp_decode_metadata buf of Inl _ \<Rightarrow> True | Inr (md, n) \<Rightarrow> 0 < n \<and> n \<le> length buf \<and>
     length (source_filename md) + length (destination_filename md) + 12 \<le> n"
  by (auto simp: ccsds_cfdp_decode_metadata_def Let_def CCSDS_CFDP_METADATA_MIN_DATA_LEN_def
      dest!: decode_header_bound lv_read_bound split: sum.split if_splits)

section \<open>Properties\<close>

text \<open>
  C26: The header codec is exact: the decoder returns header \<open>h\<close> and length \<open>n\<close> for a buffer exactly
  when the encoder, given \<open>n\<close> octets of room, produces the first \<open>n\<close> octets of the buffer from \<open>h\<close>.
  So every encodable header decodes to itself, and the decoder accepts only octets that the encoder
  could have written, with identifiers of every permitted length.
\<close>

theorem cfdp_header_codec_inverse:
  "ccsds_cfdp_decode_header buf = Inr (h, n) \<longleftrightarrow>
     n \<le> length buf \<and> ccsds_cfdp_encode_header h n = Inr (take n buf)"
proof
  assume d: "ccsds_cfdp_decode_header buf = Inr (h, n)"
  note c = decode_header_canonical [OF d]
  then show "n \<le> length buf \<and> ccsds_cfdp_encode_header h n = Inr (take n buf)"
    using length_header_octets [OF c(1)] by (simp add: encode_header_iff)
next
  assume e: "n \<le> length buf \<and> ccsds_cfdp_encode_header h n = Inr (take n buf)"
  then have wf: "header_wf h" and t: "take n buf = header_octets h" by (simp_all add: encode_header_iff)
  then have "buf = header_octets h @ drop n buf" "length (header_octets h) = n"
    using e by (metis append_take_drop_id, metis length_take min.absorb2)
  with decode_header_octets [OF wf, of "drop n buf"]
  show "ccsds_cfdp_decode_header buf = Inr (h, n)" by simp
qed

text \<open>
  C27: Whatever the Metadata and File Data encoders write fits the buffer they were given and decodes,
  with any octets behind it, to the same PDU with the data field length filled in; a closure request
  is carried only in unacknowledged mode.
\<close>

theorem cfdp_file_pdus_round_trip:
  "(case ccsds_cfdp_encode_metadata md cap of
      Inl status \<Rightarrow> status \<noteq> CCSDS_CFDP_STATUS_OK
    | Inr b \<Rightarrow> length b \<le> cap \<and>
        ccsds_cfdp_decode_metadata (b @ rest) = Inr (sent_metadata md, length b)) \<and>
   (case ccsds_cfdp_encode_filedata fd cap of
      Inl status \<Rightarrow> status \<noteq> CCSDS_CFDP_STATUS_OK
    | Inr b \<Rightarrow> length b \<le> cap \<and>
        ccsds_cfdp_decode_filedata (b @ rest) =
          Inr (fd\<lparr>fd_header := with_len (fd_header fd) (4 + length (fd_data fd))\<rparr>, length b))"
proof -
  have "ccsds_cfdp_encode_metadata md cap \<noteq> Inl CCSDS_CFDP_STATUS_OK"
    by (simp add: ccsds_cfdp_encode_metadata_def ccsds_cfdp_encode_header_def ccsds_cfdp_lv_write_def
        Let_def)
  moreover have "ccsds_cfdp_encode_filedata fd cap \<noteq> Inl CCSDS_CFDP_STATUS_OK"
    by (simp add: ccsds_cfdp_encode_filedata_def ccsds_cfdp_encode_header_def Let_def)
  ultimately show ?thesis
    using decode_encoded_metadata decode_encoded_filedata encoded_lengths(1,2)
    by (auto split: sum.split)
qed

text \<open>
  Whatever the EOF, Finished, ACK and NAK encoders write fits the buffer they were given and
  decodes, with any octets behind it, to the same PDU with the data field length filled in.
\<close>

theorem cfdp_directives_round_trip:
  "(case ccsds_cfdp_encode_eof eof cap of
      Inl status \<Rightarrow> status \<noteq> CCSDS_CFDP_STATUS_OK
    | Inr b \<Rightarrow> length b \<le> cap \<and>
        ccsds_cfdp_decode_eof (b @ rest) = Inr (eof\<lparr>eof_header := with_len (eof_header eof) 10\<rparr>, length b)) \<and>
   (case ccsds_cfdp_encode_finished fin cap of
      Inl status \<Rightarrow> status \<noteq> CCSDS_CFDP_STATUS_OK
    | Inr b \<Rightarrow> length b \<le> cap \<and>
        ccsds_cfdp_decode_finished (b @ rest) =
          Inr (fin\<lparr>fin_header := with_len (fin_header fin) 2\<rparr>, length b)) \<and>
   (case ccsds_cfdp_encode_ack ack cap of
      Inl status \<Rightarrow> status \<noteq> CCSDS_CFDP_STATUS_OK
    | Inr b \<Rightarrow> length b \<le> cap \<and>
        ccsds_cfdp_decode_ack (b @ rest) = Inr (ack\<lparr>ack_header := with_len (ack_header ack) 3\<rparr>, length b)) \<and>
   (case ccsds_cfdp_encode_nak nak cap of
      Inl status \<Rightarrow> status \<noteq> CCSDS_CFDP_STATUS_OK
    | Inr b \<Rightarrow> length b \<le> cap \<and>
        ccsds_cfdp_decode_nak (b @ rest) =
          Inr (nak\<lparr>nak_header := with_len (nak_header nak) (9 + length (nak_ranges nak) * 8)\<rparr>, length b))"
proof -
  have h: "ccsds_cfdp_encode_header x cap \<noteq> Inl CCSDS_CFDP_STATUS_OK" for x
    by (simp add: ccsds_cfdp_encode_header_def)
  then have o: "on_ok (ccsds_cfdp_encode_header x cap) f = Inl CCSDS_CFDP_STATUS_OK \<longleftrightarrow>
      (\<exists>b. ccsds_cfdp_encode_header x cap = Inr b \<and> f b = Inl CCSDS_CFDP_STATUS_OK)" for x f
    by (cases "ccsds_cfdp_encode_header x cap") auto
  have "ccsds_cfdp_encode_eof eof cap \<noteq> Inl CCSDS_CFDP_STATUS_OK"
    "ccsds_cfdp_encode_finished fin cap \<noteq> Inl CCSDS_CFDP_STATUS_OK"
    "ccsds_cfdp_encode_ack ack cap \<noteq> Inl CCSDS_CFDP_STATUS_OK"
    "ccsds_cfdp_encode_nak nak cap \<noteq> Inl CCSDS_CFDP_STATUS_OK"
    by (simp_all add: ccsds_cfdp_encode_eof_def ccsds_cfdp_encode_finished_def
        ccsds_cfdp_encode_ack_def ccsds_cfdp_encode_nak_def o Let_def)
  then show ?thesis
    using decode_encoded_eof decode_encoded_finished decode_encoded_ack decode_encoded_nak
      encoded_lengths(3-6)
    by (auto split: sum.split)
qed



end
