(* ===== verification/Cfdp_Checksum.thy ===== *)
theory Cfdp_Checksum
  imports Cfdp_Types "HOL-Library.Multiset"
begin

text \<open>
  The file checksums of \<open>ccsds_cfdp_checksum.c\<close>: the modular checksum, accumulated from segments in
  any order, and the two CRCs, accumulated in order or recomputed from the stored file. The kernel's
  CRC routines and the file reading callback are arguments; \<open>crc_contract\<close> states what the kernel
  documents of its routines, that a buffer may be fed in pieces.
\<close>

unbundle bit_operations_syntax

definition CCSDS_CFDP_CRC32C_XOR_OUT :: u32 where "CCSDS_CFDP_CRC32C_XOR_OUT = 0xffffffff"
definition UINT32_MAX :: nat where "UINT32_MAX = 0xffffffff"

record cfdp_checksum_state =
  cks_type :: u8
  cks_value :: u32
  next_offset :: u32
  crc_started :: bool
  deferred :: bool

record crc_ops =
  crc32_c :: "u32 \<Rightarrow> octets \<Rightarrow> bool \<Rightarrow> bool \<Rightarrow> u32"
  crc32_ieee_update :: "u32 \<Rightarrow> octets \<Rightarrow> u32"

definition update_range_is_valid :: "u32 \<Rightarrow> nat \<Rightarrow> bool" where
  "update_range_is_valid file_offset len \<longleftrightarrow> len \<le> 1 \<or> len - 1 \<le> UINT32_MAX - unat file_offset"

definition ccsds_cfdp_checksum_supports_out_of_order :: "u8 \<Rightarrow> bool" where
  "ccsds_cfdp_checksum_supports_out_of_order type \<longleftrightarrow>
     type = CCSDS_CFDP_CHECKSUM_TYPE_MODULAR \<or> type = CCSDS_CFDP_CHECKSUM_TYPE_NULL"

definition ccsds_cfdp_checksum_init :: "u8 \<Rightarrow> cfdp_checksum_state cfdp_result" where
  "ccsds_cfdp_checksum_init type =
     (if \<not> checksum_type_is_supported type then Inl CCSDS_CFDP_STATUS_UNSUPPORTED_CHECKSUM
      else Inr \<lparr>cks_type = type, cks_value = 0, next_offset = 0, crc_started = False, deferred = False\<rparr>)"

text \<open>The octet loop of the modular checksum, from the offset of the next octet.\<close>

fun modular_add :: "u32 \<Rightarrow> octets \<Rightarrow> u32 \<Rightarrow> u32" where
  "modular_add offset [] v = v"
| "modular_add offset (b # bs) v =
     modular_add (offset + 1) bs (v + push_bit (unat ((3 - (offset AND 0x3)) * 8)) (ucast b))"

definition ccsds_cfdp_checksum_update ::
  "crc_ops \<Rightarrow> cfdp_checksum_state \<Rightarrow> u32 \<Rightarrow> octets \<Rightarrow> cfdp_status \<times> cfdp_checksum_state" where
  "ccsds_cfdp_checksum_update crc state file_offset data =
     (if \<not> checksum_type_is_supported (cks_type state) then (CCSDS_CFDP_STATUS_UNSUPPORTED_CHECKSUM, state)
      else if length data = 0 then (CCSDS_CFDP_STATUS_OK, state)
      else if \<not> update_range_is_valid file_offset (length data)
      then (CCSDS_CFDP_STATUS_INVALID_ARGUMENT, state)
      else if cks_type state = CCSDS_CFDP_CHECKSUM_TYPE_MODULAR
      then (CCSDS_CFDP_STATUS_OK, state\<lparr>cks_value := modular_add file_offset data (cks_value state)\<rparr>)
      else if cks_type state = CCSDS_CFDP_CHECKSUM_TYPE_CRC32C
      then
        (if file_offset \<noteq> next_offset state then (CCSDS_CFDP_STATUS_OK, state\<lparr>deferred := True\<rparr>)
         else if \<not> deferred state
         then (CCSDS_CFDP_STATUS_OK,
               state\<lparr>cks_value := crc32_c crc (cks_value state) data (\<not> crc_started state) False,
                     next_offset := next_offset state + of_nat (length data), crc_started := True\<rparr>)
         else (CCSDS_CFDP_STATUS_OK, state))
      else if cks_type state = CCSDS_CFDP_CHECKSUM_TYPE_IEEE_802_3_FCS
      then
        (if file_offset \<noteq> next_offset state then (CCSDS_CFDP_STATUS_OK, state\<lparr>deferred := True\<rparr>)
         else if \<not> deferred state
         then (CCSDS_CFDP_STATUS_OK,
               state\<lparr>cks_value := crc32_ieee_update crc (cks_value state) data,
                     next_offset := next_offset state + of_nat (length data)\<rparr>)
         else (CCSDS_CFDP_STATUS_OK, state))
      else (CCSDS_CFDP_STATUS_OK, state))"

definition ccsds_cfdp_checksum_finish :: "cfdp_checksum_state \<Rightarrow> u32 cfdp_result" where
  "ccsds_cfdp_checksum_finish state =
     (if \<not> checksum_type_is_supported (cks_type state) then Inl CCSDS_CFDP_STATUS_UNSUPPORTED_CHECKSUM
      else if cks_type state = CCSDS_CFDP_CHECKSUM_TYPE_NULL then Inr 0
      else if cks_type state = CCSDS_CFDP_CHECKSUM_TYPE_CRC32C
      then
        (if deferred state then Inl CCSDS_CFDP_STATUS_INVALID_ARGUMENT
         else Inr (if crc_started state then cks_value state XOR CCSDS_CFDP_CRC32C_XOR_OUT else 0))
      else if cks_type state = CCSDS_CFDP_CHECKSUM_TYPE_IEEE_802_3_FCS
      then (if deferred state then Inl CCSDS_CFDP_STATUS_INVALID_ARGUMENT else Inr (cks_value state))
      else Inr (cks_value state))"

definition checksum_type_is_crc :: "u8 \<Rightarrow> bool" where
  "checksum_type_is_crc type \<longleftrightarrow>
     type = CCSDS_CFDP_CHECKSUM_TYPE_CRC32C \<or> type = CCSDS_CFDP_CHECKSUM_TYPE_IEEE_802_3_FCS"

text \<open>
  The read callback takes the offset and the capacity of the scratch buffer and returns the octets
  it read or a status; \<open>'s\<close> is the state of the file store it works on.
\<close>

type_synonym 's cks_read = "u32 \<Rightarrow> nat \<Rightarrow> 's \<Rightarrow> octets cfdp_result \<times> 's"

lemma offset_advance:
  fixes offset file_size :: u32
  assumes "offset < file_size" "n \<le> unat (file_size - offset)"
  shows "unat (offset + of_nat n) = unat offset + n" "unat offset + n \<le> unat file_size"
proof -
  have d: "unat (file_size - offset) = unat file_size - unat offset" "unat offset < unat file_size"
    using assms(1) by (simp_all add: unat_sub word_less_nat_alt word_le_nat_alt)
  then show le: "unat offset + n \<le> unat file_size" using assms(2) by linarith
  have "unat file_size < 2 ^ 32" using unsigned_less [of file_size] by simp
  then show "unat (offset + of_nat n) = unat offset + n"
    using le by (simp add: unat_word_ariths unat_of_nat)
qed

lemma offset_measure:
  fixes offset file_size :: u32
  assumes "offset < file_size" "0 < n" "n \<le> unat (file_size - offset)"
  shows "unat file_size - unat (offset + of_nat n) < unat file_size - unat offset"
  using assms(2) offset_advance [OF assms(1,3)] assms(1) unfolding word_less_nat_alt by linarith

function finish_file_loop ::
  "crc_ops \<Rightarrow> 's cks_read \<Rightarrow> u32 \<Rightarrow> nat \<Rightarrow> u32 \<Rightarrow> cfdp_checksum_state \<Rightarrow> 's
     \<Rightarrow> u32 cfdp_result \<times> 's" where
  "finish_file_loop crc read file_size scratch_len offset recomputed s =
     (if offset < file_size
      then
        let remaining = unat (file_size - offset);
            request_len = (if remaining < scratch_len then remaining else scratch_len)
        in case read offset request_len s of
             (Inl status, s) \<Rightarrow> (Inl status, s)
           | (Inr data, s) \<Rightarrow>
               if length data = 0 \<or> length data > request_len \<or> length data > remaining
               then (Inl CCSDS_CFDP_STATUS_INVALID_ARGUMENT, s)
               else
                 case ccsds_cfdp_checksum_update crc recomputed offset data of
                   (status, recomputed) \<Rightarrow>
                     if status \<noteq> CCSDS_CFDP_STATUS_OK then (Inl status, s)
                     else finish_file_loop crc read file_size scratch_len
                            (offset + of_nat (length data)) recomputed s
      else (ccsds_cfdp_checksum_finish recomputed, s))"
  by pat_completeness auto

termination
  by (relation "measure (\<lambda>(crc, read, file_size, scratch_len, offset, recomputed, s).
      unat file_size - unat offset)")
    (auto intro!: offset_measure simp: not_less)

declare finish_file_loop.simps [simp del]

definition ccsds_cfdp_checksum_finish_file ::
  "crc_ops \<Rightarrow> cfdp_checksum_state \<Rightarrow> 's cks_read \<Rightarrow> u32 \<Rightarrow> nat \<Rightarrow> 's \<Rightarrow> u32 cfdp_result \<times> 's" where
  "ccsds_cfdp_checksum_finish_file crc state read file_size scratch_len s =
     (if \<not> checksum_type_is_supported (cks_type state)
      then (Inl CCSDS_CFDP_STATUS_UNSUPPORTED_CHECKSUM, s)
      else if \<not> checksum_type_is_crc (cks_type state) then (ccsds_cfdp_checksum_finish state, s)
      else if \<not> deferred state \<and> next_offset state = file_size
      then (ccsds_cfdp_checksum_finish state, s)
      else
        case ccsds_cfdp_checksum_init (cks_type state) of
          Inl status \<Rightarrow> (Inl status, s)
        | Inr recomputed \<Rightarrow> finish_file_loop crc read file_size scratch_len 0 recomputed s)"

section \<open>The modular checksum\<close>

text \<open>The definition of the standard: the sum of the file's four-octet words, the last one padded.\<close>

fun word_sum :: "octets \<Rightarrow> u32" where
  "word_sum (a # b # c # d # r) = get_be32 [a, b, c, d] + word_sum r"
| "word_sum [] = 0"
| "word_sum [a] = get_be32 [a, 0, 0, 0]"
| "word_sum [a, b] = get_be32 [a, b, 0, 0]"
| "word_sum [a, b, c] = get_be32 [a, b, c, 0]"

lemma lane_next:
  "off AND 3 = 0 \<Longrightarrow> (off + 1) AND 3 = 1" "off AND 3 = 0 \<Longrightarrow> (off + 2) AND 3 = 2"
  "off AND 3 = 0 \<Longrightarrow> (off + 3) AND 3 = 3" "off AND 3 = 0 \<Longrightarrow> (off + 4) AND 3 = 0" for off :: u32
proof -
  assume "off AND 3 = 0"
  have lane: "unat (x AND 3) = unat x mod 4" for x :: u32
  proof -
    have "x AND 3 = take_bit 2 x" by (simp add: take_bit_eq_mask mask_eq_exp_minus_1)
    then have "unat (x AND 3) = take_bit 2 (unat x)" by (simp only: unsigned_take_bit_eq)
    then show ?thesis by (simp add: take_bit_eq_mod)
  qed
  with \<open>off AND 3 = 0\<close> have z: "unat off mod 4 = 0" by (metis unat_0)
  have e: "unat ((off + k) AND 3) = unat k mod 4" for k
  proof -
    have "unat (off + k) mod 4 = (unat off + unat k) mod 4"
      by (simp add: unat_word_ariths mod_mod_cancel)
    then show ?thesis using z by (simp add: lane mod_add_left_eq [symmetric])
  qed
  show "(off + 1) AND 3 = 1" "(off + 2) AND 3 = 2" "(off + 3) AND 3 = 3" "(off + 4) AND 3 = 0"
    using e [of 1] e [of 2] e [of 3] e [of 4] by (simp_all add: word_unat_eq_iff)
qed

lemma be32_sum:
  "get_be32 [a, b, c, d] = push_bit 24 (ucast a) + push_bit 16 (ucast b) + push_bit 8 (ucast c) + ucast d"
proof -
  have or_sum: "x + y = x OR y" if "\<And>n. n < 32 \<Longrightarrow> \<not> bit x n \<or> \<not> bit y n" for x y :: u32
  proof (rule disjunctive_add_eq_or)
    show "x AND y = 0" by (rule bit_word_eqI) (use that in \<open>auto simp: bit_and_iff\<close>)
  qed
  have "push_bit 24 (ucast a) + push_bit 16 (ucast b) = (push_bit 24 (ucast a) OR push_bit 16 (ucast b) :: u32)"
    by (rule or_sum) (auto simp: bit_simps dest: bit_imp_le_length)
  moreover have "push_bit 24 (ucast a) + push_bit 16 (ucast b) + push_bit 8 (ucast c) =
      (push_bit 24 (ucast a) OR push_bit 16 (ucast b) OR push_bit 8 (ucast c) :: u32)"
    unfolding calculation by (subst or_sum) (auto simp: bit_simps or.assoc dest: bit_imp_le_length)
  moreover have "push_bit 24 (ucast a) + push_bit 16 (ucast b) + push_bit 8 (ucast c) + ucast d =
      (push_bit 24 (ucast a) OR push_bit 16 (ucast b) OR push_bit 8 (ucast c) OR ucast d :: u32)"
    unfolding calculation(2) by (subst or_sum) (auto simp: bit_simps or.assoc dest: bit_imp_le_length)
  moreover have "get_be32 [a, b, c, d] =
      (push_bit 24 (ucast a) OR push_bit 16 (ucast b) OR push_bit 8 (ucast c) OR ucast d)"
  proof -
    have h: "(ucast (get_be16 (x # y # r)) :: u32) = push_bit 8 (ucast x) OR ucast y" for x y :: u8 and r
      by (rule bit_word_eqI) (auto simp: get_be16_def bit_simps dest: bit_imp_le_length)
    show ?thesis by (simp add: get_be32_def h push_bit_or or.assoc)
  qed
  ultimately show ?thesis by simp
qed

lemma modular_add_value: "modular_add off bs v = v + modular_add off bs 0"
proof (induction bs arbitrary: off v)
  case (Cons b bs)
  let ?x = "push_bit (unat ((3 - (off AND 3)) * 8)) (ucast b) :: u32"
  show ?case using Cons.IH [of "off + 1" "v + ?x"] Cons.IH [of "off + 1" ?x]
    by (simp add: add.assoc)
qed simp

lemma modular_add_append:
  "modular_add off (a @ b) 0 = modular_add off a 0 + modular_add (off + of_nat (length a)) b 0"
proof (induction a arbitrary: off)
  case (Cons x a)
  let ?x = "push_bit (unat ((3 - (off AND 3)) * 8)) (ucast x) :: u32"
  have "modular_add off ((x # a) @ b) 0 = ?x + modular_add (off + 1) (a @ b) 0"
    using modular_add_value [of "off + 1" "a @ b" ?x] by simp
  moreover have "modular_add off (x # a) 0 = ?x + modular_add (off + 1) a 0"
    using modular_add_value [of "off + 1" a ?x] by simp
  moreover have "off + 1 + of_nat (length a) = off + of_nat (length (x # a))" by simp
  ultimately show ?case using Cons.IH [of "off + 1"] by (simp only: add.assoc)
qed simp

lemma modular_add_word_sum: "off AND 3 = 0 \<Longrightarrow> modular_add off bs 0 = word_sum bs"
proof (induction bs arbitrary: off rule: word_sum.induct)
  case (1 a b c d r)
  have "modular_add off (a # b # c # d # r) 0 = get_be32 [a, b, c, d] + modular_add (off + 4) r 0"
    using lane_next [OF 1(2)] 1(2) modular_add_value [of "off + 4" r "get_be32 [a, b, c, d]"]
    by (simp add: be32_sum add.assoc)
  then show ?case using 1(1) lane_next(4) [OF 1(2)] by simp
next
  case 2
  show ?case by simp
next
  case (3 a)
  then show ?case by (simp add: be32_sum)
next
  case (4 a b)
  then show ?case by (simp add: be32_sum lane_next)
next
  case (5 a b c)
  then show ?case by (simp add: be32_sum lane_next add.assoc)
qed

section \<open>Runs of updates\<close>

text \<open>The segments of a transfer in the order they arrive; the run stops at the first error.\<close>

fun checksum_run ::
  "crc_ops \<Rightarrow> cfdp_checksum_state \<Rightarrow> (u32 \<times> octets) list \<Rightarrow> cfdp_status \<times> cfdp_checksum_state" where
  "checksum_run crc st [] = (CCSDS_CFDP_STATUS_OK, st)"
| "checksum_run crc st ((off, data) # segs) =
     (case ccsds_cfdp_checksum_update crc st off data of
        (status, st) \<Rightarrow>
          if status \<noteq> CCSDS_CFDP_STATUS_OK then (status, st) else checksum_run crc st segs)"

text \<open>The segments of a file cut into consecutive chunks.\<close>

fun file_segments :: "u32 \<Rightarrow> octets list \<Rightarrow> (u32 \<times> octets) list" where
  "file_segments off [] = []"
| "file_segments off (c # cs) = (off, c) # file_segments (off + of_nat (length c)) cs"

definition segment_value :: "u32 \<times> octets \<Rightarrow> u32" where
  "segment_value seg = modular_add (fst seg) (snd seg) 0"

definition segment_fits :: "u32 \<times> octets \<Rightarrow> bool" where
  "segment_fits seg \<longleftrightarrow> unat (fst seg) + length (snd seg) \<le> 2 ^ 32"

lemma segment_update_valid:
  "segment_fits (off, data) \<Longrightarrow> update_range_is_valid off (length data)"
  using unsigned_less [of off]
  by (auto simp: segment_fits_def update_range_is_valid_def UINT32_MAX_def)

definition modular_state :: "u32 \<Rightarrow> cfdp_checksum_state" where
  "modular_state v = \<lparr>cks_type = CCSDS_CFDP_CHECKSUM_TYPE_MODULAR, cks_value = v, next_offset = 0,
     crc_started = False, deferred = False\<rparr>"

lemma modular_update:
  assumes "segment_fits (off, data)"
  shows "ccsds_cfdp_checksum_update crc (modular_state v) off data =
    (CCSDS_CFDP_STATUS_OK, modular_state (v + segment_value (off, data)))"
  using segment_update_valid [OF assms] modular_add_value [of off data v]
  by (cases data) (simp_all add: ccsds_cfdp_checksum_update_def modular_state_def segment_value_def
      checksum_type_is_supported_def)

lemma modular_run:
  "\<forall>seg\<in>set segs. segment_fits seg \<Longrightarrow>
   checksum_run crc (modular_state v) segs =
     (CCSDS_CFDP_STATUS_OK, modular_state (v + sum_list (map segment_value segs)))"
proof (induction segs arbitrary: v)
  case (Cons seg segs)
  obtain off data where seg: "seg = (off, data)" by (cases seg)
  show ?case using Cons.prems Cons.IH modular_update [of off data crc v] by (simp add: seg add.assoc)
qed simp

lemma file_segments_sum:
  "sum_list (map segment_value (file_segments off cs)) = modular_add off (concat cs) 0"
  by (induction off cs rule: file_segments.induct) (simp_all add: segment_value_def modular_add_append)

lemma file_segments_fit:
  "unat off + length (concat cs) < 2 ^ 32 \<Longrightarrow> \<forall>seg\<in>set (file_segments off cs). segment_fits seg"
proof (induction off cs rule: file_segments.induct)
  case (2 off c cs)
  have "unat (off + of_nat (length c)) = unat off + length c"
    using 2(2) by (simp add: unat_word_ariths unat_of_nat)
  then show ?case using 2 by (auto simp: segment_fits_def)
qed simp

section \<open>The CRC checksums\<close>

text \<open>
  The kernel's routines may be fed a buffer in pieces: \<open>first\<close> marks the first piece of a CRC-32C.
\<close>

definition crc_contract :: "crc_ops \<Rightarrow> bool" where
  "crc_contract crc \<longleftrightarrow>
     (\<forall>c a b. crc32_ieee_update crc (crc32_ieee_update crc c a) b = crc32_ieee_update crc c (a @ b)) \<and>
     (\<forall>c a b first. crc32_c crc (crc32_c crc c a first False) b False False =
        crc32_c crc c (a @ b) first False)"

text \<open>The checksum the protocol asks for over the whole file.\<close>

definition file_crc :: "crc_ops \<Rightarrow> u8 \<Rightarrow> octets \<Rightarrow> u32" where
  "file_crc crc type file =
     (if file = [] then 0
      else if type = CCSDS_CFDP_CHECKSUM_TYPE_CRC32C
      then crc32_c crc 0 file True False XOR CCSDS_CFDP_CRC32C_XOR_OUT
      else crc32_ieee_update crc 0 file)"

definition file_part :: "octets \<Rightarrow> u32 \<times> octets \<Rightarrow> bool" where
  "file_part file seg \<longleftrightarrow>
     unat (fst seg) + length (snd seg) \<le> length file \<and>
     snd seg = take (length (snd seg)) (drop (unat (fst seg)) file)"

text \<open>While nothing arrived out of order, the state is the CRC of the file's first octets.\<close>

definition crc_state_ok :: "crc_ops \<Rightarrow> u8 \<Rightarrow> octets \<Rightarrow> cfdp_checksum_state \<Rightarrow> bool" where
  "crc_state_ok crc type file st \<longleftrightarrow> cks_type st = type \<and>
     (deferred st \<or>
      unat (next_offset st) \<le> length file \<and>
      crc_started st = (type = CCSDS_CFDP_CHECKSUM_TYPE_CRC32C \<and> next_offset st \<noteq> 0) \<and>
      (if next_offset st = 0 then cks_value st = 0
       else cks_value st =
         (if type = CCSDS_CFDP_CHECKSUM_TYPE_CRC32C
          then crc32_c crc 0 (take (unat (next_offset st)) file) True False
          else crc32_ieee_update crc 0 (take (unat (next_offset st)) file))))"

lemma crc_init_ok:
  "checksum_type_is_crc type \<Longrightarrow> \<exists>st. ccsds_cfdp_checksum_init type = Inr st \<and>
     crc_state_ok crc type file st \<and> \<not> deferred st \<and> next_offset st = 0"
  by (auto simp: ccsds_cfdp_checksum_init_def checksum_type_is_crc_def checksum_type_is_supported_def
      crc_state_ok_def)

lemma crc_update_ok:
  assumes "crc_contract crc" "checksum_type_is_crc type" "crc_state_ok crc type file st"
    "file_part file (off, data)" "length file < 2 ^ 32"
  obtains st' where "ccsds_cfdp_checksum_update crc st off data = (CCSDS_CFDP_STATUS_OK, st')"
    "crc_state_ok crc type file st'"
    "\<not> deferred st \<and> off = next_offset st \<longrightarrow>
       \<not> deferred st' \<and> next_offset st' = next_offset st + of_nat (length data)"
proof (cases "data = [] \<or> off \<noteq> next_offset st \<or> deferred st")
  case True
  have t: "cks_type st = type" using assms(3) by (simp add: crc_state_ok_def)
  have v: "update_range_is_valid off (length data)"
    using assms(4,5) by (intro segment_update_valid) (simp add: segment_fits_def file_part_def)
  let ?st = "if data = [] \<or> off = next_offset st then st else st\<lparr>deferred := True\<rparr>"
  have "ccsds_cfdp_checksum_update crc st off data = (CCSDS_CFDP_STATUS_OK, ?st)"
    using True t v assms(2)
    by (auto simp: ccsds_cfdp_checksum_update_def checksum_type_is_crc_def
        checksum_type_is_supported_def cfdp_codes)
  moreover have "crc_state_ok crc type file ?st" using assms(3) by (simp add: crc_state_ok_def)
  ultimately show thesis using that [of ?st] True by (cases "data = []") auto
next
  case False
  have t: "cks_type st = type" using assms(3) by (simp add: crc_state_ok_def)
  have v: "update_range_is_valid off (length data)"
    using assms(4,5) by (intro segment_update_valid) (simp add: segment_fits_def file_part_def)
  let ?n = "next_offset st" and ?m = "next_offset st + of_nat (length data)"
  have part: "unat ?n + length data \<le> length file" "data = take (length data) (drop (unat ?n) file)"
    using assms(4) False by (simp_all add: file_part_def)
  then have m: "unat ?m = unat ?n + length data"
    using assms(5) by (simp add: unat_word_ariths unat_of_nat)
  then have nz: "?m \<noteq> 0" using False by auto
  have pre: "take (unat ?m) file = take (unat ?n) file @ data"
    unfolding m take_add using part(2) by simp
  have c: "crc32_ieee_update crc (crc32_ieee_update crc x a) b = crc32_ieee_update crc x (a @ b)"
    "crc32_c crc (crc32_c crc x a True False) b False False = crc32_c crc x (a @ b) True False"
    for x a b using assms(1) by (simp_all add: crc_contract_def)
  show thesis
  proof (cases "type = CCSDS_CFDP_CHECKSUM_TYPE_CRC32C")
    case C: True
    let ?st = "st\<lparr>cks_value := crc32_c crc (cks_value st) data (\<not> crc_started st) False,
        next_offset := ?m, crc_started := True\<rparr>"
    have "ccsds_cfdp_checksum_update crc st off data = (CCSDS_CFDP_STATUS_OK, ?st)"
      using False t v C
      by (simp add: ccsds_cfdp_checksum_update_def checksum_type_is_supported_def cfdp_codes)
    moreover have "crc_state_ok crc type file ?st"
      using assms(3) False C nz part(1) m pre c(2)
      by (cases "?n = 0") (simp_all add: crc_state_ok_def)
    ultimately show thesis using that [of ?st] False by simp
  next
    case I: False
    let ?st = "st\<lparr>cks_value := crc32_ieee_update crc (cks_value st) data, next_offset := ?m\<rparr>"
    have "ccsds_cfdp_checksum_update crc st off data = (CCSDS_CFDP_STATUS_OK, ?st)"
      using False t v I assms(2)
      by (simp add: ccsds_cfdp_checksum_update_def checksum_type_is_supported_def
          checksum_type_is_crc_def cfdp_codes)
    moreover have "crc_state_ok crc type file ?st"
      using assms(3) False I nz part(1) m pre c(1)
      by (cases "?n = 0") (simp_all add: crc_state_ok_def)
    ultimately show thesis using that [of ?st] False by simp
  qed
qed

lemma crc_run_ok:
  assumes "crc_contract crc" "checksum_type_is_crc type" "length file < 2 ^ 32"
  shows "crc_state_ok crc type file st \<Longrightarrow> \<forall>seg\<in>set segs. file_part file seg \<Longrightarrow>
    \<exists>st'. checksum_run crc st segs = (CCSDS_CFDP_STATUS_OK, st') \<and> crc_state_ok crc type file st'"
proof (induction segs arbitrary: st)
  case (Cons seg segs)
  obtain off data where seg: "seg = (off, data)" by (cases seg)
  obtain st1 where "ccsds_cfdp_checksum_update crc st off data = (CCSDS_CFDP_STATUS_OK, st1)"
    "crc_state_ok crc type file st1"
    using crc_update_ok [OF assms(1,2) Cons.prems(1), of off data] Cons.prems(2) assms(3) seg by auto
  with Cons.IH [of st1] Cons.prems(2) show ?case by (simp add: seg)
qed simp

lemma crc_finish_ok:
  assumes "checksum_type_is_crc type" "crc_state_ok crc type file st" "\<not> deferred st"
    "next_offset st = of_nat (length file)" "length file < 2 ^ 32"
  shows "ccsds_cfdp_checksum_finish st = Inr (file_crc crc type file)"
proof -
  have n: "unat (next_offset st) = length file" using assms(4,5) by (simp add: unat_of_nat)
  then have "next_offset st = 0 \<longleftrightarrow> file = []" by (metis length_0_conv unat_eq_zero)
  with assms n show ?thesis
    by (auto simp: ccsds_cfdp_checksum_finish_def checksum_type_is_crc_def crc_state_ok_def file_crc_def
        checksum_type_is_supported_def cfdp_codes)
qed

text \<open>
  The read callback serves the file: a request inside the file returns at least one octet, at most
  the request, and the octets are the file's.
\<close>

definition reads_file :: "'s cks_read \<Rightarrow> octets \<Rightarrow> bool" where
  "reads_file read file \<longleftrightarrow>
     (\<forall>off n s. 0 < n \<and> unat off < length file \<longrightarrow>
        (\<exists>m s'. 0 < m \<and> m \<le> n \<and> read off n s = (Inr (take m (drop (unat off) file)), s')))"

lemma finish_file_loop_ok:
  assumes "crc_contract crc" "checksum_type_is_crc type" "length file < 2 ^ 32" "reads_file read file"
    "0 < scratch_len"
  shows "crc_state_ok crc type file st \<Longrightarrow> \<not> deferred st \<Longrightarrow> next_offset st = offset \<Longrightarrow>
    \<exists>s'. finish_file_loop crc read (of_nat (length file)) scratch_len offset st s =
      (Inr (file_crc crc type file), s')"
proof (induction "length file - unat offset" arbitrary: offset st s rule: less_induct)
  case less
  let ?size = "of_nat (length file) :: u32"
  have size: "unat ?size = length file" using assms(3) by (simp add: unat_of_nat)
  have le: "unat offset \<le> length file"
    using less.prems by (auto simp: crc_state_ok_def)
  show ?case
  proof (cases "offset < ?size")
    case False
    then have "offset = ?size" using le size by (simp add: word_less_nat_alt word_unat_eq_iff)
    then show ?thesis
      using crc_finish_ok [OF assms(2) less.prems(1,2)] less.prems(3) assms(3)
      by (subst finish_file_loop.simps) simp
  next
    case True
    then have lt: "unat offset < length file" using size by (simp add: word_less_nat_alt)
    let ?remaining = "unat (?size - offset)"
    let ?req = "if ?remaining < scratch_len then ?remaining else scratch_len"
    have rem: "?remaining = length file - unat offset"
      using True size by (simp add: unat_sub word_less_nat_alt word_le_nat_alt)
    then have "0 < ?req" using lt assms(5) by simp
    then obtain m s1 where m: "0 < m" "m \<le> ?req"
      and r: "read offset ?req s = (Inr (take m (drop (unat offset) file)), s1)"
      using assms(4) lt unfolding reads_file_def by blast
    let ?data = "take m (drop (unat offset) file)"
    have len: "length ?data = m" using m(2) rem by (auto split: if_splits)
    have part: "file_part file (offset, ?data)" using len lt m(2) rem
      by (auto simp: file_part_def split: if_splits)
    obtain st1 where u: "ccsds_cfdp_checksum_update crc st offset ?data = (CCSDS_CFDP_STATUS_OK, st1)"
      "crc_state_ok crc type file st1" "\<not> deferred st1" "next_offset st1 = offset + of_nat m"
      using crc_update_ok [OF assms(1,2) less.prems(1) part assms(3)] less.prems(2,3) len by metis
    have adv: "unat (offset + of_nat m) = unat offset + m"
      by (rule offset_advance [OF True]) (use m(2) in \<open>auto split: if_splits\<close>)
    have "length file - unat (offset + of_nat m) < length file - unat offset"
      using adv lt m(1) by linarith
    from less.hyps [OF this u(2,3,4)]
    obtain s' where "finish_file_loop crc read ?size scratch_len (offset + of_nat m) st1 s1 =
        (Inr (file_crc crc type file), s')" by blast
    moreover have "finish_file_loop crc read ?size scratch_len offset st s =
        finish_file_loop crc read ?size scratch_len (offset + of_nat m) st1 s1"
    proof -
      have "\<not> (m = 0 \<or> m > ?req \<or> m > ?remaining)" using m by (auto split: if_splits)
      then show ?thesis
        using True r u(1) len by (subst finish_file_loop.simps) (simp only: Let_def if_True prod.case sum.case if_False simp_thms)
    qed
    ultimately show ?thesis by metis
  qed
qed

section \<open>Properties\<close>

text \<open>
  C29: The modular checksum does not depend on the order of arrival: when the segments of a file, cut
  into consecutive chunks of any sizes, are fed in any order, every update succeeds and the result
  is the sum of the file's big-endian four-octet words with the last word padded by zeros.
\<close>

theorem modular_checksum_any_order:
  assumes "mset segs = mset (file_segments 0 chunks)" "length (concat chunks) < 2 ^ 32"
  shows "case ccsds_cfdp_checksum_init CCSDS_CFDP_CHECKSUM_TYPE_MODULAR of
      Inl status \<Rightarrow> False
    | Inr st \<Rightarrow> (case checksum_run crc st segs of
        (status, st) \<Rightarrow> status = CCSDS_CFDP_STATUS_OK \<and>
          ccsds_cfdp_checksum_finish st = Inr (word_sum (concat chunks)))"
proof -
  have i: "ccsds_cfdp_checksum_init CCSDS_CFDP_CHECKSUM_TYPE_MODULAR = Inr (modular_state 0)"
    by (simp add: ccsds_cfdp_checksum_init_def checksum_type_is_supported_def modular_state_def)
  have "set segs = set (file_segments 0 chunks)" using assms(1) by (rule mset_eq_setD)
  then have fits: "\<forall>seg\<in>set segs. segment_fits seg"
    using file_segments_fit [of 0 chunks] assms(2) by simp
  have "sum_list (map segment_value segs) = sum_list (map segment_value (file_segments 0 chunks))"
    using assms(1) by (metis mset_map sum_mset_sum_list)
  also have "\<dots> = word_sum (concat chunks)"
    by (simp add: file_segments_sum modular_add_word_sum)
  finally have "checksum_run crc (modular_state 0) segs =
      (CCSDS_CFDP_STATUS_OK, modular_state (word_sum (concat chunks)))"
    using modular_run [OF fits, of crc 0] by simp
  moreover have "ccsds_cfdp_checksum_finish (modular_state v) = Inr v" for v
    by (simp add: ccsds_cfdp_checksum_finish_def modular_state_def checksum_type_is_supported_def cfdp_codes)
  ultimately show ?thesis by (simp add: i)
qed

lemma modular_checksum_any_order_witness:
  "case ccsds_cfdp_checksum_init CCSDS_CFDP_CHECKSUM_TYPE_MODULAR of
      Inl status \<Rightarrow> False
    | Inr st \<Rightarrow> (case checksum_run \<lparr>crc32_c = \<lambda>c _ _ _. c, crc32_ieee_update = \<lambda>c _. c\<rparr> st
          [(3, [0x44, 0x55]), (0, [0x11, 0x22, 0x33])] of
        (status, st) \<Rightarrow> status = CCSDS_CFDP_STATUS_OK \<and>
          ccsds_cfdp_checksum_finish st = Inr (word_sum (concat [[0x11, 0x22, 0x33], [0x44, 0x55]])))"
  by (rule modular_checksum_any_order) simp_all

text \<open>
  For both CRC types the final checksum is the CRC of the whole file whatever segments of the
  file arrived before, in any order, repeated or missing: in-order data is used as accumulated, and
  otherwise the stored file is read again from the start, in pieces of any size the store returns,
  until all of it has been read.
\<close>

theorem crc_checksum_any_order:
  assumes "crc_contract crc" "checksum_type_is_crc type" "length file < 2 ^ 32"
    "reads_file read file" "0 < scratch_len" "\<forall>seg\<in>set segs. file_part file seg"
  shows "case ccsds_cfdp_checksum_init type of
      Inl status \<Rightarrow> False
    | Inr st \<Rightarrow> (case checksum_run crc st segs of
        (status, st) \<Rightarrow> status = CCSDS_CFDP_STATUS_OK \<and>
          fst (ccsds_cfdp_checksum_finish_file crc st read (of_nat (length file)) scratch_len s) =
            Inr (file_crc crc type file))"
proof -
  obtain st0 where i: "ccsds_cfdp_checksum_init type = Inr st0" "crc_state_ok crc type file st0"
    "\<not> deferred st0" "next_offset st0 = 0"
    using crc_init_ok [OF assms(2)] by blast
  obtain st1 where r: "checksum_run crc st0 segs = (CCSDS_CFDP_STATUS_OK, st1)" "crc_state_ok crc type file st1"
    using crc_run_ok [OF assms(1,2,3) i(2) assms(6)] by blast
  have t: "cks_type st1 = type" using r(2) by (simp add: crc_state_ok_def)
  have sup: "checksum_type_is_supported type"
    using assms(2) by (auto simp: checksum_type_is_crc_def checksum_type_is_supported_def)
  obtain s' where "finish_file_loop crc read (of_nat (length file)) scratch_len 0 st0 s =
      (Inr (file_crc crc type file), s')"
    using finish_file_loop_ok [OF assms(1-5) i(2,3,4)] by blast
  then have "fst (ccsds_cfdp_checksum_finish_file crc st1 read (of_nat (length file)) scratch_len s) =
      Inr (file_crc crc type file)"
    using sup assms(2,3) t i(1) crc_finish_ok [OF assms(2) r(2)]
    by (simp add: ccsds_cfdp_checksum_finish_file_def)
  then show ?thesis by (simp add: i(1) r(1))
qed

lemma crc_checksum_any_order_witness:
  "case ccsds_cfdp_checksum_init CCSDS_CFDP_CHECKSUM_TYPE_IEEE_802_3_FCS of
      Inl status \<Rightarrow> False
    | Inr st \<Rightarrow> (case checksum_run \<lparr>crc32_c = \<lambda>c d _ _. fold (\<lambda>b c. c + ucast b) d c,
            crc32_ieee_update = \<lambda>c d. fold (\<lambda>b c. c + ucast b) d c\<rparr> st [(1, [2]), (0, [1])] of
        (status, st) \<Rightarrow> status = CCSDS_CFDP_STATUS_OK \<and>
          fst (ccsds_cfdp_checksum_finish_file \<lparr>crc32_c = \<lambda>c d _ _. fold (\<lambda>b c. c + ucast b) d c,
              crc32_ieee_update = \<lambda>c d. fold (\<lambda>b c. c + ucast b) d c\<rparr> st
              (\<lambda>off n u. (Inr (take n (drop (unat off) [1, 2])), u)) (of_nat (length [1, 2 :: u8])) 8 ()) =
            Inr (file_crc \<lparr>crc32_c = \<lambda>c d _ _. fold (\<lambda>b c. c + ucast b) d c,
              crc32_ieee_update = \<lambda>c d. fold (\<lambda>b c. c + ucast b) d c\<rparr>
              CCSDS_CFDP_CHECKSUM_TYPE_IEEE_802_3_FCS [1, 2]))"
proof (rule crc_checksum_any_order)
  show "reads_file (\<lambda>off n u. (Inr (take n (drop (unat off) [1, 2])), u)) [1, 2]"
    by (auto simp: reads_file_def)
qed (simp_all add: crc_contract_def checksum_type_is_crc_def file_part_def)

end
