(* ===== verification/Cfdp_Ranges.thy ===== *)
theory Cfdp_Ranges
  imports Cfdp_Types
begin

text \<open>
  The fixed-capacity list of received file ranges of \<open>ccsds_cfdp_ranges.c\<close>. The state is the part of
  the range array that its counter counts. The lemmas show that the list is a sorted normal form of
  a set of file offsets: adding is union, the completeness test is inclusion and the missing ranges
  are the difference, and they say exactly when the capacity is exceeded.
\<close>

record cfdp_range =
  r_start :: u32
  r_end :: u32

definition range_is_valid :: "u32 \<Rightarrow> u32 \<Rightarrow> bool" where
  "range_is_valid start end \<longleftrightarrow> start < end"

definition ccsds_cfdp_ranges_init :: "cfdp_range list" where
  "ccsds_cfdp_ranges_init = []"

text \<open>The number of ranges that end before \<open>start\<close>.\<close>

fun ranges_first :: "u32 \<Rightarrow> cfdp_range list \<Rightarrow> nat" where
  "ranges_first start [] = 0"
| "ranges_first start (r # rs) = (if r_end r < start then Suc (ranges_first start rs) else 0)"

text \<open>The merging loop: how many ranges it passes, and the merged bounds.\<close>

fun ranges_merge :: "u32 \<Rightarrow> u32 \<Rightarrow> u32 \<Rightarrow> cfdp_range list \<Rightarrow> nat \<times> u32 \<times> u32" where
  "ranges_merge end merged_start merged_end [] = (0, merged_start, merged_end)"
| "ranges_merge end merged_start merged_end (r # rs) =
     (if r_start r \<le> end
      then
        case ranges_merge end (if r_start r < merged_start then r_start r else merged_start)
               (if r_end r > merged_end then r_end r else merged_end) rs of
          (n, ms, me) \<Rightarrow> (Suc n, ms, me)
      else (0, merged_start, merged_end))"

text \<open>
  Inserting (no range passed) moves the tail up, merging several ranges moves it down; both put the
  merged range between the ranges before \<open>first\<close> and those from \<open>last\<close> on.
\<close>

definition ccsds_cfdp_ranges_add ::
  "cfdp_range list \<Rightarrow> u32 \<Rightarrow> u32 \<Rightarrow> cfdp_status \<times> cfdp_range list" where
  "ccsds_cfdp_ranges_add state start end =
     (if \<not> range_is_valid start end \<or> length state > CCSDS_CFDP_MAX_NAK_RANGES
      then (CCSDS_CFDP_STATUS_INVALID_ARGUMENT, state)
      else
        let first = ranges_first start state
        in case ranges_merge end start end (drop first state) of
             (remove_count, merged_start, merged_end) \<Rightarrow>
               if remove_count = 0 \<and> length state = CCSDS_CFDP_MAX_NAK_RANGES
               then (CCSDS_CFDP_STATUS_BUFFER_TOO_SMALL, state)
               else (CCSDS_CFDP_STATUS_OK,
                     take first state @ [\<lparr>r_start = merged_start, r_end = merged_end\<rparr>] @
                     drop (first + remove_count) state))"

fun is_complete_loop :: "u32 \<Rightarrow> u32 \<Rightarrow> cfdp_range list \<Rightarrow> bool" where
  "is_complete_loop start end [] = False"
| "is_complete_loop start end (r # rs) =
     (if r_start r > start then False
      else if r_start r \<le> start \<and> r_end r \<ge> end then True
      else is_complete_loop start end rs)"

definition ccsds_cfdp_ranges_is_complete :: "cfdp_range list \<Rightarrow> u32 \<Rightarrow> u32 \<Rightarrow> bool cfdp_result" where
  "ccsds_cfdp_ranges_is_complete state start end =
     (if \<not> range_is_valid start end \<or> length state > CCSDS_CFDP_MAX_NAK_RANGES
      then Inl CCSDS_CFDP_STATUS_INVALID_ARGUMENT
      else Inr (is_complete_loop start end state))"

text \<open>The loop over the received ranges, with the cursor and the missing ranges found so far.\<close>

fun missing_loop ::
  "u32 \<Rightarrow> cfdp_range list \<Rightarrow> u32 \<Rightarrow> cfdp_range list \<Rightarrow> (u32 \<times> cfdp_range list) cfdp_result" where
  "missing_loop end [] cursor missing = Inr (cursor, missing)"
| "missing_loop end (received # rs) cursor missing =
     (if \<not> cursor < end then Inr (cursor, missing)
      else if r_end received \<le> cursor then missing_loop end rs cursor missing
      else if r_start received \<ge> end then Inr (cursor, missing)
      else
        let (status, missing) =
              (if r_start received > cursor
               then ccsds_cfdp_ranges_add missing cursor
                      (if r_start received < end then r_start received else end)
               else (CCSDS_CFDP_STATUS_OK, missing))
        in if status \<noteq> CCSDS_CFDP_STATUS_OK then Inl status
           else missing_loop end rs
                  (if r_end received > cursor then r_end received else cursor) missing)"

definition ccsds_cfdp_ranges_missing ::
  "cfdp_range list \<Rightarrow> u32 \<Rightarrow> u32 \<Rightarrow> cfdp_range list cfdp_result" where
  "ccsds_cfdp_ranges_missing state start end =
     (if \<not> range_is_valid start end \<or> length state > CCSDS_CFDP_MAX_NAK_RANGES
      then Inl CCSDS_CFDP_STATUS_INVALID_ARGUMENT
      else
        on_ok (missing_loop end state start ccsds_cfdp_ranges_init) (\<lambda>(cursor, missing).
          if cursor < end
          then
            case ccsds_cfdp_ranges_add missing cursor end of
              (status, missing) \<Rightarrow>
                if status \<noteq> CCSDS_CFDP_STATUS_OK then Inl status else Inr missing
          else Inr missing))"

section \<open>Ranges as sets of offsets\<close>

definition offsets :: "cfdp_range \<Rightarrow> u32 set" where
  "offsets r = {r_start r ..< r_end r}"

definition covered :: "cfdp_range list \<Rightarrow> u32 set" where
  "covered rs = (\<Union>r\<in>set rs. offsets r)"

definition normal :: "cfdp_range list \<Rightarrow> bool" where
  "normal rs \<longleftrightarrow> sorted_wrt (\<lambda>a b. r_end a < r_start b) rs \<and> (\<forall>r\<in>set rs. r_start r < r_end r)"

definition ranges_inv :: "cfdp_range list \<Rightarrow> bool" where
  "ranges_inv rs \<longleftrightarrow> normal rs \<and> length rs \<le> CCSDS_CFDP_MAX_NAK_RANGES"

lemma covered_simps [simp]:
  "covered [] = {}" "covered (r # rs) = offsets r \<union> covered rs" "covered (xs @ ys) = covered xs \<union> covered ys"
  by (auto simp: covered_def)

lemma normal_simps [simp]:
  "normal []" "normal (r # rs) \<longleftrightarrow> r_start r < r_end r \<and> (\<forall>b\<in>set rs. r_end r < r_start b) \<and> normal rs"
  "normal (xs @ ys) \<longleftrightarrow> normal xs \<and> normal ys \<and> (\<forall>a\<in>set xs. \<forall>b\<in>set ys. r_end a < r_start b)"
  by (auto simp: normal_def sorted_wrt_append)

lemma normal_member: "normal rs \<Longrightarrow> r \<in> set rs \<Longrightarrow> r_start r < r_end r"
  by (simp add: normal_def)

lemma ranges_first_split:
  assumes "normal rs"
  shows "\<forall>a\<in>set (take (ranges_first start rs) rs). r_end a < start"
    and "\<forall>b\<in>set (drop (ranges_first start rs) rs). start \<le> r_end b"
    and "ranges_first start rs \<le> length rs"
proof -
  have "(\<forall>a\<in>set (take (ranges_first start rs) rs). r_end a < start) \<and>
      (\<forall>b\<in>set (drop (ranges_first start rs) rs). start \<le> r_end b) \<and> ranges_first start rs \<le> length rs"
    using assms
  proof (induction rs)
    case (Cons r rs)
    then show ?case using normal_member [of rs] by (auto simp: not_less) (metis order_less_trans order_less_le not_less)
  qed simp
  then show "\<forall>a\<in>set (take (ranges_first start rs) rs). r_end a < start"
    "\<forall>b\<in>set (drop (ranges_first start rs) rs). start \<le> r_end b"
    "ranges_first start rs \<le> length rs" by blast+
qed

text \<open>
  The merging loop passes the ranges that start at or before \<open>end\<close>; with a merged range that reaches
  each of them, the merged range and those passed cover the same offsets.
\<close>

lemma ranges_merge_spec:
  assumes "normal rs" "\<forall>b\<in>set rs. start \<le> r_end b" "ms < me" "ms \<le> start" "end \<le> me" "start < end"
    "\<forall>b\<in>set rs. r_start b \<le> me \<longrightarrow> r_start b \<le> end"
  shows "case ranges_merge end ms me rs of (n, ms', me') \<Rightarrow>
    n \<le> length rs \<and> ms' \<le> ms \<and> me \<le> me' \<and>
    {ms' ..< me'} = {ms ..< me} \<union> covered (take n rs) \<and>
    (\<forall>b\<in>set (drop n rs). me' < r_start b) \<and>
    (\<forall>x. (\<forall>b\<in>set rs. x < r_start b) \<and> x < ms \<longrightarrow> x < ms') \<and>
    (n = 0 \<longrightarrow> ms' = ms \<and> me' = me)"
  using assms
proof (induction rs arbitrary: ms me)
  case Nil
  then show ?case by simp
next
  case (Cons r rs)
  show ?case
  proof (cases "r_start r \<le> end")
    case False
    then have "me < r_start r" using Cons.prems(7) by (auto simp: not_le)
    then have "\<forall>b\<in>set (r # rs). me < r_start b"
      using Cons.prems(1) by (auto intro: less_trans)
    with False show ?thesis by simp
  next
    case True
    let ?ms = "if r_start r < ms then r_start r else ms" and ?me = "if r_end r > me then r_end r else me"
    have r: "r_start r < r_end r" "start \<le> r_end r" "\<forall>b\<in>set rs. r_end r < r_start b" "normal rs"
      using Cons.prems(1,2) by auto
    have u: "{?ms ..< ?me} = {ms ..< me} \<union> offsets r"
      using Cons.prems(3-6) r(1,2) True by (auto simp: offsets_def)
    have "case ranges_merge end ?ms ?me rs of (n, ms', me') \<Rightarrow>
        n \<le> length rs \<and> ms' \<le> ?ms \<and> ?me \<le> me' \<and> {ms' ..< me'} = {?ms ..< ?me} \<union> covered (take n rs) \<and>
        (\<forall>b\<in>set (drop n rs). me' < r_start b) \<and>
        (\<forall>x. (\<forall>b\<in>set rs. x < r_start b) \<and> x < ?ms \<longrightarrow> x < ms') \<and> (n = 0 \<longrightarrow> ms' = ?ms \<and> me' = ?me)"
    proof (rule Cons.IH [OF r(4)])
      show "\<forall>b\<in>set rs. start \<le> r_end b" "start < end" using Cons.prems by auto
      show "?ms < ?me" "?ms \<le> start" "end \<le> ?me" using Cons.prems(3-6) r(1) by auto
      show "\<forall>b\<in>set rs. r_start b \<le> ?me \<longrightarrow> r_start b \<le> end"
        using Cons.prems(7) r(3) by (auto simp: not_le [symmetric] split: if_splits)
    qed
    moreover obtain n ms' me' where m: "ranges_merge end ?ms ?me rs = (n, ms', me')"
      by (cases rule: prod_cases3)
    ultimately have ih: "n \<le> length rs" "ms' \<le> ?ms" "?me \<le> me'"
      "{ms' ..< me'} = {?ms ..< ?me} \<union> covered (take n rs)" "\<forall>b\<in>set (drop n rs). me' < r_start b"
      "\<forall>x. (\<forall>b\<in>set rs. x < r_start b) \<and> x < ?ms \<longrightarrow> x < ms'" by auto
    have "ranges_merge end ms me (r # rs) = (Suc n, ms', me')" using True m by simp
    moreover have "ms' \<le> ms" "me \<le> me'" using ih(2,3) by (auto split: if_splits)
    moreover have "{ms' ..< me'} = {ms ..< me} \<union> covered (take (Suc n) (r # rs))"
      unfolding ih(4) u by auto
    moreover have "x < ms'" if "\<forall>b\<in>set (r # rs). x < r_start b" "x < ms" for x
      using ih(6) that by auto
    ultimately show ?thesis using ih(1,5) by auto
  qed
qed


lemma add_spec:
  assumes "ranges_inv rs" "start < end"
  shows "case ccsds_cfdp_ranges_add rs start end of (status, rs') \<Rightarrow>
    (status = CCSDS_CFDP_STATUS_OK \<and> ranges_inv rs' \<and> covered rs' = covered rs \<union> {start ..< end}) \<or>
    (status = CCSDS_CFDP_STATUS_BUFFER_TOO_SMALL \<and> rs' = rs \<and> length rs = CCSDS_CFDP_MAX_NAK_RANGES \<and>
     (\<forall>r\<in>set rs. r_end r < start \<or> end < r_start r))"
proof -
  have norm: "normal rs" and len: "length rs \<le> CCSDS_CFDP_MAX_NAK_RANGES"
    using assms(1) by (simp_all add: ranges_inv_def)
  define f where "f = ranges_first start rs"
  note split = ranges_first_split [OF norm, of start, folded f_def]
  define pre post where "pre = take f rs" and "post = drop f rs"
  have before: "\<forall>a\<in>set pre. r_end a < start" using split(1) by (simp add: pre_def)
  have rs: "rs = pre @ post" by (simp add: pre_def post_def)
  have np: "normal pre" "normal post" "\<forall>a\<in>set pre. \<forall>b\<in>set post. r_end a < r_start b"
    using norm unfolding rs by simp_all
  obtain n ms me where m: "ranges_merge end start end post = (n, ms, me)" by (cases rule: prod_cases3)
  have spec: "n \<le> length post" "ms \<le> start" "end \<le> me" "{ms ..< me} = {start ..< end} \<union> covered (take n post)"
    "\<forall>b\<in>set (drop n post). me < r_start b"
    "\<And>x. (\<forall>b\<in>set post. x < r_start b) \<Longrightarrow> x < start \<Longrightarrow> x < ms" "n = 0 \<Longrightarrow> ms = start \<and> me = end"
    using ranges_merge_spec [OF np(2), of start start "end" "end"] split(2) assms(2) m
    by (auto simp: post_def)
  have "drop (f + n) rs = drop n post" by (simp add: post_def add.commute)
  then have add: "ccsds_cfdp_ranges_add rs start end =
      (if n = 0 \<and> length rs = CCSDS_CFDP_MAX_NAK_RANGES then (CCSDS_CFDP_STATUS_BUFFER_TOO_SMALL, rs)
       else (CCSDS_CFDP_STATUS_OK, pre @ [\<lparr>r_start = ms, r_end = me\<rparr>] @ drop n post))"
    using assms(2) len m
    by (simp add: ccsds_cfdp_ranges_add_def range_is_valid_def Let_def f_def [symmetric] post_def [symmetric]
        pre_def [symmetric])
  show ?thesis
  proof (cases "n = 0 \<and> length rs = CCSDS_CFDP_MAX_NAK_RANGES")
    case True
    have "r_end r < start \<or> end < r_start r" if "r \<in> set rs" for r
      using that True before spec(5,7) unfolding rs by auto
    with True show ?thesis by (simp add: add)
  next
    case False
    let ?new = "pre @ [\<lparr>r_start = ms, r_end = me\<rparr>] @ drop n post"
    have "normal (take n post @ drop n post)" using np(2) by simp
    then have nd: "normal (drop n post)" by (simp only: normal_simps)
    have "\<forall>a\<in>set pre. r_end a < ms"
      using np(3) before spec(6) by auto
    moreover have "\<forall>a\<in>set pre. \<forall>b\<in>set (drop n post). r_end a < r_start b"
      using np(3) in_set_dropD by fast
    moreover have "ms < me" using spec(2,3) assms(2) by auto
    ultimately have "normal ?new" using np(1) nd spec(5) by auto
    moreover have "length ?new \<le> CCSDS_CFDP_MAX_NAK_RANGES"
    proof (cases n)
      case 0
      then show ?thesis using False len spec(1) by (simp add: rs)
    next
      case (Suc k)
      then show ?thesis using len spec(1) by (simp add: rs)
    qed
    moreover have "covered ?new = covered rs \<union> {start ..< end}"
    proof -
      have "covered post = covered (take n post) \<union> covered (drop n post)"
        by (simp flip: covered_simps(3))
      moreover have "offsets \<lparr>r_start = ms, r_end = me\<rparr> = {ms ..< me}" by (simp add: offsets_def)
      ultimately show ?thesis unfolding rs using spec(4) by auto
    qed
    ultimately show ?thesis using False by (auto simp: add ranges_inv_def)
  qed
qed

lemma add_ok:
  assumes "ranges_inv rs" "ccsds_cfdp_ranges_add rs start end = (CCSDS_CFDP_STATUS_OK, rs')"
  shows "ranges_inv rs'" "covered rs' = covered rs \<union> {start ..< end}" "start < end"
proof -
  show "start < end" using assms(2)
    by (auto simp: ccsds_cfdp_ranges_add_def range_is_valid_def split: if_splits)
  with add_spec [OF assms(1) this] assms(2)
  show "ranges_inv rs'" "covered rs' = covered rs \<union> {start ..< end}" by auto
qed

lemma is_complete_loop_iff:
  assumes "normal rs" "start < end"
  shows "is_complete_loop start end rs \<longleftrightarrow> {start ..< end} \<subseteq> covered rs"
  using assms(1)
proof (induction rs)
  case Nil
  then show ?case using assms(2) by auto
next
  case (Cons r rs)
  show ?case
  proof (cases "r_start r > start")
    case True
    then have "start \<notin> covered (r # rs)"
      using Cons.prems by (auto simp: covered_def offsets_def)
    with True assms(2) show ?thesis by auto
  next
    case False
    show ?thesis
    proof (cases "r_end r \<ge> end")
      case True
      then have "{start ..< end} \<subseteq> offsets r" using False by (auto simp: offsets_def)
      with True False show ?thesis by auto
    next
      case short: False
      have "{start ..< end} \<subseteq> covered rs \<longleftrightarrow> {start ..< end} \<subseteq> offsets r \<union> covered rs"
      proof
        assume sub: "{start ..< end} \<subseteq> offsets r \<union> covered rs"
        show "{start ..< end} \<subseteq> covered rs"
        proof (cases "r_end r \<le> start")
          case True
          then have "offsets r \<inter> {start ..< end} = {}" by (auto simp: offsets_def)
          then show ?thesis using sub by blast
        next
          case inside: False
          then have "r_end r \<in> {start ..< end}" "r_end r \<notin> offsets r"
            using short by (auto simp: offsets_def)
          moreover have "r_end r \<notin> covered rs" using Cons.prems by (auto simp: covered_def offsets_def)
          ultimately show ?thesis using sub by blast
        qed
      qed blast
      with False short Cons show ?thesis by simp
    qed
  qed
qed

section \<open>Missing ranges\<close>

text \<open>
  The loop has found the gaps below \<open>cursor\<close>: they are a normal list below the cursor, and together
  with what remains of the received ranges they describe \<open>{start..<end}\<close>.
\<close>

lemma missing_combine:
  fixes p c cursor e :: u32
  assumes "{c ..< e} \<inter> C = {}" "M' = M1 \<union> (({p ..< e} \<inter> {..< c}) - C)" "M1 = M \<union> G"
    "p \<le> c" "cursor \<le> p" "\<forall>x\<in>S. x < p" "{cursor ..< p} - S = G" "\<forall>x\<in>G. x < e" "\<forall>x\<in>C. cursor \<le> x \<longrightarrow> p \<le> x"
  shows "M' = M \<union> (({cursor ..< e} \<inter> {..< c}) - (S \<union> C))" "{c ..< e} \<inter> (S \<union> C) = {}"
proof -
  have mem: "x \<in> G \<longleftrightarrow> cursor \<le> x \<and> x < p \<and> x \<notin> S" for x unfolding assms(7) [symmetric] by auto
  show "M' = M \<union> (({cursor ..< e} \<inter> {..< c}) - (S \<union> C))"
  proof (rule set_eqI)
    fix x
    show "x \<in> M' \<longleftrightarrow> x \<in> M \<union> (({cursor ..< e} \<inter> {..< c}) - (S \<union> C))"
    proof (cases "x < p")
      case True
      then have "x < c" "cursor \<le> x \<longrightarrow> x \<notin> C" using assms(4,9) by auto
      with True show ?thesis using mem [of x] assms(8) unfolding assms(2,3) by auto
    next
      case False
      then have "x \<notin> S" "cursor \<le> x" "x \<notin> G" using assms(5,6) mem [of x] by auto
      with False show ?thesis unfolding assms(2,3) by auto
    qed
  qed
  show "{c ..< e} \<inter> (S \<union> C) = {}" using assms(1,4,6) by fastforce
qed

lemma missing_loop_spec:
  assumes "normal rs" "ranges_inv missing"
  shows "case missing_loop stop rs cursor missing of
      Inl status \<Rightarrow> status = CCSDS_CFDP_STATUS_BUFFER_TOO_SMALL
    | Inr (cursor', missing') \<Rightarrow> ranges_inv missing' \<and> cursor \<le> cursor' \<and>
        covered missing' = covered missing \<union> (({cursor ..< stop} \<inter> {..< cursor'}) - covered rs) \<and>
        {cursor' ..< stop} \<inter> covered rs = {}"
  using assms
proof (induction rs arbitrary: cursor missing)
  case Nil
  then show ?case by auto
next
  case (Cons r rs)
  have r: "r_start r < r_end r" "\<forall>b\<in>set rs. r_end r < r_start b" "normal rs" using Cons.prems(1) by auto
  have above: "\<forall>x\<in>covered rs. r_end r < x"
    using r(2) by (force simp: covered_def offsets_def intro: less_le_trans)
  have continue: "case missing_loop stop (r # rs) cursor missing of
      Inl status \<Rightarrow> status = CCSDS_CFDP_STATUS_BUFFER_TOO_SMALL
    | Inr (cursor', missing') \<Rightarrow> ranges_inv missing' \<and> cursor \<le> cursor' \<and>
        covered missing' = covered missing \<union> (({cursor ..< stop} \<inter> {..< cursor'}) - covered (r # rs)) \<and>
        {cursor' ..< stop} \<inter> covered (r # rs) = {}"
    if "missing_loop stop (r # rs) cursor missing = missing_loop stop rs p missing1"
      "ranges_inv missing1" "covered missing1 = covered missing \<union> G" "cursor \<le> p" "\<forall>x\<in>offsets r. x < p"
      "{cursor ..< p} - offsets r = G" "\<forall>x\<in>G. x < stop" "\<forall>x\<in>covered rs. cursor \<le> x \<longrightarrow> p \<le> x"
    for p missing1 G
  proof (cases "missing_loop stop rs p missing1")
    case (Inl status)
    then show ?thesis using that(1) Cons.IH [OF r(3) that(2), of p] by simp
  next
    case (Inr y)
    obtain c m where y: "y = (c, m)" by (cases y)
    have ih: "ranges_inv m" "p \<le> c" "{c ..< stop} \<inter> covered rs = {}"
      "covered m = covered missing1 \<union> (({p ..< stop} \<inter> {..< c}) - covered rs)"
      using Cons.IH [OF r(3) that(2), of p] Inr y by auto
    show ?thesis
      using missing_combine [OF ih(3,4) that(3) ih(2) that(4,5,6,7,8)] ih(1,2) that(1,4) Inr y
      by simp
  qed
  consider (past) "\<not> cursor < stop" | (skip) "cursor < stop" "r_end r \<le> cursor"
    | (beyond) "cursor < stop" "cursor < r_end r" "stop \<le> r_start r"
    | (gap) "cursor < stop" "cursor < r_start r" "r_start r < stop"
    | (inside) "cursor < stop" "r_start r \<le> cursor" "cursor < r_end r"
    using r(1) by (metis less_trans not_le)
  then show ?case
  proof cases
    case past
    then show ?thesis using Cons.prems by auto
  next
    case skip
    show ?thesis
      by (rule continue [of cursor missing "{}"])
        (use skip Cons.prems(2) in \<open>auto simp: offsets_def\<close>)
  next
    case beyond
    have "covered (r # rs) \<inter> {..< stop} = {}"
      using beyond above r(1) by (fastforce simp: offsets_def)
    with beyond Cons.prems show ?thesis by auto
  next
    case inside
    have "\<not> r_end r \<le> cursor" "\<not> stop \<le> r_start r" "\<not> cursor < r_start r" using inside by auto
    then have step: "missing_loop stop (r # rs) cursor missing = missing_loop stop rs (r_end r) missing"
      using inside by (simp add: Let_def)
    show ?thesis
      by (rule continue [OF step, where G = "{}"])
        (use inside Cons.prems(2) above in \<open>auto simp: offsets_def less_imp_le\<close>)
  next
    case gap
    obtain status missing1 where a: "ccsds_cfdp_ranges_add missing cursor (r_start r) = (status, missing1)"
      by (cases rule: prod.exhaust)
    have spec: "(status = CCSDS_CFDP_STATUS_OK \<and> ranges_inv missing1 \<and>
        covered missing1 = covered missing \<union> {cursor ..< r_start r}) \<or>
        status = CCSDS_CFDP_STATUS_BUFFER_TOO_SMALL"
      using add_spec [OF Cons.prems(2) gap(2)] a by auto
    have "\<not> r_end r \<le> cursor" "\<not> stop \<le> r_start r" "cursor < r_end r"
      using gap r(1) by auto
    then have step: "missing_loop stop (r # rs) cursor missing =
        (if status \<noteq> CCSDS_CFDP_STATUS_OK then Inl status else missing_loop stop rs (r_end r) missing1)"
      using gap a by (simp add: Let_def)
    show ?thesis
    proof (cases "status = CCSDS_CFDP_STATUS_OK")
      case True
      then have m1: "ranges_inv missing1" "covered missing1 = covered missing \<union> {cursor ..< r_start r}"
        and step1: "missing_loop stop (r # rs) cursor missing = missing_loop stop rs (r_end r) missing1"
        using spec step by auto
      show ?thesis
        by (rule continue [OF step1 m1])
          (use gap r(1) above in \<open>auto simp: offsets_def less_imp_le\<close>)
    qed (use spec step in auto)
  qed
qed

lemma missing_spec:
  assumes "ranges_inv rs" "start < end"
  shows "case ccsds_cfdp_ranges_missing rs start end of
      Inl status \<Rightarrow> status = CCSDS_CFDP_STATUS_BUFFER_TOO_SMALL
    | Inr missing \<Rightarrow> ranges_inv missing \<and> covered missing = {start ..< end} - covered rs"
proof -
  have n: "normal rs" "\<not> length rs > CCSDS_CFDP_MAX_NAK_RANGES" "range_is_valid start end"
    using assms by (simp_all add: ranges_inv_def range_is_valid_def)
  have e: "ranges_inv ccsds_cfdp_ranges_init" "covered ccsds_cfdp_ranges_init = {}"
    by (simp_all add: ccsds_cfdp_ranges_init_def ranges_inv_def)
  show ?thesis
  proof (cases "missing_loop end rs start ccsds_cfdp_ranges_init")
    case (Inl status)
    then show ?thesis using missing_loop_spec [OF n(1) e(1), where cursor = start and stop = "end"] n
      by (simp add: ccsds_cfdp_ranges_missing_def)
  next
    case (Inr y)
    obtain c m where y: "y = (c, m)" by (cases y)
    have l: "ranges_inv m" "start \<le> c" "{c ..< end} \<inter> covered rs = {}"
      "covered m = ({start ..< end} \<inter> {..< c}) - covered rs"
      using missing_loop_spec [OF n(1) e(1), where cursor = start and stop = "end"] Inr y e(2) by auto
    show ?thesis
    proof (cases "c < end")
      case True
      obtain status m1 where a: "ccsds_cfdp_ranges_add m c end = (status, m1)" by (cases rule: prod.exhaust)
      have "{start ..< end} - covered rs = covered m \<union> {c ..< end}"
        using l(2,3) unfolding l(4) by auto
      then show ?thesis
        using add_spec [OF l(1) True] a Inr y n True by (auto simp: ccsds_cfdp_ranges_missing_def)
    next
      case False
      then have "{start ..< end} - covered rs = covered m" unfolding l(4) by auto
      then show ?thesis using l(1) Inr y n False by (simp add: ccsds_cfdp_ranges_missing_def)
    qed
  qed
qed

section \<open>What a client relies on\<close>

text \<open>The list after a sequence of additions, and the ranges that were accepted.\<close>

fun add_run ::
  "('s \<Rightarrow> u32 \<Rightarrow> u32 \<Rightarrow> cfdp_status \<times> 's) \<Rightarrow> 's \<Rightarrow> (u32 \<times> u32) list \<Rightarrow> 's \<times> (u32 \<times> u32) list" where
  "add_run add s [] = (s, [])"
| "add_run add s ((a, b) # segs) =
     (case add s a b of
        (status, s) \<Rightarrow>
          (case add_run add s segs of
             (s, accepted) \<Rightarrow> (s, if status = CCSDS_CFDP_STATUS_OK then (a, b) # accepted else accepted)))"

definition segment_offsets :: "(u32 \<times> u32) list \<Rightarrow> u32 set" where
  "segment_offsets segs = (\<Union>(a, b)\<in>set segs. {a ..< b})"

lemma segment_offsets_simps [simp]:
  "segment_offsets [] = {}" "segment_offsets ((a, b) # segs) = {a ..< b} \<union> segment_offsets segs"
  by (auto simp: segment_offsets_def)

text \<open>
  The contract of a store of received offsets: adding is union or leaves the store as it is, and the
  completeness test is inclusion.
\<close>

locale offset_store =
  fixes inv :: "'s \<Rightarrow> bool" and cover :: "'s \<Rightarrow> u32 set"
    and add :: "'s \<Rightarrow> u32 \<Rightarrow> u32 \<Rightarrow> cfdp_status \<times> 's"
    and complete :: "'s \<Rightarrow> u32 \<Rightarrow> u32 \<Rightarrow> bool cfdp_result"
  assumes add_accepts: "inv s \<Longrightarrow> add s a b = (CCSDS_CFDP_STATUS_OK, s') \<Longrightarrow>
      inv s' \<and> cover s' = cover s \<union> {a ..< b}"
    and add_refuses: "inv s \<Longrightarrow> add s a b = (status, s') \<Longrightarrow> status \<noteq> CCSDS_CFDP_STATUS_OK \<Longrightarrow> s' = s"
    and complete_iff: "inv s \<Longrightarrow> a < b \<Longrightarrow> complete s a b = Inr ({a ..< b} \<subseteq> cover s)"
begin

lemma run_cover:
  "inv s \<Longrightarrow> case add_run add s segs of (s', accepted) \<Rightarrow>
     inv s' \<and> cover s' = cover s \<union> segment_offsets accepted \<and> set accepted \<subseteq> set segs"
proof (induction segs arbitrary: s)
  case (Cons seg segs)
  obtain a b where seg: "seg = (a, b)" by (cases seg)
  obtain status s1 where a: "add s a b = (status, s1)" by (cases "add s a b")
  obtain s2 accepted where r: "add_run add s1 segs = (s2, accepted)" by (cases "add_run add s1 segs")
  show ?case
  proof (cases "status = CCSDS_CFDP_STATUS_OK")
    case True
    with add_accepts [OF Cons.prems] a have "inv s1" "cover s1 = cover s \<union> {a ..< b}" by auto
    with Cons.IH [of s1] True a r show ?thesis by (auto simp: seg)
  next
    case False
    with add_refuses [OF Cons.prems a] have "s1 = s" by simp
    with Cons.IH [OF Cons.prems] False a r show ?thesis by (auto simp: seg)
  qed
qed simp

lemma run_complete:
  assumes "inv s" "cover s = {}" "a < b"
  shows "case add_run add s segs of (s', accepted) \<Rightarrow>
    complete s' a b = Inr ({a ..< b} \<subseteq> segment_offsets accepted)"
  using run_cover [OF assms(1), of segs] complete_iff [OF _ assms(3)] assms(2) by auto

end

lemma ranges_add_cases:
  assumes "ranges_inv rs" "ccsds_cfdp_ranges_add rs a b = (status, rs')" "status \<noteq> CCSDS_CFDP_STATUS_OK"
  shows "rs' = rs"
proof (cases "a < b")
  case True
  with add_spec [OF assms(1) True] assms(2,3) show ?thesis by auto
next
  case False
  with assms(2) show ?thesis by (simp add: ccsds_cfdp_ranges_add_def range_is_valid_def)
qed

interpretation received: offset_store ranges_inv covered ccsds_cfdp_ranges_add ccsds_cfdp_ranges_is_complete
proof (unfold_locales, goal_cases)
  case (1 s a b s')
  then show ?case using add_ok by auto
next
  case (2 s a b status s')
  then show ?case by (rule ranges_add_cases)
next
  case (3 s a b)
  then show ?case
    by (simp add: ccsds_cfdp_ranges_is_complete_def range_is_valid_def ranges_inv_def is_complete_loop_iff)
qed

section \<open>Properties\<close>

text \<open>
  C30: After any sequence of additions to an empty list, accepted or refused, the list is sorted,
  disjoint, without adjacent ranges and within capacity, it covers exactly the union of the accepted
  ranges, and the completeness test of a non-empty interval says whether that union contains it.
\<close>

theorem ranges_track_received_offsets:
  "case add_run ccsds_cfdp_ranges_add ccsds_cfdp_ranges_init segs of (rs, accepted) \<Rightarrow>
     ranges_inv rs \<and> covered rs = segment_offsets accepted \<and> set accepted \<subseteq> set segs \<and>
     ccsds_cfdp_ranges_is_complete rs start end =
       (if start < end then Inr ({start ..< end} \<subseteq> segment_offsets accepted)
        else Inl CCSDS_CFDP_STATUS_INVALID_ARGUMENT)"
proof -
  have e: "ranges_inv ccsds_cfdp_ranges_init" "covered ccsds_cfdp_ranges_init = {}"
    by (simp_all add: ccsds_cfdp_ranges_init_def ranges_inv_def)
  have "\<not> start < end \<Longrightarrow>
      ccsds_cfdp_ranges_is_complete rs start end = Inl CCSDS_CFDP_STATUS_INVALID_ARGUMENT" for rs
    by (simp add: ccsds_cfdp_ranges_is_complete_def range_is_valid_def)
  then show ?thesis
    using received.run_cover [OF e(1), of segs] received.run_complete [OF e, of start "end" segs] e(2)
    by (auto split: prod.splits)
qed

text \<open>
  For a list that tracks received offsets, the missing ranges of a non-empty interval are the
  sorted normal form of exactly the offsets of the interval not received; the only failure is that
  there are more gaps than the capacity, which four separate ranges inside the interval produce.
\<close>

theorem ranges_missing_is_complement:
  assumes "ranges_inv rs" "start < end"
  shows "case ccsds_cfdp_ranges_missing rs start end of
      Inl status \<Rightarrow> status = CCSDS_CFDP_STATUS_BUFFER_TOO_SMALL
    | Inr missing \<Rightarrow> ranges_inv missing \<and> covered missing = {start ..< end} - covered rs"
  using assms by (rule missing_spec)

lemma ranges_missing_is_complement_witness:
  "case ccsds_cfdp_ranges_missing [\<lparr>r_start = 2, r_end = 4\<rparr>, \<lparr>r_start = 6, r_end = 8\<rparr>] 0 10 of
      Inl status \<Rightarrow> status = CCSDS_CFDP_STATUS_BUFFER_TOO_SMALL
    | Inr missing \<Rightarrow> ranges_inv missing \<and>
        covered missing = {0 ..< 10} - covered [\<lparr>r_start = 2, r_end = 4\<rparr>, \<lparr>r_start = 6, r_end = 8\<rparr>]"
  by (rule ranges_missing_is_complement) (simp_all add: ranges_inv_def CCSDS_CFDP_MAX_NAK_RANGES_def)

lemma ranges_missing_overflow:
  "ccsds_cfdp_ranges_missing
     [\<lparr>r_start = 1, r_end = 2\<rparr>, \<lparr>r_start = 3, r_end = 4\<rparr>, \<lparr>r_start = 5, r_end = 6\<rparr>,
      \<lparr>r_start = 7, r_end = 8\<rparr>] 0 10 = Inl CCSDS_CFDP_STATUS_BUFFER_TOO_SMALL"
  by (simp add: ccsds_cfdp_ranges_missing_def range_is_valid_def CCSDS_CFDP_MAX_NAK_RANGES_def
      ccsds_cfdp_ranges_init_def ccsds_cfdp_ranges_add_def word_le_nat_alt word_less_nat_alt)

end
