(* ===== verification/Cfdp_Entity.thy ===== *)
theory Cfdp_Entity
  imports Cfdp_Pdu Cfdp_Checksum Cfdp_Ranges
begin

text \<open>
  The file delivery entity (\<open>ccsds_cfdp_entity.c\<close>): one sending and one receiving transaction, the
  handlers of the six PDUs, the retry timers and the file transfer itself.

  The state of an operation is the pair of the entity and an application state \<open>'w\<close> on which the
  callbacks act: the file stores, the link and the clock. The callbacks that the application
  installs are in \<open>cfdp_env\<close>. Sending a PDU and reporting an event also take and return the entity,
  because the application may call the entity again from there; the code tests the slots after
  sending for this reason. A null pointer is \<open>None\<close>. \<open>pdu_buf\<close> is the octet list handed to
  \<open>send_pdu\<close>; the segment buffer is part of the entity because its contents are used after sending.
\<close>

section \<open>Callbacks and state\<close>

type_synonym file_handle = "nat option"

record 'w cfdp_filestore_ops =
  open_read :: "(octets \<Rightarrow> 'w \<Rightarrow> int \<times> file_handle \<times> u32 \<times> 'w) option"
  open_write_tmp :: "(octets \<Rightarrow> 'w \<Rightarrow> int \<times> file_handle \<times> 'w) option"
  fs_read :: "(file_handle \<Rightarrow> u32 \<Rightarrow> nat \<Rightarrow> 'w \<Rightarrow> int \<times> octets \<times> 'w) option"
  fs_write :: "(file_handle \<Rightarrow> u32 \<Rightarrow> octets \<Rightarrow> 'w \<Rightarrow> int \<times> 'w) option"
  fs_close :: "(file_handle \<Rightarrow> 'w \<Rightarrow> int \<times> 'w) option"
  commit_tmp :: "(octets \<Rightarrow> 'w \<Rightarrow> int \<times> 'w) option"
  discard_tmp :: "(octets \<Rightarrow> 'w \<Rightarrow> int \<times> 'w) option"

type_synonym 'w filestore = "'w cfdp_filestore_ops option"

record cfdp_transaction_id =
  tid_source :: u64
  tid_number :: u64

datatype cfdp_event_type =
    CCSDS_CFDP_EVENT_TRANSACTION_STARTED
  | CCSDS_CFDP_EVENT_METADATA_RECV
  | CCSDS_CFDP_EVENT_FILE_SEGMENT_RECV
  | CCSDS_CFDP_EVENT_EOF_RECV
  | CCSDS_CFDP_EVENT_NAK_SENT
  | CCSDS_CFDP_EVENT_NAK_RECV
  | CCSDS_CFDP_EVENT_RETRANSMIT
  | CCSDS_CFDP_EVENT_FINISHED_SENT
  | CCSDS_CFDP_EVENT_FINISHED_RECV
  | CCSDS_CFDP_EVENT_COMPLETE
  | CCSDS_CFDP_EVENT_FAILED

record cfdp_event =
  event_type :: cfdp_event_type
  event_id :: cfdp_transaction_id
  event_status :: cfdp_status

record cfdp_entity_config =
  cfg_local_entity_id :: u64
  cfg_remote_entity_id :: u64
  cfg_entity_id_len :: u8
  cfg_sequence_number_len :: u8
  cfg_initial_sequence_number :: u64

record 'w cfdp_transaction_slot =
  active :: bool
  slot_id :: cfdp_transaction_id
  peer_entity_id :: u64
  slot_filestore :: "'w filestore"
  metadata_received :: bool
  file_handle_open :: bool
  file_handle :: file_handle
  slot_file_size :: u32
  eof_checksum :: u32
  slot_checksum_type :: u8
  slot_mode :: u8
  checksum_state :: cfdp_checksum_state
  received_ranges :: "cfdp_range list"
  source_path :: octets
  destination_path :: octets
  slot_closure_requested :: bool
  eof_received :: bool
  finished_received :: bool
  recovery_pending :: bool
  waiting_for_finished_ack :: bool
  nak_retry_count :: u32
  retry_count :: u32
  retry_deadline_ms :: u64
  finished_status :: cfdp_status

record cfdp_put_request =
  req_source_path :: "octets option"
  req_destination_path :: "octets option"
  req_checksum_type :: u8
  req_closure_requested :: bool
  acknowledged_mode :: bool

record 'w cfdp_entity =
  local_entity_id :: u64
  remote_entity_id :: u64
  ent_id_len :: u8
  ent_sequence_number_len :: u8
  next_transaction_sequence_number :: u64
  sender :: "'w cfdp_transaction_slot"
  receiver :: "'w cfdp_transaction_slot"
  sender_completion_available :: bool
  sender_completion_status :: cfdp_status
  file_segment_buf :: octets

type_synonym 'w cfdp_state = "'w cfdp_entity \<times> 'w"

record 'w cfdp_env =
  send_pdu :: "(u64 \<Rightarrow> octets \<Rightarrow> 'w cfdp_state \<Rightarrow> int \<times> 'w cfdp_state) option"
  now_ms :: "('w \<Rightarrow> u64 \<times> 'w) option"
  event_cb :: "(cfdp_event \<Rightarrow> 'w cfdp_state \<Rightarrow> 'w cfdp_state) option"
  env_crc :: crc_ops

text \<open>A slot after \<open>memset\<close>: every flag, number and pointer is zero.\<close>

definition empty_path :: octets where
  "empty_path = replicate (CCSDS_CFDP_MAX_FILENAME_LEN + 1) 0"

definition cleared_slot :: "'w cfdp_transaction_slot" where
  "cleared_slot =
     \<lparr>active = False, slot_id = \<lparr>tid_source = 0, tid_number = 0\<rparr>, peer_entity_id = 0, slot_filestore = None,
      metadata_received = False, file_handle_open = False, file_handle = None, slot_file_size = 0,
      eof_checksum = 0, slot_checksum_type = 0, slot_mode = 0,
      checksum_state = \<lparr>cks_type = 0, cks_value = 0, next_offset = 0, crc_started = False, deferred = False\<rparr>,
      received_ranges = [], source_path = empty_path, destination_path = empty_path,
      slot_closure_requested = False, eof_received = False, finished_received = False,
      recovery_pending = False, waiting_for_finished_ack = False, nak_retry_count = 0, retry_count = 0,
      retry_deadline_ms = 0, finished_status = CCSDS_CFDP_STATUS_OK\<rparr>"

definition upd_sender ::
  "('w cfdp_transaction_slot \<Rightarrow> 'w cfdp_transaction_slot) \<Rightarrow> 'w cfdp_entity \<Rightarrow> 'w cfdp_entity" where
  "upd_sender f e = e\<lparr>sender := f (sender e)\<rparr>"

definition upd_receiver ::
  "('w cfdp_transaction_slot \<Rightarrow> 'w cfdp_transaction_slot) \<Rightarrow> 'w cfdp_entity \<Rightarrow> 'w cfdp_entity" where
  "upd_receiver f e = e\<lparr>receiver := f (receiver e)\<rparr>"

text \<open>A path in its fixed buffer, padded with zeros, and the C string a callback reads from it.\<close>

definition put_path :: "octets \<Rightarrow> octets" where
  "put_path v = v @ drop (length v) empty_path"

definition c_string :: "octets \<Rightarrow> octets" where
  "c_string = takeWhile (\<lambda>c. c \<noteq> 0)"

section \<open>Sequence numbers, events and paths\<close>

definition UINT64_MAX :: u64 where "UINT64_MAX = 0xffffffffffffffff"

definition transaction_sequence_limit :: "u8 \<Rightarrow> u64" where
  "transaction_sequence_limit len =
     (if unat len \<ge> CCSDS_CFDP_MAX_ENCODED_INT_LEN then UINT64_MAX else push_bit (unat len * 8) 1)"

definition advance_transaction_sequence_number :: "'w cfdp_entity \<Rightarrow> 'w cfdp_entity" where
  "advance_transaction_sequence_number e =
     (let limit = transaction_sequence_limit (ent_sequence_number_len e) in
      if limit = UINT64_MAX
      then e\<lparr>next_transaction_sequence_number := next_transaction_sequence_number e + 1\<rparr>
      else e\<lparr>next_transaction_sequence_number := (next_transaction_sequence_number e + 1) mod limit\<rparr>)"

definition transaction_id_matches :: "cfdp_transaction_id \<Rightarrow> cfdp_transaction_id \<Rightarrow> bool" where
  "transaction_id_matches a b \<longleftrightarrow> tid_source a = tid_source b \<and> tid_number a = tid_number b"

definition emit_event ::
  "'w cfdp_env \<Rightarrow> cfdp_event_type \<Rightarrow> cfdp_transaction_id \<Rightarrow> cfdp_status \<Rightarrow> 'w cfdp_state \<Rightarrow> 'w cfdp_state" where
  "emit_event env type tid status s =
     (case event_cb env of
        None \<Rightarrow> s
      | Some cb \<Rightarrow> cb \<lparr>event_type = type, event_id = tid, event_status = status\<rparr> s)"

definition emit_terminal_event ::
  "'w cfdp_env \<Rightarrow> cfdp_transaction_id \<Rightarrow> cfdp_status \<Rightarrow> 'w cfdp_state \<Rightarrow> 'w cfdp_state" where
  "emit_terminal_event env tid status s =
     emit_event env (if status = CCSDS_CFDP_STATUS_OK then CCSDS_CFDP_EVENT_COMPLETE
                     else CCSDS_CFDP_EVENT_FAILED) tid status s"

text \<open>A string is the list of its characters; the end of the list stands for the terminating zero.\<close>

fun bounded_strlen_from :: "octets \<Rightarrow> nat \<Rightarrow> nat \<Rightarrow> nat" where
  "bounded_strlen_from [] max_len len = len"
| "bounded_strlen_from (c # str) max_len len =
     (if len \<le> max_len \<and> c \<noteq> 0 then bounded_strlen_from str max_len (len + 1) else len)"

definition bounded_strlen :: "octets \<Rightarrow> nat \<Rightarrow> nat" where
  "bounded_strlen str max_len = bounded_strlen_from str max_len 0"

definition path_len_is_valid :: "octets option \<Rightarrow> nat option" where
  "path_len_is_valid path =
     (case path of
        None \<Rightarrow> None
      | Some p \<Rightarrow>
          let path_len = bounded_strlen p CCSDS_CFDP_MAX_FILENAME_LEN in
          if path_len = 0 \<or> path_len > CCSDS_CFDP_MAX_FILENAME_LEN then None else Some path_len)"

section \<open>Sending PDUs\<close>

definition sender_header :: "'w cfdp_entity \<Rightarrow> u8 \<Rightarrow> cfdp_pdu_header" where
  "sender_header e type =
     \<lparr>hdr_version = CCSDS_CFDP_VERSION_1, pdu_type = type,
      direction = CCSDS_CFDP_DIRECTION_TOWARD_RECEIVER, transmission_mode = slot_mode (sender e),
      crc_flag = CCSDS_CFDP_CRC_NOT_PRESENT, file_size_mode = CCSDS_CFDP_FILE_SIZE_SMALL,
      pdu_data_field_len = 0,
      segmentation_control = CCSDS_CFDP_SEGMENTATION_RECORD_BOUNDARIES_NOT_PRESERVED,
      segment_metadata_present = False, entity_id_len = ent_id_len e,
      transaction_sequence_number_len = ent_sequence_number_len e,
      source_entity_id = tid_source (slot_id (sender e)),
      transaction_sequence_number = tid_number (slot_id (sender e)),
      destination_entity_id = peer_entity_id (sender e)\<rparr>"

definition receiver_response_header :: "'w cfdp_entity \<Rightarrow> cfdp_pdu_header" where
  "receiver_response_header e =
     \<lparr>hdr_version = CCSDS_CFDP_VERSION_1, pdu_type = CCSDS_CFDP_PDU_TYPE_FILE_DIRECTIVE,
      direction = CCSDS_CFDP_DIRECTION_TOWARD_SENDER, transmission_mode = slot_mode (receiver e),
      crc_flag = CCSDS_CFDP_CRC_NOT_PRESENT, file_size_mode = CCSDS_CFDP_FILE_SIZE_SMALL,
      pdu_data_field_len = 0,
      segmentation_control = CCSDS_CFDP_SEGMENTATION_RECORD_BOUNDARIES_NOT_PRESERVED,
      segment_metadata_present = False, entity_id_len = ent_id_len e,
      transaction_sequence_number_len = ent_sequence_number_len e,
      source_entity_id = tid_source (slot_id (receiver e)),
      transaction_sequence_number = tid_number (slot_id (receiver e)),
      destination_entity_id = local_entity_id e\<rparr>"

definition send_encoded_pdu_to ::
  "'w cfdp_env \<Rightarrow> u64 \<Rightarrow> octets \<Rightarrow> 'w cfdp_state \<Rightarrow> cfdp_status \<times> 'w cfdp_state" where
  "send_encoded_pdu_to env dest pdu s =
     (case the (send_pdu env) dest pdu s of
        (rc, s) \<Rightarrow> (if rc = 0 then CCSDS_CFDP_STATUS_OK else CCSDS_CFDP_STATUS_INVALID_ARGUMENT, s))"

definition send_encoded_pdu ::
  "'w cfdp_env \<Rightarrow> octets \<Rightarrow> 'w cfdp_state \<Rightarrow> cfdp_status \<times> 'w cfdp_state" where
  "send_encoded_pdu env pdu s = send_encoded_pdu_to env (peer_entity_id (sender (fst s))) pdu s"

definition send_metadata ::
  "'w cfdp_env \<Rightarrow> cfdp_put_request \<Rightarrow> nat \<Rightarrow> nat \<Rightarrow> u32 \<Rightarrow> 'w cfdp_state \<Rightarrow> cfdp_status \<times> 'w cfdp_state" where
  "send_metadata env request source_len destination_len file_size s =
     (case ccsds_cfdp_encode_metadata
             \<lparr>md_header = sender_header (fst s) CCSDS_CFDP_PDU_TYPE_FILE_DIRECTIVE,
              closure_requested = req_closure_requested request,
              checksum_type = req_checksum_type request, md_file_size = file_size,
              source_filename = take source_len (the (req_source_path request)),
              destination_filename = take destination_len (the (req_destination_path request))\<rparr>
             CCSDS_CFDP_MAX_PDU_SIZE of
        Inl status \<Rightarrow> (status, s)
      | Inr pdu \<Rightarrow> send_encoded_pdu env pdu s)"

definition send_filedata ::
  "'w cfdp_env \<Rightarrow> u32 \<Rightarrow> octets \<Rightarrow> 'w cfdp_state \<Rightarrow> cfdp_status \<times> 'w cfdp_state" where
  "send_filedata env offset data s =
     (case ccsds_cfdp_encode_filedata
             \<lparr>fd_header = sender_header (fst s) CCSDS_CFDP_PDU_TYPE_FILE_DATA, fd_offset = offset,
              fd_data = data\<rparr> CCSDS_CFDP_MAX_PDU_SIZE of
        Inl status \<Rightarrow> (status, s)
      | Inr pdu \<Rightarrow> send_encoded_pdu env pdu s)"

definition send_eof :: "'w cfdp_env \<Rightarrow> u32 \<Rightarrow> u32 \<Rightarrow> 'w cfdp_state \<Rightarrow> cfdp_status \<times> 'w cfdp_state" where
  "send_eof env checksum file_size s =
     (case ccsds_cfdp_encode_eof
             \<lparr>eof_header = sender_header (fst s) CCSDS_CFDP_PDU_TYPE_FILE_DIRECTIVE,
              eof_condition_code = CCSDS_CFDP_CONDITION_NO_ERROR, eof_file_checksum = checksum,
              eof_file_size = file_size\<rparr> CCSDS_CFDP_MAX_PDU_SIZE of
        Inl status \<Rightarrow> (status, s)
      | Inr pdu \<Rightarrow> send_encoded_pdu env pdu s)"

definition send_ack_eof :: "'w cfdp_env \<Rightarrow> u8 \<Rightarrow> 'w cfdp_state \<Rightarrow> cfdp_status \<times> 'w cfdp_state" where
  "send_ack_eof env code s =
     (case ccsds_cfdp_encode_ack
             \<lparr>ack_header = receiver_response_header (fst s),
              acknowledged_directive = CCSDS_CFDP_DIRECTIVE_EOF,
              directive_subtype = CCSDS_CFDP_ACK_DIRECTIVE_SUBTYPE_OTHER, ack_condition_code = code,
              transaction_status = CCSDS_CFDP_TRANSACTION_STATUS_ACTIVE\<rparr> CCSDS_CFDP_MAX_PDU_SIZE of
        Inl status \<Rightarrow> (status, s)
      | Inr pdu \<Rightarrow> send_encoded_pdu_to env (peer_entity_id (receiver (fst s))) pdu s)"

definition send_ack_finished :: "'w cfdp_env \<Rightarrow> u8 \<Rightarrow> 'w cfdp_state \<Rightarrow> cfdp_status \<times> 'w cfdp_state" where
  "send_ack_finished env code s =
     (case ccsds_cfdp_encode_ack
             \<lparr>ack_header = sender_header (fst s) CCSDS_CFDP_PDU_TYPE_FILE_DIRECTIVE,
              acknowledged_directive = CCSDS_CFDP_DIRECTIVE_FINISHED,
              directive_subtype = CCSDS_CFDP_ACK_DIRECTIVE_SUBTYPE_FINISHED, ack_condition_code = code,
              transaction_status = CCSDS_CFDP_TRANSACTION_STATUS_TERMINATED\<rparr> CCSDS_CFDP_MAX_PDU_SIZE of
        Inl status \<Rightarrow> (status, s)
      | Inr pdu \<Rightarrow> send_encoded_pdu env pdu s)"

definition send_nak_for_missing_ranges ::
  "'w cfdp_env \<Rightarrow> 'w cfdp_state \<Rightarrow> cfdp_status \<times> 'w cfdp_state" where
  "send_nak_for_missing_ranges env s =
     (case ccsds_cfdp_ranges_missing (received_ranges (receiver (fst s))) 0 (slot_file_size (receiver (fst s))) of
        Inl status \<Rightarrow>
          (if status = CCSDS_CFDP_STATUS_BUFFER_TOO_SMALL then CCSDS_CFDP_STATUS_NAK_LIMIT_REACHED else status, s)
      | Inr missing \<Rightarrow>
          (case ccsds_cfdp_encode_nak
                  \<lparr>nak_header = receiver_response_header (fst s), scope_start = 0,
                   scope_end = slot_file_size (receiver (fst s)),
                   nak_ranges = map (\<lambda>r. \<lparr>nak_start = r_start r, nak_end = r_end r\<rparr>) missing\<rparr>
                  CCSDS_CFDP_MAX_PDU_SIZE of
             Inl status \<Rightarrow> (status, s)
           | Inr pdu \<Rightarrow> send_encoded_pdu_to env (peer_entity_id (receiver (fst s))) pdu s))"

definition finished_condition_from_status :: "cfdp_status \<Rightarrow> u8" where
  "finished_condition_from_status status =
     (if status = CCSDS_CFDP_STATUS_FILESTORE_REJECTION then CCSDS_CFDP_CONDITION_FILESTORE_REJECTION
      else if status = CCSDS_CFDP_STATUS_CHECKSUM_FAILURE then CCSDS_CFDP_CONDITION_FILE_CHECKSUM_FAILURE
      else if status = CCSDS_CFDP_STATUS_FILE_SIZE_ERROR then CCSDS_CFDP_CONDITION_FILE_SIZE_ERROR
      else if status = CCSDS_CFDP_STATUS_NAK_LIMIT_REACHED then CCSDS_CFDP_CONDITION_NAK_LIMIT_REACHED
      else if status = CCSDS_CFDP_STATUS_OK then CCSDS_CFDP_CONDITION_NO_ERROR
      else CCSDS_CFDP_CONDITION_CANCEL_REQUEST_RECEIVED)"

definition finished_file_status_from_status :: "cfdp_status \<Rightarrow> u8" where
  "finished_file_status_from_status status =
     (if status = CCSDS_CFDP_STATUS_OK then CCSDS_CFDP_FILE_STATUS_RETAINED
      else if status = CCSDS_CFDP_STATUS_FILESTORE_REJECTION
      then CCSDS_CFDP_FILE_STATUS_DISCARDED_FILESTORE_REJECTION
      else CCSDS_CFDP_FILE_STATUS_DISCARDED_DELIBERATELY)"

definition send_finished_for_receiver_status ::
  "'w cfdp_env \<Rightarrow> cfdp_status \<Rightarrow> 'w cfdp_state \<Rightarrow> cfdp_status \<times> 'w cfdp_state" where
  "send_finished_for_receiver_status env status s =
     (case ccsds_cfdp_encode_finished
             \<lparr>fin_header = receiver_response_header (fst s),
              fin_condition_code = finished_condition_from_status status,
              delivery_code =
                (if status = CCSDS_CFDP_STATUS_OK then CCSDS_CFDP_DELIVERY_CODE_DATA_COMPLETE
                 else CCSDS_CFDP_DELIVERY_CODE_DATA_INCOMPLETE),
              file_status = finished_file_status_from_status status\<rparr> CCSDS_CFDP_MAX_PDU_SIZE of
        Inl status \<Rightarrow> (status, s)
      | Inr pdu \<Rightarrow> send_encoded_pdu_to env (peer_entity_id (receiver (fst s))) pdu s)"

section \<open>Header checks\<close>

definition filestore_is_valid :: "'w filestore \<Rightarrow> bool" where
  "filestore_is_valid filestore \<longleftrightarrow>
     (case filestore of
        None \<Rightarrow> False
      | Some fs \<Rightarrow> open_read fs \<noteq> None \<and> fs_read fs \<noteq> None \<and> fs_close fs \<noteq> None)"

definition receive_filestore_is_valid :: "'w filestore \<Rightarrow> bool" where
  "receive_filestore_is_valid filestore \<longleftrightarrow>
     (case filestore of
        None \<Rightarrow> False
      | Some fs \<Rightarrow> open_write_tmp fs \<noteq> None \<and> fs_read fs \<noteq> None \<and> fs_write fs \<noteq> None \<and>
          fs_close fs \<noteq> None \<and> commit_tmp fs \<noteq> None \<and> discard_tmp fs \<noteq> None)"

definition incoming_header_is_supported :: "'w cfdp_entity \<Rightarrow> cfdp_pdu_header \<Rightarrow> bool" where
  "incoming_header_is_supported e h \<longleftrightarrow>
     destination_entity_id h = local_entity_id e \<and> source_entity_id h = remote_entity_id e \<and>
     entity_id_len h = ent_id_len e \<and> transaction_sequence_number_len h = ent_sequence_number_len e \<and>
     direction h = CCSDS_CFDP_DIRECTION_TOWARD_RECEIVER \<and>
     transmission_mode h \<le> CCSDS_CFDP_TRANSMISSION_MODE_UNACKNOWLEDGED \<and>
     crc_flag h = CCSDS_CFDP_CRC_NOT_PRESENT"

definition incoming_finished_header_is_supported :: "'w cfdp_entity \<Rightarrow> cfdp_pdu_header \<Rightarrow> bool" where
  "incoming_finished_header_is_supported e h \<longleftrightarrow>
     source_entity_id h = local_entity_id e \<and> destination_entity_id h = remote_entity_id e \<and>
     entity_id_len h = ent_id_len e \<and> transaction_sequence_number_len h = ent_sequence_number_len e \<and>
     direction h = CCSDS_CFDP_DIRECTION_TOWARD_SENDER \<and>
     transmission_mode h \<le> CCSDS_CFDP_TRANSMISSION_MODE_UNACKNOWLEDGED \<and>
     crc_flag h = CCSDS_CFDP_CRC_NOT_PRESENT"

definition sender_nak_header_is_supported :: "'w cfdp_entity \<Rightarrow> cfdp_pdu_header \<Rightarrow> bool" where
  "sender_nak_header_is_supported e h \<longleftrightarrow>
     incoming_finished_header_is_supported e h \<and>
     transmission_mode h = CCSDS_CFDP_TRANSMISSION_MODE_ACKNOWLEDGED"

definition transaction_id_from_header :: "cfdp_pdu_header \<Rightarrow> cfdp_transaction_id" where
  "transaction_id_from_header h =
     \<lparr>tid_source = source_entity_id h, tid_number = transaction_sequence_number h\<rparr>"

definition sender_active_matches_header :: "'w cfdp_entity \<Rightarrow> cfdp_pdu_header \<Rightarrow> bool" where
  "sender_active_matches_header e h \<longleftrightarrow>
     active (sender e) \<and> transaction_id_matches (slot_id (sender e)) (transaction_id_from_header h)"

definition receiver_active_matches_header :: "'w cfdp_entity \<Rightarrow> cfdp_pdu_header \<Rightarrow> bool" where
  "receiver_active_matches_header e h \<longleftrightarrow>
     active (receiver e) \<and> transaction_id_matches (slot_id (receiver e)) (transaction_id_from_header h)"

definition receiver_match_active :: "'w cfdp_entity \<Rightarrow> cfdp_pdu_header \<Rightarrow> cfdp_status" where
  "receiver_match_active e h =
     (if \<not> active (receiver e) \<or> \<not> metadata_received (receiver e) then CCSDS_CFDP_STATUS_INVALID_ARGUMENT
      else if \<not> transaction_id_matches (slot_id (receiver e)) (transaction_id_from_header h)
      then CCSDS_CFDP_STATUS_TRANSACTION_BUSY
      else CCSDS_CFDP_STATUS_OK)"

section \<open>Timers\<close>

definition entity_now_ms :: "'w cfdp_env \<Rightarrow> 'w cfdp_state \<Rightarrow> u64 \<times> 'w cfdp_state" where
  "entity_now_ms env s =
     (case now_ms env of
        None \<Rightarrow> (0, s)
      | Some now \<Rightarrow> (case now (snd s) of (t, w) \<Rightarrow> (t, (fst s, w))))"

definition arm_retry :: "u64 \<Rightarrow> 'w cfdp_transaction_slot \<Rightarrow> 'w cfdp_transaction_slot" where
  "arm_retry now slot = slot\<lparr>retry_deadline_ms := now + ucast CCSDS_CFDP_RETRY_INTERVAL_MS\<rparr>"

definition retry_due :: "'w cfdp_transaction_slot \<Rightarrow> u64 \<Rightarrow> bool" where
  "retry_due slot now \<longleftrightarrow> retry_deadline_ms slot = 0 \<or> now \<ge> retry_deadline_ms slot"

section \<open>Reading a file in segments\<close>

text \<open>The length of the next request, and a read into the segment buffer.\<close>

definition segment_request :: "u32 \<Rightarrow> u32 \<Rightarrow> nat" where
  "segment_request file_size offset =
     (let remaining = unat (file_size - offset) in
      if remaining < CCSDS_CFDP_MAX_SEGMENT_SIZE then remaining else CCSDS_CFDP_MAX_SEGMENT_SIZE)"

definition read_segment ::
  "'w cfdp_filestore_ops \<Rightarrow> file_handle \<Rightarrow> u32 \<Rightarrow> nat \<Rightarrow> 'w cfdp_state \<Rightarrow> int \<times> nat \<times> 'w cfdp_state" where
  "read_segment fs handle offset len s =
     (case the (fs_read fs) handle offset len (snd s) of
        (rc, data, w) \<Rightarrow>
          (rc, length data,
           ((fst s)\<lparr>file_segment_buf := data @ drop (length data) (file_segment_buf (fst s))\<rparr>, w)))"

function receiver_checksum_loop ::
  "'w cfdp_env \<Rightarrow> 'w cfdp_filestore_ops \<Rightarrow> file_handle \<Rightarrow> u32 \<Rightarrow> u32 \<Rightarrow> cfdp_checksum_state \<Rightarrow> 'w cfdp_state
     \<Rightarrow> u32 cfdp_result \<times> 'w cfdp_state" where
  "receiver_checksum_loop env fs handle file_size offset st s =
     (if offset < file_size
      then
        case read_segment fs handle offset (segment_request file_size offset) s of
          (rc, nread, s) \<Rightarrow>
            if rc \<noteq> 0 then (Inl CCSDS_CFDP_STATUS_FILESTORE_REJECTION, s)
            else if nread = 0 \<or> nread > segment_request file_size offset \<or> nread > unat (file_size - offset)
            then (Inl CCSDS_CFDP_STATUS_FILE_SIZE_ERROR, s)
            else
              case ccsds_cfdp_checksum_update (env_crc env) st offset (take nread (file_segment_buf (fst s))) of
                (status, st) \<Rightarrow>
                  if status \<noteq> CCSDS_CFDP_STATUS_OK then (Inl status, s)
                  else receiver_checksum_loop env fs handle file_size (offset + of_nat nread) st s
      else (ccsds_cfdp_checksum_finish st, s))"
  by pat_completeness auto
termination
  by (relation "measure (\<lambda>(env, fs, handle, file_size, offset, st, s). unat file_size - unat offset)")
    (auto intro!: offset_measure simp: not_less)

declare receiver_checksum_loop.simps [simp del]

definition receiver_compute_checksum ::
  "'w cfdp_env \<Rightarrow> 'w cfdp_filestore_ops \<Rightarrow> 'w cfdp_state \<Rightarrow> u32 cfdp_result \<times> 'w cfdp_state" where
  "receiver_compute_checksum env fs s =
     (case ccsds_cfdp_checksum_init (slot_checksum_type (receiver (fst s))) of
        Inl status \<Rightarrow> (Inl status, s)
      | Inr st \<Rightarrow>
          receiver_checksum_loop env fs (file_handle (receiver (fst s)))
            (slot_file_size (receiver (fst s))) 0 st s)"

definition receiver_verify_complete_file ::
  "'w cfdp_env \<Rightarrow> 'w cfdp_filestore_ops \<Rightarrow> u32 \<Rightarrow> 'w cfdp_state \<Rightarrow> cfdp_status \<times> 'w cfdp_state" where
  "receiver_verify_complete_file env fs expected_checksum s =
     (case receiver_compute_checksum env fs s of
        (Inl status, s) \<Rightarrow> (status, s)
      | (Inr checksum, s) \<Rightarrow>
          (if checksum \<noteq> expected_checksum then CCSDS_CFDP_STATUS_CHECKSUM_FAILURE
           else CCSDS_CFDP_STATUS_OK, s))"

section \<open>Closing and releasing transactions\<close>

definition close_sender_handle :: "'w cfdp_state \<Rightarrow> 'w cfdp_state" where
  "close_sender_handle s =
     (case s of
        (e, w) \<Rightarrow>
          (upd_sender (\<lambda>t. t\<lparr>file_handle_open := False, file_handle := None\<rparr>) e,
           if file_handle_open (sender e)
           then
             (case slot_filestore (sender e) of
                None \<Rightarrow> w
              | Some fs \<Rightarrow>
                  (case fs_close fs of None \<Rightarrow> w | Some close \<Rightarrow> snd (close (file_handle (sender e)) w)))
           else w))"

definition close_discard_receiver :: "'w cfdp_state \<Rightarrow> 'w cfdp_state" where
  "close_discard_receiver s =
     (case s of
        (e, w) \<Rightarrow>
          (case slot_filestore (receiver e) of
             None \<Rightarrow> (e, w)
           | Some fs \<Rightarrow>
               let w = (if file_handle_open (receiver e)
                        then (case fs_close fs of
                                None \<Rightarrow> w
                              | Some close \<Rightarrow> snd (close (file_handle (receiver e)) w))
                        else w);
                   w = (case discard_tmp fs of
                          None \<Rightarrow> w
                        | Some discard \<Rightarrow> snd (discard (c_string (destination_path (receiver e))) w))
               in (upd_receiver (\<lambda>t. t\<lparr>file_handle_open := False, file_handle := None\<rparr>) e, w)))"

definition ccsds_cfdp_entity_release_sender_transaction :: "'w cfdp_state \<Rightarrow> 'w cfdp_state" where
  "ccsds_cfdp_entity_release_sender_transaction s =
     (case close_sender_handle s of (e, w) \<Rightarrow> (upd_sender (\<lambda>_. cleared_slot) e, w))"

definition ccsds_cfdp_entity_release_receiver_transaction :: "'w cfdp_state \<Rightarrow> 'w cfdp_state" where
  "ccsds_cfdp_entity_release_receiver_transaction s =
     (case s of (e, w) \<Rightarrow> (upd_receiver (\<lambda>_. cleared_slot) e, w))"

definition release_sender_terminal :: "'w cfdp_env \<Rightarrow> cfdp_status \<Rightarrow> 'w cfdp_state \<Rightarrow> 'w cfdp_state" where
  "release_sender_terminal env status s =
     ccsds_cfdp_entity_release_sender_transaction
       (emit_terminal_event env (slot_id (sender (fst s))) status s)"

definition release_receiver_terminal :: "'w cfdp_env \<Rightarrow> cfdp_status \<Rightarrow> 'w cfdp_state \<Rightarrow> 'w cfdp_state" where
  "release_receiver_terminal env status s =
     ccsds_cfdp_entity_release_receiver_transaction
       (emit_terminal_event env (slot_id (receiver (fst s))) status s)"

definition fail_receiver_active_transaction ::
  "'w cfdp_env \<Rightarrow> cfdp_status \<Rightarrow> 'w cfdp_state \<Rightarrow> 'w cfdp_state" where
  "fail_receiver_active_transaction env status s =
     release_receiver_terminal env status
       (if \<not> waiting_for_finished_ack (receiver (fst s)) then close_discard_receiver s else s)"

definition sender_fail ::
  "'w cfdp_env \<Rightarrow> cfdp_status \<Rightarrow> 'w cfdp_state \<Rightarrow> cfdp_status \<times> 'w cfdp_state" where
  "sender_fail env status s =
     (case s of
        (e, w) \<Rightarrow>
          (status,
           release_sender_terminal env status
             (close_sender_handle (upd_sender (\<lambda>t. t\<lparr>finished_status := status\<rparr>) e, w))))"

section \<open>The receiving transaction\<close>

text \<open>
  \<open>receiver_finish\<close> in its three steps: close the file, commit or discard it, report and keep the
  transaction for the acknowledgement or release it.
\<close>

definition receiver_close_file ::
  "'w cfdp_filestore_ops \<Rightarrow> cfdp_status \<Rightarrow> 'w cfdp_state \<Rightarrow> cfdp_status \<times> 'w cfdp_state" where
  "receiver_close_file fs status s =
     (case s of
        (e, w) \<Rightarrow>
          (case (if file_handle_open (receiver e) then the (fs_close fs) (file_handle (receiver e)) w else (0, w)) of
             (rc, w) \<Rightarrow>
               (if rc \<noteq> 0 \<and> status = CCSDS_CFDP_STATUS_OK then CCSDS_CFDP_STATUS_FILESTORE_REJECTION else status,
                (upd_receiver (\<lambda>t. t\<lparr>file_handle_open := False, file_handle := None\<rparr>) e, w))))"

definition receiver_settle_file ::
  "'w cfdp_filestore_ops \<Rightarrow> cfdp_status \<Rightarrow> 'w cfdp_state \<Rightarrow> cfdp_status \<times> 'w cfdp_state" where
  "receiver_settle_file fs status s =
     (case s of
        (e, w) \<Rightarrow>
          (if status = CCSDS_CFDP_STATUS_OK
           then (case the (commit_tmp fs) (c_string (destination_path (receiver e))) w of
                   (rc, w) \<Rightarrow> (if rc \<noteq> 0 then CCSDS_CFDP_STATUS_FILESTORE_REJECTION else status, (e, w)))
           else (case the (discard_tmp fs) (c_string (destination_path (receiver e))) w of
                   (rc, w) \<Rightarrow> (status, (e, w)))))"

definition receiver_conclude ::
  "'w cfdp_env \<Rightarrow> cfdp_status \<Rightarrow> cfdp_status \<Rightarrow> 'w cfdp_state \<Rightarrow> cfdp_status \<times> 'w cfdp_state" where
  "receiver_conclude env status fin s =
     (if slot_mode (receiver (fst s)) = CCSDS_CFDP_TRANSMISSION_MODE_ACKNOWLEDGED
      then
        (if fin = CCSDS_CFDP_STATUS_OK
         then
           (case entity_now_ms env
                   (upd_receiver (\<lambda>t. t\<lparr>recovery_pending := False, waiting_for_finished_ack := True,
                      retry_count := 0\<rparr>) (fst s), snd s) of
              (now, (e, w)) \<Rightarrow> (status, (upd_receiver (arm_retry now) e, w)))
         else
           (if status = CCSDS_CFDP_STATUS_OK then fin else status, release_receiver_terminal env fin s))
      else
        (if status = CCSDS_CFDP_STATUS_OK then fin else status,
         release_receiver_terminal env (if status = CCSDS_CFDP_STATUS_OK then fin else status) s))"

definition receiver_finish ::
  "'w cfdp_env \<Rightarrow> 'w cfdp_filestore_ops \<Rightarrow> cfdp_status \<Rightarrow> 'w cfdp_state \<Rightarrow> cfdp_status \<times> 'w cfdp_state" where
  "receiver_finish env fs status s =
     (let closure = slot_closure_requested (receiver (fst s)) in
      case receiver_close_file fs status s of
        (status, s) \<Rightarrow>
          case receiver_settle_file fs status s of
            (status, s) \<Rightarrow>
              if closure
              then
                (case send_finished_for_receiver_status env status
                        (upd_receiver (\<lambda>t. t\<lparr>finished_status := status\<rparr>) (fst s), snd s) of
                   (fin, s) \<Rightarrow>
                     if \<not> active (receiver (fst s))
                     then (if status = CCSDS_CFDP_STATUS_OK then fin else status, s)
                     else receiver_conclude env status fin s)
              else receiver_conclude env status CCSDS_CFDP_STATUS_OK s)"

definition metadata_slot ::
  "'w filestore \<Rightarrow> cfdp_metadata_pdu \<Rightarrow> cfdp_checksum_state \<Rightarrow> 'w cfdp_transaction_slot \<Rightarrow> 'w cfdp_transaction_slot" where
  "metadata_slot filestore md st t = t
     \<lparr>checksum_state := st, received_ranges := ccsds_cfdp_ranges_init,
      source_path := put_path (source_filename md), destination_path := put_path (destination_filename md),
      active := True, metadata_received := True, slot_filestore := filestore,
      slot_id := transaction_id_from_header (md_header md),
      peer_entity_id := source_entity_id (md_header md), slot_file_size := md_file_size md,
      slot_checksum_type := checksum_type md, slot_mode := transmission_mode (md_header md),
      slot_closure_requested :=
        (closure_requested md \<or> transmission_mode (md_header md) = CCSDS_CFDP_TRANSMISSION_MODE_ACKNOWLEDGED)\<rparr>"

definition receiver_handle_metadata ::
  "'w cfdp_env \<Rightarrow> 'w filestore \<Rightarrow> octets \<Rightarrow> 'w cfdp_state \<Rightarrow> cfdp_status \<times> 'w cfdp_state" where
  "receiver_handle_metadata env filestore pdu s =
     (case ccsds_cfdp_decode_metadata pdu of
        Inl status \<Rightarrow> (status, s)
      | Inr (md, consumed) \<Rightarrow>
          if consumed \<noteq> length pdu \<or> \<not> incoming_header_is_supported (fst s) (md_header md)
          then (CCSDS_CFDP_STATUS_UNSUPPORTED, s)
          else if active (receiver (fst s))
          then
            (if \<not> transaction_id_matches (slot_id (receiver (fst s))) (transaction_id_from_header (md_header md))
             then CCSDS_CFDP_STATUS_TRANSACTION_BUSY else CCSDS_CFDP_STATUS_INVALID_ARGUMENT, s)
          else
            case ccsds_cfdp_checksum_init (checksum_type md) of
              Inl status \<Rightarrow> (status, s)
            | Inr st \<Rightarrow>
                let e = upd_receiver (metadata_slot filestore md st) (fst s)
                in case the (open_write_tmp (the filestore)) (c_string (destination_path (receiver e))) (snd s) of
                     (rc, handle, w) \<Rightarrow>
                       let e = upd_receiver (\<lambda>t. t\<lparr>file_handle := handle\<rparr>) e
                       in if rc \<noteq> 0
                          then
                            (case emit_terminal_event env (transaction_id_from_header (md_header md))
                                    CCSDS_CFDP_STATUS_FILESTORE_REJECTION (e, w) of
                               (e, w) \<Rightarrow>
                                 (CCSDS_CFDP_STATUS_FILESTORE_REJECTION, (upd_receiver (\<lambda>_. cleared_slot) e, w)))
                          else (CCSDS_CFDP_STATUS_OK, (upd_receiver (\<lambda>t. t\<lparr>file_handle_open := True\<rparr>) e, w)))"

text \<open>The end of \<open>receiver_handle_filedata\<close>: a file that data completed after its EOF.\<close>

definition filedata_completes ::
  "'w cfdp_env \<Rightarrow> 'w cfdp_filestore_ops \<Rightarrow> 'w cfdp_state \<Rightarrow> cfdp_status \<times> 'w cfdp_state" where
  "filedata_completes env fs s =
     (let t = receiver (fst s) in
      if eof_received t \<and> slot_mode t = CCSDS_CFDP_TRANSMISSION_MODE_ACKNOWLEDGED
      then
        case ccsds_cfdp_ranges_is_complete (received_ranges t) 0 (slot_file_size t) of
          Inl status \<Rightarrow> receiver_finish env fs status s
        | Inr complete \<Rightarrow>
            if complete
            then (case receiver_verify_complete_file env fs (eof_checksum t) s of
                    (status, s) \<Rightarrow> receiver_finish env fs status s)
            else (CCSDS_CFDP_STATUS_OK, s)
      else (CCSDS_CFDP_STATUS_OK, s))"

definition receiver_handle_filedata ::
  "'w cfdp_env \<Rightarrow> 'w cfdp_filestore_ops \<Rightarrow> octets \<Rightarrow> 'w cfdp_state \<Rightarrow> cfdp_status \<times> 'w cfdp_state" where
  "receiver_handle_filedata env fs pdu s =
     (case ccsds_cfdp_decode_filedata pdu of
        Inl status \<Rightarrow> (status, s)
      | Inr (fd, consumed) \<Rightarrow>
          if consumed \<noteq> length pdu \<or> \<not> incoming_header_is_supported (fst s) (fd_header fd)
          then (CCSDS_CFDP_STATUS_UNSUPPORTED, s)
          else if receiver_match_active (fst s) (fd_header fd) \<noteq> CCSDS_CFDP_STATUS_OK
          then (receiver_match_active (fst s) (fd_header fd), s)
          else if length (fd_data fd) > UINT32_MAX \<or>
                  fd_offset fd > of_nat UINT32_MAX - of_nat (length (fd_data fd))
          then (CCSDS_CFDP_STATUS_FILE_SIZE_ERROR, s)
          else
            let range_end = fd_offset fd + of_nat (length (fd_data fd))
            in if range_end > slot_file_size (receiver (fst s)) then (CCSDS_CFDP_STATUS_FILE_SIZE_ERROR, s)
               else
                 case the (fs_write fs) (file_handle (receiver (fst s))) (fd_offset fd) (fd_data fd) (snd s) of
                   (rc, w) \<Rightarrow>
                     if rc \<noteq> 0 then (CCSDS_CFDP_STATUS_FILESTORE_REJECTION, (fst s, w))
                     else
                       case ccsds_cfdp_ranges_add (received_ranges (receiver (fst s))) (fd_offset fd) range_end of
                         (status, rs) \<Rightarrow>
                           let e = upd_receiver (\<lambda>t. t\<lparr>received_ranges := rs\<rparr>) (fst s)
                           in if status \<noteq> CCSDS_CFDP_STATUS_OK then (status, (e, w))
                              else
                                case ccsds_cfdp_checksum_update (env_crc env) (checksum_state (receiver e))
                                       (fd_offset fd) (fd_data fd) of
                                  (status, st) \<Rightarrow>
                                    let e = upd_receiver (\<lambda>t. t\<lparr>checksum_state := st\<rparr>) e
                                    in if status \<noteq> CCSDS_CFDP_STATUS_OK then (status, (e, w))
                                       else filedata_completes env fs (e, w))"

text \<open>The end of \<open>receiver_handle_eof\<close>, for an EOF that agrees with the Metadata.\<close>

definition eof_completes ::
  "'w cfdp_env \<Rightarrow> 'w cfdp_filestore_ops \<Rightarrow> cfdp_eof_pdu \<Rightarrow> 'w cfdp_state \<Rightarrow> cfdp_status \<times> 'w cfdp_state" where
  "eof_completes env fs eof s =
     (case ccsds_cfdp_ranges_is_complete (received_ranges (receiver (fst s))) 0 (eof_file_size eof) of
        Inl status \<Rightarrow> receiver_finish env fs status s
      | Inr complete \<Rightarrow>
          if \<not> complete
          then
            (if slot_mode (receiver (fst s)) = CCSDS_CFDP_TRANSMISSION_MODE_ACKNOWLEDGED
             then
               (case send_nak_for_missing_ranges env
                       (upd_receiver (\<lambda>t. t\<lparr>eof_received := True, eof_checksum := eof_file_checksum eof\<rparr>) (fst s),
                        snd s) of
                  (status, s) \<Rightarrow>
                    if status \<noteq> CCSDS_CFDP_STATUS_OK then receiver_finish env fs status s
                    else
                      (case entity_now_ms env
                              (upd_receiver (\<lambda>t. t\<lparr>recovery_pending := True, retry_count := 0\<rparr>) (fst s), snd s) of
                         (now, (e, w)) \<Rightarrow> (CCSDS_CFDP_STATUS_OK, (upd_receiver (arm_retry now) e, w))))
             else receiver_finish env fs CCSDS_CFDP_STATUS_FILE_SIZE_ERROR s)
          else
            (case receiver_verify_complete_file env fs (eof_file_checksum eof) s of
               (status, s) \<Rightarrow> receiver_finish env fs status s))"

definition receiver_handle_eof ::
  "'w cfdp_env \<Rightarrow> 'w cfdp_filestore_ops \<Rightarrow> octets \<Rightarrow> 'w cfdp_state \<Rightarrow> cfdp_status \<times> 'w cfdp_state" where
  "receiver_handle_eof env fs pdu s =
     (case ccsds_cfdp_decode_eof pdu of
        Inl status \<Rightarrow> (status, s)
      | Inr (eof, consumed) \<Rightarrow>
          if consumed \<noteq> length pdu \<or> \<not> incoming_header_is_supported (fst s) (eof_header eof)
          then (CCSDS_CFDP_STATUS_UNSUPPORTED, s)
          else if receiver_match_active (fst s) (eof_header eof) \<noteq> CCSDS_CFDP_STATUS_OK
          then (receiver_match_active (fst s) (eof_header eof), s)
          else if waiting_for_finished_ack (receiver (fst s))
          then send_finished_for_receiver_status env (finished_status (receiver (fst s))) s
          else
            let s = (upd_receiver (\<lambda>t. t\<lparr>eof_checksum := eof_file_checksum eof\<rparr>) (fst s), snd s);
                acknowledged = slot_mode (receiver (fst s)) = CCSDS_CFDP_TRANSMISSION_MODE_ACKNOWLEDGED
            in if eof_condition_code eof \<noteq> CCSDS_CFDP_CONDITION_NO_ERROR \<or>
                  eof_file_size eof \<noteq> slot_file_size (receiver (fst s))
               then receiver_finish env fs CCSDS_CFDP_STATUS_FILE_SIZE_ERROR
                      (if acknowledged then snd (send_ack_eof env (eof_condition_code eof) s) else s)
               else if acknowledged
               then (case send_ack_eof env (eof_condition_code eof) s of
                       (status, s) \<Rightarrow>
                         if status \<noteq> CCSDS_CFDP_STATUS_OK then (status, s) else eof_completes env fs eof s)
               else eof_completes env fs eof s)"

definition receiver_handle_ack ::
  "'w cfdp_env \<Rightarrow> octets \<Rightarrow> 'w cfdp_state \<Rightarrow> cfdp_status \<times> 'w cfdp_state" where
  "receiver_handle_ack env pdu s =
     (case ccsds_cfdp_decode_ack pdu of
        Inl status \<Rightarrow> (status, s)
      | Inr (ack, consumed) \<Rightarrow>
          if consumed \<noteq> length pdu \<or> \<not> incoming_header_is_supported (fst s) (ack_header ack)
          then (CCSDS_CFDP_STATUS_UNSUPPORTED, s)
          else if acknowledged_directive ack \<noteq> CCSDS_CFDP_DIRECTIVE_FINISHED \<or>
                  directive_subtype ack \<noteq> CCSDS_CFDP_ACK_DIRECTIVE_SUBTYPE_FINISHED \<or>
                  transmission_mode (ack_header ack) \<noteq> CCSDS_CFDP_TRANSMISSION_MODE_ACKNOWLEDGED
          then (CCSDS_CFDP_STATUS_UNSUPPORTED, s)
          else if \<not> active (receiver (fst s)) \<or>
                  \<not> transaction_id_matches (slot_id (receiver (fst s)))
                      (transaction_id_from_header (ack_header ack))
          then (CCSDS_CFDP_STATUS_INVALID_ARGUMENT, s)
          else (CCSDS_CFDP_STATUS_OK, release_receiver_terminal env (finished_status (receiver (fst s))) s))"

section \<open>The sending transaction\<close>

definition finished_status_of :: "cfdp_finished_pdu \<Rightarrow> cfdp_status" where
  "finished_status_of fin =
     (if fin_condition_code fin = CCSDS_CFDP_CONDITION_NO_ERROR \<and>
         delivery_code fin = CCSDS_CFDP_DELIVERY_CODE_DATA_COMPLETE then CCSDS_CFDP_STATUS_OK
      else if fin_condition_code fin = CCSDS_CFDP_CONDITION_FILE_CHECKSUM_FAILURE
      then CCSDS_CFDP_STATUS_CHECKSUM_FAILURE
      else if fin_condition_code fin = CCSDS_CFDP_CONDITION_FILE_SIZE_ERROR
      then CCSDS_CFDP_STATUS_FILE_SIZE_ERROR
      else if fin_condition_code fin = CCSDS_CFDP_CONDITION_FILESTORE_REJECTION
      then CCSDS_CFDP_STATUS_FILESTORE_REJECTION
      else CCSDS_CFDP_STATUS_CANCEL_REQUEST)"

definition sender_handle_finished ::
  "'w cfdp_env \<Rightarrow> octets \<Rightarrow> 'w cfdp_state \<Rightarrow> cfdp_status \<times> 'w cfdp_state" where
  "sender_handle_finished env pdu s =
     (case ccsds_cfdp_decode_finished pdu of
        Inl status \<Rightarrow> (status, s)
      | Inr (fin, consumed) \<Rightarrow>
          if consumed \<noteq> length pdu \<or> \<not> incoming_finished_header_is_supported (fst s) (fin_header fin)
          then (CCSDS_CFDP_STATUS_UNSUPPORTED, s)
          else if \<not> active (sender (fst s)) \<or>
                  \<not> transaction_id_matches (slot_id (sender (fst s)))
                      (transaction_id_from_header (fin_header fin))
          then (CCSDS_CFDP_STATUS_INVALID_ARGUMENT, s)
          else
            let e = (upd_sender (\<lambda>t. t\<lparr>finished_received := True, finished_status := finished_status_of fin\<rparr>)
                       (fst s))\<lparr>sender_completion_available := True,
                               sender_completion_status := finished_status_of fin\<rparr>
            in if slot_mode (sender e) = CCSDS_CFDP_TRANSMISSION_MODE_ACKNOWLEDGED
               then
                 (case send_ack_finished env (fin_condition_code fin) (e, snd s) of
                    (status, s) \<Rightarrow>
                      if status \<noteq> CCSDS_CFDP_STATUS_OK then sender_fail env status s
                      else (finished_status_of fin, release_sender_terminal env (finished_status_of fin) s))
               else (finished_status_of fin, (e, snd s)))"

definition sender_handle_ack ::
  "octets \<Rightarrow> 'w cfdp_state \<Rightarrow> cfdp_status \<times> 'w cfdp_state" where
  "sender_handle_ack pdu s =
     (case ccsds_cfdp_decode_ack pdu of
        Inl status \<Rightarrow> (status, s)
      | Inr (ack, consumed) \<Rightarrow>
          if consumed \<noteq> length pdu \<or> \<not> incoming_finished_header_is_supported (fst s) (ack_header ack)
          then (CCSDS_CFDP_STATUS_UNSUPPORTED, s)
          else if acknowledged_directive ack \<noteq> CCSDS_CFDP_DIRECTIVE_EOF \<or>
                  directive_subtype ack \<noteq> CCSDS_CFDP_ACK_DIRECTIVE_SUBTYPE_OTHER \<or>
                  transmission_mode (ack_header ack) \<noteq> CCSDS_CFDP_TRANSMISSION_MODE_ACKNOWLEDGED
          then (CCSDS_CFDP_STATUS_UNSUPPORTED, s)
          else if \<not> active (sender (fst s)) \<or>
                  \<not> transaction_id_matches (slot_id (sender (fst s)))
                      (transaction_id_from_header (ack_header ack))
          then (CCSDS_CFDP_STATUS_INVALID_ARGUMENT, s)
          else (CCSDS_CFDP_STATUS_OK, s))"

function sender_retransmit_range ::
  "'w cfdp_env \<Rightarrow> 'w cfdp_filestore_ops \<Rightarrow> u32 \<Rightarrow> u32 \<Rightarrow> 'w cfdp_state \<Rightarrow> cfdp_status \<times> 'w cfdp_state" where
  "sender_retransmit_range env fs offset range_end s =
     (if offset < range_end
      then
        case read_segment fs (file_handle (sender (fst s))) offset (segment_request range_end offset) s of
          (rc, nread, s) \<Rightarrow>
            if rc \<noteq> 0 then (CCSDS_CFDP_STATUS_FILESTORE_REJECTION, s)
            else if nread = 0 \<or> nread > segment_request range_end offset \<or> nread > unat (range_end - offset)
            then (CCSDS_CFDP_STATUS_FILE_SIZE_ERROR, s)
            else
              case send_filedata env offset (take nread (file_segment_buf (fst s))) s of
                (status, s) \<Rightarrow>
                  if status \<noteq> CCSDS_CFDP_STATUS_OK then (status, s)
                  else sender_retransmit_range env fs (offset + of_nat nread) range_end s
      else (CCSDS_CFDP_STATUS_OK, s))"
  by pat_completeness auto
termination
  by (relation "measure (\<lambda>(env, fs, offset, range_end, s). unat range_end - unat offset)")
    (auto intro!: offset_measure simp: not_less)

declare sender_retransmit_range.simps [simp del]

text \<open>The loop of \<open>sender_handle_nak\<close> over the requested ranges.\<close>

fun retransmit_ranges ::
  "'w cfdp_env \<Rightarrow> 'w cfdp_filestore_ops \<Rightarrow> cfdp_nak_range list \<Rightarrow> 'w cfdp_state \<Rightarrow> cfdp_status \<times> 'w cfdp_state" where
  "retransmit_ranges env fs [] s = (CCSDS_CFDP_STATUS_OK, s)"
| "retransmit_ranges env fs (r # rs) s =
     (if nak_end r > slot_file_size (sender (fst s)) then (CCSDS_CFDP_STATUS_FILE_SIZE_ERROR, s)
      else
        case sender_retransmit_range env fs (nak_start r) (nak_end r) s of
          (status, s) \<Rightarrow>
            if status \<noteq> CCSDS_CFDP_STATUS_OK then (status, s) else retransmit_ranges env fs rs s)"

definition sender_handle_nak ::
  "'w cfdp_env \<Rightarrow> 'w filestore \<Rightarrow> octets \<Rightarrow> 'w cfdp_state \<Rightarrow> cfdp_status \<times> 'w cfdp_state" where
  "sender_handle_nak env filestore pdu s =
     (case ccsds_cfdp_decode_nak pdu of
        Inl status \<Rightarrow> (status, s)
      | Inr (nak, consumed) \<Rightarrow>
          if consumed \<noteq> length pdu \<or> \<not> sender_nak_header_is_supported (fst s) (nak_header nak)
          then (CCSDS_CFDP_STATUS_UNSUPPORTED, s)
          else if \<not> active (sender (fst s)) \<or>
                  \<not> transaction_id_matches (slot_id (sender (fst s)))
                      (transaction_id_from_header (nak_header nak))
          then (CCSDS_CFDP_STATUS_INVALID_ARGUMENT, s)
          else if \<not> filestore_is_valid filestore \<or> \<not> file_handle_open (sender (fst s)) \<or>
                  file_handle (sender (fst s)) = None
          then sender_fail env CCSDS_CFDP_STATUS_FILESTORE_REJECTION s
          else if slot_mode (sender (fst s)) \<noteq> CCSDS_CFDP_TRANSMISSION_MODE_ACKNOWLEDGED
          then sender_fail env CCSDS_CFDP_STATUS_INVALID_TRANSMISSION_MODE s
          else
            let s = (upd_sender (\<lambda>t. t\<lparr>nak_retry_count := nak_retry_count t + 1\<rparr>) (fst s), snd s)
            in if nak_retry_count (sender (fst s)) > of_nat CCSDS_CFDP_MAX_NAK_ROUNDS
               then sender_fail env CCSDS_CFDP_STATUS_NAK_LIMIT_REACHED s
               else if scope_start nak \<noteq> 0 \<or> scope_end nak \<noteq> slot_file_size (sender (fst s))
               then sender_fail env CCSDS_CFDP_STATUS_FILE_SIZE_ERROR s
               else
                 case retransmit_ranges env (the filestore) (nak_ranges nak) s of
                   (status, s) \<Rightarrow>
                     if status \<noteq> CCSDS_CFDP_STATUS_OK then sender_fail env status s
                     else
                       case send_eof env (eof_checksum (sender (fst s))) (slot_file_size (sender (fst s))) s of
                         (status, s) \<Rightarrow>
                           if status \<noteq> CCSDS_CFDP_STATUS_OK then sender_fail env status s
                           else (CCSDS_CFDP_STATUS_OK, s))"

section \<open>The operations of the entity\<close>

definition ccsds_cfdp_entity_init :: "cfdp_entity_config \<Rightarrow> 'w cfdp_env \<Rightarrow> 'w cfdp_entity cfdp_result" where
  "ccsds_cfdp_entity_init cfg env =
     (if \<not> encoded_int_len_is_valid (cfg_entity_id_len cfg) CCSDS_CFDP_MAX_ENTITY_ID_LEN \<or>
         \<not> encoded_int_len_is_valid (cfg_sequence_number_len cfg) CCSDS_CFDP_MAX_TRANS_SEQ_LEN \<or>
         \<not> value_fits_len (cfg_local_entity_id cfg) (cfg_entity_id_len cfg) \<or>
         \<not> value_fits_len (cfg_remote_entity_id cfg) (cfg_entity_id_len cfg) \<or>
         \<not> value_fits_len (cfg_initial_sequence_number cfg) (cfg_sequence_number_len cfg) \<or>
         send_pdu env = None
      then Inl CCSDS_CFDP_STATUS_INVALID_ARGUMENT
      else Inr
        \<lparr>local_entity_id = cfg_local_entity_id cfg, remote_entity_id = cfg_remote_entity_id cfg,
         ent_id_len = cfg_entity_id_len cfg, ent_sequence_number_len = cfg_sequence_number_len cfg,
         next_transaction_sequence_number = cfg_initial_sequence_number cfg,
         sender = cleared_slot, receiver = cleared_slot, sender_completion_available = False,
         sender_completion_status = CCSDS_CFDP_STATUS_OK,
         file_segment_buf = replicate CCSDS_CFDP_MAX_SEGMENT_SIZE 0\<rparr>)"

definition ccsds_cfdp_entity_create_sender_transaction ::
  "'w cfdp_entity \<Rightarrow> (cfdp_status + cfdp_transaction_id) \<times> 'w cfdp_entity" where
  "ccsds_cfdp_entity_create_sender_transaction e =
     (if active (sender e) then (Inl CCSDS_CFDP_STATUS_TRANSACTION_BUSY, e)
      else
        let allocated = \<lparr>tid_source = local_entity_id e, tid_number = next_transaction_sequence_number e\<rparr>;
            e = advance_transaction_sequence_number e
        in (Inr allocated,
            upd_sender (\<lambda>t. t\<lparr>active := True, slot_id := allocated, peer_entity_id := remote_entity_id e,
              slot_mode := CCSDS_CFDP_TRANSMISSION_MODE_UNACKNOWLEDGED,
              finished_status := CCSDS_CFDP_STATUS_OK\<rparr>) e))"

text \<open>The loop of \<open>send_file\<close>: read a segment, send it, add it to the checksum.\<close>

function send_file_loop ::
  "'w cfdp_env \<Rightarrow> 'w cfdp_filestore_ops \<Rightarrow> file_handle \<Rightarrow> u32 \<Rightarrow> u32 \<Rightarrow> cfdp_checksum_state \<Rightarrow> 'w cfdp_state
     \<Rightarrow> cfdp_checksum_state cfdp_result \<times> 'w cfdp_state" where
  "send_file_loop env fs handle file_size offset st s =
     (if offset < file_size
      then
        case read_segment fs handle offset (segment_request file_size offset) s of
          (rc, nread, s) \<Rightarrow>
            if rc \<noteq> 0 then (Inl CCSDS_CFDP_STATUS_FILESTORE_REJECTION, s)
            else if nread = 0 \<or> nread > segment_request file_size offset \<or> nread > unat (file_size - offset)
            then (Inl CCSDS_CFDP_STATUS_FILE_SIZE_ERROR, s)
            else
              case send_filedata env offset (take nread (file_segment_buf (fst s))) s of
                (status, s) \<Rightarrow>
                  if status \<noteq> CCSDS_CFDP_STATUS_OK then (Inl status, s)
                  else
                    case ccsds_cfdp_checksum_update (env_crc env) st offset (take nread (file_segment_buf (fst s))) of
                      (status, st) \<Rightarrow>
                        if status \<noteq> CCSDS_CFDP_STATUS_OK then (Inl status, s)
                        else send_file_loop env fs handle file_size (offset + of_nat nread) st s
      else (Inr st, s))"
  by pat_completeness auto
termination
  by (relation "measure (\<lambda>(env, fs, handle, file_size, offset, st, s). unat file_size - unat offset)")
    (auto intro!: offset_measure simp: not_less)

declare send_file_loop.simps [simp del]

text \<open>The label \<open>out_release\<close>, for a transaction that is not kept.\<close>

definition send_file_release ::
  "'w cfdp_env \<Rightarrow> cfdp_status \<Rightarrow> bool \<Rightarrow> 'w cfdp_state \<Rightarrow> cfdp_status \<times> 'w cfdp_state" where
  "send_file_release env status handle_open s =
     (let s = (if handle_open \<and> file_handle_open (sender (fst s)) then close_sender_handle s else s);
          s = (if active (sender (fst s)) then release_sender_terminal env status s else s)
      in (status, ((fst s)\<lparr>sender_completion_available := False\<rparr>, snd s)))"

text \<open>After the EOF: keep an acknowledged transaction, or take the status of the closure.\<close>

definition send_file_close ::
  "'w cfdp_env \<Rightarrow> cfdp_put_request \<Rightarrow> cfdp_status \<Rightarrow> 'w cfdp_state \<Rightarrow> cfdp_status \<times> 'w cfdp_state" where
  "send_file_close env request status s =
     (if status = CCSDS_CFDP_STATUS_OK \<and> acknowledged_mode request \<and>
         active (sender (fst s)) \<and> \<not> finished_received (sender (fst s))
      then
        (case entity_now_ms env (upd_sender (\<lambda>t. t\<lparr>retry_count := 0\<rparr>) (fst s), snd s) of
           (now, (e, w)) \<Rightarrow> (status, (upd_sender (arm_retry now) e, w)))
      else if status = CCSDS_CFDP_STATUS_OK \<and> req_closure_requested request \<and>
              sender_completion_available (fst s)
      then send_file_release env (sender_completion_status (fst s)) True s
      else if status = CCSDS_CFDP_STATUS_OK \<and> req_closure_requested request \<and>
              finished_received (sender (fst s))
      then send_file_release env (finished_status (sender (fst s))) True s
      else if status = CCSDS_CFDP_STATUS_OK \<and> req_closure_requested request \<and> now_ms env \<noteq> None
      then send_file_release env CCSDS_CFDP_STATUS_INACTIVITY_DETECTED True s
      else send_file_release env status True s)"

text \<open>The transfer over an open file.\<close>

definition send_file_opened ::
  "'w cfdp_env \<Rightarrow> 'w cfdp_filestore_ops \<Rightarrow> cfdp_put_request \<Rightarrow> nat \<Rightarrow> nat \<Rightarrow> file_handle \<Rightarrow> u32
     \<Rightarrow> cfdp_checksum_state \<Rightarrow> 'w cfdp_state \<Rightarrow> cfdp_status \<times> 'w cfdp_state" where
  "send_file_opened env fs request source_len destination_len handle file_size st s =
     (case send_metadata env request source_len destination_len file_size s of
        (status, s) \<Rightarrow>
          if status \<noteq> CCSDS_CFDP_STATUS_OK then send_file_release env status True s
          else
            case send_file_loop env fs handle file_size 0 st s of
              (Inl status, s) \<Rightarrow> send_file_release env status True s
            | (Inr st, s) \<Rightarrow>
                case ccsds_cfdp_checksum_finish st of
                  Inl status \<Rightarrow> send_file_release env status True s
                | Inr checksum \<Rightarrow>
                    (case send_eof env checksum file_size
                            (upd_sender (\<lambda>t. t\<lparr>eof_checksum := checksum\<rparr>) (fst s), snd s) of
                       (status, s) \<Rightarrow> send_file_close env request status s))"

definition start_sender_slot ::
  "cfdp_put_request \<Rightarrow> nat \<Rightarrow> nat \<Rightarrow> 'w cfdp_transaction_slot \<Rightarrow> 'w cfdp_transaction_slot" where
  "start_sender_slot request source_len destination_len t = t
     \<lparr>slot_closure_requested := req_closure_requested request,
      slot_mode := (if acknowledged_mode request then CCSDS_CFDP_TRANSMISSION_MODE_ACKNOWLEDGED
                    else CCSDS_CFDP_TRANSMISSION_MODE_UNACKNOWLEDGED),
      source_path := put_path (take source_len (the (req_source_path request))),
      destination_path := put_path (take destination_len (the (req_destination_path request)))\<rparr>"

definition open_sender_slot ::
  "'w filestore \<Rightarrow> cfdp_put_request \<Rightarrow> file_handle \<Rightarrow> u32 \<Rightarrow> 'w cfdp_transaction_slot \<Rightarrow> 'w cfdp_transaction_slot" where
  "open_sender_slot filestore request handle file_size t = t
     \<lparr>file_handle_open := True, file_handle := handle, slot_filestore := filestore,
      slot_file_size := file_size, slot_checksum_type := req_checksum_type request\<rparr>"

text \<open>The transaction identifier is an output that is set before the file is opened.\<close>

definition ccsds_cfdp_entity_send_file ::
  "'w cfdp_env \<Rightarrow> 'w filestore \<Rightarrow> cfdp_put_request \<Rightarrow> 'w cfdp_state
     \<Rightarrow> cfdp_status \<times> cfdp_transaction_id option \<times> 'w cfdp_state" where
  "ccsds_cfdp_entity_send_file env filestore request s =
     (case (path_len_is_valid (req_source_path request), path_len_is_valid (req_destination_path request)) of
        (Some source_len, Some destination_len) \<Rightarrow>
          if \<not> filestore_is_valid filestore then (CCSDS_CFDP_STATUS_INVALID_ARGUMENT, None, s)
          else
            (case ccsds_cfdp_checksum_init (req_checksum_type request) of
               Inl status \<Rightarrow> (status, None, s)
             | Inr st \<Rightarrow>
                 (case ccsds_cfdp_entity_create_sender_transaction (fst s) of
                    (Inl status, e) \<Rightarrow> (status, None, (e, snd s))
                  | (Inr allocated, e) \<Rightarrow>
                      let e = upd_sender (start_sender_slot request source_len destination_len)
                                (e\<lparr>sender_completion_available := False,
                                   sender_completion_status := CCSDS_CFDP_STATUS_OK\<rparr>)
                      in case the (open_read (the filestore)) (c_string (the (req_source_path request))) (snd s) of
                           (rc, handle, file_size, w) \<Rightarrow>
                             if rc \<noteq> 0 \<or> handle = None \<and> file_size > 0
                             then
                               (case send_file_release env CCSDS_CFDP_STATUS_FILESTORE_REJECTION False (e, w) of
                                  (status, s) \<Rightarrow> (status, Some allocated, s))
                             else
                               (case send_file_opened env (the filestore) request source_len destination_len
                                       handle file_size st
                                       (upd_sender (open_sender_slot filestore request handle file_size) e, w) of
                                  (status, s) \<Rightarrow> (status, Some allocated, s))))
      | _ \<Rightarrow> (CCSDS_CFDP_STATUS_INVALID_ARGUMENT, None, s))"

text \<open>\<open>receive_pdu\<close>: the PDUs for the sender, the PDUs for the receiver, and the dispatch between them.\<close>

definition receive_toward_sender ::
  "'w cfdp_env \<Rightarrow> cfdp_pdu_header \<Rightarrow> nat \<Rightarrow> octets \<Rightarrow> 'w cfdp_state \<Rightarrow> cfdp_status \<times> 'w cfdp_state" where
  "receive_toward_sender env h header_len pdu s =
     (if \<not> incoming_finished_header_is_supported (fst s) h \<or>
         pdu_type h \<noteq> CCSDS_CFDP_PDU_TYPE_FILE_DIRECTIVE \<or> pdu_data_field_len h = 0 \<or> length pdu \<le> header_len
      then (CCSDS_CFDP_STATUS_UNSUPPORTED, s)
      else
        (case (if pdu ! header_len = CCSDS_CFDP_DIRECTIVE_FINISHED then sender_handle_finished env pdu s
               else if pdu ! header_len = CCSDS_CFDP_DIRECTIVE_ACK then sender_handle_ack pdu s
               else if pdu ! header_len = CCSDS_CFDP_DIRECTIVE_NAK
               then sender_handle_nak env (slot_filestore (sender (fst s))) pdu s
               else (CCSDS_CFDP_STATUS_UNSUPPORTED, s)) of
           (status, s) \<Rightarrow>
             (status,
              if status \<noteq> CCSDS_CFDP_STATUS_OK \<and> sender_active_matches_header (fst s) h
              then release_sender_terminal env status s else s)))"

definition receive_toward_receiver ::
  "'w cfdp_env \<Rightarrow> 'w filestore \<Rightarrow> cfdp_pdu_header \<Rightarrow> nat \<Rightarrow> octets \<Rightarrow> 'w cfdp_state
     \<Rightarrow> cfdp_status \<times> 'w cfdp_state" where
  "receive_toward_receiver env filestore h header_len pdu s =
     (if \<not> incoming_header_is_supported (fst s) h then (CCSDS_CFDP_STATUS_UNSUPPORTED, s)
      else if \<not> receive_filestore_is_valid filestore then (CCSDS_CFDP_STATUS_INVALID_ARGUMENT, s)
      else if pdu_type h \<noteq> CCSDS_CFDP_PDU_TYPE_FILE_DATA \<and>
              (pdu_data_field_len h = 0 \<or> length pdu \<le> header_len)
      then (CCSDS_CFDP_STATUS_MALFORMED_PDU, s)
      else
        (case (if pdu_type h = CCSDS_CFDP_PDU_TYPE_FILE_DATA
               then receiver_handle_filedata env (the filestore) pdu s
               else if pdu ! header_len = CCSDS_CFDP_DIRECTIVE_METADATA
               then receiver_handle_metadata env filestore pdu s
               else if pdu ! header_len = CCSDS_CFDP_DIRECTIVE_EOF
               then receiver_handle_eof env (the filestore) pdu s
               else if pdu ! header_len = CCSDS_CFDP_DIRECTIVE_ACK then receiver_handle_ack env pdu s
               else (CCSDS_CFDP_STATUS_UNSUPPORTED, s)) of
           (status, s) \<Rightarrow>
             (status,
              if status \<noteq> CCSDS_CFDP_STATUS_OK \<and> receiver_active_matches_header (fst s) h
              then fail_receiver_active_transaction env status s else s)))"

definition ccsds_cfdp_entity_receive_pdu ::
  "'w cfdp_env \<Rightarrow> 'w filestore \<Rightarrow> octets \<Rightarrow> 'w cfdp_state \<Rightarrow> cfdp_status \<times> 'w cfdp_state" where
  "ccsds_cfdp_entity_receive_pdu env filestore pdu s =
     (case ccsds_cfdp_decode_header pdu of
        Inl status \<Rightarrow> (status, s)
      | Inr (h, header_len) \<Rightarrow>
          if direction h = CCSDS_CFDP_DIRECTION_TOWARD_SENDER
          then receive_toward_sender env h header_len pdu s
          else receive_toward_receiver env filestore h header_len pdu s)"

text \<open>\<open>poll\<close>: the retransmission of the NAK, of the Finished and of the EOF.\<close>

definition poll_recovery :: "'w cfdp_env \<Rightarrow> u64 \<Rightarrow> 'w cfdp_state \<Rightarrow> 'w cfdp_state" where
  "poll_recovery env now s =
     (let t = receiver (fst s) in
      if active t \<and> slot_mode t = CCSDS_CFDP_TRANSMISSION_MODE_ACKNOWLEDGED \<and> recovery_pending t \<and> retry_due t now
      then
        (if retry_count t \<ge> of_nat CCSDS_CFDP_MAX_NAK_ROUNDS
         then release_receiver_terminal env CCSDS_CFDP_STATUS_INACTIVITY_DETECTED (close_discard_receiver s)
         else
           case send_nak_for_missing_ranges env s of
             (status, s) \<Rightarrow>
               if status = CCSDS_CFDP_STATUS_OK
               then (upd_receiver (\<lambda>t. arm_retry now (t\<lparr>retry_count := retry_count t + 1\<rparr>)) (fst s), snd s)
               else release_receiver_terminal env status (close_discard_receiver s))
      else s)"

definition poll_finished :: "'w cfdp_env \<Rightarrow> u64 \<Rightarrow> 'w cfdp_state \<Rightarrow> 'w cfdp_state" where
  "poll_finished env now s =
     (let t = receiver (fst s) in
      if active t \<and> slot_mode t = CCSDS_CFDP_TRANSMISSION_MODE_ACKNOWLEDGED \<and> waiting_for_finished_ack t \<and>
         retry_due t now
      then
        (if retry_count t \<ge> of_nat CCSDS_CFDP_MAX_NAK_ROUNDS
         then release_receiver_terminal env CCSDS_CFDP_STATUS_INACTIVITY_DETECTED s
         else
           case send_finished_for_receiver_status env (finished_status t) s of
             (status, s) \<Rightarrow>
               if status = CCSDS_CFDP_STATUS_OK
               then (upd_receiver (\<lambda>t. arm_retry now (t\<lparr>retry_count := retry_count t + 1\<rparr>)) (fst s), snd s)
               else release_receiver_terminal env status s)
      else s)"

definition poll_sender :: "'w cfdp_env \<Rightarrow> u64 \<Rightarrow> 'w cfdp_state \<Rightarrow> 'w cfdp_state" where
  "poll_sender env now s =
     (let t = sender (fst s) in
      if active t \<and> slot_mode t = CCSDS_CFDP_TRANSMISSION_MODE_ACKNOWLEDGED \<and> \<not> finished_received t \<and>
         retry_due t now
      then
        (if retry_count t \<ge> of_nat CCSDS_CFDP_MAX_NAK_ROUNDS
         then snd (sender_fail env CCSDS_CFDP_STATUS_INACTIVITY_DETECTED s)
         else
           case send_eof env (eof_checksum t) (slot_file_size t) s of
             (status, s) \<Rightarrow>
               if status = CCSDS_CFDP_STATUS_OK
               then (upd_sender (\<lambda>t. arm_retry now (t\<lparr>retry_count := retry_count t + 1\<rparr>)) (fst s), snd s)
               else snd (sender_fail env status s))
      else s)"

definition ccsds_cfdp_entity_poll :: "'w cfdp_env \<Rightarrow> u64 \<Rightarrow> 'w cfdp_state \<Rightarrow> 'w cfdp_state" where
  "ccsds_cfdp_entity_poll env now s = poll_sender env now (poll_finished env now (poll_recovery env now s))"

definition ccsds_cfdp_entity_match_or_create_receiver_transaction ::
  "octets \<Rightarrow> 'w cfdp_entity \<Rightarrow> cfdp_transaction_id cfdp_result \<times> 'w cfdp_entity" where
  "ccsds_cfdp_entity_match_or_create_receiver_transaction pdu e =
     (case ccsds_cfdp_decode_header pdu of
        Inl status \<Rightarrow> (Inl status, e)
      | Inr (h, consumed) \<Rightarrow>
          if destination_entity_id h \<noteq> local_entity_id e \<or> source_entity_id h \<noteq> remote_entity_id e \<or>
             entity_id_len h \<noteq> ent_id_len e \<or> transaction_sequence_number_len h \<noteq> ent_sequence_number_len e \<or>
             direction h \<noteq> CCSDS_CFDP_DIRECTION_TOWARD_RECEIVER
          then (Inl CCSDS_CFDP_STATUS_UNSUPPORTED, e)
          else if active (receiver e)
          then
            (if \<not> transaction_id_matches (slot_id (receiver e)) (transaction_id_from_header h)
             then (Inl CCSDS_CFDP_STATUS_TRANSACTION_BUSY, e)
             else (Inr (slot_id (receiver e)), e))
          else
            (Inr (transaction_id_from_header h),
             upd_receiver (\<lambda>t. t\<lparr>active := True, slot_id := transaction_id_from_header h,
               peer_entity_id := source_entity_id h\<rparr>) e))"

end
