(* ===== verification/Cfdp_Transactions.thy ===== *)
theory Cfdp_Transactions
  imports Cfdp_Entity
begin

text \<open>
  The transactions of the file delivery entity as state machines: what every operation leaves of the
  two slots, the invariant of the entity, the effect of an error, the bound of the retries.

  The theorems are about callbacks that do not call the entity again (\<open>quiet\<close>), as the service
  and the Space Packet adapter of the program install them.
\<close>

section \<open>Quiet callbacks\<close>

definition quiet :: "'w cfdp_env \<Rightarrow> bool" where
  "quiet env \<longleftrightarrow>
     (\<exists>send. send_pdu env = Some send \<and> (\<forall>dest pdu s. fst (snd (send dest pdu s)) = fst s)) \<and>
     (\<forall>cb event s. event_cb env = Some cb \<longrightarrow> fst (cb event s) = fst s)"

text \<open>The entity without its scratch buffer.\<close>

definition core :: "'w cfdp_entity \<Rightarrow> 'w cfdp_entity" where
  "core e = e\<lparr>file_segment_buf := []\<rparr>"

lemma core_eqD:
  "core a = core b \<Longrightarrow> local_entity_id a = local_entity_id b"
  "core a = core b \<Longrightarrow> remote_entity_id a = remote_entity_id b"
  "core a = core b \<Longrightarrow> ent_id_len a = ent_id_len b"
  "core a = core b \<Longrightarrow> ent_sequence_number_len a = ent_sequence_number_len b"
  "core a = core b \<Longrightarrow> next_transaction_sequence_number a = next_transaction_sequence_number b"
  "core a = core b \<Longrightarrow> sender a = sender b"
  "core a = core b \<Longrightarrow> receiver a = receiver b"
  "core a = core b \<Longrightarrow> sender_completion_available a = sender_completion_available b"
  "core a = core b \<Longrightarrow> sender_completion_status a = sender_completion_status b"
  unfolding core_def by (cases a; cases b; simp)+

lemma core_buf [simp]: "core (e\<lparr>file_segment_buf := b\<rparr>) = core e"
  by (simp add: core_def)

lemma core_upd:
  "core a = core b \<Longrightarrow> core (upd_sender f a) = core (upd_sender f b)"
  "core a = core b \<Longrightarrow> core (upd_receiver f a) = core (upd_receiver f b)"
  unfolding core_def upd_sender_def upd_receiver_def by (cases a; cases b; simp)+

lemma upd_simps [simp]:
  "sender (upd_sender f e) = f (sender e)" "receiver (upd_sender f e) = receiver e"
  "receiver (upd_receiver f e) = f (receiver e)" "sender (upd_receiver f e) = sender e"
  "local_entity_id (upd_sender f e) = local_entity_id e" "local_entity_id (upd_receiver f e) = local_entity_id e"
  "remote_entity_id (upd_sender f e) = remote_entity_id e" "remote_entity_id (upd_receiver f e) = remote_entity_id e"
  "ent_id_len (upd_sender f e) = ent_id_len e" "ent_id_len (upd_receiver f e) = ent_id_len e"
  "ent_sequence_number_len (upd_sender f e) = ent_sequence_number_len e"
  "ent_sequence_number_len (upd_receiver f e) = ent_sequence_number_len e"
  "next_transaction_sequence_number (upd_sender f e) = next_transaction_sequence_number e"
  "next_transaction_sequence_number (upd_receiver f e) = next_transaction_sequence_number e"
  "sender_completion_available (upd_sender f e) = sender_completion_available e"
  "sender_completion_available (upd_receiver f e) = sender_completion_available e"
  "sender_completion_status (upd_sender f e) = sender_completion_status e"
  "sender_completion_status (upd_receiver f e) = sender_completion_status e"
  "file_segment_buf (upd_sender f e) = file_segment_buf e"
  "file_segment_buf (upd_receiver f e) = file_segment_buf e"
  by (simp_all add: upd_sender_def upd_receiver_def)

lemma upd_upd [simp]:
  "upd_sender f (upd_sender g e) = upd_sender (\<lambda>t. f (g t)) e"
  "upd_receiver f (upd_receiver g e) = upd_receiver (\<lambda>t. f (g t)) e"
  by (simp_all add: upd_sender_def upd_receiver_def)

named_theorems quiet_simps "operations that leave the entity as it is"

lemma quiet_send [quiet_simps]:
  "quiet env \<Longrightarrow> fst (snd (send_encoded_pdu_to env dest pdu s)) = fst s"
proof -
  assume "quiet env"
  then obtain send where "send_pdu env = Some send" "\<And>dest pdu s. fst (snd (send dest pdu s)) = fst s"
    unfolding quiet_def by blast
  then show ?thesis by (simp add: send_encoded_pdu_to_def split_beta)
qed

lemma quiet_emit [quiet_simps]:
  "quiet env \<Longrightarrow> fst (emit_terminal_event env tid status s) = fst s"
  by (cases s) (auto simp: quiet_def emit_terminal_event_def emit_event_def split: option.split)

lemma now_keeps [quiet_simps]: "fst (snd (entity_now_ms env s)) = fst s"
  by (simp add: entity_now_ms_def split: option.split prod.split)

lemma quiet_sends [quiet_simps]:
  assumes "quiet env"
  shows "fst (snd (send_encoded_pdu env pdu s)) = fst s"
    "fst (snd (send_metadata env request sl dl sz s)) = fst s"
    "fst (snd (send_filedata env offset data s)) = fst s"
    "fst (snd (send_eof env checksum sz s)) = fst s"
    "fst (snd (send_ack_eof env code s)) = fst s"
    "fst (snd (send_ack_finished env code s)) = fst s"
    "fst (snd (send_nak_for_missing_ranges env s)) = fst s"
    "fst (snd (send_finished_for_receiver_status env status s)) = fst s"
  using assms
  by (simp_all add: send_encoded_pdu_def send_metadata_def send_filedata_def send_eof_def send_ack_eof_def
      send_ack_finished_def send_nak_for_missing_ranges_def send_finished_for_receiver_status_def
      quiet_simps split: sum.split)

lemma read_segment_core: "core (fst (snd (snd (read_segment fs handle offset len s)))) = core (fst s)"
  by (simp add: read_segment_def split: prod.split)

lemma checksum_loop_core:
  "core (fst (snd (receiver_checksum_loop env fs handle file_size offset st s))) = core (fst s)"
proof (induction env fs handle file_size offset st s rule: receiver_checksum_loop.induct)
  case (1 env fs handle file_size offset st s)
  obtain rc nread s1 where r: "read_segment fs handle offset (segment_request file_size offset) s = (rc, nread, s1)"
    by (cases "read_segment fs handle offset (segment_request file_size offset) s")
  have k: "core (fst s1) = core (fst s)"
    using read_segment_core [of fs handle offset "segment_request file_size offset" s] by (simp add: r)
  obtain status st1 where
    u: "ccsds_cfdp_checksum_update (env_crc env) st offset (take nread (file_segment_buf (fst s1))) = (status, st1)"
    by fastforce
  show ?case
    using "1.IH" [OF _ r [symmetric] refl _ _ u [symmetric]] k
    by (subst receiver_checksum_loop.simps) (auto simp: r u)
qed

lemma verify_core: "core (fst (snd (receiver_verify_complete_file env fs checksum s))) = core (fst s)"
proof -
  obtain r s1 where c: "receiver_compute_checksum env fs s = (r, s1)"
    by (cases "receiver_compute_checksum env fs s")
  have "core (fst s1) = core (fst s)"
    using c by (auto simp: receiver_compute_checksum_def split: sum.splits
        dest: arg_cong [where f = "\<lambda>x. core (fst (snd x))"] simp: checksum_loop_core)
  then show ?thesis by (simp add: receiver_verify_complete_file_def c split: sum.split)
qed

lemma retransmit_range_core:
  "quiet env \<Longrightarrow> core (fst (snd (sender_retransmit_range env fs offset range_end s))) = core (fst s)"
proof (induction env fs offset range_end s rule: sender_retransmit_range.induct)
  case (1 env fs offset range_end s)
  obtain rc nread s1 where
    r: "read_segment fs (file_handle (sender (fst s))) offset (segment_request range_end offset) s = (rc, nread, s1)"
    by (cases "read_segment fs (file_handle (sender (fst s))) offset (segment_request range_end offset) s")
  have k: "core (fst s1) = core (fst s)"
    using read_segment_core [of fs "file_handle (sender (fst s))" offset "segment_request range_end offset" s]
    by (simp add: r)
  obtain status s2 where u: "send_filedata env offset (take nread (file_segment_buf (fst s1))) s1 = (status, s2)"
    by (cases "send_filedata env offset (take nread (file_segment_buf (fst s1))) s1")
  have "fst s2 = fst s1" using quiet_sends(3) [OF "1.prems"] u by (metis snd_conv)
  then show ?case
    using "1.IH" [OF _ r [symmetric] refl _ _ u [symmetric]] k "1.prems"
    by (subst sender_retransmit_range.simps) (auto simp: r u)
qed

lemma retransmit_ranges_core:
  "quiet env \<Longrightarrow> core (fst (snd (retransmit_ranges env fs rs s))) = core (fst s)"
proof (induction rs arbitrary: s)
  case (Cons r rs)
  obtain status s1 where u: "sender_retransmit_range env fs (nak_start r) (nak_end r) s = (status, s1)"
    by (cases "sender_retransmit_range env fs (nak_start r) (nak_end r) s")
  have "core (fst s1) = core (fst s)"
    using retransmit_range_core [OF Cons.prems, of fs "nak_start r" "nak_end r" s] by (simp add: u)
  then show ?case using Cons.IH [OF Cons.prems, of s1] by (auto simp: u)
qed simp

lemma send_file_loop_core:
  "quiet env \<Longrightarrow> core (fst (snd (send_file_loop env fs handle file_size offset st s))) = core (fst s)"
proof (induction env fs handle file_size offset st s rule: send_file_loop.induct)
  case (1 env fs handle file_size offset st s)
  obtain rc nread s1 where r: "read_segment fs handle offset (segment_request file_size offset) s = (rc, nread, s1)"
    by (cases "read_segment fs handle offset (segment_request file_size offset) s")
  have k: "core (fst s1) = core (fst s)"
    using read_segment_core [of fs handle offset "segment_request file_size offset" s] by (simp add: r)
  obtain status s2 where u: "send_filedata env offset (take nread (file_segment_buf (fst s1))) s1 = (status, s2)"
    by (cases "send_filedata env offset (take nread (file_segment_buf (fst s1))) s1")
  have s2: "fst s2 = fst s1" using quiet_sends(3) [OF "1.prems"] u by (metis snd_conv)
  obtain status2 st2 where
    c: "ccsds_cfdp_checksum_update (env_crc env) st offset (take nread (file_segment_buf (fst s2))) = (status2, st2)"
    by fastforce
  show ?case
    using "1.IH" [OF _ r [symmetric] refl _ _ u [symmetric] _ c [symmetric]] k s2 "1.prems"
    by (subst send_file_loop.simps) (auto simp: r u c c [unfolded s2])
qed

section \<open>Releasing a slot\<close>

text \<open>Everything but one slot is as before.\<close>

definition rx_only :: "'w cfdp_entity \<Rightarrow> 'w cfdp_entity \<Rightarrow> bool" where
  "rx_only e e' \<longleftrightarrow> (\<exists>t. core e' = (core e)\<lparr>receiver := t\<rparr>)"

definition tx_only :: "'w cfdp_entity \<Rightarrow> 'w cfdp_entity \<Rightarrow> bool" where
  "tx_only e e' \<longleftrightarrow> (\<exists>t available status. core e' = (core e)\<lparr>sender := t,
     sender_completion_available := available, sender_completion_status := status\<rparr>)"

lemma core_eq_only: "core e' = core e \<Longrightarrow> rx_only e e'" "core e' = core e \<Longrightarrow> tx_only e e'"
proof -
  assume c: "core e' = core e"
  have "core e' = (core e)\<lparr>receiver := receiver e\<rparr>" unfolding c by (simp add: core_def)
  then show "rx_only e e'" unfolding rx_only_def by blast
  have "core e' = (core e)\<lparr>sender := sender e, sender_completion_available := sender_completion_available e,
      sender_completion_status := sender_completion_status e\<rparr>" unfolding c by (simp add: core_def)
  then show "tx_only e e'" unfolding tx_only_def by blast
qed

lemma rx_only_upd [simp]: "rx_only e (upd_receiver f e)"
proof -
  have "core (upd_receiver f e) = (core e)\<lparr>receiver := f (receiver e)\<rparr>"
    by (simp add: core_def upd_receiver_def)
  then show ?thesis unfolding rx_only_def by blast
qed

lemma tx_only_upd [simp]: "tx_only e (upd_sender f e)"
proof -
  have "core (upd_sender f e) = (core e)\<lparr>sender := f (sender e),
      sender_completion_available := sender_completion_available e,
      sender_completion_status := sender_completion_status e\<rparr>"
    by (simp add: core_def upd_sender_def)
  then show ?thesis unfolding tx_only_def by blast
qed

lemma only_refl [simp]: "rx_only e e" "tx_only e e"
  by (simp_all add: core_eq_only)

lemma rx_only_trans [trans]: "rx_only a b \<Longrightarrow> rx_only b c \<Longrightarrow> rx_only a c"
  by (auto simp: rx_only_def)

lemma tx_only_trans [trans]: "tx_only a b \<Longrightarrow> tx_only b c \<Longrightarrow> tx_only a c"
  unfolding tx_only_def by (elim exE, simp, blast)

lemma close_sender_handle_keeps:
  "fst (close_sender_handle s) = upd_sender (\<lambda>t. t\<lparr>file_handle_open := False, file_handle := None\<rparr>) (fst s)"
  by (simp add: close_sender_handle_def split: prod.split)

lemma release_receiver [simp]:
  "quiet env \<Longrightarrow> fst (release_receiver_terminal env status s) = upd_receiver (\<lambda>_. cleared_slot) (fst s)"
  using quiet_emit [of env "slot_id (receiver (fst s))" status s]
  by (cases "emit_terminal_event env (slot_id (receiver (fst s))) status s")
    (simp add: release_receiver_terminal_def ccsds_cfdp_entity_release_receiver_transaction_def)

lemma release_sender [simp]:
  "quiet env \<Longrightarrow> fst (release_sender_terminal env status s) = upd_sender (\<lambda>_. cleared_slot) (fst s)"
  by (simp add: release_sender_terminal_def ccsds_cfdp_entity_release_sender_transaction_def
      split_beta close_sender_handle_keeps quiet_simps)

lemma sender_fail_simps [simp]:
  "quiet env \<Longrightarrow> fst (snd (sender_fail env status s)) = upd_sender (\<lambda>_. cleared_slot) (fst s)"
  "fst (sender_fail env status s) = status"
  by (simp_all add: sender_fail_def split_beta close_sender_handle_keeps)

lemma close_discard_receiver_keeps:
  "rx_only (fst s) (fst (close_discard_receiver s))"
  "active (receiver (fst (close_discard_receiver s))) = active (receiver (fst s))"
  "slot_id (receiver (fst (close_discard_receiver s))) = slot_id (receiver (fst s))"
  by (simp_all add: close_discard_receiver_def Let_def split: prod.split option.split)

lemma fail_receiver:
  assumes "quiet env"
  shows "receiver (fst (fail_receiver_active_transaction env status s)) = cleared_slot"
    "rx_only (fst s) (fst (fail_receiver_active_transaction env status s))"
  using assms
  by (auto simp: fail_receiver_active_transaction_def
      intro: rx_only_trans [OF close_discard_receiver_keeps(1) rx_only_upd])

lemma matches_slot:
  "active (sender e) \<Longrightarrow> sender_active_matches_header e h \<Longrightarrow> slot_id (sender e') = slot_id (sender e) \<Longrightarrow>
     active (sender e') \<Longrightarrow> sender_active_matches_header e' h"
  by (simp add: sender_active_matches_header_def)

section \<open>The header of a decoded PDU\<close>

lemma decoded_header:
  "ccsds_cfdp_decode_metadata pdu = Inr (md, n) \<Longrightarrow> \<exists>k. ccsds_cfdp_decode_header pdu = Inr (md_header md, k)"
  "ccsds_cfdp_decode_filedata pdu = Inr (fd, n) \<Longrightarrow> \<exists>k. ccsds_cfdp_decode_header pdu = Inr (fd_header fd, k)"
  "ccsds_cfdp_decode_eof pdu = Inr (eof, n) \<Longrightarrow> \<exists>k. ccsds_cfdp_decode_header pdu = Inr (eof_header eof, k)"
  "ccsds_cfdp_decode_finished pdu = Inr (fin, n) \<Longrightarrow> \<exists>k. ccsds_cfdp_decode_header pdu = Inr (fin_header fin, k)"
  "ccsds_cfdp_decode_ack pdu = Inr (ack, n) \<Longrightarrow> \<exists>k. ccsds_cfdp_decode_header pdu = Inr (ack_header ack, k)"
  "ccsds_cfdp_decode_nak pdu = Inr (nak, n) \<Longrightarrow> \<exists>k. ccsds_cfdp_decode_header pdu = Inr (nak_header nak, k)"
  by (auto simp: ccsds_cfdp_decode_metadata_def ccsds_cfdp_decode_filedata_def ccsds_cfdp_decode_eof_def
      ccsds_cfdp_decode_finished_def ccsds_cfdp_decode_ack_def ccsds_cfdp_decode_nak_def Let_def
      split: if_splits prod.splits)

section \<open>The invariant of the slots\<close>

text \<open>
  A slot is cleared or belongs to a transaction. A receiving slot that has its Metadata tracks
  offsets inside the file, keeps its checksum state for the announced type, waits for missing data or
  for the acknowledgement of Finished in acknowledged mode only and never for both, and has its file
  open exactly until Finished is sent; a slot that only matched a PDU holds nothing but the identifier.
\<close>

definition retries_bounded :: "'w cfdp_transaction_slot \<Rightarrow> bool" where
  "retries_bounded t \<longleftrightarrow>
     retry_count t \<le> of_nat CCSDS_CFDP_MAX_NAK_ROUNDS \<and> nak_retry_count t \<le> of_nat CCSDS_CFDP_MAX_NAK_ROUNDS"

definition transfer_ok :: "'w cfdp_transaction_slot \<Rightarrow> bool" where
  "transfer_ok t \<longleftrightarrow>
     ranges_inv (received_ranges t) \<and> covered (received_ranges t) \<subseteq> {0 ..< slot_file_size t} \<and>
     checksum_type_is_supported (slot_checksum_type t) \<and> cks_type (checksum_state t) = slot_checksum_type t \<and>
     slot_mode t \<le> CCSDS_CFDP_TRANSMISSION_MODE_UNACKNOWLEDGED \<and>
     (slot_mode t = CCSDS_CFDP_TRANSMISSION_MODE_ACKNOWLEDGED \<longrightarrow> slot_closure_requested t) \<and>
     (recovery_pending t \<or> waiting_for_finished_ack t \<longrightarrow>
        slot_mode t = CCSDS_CFDP_TRANSMISSION_MODE_ACKNOWLEDGED) \<and>
     \<not> (recovery_pending t \<and> waiting_for_finished_ack t) \<and> (recovery_pending t \<longrightarrow> eof_received t) \<and>
     (file_handle_open t \<longleftrightarrow> \<not> waiting_for_finished_ack t) \<and> retries_bounded t"

definition matched_slot :: "cfdp_transaction_id \<Rightarrow> u64 \<Rightarrow> 'w cfdp_transaction_slot" where
  "matched_slot tid peer = cleared_slot\<lparr>active := True, slot_id := tid, peer_entity_id := peer\<rparr>"

definition receiver_ok :: "'w cfdp_entity \<Rightarrow> 'w cfdp_transaction_slot \<Rightarrow> bool" where
  "receiver_ok e t \<longleftrightarrow> t = cleared_slot \<or>
     active t \<and> tid_source (slot_id t) = remote_entity_id e \<and> peer_entity_id t = remote_entity_id e \<and>
     value_fits_len (tid_number (slot_id t)) (ent_sequence_number_len e) \<and>
     (if metadata_received t then transfer_ok t else t = matched_slot (slot_id t) (peer_entity_id t))"

definition sender_ok :: "'w cfdp_entity \<Rightarrow> 'w cfdp_transaction_slot \<Rightarrow> bool" where
  "sender_ok e t \<longleftrightarrow> t = cleared_slot \<or>
     active t \<and> tid_source (slot_id t) = local_entity_id e \<and> peer_entity_id t = remote_entity_id e \<and>
     value_fits_len (tid_number (slot_id t)) (ent_sequence_number_len e) \<and>
     slot_mode t \<le> CCSDS_CFDP_TRANSMISSION_MODE_UNACKNOWLEDGED \<and> retries_bounded t"

definition entity_ok :: "'w cfdp_entity \<Rightarrow> bool" where
  "entity_ok e \<longleftrightarrow>
     encoded_int_len_is_valid (ent_id_len e) CCSDS_CFDP_MAX_ENTITY_ID_LEN \<and>
     encoded_int_len_is_valid (ent_sequence_number_len e) CCSDS_CFDP_MAX_TRANS_SEQ_LEN \<and>
     value_fits_len (local_entity_id e) (ent_id_len e) \<and> value_fits_len (remote_entity_id e) (ent_id_len e) \<and>
     value_fits_len (next_transaction_sequence_number e) (ent_sequence_number_len e) \<and>
     sender_ok e (sender e) \<and> receiver_ok e (receiver e)"

lemma cleared_ok [simp]: "receiver_ok e cleared_slot" "sender_ok e cleared_slot"
  by (simp_all add: receiver_ok_def sender_ok_def)

lemma cleared_inactive [simp]:
  "\<not> active cleared_slot" "\<not> metadata_received cleared_slot" "\<not> file_handle_open cleared_slot"
  by (simp_all add: cleared_slot_def)

lemma rx_only_keeps:
  assumes "rx_only e e'"
  shows "sender e' = sender e" "local_entity_id e' = local_entity_id e" "remote_entity_id e' = remote_entity_id e"
    "ent_id_len e' = ent_id_len e" "ent_sequence_number_len e' = ent_sequence_number_len e"
    "next_transaction_sequence_number e' = next_transaction_sequence_number e"
proof -
  obtain t where c: "core e' = (core e)\<lparr>receiver := t\<rparr>" using assms by (auto simp: rx_only_def)
  show "sender e' = sender e" "local_entity_id e' = local_entity_id e" "remote_entity_id e' = remote_entity_id e"
    "ent_id_len e' = ent_id_len e" "ent_sequence_number_len e' = ent_sequence_number_len e"
    "next_transaction_sequence_number e' = next_transaction_sequence_number e"
    using arg_cong [OF c, of sender] arg_cong [OF c, of local_entity_id] arg_cong [OF c, of remote_entity_id]
      arg_cong [OF c, of ent_id_len] arg_cong [OF c, of ent_sequence_number_len]
      arg_cong [OF c, of next_transaction_sequence_number]
    by (simp_all add: core_def)
qed

lemma tx_only_keeps:
  assumes "tx_only e e'"
  shows "receiver e' = receiver e" "local_entity_id e' = local_entity_id e" "remote_entity_id e' = remote_entity_id e"
    "ent_id_len e' = ent_id_len e" "ent_sequence_number_len e' = ent_sequence_number_len e"
    "next_transaction_sequence_number e' = next_transaction_sequence_number e"
proof -
  obtain t a st where c: "core e' = (core e)\<lparr>sender := t, sender_completion_available := a,
      sender_completion_status := st\<rparr>"
    using assms by (auto simp: tx_only_def)
  show "receiver e' = receiver e" "local_entity_id e' = local_entity_id e" "remote_entity_id e' = remote_entity_id e"
    "ent_id_len e' = ent_id_len e" "ent_sequence_number_len e' = ent_sequence_number_len e"
    "next_transaction_sequence_number e' = next_transaction_sequence_number e"
    using arg_cong [OF c, of receiver] arg_cong [OF c, of local_entity_id] arg_cong [OF c, of remote_entity_id]
      arg_cong [OF c, of ent_id_len] arg_cong [OF c, of ent_sequence_number_len]
      arg_cong [OF c, of next_transaction_sequence_number]
    by (simp_all add: core_def)
qed

lemma receiver_ok_cong: "rx_only e e' \<or> tx_only e e' \<Longrightarrow> receiver_ok e' t = receiver_ok e t"
  by (auto simp: receiver_ok_def rx_only_keeps tx_only_keeps)

lemma sender_ok_cong: "rx_only e e' \<or> tx_only e e' \<Longrightarrow> sender_ok e' t = sender_ok e t"
  by (auto simp: sender_ok_def rx_only_keeps tx_only_keeps)

lemma entity_ok_rx: "entity_ok e \<Longrightarrow> rx_only e e' \<Longrightarrow> receiver_ok e (receiver e') \<Longrightarrow> entity_ok e'"
  using receiver_ok_cong [of e e'] sender_ok_cong [of e e'] rx_only_keeps [of e e'] by (auto simp: entity_ok_def)

lemma entity_ok_tx: "entity_ok e \<Longrightarrow> tx_only e e' \<Longrightarrow> sender_ok e (sender e') \<Longrightarrow> entity_ok e'"
  using receiver_ok_cong [of e e'] sender_ok_cong [of e e'] tx_only_keeps [of e e'] by (auto simp: entity_ok_def)

section \<open>What the handlers do to their slot\<close>

text \<open>
  A handler that works on the transaction of header \<open>h\<close> leaves everything else alone, and the slot is
  released or still belongs to the transaction and satisfies its invariant if it did before.
\<close>

definition rx_moves :: "'w cfdp_entity \<Rightarrow> cfdp_pdu_header \<Rightarrow> 'w cfdp_entity \<Rightarrow> bool" where
  "rx_moves e h e' \<longleftrightarrow> rx_only e e' \<and>
     (receiver e' = cleared_slot \<or> receiver_active_matches_header e' h) \<and>
     (receiver_ok e (receiver e) \<longrightarrow> receiver_ok e (receiver e'))"

definition tx_moves :: "'w cfdp_entity \<Rightarrow> cfdp_pdu_header \<Rightarrow> 'w cfdp_entity \<Rightarrow> bool" where
  "tx_moves e h e' \<longleftrightarrow> tx_only e e' \<and>
     (sender e' = cleared_slot \<or> sender_active_matches_header e' h) \<and>
     (sender_ok e (sender e) \<longrightarrow> sender_ok e (sender e'))"

lemma rx_moves_from:
  assumes "rx_only e e1" "receiver_ok e (receiver e) \<Longrightarrow> receiver_ok e (receiver e1)" "rx_moves e1 h e2"
  shows "rx_moves e h e2"
  using assms rx_only_trans [OF assms(1), of e2] receiver_ok_cong [of e e1]
  by (auto simp: rx_moves_def)

lemma tx_moves_from:
  assumes "tx_only e e1" "sender_ok e (sender e) \<Longrightarrow> sender_ok e (sender e1)" "tx_moves e1 h e2"
  shows "tx_moves e h e2"
  using assms tx_only_trans [OF assms(1), of e2] sender_ok_cong [of e e1]
  by (auto simp: tx_moves_def)

lemma rx_moves_same: "core e' = core e \<Longrightarrow> receiver_active_matches_header e h \<Longrightarrow> rx_moves e h e'"
  using core_eqD(7) [of e' e] by (simp add: rx_moves_def core_eq_only(1) receiver_active_matches_header_def)

lemma tx_moves_same: "core e' = core e \<Longrightarrow> sender_active_matches_header e h \<Longrightarrow> tx_moves e h e'"
  using core_eqD(6) [of e' e] by (simp add: tx_moves_def core_eq_only(2) sender_active_matches_header_def)

lemma rx_moves_upd:
  assumes "receiver_active_matches_header e h" "active (f (receiver e))"
    "slot_id (f (receiver e)) = slot_id (receiver e)"
    "receiver_ok e (receiver e) \<Longrightarrow> receiver_ok e (f (receiver e))"
  shows "rx_moves e h (upd_receiver f e)"
  using assms by (simp add: rx_moves_def receiver_active_matches_header_def)

lemma tx_moves_upd:
  assumes "sender_active_matches_header e h" "active (f (sender e))"
    "slot_id (f (sender e)) = slot_id (sender e)"
    "sender_ok e (sender e) \<Longrightarrow> sender_ok e (f (sender e))"
  shows "tx_moves e h (upd_sender f e)"
  using assms by (simp add: tx_moves_def sender_active_matches_header_def)

lemma rx_moves_release: "rx_moves e h (upd_receiver (\<lambda>_. cleared_slot) e)"
  by (simp add: rx_moves_def)

lemma tx_moves_release: "tx_moves e h (upd_sender (\<lambda>_. cleared_slot) e)"
  by (simp add: tx_moves_def)

subsection \<open>The receiver\<close>

lemma close_file_entity:
  "fst (snd (receiver_close_file fs status s)) =
     upd_receiver (\<lambda>t. t\<lparr>file_handle_open := False, file_handle := None\<rparr>) (fst s)"
  by (simp add: receiver_close_file_def split_beta)

lemma settle_file_entity: "fst (snd (receiver_settle_file fs status s)) = fst s"
  by (simp add: receiver_settle_file_def split: prod.split)

text \<open>The slot that waits for the acknowledgement of Finished.\<close>

definition waiting_slot :: "u64 \<Rightarrow> cfdp_status \<Rightarrow> 'w cfdp_transaction_slot \<Rightarrow> 'w cfdp_transaction_slot" where
  "waiting_slot now status t = arm_retry now
     (t\<lparr>file_handle_open := False, file_handle := None,
        finished_status := (if slot_closure_requested t then status else finished_status t),
        recovery_pending := False, waiting_for_finished_ack := True, retry_count := 0\<rparr>)"

lemma conclude_entity:
  assumes "quiet env"
  shows "fst (snd (receiver_conclude env status fin s)) =
    (if slot_mode (receiver (fst s)) = CCSDS_CFDP_TRANSMISSION_MODE_ACKNOWLEDGED \<and> fin = CCSDS_CFDP_STATUS_OK
     then upd_receiver (\<lambda>t. arm_retry (fst (entity_now_ms env (fst s, snd s)))
       (t\<lparr>recovery_pending := False, waiting_for_finished_ack := True, retry_count := 0\<rparr>)) (fst s)
     else upd_receiver (\<lambda>_. cleared_slot) (fst s))"
proof -
  have n: "fst (entity_now_ms env (e, w)) = fst (entity_now_ms env (e', w))" for e e' w
    by (simp add: entity_now_ms_def split: option.split prod.split)
  show ?thesis
    using assms n [of "upd_receiver (\<lambda>t. t\<lparr>recovery_pending := False, waiting_for_finished_ack := True,
        retry_count := 0\<rparr>) (fst s)" "snd s" "fst s"]
    by (simp add: receiver_conclude_def split_beta quiet_simps del: prod.collapse)
qed

lemma finish_entity:
  assumes "quiet env" "active (receiver (fst s))"
  shows "fst (snd (receiver_finish env fs status s)) = upd_receiver (\<lambda>_. cleared_slot) (fst s) \<or>
    slot_mode (receiver (fst s)) = CCSDS_CFDP_TRANSMISSION_MODE_ACKNOWLEDGED \<and>
    (\<exists>now st. fst (snd (receiver_finish env fs status s)) = upd_receiver (waiting_slot now st) (fst s))"
proof -
  obtain st1 s1 where c: "receiver_close_file fs status s = (st1, s1)"
    by (cases "receiver_close_file fs status s")
  obtain st2 s2 where d: "receiver_settle_file fs st1 s1 = (st2, s2)"
    by (cases "receiver_settle_file fs st1 s1")
  have e2: "fst s2 = upd_receiver (\<lambda>t. t\<lparr>file_handle_open := False, file_handle := None\<rparr>) (fst s)"
    using close_file_entity [of fs status s] settle_file_entity [of fs st1 s1] by (simp add: c d)
  let ?closure = "slot_closure_requested (receiver (fst s))"
  let ?s3 = "if ?closure then snd (send_finished_for_receiver_status env st2
      (upd_receiver (\<lambda>t. t\<lparr>finished_status := st2\<rparr>) (fst s2), snd s2)) else s2"
  let ?fin = "if ?closure then fst (send_finished_for_receiver_status env st2
      (upd_receiver (\<lambda>t. t\<lparr>finished_status := st2\<rparr>) (fst s2), snd s2)) else CCSDS_CFDP_STATUS_OK"
  have e3: "fst ?s3 = upd_receiver (\<lambda>t. t\<lparr>file_handle_open := False, file_handle := None,
      finished_status := (if ?closure then st2 else finished_status t)\<rparr>) (fst s)"
    using assms(1) by (auto simp: e2 quiet_simps upd_receiver_def)
  have "receiver_finish env fs status s = receiver_conclude env st2 ?fin ?s3"
    using assms e2 e3 by (auto simp: receiver_finish_def c d split_beta quiet_simps)
  with e3 obtain fin s3 where r: "receiver_finish env fs status s = receiver_conclude env st2 fin s3"
    and e3: "fst s3 = upd_receiver (\<lambda>t. t\<lparr>file_handle_open := False, file_handle := None,
      finished_status := (if ?closure then st2 else finished_status t)\<rparr>) (fst s)" by blast
  have "fst (snd (receiver_finish env fs status s)) =
      (if slot_mode (receiver (fst s)) = CCSDS_CFDP_TRANSMISSION_MODE_ACKNOWLEDGED \<and> fin = CCSDS_CFDP_STATUS_OK
       then upd_receiver (waiting_slot (fst (entity_now_ms env (fst s3, snd s3))) st2) (fst s)
       else upd_receiver (\<lambda>_. cleared_slot) (fst s))"
    unfolding r conclude_entity [OF assms(1)] unfolding e3
    by (simp add: waiting_slot_def arm_retry_def upd_receiver_def)
  then show ?thesis by (auto split: if_splits)
qed

lemma retries_reset: "retries_bounded t \<Longrightarrow> retries_bounded (t\<lparr>retry_count := 0\<rparr>)"
  by (simp add: retries_bounded_def cfdp_limits)

lemma waiting_slot_ok:
  "transfer_ok t \<Longrightarrow> slot_mode t = CCSDS_CFDP_TRANSMISSION_MODE_ACKNOWLEDGED \<Longrightarrow>
     transfer_ok (waiting_slot now status t)"
  by (simp add: transfer_ok_def waiting_slot_def arm_retry_def retries_bounded_def cfdp_limits)

lemma waiting_slot_fields [simp]:
  "active (waiting_slot now status t) = active t" "slot_id (waiting_slot now status t) = slot_id t"
  "peer_entity_id (waiting_slot now status t) = peer_entity_id t"
  "metadata_received (waiting_slot now status t) = metadata_received t"
  by (simp_all add: waiting_slot_def arm_retry_def)

lemma receiver_ok_upd:
  assumes "receiver_ok e t" "active t" "metadata_received t" "transfer_ok t \<Longrightarrow> transfer_ok (f t)"
    "active (f t)" "slot_id (f t) = slot_id t" "peer_entity_id (f t) = peer_entity_id t" "metadata_received (f t)"
  shows "receiver_ok e (f t)"
  using assms by (auto simp: receiver_ok_def)

lemma finish_moves:
  assumes "quiet env" "receiver_active_matches_header (fst s) h" "metadata_received (receiver (fst s))"
  shows "rx_moves (fst s) h (fst (snd (receiver_finish env fs status s)))"
proof -
  have a: "active (receiver (fst s))" using assms(2) by (simp add: receiver_active_matches_header_def)
  show ?thesis
    using finish_entity [OF assms(1) a, of fs status]
  proof
    assume "fst (snd (receiver_finish env fs status s)) = upd_receiver (\<lambda>_. cleared_slot) (fst s)"
    then show ?thesis by (simp add: rx_moves_release)
  next
    assume "slot_mode (receiver (fst s)) = CCSDS_CFDP_TRANSMISSION_MODE_ACKNOWLEDGED \<and>
        (\<exists>now st. fst (snd (receiver_finish env fs status s)) = upd_receiver (waiting_slot now st) (fst s))"
    then obtain now st where m: "slot_mode (receiver (fst s)) = CCSDS_CFDP_TRANSMISSION_MODE_ACKNOWLEDGED"
      and u: "fst (snd (receiver_finish env fs status s)) = upd_receiver (waiting_slot now st) (fst s)" by blast
    have "rx_moves (fst s) h (upd_receiver (waiting_slot now st) (fst s))"
      by (rule rx_moves_upd [OF assms(2)])
        (use a m assms(3) in \<open>auto intro: receiver_ok_upd waiting_slot_ok\<close>)
    then show ?thesis by (simp add: u)
  qed
qed

lemma verified_finish_moves:
  assumes "quiet env" "receiver_active_matches_header (fst s) h" "metadata_received (receiver (fst s))"
    "receiver_verify_complete_file env fs checksum s = (st, s1)"
  shows "rx_moves (fst s) h (fst (snd (receiver_finish env fs status s1)))"
proof -
  have c: "core (fst s1) = core (fst s)" using verify_core [of env fs checksum s] assms(4) by simp
  have r: "receiver (fst s1) = receiver (fst s)" by (rule core_eqD(7) [OF c])
  have "rx_moves (fst s1) h (fst (snd (receiver_finish env fs status s1)))"
    by (rule finish_moves [OF assms(1)]) (use assms(2,3) r in \<open>simp_all add: receiver_active_matches_header_def\<close>)
  then show ?thesis by (rule rx_moves_from [OF core_eq_only(1) [OF c], rotated]) (simp add: r)
qed

lemma match_active:
  "receiver_match_active e h = CCSDS_CFDP_STATUS_OK \<longleftrightarrow>
     receiver_active_matches_header e h \<and> metadata_received (receiver e)"
  by (auto simp: receiver_match_active_def receiver_active_matches_header_def)

lemma filedata_completes_moves:
  assumes "quiet env" "receiver_active_matches_header (fst s) h" "metadata_received (receiver (fst s))"
  shows "rx_moves (fst s) h (fst (snd (filedata_completes env fs s)))"
  using assms finish_moves [OF assms] verified_finish_moves [OF assms] rx_moves_same [OF refl assms(2)]
  by (simp add: filedata_completes_def Let_def split: sum.split prod.split)

lemma add_ranges_ok:
  assumes "transfer_ok t" "range_end \<le> slot_file_size t"
    "ccsds_cfdp_ranges_add (received_ranges t) start range_end = (status, rs)"
  shows "transfer_ok (t\<lparr>received_ranges := rs\<rparr>)"
proof (cases "status = CCSDS_CFDP_STATUS_OK")
  case True
  have "ranges_inv rs \<and> covered rs = covered (received_ranges t) \<union> {start ..< range_end}"
    by (rule received.add_accepts) (use assms True in \<open>auto simp: transfer_ok_def\<close>)
  moreover have "{start ..< range_end} \<subseteq> {0 ..< slot_file_size t}" using assms(2) by auto
  ultimately show ?thesis using assms(1) by (simp add: transfer_ok_def retries_bounded_def)
next
  case False
  then have "rs = received_ranges t"
    using assms by (auto intro: ranges_add_cases simp: transfer_ok_def)
  then show ?thesis using assms(1) by simp
qed

lemma checksum_update_type:
  "ccsds_cfdp_checksum_update crc st offset data = (status, st') \<Longrightarrow> cks_type st' = cks_type st"
  by (auto simp: ccsds_cfdp_checksum_update_def split: if_splits)

lemma update_checksum_ok:
  "transfer_ok t \<Longrightarrow> ccsds_cfdp_checksum_update crc (checksum_state t) offset data = (status, st) \<Longrightarrow>
     transfer_ok (t\<lparr>checksum_state := st\<rparr>)"
  by (auto simp: transfer_ok_def retries_bounded_def dest: checksum_update_type)

lemma handle_filedata_moves:
  assumes "quiet env" "ccsds_cfdp_decode_header pdu = Inr (h, k)"
  shows "snd (receiver_handle_filedata env fs pdu s) = s \<or>
    receiver_active_matches_header (fst s) h \<and>
    rx_moves (fst s) h (fst (snd (receiver_handle_filedata env fs pdu s)))"
proof (cases "ccsds_cfdp_decode_filedata pdu")
  case (Inl status)
  then show ?thesis by (simp add: receiver_handle_filedata_def)
next
  case (Inr p)
  obtain fd consumed where "p = (fd, consumed)" by (cases p)
  with Inr have d: "ccsds_cfdp_decode_filedata pdu = Inr (fd, consumed)" by simp
  have h: "fd_header fd = h" using decoded_header(2) [OF d] assms(2) by auto
  let ?t = "receiver (fst s)" and ?last = "fd_offset fd + of_nat (length (fd_data fd)) :: u32"
  show ?thesis
  proof (cases "consumed = length pdu \<and> incoming_header_is_supported (fst s) h \<and>
      receiver_match_active (fst s) h = CCSDS_CFDP_STATUS_OK \<and>
      \<not> (length (fd_data fd) > UINT32_MAX \<or> fd_offset fd > of_nat UINT32_MAX - of_nat (length (fd_data fd))) \<and>
      ?last \<le> slot_file_size ?t")
    case False
    then show ?thesis by (auto simp: receiver_handle_filedata_def d h Let_def)
  next
    case ok: True
    then have m: "receiver_active_matches_header (fst s) h" and md: "metadata_received ?t"
      by (simp_all add: match_active)
    then have act: "active ?t" by (simp add: receiver_active_matches_header_def)
    obtain rc w where w: "the (fs_write fs) (file_handle ?t) (fd_offset fd) (fd_data fd) (snd s) = (rc, w)" by fastforce
    obtain st1 rs where r: "ccsds_cfdp_ranges_add (received_ranges ?t) (fd_offset fd) ?last = (st1, rs)" by fastforce
    obtain st2 cs where c: "ccsds_cfdp_checksum_update (env_crc env) (checksum_state ?t) (fd_offset fd) (fd_data fd) =
        (st2, cs)" by fastforce
    let ?f = "\<lambda>t. t\<lparr>received_ranges := rs\<rparr>" and ?g = "\<lambda>t. t\<lparr>received_ranges := rs, checksum_state := cs\<rparr>"
    have ok1: "transfer_ok (?f ?t)" if "transfer_ok ?t" using add_ranges_ok [OF that _ r] ok by simp
    have ok2: "transfer_ok (?g ?t)" if "transfer_ok ?t"
      using update_checksum_ok [OF ok1 [OF that], of "env_crc env" "fd_offset fd" "fd_data fd"] c by simp
    have f: "rx_moves (fst s) h (upd_receiver ?f (fst s))"
      by (rule rx_moves_upd [OF m]) (use act md ok1 in \<open>auto intro!: receiver_ok_upd [where f = ?f]\<close>)
    have g: "rx_moves (fst s) h (upd_receiver ?g (fst s))"
      by (rule rx_moves_upd [OF m]) (use act md ok2 in \<open>auto intro!: receiver_ok_upd [where f = ?g]\<close>)
    have c: "rx_moves (fst s) h (fst (snd (filedata_completes env fs (upd_receiver ?g (fst s), w))))"
    proof (rule rx_moves_from)
      show "rx_only (fst s) (upd_receiver ?g (fst s))" by simp
      show "receiver_ok (fst s) (receiver (upd_receiver ?g (fst s)))" if "receiver_ok (fst s) ?t"
        using g that by (simp add: rx_moves_def)
      show "rx_moves (upd_receiver ?g (fst s)) h (fst (snd (filedata_completes env fs (upd_receiver ?g (fst s), w))))"
        using filedata_completes_moves [OF assms(1), of "(upd_receiver ?g (fst s), w)" h fs] m md
        by (simp add: receiver_active_matches_header_def)
    qed
    show ?thesis
      using ok m c f g rx_moves_same [OF refl m]
      by (simp add: receiver_handle_filedata_def d h Let_def w r \<open>_ = (st2, cs)\<close>)
  qed
qed

lemma recovery_ok:
  "transfer_ok t \<Longrightarrow> \<not> waiting_for_finished_ack t \<Longrightarrow>
     slot_mode t = CCSDS_CFDP_TRANSMISSION_MODE_ACKNOWLEDGED \<Longrightarrow>
     transfer_ok (arm_retry now (t\<lparr>eof_received := True, eof_checksum := c, recovery_pending := True,
       retry_count := 0\<rparr>))"
  by (simp add: transfer_ok_def arm_retry_def retries_bounded_def cfdp_limits)

lemma eof_seen_ok:
  "transfer_ok t \<Longrightarrow> transfer_ok (t\<lparr>eof_received := True, eof_checksum := c\<rparr>)"
  "transfer_ok t \<Longrightarrow> transfer_ok (t\<lparr>eof_checksum := c\<rparr>)"
  by (simp_all add: transfer_ok_def retries_bounded_def)

lemma eof_completes_moves:
  assumes "quiet env" "receiver_active_matches_header (fst s) h" "metadata_received (receiver (fst s))"
    "\<not> waiting_for_finished_ack (receiver (fst s))"
  shows "rx_moves (fst s) h (fst (snd (eof_completes env fs eof s)))"
proof -
  let ?t = "receiver (fst s)"
  let ?f = "\<lambda>t. t\<lparr>eof_received := True, eof_checksum := eof_file_checksum eof\<rparr>"
  let ?s = "(upd_receiver ?f (fst s), snd s)"
  have act: "active ?t" using assms(2) by (simp add: receiver_active_matches_header_def)
  obtain st s1 where n: "send_nak_for_missing_ranges env ?s = (st, s1)"
    by (cases "send_nak_for_missing_ranges env ?s")
  have e1: "fst s1 = upd_receiver ?f (fst s)"
    using quiet_sends(7) [OF assms(1), of ?s] by (simp add: n)
  have "rx_moves (fst s1) h (fst (snd (receiver_finish env fs st s1)))"
    by (rule finish_moves [OF assms(1)]) (use assms(2,3) e1 in \<open>simp_all add: receiver_active_matches_header_def\<close>)
  then have fin: "rx_moves (fst s) h (fst (snd (receiver_finish env fs st s1)))"
    by (rule rx_moves_from [rotated 2])
      (use e1 act assms(3) in \<open>auto intro!: receiver_ok_upd [where f = ?f] eof_seen_ok(1)\<close>)
  have rec: "rx_moves (fst s) h (upd_receiver (\<lambda>t. arm_retry now (?f t\<lparr>recovery_pending := True, retry_count := 0\<rparr>)) (fst s))"
    if "slot_mode ?t = CCSDS_CFDP_TRANSMISSION_MODE_ACKNOWLEDGED" for now
    by (rule rx_moves_upd [OF assms(2)])
      (use act that assms(3,4) recovery_ok [of ?t now "eof_file_checksum eof"] in
        \<open>auto simp: receiver_ok_def arm_retry_def\<close>)
  obtain now e w where t: "entity_now_ms env (upd_receiver (\<lambda>t. t\<lparr>recovery_pending := True, retry_count := 0\<rparr>)
      (fst s1), snd s1) = (now, (e, w))"
    by (cases "entity_now_ms env (upd_receiver (\<lambda>t. t\<lparr>recovery_pending := True, retry_count := 0\<rparr>) (fst s1), snd s1)") auto
  have e: "e = upd_receiver (\<lambda>t. ?f t\<lparr>recovery_pending := True, retry_count := 0\<rparr>) (fst s)"
    using now_keeps [of env "(upd_receiver (\<lambda>t. t\<lparr>recovery_pending := True, retry_count := 0\<rparr>) (fst s1), snd s1)"]
    unfolding t by (simp add: e1)
  show ?thesis
    using finish_moves [OF assms(1-3)] verified_finish_moves [OF assms(1-3)] fin rec
    by (simp add: eof_completes_def n t e split: sum.split prod.split)
qed

lemma handle_eof_moves:
  assumes "quiet env" "ccsds_cfdp_decode_header pdu = Inr (h, k)"
  shows "snd (receiver_handle_eof env fs pdu s) = s \<or>
    receiver_active_matches_header (fst s) h \<and>
    rx_moves (fst s) h (fst (snd (receiver_handle_eof env fs pdu s)))"
proof (cases "ccsds_cfdp_decode_eof pdu")
  case (Inl status)
  then show ?thesis by (simp add: receiver_handle_eof_def)
next
  case (Inr p)
  obtain eof consumed where "p = (eof, consumed)" by (cases p)
  with Inr have d: "ccsds_cfdp_decode_eof pdu = Inr (eof, consumed)" by simp
  have h: "eof_header eof = h" using decoded_header(3) [OF d] assms(2) by auto
  let ?t = "receiver (fst s)" and ?f = "\<lambda>t. t\<lparr>eof_checksum := eof_file_checksum eof\<rparr>"
  let ?s = "(upd_receiver ?f (fst s), snd s)"
  show ?thesis
  proof (cases "consumed = length pdu \<and> incoming_header_is_supported (fst s) h \<and>
      receiver_match_active (fst s) h = CCSDS_CFDP_STATUS_OK")
    case False
    then show ?thesis by (auto simp: receiver_handle_eof_def d h)
  next
    case ok: True
    then have m: "receiver_active_matches_header (fst s) h" and md: "metadata_received ?t"
      by (simp_all add: match_active)
    have m': "receiver_active_matches_header (upd_receiver ?f (fst s)) h"
      using m by (simp add: receiver_active_matches_header_def)
    have act: "active ?t" using m by (simp add: receiver_active_matches_header_def)
    obtain st s1 where a: "send_ack_eof env (eof_condition_code eof) ?s = (st, s1)"
      by (cases "send_ack_eof env (eof_condition_code eof) ?s")
    then have a': "eof_condition_code eof = CCSDS_CFDP_CONDITION_NO_ERROR \<Longrightarrow>
        send_ack_eof env CCSDS_CFDP_CONDITION_NO_ERROR ?s = (st, s1)" by simp
    have e1: "fst s1 = upd_receiver ?f (fst s)"
      using quiet_sends(5) [OF assms(1), of "eof_condition_code eof" ?s] by (simp add: a)
    have lift: "rx_moves (fst s) h e'" if "rx_moves (upd_receiver ?f (fst s)) h e'" for e'
      by (rule rx_moves_from [OF _ _ that]) (use act md in \<open>auto intro!: receiver_ok_upd [where f = ?f] eof_seen_ok(2)\<close>)
    have upd: "rx_moves (fst s) h (upd_receiver ?f (fst s))"
      by (rule lift, rule rx_moves_same [OF refl m'])
    have fin: "rx_moves (fst s) h (fst (snd (receiver_finish env fs st' s')))"
      if "fst s' = upd_receiver ?f (fst s)" for st' s'
      using lift [of "fst (snd (receiver_finish env fs st' s'))"] finish_moves [OF assms(1), of s' h fs st'] that m' md
      by simp
    have com: "rx_moves (fst s) h (fst (snd (eof_completes env fs eof s')))"
      if "fst s' = upd_receiver ?f (fst s)" "\<not> waiting_for_finished_ack ?t" for s'
      using lift [of "fst (snd (eof_completes env fs eof s'))"] eof_completes_moves [OF assms(1), of s' h fs eof]
        that m' md by simp
    have wait: "rx_moves (fst s) h (fst (snd (send_finished_for_receiver_status env (finished_status ?t) s)))"
      by (rule rx_moves_same [OF _ m]) (simp add: quiet_simps assms(1))
    show ?thesis
      using ok m fin [of s1] fin [of ?s] com [of s1] com [of ?s] wait upd
      by (simp add: receiver_handle_eof_def d h Let_def a a' e1)
  qed
qed

lemma handle_ack_moves:
  assumes "quiet env" "ccsds_cfdp_decode_header pdu = Inr (h, k)"
  shows "snd (receiver_handle_ack env pdu s) = s \<or>
    receiver_active_matches_header (fst s) h \<and>
    rx_moves (fst s) h (fst (snd (receiver_handle_ack env pdu s)))"
proof (cases "ccsds_cfdp_decode_ack pdu")
  case (Inl status)
  then show ?thesis by (simp add: receiver_handle_ack_def)
next
  case (Inr p)
  obtain ack consumed where "p = (ack, consumed)" by (cases p)
  with Inr have d: "ccsds_cfdp_decode_ack pdu = Inr (ack, consumed)" by simp
  have h: "ack_header ack = h" using decoded_header(5) [OF d] assms(2) by auto
  show ?thesis
    using assms(1) by (auto simp: receiver_handle_ack_def d h rx_moves_release receiver_active_matches_header_def)
qed

lemma metadata_slot_ok:
  assumes "ccsds_cfdp_checksum_init (checksum_type md) = Inr st" "ccsds_cfdp_decode_header pdu = Inr (md_header md, k)"
    "incoming_header_is_supported e (md_header md)"
  shows "receiver_ok e (metadata_slot filestore md st cleared_slot\<lparr>file_handle := handle, file_handle_open := True\<rparr>)"
proof -
  have "value_fits_len (transaction_sequence_number (md_header md)) (transaction_sequence_number_len (md_header md))"
    using decode_header_canonical(1) [OF assms(2)] by (simp add: header_wf_def)
  moreover have "checksum_type_is_supported (checksum_type md)" "cks_type st = checksum_type md"
    using assms(1) by (auto simp: ccsds_cfdp_checksum_init_def split: if_splits)
  ultimately show ?thesis
    using assms(3)
    by (simp add: receiver_ok_def metadata_slot_def transfer_ok_def transaction_id_from_header_def
        incoming_header_is_supported_def retries_bounded_def ccsds_cfdp_ranges_init_def ranges_inv_def
        cleared_slot_def)
qed

lemma handle_metadata_moves:
  assumes "quiet env" "ccsds_cfdp_decode_header pdu = Inr (h, k)"
    "receiver_handle_metadata env filestore pdu s = (status, s')"
  shows "s' = s \<or> \<not> active (receiver (fst s)) \<and> rx_only (fst s) (fst s') \<and>
    (if status = CCSDS_CFDP_STATUS_OK then receiver_active_matches_header (fst s') h
     else receiver (fst s') = cleared_slot) \<and>
    (receiver_ok (fst s) (receiver (fst s)) \<longrightarrow> receiver_ok (fst s) (receiver (fst s')))"
proof (cases "ccsds_cfdp_decode_metadata pdu")
  case (Inl st)
  then show ?thesis using assms(3) by (simp add: receiver_handle_metadata_def)
next
  case (Inr p)
  obtain md consumed where "p = (md, consumed)" by (cases p)
  with Inr have d: "ccsds_cfdp_decode_metadata pdu = Inr (md, consumed)" by simp
  have h: "md_header md = h" using decoded_header(1) [OF d] assms(2) by auto
  show ?thesis
  proof (cases "consumed = length pdu \<and> incoming_header_is_supported (fst s) h \<and> \<not> active (receiver (fst s))
      \<and> isl (ccsds_cfdp_checksum_init (checksum_type md)) = False")
    case False
    then show ?thesis using assms(3)
      by (auto simp: receiver_handle_metadata_def d h split: if_splits sum.splits)
  next
    case ok: True
    then obtain st where i: "ccsds_cfdp_checksum_init (checksum_type md) = Inr st"
      by (cases "ccsds_cfdp_checksum_init (checksum_type md)") auto
    let ?e = "upd_receiver (metadata_slot filestore md st) (fst s)"
    obtain rc handle w where o: "the (open_write_tmp (the filestore)) (c_string (destination_path (receiver ?e))) (snd s) =
        (rc, handle, w)"
      by (cases "the (open_write_tmp (the filestore)) (c_string (destination_path (receiver ?e))) (snd s)")
    let ?f = "\<lambda>t. metadata_slot filestore md st t\<lparr>file_handle := handle, file_handle_open := True\<rparr>"
    obtain e2 w2 where em: "emit_terminal_event env (transaction_id_from_header h)
        CCSDS_CFDP_STATUS_FILESTORE_REJECTION (upd_receiver (\<lambda>t. t\<lparr>file_handle := handle\<rparr>) ?e, w) = (e2, w2)"
      by fastforce
    have e2: "e2 = upd_receiver (\<lambda>t. t\<lparr>file_handle := handle\<rparr>) ?e"
      using quiet_emit [OF assms(1), of "transaction_id_from_header h" CCSDS_CFDP_STATUS_FILESTORE_REJECTION
          "(upd_receiver (\<lambda>t. t\<lparr>file_handle := handle\<rparr>) ?e, w)"] unfolding em by simp
    have "receiver_ok (fst s) (receiver (fst s)) \<Longrightarrow> receiver (fst s) = cleared_slot"
      using ok by (auto simp: receiver_ok_def)
    then have r: "receiver_ok (fst s) (receiver (fst s)) \<Longrightarrow> receiver_ok (fst s) (?f (receiver (fst s)))"
      using metadata_slot_ok [OF i, of pdu k "fst s" handle filestore] assms(2) ok by (simp add: h)
    have id: "active (?f t)" "slot_id (?f t) = transaction_id_from_header h" for t
      by (simp_all add: metadata_slot_def h)
    show ?thesis
    proof (cases "rc = 0")
      case True
      then have "status = CCSDS_CFDP_STATUS_OK" "s' = (upd_receiver ?f (fst s), w)"
        using assms(3) ok i o by (auto simp: receiver_handle_metadata_def d h Let_def)
      then show ?thesis using ok r id by (simp add: receiver_active_matches_header_def transaction_id_matches_def)
    next
      case False
      then have "status = CCSDS_CFDP_STATUS_FILESTORE_REJECTION" "s' = (upd_receiver (\<lambda>_. cleared_slot) (fst s), w2)"
        using assms(3) ok i o em e2 by (auto simp: receiver_handle_metadata_def d h Let_def)
      then show ?thesis using ok by simp
    qed
  qed
qed

subsection \<open>The sender\<close>

lemma tx_only_flags [simp]:
  "tx_only e (upd_sender f e\<lparr>sender_completion_available := a, sender_completion_status := c\<rparr>)"
proof -
  have "core (upd_sender f e\<lparr>sender_completion_available := a, sender_completion_status := c\<rparr>) =
      (core e)\<lparr>sender := f (sender e), sender_completion_available := a, sender_completion_status := c\<rparr>"
    by (simp add: core_def upd_sender_def)
  then show ?thesis unfolding tx_only_def by blast
qed

lemma sender_ok_upd:
  assumes "sender_ok e t" "active t" "retries_bounded (f t)" "active (f t)" "slot_id (f t) = slot_id t"
    "peer_entity_id (f t) = peer_entity_id t" "slot_mode (f t) = slot_mode t"
  shows "sender_ok e (f t)"
  using assms by (auto simp: sender_ok_def)

lemma sender_ok_bounded: "sender_ok e t \<Longrightarrow> retries_bounded t"
  by (auto simp: sender_ok_def retries_bounded_def cleared_slot_def)

lemma tx_moves_fail:
  "quiet env \<Longrightarrow> tx_only e (fst s) \<Longrightarrow> tx_moves e h (fst (snd (sender_fail env status s)))"
  using tx_only_trans [of e "fst s" "upd_sender (\<lambda>_. cleared_slot) (fst s)"] by (simp add: tx_moves_def)

lemma handle_finished_moves:
  assumes "quiet env" "ccsds_cfdp_decode_header pdu = Inr (h, k)"
  shows "snd (sender_handle_finished env pdu s) = s \<or>
    sender_active_matches_header (fst s) h \<and> tx_moves (fst s) h (fst (snd (sender_handle_finished env pdu s)))"
proof (cases "ccsds_cfdp_decode_finished pdu")
  case (Inl status)
  then show ?thesis by (simp add: sender_handle_finished_def)
next
  case (Inr p)
  obtain fin consumed where "p = (fin, consumed)" by (cases p)
  with Inr have d: "ccsds_cfdp_decode_finished pdu = Inr (fin, consumed)" by simp
  have h: "fin_header fin = h" using decoded_header(4) [OF d] assms(2) by auto
  show ?thesis
  proof (cases "consumed = length pdu \<and> incoming_finished_header_is_supported (fst s) h \<and>
      sender_active_matches_header (fst s) h")
    case False
    then show ?thesis by (auto simp: sender_handle_finished_def d h sender_active_matches_header_def)
  next
    case ok: True
    then have act: "active (sender (fst s))" by (simp add: sender_active_matches_header_def)
    let ?f = "\<lambda>t. t\<lparr>finished_received := True, finished_status := finished_status_of fin\<rparr>"
    let ?e = "upd_sender ?f (fst s)\<lparr>sender_completion_available := True,
        sender_completion_status := finished_status_of fin\<rparr>"
    have m: "tx_moves (fst s) h ?e"
      using ok act sender_ok_bounded [of "fst s" "sender (fst s)"] sender_ok_upd [of "fst s" "sender (fst s)" ?f]
      by (simp add: tx_moves_def sender_active_matches_header_def retries_bounded_def)
    obtain st s1 where a: "send_ack_finished env (fin_condition_code fin) (?e, snd s) = (st, s1)"
      by (cases "send_ack_finished env (fin_condition_code fin) (?e, snd s)")
    have e1: "fst s1 = ?e"
      using quiet_sends(6) [OF assms(1), of "fin_condition_code fin" "(?e, snd s)"] by (simp add: a)
    have rel: "tx_moves (fst s) h (upd_sender (\<lambda>_. cleared_slot) (fst s1))"
      using tx_only_trans [of "fst s" ?e "upd_sender (\<lambda>_. cleared_slot) ?e"] by (simp add: e1 tx_moves_def)
    show ?thesis
      using ok m rel a tx_moves_fail [OF assms(1), of "fst s" s1 h st]
      by (auto simp: sender_handle_finished_def d h Let_def e1 assms(1) sender_active_matches_header_def)
  qed
qed

lemma sender_handle_ack_same: "snd (sender_handle_ack pdu s) = s"
  by (simp add: sender_handle_ack_def split: sum.split prod.split)

lemma handle_nak_moves:
  assumes "quiet env" "ccsds_cfdp_decode_header pdu = Inr (h, k)"
  shows "snd (sender_handle_nak env filestore pdu s) = s \<or>
    sender_active_matches_header (fst s) h \<and>
    tx_moves (fst s) h (fst (snd (sender_handle_nak env filestore pdu s)))"
proof (cases "ccsds_cfdp_decode_nak pdu")
  case (Inl status)
  then show ?thesis by (simp add: sender_handle_nak_def)
next
  case (Inr p)
  obtain nak consumed where "p = (nak, consumed)" by (cases p)
  with Inr have d: "ccsds_cfdp_decode_nak pdu = Inr (nak, consumed)" by simp
  have h: "nak_header nak = h" using decoded_header(6) [OF d] assms(2) by auto
  show ?thesis
  proof (cases "consumed = length pdu \<and> sender_nak_header_is_supported (fst s) h \<and>
      sender_active_matches_header (fst s) h")
    case False
    then show ?thesis by (auto simp: sender_handle_nak_def d h sender_active_matches_header_def)
  next
    case ok: True
    then have act: "active (sender (fst s))" by (simp add: sender_active_matches_header_def)
    let ?f = "\<lambda>t. t\<lparr>nak_retry_count := nak_retry_count t + 1\<rparr>"
    let ?s = "(upd_sender ?f (fst s), snd s)"
    obtain st2 s2 where r: "retransmit_ranges env (the filestore) (nak_ranges nak) ?s = (st2, s2)"
      by (cases "retransmit_ranges env (the filestore) (nak_ranges nak) ?s")
    obtain st3 s3 where q: "send_eof env (eof_checksum (sender (fst s2))) (slot_file_size (sender (fst s2))) s2 = (st3, s3)"
      by (cases "send_eof env (eof_checksum (sender (fst s2))) (slot_file_size (sender (fst s2))) s2")
    have c2: "core (fst s2) = core (upd_sender ?f (fst s))"
      using retransmit_ranges_core [OF assms(1), of "the filestore" "nak_ranges nak" ?s] by (simp add: r)
    have e3: "fst s3 = fst s2"
      using quiet_sends(4) [OF assms(1), of "eof_checksum (sender (fst s2))" "slot_file_size (sender (fst s2))" s2]
      by (simp add: q)
    have t0: "tx_only (fst s) (upd_sender ?f (fst s))" by simp
    have t2: "tx_only (fst s) (fst s2)" by (rule tx_only_trans [OF t0 core_eq_only(2) [OF c2]])
    have fail: "tx_moves (fst s) h (fst (snd (sender_fail env st s')))"
      if "s' = s \<or> s' = ?s \<or> s' = s2 \<or> s' = s3" for st s'
      by (rule tx_moves_fail [OF assms(1)]) (use that t2 e3 in auto)
    have good: "tx_moves (fst s) h (fst s3)" if "\<not> nak_retry_count (?f (sender (fst s))) > of_nat CCSDS_CFDP_MAX_NAK_ROUNDS"
    proof -
      have "sender (fst s3) = ?f (sender (fst s))" using core_eqD(6) [OF c2] by (simp add: e3)
      then show ?thesis
        using t2 e3 ok act that sender_ok_bounded [of "fst s" "sender (fst s)"]
          sender_ok_upd [of "fst s" "sender (fst s)" ?f]
        by (simp add: tx_moves_def sender_active_matches_header_def retries_bounded_def not_less)
    qed
    note fails = fail [OF disjI1 [OF refl]] fail [OF disjI2, OF disjI1 [OF refl]]
      fail [OF disjI2, OF disjI2, OF disjI1 [OF refl]] fail [OF disjI2, OF disjI2, OF disjI2 [OF refl]]
    have "tx_moves (fst s) h (fst (snd (sender_handle_nak env filestore pdu s)))"
      using ok act good by (simp add: sender_handle_nak_def d h Let_def sender_active_matches_header_def fails r q)
    then show ?thesis using ok by simp
  qed
qed

section \<open>Receiving a PDU\<close>

lemma receive_toward_sender_cases:
  assumes "quiet env" "ccsds_cfdp_decode_header pdu = Inr (h, k)"
    "receive_toward_sender env h k pdu s = (status, s')"
  shows "s' = s \<or> sender_active_matches_header (fst s) h \<and> tx_moves (fst s) h (fst s') \<and>
    (status \<noteq> CCSDS_CFDP_STATUS_OK \<longrightarrow> sender (fst s') = cleared_slot)"
proof -
  let ?r = "if pdu ! k = CCSDS_CFDP_DIRECTIVE_FINISHED then sender_handle_finished env pdu s
      else if pdu ! k = CCSDS_CFDP_DIRECTIVE_ACK then sender_handle_ack pdu s
      else if pdu ! k = CCSDS_CFDP_DIRECTIVE_NAK then sender_handle_nak env (slot_filestore (sender (fst s))) pdu s
      else (CCSDS_CFDP_STATUS_UNSUPPORTED, s)"
  obtain st s1 where r: "?r = (st, s1)" by (cases ?r)
  have m: "s1 = s \<or> sender_active_matches_header (fst s) h \<and> tx_moves (fst s) h (fst s1)"
    using r handle_finished_moves [OF assms(1,2), of s] sender_handle_ack_same [of pdu s]
      handle_nak_moves [OF assms(1,2), of "slot_filestore (sender (fst s))" s]
    by (auto split: if_splits)
  have rel: "tx_moves (fst s) h (upd_sender (\<lambda>_. cleared_slot) (fst s1))"
    if "tx_moves (fst s) h (fst s1)"
    using that tx_only_trans [of "fst s" "fst s1" "upd_sender (\<lambda>_. cleared_slot) (fst s1)"]
    by (simp add: tx_moves_def)
  show ?thesis
  proof (cases "s' = s")
    case False
    then have s': "status = st" "s' = (if st \<noteq> CCSDS_CFDP_STATUS_OK \<and> sender_active_matches_header (fst s1) h
        then release_sender_terminal env st s1 else s1)"
      using assms(3) r by (auto simp: receive_toward_sender_def Let_def split: if_splits)
    show ?thesis
    proof (cases "st \<noteq> CCSDS_CFDP_STATUS_OK \<and> sender_active_matches_header (fst s1) h")
      case True
      have "sender_active_matches_header (fst s) h \<and> tx_moves (fst s) h (upd_sender (\<lambda>_. cleared_slot) (fst s1))"
        using m True rel by (auto simp: tx_moves_release)
      then show ?thesis using s' True assms(1) by simp
    next
      case n: False
      have "s' = s1" by (rule trans [OF s'(2) if_not_P [OF n]])
      then have "s1 \<noteq> s" using False by simp
      then show ?thesis using m n s' by (auto simp: tx_moves_def)
    qed
  qed simp
qed

lemma receive_toward_receiver_cases:
  assumes "quiet env" "ccsds_cfdp_decode_header pdu = Inr (h, k)"
    "receive_toward_receiver env filestore h k pdu s = (status, s')"
  shows "s' = s \<or> (receiver_active_matches_header (fst s) h \<or> \<not> active (receiver (fst s))) \<and>
    rx_moves (fst s) h (fst s') \<and> (status \<noteq> CCSDS_CFDP_STATUS_OK \<longrightarrow> receiver (fst s') = cleared_slot)"
proof -
  let ?r = "if pdu_type h = CCSDS_CFDP_PDU_TYPE_FILE_DATA then receiver_handle_filedata env (the filestore) pdu s
      else if pdu ! k = CCSDS_CFDP_DIRECTIVE_METADATA then receiver_handle_metadata env filestore pdu s
      else if pdu ! k = CCSDS_CFDP_DIRECTIVE_EOF then receiver_handle_eof env (the filestore) pdu s
      else if pdu ! k = CCSDS_CFDP_DIRECTIVE_ACK then receiver_handle_ack env pdu s
      else (CCSDS_CFDP_STATUS_UNSUPPORTED, s)"
  let ?mine = "receiver_active_matches_header (fst s) h \<or> \<not> active (receiver (fst s))"
  obtain st s1 where r: "?r = (st, s1)" by (cases ?r)
  have m: "s1 = s \<or> ?mine \<and> rx_moves (fst s) h (fst s1)"
    using r handle_filedata_moves [OF assms(1,2), of "the filestore" s]
      handle_eof_moves [OF assms(1,2), of "the filestore" s] handle_ack_moves [OF assms(1,2), of s]
      handle_metadata_moves [OF assms(1,2), where filestore = filestore and s = s and status = st and s' = s1]
    by (auto simp: rx_moves_def split: if_splits)
  show ?thesis
  proof (cases "s' = s")
    case False
    then have s': "status = st" "s' = (if st \<noteq> CCSDS_CFDP_STATUS_OK \<and> receiver_active_matches_header (fst s1) h
        then fail_receiver_active_transaction env st s1 else s1)"
      using assms(3) r by (auto simp: receive_toward_receiver_def Let_def split: if_splits)
    show ?thesis
    proof (cases "st \<noteq> CCSDS_CFDP_STATUS_OK \<and> receiver_active_matches_header (fst s1) h")
      case True
      note f = fail_receiver [OF assms(1), where status = st and s = s1]
      have "?mine" using m True by auto
      moreover have "rx_only (fst s) (fst s1)" using m by (auto simp: rx_moves_def)
      then have "rx_moves (fst s) h (fst (fail_receiver_active_transaction env st s1))"
        using f rx_only_trans [of "fst s" "fst s1"] by (simp add: rx_moves_def)
      ultimately show ?thesis using s' True f by simp
    next
      case n: False
      have "s' = s1" by (rule trans [OF s'(2) if_not_P [OF n]])
      then have "s1 \<noteq> s" using False by simp
      then show ?thesis using m n s' by (auto simp: rx_moves_def)
    qed
  qed simp
qed

text \<open>
  C4: An error in a received PDU ends at most the transaction the PDU belongs to. When
  \<open>receive_pdu\<close> reports an error, either nothing at all has changed, or the slot of the transaction
  (for the receiver also an empty slot, when its file could not be opened) is cleared and everything
  else of the entity is as before: another transaction, the transaction in the other direction, the
  identifiers and the sequence number.
\<close>

theorem receive_error_ends_only_its_transaction:
  assumes "quiet env" "ccsds_cfdp_entity_receive_pdu env filestore pdu (e, w) = (status, (e', w'))"
    "status \<noteq> CCSDS_CFDP_STATUS_OK"
  shows "e' = e \<and> w' = w \<or>
    (\<exists>h k. ccsds_cfdp_decode_header pdu = Inr (h, k) \<and>
       (if direction h = CCSDS_CFDP_DIRECTION_TOWARD_SENDER
        then sender_active_matches_header e h \<and> sender e' = cleared_slot \<and> tx_only e e'
        else (receiver_active_matches_header e h \<or> \<not> active (receiver e)) \<and>
          receiver e' = cleared_slot \<and> rx_only e e'))"
proof (cases "ccsds_cfdp_decode_header pdu")
  case (Inl st)
  then show ?thesis using assms(2) by (simp add: ccsds_cfdp_entity_receive_pdu_def)
next
  case (Inr p)
  obtain h k where "p = (h, k)" by (cases p)
  with Inr have d: "ccsds_cfdp_decode_header pdu = Inr (h, k)" by simp
  show ?thesis
    using assms(2,3) receive_toward_sender_cases [OF assms(1) d, where s = "(e, w)" and status = status and s' = "(e', w')"]
      receive_toward_receiver_cases [OF assms(1) d, where filestore = filestore and s = "(e, w)" and status = status and s' = "(e', w')"]
    by (auto simp: ccsds_cfdp_entity_receive_pdu_def d tx_moves_def rx_moves_def split: if_splits)
qed

lemma receive_entity_ok:
  assumes "quiet env" "entity_ok (fst s)"
  shows "entity_ok (fst (snd (ccsds_cfdp_entity_receive_pdu env filestore pdu s)))"
proof (cases "ccsds_cfdp_decode_header pdu")
  case (Inl st)
  then show ?thesis using assms(2) by (simp add: ccsds_cfdp_entity_receive_pdu_def)
next
  case (Inr p)
  obtain h k where "p = (h, k)" by (cases p)
  with Inr have d: "ccsds_cfdp_decode_header pdu = Inr (h, k)" by simp
  obtain st s' where r: "ccsds_cfdp_entity_receive_pdu env filestore pdu s = (st, s')"
    by (cases "ccsds_cfdp_entity_receive_pdu env filestore pdu s")
  have ok: "sender_ok (fst s) (sender (fst s))" "receiver_ok (fst s) (receiver (fst s))"
    using assms(2) by (simp_all add: entity_ok_def)
  have "fst s' = fst s \<or> tx_moves (fst s) h (fst s') \<or> rx_moves (fst s) h (fst s')"
    using r receive_toward_sender_cases [OF assms(1) d, where s = s and status = st and s' = s']
      receive_toward_receiver_cases [OF assms(1) d, where filestore = filestore and s = s and status = st and s' = s']
    by (auto simp: ccsds_cfdp_entity_receive_pdu_def d split: if_splits)
  then show ?thesis
    using assms(2) ok entity_ok_tx [OF assms(2), of "fst s'"] entity_ok_rx [OF assms(2), of "fst s'"]
    by (auto simp: r tx_moves_def rx_moves_def)
qed

section \<open>Every operation keeps the invariant\<close>

lemma release_sender_core:
  "quiet env \<Longrightarrow> tx_only e (fst s) \<Longrightarrow> sender_ok e (sender (fst s)) \<Longrightarrow>
     tx_only e (fst (snd (send_file_release env status handle_open s))) \<and>
     sender (fst (snd (send_file_release env status handle_open s))) = cleared_slot"
proof -
  assume q: "quiet env" and t: "tx_only e (fst s)" and ok: "sender_ok e (sender (fst s))"
  let ?close = "handle_open \<and> file_handle_open (sender (fst s))"
  let ?s1 = "if ?close then close_sender_handle s else s"
  let ?s2 = "if active (sender (fst ?s1)) then release_sender_terminal env status ?s1 else ?s1"
  have s: "fst ?s1 = (if ?close then upd_sender (\<lambda>t. t\<lparr>file_handle_open := False, file_handle := None\<rparr>) (fst s)
      else fst s)" by (simp add: close_sender_handle_keeps)
  have flag: "tx_only x (x\<lparr>sender_completion_available := b\<rparr>)" for x :: "'a cfdp_entity" and b
  proof -
    have "core (x\<lparr>sender_completion_available := b\<rparr>) = (core x)\<lparr>sender := sender x,
        sender_completion_available := b, sender_completion_status := sender_completion_status x\<rparr>"
      by (simp add: core_def)
    then show ?thesis unfolding tx_only_def by blast
  qed
  have "tx_only e (fst ?s1)"
    unfolding s using t tx_only_trans [OF t tx_only_upd [of "fst s"]] by simp
  moreover have r: "fst ?s2 = (if active (sender (fst ?s1)) then upd_sender (\<lambda>_. cleared_slot) (fst ?s1) else fst ?s1)"
    using q by simp
  ultimately have "tx_only e (fst ?s2)"
    unfolding r using tx_only_trans [OF _ tx_only_upd, of e "fst ?s1"] by simp
  then have "tx_only e ((fst ?s2)\<lparr>sender_completion_available := False\<rparr>)"
    by (rule tx_only_trans [OF _ flag])
  moreover have "sender (fst ?s2) = cleared_slot"
    unfolding r using ok by (auto simp: close_sender_handle_keeps sender_ok_def)
  ultimately show ?thesis by (simp add: send_file_release_def Let_def)
qed

lemma send_file_close_moves:
  assumes "quiet env" "tx_only e (fst s)" "sender_ok e (sender (fst s))"
  shows "tx_only e (fst (snd (send_file_close env request status s))) \<and>
    sender_ok e (sender (fst (snd (send_file_close env request status s))))"
proof -
  let ?s = "(upd_sender (\<lambda>t. t\<lparr>retry_count := 0\<rparr>) (fst s), snd s)"
  obtain now e1 w where n: "entity_now_ms env ?s = (now, (e1, w))"
    by (cases "entity_now_ms env ?s") auto
  have e1: "e1 = upd_sender (\<lambda>t. t\<lparr>retry_count := 0\<rparr>) (fst s)"
    using now_keeps [of env ?s] unfolding n by simp
  have "tx_only e (upd_sender (\<lambda>t. arm_retry now (t\<lparr>retry_count := 0\<rparr>)) (fst s))"
    by (rule tx_only_trans [OF assms(2) tx_only_upd])
  moreover have "sender_ok e (arm_retry now ((sender (fst s))\<lparr>retry_count := 0\<rparr>))" if "active (sender (fst s))"
    using sender_ok_upd [OF assms(3) that, of "\<lambda>t. arm_retry now (t\<lparr>retry_count := 0\<rparr>)"]
      sender_ok_bounded [OF assms(3)] that by (simp add: arm_retry_def retries_bounded_def)
  ultimately show ?thesis
    using release_sender_core [OF assms] by (simp add: send_file_close_def n e1)
qed

lemma send_file_opened_moves:
  assumes "quiet env" "tx_only e (fst s)" "sender_ok e (sender (fst s))" "active (sender (fst s))"
  shows "tx_only e (fst (snd (send_file_opened env fs request sl dl handle file_size st s))) \<and>
    sender_ok e (sender (fst (snd (send_file_opened env fs request sl dl handle file_size st s))))"
proof -
  obtain st1 s1 where m: "send_metadata env request sl dl file_size s = (st1, s1)"
    by (cases "send_metadata env request sl dl file_size s")
  have e1: "fst s1 = fst s" using quiet_sends(2) [OF assms(1), of request sl dl file_size s] by (simp add: m)
  obtain r s2 where l: "send_file_loop env fs handle file_size 0 st s1 = (r, s2)"
    by (cases "send_file_loop env fs handle file_size 0 st s1")
  have c2: "core (fst s2) = core (fst s)"
    using send_file_loop_core [OF assms(1), of fs handle file_size 0 st s1] by (simp add: l e1)
  have t2: "tx_only e (fst s2)" by (rule tx_only_trans [OF assms(2) core_eq_only(2) [OF c2]])
  have ok2: "sender_ok e (sender (fst s2))" using core_eqD(6) [OF c2] assms(3) by simp
  have fin: "tx_only e (fst (snd (send_file_close env request st3 s3))) \<and>
      sender_ok e (sender (fst (snd (send_file_close env request st3 s3))))"
    if "send_eof env sum file_size (upd_sender (\<lambda>t. t\<lparr>eof_checksum := sum\<rparr>) (fst s2), snd s2) = (st3, s3)" for sum st3 s3
  proof (rule send_file_close_moves [OF assms(1)])
    have e3: "fst s3 = upd_sender (\<lambda>t. t\<lparr>eof_checksum := sum\<rparr>) (fst s2)"
      using quiet_sends(4) [OF assms(1), of sum file_size "(upd_sender (\<lambda>t. t\<lparr>eof_checksum := sum\<rparr>) (fst s2), snd s2)"]
      by (simp add: that)
    show "tx_only e (fst s3)" unfolding e3 by (rule tx_only_trans [OF t2 tx_only_upd])
    show "sender_ok e (sender (fst s3))"
      using sender_ok_upd [OF ok2, of "\<lambda>t. t\<lparr>eof_checksum := sum\<rparr>"] sender_ok_bounded [OF ok2] core_eqD(6) [OF c2] assms(4)
      by (simp add: e3 retries_bounded_def)
  qed
  show ?thesis
    using release_sender_core [OF assms(1), of e s1] release_sender_core [OF assms(1) t2 ok2] assms(2,3) e1 fin
    by (auto simp: send_file_opened_def m l split: sum.split prod.split)
qed

lemma encoded_len_bits: "encoded_int_len_is_valid len 4 \<Longrightarrow> len = 1 \<or> len = 2 \<or> len = 3 \<or> len = 4" for len :: u8
proof -
  assume "encoded_int_len_is_valid len 4"
  then have "1 \<le> unat len" "unat len \<le> 4"
    by (auto simp: encoded_int_len_is_valid_def word_le_nat_alt)
  then have "unat len = 1 \<or> unat len = 2 \<or> unat len = 3 \<or> unat len = 4" by arith
  then show ?thesis by (auto simp: word_unat_eq_iff)
qed

lemma value_fits_limit:
  "encoded_int_len_is_valid len CCSDS_CFDP_MAX_TRANS_SEQ_LEN \<Longrightarrow>
     value_fits_len v len \<longleftrightarrow> unat v < 2 ^ (8 * unat len)"
proof -
  assume "encoded_int_len_is_valid len CCSDS_CFDP_MAX_TRANS_SEQ_LEN"
  then have l: "len = 1 \<or> len = 2 \<or> len = 3 \<or> len = 4" by (intro encoded_len_bits) (simp add: cfdp_limits)
  then have n: "unat len < 8" "\<not> len \<ge> 8" by (auto simp: word_le_nat_alt)
  have t: "take_bit 64 (unat v) = unat v"
    by (rule take_bit_nat_eq_self) (use unsigned_less [of v] in simp)
  have "(drop_bit (unat len * 8) v = 0) = (unat (drop_bit (unat len * 8) v) = 0)" by (simp add: unat_eq_0)
  also have "\<dots> \<longleftrightarrow> unat v < 2 ^ (8 * unat len)"
    by (simp only: unsigned_drop_bit_eq) (simp add: drop_bit_eq_div div_eq_0_iff mult.commute t)
  finally show ?thesis using n l by (auto simp: value_fits_len_def cfdp_limits)
qed

lemma sequence_limit:
  assumes "encoded_int_len_is_valid len CCSDS_CFDP_MAX_TRANS_SEQ_LEN"
  shows "unat (transaction_sequence_limit len) = 2 ^ (8 * unat len)" "transaction_sequence_limit len \<noteq> UINT64_MAX"
proof -
  have "len = 1 \<or> len = 2 \<or> len = 3 \<or> len = 4" using assms by (intro encoded_len_bits) (simp add: cfdp_limits)
  then show "unat (transaction_sequence_limit len) = 2 ^ (8 * unat len)" "transaction_sequence_limit len \<noteq> UINT64_MAX"
    by (auto simp: transaction_sequence_limit_def cfdp_limits UINT64_MAX_def)
qed

lemma advance_sequence:
  assumes "encoded_int_len_is_valid (ent_sequence_number_len e) CCSDS_CFDP_MAX_TRANS_SEQ_LEN"
    "value_fits_len (next_transaction_sequence_number e) (ent_sequence_number_len e)"
  shows "unat (next_transaction_sequence_number (advance_transaction_sequence_number e)) =
    (unat (next_transaction_sequence_number e) + 1) mod 2 ^ (8 * unat (ent_sequence_number_len e))"
proof -
  let ?n = "next_transaction_sequence_number e" and ?len = "ent_sequence_number_len e"
  have l: "?len = 1 \<or> ?len = 2 \<or> ?len = 3 \<or> ?len = 4"
    using assms(1) by (intro encoded_len_bits) (simp add: cfdp_limits)
  have b: "unat ?n < 2 ^ (8 * unat ?len)" using assms value_fits_limit by blast
  moreover have "(2::nat) ^ (8 * unat ?len) \<le> 2 ^ 32" using l by auto
  ultimately have "unat (?n + 1) = unat ?n + 1" by (simp add: unat_word_ariths)
  then show ?thesis
    using sequence_limit [OF assms(1)] by (simp add: advance_transaction_sequence_number_def Let_def unat_mod)
qed

lemma advance_fields [simp]:
  "sender (advance_transaction_sequence_number e) = sender e"
  "receiver (advance_transaction_sequence_number e) = receiver e"
  "local_entity_id (advance_transaction_sequence_number e) = local_entity_id e"
  "remote_entity_id (advance_transaction_sequence_number e) = remote_entity_id e"
  "ent_id_len (advance_transaction_sequence_number e) = ent_id_len e"
  "ent_sequence_number_len (advance_transaction_sequence_number e) = ent_sequence_number_len e"
  by (simp_all add: advance_transaction_sequence_number_def Let_def)

lemma sender_okI:
  "local_entity_id e' = local_entity_id e \<Longrightarrow> remote_entity_id e' = remote_entity_id e \<Longrightarrow>
     ent_sequence_number_len e' = ent_sequence_number_len e \<Longrightarrow> sender_ok e' t = sender_ok e t"
  "remote_entity_id e' = remote_entity_id e \<Longrightarrow>
     ent_sequence_number_len e' = ent_sequence_number_len e \<Longrightarrow> receiver_ok e' t = receiver_ok e t"
  by (simp_all add: sender_ok_def receiver_ok_def)

lemma create_entity_ok:
  assumes "entity_ok e" "ccsds_cfdp_entity_create_sender_transaction e = (r, e')"
  shows "entity_ok e'" "r = Inr tid \<Longrightarrow> active (sender e')"
proof -
  have lens: "encoded_int_len_is_valid (ent_sequence_number_len e) CCSDS_CFDP_MAX_TRANS_SEQ_LEN"
    "value_fits_len (next_transaction_sequence_number e) (ent_sequence_number_len e)"
    using assms(1) by (simp_all add: entity_ok_def)
  have fit: "value_fits_len (next_transaction_sequence_number (advance_transaction_sequence_number e))
      (ent_sequence_number_len e)"
    using value_fits_limit [OF lens(1)] advance_sequence [OF lens] by simp
  show "r = Inr tid \<Longrightarrow> active (sender e')"
    using assms(2) by (auto simp: ccsds_cfdp_entity_create_sender_transaction_def Let_def split: if_splits)
  show "entity_ok e'"
  proof (cases "active (sender e)")
    case True
    then show ?thesis using assms by (simp add: ccsds_cfdp_entity_create_sender_transaction_def)
  next
    case False
    with assms(1) have c: "sender e = cleared_slot" by (auto simp: entity_ok_def sender_ok_def)
    let ?tid = "\<lparr>tid_source = local_entity_id e, tid_number = next_transaction_sequence_number e\<rparr>"
    let ?f = "\<lambda>t. t\<lparr>active := True, slot_id := ?tid, peer_entity_id := remote_entity_id e,
        slot_mode := CCSDS_CFDP_TRANSMISSION_MODE_UNACKNOWLEDGED, finished_status := CCSDS_CFDP_STATUS_OK\<rparr>"
    have e': "e' = upd_sender ?f (advance_transaction_sequence_number e)"
      using assms(2) False by (simp add: ccsds_cfdp_entity_create_sender_transaction_def Let_def)
    have "sender_ok e (?f cleared_slot)"
      using lens by (simp add: sender_ok_def retries_bounded_def cleared_slot_def cfdp_codes)
    then show ?thesis
      using assms(1) fit sender_okI [of e' e] by (simp add: e' entity_ok_def c)
  qed
qed

lemma send_file_entity_ok:
  assumes "quiet env" "entity_ok (fst s)"
  shows "entity_ok (fst (snd (snd (ccsds_cfdp_entity_send_file env filestore request s))))"
proof -
  obtain r e1 where c: "ccsds_cfdp_entity_create_sender_transaction (fst s) = (r, e1)"
    by (cases "ccsds_cfdp_entity_create_sender_transaction (fst s)")
  have ok1: "entity_ok e1" by (rule create_entity_ok(1) [OF assms(2) c])
  show ?thesis
  proof (cases r)
    case (Inl st)
    then show ?thesis using assms(2) ok1
      by (auto simp: ccsds_cfdp_entity_send_file_def c split: option.split sum.split)
  next
    case (Inr tid)
    have act: "active (sender e1)" by (rule create_entity_ok(2) [OF assms(2) c Inr])
    have s1: "sender_ok e1 (sender e1)" "retries_bounded (sender e1)"
      using ok1 sender_ok_bounded [of e1 "sender e1"] by (simp_all add: entity_ok_def)
    have flags: "tx_only e1 (upd_sender f (e1\<lparr>sender_completion_available := a, sender_completion_status := b\<rparr>))" for f a b
    proof -
      have "core (upd_sender f (e1\<lparr>sender_completion_available := a, sender_completion_status := b\<rparr>)) =
          (core e1)\<lparr>sender := f (sender e1), sender_completion_available := a, sender_completion_status := b\<rparr>"
        by (simp add: core_def upd_sender_def)
      then show ?thesis unfolding tx_only_def by blast
    qed
    have mode: "sender_ok e1 (start_sender_slot request sl dl (sender e1))"
      "sender_ok e1 (open_sender_slot filestore request handle size' (start_sender_slot request sl dl (sender e1)))"
      for sl dl handle size'
      using s1 act by (auto simp: sender_ok_def start_sender_slot_def open_sender_slot_def retries_bounded_def cfdp_codes)
    have a: "active (start_sender_slot request sl dl (sender e1))"
      "active (open_sender_slot filestore request handle size' (start_sender_slot request sl dl (sender e1)))"
      for sl dl handle size'
      using act by (simp_all add: start_sender_slot_def open_sender_slot_def)
    have rel: "entity_ok (fst (snd (send_file_release env st b
        (upd_sender (start_sender_slot request sl dl) (e1\<lparr>sender_completion_available := av, sender_completion_status := cs\<rparr>), w))))"
      for st b sl dl av cs w
      using release_sender_core [OF assms(1), of e1 "(upd_sender (start_sender_slot request sl dl)
          (e1\<lparr>sender_completion_available := av, sender_completion_status := cs\<rparr>), w)" st b] flags mode
      by (intro entity_ok_tx [OF ok1]) simp_all
    have opn: "entity_ok (fst (snd (send_file_opened env fs request sl dl handle size' st
        (upd_sender (\<lambda>t. open_sender_slot filestore request handle size' (start_sender_slot request sl dl t))
          (e1\<lparr>sender_completion_available := av, sender_completion_status := cs\<rparr>), w))))"
      for fs sl dl handle size' st av cs w
      using send_file_opened_moves [OF assms(1), of e1 "(upd_sender
            (\<lambda>t. open_sender_slot filestore request handle size' (start_sender_slot request sl dl t))
            (e1\<lparr>sender_completion_available := av, sender_completion_status := cs\<rparr>), w)"
          fs request sl dl handle size' st] flags mode a
      by (intro entity_ok_tx [OF ok1]) simp_all
    show ?thesis
      using assms(2) rel opn
      by (simp add: ccsds_cfdp_entity_send_file_def c Inr Let_def split_beta split: option.split sum.split)
  qed
qed

section \<open>Polling\<close>

text \<open>One more retry: the slot after a retransmission at time \<open>now\<close>.\<close>

definition retried :: "u64 \<Rightarrow> 'w cfdp_transaction_slot \<Rightarrow> 'w cfdp_transaction_slot" where
  "retried now t = arm_retry now (t\<lparr>retry_count := retry_count t + 1\<rparr>)"

text \<open>The slots that a timer watches.\<close>

definition receiver_waits :: "'w cfdp_transaction_slot \<Rightarrow> bool" where
  "receiver_waits t \<longleftrightarrow> active t \<and> slot_mode t = CCSDS_CFDP_TRANSMISSION_MODE_ACKNOWLEDGED \<and>
     (recovery_pending t \<or> waiting_for_finished_ack t)"

definition sender_waits :: "'w cfdp_transaction_slot \<Rightarrow> bool" where
  "sender_waits t \<longleftrightarrow> active t \<and> slot_mode t = CCSDS_CFDP_TRANSMISSION_MODE_ACKNOWLEDGED \<and> \<not> finished_received t"

definition polled :: "u64 \<Rightarrow> 'w cfdp_transaction_slot \<Rightarrow> 'w cfdp_transaction_slot \<Rightarrow> bool" where
  "polled now t t' \<longleftrightarrow>
     t' = cleared_slot \<or> retry_count t < of_nat CCSDS_CFDP_MAX_NAK_ROUNDS \<and> t' = retried now t"

lemma retried_fields [simp]:
  "active (retried now t) = active t" "slot_mode (retried now t) = slot_mode t"
  "recovery_pending (retried now t) = recovery_pending t"
  "waiting_for_finished_ack (retried now t) = waiting_for_finished_ack t"
  "finished_received (retried now t) = finished_received t" "retry_count (retried now t) = retry_count t + 1"
  "retry_deadline_ms (retried now t) = now + ucast CCSDS_CFDP_RETRY_INTERVAL_MS"
  "slot_id (retried now t) = slot_id t" "peer_entity_id (retried now t) = peer_entity_id t"
  "metadata_received (retried now t) = metadata_received t" "nak_retry_count (retried now t) = nak_retry_count t"
  by (simp_all add: retried_def arm_retry_def)

lemma retry_count_next:
  "retry_count t < of_nat CCSDS_CFDP_MAX_NAK_ROUNDS \<Longrightarrow> unat (retry_count t + 1) = unat (retry_count t) + 1 \<and>
     retry_count t + 1 \<le> of_nat CCSDS_CFDP_MAX_NAK_ROUNDS"
proof -
  assume "retry_count t < of_nat CCSDS_CFDP_MAX_NAK_ROUNDS"
  then have "unat (retry_count t) < 4" by (simp add: cfdp_limits word_less_nat_alt)
  then show ?thesis by (simp add: cfdp_limits word_le_nat_alt unat_word_ariths)
qed

lemma discard_release:
  assumes "quiet env"
  shows "receiver (fst (release_receiver_terminal env st (close_discard_receiver s))) = cleared_slot"
    "rx_only (fst s) (fst (release_receiver_terminal env st (close_discard_receiver s)))"
  using assms by (auto intro: rx_only_trans [OF close_discard_receiver_keeps(1) rx_only_upd])

lemma poll_recovery_cases:
  assumes "quiet env"
  shows "rx_only (fst s) (fst (poll_recovery env now s))"
    "if active (receiver (fst s)) \<and> slot_mode (receiver (fst s)) = CCSDS_CFDP_TRANSMISSION_MODE_ACKNOWLEDGED \<and>
        recovery_pending (receiver (fst s)) \<and> retry_due (receiver (fst s)) now
     then polled now (receiver (fst s)) (receiver (fst (poll_recovery env now s)))
     else poll_recovery env now s = s"
proof -
  obtain st s1 where n: "send_nak_for_missing_ranges env s = (st, s1)"
    by (cases "send_nak_for_missing_ranges env s")
  have e1: "fst s1 = fst s" using quiet_sends(7) [OF assms, of s] by (simp add: n)
  show "rx_only (fst s) (fst (poll_recovery env now s))"
    using discard_release [OF assms, where s = s] discard_release [OF assms, where s = s1]
    by (simp add: poll_recovery_def Let_def n e1)
  show "if active (receiver (fst s)) \<and> slot_mode (receiver (fst s)) = CCSDS_CFDP_TRANSMISSION_MODE_ACKNOWLEDGED \<and>
        recovery_pending (receiver (fst s)) \<and> retry_due (receiver (fst s)) now
     then polled now (receiver (fst s)) (receiver (fst (poll_recovery env now s)))
     else poll_recovery env now s = s"
    using discard_release [OF assms, where s = s] discard_release [OF assms, where s = s1]
    by (simp add: poll_recovery_def Let_def n e1 polled_def retried_def not_le)
qed

lemma poll_finished_cases:
  assumes "quiet env"
  shows "rx_only (fst s) (fst (poll_finished env now s))"
    "if active (receiver (fst s)) \<and> slot_mode (receiver (fst s)) = CCSDS_CFDP_TRANSMISSION_MODE_ACKNOWLEDGED \<and>
        waiting_for_finished_ack (receiver (fst s)) \<and> retry_due (receiver (fst s)) now
     then polled now (receiver (fst s)) (receiver (fst (poll_finished env now s)))
     else poll_finished env now s = s"
proof -
  obtain st s1 where n: "send_finished_for_receiver_status env (finished_status (receiver (fst s))) s = (st, s1)"
    by (cases "send_finished_for_receiver_status env (finished_status (receiver (fst s))) s")
  have e1: "fst s1 = fst s"
    using quiet_sends(8) [OF assms, of "finished_status (receiver (fst s))" s] by (simp add: n)
  show "rx_only (fst s) (fst (poll_finished env now s))"
    "if active (receiver (fst s)) \<and> slot_mode (receiver (fst s)) = CCSDS_CFDP_TRANSMISSION_MODE_ACKNOWLEDGED \<and>
        waiting_for_finished_ack (receiver (fst s)) \<and> retry_due (receiver (fst s)) now
     then polled now (receiver (fst s)) (receiver (fst (poll_finished env now s)))
     else poll_finished env now s = s"
    using assms by (simp_all add: poll_finished_def Let_def n e1 polled_def retried_def not_le)
qed

lemma poll_sender_cases:
  assumes "quiet env"
  shows "tx_only (fst s) (fst (poll_sender env now s))"
    "if sender_waits (sender (fst s)) \<and> retry_due (sender (fst s)) now
     then polled now (sender (fst s)) (sender (fst (poll_sender env now s)))
     else poll_sender env now s = s"
proof -
  obtain st s1 where n: "send_eof env (eof_checksum (sender (fst s))) (slot_file_size (sender (fst s))) s = (st, s1)"
    by (cases "send_eof env (eof_checksum (sender (fst s))) (slot_file_size (sender (fst s))) s")
  have e1: "fst s1 = fst s"
    using quiet_sends(4) [OF assms, of "eof_checksum (sender (fst s))" "slot_file_size (sender (fst s))" s] by (simp add: n)
  show "tx_only (fst s) (fst (poll_sender env now s))"
    "if sender_waits (sender (fst s)) \<and> retry_due (sender (fst s)) now
     then polled now (sender (fst s)) (sender (fst (poll_sender env now s)))
     else poll_sender env now s = s"
    using assms by (simp_all add: poll_sender_def Let_def n e1 polled_def retried_def not_le sender_waits_def)
qed

lemma waiting_transfer:
  assumes "receiver_ok e t" "recovery_pending t \<or> waiting_for_finished_ack t"
  shows "metadata_received t" "transfer_ok t"
proof -
  have "\<not> recovery_pending (matched_slot i p)" "\<not> waiting_for_finished_ack (matched_slot i p)" for i p
    by (simp_all add: matched_slot_def cleared_slot_def)
  moreover have "\<not> recovery_pending cleared_slot" "\<not> waiting_for_finished_ack cleared_slot"
    by (simp_all add: cleared_slot_def)
  ultimately show "metadata_received t" "transfer_ok t"
    using assms unfolding receiver_ok_def by metis+
qed

lemma polled_ok:
  "receiver_ok e t \<Longrightarrow> active t \<Longrightarrow> recovery_pending t \<or> waiting_for_finished_ack t \<Longrightarrow> polled now t t' \<Longrightarrow> receiver_ok e t'"
  "sender_ok e t \<Longrightarrow> active t \<Longrightarrow> polled now t t' \<Longrightarrow> sender_ok e t'"
proof -
  assume r: "receiver_ok e t" "active t" "recovery_pending t \<or> waiting_for_finished_ack t" "polled now t t'"
  note md = waiting_transfer(1) [OF r(1,3)]
  have "transfer_ok (retried now t)" if "transfer_ok t" "retry_count t < of_nat CCSDS_CFDP_MAX_NAK_ROUNDS"
    using that retry_count_next [OF that(2)]
    by (simp add: transfer_ok_def retries_bounded_def retried_def arm_retry_def)
  then show "receiver_ok e t'"
    using r md by (auto simp: polled_def intro!: receiver_ok_upd [where f = "retried now"])
next
  assume r: "sender_ok e t" "active t" "polled now t t'"
  then show "sender_ok e t'"
    using sender_ok_bounded [OF r(1)] retry_count_next [of t]
    by (auto simp: polled_def retries_bounded_def intro!: sender_ok_upd [where f = "retried now"])
qed

lemma poll_cases:
  assumes "quiet env" "entity_ok (fst s)"
  shows "entity_ok (fst (ccsds_cfdp_entity_poll env now s))"
    "if receiver_waits (receiver (fst s)) \<and> retry_due (receiver (fst s)) now
     then polled now (receiver (fst s)) (receiver (fst (ccsds_cfdp_entity_poll env now s)))
     else receiver (fst (ccsds_cfdp_entity_poll env now s)) = receiver (fst s)"
    "if sender_waits (sender (fst s)) \<and> retry_due (sender (fst s)) now
     then polled now (sender (fst s)) (sender (fst (ccsds_cfdp_entity_poll env now s)))
     else sender (fst (ccsds_cfdp_entity_poll env now s)) = sender (fst s)"
proof -
  let ?s1 = "poll_recovery env now s" and ?s2 = "poll_finished env now (poll_recovery env now s)"
  let ?s3 = "poll_sender env now ?s2"
  note a = poll_recovery_cases [OF assms(1), of s now]
  note b = poll_finished_cases [OF assms(1), of ?s1 now]
  note c = poll_sender_cases [OF assms(1), of ?s2 now]
  have ok: "receiver_ok (fst s) (receiver (fst s))" "sender_ok (fst s) (sender (fst s))"
    using assms(2) by (simp_all add: entity_ok_def)
  have excl: "\<not> (recovery_pending (receiver (fst s)) \<and> waiting_for_finished_ack (receiver (fst s)))"
    using waiting_transfer(2) [OF ok(1)] by (auto simp: transfer_ok_def)
  have r12: "if receiver_waits (receiver (fst s)) \<and> retry_due (receiver (fst s)) now
     then polled now (receiver (fst s)) (receiver (fst ?s2)) else receiver (fst ?s2) = receiver (fst s)"
    using a(2) b(2) excl by (auto simp: receiver_waits_def polled_def split: if_splits)
  have rx: "rx_only (fst s) (fst ?s2)" by (rule rx_only_trans [OF a(1) b(1)])
  have s2: "sender (fst ?s2) = sender (fst s)" by (rule rx_only_keeps(1) [OF rx])
  have r3: "receiver (fst ?s3) = receiver (fst ?s2)" by (rule tx_only_keeps(1) [OF c(1)])
  show "if receiver_waits (receiver (fst s)) \<and> retry_due (receiver (fst s)) now
     then polled now (receiver (fst s)) (receiver (fst (ccsds_cfdp_entity_poll env now s)))
     else receiver (fst (ccsds_cfdp_entity_poll env now s)) = receiver (fst s)"
    using r12 by (simp add: ccsds_cfdp_entity_poll_def r3)
  show "if sender_waits (sender (fst s)) \<and> retry_due (sender (fst s)) now
     then polled now (sender (fst s)) (sender (fst (ccsds_cfdp_entity_poll env now s)))
     else sender (fst (ccsds_cfdp_entity_poll env now s)) = sender (fst s)"
    using c(2) by (auto simp: ccsds_cfdp_entity_poll_def s2 split: if_splits)
  have "receiver_ok (fst s) (receiver (fst ?s2))"
    using r12 ok(1) polled_ok(1) by (auto simp: receiver_waits_def split: if_splits)
  then have e2: "entity_ok (fst ?s2)" by (rule entity_ok_rx [OF assms(2) rx])
  have "sender_ok (fst ?s2) (sender (fst ?s3))"
    using c(2) e2 polled_ok(2) by (auto simp: sender_waits_def entity_ok_def split: if_splits)
  then show "entity_ok (fst (ccsds_cfdp_entity_poll env now s))"
    unfolding ccsds_cfdp_entity_poll_def by (rule entity_ok_tx [OF e2 c(1)])
qed

section \<open>Reachable entities\<close>

lemma init_entity_ok: "ccsds_cfdp_entity_init cfg env = Inr e \<Longrightarrow> entity_ok e"
  by (auto simp: ccsds_cfdp_entity_init_def entity_ok_def split: if_splits)

lemma match_entity_ok:
  assumes "entity_ok e"
  shows "entity_ok (snd (ccsds_cfdp_entity_match_or_create_receiver_transaction pdu e))"
proof (cases "ccsds_cfdp_decode_header pdu")
  case (Inl st)
  then show ?thesis using assms by (simp add: ccsds_cfdp_entity_match_or_create_receiver_transaction_def)
next
  case (Inr p)
  obtain h k where "p = (h, k)" by (cases p)
  with Inr have d: "ccsds_cfdp_decode_header pdu = Inr (h, k)" by simp
  have fit: "value_fits_len (transaction_sequence_number h) (transaction_sequence_number_len h)"
    using decode_header_canonical(1) [OF d] by (simp add: header_wf_def)
  let ?f = "\<lambda>t. t\<lparr>active := True, slot_id := transaction_id_from_header h, peer_entity_id := source_entity_id h\<rparr>"
  show ?thesis
  proof (cases "active (receiver e)")
    case True
    then show ?thesis
      using assms by (simp add: ccsds_cfdp_entity_match_or_create_receiver_transaction_def d)
  next
    case False
    with assms have c: "receiver e = cleared_slot" by (auto simp: entity_ok_def receiver_ok_def)
    have "receiver_ok e (?f cleared_slot)"
      if "source_entity_id h = remote_entity_id e" "transaction_sequence_number_len h = ent_sequence_number_len e"
      using that fit by (simp add: receiver_ok_def transaction_id_from_header_def matched_slot_def)
    then have "entity_ok (upd_receiver ?f e)"
      if "source_entity_id h = remote_entity_id e" "transaction_sequence_number_len h = ent_sequence_number_len e"
      using that by (intro entity_ok_rx [OF assms]) (simp_all add: c)
    then show ?thesis
      using assms False by (simp add: ccsds_cfdp_entity_match_or_create_receiver_transaction_def d)
  qed
qed

text \<open>The calls of an application, between which it may change its own state.\<close>

inductive cfdp_reachable :: "'w cfdp_env \<Rightarrow> cfdp_entity_config \<Rightarrow> 'w cfdp_state \<Rightarrow> bool"
  for env cfg where
  init: "ccsds_cfdp_entity_init cfg env = Inr e \<Longrightarrow> cfdp_reachable env cfg (e, w)"
| application: "cfdp_reachable env cfg (e, w) \<Longrightarrow> cfdp_reachable env cfg (e, w')"
| send_file: "cfdp_reachable env cfg s \<Longrightarrow>
    cfdp_reachable env cfg (snd (snd (ccsds_cfdp_entity_send_file env filestore request s)))"
| receive_pdu: "cfdp_reachable env cfg s \<Longrightarrow>
    cfdp_reachable env cfg (snd (ccsds_cfdp_entity_receive_pdu env filestore pdu s))"
| poll: "cfdp_reachable env cfg s \<Longrightarrow> cfdp_reachable env cfg (ccsds_cfdp_entity_poll env now s)"
| create_sender: "cfdp_reachable env cfg (e, w) \<Longrightarrow>
    cfdp_reachable env cfg (snd (ccsds_cfdp_entity_create_sender_transaction e), w)"
| match_receiver: "cfdp_reachable env cfg (e, w) \<Longrightarrow>
    cfdp_reachable env cfg (snd (ccsds_cfdp_entity_match_or_create_receiver_transaction pdu e), w)"
| release_sender: "cfdp_reachable env cfg s \<Longrightarrow>
    cfdp_reachable env cfg (ccsds_cfdp_entity_release_sender_transaction s)"
| release_receiver: "cfdp_reachable env cfg s \<Longrightarrow>
    cfdp_reachable env cfg (ccsds_cfdp_entity_release_receiver_transaction s)"

lemma release_entity_ok:
  assumes "entity_ok (fst s)"
  shows "entity_ok (fst (ccsds_cfdp_entity_release_sender_transaction s))"
    "entity_ok (fst (ccsds_cfdp_entity_release_receiver_transaction s))"
proof -
  have "fst (ccsds_cfdp_entity_release_sender_transaction s) = upd_sender (\<lambda>_. cleared_slot) (fst s)"
    by (simp add: ccsds_cfdp_entity_release_sender_transaction_def split_beta close_sender_handle_keeps)
  then show "entity_ok (fst (ccsds_cfdp_entity_release_sender_transaction s))"
    using entity_ok_tx [OF assms, of "upd_sender (\<lambda>_. cleared_slot) (fst s)"] by simp
  show "entity_ok (fst (ccsds_cfdp_entity_release_receiver_transaction s))"
    using entity_ok_rx [OF assms, of "upd_receiver (\<lambda>_. cleared_slot) (fst s)"]
    by (simp add: ccsds_cfdp_entity_release_receiver_transaction_def split_beta)
qed

text \<open>
  C2: The entity's state is well formed after any sequence of calls. Identifiers and sequence numbers
  always fit the configured field widths; an inactive slot is completely cleared; an active receiver
  slot belongs to the configured peer, its received ranges are a normal form inside the announced file,
  its checksum state is of the announced supported type, it waits for missing data or for the
  acknowledgement of Finished, never for both and only in acknowledged mode, its file is open exactly
  until Finished is sent; no retry counter exceeds the configured number of rounds.
\<close>

theorem cfdp_reachable_entities_are_ok:
  assumes "quiet env" "cfdp_reachable env cfg s"
  shows "entity_ok (fst s)"
  using assms(2)
proof (induction rule: cfdp_reachable.induct)
  case (create_sender e w)
  then show ?case using create_entity_ok(1) [of e] by (cases "ccsds_cfdp_entity_create_sender_transaction e") simp
qed (use assms(1) in \<open>auto simp: init_entity_ok send_file_entity_ok receive_entity_ok poll_cases(1)
      match_entity_ok release_entity_ok\<close>)

section \<open>Retries end\<close>

text \<open>Times of polling that are late enough: each reaches the deadline that the one before it arms.\<close>

fun late_polls :: "u64 \<Rightarrow> u64 list \<Rightarrow> bool" where
  "late_polls deadline [] \<longleftrightarrow> True"
| "late_polls deadline (t # ts) \<longleftrightarrow>
     deadline \<le> t \<and> late_polls (t + ucast CCSDS_CFDP_RETRY_INTERVAL_MS) ts"

definition polls :: "'w cfdp_env \<Rightarrow> u64 list \<Rightarrow> 'w cfdp_state \<Rightarrow> 'w cfdp_state" where
  "polls env ts s = fold (ccsds_cfdp_entity_poll env) ts s"

lemma polls_simps [simp]: "polls env [] s = s" "polls env (t # ts) s = polls env ts (ccsds_cfdp_entity_poll env t s)"
  by (simp_all add: polls_def)

lemma polls_cleared:
  assumes "quiet env" "entity_ok (fst s)"
  shows "receiver (fst s) = cleared_slot \<Longrightarrow> receiver (fst (polls env ts s)) = cleared_slot"
    "sender (fst s) = cleared_slot \<Longrightarrow> sender (fst (polls env ts s)) = cleared_slot"
proof -
  have "(receiver (fst s) = cleared_slot \<longrightarrow> receiver (fst (polls env ts s)) = cleared_slot) \<and>
      (sender (fst s) = cleared_slot \<longrightarrow> sender (fst (polls env ts s)) = cleared_slot)"
    using assms(2)
  proof (induction ts arbitrary: s)
    case (Cons t ts)
    then show ?case
      using poll_cases [OF assms(1) Cons.prems, of t] Cons.IH [of "ccsds_cfdp_entity_poll env t s"]
      by (auto simp: receiver_waits_def sender_waits_def)
  qed simp
  then show "receiver (fst s) = cleared_slot \<Longrightarrow> receiver (fst (polls env ts s)) = cleared_slot"
    "sender (fst s) = cleared_slot \<Longrightarrow> sender (fst (polls env ts s)) = cleared_slot" by blast+
qed

lemma receiver_polls:
  assumes "quiet env"
  shows "entity_ok (fst s) \<Longrightarrow> receiver_waits (receiver (fst s)) \<Longrightarrow>
    late_polls (retry_deadline_ms (receiver (fst s))) ts \<Longrightarrow>
    CCSDS_CFDP_MAX_NAK_ROUNDS < unat (retry_count (receiver (fst s))) + length ts \<Longrightarrow>
    receiver (fst (polls env ts s)) = cleared_slot"
proof (induction ts arbitrary: s)
  case Nil
  have "retries_bounded (receiver (fst s))"
    using Nil.prems(1,2) waiting_transfer(2) [of "fst s" "receiver (fst s)"]
    by (auto simp: entity_ok_def receiver_waits_def transfer_ok_def)
  then show ?case using Nil.prems(4) by (simp add: retries_bounded_def cfdp_limits word_le_nat_alt)
next
  case (Cons t ts)
  let ?s = "ccsds_cfdp_entity_poll env t s"
  have due: "retry_due (receiver (fst s)) t" using Cons.prems(3) by (simp add: retry_due_def)
  note p = poll_cases [OF assms Cons.prems(1), of t]
  have "polled t (receiver (fst s)) (receiver (fst ?s))" using p(2) Cons.prems(2) due by simp
  then show ?case
    using Cons.IH [OF p(1)] polls_cleared(1) [OF assms p(1)] Cons.prems(2-4) retry_count_next [of "receiver (fst s)"]
    by (auto simp: polled_def receiver_waits_def)
qed

lemma sender_polls:
  assumes "quiet env"
  shows "entity_ok (fst s) \<Longrightarrow> sender_waits (sender (fst s)) \<Longrightarrow>
    late_polls (retry_deadline_ms (sender (fst s))) ts \<Longrightarrow>
    CCSDS_CFDP_MAX_NAK_ROUNDS < unat (retry_count (sender (fst s))) + length ts \<Longrightarrow>
    sender (fst (polls env ts s)) = cleared_slot"
proof (induction ts arbitrary: s)
  case Nil
  have "retries_bounded (sender (fst s))"
    using Nil.prems(1) sender_ok_bounded by (auto simp: entity_ok_def)
  then show ?case using Nil.prems(4) by (simp add: retries_bounded_def cfdp_limits word_le_nat_alt)
next
  case (Cons t ts)
  let ?s = "ccsds_cfdp_entity_poll env t s"
  have due: "retry_due (sender (fst s)) t" using Cons.prems(3) by (simp add: retry_due_def)
  note p = poll_cases [OF assms Cons.prems(1), of t]
  have "polled t (sender (fst s)) (sender (fst ?s))" using p(3) Cons.prems(2) due by simp
  then show ?case
    using Cons.IH [OF p(1)] polls_cleared(2) [OF assms p(1)] Cons.prems(2-4) retry_count_next [of "sender (fst s)"]
    by (auto simp: polled_def sender_waits_def)
qed

text \<open>
  C3: A transaction that gets no answer ends. A receiver that waits for missing data or for the
  acknowledgement of its Finished, and an acknowledged sender that has no Finished yet, are released by
  polling alone: when every poll comes at least the retry interval after the one before, the slot is
  clear after at most one poll more than the retries left, whether or not the retransmissions can be sent.
\<close>

theorem polling_ends_waiting_transactions:
  assumes "quiet env" "entity_ok (fst s)"
  shows "(receiver_waits (receiver (fst s)) \<and> late_polls (retry_deadline_ms (receiver (fst s))) ts \<and>
       CCSDS_CFDP_MAX_NAK_ROUNDS < unat (retry_count (receiver (fst s))) + length ts \<longrightarrow>
       receiver (fst (polls env ts s)) = cleared_slot) \<and>
    (sender_waits (sender (fst s)) \<and> late_polls (retry_deadline_ms (sender (fst s))) ts \<and>
       CCSDS_CFDP_MAX_NAK_ROUNDS < unat (retry_count (sender (fst s))) + length ts \<longrightarrow>
       sender (fst (polls env ts s)) = cleared_slot)"
  using receiver_polls [OF assms(1), OF assms(2)] sender_polls [OF assms(1), OF assms(2)] by blast

section \<open>An application for the examples\<close>

text \<open>The link records what is sent; the file store has one temporary file and one source file.\<close>

record demo_world =
  demo_sent :: "octets list"
  demo_tmp :: octets
  demo_done :: "(octets \<times> octets) list"

definition demo_source :: octets where "demo_source = [1, 2, 3, 4, 5]"

definition overwrite :: "octets \<Rightarrow> nat \<Rightarrow> octets \<Rightarrow> octets" where
  "overwrite f off d = take off (f @ replicate (off - length f) 0) @ d @ drop (off + length d) f"

definition demo_env :: "demo_world cfdp_env" where
  "demo_env = \<lparr>send_pdu = Some (\<lambda>dest pdu (e, w). (0, (e, w\<lparr>demo_sent := demo_sent w @ [pdu]\<rparr>))),
     now_ms = None, event_cb = None,
     env_crc = \<lparr>crc32_c = \<lambda>c _ _ _. c, crc32_ieee_update = \<lambda>c _. c\<rparr>\<rparr>"

definition demo_store :: "demo_world cfdp_filestore_ops" where
  "demo_store = \<lparr>open_read = Some (\<lambda>path w. (0, Some 0, of_nat (length demo_source), w)),
     open_write_tmp = Some (\<lambda>path w. (0, Some 1, w\<lparr>demo_tmp := []\<rparr>)),
     fs_read = Some (\<lambda>h off n w. (0, take n (drop (unat off) (demo_tmp w)), w)),
     fs_write = Some (\<lambda>h off data w. (0, w\<lparr>demo_tmp := overwrite (demo_tmp w) (unat off) data\<rparr>)),
     fs_close = Some (\<lambda>h w. (0, w)),
     commit_tmp = Some (\<lambda>path w. (0, w\<lparr>demo_done := (path, demo_tmp w) # demo_done w\<rparr>)),
     discard_tmp = Some (\<lambda>path w. (0, w\<lparr>demo_tmp := []\<rparr>))\<rparr>"

definition demo_world0 :: demo_world where
  "demo_world0 = \<lparr>demo_sent = [], demo_tmp = [], demo_done = []\<rparr>"

definition demo_config :: cfdp_entity_config where
  "demo_config = \<lparr>cfg_local_entity_id = 1, cfg_remote_entity_id = 2, cfg_entity_id_len = 1,
     cfg_sequence_number_len = 1, cfg_initial_sequence_number = 7\<rparr>"

definition demo_entity :: "demo_world cfdp_entity" where
  "demo_entity = projr (ccsds_cfdp_entity_init demo_config demo_env)"

text \<open>A PDU header toward the entity, for transaction 9 of its peer.\<close>

definition demo_header :: "u8 \<Rightarrow> cfdp_pdu_header" where
  "demo_header type = \<lparr>hdr_version = 1, pdu_type = type, direction = 0, transmission_mode = 1, crc_flag = 0,
     file_size_mode = 0, pdu_data_field_len = 0, segmentation_control = 0, segment_metadata_present = False,
     entity_id_len = 1, transaction_sequence_number_len = 1, source_entity_id = 2,
     transaction_sequence_number = 9, destination_entity_id = 1\<rparr>"

definition demo_metadata :: octets where
  "demo_metadata = projr (ccsds_cfdp_encode_metadata \<lparr>md_header = demo_header 0, closure_requested = False,
     checksum_type = 0, md_file_size = 5, source_filename = [97], destination_filename = [98]\<rparr> 512)"

definition demo_state :: "demo_world cfdp_state" where
  "demo_state = snd (ccsds_cfdp_entity_receive_pdu demo_env (Some demo_store) demo_metadata (demo_entity, demo_world0))"

lemma demo_quiet: "quiet demo_env"
  by (simp add: quiet_def demo_env_def split_beta)

lemma demo_init: "ccsds_cfdp_entity_init demo_config demo_env = Inr demo_entity"
  by (simp add: demo_entity_def ccsds_cfdp_entity_init_def demo_config_def demo_env_def
      encoded_int_len_is_valid_def value_fits_len_def cfdp_limits word_le_nat_alt)

lemma demo_reachable: "cfdp_reachable demo_env demo_config demo_state"
  unfolding demo_state_def by (intro cfdp_reachable.receive_pdu cfdp_reachable.init demo_init)

lemma cfdp_reachable_entities_are_ok_witness: "entity_ok (fst demo_state)"
  by (rule cfdp_reachable_entities_are_ok [OF demo_quiet demo_reachable])

text \<open>A directive that the entity does not know, for transaction 9.\<close>

definition demo_unknown :: octets where
  "demo_unknown = [0x24, 0, 1, 0, 2, 9, 1, 0xff]"

lemma demo_unknown_header:
  "ccsds_cfdp_decode_header demo_unknown = Inr ((demo_header 0)\<lparr>pdu_data_field_len := 1\<rparr>, 7)"
  by code_simp

definition demo_busy :: "demo_world cfdp_entity" where
  "demo_busy = demo_entity\<lparr>receiver := matched_slot \<lparr>tid_source = 2, tid_number = 9\<rparr> 2\<rparr>"

definition demo_error :: "cfdp_status \<times> demo_world cfdp_state" where
  "demo_error = ccsds_cfdp_entity_receive_pdu demo_env (Some demo_store) demo_unknown (demo_busy, demo_world0)"

lemma demo_fields:
  "local_entity_id demo_entity = 1" "remote_entity_id demo_entity = 2" "ent_id_len demo_entity = 1"
  "ent_sequence_number_len demo_entity = 1" "sender demo_entity = cleared_slot" "receiver demo_entity = cleared_slot"
  "next_transaction_sequence_number demo_entity = 7"
  by (simp_all add: demo_entity_def ccsds_cfdp_entity_init_def demo_config_def demo_env_def
      encoded_int_len_is_valid_def value_fits_len_def cfdp_limits word_le_nat_alt)

lemma demo_unknown_octets: "length demo_unknown = 8" "demo_unknown ! 7 = 0xff"
  by (simp_all add: demo_unknown_def)

lemma demo_store_valid: "receive_filestore_is_valid (Some demo_store)" "filestore_is_valid (Some demo_store)"
  by (simp_all add: demo_store_def receive_filestore_is_valid_def filestore_is_valid_def)

lemma demo_error_status: "fst demo_error = CCSDS_CFDP_STATUS_UNSUPPORTED"
  by (simp add: demo_error_def ccsds_cfdp_entity_receive_pdu_def demo_unknown_header receive_toward_receiver_def
      demo_header_def demo_busy_def incoming_header_is_supported_def demo_fields cfdp_codes
      demo_store_valid demo_unknown_octets)

lemma receive_error_ends_only_its_transaction_witness:
  "fst (snd demo_error) = demo_busy \<and> snd (snd demo_error) = demo_world0 \<or>
    (\<exists>h k. ccsds_cfdp_decode_header demo_unknown = Inr (h, k) \<and>
       (if direction h = CCSDS_CFDP_DIRECTION_TOWARD_SENDER
        then sender_active_matches_header demo_busy h \<and> sender (fst (snd demo_error)) = cleared_slot \<and>
          tx_only demo_busy (fst (snd demo_error))
        else (receiver_active_matches_header demo_busy h \<or> \<not> active (receiver demo_busy)) \<and>
          receiver (fst (snd demo_error)) = cleared_slot \<and> rx_only demo_busy (fst (snd demo_error))))"
  by (rule receive_error_ends_only_its_transaction [OF demo_quiet, where filestore = "Some demo_store"
        and pdu = demo_unknown and e = demo_busy and w = demo_world0 and status = "fst demo_error"])
    (simp_all only: prod.collapse demo_error_def [symmetric], simp add: demo_error_status)

text \<open>An acknowledged sender that has sent its EOF and gets no answer.\<close>

definition demo_waiting :: "demo_world cfdp_entity" where
  "demo_waiting = demo_entity\<lparr>sender := cleared_slot\<lparr>active := True,
     slot_id := \<lparr>tid_source = 1, tid_number = 7\<rparr>, peer_entity_id := 2, slot_file_size := 5\<rparr>\<rparr>"

lemma demo_waiting_ok: "entity_ok (fst (demo_waiting, demo_world0))"
  using init_entity_ok [OF demo_init]
  by (simp add: demo_waiting_def entity_ok_def demo_fields sender_ok_def receiver_ok_def cleared_slot_def
      retries_bounded_def cfdp_codes cfdp_limits value_fits_len_def)

lemma polling_ends_waiting_transactions_witness:
  "sender (fst (polls demo_env [1000, 2000, 3000, 4000, 5000] (demo_waiting, demo_world0))) = cleared_slot"
proof -
  have "sender_waits (sender demo_waiting)" "late_polls (retry_deadline_ms (sender demo_waiting)) [1000, 2000, 3000, 4000, 5000]"
    "CCSDS_CFDP_MAX_NAK_ROUNDS < unat (retry_count (sender demo_waiting)) + length [1000, 2000, 3000, 4000, 5000 :: u64]"
    by (simp_all add: demo_waiting_def sender_waits_def cleared_slot_def cfdp_codes cfdp_limits word_le_nat_alt)
  then show ?thesis
    using polling_ends_waiting_transactions [OF demo_quiet demo_waiting_ok, of "[1000, 2000, 3000, 4000, 5000]"]
    unfolding fst_conv by blast
qed

end
