(* ===== verification/Cfdp_Transfer.thy ===== *)
theory Cfdp_Transfer
  imports Cfdp_Transactions
begin

text \<open>
  What a file transfer achieves: a receiver commits a file only when all of it arrived and its
  checksum is the sender's, and a transfer over a link that loses nothing delivers the file.

  The file stores are the application's. What the theorems need of them are the contracts below:
  one temporary file that reads, writes and commits act on, and a source file that reads return.
\<close>

section \<open>Checksums of a file read in order\<close>

definition file_checksum :: "crc_ops \<Rightarrow> u8 \<Rightarrow> octets \<Rightarrow> u32" where
  "file_checksum crc type file =
     (if type = CCSDS_CFDP_CHECKSUM_TYPE_NULL then 0
      else if type = CCSDS_CFDP_CHECKSUM_TYPE_MODULAR then word_sum file
      else file_crc crc type file)"

text \<open>The checksum state after the file's octets up to an offset.\<close>

definition fed :: "crc_ops \<Rightarrow> u8 \<Rightarrow> octets \<Rightarrow> u32 \<Rightarrow> cfdp_checksum_state \<Rightarrow> bool" where
  "fed crc type file off st \<longleftrightarrow>
     unat off \<le> length file \<and> checksum_type_is_supported type \<and> cks_type st = type \<and>
     (type = CCSDS_CFDP_CHECKSUM_TYPE_MODULAR \<longrightarrow>
        st = modular_state (modular_add 0 (take (unat off) file) 0)) \<and>
     (checksum_type_is_crc type \<longrightarrow> crc_state_ok crc type file st \<and> \<not> deferred st \<and> next_offset st = off)"

lemma supported_cases:
  "checksum_type_is_supported type \<longleftrightarrow>
     type = CCSDS_CFDP_CHECKSUM_TYPE_MODULAR \<or> checksum_type_is_crc type \<or> type = CCSDS_CFDP_CHECKSUM_TYPE_NULL"
  by (auto simp: checksum_type_is_supported_def checksum_type_is_crc_def)

lemma fed_init:
  assumes "ccsds_cfdp_checksum_init type = Inr st"
  shows "fed crc type file 0 st"
proof -
  have "checksum_type_is_supported type" using assms by (simp add: ccsds_cfdp_checksum_init_def split: if_splits)
  then show ?thesis
    using assms crc_init_ok [of type crc "file"]
    by (auto simp: fed_def ccsds_cfdp_checksum_init_def modular_state_def)
qed

lemma fed_update:
  assumes "crc_contract crc" "fed crc type file off st" "file_part file (off, data)" "length file < 2 ^ 32"
  shows "fst (ccsds_cfdp_checksum_update crc st off data) = CCSDS_CFDP_STATUS_OK \<and>
    fed crc type file (off + of_nat (length data)) (snd (ccsds_cfdp_checksum_update crc st off data))"
proof -
  have bound: "unat off + length data \<le> length file" and data: "data = take (length data) (drop (unat off) file)"
    using assms(3) by (simp_all add: file_part_def)
  then have adv: "unat (off + of_nat (length data)) = unat off + length data"
    using assms(4) by (simp add: unat_word_ariths unat_of_nat)
  consider (sum) "type = CCSDS_CFDP_CHECKSUM_TYPE_MODULAR" | (crc) "checksum_type_is_crc type"
    | (null) "type = CCSDS_CFDP_CHECKSUM_TYPE_NULL" using assms(2) by (auto simp: fed_def supported_cases)
  then show ?thesis
  proof cases
    case sum
    have no_crc: "\<not> checksum_type_is_crc type" by (simp add: sum checksum_type_is_crc_def cfdp_codes)
    have fits: "segment_fits (off, data)"
      using bound assms(4) by (simp add: segment_fits_def)
    have "take (unat off + length data) file = take (unat off) file @ data"
      using data by (metis take_add)
    then have "modular_add 0 (take (unat off + length data) file) 0 =
        modular_add 0 (take (unat off) file) 0 + segment_value (off, data)"
      using bound by (simp add: modular_add_append segment_value_def)
    then show ?thesis
      using assms(2) modular_update [OF fits, of crc "modular_add 0 (take (unat off) file) 0"] adv bound no_crc sum
      by (simp add: fed_def modular_state_def)
  next
    case crc
    have no_sum: "type \<noteq> CCSDS_CFDP_CHECKSUM_TYPE_MODULAR"
      using crc by (auto simp: checksum_type_is_crc_def cfdp_codes)
    have f: "crc_state_ok crc type file st" "\<not> deferred st" "next_offset st = off"
      using assms(2) crc by (simp_all add: fed_def)
    obtain st' where "ccsds_cfdp_checksum_update crc st off data = (CCSDS_CFDP_STATUS_OK, st')"
      "crc_state_ok crc type file st'" "\<not> deferred st'" "next_offset st' = off + of_nat (length data)"
      using crc_update_ok [OF assms(1) crc f(1) assms(3,4)] f(2,3) by metis
    then show ?thesis
      using adv bound no_sum crc by (auto simp: fed_def supported_cases crc_state_ok_def)
  next
    case null
    have "cks_type st = CCSDS_CFDP_CHECKSUM_TYPE_NULL" using assms(2) null by (simp add: fed_def)
    moreover have "update_range_is_valid off (length data)"
      using segment_update_valid [of off data] bound assms(4)
      by (cases data) (auto simp: update_range_is_valid_def segment_fits_def)
    ultimately show ?thesis
      using assms(2) adv bound null
      by (auto simp: fed_def ccsds_cfdp_checksum_update_def cfdp_codes checksum_type_is_crc_def)
  qed
qed

lemma fed_finish:
  assumes "fed crc type file (of_nat (length file)) st" "length file < 2 ^ 32"
  shows "ccsds_cfdp_checksum_finish st = Inr (file_checksum crc type file)"
proof -
  have n: "unat (of_nat (length file) :: u32) = length file" using assms(2) by (simp add: unat_of_nat)
  consider (sum) "type = CCSDS_CFDP_CHECKSUM_TYPE_MODULAR" | (crc) "checksum_type_is_crc type"
    | (null) "type = CCSDS_CFDP_CHECKSUM_TYPE_NULL" using assms(1) by (auto simp: fed_def supported_cases)
  then show ?thesis
  proof cases
    case sum
    then have "st = modular_state (word_sum file)"
      using assms(1) n by (simp add: fed_def modular_add_word_sum)
    then show ?thesis
      using sum by (simp add: file_checksum_def ccsds_cfdp_checksum_finish_def modular_state_def
          checksum_type_is_supported_def cfdp_codes)
  next
    case crc
    have "ccsds_cfdp_checksum_finish st = Inr (file_crc crc type file)"
      by (rule crc_finish_ok [OF crc]) (use assms crc in \<open>simp_all add: fed_def\<close>)
    then show ?thesis using crc by (auto simp: file_checksum_def checksum_type_is_crc_def cfdp_codes)
  next
    case null
    then show ?thesis
      using assms(1) by (simp add: fed_def file_checksum_def ccsds_cfdp_checksum_finish_def)
  qed
qed

section \<open>The contract of the receiving file store\<close>

text \<open>
  \<open>stored w\<close> is the content of the temporary file and \<open>committed w\<close> the list of committed files with
  their paths. A read returns octets of the temporary file; a successful commit publishes it; no other
  callback commits anything, and only opening and writing change the temporary file.
\<close>

definition store_contract ::
  "'w cfdp_env \<Rightarrow> 'w cfdp_filestore_ops \<Rightarrow> ('w \<Rightarrow> octets) \<Rightarrow> ('w \<Rightarrow> (octets \<times> octets) list) \<Rightarrow> bool" where
  "store_contract env fs stored committed \<longleftrightarrow>
     (\<forall>send dest pdu e w. send_pdu env = Some send \<longrightarrow>
        stored (snd (snd (send dest pdu (e, w)))) = stored w \<and>
        committed (snd (snd (send dest pdu (e, w)))) = committed w) \<and>
     (\<forall>cb event e w. event_cb env = Some cb \<longrightarrow>
        stored (snd (cb event (e, w))) = stored w \<and> committed (snd (cb event (e, w))) = committed w) \<and>
     (\<forall>now w. now_ms env = Some now \<longrightarrow>
        stored (snd (now w)) = stored w \<and> committed (snd (now w)) = committed w) \<and>
     (\<forall>f path w. open_write_tmp fs = Some f \<longrightarrow> committed (snd (snd (f path w))) = committed w) \<and>
     (\<forall>f h off n w rc data w'. fs_read fs = Some f \<and> f h off n w = (rc, data, w') \<longrightarrow>
        stored w' = stored w \<and> committed w' = committed w \<and>
        (rc = 0 \<longrightarrow> data = take (length data) (drop (unat off) (stored w)))) \<and>
     (\<forall>f h off data w. fs_write fs = Some f \<longrightarrow> committed (snd (f h off data w)) = committed w) \<and>
     (\<forall>f h w. fs_close fs = Some f \<longrightarrow>
        stored (snd (f h w)) = stored w \<and> committed (snd (f h w)) = committed w) \<and>
     (\<forall>f path w. commit_tmp fs = Some f \<longrightarrow>
        committed (snd (f path w)) = (if fst (f path w) = 0 then (path, stored w) # committed w else committed w)) \<and>
     (\<forall>f path w. discard_tmp fs = Some f \<longrightarrow> committed (snd (f path w)) = committed w)"

lemma store_send:
  assumes "store_contract env fs stored committed" "quiet env"
  shows "stored (snd (snd (send_encoded_pdu_to env dest pdu s))) = stored (snd s)"
    "committed (snd (snd (send_encoded_pdu_to env dest pdu s))) = committed (snd s)"
proof -
  obtain send where "send_pdu env = Some send" using assms(2) by (auto simp: quiet_def)
  then show "stored (snd (snd (send_encoded_pdu_to env dest pdu s))) = stored (snd s)"
    "committed (snd (snd (send_encoded_pdu_to env dest pdu s))) = committed (snd s)"
    using assms(1) unfolding store_contract_def
    by (cases s; simp add: send_encoded_pdu_to_def split_beta)+
qed

lemma store_emit:
  assumes "store_contract env fs stored committed"
  shows "stored (snd (emit_terminal_event env tid status s)) = stored (snd s)"
    "committed (snd (emit_terminal_event env tid status s)) = committed (snd s)"
  using assms unfolding store_contract_def
  by (cases s; auto simp: emit_terminal_event_def emit_event_def split: option.split)+

lemma store_now:
  assumes "store_contract env fs stored committed"
  shows "committed (snd (snd (entity_now_ms env s))) = committed (snd s)"
  using assms unfolding store_contract_def
  by (auto simp: entity_now_ms_def split_beta split: option.split)

lemma store_sends:
  assumes "store_contract env fs stored committed" "quiet env"
  shows "committed (snd (snd (send_ack_eof env code s))) = committed (snd s)"
    "committed (snd (snd (send_nak_for_missing_ranges env s))) = committed (snd s)"
    "committed (snd (snd (send_finished_for_receiver_status env status s))) = committed (snd s)"
    "stored (snd (snd (send_ack_eof env code s))) = stored (snd s)"
  using store_send [OF assms]
  by (simp_all add: send_ack_eof_def send_nak_for_missing_ranges_def send_finished_for_receiver_status_def
      split: sum.split)

lemma release_committed:
  assumes "store_contract env fs stored committed"
  shows "committed (snd (release_receiver_terminal env status s)) = committed (snd s)"
  using store_emit(2) [OF assms, of "slot_id (receiver (fst s))" status s]
  by (simp add: release_receiver_terminal_def ccsds_cfdp_entity_release_receiver_transaction_def split_beta)

lemma conclude_committed:
  assumes "store_contract env fs stored committed"
  shows "committed (snd (snd (receiver_conclude env status fin s))) = committed (snd s)"
  using store_now [OF assms] release_committed [OF assms]
  by (simp add: receiver_conclude_def split_beta)

lemma store_read:
  assumes "store_contract env fs stored committed" "fs_read fs \<noteq> None"
    "read_segment fs h off n s = (rc, nread, s')"
  shows "stored (snd s') = stored (snd s)" "committed (snd s') = committed (snd s)"
    "rc = 0 \<Longrightarrow> take nread (file_segment_buf (fst s')) = take nread (drop (unat off) (stored (snd s)))"
    "rc = 0 \<Longrightarrow> unat off + nread \<le> max (unat off) (length (stored (snd s)))"
proof -
  obtain f where f: "fs_read fs = Some f" using assms(2) by auto
  obtain r data w where r: "f h off n (snd s) = (r, data, w)" by (cases "f h off n (snd s)")
  have c: "stored w = stored (snd s)" "committed w = committed (snd s)"
    "r = 0 \<Longrightarrow> data = take (length data) (drop (unat off) (stored (snd s)))"
    using assms(1) f r unfolding store_contract_def by metis+
  have s': "rc = r" "nread = length data" "snd s' = w"
    "file_segment_buf (fst s') = data @ drop (length data) (file_segment_buf (fst s))"
    using assms(3) by (auto simp: read_segment_def f r)
  show "stored (snd s') = stored (snd s)" "committed (snd s') = committed (snd s)"
    using c s' by simp_all
  show "take nread (file_segment_buf (fst s')) = take nread (drop (unat off) (stored (snd s)))" if "rc = 0"
    using c(3) s' that by simp
  show "unat off + nread \<le> max (unat off) (length (stored (snd s)))" if "rc = 0"
  proof -
    have "length data = min (length data) (length (stored (snd s)) - unat off)"
      using arg_cong [OF c(3), of length] s' that by simp
    then show ?thesis using s' by simp
  qed
qed

section \<open>Verification of the complete file\<close>

lemma checksum_loop_verifies:
  assumes "store_contract env fs stored committed" "fs_read fs \<noteq> None" "crc_contract (env_crc env)"
  shows "fed (env_crc env) type (take (unat size') (stored (snd s))) offset st \<Longrightarrow> offset \<le> size' \<Longrightarrow>
    receiver_checksum_loop env fs handle size' offset st s = (r, s') \<Longrightarrow>
    stored (snd s') = stored (snd s) \<and> committed (snd s') = committed (snd s) \<and> r \<noteq> Inl CCSDS_CFDP_STATUS_OK \<and>
    (\<forall>sum. r = Inr sum \<longrightarrow> unat size' \<le> length (stored (snd s)) \<and>
       sum = file_checksum (env_crc env) type (take (unat size') (stored (snd s))))"
proof (induction "unat size' - unat offset" arbitrary: offset st s rule: less_induct)
  case less
  let ?all = "take (unat size') (stored (snd s))"
  have "unat size' < 2 ^ 32" using unsigned_less [of size'] by simp
  then have len: "length ?all < 2 ^ 32" by simp
  show ?case
  proof (cases "offset < size'")
    case False
    with less.prems(2) have o: "offset = size'" by simp
    then have "unat size' \<le> length (stored (snd s))" using less.prems(1) by (simp add: fed_def)
    then have "(of_nat (length ?all) :: u32) = offset" by (simp add: o min_def)
    then have "ccsds_cfdp_checksum_finish st = Inr (file_checksum (env_crc env) type ?all)"
      using fed_finish [of "env_crc env" type ?all st] less.prems(1) len by simp
    moreover have "r = ccsds_cfdp_checksum_finish st" "s' = s"
      using less.prems(3) False by (simp_all add: receiver_checksum_loop.simps)
    ultimately show ?thesis using \<open>unat size' \<le> length (stored (snd s))\<close> by simp
  next
    case True
    let ?req = "segment_request size' offset"
    obtain rc nread s1 where rd: "read_segment fs handle offset ?req s = (rc, nread, s1)"
      by (cases "read_segment fs handle offset ?req s")
    note read = store_read [OF assms(1,2) rd]
    show ?thesis
    proof (cases "rc \<noteq> 0 \<or> nread = 0 \<or> nread > ?req \<or> nread > unat (size' - offset)")
      case True
      then have "\<exists>st'. st' \<noteq> CCSDS_CFDP_STATUS_OK \<and> (r, s') = (Inl st', s1)"
        using less.prems(3) \<open>offset < size'\<close>
        by (subst (asm) receiver_checksum_loop.simps) (auto simp: rd split: if_splits)
      then show ?thesis using read by auto
    next
      case ok: False
      let ?data = "take nread (file_segment_buf (fst s1))"
      have adv: "unat (offset + of_nat nread) = unat offset + nread" "unat offset + nread \<le> unat size'"
        using offset_advance [OF True, of nread] ok by simp_all
      have "unat offset + nread \<le> length (stored (snd s))"
        using read(4) ok by (auto simp: max_def split: if_splits)
      then have sz: "unat offset + nread \<le> length ?all" using adv(2) by simp
      have rd3: "?data = take nread (drop (unat offset) (stored (snd s)))" using read(3) ok by blast
      have dl: "length ?data = nread" unfolding rd3 using sz by (simp, linarith)
      have "?data = take nread (drop (unat offset) ?all)"
      proof -
        have "min nread (unat size' - unat offset) = nread" using adv(2) by linarith
        then show ?thesis unfolding rd3 by (simp add: drop_take)
      qed
      then have part: "file_part ?all (offset, ?data)" "length ?data = nread"
        using sz dl by (simp_all only: file_part_def fst_conv snd_conv simp_thms)
      obtain st1 where u: "ccsds_cfdp_checksum_update (env_crc env) st offset ?data = (CCSDS_CFDP_STATUS_OK, st1)"
        "fed (env_crc env) type ?all (offset + of_nat nread) st1"
        using fed_update [OF assms(3) less.prems(1) part(1) len] part(2)
        by (cases "ccsds_cfdp_checksum_update (env_crc env) st offset ?data") auto
      have loop: "receiver_checksum_loop env fs handle size' (offset + of_nat nread) st1 s1 = (r, s')"
        using less.prems(3) True ok u(1)
        by (subst (asm) receiver_checksum_loop.simps) (simp add: rd)
      have "unat size' - unat (offset + of_nat nread) < unat size' - unat offset"
        using adv ok by linarith
      moreover have "offset + of_nat nread \<le> size'" using adv by (simp add: word_le_nat_alt)
      ultimately show ?thesis
        using less.hyps [of "offset + of_nat nread" s1 st1] u(2) loop read(1,2) by simp
    qed
  qed
qed

lemma verify_spec:
  assumes "store_contract env fs stored committed" "fs_read fs \<noteq> None" "crc_contract (env_crc env)"
    "receiver_verify_complete_file env fs expected s = (status, s')"
  shows "stored (snd s') = stored (snd s)" "committed (snd s') = committed (snd s)"
    "status = CCSDS_CFDP_STATUS_OK \<Longrightarrow>
       unat (slot_file_size (receiver (fst s))) \<le> length (stored (snd s)) \<and>
       expected = file_checksum (env_crc env) (slot_checksum_type (receiver (fst s)))
         (take (unat (slot_file_size (receiver (fst s)))) (stored (snd s)))"
proof -
  let ?t = "receiver (fst s)"
  obtain r s1 where c: "receiver_compute_checksum env fs s = (r, s1)" by (cases "receiver_compute_checksum env fs s")
  have s1: "stored (snd s1) = stored (snd s) \<and> committed (snd s1) = committed (snd s) \<and>
      r \<noteq> Inl CCSDS_CFDP_STATUS_OK \<and>
      (\<forall>sum. r = Inr sum \<longrightarrow> unat (slot_file_size ?t) \<le> length (stored (snd s)) \<and>
         sum = file_checksum (env_crc env) (slot_checksum_type ?t) (take (unat (slot_file_size ?t)) (stored (snd s))))"
  proof (cases "ccsds_cfdp_checksum_init (slot_checksum_type ?t)")
    case (Inl st)
    then show ?thesis using c
      by (auto simp: receiver_compute_checksum_def ccsds_cfdp_checksum_init_def split: if_splits)
  next
    case (Inr st)
    then show ?thesis
      using checksum_loop_verifies [OF assms(1-3) fed_init [OF Inr]] c
      by (simp add: receiver_compute_checksum_def)
  qed
  have "s' = s1" "status = CCSDS_CFDP_STATUS_OK \<Longrightarrow> r = Inr expected"
    using assms(4) s1 by (auto simp: receiver_verify_complete_file_def c split: sum.splits if_splits)
  then show "stored (snd s') = stored (snd s)" "committed (snd s') = committed (snd s)"
    "status = CCSDS_CFDP_STATUS_OK \<Longrightarrow>
       unat (slot_file_size (receiver (fst s))) \<le> length (stored (snd s)) \<and>
       expected = file_checksum (env_crc env) (slot_checksum_type (receiver (fst s)))
         (take (unat (slot_file_size (receiver (fst s)))) (stored (snd s)))"
    using s1 by simp_all
qed

section \<open>What is committed\<close>

lemma finish_committed:
  assumes "quiet env" "store_contract env fs stored committed" "receive_filestore_is_valid (Some fs)"
  shows "committed (snd (snd (receiver_finish env fs status s))) = committed (snd s) \<or>
    status = CCSDS_CFDP_STATUS_OK \<and> committed (snd (snd (receiver_finish env fs status s))) =
      (c_string (destination_path (receiver (fst s))), stored (snd s)) # committed (snd s)"
proof -
  obtain close commit discard where f: "fs_close fs = Some close" "commit_tmp fs = Some commit"
    "discard_tmp fs = Some discard"
    using assms(3) by (auto simp: receive_filestore_is_valid_def)
  obtain st1 s1 where c: "receiver_close_file fs status s = (st1, s1)" by (cases "receiver_close_file fs status s")
  obtain st2 s2 where d: "receiver_settle_file fs st1 s1 = (st2, s2)" by (cases "receiver_settle_file fs st1 s1")
  have "stored (snd (close h w)) = stored w \<and> committed (snd (close h w)) = committed w" for h w
    using assms(2) f(1) unfolding store_contract_def by blast
  then have s1: "stored (snd s1) = stored (snd s)" "committed (snd s1) = committed (snd s)"
    "destination_path (receiver (fst s1)) = destination_path (receiver (fst s))"
    "st1 = CCSDS_CFDP_STATUS_OK \<Longrightarrow> status = CCSDS_CFDP_STATUS_OK"
    using c by (auto simp: receiver_close_file_def f split_beta split: if_splits)
  have cd: "committed (snd (commit p w)) = (if fst (commit p w) = 0 then (p, stored w) # committed w else committed w)"
    "committed (snd (discard p w)) = committed w" for p w
    using assms(2) f(2,3) unfolding store_contract_def by blast+
  have s2: "committed (snd s2) = committed (snd s) \<or> status = CCSDS_CFDP_STATUS_OK \<and>
      committed (snd s2) = (c_string (destination_path (receiver (fst s))), stored (snd s)) # committed (snd s)"
    using d s1 cd [of "c_string (destination_path (receiver (fst s)))" "snd s1"]
    by (auto simp: receiver_settle_file_def f split_beta split: if_splits)
  have "committed (snd (snd (receiver_finish env fs status s))) = committed (snd s2)"
    using conclude_committed [OF assms(2)] store_sends(3) [OF assms(2,1)]
    by (simp add: receiver_finish_def c d split_beta)
  then show ?thesis using s2 by simp
qed

lemma finish_filestore:
  assumes "quiet env" "active (receiver (fst s))" "active (receiver (fst (snd (receiver_finish env fs status s))))"
  shows "slot_filestore (receiver (fst (snd (receiver_finish env fs status s)))) = slot_filestore (receiver (fst s))"
  using finish_entity [OF assms(1,2), of fs status] assms(3)
  by (auto simp: waiting_slot_def arm_retry_def)

text \<open>
  The outcome of a handler: nothing is committed, or the temporary file is, after its first \<open>size\<close>
  octets were found to have the expected checksum.
\<close>

definition commits_verified ::
  "'w cfdp_env \<Rightarrow> ('w \<Rightarrow> octets) \<Rightarrow> ('w \<Rightarrow> (octets \<times> octets) list) \<Rightarrow> 'w cfdp_transaction_slot \<Rightarrow> u32
     \<Rightarrow> 'w \<Rightarrow> 'w \<Rightarrow> bool" where
  "commits_verified env stored committed t expected w w' \<longleftrightarrow>
     committed w' = (c_string (destination_path t), stored w) # committed w \<and>
     unat (slot_file_size t) \<le> length (stored w) \<and>
     expected = file_checksum (env_crc env) (slot_checksum_type t) (take (unat (slot_file_size t)) (stored w))"

lemma verified_finish_committed:
  assumes "quiet env" "store_contract env fs stored committed" "receive_filestore_is_valid (Some fs)"
    "crc_contract (env_crc env)" "receiver_verify_complete_file env fs expected s = (status, s1)"
  shows "committed (snd (snd (receiver_finish env fs status s1))) = committed (snd s) \<or>
    commits_verified env stored committed (receiver (fst s)) expected (snd s) (snd (snd (receiver_finish env fs status s1)))"
proof -
  have rd: "fs_read fs \<noteq> None" using assms(3) by (simp add: receive_filestore_is_valid_def)
  note v = verify_spec [OF assms(2) rd assms(4,5)]
  have "receiver (fst s1) = receiver (fst s)"
    using core_eqD(7) [OF verify_core [of env fs expected s]] assms(5) by simp
  then show ?thesis
    using finish_committed [OF assms(1-3), of status s1] v by (auto simp: commits_verified_def)
qed

lemma complete_covered:
  assumes "transfer_ok t" "ccsds_cfdp_ranges_is_complete (received_ranges t) 0 (slot_file_size t) = Inr True"
  shows "covered (received_ranges t) = {0 ..< slot_file_size t}"
proof -
  have inv: "ranges_inv (received_ranges t)" "covered (received_ranges t) \<subseteq> {0 ..< slot_file_size t}"
    using assms(1) by (simp_all add: transfer_ok_def)
  have "(0 :: u32) < slot_file_size t"
    using assms(2) by (auto simp: ccsds_cfdp_ranges_is_complete_def range_is_valid_def split: if_splits)
  from received.complete_iff [OF inv(1) this] have "{0 ..< slot_file_size t} \<subseteq> covered (received_ranges t)"
    using assms(2) by simp
  then show ?thesis using inv(2) by blast
qed

lemma verify_same_receiver:
  "receiver_verify_complete_file env fs expected s = (status, s1) \<Longrightarrow> receiver (fst s1) = receiver (fst s)"
  using core_eqD(7) [OF verify_core [of env fs expected s]] by simp

lemma filedata_completes_commits:
  assumes "quiet env" "store_contract env fs stored committed" "receive_filestore_is_valid (Some fs)"
    "crc_contract (env_crc env)" "active (receiver (fst s))" "transfer_ok (receiver (fst s))"
    "filedata_completes env fs s = (status, s')"
  shows "(committed (snd s') = committed (snd s) \<or>
      eof_received (receiver (fst s)) \<and> covered (received_ranges (receiver (fst s))) = {0 ..< slot_file_size (receiver (fst s))} \<and>
      commits_verified env stored committed (receiver (fst s)) (eof_checksum (receiver (fst s))) (snd s) (snd s')) \<and>
    (active (receiver (fst s')) \<longrightarrow> slot_filestore (receiver (fst s')) = slot_filestore (receiver (fst s)))"
proof -
  let ?t = "receiver (fst s)"
  consider (idle) "s' = s"
    | (invalid) st where "receiver_finish env fs st s = (status, s')" "st \<noteq> CCSDS_CFDP_STATUS_OK"
    | (complete) st s1 where "eof_received ?t" "ccsds_cfdp_ranges_is_complete (received_ranges ?t) 0 (slot_file_size ?t) = Inr True"
        "receiver_verify_complete_file env fs (eof_checksum ?t) s = (st, s1)" "receiver_finish env fs st s1 = (status, s')"
    using assms(7)
    by (cases "receiver_verify_complete_file env fs (eof_checksum ?t) s")
      (fastforce simp: filedata_completes_def Let_def ccsds_cfdp_ranges_is_complete_def split: if_splits)
  then show ?thesis
  proof cases
    case idle
    then show ?thesis by simp
  next
    case invalid
    then show ?thesis
      using finish_committed [OF assms(1-3), of st s] finish_filestore [OF assms(1,5), of fs st]
      by (metis snd_conv)
  next
    case complete
    note r1 = verify_same_receiver [OF complete(3)]
    have a1: "active (receiver (fst s1))" using assms(5) r1 by simp
    have s': "s' = snd (receiver_finish env fs st s1)" using complete(4) by (metis snd_conv)
    show ?thesis
      using verified_finish_committed [OF assms(1-4) complete(3)] complete(1)
        complete_covered [OF assms(6) complete(2)] finish_filestore [OF assms(1) a1, of fs st]
      by (simp add: s' r1)
  qed
qed

lemma eof_completes_commits:
  assumes "quiet env" "store_contract env fs stored committed" "receive_filestore_is_valid (Some fs)"
    "crc_contract (env_crc env)" "active (receiver (fst s))" "transfer_ok (receiver (fst s))"
    "eof_file_size eof = slot_file_size (receiver (fst s))" "eof_completes env fs eof s = (status, s')"
  shows "(committed (snd s') = committed (snd s) \<or>
      covered (received_ranges (receiver (fst s))) = {0 ..< slot_file_size (receiver (fst s))} \<and>
      commits_verified env stored committed (receiver (fst s)) (eof_file_checksum eof) (snd s) (snd s')) \<and>
    (active (receiver (fst s')) \<longrightarrow> slot_filestore (receiver (fst s')) = slot_filestore (receiver (fst s)))"
proof -
  let ?t = "receiver (fst s)"
  let ?f = "\<lambda>t. t\<lparr>eof_received := True, eof_checksum := eof_file_checksum eof\<rparr>"
  let ?s = "(upd_receiver ?f (fst s), snd s)"
  obtain st1 s1 where n: "send_nak_for_missing_ranges env ?s = (st1, s1)"
    by (cases "send_nak_for_missing_ranges env ?s")
  have e1: "fst s1 = upd_receiver ?f (fst s)" using quiet_sends(7) [OF assms(1), of ?s] by (simp add: n)
  have w1: "committed (snd s1) = committed (snd s)" using store_sends(2) [OF assms(2,1), of ?s] by (simp add: n)
  obtain now e2 w2 where t: "entity_now_ms env (upd_receiver (\<lambda>t. t\<lparr>recovery_pending := True, retry_count := 0\<rparr>)
      (fst s1), snd s1) = (now, (e2, w2))"
    by (cases "entity_now_ms env (upd_receiver (\<lambda>t. t\<lparr>recovery_pending := True, retry_count := 0\<rparr>) (fst s1), snd s1)") auto
  have e2: "e2 = upd_receiver (\<lambda>t. ?f t\<lparr>recovery_pending := True, retry_count := 0\<rparr>) (fst s)"
    using now_keeps [of env "(upd_receiver (\<lambda>t. t\<lparr>recovery_pending := True, retry_count := 0\<rparr>) (fst s1), snd s1)"]
    unfolding t by (simp add: e1)
  have w2: "committed w2 = committed (snd s)"
    using store_now [OF assms(2), of "(upd_receiver (\<lambda>t. t\<lparr>recovery_pending := True, retry_count := 0\<rparr>) (fst s1), snd s1)"]
    unfolding t by (simp add: w1)
  obtain st3 s3 where v: "receiver_verify_complete_file env fs (eof_file_checksum eof) s = (st3, s3)"
    by (cases "receiver_verify_complete_file env fs (eof_file_checksum eof) s")
  consider (failed) st where "receiver_finish env fs st s = (status, s')" "st \<noteq> CCSDS_CFDP_STATUS_OK"
    | (nak) "receiver_finish env fs st1 s1 = (status, s')" "st1 \<noteq> CCSDS_CFDP_STATUS_OK"
    | (wait) "s' = (upd_receiver (arm_retry now) e2, w2)"
    | (complete) "ccsds_cfdp_ranges_is_complete (received_ranges ?t) 0 (slot_file_size ?t) = Inr True"
        "receiver_finish env fs st3 s3 = (status, s')"
    using assms(7,8) n t v
    by (fastforce simp: eof_completes_def ccsds_cfdp_ranges_is_complete_def split: if_splits)
  then show ?thesis
  proof cases
    case failed
    then show ?thesis
      using finish_committed [OF assms(1-3), of st s] finish_filestore [OF assms(1,5), of fs st] by simp
  next
    case nak
    have a1: "active (receiver (fst s1))" using assms(5) by (simp add: e1)
    show ?thesis
      using nak w1 finish_committed [OF assms(1-3), of st1 s1] finish_filestore [OF assms(1) a1, of fs st1]
      by (simp add: e1)
  next
    case wait
    then show ?thesis by (simp add: e2 w2 arm_retry_def)
  next
    case complete
    note r3 = verify_same_receiver [OF v]
    have a3: "active (receiver (fst s3))" using assms(5) r3 by simp
    show ?thesis
      using verified_finish_committed [OF assms(1-4) v] complete_covered [OF assms(6) complete(1)]
        finish_filestore [OF assms(1) a3, of fs st3] complete(2)
      by (simp add: r3)
  qed
qed

text \<open>What a received PDU says of the file: the checksum of its EOF and the offsets received with it.\<close>

definition verified_by_eof :: "octets \<Rightarrow> 'w cfdp_transaction_slot \<Rightarrow> u32 \<Rightarrow> bool" where
  "verified_by_eof pdu t cks \<longleftrightarrow>
     (\<exists>eof n. ccsds_cfdp_decode_eof pdu = Inr (eof, n) \<and> eof_file_checksum eof = cks \<and>
        eof_condition_code eof = CCSDS_CFDP_CONDITION_NO_ERROR \<and> eof_file_size eof = slot_file_size t \<and>
        covered (received_ranges t) = {0 ..< slot_file_size t})"

definition verified_by_filedata :: "octets \<Rightarrow> 'w cfdp_transaction_slot \<Rightarrow> u32 \<Rightarrow> bool" where
  "verified_by_filedata pdu t cks \<longleftrightarrow>
     (\<exists>fd n. ccsds_cfdp_decode_filedata pdu = Inr (fd, n) \<and> eof_received t \<and> eof_checksum t = cks \<and>
        covered (received_ranges t) \<union> {fd_offset fd ..< fd_offset fd + of_nat (length (fd_data fd))} =
          {0 ..< slot_file_size t})"

definition commit_outcome ::
  "'w cfdp_env \<Rightarrow> ('w \<Rightarrow> octets) \<Rightarrow> ('w \<Rightarrow> (octets \<times> octets) list) \<Rightarrow> (u32 \<Rightarrow> bool) \<Rightarrow> 'w cfdp_transaction_slot
     \<Rightarrow> 'w \<Rightarrow> 'w cfdp_state \<Rightarrow> bool" where
  "commit_outcome env stored committed verified t w s' \<longleftrightarrow>
     (committed (snd s') = committed w \<or>
        (\<exists>sum w1. verified sum \<and> committed w1 = committed w \<and>
           commits_verified env stored committed t sum w1 (snd s'))) \<and>
     (active (receiver (fst s')) \<longrightarrow> slot_filestore (receiver (fst s')) = slot_filestore t)"

lemma handle_filedata_commits:
  assumes "quiet env" "store_contract env fs stored committed" "receive_filestore_is_valid (Some fs)"
    "crc_contract (env_crc env)" "receiver_ok (fst s) (receiver (fst s))"
    "receiver_handle_filedata env fs pdu s = (status, s')"
  shows "commit_outcome env stored committed (verified_by_filedata pdu (receiver (fst s))) (receiver (fst s)) (snd s) s'"
proof (cases "ccsds_cfdp_decode_filedata pdu")
  case (Inl st)
  then show ?thesis using assms(6) by (simp add: receiver_handle_filedata_def commit_outcome_def)
next
  case (Inr p)
  obtain fd consumed where "p = (fd, consumed)" by (cases p)
  with Inr have d: "ccsds_cfdp_decode_filedata pdu = Inr (fd, consumed)" by simp
  let ?t = "receiver (fst s)" and ?last = "fd_offset fd + of_nat (length (fd_data fd)) :: u32"
  show ?thesis
  proof (cases "consumed = length pdu \<and> incoming_header_is_supported (fst s) (fd_header fd) \<and>
      receiver_match_active (fst s) (fd_header fd) = CCSDS_CFDP_STATUS_OK \<and>
      \<not> (length (fd_data fd) > UINT32_MAX \<or> fd_offset fd > of_nat UINT32_MAX - of_nat (length (fd_data fd))) \<and>
      ?last \<le> slot_file_size ?t")
    case False
    then have "s' = s" using assms(6) by (auto simp: receiver_handle_filedata_def d Let_def split: if_splits)
    then show ?thesis by (simp add: commit_outcome_def)
  next
    case ok: True
    then have act: "active ?t" and md: "metadata_received ?t"
      by (simp_all add: match_active receiver_active_matches_header_def)
    then have tok: "transfer_ok ?t" using assms(5) by (auto simp: receiver_ok_def)
    obtain f where f: "fs_write fs = Some f" using assms(3) by (auto simp: receive_filestore_is_valid_def)
    obtain rc w where w: "f (file_handle ?t) (fd_offset fd) (fd_data fd) (snd s) = (rc, w)" by fastforce
    have cw: "committed w = committed (snd s)"
      using assms(2) f w unfolding store_contract_def by (metis snd_conv)
    obtain st1 rs where r: "ccsds_cfdp_ranges_add (received_ranges ?t) (fd_offset fd) ?last = (st1, rs)" by fastforce
    obtain st2 cs where c: "ccsds_cfdp_checksum_update (env_crc env) (checksum_state ?t) (fd_offset fd) (fd_data fd) =
        (st2, cs)" by fastforce
    let ?g = "\<lambda>t. t\<lparr>received_ranges := rs, checksum_state := cs\<rparr>"
    let ?s = "(upd_receiver ?g (fst s), w)"
    show ?thesis
    proof (cases "rc = 0 \<and> st1 = CCSDS_CFDP_STATUS_OK \<and> st2 = CCSDS_CFDP_STATUS_OK")
      case False
      then have "committed (snd s') = committed (snd s)" "slot_filestore (receiver (fst s')) = slot_filestore ?t"
        using assms(6) ok cw
        by (auto simp: receiver_handle_filedata_def d Let_def f w r c split: if_splits)
      then show ?thesis by (simp add: commit_outcome_def)
    next
      case True
      have "\<not> slot_file_size ?t < ?last" using ok by (simp add: not_less)
      then have com: "filedata_completes env fs ?s = (status, s')"
        using assms(6) ok True by (simp add: receiver_handle_filedata_def d Let_def f w r c)
      have ok1: "transfer_ok (?t\<lparr>received_ranges := rs\<rparr>)" using add_ranges_ok [OF tok _ r] ok by simp
      have ok2: "transfer_ok (?g ?t)"
        using update_checksum_ok [OF ok1, of "env_crc env" "fd_offset fd" "fd_data fd"] c by simp
      have "covered rs = covered (received_ranges ?t) \<union> {fd_offset fd ..< ?last}"
        using received.add_accepts [of "received_ranges ?t" "fd_offset fd" ?last rs] r True tok
        by (simp add: transfer_ok_def)
      then show ?thesis
        using filedata_completes_commits [OF assms(1-4) _ _ com] act ok2 cw
        by (auto simp: commit_outcome_def verified_by_filedata_def d commits_verified_def)
    qed
  qed
qed

lemma handle_eof_commits:
  assumes "quiet env" "store_contract env fs stored committed" "receive_filestore_is_valid (Some fs)"
    "crc_contract (env_crc env)" "receiver_ok (fst s) (receiver (fst s))"
    "receiver_handle_eof env fs pdu s = (status, s')"
  shows "commit_outcome env stored committed (verified_by_eof pdu (receiver (fst s))) (receiver (fst s)) (snd s) s'"
proof (cases "ccsds_cfdp_decode_eof pdu")
  case (Inl st)
  then show ?thesis using assms(6) by (simp add: receiver_handle_eof_def commit_outcome_def)
next
  case (Inr p)
  obtain eof consumed where "p = (eof, consumed)" by (cases p)
  with Inr have d: "ccsds_cfdp_decode_eof pdu = Inr (eof, consumed)" by simp
  let ?t = "receiver (fst s)" and ?f = "\<lambda>t. t\<lparr>eof_checksum := eof_file_checksum eof\<rparr>"
  let ?s = "(upd_receiver ?f (fst s), snd s)"
  show ?thesis
  proof (cases "consumed = length pdu \<and> incoming_header_is_supported (fst s) (eof_header eof) \<and>
      receiver_match_active (fst s) (eof_header eof) = CCSDS_CFDP_STATUS_OK")
    case False
    then have "s' = s" using assms(6) by (auto simp: receiver_handle_eof_def d split: if_splits)
    then show ?thesis by (simp add: commit_outcome_def)
  next
    case ok: True
    then have act: "active ?t" and md: "metadata_received ?t"
      by (simp_all add: match_active receiver_active_matches_header_def)
    then have tok: "transfer_ok (?f ?t)" using assms(5) eof_seen_ok(2) by (auto simp: receiver_ok_def)
    obtain st1 s1 where a: "send_ack_eof env (eof_condition_code eof) ?s = (st1, s1)"
      by (cases "send_ack_eof env (eof_condition_code eof) ?s")
    then have a': "eof_condition_code eof = CCSDS_CFDP_CONDITION_NO_ERROR \<Longrightarrow>
        send_ack_eof env CCSDS_CFDP_CONDITION_NO_ERROR ?s = (st1, s1)" by simp
    have e1: "fst s1 = upd_receiver ?f (fst s)"
      using quiet_sends(5) [OF assms(1), of "eof_condition_code eof" ?s] by (simp add: a)
    have w1: "committed (snd s1) = committed (snd s)"
      using store_sends(1) [OF assms(2,1), of "eof_condition_code eof" ?s] by (simp add: a)
    have r: "fst s2 = upd_receiver ?f (fst s)" "committed (snd s2) = committed (snd s)" if "s2 = ?s \<or> s2 = s1" for s2
      using that e1 w1 by auto
    consider (resend) "s' = snd (send_finished_for_receiver_status env (finished_status ?t) s)"
      | (reject) s2 where "s2 = ?s \<or> s2 = s1"
          "receiver_finish env fs CCSDS_CFDP_STATUS_FILE_SIZE_ERROR s2 = (status, s')"
      | (acked) "s' = s1"
      | (agree) s2 where "s2 = ?s \<or> s2 = s1" "eof_condition_code eof = CCSDS_CFDP_CONDITION_NO_ERROR"
          "eof_file_size eof = slot_file_size ?t" "eof_completes env fs eof s2 = (status, s')"
    proof (cases "waiting_for_finished_ack ?t")
      case True
      then show ?thesis using that(1) assms(6) ok by (simp add: receiver_handle_eof_def d Let_def)
    next
      case False
      define acknowledged where "acknowledged = (slot_mode ?t = CCSDS_CFDP_TRANSMISSION_MODE_ACKNOWLEDGED)"
      have h: "(status, s') =
          (if eof_condition_code eof \<noteq> CCSDS_CFDP_CONDITION_NO_ERROR \<or> eof_file_size eof \<noteq> slot_file_size ?t
           then receiver_finish env fs CCSDS_CFDP_STATUS_FILE_SIZE_ERROR (if acknowledged then s1 else ?s)
           else if acknowledged then (if st1 \<noteq> CCSDS_CFDP_STATUS_OK then (st1, s1) else eof_completes env fs eof s1)
           else eof_completes env fs eof ?s)"
        using assms(6) ok False unfolding receiver_handle_eof_def d acknowledged_def
        by (simp add: Let_def a a' cong: if_cong split del: if_split)
      show ?thesis
      proof (cases "eof_condition_code eof \<noteq> CCSDS_CFDP_CONDITION_NO_ERROR \<or> eof_file_size eof \<noteq> slot_file_size ?t")
        case True
        then show ?thesis using h that(2) [of "if acknowledged then s1 else ?s"] by simp
      next
        case False
        then have "acknowledged \<and> s' = s1 \<or>
            (status, s') = eof_completes env fs eof (if acknowledged then s1 else ?s)"
          using h by (cases acknowledged) (auto split: if_splits)
        then show ?thesis
          using False that(3) that(4) [of "if acknowledged then s1 else ?s"] by (simp split: if_splits) metis
      qed
    qed
    then show ?thesis
    proof cases
      case resend
      then show ?thesis
        using store_sends(3) [OF assms(2,1), of "finished_status ?t" s]
          quiet_sends(8) [OF assms(1), of "finished_status ?t" s]
        by (simp add: commit_outcome_def)
    next
      case reject
      have "active (receiver (fst s2))" using r(1) [OF reject(1)] act by simp
      then show ?thesis
        using finish_committed [OF assms(1-3), of CCSDS_CFDP_STATUS_FILE_SIZE_ERROR s2]
          finish_filestore [OF assms(1), of s2 fs CCSDS_CFDP_STATUS_FILE_SIZE_ERROR] r [OF reject(1)] reject(2)
        by (simp add: commit_outcome_def)
    next
      case acked
      then show ?thesis by (simp add: commit_outcome_def e1 w1)
    next
      case agree
      have e2: "fst s2 = upd_receiver ?f (fst s)" and w2: "committed (snd s2) = committed (snd s)"
        using r [OF agree(1)] by simp_all
      have "active (receiver (fst s2))" "transfer_ok (receiver (fst s2))"
        "eof_file_size eof = slot_file_size (receiver (fst s2))" using act tok agree(3) by (simp_all add: e2)
      from eof_completes_commits [OF assms(1-4) this agree(4)] show ?thesis
        using agree(2,3) w2 by (auto simp: commit_outcome_def verified_by_eof_def d e2 commits_verified_def)
    qed
  qed
qed

lemma close_discard_committed:
  assumes "store_contract env fs stored committed" "slot_filestore (receiver (fst s)) \<in> {None, Some fs}"
  shows "committed (snd (close_discard_receiver s)) = committed (snd s)"
proof -
  have c: "fs_close fs = Some close \<Longrightarrow> committed (snd (close h w)) = committed w"
    "discard_tmp fs = Some discard \<Longrightarrow> committed (snd (discard p w)) = committed w" for close discard h p w
    using assms(1) unfolding store_contract_def by blast+
  show ?thesis
    using assms(2) by (cases s) (auto simp: close_discard_receiver_def Let_def c split: option.split)
qed

lemma fail_committed:
  assumes "store_contract env fs stored committed" "slot_filestore (receiver (fst s)) \<in> {None, Some fs}"
  shows "committed (snd (fail_receiver_active_transaction env status s)) = committed (snd s)"
  using close_discard_committed [OF assms] release_committed [OF assms(1)]
  by (simp add: fail_receiver_active_transaction_def)

lemma metadata_committed:
  assumes "store_contract env fs stored committed" "receive_filestore_is_valid (Some fs)"
    "receiver_handle_metadata env (Some fs) pdu s = (status, s')"
  shows "committed (snd s') = committed (snd s) \<and>
    (s' = s \<or> active (receiver (fst s')) \<longrightarrow> slot_filestore (receiver (fst s')) = Some fs \<or>
       slot_filestore (receiver (fst s')) = slot_filestore (receiver (fst s)))"
proof -
  obtain f where f: "open_write_tmp fs = Some f" using assms(2) by (auto simp: receive_filestore_is_valid_def)
  have o: "f p w = (rc, h, w') \<Longrightarrow> committed w' = committed w" for p w rc h w'
    using assms(1) f unfolding store_contract_def by (metis snd_conv)
  have em: "committed (snd (emit_terminal_event env tid st (e, w))) = committed w" for tid st e w
    using store_emit(2) [OF assms(1), of tid st "(e, w)"] by simp
  show ?thesis
    using assms(3)
    by (auto simp: receiver_handle_metadata_def f Let_def metadata_slot_def split: sum.splits if_splits prod.splits
        dest!: o dest: arg_cong [where f = "\<lambda>x. committed (snd x)"] simp: em)
qed

lemma handle_ack_committed:
  assumes "store_contract env fs stored committed" "quiet env" "receiver_handle_ack env pdu s = (status, s')"
  shows "commit_outcome env stored committed verified (receiver (fst s)) (snd s) s'"
  using assms(3) release_committed [OF assms(1), of "finished_status (receiver (fst s))" s] assms(2)
  by (cases s) (auto simp: receiver_handle_ack_def commit_outcome_def split: sum.splits if_splits)

lemma dispatch_commits:
  assumes "quiet env" "store_contract env fs stored committed" "receive_filestore_is_valid (Some fs)"
    "crc_contract (env_crc env)" "receiver_ok (fst s) (receiver (fst s))"
    "slot_filestore (receiver (fst s)) \<in> {None, Some fs}"
    "receive_toward_receiver env (Some fs) h k pdu s = (status, s')"
  shows "committed (snd s') = committed (snd s) \<or>
    (\<exists>sum w1. (verified_by_eof pdu (receiver (fst s)) sum \<or> verified_by_filedata pdu (receiver (fst s)) sum) \<and>
       committed w1 = committed (snd s) \<and>
       commits_verified env stored committed (receiver (fst s)) sum w1 (snd s'))"
proof -
  let ?t = "receiver (fst s)"
  let ?verified = "\<lambda>sum. verified_by_eof pdu ?t sum \<or> verified_by_filedata pdu ?t sum"
  let ?r = "if pdu_type h = CCSDS_CFDP_PDU_TYPE_FILE_DATA then receiver_handle_filedata env fs pdu s
      else if pdu ! k = CCSDS_CFDP_DIRECTIVE_METADATA then receiver_handle_metadata env (Some fs) pdu s
      else if pdu ! k = CCSDS_CFDP_DIRECTIVE_EOF then receiver_handle_eof env fs pdu s
      else if pdu ! k = CCSDS_CFDP_DIRECTIVE_ACK then receiver_handle_ack env pdu s
      else (CCSDS_CFDP_STATUS_UNSUPPORTED, s)"
  let ?out = "\<lambda>s1. (committed (snd s1) = committed (snd s) \<or>
      (\<exists>sum w1. ?verified sum \<and> committed w1 = committed (snd s) \<and> commits_verified env stored committed ?t sum w1 (snd s1))) \<and>
      (active (receiver (fst s1)) \<longrightarrow> slot_filestore (receiver (fst s1)) \<in> {None, Some fs})"
  obtain st s1 where r: "?r = (st, s1)" by (cases ?r)
  have lift: "?out s1" if "commit_outcome env stored committed verified ?t (snd s) s1" "\<And>sum. verified sum \<Longrightarrow> ?verified sum"
    for verified s1
    using that assms(6) unfolding commit_outcome_def by metis
  have "?out s1"
  proof -
    consider "receiver_handle_filedata env fs pdu s = (st, s1)" | "receiver_handle_metadata env (Some fs) pdu s = (st, s1)"
      | "receiver_handle_eof env fs pdu s = (st, s1)" | "receiver_handle_ack env pdu s = (st, s1)" | "s1 = s"
      using r by (auto split: if_splits)
    then show ?thesis
    proof cases
      case 1 show ?thesis by (rule lift [OF handle_filedata_commits [OF assms(1-5) 1]]) simp
    next
      case 2 then show ?thesis using metadata_committed [OF assms(2,3) 2] assms(6) by auto
    next
      case 3 show ?thesis by (rule lift [OF handle_eof_commits [OF assms(1-5) 3]]) simp
    next
      case 4 show ?thesis
        by (rule lift [OF handle_ack_committed [OF assms(2,1) 4, where verified = "\<lambda>_. False"]]) simp
    next
      case 5 then show ?thesis using assms(6) by simp
    qed
  qed
  then have o: "committed (snd s1) = committed (snd s) \<or> (\<exists>sum w1. ?verified sum \<and> committed w1 = committed (snd s) \<and>
      commits_verified env stored committed ?t sum w1 (snd s1))"
    and f: "active (receiver (fst s1)) \<longrightarrow> slot_filestore (receiver (fst s1)) \<in> {None, Some fs}" by blast+
  have "s' = s \<or> s' = s1 \<or>
      receiver_active_matches_header (fst s1) h \<and> s' = fail_receiver_active_transaction env st s1"
    using assms(7) r by (auto simp: receive_toward_receiver_def split: if_splits)
  moreover have "committed (snd (fail_receiver_active_transaction env st s1)) = committed (snd s1)"
    if "receiver_active_matches_header (fst s1) h"
    using fail_committed [OF assms(2), of s1 st] f that by (simp add: receiver_active_matches_header_def)
  ultimately have "committed (snd s') = committed (snd s) \<or> committed (snd s') = committed (snd s1)" by auto
  then show ?thesis using o unfolding commits_verified_def by metis
qed

text \<open>
  C1: A file is committed only when all of it has been received and verified. For a file store that
  keeps the contract, a PDU toward the receiver leaves the committed files as they are or adds exactly
  one, under the destination path of the active transaction, the received ranges cover every octet of
  the announced size, and the checksum of the committed file's first \<open>size\<close> octets is the one the
  sender's EOF announced: the received PDU is that EOF, without a fault condition and with the announced
  size, or it is File Data that closed the last gap after the EOF.
\<close>

theorem only_verified_files_are_committed:
  assumes "quiet env" "store_contract env fs stored committed" "receive_filestore_is_valid (Some fs)"
    "crc_contract (env_crc env)" "entity_ok e" "slot_filestore (receiver e) \<in> {None, Some fs}"
    "ccsds_cfdp_decode_header pdu = Inr (h, k)" "direction h \<noteq> CCSDS_CFDP_DIRECTION_TOWARD_SENDER"
    "ccsds_cfdp_entity_receive_pdu env (Some fs) pdu (e, w) = (status, (e', w'))"
  shows "committed w' = committed w \<or>
    (\<exists>whole sum. committed w' = (c_string (destination_path (receiver e)), whole) # committed w \<and>
      unat (slot_file_size (receiver e)) \<le> length whole \<and>
      sum = file_checksum (env_crc env) (slot_checksum_type (receiver e))
        (take (unat (slot_file_size (receiver e))) whole) \<and>
      (verified_by_eof pdu (receiver e) sum \<or> verified_by_filedata pdu (receiver e) sum))"
proof -
  have r: "receive_toward_receiver env (Some fs) h k pdu (e, w) = (status, (e', w'))"
    using assms(7-9) by (simp add: ccsds_cfdp_entity_receive_pdu_def)
  have "receiver_ok (fst (e, w)) (receiver (fst (e, w)))" using assms(5) by (simp add: entity_ok_def)
  from dispatch_commits [OF assms(1-4) this _ r] show ?thesis
    using assms(6) by (auto simp: commits_verified_def)
qed

text \<open>The example: the last PDU of a file of five octets.\<close>

definition demo_eof :: octets where
  "demo_eof = [0x24, 0, 10, 0, 2, 9, 1, 4, 0, 6, 2, 3, 4, 0, 0, 0, 5]"

definition demo_receiving :: "demo_world cfdp_entity" where
  "demo_receiving = demo_entity\<lparr>receiver := cleared_slot\<lparr>active := True, metadata_received := True,
     slot_id := \<lparr>tid_source = 2, tid_number = 9\<rparr>, peer_entity_id := 2, slot_filestore := Some demo_store,
     file_handle_open := True, file_handle := Some 1, slot_file_size := 5, slot_mode := 1,
     received_ranges := [\<lparr>r_start = 0, r_end = 5\<rparr>], destination_path := put_path [98]\<rparr>\<rparr>"

definition demo_received :: demo_world where
  "demo_received = demo_world0\<lparr>demo_tmp := [1, 2, 3, 4, 5]\<rparr>"

definition demo_last :: "cfdp_status \<times> demo_world cfdp_state" where
  "demo_last = ccsds_cfdp_entity_receive_pdu demo_env (Some demo_store) demo_eof (demo_receiving, demo_received)"

lemma demo_eof_header:
  "ccsds_cfdp_decode_header demo_eof = Inr ((demo_header 0)\<lparr>pdu_data_field_len := 10\<rparr>, 7)"
  by code_simp

lemma demo_store_contract: "store_contract demo_env demo_store demo_tmp demo_done"
  by (auto simp: store_contract_def demo_env_def demo_store_def min.commute split: prod.splits)
    (metis length_drop take_all_iff min.cobounded1 min_def nle_le take_all)

lemma demo_crc: "crc_contract (env_crc demo_env)"
  by (simp add: crc_contract_def demo_env_def)

lemma demo_receiving_ok: "entity_ok demo_receiving"
proof -
  have "transfer_ok (receiver demo_receiving)"
    by (simp add: transfer_ok_def demo_receiving_def cleared_slot_def ranges_inv_def offsets_def cfdp_limits cfdp_codes
        checksum_type_is_supported_def retries_bounded_def)
  moreover have "value_fits_len 9 1" by (simp add: value_fits_len_def cfdp_limits)
  ultimately show ?thesis
    using init_entity_ok [OF demo_init]
    by (simp add: demo_receiving_def entity_ok_def demo_fields sender_ok_def receiver_ok_def)
qed

lemma only_verified_files_are_committed_witness:
  "demo_done (snd (snd demo_last)) = demo_done demo_received \<or>
    (\<exists>whole sum. demo_done (snd (snd demo_last)) =
        (c_string (destination_path (receiver demo_receiving)), whole) # demo_done demo_received \<and>
      unat (slot_file_size (receiver demo_receiving)) \<le> length whole \<and>
      sum = file_checksum (env_crc demo_env) (slot_checksum_type (receiver demo_receiving))
        (take (unat (slot_file_size (receiver demo_receiving))) whole) \<and>
      (verified_by_eof demo_eof (receiver demo_receiving) sum \<or>
       verified_by_filedata demo_eof (receiver demo_receiving) sum))"
proof (rule only_verified_files_are_committed [OF demo_quiet demo_store_contract demo_store_valid(1) demo_crc
      demo_receiving_ok _ demo_eof_header])
  show "slot_filestore (receiver demo_receiving) \<in> {None, Some demo_store}"
    by (simp add: demo_receiving_def)
  show "direction (demo_header 0\<lparr>pdu_data_field_len := 10\<rparr>) \<noteq> CCSDS_CFDP_DIRECTION_TOWARD_SENDER"
    by (simp add: demo_header_def cfdp_codes)
  show "ccsds_cfdp_entity_receive_pdu demo_env (Some demo_store) demo_eof (demo_receiving, demo_received) =
      (fst demo_last, (fst (snd demo_last), snd (snd demo_last)))"
    by (simp only: prod.collapse demo_last_def)
qed

end
