(* ===== verification/Akpkg_Inflate.thy ===== *)
theory Akpkg_Inflate
  imports Ccsds_Prelude
begin

text \<open>
  The decompressor of \<open>.akpkg\<close> archives (\<open>src/src/lib/akpkg.c\<close>): bit reader, canonical Huffman
  tables, the three kinds of DEFLATE blocks and the loop over the blocks.

  The output buffer is the list of the octets written so far, so \<open>out_pos\<close> is its length. The
  allocator is an argument: the \<open>n\<close>-th allocation of a run returns a table with some old content, or
  nothing. Releasing memory is not modelled.
\<close>

section \<open>State\<close>

definition INF_MAX_BITS :: nat where "INF_MAX_BITS = 15"
definition INF_MAX_LSYMS :: nat where "INF_MAX_LSYMS = 288"
definition INF_MAX_DSYMS :: nat where "INF_MAX_DSYMS = 32"
definition INF_MAX_CSYMS :: nat where "INF_MAX_CSYMS = 19"

lemmas inf_limits = INF_MAX_BITS_def INF_MAX_LSYMS_def INF_MAX_DSYMS_def INF_MAX_CSYMS_def

record huff =
  max_bits :: nat
  counts :: "u16 list"
  first_code :: "u16 list"
  sym_offset :: "u16 list"
  syms :: "u16 list"

record inf =
  inp :: octets
  in_pos :: nat
  bit_buf :: u32
  bit_cnt :: nat
  out_buf :: octets
  out_cap :: nat
  inf_err :: int
  allocs :: nat

text \<open>What the allocator returns for a table and for the array of code lengths.\<close>

record inf_env =
  table_mem :: "nat \<Rightarrow> huff option"
  lens_mem :: "nat \<Rightarrow> bool"

definition fail :: "int \<Rightarrow> inf \<Rightarrow> inf" where
  "fail e s = s\<lparr>inf_err := e\<rparr>"

section \<open>Bit reader\<close>

function inf_refill :: "inf \<Rightarrow> inf" where
  "inf_refill s =
     (if bit_cnt s \<le> 24 \<and> in_pos s < length (inp s)
      then inf_refill
             (s\<lparr>bit_buf := bit_buf s OR push_bit (bit_cnt s) (ucast (inp s ! in_pos s)),
                in_pos := in_pos s + 1, bit_cnt := bit_cnt s + 8\<rparr>)
      else s)"
  by pat_completeness auto
termination
  by (relation "measure (\<lambda>s. 32 - bit_cnt s)") auto

declare inf_refill.simps [simp del]

definition inf_bits :: "inf \<Rightarrow> nat \<Rightarrow> u32 \<times> inf" where
  "inf_bits s n =
     (if n = 0 then (0, s)
      else
        let s = inf_refill s in
        if bit_cnt s < n then (0, fail (- 1) s)
        else (bit_buf s AND (push_bit n 1 - 1),
              s\<lparr>bit_buf := drop_bit n (bit_buf s), bit_cnt := bit_cnt s - n\<rparr>))"

definition inf_align :: "inf \<Rightarrow> inf" where
  "inf_align s =
     (let excess = bit_cnt s mod 8 in
      if excess \<noteq> 0 then s\<lparr>bit_buf := drop_bit excess (bit_buf s), bit_cnt := bit_cnt s - excess\<rparr> else s)"

text \<open>The result tells whether the octet fitted.\<close>

definition inf_emit :: "inf \<Rightarrow> u8 \<Rightarrow> bool \<times> inf" where
  "inf_emit s octet =
     (if length (out_buf s) \<ge> out_cap s then (False, fail (- 2) s)
      else (True, s\<lparr>out_buf := out_buf s @ [octet]\<rparr>))"

section \<open>Canonical Huffman tables\<close>

text \<open>The first loop of \<open>huff_build\<close>: the number of codes of each length and the longest one.\<close>

fun count_lens :: "u8 list \<Rightarrow> u16 list \<Rightarrow> nat \<Rightarrow> (u16 list \<times> nat) option" where
  "count_lens [] cnt mx = Some (cnt, mx)"
| "count_lens (l # lens) cnt mx =
     (if unat l > INF_MAX_BITS then None
      else if l \<noteq> 0
      then count_lens lens (cnt[unat l := cnt ! unat l + 1]) (if unat l > mx then unat l else mx)
      else count_lens lens cnt mx)"

text \<open>The loops over the code lengths \<open>b\<close>, ... , \<open>b + k - 1\<close>.\<close>

fun first_loop :: "u16 list \<Rightarrow> nat \<Rightarrow> nat \<Rightarrow> u16 \<Rightarrow> u16 list \<Rightarrow> u16 list" where
  "first_loop cnt b 0 code fst_codes = fst_codes"
| "first_loop cnt b (Suc k) code fst_codes =
     first_loop cnt (b + 1) k (push_bit 1 (code + cnt ! b)) (fst_codes[b := code])"

fun offset_loop :: "u16 list \<Rightarrow> nat \<Rightarrow> nat \<Rightarrow> u16 \<Rightarrow> u16 list \<Rightarrow> u16 list" where
  "offset_loop cnt b 0 off offs = offs"
| "offset_loop cnt b (Suc k) off offs = offset_loop cnt (b + 1) k (off + cnt ! b) (offs[b := off])"

text \<open>The symbols, sorted by code length and then by value; \<open>tmp\<close> holds the next free places.\<close>

fun place_syms :: "u8 list \<Rightarrow> nat \<Rightarrow> u16 list \<Rightarrow> u16 list \<Rightarrow> u16 list" where
  "place_syms [] i tmp sy = sy"
| "place_syms (l # lens) i tmp sy =
     (if l \<noteq> 0
      then place_syms lens (i + 1) (tmp[unat l := tmp ! unat l + 1]) (sy[unat (tmp ! unat l) := of_nat i])
      else place_syms lens (i + 1) tmp sy)"

definition huff_build :: "huff \<Rightarrow> u8 list \<Rightarrow> huff option" where
  "huff_build h lens =
     (case count_lens lens (replicate (INF_MAX_BITS + 1) 0) 0 of
        None \<Rightarrow> None
      | Some (cnt, mx) \<Rightarrow>
          let offs = offset_loop cnt 1 mx 0 (sym_offset h)
          in Some (h\<lparr>max_bits := mx, counts := cnt, first_code := first_loop cnt 1 mx 0 (first_code h),
                     sym_offset := offs, syms := place_syms lens 0 offs (syms h)\<rparr>))"

text \<open>The loop of \<open>huff_decode\<close> from the bit \<open>b\<close> on; the symbol, or nothing when \<open>err\<close> is set.\<close>

function huff_decode_loop :: "inf \<Rightarrow> huff \<Rightarrow> nat \<Rightarrow> u32 \<Rightarrow> nat option \<times> inf" where
  "huff_decode_loop s h b code =
     (if b \<le> max_bits h
      then
        case inf_bits s 1 of
          (v, s) \<Rightarrow>
            let code = push_bit 1 code OR v in
            if inf_err s \<noteq> 0 then (None, s)
            else if counts h ! b \<noteq> 0 \<and> code \<ge> ucast (first_code h ! b) \<and>
                    unat code < unat (first_code h ! b) + unat (counts h ! b)
            then (Some (unat (syms h ! (unat (sym_offset h ! b) + unat (code - ucast (first_code h ! b))))), s)
            else huff_decode_loop s h (b + 1) code
      else (None, fail (- 3) s))"
  by pat_completeness auto
termination
  by (relation "measure (\<lambda>(s, h, b, code). max_bits h + 1 - b)") auto

declare huff_decode_loop.simps [simp del]

definition huff_decode :: "inf \<Rightarrow> huff \<Rightarrow> nat option \<times> inf" where
  "huff_decode s h = huff_decode_loop s h 1 0"

section \<open>Literals and back-references\<close>

definition k_len_base :: "nat list" where
  "k_len_base =
     [3, 4, 5, 6, 7, 8, 9, 10, 11, 13, 15, 17, 19, 23, 27, 31,
      35, 43, 51, 59, 67, 83, 99, 115, 131, 163, 195, 227, 258]"

definition k_len_extra :: "nat list" where
  "k_len_extra =
     [0, 0, 0, 0, 0, 0, 0, 0, 1, 1, 1, 1, 2, 2, 2, 2,
      3, 3, 3, 3, 4, 4, 4, 4, 5, 5, 5, 5, 0]"

definition k_dist_base :: "nat list" where
  "k_dist_base =
     [1, 2, 3, 4, 5, 7, 9, 13, 17, 25, 33, 49, 65, 97, 129, 193,
      257, 385, 513, 769, 1025, 1537, 2049, 3073, 4097, 6145, 8193, 12289, 16385, 24577]"

definition k_dist_extra :: "nat list" where
  "k_dist_extra =
     [0, 0, 0, 0, 1, 1, 2, 2, 3, 3, 4, 4, 5, 5, 6, 6,
      7, 7, 8, 8, 9, 9, 10, 10, 11, 11, 12, 12, 13, 13]"

text \<open>The copy loop: \<open>n\<close> more octets, the next one is the \<open>i\<close>-th.\<close>

fun inf_copy :: "inf \<Rightarrow> nat \<Rightarrow> nat \<Rightarrow> nat \<Rightarrow> nat \<Rightarrow> bool \<times> inf" where
  "inf_copy s src distance i 0 = (True, s)"
| "inf_copy s src distance i (Suc n) =
     (case inf_emit s (out_buf s ! (src + i mod distance)) of
        (ok, s) \<Rightarrow> if \<not> ok then (False, s) else inf_copy s src distance (i + 1) n)"

text \<open>One back-reference, after its length symbol.\<close>

definition inf_match :: "inf \<Rightarrow> huff \<Rightarrow> nat \<Rightarrow> bool \<times> inf" where
  "inf_match s dist lidx =
     (if lidx \<ge> 29 then (False, fail (- 4) s)
      else
        case inf_bits s (k_len_extra ! lidx) of
          (v, s) \<Rightarrow>
            let len = k_len_base ! lidx + unat v in
            if inf_err s \<noteq> 0 then (False, s)
            else
              (case huff_decode s dist of
                 (None, s) \<Rightarrow> (False, s)
               | (Some dsym, s) \<Rightarrow>
                   if dsym \<ge> 30 then (False, fail (- 5) s)
                   else
                     case inf_bits s (k_dist_extra ! dsym) of
                       (v, s) \<Rightarrow>
                         let distance = k_dist_base ! dsym + unat v in
                         if inf_err s \<noteq> 0 then (False, s)
                         else if distance > length (out_buf s) then (False, fail (- 6) s)
                         else inf_copy s (length (out_buf s) - distance) distance 0 len))"

section \<open>Every call uses up input\<close>

text \<open>The bits that are still to be read, which decide that the loops below end.\<close>

definition bits_left :: "inf \<Rightarrow> nat" where
  "bits_left s = bit_cnt s + 8 * (length (inp s) - in_pos s)"

lemma fail_fields [simp]:
  "inp (fail e s) = inp s" "in_pos (fail e s) = in_pos s" "bit_buf (fail e s) = bit_buf s"
  "bit_cnt (fail e s) = bit_cnt s" "out_buf (fail e s) = out_buf s" "out_cap (fail e s) = out_cap s"
  "inf_err (fail e s) = e" "allocs (fail e s) = allocs s"
  by (simp_all add: fail_def)

lemma bits_left_fail [simp]: "bits_left (fail e s) = bits_left s"
  by (simp add: bits_left_def)

lemma refill_frame [simp]:
  "inp (inf_refill s) = inp s" "out_buf (inf_refill s) = out_buf s" "out_cap (inf_refill s) = out_cap s"
  "inf_err (inf_refill s) = inf_err s" "allocs (inf_refill s) = allocs s"
  by (induction s rule: inf_refill.induct; subst inf_refill.simps; simp)+

lemma bits_left_refill [simp]: "bits_left (inf_refill s) = bits_left s"
proof (induction s rule: inf_refill.induct)
  case (1 s)
  have step: "bits_left (s\<lparr>bit_buf := b, in_pos := in_pos s + 1, bit_cnt := bit_cnt s + 8\<rparr>) = bits_left s"
    if "in_pos s < length (inp s)" for b
    using that by (simp add: bits_left_def)
  show ?case
    by (subst inf_refill.simps) (use 1 step in \<open>simp del: One_nat_def\<close>)
qed

lemma bits_left_bits: "inf_bits s n = (v, s') \<Longrightarrow> bits_left s' \<le> bits_left s"
proof -
  assume "inf_bits s n = (v, s')"
  moreover have "bits_left (t\<lparr>bit_buf := b, bit_cnt := bit_cnt t - n\<rparr>) \<le> bits_left t" for t b
    by (simp add: bits_left_def)
  from this [of "inf_refill s"] show ?thesis
    using calculation by (auto simp: inf_bits_def Let_def split: if_splits)
qed

lemma bits_left_bits_less:
  assumes "inf_bits s n = (v, s')" and "inf_err s' = 0" and "0 < n"
  shows "bits_left s' + n \<le> bits_left s"
proof -
  have "bits_left (t\<lparr>bit_buf := b, bit_cnt := bit_cnt t - n\<rparr>) + n \<le> bits_left t"
    if "\<not> bit_cnt t < n" for t b
    using that by (simp add: bits_left_def)
  from this [of "inf_refill s"] show ?thesis
    using assms by (auto simp: inf_bits_def Let_def split: if_splits)
qed

lemma bits_frame:
  "inf_bits s n = (v, s') \<Longrightarrow>
     inp s' = inp s \<and> out_buf s' = out_buf s \<and> out_cap s' = out_cap s \<and> allocs s' = allocs s"
  by (auto simp: inf_bits_def Let_def split: if_splits)

lemma decode_loop_uses:
  "huff_decode_loop s h b code = (r, s') \<Longrightarrow>
     bits_left s' \<le> bits_left s \<and> (r \<noteq> None \<longrightarrow> bits_left s' < bits_left s)"
proof (induction s h b code rule: huff_decode_loop.induct)
  case (1 s h b code)
  obtain v t where t: "inf_bits s 1 = (v, t)" by (cases "inf_bits s 1")
  note step = bits_left_bits [OF t] bits_left_bits_less [OF t]
  show ?case
    using 1(2) step 1(1) [OF _ t [symmetric] refl]
    by (subst (asm) huff_decode_loop.simps)
      (auto simp: t Let_def simp del: One_nat_def split: if_splits)
qed

lemma bits_left_decode:
  "huff_decode s h = (r, s') \<Longrightarrow> bits_left s' \<le> bits_left s \<and> (r \<noteq> None \<longrightarrow> bits_left s' < bits_left s)"
  unfolding huff_decode_def by (rule decode_loop_uses)

lemma bits_left_emit: "inf_emit s c = (ok, s') \<Longrightarrow> bits_left s' = bits_left s"
  by (auto simp: inf_emit_def bits_left_def split: if_splits)

lemma bits_left_copy: "inf_copy s src d i n = (ok, s') \<Longrightarrow> bits_left s' = bits_left s"
  by (induction s src d i n rule: inf_copy.induct)
    (auto dest: bits_left_emit split: prod.splits if_splits)

lemma bits_left_match: "inf_match s dist lidx = (ok, s') \<Longrightarrow> bits_left s' \<le> bits_left s"
  by (auto simp: inf_match_def Let_def dest!: bits_left_bits bits_left_decode bits_left_copy
      split: if_splits prod.splits option.splits)

section \<open>Blocks\<close>

text \<open>The symbols of a block up to its end; the result tells whether the end was reached.\<close>

function inf_decode_codes :: "inf \<Rightarrow> huff \<Rightarrow> huff \<Rightarrow> bool \<times> inf" where
  "inf_decode_codes s ll dist =
     (case huff_decode s ll of
        (None, s) \<Rightarrow> (False, s)
      | (Some symb, s) \<Rightarrow>
          if symb < 256
          then (case inf_emit s (of_nat symb) of
                  (ok, s) \<Rightarrow> if \<not> ok then (False, s) else inf_decode_codes s ll dist)
          else if symb = 256 then (True, s)
          else (case inf_match s dist (symb - 257) of
                  (ok, s) \<Rightarrow> if \<not> ok then (False, s) else inf_decode_codes s ll dist))"
  by pat_completeness auto
termination
  by (relation "measure (\<lambda>(s, ll, dist). bits_left s)")
    (auto dest!: bits_left_decode [OF sym] bits_left_emit [OF sym] bits_left_match [OF sym])

declare inf_decode_codes.simps [simp del]

text \<open>The copy loop of a stored block.\<close>

fun stored_loop :: "inf \<Rightarrow> nat \<Rightarrow> bool \<times> inf" where
  "stored_loop s 0 = (True, s)"
| "stored_loop s (Suc n) =
     (case inf_emit (s\<lparr>in_pos := in_pos s + 1\<rparr>) (inp s ! in_pos s) of
        (ok, s) \<Rightarrow> if \<not> ok then (False, s) else stored_loop s n)"

definition inf_block_stored :: "inf \<Rightarrow> bool \<times> inf" where
  "inf_block_stored s =
     (let s = inf_align s;
          s = s\<lparr>in_pos := in_pos s - bit_cnt s div 8, bit_buf := 0, bit_cnt := 0\<rparr>
      in if in_pos s + 4 > length (inp s) then (False, fail (- 7) s)
         else
           let len = ucast (inp s ! in_pos s) OR push_bit 8 (ucast (inp s ! (in_pos s + 1))) :: u16;
               nlen = ucast (inp s ! (in_pos s + 2)) OR push_bit 8 (ucast (inp s ! (in_pos s + 3))) :: u16;
               s = s\<lparr>in_pos := in_pos s + 4\<rparr>
           in if len XOR nlen \<noteq> 0xFFFF then (False, fail (- 8) s)
              else if in_pos s + unat len > length (inp s) then (False, fail (- 9) s)
              else stored_loop s (unat len))"

text \<open>Two tables are allocated together.\<close>

definition two_tables :: "inf_env \<Rightarrow> inf \<Rightarrow> (huff \<times> huff) option \<times> inf" where
  "two_tables env s =
     (case (table_mem env (allocs s), table_mem env (allocs s + 1)) of
        (Some ll, Some dist) \<Rightarrow> (Some (ll, dist), s\<lparr>allocs := allocs s + 2\<rparr>)
      | _ \<Rightarrow> (None, s\<lparr>allocs := allocs s + 2\<rparr>))"

definition fixed_ll_lens :: "u8 list" where
  "fixed_ll_lens = replicate 144 8 @ replicate 112 9 @ replicate 24 7 @ replicate 8 8"

definition fixed_d_lens :: "u8 list" where
  "fixed_d_lens = replicate 30 5 @ replicate 2 0"

definition inf_block_fixed :: "inf_env \<Rightarrow> inf \<Rightarrow> bool \<times> inf" where
  "inf_block_fixed env s =
     (case two_tables env s of
        (None, s) \<Rightarrow> (False, fail (- 10) s)
      | (Some (ll, dist), s) \<Rightarrow>
          case (huff_build ll fixed_ll_lens, huff_build dist fixed_d_lens) of
            (Some ll, Some dist) \<Rightarrow> inf_decode_codes s ll dist
          | _ \<Rightarrow> (False, fail (- 10) s))"

definition clen_order :: "nat list" where
  "clen_order = [16, 17, 18, 0, 8, 7, 9, 6, 10, 5, 11, 4, 12, 3, 13, 2, 14, 1, 15]"

text \<open>The loop that reads the lengths of the code length codes.\<close>

fun clen_loop :: "inf \<Rightarrow> nat list \<Rightarrow> u8 list \<Rightarrow> u8 list \<times> inf" where
  "clen_loop s [] clens = (clens, s)"
| "clen_loop s (k # order) clens =
     (case inf_bits s 3 of (v, s) \<Rightarrow> clen_loop s order (clens[k := ucast v]))"

fun fill_lens :: "u8 list \<Rightarrow> nat \<Rightarrow> nat \<Rightarrow> u8 \<Rightarrow> nat \<Rightarrow> u8 list \<times> nat" where
  "fill_lens lens i tot v 0 = (lens, i)"
| "fill_lens lens i tot v (Suc rep) =
     (if i < tot then fill_lens (lens[i := v]) (i + 1) tot v rep else (lens, i))"

text \<open>The code lengths of both alphabets; nothing when the block is refused.\<close>

function lens_loop :: "inf \<Rightarrow> huff \<Rightarrow> nat \<Rightarrow> nat \<Rightarrow> u8 list \<Rightarrow> u8 list option \<times> inf" where
  "lens_loop s clen_tab tot i lens =
     (if i < tot
      then
        case huff_decode s clen_tab of
          (None, s) \<Rightarrow> (None, s)
        | (Some symb, s) \<Rightarrow>
            if symb < 16 then lens_loop s clen_tab tot (i + 1) (lens[i := of_nat symb])
            else if symb = 16
            then
              (if i = 0 then (None, fail (- 13) s)
               else
                 let prev = lens ! (i - 1) in
                 case inf_bits s 2 of
                   (v, s) \<Rightarrow>
                     if inf_err s \<noteq> 0 then (None, s)
                     else case fill_lens lens i tot prev (unat v + 3) of
                            (lens, i) \<Rightarrow> lens_loop s clen_tab tot i lens)
            else if symb = 17
            then
              (case inf_bits s 3 of
                 (v, s) \<Rightarrow>
                   if inf_err s \<noteq> 0 then (None, s)
                   else case fill_lens lens i tot 0 (unat v + 3) of
                          (lens, i) \<Rightarrow> lens_loop s clen_tab tot i lens)
            else
              (case inf_bits s 7 of
                 (v, s) \<Rightarrow>
                   if inf_err s \<noteq> 0 then (None, s)
                   else case fill_lens lens i tot 0 (unat v + 11) of
                          (lens, i) \<Rightarrow> lens_loop s clen_tab tot i lens)
      else (if inf_err s \<noteq> 0 then (None, s) else (Some lens, s)))"
  by pat_completeness auto
termination
  by (relation "measure (\<lambda>(s, h, tot, i, lens). bits_left s)")
    (auto dest!: bits_left_decode [OF sym] bits_left_bits [OF sym])

declare lens_loop.simps [simp del]

text \<open>From the lengths of the code length codes to the tables of the block.\<close>

definition dynamic_tables :: "inf_env \<Rightarrow> inf \<Rightarrow> nat \<Rightarrow> nat \<Rightarrow> u8 list \<Rightarrow> bool \<times> inf" where
  "dynamic_tables env s hlit hdist clens =
     (let n = allocs s; s = s\<lparr>allocs := n + 1\<rparr> in
      case table_mem env n of
        None \<Rightarrow> (False, fail (- 12) s)
      | Some clen_tab \<Rightarrow>
          case huff_build clen_tab clens of
            None \<Rightarrow> (False, fail (- 12) s)
          | Some clen_tab \<Rightarrow>
              let n = allocs s; s = s\<lparr>allocs := n + 1\<rparr> in
              if \<not> lens_mem env n then (False, fail (- 12) s)
              else
                (case lens_loop s clen_tab (hlit + hdist) 0 (replicate (INF_MAX_LSYMS + INF_MAX_DSYMS) 0) of
                   (None, s) \<Rightarrow> (False, s)
                 | (Some lens, s) \<Rightarrow>
                     case two_tables env s of
                       (None, s) \<Rightarrow> (False, fail (- 14) s)
                     | (Some (ll, dist), s) \<Rightarrow>
                         case (huff_build ll (take hlit lens), huff_build dist (take hdist (drop hlit lens))) of
                           (Some ll, Some dist) \<Rightarrow> inf_decode_codes s ll dist
                         | _ \<Rightarrow> (False, fail (- 14) s)))"

definition inf_block_dynamic :: "inf_env \<Rightarrow> inf \<Rightarrow> bool \<times> inf" where
  "inf_block_dynamic env s =
     (case inf_bits s 5 of
        (v_lit, s) \<Rightarrow>
          case inf_bits s 5 of
            (v_dist, s) \<Rightarrow>
              case inf_bits s 4 of
                (v_clen, s) \<Rightarrow>
                  let hlit = unat v_lit + 257; hdist = unat v_dist + 1; hclen = unat v_clen + 4 in
                  if inf_err s \<noteq> 0 then (False, s)
                  else if hlit > INF_MAX_LSYMS \<or> hdist > INF_MAX_DSYMS then (False, fail (- 11) s)
                  else
                    case clen_loop s (take hclen clen_order) (replicate INF_MAX_CSYMS 0) of
                      (clens, s) \<Rightarrow>
                        if inf_err s \<noteq> 0 then (False, s) else dynamic_tables env s hlit hdist clens)"

lemma bits_left_codes: "inf_decode_codes s ll dist = (ok, s') \<Longrightarrow> bits_left s' \<le> bits_left s"
proof (induction s ll dist rule: inf_decode_codes.induct)
  case (1 s ll dist)
  show ?case
    using 1(3) 1(1,2)
    by (subst (asm) inf_decode_codes.simps)
      (fastforce dest: bits_left_decode bits_left_emit bits_left_match split: prod.splits option.splits if_splits)
qed

lemma bits_left_stored_loop: "stored_loop s n = (ok, s') \<Longrightarrow> bits_left s' \<le> bits_left s"
proof (induction s n rule: stored_loop.induct)
  case (2 s n)
  obtain c t where t: "inf_emit (s\<lparr>in_pos := in_pos s + 1\<rparr>) (inp s ! in_pos s) = (c, t)"
    by (cases "inf_emit (s\<lparr>in_pos := in_pos s + 1\<rparr>) (inp s ! in_pos s)")
  have "bits_left t \<le> bits_left s"
    using bits_left_emit [OF t] by (simp add: bits_left_def)
  then show ?case using 2 t by (fastforce split: if_splits)
qed simp

lemma bits_left_align: "bits_left (inf_align s) \<le> bits_left s"
  by (simp add: inf_align_def bits_left_def Let_def)

lemma bits_left_rewind:
  "bits_left (s\<lparr>in_pos := in_pos s - bit_cnt s div 8, bit_buf := 0, bit_cnt := 0\<rparr>) \<le> bits_left s"
proof -
  have "8 * (length (inp s) - (in_pos s - bit_cnt s div 8)) \<le> bit_cnt s + 8 * (length (inp s) - in_pos s)"
    by linarith
  then show ?thesis by (simp add: bits_left_def)
qed

lemma bits_left_stored: "inf_block_stored s = (ok, s') \<Longrightarrow> bits_left s' \<le> bits_left s"
proof -
  assume run: "inf_block_stored s = (ok, s')"
  define t where "t = (inf_align s)\<lparr>in_pos := in_pos (inf_align s) - bit_cnt (inf_align s) div 8,
    bit_buf := 0, bit_cnt := 0\<rparr>"
  have t: "bits_left t \<le> bits_left s"
    unfolding t_def using bits_left_rewind [of "inf_align s"] bits_left_align [of s] by simp
  have skip: "bits_left (t\<lparr>in_pos := in_pos t + 4\<rparr>) \<le> bits_left t"
    by (simp add: bits_left_def)
  show ?thesis
    using run t skip bits_left_stored_loop [of "t\<lparr>in_pos := in_pos t + 4\<rparr>"]
    unfolding inf_block_stored_def Let_def t_def [symmetric]
    by (fastforce split: if_splits)
qed

lemma bits_left_two_tables: "two_tables env s = (r, s') \<Longrightarrow> bits_left s' = bits_left s"
  by (auto simp: two_tables_def bits_left_def split: option.splits)

lemma bits_left_fixed: "inf_block_fixed env s = (ok, s') \<Longrightarrow> bits_left s' \<le> bits_left s"
  by (auto simp: inf_block_fixed_def dest!: bits_left_two_tables bits_left_codes
      split: prod.splits option.splits)

lemma bits_left_clen_loop: "clen_loop s order clens = (r, s') \<Longrightarrow> bits_left s' \<le> bits_left s"
  by (induction s order clens rule: clen_loop.induct)
    (fastforce dest: bits_left_bits split: prod.splits)+

lemma bits_left_lens_loop: "lens_loop s h tot i lens = (r, s') \<Longrightarrow> bits_left s' \<le> bits_left s"
proof (induction s h tot i lens rule: lens_loop.induct)
  case (1 s h tot i lens)
  show ?case
    using 1(5) 1(1-4)
    by (subst (asm) lens_loop.simps)
      (fastforce dest: bits_left_decode bits_left_bits simp: Let_def split: prod.splits option.splits if_splits)
qed

lemma bits_left_allocs [simp]: "bits_left (s\<lparr>allocs := n\<rparr>) = bits_left s"
  by (simp add: bits_left_def)

lemma bits_left_dynamic_tables:
  "dynamic_tables env s hlit hdist clens = (ok, s') \<Longrightarrow> bits_left s' \<le> bits_left s"
  by (auto simp: dynamic_tables_def Let_def dest!: bits_left_two_tables bits_left_codes bits_left_lens_loop
      split: prod.splits option.splits if_splits)

lemma bits_left_dynamic: "inf_block_dynamic env s = (ok, s') \<Longrightarrow> bits_left s' \<le> bits_left s"
  by (auto simp: inf_block_dynamic_def Let_def
      dest!: bits_left_bits bits_left_clen_loop bits_left_dynamic_tables
      split: prod.splits if_splits)

section \<open>The loop over the blocks\<close>

definition inf_block :: "inf_env \<Rightarrow> inf \<Rightarrow> u32 \<Rightarrow> bool \<times> inf" where
  "inf_block env s btype =
     (if btype = 0 then inf_block_stored s
      else if btype = 1 then inf_block_fixed env s
      else if btype = 2 then inf_block_dynamic env s
      else (False, fail (- 15) s))"

lemma bits_left_block: "inf_block env s btype = (ok, s') \<Longrightarrow> bits_left s' \<le> bits_left s"
  by (auto simp: inf_block_def dest: bits_left_stored bits_left_fixed bits_left_dynamic split: if_splits)

lemma block_uses:
  assumes "inf_bits s n = (bfinal, s1)" and "inf_bits s1 2 = (btype, s2)" and "inf_err s2 = 0"
    and "inf_block env s2 btype = (ok, s3)"
  shows "bits_left s3 < bits_left s"
  using bits_left_bits [OF assms(1)] bits_left_bits_less [OF assms(2,3)] bits_left_block [OF assms(4)]
  by simp

function inflate_raw :: "inf_env \<Rightarrow> inf \<Rightarrow> bool \<times> inf" where
  "inflate_raw env s =
     (case inf_bits s 1 of
        (bfinal, s) \<Rightarrow>
          case inf_bits s 2 of
            (btype, s) \<Rightarrow>
              if inf_err s \<noteq> 0 then (False, s)
              else
                case inf_block env s btype of
                  (ok, s) \<Rightarrow>
                    if \<not> ok then (False, s)
                    else if bfinal = 0 then inflate_raw env s
                    else (True, s))"
  by pat_completeness auto
termination
  by (relation "measure (\<lambda>(env, s). bits_left s)") (auto intro: block_uses [OF sym sym _ sym])

declare inflate_raw.simps [simp del]

end
