(* ===== verification/Akpkg_Huffman.thy ===== *)
theory Akpkg_Huffman
  imports Akpkg_Inflate
begin

text \<open>
  The bit reader reads the bit stream of the archive, and the tables of \<open>huff_build\<close> decode the
  canonical Huffman code of their code lengths (RFC 1951, section 3.2.2).
\<close>

section \<open>The bit stream\<close>

definition octet_bits :: "u8 \<Rightarrow> bool list" where
  "octet_bits w = map (bit w) [0..<8]"

definition stream :: "octets \<Rightarrow> bool list" where
  "stream bs = concat (map octet_bits bs)"

definition value_of :: "bool list \<Rightarrow> nat" where
  "value_of = horner_sum of_bool 2"

lemma length_octet_bits [simp]: "length (octet_bits w) = 8"
  by (simp add: octet_bits_def)

lemma stream_simps [simp]: "stream [] = []" "stream (b # bs) = octet_bits b @ stream bs"
  by (simp_all add: stream_def)

lemma stream_append [simp]: "stream (xs @ ys) = stream xs @ stream ys"
  by (simp add: stream_def)

lemma length_stream [simp]: "length (stream bs) = 8 * length bs"
  by (induction bs) simp_all

lemma stream_nth: "i < 8 * length bs \<Longrightarrow> stream bs ! i = bit (bs ! (i div 8)) (i mod 8)"
proof (induction bs arbitrary: i)
  case (Cons b bs)
  show ?case
  proof (cases "i < 8")
    case True
    then show ?thesis by (simp add: nth_append octet_bits_def)
  next
    case False
    then obtain k where k: "i = k + 8" by (metis add.commute le_Suc_ex not_less)
    then have "i div 8 = Suc (k div 8)" "i mod 8 = k mod 8" by simp_all
    with Cons k show ?thesis by (simp add: nth_append)
  qed
qed simp

lemma stream_octet: "i < length bs \<Longrightarrow> take 8 (drop (8 * i) (stream bs)) = octet_bits (bs ! i)"
  by (rule nth_equalityI) (auto simp: stream_nth octet_bits_def)

lemma value_of_less: "value_of bs < 2 ^ length bs"
  unfolding value_of_def by (rule horner_sum_of_bool_2_less)

lemma value_of_simps [simp]:
  "value_of [] = 0" "value_of (b # bs) = of_bool b + 2 * value_of bs"
  by (simp_all add: value_of_def)

lemma bit_value_of: "bit (value_of bs) i \<longleftrightarrow> i < length bs \<and> bs ! i"
  by (simp add: value_of_def bit_horner_sum_bit_iff)

section \<open>The state between two reads\<close>

definition consumed :: "inf \<Rightarrow> nat" where
  "consumed s = 8 * in_pos s - bit_cnt s"

definition pending :: "inf \<Rightarrow> bool list" where
  "pending s = drop (consumed s) (stream (inp s))"

definition inf_ok :: "inf \<Rightarrow> bool" where
  "inf_ok s \<longleftrightarrow>
     in_pos s \<le> length (inp s) \<and> bit_cnt s \<le> 8 * in_pos s \<and> bit_cnt s \<le> 32 \<and>
     length (out_buf s) \<le> out_cap s \<and>
     (\<forall>i. bit (bit_buf s) i \<longleftrightarrow> i < bit_cnt s \<and> stream (inp s) ! (consumed s + i))"

text \<open>The state after the bits \<open>xs\<close> have been read and the output is \<open>out\<close>.\<close>

definition after :: "inf \<Rightarrow> bool list \<Rightarrow> octets \<Rightarrow> inf \<Rightarrow> bool" where
  "after s xs out s' \<longleftrightarrow>
     inf_ok s' \<and> inp s' = inp s \<and> out_cap s' = out_cap s \<and> inf_err s' = inf_err s \<and>
     consumed s' = consumed s + length xs \<and> out_buf s' = out"

lemma inf_okD:
  assumes "inf_ok s"
  shows "in_pos s \<le> length (inp s)" and "bit_cnt s \<le> 8 * in_pos s" and "bit_cnt s \<le> 32"
    and "length (out_buf s) \<le> out_cap s"
    and "bit (bit_buf s) i \<longleftrightarrow> i < bit_cnt s \<and> stream (inp s) ! (consumed s + i)"
  using assms by (simp_all add: inf_ok_def)

lemma inf_ok_consumed: "inf_ok s \<Longrightarrow> consumed s \<le> 8 * length (inp s)"
  using inf_okD(1) [of s] by (simp add: consumed_def)

lemma length_pending: "length (pending s) = 8 * length (inp s) - consumed s"
  by (simp add: pending_def)

lemma length_pending_left: "inf_ok s \<Longrightarrow> length (pending s) = bits_left s"
  using inf_okD(1,2) [of s] unfolding length_pending bits_left_def consumed_def by linarith

lemma after_ok: "after s xs out s' \<Longrightarrow> inf_ok s'"
  by (simp add: after_def)

lemma after_refl: "inf_ok s \<Longrightarrow> after s [] (out_buf s) s"
  by (simp add: after_def)

lemma after_trans: "after s xs out t \<Longrightarrow> after t xs' out' u \<Longrightarrow> after s (xs @ xs') out' u"
  by (simp add: after_def)

lemma after_pending: "after s xs out s' \<Longrightarrow> pending s = xs @ r \<Longrightarrow> pending s' = r"
proof -
  assume a: "after s xs out s'" and p: "pending s = xs @ r"
  have "pending s' = drop (length xs) (pending s)"
    using a by (simp add: pending_def after_def add.commute)
  with p show ?thesis by simp
qed

section \<open>Reading bits\<close>

lemma refill_ok:
  assumes "inf_ok s"
  shows "inf_ok (inf_refill s) \<and> consumed (inf_refill s) = consumed s \<and>
         (24 < bit_cnt (inf_refill s) \<or> in_pos (inf_refill s) = length (inp s))"
  using assms
proof (induction s rule: inf_refill.induct)
  case (1 s)
  show ?case
  proof (cases "bit_cnt s \<le> 24 \<and> in_pos s < length (inp s)")
    case True
    define t where "t = s\<lparr>bit_buf := bit_buf s OR push_bit (bit_cnt s) (ucast (inp s ! in_pos s)),
      in_pos := in_pos s + 1, bit_cnt := bit_cnt s + 8\<rparr>"
    have c: "consumed t = consumed s" by (simp add: consumed_def t_def)
    have "bit (bit_buf t) i \<longleftrightarrow> i < bit_cnt t \<and> stream (inp t) ! (consumed t + i)" for i
    proof -
      have new: "stream (inp s) ! (consumed s + i) = bit (inp s ! in_pos s) (i - bit_cnt s)"
        if "bit_cnt s \<le> i" "i < bit_cnt s + 8"
      proof -
        have idx: "consumed s + i = 8 * in_pos s + (i - bit_cnt s)"
          using that inf_okD(2) [OF 1(2)] by (simp add: consumed_def)
        have "(8 * in_pos s + (i - bit_cnt s)) div 8 = in_pos s" "(8 * in_pos s + (i - bit_cnt s)) mod 8 = i - bit_cnt s"
          using that by (simp_all del: add_diff_assoc)
        then show ?thesis unfolding idx using that True by (subst stream_nth) auto
      qed
      have len: "bit (inp s ! in_pos s) k \<Longrightarrow> k < 8" for k using bit_imp_le_length by force
      have old: "bit (bit_buf s) i \<longleftrightarrow> i < bit_cnt s \<and> stream (inp s) ! (consumed s + i)"
        by (rule inf_okD(5) [OF 1(2)])
      have "bit (bit_buf t) i \<longleftrightarrow>
          bit (bit_buf s) i \<or> bit_cnt s \<le> i \<and> i < 32 \<and> bit (inp s ! in_pos s) (i - bit_cnt s)"
        by (auto simp: t_def bit_simps)
      also have "\<dots> \<longleftrightarrow> i < bit_cnt t \<and> stream (inp t) ! (consumed t + i)"
        using new old len [of "i - bit_cnt s"] True
        by (cases "i < bit_cnt s") (auto simp: c [unfolded t_def] t_def simp del: One_nat_def Suc_eq_plus1 add_Suc_right)
      finally show ?thesis .
    qed
    then have ok: "inf_ok t"
      using inf_okD(1-4) [OF 1(2)] True by (simp add: inf_ok_def t_def)
    have eq: "inf_refill s = inf_refill t" by (subst inf_refill.simps) (use True in \<open>simp add: t_def\<close>)
    from 1(1) [OF True] ok have "inf_ok (inf_refill t) \<and> consumed (inf_refill t) = consumed t \<and>
        (24 < bit_cnt (inf_refill t) \<or> in_pos (inf_refill t) = length (inp t))"
      unfolding t_def by blast
    then show ?thesis using c unfolding eq by (simp add: t_def)
  next
    case False
    have eq: "inf_refill s = s" by (subst inf_refill.simps) (use False in auto)
    show ?thesis unfolding eq using False 1(2) inf_okD(1) [OF 1(2)] by auto
  qed
qed

lemma bits_enough:
  assumes ok: "inf_ok s" and n: "n \<le> 24" and p: "pending s = xs @ r" and len: "length xs = n"
  shows "\<exists>s'. inf_bits s n = (of_nat (value_of xs), s') \<and> after s xs (out_buf s) s'"
proof (cases "n = 0")
  case True
  then show ?thesis using ok len by (auto simp: inf_bits_def intro: after_refl)
next
  case False
  define t where "t = inf_refill s"
  have t: "inf_ok t" "consumed t = consumed s" "inp t = inp s" "out_buf t = out_buf s"
      "out_cap t = out_cap s" "inf_err t = inf_err s" "24 < bit_cnt t \<or> in_pos t = length (inp t)"
    using refill_ok [OF ok] by (simp_all add: t_def)
  have enough: "n \<le> bit_cnt t"
  proof (rule ccontr)
    assume "\<not> n \<le> bit_cnt t"
    with t(7) n have "in_pos t = length (inp t)" by simp
    then have "length (pending t) = bit_cnt t"
      using length_pending_left [OF t(1)] by (simp add: bits_left_def)
    moreover have "pending t = pending s" using t by (simp add: pending_def)
    ultimately show False using p len \<open>\<not> n \<le> bit_cnt t\<close> by simp
  qed
  define u where "u = t\<lparr>bit_buf := drop_bit n (bit_buf t), bit_cnt := bit_cnt t - n\<rparr>"
  have buf: "bit (bit_buf t) i \<longleftrightarrow> i < bit_cnt t \<and> stream (inp t) ! (consumed t + i)" for i
    by (rule inf_okD(5) [OF t(1)])
  have cu: "consumed u = consumed s + n"
    using enough t(2) inf_okD(2) [OF t(1)] by (simp add: u_def consumed_def)
  have xs: "xs ! i = stream (inp s) ! (consumed s + i)" if "i < n" for i
  proof -
    have "xs ! i = pending s ! i" using that p len by (simp add: nth_append)
    also have "\<dots> = stream (inp s) ! (consumed s + i)"
      using inf_ok_consumed [OF ok] unfolding pending_def by (simp add: nth_drop)
    finally show ?thesis .
  qed
  have bu: "bit (bit_buf u) i \<longleftrightarrow> i < bit_cnt u \<and> stream (inp u) ! (consumed u + i)" for i
    using buf [of "n + i"] enough unfolding cu by (auto simp: u_def bit_simps t add.assoc)
  have "in_pos u = in_pos t" "bit_cnt u \<le> bit_cnt t" "inp u = inp t" "out_buf u = out_buf t" "out_cap u = out_cap t"
    by (simp_all add: u_def)
  then have "inf_ok u" unfolding inf_ok_def using inf_okD(1-4) [OF t(1)] bu by auto
  then have aft: "after s xs (out_buf s) u" using t cu len by (simp add: after_def u_def)
  have "bit_buf t AND (push_bit n 1 - 1) = of_nat (value_of xs)"
    unfolding push_bit_eq_mult mult_1_left
    by (rule bit_word_eqI, unfold mask_eq_exp_minus_1 [symmetric])
      (use buf xs enough n len t in \<open>auto simp: bit_simps bit_value_of\<close>)
  then show ?thesis
    using False enough aft
    by (auto simp: inf_bits_def Let_def t_def [symmetric] u_def)
qed

lemma bits_short:
  assumes "inf_ok s" and "length (pending s) < n"
  shows "\<exists>s'. inf_bits s n = (0, fail (- 1) s') \<and> after s [] (out_buf s) s'"
proof -
  define t where "t = inf_refill s"
  have t: "inf_ok t" "consumed t = consumed s" "inp t = inp s" "out_buf t = out_buf s"
      "out_cap t = out_cap s" "inf_err t = inf_err s"
    using refill_ok [OF assms(1)] by (simp_all add: t_def)
  have "bit_cnt t \<le> length (pending t)"
    using length_pending_left [OF t(1)] by (simp add: bits_left_def)
  then have "bit_cnt t < n" using assms(2) t by (simp add: pending_def)
  then show ?thesis using t by (auto simp: inf_bits_def Let_def t_def [symmetric] after_def)
qed

section \<open>The canonical code\<close>

text \<open>
  The number of codes of a length, the first code of a length by the recurrence of RFC 1951, and the
  code of a symbol: the codes of one length are consecutive, in the order of their symbols. A code
  word is sent from its most significant bit on.
\<close>

definition len_count :: "nat list \<Rightarrow> nat \<Rightarrow> nat" where
  "len_count ls b = (if b = 0 then 0 else length (filter ((=) b) ls))"

primrec first_num :: "nat list \<Rightarrow> nat \<Rightarrow> nat" where
  "first_num ls 0 = 0"
| "first_num ls (Suc b) = 2 * (first_num ls b + len_count ls b)"

definition rank :: "nat list \<Rightarrow> nat \<Rightarrow> nat" where
  "rank ls i = length (filter ((=) (ls ! i)) (take i ls))"

definition code_num :: "nat list \<Rightarrow> nat \<Rightarrow> nat" where
  "code_num ls i = first_num ls (ls ! i) + rank ls i"

definition codeword :: "nat list \<Rightarrow> nat \<Rightarrow> bool list" where
  "codeword ls i = map (\<lambda>j. odd (code_num ls i div 2 ^ (ls ! i - 1 - j))) [0..<ls ! i]"

text \<open>Code lengths that are not oversubscribed: the code words of each length fit.\<close>

definition well_coded :: "nat list \<Rightarrow> bool" where
  "well_coded ls \<longleftrightarrow> (\<forall>l \<in> set ls. l \<le> 15) \<and> first_num ls 15 + len_count ls 15 \<le> 2 ^ 15"

text \<open>The place of a symbol among the symbols sorted by length and value.\<close>

primrec base_of :: "nat list \<Rightarrow> nat \<Rightarrow> nat" where
  "base_of ls 0 = 0"
| "base_of ls (Suc b) = base_of ls b + len_count ls b"

lemma length_codeword [simp]: "length (codeword ls i) = ls ! i"
  by (simp add: codeword_def)

lemma len_count_Nil [simp]: "len_count [] b = 0"
  by (simp add: len_count_def)

lemma len_count_Cons: "len_count (l # ls) b = (if b \<noteq> 0 \<and> l = b then 1 else 0) + len_count ls b"
  by (simp add: len_count_def)

lemma base_of_Nil [simp]: "base_of [] b = 0"
  by (induction b) simp_all

lemma base_of_Cons: "base_of (l # ls) b = (if 0 < l \<and> l < b then 1 else 0) + base_of ls b"
  by (induction b) (auto simp: len_count_Cons)

lemma base_of_le: "base_of ls b \<le> length ls"
  by (induction ls) (simp_all add: base_of_Cons)

lemma base_of_mono: "b \<le> c \<Longrightarrow> base_of ls b \<le> base_of ls c"
  by (rule lift_Suc_mono_le [of "base_of ls"]) simp_all

lemma rank_less: "i < length ls \<Longrightarrow> 0 < ls ! i \<Longrightarrow> rank ls i < len_count ls (ls ! i)"
proof -
  assume i: "i < length ls" and l: "0 < ls ! i"
  have "ls = take i ls @ ls ! i # drop (Suc i) ls" using i by (rule id_take_nth_drop)
  then have "filter ((=) (ls ! i)) ls
      = filter ((=) (ls ! i)) (take i ls) @ ls ! i # filter ((=) (ls ! i)) (drop (Suc i) ls)"
    by (metis (mono_tags, lifting) filter.simps(2) filter_append)
  from arg_cong [OF this, of length] show ?thesis
    using l by (simp add: rank_def len_count_def)
qed

lemma rank_mono: "i < j \<Longrightarrow> j < length ls \<Longrightarrow> ls ! i = ls ! j \<Longrightarrow> rank ls i < rank ls j"
proof -
  assume ij: "i < j" "j < length ls" "ls ! i = ls ! j"
  have "take j ls = take i ls @ ls ! i # drop (Suc i) (take j ls)"
    using id_take_nth_drop [of i "take j ls"] ij by simp
  then have "filter ((=) (ls ! j)) (take j ls)
      = filter ((=) (ls ! i)) (take i ls) @ ls ! i # filter ((=) (ls ! i)) (drop (Suc i) (take j ls))"
    by (metis (mono_tags, lifting) filter.simps(2) filter_append ij(3))
  from arg_cong [OF this, of length] show ?thesis by (simp add: rank_def)
qed

lemma rank_attained:
  "k < len_count ls b \<Longrightarrow> \<exists>i < length ls. ls ! i = b \<and> rank ls i = k"
proof (induction ls rule: rev_induct)
  case (snoc l ls)
  have keep: "rank (ls @ [l]) i = rank ls i" if "i < length ls" for i
    using that by (simp add: rank_def nth_append)
  have b: "b \<noteq> 0" using snoc.prems by (auto simp: len_count_def split: if_splits)
  show ?case
  proof (cases "k < len_count ls b")
    case True
    then obtain i where i: "i < length ls" "ls ! i = b" "rank ls i = k" using snoc.IH by blast
    show ?thesis
      by (rule exI [of _ i]) (use i keep [OF i(1)] in \<open>simp add: nth_append\<close>)
  next
    case False
    with snoc.prems have "l = b" "k = len_count ls b"
      by (auto simp: len_count_def split: if_splits)
    then show ?thesis
      by (intro exI [of _ "length ls"]) (simp add: rank_def len_count_def b)
  qed
qed simp

text \<open>Places of different symbols are different, and lie below the number of symbols.\<close>

definition place :: "nat list \<Rightarrow> nat \<Rightarrow> nat" where
  "place ls i = base_of ls (ls ! i) + rank ls i"

lemma place_bound: "i < length ls \<Longrightarrow> 0 < ls ! i \<Longrightarrow> place ls i < base_of ls (Suc (ls ! i))"
  using rank_less [of i ls] by (simp add: place_def)

lemma place_less: "i < length ls \<Longrightarrow> 0 < ls ! i \<Longrightarrow> place ls i < length ls"
  using place_bound [of i ls] base_of_le [of ls "Suc (ls ! i)"] by linarith

lemma place_inj:
  assumes "i < length ls" "j < length ls" "0 < ls ! i" "0 < ls ! j" "place ls i = place ls j"
  shows "i = j"
proof -
  have "ls ! i = ls ! j"
  proof (rule ccontr)
    assume "ls ! i \<noteq> ls ! j"
    then consider "Suc (ls ! i) \<le> ls ! j" | "Suc (ls ! j) \<le> ls ! i" by linarith
    then show False
    proof cases
      case 1
      from base_of_mono [OF this, of ls] show False
        using place_bound [OF assms(1,3)] assms(5) by (simp add: place_def)
    next
      case 2
      from base_of_mono [OF this, of ls] show False
        using place_bound [OF assms(2,4)] assms(5) by (simp add: place_def)
    qed
  qed
  moreover from this have "rank ls i = rank ls j" using assms(5) by (simp add: place_def)
  ultimately show ?thesis
    using rank_mono [of i j ls] rank_mono [of j i ls] assms(1,2) by (cases i j rule: linorder_cases) auto
qed

section \<open>The tables are right\<close>

definition nat_lens :: "u8 list \<Rightarrow> nat list" where
  "nat_lens = map unat"

text \<open>The arrays of a table in memory have the sizes of their declarations.\<close>

definition huff_sizes :: "huff \<Rightarrow> bool" where
  "huff_sizes h \<longleftrightarrow> length (first_code h) = 16 \<and> length (sym_offset h) = 16 \<and> length (syms h) = 288"

text \<open>What a table holds after \<open>huff_build\<close>. The first codes are computed modulo \<open>2^16\<close>.\<close>

definition huff_for :: "huff \<Rightarrow> nat list \<Rightarrow> bool" where
  "huff_for h ls \<longleftrightarrow>
     max_bits h \<le> 15 \<and> (\<forall>l \<in> set ls. l \<le> max_bits h) \<and>
     (\<forall>b. 1 \<le> b \<and> b \<le> max_bits h \<longrightarrow>
        unat (counts h ! b) = len_count ls b \<and> first_code h ! b = of_nat (first_num ls b) \<and>
        unat (sym_offset h ! b) = base_of ls b) \<and>
     (\<forall>i < length ls. 0 < ls ! i \<longrightarrow> unat (syms h ! place ls i) = i)"

lemma count_lens_spec:
  "count_lens lens cnt mx = Some (cnt', mx') \<Longrightarrow> length cnt = 16 \<Longrightarrow> mx \<le> 15 \<Longrightarrow>
     length cnt' = 16 \<and> mx \<le> mx' \<and> mx' \<le> 15 \<and> (\<forall>l \<in> set (nat_lens lens). l \<le> mx') \<and>
     (\<forall>b < 16. cnt' ! b = cnt ! b + of_nat (len_count (nat_lens lens) b))"
proof (induction lens cnt mx rule: count_lens.induct)
  case (2 l lens cnt mx)
  show ?case
  proof (cases "l = 0")
    case True
    with 2 show ?thesis by (auto simp: nat_lens_def len_count_Cons split: if_splits)
  next
    case False
    then have l: "0 < unat l" by (simp add: unat_gt_0)
    have l15: "unat l \<le> 15" using 2(3) by (auto simp: inf_limits split: if_splits)
    let ?mx = "if unat l > mx then unat l else mx"
    have "length cnt' = 16 \<and> ?mx \<le> mx' \<and> mx' \<le> 15 \<and> (\<forall>l \<in> set (nat_lens lens). l \<le> mx') \<and>
      (\<forall>b < 16. cnt' ! b = (cnt[unat l := cnt ! unat l + 1]) ! b + of_nat (len_count (nat_lens lens) b))"
      using 2(1) [OF _ False] 2(3,4,5) l15 False by (auto simp: inf_limits split: if_splits)
    then show ?thesis
      using l l15 2(4) by (auto simp: nat_lens_def len_count_Cons nth_list_update split: if_splits)
  qed
qed (simp add: nat_lens_def)

lemma first_loop_spec:
  "length fst_codes = 16 \<Longrightarrow> b + k \<le> 16 \<Longrightarrow>
     (\<forall>c. b \<le> c \<and> c < b + k \<longrightarrow> cnt ! c = of_nat (len_count ls c)) \<Longrightarrow> code = of_nat (first_num ls b) \<Longrightarrow>
     length (first_loop cnt b k code fst_codes) = 16 \<and>
     (\<forall>c < b. first_loop cnt b k code fst_codes ! c = fst_codes ! c) \<and>
     (\<forall>c. b \<le> c \<and> c < b + k \<longrightarrow> first_loop cnt b k code fst_codes ! c = of_nat (first_num ls c))"
proof (induction cnt b k code fst_codes rule: first_loop.induct)
  case (2 cnt b k code fst_codes)
  have next_code: "push_bit 1 (code + cnt ! b) = of_nat (first_num ls (b + 1))"
    using 2(4,5) by (simp add: push_bit_eq_mult)
  have IH: "length (first_loop cnt (b + 1) k (push_bit 1 (code + cnt ! b)) (fst_codes[b := code])) = 16 \<and>
     (\<forall>c < b + 1. first_loop cnt (b + 1) k (push_bit 1 (code + cnt ! b)) (fst_codes[b := code]) ! c
        = (fst_codes[b := code]) ! c) \<and>
     (\<forall>c. b + 1 \<le> c \<and> c < b + 1 + k \<longrightarrow>
        first_loop cnt (b + 1) k (push_bit 1 (code + cnt ! b)) (fst_codes[b := code]) ! c = of_nat (first_num ls c))"
    by (rule 2(1)) (use 2(2-5) next_code in auto)
  define R where "R = first_loop cnt (b + 1) k (push_bit 1 (code + cnt ! b)) (fst_codes[b := code])"
  have R: "length R = 16" "\<forall>c < b + 1. R ! c = (fst_codes[b := code]) ! c"
      "\<forall>c. b + 1 \<le> c \<and> c < b + 1 + k \<longrightarrow> R ! c = of_nat (first_num ls c)"
    using IH unfolding R_def by blast+
  have at_b: "R ! b = of_nat (first_num ls b)" using R(2) 2(2,3,5) by simp
  have "R ! c = of_nat (first_num ls c)" if "b \<le> c" "c < b + Suc k" for c
    using R(3) at_b that by (cases "c = b") auto
  moreover have "first_loop cnt b (Suc k) code fst_codes = R" by (simp add: R_def)
  ultimately show ?case using R(1,2) by simp
qed auto

lemma offset_loop_spec:
  "length offs = 16 \<Longrightarrow> b + k \<le> 16 \<Longrightarrow>
     (\<forall>c. b \<le> c \<and> c < b + k \<longrightarrow> cnt ! c = of_nat (len_count ls c)) \<Longrightarrow> off = of_nat (base_of ls b) \<Longrightarrow>
     length (offset_loop cnt b k off offs) = 16 \<and>
     (\<forall>c < b. offset_loop cnt b k off offs ! c = offs ! c) \<and>
     (\<forall>c. b \<le> c \<and> c < b + k \<longrightarrow> offset_loop cnt b k off offs ! c = of_nat (base_of ls c))"
proof (induction cnt b k off offs rule: offset_loop.induct)
  case (2 cnt b k off offs)
  have next_off: "off + cnt ! b = of_nat (base_of ls (b + 1))"
    using 2(4,5) by simp
  have IH: "length (offset_loop cnt (b + 1) k (off + cnt ! b) (offs[b := off])) = 16 \<and>
     (\<forall>c < b + 1. offset_loop cnt (b + 1) k (off + cnt ! b) (offs[b := off]) ! c = (offs[b := off]) ! c) \<and>
     (\<forall>c. b + 1 \<le> c \<and> c < b + 1 + k \<longrightarrow>
        offset_loop cnt (b + 1) k (off + cnt ! b) (offs[b := off]) ! c = of_nat (base_of ls c))"
    by (rule 2(1)) (use 2(2-5) next_off in auto)
  define R where "R = offset_loop cnt (b + 1) k (off + cnt ! b) (offs[b := off])"
  have R: "length R = 16" "\<forall>c < b + 1. R ! c = (offs[b := off]) ! c"
      "\<forall>c. b + 1 \<le> c \<and> c < b + 1 + k \<longrightarrow> R ! c = of_nat (base_of ls c)"
    using IH unfolding R_def by blast+
  have at_b: "R ! b = of_nat (base_of ls b)" using R(2) 2(2,3,5) by simp
  have "R ! c = of_nat (base_of ls c)" if "b \<le> c" "c < b + Suc k" for c
    using R(3) at_b that by (cases "c = b") auto
  moreover have "offset_loop cnt b (Suc k) off offs = R" by (simp add: R_def)
  ultimately show ?case using R(1,2) by simp
qed auto

lemma place_syms_spec:
  assumes "ls = nat_lens (pre @ lens)" and "length ls \<le> 288" and "length sy = 288" and "length tmp = 16"
    and "\<forall>l \<in> set (nat_lens lens). l \<le> 15 \<and>
           (0 < l \<longrightarrow> unat (tmp ! l) = base_of ls l + length (filter ((=) l) (take (length pre) ls)))"
  shows "length (place_syms lens (length pre) tmp sy) = 288 \<and>
    (\<forall>j < length ls. 0 < ls ! j \<longrightarrow>
       place_syms lens (length pre) tmp sy ! place ls j =
         (if j < length pre then sy ! place ls j else of_nat j))"
  using assms
proof (induction lens arbitrary: pre tmp sy)
  case Nil
  then show ?case by (auto simp: nat_lens_def)
next
  case (Cons l lens)
  have nth: "ls ! length pre = unat l" "length pre < length ls"
    using Cons.prems(1) by (simp_all add: nat_lens_def nth_append)
  have ls': "ls = nat_lens ((pre @ [l]) @ lens)" using Cons.prems(1) by simp
  have tl: "take (length (pre @ [l])) ls = take (length pre) ls @ [unat l]"
    using nth by (simp add: take_Suc_conv_app_nth)
  show ?case
  proof (cases "l = 0")
    case True
    have "length (place_syms lens (length (pre @ [l])) tmp sy) = 288 \<and>
        (\<forall>j < length ls. 0 < ls ! j \<longrightarrow>
           place_syms lens (length (pre @ [l])) tmp sy ! place ls j =
             (if j < length (pre @ [l]) then sy ! place ls j else of_nat j))"
      by (rule Cons.IH [OF ls' Cons.prems(2-4)]) (use Cons.prems(5) True tl in \<open>auto simp: nat_lens_def\<close>)
    moreover have "j < length (pre @ [l]) \<longleftrightarrow> j < length pre" if "0 < ls ! j" for j
      using that nth True by (auto simp: less_Suc_eq)
    ultimately show ?thesis using True by simp
  next
    case False
    then have l: "0 < unat l" by (simp add: unat_gt_0)
    have l15: "unat l \<le> 15" and at: "unat (tmp ! unat l) = place ls (length pre)"
      using Cons.prems(5) l nth by (simp_all add: nat_lens_def place_def rank_def)
    have pl: "place ls (length pre) < 288"
      using place_less [OF nth(2)] l nth(1) Cons.prems(2) by simp
    let ?tmp = "tmp[unat l := tmp ! unat l + 1]" and ?sy = "sy[unat (tmp ! unat l) := of_nat (length pre)]"
    have bump: "unat (tmp ! unat l + 1) = place ls (length pre) + 1"
      using pl at by (simp add: unat_word_ariths)
    have "length (place_syms lens (length (pre @ [l])) ?tmp ?sy) = 288 \<and>
        (\<forall>j < length ls. 0 < ls ! j \<longrightarrow>
           place_syms lens (length (pre @ [l])) ?tmp ?sy ! place ls j =
             (if j < length (pre @ [l]) then ?sy ! place ls j else of_nat j))"
    proof (rule Cons.IH [OF ls' Cons.prems(2)])
      show "\<forall>k \<in> set (nat_lens lens). k \<le> 15 \<and>
          (0 < k \<longrightarrow> unat (?tmp ! k) = base_of ls k + length (filter ((=) k) (take (length (pre @ [l])) ls)))"
        using Cons.prems(4,5) tl bump l15 nth
        by (auto simp: nat_lens_def nth_list_update place_def rank_def)
    qed (use Cons.prems in simp_all)
    moreover have "?sy ! place ls j = (if j = length pre then of_nat j else sy ! place ls j)"
      if "j < length ls" "0 < ls ! j" for j
      using place_inj [of j ls "length pre"] that nth l at pl Cons.prems(3) by (auto simp: nth_list_update)
    ultimately show ?thesis using False by (auto simp: less_Suc_eq)
  qed
qed

lemma base_of_drop: "\<forall>l \<in> set ls. l < b \<Longrightarrow> len_count ls b = 0"
  by (auto simp: len_count_def filter_empty_conv)

theorem huff_build_for:
  assumes "huff_build h lens = Some t" and "huff_sizes h" and "length lens \<le> 288"
  shows "huff_for t (nat_lens lens) \<and> huff_sizes t"
proof -
  let ?ls = "nat_lens lens"
  obtain cnt mx where cm: "count_lens lens (replicate 16 0) 0 = Some (cnt, mx)"
    using assms(1) by (auto simp: huff_build_def inf_limits split: option.splits)
  have c: "length cnt = 16" "mx \<le> 15" "\<forall>l \<in> set ?ls. l \<le> mx" "\<forall>b < 16. cnt ! b = of_nat (len_count ?ls b)"
    using count_lens_spec [OF cm] by simp_all
  let ?offs = "offset_loop cnt 1 mx 0 (sym_offset h)"
  have t: "t = h\<lparr>max_bits := mx, counts := cnt, first_code := first_loop cnt 1 mx 0 (first_code h),
      sym_offset := ?offs, syms := place_syms lens 0 ?offs (syms h)\<rparr>"
    using assms(1) cm by (simp add: huff_build_def inf_limits Let_def)
  have f: "length (first_loop cnt 1 mx 0 (first_code h)) = 16"
      "\<forall>b. 1 \<le> b \<and> b < 1 + mx \<longrightarrow> first_loop cnt 1 mx 0 (first_code h) ! b = of_nat (first_num ?ls b)"
    using first_loop_spec [of "first_code h" 1 mx cnt ?ls 0] c assms(2)
    by (auto simp: huff_sizes_def len_count_def)
  have o: "length ?offs = 16" "\<forall>b. 1 \<le> b \<and> b < 1 + mx \<longrightarrow> ?offs ! b = of_nat (base_of ?ls b)"
    using offset_loop_spec [of "sym_offset h" 1 mx cnt ?ls 0] c assms(2)
    by (auto simp: huff_sizes_def len_count_def)
  have small: "unat (of_nat n :: u16) = n" if "n \<le> 288" for n
    using that by (simp add: unat_of_nat)
  have len: "length ?ls \<le> 288" using assms(3) by (simp add: nat_lens_def)
  have base: "base_of ?ls b \<le> 288" "len_count ?ls b \<le> 288" for b
    using base_of_le [of ?ls b] base_of_le [of ?ls "Suc b"] len by simp_all
  have start: "\<forall>l \<in> set ?ls. l \<le> 15 \<and>
      (0 < l \<longrightarrow> unat (?offs ! l) = base_of ?ls l + length (filter ((=) l) (take (length ([] :: octets)) ?ls)))"
  proof (intro ballI conjI impI)
    fix l assume l: "l \<in> set ?ls"
    then have "l \<le> mx" using c(3) by blast
    then show "l \<le> 15" using c(2) by simp
    assume "0 < l"
    then show "unat (?offs ! l) = base_of ?ls l + length (filter ((=) l) (take (length ([] :: octets)) ?ls))"
      using o(2) \<open>l \<le> mx\<close> base by (simp add: small)
  qed
  have "length (place_syms lens 0 ?offs (syms h)) = 288 \<and>
      (\<forall>j < length ?ls. 0 < ?ls ! j \<longrightarrow> place_syms lens 0 ?offs (syms h) ! place ?ls j = of_nat j)"
    using place_syms_spec [of ?ls "[]" lens "syms h" ?offs, OF _ len _ o(1) start] assms(2)
    by (simp add: huff_sizes_def)
  then have p: "length (syms t) = 288" "\<forall>j < length ?ls. 0 < ?ls ! j \<longrightarrow> unat (syms t ! place ?ls j) = j"
    using len by (simp_all add: t small)
  have "unat (counts t ! b) = len_count ?ls b \<and> first_code t ! b = of_nat (first_num ?ls b) \<and>
      unat (sym_offset t ! b) = base_of ?ls b" if "1 \<le> b" "b \<le> max_bits t" for b
    using that c f o small base by (simp add: t)
  then show ?thesis using c(2,3) p f o by (simp add: huff_for_def huff_sizes_def t)
qed

section \<open>Decoding\<close>

lemma first_num_mono: "2 ^ k * (first_num ls b + len_count ls b) \<le> first_num ls (b + k) + len_count ls (b + k)"
proof (induction k)
  case (Suc k)
  have "2 ^ Suc k * (first_num ls b + len_count ls b) \<le> 2 * (first_num ls (b + k) + len_count ls (b + k))"
    using Suc by simp
  then show ?case by simp
qed simp

lemma first_num_later:
  assumes "b < l"
  shows "2 ^ (l - b) * (first_num ls b + len_count ls b) \<le> first_num ls l"
proof -
  obtain k where k: "l = Suc (b + k)" using assms by (auto simp: less_iff_Suc_add)
  have "2 ^ Suc k * (first_num ls b + len_count ls b) \<le> first_num ls (Suc (b + k))"
    using first_num_mono [of k ls b] by simp
  then show ?thesis by (simp add: k)
qed

lemma well_coded_first:
  assumes "well_coded ls" and "b \<le> 15"
  shows "first_num ls b + len_count ls b \<le> 2 ^ b"
proof -
  have "2 ^ (15 - b) * (first_num ls b + len_count ls b) \<le> 2 ^ 15"
    using first_num_mono [of "15 - b" ls b] assms by (simp add: well_coded_def)
  also have "(2::nat) ^ 15 = 2 ^ (15 - b) * 2 ^ b" using assms(2) by (simp flip: power_add)
  finally show ?thesis by simp
qed

lemma code_num_less:
  assumes "well_coded ls" and "i < length ls" and "0 < ls ! i"
  shows "code_num ls i < first_num ls (ls ! i) + len_count ls (ls ! i)"
    and "code_num ls i < 2 ^ (ls ! i)" and "ls ! i \<le> 15"
proof -
  show l: "ls ! i \<le> 15" using assms by (auto simp: well_coded_def)
  show less: "code_num ls i < first_num ls (ls ! i) + len_count ls (ls ! i)"
    using rank_less [OF assms(2,3)] by (simp add: code_num_def)
  with well_coded_first [OF assms(1) l] show "code_num ls i < 2 ^ (ls ! i)" by linarith
qed

lemma one_bit:
  assumes "inf_ok s" and "pending s = c # r"
  shows "\<exists>s'. inf_bits s 1 = (of_bool c, s') \<and> after s [c] (out_buf s) s'"
  using bits_enough [OF assms(1), of 1 "[c]" r] assms(2) by simp

lemma codeword_nth: "j < ls ! i \<Longrightarrow> codeword ls i ! j = odd (code_num ls i div 2 ^ (ls ! i - 1 - j))"
  by (simp add: codeword_def)

lemma unat_ucast_16_32: "unat (ucast (w :: u16) :: u32) = unat w"
proof -
  have "unat w < 4294967296" using unat_u16_less [of w] by linarith
  then show ?thesis by (simp add: unsigned_ucast_eq take_bit_nat_eq_self)
qed

lemma push_or_bit:
  assumes "unat code < 2 ^ 30"
  shows "unat (push_bit 1 code OR of_bool c :: u32) = 2 * unat code + of_bool c"
proof -
  have "push_bit 1 code OR of_bool c = 2 * code + of_bool c"
    by (cases c) (simp_all add: push_bit_eq_mult or_one_eq mult.commute)
  then show ?thesis using assms by (cases c) (simp_all add: unat_word_ariths)
qed

text \<open>One step of the loop: \<open>b\<close> bits of the code have been read after it.\<close>

lemma decode_step:
  assumes wc: "well_coded ls" "i < length ls" "0 < ls ! i" and s: "inf_ok s" and b: "1 \<le> b" "b \<le> ls ! i"
    and p: "pending s = drop (b - 1) (codeword ls i) @ r" and code: "unat code = code_num ls i div 2 ^ (ls ! i - (b - 1))"
  shows "\<exists>v s'. inf_bits s 1 = (v, s') \<and> after s [codeword ls i ! (b - 1)] (out_buf s) s' \<and>
    unat (push_bit 1 code OR v) = code_num ls i div 2 ^ (ls ! i - b)"
proof -
  let ?c = "codeword ls i ! (b - 1)" and ?m = "ls ! i - b" and ?N = "code_num ls i"
  have "drop (b - 1) (codeword ls i) = ?c # drop b (codeword ls i)"
    using b Cons_nth_drop_Suc [of "b - 1" "codeword ls i"] by simp
  then obtain s' where s': "inf_bits s 1 = (of_bool ?c, s')" "after s [?c] (out_buf s) s'"
    using one_bit [OF s, of ?c] p by auto
  have c: "?c = odd (?N div 2 ^ ?m)" using b by (simp add: codeword_nth)
  have m: "ls ! i - (b - 1) = Suc ?m" using b by simp
  have "?N < 2 ^ 15"
    using code_num_less(2,3) [OF wc] power_increasing [of "ls ! i" 15 "2::nat"] by linarith
  then have "unat code < 2 ^ 30" using code by (simp add: le_less_trans [OF div_le_dividend])
  then have "unat (push_bit 1 code OR of_bool ?c) = 2 * (?N div 2 ^ Suc ?m) + of_bool (odd (?N div 2 ^ ?m))"
    using push_or_bit [of code ?c] code c unfolding m by simp
  also have "\<dots> = ?N div 2 ^ ?m"
    unfolding power_Suc2 div_mult2_eq by (cases "even (?N div 2 ^ ?m)") simp_all
  finally show ?thesis using s' by blast
qed

text \<open>The loop at the bit \<open>b\<close> has read the \<open>b - 1\<close> most significant bits of the code.\<close>

lemma decode_loop_code:
  assumes t: "huff_for t ls" and wc: "well_coded ls" "i < length ls" "0 < ls ! i"
  shows "inf_ok s \<Longrightarrow> inf_err s = 0 \<Longrightarrow> 1 \<le> b \<Longrightarrow> b \<le> ls ! i \<Longrightarrow>
    pending s = drop (b - 1) (codeword ls i) @ r \<Longrightarrow> unat code = code_num ls i div 2 ^ (ls ! i - (b - 1)) \<Longrightarrow>
    \<exists>s'. huff_decode_loop s t b code = (Some i, s') \<and> after s (drop (b - 1) (codeword ls i)) (out_buf s) s'"
proof (induction "ls ! i - b" arbitrary: s b code rule: less_induct)
  case less
  let ?l = "ls ! i" and ?N = "code_num ls i"
  have max: "?l \<le> max_bits t" "max_bits t \<le> 15" using t wc(2) by (auto simp: huff_for_def)
  then have tab: "unat (counts t ! b) = len_count ls b" "first_code t ! b = of_nat (first_num ls b)"
      "unat (sym_offset t ! b) = base_of ls b"
    using t less.prems(3,4) by (auto simp: huff_for_def)
  have first15: "first_num ls b + len_count ls b \<le> 2 ^ b" "(2::nat) ^ b \<le> 2 ^ 15"
    using well_coded_first [OF wc(1), of b] less.prems(4) max power_increasing [of b 15 "2::nat"] by linarith+
  have fc: "unat (first_code t ! b) = first_num ls b"
    using first15 unfolding tab by (simp add: unat_of_nat)
  obtain v s1 where v: "inf_bits s 1 = (v, s1)" and aft: "after s [codeword ls i ! (b - 1)] (out_buf s) s1"
    and code: "unat (push_bit 1 code OR v) = ?N div 2 ^ (?l - b)"
    using decode_step [OF wc less.prems(1,3,4,5,6)] by blast
  have err: "inf_err s1 = 0" using aft less.prems(2) by (simp add: after_def)
  have split: "drop (b - 1) (codeword ls i) = codeword ls i ! (b - 1) # drop b (codeword ls i)"
    using less.prems(3,4) Cons_nth_drop_Suc [of "b - 1" "codeword ls i"] by simp
  let ?code = "push_bit 1 code OR v"
  have ge: "?code \<ge> ucast (first_code t ! b) \<longleftrightarrow> first_num ls b \<le> ?N div 2 ^ (?l - b)"
    using fc code by (simp add: word_le_nat_alt unat_ucast_16_32)
  show ?case
  proof (cases "b = ?l")
    case True
    have in_range: "first_num ls b \<le> ?N" "?N < first_num ls b + len_count ls b"
      using code_num_less(1) [OF wc] True by (simp_all add: code_num_def)
    have diff: "unat (?code - ucast (first_code t ! b)) = rank ls i"
      using ge in_range code fc True
      by (simp add: unat_sub word_le_nat_alt unat_ucast_16_32 code_num_def)
    have "counts t ! b \<noteq> 0" using tab(1) in_range by auto
    then have "huff_decode_loop s t b code = (Some (unat (syms t ! (base_of ls b + rank ls i))), s1)"
      using v err max True ge in_range code fc tab diff
      by (subst huff_decode_loop.simps) (simp add: Let_def)
    moreover have "unat (syms t ! (base_of ls b + rank ls i)) = i"
      using t wc True by (auto simp: huff_for_def place_def)
    ultimately show ?thesis using aft split True by simp
  next
    case False
    with less.prems(4) have bl: "b < ?l" by simp
    have "first_num ls b + len_count ls b \<le> ?N div 2 ^ (?l - b)"
    proof -
      have "2 ^ (?l - b) * (first_num ls b + len_count ls b) \<le> ?N"
        using first_num_later [OF bl, of ls] by (simp add: code_num_def)
      then show ?thesis by (simp add: less_eq_div_iff_mult_less_eq mult.commute)
    qed
    then have "huff_decode_loop s t b code = huff_decode_loop s1 t (b + 1) ?code"
      using v err max bl code fc tab
      by (subst huff_decode_loop.simps) (simp add: Let_def)
    moreover have "pending s1 = drop (b + 1 - 1) (codeword ls i) @ r"
      using after_pending [OF aft, of "drop b (codeword ls i) @ r"] less.prems(5) split by simp
    then obtain s' where "huff_decode_loop s1 t (b + 1) ?code = (Some i, s')"
        "after s1 (drop (b + 1 - 1) (codeword ls i)) (out_buf s1) s'"
      using less.hyps [of "b + 1" s1 ?code] diff_less_mono2 [of b "b + 1" ?l] bl err code after_ok [OF aft] by auto
    moreover have "out_buf s1 = out_buf s" using aft by (simp add: after_def)
    ultimately show ?thesis using after_trans [OF aft] split by fastforce
  qed
qed

theorem huff_decode_code:
  assumes "huff_for t ls" and "well_coded ls" and "i < length ls" and "0 < ls ! i"
    and "inf_ok s" and "inf_err s = 0" and "pending s = codeword ls i @ r"
  shows "\<exists>s'. huff_decode s t = (Some i, s') \<and> after s (codeword ls i) (out_buf s) s'"
proof -
  have "unat (0 :: u32) = code_num ls i div 2 ^ (ls ! i - (1 - 1))"
    using code_num_less(2) [OF assms(2-4)] by simp
  from decode_loop_code [OF assms(1-6), of 1 r 0] this assms(4,7) show ?thesis
    by (simp add: huff_decode_def)
qed

text \<open>Whatever the code lengths are, a decoded symbol is one of the alphabet.\<close>

lemma decode_loop_bound:
  "huff_for t ls \<Longrightarrow> 1 \<le> b \<Longrightarrow> huff_decode_loop s t b code = (Some k, s') \<Longrightarrow> k < length ls"
proof (induction s t b code rule: huff_decode_loop.induct)
  case (1 s t b code)
  obtain v s1 where v: "inf_bits s 1 = (v, s1)" by (cases "inf_bits s 1")
  let ?code = "push_bit 1 code OR v"
  show ?case
  proof (cases "b \<le> max_bits t \<and> inf_err s1 = 0")
    case False
    then show ?thesis using 1(4) v by (subst (asm) huff_decode_loop.simps) (auto simp: Let_def split: if_splits)
  next
    case True
    then have tab: "unat (counts t ! b) = len_count ls b" "unat (sym_offset t ! b) = base_of ls b"
      using 1(2,3) by (auto simp: huff_for_def)
    show ?thesis
    proof (cases "counts t ! b \<noteq> 0 \<and> ?code \<ge> ucast (first_code t ! b) \<and>
        unat ?code < unat (first_code t ! b) + unat (counts t ! b)")
      case True': True
      let ?d = "unat (?code - ucast (first_code t ! b))"
      have "?d < len_count ls b"
        using True' tab(1) by (auto simp: unat_sub word_le_nat_alt unat_ucast_16_32)
      then obtain i where i: "i < length ls" "ls ! i = b" "rank ls i = ?d" using rank_attained by blast
      have "k = unat (syms t ! (base_of ls b + ?d))"
        using 1(4) v True True' tab(2) by (subst (asm) huff_decode_loop.simps) (simp add: Let_def)
      also have "\<dots> = i" using 1(2,3) i by (auto simp: huff_for_def place_def)
      finally show ?thesis using i by simp
    next
      case False
      then show ?thesis
        using 1(1) [OF _ v [symmetric] refl] 1(2-4) True v
        by (subst (asm) (2) huff_decode_loop.simps) (auto simp: Let_def split: if_splits)
    qed
  qed
qed

lemma huff_decode_bound: "huff_for t ls \<Longrightarrow> huff_decode s t = (Some k, s') \<Longrightarrow> k < length ls"
  unfolding huff_decode_def by (rule decode_loop_bound) simp_all

end
