(* ===== verification/Akpkg_Deflate.thy ===== *)
theory Akpkg_Deflate
  imports Akpkg_Huffman
begin

text \<open>
  The DEFLATE format of RFC 1951 as an encoder: tokens, blocks and the bits that represent them; and
  the proof that the decompressor inverts it on every sequence of valid blocks.
\<close>

section \<open>The format\<close>

text \<open>A number of \<open>n\<close> bits, least significant bit first.\<close>

definition num_bits :: "nat \<Rightarrow> nat \<Rightarrow> bool list" where
  "num_bits n v = map (bit v) [0..<n]"

text \<open>A copy names its length and distance by symbols and the values of their extra bits.\<close>

datatype token = Literal u8 | Copy nat nat nat nat

definition copy_length :: "nat \<Rightarrow> nat \<Rightarrow> nat" where
  "copy_length lsym lx = k_len_base ! lsym + lx"

definition copy_distance :: "nat \<Rightarrow> nat \<Rightarrow> nat" where
  "copy_distance dsym dx = k_dist_base ! dsym + dx"

text \<open>A copy repeats the octet \<open>d\<close> places back, octet by octet, so it may overlap itself.\<close>

primrec lz_copy :: "octets \<Rightarrow> nat \<Rightarrow> nat \<Rightarrow> octets" where
  "lz_copy out d 0 = out"
| "lz_copy out d (Suc n) = lz_copy out d n @ [lz_copy out d n ! (length (lz_copy out d n) - d)]"

fun token_out :: "octets \<Rightarrow> token \<Rightarrow> octets" where
  "token_out out (Literal b) = out @ [b]"
| "token_out out (Copy lsym lx dsym dx) = lz_copy out (copy_distance dsym dx) (copy_length lsym lx)"

definition has_code :: "nat list \<Rightarrow> nat \<Rightarrow> bool" where
  "has_code ls i \<longleftrightarrow> i < length ls \<and> 0 < ls ! i"

fun token_ok :: "nat list \<Rightarrow> nat list \<Rightarrow> octets \<Rightarrow> token \<Rightarrow> bool" where
  "token_ok ll dl out (Literal b) \<longleftrightarrow> has_code ll (unat b)"
| "token_ok ll dl out (Copy lsym lx dsym dx) \<longleftrightarrow>
     lsym < 29 \<and> has_code ll (257 + lsym) \<and> lx < 2 ^ (k_len_extra ! lsym) \<and>
     dsym < 30 \<and> has_code dl dsym \<and> dx < 2 ^ (k_dist_extra ! dsym) \<and>
     copy_distance dsym dx \<le> length out"

fun token_bits :: "nat list \<Rightarrow> nat list \<Rightarrow> token \<Rightarrow> bool list" where
  "token_bits ll dl (Literal b) = codeword ll (unat b)"
| "token_bits ll dl (Copy lsym lx dsym dx) =
     codeword ll (257 + lsym) @ num_bits (k_len_extra ! lsym) lx @
     codeword dl dsym @ num_bits (k_dist_extra ! dsym) dx"

fun tokens_ok :: "nat list \<Rightarrow> nat list \<Rightarrow> octets \<Rightarrow> token list \<Rightarrow> bool" where
  "tokens_ok ll dl out [] \<longleftrightarrow> has_code ll 256"
| "tokens_ok ll dl out (t # ts) \<longleftrightarrow> token_ok ll dl out t \<and> tokens_ok ll dl (token_out out t) ts"

definition tokens_out :: "octets \<Rightarrow> token list \<Rightarrow> octets" where
  "tokens_out = foldl token_out"

text \<open>The tokens of a block end with the symbol 256.\<close>

definition tokens_bits :: "nat list \<Rightarrow> nat list \<Rightarrow> token list \<Rightarrow> bool list" where
  "tokens_bits ll dl ts = concat (map (token_bits ll dl) ts) @ codeword ll 256"

text \<open>The code lengths of a dynamic block are themselves coded, with runs.\<close>

datatype cl_item = Len nat | Repeat nat | Zeros3 nat | Zeros11 nat

fun item_out :: "nat list \<Rightarrow> cl_item \<Rightarrow> nat list" where
  "item_out ls (Len l) = ls @ [l]"
| "item_out ls (Repeat x) = ls @ replicate (x + 3) (last ls)"
| "item_out ls (Zeros3 x) = ls @ replicate (x + 3) 0"
| "item_out ls (Zeros11 x) = ls @ replicate (x + 11) 0"

fun item_sym :: "cl_item \<Rightarrow> nat" where
  "item_sym (Len l) = l"
| "item_sym (Repeat x) = 16"
| "item_sym (Zeros3 x) = 17"
| "item_sym (Zeros11 x) = 18"

fun item_extra :: "cl_item \<Rightarrow> bool list" where
  "item_extra (Len l) = []"
| "item_extra (Repeat x) = num_bits 2 x"
| "item_extra (Zeros3 x) = num_bits 3 x"
| "item_extra (Zeros11 x) = num_bits 7 x"

fun item_ok :: "nat list \<Rightarrow> cl_item \<Rightarrow> bool" where
  "item_ok ls (Len l) \<longleftrightarrow> l < 16"
| "item_ok ls (Repeat x) \<longleftrightarrow> ls \<noteq> [] \<and> x < 4"
| "item_ok ls (Zeros3 x) \<longleftrightarrow> x < 8"
| "item_ok ls (Zeros11 x) \<longleftrightarrow> x < 128"

definition item_bits :: "nat list \<Rightarrow> cl_item \<Rightarrow> bool list" where
  "item_bits cl it = codeword cl (item_sym it) @ item_extra it"

fun items_ok :: "nat list \<Rightarrow> nat list \<Rightarrow> cl_item list \<Rightarrow> bool" where
  "items_ok cl ls [] \<longleftrightarrow> True"
| "items_ok cl ls (it # its) \<longleftrightarrow>
     has_code cl (item_sym it) \<and> item_ok ls it \<and> items_ok cl (item_out ls it) its"

definition items_out :: "nat list \<Rightarrow> cl_item list \<Rightarrow> nat list" where
  "items_out = foldl item_out"

text \<open>
  A stored block has padding up to the octet boundary; a dynamic block the sizes of its alphabets,
  the number of code length codes sent, the 19 code length code lengths and the coded lengths.
\<close>

datatype block =
    Stored "bool list" octets
  | Fixed "token list"
  | Dynamic nat nat nat "nat list" "cl_item list" "token list"

definition fixed_ll :: "nat list" where
  "fixed_ll = replicate 144 8 @ replicate 112 9 @ replicate 24 7 @ replicate 8 8"

definition fixed_dl :: "nat list" where
  "fixed_dl = replicate 30 5 @ replicate 2 0"

definition stored_header :: "octets \<Rightarrow> octets" where
  "stored_header d =
     (let w = of_nat (length d) :: u16
      in [ucast w, ucast (drop_bit 8 w), ucast (NOT w), ucast (drop_bit 8 (NOT w))])"

fun block_out :: "octets \<Rightarrow> block \<Rightarrow> octets" where
  "block_out out (Stored pad d) = out @ d"
| "block_out out (Fixed ts) = tokens_out out ts"
| "block_out out (Dynamic hlit hdist hclen cl its ts) = tokens_out out ts"

text \<open>A block that starts at the bit \<open>pos\<close> of the stream, without its first bit.\<close>

fun block_bits :: "block \<Rightarrow> bool list" where
  "block_bits (Stored pad d) = num_bits 2 0 @ pad @ stream (stored_header d @ d)"
| "block_bits (Fixed ts) = num_bits 2 1 @ tokens_bits fixed_ll fixed_dl ts"
| "block_bits (Dynamic hlit hdist hclen cl its ts) =
     num_bits 2 2 @ num_bits 5 (hlit - 257) @ num_bits 5 (hdist - 1) @ num_bits 4 (hclen - 4) @
     concat (map (\<lambda>k. num_bits 3 (cl ! k)) (take hclen clen_order)) @
     concat (map (item_bits cl) its) @
     tokens_bits (take hlit (items_out [] its)) (drop hlit (items_out [] its)) ts"

fun block_ok :: "nat \<Rightarrow> octets \<Rightarrow> block \<Rightarrow> bool" where
  "block_ok pos out (Stored pad d) \<longleftrightarrow>
     length pad < 8 \<and> (pos + 3 + length pad) mod 8 = 0 \<and> length d < 2 ^ 16"
| "block_ok pos out (Fixed ts) \<longleftrightarrow> tokens_ok fixed_ll fixed_dl out ts"
| "block_ok pos out (Dynamic hlit hdist hclen cl its ts) \<longleftrightarrow>
     257 \<le> hlit \<and> hlit \<le> 288 \<and> 1 \<le> hdist \<and> hdist \<le> 32 \<and> 4 \<le> hclen \<and> hclen \<le> 19 \<and>
     length cl = 19 \<and> (\<forall>l \<in> set cl. l < 8) \<and> (\<forall>k \<in> set (drop hclen clen_order). cl ! k = 0) \<and>
     well_coded cl \<and> items_ok cl [] its \<and> length (items_out [] its) = hlit + hdist \<and>
     well_coded (take hlit (items_out [] its)) \<and> well_coded (drop hlit (items_out [] its)) \<and>
     tokens_ok (take hlit (items_out [] its)) (drop hlit (items_out [] its)) out ts"

text \<open>The blocks of a stream; the first bit of a block tells whether it is the last one.\<close>

fun blocks_bits :: "block list \<Rightarrow> bool list" where
  "blocks_bits [] = []"
| "blocks_bits (b # bs) = (bs = []) # block_bits b @ blocks_bits bs"

fun blocks_ok :: "nat \<Rightarrow> octets \<Rightarrow> block list \<Rightarrow> bool" where
  "blocks_ok pos out [] \<longleftrightarrow> False"
| "blocks_ok pos out (b # bs) \<longleftrightarrow>
     block_ok pos out b \<and> (bs \<noteq> [] \<longrightarrow> blocks_ok (pos + 1 + length (block_bits b)) (block_out out b) bs)"

definition blocks_out :: "octets \<Rightarrow> block list \<Rightarrow> octets" where
  "blocks_out = foldl block_out"

section \<open>Writing octets\<close>

lemma emit_after:
  assumes "inf_ok s" and "length (out_buf s) < out_cap s"
  shows "\<exists>s'. inf_emit s c = (True, s') \<and> after s [] (out_buf s @ [c]) s'"
proof -
  let ?s = "s\<lparr>out_buf := out_buf s @ [c]\<rparr>"
  have c: "consumed ?s = consumed s" by (simp add: consumed_def)
  have "inf_ok ?s" using inf_okD [OF assms(1)] assms(2) by (simp add: inf_ok_def c)
  then show ?thesis using assms(2) c by (auto simp: inf_emit_def after_def)
qed

lemma length_lz_copy [simp]: "length (lz_copy out d n) = length out + n"
  by (induction n) simp_all

lemma lz_copy_nth:
  assumes "0 < d" and "d \<le> length out"
  shows "k < n \<Longrightarrow> lz_copy out d n ! (length out + k) = out ! (length out - d + k mod d)"
    and "j < length out \<Longrightarrow> lz_copy out d n ! j = out ! j"
proof (induction n arbitrary: k j)
  case (Suc n)
  {
    case 1
    show ?case
    proof (cases "k = n")
      case True
      have "lz_copy out d n ! (length out + n - d) = out ! (length out - d + n mod d)"
      proof (cases "n < d")
        case True
        then have "length out + n - d < length out" "length out + n - d = length out - d + n"
          using assms by simp_all
        then show ?thesis using Suc(2) True by simp
      next
        case False
        then have "length out + n - d = length out + (n - d)" "n - d < n" using assms by simp_all
        then show ?thesis using Suc(1) [of "n - d"] False by (simp add: le_mod_geq)
      qed
      then show ?thesis using True by (simp add: nth_append)
    next
      case False
      then show ?thesis using 1 Suc(1) by (simp add: nth_append)
    qed
  next
    case 2
    then show ?case using Suc(2) by (simp add: nth_append)
  }
qed simp_all

lemma lz_copy_back:
  assumes "0 < d" and "d \<le> length out"
  shows "lz_copy out d i ! (length out + i - d) = lz_copy out d i ! (length out - d + i mod d)"
proof -
  have "lz_copy out d (Suc i) ! (length out + i) = lz_copy out d i ! (length out + i - d)"
    by (simp add: nth_append)
  moreover have "i mod d < d" using assms(1) by simp
  then have "length out - d + i mod d < length out" using assms(2) by linarith
  ultimately show ?thesis
    using lz_copy_nth [OF assms, of i "Suc i"] lz_copy_nth(2) [OF assms, of "length out - d + i mod d" i] by simp
qed

lemma copy_after:
  assumes d: "0 < d" "d \<le> length out"
  shows "inf_ok s \<Longrightarrow> out_buf s = lz_copy out d i \<Longrightarrow> length out + i + n \<le> out_cap s \<Longrightarrow>
    \<exists>s'. inf_copy s (length out - d) d i n = (True, s') \<and> after s [] (lz_copy out d (i + n)) s'"
proof (induction n arbitrary: s i)
  case 0
  then show ?case using after_refl [of s] by simp
next
  case (Suc n)
  obtain t where t: "inf_emit s (out_buf s ! (length out - d + i mod d)) = (True, t)"
      "after s [] (lz_copy out d (Suc i)) t"
    using emit_after [OF Suc.prems(1), of "out_buf s ! (length out - d + i mod d)"] Suc.prems lz_copy_back [OF d, of i]
    by auto
  have "out_buf t = lz_copy out d (Suc i)" "out_cap t = out_cap s" using t(2) by (simp_all only: after_def)
  then obtain s' where "inf_copy t (length out - d) d (Suc i) n = (True, s')"
      "after t [] (lz_copy out d (Suc i + n)) s'"
    using Suc.IH [of t "Suc i"] after_ok [OF t(2)] Suc.prems(3) by auto
  then show ?case using t(1) after_trans [OF t(2)] by fastforce
qed

section \<open>Numbers and symbols\<close>

lemma length_num_bits [simp]: "length (num_bits n v) = n"
  by (simp add: num_bits_def)

lemma value_of_num_bits: "v < 2 ^ n \<Longrightarrow> value_of (num_bits n v) = v"
  by (simp add: value_of_def num_bits_def horner_sum_bit_eq_take_bit take_bit_nat_eq_self)

lemma bits_num:
  assumes "inf_ok s" and "n \<le> 24" and "v < 2 ^ n" and "pending s = num_bits n v @ r"
  shows "\<exists>w s'. inf_bits s n = (w, s') \<and> unat w = v \<and> after s (num_bits n v) (out_buf s) s'"
proof -
  have "(2::nat) ^ n \<le> 2 ^ 24" using assms(2) by (intro power_increasing) simp_all
  then have "v < 2 ^ 24" using assms(3) by linarith
  then have "unat (of_nat v :: u32) = v" by (simp add: unat_of_nat)
  then show ?thesis
    using bits_enough [OF assms(1,2,4)] value_of_num_bits [OF assms(3)] by auto
qed

text \<open>A table for a list of lengths, ready to decode.\<close>

definition table_for :: "huff \<Rightarrow> nat list \<Rightarrow> bool" where
  "table_for t ls \<longleftrightarrow> huff_for t ls \<and> well_coded ls"

lemma decode_after:
  assumes "table_for t ls" and "has_code ls i" and "inf_ok s" and "inf_err s = 0"
    and "pending s = codeword ls i @ r"
  shows "\<exists>s'. huff_decode s t = (Some i, s') \<and> after s (codeword ls i) (out_buf s) s'"
  using huff_decode_code [of t ls i s r] assms by (simp add: table_for_def has_code_def)

lemma len_extra_le: "i < 29 \<Longrightarrow> k_len_extra ! i \<le> 24"
proof -
  assume "i < 29"
  moreover have "\<forall>x \<in> set k_len_extra. x \<le> 24" by (simp add: k_len_extra_def)
  moreover have "length k_len_extra = 29" by (simp add: k_len_extra_def)
  ultimately show ?thesis by (metis nth_mem)
qed

lemma dist_extra_le: "i < 30 \<Longrightarrow> k_dist_extra ! i \<le> 24 \<and> 0 < k_dist_base ! i"
proof -
  assume "i < 30"
  moreover have "\<forall>x \<in> set k_dist_extra. x \<le> 24" "\<forall>x \<in> set k_dist_base. 0 < x"
    by (simp_all add: k_dist_extra_def k_dist_base_def)
  moreover have "length k_dist_extra = 30" "length k_dist_base = 30"
    by (simp_all add: k_dist_extra_def k_dist_base_def)
  ultimately show ?thesis by (metis nth_mem)
qed

lemma match_after:
  assumes dist: "table_for dist dl" and tok: "token_ok ll dl (out_buf s) (Copy lsym lx dsym dx)"
    and s: "inf_ok s" "inf_err s = 0"
    and cap: "length (out_buf s) + copy_length lsym lx \<le> out_cap s"
    and p: "pending s = num_bits (k_len_extra ! lsym) lx @ codeword dl dsym @ num_bits (k_dist_extra ! dsym) dx @ r"
  shows "\<exists>s'. inf_match s dist lsym = (True, s') \<and>
    after s (num_bits (k_len_extra ! lsym) lx @ codeword dl dsym @ num_bits (k_dist_extra ! dsym) dx)
      (token_out (out_buf s) (Copy lsym lx dsym dx)) s'"
proof -
  have tk: "lsym < 29" "lx < 2 ^ (k_len_extra ! lsym)" "dsym < 30" "has_code dl dsym"
      "dx < 2 ^ (k_dist_extra ! dsym)" "copy_distance dsym dx \<le> length (out_buf s)"
    using tok by simp_all
  obtain v1 s1 where s1: "inf_bits s (k_len_extra ! lsym) = (v1, s1)" "unat v1 = lx"
      "after s (num_bits (k_len_extra ! lsym) lx) (out_buf s) s1"
    using bits_num [OF s(1) len_extra_le [OF tk(1)] tk(2) p] by blast
  have o1: "inf_ok s1" "inf_err s1 = 0" "out_buf s1 = out_buf s" "out_cap s1 = out_cap s"
    using s1(3) s by (simp_all add: after_def)
  have p1: "pending s1 = codeword dl dsym @ num_bits (k_dist_extra ! dsym) dx @ r"
    by (rule after_pending [OF s1(3) p])
  obtain s2 where s2: "huff_decode s1 dist = (Some dsym, s2)" "after s1 (codeword dl dsym) (out_buf s1) s2"
    using decode_after [OF dist tk(4) o1(1,2) p1] by blast
  have o2: "inf_ok s2" "inf_err s2 = 0" "out_buf s2 = out_buf s" "out_cap s2 = out_cap s"
    using s2(2) o1 by (simp_all add: after_def)
  have p2: "pending s2 = num_bits (k_dist_extra ! dsym) dx @ r"
    by (rule after_pending [OF s2(2) p1])
  obtain v3 s3 where s3: "inf_bits s2 (k_dist_extra ! dsym) = (v3, s3)" "unat v3 = dx"
      "after s2 (num_bits (k_dist_extra ! dsym) dx) (out_buf s2) s3"
    using bits_num [OF o2(1) _ tk(5) p2] dist_extra_le [OF tk(3)] by blast
  have o3: "inf_ok s3" "inf_err s3 = 0" "out_buf s3 = out_buf s" "out_cap s3 = out_cap s"
    using s3(3) o2 by (simp_all add: after_def)
  let ?d = "copy_distance dsym dx" and ?n = "copy_length lsym lx"
  have d: "0 < ?d" using dist_extra_le [OF tk(3)] by (simp add: copy_distance_def)
  obtain s4 where s4: "inf_copy s3 (length (out_buf s) - ?d) ?d 0 ?n = (True, s4)"
      "after s3 [] (lz_copy (out_buf s) ?d ?n) s4"
    using copy_after [OF d tk(6) o3(1), of 0 ?n] o3 cap by auto
  have "inf_match s dist lsym = (True, s4)"
    using s1 s2 s3 s4(1) o1 o3 tk by (simp add: inf_match_def Let_def copy_distance_def copy_length_def)
  then show ?thesis
    using after_trans [OF s1(3) after_trans [OF s2(2) after_trans [OF s3(3) s4(2)]]] by auto
qed

section \<open>The tokens of a block\<close>

lemma length_token_out_mono: "length out \<le> length (token_out out t)"
  by (cases t) simp_all

lemma length_tokens_out_mono: "length out \<le> length (tokens_out out ts)"
proof (induction ts arbitrary: out)
  case (Cons t ts)
  show ?case
    using length_token_out_mono [of out t] Cons [of "token_out out t"] by (simp add: tokens_out_def)
qed (simp add: tokens_out_def)

lemma codes_after:
  assumes tabs: "table_for t ll" "table_for dist dl"
  shows "inf_ok s \<Longrightarrow> inf_err s = 0 \<Longrightarrow> tokens_ok ll dl (out_buf s) ts \<Longrightarrow>
    length (tokens_out (out_buf s) ts) \<le> out_cap s \<Longrightarrow> pending s = tokens_bits ll dl ts @ r \<Longrightarrow>
    \<exists>s'. inf_decode_codes s t dist = (True, s') \<and>
      after s (tokens_bits ll dl ts) (tokens_out (out_buf s) ts) s'"
proof (induction ts arbitrary: s)
  case Nil
  then obtain s' where "huff_decode s t = (Some 256, s')" "after s (codeword ll 256) (out_buf s) s'"
    using decode_after [OF tabs(1), of 256 s r] by (auto simp: tokens_bits_def)
  then show ?case
    by (subst inf_decode_codes.simps) (simp add: tokens_bits_def tokens_out_def)
next
  case (Cons tok ts)
  have cap: "length (token_out (out_buf s) tok) \<le> out_cap s"
    using Cons.prems(4) length_tokens_out_mono [of "token_out (out_buf s) tok" ts]
    by (simp add: tokens_out_def)
  have p: "pending s = token_bits ll dl tok @ tokens_bits ll dl ts @ r"
    using Cons.prems(5) by (simp add: tokens_bits_def)
  have "\<exists>u. inf_decode_codes s t dist = inf_decode_codes u t dist \<and>
      after s (token_bits ll dl tok) (token_out (out_buf s) tok) u"
  proof (cases tok)
    case (Literal b)
    have code: "has_code ll (unat b)" using Cons.prems(3) Literal by simp
    obtain s1 where s1: "huff_decode s t = (Some (unat b), s1)" "after s (codeword ll (unat b)) (out_buf s) s1"
      using decode_after [OF tabs(1) code Cons.prems(1,2), of "tokens_bits ll dl ts @ r"] p Literal by auto
    have "inf_ok s1" "out_buf s1 = out_buf s" "out_cap s1 = out_cap s" using s1(2) by (simp_all add: after_def)
    then obtain u where u: "inf_emit s1 b = (True, u)" "after s1 [] (out_buf s @ [b]) u"
      using emit_after [of s1 b] cap Literal by auto
    have "inf_decode_codes s t dist = inf_decode_codes u t dist"
      using s1(1) u(1) by (subst inf_decode_codes.simps) simp
    then show ?thesis using after_trans [OF s1(2) u(2)] Literal by auto
  next
    case (Copy lsym lx dsym dx)
    have code: "has_code ll (257 + lsym)" using Cons.prems(3) Copy by simp
    let ?x = "num_bits (k_len_extra ! lsym) lx @ codeword dl dsym @ num_bits (k_dist_extra ! dsym) dx"
    have p': "pending s = codeword ll (257 + lsym) @ ?x @ tokens_bits ll dl ts @ r" using p Copy by simp
    obtain s1 where s1: "huff_decode s t = (Some (257 + lsym), s1)"
        "after s (codeword ll (257 + lsym)) (out_buf s) s1"
      using decode_after [OF tabs(1) code Cons.prems(1,2) p'] by blast
    have o1: "inf_ok s1" "inf_err s1 = 0" "out_buf s1 = out_buf s" "out_cap s1 = out_cap s"
      using s1(2) Cons.prems(2) by (simp_all add: after_def)
    have p1: "pending s1 = num_bits (k_len_extra ! lsym) lx @ codeword dl dsym @
        num_bits (k_dist_extra ! dsym) dx @ tokens_bits ll dl ts @ r"
      using after_pending [OF s1(2) p'] by simp
    have tok1: "token_ok ll dl (out_buf s1) (Copy lsym lx dsym dx)" using Cons.prems(3) Copy o1(3) by simp
    have cap1: "length (out_buf s1) + copy_length lsym lx \<le> out_cap s1" using cap Copy o1(3,4) by simp
    obtain u where u: "inf_match s1 dist lsym = (True, u)"
        "after s1 ?x (token_out (out_buf s1) (Copy lsym lx dsym dx)) u"
      using match_after [OF tabs(2) tok1 o1(1,2) cap1 p1] by blast
    have "inf_decode_codes s t dist = inf_decode_codes u t dist"
      using s1(1) u(1) by (subst inf_decode_codes.simps) simp
    then show ?thesis using after_trans [OF s1(2) u(2)] Copy o1(3) by auto
  qed
  then obtain u where u: "inf_decode_codes s t dist = inf_decode_codes u t dist"
    "after s (token_bits ll dl tok) (token_out (out_buf s) tok) u" by blast
  have ou: "inf_ok u" "inf_err u = 0" "out_buf u = token_out (out_buf s) tok" "out_cap u = out_cap s"
    using u(2) Cons.prems(2) by (simp_all add: after_def)
  obtain s' where "inf_decode_codes u t dist = (True, s')"
      "after u (tokens_bits ll dl ts) (tokens_out (out_buf u) ts) s'"
    using Cons.IH [OF ou(1,2)] Cons.prems(3,4) ou(3,4) after_pending [OF u(2) p] by (auto simp: tokens_out_def)
  then show ?case
    using u(1) after_trans [OF u(2)] ou(3) by (fastforce simp: tokens_bits_def tokens_out_def)
qed

section \<open>Allocation and tables\<close>

definition memory_ok :: "inf_env \<Rightarrow> bool" where
  "memory_ok env \<longleftrightarrow> (\<forall>n. lens_mem env n \<and> (\<exists>h. table_mem env n = Some h \<and> huff_sizes h))"

lemma after_allocs:
  assumes "inf_ok s"
  shows "after s [] (out_buf s) (s\<lparr>allocs := n\<rparr>)"
proof -
  have c: "consumed (s\<lparr>allocs := n\<rparr>) = consumed s" by (simp add: consumed_def)
  have "inf_ok (s\<lparr>allocs := n\<rparr>)" using inf_okD [OF assms] by (simp add: inf_ok_def c)
  then show ?thesis by (simp add: after_def c)
qed

lemma two_tables_after:
  assumes "memory_ok env" and "inf_ok s"
  shows "\<exists>t u s'. two_tables env s = (Some (t, u), s') \<and> huff_sizes t \<and> huff_sizes u \<and> after s [] (out_buf s) s'"
proof -
  obtain t u where "table_mem env (allocs s) = Some t" "huff_sizes t"
      "table_mem env (allocs s + 1) = Some u" "huff_sizes u"
    using assms(1) unfolding memory_ok_def by metis
  then show ?thesis using after_allocs [OF assms(2)] by (auto simp: two_tables_def)
qed

lemma count_lens_some: "\<forall>l \<in> set (nat_lens lens). l \<le> 15 \<Longrightarrow> \<exists>r. count_lens lens cnt mx = Some r"
  by (induction lens cnt mx rule: count_lens.induct) (auto simp: nat_lens_def inf_limits)

lemma build_table:
  assumes "huff_sizes h" and "well_coded (nat_lens lens)" and "length lens \<le> 288"
  shows "\<exists>t. huff_build h lens = Some t \<and> table_for t (nat_lens lens)"
proof -
  obtain cnt mx where "count_lens lens (replicate (INF_MAX_BITS + 1) 0) 0 = Some (cnt, mx)"
    using count_lens_some assms(2) unfolding well_coded_def by (metis surj_pair)
  then obtain t where "huff_build h lens = Some t"
    by (simp add: huff_build_def Let_def)
  then show ?thesis using huff_build_for [OF _ assms(1,3)] assms(2) by (auto simp: table_for_def)
qed

lemma fixed_lens: "nat_lens fixed_ll_lens = fixed_ll" "nat_lens fixed_d_lens = fixed_dl"
    "length fixed_ll_lens = 288" "length fixed_d_lens = 32"
  by (simp_all add: nat_lens_def fixed_ll_lens_def fixed_d_lens_def fixed_ll_def fixed_dl_def)

lemma first_num_numeral:
  "first_num ls (numeral k) = 2 * (first_num ls (pred_numeral k) + len_count ls (pred_numeral k))"
  "first_num ls 1 = 2 * len_count ls 0"
  by (simp_all add: numeral_eq_Suc)

lemma fixed_counts:
  "len_count fixed_ll b = (if b = 7 then 24 else if b = 8 then 152 else if b = 9 then 112 else 0)"
  "len_count fixed_dl b = (if b = 5 then 30 else 0)"
  by (auto simp: len_count_def fixed_ll_def fixed_dl_def)

lemma fixed_well_coded: "well_coded fixed_ll" "well_coded fixed_dl"
  by (auto simp: well_coded_def first_num_numeral fixed_counts) (auto simp: fixed_ll_def fixed_dl_def)

lemma fixed_after:
  assumes mem: "memory_ok env" and s: "inf_ok s" "inf_err s = 0"
    and ts: "tokens_ok fixed_ll fixed_dl (out_buf s) ts" "length (tokens_out (out_buf s) ts) \<le> out_cap s"
    and p: "pending s = tokens_bits fixed_ll fixed_dl ts @ r"
  shows "\<exists>s'. inf_block_fixed env s = (True, s') \<and>
    after s (tokens_bits fixed_ll fixed_dl ts) (tokens_out (out_buf s) ts) s'"
proof -
  obtain t u s1 where s1: "two_tables env s = (Some (t, u), s1)" "huff_sizes t" "huff_sizes u"
      "after s [] (out_buf s) s1"
    using two_tables_after [OF mem s(1)] by blast
  obtain t' u' where tabs: "huff_build t fixed_ll_lens = Some t'" "table_for t' fixed_ll"
      "huff_build u fixed_d_lens = Some u'" "table_for u' fixed_dl"
    using build_table [OF s1(2), of fixed_ll_lens] build_table [OF s1(3), of fixed_d_lens]
      fixed_well_coded fixed_lens by auto
  have o1: "inf_ok s1" "inf_err s1 = 0" "out_buf s1 = out_buf s" "out_cap s1 = out_cap s"
    using s1(4) s by (simp_all add: after_def)
  have p1: "pending s1 = tokens_bits fixed_ll fixed_dl ts @ r"
    using after_pending [OF s1(4), of "pending s"] p by simp
  obtain s' where "inf_decode_codes s1 t' u' = (True, s')"
      "after s1 (tokens_bits fixed_ll fixed_dl ts) (tokens_out (out_buf s1) ts) s'"
    using codes_after [OF tabs(2,4) o1(1,2)] ts o1(3,4) p1 by metis
  then show ?thesis
    using s1(1) tabs after_trans [OF s1(4)] o1(3) by (fastforce simp: inf_block_fixed_def)
qed

section \<open>Stored blocks\<close>

lemma octet_bits_inject [simp]: "octet_bits a = octet_bits b \<longleftrightarrow> a = b"
proof
  assume eq: "octet_bits a = octet_bits b"
  show "a = b"
  proof (rule bit_word_eqI)
    fix n assume "n < LENGTH(8)"
    then show "bit a n = bit b n" using arg_cong [OF eq, of "\<lambda>xs. xs ! n"] by (simp add: octet_bits_def)
  qed
qed simp

lemma stream_prefix: "stream xs = stream ys @ r \<Longrightarrow> \<exists>zs. xs = ys @ zs \<and> stream zs = r"
proof (induction ys arbitrary: xs)
  case (Cons y ys)
  then obtain x xs' where xs: "xs = x # xs'" by (cases xs) (auto dest: arg_cong [where f = length])
  with Cons show ?case by auto
qed simp

lemma inf_err_frame [simp]:
  "inf_ok (s\<lparr>inf_err := e\<rparr>) = inf_ok s"
  by (simp add: inf_ok_def consumed_def)

lemma stored_loop_after:
  "inf_ok s \<Longrightarrow> bit_cnt s = 0 \<Longrightarrow> drop (in_pos s) (inp s) = d @ zs \<Longrightarrow> length (out_buf s) + length d \<le> out_cap s \<Longrightarrow>
    \<exists>s'. stored_loop s (length d) = (True, s') \<and> after s (stream d) (out_buf s @ d) s'"
proof (induction d arbitrary: s)
  case Nil
  then show ?case using after_refl [of s] by simp
next
  case (Cons c d)
  have lt: "in_pos s < length (inp s)"
    using Cons.prems(3) by (metis append_Cons drop_eq_Nil list.distinct(1) not_less)
  have c: "inp s ! in_pos s = c" "drop (in_pos s + 1) (inp s) = d @ zs"
    using Cons.prems(3) lt by (auto simp: Cons_nth_drop_Suc [symmetric])
  let ?s = "s\<lparr>in_pos := in_pos s + 1\<rparr>"
  have buf: "\<not> bit (bit_buf s) i" for i using inf_okD(5) [OF Cons.prems(1), of i] Cons.prems(2) by simp
  have ok: "inf_ok ?s"
    using inf_okD(1-4) [OF Cons.prems(1)] lt buf Cons.prems(2) by (simp add: inf_ok_def)
  have step: "after s (octet_bits c) (out_buf s) ?s"
    using ok Cons.prems(2) by (simp add: after_def consumed_def)
  obtain t where t: "inf_emit ?s c = (True, t)" "after ?s [] (out_buf ?s @ [c]) t"
    using emit_after [OF ok, of c] Cons.prems(4) by auto
  have bt: "bit_cnt t = 0" "in_pos t = in_pos s + 1" "inp t = inp s"
    using t(1) Cons.prems(2,4) by (auto simp: inf_emit_def split: if_splits)
  have ot: "out_buf t = out_buf s @ [c]" "out_cap t = out_cap s" using t(2) by (simp_all add: after_def)
  obtain s' where "stored_loop t (length d) = (True, s')" "after t (stream d) (out_buf t @ d) s'"
    using Cons.IH [OF after_ok [OF t(2)] bt(1)] bt c(2) ot Cons.prems(4) by auto
  then show ?case using t(1) c(1) after_trans [OF after_trans [OF step t(2)]] ot by fastforce
qed

lemma mod_8_unique: "(c + x) mod 8 = 0 \<Longrightarrow> (c + y) mod 8 = 0 \<Longrightarrow> x < 8 \<Longrightarrow> y < 8 \<Longrightarrow> x = y" for c x y :: nat
  by presburger

lemma xor_not_ones: "w XOR NOT w = (0xFFFF :: u16)"
proof -
  have "w XOR NOT w = - 1" by (rule bit_word_eqI) (simp add: bit_simps)
  then show ?thesis by simp
qed

lemma align_after:
  assumes s: "inf_ok s" and pad: "length pad < 8" "(consumed s + length pad) mod 8 = 0" "pending s = pad @ r"
  shows "after s pad (out_buf s) (inf_align s) \<and> bit_cnt (inf_align s) mod 8 = 0"
proof -
  let ?e = "bit_cnt s mod 8"
  have le: "bit_cnt s \<le> 8 * in_pos s" by (rule inf_okD(2) [OF s])
  have e: "length pad = ?e"
  proof -
    have "(consumed s + bit_cnt s) mod 8 = 0" using le by (simp add: consumed_def)
    then have "(consumed s + ?e) mod 8 = 0" by (simp add: mod_add_right_eq)
    then show ?thesis using mod_8_unique [OF pad(2) _ pad(1)] by simp
  qed
  define t where "t = s\<lparr>bit_buf := drop_bit ?e (bit_buf s), bit_cnt := bit_cnt s - ?e\<rparr>"
  have t: "inf_align s = t" by (simp add: inf_align_def Let_def t_def)
  have c: "consumed t = consumed s + length pad"
    using le e by (simp add: t_def consumed_def)
  have "bit (bit_buf t) i \<longleftrightarrow> i < bit_cnt t \<and> stream (inp t) ! (consumed t + i)" for i
    using inf_okD(5) [OF s, of "?e + i"] e unfolding c by (auto simp: t_def bit_simps add.assoc)
  moreover have "in_pos t = in_pos s" "bit_cnt t \<le> bit_cnt s" "inp t = inp s" "out_buf t = out_buf s" "out_cap t = out_cap s"
    by (simp_all add: t_def)
  ultimately have "inf_ok t" unfolding inf_ok_def using inf_okD(1-4) [OF s] by auto
  moreover have "bit_cnt t mod 8 = 0" unfolding t_def by simp
  ultimately show ?thesis unfolding t after_def c by (simp add: t_def)
qed

lemma rewind_after:
  assumes s: "inf_ok s" and m: "bit_cnt s mod 8 = 0"
  shows "after s [] (out_buf s) (s\<lparr>in_pos := in_pos s - bit_cnt s div 8, bit_buf := 0, bit_cnt := 0\<rparr>)"
proof -
  let ?t = "s\<lparr>in_pos := in_pos s - bit_cnt s div 8, bit_buf := 0, bit_cnt := 0\<rparr>"
  obtain k where k: "bit_cnt s = 8 * k" using m by (metis mod_0_imp_dvd dvd_def)
  have c: "consumed ?t = consumed s" using k inf_okD(2) [OF s] by (simp add: consumed_def diff_mult_distrib2)
  then show ?thesis using inf_okD(1-4) [OF s] by (simp add: after_def inf_ok_def)
qed

lemma join_octets: "ucast (ucast w :: u8) OR push_bit 8 (ucast (ucast (drop_bit 8 w) :: u8)) = (w :: u16)"
  by (rule bit_word_eqI) (auto simp: bit_simps)

lemma length_stored_header [simp]: "length (stored_header d) = 4"
  by (simp add: stored_header_def Let_def)

lemma stored_after:
  assumes s: "inf_ok s" "inf_err s = 0"
    and pad: "length pad < 8" "(consumed s + length pad) mod 8 = 0" and d: "length d < 2 ^ 16"
    and cap: "length (out_buf s) + length d \<le> out_cap s"
    and p: "pending s = pad @ stream (stored_header d @ d) @ r"
  shows "\<exists>s'. inf_block_stored s = (True, s') \<and>
    after s (pad @ stream (stored_header d @ d)) (out_buf s @ d) s'"
proof -
  let ?a = "inf_align s"
  have a: "after s pad (out_buf s) ?a" "bit_cnt ?a mod 8 = 0"
    using align_after [OF s(1) pad p] by simp_all
  define t where "t = ?a\<lparr>in_pos := in_pos ?a - bit_cnt ?a div 8, bit_buf := 0, bit_cnt := 0\<rparr>"
  have at: "after s pad (out_buf s) t"
    using after_trans [OF a(1) rewind_after [OF after_ok [OF a(1)] a(2)]] a(1) by (simp add: t_def after_def)
  have t: "inf_ok t" "inf_err t = 0" "out_buf t = out_buf s" "out_cap t = out_cap s" "bit_cnt t = 0"
    using at s by (simp_all add: after_def t_def)
  have "stream (drop (in_pos t) (inp t)) = drop (8 * in_pos t) (stream (inp t))"
  proof -
    have "stream (inp t) = stream (take (in_pos t) (inp t)) @ stream (drop (in_pos t) (inp t))"
      by (simp flip: stream_append)
    moreover have "length (stream (take (in_pos t) (inp t))) = 8 * in_pos t"
      using inf_okD(1) [OF t(1)] by simp
    ultimately show ?thesis by (metis append_eq_conv_conj)
  qed
  also have "\<dots> = pending t" using t(5) by (simp add: pending_def consumed_def)
  also have "\<dots> = stream (stored_header d @ d) @ r" by (rule after_pending [OF at p])
  finally obtain zs where zs: "drop (in_pos t) (inp t) = stored_header d @ d @ zs"
    using stream_prefix by (metis append.assoc)
  let ?w = "of_nat (length d) :: u16"
  have hd: "inp t ! in_pos t = ucast ?w" "inp t ! (in_pos t + 1) = ucast (drop_bit 8 ?w)"
      "inp t ! (in_pos t + 2) = ucast (NOT ?w)" "inp t ! (in_pos t + 3) = ucast (drop_bit 8 (NOT ?w))"
    using inf_okD(1) [OF t(1)] arg_cong [OF zs, of "\<lambda>xs. xs ! 0"] arg_cong [OF zs, of "\<lambda>xs. xs ! 1"]
      arg_cong [OF zs, of "\<lambda>xs. xs ! 2"] arg_cong [OF zs, of "\<lambda>xs. xs ! 3"]
    by (simp_all add: stored_header_def Let_def)
  have len: "in_pos t + 4 + length d \<le> length (inp t)"
    using arg_cong [OF zs, of length] by simp
  have w: "unat ?w = length d" using d by (simp add: unat_of_nat)
  define u where "u = t\<lparr>in_pos := in_pos t + 4\<rparr>"
  have u: "inf_ok u" "bit_cnt u = 0" "out_buf u = out_buf s" "out_cap u = out_cap s"
    using t len inf_okD(1-4) [OF t(1)] inf_okD(5) [OF t(1)] by (simp_all add: u_def inf_ok_def)
  have tu: "after t (stream (stored_header d)) (out_buf t) u"
    using u(1) t(5) by (simp add: after_def u_def consumed_def)
  have "drop (in_pos u) (inp u) = d @ zs"
    using arg_cong [OF zs, of "drop 4"] by (simp add: u_def add.commute)
  then obtain s' where s': "stored_loop u (length d) = (True, s')" "after u (stream d) (out_buf u @ d) s'"
    using stored_loop_after [OF u(1,2)] cap u(3,4) by force
  have "inf_block_stored s = (True, s')"
    using len s'(1) unfolding inf_block_stored_def Let_def t_def [symmetric] hd join_octets w u_def [symmetric] xor_not_ones
    by (simp add: u_def)
  then show ?thesis using after_trans [OF at after_trans [OF tu s'(2)]] u(3) by auto
qed

section \<open>Dynamic blocks\<close>

definition octet_lens :: "nat list \<Rightarrow> u8 list" where
  "octet_lens = map of_nat"

lemma unat_small_octet: "l < 256 \<Longrightarrow> unat (of_nat l :: u8) = l"
  by (simp add: unat_of_nat)

lemma nat_octet_lens: "\<forall>l \<in> set ls. l < 256 \<Longrightarrow> nat_lens (octet_lens ls) = ls"
  by (induction ls) (auto simp: nat_lens_def octet_lens_def unat_small_octet)

lemma clen_loop_after:
  assumes cl: "length cl = 19" "\<forall>l \<in> set cl. l < 8"
  shows "inf_ok s \<Longrightarrow> inf_err s = 0 \<Longrightarrow> distinct order \<Longrightarrow> \<forall>k \<in> set order. k < 19 \<Longrightarrow> length arr = 19 \<Longrightarrow>
    pending s = concat (map (\<lambda>k. num_bits 3 (cl ! k)) order) @ r \<Longrightarrow>
    \<exists>arr' s'. clen_loop s order arr = (arr', s') \<and> length arr' = 19 \<and>
      (\<forall>k < 19. arr' ! k = (if k \<in> set order then of_nat (cl ! k) else arr ! k)) \<and>
      after s (concat (map (\<lambda>k. num_bits 3 (cl ! k)) order)) (out_buf s) s'"
proof (induction order arbitrary: s arr)
  case Nil
  then show ?case using after_refl [of s] by auto
next
  case (Cons k order)
  have k: "k < 19" "cl ! k < 2 ^ 3" using Cons.prems(4) cl by simp_all
  have p: "pending s = num_bits 3 (cl ! k) @ concat (map (\<lambda>k. num_bits 3 (cl ! k)) order) @ r"
    using Cons.prems(6) by simp
  obtain v t where t: "inf_bits s 3 = (v, t)" "unat v = cl ! k" "after s (num_bits 3 (cl ! k)) (out_buf s) t"
    using bits_num [OF Cons.prems(1) _ k(2) p] by auto
  have v: "ucast v = (of_nat (cl ! k) :: u8)"
    using t(2) k(2) by (simp add: word_unat_eq_iff unsigned_ucast_eq take_bit_nat_eq_self unat_small_octet)
  have ot: "inf_ok t" "inf_err t = 0" "out_buf t = out_buf s" using t(3) Cons.prems(2) by (simp_all add: after_def)
  obtain arr' s' where s': "clen_loop t order (arr[k := ucast v]) = (arr', s')" "length arr' = 19"
      "\<forall>j < 19. arr' ! j = (if j \<in> set order then of_nat (cl ! j) else arr[k := ucast v] ! j)"
      "after t (concat (map (\<lambda>k. num_bits 3 (cl ! k)) order)) (out_buf t) s'"
    using Cons.IH [OF ot(1,2), of "arr[k := ucast v]"] Cons.prems(3-5) after_pending [OF t(3) p] by auto
  have "arr' ! j = (if j \<in> set (k # order) then of_nat (cl ! j) else arr ! j)" if "j < 19" for j
    using s'(3) that v Cons.prems(3,5) k(1) by (auto simp: nth_list_update)
  then show ?case using t(1) s' after_trans [OF t(3) s'(4)] ot(3) by auto
qed

lemma clen_order_facts: "distinct clen_order" "\<forall>k \<in> set clen_order. k < 19" "length clen_order = 19"
    "k < 19 \<Longrightarrow> k \<in> set clen_order"
proof -
  show "distinct clen_order" "\<forall>k \<in> set clen_order. k < 19" and l: "length clen_order = 19"
    by (simp_all add: clen_order_def)
  then have "card (set clen_order) = 19" "set clen_order \<subseteq> {..<19}"
    by (auto simp: distinct_card)
  then have "set clen_order = {..<19}" by (intro card_subset_eq) simp_all
  then show "k < 19 \<Longrightarrow> k \<in> set clen_order" by simp
qed

lemma clens_read:
  assumes cl: "length cl = 19" "\<forall>l \<in> set cl. l < 8" "\<forall>k \<in> set (drop hclen clen_order). cl ! k = 0"
    and s: "inf_ok s" "inf_err s = 0"
    and p: "pending s = concat (map (\<lambda>k. num_bits 3 (cl ! k)) (take hclen clen_order)) @ r"
  shows "\<exists>s'. clen_loop s (take hclen clen_order) (replicate 19 0) = (octet_lens cl, s') \<and>
    after s (concat (map (\<lambda>k. num_bits 3 (cl ! k)) (take hclen clen_order))) (out_buf s) s'"
proof -
  have "distinct (take hclen clen_order)" "\<forall>k \<in> set (take hclen clen_order). k < 19"
    using clen_order_facts(1,2) by (auto dest: in_set_takeD)
  from clen_loop_after [OF cl(1,2) s this, of "replicate 19 0"] p obtain arr' s' where
    s': "clen_loop s (take hclen clen_order) (replicate 19 0) = (arr', s')" "length arr' = 19"
      "\<forall>k < 19. arr' ! k = (if k \<in> set (take hclen clen_order) then of_nat (cl ! k) else replicate 19 0 ! k)"
      "after s (concat (map (\<lambda>k. num_bits 3 (cl ! k)) (take hclen clen_order))) (out_buf s) s'"
    by auto
  have "arr' ! k = octet_lens cl ! k" if "k < 19" for k
  proof (cases "k \<in> set (take hclen clen_order)")
    case True
    then show ?thesis using s'(3) that cl(1) by (simp add: octet_lens_def)
  next
    case False
    then have "k \<in> set (drop hclen clen_order)"
      using clen_order_facts(4) [OF that] by (metis UnE append_take_drop_id set_append)
    then show ?thesis using False s'(3) that cl(1,3) by (simp add: octet_lens_def)
  qed
  then have "arr' = octet_lens cl" using s'(2) cl(1) by (intro nth_equalityI) (simp_all add: octet_lens_def)
  then show ?thesis using s'(1,4) by blast
qed

text \<open>The array of the code lengths while \<open>ls\<close> have been decoded.\<close>

definition lens_array :: "nat list \<Rightarrow> u8 list" where
  "lens_array ls = octet_lens ls @ replicate (320 - length ls) 0"

lemma fill_lens_array:
  "length ls + n \<le> tot \<Longrightarrow> tot \<le> 320 \<Longrightarrow> v = of_nat l \<Longrightarrow>
     fill_lens (lens_array ls) (length ls) tot v n = (lens_array (ls @ replicate n l), length ls + n)"
proof (induction n arbitrary: ls)
  case (Suc n)
  define k where "k = 319 - length ls"
  have k: "320 - length ls = Suc k" "320 - length (ls @ [l]) = k"
    using Suc.prems(1,2) by (simp_all add: k_def)
  have "(lens_array ls)[length ls := v] = lens_array (ls @ [l])"
    using Suc.prems(3) unfolding lens_array_def k by (simp add: octet_lens_def list_update_append)
  with Suc.IH [of "ls @ [l]"] Suc.prems show ?case by simp
qed (simp add: lens_array_def)

lemma lens_array_update:
  "length ls < 320 \<Longrightarrow> (lens_array ls)[length ls := of_nat l] = lens_array (ls @ [l])"
  using fill_lens_array [of ls 1 320 "of_nat l" l] by simp

lemma length_items_mono: "length ls \<le> length (items_out ls its)"
proof (induction its arbitrary: ls)
  case (Cons it its)
  have "length ls \<le> length (item_out ls it)" by (cases it) simp_all
  with Cons [of "item_out ls it"] show ?case by (simp add: items_out_def)
qed (simp add: items_out_def)

lemma item_length: "item_ok ls it \<Longrightarrow> length ls < length (item_out ls it)"
  by (cases it) simp_all

lemma lens_loop_after:
  assumes tab: "table_for t cl" and tot: "tot \<le> 320"
  shows "inf_ok s \<Longrightarrow> inf_err s = 0 \<Longrightarrow> items_ok cl ls its \<Longrightarrow> length (items_out ls its) = tot \<Longrightarrow>
    pending s = concat (map (item_bits cl) its) @ r \<Longrightarrow>
    \<exists>s'. lens_loop s t tot (length ls) (lens_array ls) = (Some (lens_array (items_out ls its)), s') \<and>
      after s (concat (map (item_bits cl) its)) (out_buf s) s'"
proof (induction its arbitrary: s ls)
  case Nil
  then show ?case
    using after_refl [of s] by (subst lens_loop.simps) (simp add: items_out_def)
next
  case (Cons it its)
  let ?ls = "item_out ls it"
  have ok: "has_code cl (item_sym it)" "item_ok ls it" "items_ok cl ?ls its" using Cons.prems(3) by simp_all
  have lt: "length ?ls \<le> tot" "length (items_out ?ls its) = tot"
    using Cons.prems(4) length_items_mono [of ?ls its] by (simp_all add: items_out_def)
  have p: "pending s = codeword cl (item_sym it) @ item_extra it @ concat (map (item_bits cl) its) @ r"
    using Cons.prems(5) by (simp add: item_bits_def [of cl it])
  obtain s1 where s1: "huff_decode s t = (Some (item_sym it), s1)" "after s (codeword cl (item_sym it)) (out_buf s) s1"
    using decode_after [OF tab ok(1) Cons.prems(1,2) p] by blast
  have o1: "inf_ok s1" "inf_err s1 = 0" "out_buf s1 = out_buf s" using s1(2) Cons.prems(2) by (simp_all add: after_def)
  note p1 = after_pending [OF s1(2) p]
  have len: "length ls < tot" using item_length [OF ok(2)] lt(1) by simp
  have "\<exists>u. lens_loop s t tot (length ls) (lens_array ls) = lens_loop u t tot (length ?ls) (lens_array ?ls) \<and>
      after s1 (item_extra it) (out_buf s) u"
  proof (cases it)
    case (Len l)
    have "lens_loop s t tot (length ls) (lens_array ls) = lens_loop s1 t tot (length ?ls) (lens_array ?ls)"
      using s1(1) len ok(2) Len lens_array_update [of ls l] tot by (subst lens_loop.simps) simp
    then show ?thesis using after_refl [OF o1(1)] o1(3) Len by auto
  next
    case (Repeat x)
    have x: "x < 2 ^ 2" "ls \<noteq> []" using ok(2) Repeat by simp_all
    obtain v u where u: "inf_bits s1 2 = (v, u)" "unat v = x" "after s1 (num_bits 2 x) (out_buf s1) u"
      using bits_num [OF o1(1) _ x(1), of "concat (map (item_bits cl) its) @ r"] p1 Repeat by auto
    have prev: "lens_array ls ! (length ls - 1) = of_nat (last ls)"
      using x(2) by (simp add: lens_array_def octet_lens_def nth_append last_conv_nth)
    have "inf_err u = 0" using u(3) o1(2) by (simp add: after_def)
    then have "lens_loop s t tot (length ls) (lens_array ls) = lens_loop u t tot (length ?ls) (lens_array ?ls)"
      using s1(1) len Repeat u(1,2) x(2) prev fill_lens_array [of ls "x + 3" tot _ "last ls", OF _ tot refl] lt(1)
      by (subst lens_loop.simps) (simp add: Let_def)
    then show ?thesis using u(3) o1(3) Repeat by auto
  next
    case (Zeros3 x)
    have x: "x < 2 ^ 3" using ok(2) Zeros3 by simp
    obtain v u where u: "inf_bits s1 3 = (v, u)" "unat v = x" "after s1 (num_bits 3 x) (out_buf s1) u"
      using bits_num [OF o1(1) _ x, of "concat (map (item_bits cl) its) @ r"] p1 Zeros3 by auto
    have "inf_err u = 0" using u(3) o1(2) by (simp add: after_def)
    then have "lens_loop s t tot (length ls) (lens_array ls) = lens_loop u t tot (length ?ls) (lens_array ?ls)"
      using s1(1) len Zeros3 u(1,2) fill_lens_array [of ls "x + 3" tot 0 0, OF _ tot] lt(1)
      by (subst lens_loop.simps) (simp add: Let_def)
    then show ?thesis using u(3) o1(3) Zeros3 by auto
  next
    case (Zeros11 x)
    have x: "x < 2 ^ 7" using ok(2) Zeros11 by simp
    obtain v u where u: "inf_bits s1 7 = (v, u)" "unat v = x" "after s1 (num_bits 7 x) (out_buf s1) u"
      using bits_num [OF o1(1) _ x, of "concat (map (item_bits cl) its) @ r"] p1 Zeros11 by auto
    have "inf_err u = 0" using u(3) o1(2) by (simp add: after_def)
    then have "lens_loop s t tot (length ls) (lens_array ls) = lens_loop u t tot (length ?ls) (lens_array ?ls)"
      using s1(1) len Zeros11 u(1,2) fill_lens_array [of ls "x + 11" tot 0 0, OF _ tot] lt(1)
      by (subst lens_loop.simps) (simp add: Let_def)
    then show ?thesis using u(3) o1(3) Zeros11 by auto
  qed
  then obtain u where u: "lens_loop s t tot (length ls) (lens_array ls) = lens_loop u t tot (length ?ls) (lens_array ?ls)"
      "after s1 (item_extra it) (out_buf s) u" by blast
  have ou: "inf_ok u" "inf_err u = 0" "out_buf u = out_buf s" using u(2) o1(2) by (simp_all add: after_def)
  obtain s' where "lens_loop u t tot (length ?ls) (lens_array ?ls) = (Some (lens_array (items_out ?ls its)), s')"
      "after u (concat (map (item_bits cl) its)) (out_buf u) s'"
    using Cons.IH [OF ou(1,2) ok(3) lt(2) after_pending [OF u(2) p1]] by blast
  then show ?case
    using u(1) after_trans [OF after_trans [OF s1(2) u(2)]] ou(3)
    by (auto simp: items_out_def item_bits_def [of cl it])
qed

lemma tables_after:
  assumes mem: "memory_ok env" and s: "inf_ok s" "inf_err s = 0"
    and cl: "length cl = 19" "\<forall>l \<in> set cl. l < 8" "well_coded cl" and hl: "hlit \<le> 288" "hdist \<le> 32"
    and its: "items_ok cl [] its" "length (items_out [] its) = hlit + hdist"
    and wc: "well_coded (take hlit (items_out [] its))" "well_coded (drop hlit (items_out [] its))"
    and ts: "tokens_ok (take hlit (items_out [] its)) (drop hlit (items_out [] its)) (out_buf s) ts"
      "length (tokens_out (out_buf s) ts) \<le> out_cap s"
    and p: "pending s = concat (map (item_bits cl) its) @
      tokens_bits (take hlit (items_out [] its)) (drop hlit (items_out [] its)) ts @ r"
  shows "\<exists>s'. dynamic_tables env s hlit hdist (octet_lens cl) = (True, s') \<and>
    after s (concat (map (item_bits cl) its) @
        tokens_bits (take hlit (items_out [] its)) (drop hlit (items_out [] its)) ts) (tokens_out (out_buf s) ts) s'"
proof -
  let ?ls = "items_out [] its"
  let ?ll = "take hlit ?ls" and ?dl = "drop hlit ?ls"
  have small: "\<forall>l \<in> set cl. l < 256" using cl(2) by auto
  obtain h where h: "table_mem env (allocs s) = Some h" "huff_sizes h"
    using mem unfolding memory_ok_def by metis
  obtain t where t: "huff_build h (octet_lens cl) = Some t" "table_for t cl"
    using build_table [OF h(2), of "octet_lens cl"] cl nat_octet_lens [OF small] by (auto simp: octet_lens_def)
  define s0 where "s0 = s\<lparr>allocs := allocs s + 2\<rparr>"
  have a0: "after s [] (out_buf s) s0" unfolding s0_def by (rule after_allocs [OF s(1)])
  have o0: "inf_ok s0" "inf_err s0 = 0" "out_buf s0 = out_buf s" "out_cap s0 = out_cap s"
    using a0 s by (simp_all add: after_def)
  have p0: "pending s0 = concat (map (item_bits cl) its) @ tokens_bits ?ll ?dl ts @ r"
    using after_pending [OF a0, of "pending s"] p by simp
  have start: "replicate 320 0 = lens_array []" by (simp add: lens_array_def octet_lens_def)
  obtain s1 where s1: "lens_loop s0 t (hlit + hdist) 0 (lens_array []) = (Some (lens_array ?ls), s1)"
      "after s0 (concat (map (item_bits cl) its)) (out_buf s0) s1"
    using lens_loop_after [OF t(2), of "hlit + hdist" s0 "[]" its] hl its o0(1,2) p0 by auto
  have o1: "inf_ok s1" "inf_err s1 = 0" "out_buf s1 = out_buf s" "out_cap s1 = out_cap s"
    using s1(2) o0 by (simp_all add: after_def)
  obtain u v s2 where s2: "two_tables env s1 = (Some (u, v), s2)" "huff_sizes u" "huff_sizes v"
      "after s1 [] (out_buf s1) s2"
    using two_tables_after [OF mem o1(1)] by blast
  have o2: "inf_ok s2" "inf_err s2 = 0" "out_buf s2 = out_buf s" "out_cap s2 = out_cap s"
    using s2(4) o1 by (simp_all add: after_def)
  have p2: "pending s2 = tokens_bits ?ll ?dl ts @ r"
    using after_pending [OF s2(4), of "pending s1"] after_pending [OF s1(2) p0] by simp
  have parts: "take hlit (lens_array ?ls) = octet_lens ?ll" "take hdist (drop hlit (lens_array ?ls)) = octet_lens ?dl"
    using its(2) by (simp_all add: lens_array_def octet_lens_def take_map drop_map)
  have bounds: "\<forall>l \<in> set ?ll. l < 256" "\<forall>l \<in> set ?dl. l < 256"
    using wc by (auto simp: well_coded_def)
  obtain u' v' where tabs: "huff_build u (octet_lens ?ll) = Some u'" "table_for u' ?ll"
      "huff_build v (octet_lens ?dl) = Some v'" "table_for v' ?dl"
    using build_table [OF s2(2), of "octet_lens ?ll"] build_table [OF s2(3), of "octet_lens ?dl"]
      wc hl its(2) nat_octet_lens [OF bounds(1)] nat_octet_lens [OF bounds(2)] by (auto simp: octet_lens_def)
  obtain s3 where s3: "inf_decode_codes s2 u' v' = (True, s3)"
      "after s2 (tokens_bits ?ll ?dl ts) (tokens_out (out_buf s2) ts) s3"
    using codes_after [OF tabs(2,4) o2(1,2) _ _ p2] ts o2(3,4) by auto
  have lens: "lens_mem env n" for n using mem by (simp add: memory_ok_def)
  have "dynamic_tables env s hlit hdist (octet_lens cl) = (True, s3)"
    unfolding dynamic_tables_def
    using h(1) t(1) s1(1) s2(1) s3(1) tabs parts lens start by (simp add: Let_def s0_def inf_limits)
  then show ?thesis
    using after_trans [OF a0 after_trans [OF s1(2) after_trans [OF s2(4) s3(2)]]] o2(3) by auto
qed

lemma dynamic_after:
  assumes mem: "memory_ok env" and s: "inf_ok s" "inf_err s = 0"
    and b: "block_ok pos (out_buf s) (Dynamic hlit hdist hclen cl its ts)"
    and cap: "length (tokens_out (out_buf s) ts) \<le> out_cap s"
    and p: "num_bits 2 2 @ pending s = block_bits (Dynamic hlit hdist hclen cl its ts) @ r"
  shows "\<exists>s' xs. inf_block_dynamic env s = (True, s') \<and> block_bits (Dynamic hlit hdist hclen cl its ts) = num_bits 2 2 @ xs \<and>
    after s xs (tokens_out (out_buf s) ts) s'"
proof -
  let ?ls = "items_out [] its"
  let ?c = "concat (map (\<lambda>k. num_bits 3 (cl ! k)) (take hclen clen_order))"
  let ?x = "concat (map (item_bits cl) its) @ tokens_bits (take hlit ?ls) (drop hlit ?ls) ts"
  have ok: "257 \<le> hlit" "hlit \<le> 288" "1 \<le> hdist" "hdist \<le> 32" "4 \<le> hclen" "hclen \<le> 19"
      "length cl = 19" "\<forall>l \<in> set cl. l < 8" "\<forall>k \<in> set (drop hclen clen_order). cl ! k = 0"
      "well_coded cl" "items_ok cl [] its" "length ?ls = hlit + hdist"
      "well_coded (take hlit ?ls)" "well_coded (drop hlit ?ls)"
      "tokens_ok (take hlit ?ls) (drop hlit ?ls) (out_buf s) ts"
    using b by simp_all
  have p0: "pending s = num_bits 5 (hlit - 257) @ num_bits 5 (hdist - 1) @ num_bits 4 (hclen - 4) @ ?c @ ?x @ r"
    using p by simp
  have small: "hlit - 257 < 2 ^ 5" "hdist - 1 < 2 ^ 5" "hclen - 4 < 2 ^ 4" using ok(1-6) by auto
  obtain v1 s1 where s1: "inf_bits s 5 = (v1, s1)" "unat v1 = hlit - 257" "after s (num_bits 5 (hlit - 257)) (out_buf s) s1"
    using bits_num [OF s(1) _ small(1) p0] by auto
  note p1 = after_pending [OF s1(3) p0]
  have o1: "inf_ok s1" "inf_err s1 = 0" "out_buf s1 = out_buf s" "out_cap s1 = out_cap s"
    using s1(3) s by (simp_all add: after_def)
  obtain v2 s2 where s2: "inf_bits s1 5 = (v2, s2)" "unat v2 = hdist - 1" "after s1 (num_bits 5 (hdist - 1)) (out_buf s1) s2"
    using bits_num [OF o1(1) _ small(2) p1] by auto
  note p2 = after_pending [OF s2(3) p1]
  have o2: "inf_ok s2" "inf_err s2 = 0" "out_buf s2 = out_buf s" "out_cap s2 = out_cap s"
    using s2(3) o1 by (simp_all add: after_def)
  obtain v3 s3 where s3: "inf_bits s2 4 = (v3, s3)" "unat v3 = hclen - 4" "after s2 (num_bits 4 (hclen - 4)) (out_buf s2) s3"
    using bits_num [OF o2(1) _ small(3) p2] by auto
  note p3 = after_pending [OF s3(3) p2]
  have o3: "inf_ok s3" "inf_err s3 = 0" "out_buf s3 = out_buf s" "out_cap s3 = out_cap s"
    using s3(3) o2 by (simp_all add: after_def)
  obtain s4 where s4: "clen_loop s3 (take hclen clen_order) (replicate 19 0) = (octet_lens cl, s4)"
      "after s3 ?c (out_buf s3) s4"
    using clens_read [OF ok(7-9) o3(1,2) p3] by blast
  note p4 = after_pending [OF s4(2) p3]
  have o4: "inf_ok s4" "inf_err s4 = 0" "out_buf s4 = out_buf s" "out_cap s4 = out_cap s"
    using s4(2) o3 by (simp_all add: after_def)
  have p4': "pending s4 = concat (map (item_bits cl) its) @ tokens_bits (take hlit ?ls) (drop hlit ?ls) ts @ r"
    using p4 by simp
  obtain s5 where s5: "dynamic_tables env s4 hlit hdist (octet_lens cl) = (True, s5)"
      "after s4 ?x (tokens_out (out_buf s4) ts) s5"
    using tables_after [OF mem o4(1,2) ok(7,8,10,2,4,11-14) _ _ p4'] ok(15) cap o4(3,4) by auto
  have "inf_block_dynamic env s = (True, s5)"
    using s1(1,2) s2(1,2) s3(1,2) s4(1) s5(1) o3(2) o4(2) ok(1-6)
    by (simp add: inf_block_dynamic_def Let_def inf_limits)
  then show ?thesis
    using after_trans [OF s1(3) after_trans [OF s2(3) after_trans [OF s3(3) after_trans [OF s4(2) s5(2)]]]] o4(3)
    by auto
qed

section \<open>All blocks\<close>

lemma length_block_out_mono: "length out \<le> length (block_out out b)"
  using length_tokens_out_mono by (cases b) simp_all

lemma length_blocks_out_mono: "length out \<le> length (blocks_out out bs)"
proof (induction bs arbitrary: out)
  case (Cons b bs)
  show ?case using length_block_out_mono [of out b] Cons [of "block_out out b"] by (simp add: blocks_out_def)
qed (simp add: blocks_out_def)

text \<open>One block, after its first three bits.\<close>

definition block_type :: "block \<Rightarrow> nat" where
  "block_type b = (case b of Stored _ _ \<Rightarrow> 0 | Fixed _ \<Rightarrow> 1 | Dynamic _ _ _ _ _ _ \<Rightarrow> 2)"

lemma block_after:
  assumes mem: "memory_ok env" and s: "inf_ok s" "inf_err s = 0"
    and b: "block_ok pos (out_buf s) b" "consumed s = pos + 3"
    and cap: "length (block_out (out_buf s) b) \<le> out_cap s"
    and p: "num_bits 2 (block_type b) @ pending s = block_bits b @ r"
  shows "\<exists>s' xs. inf_block env s (of_nat (block_type b)) = (True, s') \<and>
    block_bits b = num_bits 2 (block_type b) @ xs \<and> after s xs (block_out (out_buf s) b) s'"
proof (cases b)
  case (Stored pad d)
  have "\<exists>s'. inf_block_stored s = (True, s') \<and> after s (pad @ stream (stored_header d @ d)) (out_buf s @ d) s'"
    by (rule stored_after [OF s]) (use b cap p Stored in \<open>simp_all add: block_type_def add.assoc add.commute add.left_commute\<close>)
  then show ?thesis using Stored by (auto simp: inf_block_def block_type_def)
next
  case (Fixed ts)
  have "\<exists>s'. inf_block_fixed env s = (True, s') \<and>
      after s (tokens_bits fixed_ll fixed_dl ts) (tokens_out (out_buf s) ts) s'"
    by (rule fixed_after [OF mem s]) (use b cap p Fixed in \<open>simp_all add: block_type_def\<close>)
  then show ?thesis using Fixed by (auto simp: inf_block_def block_type_def)
next
  case (Dynamic hlit hdist hclen cl its ts)
  then show ?thesis
    using dynamic_after [OF mem s, of pos hlit hdist hclen cl its ts r] b(1) cap p
    by (auto simp: inf_block_def block_type_def)
qed

theorem inflate_blocks:
  assumes mem: "memory_ok env"
  shows "inf_ok s \<Longrightarrow> inf_err s = 0 \<Longrightarrow> blocks_ok (consumed s) (out_buf s) bs \<Longrightarrow>
    length (blocks_out (out_buf s) bs) \<le> out_cap s \<Longrightarrow> pending s = blocks_bits bs @ r \<Longrightarrow>
    \<exists>s'. inflate_raw env s = (True, s') \<and> after s (blocks_bits bs) (blocks_out (out_buf s) bs) s'"
proof (induction bs arbitrary: s)
  case (Cons b bs)
  have ok: "block_ok (consumed s) (out_buf s) b" using Cons.prems(3) by simp
  obtain xs where xs: "block_bits b = num_bits 2 (block_type b) @ xs"
    by (cases b) (simp_all add: block_type_def)
  have type: "block_type b < 2 ^ 2" by (simp add: block_type_def split: block.split)
  have p: "pending s = [bs = []] @ num_bits 2 (block_type b) @ xs @ blocks_bits bs @ r"
    using Cons.prems(5) xs by simp
  obtain s1 where s1: "inf_bits s 1 = (of_bool (bs = []), s1)" "after s [bs = []] (out_buf s) s1"
    using one_bit [OF Cons.prems(1)] p by force
  have o1: "inf_ok s1" "inf_err s1 = 0" "out_buf s1 = out_buf s" "out_cap s1 = out_cap s"
    using s1(2) Cons.prems(2) by (simp_all add: after_def)
  note p1 = after_pending [OF s1(2) p]
  obtain v s2 where s2: "inf_bits s1 2 = (v, s2)" "unat v = block_type b"
      "after s1 (num_bits 2 (block_type b)) (out_buf s1) s2"
    using bits_num [OF o1(1) _ type p1] by auto
  have o2: "inf_ok s2" "inf_err s2 = 0" "out_buf s2 = out_buf s" "out_cap s2 = out_cap s"
      "consumed s2 = consumed s + 3"
    using s2(3) s1(2) o1 by (simp_all add: after_def)
  note p2 = after_pending [OF s2(3) p1]
  have cap: "length (block_out (out_buf s2) b) \<le> out_cap s2"
    using Cons.prems(4) length_blocks_out_mono [of "block_out (out_buf s) b" bs] o2(3,4)
    by (simp add: blocks_out_def)
  have v: "v = of_nat (block_type b)" using s2(2) [symmetric] by simp
  obtain s3 where s3: "inf_block env s2 v = (True, s3)" "after s2 xs (block_out (out_buf s) b) s3"
    using block_after [OF mem o2(1,2), of "consumed s" b "blocks_bits bs @ r"] ok o2(3,5) cap xs p2 v by auto
  have a3: "after s ([bs = []] @ block_bits b) (block_out (out_buf s) b) s3"
    using after_trans [OF s1(2) after_trans [OF s2(3) s3(2)]] xs by simp
  show ?case
  proof (cases "bs = []")
    case True
    then have "inflate_raw env s = (True, s3)"
      using s1(1) s2(1) o2(2) s3(1) by (subst inflate_raw.simps) simp
    then show ?thesis using a3 True by (auto simp: blocks_out_def)
  next
    case False
    then have step: "inflate_raw env s = inflate_raw env s3"
      using s1(1) s2(1) o2(2) s3(1) by (subst inflate_raw.simps) simp
    have o3: "inf_ok s3" "inf_err s3 = 0" "out_buf s3 = block_out (out_buf s) b" "out_cap s3 = out_cap s"
        "consumed s3 = consumed s + 1 + length (block_bits b)"
      using a3 Cons.prems(2) by (simp_all add: after_def)
    have "pending s3 = blocks_bits bs @ r"
      using after_pending [OF a3, of "blocks_bits bs @ r"] p xs by simp
    then obtain s' where "inflate_raw env s3 = (True, s')"
        "after s3 (blocks_bits bs) (blocks_out (out_buf s3) bs) s'"
      using Cons.IH [OF o3(1,2)] Cons.prems(3,4) o3(3-5) False by (auto simp: blocks_out_def)
    then show ?thesis using step after_trans [OF a3] o3(3) by (fastforce simp: blocks_out_def)
  qed
qed simp

end
