(* ===== verification/Akpkg_Bounds.thy ===== *)
theory Akpkg_Bounds
  imports Akpkg_Deflate
begin

text \<open>
  What the decompressor keeps on every input, valid or not: it reads inside its input, writes inside
  its output, and each bit it reads pays for at most 258 octets of output.
\<close>

section \<open>Every step\<close>

text \<open>
  What every step keeps, whatever the input is: the state stays well formed, the output only grows,
  and it grows by at most 258 octets for each bit of the input, up to an allowance \<open>k\<close>.
\<close>

definition moved :: "int \<Rightarrow> inf \<Rightarrow> inf \<Rightarrow> bool" where
  "moved k s s' \<longleftrightarrow>
     inf_ok s' \<and> inp s' = inp s \<and> out_cap s' = out_cap s \<and>
     (\<exists>ys. out_buf s' = out_buf s @ ys \<and> int (length ys) + 258 * int (bits_left s') \<le> 258 * int (bits_left s) + k)"

lemma moved_refl: "inf_ok s \<Longrightarrow> 0 \<le> k \<Longrightarrow> moved k s s"
  by (simp add: moved_def)

lemma moved_trans: "moved k s t \<Longrightarrow> moved l t u \<Longrightarrow> k + l \<le> m \<Longrightarrow> moved m s u"
proof -
  assume st: "moved k s t" and tu: "moved l t u" and m: "k + l \<le> m"
  obtain ys where ys: "out_buf t = out_buf s @ ys" "int (length ys) + 258 * int (bits_left t) \<le> 258 * int (bits_left s) + k"
    using st by (auto simp: moved_def)
  obtain zs where zs: "out_buf u = out_buf t @ zs" "int (length zs) + 258 * int (bits_left u) \<le> 258 * int (bits_left t) + l"
    using tu by (auto simp: moved_def)
  have "out_buf u = out_buf s @ (ys @ zs)" using ys(1) zs(1) by simp
  moreover have "int (length (ys @ zs)) + 258 * int (bits_left u) \<le> 258 * int (bits_left s) + m"
    using ys(2) zs(2) m by simp
  ultimately show ?thesis using st tu unfolding moved_def by auto
qed

lemma moved_ok: "moved k s t \<Longrightarrow> inf_ok t"
  by (simp add: moved_def)

lemma moved_le: "moved k s t \<Longrightarrow> k \<le> m \<Longrightarrow> moved m s t"
  by (auto simp: moved_def)

lemma moved_after: "after s xs (out_buf s) t \<Longrightarrow> inf_ok s \<Longrightarrow> moved (- 258 * int (length xs)) s t"
proof -
  assume a: "after s xs (out_buf s) t" and s: "inf_ok s"
  have "bits_left t + length xs = bits_left s"
  proof -
    have t: "inf_ok t" "inp t = inp s" "consumed t = consumed s + length xs" using a by (simp_all add: after_def)
    then show ?thesis
      using length_pending_left [OF s] length_pending_left [OF t(1)] inf_ok_consumed [OF t(1)]
      by (simp add: length_pending)
  qed
  then show ?thesis using a by (auto simp: moved_def after_def)
qed

lemma inf_ok_fail [simp]: "inf_ok (fail e t) \<longleftrightarrow> inf_ok t"
  by (simp add: fail_def)

lemma moved_fail: "moved k s t \<Longrightarrow> moved k s (fail e t)"
  by (simp add: moved_def)

lemma moved_bits:
  assumes "inf_bits s n = (v, t)" and "inf_ok s" and "n \<le> 24"
  shows "moved 0 s t" and "inf_err t = 0 \<Longrightarrow> moved (- 258 * int n) s t"
proof -
  consider "n \<le> length (pending s)" | "length (pending s) < n" by linarith
  then have "moved 0 s t \<and> (inf_err t = 0 \<longrightarrow> moved (- 258 * int n) s t)"
  proof cases
    case 1
    then have "after s (take n (pending s)) (out_buf s) t"
      using bits_enough [OF assms(2,3), of "take n (pending s)" "drop n (pending s)"] assms(1) by auto
    moreover have "length (take n (pending s)) = n" using 1 by simp
    ultimately have "moved (- 258 * int n) s t" using moved_after [OF _ assms(2)] by metis
    then show ?thesis using moved_le by simp
  next
    case 2
    obtain t' where t': "t = fail (- 1) t'" "after s [] (out_buf s) t'"
      using bits_short [OF assms(2) 2] assms(1) by auto
    from moved_fail [OF moved_after [OF t'(2) assms(2)]] show ?thesis using t'(1) by simp
  qed
  then show "moved 0 s t" "inf_err t = 0 \<Longrightarrow> moved (- 258 * int n) s t" by simp_all
qed

lemma moved_decode_loop:
  "huff_decode_loop s h b code = (r, t) \<Longrightarrow> inf_ok s \<Longrightarrow> moved 0 s t \<and> (r \<noteq> None \<longrightarrow> moved (- 258) s t)"
proof (induction s h b code rule: huff_decode_loop.induct)
  case (1 s h b code)
  show ?case
  proof (cases "b \<le> max_bits h")
    case False
    then have "huff_decode_loop s h b code = (None, fail (- 3) s)" by (subst huff_decode_loop.simps) simp
    then have "t = fail (- 3) s" "r = None" using 1(2) by simp_all
    then show ?thesis using moved_fail [OF moved_refl [OF 1(3)]] by simp
  next
    case True
    obtain v s1 where v: "inf_bits s 1 = (v, s1)" by (cases "inf_bits s 1")
    note m = moved_bits [OF v 1(3)]
    let ?code = "push_bit 1 code OR v"
    let ?hit = "counts h ! b \<noteq> 0 \<and> ucast (first_code h ! b) \<le> ?code \<and> unat ?code < unat (first_code h ! b) + unat (counts h ! b)"
    consider "inf_err s1 \<noteq> 0" | "inf_err s1 = 0" "?hit" | "inf_err s1 = 0" "\<not> ?hit" by blast
    then show ?thesis
    proof cases
      case 1
      then show ?thesis using m(1) \<open>huff_decode_loop s h b code = (r, t)\<close> True v
        by (subst (asm) huff_decode_loop.simps) (simp add: Let_def del: One_nat_def)
    next
      case 2
      then show ?thesis using m \<open>huff_decode_loop s h b code = (r, t)\<close> True v
        by (subst (asm) huff_decode_loop.simps) (auto simp: Let_def simp del: One_nat_def)
    next
      case 3
      then have "huff_decode_loop s1 h (b + 1) ?code = (r, t)"
        using \<open>huff_decode_loop s h b code = (r, t)\<close> True v
        by (subst (asm) huff_decode_loop.simps) (simp only: Let_def prod.case if_False if_True simp_thms)
      then have "moved 0 s1 t \<and> (r \<noteq> None \<longrightarrow> moved (- 258) s1 t)"
        using "1.IH" [OF True v [symmetric] refl] 3 moved_ok [OF m(1)] by simp
      then show ?thesis using moved_trans [OF m(1)] by auto
    qed
  qed
qed

lemma moved_decode:
  assumes "huff_decode s h = (r, t)" and "inf_ok s"
  shows "moved 0 s t" and "r \<noteq> None \<Longrightarrow> moved (- 258) s t"
  using moved_decode_loop [OF assms(1) [unfolded huff_decode_def] assms(2)] by simp_all

lemma moved_emit: "inf_emit s c = (ok, t) \<Longrightarrow> inf_ok s \<Longrightarrow> moved 1 s t"
proof (cases "length (out_buf s) < out_cap s")
  case True
  assume "inf_emit s c = (ok, t)" "inf_ok s"
  with emit_after [OF _ True, of c] bits_left_emit [of s c ok t] show ?thesis
    by (auto simp: moved_def after_def)
next
  case False
  assume "inf_emit s c = (ok, t)" "inf_ok s"
  then show ?thesis using False moved_fail [OF moved_refl] by (auto simp: inf_emit_def)
qed

lemma moved_copy: "inf_copy s src d i n = (ok, t) \<Longrightarrow> inf_ok s \<Longrightarrow> moved (int n) s t"
proof (induction s src d i n rule: inf_copy.induct)
  case (2 s src d i n)
  obtain c u where u: "inf_emit s (out_buf s ! (src + i mod d)) = (c, u)"
    by (cases "inf_emit s (out_buf s ! (src + i mod d))")
  have m: "moved 1 s u" by (rule moved_emit [OF u 2(3)])
  show ?case
  proof (cases c)
    case True
    then have "moved (int n) u t" using 2(1) [OF u [symmetric]] 2(2) u moved_ok [OF m] by simp
    then show ?thesis using moved_trans [OF m] by simp
  next
    case False
    then show ?thesis using 2(2) u moved_le [OF m] by simp
  qed
qed (auto intro: moved_refl)

lemma copy_length_le: "i < 29 \<Longrightarrow> lx < 2 ^ (k_len_extra ! i) \<Longrightarrow> k_len_base ! i + lx \<le> 258"
proof -
  assume i: "i < 29" and lx: "lx < 2 ^ (k_len_extra ! i)"
  have "\<forall>p \<in> set (zip k_len_base k_len_extra). fst p + 2 ^ snd p \<le> 259"
    by (simp add: k_len_base_def k_len_extra_def)
  moreover have "(k_len_base ! i, k_len_extra ! i) \<in> set (zip k_len_base k_len_extra)"
  proof -
    have len: "length k_len_base = 29" "length k_len_extra = 29" by (simp_all add: k_len_base_def k_len_extra_def)
    then have "zip k_len_base k_len_extra ! i \<in> set (zip k_len_base k_len_extra)" using i by (intro nth_mem) simp
    then show ?thesis using i len by simp
  qed
  ultimately have "k_len_base ! i + 2 ^ (k_len_extra ! i) \<le> 259" by fastforce
  then show ?thesis using lx by linarith
qed

lemma unat_bits_less:
  assumes "inf_bits s n = (v, t)" and "inf_ok s" and "n \<le> 24"
  shows "unat v < 2 ^ n"
proof (cases "n \<le> length (pending s)")
  case True
  then have "v = of_nat (value_of (take n (pending s)))"
    using bits_enough [OF assms(2,3), of "take n (pending s)" "drop n (pending s)"] assms(1) by auto
  moreover have "value_of (take n (pending s)) < 2 ^ n"
    using value_of_less [of "take n (pending s)"] True by (simp only: length_take min_absorb2)
  moreover have "unat (of_nat m :: u32) \<le> m" for m by (simp add: unat_of_nat)
  ultimately show ?thesis using le_less_trans by blast
next
  case False
  then show ?thesis using bits_short [OF assms(2), of n] assms(1) by auto
qed

lemma moved_match: "inf_match s dist lsym = (ok, t) \<Longrightarrow> inf_ok s \<Longrightarrow> moved 258 s t"
proof (cases "lsym < 29")
  case False
  assume "inf_match s dist lsym = (ok, t)" "inf_ok s"
  then show ?thesis using False moved_fail [OF moved_refl] by (auto simp: inf_match_def)
next
  case lt: True
  assume run: "inf_match s dist lsym = (ok, t)" and s: "inf_ok s"
  obtain v s1 where s1: "inf_bits s (k_len_extra ! lsym) = (v, s1)" by (cases "inf_bits s (k_len_extra ! lsym)")
  note m1 = moved_bits(1) [OF s1 s len_extra_le [OF lt]]
  show ?thesis
  proof (cases "inf_err s1 = 0")
    case False
    then show ?thesis using run s1 lt moved_le [OF m1] by (simp add: inf_match_def)
  next
    case e1: True
    obtain d s2 where s2: "huff_decode s1 dist = (d, s2)" by (cases "huff_decode s1 dist")
    have m2: "moved 0 s s2" using moved_trans [OF m1 moved_decode(1) [OF s2 moved_ok [OF m1]]] by simp
    show ?thesis
    proof (cases "d = None \<or> the d \<ge> 30")
      case True
      then show ?thesis
        using run s1 s2 lt e1 moved_le [OF m2] moved_le [OF moved_fail [OF m2]]
        by (auto simp: inf_match_def Let_def split: option.splits)
    next
      case False
      then obtain dsym where d: "d = Some dsym" "dsym < 30" by auto
      obtain w s3 where s3: "inf_bits s2 (k_dist_extra ! dsym) = (w, s3)" by (cases "inf_bits s2 (k_dist_extra ! dsym)")
      have m3: "moved 0 s s3"
        using moved_trans [OF m2 moved_bits(1) [OF s3 moved_ok [OF m2]]] dist_extra_le [OF d(2)] by simp
      let ?d = "k_dist_base ! dsym + unat w" and ?n = "k_len_base ! lsym + unat v"
      show ?thesis
      proof (cases "inf_err s3 \<noteq> 0 \<or> ?d > length (out_buf s3)")
        case True
        then show ?thesis
          using run s1 s2 s3 d lt e1 moved_le [OF m3] moved_le [OF moved_fail [OF m3]]
          by (auto simp: inf_match_def Let_def split: if_splits)
      next
        case False
        then have "inf_copy s3 (length (out_buf s3) - ?d) ?d 0 ?n = (ok, t)"
          using run s1 s2 s3 d lt e1 by (simp add: inf_match_def Let_def)
        moreover have "0 + int ?n \<le> 258"
          using copy_length_le [OF lt unat_bits_less [OF s1 s len_extra_le [OF lt]]] by linarith
        ultimately show ?thesis using moved_trans [OF m3 moved_copy [OF _ moved_ok [OF m3]]] by blast
      qed
    qed
  qed
qed

lemma moved_codes: "inf_decode_codes s ll dist = (ok, t) \<Longrightarrow> inf_ok s \<Longrightarrow> moved 0 s t"
proof (induction s ll dist rule: inf_decode_codes.induct)
  case (1 s ll dist)
  obtain r s1 where s1: "huff_decode s ll = (r, s1)" by (cases "huff_decode s ll")
  note m1 = moved_decode [OF s1 1(4)]
  show ?case
  proof (cases r)
    case None
    then show ?thesis using 1(3) s1 m1(1) by (subst (asm) inf_decode_codes.simps) simp
  next
    case (Some symb)
    have m: "moved (- 258) s s1" using m1(2) Some by simp
    consider "symb < 256" | "symb = 256" | "256 < symb" by linarith
    then show ?thesis
    proof cases
      case a: 1
      obtain c u where u: "inf_emit s1 (of_nat symb) = (c, u)" by (cases "inf_emit s1 (of_nat symb)")
      have mu: "moved (- 257) s u" by (rule moved_trans [OF m moved_emit [OF u moved_ok [OF m]]]) simp
      show ?thesis
      proof (cases c)
        case True
        then have "inf_decode_codes u ll dist = (ok, t)"
          using 1(3) s1 Some a u by (subst (asm) inf_decode_codes.simps) simp
        then have "moved 0 u t" using 1(1) [OF s1 [symmetric] Some a u [symmetric]] True moved_ok [OF mu] by simp
        then show ?thesis using moved_trans [OF mu] by simp
      next
        case False
        then show ?thesis using 1(3) s1 Some a u moved_le [OF mu] by (subst (asm) inf_decode_codes.simps) simp
      qed
    next
      case 2
      then show ?thesis using 1(3) s1 Some m1(1) by (subst (asm) inf_decode_codes.simps) simp
    next
      case a: 3
      obtain c u where u: "inf_match s1 dist (symb - 257) = (c, u)" by (cases "inf_match s1 dist (symb - 257)")
      have mu: "moved 0 s u" by (rule moved_trans [OF m moved_match [OF u moved_ok [OF m]]]) simp
      show ?thesis
      proof (cases c)
        case True
        then have "inf_decode_codes u ll dist = (ok, t)"
          using 1(3) s1 Some a u by (subst (asm) inf_decode_codes.simps) simp
        then have "moved 0 u t" using 1(2) [OF s1 [symmetric] Some _ _ u [symmetric]] a True moved_ok [OF mu] by simp
        then show ?thesis using moved_trans [OF mu] by simp
      next
        case False
        then show ?thesis using 1(3) s1 Some a u mu by (subst (asm) inf_decode_codes.simps) simp
      qed
    qed
  qed
qed

lemma moved_stored_loop:
  "stored_loop s n = (ok, t) \<Longrightarrow> inf_ok s \<Longrightarrow> bit_cnt s = 0 \<Longrightarrow> in_pos s + n \<le> length (inp s) \<Longrightarrow> moved 0 s t"
proof (induction s n rule: stored_loop.induct)
  case (2 s n)
  let ?s = "s\<lparr>in_pos := in_pos s + 1\<rparr>"
  have ok1: "inf_ok ?s"
    using inf_okD(1-4) [OF 2(3)] inf_okD(5) [OF 2(3)] 2(4,5) by (simp add: inf_ok_def)
  have step: "moved (- 1) s ?s" using ok1 2(5) by (simp add: moved_def bits_left_def)
  obtain c u where u: "inf_emit ?s (inp s ! in_pos s) = (c, u)" by (cases "inf_emit ?s (inp s ! in_pos s)")
  have mu: "moved 0 s u" by (rule moved_trans [OF step moved_emit [OF u ok1]]) simp
  show ?case
  proof (cases c)
    case True
    have fields: "bit_cnt u = bit_cnt s" "in_pos u = in_pos s + 1" "inp u = inp s"
      using u by (auto simp: inf_emit_def split: if_splits)
    then have "moved 0 u t"
      using 2(1) [OF u [symmetric]] 2(2,4,5) True u moved_ok [OF mu] by simp
    then show ?thesis using moved_trans [OF mu] by simp
  next
    case False
    then show ?thesis using 2(2) u mu by simp
  qed
qed (simp add: moved_refl)

lemma moved_align: "inf_ok s \<Longrightarrow> moved 0 s (inf_align s) \<and> bit_cnt (inf_align s) mod 8 = 0"
proof -
  assume s: "inf_ok s"
  define e where "e = bit_cnt s mod 8"
  have le: "e \<le> bit_cnt s" by (simp add: e_def)
  have "bits_left s = length (pending s)" using length_pending_left [OF s] by simp
  then have len: "e \<le> length (pending s)" using le by (simp add: bits_left_def)
  have "(consumed s + bit_cnt s) mod 8 = 0" using inf_okD(2) [OF s] by (simp add: consumed_def)
  then have "(consumed s + length (take e (pending s))) mod 8 = 0"
    using len by (simp add: e_def mod_add_right_eq)
  moreover have "length (take e (pending s)) < 8" using len by (simp add: e_def)
  ultimately have a: "after s (take e (pending s)) (out_buf s) (inf_align s)" "bit_cnt (inf_align s) mod 8 = 0"
    using align_after [OF s, of "take e (pending s)" "drop e (pending s)"] by simp_all
  show ?thesis using moved_le [OF moved_after [OF a(1) s]] a(2) by simp
qed

lemma moved_stored: "inf_block_stored s = (ok, t) \<Longrightarrow> inf_ok s \<Longrightarrow> moved 0 s t"
proof -
  assume run: "inf_block_stored s = (ok, t)" and s: "inf_ok s"
  define u where "u = (inf_align s)\<lparr>in_pos := in_pos (inf_align s) - bit_cnt (inf_align s) div 8,
    bit_buf := 0, bit_cnt := 0\<rparr>"
  note al = moved_align [OF s, THEN conjunct1] moved_align [OF s, THEN conjunct2]
  have mu: "moved 0 s u"
  proof -
    have "moved 0 (inf_align s) u"
      using moved_after [OF rewind_after [OF moved_ok [OF al(1)] al(2)] moved_ok [OF al(1)]] by (simp add: u_def)
    then show ?thesis using moved_trans [OF al(1)] by simp
  qed
  have cu: "bit_cnt u = 0" by (simp add: u_def)
  let ?v = "u\<lparr>in_pos := in_pos u + 4\<rparr>"
  show ?thesis
  proof (cases "in_pos u + 4 > length (inp u)")
    case True
    then show ?thesis
      using run moved_fail [OF mu] unfolding inf_block_stored_def Let_def u_def [symmetric] by auto
  next
    case False
    have "inf_ok ?v"
      using inf_okD(1-4) [OF moved_ok [OF mu]] inf_okD(5) [OF moved_ok [OF mu]] cu False by (simp add: inf_ok_def)
    then have mv: "moved 0 u ?v" by (simp add: moved_def bits_left_def)
    note m = moved_trans [OF mu mv, of 0]
    show ?thesis
      using run False m moved_fail [OF m] moved_trans [OF m moved_stored_loop] moved_ok [OF mv] cu
      unfolding inf_block_stored_def Let_def u_def [symmetric]
      by (auto split: if_splits)
  qed
qed

lemma moved_allocs: "inf_ok s \<Longrightarrow> moved 0 s (s\<lparr>allocs := n\<rparr>)"
  using moved_after [OF after_allocs] by simp

lemma moved_two_tables: "two_tables env s = (r, t) \<Longrightarrow> inf_ok s \<Longrightarrow> moved 0 s t"
  using moved_allocs by (auto simp: two_tables_def split: option.splits)

lemma moved_fixed: "inf_block_fixed env s = (ok, t) \<Longrightarrow> inf_ok s \<Longrightarrow> moved 0 s t"
proof -
  assume run: "inf_block_fixed env s = (ok, t)" and s: "inf_ok s"
  obtain r u where u: "two_tables env s = (r, u)" by (cases "two_tables env s")
  note m = moved_two_tables [OF u s]
  show ?thesis
    using run u m moved_fail [OF m] moved_trans [OF m moved_codes [OF _ moved_ok [OF m]]]
    by (auto simp: inf_block_fixed_def split: option.splits)
qed

lemma moved_clen_loop: "clen_loop s order clens = (r, t) \<Longrightarrow> inf_ok s \<Longrightarrow> moved 0 s t"
proof (induction s order clens rule: clen_loop.induct)
  case (2 s k order clens)
  obtain v u where u: "inf_bits s 3 = (v, u)" by (cases "inf_bits s 3")
  have m: "moved 0 s u" by (rule moved_bits(1) [OF u 2(3)]) simp
  have "moved 0 u t" using 2(1) [OF u [symmetric]] 2(2) u moved_ok [OF m] by simp
  then show ?case using moved_trans [OF m] by simp
qed (simp add: moved_refl)

lemma moved_lens_loop: "lens_loop s h tot i lens = (r, t) \<Longrightarrow> inf_ok s \<Longrightarrow> moved 0 s t"
proof (induction s h tot i lens rule: lens_loop.induct)
  case (1 s h tot i lens)
  obtain d s1 where s1: "huff_decode s h = (d, s1)" by (cases "huff_decode s h")
  note m1 = moved_decode(1) [OF s1 1(6)]
  show ?case
  proof (cases "i < tot \<and> d \<noteq> None")
    case False
    then show ?thesis
      using 1(5) s1 m1 moved_refl [OF 1(6)] by (subst (asm) lens_loop.simps) (auto split: if_splits)
  next
    case True
    then obtain symb where d: "i < tot" "d = Some symb" by auto
    define n where "n = (if symb = 16 then 2 else if symb = 17 then 3 else 7 :: nat)"
    obtain v u where u: "inf_bits s1 n = (v, u)" by (cases "inf_bits s1 n")
    have mu: "moved 0 s u"
      using moved_trans [OF m1 moved_bits(1) [OF u moved_ok [OF m1]]] by (simp add: n_def)
    consider "symb < 16" | "symb = 16" | "symb = 17" | "17 < symb" by linarith
    then show ?thesis
    proof cases
      case a: 1
      then have "lens_loop s1 h tot (i + 1) (lens[i := of_nat symb]) = (r, t)"
        using 1(5) s1 d by (subst (asm) lens_loop.simps) simp
      then show ?thesis using 1(1) [OF d(1) s1 [symmetric] d(2) a] moved_ok [OF m1] moved_trans [OF m1] by simp
    next
      case a: 2
      obtain lens' i' where f: "fill_lens lens i tot (lens ! (i - 1)) (unat v + 3) = (lens', i')"
        by (cases "fill_lens lens i tot (lens ! (i - 1)) (unat v + 3)")
      show ?thesis
      proof (cases "i = 0 \<or> inf_err u \<noteq> 0")
        case True
        then show ?thesis
          using 1(5) s1 d a u mu moved_fail [OF m1]
          by (subst (asm) lens_loop.simps) (auto simp: n_def Let_def split: prod.splits if_splits)
      next
        case False
        then have "lens_loop u h tot i' lens' = (r, t)"
          using 1(5) s1 d a u f by (subst (asm) lens_loop.simps) (simp add: n_def Let_def)
        then show ?thesis
          using 1(2) [OF d(1) s1 [symmetric] d(2) _ a _ refl _ _ f [symmetric]] False u a
            moved_ok [OF mu] moved_trans [OF mu] by (simp add: n_def)
      qed
    next
      case a: 3
      obtain lens' i' where f: "fill_lens lens i tot 0 (unat v + 3) = (lens', i')"
        by (cases "fill_lens lens i tot 0 (unat v + 3)")
      show ?thesis
      proof (cases "inf_err u \<noteq> 0")
        case True
        then show ?thesis
          using 1(5) s1 d a u mu by (subst (asm) lens_loop.simps) (auto simp: n_def Let_def)
      next
        case False
        then have "lens_loop u h tot i' lens' = (r, t)"
          using 1(5) s1 d a u f by (subst (asm) lens_loop.simps) (simp add: n_def Let_def)
        then show ?thesis
          using 1(3) [OF d(1) s1 [symmetric] d(2) _ _ a _ _ f [symmetric]] False u a
            moved_ok [OF mu] moved_trans [OF mu] by (simp add: n_def)
      qed
    next
      case a: 4
      obtain lens' i' where f: "fill_lens lens i tot 0 (unat v + 11) = (lens', i')"
        by (cases "fill_lens lens i tot 0 (unat v + 11)")
      show ?thesis
      proof (cases "inf_err u \<noteq> 0")
        case True
        then show ?thesis
          using 1(5) s1 d a u mu by (subst (asm) lens_loop.simps) (auto simp: n_def Let_def)
      next
        case False
        then have "lens_loop u h tot i' lens' = (r, t)"
          using 1(5) s1 d a u f by (subst (asm) lens_loop.simps) (simp add: n_def Let_def)
        then show ?thesis
          using 1(4) [OF d(1) s1 [symmetric] d(2) _ _ _ _ _ f [symmetric]] False u a
            moved_ok [OF mu] moved_trans [OF mu] by (simp add: n_def)
      qed
    qed
  qed
qed

lemma moved_dynamic_tables:
  assumes run: "dynamic_tables env s hlit hdist clens = (ok, t)" and s: "inf_ok s"
  shows "moved 0 s t"
proof -
  define s1 where "s1 = s\<lparr>allocs := allocs s + 1\<rparr>"
  define s2 where "s2 = s1\<lparr>allocs := allocs s1 + 1\<rparr>"
  have m1: "moved 0 s s1" using moved_allocs [OF s] by (simp add: s1_def)
  have m2: "moved 0 s s2" using moved_trans [OF m1 moved_allocs [OF moved_ok [OF m1]]] by (simp add: s2_def)
  show ?thesis
  proof (cases "table_mem env (allocs s) = None \<or> huff_build (the (table_mem env (allocs s))) clens = None \<or>
      \<not> lens_mem env (allocs s1)")
    case True
    then show ?thesis
      using run moved_fail [OF m1] moved_fail [OF m2]
      unfolding dynamic_tables_def Let_def s1_def [symmetric] s2_def [symmetric]
      by (auto split: option.splits)
  next
    case False
    then obtain h c where h: "table_mem env (allocs s) = Some h" "huff_build h clens = Some c" by auto
    obtain l s3 where s3: "lens_loop s2 c (hlit + hdist) 0 (replicate (INF_MAX_LSYMS + INF_MAX_DSYMS) 0) = (l, s3)"
      by (cases "lens_loop s2 c (hlit + hdist) 0 (replicate (INF_MAX_LSYMS + INF_MAX_DSYMS) 0)")
    have m3: "moved 0 s s3" using moved_trans [OF m2 moved_lens_loop [OF s3 moved_ok [OF m2]]] by simp
    obtain p s4 where s4: "two_tables env s3 = (p, s4)" by (cases "two_tables env s3")
    have m4: "moved 0 s s4" using moved_trans [OF m3 moved_two_tables [OF s4 moved_ok [OF m3]]] by simp
    show ?thesis
      using run h False s3 s4 m3 m4 moved_fail [OF m4] moved_trans [OF m4 moved_codes [OF _ moved_ok [OF m4]]]
      unfolding dynamic_tables_def Let_def s1_def [symmetric] s2_def [symmetric]
      by (auto split: option.splits)
  qed
qed

lemma moved_dynamic:
  assumes run: "inf_block_dynamic env s = (ok, t)" and s: "inf_ok s"
  shows "moved 0 s t"
proof -
  obtain v1 s1 where s1: "inf_bits s 5 = (v1, s1)" by (cases "inf_bits s 5")
  have m1: "moved 0 s s1" by (rule moved_bits(1) [OF s1 s]) simp
  obtain v2 s2 where s2: "inf_bits s1 5 = (v2, s2)" by (cases "inf_bits s1 5")
  have m2: "moved 0 s s2" using moved_trans [OF m1 moved_bits(1) [OF s2 moved_ok [OF m1]]] by simp
  obtain v3 s3 where s3: "inf_bits s2 4 = (v3, s3)" by (cases "inf_bits s2 4")
  have m3: "moved 0 s s3" using moved_trans [OF m2 moved_bits(1) [OF s3 moved_ok [OF m2]]] by simp
  obtain c s4 where s4: "clen_loop s3 (take (unat v3 + 4) clen_order) (replicate INF_MAX_CSYMS 0) = (c, s4)"
    by (cases "clen_loop s3 (take (unat v3 + 4) clen_order) (replicate INF_MAX_CSYMS 0)")
  have m4: "moved 0 s s4" using moved_trans [OF m3 moved_clen_loop [OF s4 moved_ok [OF m3]]] by simp
  show ?thesis
    using run s1 s2 s3 s4 m3 m4 moved_fail [OF m3] moved_trans [OF m4 moved_dynamic_tables [OF _ moved_ok [OF m4]]]
    by (auto simp: inf_block_dynamic_def Let_def split: if_splits)
qed

lemma moved_block: "inf_block env s btype = (ok, t) \<Longrightarrow> inf_ok s \<Longrightarrow> moved 0 s t"
  using moved_fail [OF moved_refl]
  by (auto simp: inf_block_def dest: moved_stored moved_fixed moved_dynamic split: if_splits)

lemma moved_inflate: "inflate_raw env s = (ok, t) \<Longrightarrow> inf_ok s \<Longrightarrow> moved 0 s t"
proof (induction env s rule: inflate_raw.induct)
  case (1 env s)
  obtain v1 s1 where s1: "inf_bits s 1 = (v1, s1)" by (cases "inf_bits s 1")
  have m1: "moved 0 s s1" by (rule moved_bits(1) [OF s1 1(3)]) simp
  obtain v2 s2 where s2: "inf_bits s1 2 = (v2, s2)" by (cases "inf_bits s1 2")
  have m2: "moved 0 s s2" using moved_trans [OF m1 moved_bits(1) [OF s2 moved_ok [OF m1]]] by simp
  obtain c s3 where s3: "inf_block env s2 v2 = (c, s3)" by (cases "inf_block env s2 v2")
  have m3: "moved 0 s s3" using moved_trans [OF m2 moved_block [OF s3 moved_ok [OF m2]]] by simp
  show ?case
  proof (cases "inf_err s2 = 0 \<and> c \<and> v1 = 0")
    case True
    then have "inflate_raw env s3 = (ok, t)"
      using 1(2) s1 s2 s3 by (subst (asm) inflate_raw.simps) simp
    then have "moved 0 s3 t"
      using 1(1) [OF s1 [symmetric] s2 [symmetric] _ s3 [symmetric]] True moved_ok [OF m3] by simp
    then show ?thesis using moved_trans [OF m3] by simp
  next
    case False
    then show ?thesis
      using 1(2) s1 s2 s3 m2 m3 by (subst (asm) inflate_raw.simps) (auto split: if_splits)
  qed
qed

end
