(* ===== verification/Akpkg_Archive.thy ===== *)
theory Akpkg_Archive
  imports Akpkg_Bounds
begin

text \<open>
  The public operations of \<open>akpkg.c\<close>: the gzip wrapper around the decompressor, base64 and the walk
  over a tar archive. A pointer into an archive is its offset.

  \<open>strrchr\<close> and \<open>strcmp\<close> read the name of a tar entry up to a zero octet, wherever it is, so the
  octets after the archive in memory are an argument of the walk. The width of \<open>size_t\<close> is an
  argument where a value can exceed it.
\<close>

section \<open>gzip\<close>

definition GZIP_ID1 :: u8 where "GZIP_ID1 = 0x1f"
definition GZIP_ID2 :: u8 where "GZIP_ID2 = 0x8b"
definition GZIP_METHOD :: u8 where "GZIP_METHOD = 0x08"
definition GZIP_FHCRC :: u8 where "GZIP_FHCRC = 0x02"
definition GZIP_FEXTRA :: u8 where "GZIP_FEXTRA = 0x04"
definition GZIP_FNAME :: u8 where "GZIP_FNAME = 0x08"
definition GZIP_FCOMMENT :: u8 where "GZIP_FCOMMENT = 0x10"

text \<open>The loop over a zero-terminated field, and the position after it.\<close>

function skip_text_from :: "octets \<Rightarrow> nat \<Rightarrow> nat" where
  "skip_text_from data pos =
     (if pos < length data \<and> data ! pos \<noteq> 0 then skip_text_from data (pos + 1) else pos)"
  by pat_completeness auto
termination
  by (relation "measure (\<lambda>(data, pos). length data - pos)") auto

declare skip_text_from.simps [simp del]

definition skip_text :: "octets \<Rightarrow> nat \<Rightarrow> nat option" where
  "skip_text data pos =
     (let pos = skip_text_from data pos in if pos \<ge> length data then None else Some (pos + 1))"

definition skip_extra :: "octets \<Rightarrow> nat \<Rightarrow> nat option" where
  "skip_extra data pos =
     (if pos + 2 > length data then None
      else Some (pos + 2 + unat (ucast (data ! pos) OR push_bit 8 (ucast (data ! (pos + 1))) :: u16)))"

text \<open>An optional header field: skipped when its flag is set.\<close>

definition when_flag :: "u8 \<Rightarrow> u8 \<Rightarrow> (nat \<Rightarrow> nat option) \<Rightarrow> nat \<Rightarrow> nat option" where
  "when_flag flg flag skip pos = (if flg AND flag \<noteq> 0 then skip pos else Some pos)"

definition le32_at :: "octets \<Rightarrow> nat \<Rightarrow> nat" where
  "le32_at data i =
     unat (ucast (data ! i) OR push_bit 8 (ucast (data ! (i + 1))) OR
           push_bit 16 (ucast (data ! (i + 2))) OR push_bit 24 (ucast (data ! (i + 3))) :: u32)"

definition gzip_parse :: "octets \<Rightarrow> (nat \<times> nat) result" where
  "gzip_parse data =
     (if length data < 18 then Inl (- EINVAL)
      else if data ! 0 \<noteq> GZIP_ID1 \<or> data ! 1 \<noteq> GZIP_ID2 then Inl (- EINVAL)
      else if data ! 2 \<noteq> GZIP_METHOD then Inl (- ENOTSUP)
      else
        let flg = data ! 3 in
        case when_flag flg GZIP_FEXTRA (skip_extra data) 10 of
          None \<Rightarrow> Inl (- EINVAL)
        | Some pos \<Rightarrow>
            case when_flag flg GZIP_FNAME (skip_text data) pos of
              None \<Rightarrow> Inl (- EINVAL)
            | Some pos \<Rightarrow>
                case when_flag flg GZIP_FCOMMENT (skip_text data) pos of
                  None \<Rightarrow> Inl (- EINVAL)
                | Some pos \<Rightarrow>
                    let pos = (if flg AND GZIP_FHCRC \<noteq> 0 then pos + 2 else pos) in
                    if pos + 8 > length data then Inl (- EINVAL)
                    else Inr (pos, le32_at data (length data - 4)))"

definition akpkg_is_gzip :: "octets \<Rightarrow> bool" where
  "akpkg_is_gzip data \<longleftrightarrow> length data \<ge> 2 \<and> data ! 0 = GZIP_ID1 \<and> data ! 1 = GZIP_ID2"

definition start_inf :: "octets \<Rightarrow> nat \<Rightarrow> inf" where
  "start_inf input cap =
     \<lparr>inp = input, in_pos = 0, bit_buf = 0, bit_cnt = 0, out_buf = [], out_cap = cap, inf_err = 0, allocs = 0\<rparr>"

definition akpkg_inflate :: "inf_env \<Rightarrow> octets \<Rightarrow> nat \<Rightarrow> octets result" where
  "akpkg_inflate env gz cap =
     (case gzip_parse gz of
        Inl ret \<Rightarrow> Inl ret
      | Inr (deflate_start, isize) \<Rightarrow>
          if isize = 0 \<or> isize > cap then Inl (- ENOMEM)
          else
            case inflate_raw env (start_inf (take (length gz - deflate_start - 8) (drop deflate_start gz)) isize) of
              (ok, s) \<Rightarrow> if \<not> ok \<or> inf_err s \<noteq> 0 then Inl (- EIO) else Inr (out_buf s))"

section \<open>base64\<close>

definition k_dtab :: "int list" where
  "k_dtab =
     replicate 43 (- 1) @ [62, - 1, - 1, - 1, 63] @ map int [52..<62] @ replicate 7 (- 1) @
     map int [0..<26] @ replicate 6 (- 1) @ map int [26..<52] @ replicate 133 (- 1)"

text \<open>The loop over the characters; nothing when the output buffer is too small.\<close>

fun base64_loop :: "octets \<Rightarrow> u32 \<Rightarrow> nat \<Rightarrow> octets \<Rightarrow> nat \<Rightarrow> octets option" where
  "base64_loop [] acc acc_bits out cap = Some out"
| "base64_loop (c # src) acc acc_bits out cap =
     (if c = of_char CHR ''='' \<or> c = 13 \<or> c = 10 \<or> c = 32 then base64_loop src acc acc_bits out cap
      else if k_dtab ! unat c < 0 then Some out
      else
        let acc = push_bit 6 acc OR of_int (k_dtab ! unat c); acc_bits = acc_bits + 6 in
        if acc_bits \<ge> 8
        then
          (if length out \<ge> cap then None
           else base64_loop src acc (acc_bits - 8) (out @ [ucast (drop_bit (acc_bits - 8) acc AND 0xFF)]) cap)
        else base64_loop src acc acc_bits out cap)"

definition akpkg_base64_decode :: "octets \<Rightarrow> nat \<Rightarrow> octets" where
  "akpkg_base64_decode src cap =
     (case base64_loop src 0 0 [] cap of None \<Rightarrow> [] | Some out \<Rightarrow> out)"

section \<open>tar\<close>

definition TAR_BLOCK_SZ :: nat where "TAR_BLOCK_SZ = 512"

text \<open>The digits of an octal field, in a \<open>size_t\<close> of \<open>w\<close> bits.\<close>

fun tar_octal_from :: "nat \<Rightarrow> octets \<Rightarrow> nat \<Rightarrow> nat" where
  "tar_octal_from w [] v = v"
| "tar_octal_from w (c # field) v =
     (if c < of_char CHR ''0'' \<or> c > of_char CHR ''7'' then v
      else tar_octal_from w field ((v * 8 + unat (c - of_char CHR ''0'')) mod 2 ^ w))"

definition tar_octal :: "nat \<Rightarrow> octets \<Rightarrow> nat" where
  "tar_octal w field = tar_octal_from w field 0"

definition base_name :: "octets \<Rightarrow> octets" where
  "base_name name = rev (takeWhile (\<lambda>c. c \<noteq> of_char CHR ''/'') (rev name))"

definition app_wasm :: octets where "app_wasm = map of_char ''app.wasm''"
definition app_aot :: octets where "app_aot = map of_char ''app.aot''"
definition manifest_json :: octets where "manifest_json = map of_char ''manifest.json''"

record tar_found =
  wasm_ptr :: "(nat \<times> nat) option"
  manifest_ptr :: "(nat \<times> nat) option"

text \<open>A regular file with a name the loader looks for is recorded with its offset and size.\<close>

definition tar_record :: "octets \<Rightarrow> u8 \<Rightarrow> nat \<Rightarrow> nat \<Rightarrow> tar_found \<Rightarrow> tar_found" where
  "tar_record name ttype pos fsize found =
     (if ttype = of_char CHR ''0'' \<or> ttype = 0
      then
        if base_name name = app_wasm \<or> base_name name = app_aot
        then found\<lparr>wasm_ptr := Some (pos, fsize)\<rparr>
        else if base_name name = manifest_json then found\<lparr>manifest_ptr := Some (pos, fsize)\<rparr>
        else found
      else found)"

function tar_walk :: "nat \<Rightarrow> octets \<Rightarrow> octets \<Rightarrow> nat \<Rightarrow> tar_found \<Rightarrow> tar_found" where
  "tar_walk w tar beyond pos found =
     (if pos + TAR_BLOCK_SZ \<le> length tar
      then
        if \<forall>c \<in> set (take TAR_BLOCK_SZ (drop pos tar)). c = 0 then found
        else
          let name = takeWhile (\<lambda>c. c \<noteq> 0) (drop pos (tar @ beyond));
              fsize = tar_octal w (take 12 (drop (pos + 124) tar));
              ttype = tar ! (pos + 156);
              pos = pos + TAR_BLOCK_SZ
          in if fsize > length tar \<or> pos > length tar - fsize then found
             else tar_walk w tar beyond (pos + (fsize + TAR_BLOCK_SZ - 1) div TAR_BLOCK_SZ * TAR_BLOCK_SZ)
                    (tar_record name ttype pos fsize found)
      else found)"
  by pat_completeness auto
termination
  by (relation "measure (\<lambda>(w, tar, beyond, pos, found). length tar - pos)") (auto simp: TAR_BLOCK_SZ_def Let_def)

declare tar_walk.simps [simp del]

definition akpkg_tar_extract :: "nat \<Rightarrow> octets \<Rightarrow> octets \<Rightarrow> ((nat \<times> nat) \<times> (nat \<times> nat)) result" where
  "akpkg_tar_extract w tar beyond =
     (case tar_walk w tar beyond 0 \<lparr>wasm_ptr = None, manifest_ptr = None\<rparr> of
        found \<Rightarrow>
          (case (wasm_ptr found, manifest_ptr found) of
             (Some wasm, Some manifest) \<Rightarrow> Inr (wasm, manifest)
           | _ \<Rightarrow> Inl (- ENOENT)))"

section \<open>A gzip file with any header fields\<close>

text \<open>The optional fields of RFC 1952: extra octets, name and comment, and the header checksum.\<close>

record gzip_fields =
  gz_extra :: "octets option"
  gz_name :: "octets option"
  gz_comment :: "octets option"
  gz_hcrc :: "(u8 \<times> u8) option"

definition gzip_fields_ok :: "gzip_fields \<Rightarrow> bool" where
  "gzip_fields_ok f \<longleftrightarrow>
     (case gz_extra f of None \<Rightarrow> True | Some x \<Rightarrow> length x < 2 ^ 16) \<and>
     (case gz_name f of None \<Rightarrow> True | Some n \<Rightarrow> 0 \<notin> set n) \<and>
     (case gz_comment f of None \<Rightarrow> True | Some n \<Rightarrow> 0 \<notin> set n)"

definition gzip_flags :: "gzip_fields \<Rightarrow> u8" where
  "gzip_flags f =
     (if gz_hcrc f = None then 0 else GZIP_FHCRC) OR (if gz_extra f = None then 0 else GZIP_FEXTRA) OR
     (if gz_name f = None then 0 else GZIP_FNAME) OR (if gz_comment f = None then 0 else GZIP_FCOMMENT)"

definition extra_octets :: "gzip_fields \<Rightarrow> octets" where
  "extra_octets f =
     (case gz_extra f of None \<Rightarrow> [] | Some x \<Rightarrow>
        ucast (of_nat (length x) :: u16) # ucast (drop_bit 8 (of_nat (length x) :: u16)) # x)"

definition text_octets :: "octets option \<Rightarrow> octets" where
  "text_octets n = (case n of None \<Rightarrow> [] | Some n \<Rightarrow> n @ [0])"

definition hcrc_octets :: "gzip_fields \<Rightarrow> octets" where
  "hcrc_octets f = (case gz_hcrc f of None \<Rightarrow> [] | Some (a, b) \<Rightarrow> [a, b])"

definition gzip_header :: "gzip_fields \<Rightarrow> octets \<Rightarrow> octets" where
  "gzip_header f info =
     [GZIP_ID1, GZIP_ID2, GZIP_METHOD, gzip_flags f] @ info @
     extra_octets f @ text_octets (gz_name f) @ text_octets (gz_comment f) @ hcrc_octets f"

definition le32 :: "u32 \<Rightarrow> octets" where
  "le32 w = [ucast w, ucast (drop_bit 8 w), ucast (drop_bit 16 w), ucast (drop_bit 24 w)]"

lemma le32_at_le32: "le32_at (xs @ le32 w) (length xs) = unat w"
proof -
  have "ucast (ucast w :: u8) OR push_bit 8 (ucast (ucast (drop_bit 8 w) :: u8)) OR
        push_bit 16 (ucast (ucast (drop_bit 16 w) :: u8)) OR push_bit 24 (ucast (ucast (drop_bit 24 w) :: u8)) = w"
  proof (rule bit_word_eqI)
    fix n assume "n < LENGTH(32)"
    then consider "n < 8" | "8 \<le> n" "n < 16" | "16 \<le> n" "n < 24" | "24 \<le> n" "n < 32" by fastforce
    then show "bit (ucast (ucast w :: u8) OR push_bit 8 (ucast (ucast (drop_bit 8 w) :: u8)) OR
        push_bit 16 (ucast (ucast (drop_bit 16 w) :: u8)) OR push_bit 24 (ucast (ucast (drop_bit 24 w) :: u8)) :: u32) n
      = bit w n"
      by cases (auto simp: bit_simps)
  qed
  then show ?thesis by (simp add: le32_at_def le32_def nth_append)
qed

lemma skip_text_from_field:
  "0 \<notin> set n \<Longrightarrow> skip_text_from (xs @ n @ 0 # ys) (length xs) = length xs + length n"
proof (induction n arbitrary: xs)
  case Nil
  then show ?case by (subst skip_text_from.simps) simp
next
  case (Cons c n)
  have "skip_text_from ((xs @ [c]) @ n @ 0 # ys) (length (xs @ [c])) = length (xs @ [c]) + length n"
    by (rule Cons.IH) (use Cons.prems in simp)
  then show ?case using Cons.prems by (subst skip_text_from.simps) simp
qed

lemma skip_text_field:
  assumes "case n of None \<Rightarrow> True | Some n \<Rightarrow> 0 \<notin> set n"
    and "flg AND flag \<noteq> 0 \<longleftrightarrow> n \<noteq> None"
  shows "when_flag flg flag (skip_text (xs @ text_octets n @ ys)) (length xs) = Some (length xs + length (text_octets n))"
proof (cases n)
  case (Some t)
  then have "skip_text_from (xs @ t @ 0 # ys) (length xs) = length xs + length t"
    using assms(1) by (intro skip_text_from_field) simp
  then show ?thesis using assms(2) Some by (simp add: when_flag_def skip_text_def text_octets_def Let_def)
qed (use assms in \<open>simp add: when_flag_def text_octets_def\<close>)

lemma skip_extra_field:
  assumes "case gz_extra f of None \<Rightarrow> True | Some x \<Rightarrow> length x < 2 ^ 16"
    and "flg AND flag \<noteq> 0 \<longleftrightarrow> gz_extra f \<noteq> None"
  shows "when_flag flg flag (skip_extra (xs @ extra_octets f @ ys)) (length xs) = Some (length xs + length (extra_octets f))"
proof (cases "gz_extra f")
  case (Some x)
  then have "unat (of_nat (length x) :: u16) = length x" using assms(1) by (simp add: unat_of_nat)
  then show ?thesis
    using assms(2) Some
    by (simp add: when_flag_def skip_extra_def extra_octets_def nth_append join_octets)
qed (use assms in \<open>simp add: when_flag_def extra_octets_def\<close>)

lemma gzip_flag_bits:
  "gzip_flags f AND GZIP_FEXTRA \<noteq> 0 \<longleftrightarrow> gz_extra f \<noteq> None"
  "gzip_flags f AND GZIP_FNAME \<noteq> 0 \<longleftrightarrow> gz_name f \<noteq> None"
  "gzip_flags f AND GZIP_FCOMMENT \<noteq> 0 \<longleftrightarrow> gz_comment f \<noteq> None"
  "gzip_flags f AND GZIP_FHCRC \<noteq> 0 \<longleftrightarrow> gz_hcrc f \<noteq> None"
  by (simp_all add: gzip_flags_def GZIP_FEXTRA_def GZIP_FNAME_def GZIP_FCOMMENT_def GZIP_FHCRC_def)

lemma gzip_parse_file:
  assumes f: "gzip_fields_ok f" and info: "length info = 6"
  shows "gzip_parse (gzip_header f info @ payload @ le32 crc @ le32 isize)
    = Inr (length (gzip_header f info), unat isize)"
proof -
  define rest where "rest = payload @ le32 crc @ le32 isize"
  define hd where "hd = [GZIP_ID1, GZIP_ID2, GZIP_METHOD, gzip_flags f] @ info"
  define gz where "gz = gzip_header f info @ rest"
  have gz: "gz = hd @ extra_octets f @ text_octets (gz_name f) @ text_octets (gz_comment f) @ hcrc_octets f @ rest"
    by (simp add: gz_def gzip_header_def hd_def)
  have l: "length hd = 10" using info by (simp add: hd_def)
  have long: "8 \<le> length rest" by (simp add: rest_def le32_def)
  have magic: "gz ! 0 = GZIP_ID1" "gz ! 1 = GZIP_ID2" "gz ! 2 = GZIP_METHOD" "gz ! 3 = gzip_flags f"
    by (simp_all add: gz hd_def)
  let ?a = "length hd + length (extra_octets f)"
  let ?b = "?a + length (text_octets (gz_name f))"
  let ?c = "?b + length (text_octets (gz_comment f))"
  have e: "when_flag (gzip_flags f) GZIP_FEXTRA (skip_extra gz) 10 = Some ?a"
    using skip_extra_field [of f "gzip_flags f" GZIP_FEXTRA hd "text_octets (gz_name f) @ text_octets (gz_comment f) @ hcrc_octets f @ rest"]
      f gzip_flag_bits l by (simp add: gz gzip_fields_ok_def)
  have n: "when_flag (gzip_flags f) GZIP_FNAME (skip_text gz) ?a = Some ?b"
    using skip_text_field [of "gz_name f" "gzip_flags f" GZIP_FNAME "hd @ extra_octets f" "text_octets (gz_comment f) @ hcrc_octets f @ rest"]
      f gzip_flag_bits by (simp add: gz gzip_fields_ok_def)
  have c: "when_flag (gzip_flags f) GZIP_FCOMMENT (skip_text gz) ?b = Some ?c"
    using skip_text_field [of "gz_comment f" "gzip_flags f" GZIP_FCOMMENT "hd @ extra_octets f @ text_octets (gz_name f)" "hcrc_octets f @ rest"]
      f gzip_flag_bits by (simp add: gz gzip_fields_ok_def add.assoc)
  have h: "(if gzip_flags f AND GZIP_FHCRC \<noteq> 0 then ?c + 2 else ?c) = length (gzip_header f info)"
    using gzip_flag_bits(4) [of f]
    by (auto simp: gzip_header_def hd_def hcrc_octets_def split: option.split prod.split)
  have isz: "le32_at gz (length gz - 4) = unat isize"
    using le32_at_le32 [of "gzip_header f info @ payload @ le32 crc" isize]
    by (simp add: gz_def rest_def le32_def)
  have "18 \<le> length gz" using long l by (simp add: gz)
  moreover have "\<not> length (gzip_header f info) + 8 > length gz" using long by (simp add: gz_def)
  ultimately have "gzip_parse gz = Inr (length (gzip_header f info), unat isize)"
    using e n c h isz magic by (simp add: gzip_parse_def Let_def)
  then show ?thesis by (simp add: gz_def rest_def)
qed

lemma start_inf_ok: "inf_ok (start_inf input cap)" "consumed (start_inf input cap) = 0"
    "pending (start_inf input cap) = stream input"
  by (simp_all add: start_inf_def inf_ok_def consumed_def pending_def)

text \<open>The octets of the output, on every input.\<close>

lemma inflate_bounds:
  "case akpkg_inflate env gz cap of
     Inl e \<Rightarrow> e \<in> {- EINVAL, - ENOTSUP, - ENOMEM, - EIO}
   | Inr out \<Rightarrow> length out \<le> cap \<and> length out \<le> le32_at gz (length gz - 4) \<and> length out \<le> 2064 * length gz"
proof (cases "gzip_parse gz")
  case (Inl e)
  then have "e \<in> {- EINVAL, - ENOTSUP}"
    by (auto simp: gzip_parse_def Let_def split: if_splits option.splits)
  then show ?thesis using Inl by (auto simp: akpkg_inflate_def)
next
  case (Inr p)
  obtain start isize where p: "p = (start, isize)" by (cases p)
  have isize: "isize = le32_at gz (length gz - 4)"
    using Inr p by (auto simp: gzip_parse_def Let_def split: if_splits option.splits)
  let ?in = "take (length gz - start - 8) (drop start gz)"
  obtain ok s' where run: "inflate_raw env (start_inf ?in isize) = (ok, s')"
    by (cases "inflate_raw env (start_inf ?in isize)")
  have m: "moved 0 (start_inf ?in isize) s'" by (rule moved_inflate [OF run start_inf_ok(1)])
  have "length (out_buf s') \<le> isize" using inf_okD(4) [OF moved_ok [OF m]] m by (simp add: moved_def start_inf_def)
  moreover have "length (out_buf s') \<le> 2064 * length gz"
  proof -
    have "int (length (out_buf s')) \<le> 258 * int (bits_left (start_inf ?in isize))"
      using m by (auto simp: moved_def start_inf_def)
    also have "bits_left (start_inf ?in isize) \<le> 8 * length gz" by (simp add: bits_left_def start_inf_def)
    finally show ?thesis by simp
  qed
  ultimately show ?thesis using Inr p run isize by (auto simp: akpkg_inflate_def)
qed

section \<open>base64\<close>

definition b64_alphabet :: octets where
  "b64_alphabet = map of_char ''ABCDEFGHIJKLMNOPQRSTUVWXYZabcdefghijklmnopqrstuvwxyz0123456789+/''"

definition b64_char :: "u8 \<Rightarrow> u8" where
  "b64_char v = b64_alphabet ! unat v"

definition b64_pad :: u8 where "b64_pad = of_char CHR ''=''"

text \<open>The encoding of RFC 4648: groups of three octets as four sextets, padded with zero bits.\<close>

definition sextet1 :: "u8 \<Rightarrow> u8" where "sextet1 a = drop_bit 2 a"
definition sextet2 :: "u8 \<Rightarrow> u8 \<Rightarrow> u8" where "sextet2 a b = push_bit 4 (a AND 3) OR drop_bit 4 b"
definition sextet3 :: "u8 \<Rightarrow> u8 \<Rightarrow> u8" where "sextet3 b c = push_bit 2 (b AND 15) OR drop_bit 6 c"
definition sextet4 :: "u8 \<Rightarrow> u8" where "sextet4 c = c AND 63"

fun b64_encode :: "octets \<Rightarrow> octets" where
  "b64_encode [] = []"
| "b64_encode [a] = [b64_char (sextet1 a), b64_char (sextet2 a 0), b64_pad, b64_pad]"
| "b64_encode [a, b] = [b64_char (sextet1 a), b64_char (sextet2 a b), b64_char (sextet3 b 0), b64_pad]"
| "b64_encode (a # b # c # r) =
     [b64_char (sextet1 a), b64_char (sextet2 a b), b64_char (sextet3 b c), b64_char (sextet4 c)] @ b64_encode r"

definition b64_skipped :: "u8 \<Rightarrow> bool" where
  "b64_skipped c \<longleftrightarrow> c = b64_pad \<or> c = 13 \<or> c = 10 \<or> c = 32"

lemma base64_loop_filter:
  "base64_loop src acc n out cap = base64_loop (filter (\<lambda>c. \<not> b64_skipped c) src) acc n out cap"
  by (induction src acc n out cap rule: base64_loop.induct) (simp_all add: b64_skipped_def b64_pad_def Let_def)

lemma b64_table: "\<forall>n \<in> set [0..<64]. k_dtab ! unat (b64_alphabet ! n) = int n \<and> \<not> b64_skipped (b64_alphabet ! n)"
  by code_simp

lemma b64_char_table:
  assumes "v < 64"
  shows "k_dtab ! unat (b64_char v) = uint v" and "\<not> b64_skipped (b64_char v)"
proof -
  have "unat v < 64" using assms by (simp add: word_less_nat_alt)
  then show "k_dtab ! unat (b64_char v) = uint v" "\<not> b64_skipped (b64_char v)"
    using b64_table by (auto simp: b64_char_def)
qed

definition push6 :: "u32 \<Rightarrow> u8 \<Rightarrow> u32" where
  "push6 acc v = push_bit 6 acc OR ucast v"

lemma b64_step:
  assumes "v < 64"
  shows "base64_loop (b64_char v # src) acc n out cap =
    (let acc = push6 acc v; n = n + 6 in
     if n \<ge> 8
     then (if length out \<ge> cap then None
           else base64_loop src acc (n - 8) (out @ [ucast (drop_bit (n - 8) acc AND 0xFF)]) cap)
     else base64_loop src acc n out cap)"
proof -
  have "of_int (uint v) = (ucast v :: u32)" by simp
  then show ?thesis
    using b64_char_table [OF assms] by (simp add: b64_skipped_def b64_pad_def push6_def Let_def)
qed

lemma less_64: "(\<And>i. 6 \<le> i \<Longrightarrow> \<not> bit v i) \<Longrightarrow> v < (64 :: u8)"
proof -
  assume hi: "\<And>i. 6 \<le> i \<Longrightarrow> \<not> bit v i"
  have "take_bit 6 v = v" by (rule bit_word_eqI) (metis bit_take_bit_iff hi not_less)
  then have "unat v = take_bit 6 (unat v)" by (metis unsigned_take_bit_eq)
  also have "\<dots> < 2 ^ 6" by (rule take_bit_nat_less_exp)
  finally show ?thesis by (simp add: word_less_nat_alt)
qed

lemma small_masks: "(3 :: u8) = mask 2" "(15 :: u8) = mask 4" "(63 :: u8) = mask 6" "(0xFF :: u32) = mask 8"
  by (simp_all add: mask_eq_exp_minus_1)

lemma no_high_bit: "8 \<le> n \<Longrightarrow> \<not> bit (w :: u8) n"
  using bit_imp_le_length [of w n] by auto

lemma b64_sextets [simp]: "sextet1 a < 64" "sextet2 a b < 64" "sextet3 b c < 64" "sextet4 c < 64"
  unfolding small_masks sextet1_def sextet2_def sextet3_def sextet4_def
  by (rule less_64, use bit_imp_le_length in \<open>fastforce simp: bit_simps\<close>)+

lemma less_8_cases: "n < LENGTH(8) \<Longrightarrow> n = 0 \<or> n = 1 \<or> n = 2 \<or> n = 3 \<or> n = 4 \<or> n = 5 \<or> n = 6 \<or> n = 7"
  by auto

lemma b64_octets:
  fixes acc :: u32 and a b c :: u8
  shows "ucast (drop_bit 4 (push6 (push6 acc (sextet1 a)) (sextet2 a b)) AND 0xFF) = a"
    and "ucast (drop_bit 2 (push6 (push6 acc (sextet2 a b)) (sextet3 b c)) AND 0xFF) = b"
    and "ucast (push6 (push6 acc (sextet3 b c)) (sextet4 c) AND 0xFF) = c"
  unfolding small_masks sextet1_def sextet2_def sextet3_def sextet4_def push6_def
  by (rule bit_word_eqI, drule less_8_cases, elim disjE; simp add: bit_simps no_high_bit)+

text \<open>The characters of an encoding without its padding.\<close>

definition b64_chars :: "octets \<Rightarrow> octets" where
  "b64_chars data = filter (\<lambda>c. c \<noteq> b64_pad) (b64_encode data)"

lemma b64_pad_skipped [simp]: "v < 64 \<Longrightarrow> b64_char v \<noteq> b64_pad"
  using b64_char_table(2) [of v] by (auto simp: b64_skipped_def)

lemma base64_loop_decodes:
  "base64_loop (b64_chars data) acc 0 out cap
     = (if data = [] \<or> length out + length data \<le> cap then Some (out @ data) else None)"
proof (induction data arbitrary: acc out rule: b64_encode.induct)
  case 1
  then show ?case by (simp add: b64_chars_def)
next
  case (2 a)
  then show ?case
    by (simp add: b64_chars_def b64_step b64_octets Let_def del: base64_loop.simps(2))
next
  case (3 a b)
  then show ?case
    by (simp add: b64_chars_def b64_step b64_octets Let_def del: base64_loop.simps(2))
next
  case (4 a b c r)
  show ?case
    using 4 by (auto simp: b64_chars_def b64_step b64_octets Let_def simp del: base64_loop.simps(2))
qed

text \<open>
  base64 decoding inverts RFC 4648. The text of any octets, with line ends and blanks inserted
  anywhere, decodes to exactly these octets, or to nothing when they do not fit the buffer.
\<close>

theorem base64_decode_inverts_encoding:
  assumes "filter (\<lambda>c. c \<notin> {13, 10, 32}) src = b64_encode data"
  shows "akpkg_base64_decode src cap = (if length data \<le> cap then data else [])"
proof -
  have "filter (\<lambda>c. \<not> b64_skipped c) src = filter (\<lambda>c. c \<noteq> b64_pad) (filter (\<lambda>c. c \<notin> {13, 10, 32}) src)"
    by (simp add: b64_skipped_def conj_commute conj_left_commute)
  also have "\<dots> = b64_chars data" using assms by (simp add: b64_chars_def)
  finally show ?thesis
    using base64_loop_decodes [of data 0 "[]" cap]
    by (auto simp: akpkg_base64_decode_def base64_loop_filter [of src])
qed

lemma base64_loop_bound: "base64_loop src acc n out cap = Some r \<Longrightarrow> length out \<le> cap \<Longrightarrow> length r \<le> cap"
  by (induction src acc n out cap rule: base64_loop.induct) (auto simp: Let_def split: if_splits)

lemma base64_bounds: "length (akpkg_base64_decode src cap) \<le> cap"
  using base64_loop_bound [of src 0 0 "[]" cap] by (auto simp: akpkg_base64_decode_def split: option.split)

section \<open>tar archives\<close>

text \<open>
  An archive as a list of entries: a header block with a zero-terminated name, the type and the size
  in octal, and the data padded to whole blocks.
\<close>

record tar_entry =
  te_header :: octets
  te_data :: octets
  te_pad :: octets

definition te_name :: "tar_entry \<Rightarrow> octets" where
  "te_name e = takeWhile (\<lambda>c. c \<noteq> 0) (te_header e)"

definition te_regular :: "tar_entry \<Rightarrow> bool" where
  "te_regular e \<longleftrightarrow> te_header e ! 156 \<in> {of_char CHR ''0'', 0}"

definition entry_ok :: "nat \<Rightarrow> tar_entry \<Rightarrow> bool" where
  "entry_ok w e \<longleftrightarrow>
     length (te_header e) = 512 \<and> 0 \<in> set (te_header e) \<and> (\<exists>c \<in> set (te_header e). c \<noteq> 0) \<and>
     tar_octal w (take 12 (drop 124 (te_header e))) = length (te_data e) \<and>
     length (te_pad e) < 512 \<and> (length (te_data e) + length (te_pad e)) mod 512 = 0"

definition tar_octets :: "tar_entry list \<Rightarrow> octets" where
  "tar_octets es = concat (map (\<lambda>e. te_header e @ te_data e @ te_pad e) es)"

text \<open>The end of an archive: a zero block, or less than a block.\<close>

definition tar_end :: "octets \<Rightarrow> bool" where
  "tar_end tail \<longleftrightarrow> length tail < 512 \<or> take 512 tail = replicate 512 0"

definition is_app :: "tar_entry \<Rightarrow> bool" where
  "is_app e \<longleftrightarrow> te_regular e \<and> base_name (te_name e) \<in> {app_wasm, app_aot}"

definition is_manifest :: "tar_entry \<Rightarrow> bool" where
  "is_manifest e \<longleftrightarrow> te_regular e \<and> base_name (te_name e) = manifest_json"

text \<open>A pointer and size that denote the data of an entry.\<close>

definition points_to :: "octets \<Rightarrow> nat \<times> nat \<Rightarrow> tar_entry \<Rightarrow> bool" where
  "points_to tar p e \<longleftrightarrow>
     fst p + snd p \<le> length tar \<and> snd p = length (te_data e) \<and> take (snd p) (drop (fst p) tar) = te_data e"

definition found_last :: "octets \<Rightarrow> (nat \<times> nat) option \<Rightarrow> tar_entry list \<Rightarrow> (nat \<times> nat) option \<Rightarrow> bool" where
  "found_last tar old es new \<longleftrightarrow>
     (if es = [] then new = old else \<exists>p. new = Some p \<and> points_to tar p (last es))"

lemma names_differ: "manifest_json \<noteq> app_wasm" "manifest_json \<noteq> app_aot"
  by (simp_all add: manifest_json_def app_wasm_def app_aot_def)

lemma takeWhile_header: "0 \<in> set h \<Longrightarrow> takeWhile (\<lambda>c. c \<noteq> 0) (h @ xs) = takeWhile (\<lambda>c. c \<noteq> (0 :: u8)) h"
  by (rule takeWhile_append1) simp_all

lemma round_up: "m < 512 \<Longrightarrow> (n + m) mod 512 = 0 \<Longrightarrow> (n + 512 - 1) div 512 * 512 = n + m" for n m :: nat
proof -
  assume m: "m < 512" and z: "(n + m) mod 512 = 0"
  then obtain k where k: "n + m = 512 * k" by (auto simp: mod_eq_0_iff_dvd dvd_def)
  have "(n + 512 - 1) div 512 = k" by (rule div_nat_eqI) (use m k in simp_all)
  then show ?thesis using k by simp
qed

lemma tar_walk_entry:
  assumes e: "entry_ok w e" and tar: "tar = pre @ te_header e @ te_data e @ te_pad e @ rest"
  shows "tar_walk w tar beyond (length pre) found =
    tar_walk w tar beyond (length pre + 512 + length (te_data e) + length (te_pad e))
      (tar_record (te_name e) (te_header e ! 156) (length pre + 512) (length (te_data e)) found)"
proof -
  have l: "length (te_header e) = 512" using e by (simp add: entry_ok_def)
  have blk: "take 512 (drop (length pre) tar) = te_header e" by (simp add: tar l)
  have nz: "\<not> (\<forall>c \<in> set (te_header e). c = 0)" using e by (simp add: entry_ok_def)
  have z: "0 \<in> set (te_header e)" using e by (simp add: entry_ok_def)
  have name: "takeWhile (\<lambda>c. c \<noteq> 0) (drop (length pre) (tar @ beyond)) = te_name e"
    using takeWhile_header [OF z, of "te_data e @ te_pad e @ rest @ beyond"] by (simp add: tar te_name_def)
  have size: "tar_octal w (take 12 (drop (length pre + 124) tar)) = length (te_data e)"
    using e l by (simp add: tar entry_ok_def)
  have type: "tar ! (length pre + 156) = te_header e ! 156" by (simp add: tar nth_append l)
  have fits: "length pre + 512 \<le> length tar" "\<not> length (te_data e) > length tar"
      "\<not> length pre + 512 > length tar - length (te_data e)"
    by (simp_all add: tar l)
  have up: "(length (te_data e) + 512 - 1) div 512 * 512 = length (te_data e) + length (te_pad e)"
    using round_up e by (simp add: entry_ok_def)
  show ?thesis
    by (subst tar_walk.simps)
      (simp only: TAR_BLOCK_SZ_def fits blk nz name size type up Let_def if_True if_False simp_thms add.assoc)
qed

lemma tar_walk_stops: "tar_end tail \<Longrightarrow> tar_walk w (pre @ tail) beyond (length pre) found = found"
  by (subst tar_walk.simps) (auto simp: tar_end_def TAR_BLOCK_SZ_def)

lemma tar_walk_archive:
  assumes "tar_end tail"
  shows "\<forall>e \<in> set es. entry_ok w e \<Longrightarrow> tar = pre @ tar_octets es @ tail \<Longrightarrow>
    found_last tar (wasm_ptr found) (filter is_app es) (wasm_ptr (tar_walk w tar beyond (length pre) found)) \<and>
    found_last tar (manifest_ptr found) (filter is_manifest es) (manifest_ptr (tar_walk w tar beyond (length pre) found))"
proof (induction es arbitrary: pre found)
  case Nil
  then show ?case using tar_walk_stops [OF assms, of w pre beyond found] by (simp add: tar_octets_def found_last_def)
next
  case (Cons e es)
  have e: "entry_ok w e" using Cons.prems(1) by simp
  have tar: "tar = pre @ te_header e @ te_data e @ te_pad e @ tar_octets es @ tail"
    using Cons.prems(2) by (simp add: tar_octets_def)
  have l: "length (te_header e) = 512" using e by (simp add: entry_ok_def)
  let ?f = "tar_record (te_name e) (te_header e ! 156) (length pre + 512) (length (te_data e)) found"
  have here: "points_to tar (length pre + 512, length (te_data e)) e"
    by (simp add: points_to_def tar l)
  have f: "wasm_ptr ?f = (if is_app e then Some (length pre + 512, length (te_data e)) else wasm_ptr found)"
      "manifest_ptr ?f = (if is_manifest e then Some (length pre + 512, length (te_data e)) else manifest_ptr found)"
    using names_differ by (auto simp: tar_record_def is_app_def is_manifest_def te_regular_def)
  have step: "tar_walk w tar beyond (length pre) found
      = tar_walk w tar beyond (length (pre @ te_header e @ te_data e @ te_pad e)) ?f"
    using tar_walk_entry [OF e tar] l by (simp add: add.assoc)
  have tar': "tar = (pre @ te_header e @ te_data e @ te_pad e) @ tar_octets es @ tail" using tar by simp
  have "found_last tar (wasm_ptr ?f) (filter is_app es) (wasm_ptr (tar_walk w tar beyond (length pre) found)) \<and>
      found_last tar (manifest_ptr ?f) (filter is_manifest es) (manifest_ptr (tar_walk w tar beyond (length pre) found))"
    unfolding step by (rule Cons.IH [OF _ tar']) (use Cons.prems(1) in simp)
  then show ?case using here f by (auto simp: found_last_def split: if_splits)
qed


definition ptr_in :: "octets \<Rightarrow> (nat \<times> nat) option \<Rightarrow> bool" where
  "ptr_in tar p \<longleftrightarrow> (case p of None \<Rightarrow> True | Some (pos, sz) \<Rightarrow> pos + sz \<le> length tar)"

lemma tar_walk_in:
  "ptr_in tar (wasm_ptr found) \<and> ptr_in tar (manifest_ptr found) \<Longrightarrow>
     ptr_in tar (wasm_ptr (tar_walk w tar beyond pos found)) \<and> ptr_in tar (manifest_ptr (tar_walk w tar beyond pos found))"
proof (induction w tar beyond pos found rule: tar_walk.induct)
  case (1 w tar beyond pos found)
  define sz where "sz = tar_octal w (take 12 (drop (pos + 124) tar))"
  show ?case
  proof (cases "pos + TAR_BLOCK_SZ \<le> length tar \<and> \<not> (\<forall>c \<in> set (take TAR_BLOCK_SZ (drop pos tar)). c = 0)")
    case False
    then show ?thesis using 1(2) by (subst (1 2) tar_walk.simps) auto
  next
    case True
    show ?thesis
    proof (cases "sz > length tar \<or> pos + TAR_BLOCK_SZ > length tar - sz")
      case True': True
      then have "tar_walk w tar beyond pos found = found"
        using True by (subst tar_walk.simps) (auto simp: Let_def sz_def)
      then show ?thesis using 1(2) by simp
    next
      case False
      let ?f = "tar_record (takeWhile (\<lambda>c. c \<noteq> 0) (drop pos (tar @ beyond))) (tar ! (pos + 156)) (pos + TAR_BLOCK_SZ) sz found"
      have step: "tar_walk w tar beyond pos found =
          tar_walk w tar beyond (pos + TAR_BLOCK_SZ + (sz + TAR_BLOCK_SZ - 1) div TAR_BLOCK_SZ * TAR_BLOCK_SZ) ?f"
        using True False by (subst tar_walk.simps) (simp add: Let_def sz_def, blast)
      note IH = 1(1) [OF conjunct1 [OF True] conjunct2 [OF True] refl sz_def refl refl False]
      have "pos + TAR_BLOCK_SZ + sz \<le> length tar" using False by linarith
      then have "ptr_in tar (wasm_ptr ?f) \<and> ptr_in tar (manifest_ptr ?f)"
        using 1(2) by (simp add: tar_record_def ptr_in_def)
      then show ?thesis
        unfolding step by (intro IH)
    qed
  qed
qed


section \<open>Decompression\<close>

text \<open>
  C12: The decompressor inverts DEFLATE. For a gzip file with any optional header fields, whose payload
  starts with the bits of any valid sequence of stored, fixed and dynamic blocks (RFC 1951, with
  code lengths that are not oversubscribed), \<open>akpkg_inflate\<close> returns exactly the octets the blocks
  stand for, as long as they fit the size the trailer announces and the output buffer and memory can be allocated.
\<close>

theorem inflate_inverts_deflate:
  assumes "memory_ok env" and "gzip_fields_ok f" and "length info = 6"
    and "stream payload = blocks_bits bs @ rest" and "blocks_ok 0 [] bs"
    and "0 < isize" and "unat isize \<le> cap" and "length (blocks_out [] bs) \<le> unat isize"
  shows "akpkg_inflate env (gzip_header f info @ payload @ le32 crc @ le32 isize) cap = Inr (blocks_out [] bs)"
proof -
  let ?s = "start_inf payload (unat isize)"
  have pos: "unat isize \<noteq> 0" using assms(6) by (simp add: unat_eq_0)
  have cut: "take (length (gzip_header f info @ payload @ le32 crc @ le32 isize) - length (gzip_header f info) - 8)
      (drop (length (gzip_header f info)) (gzip_header f info @ payload @ le32 crc @ le32 isize)) = payload"
    by (simp add: le32_def)
  have "inf_err ?s = 0" "out_buf ?s = []" "out_cap ?s = unat isize" by (simp_all add: start_inf_def)
  then obtain s' where "inflate_raw env ?s = (True, s')" "after ?s (blocks_bits bs) (blocks_out [] bs) s'"
    using inflate_blocks [OF assms(1) start_inf_ok(1), of payload "unat isize" bs rest] assms(4,5,8)
    unfolding start_inf_ok by metis
  then show ?thesis
    unfolding akpkg_inflate_def gzip_parse_file [OF assms(2,3)]
    using pos assms(7) cut by (simp add: after_def start_inf_def)
qed

definition demo_env :: inf_env where
  "demo_env = \<lparr>table_mem = \<lambda>n. Some \<lparr>max_bits = 0, counts = replicate 16 0, first_code = replicate 16 0,
      sym_offset = replicate 16 0, syms = replicate 288 0\<rparr>, lens_mem = \<lambda>n. True\<rparr>"

text \<open>The letter a six times: a literal and an overlapping copy of length 5 and distance 1.\<close>

definition demo_block :: block where
  "demo_block = Fixed [Literal 97, Copy 2 0 0 0]"

lemma demo_env_ok: "memory_ok demo_env"
  by (simp add: memory_ok_def demo_env_def huff_sizes_def)

text \<open>
  The canonical Huffman tables. From code lengths that are not oversubscribed, \<open>huff_build\<close>
  makes a table with which \<open>huff_decode\<close> reads the RFC 1951 code word of every symbol, whatever
  follows it; from any code lengths at all, a decoded symbol is one of the alphabet, so the code
  lengths and the tables of lengths and distances are never read out of range.
\<close>

theorem huffman_tables_decode_canonical_codes:
  assumes "huff_sizes h" and "length lens \<le> 288" and "huff_build h lens = Some t" and "inf_ok s" and "inf_err s = 0"
  shows "(well_coded (nat_lens lens) \<and> i < length lens \<and> lens ! i \<noteq> 0 \<and>
            pending s = codeword (nat_lens lens) i @ rest \<longrightarrow>
            (\<exists>s'. huff_decode s t = (Some i, s') \<and> pending s' = rest \<and> out_buf s' = out_buf s \<and> inf_err s' = 0)) \<and>
         (case huff_decode s t of (r, s') \<Rightarrow> (case r of None \<Rightarrow> True | Some k \<Rightarrow> k < length lens))"
proof (intro conjI impI)
  have t: "huff_for t (nat_lens lens)" using huff_build_for [OF assms(3,1,2)] by simp
  {
    assume a: "well_coded (nat_lens lens) \<and> i < length lens \<and> lens ! i \<noteq> 0 \<and>
      pending s = codeword (nat_lens lens) i @ rest"
    then have pos: "i < length (nat_lens lens)" "0 < nat_lens lens ! i" by (simp_all add: nat_lens_def unat_gt_0)
    obtain s' where s': "huff_decode s t = (Some i, s')" "after s (codeword (nat_lens lens) i) (out_buf s) s'"
      using huff_decode_code [OF t _ pos assms(4,5)] a by metis
    have "pending s' = rest" using after_pending [OF s'(2)] a by blast
    then show "\<exists>s'. huff_decode s t = (Some i, s') \<and> pending s' = rest \<and> out_buf s' = out_buf s \<and> inf_err s' = 0"
      using s' assms(5) by (auto simp: after_def)
  }
  show "case huff_decode s t of (r, s') \<Rightarrow> (case r of None \<Rightarrow> True | Some k \<Rightarrow> k < length lens)"
    using huff_decode_bound [OF t, of s] by (auto simp: nat_lens_def split: prod.split option.split)
qed
section \<open>Examples\<close>

lemma first_num_fixed:
  "first_num fixed_ll 7 = 0" "first_num fixed_ll 8 = 48" "first_num fixed_dl 5 = 0"
  by (simp_all add: first_num_numeral fixed_counts)

lemma demo_words:
  "codeword fixed_ll 97 = [True, False, False, True, False, False, False, True]"
  "codeword fixed_ll 259 = [False, False, False, False, False, True, True]"
  "codeword fixed_dl 0 = [False, False, False, False, False]"
  "codeword fixed_ll 256 = [False, False, False, False, False, False, False]"
proof -
  have l: "fixed_ll ! 97 = 8" "fixed_ll ! 259 = 7" "fixed_ll ! 256 = 7" "fixed_dl ! 0 = 5" by code_simp+
  have "rank fixed_ll 97 = 97" "rank fixed_ll 259 = 3" "rank fixed_ll 256 = 0" "rank fixed_dl 0 = 0" by code_simp+
  then have "code_num fixed_ll 97 = 145" "code_num fixed_ll 259 = 3" "code_num fixed_ll 256 = 0" "code_num fixed_dl 0 = 0"
    by (simp_all add: code_num_def l first_num_fixed)
  then show "codeword fixed_ll 97 = [True, False, False, True, False, False, False, True]"
      "codeword fixed_ll 259 = [False, False, False, False, False, True, True]"
      "codeword fixed_dl 0 = [False, False, False, False, False]"
      "codeword fixed_ll 256 = [False, False, False, False, False, False, False]"
    by (simp_all add: codeword_def l upt_rec)
qed

lemma demo_stream: "stream [0x4b, 4, 3, 0] = blocks_bits [demo_block] @ [False, False]"
proof -
  have "stream [0x4b, 4, 3, 0]
      = [True, True, False, True, False, False, True, False, False, False, True, False, False, False, False, False,
         True, True, False, False, False, False, False, False, False, False, False, False, False, False, False, False]"
    by code_simp
  moreover have "num_bits 2 1 = [True, False]" "num_bits (k_len_extra ! 2) 0 = []" "num_bits (k_dist_extra ! 0) 0 = []"
    by code_simp+
  ultimately show ?thesis by (simp add: demo_block_def tokens_bits_def demo_words)
qed


definition no_fields :: gzip_fields where
  "no_fields = \<lparr>gz_extra = None, gz_name = Some [97], gz_comment = None, gz_hcrc = None\<rparr>"

lemma copy_five: "lz_copy [97] (Suc 0) 5 = replicate 6 97"
  by code_simp

lemma demo_block_facts:
  "blocks_ok 0 [] [demo_block]" "blocks_out [] [demo_block] = replicate 6 97"
proof -
  have "has_code fixed_ll 97" "has_code fixed_ll 259" "has_code fixed_ll 256" "has_code fixed_dl 0" by code_simp+
  moreover have "k_len_base ! 2 = 5" "k_dist_base ! 0 = 1" "k_len_extra ! 2 = 0" "k_dist_extra ! 0 = 0" by code_simp+
  ultimately show "blocks_ok 0 [] [demo_block]" "blocks_out [] [demo_block] = replicate 6 97"
    by (simp_all add: demo_block_def blocks_out_def tokens_out_def copy_distance_def copy_length_def copy_five)
qed

text \<open>A gzip file with a name, inflated to six times the letter a.\<close>

lemma inflate_inverts_deflate_witness:
  "akpkg_inflate demo_env
     (gzip_header no_fields (replicate 6 0) @ [0x4b, 4, 3, 0] @ le32 0 @ le32 6) 1024 = Inr (replicate 6 97)"
  using inflate_inverts_deflate
      [OF demo_env_ok _ _ demo_stream, of no_fields "replicate 6 0" 6 1024 0] demo_block_facts
  by (simp add: gzip_fields_ok_def no_fields_def)

text \<open>Three symbols with code words of 1, 2 and 2 bits; the word 11 is the last symbol.\<close>

definition demo_lens :: "u8 list" where "demo_lens = [1, 2, 2]"

definition demo_table :: huff where
  "demo_table = the (huff_build (the (table_mem demo_env 0)) demo_lens)"

lemma demo_table_built: "huff_build (the (table_mem demo_env 0)) demo_lens = Some demo_table"
  by code_simp

lemma huffman_tables_decode_canonical_codes_witness:
  "\<exists>s'. huff_decode (start_inf [3] 8) demo_table = (Some 2, s') \<and> pending s' = replicate 6 False"
proof -
  have lens: "nat_lens demo_lens = [1, 2, 2]" by code_simp
  have w: "well_coded (nat_lens demo_lens)"
    unfolding lens by (simp add: well_coded_def first_num_numeral len_count_def)
  have word: "codeword (nat_lens demo_lens) 2 = [True, True]" by code_simp
  have "pending (start_inf [3] 8) = codeword (nat_lens demo_lens) 2 @ replicate 6 False"
    unfolding start_inf_ok word by code_simp
  moreover have "huff_sizes (the (table_mem demo_env 0))" using demo_env_ok by (simp add: demo_env_def huff_sizes_def)
  ultimately show ?thesis
    using huffman_tables_decode_canonical_codes
        [OF _ _ demo_table_built start_inf_ok(1), of "[3]" 8 2 "replicate 6 False"] w
    by (auto simp: demo_lens_def start_inf_def)
qed

lemma base64_decode_inverts_encoding_witness:
  "akpkg_base64_decode (map of_char ''TWFu'' @ [13, 10] @ map of_char ''TQ=='') 4 = map of_char ''ManM''"
proof -
  have "filter (\<lambda>c. c \<notin> {13, 10, 32}) (map of_char ''TWFu'' @ [13, 10] @ map of_char ''TQ=='')
      = b64_encode (map of_char ''ManM'')" by code_simp
  then show ?thesis using base64_decode_inverts_encoding [where data = "map of_char ''ManM''" and cap = 4] by (simp add: b64_pad_def)
qed

text \<open>An archive with a directory prefix, the manifest twice and the application once.\<close>

definition demo_header :: "octets \<Rightarrow> octets \<Rightarrow> octets" where
  "demo_header name digits =
     name @ replicate (124 - length name) 0 @ digits @ replicate (32 - length digits) 0 @ [0x30] @ replicate 355 0"

definition demo_entry :: "octets \<Rightarrow> octets \<Rightarrow> octets \<Rightarrow> tar_entry" where
  "demo_entry name digits data =
     \<lparr>te_header = demo_header name digits, te_data = data, te_pad = replicate (512 - length data) 0\<rparr>"

definition demo_entries :: "tar_entry list" where
  "demo_entries =
     [demo_entry manifest_json [0x31] [123], demo_entry (map of_char ''a/'' @ app_wasm) [0x32] [0, 97],
      demo_entry manifest_json [0x32] [123, 125]]"

lemma eleven: "replicate 11 (0 :: u8) = 0 # replicate 10 0"
  by (simp flip: replicate_Suc)

lemma demo_entries_ok: "\<forall>e \<in> set demo_entries. entry_ok 32 e"
  by (simp add: eleven demo_entries_def demo_entry_def demo_header_def entry_ok_def tar_octal_def manifest_json_def app_wasm_def)


end
