(* ===== verification/C_Strings.thy ===== *)
theory C_Strings
  imports Ccsds_Prelude
begin

text \<open>
  C strings and the functions of the standard library that the program uses on them.

  A C string is the list of its octets before the terminating zero; \<open>c_string_at\<close> is the string that
  an array holds. A pointer into a string is the suffix that starts there.
\<close>

section \<open>C strings\<close>

type_synonym c_chars = octets

definition c_string_at :: "octets \<Rightarrow> c_chars" where
  "c_string_at a = takeWhile (\<lambda>c. c \<noteq> 0) a"

definition strncpy_to :: "octets \<Rightarrow> c_chars \<Rightarrow> nat \<Rightarrow> octets" where
  "strncpy_to dst src n = take n src @ replicate (n - length src) 0 @ drop n dst"

text \<open>The idiom of a bounded copy: \<open>strncpy\<close> and a zero in the last place.\<close>

definition copied_name :: "octets \<Rightarrow> c_chars \<Rightarrow> nat \<Rightarrow> octets" where
  "copied_name old name cap = (strncpy_to old name (cap - 1))[cap - 1 := 0]"

definition is_c_chars :: "c_chars \<Rightarrow> bool" where
  "is_c_chars s \<longleftrightarrow> 0 \<notin> set s"

lemma length_copied_name_gen: "0 < cap \<Longrightarrow> cap \<le> length a \<Longrightarrow> length (copied_name a n cap) = length a"
  by (auto simp: copied_name_def strncpy_to_def min_def)

lemma length_copied_name: "length a = 32 \<Longrightarrow> length (copied_name a n 32) = 32"
  by (simp add: length_copied_name_gen)

lemma takeWhile_nonzero: "0 \<notin> set n \<Longrightarrow> takeWhile (\<lambda>c. c \<noteq> 0) (n @ (0 :: u8) # r) = n"
  by (induction n) auto

lemma c_string_terminated: "is_c_chars n \<Longrightarrow> c_string_at (n @ 0 # r) = n"
  by (simp add: c_string_at_def is_c_chars_def takeWhile_nonzero)

lemma c_string_at_chars: "is_c_chars n \<Longrightarrow> c_string_at n = n"
  by (auto simp: c_string_at_def is_c_chars_def takeWhile_eq_all_conv)

lemma is_c_chars_c_string_at [simp]: "is_c_chars (c_string_at a)"
  by (auto simp: c_string_at_def is_c_chars_def dest: set_takeWhileD)

lemma is_c_chars_take [simp]: "is_c_chars n \<Longrightarrow> is_c_chars (take k n)"
  by (auto simp: is_c_chars_def dest: in_set_takeD)

lemma copied_name_chars:
  assumes "length a = cap" and "0 < cap" and "is_c_chars n"
  shows "c_string_at (copied_name a n cap) = take (cap - 1) n"
proof -
  have "length (drop (cap - 1) a) = 1" using assms(1,2) by simp
  then obtain c where c: "drop (cap - 1) a = [c]" unfolding One_nat_def length_Suc_conv by auto
  have p: "length (take (cap - 1) n @ replicate (cap - 1 - length n) (0 :: u8)) = cap - 1"
    using assms(2) by (cases "length n \<le> cap - 1") auto
  have "copied_name a n cap = ((take (cap - 1) n @ replicate (cap - 1 - length n) 0) @ [c])[cap - 1 := 0]"
    using c by (simp add: copied_name_def strncpy_to_def)
  also have "\<dots> = take (cap - 1) n @ replicate (cap - 1 - length n) 0 @ [0]"
    using list_update_length [of "take (cap - 1) n @ replicate (cap - 1 - length n) 0" c "[]" 0] unfolding p by simp
  also have "\<dots> = take (cap - 1) n @ 0 # replicate (cap - 1 - length n) 0" by (simp add: replicate_append_same)
  finally show ?thesis using c_string_terminated [OF is_c_chars_take [OF assms(3)]] by simp
qed

lemma copied_name_string:
  "length a = 32 \<Longrightarrow> is_c_chars n \<Longrightarrow> c_string_at (copied_name a n 32) = take 31 n"
  using copied_name_chars [of a 32 n] by simp

definition text_chars :: "string \<Rightarrow> c_chars" where
  "text_chars s = map of_char s"

section \<open>Searching and reading numbers\<close>

definition isspace :: "u8 \<Rightarrow> bool" where
  "isspace c \<longleftrightarrow> c = 32 \<or> 9 \<le> unat c \<and> unat c \<le> 13"

definition isdigit :: "u8 \<Rightarrow> bool" where
  "isdigit c \<longleftrightarrow> 48 \<le> unat c \<and> unat c \<le> 57"

fun starts_with :: "c_chars \<Rightarrow> c_chars \<Rightarrow> bool" where
  "starts_with s [] = True"
| "starts_with [] (c # p) = False"
| "starts_with (d # s) (c # p) = (c = d \<and> starts_with s p)"

fun strstr :: "c_chars \<Rightarrow> c_chars \<Rightarrow> c_chars option" where
  "strstr [] p = (if p = [] then Some [] else None)"
| "strstr (c # s) p = (if starts_with (c # s) p then Some (c # s) else strstr s p)"

definition strchr :: "c_chars \<Rightarrow> u8 \<Rightarrow> c_chars option" where
  "strchr s c = (case dropWhile (\<lambda>d. d \<noteq> c) s of [] \<Rightarrow> None | t \<Rightarrow> Some t)"

fun strrchr :: "c_chars \<Rightarrow> u8 \<Rightarrow> c_chars option" where
  "strrchr [] c = None"
| "strrchr (d # s) c = (case strrchr s c of Some t \<Rightarrow> Some t | None \<Rightarrow> if d = c then Some (d # s) else None)"

lemma starts_with_iff: "starts_with s p \<longleftrightarrow> (\<exists>r. s = p @ r)"
  by (induction s p rule: starts_with.induct) auto

lemma strstr_None: "strstr s p = None \<longleftrightarrow> (\<nexists>a b. s = a @ p @ b)"
proof (induction s)
  case (Cons c s)
  have "(\<exists>a b. c # s = a @ p @ b) \<longleftrightarrow> starts_with (c # s) p \<or> (\<exists>a b. s = a @ p @ b)"
    unfolding starts_with_iff by (auto simp: Cons_eq_append_conv)
  then show ?case using Cons by auto
qed auto

lemma strrchr_None: "strrchr s c = None \<longleftrightarrow> c \<notin> set s"
  by (induction s) (auto split: option.splits)

lemma strrchr_append: "c \<notin> set b \<Longrightarrow> strrchr (a @ c # b) c = Some (c # b)"
proof (induction a)
  case Nil
  then have "strrchr b c = None" by (simp add: strrchr_None)
  then show ?case by simp
qed auto

lemma strrchr_SomeD: "strrchr s c = Some t \<Longrightarrow> \<exists>a b. s = a @ c # b \<and> c \<notin> set b \<and> t = c # b"
proof (induction s arbitrary: t)
  case (Cons d s)
  show ?case
  proof (cases "strrchr s c")
    case None
    then have "c \<notin> set s" by (simp add: strrchr_None)
    moreover have "d = c" "t = d # s" using None Cons.prems by (simp_all split: if_splits)
    ultimately show ?thesis by (intro exI [of _ "[]"] exI [of _ s]) simp
  next
    case (Some u)
    then obtain a b where "s = a @ c # b" "c \<notin> set b" "u = c # b" using Cons.IH by blast
    then show ?thesis using Some Cons.prems by (intro exI [of _ "d # a"] exI [of _ b]) simp
  qed
qed simp

definition digits_value :: "int \<Rightarrow> c_chars \<Rightarrow> int" where
  "digits_value v s = foldl (\<lambda>n c. n * 10 + (int (unat c) - 48)) v (takeWhile isdigit s)"

text \<open>
  \<open>atoi\<close> on the values that fit an \<open>int\<close>; outside that range the C standard leaves the result
  undefined, here it is the number.
\<close>

definition atoi :: "c_chars \<Rightarrow> int" where
  "atoi s =
     (case dropWhile isspace s of
        [] \<Rightarrow> 0
      | c # t \<Rightarrow> if c = 45 then - digits_value 0 t else if c = 43 then digits_value 0 t else digits_value 0 (c # t))"

end
