(* ===== verification/Runtime_Security.thy ===== *)
theory Runtime_Security
  imports C_Strings
begin

text \<open>
  Capabilities and trust levels (\<open>src/src/runtime/security.c\<close>, \<open>security.h\<close>,
  \<open>security/trust_levels.h\<close>).
\<close>

section \<open>Capabilities\<close>

definition AKIRA_CAP_DISPLAY_WRITE :: u32 where "AKIRA_CAP_DISPLAY_WRITE = 2 ^ 0"
definition AKIRA_CAP_INPUT_READ :: u32 where "AKIRA_CAP_INPUT_READ = 2 ^ 1"
definition AKIRA_CAP_INPUT_WRITE :: u32 where "AKIRA_CAP_INPUT_WRITE = 2 ^ 2"
definition AKIRA_CAP_SENSOR_READ :: u32 where "AKIRA_CAP_SENSOR_READ = 2 ^ 3"
definition AKIRA_CAP_RF_TRANSCEIVE :: u32 where "AKIRA_CAP_RF_TRANSCEIVE = 2 ^ 4"
definition AKIRA_CAP_BLE :: u32 where "AKIRA_CAP_BLE = 2 ^ 5"
definition AKIRA_CAP_STORAGE_READ :: u32 where "AKIRA_CAP_STORAGE_READ = 2 ^ 6"
definition AKIRA_CAP_STORAGE_WRITE :: u32 where "AKIRA_CAP_STORAGE_WRITE = 2 ^ 7"
definition AKIRA_CAP_NETWORK :: u32 where "AKIRA_CAP_NETWORK = 2 ^ 8"
definition AKIRA_CAP_GPIO_READ :: u32 where "AKIRA_CAP_GPIO_READ = 2 ^ 9"
definition AKIRA_CAP_GPIO_WRITE :: u32 where "AKIRA_CAP_GPIO_WRITE = 2 ^ 10"
definition AKIRA_CAP_TIMER :: u32 where "AKIRA_CAP_TIMER = 2 ^ 11"
definition AKIRA_CAP_UART :: u32 where "AKIRA_CAP_UART = 2 ^ 12"
definition AKIRA_CAP_I2C :: u32 where "AKIRA_CAP_I2C = 2 ^ 13"
definition AKIRA_CAP_PWM :: u32 where "AKIRA_CAP_PWM = 2 ^ 14"
definition AKIRA_CAP_HID :: u32 where "AKIRA_CAP_HID = 2 ^ 15"
definition AKIRA_CAP_APP_CONTROL :: u32 where "AKIRA_CAP_APP_CONTROL = 2 ^ 16"
definition AKIRA_CAP_IPC :: u32 where "AKIRA_CAP_IPC = 2 ^ 17"
definition AKIRA_CAP_APP_SWITCH :: u32 where "AKIRA_CAP_APP_SWITCH = 2 ^ 18"
definition AKIRA_CAP_MEMORY :: u32 where "AKIRA_CAP_MEMORY = 2 ^ 19"
definition AKIRA_CAP_APP_INFO :: u32 where "AKIRA_CAP_APP_INFO = 2 ^ 20"
definition AKIRA_CAP_POWER_READ :: u32 where "AKIRA_CAP_POWER_READ = 2 ^ 21"
definition AKIRA_CAP_POWER_CTRL :: u32 where "AKIRA_CAP_POWER_CTRL = 2 ^ 22"
definition AKIRA_CAP_SETTINGS :: u32 where "AKIRA_CAP_SETTINGS = 2 ^ 23"
definition AKIRA_CAP_ADC :: u32 where "AKIRA_CAP_ADC = 2 ^ 24"
definition AKIRA_CAP_WDT :: u32 where "AKIRA_CAP_WDT = 2 ^ 25"

lemmas cap_defs = AKIRA_CAP_DISPLAY_WRITE_def AKIRA_CAP_INPUT_READ_def AKIRA_CAP_INPUT_WRITE_def
  AKIRA_CAP_SENSOR_READ_def AKIRA_CAP_RF_TRANSCEIVE_def AKIRA_CAP_BLE_def AKIRA_CAP_STORAGE_READ_def
  AKIRA_CAP_STORAGE_WRITE_def AKIRA_CAP_NETWORK_def AKIRA_CAP_GPIO_READ_def AKIRA_CAP_GPIO_WRITE_def
  AKIRA_CAP_TIMER_def AKIRA_CAP_UART_def AKIRA_CAP_I2C_def AKIRA_CAP_PWM_def AKIRA_CAP_HID_def
  AKIRA_CAP_APP_CONTROL_def AKIRA_CAP_IPC_def AKIRA_CAP_APP_SWITCH_def AKIRA_CAP_MEMORY_def
  AKIRA_CAP_APP_INFO_def AKIRA_CAP_POWER_READ_def AKIRA_CAP_POWER_CTRL_def AKIRA_CAP_SETTINGS_def
  AKIRA_CAP_ADC_def AKIRA_CAP_WDT_def

text \<open>A null pointer is \<open>None\<close>. The comparisons in the order of the code.\<close>

definition cap_names :: "(c_chars \<times> u32) list" where
  "cap_names = map (\<lambda>(s, m). (text_chars s, m))
    [(''display.write'', AKIRA_CAP_DISPLAY_WRITE), (''display.read'', AKIRA_CAP_DISPLAY_WRITE),
     (''input.read'', AKIRA_CAP_INPUT_READ), (''input.write'', AKIRA_CAP_INPUT_WRITE),
     (''sensor.read'', AKIRA_CAP_SENSOR_READ), (''rf.transceive'', AKIRA_CAP_RF_TRANSCEIVE),
     (''ble'', AKIRA_CAP_BLE), (''bt.shell'', AKIRA_CAP_BLE),
     (''storage.read'', AKIRA_CAP_STORAGE_READ), (''storage.write'', AKIRA_CAP_STORAGE_WRITE),
     (''gpio.read'', AKIRA_CAP_GPIO_READ), (''gpio.write'', AKIRA_CAP_GPIO_WRITE),
     (''timer'', AKIRA_CAP_TIMER), (''uart'', AKIRA_CAP_UART), (''i2c'', AKIRA_CAP_I2C),
     (''pwm'', AKIRA_CAP_PWM), (''hid'', AKIRA_CAP_HID), (''app.control'', AKIRA_CAP_APP_CONTROL),
     (''ipc'', AKIRA_CAP_IPC), (''app.switch'', AKIRA_CAP_APP_SWITCH), (''memory'', AKIRA_CAP_MEMORY),
     (''memory.alloc'', AKIRA_CAP_MEMORY), (''app.info'', AKIRA_CAP_APP_INFO),
     (''power.read'', AKIRA_CAP_POWER_READ), (''power.control'', AKIRA_CAP_POWER_CTRL),
     (''power.*'', AKIRA_CAP_POWER_READ OR AKIRA_CAP_POWER_CTRL),
     (''settings.read'', AKIRA_CAP_SETTINGS), (''settings.write'', AKIRA_CAP_SETTINGS),
     (''settings.*'', AKIRA_CAP_SETTINGS), (''adc'', AKIRA_CAP_ADC), (''wdt'', AKIRA_CAP_WDT),
     (''display.*'', AKIRA_CAP_DISPLAY_WRITE), (''input.*'', AKIRA_CAP_INPUT_READ OR AKIRA_CAP_INPUT_WRITE),
     (''sensor.*'', AKIRA_CAP_SENSOR_READ), (''rf.*'', AKIRA_CAP_RF_TRANSCEIVE),
     (''bt.*'', AKIRA_CAP_BLE OR AKIRA_CAP_HID),
     (''storage.*'', AKIRA_CAP_STORAGE_READ OR AKIRA_CAP_STORAGE_WRITE),
     (''gpio.*'', AKIRA_CAP_GPIO_READ OR AKIRA_CAP_GPIO_WRITE),
     (''network.*'', AKIRA_CAP_NETWORK), (''network.use'', AKIRA_CAP_NETWORK),
     (''network.connect'', AKIRA_CAP_NETWORK),
     (''hw.*'', AKIRA_CAP_TIMER OR AKIRA_CAP_UART OR AKIRA_CAP_I2C OR AKIRA_CAP_PWM),
     (''*'', 0xFFFFFFFF)]"

definition akira_capability_str_to_mask :: "c_chars option \<Rightarrow> u32" where
  "akira_capability_str_to_mask cap =
     (case cap of
        None \<Rightarrow> 0
      | Some cap \<Rightarrow> (case map_of cap_names cap of None \<Rightarrow> 0 | Some m \<Rightarrow> m))"

definition mask_names :: "(u32 \<times> string) list" where
  "mask_names =
    [(AKIRA_CAP_DISPLAY_WRITE, ''display.write''), (AKIRA_CAP_INPUT_READ, ''input.read''),
     (AKIRA_CAP_INPUT_WRITE, ''input.write''), (AKIRA_CAP_SENSOR_READ, ''sensor.read''),
     (AKIRA_CAP_RF_TRANSCEIVE, ''rf.transceive''), (AKIRA_CAP_BLE, ''ble''),
     (AKIRA_CAP_STORAGE_READ, ''storage.read''), (AKIRA_CAP_STORAGE_WRITE, ''storage.write''),
     (AKIRA_CAP_NETWORK, ''network.use''), (AKIRA_CAP_GPIO_READ, ''gpio.read''),
     (AKIRA_CAP_GPIO_WRITE, ''gpio.write''), (AKIRA_CAP_TIMER, ''timer''), (AKIRA_CAP_UART, ''uart''),
     (AKIRA_CAP_I2C, ''i2c''), (AKIRA_CAP_PWM, ''pwm''), (AKIRA_CAP_HID, ''hid''),
     (AKIRA_CAP_APP_CONTROL, ''app.control''), (AKIRA_CAP_IPC, ''ipc''),
     (AKIRA_CAP_APP_SWITCH, ''app.switch''), (AKIRA_CAP_APP_INFO, ''app.info''),
     (AKIRA_CAP_MEMORY, ''memory''), (AKIRA_CAP_POWER_READ, ''power.read''),
     (AKIRA_CAP_POWER_CTRL, ''power.control''), (AKIRA_CAP_ADC, ''adc''), (AKIRA_CAP_WDT, ''wdt''),
     (AKIRA_CAP_SETTINGS, ''settings.*'')]"

definition akira_capability_mask_to_str :: "u32 \<Rightarrow> c_chars" where
  "akira_capability_mask_to_str cap =
     (case find (\<lambda>(m, s). cap AND m \<noteq> 0) mask_names of
        None \<Rightarrow> text_chars ''unknown''
      | Some (m, s) \<Rightarrow> text_chars s)"

definition akira_security_check_native :: "u32 \<Rightarrow> bool" where
  "akira_security_check_native capability = True"

definition akira_security_check :: "u32 \<Rightarrow> bool" where
  "akira_security_check capability = akira_security_check_native capability"

section \<open>Trust levels\<close>

text \<open>The enumeration is its value, as the code compares it and has a default branch.\<close>

definition TRUST_LEVEL_KERNEL :: nat where "TRUST_LEVEL_KERNEL = 0"
definition TRUST_LEVEL_SYSTEM :: nat where "TRUST_LEVEL_SYSTEM = 1"
definition TRUST_LEVEL_TRUSTED :: nat where "TRUST_LEVEL_TRUSTED = 2"
definition TRUST_LEVEL_USER :: nat where "TRUST_LEVEL_USER = 3"

lemmas trust_defs = TRUST_LEVEL_KERNEL_def TRUST_LEVEL_SYSTEM_def TRUST_LEVEL_TRUSTED_def TRUST_LEVEL_USER_def

definition trust_level_allows :: "nat \<Rightarrow> nat \<Rightarrow> bool" where
  "trust_level_allows current required \<longleftrightarrow> current \<le> required"

section \<open>The names of capabilities\<close>

lemma mask_names_back:
  "\<forall>(m, s) \<in> set mask_names. map_of cap_names (text_chars s) = Some m"
  by code_simp

lemma mask_names_known: "\<forall>(m, s) \<in> set mask_names. text_chars s \<noteq> text_chars ''unknown''"
  by code_simp

text \<open>
  The capability names are a right inverse of the masks. The name reported for a mask reads back
  as one capability that is in the mask, so a log or audit line never names a capability that
  was not asked for; a mask without a name is reported as unknown, which reads back as no capability.
\<close>

theorem capability_names_read_back:
  "(\<exists>m s. (m, s) \<in> set mask_names \<and> cap AND m \<noteq> 0 \<and> akira_capability_mask_to_str cap = text_chars s \<and>
      akira_capability_str_to_mask (Some (akira_capability_mask_to_str cap)) = m) \<or>
   (\<forall>(m, s) \<in> set mask_names. cap AND m = 0) \<and>
     akira_capability_str_to_mask (Some (akira_capability_mask_to_str cap)) = 0"
proof (cases "find (\<lambda>(m, s). cap AND m \<noteq> 0) mask_names")
  case None
  then have "\<forall>(m, s) \<in> set mask_names. cap AND m = 0" by (auto simp: find_None_iff)
  moreover have "map_of cap_names (text_chars ''unknown'') = None" by code_simp
  ultimately show ?thesis
    using None by (simp add: akira_capability_mask_to_str_def akira_capability_str_to_mask_def)
next
  case (Some p)
  obtain m s where p: "p = (m, s)" by (cases p)
  have in_names: "(m, s) \<in> set mask_names" "cap AND m \<noteq> 0"
    using Some p by (auto simp: find_Some_iff dest: nth_mem)
  then have "map_of cap_names (text_chars s) = Some m"
    using bspec [OF mask_names_back, of "(m, s)"] by simp
  then show ?thesis
    using in_names Some p
    by (intro disjI1 exI [of _ m] exI [of _ s]) (simp add: akira_capability_mask_to_str_def akira_capability_str_to_mask_def)
qed

end
