(* ===== verification/Runtime_Sandbox.thy ===== *)
theory Runtime_Sandbox
  imports Runtime_Security
begin

text \<open>
  The sandbox of the applications (\<open>src/src/runtime/security/sandbox.c\<close>): syscall categories,
  token-bucket rate limits, the execution watchdog and the audit ring.

  The uptime in milliseconds is an argument; \<open>k_uptime_get_32\<close> is its low word. Token counts are
  integers: they stay between zero and a 16-bit capacity. \<open>rate_bucket_try_consume\<close> and the refill
  inside it are lock-free, so they are modelled twice: as the sequence of their atomic accesses, of
  which any number of threads may be somewhere in the middle, and as the function that a call computes
  when no other thread interferes. The other operations run under a spinlock or own their context.
\<close>

section \<open>Configuration and state\<close>

definition SYSCALL_CAT_DISPLAY :: u32 where "SYSCALL_CAT_DISPLAY = 2 ^ 0"
definition SYSCALL_CAT_INPUT :: u32 where "SYSCALL_CAT_INPUT = 2 ^ 1"
definition SYSCALL_CAT_SENSOR :: u32 where "SYSCALL_CAT_SENSOR = 2 ^ 2"
definition SYSCALL_CAT_RF :: u32 where "SYSCALL_CAT_RF = 2 ^ 3"
definition SYSCALL_CAT_STORAGE :: u32 where "SYSCALL_CAT_STORAGE = 2 ^ 4"
definition SYSCALL_CAT_NETWORK :: u32 where "SYSCALL_CAT_NETWORK = 2 ^ 5"
definition SYSCALL_CAT_SYSTEM :: u32 where "SYSCALL_CAT_SYSTEM = 2 ^ 6"
definition SYSCALL_CAT_BLUETOOTH :: u32 where "SYSCALL_CAT_BLUETOOTH = 2 ^ 7"
definition SYSCALL_CAT_IPC :: u32 where "SYSCALL_CAT_IPC = 2 ^ 8"
definition SYSCALL_CAT_MEMORY :: u32 where "SYSCALL_CAT_MEMORY = 2 ^ 9"
definition SYSCALL_CAT_CRYPTO :: u32 where "SYSCALL_CAT_CRYPTO = 2 ^ 10"
definition SYSCALL_CAT_ALL :: u32 where "SYSCALL_CAT_ALL = 0x7FF"

lemmas cat_defs = SYSCALL_CAT_DISPLAY_def SYSCALL_CAT_INPUT_def SYSCALL_CAT_SENSOR_def SYSCALL_CAT_RF_def
  SYSCALL_CAT_STORAGE_def SYSCALL_CAT_NETWORK_def SYSCALL_CAT_SYSTEM_def SYSCALL_CAT_BLUETOOTH_def
  SYSCALL_CAT_IPC_def SYSCALL_CAT_MEMORY_def SYSCALL_CAT_CRYPTO_def SYSCALL_CAT_ALL_def

definition SANDBOX_TRUST_KERNEL_ALLOWED :: u32 where
  "SANDBOX_TRUST_KERNEL_ALLOWED = SYSCALL_CAT_ALL"

definition SANDBOX_TRUST_SYSTEM_ALLOWED :: u32 where
  "SANDBOX_TRUST_SYSTEM_ALLOWED = SYSCALL_CAT_ALL AND NOT SYSCALL_CAT_SYSTEM"

definition SANDBOX_TRUST_TRUSTED_ALLOWED :: u32 where
  "SANDBOX_TRUST_TRUSTED_ALLOWED =
     SYSCALL_CAT_DISPLAY OR SYSCALL_CAT_INPUT OR SYSCALL_CAT_SENSOR OR SYSCALL_CAT_RF OR
     SYSCALL_CAT_STORAGE OR SYSCALL_CAT_NETWORK OR SYSCALL_CAT_BLUETOOTH OR SYSCALL_CAT_IPC OR
     SYSCALL_CAT_MEMORY OR SYSCALL_CAT_CRYPTO"

definition SANDBOX_TRUST_USER_ALLOWED :: u32 where
  "SANDBOX_TRUST_USER_ALLOWED =
     SYSCALL_CAT_DISPLAY OR SYSCALL_CAT_INPUT OR SYSCALL_CAT_SENSOR OR SYSCALL_CAT_MEMORY"

lemmas trust_allowed_defs = SANDBOX_TRUST_KERNEL_ALLOWED_def SANDBOX_TRUST_SYSTEM_ALLOWED_def
  SANDBOX_TRUST_TRUSTED_ALLOWED_def SANDBOX_TRUST_USER_ALLOWED_def

definition SANDBOX_RATE_DISPLAY_OPS :: u16 where "SANDBOX_RATE_DISPLAY_OPS = 100"
definition SANDBOX_RATE_SENSOR_READS :: u16 where "SANDBOX_RATE_SENSOR_READS = 50"
definition SANDBOX_RATE_RF_OPS :: u16 where "SANDBOX_RATE_RF_OPS = 20"
definition SANDBOX_RATE_NETWORK_OPS :: u16 where "SANDBOX_RATE_NETWORK_OPS = 30"
definition SANDBOX_RATE_STORAGE_OPS :: u16 where "SANDBOX_RATE_STORAGE_OPS = 40"
definition SANDBOX_RATE_IPC_OPS :: u16 where "SANDBOX_RATE_IPC_OPS = 200"
definition SANDBOX_NUM_RATE_BUCKETS :: nat where "SANDBOX_NUM_RATE_BUCKETS = 6"
definition CONFIG_AKIRA_SANDBOX_EXEC_TIMEOUT_MS :: u32 where "CONFIG_AKIRA_SANDBOX_EXEC_TIMEOUT_MS = 5000"
definition CONFIG_AKIRA_AUDIT_LOG_SIZE :: nat where "CONFIG_AKIRA_AUDIT_LOG_SIZE = 32"

record rate_bucket =
  tokens :: int
  max_tokens :: u16
  refill_per_sec :: u16
  last_refill_ms :: u32

record sandbox_ctx =
  allowed_syscalls :: u32
  trust_level :: nat
  rate_buckets :: "rate_bucket list"
  exec_timeout_ms :: u32
  exec_start_ms :: int
  exec_active :: bool
  total_syscalls :: u32
  denied_syscalls :: u32
  rate_limited_count :: u32
  watchdog_kills :: u32
  ctx_initialized :: bool

datatype audit_event_type =
    AUDIT_EVENT_SYSCALL_DENIED | AUDIT_EVENT_RATE_LIMITED | AUDIT_EVENT_WATCHDOG_KILL
  | AUDIT_EVENT_CAPABILITY_DENIED | AUDIT_EVENT_INTEGRITY_FAIL | AUDIT_EVENT_SIGNATURE_FAIL
  | AUDIT_EVENT_SIGNATURE_OK | AUDIT_EVENT_APP_LOADED | AUDIT_EVENT_APP_STARTED | AUDIT_EVENT_APP_STOPPED
  | AUDIT_EVENT_MAX

record audit_entry =
  event_type :: audit_event_type
  timestamp_ms :: int
  entry_name :: octets
  detail :: u32

text \<open>\<open>write_idx\<close> and \<open>count\<close> are \<open>atomic_t\<close>, a \<open>long\<close>; 32 bits on the targets.\<close>

record audit_ring =
  entries :: "audit_entry list"
  write_idx :: u32
  count :: u32
  ring_initialized :: bool

definition k_uptime_get_32 :: "nat \<Rightarrow> u32" where
  "k_uptime_get_32 now = of_nat now"

section \<open>Rate limits\<close>

text \<open>The tokens a refill adds after \<open>elapsed\<close> milliseconds, in 32-bit arithmetic.\<close>

definition refill_tokens :: "rate_bucket \<Rightarrow> u32 \<Rightarrow> int" where
  "refill_tokens bucket elapsed = uint (elapsed * ucast (refill_per_sec bucket) div 1000)"

definition refilled :: "rate_bucket \<Rightarrow> int \<Rightarrow> rate_bucket" where
  "refilled bucket new_tokens =
     (let new_tok = min (tokens bucket + new_tokens) (uint (max_tokens bucket)) in
      if new_tok = tokens bucket then bucket else bucket\<lparr>tokens := new_tok\<rparr>)"

definition rate_bucket_refill :: "u32 \<Rightarrow> rate_bucket \<Rightarrow> rate_bucket" where
  "rate_bucket_refill now bucket =
     (let elapsed = now - last_refill_ms bucket in
      if elapsed < 20 then bucket
      else
        let bucket = bucket\<lparr>last_refill_ms := now\<rparr>; new_tokens = refill_tokens bucket elapsed in
        if new_tokens > 0 then refilled bucket new_tokens else bucket)"

definition rate_bucket_try_consume :: "u32 \<Rightarrow> rate_bucket \<Rightarrow> bool \<times> rate_bucket" where
  "rate_bucket_try_consume now bucket =
     (let bucket = (if tokens bucket \<le> 0 then rate_bucket_refill now bucket else bucket) in
      if tokens bucket \<le> 0 then (False, bucket)
      else (True, bucket\<lparr>tokens := tokens bucket - 1\<rparr>))"

subsection \<open>The atomic accesses of a call\<close>

text \<open>Where a thread is: the next atomic access of the code, with the local values it holds.\<close>

datatype consume_pc =
    Get_tokens
  | Get_time
  | Get_old_ms u32
  | Cas_old_ms u32 u32
  | Get_old_tok int
  | Cas_old_tok int int int
  | Recheck_tokens
  | Cas_tokens int
  | Consumed bool

fun consume_step :: "u32 \<Rightarrow> consume_pc \<Rightarrow> rate_bucket \<Rightarrow> consume_pc \<times> rate_bucket" where
  "consume_step now Get_tokens b =
     (if tokens b \<le> 0 then Get_time else Cas_tokens (tokens b), b)"
| "consume_step now Get_time b = (Get_old_ms now, b)"
| "consume_step now (Get_old_ms t) b =
     (if t - last_refill_ms b < 20 then Recheck_tokens else Cas_old_ms t (last_refill_ms b), b)"
| "consume_step now (Cas_old_ms t old) b =
     (if last_refill_ms b = old
      then (if refill_tokens b (t - old) > 0 then Get_old_tok (refill_tokens b (t - old)) else Recheck_tokens,
            b\<lparr>last_refill_ms := t\<rparr>)
      else (Recheck_tokens, b))"
| "consume_step now (Get_old_tok n) b =
     (let new_tok = min (tokens b + n) (uint (max_tokens b)) in
      (if new_tok = tokens b then Recheck_tokens else Cas_old_tok n (tokens b) new_tok, b))"
| "consume_step now (Cas_old_tok n old new_tok) b =
     (if tokens b = old then (Recheck_tokens, b\<lparr>tokens := new_tok\<rparr>) else (Get_old_tok n, b))"
| "consume_step now Recheck_tokens b =
     (if tokens b \<le> 0 then Consumed False else Cas_tokens (tokens b), b)"
| "consume_step now (Cas_tokens old) b =
     (if tokens b = old then (Consumed True, b\<lparr>tokens := old - 1\<rparr>) else (Get_tokens, b))"
| "consume_step now (Consumed r) b = (Consumed r, b)"

text \<open>
  Any number of threads call \<open>rate_bucket_try_consume\<close> on one bucket. A step is an atomic access of
  one thread, a thread that starts its next call, or time passing. \<open>admitted\<close> counts the calls that
  returned true and \<open>added\<close> the tokens the refills put in.
\<close>

record rate_system =
  bucket :: rate_bucket
  threads :: "consume_pc list"
  uptime :: nat
  admitted :: nat
  added :: int

datatype rate_action = Access nat | Again nat | Tick nat

fun rate_act :: "rate_action \<Rightarrow> rate_system \<Rightarrow> rate_system option" where
  "rate_act (Access i) s =
     (if i < length (threads s) \<and> threads s ! i \<notin> {Consumed True, Consumed False}
      then
        case consume_step (k_uptime_get_32 (uptime s)) (threads s ! i) (bucket s) of
          (pc, b) \<Rightarrow>
            Some (s\<lparr>bucket := b, threads := (threads s)[i := pc],
              admitted := admitted s + (if pc = Consumed True then 1 else 0),
              added := added s + max 0 (tokens b - tokens (bucket s))\<rparr>)
      else None)"
| "rate_act (Again i) s =
     (if i < length (threads s) \<and> threads s ! i \<in> {Consumed True, Consumed False}
      then Some (s\<lparr>threads := (threads s)[i := Get_tokens]\<rparr>) else None)"
| "rate_act (Tick d) s = Some (s\<lparr>uptime := uptime s + d\<rparr>)"

fun rate_run :: "rate_action list \<Rightarrow> rate_system \<Rightarrow> rate_system option" where
  "rate_run [] s = Some s"
| "rate_run (a # as) s = (case rate_act a s of None \<Rightarrow> None | Some s \<Rightarrow> rate_run as s)"

inductive rate_reaches :: "rate_system \<Rightarrow> rate_system \<Rightarrow> bool" where
  start: "rate_reaches s s"
| step: "rate_reaches s t \<Longrightarrow> rate_act a t = Some u \<Longrightarrow> rate_reaches s u"

section \<open>Audit ring\<close>

text \<open>
  The remainder of C truncates towards zero, so it is negative for a negative dividend. Reading or
  writing outside an array has no result.
\<close>

definition c_rem :: "int \<Rightarrow> int \<Rightarrow> int" where
  "c_rem a b = (if a < 0 then - ((- a) mod b) else a mod b)"

definition in_array :: "int \<Rightarrow> 'a list \<Rightarrow> bool" where
  "in_array i xs \<longleftrightarrow> 0 \<le> i \<and> i < int (length xs)"

definition sandbox_init :: audit_ring where
  "sandbox_init =
     \<lparr>entries = replicate CONFIG_AKIRA_AUDIT_LOG_SIZE
        \<lparr>event_type = AUDIT_EVENT_SYSCALL_DENIED, timestamp_ms = 0, entry_name = replicate 32 0, detail = 0\<rparr>,
      write_idx = 0, count = 0, ring_initialized = True\<rparr>"

definition written_name :: "octets \<Rightarrow> c_chars option \<Rightarrow> octets" where
  "written_name old app_name =
     (case app_name of
        Some app_name \<Rightarrow> copied_name old app_name (length old)
      | None \<Rightarrow> old[0 := 0])"

definition sandbox_audit_log ::
  "nat \<Rightarrow> audit_event_type \<Rightarrow> c_chars option \<Rightarrow> u32 \<Rightarrow> audit_ring \<Rightarrow> audit_ring option" where
  "sandbox_audit_log now ty app_name det ring =
     (if \<not> ring_initialized ring then Some ring
      else
        let idx = c_rem (sint (write_idx ring)) (int CONFIG_AKIRA_AUDIT_LOG_SIZE) in
        if \<not> in_array idx (entries ring) then None
        else
          let old = entries ring ! nat idx in
          Some (ring\<lparr>write_idx := write_idx ring + 1,
            entries := (entries ring)[nat idx :=
              \<lparr>event_type = ty, timestamp_ms = int now, entry_name = written_name (entry_name old) app_name, detail = det\<rparr>],
            count := (if sint (count ring) < int CONFIG_AKIRA_AUDIT_LOG_SIZE then count ring + 1 else count ring)\<rparr>))"

fun recent_loop :: "audit_entry list \<Rightarrow> int \<Rightarrow> int \<Rightarrow> int \<Rightarrow> nat \<Rightarrow> audit_entry list option" where
  "recent_loop es write_pos cnt i 0 = Some []"
| "recent_loop es write_pos cnt i (Suc n) =
     (let src_idx = c_rem (write_pos - cnt + i + int CONFIG_AKIRA_AUDIT_LOG_SIZE) (int CONFIG_AKIRA_AUDIT_LOG_SIZE) in
      if \<not> in_array src_idx es then None
      else
        case recent_loop es write_pos cnt (i + 1) n of
          None \<Rightarrow> None
        | Some out \<Rightarrow> Some (es ! nat src_idx # out))"

definition sandbox_audit_get_recent :: "audit_ring \<Rightarrow> int \<Rightarrow> audit_entry list option" where
  "sandbox_audit_get_recent ring max_count =
     (if max_count \<le> 0 \<or> \<not> ring_initialized ring then Some []
      else
        let cnt = min (sint (count ring)) max_count in
        recent_loop (entries ring) (sint (write_idx ring)) cnt 0 (nat cnt))"

section \<open>Contexts\<close>

definition category_to_bucket :: "u32 \<Rightarrow> nat option" where
  "category_to_bucket cat =
     (if cat = SYSCALL_CAT_DISPLAY then Some 0
      else if cat = SYSCALL_CAT_SENSOR then Some 1
      else if cat = SYSCALL_CAT_RF then Some 2
      else if cat = SYSCALL_CAT_NETWORK then Some 3
      else if cat = SYSCALL_CAT_STORAGE then Some 4
      else if cat = SYSCALL_CAT_IPC then Some 5
      else None)"

definition trust_allowed :: "nat \<Rightarrow> u32" where
  "trust_allowed trust =
     (if trust = TRUST_LEVEL_KERNEL then SANDBOX_TRUST_KERNEL_ALLOWED
      else if trust = TRUST_LEVEL_SYSTEM then SANDBOX_TRUST_SYSTEM_ALLOWED
      else if trust = TRUST_LEVEL_TRUSTED then SANDBOX_TRUST_TRUSTED_ALLOWED
      else SANDBOX_TRUST_USER_ALLOWED)"

definition cap_allowed :: "u32 \<Rightarrow> u32" where
  "cap_allowed cap_mask =
     (if cap_mask AND AKIRA_CAP_DISPLAY_WRITE \<noteq> 0 then SYSCALL_CAT_DISPLAY else 0) OR
     (if cap_mask AND AKIRA_CAP_INPUT_READ \<noteq> 0 then SYSCALL_CAT_INPUT else 0) OR
     (if cap_mask AND AKIRA_CAP_SENSOR_READ \<noteq> 0 then SYSCALL_CAT_SENSOR else 0) OR
     (if cap_mask AND AKIRA_CAP_RF_TRANSCEIVE \<noteq> 0 then SYSCALL_CAT_RF else 0) OR
     (if cap_mask AND AKIRA_CAP_BLE \<noteq> 0 then SYSCALL_CAT_BLUETOOTH else 0)"

definition bucket_rates :: "u16 list" where
  "bucket_rates =
     [SANDBOX_RATE_DISPLAY_OPS, SANDBOX_RATE_SENSOR_READS, SANDBOX_RATE_RF_OPS, SANDBOX_RATE_NETWORK_OPS,
      SANDBOX_RATE_STORAGE_OPS, SANDBOX_RATE_IPC_OPS]"

definition sandbox_ctx_init :: "nat \<Rightarrow> nat \<Rightarrow> u32 \<Rightarrow> sandbox_ctx" where
  "sandbox_ctx_init now trust cap_mask =
     \<lparr>allowed_syscalls = trust_allowed trust OR cap_allowed cap_mask, trust_level = trust,
      rate_buckets = map (\<lambda>i. \<lparr>tokens = uint (bucket_rates ! i), max_tokens = bucket_rates ! i,
        refill_per_sec = bucket_rates ! i, last_refill_ms = k_uptime_get_32 now\<rparr>) [0..<SANDBOX_NUM_RATE_BUCKETS],
      exec_timeout_ms = CONFIG_AKIRA_SANDBOX_EXEC_TIMEOUT_MS, exec_start_ms = 0, exec_active = False,
      total_syscalls = 0, denied_syscalls = 0, rate_limited_count = 0, watchdog_kills = 0,
      ctx_initialized = True\<rparr>"

definition name_or_unknown :: "c_chars option \<Rightarrow> c_chars option" where
  "name_or_unknown app_name = Some (case app_name of Some n \<Rightarrow> n | None \<Rightarrow> text_chars ''unknown'')"

definition sandbox_check_syscall ::
  "nat \<Rightarrow> u32 \<Rightarrow> c_chars option \<Rightarrow> sandbox_ctx \<Rightarrow> audit_ring \<Rightarrow> (bool \<times> sandbox_ctx \<times> audit_ring) option" where
  "sandbox_check_syscall now category app_name ctx ring =
     (if \<not> ctx_initialized ctx then Some (False, ctx, ring)
      else
        let ctx = ctx\<lparr>total_syscalls := total_syscalls ctx + 1\<rparr> in
        if allowed_syscalls ctx AND category = 0
        then
          (case sandbox_audit_log now AUDIT_EVENT_SYSCALL_DENIED (name_or_unknown app_name) category ring of
             None \<Rightarrow> None
           | Some ring \<Rightarrow> Some (False, ctx\<lparr>denied_syscalls := denied_syscalls ctx + 1\<rparr>, ring))
        else
          (case category_to_bucket category of
             None \<Rightarrow> Some (True, ctx, ring)
           | Some i \<Rightarrow>
               (case rate_bucket_try_consume (k_uptime_get_32 now) (rate_buckets ctx ! i) of
                  (ok, b) \<Rightarrow>
                    let ctx = ctx\<lparr>rate_buckets := (rate_buckets ctx)[i := b]\<rparr> in
                    if ok then Some (True, ctx, ring)
                    else
                      (case sandbox_audit_log now AUDIT_EVENT_RATE_LIMITED (name_or_unknown app_name) category ring of
                         None \<Rightarrow> None
                       | Some ring \<Rightarrow>
                           Some (False, ctx\<lparr>rate_limited_count := rate_limited_count ctx + 1\<rparr>, ring)))))"

definition sandbox_exec_begin :: "nat \<Rightarrow> sandbox_ctx \<Rightarrow> sandbox_ctx" where
  "sandbox_exec_begin now ctx = ctx\<lparr>exec_start_ms := int now, exec_active := True\<rparr>"

definition sandbox_exec_end :: "sandbox_ctx \<Rightarrow> sandbox_ctx" where
  "sandbox_exec_end ctx = ctx\<lparr>exec_active := False\<rparr>"

definition sandbox_exec_timed_out :: "nat \<Rightarrow> sandbox_ctx \<Rightarrow> bool" where
  "sandbox_exec_timed_out now ctx \<longleftrightarrow>
     exec_active ctx \<and> int now - exec_start_ms ctx > uint (exec_timeout_ms ctx)"

definition sandbox_watchdog_kill ::
  "nat \<Rightarrow> c_chars option \<Rightarrow> sandbox_ctx \<Rightarrow> audit_ring \<Rightarrow> (sandbox_ctx \<times> audit_ring) option" where
  "sandbox_watchdog_kill now app_name ctx ring =
     (let ctx = ctx\<lparr>exec_active := False, watchdog_kills := watchdog_kills ctx + 1\<rparr> in
      case sandbox_audit_log now AUDIT_EVENT_WATCHDOG_KILL (name_or_unknown app_name) (exec_timeout_ms ctx) ring of
        None \<Rightarrow> None
      | Some ring \<Rightarrow> Some (ctx, ring))"

section \<open>Rate limits: one call without interference\<close>

lemma refill_tokens_update [simp]:
  "refill_tokens (b\<lparr>last_refill_ms := t\<rparr>) e = refill_tokens b e"
  "refill_tokens (b\<lparr>tokens := n\<rparr>) e = refill_tokens b e"
  by (simp_all add: refill_tokens_def)

text \<open>A call takes at most eight atomic accesses; \<open>Consumed\<close> stays.\<close>

lemma consume_uninterrupted:
  "((\<lambda>(pc, b). consume_step now pc b) ^^ 8) (Get_tokens, b) =
     (case rate_bucket_try_consume now b of (r, b') \<Rightarrow> (Consumed r, b'))"
  by (simp add: numeral_eq_Suc rate_bucket_try_consume_def rate_bucket_refill_def refilled_def Let_def)

definition bucket_ok :: "rate_bucket \<Rightarrow> bool" where
  "bucket_ok b \<longleftrightarrow> 0 \<le> tokens b \<and> tokens b \<le> uint (max_tokens b)"

section \<open>Rate limits: any interleaving\<close>

fun pc_ok :: "rate_bucket \<Rightarrow> consume_pc \<Rightarrow> bool" where
  "pc_ok b (Get_old_tok n) \<longleftrightarrow> 0 < n"
| "pc_ok b (Cas_old_tok n old new_tok) \<longleftrightarrow> 0 < n \<and> old < new_tok \<and> new_tok \<le> uint (max_tokens b)"
| "pc_ok b (Cas_tokens old) \<longleftrightarrow> 0 < old"
| "pc_ok b pc \<longleftrightarrow> True"

definition rate_ok :: "rate_system \<Rightarrow> bool" where
  "rate_ok s \<longleftrightarrow> bucket_ok (bucket s) \<and> (\<forall>pc \<in> set (threads s). pc_ok (bucket s) pc)"

definition balance :: "rate_system \<Rightarrow> int" where
  "balance s = tokens (bucket s) + int (admitted s) - added s"

lemma pc_ok_cong: "max_tokens b' = max_tokens b \<Longrightarrow> pc_ok b' pc = pc_ok b pc"
  by (cases pc) simp_all

lemma consume_step_ok:
  assumes "consume_step now pc b = (pc', b')" and "bucket_ok b" and "pc_ok b pc" and "\<not> (\<exists>r. pc = Consumed r)"
  shows "bucket_ok b'" and "pc_ok b' pc'" and "max_tokens b' = max_tokens b"
    and "tokens b' - max 0 (tokens b' - tokens b) + (if pc' = Consumed True then 1 else 0) = tokens b"
  using assms by (cases pc; auto simp: bucket_ok_def Let_def split: if_splits)+

lemma rate_act_ok:
  assumes "rate_act a s = Some t" and "rate_ok s"
  shows "rate_ok t \<and> balance t = balance s \<and> max_tokens (bucket t) = max_tokens (bucket s)"
proof (cases a)
  case (Access i)
  obtain pc b where st: "consume_step (k_uptime_get_32 (uptime s)) (threads s ! i) (bucket s) = (pc, b)"
    by (cases "consume_step (k_uptime_get_32 (uptime s)) (threads s ! i) (bucket s)")
  have i: "i < length (threads s)" "\<not> (\<exists>r. threads s ! i = Consumed r)"
    using assms(1) Access by (auto split: if_splits)
  have ok: "bucket_ok (bucket s)" "pc_ok (bucket s) (threads s ! i)"
    using assms(2) i(1) by (auto simp: rate_ok_def)
  note new = consume_step_ok [OF st ok i(2)]
  have t: "t = s\<lparr>bucket := b, threads := (threads s)[i := pc],
      admitted := admitted s + (if pc = Consumed True then 1 else 0),
      added := added s + max 0 (tokens b - tokens (bucket s))\<rparr>"
    using assms(1) Access st by (auto split: if_splits)
  have "\<forall>q \<in> set ((threads s)[i := pc]). pc_ok b q"
    using assms(2) new(2) pc_ok_cong [OF new(3)] by (auto simp: rate_ok_def dest!: subsetD [OF set_update_subset_insert])
  then show ?thesis using new(1,3,4) by (auto simp: t rate_ok_def balance_def)
next
  case (Again i)
  then show ?thesis
    using assms by (auto simp: rate_ok_def balance_def split: if_splits dest!: subsetD [OF set_update_subset_insert])
next
  case (Tick d)
  then show ?thesis using assms by (auto simp: rate_ok_def balance_def)
qed

lemma rate_reaches_ok:
  "rate_reaches s t \<Longrightarrow> rate_ok s \<Longrightarrow>
     rate_ok t \<and> balance t = balance s \<and> max_tokens (bucket t) = max_tokens (bucket s)"
  by (induction rule: rate_reaches.induct) (auto dest: rate_act_ok)

text \<open>
  C24: Rate limits under concurrency. Whatever the interleaving of the atomic accesses of any number of
  threads, and however the clock moves, the token count of a bucket stays between zero and its
  capacity, and every call that was admitted has taken a token of its own: the tokens left are those
  at the start plus those the refills added minus the calls admitted.
\<close>

theorem rate_limit_takes_own_token:
  assumes "rate_reaches s t" and "rate_ok s"
  shows "rate_ok t \<and> 0 \<le> tokens (bucket t) \<and> tokens (bucket t) \<le> uint (max_tokens (bucket s)) \<and>
    tokens (bucket t) = tokens (bucket s) + (added t - added s) - (int (admitted t) - int (admitted s))"
  using rate_reaches_ok [OF assms] by (auto simp: rate_ok_def bucket_ok_def balance_def)

definition demo_bucket :: rate_bucket where
  "demo_bucket = \<lparr>tokens = 1, max_tokens = 20, refill_per_sec = 20, last_refill_ms = 1000\<rparr>"

definition demo_rates :: rate_system where
  "demo_rates = \<lparr>bucket = demo_bucket, threads = [Get_tokens, Get_tokens], uptime = 1000, admitted = 0, added = 0\<rparr>"

lemma rate_run_reaches: "rate_run as t = Some u \<Longrightarrow> rate_reaches s t \<Longrightarrow> rate_reaches s u"
  by (induction as t rule: rate_run.induct) (auto split: option.splits intro: rate_reaches.step)

lemma rate_run_ends:
  "(case rate_run as s of None \<Rightarrow> False | Some t \<Rightarrow> P t) \<Longrightarrow> \<exists>t. rate_reaches s t \<and> P t"
  using rate_run_reaches [OF _ rate_reaches.start] by (auto split: option.splits)

text \<open>
  Two threads that both see the last token: one takes it, the other one's exchange fails, and it is
  refused after its refill check.
\<close>

lemma rate_limit_takes_own_token_witness:
  "\<exists>t. rate_reaches demo_rates t \<and> admitted t = 1 \<and> threads t = [Consumed True, Consumed False] \<and>
     tokens (bucket t) = 0 \<and> added t = 0"
proof -
  have "case rate_run [Access 0, Access 1, Access 0, Access 1, Access 1, Access 1, Access 1, Access 1] demo_rates of
      None \<Rightarrow> False
    | Some t \<Rightarrow> admitted t = 1 \<and> threads t = [Consumed True, Consumed False] \<and> added t = 0"
    by code_simp
  from rate_run_ends [OF this]
  obtain t where t: "rate_reaches demo_rates t" "admitted t = 1" "threads t = [Consumed True, Consumed False]"
      "added t = 0"
    by blast
  have "rate_ok demo_rates" by code_simp
  from rate_limit_takes_own_token [OF t(1) this] have "tokens (bucket t) = 0"
    using t by (simp add: demo_rates_def demo_bucket_def)
  then show ?thesis using t by blast
qed

text \<open>
  The refill trusts that the clock it read is not older than the last refill. A thread that is
  suspended between reading the clock and reading \<open>last_refill_ms\<close>, while another one refills, sees
  a huge elapsed time: an empty bucket is full again within 30 milliseconds.
\<close>

lemma refill_race:
  "\<exists>t. rate_reaches (demo_rates\<lparr>bucket := demo_bucket\<lparr>tokens := 0\<rparr>\<rparr>) t \<and> uptime t = 1030 \<and>
     tokens (bucket t) = 20"
proof -
  have "case rate_run [Tick 10, Access 0, Access 0, Tick 20, Access 1, Access 1, Access 1, Access 1,
        Access 0, Access 0, Access 0, Access 0] (demo_rates\<lparr>bucket := demo_bucket\<lparr>tokens := 0\<rparr>\<rparr>) of
      None \<Rightarrow> False
    | Some t \<Rightarrow> uptime t = 1030 \<and> tokens (bucket t) = 20"
    by code_simp
  then show ?thesis by (rule rate_run_ends)
qed

section \<open>Rate limits: calls one after the other\<close>

text \<open>
  A refused call moves \<open>last_refill_ms\<close> even when the elapsed time was too short for a whole token.
  An application that retries a radio operation every 20 to 49 milliseconds is never admitted again.
\<close>

fun consume_all :: "nat list \<Rightarrow> rate_bucket \<Rightarrow> bool list \<times> rate_bucket" where
  "consume_all [] b = ([], b)"
| "consume_all (t # ts) b =
     (case rate_bucket_try_consume (k_uptime_get_32 t) b of
        (r, b) \<Rightarrow> (case consume_all ts b of (rs, b) \<Rightarrow> (r # rs, b)))"

lemma retries_starve:
  assumes "20 \<le> d" and "d < 50"
  shows "refill_per_sec b = 20 \<Longrightarrow> tokens b = 0 \<Longrightarrow> last_refill_ms b = k_uptime_get_32 t \<Longrightarrow>
    fst (consume_all (map (\<lambda>k. t + d * k) [1..<n + 1]) b) = replicate n False"
proof (induction n arbitrary: b t)
  case (Suc n)
  have e: "k_uptime_get_32 (t + d) - k_uptime_get_32 t = of_nat d" by (simp add: k_uptime_get_32_def)
  have "unat (of_nat d * 20 :: u32) = d * 20" using assms by (simp add: unat_of_nat unat_word_ariths)
  then have "refill_tokens b (of_nat d) = 0"
    using Suc.prems(1) assms by (simp add: refill_tokens_def word_arith_nat_div uint_nat)
  moreover have "\<not> (of_nat d :: u32) < 20" using assms by (simp add: word_less_nat_alt unat_of_nat)
  ultimately have "rate_bucket_try_consume (k_uptime_get_32 (t + d)) b = (False, b\<lparr>last_refill_ms := k_uptime_get_32 (t + d)\<rparr>)"
    using Suc.prems by (simp add: rate_bucket_try_consume_def rate_bucket_refill_def e)
  moreover have "map (\<lambda>k. t + d * k) [1..<Suc n + 1] = (t + d) # map (\<lambda>k. (t + d) + d * k) [1..<n + 1]"
    by (rule nth_equalityI) (auto simp: nth_Cons' nth_append algebra_simps simp del: upt_Suc)
  ultimately show ?case
    using Suc.IH [of "b\<lparr>last_refill_ms := k_uptime_get_32 (t + d)\<rparr>" "t + d"] Suc.prems
    by (auto simp del: upt_Suc split: prod.split)
qed simp

end
