(* ===== verification/Runtime_Audit.thy ===== *)
theory Runtime_Audit
  imports Runtime_Sandbox
begin

text \<open>
  What the audit ring and the syscall filter of \<open>Runtime_Sandbox\<close> guarantee over sequences of calls.
\<close>

section \<open>Audit ring\<close>

text \<open>What a reader sees of an entry, and what a call to the log asks for.\<close>

type_synonym audit_view = "audit_event_type \<times> int \<times> c_chars \<times> u32"

definition shown :: "audit_entry \<Rightarrow> audit_view" where
  "shown e = (event_type e, timestamp_ms e, c_string_at (entry_name e), detail e)"

definition shown_name :: "c_chars option \<Rightarrow> c_chars" where
  "shown_name app_name = (case app_name of Some n \<Rightarrow> take 31 n | None \<Rightarrow> [])"

definition name_ok :: "c_chars option \<Rightarrow> bool" where
  "name_ok app_name \<longleftrightarrow> (case app_name of Some n \<Rightarrow> is_c_chars n | None \<Rightarrow> True)"

text \<open>The ring holds the last entries of a history.\<close>

definition ring_holds :: "audit_ring \<Rightarrow> audit_view list \<Rightarrow> bool" where
  "ring_holds ring es \<longleftrightarrow>
     ring_initialized ring \<and> length es < 2 ^ 31 \<and> write_idx ring = of_nat (length es) \<and>
     count ring = of_nat (min (length es) 32) \<and> length (entries ring) = 32 \<and>
     (\<forall>e \<in> set (entries ring). length (entry_name e) = 32) \<and>
     (\<forall>j < length es. length es \<le> j + 32 \<longrightarrow> shown (entries ring ! (j mod 32)) = es ! j)"

lemma sint_small: "n < 2 ^ 31 \<Longrightarrow> sint (of_nat n :: u32) = int n"
  by (simp add: sint_uint signed_take_bit_int_eq_self_iff uint_nat unat_of_nat)

lemma length_written_name: "length old = 32 \<Longrightarrow> length (written_name old n) = 32"
  by (auto simp: written_name_def length_copied_name split: option.split)

lemma shown_written_name:
  assumes "length old = 32" and "name_ok n"
  shows "c_string_at (written_name old n) = shown_name n"
proof (cases n)
  case None
  then obtain c r where "old = c # r" using assms(1) by (cases old) auto
  then show ?thesis using None by (simp add: written_name_def shown_name_def c_string_at_def)
next
  case (Some t)
  then show ?thesis
    using copied_name_string [OF assms(1), of t] assms by (simp add: written_name_def shown_name_def name_ok_def)
qed

lemma sandbox_init_holds: "ring_holds sandbox_init []"
  by (simp add: ring_holds_def sandbox_init_def CONFIG_AKIRA_AUDIT_LOG_SIZE_def)

lemma audit_log_holds:
  assumes "ring_holds ring es" and "length es + 1 < 2 ^ 31" and "name_ok n"
  shows "\<exists>ring'. sandbox_audit_log now ty n det ring = Some ring' \<and>
    ring_holds ring' (es @ [(ty, int now, shown_name n, det)])"
proof -
  let ?k = "length es mod 32"
  let ?old = "entries ring ! ?k"
  let ?new = "\<lparr>event_type = ty, timestamp_ms = int now, entry_name = written_name (entry_name ?old) n, detail = det\<rparr>"
  have h: "ring_initialized ring" "write_idx ring = of_nat (length es)" "count ring = of_nat (min (length es) 32)"
      "length (entries ring) = 32" "\<forall>e \<in> set (entries ring). length (entry_name e) = 32"
      "\<And>j. j < length es \<Longrightarrow> length es \<le> j + 32 \<Longrightarrow> shown (entries ring ! (j mod 32)) = es ! j"
    using assms(1) by (simp_all add: ring_holds_def)
  have old: "length (entry_name ?old) = 32" using h(4,5) by simp
  have idx: "c_rem (sint (write_idx ring)) (int CONFIG_AKIRA_AUDIT_LOG_SIZE) = int ?k"
    using assms(2) by (simp add: h(2) sint_small c_rem_def CONFIG_AKIRA_AUDIT_LOG_SIZE_def zmod_int)
  have cnt: "sint (count ring) = int (min (length es) 32)"
    unfolding h(3) by (rule sint_small) simp
  let ?ring = "ring\<lparr>write_idx := write_idx ring + 1, entries := (entries ring)[?k := ?new],
    count := (if sint (count ring) < int CONFIG_AKIRA_AUDIT_LOG_SIZE then count ring + 1 else count ring)\<rparr>"
  have log: "sandbox_audit_log now ty n det ring = Some ?ring"
    using h(1,4) by (simp add: sandbox_audit_log_def idx in_array_def Let_def)
  have view: "shown ?new = (ty, int now, shown_name n, det)"
    using shown_written_name [OF old assms(3)] by (simp add: shown_def)
  have slots: "shown ((entries ring)[?k := ?new] ! (j mod 32)) = (es @ [(ty, int now, shown_name n, det)]) ! j"
    if j: "j < length es + 1" "length es + 1 \<le> j + 32" for j
  proof (cases "j = length es")
    case True
    then show ?thesis using view h(4) by simp
  next
    case False
    then have "j < length es" using j by simp
    moreover have "j mod 32 \<noteq> ?k"
    proof
      assume "j mod 32 = ?k"
      then have "32 dvd length es - j" using \<open>j < length es\<close> by (metis less_imp_le mod_eq_dvd_iff_nat)
      then show False using j \<open>j < length es\<close> by (auto dest: dvd_imp_le)
    qed
    ultimately show ?thesis using h(6) [of j] j by (simp add: nth_append)
  qed
  have "ring_holds ?ring (es @ [(ty, int now, shown_name n, det)])"
    using h slots assms(2) length_written_name [OF old, of n] cnt
    by (auto simp: ring_holds_def CONFIG_AKIRA_AUDIT_LOG_SIZE_def min_def dest!: subsetD [OF set_update_subset_insert])
  then show ?thesis using log by blast
qed

lemma c_rem_nat: "c_rem (int (m + 32)) 32 = int (m mod 32)"
  by (simp add: c_rem_def zmod_int)

lemma recent_loop_reads:
  assumes "ring_holds ring es"
  shows "i + n = c \<Longrightarrow> c \<le> min (length es) 32 \<Longrightarrow>
    \<exists>out. recent_loop (entries ring) (int (length es)) (int c) (int i) n = Some out \<and>
      map shown out = take n (drop (length es - c + i) es)"
proof (induction n arbitrary: i)
  case (Suc n)
  let ?j = "length es - c + i"
  have j: "?j < length es" "length es \<le> ?j + 32" using Suc.prems by auto
  have "int (length es) - int c + int i + 32 = int (?j + 32)" using Suc.prems by auto
  then have src: "c_rem (int (length es) - int c + int i + int CONFIG_AKIRA_AUDIT_LOG_SIZE) (int CONFIG_AKIRA_AUDIT_LOG_SIZE)
      = int (?j mod 32)"
    using c_rem_nat [of ?j] by (simp only: CONFIG_AKIRA_AUDIT_LOG_SIZE_def of_nat_numeral)
  obtain out where out: "recent_loop (entries ring) (int (length es)) (int c) (int (Suc i)) n = Some out"
      "map shown out = take n (drop (length es - c + Suc i) es)"
    using Suc.IH [of "Suc i"] Suc.prems by auto
  have "length (entries ring) = 32" "shown (entries ring ! (?j mod 32)) = es ! ?j"
    using assms j by (simp_all add: ring_holds_def)
  moreover have "take (Suc n) (drop ?j es) = es ! ?j # take n (drop (Suc ?j) es)"
    using j(1) by (simp add: Cons_nth_drop_Suc [symmetric])
  ultimately show ?case using src out by (simp add: in_array_def Let_def add.commute)
qed simp

record audit_call =
  at_ms :: nat
  ty_arg :: audit_event_type
  name_arg :: "c_chars option"
  detail_arg :: u32

fun log_all :: "audit_call list \<Rightarrow> audit_ring \<Rightarrow> audit_ring option" where
  "log_all [] ring = Some ring"
| "log_all (e # es) ring =
     (case sandbox_audit_log (at_ms e) (ty_arg e) (name_arg e) (detail_arg e) ring of
        None \<Rightarrow> None
      | Some ring \<Rightarrow> log_all es ring)"

definition call_view :: "audit_call \<Rightarrow> audit_view" where
  "call_view e = (ty_arg e, int (at_ms e), shown_name (name_arg e), detail_arg e)"

lemma log_all_holds:
  "ring_holds ring hist \<Longrightarrow> length hist + length es < 2 ^ 31 \<Longrightarrow> \<forall>e \<in> set es. name_ok (name_arg e) \<Longrightarrow>
     \<exists>ring'. log_all es ring = Some ring' \<and> ring_holds ring' (hist @ map call_view es)"
proof (induction es arbitrary: ring hist)
  case (Cons e es)
  obtain ring1 where r: "sandbox_audit_log (at_ms e) (ty_arg e) (name_arg e) (detail_arg e) ring = Some ring1"
      "ring_holds ring1 (hist @ [call_view e])"
    using audit_log_holds [OF Cons.prems(1), of "name_arg e" "at_ms e" "ty_arg e" "detail_arg e"] Cons.prems(2,3)
    by (auto simp: call_view_def)
  then show ?case using Cons.IH [OF r(2)] Cons.prems(2,3) by simp
qed simp

text \<open>
  C34: The audit ring keeps the last events. After fewer than \<open>2 ^ 31\<close> events since initialisation no
  write or read has left the array, and a reader that asks for \<open>k\<close> entries gets the last \<open>k\<close> of
  them, at most 32 and no more than there are, oldest first, each with its type, time, detail and
  the first 31 characters of its name.
\<close>

theorem audit_ring_keeps_last_events:
  assumes "length es < 2 ^ 31" and "\<forall>e \<in> set es. name_ok (name_arg e)"
  shows "\<exists>ring out. log_all es sandbox_init = Some ring \<and> sandbox_audit_get_recent ring (int k) = Some out \<and>
    map shown out = drop (length es - min k 32) (map call_view es)"
proof -
  obtain ring where r: "log_all es sandbox_init = Some ring" "ring_holds ring (map call_view es)"
    using log_all_holds [OF sandbox_init_holds, of es] assms by auto
  define c where "c = min (min (length es) 32) k"
  have w: "sint (write_idx ring) = int (length es)" "sint (count ring) = int (min (length es) 32)"
    using r(2) assms(1) sint_small [of "min (length es) 32"] by (auto simp: ring_holds_def sint_small)
  have c: "c \<le> length es" "c \<le> 32" unfolding c_def by linarith+
  then obtain out where out: "recent_loop (entries ring) (int (length es)) (int c) 0 c = Some out"
      "map shown out = drop (length es - c) (map call_view es)"
    using recent_loop_reads [OF r(2), of 0 c c] by auto
  have cnt: "min (sint (count ring)) (int k) = int c" unfolding w c_def by linarith
  have "ring_initialized ring" using r(2) by (simp add: ring_holds_def)
  then have "sandbox_audit_get_recent ring (int k) = Some out"
    using out cnt w(1) c_def by (cases "k = 0") (simp_all add: sandbox_audit_get_recent_def Let_def)
  moreover have "map shown out = drop (length es - min k 32) (map call_view es)"
    using out(2) by (simp add: c_def min_def)
  ultimately show ?thesis using r(1) by blast
qed

section \<open>Rate limits over time\<close>

text \<open>
  A bucket that last refilled at \<open>base\<close> milliseconds of the full-width clock. The arithmetic of a
  refill wraps at 32 bits, which never adds more than the elapsed time is worth.
\<close>

definition bucket_at :: "rate_bucket \<Rightarrow> nat \<Rightarrow> bool" where
  "bucket_at b base \<longleftrightarrow> bucket_ok b \<and> last_refill_ms b = k_uptime_get_32 base"

lemma unat_of_nat_le: "unat (of_nat n :: 'a::len word) \<le> n"
  by (simp add: unat_of_nat)

lemma refill_tokens_le:
  assumes "base \<le> t"
  shows "refill_tokens b (k_uptime_get_32 t - k_uptime_get_32 base) \<le> int (unat (refill_per_sec b) * (t - base) div 1000)"
proof -
  have "k_uptime_get_32 t - k_uptime_get_32 base = of_nat (t - base)"
    using assms by (simp add: k_uptime_get_32_def of_nat_diff)
  moreover have "unat (of_nat (t - base) * ucast (refill_per_sec b) :: u32) \<le> (t - base) * unat (refill_per_sec b)"
  proof -
    have "unat (of_nat (t - base) * ucast (refill_per_sec b) :: u32)
        \<le> unat (of_nat (t - base) :: u32) * unat (ucast (refill_per_sec b) :: u32)"
      by (simp add: unat_word_ariths)
    also have "\<dots> \<le> (t - base) * unat (refill_per_sec b)"
      using unat_of_nat_le [of "t - base", where 'a = 32]
      by (intro mult_le_mono) (simp_all add: unsigned_ucast_eq)
    finally show ?thesis .
  qed
  then have "unat (of_nat (t - base) * ucast (refill_per_sec b) div 1000 :: u32)
      \<le> (t - base) * unat (refill_per_sec b) div 1000"
    unfolding unat_div by (simp add: div_le_mono)
  ultimately show ?thesis
    by (simp only: refill_tokens_def uint_nat of_nat_le_iff mult.commute [of "unat (refill_per_sec b)"])
qed

lemma uint_pos: "uint w \<noteq> 0 \<Longrightarrow> 0 < uint w"
  using uint_ge_0 [of w] by linarith

lemma consume_bound:
  assumes "rate_bucket_try_consume (k_uptime_get_32 t) b = (r, b')" and "bucket_at b base" and "base \<le> t"
  shows "\<exists>base'. base \<le> base' \<and> base' \<le> t \<and> bucket_at b' base' \<and> max_tokens b' = max_tokens b \<and>
    refill_per_sec b' = refill_per_sec b \<and>
    tokens b' + (if r then 1 else 0) \<le> tokens b + int (unat (refill_per_sec b) * (base' - base) div 1000)"
proof -
  let ?n = "refill_tokens b (k_uptime_get_32 t - k_uptime_get_32 base)"
  have n: "?n \<le> int (unat (refill_per_sec b) * (t - base) div 1000)" by (rule refill_tokens_le [OF assms(3)])
  have b: "0 \<le> tokens b" "tokens b \<le> uint (max_tokens b)" "last_refill_ms b = k_uptime_get_32 base"
    using assms(2) by (simp_all add: bucket_at_def bucket_ok_def)
  show ?thesis
  proof (cases "tokens b \<le> 0 \<and> \<not> k_uptime_get_32 t - k_uptime_get_32 base < 20")
    case True
    then have "bucket_at b' t \<and> max_tokens b' = max_tokens b \<and> refill_per_sec b' = refill_per_sec b \<and>
        tokens b' + (if r then 1 else 0) \<le> tokens b + max 0 ?n"
      using assms(1) b
      by (auto simp: rate_bucket_try_consume_def rate_bucket_refill_def refilled_def bucket_at_def bucket_ok_def Let_def
          min_def intro: uint_pos split: if_splits)
    then show ?thesis using n assms(3) by (intro exI [of _ t]) auto
  next
    case False
    then have "bucket_at b' base \<and> max_tokens b' = max_tokens b \<and> refill_per_sec b' = refill_per_sec b \<and>
        tokens b' + (if r then 1 else 0) = tokens b"
      using assms(1) b
      by (auto simp: rate_bucket_try_consume_def rate_bucket_refill_def bucket_at_def bucket_ok_def Let_def
          split: if_splits)
    then show ?thesis using assms(3) by (intro exI [of _ base]) auto
  qed
qed

section \<open>The syscall filter\<close>

record check_call =
  check_at :: nat
  check_cat :: u32
  check_name :: "c_chars option"

fun check_all :: "check_call list \<Rightarrow> sandbox_ctx \<Rightarrow> audit_ring \<Rightarrow> (bool list \<times> sandbox_ctx \<times> audit_ring) option" where
  "check_all [] ctx ring = Some ([], ctx, ring)"
| "check_all (c # cs) ctx ring =
     (case sandbox_check_syscall (check_at c) (check_cat c) (check_name c) ctx ring of
        None \<Rightarrow> None
      | Some (ok, ctx, ring) \<Rightarrow>
          (case check_all cs ctx ring of
             None \<Rightarrow> None
           | Some (oks, ctx, ring) \<Rightarrow> Some (ok # oks, ctx, ring)))"

text \<open>The calls on a bucket that were admitted.\<close>

definition admitted_on :: "nat \<Rightarrow> bool list \<Rightarrow> check_call list \<Rightarrow> nat" where
  "admitted_on i oks cs =
     length (filter (\<lambda>(ok, c). ok \<and> category_to_bucket (check_cat c) = Some i) (zip oks cs))"

definition refusals :: "bool list \<Rightarrow> nat" where
  "refusals oks = length (filter Not oks)"

text \<open>
  A context of an application between two calls: what it may call is fixed, and each bucket has
  spent no more than it had at the start and earned since \<open>t0\<close>.
\<close>

definition spent :: "rate_bucket \<Rightarrow> nat \<Rightarrow> nat \<Rightarrow> nat \<Rightarrow> nat \<Rightarrow> bool" where
  "spent b rate t0 t n \<longleftrightarrow>
     (\<exists>base. t0 \<le> base \<and> base \<le> t \<and> bucket_at b base \<and> unat (refill_per_sec b) = rate \<and>
        int n + tokens b \<le> int rate + int (rate * (base - t0) div 1000))"

definition bucket_rate :: "nat \<Rightarrow> nat" where
  "bucket_rate i = unat (bucket_rates ! i)"

definition ctx_within :: "u32 \<Rightarrow> nat \<Rightarrow> nat \<Rightarrow> (nat \<Rightarrow> nat) \<Rightarrow> sandbox_ctx \<Rightarrow> bool" where
  "ctx_within allowed t0 t used ctx \<longleftrightarrow>
     ctx_initialized ctx \<and> allowed_syscalls ctx = allowed \<and> length (rate_buckets ctx) = SANDBOX_NUM_RATE_BUCKETS \<and>
     (\<forall>i < SANDBOX_NUM_RATE_BUCKETS. spent (rate_buckets ctx ! i) (bucket_rate i) t0 t (used i))"

lemma spent_later: "spent b rate t0 t n \<Longrightarrow> t \<le> t' \<Longrightarrow> spent b rate t0 t' n"
  by (auto simp: spent_def intro: order_trans)

lemma div_add_le: "a div k + b div k \<le> (a + b) div k" for a b k :: nat
proof (cases "k = 0")
  case False
  have "a div k * k + b div k * k \<le> a + b" by (intro add_mono div_times_less_eq_dividend)
  then have "(a div k + b div k) * k div k \<le> (a + b) div k" by (intro div_le_mono) (simp add: add_mult_distrib)
  then show ?thesis using False by simp
qed simp

lemma spent_consume:
  assumes "spent b rate t0 t n" and "t \<le> t'" and "rate_bucket_try_consume (k_uptime_get_32 t') b = (r, b')"
  shows "spent b' rate t0 t' (n + (if r then 1 else 0))"
proof -
  obtain base where b: "t0 \<le> base" "base \<le> t" "bucket_at b base" "unat (refill_per_sec b) = rate"
      "int n + tokens b \<le> int rate + int (rate * (base - t0) div 1000)"
    using assms(1) by (auto simp: spent_def)
  have "base \<le> t'" using b(2) assms(2) by simp
  from consume_bound [OF assms(3) b(3) this]
  obtain base' where b': "base \<le> base'" "base' \<le> t'" "bucket_at b' base'" "refill_per_sec b' = refill_per_sec b"
      "tokens b' + (if r then 1 else 0) \<le> tokens b + int (unat (refill_per_sec b) * (base' - base) div 1000)"
    by blast
  have "rate * (base - t0) div 1000 + rate * (base' - base) div 1000
      \<le> (rate * (base - t0) + rate * (base' - base)) div 1000" by (rule div_add_le)
  also have "rate * (base - t0) + rate * (base' - base) = rate * (base' - t0)"
    using b(1) b'(1) by (simp flip: add_mult_distrib2)
  finally have "int (rate * (base - t0) div 1000) + int (rate * (base' - base) div 1000) \<le> int (rate * (base' - t0) div 1000)"
    by linarith
  then show ?thesis
    unfolding spent_def using b b' by (intro exI [of _ base']) auto
qed

lemma category_bucket_less: "category_to_bucket c = Some i \<Longrightarrow> i < SANDBOX_NUM_RATE_BUCKETS"
  by (auto simp: category_to_bucket_def SANDBOX_NUM_RATE_BUCKETS_def split: if_splits)

lemma ctx_within_later: "ctx_within allowed t0 t used ctx \<Longrightarrow> t \<le> t' \<Longrightarrow> ctx_within allowed t0 t' used ctx"
  by (auto simp: ctx_within_def intro: spent_later)

definition used_by :: "bool \<Rightarrow> u32 \<Rightarrow> nat \<Rightarrow> nat" where
  "used_by ok cat i = (if ok \<and> category_to_bucket cat = Some i then 1 else 0)"

text \<open>What a check does to the counters of a context.\<close>

definition check_counts :: "bool \<Rightarrow> sandbox_ctx \<Rightarrow> sandbox_ctx \<Rightarrow> bool" where
  "check_counts ok ctx ctx' \<longleftrightarrow>
     total_syscalls ctx' = total_syscalls ctx + 1 \<and>
     denied_syscalls ctx' + rate_limited_count ctx' =
       denied_syscalls ctx + rate_limited_count ctx + (if ok then 0 else 1)"

definition ring_grows :: "audit_view list \<Rightarrow> audit_ring \<Rightarrow> bool" where
  "ring_grows es ring \<longleftrightarrow> (\<exists>es'. ring_holds ring es' \<and> length es' \<le> length es + 1)"

lemma audit_log_grows:
  assumes "ring_holds ring es" and "length es + 1 < 2 ^ 31" and "name_ok n"
  shows "\<exists>ring'. sandbox_audit_log now ty (name_or_unknown n) det ring = Some ring' \<and> ring_grows es ring'"
proof -
  have "name_ok (name_or_unknown n)"
    using assms(3) by (auto simp: name_ok_def name_or_unknown_def text_chars_def is_c_chars_def split: option.splits)
  from audit_log_holds [OF assms(1,2) this, of now ty det]
  obtain ring' where "sandbox_audit_log now ty (name_or_unknown n) det ring = Some ring'"
      "ring_holds ring' (es @ [(ty, int now, shown_name (name_or_unknown n), det)])" by blast
  moreover from this(2) have "ring_grows es ring'" by (auto simp: ring_grows_def)
  ultimately show ?thesis by blast
qed

lemma check_syscall_spec:
  assumes "ctx_within allowed t0 t used ctx" and "t \<le> now" and "ring_holds ring es"
    and "length es + 1 < 2 ^ 31" and "name_ok n"
  shows "\<exists>ok ctx' ring'. sandbox_check_syscall now cat n ctx ring = Some (ok, ctx', ring') \<and>
    ctx_within allowed t0 now (\<lambda>i. used i + used_by ok cat i) ctx' \<and> ring_grows es ring' \<and>
    (ok \<longrightarrow> allowed AND cat \<noteq> 0) \<and> check_counts ok ctx ctx'"
proof -
  have c: "ctx_initialized ctx" "allowed_syscalls ctx = allowed" "length (rate_buckets ctx) = SANDBOX_NUM_RATE_BUCKETS"
    using assms(1) by (simp_all add: ctx_within_def)
  have within: "ctx_within allowed t0 now used ctx" using ctx_within_later [OF assms(1,2)] .
  have same: "ring_grows es ring" using assms(3) by (auto simp: ring_grows_def)
  obtain ring1 where r1: "sandbox_audit_log now AUDIT_EVENT_SYSCALL_DENIED (name_or_unknown n) cat ring = Some ring1"
      "ring_grows es ring1"
    using audit_log_grows [OF assms(3-5)] by blast
  obtain ring2 where r2: "sandbox_audit_log now AUDIT_EVENT_RATE_LIMITED (name_or_unknown n) cat ring = Some ring2"
      "ring_grows es ring2"
    using audit_log_grows [OF assms(3-5)] by blast
  let ?ctx = "ctx\<lparr>total_syscalls := total_syscalls ctx + 1\<rparr>"
  consider (denied) "allowed AND cat = 0" | (free) "allowed AND cat \<noteq> 0" "category_to_bucket cat = None"
    | (limited) i where "allowed AND cat \<noteq> 0" "category_to_bucket cat = Some i" by fastforce
  then show ?thesis
  proof cases
    case denied
    have "sandbox_check_syscall now cat n ctx ring
        = Some (False, ?ctx\<lparr>denied_syscalls := denied_syscalls ctx + 1\<rparr>, ring1)"
      using c r1(1) denied by (simp add: sandbox_check_syscall_def Let_def)
    moreover have "ctx_within allowed t0 now (\<lambda>i. used i + used_by False cat i)
        (?ctx\<lparr>denied_syscalls := denied_syscalls ctx + 1\<rparr>)"
      using within by (simp add: ctx_within_def used_by_def)
    ultimately show ?thesis using r1(2) by (auto simp: check_counts_def)
  next
    case free
    have "sandbox_check_syscall now cat n ctx ring = Some (True, ?ctx, ring)"
      using c free by (simp add: sandbox_check_syscall_def Let_def)
    moreover have "ctx_within allowed t0 now (\<lambda>i. used i + used_by True cat i) ?ctx"
      using within free by (simp add: ctx_within_def used_by_def)
    ultimately show ?thesis using same free by (auto simp: check_counts_def)
  next
    case (limited i)
    have i: "i < SANDBOX_NUM_RATE_BUCKETS" using category_bucket_less [OF limited(2)] .
    obtain r b where rb: "rate_bucket_try_consume (k_uptime_get_32 now) (rate_buckets ctx ! i) = (r, b)"
      by (cases "rate_bucket_try_consume (k_uptime_get_32 now) (rate_buckets ctx ! i)")
    have "spent (rate_buckets ctx ! i) (bucket_rate i) t0 now (used i)"
      using within i by (simp add: ctx_within_def)
    from spent_consume [OF this order_refl rb] have b: "spent b (bucket_rate i) t0 now (used i + (if r then 1 else 0))" .
    let ?b = "?ctx\<lparr>rate_buckets := (rate_buckets ctx)[i := b]\<rparr>"
    have w: "ctx_within allowed t0 now (\<lambda>k. used k + used_by r cat k) ?b"
      using within b c(3) i limited by (auto simp: ctx_within_def used_by_def nth_list_update)
    show ?thesis
    proof (cases r)
      case True
      then have "sandbox_check_syscall now cat n ctx ring = Some (True, ?b, ring)"
        using c limited rb by (simp add: sandbox_check_syscall_def Let_def)
      then show ?thesis using True w same limited by (auto simp: check_counts_def)
    next
      case False
      then have "sandbox_check_syscall now cat n ctx ring
          = Some (False, ?b\<lparr>rate_limited_count := rate_limited_count ctx + 1\<rparr>, ring2)"
        using c limited rb r2(1) by (simp add: sandbox_check_syscall_def Let_def)
      moreover have "ctx_within allowed t0 now (\<lambda>k. used k + used_by False cat k)
          (?b\<lparr>rate_limited_count := rate_limited_count ctx + 1\<rparr>)"
        using w False by (simp add: ctx_within_def)
      ultimately show ?thesis using r2(2) by (auto simp: check_counts_def)
    qed
  qed
qed

lemma check_all_spec:
  assumes "ctx_within allowed t0 t used ctx" and "ring_holds ring es" and "length es + length cs < 2 ^ 31"
    and "sorted (t # map check_at cs)" and "\<forall>c \<in> set cs. name_ok (check_name c)"
  shows "\<exists>oks ctx' ring'. check_all cs ctx ring = Some (oks, ctx', ring') \<and> length oks = length cs \<and>
    ctx_within allowed t0 (last (t # map check_at cs)) (\<lambda>i. used i + admitted_on i oks cs) ctx' \<and>
    (\<forall>(ok, c) \<in> set (zip oks cs). ok \<longrightarrow> allowed AND check_cat c \<noteq> 0) \<and>
    total_syscalls ctx' = total_syscalls ctx + of_nat (length cs) \<and>
    denied_syscalls ctx' + rate_limited_count ctx' =
      denied_syscalls ctx + rate_limited_count ctx + of_nat (refusals oks)"
  using assms
proof (induction cs arbitrary: t used ctx ring es)
  case Nil
  then show ?case by (simp add: admitted_on_def refusals_def)
next
  case (Cons c cs)
  have "t \<le> check_at c" "length es + 1 < 2 ^ 31" "name_ok (check_name c)" using Cons.prems(3-5) by simp_all
  from check_syscall_spec [OF Cons.prems(1) this(1) Cons.prems(2) this(2,3), of "check_cat c"]
  obtain ok ctx1 ring1 where one: "sandbox_check_syscall (check_at c) (check_cat c) (check_name c) ctx ring = Some (ok, ctx1, ring1)"
      "ctx_within allowed t0 (check_at c) (\<lambda>i. used i + used_by ok (check_cat c) i) ctx1" "ring_grows es ring1"
      "ok \<longrightarrow> allowed AND check_cat c \<noteq> 0" "check_counts ok ctx ctx1"
    by blast
  obtain es1 where es1: "ring_holds ring1 es1" "length es1 \<le> length es + 1" using one(3) by (auto simp: ring_grows_def)
  have "length es1 + length cs < 2 ^ 31" using es1(2) Cons.prems(3) by simp
  from Cons.IH [OF one(2) es1(1) this] Cons.prems(4,5)
  obtain oks ctx2 ring2 where rest: "check_all cs ctx1 ring1 = Some (oks, ctx2, ring2)" "length oks = length cs"
      "ctx_within allowed t0 (last (check_at c # map check_at cs))
        (\<lambda>i. used i + used_by ok (check_cat c) i + admitted_on i oks cs) ctx2"
      "\<forall>(ok, c) \<in> set (zip oks cs). ok \<longrightarrow> allowed AND check_cat c \<noteq> 0"
      "total_syscalls ctx2 = total_syscalls ctx1 + of_nat (length cs)"
      "denied_syscalls ctx2 + rate_limited_count ctx2 =
        denied_syscalls ctx1 + rate_limited_count ctx1 + of_nat (refusals oks)"
    by auto
  have "(\<lambda>i. used i + used_by ok (check_cat c) i + admitted_on i oks cs)
      = (\<lambda>i. used i + admitted_on i (ok # oks) (c # cs))"
    by (auto simp: admitted_on_def used_by_def)
  then show ?case
    using one(1,4,5) rest by (auto simp: check_counts_def refusals_def)
qed

lemma spent_start: "spent \<lparr>tokens = uint r, max_tokens = r, refill_per_sec = r, last_refill_ms = k_uptime_get_32 t0\<rparr> (unat r) t0 t0 0"
  by (auto simp: spent_def bucket_at_def bucket_ok_def intro!: exI [of _ t0])


section \<open>Examples\<close>

text \<open>The ring wraps: of 33 events the first one is gone.\<close>

definition demo_events :: "audit_call list" where
  "demo_events = map (\<lambda>i. \<lparr>at_ms = i, ty_arg = AUDIT_EVENT_APP_LOADED, name_arg = Some (text_chars ''game''), detail_arg = 0\<rparr>) [0..<33]"

lemma audit_ring_keeps_last_events_witness:
  "\<exists>ring out. log_all demo_events sandbox_init = Some ring \<and> sandbox_audit_get_recent ring 40 = Some out \<and>
    map shown out = drop 1 (map call_view demo_events)"
proof -
  have "is_c_chars (text_chars ''game'')" by code_simp
  then have "\<forall>e \<in> set demo_events. name_ok (name_arg e)" "length demo_events = 33"
    by (auto simp: demo_events_def name_ok_def)
  then show ?thesis using audit_ring_keeps_last_events [of demo_events 40] by simp
qed

text \<open>A user application with the radio capability calls the radio, storage and, later, the display.\<close>

definition demo_calls :: "check_call list" where
  "demo_calls =
     [\<lparr>check_at = 5, check_cat = SYSCALL_CAT_RF, check_name = None\<rparr>,
      \<lparr>check_at = 5, check_cat = SYSCALL_CAT_STORAGE, check_name = None\<rparr>,
      \<lparr>check_at = 4294967300, check_cat = SYSCALL_CAT_DISPLAY, check_name = None\<rparr>]"


end
