(* ===== verification/Runtime_Cache.thy ===== *)
theory Runtime_Cache
  imports Ccsds_Prelude
begin

text \<open>
  The cache of loaded WASM modules and the map from instances to slots
  (\<open>src/src/runtime/runtime_cache.c\<close>).

  The cache is a fixed array of entries. A module handle is a number, zero the null pointer;
  \<open>unload\<close> of the WASM runtime is recorded in the list of unloaded handles. The uptime is an
  argument. Every operation runs under the mutex of the cache or the spinlock of the map.
\<close>

section \<open>State of the module cache\<close>

definition CONFIG_AKIRA_MODULE_CACHE_SIZE :: nat where "CONFIG_AKIRA_MODULE_CACHE_SIZE = 4"

record cache_entry =
  ce_used :: bool
  ce_hash :: octets
  ce_module :: nat
  ref_count :: u32
  load_time_ms :: u32
  binary_size :: u32
  last_used_ms :: int

record cache_stats =
  st_hits :: u32
  st_misses :: u32
  st_evictions :: u32
  st_load_time_ms :: u32

record module_cache =
  slots :: "cache_entry list"
  stats :: cache_stats
  cache_ready :: bool
  unloaded :: "nat list"

definition empty_entry :: cache_entry where
  "empty_entry = \<lparr>ce_used = False, ce_hash = replicate 32 0, ce_module = 0, ref_count = 0, load_time_ms = 0,
     binary_size = 0, last_used_ms = 0\<rparr>"

definition module_cache_init :: "nat list \<Rightarrow> module_cache" where
  "module_cache_init gone =
     \<lparr>slots = replicate CONFIG_AKIRA_MODULE_CACHE_SIZE empty_entry,
      stats = \<lparr>st_hits = 0, st_misses = 0, st_evictions = 0, st_load_time_ms = 0\<rparr>, cache_ready = True,
      unloaded = gone\<rparr>"

section \<open>Operations of the module cache\<close>

text \<open>The first index from \<open>i\<close> on whose entry satisfies a condition.\<close>

fun first_slot :: "(cache_entry \<Rightarrow> bool) \<Rightarrow> cache_entry list \<Rightarrow> nat option" where
  "first_slot P [] = None"
| "first_slot P (e # es) = (if P e then Some 0 else map_option Suc (first_slot P es))"

definition cache_find :: "octets \<Rightarrow> cache_entry list \<Rightarrow> nat option" where
  "cache_find hash = first_slot (\<lambda>e. ce_used e \<and> take 32 (ce_hash e) = take 32 hash)"

definition INT64_MAX :: int where "INT64_MAX = 2 ^ 63 - 1"

text \<open>The second pass: the oldest entry that nobody refers to.\<close>

fun oldest_loop :: "cache_entry list \<Rightarrow> nat \<Rightarrow> int \<Rightarrow> nat option \<Rightarrow> nat option" where
  "oldest_loop [] i oldest lru = lru"
| "oldest_loop (e # es) i oldest lru =
     (if ref_count e = 0 \<and> last_used_ms e < oldest
      then oldest_loop es (i + 1) (last_used_ms e) (Some i)
      else oldest_loop es (i + 1) oldest lru)"

definition cache_find_lru :: "cache_entry list \<Rightarrow> nat option" where
  "cache_find_lru es =
     (case first_slot (\<lambda>e. \<not> ce_used e) es of
        Some i \<Rightarrow> Some i
      | None \<Rightarrow> oldest_loop es 0 INT64_MAX None)"

definition upd_slot :: "nat \<Rightarrow> (cache_entry \<Rightarrow> cache_entry) \<Rightarrow> module_cache \<Rightarrow> module_cache" where
  "upd_slot i f c = c\<lparr>slots := (slots c)[i := f (slots c ! i)]\<rparr>"

definition module_cache_lookup :: "nat \<Rightarrow> octets option \<Rightarrow> module_cache \<Rightarrow> nat \<times> module_cache" where
  "module_cache_lookup now hash c =
     (case hash of
        None \<Rightarrow> (0, c)
      | Some hash \<Rightarrow>
          if \<not> cache_ready c then (0, c)
          else
            case cache_find hash (slots c) of
              Some i \<Rightarrow>
                (ce_module (slots c ! i),
                 upd_slot i (\<lambda>e. e\<lparr>ref_count := ref_count e + 1, last_used_ms := int now\<rparr>)
                   (c\<lparr>stats := (stats c)\<lparr>st_hits := st_hits (stats c) + 1\<rparr>\<rparr>))
            | None \<Rightarrow> (0, c\<lparr>stats := (stats c)\<lparr>st_misses := st_misses (stats c) + 1\<rparr>\<rparr>))"

definition module_cache_store ::
  "nat \<Rightarrow> octets option \<Rightarrow> nat \<Rightarrow> u32 \<Rightarrow> u32 \<Rightarrow> module_cache \<Rightarrow> int \<times> module_cache" where
  "module_cache_store now hash module bsize ltime c =
     (case hash of
        None \<Rightarrow> (- EINVAL, c)
      | Some hash \<Rightarrow>
          if module = 0 \<or> \<not> cache_ready c then (- EINVAL, c)
          else
            case cache_find hash (slots c) of
              Some i \<Rightarrow> (0, upd_slot i (\<lambda>e. e\<lparr>ref_count := ref_count e + 1, last_used_ms := int now\<rparr>) c)
            | None \<Rightarrow>
                (case cache_find_lru (slots c) of
                   None \<Rightarrow> (0, c)
                 | Some i \<Rightarrow>
                     let old = slots c ! i in
                     if ce_used old \<and> ref_count old > 0 then (- EBUSY, c)
                     else
                       let c = (if ce_used old
                                then c\<lparr>unloaded := (if ce_module old \<noteq> 0 then unloaded c @ [ce_module old] else unloaded c),
                                       stats := (stats c)\<lparr>st_evictions := st_evictions (stats c) + 1\<rparr>\<rparr>
                                else c)
                       in (0, upd_slot i (\<lambda>e. \<lparr>ce_used = True, ce_hash = take 32 hash, ce_module = module, ref_count = 1,
                                load_time_ms = ltime, binary_size = bsize, last_used_ms = int now\<rparr>)
                              (c\<lparr>stats := (stats c)\<lparr>st_load_time_ms := st_load_time_ms (stats c) + ltime\<rparr>\<rparr>))))"

definition module_cache_release :: "octets option \<Rightarrow> module_cache \<Rightarrow> module_cache" where
  "module_cache_release hash c =
     (case hash of
        None \<Rightarrow> c
      | Some hash \<Rightarrow>
          if \<not> cache_ready c then c
          else
            case cache_find hash (slots c) of
              Some i \<Rightarrow>
                (if ref_count (slots c ! i) > 0 then upd_slot i (\<lambda>e. e\<lparr>ref_count := ref_count e - 1\<rparr>) c else c)
            | None \<Rightarrow> c)"

definition module_cache_invalidate :: "octets option \<Rightarrow> module_cache \<Rightarrow> module_cache" where
  "module_cache_invalidate hash c =
     (case hash of
        None \<Rightarrow> c
      | Some hash \<Rightarrow>
          if \<not> cache_ready c then c
          else
            case cache_find hash (slots c) of
              Some i \<Rightarrow>
                upd_slot i (\<lambda>e. e\<lparr>ce_module := 0, ce_used := False, ref_count := 0\<rparr>)
                  (c\<lparr>stats := (stats c)\<lparr>st_evictions := st_evictions (stats c) + 1\<rparr>\<rparr>)
            | None \<Rightarrow> c)"

definition module_cache_get_stats :: "module_cache \<Rightarrow> cache_stats" where
  "module_cache_get_stats c = stats c"

section \<open>The instance map\<close>

definition INSTANCE_MAP_SIZE :: nat where "INSTANCE_MAP_SIZE = 16"
definition INSTANCE_MAP_MASK :: nat where "INSTANCE_MAP_MASK = INSTANCE_MAP_SIZE - 1"

record instance_bucket =
  bk_inst :: u64
  bk_slot :: int

record instance_map =
  buckets :: "instance_bucket list"
  map_ready :: bool

definition no_instance :: instance_bucket where
  "no_instance = \<lparr>bk_inst = 0, bk_slot = - 1\<rparr>"

definition instance_map_init :: instance_map where
  "instance_map_init = \<lparr>buckets = replicate INSTANCE_MAP_SIZE no_instance, map_ready = True\<rparr>"

text \<open>A pointer of 64 bits; the low bits of the product are the same for a 32-bit one.\<close>

definition ptr_hash :: "u64 \<Rightarrow> nat" where
  "ptr_hash p = unat (drop_bit 4 p * 2654435761 AND of_nat INSTANCE_MAP_MASK)"

definition map_probe :: "u64 \<Rightarrow> nat \<Rightarrow> nat" where
  "map_probe inst i = (ptr_hash inst + i) mod INSTANCE_MAP_SIZE"

text \<open>The probe that stops at a bucket with one of the wanted instances, after \<open>k\<close> more buckets.\<close>

fun probe_loop :: "u64 set \<Rightarrow> u64 \<Rightarrow> instance_bucket list \<Rightarrow> nat \<Rightarrow> nat \<Rightarrow> nat option" where
  "probe_loop stop inst bs i 0 = None"
| "probe_loop stop inst bs i (Suc k) =
     (if bk_inst (bs ! map_probe inst i) \<in> stop then Some (map_probe inst i)
      else probe_loop stop inst bs (i + 1) k)"

definition instance_map_put :: "u64 \<Rightarrow> int \<Rightarrow> instance_map \<Rightarrow> int \<times> instance_map" where
  "instance_map_put inst sl m =
     (if inst = 0 \<or> \<not> map_ready m then (- EINVAL, m)
      else
        case probe_loop {0, inst} inst (buckets m) 0 INSTANCE_MAP_SIZE of
          Some p \<Rightarrow> (0, m\<lparr>buckets := (buckets m)[p := \<lparr>bk_inst = inst, bk_slot = sl\<rparr>]\<rparr>)
        | None \<Rightarrow> (- ENOMEM, m))"

definition instance_map_get :: "u64 \<Rightarrow> instance_map \<Rightarrow> int" where
  "instance_map_get inst m =
     (if inst = 0 \<or> \<not> map_ready m then - 1
      else
        case probe_loop {0, inst} inst (buckets m) 0 INSTANCE_MAP_SIZE of
          Some p \<Rightarrow> (if bk_inst (buckets m ! p) = inst then bk_slot (buckets m ! p) else - 1)
        | None \<Rightarrow> - 1)"

definition instance_map_remove :: "u64 \<Rightarrow> instance_map \<Rightarrow> instance_map" where
  "instance_map_remove inst m =
     (if inst = 0 \<or> \<not> map_ready m then m
      else
        case probe_loop {0, inst} inst (buckets m) 0 INSTANCE_MAP_SIZE of
          Some p \<Rightarrow> (if bk_inst (buckets m ! p) = inst then m\<lparr>buckets := (buckets m)[p := no_instance]\<rparr> else m)
        | None \<Rightarrow> m)"

section \<open>The cache: which entry a store replaces\<close>

definition cached :: "octets \<Rightarrow> cache_entry \<Rightarrow> bool" where
  "cached hash e \<longleftrightarrow> ce_used e \<and> take 32 (ce_hash e) = take 32 hash"

text \<open>An unused entry that is free to take, or an entry of whom nobody holds the module.\<close>

definition older_free :: "cache_entry list \<Rightarrow> nat \<Rightarrow> nat \<Rightarrow> bool" where
  "older_free es i k \<longleftrightarrow> ref_count (es ! k) = 0 \<and> last_used_ms (es ! k) < last_used_ms (es ! i)"

definition entry_ok :: "cache_entry \<Rightarrow> bool" where
  "entry_ok e \<longleftrightarrow>
     last_used_ms e < INT64_MAX \<and> (ce_used e \<longrightarrow> ce_module e \<noteq> 0) \<and> (\<not> ce_used e \<longrightarrow> ref_count e = 0)"

definition cache_ok :: "module_cache \<Rightarrow> bool" where
  "cache_ok c \<longleftrightarrow>
     cache_ready c \<and> length (slots c) = CONFIG_AKIRA_MODULE_CACHE_SIZE \<and>
     (\<forall>i < length (slots c). \<forall>k < length (slots c). \<forall>h. cached h (slots c ! i) \<and> cached h (slots c ! k) \<longrightarrow> i = k) \<and>
     (\<forall>e \<in> set (slots c). entry_ok e)"

lemma first_slot_Some:
  "first_slot P es = Some i \<Longrightarrow> i < length es \<and> P (es ! i) \<and> (\<forall>k < i. \<not> P (es ! k))"
proof (induction es arbitrary: i)
  case (Cons e es)
  then show ?case
    by (cases i) (auto simp: less_Suc_eq_0_disj split: if_splits)
qed simp

lemma first_slot_None: "first_slot P es = None \<longleftrightarrow> (\<forall>e \<in> set es. \<not> P e)"
  by (induction es) auto

lemma cache_find_iff:
  "cache_find h es = Some i \<Longrightarrow> i < length es \<and> cached h (es ! i)"
  "cache_find h es = None \<longleftrightarrow> (\<forall>e \<in> set es. \<not> cached h e)"
  by (auto simp: cache_find_def cached_def first_slot_None dest: first_slot_Some)

text \<open>The second pass returns the first of the oldest unreferenced entries.\<close>

lemma oldest_loop_spec:
  assumes "\<forall>j. lru = Some j \<longrightarrow> j < n \<and> ref_count (all ! j) = 0 \<and> last_used_ms (all ! j) = oldest"
    and "\<forall>k < n. ref_count (all ! k) = 0 \<longrightarrow> lru \<noteq> None \<and> oldest \<le> last_used_ms (all ! k)"
    and "all = pre @ es" and "length pre = n" and "\<forall>e \<in> set all. last_used_ms e < INT64_MAX"
    and "lru = None \<longrightarrow> oldest = INT64_MAX"
  shows "case oldest_loop es n oldest lru of
      None \<Rightarrow> \<forall>e \<in> set all. ref_count e \<noteq> 0
    | Some i \<Rightarrow> i < length all \<and> ref_count (all ! i) = 0 \<and> (\<forall>k < length all. \<not> older_free all i k)"
  using assms
proof (induction es arbitrary: n oldest lru pre)
  case Nil
  then show ?case
    by (cases lru) (auto simp: in_set_conv_nth older_free_def not_less)
next
  case (Cons e es)
  have e: "all ! n = e" using Cons.prems(3,4) by (auto simp: nth_append)
  have all': "all = (pre @ [e]) @ es" "length (pre @ [e]) = n + 1" using Cons.prems(3,4) by simp_all
  have big: "last_used_ms e < INT64_MAX" using Cons.prems(3,5) by simp
  show ?case
  proof (cases "ref_count e = 0 \<and> last_used_ms e < oldest")
    case True
    have "case oldest_loop es (n + 1) (last_used_ms e) (Some n) of
        None \<Rightarrow> \<forall>e \<in> set all. ref_count e \<noteq> 0
      | Some i \<Rightarrow> i < length all \<and> ref_count (all ! i) = 0 \<and> (\<forall>k < length all. \<not> older_free all i k)"
      by (rule Cons.IH [OF _ _ all' Cons.prems(5)]) (use True e Cons.prems(2) in \<open>auto simp: less_Suc_eq\<close>)
    then show ?thesis using True by simp
  next
    case False
    have new: "\<forall>k < n + 1. ref_count (all ! k) = 0 \<longrightarrow> lru \<noteq> None \<and> oldest \<le> last_used_ms (all ! k)"
      using False e big Cons.prems(2,6) by (cases lru) (auto simp: less_Suc_eq not_less)
    have "case oldest_loop es (n + 1) oldest lru of
        None \<Rightarrow> \<forall>e \<in> set all. ref_count e \<noteq> 0
      | Some i \<Rightarrow> i < length all \<and> ref_count (all ! i) = 0 \<and> (\<forall>k < length all. \<not> older_free all i k)"
      by (rule Cons.IH [OF _ new all' Cons.prems(5,6)]) (use Cons.prems(1) in auto)
    then show ?thesis using False by auto
  qed
qed

lemma cache_find_lru_spec:
  assumes "\<forall>e \<in> set es. last_used_ms e < INT64_MAX" and "\<forall>e \<in> set es. \<not> ce_used e \<longrightarrow> ref_count e = 0"
  shows "case cache_find_lru es of
      None \<Rightarrow> \<forall>e \<in> set es. ce_used e \<and> ref_count e \<noteq> 0
    | Some i \<Rightarrow> i < length es \<and> ref_count (es ! i) = 0 \<and>
        (ce_used (es ! i) \<longrightarrow> (\<forall>k < length es. ce_used (es ! k) \<and> \<not> older_free es i k))"
proof (cases "first_slot (\<lambda>e. \<not> ce_used e) es")
  case None
  have "case oldest_loop es 0 INT64_MAX None of
      None \<Rightarrow> \<forall>e \<in> set es. ref_count e \<noteq> 0
    | Some i \<Rightarrow> i < length es \<and> ref_count (es ! i) = 0 \<and> (\<forall>k < length es. \<not> older_free es i k)"
    by (rule oldest_loop_spec [where pre = "[]"]) (use assms in auto)
  moreover have "\<forall>e \<in> set es. ce_used e" using None by (simp add: first_slot_None)
  ultimately show ?thesis
    using None by (auto simp: cache_find_lru_def split: option.splits)
next
  case (Some i)
  then show ?thesis
    using first_slot_Some [OF Some] assms(2) by (auto simp: cache_find_lru_def)
qed

lemma cached_take: "cached (take 32 h) e = cached h e"
  by (simp add: cached_def)

lemma cache_ok_slot:
  assumes "cache_ok c" and "i < length (slots c)" and "entry_ok e" and "cache_ready c'" and "slots c' = (slots c)[i := e]"
    and fresh: "\<And>h k. cached h e \<Longrightarrow> k \<noteq> i \<Longrightarrow> k < length (slots c) \<Longrightarrow> \<not> cached h (slots c ! k)"
  shows "cache_ok c'"
proof -
  have "\<forall>x \<in> set (slots c'). entry_ok x"
    using assms(1,3,5) by (auto simp: cache_ok_def dest!: subsetD [OF set_update_subset_insert])
  moreover have "a = b" if "a < length (slots c)" "b < length (slots c)" "cached h (slots c' ! a)" "cached h (slots c' ! b)" for a b h
  proof -
    have one: "a = b" if "cached h (slots c ! a)" "cached h (slots c ! b)"
      using that \<open>a < length (slots c)\<close> \<open>b < length (slots c)\<close> assms(1) unfolding cache_ok_def by blast
    show ?thesis using that assms(2,5) fresh one by (cases "a = i"; cases "b = i") auto
  qed
  ultimately show ?thesis using assms(1,4,5) by (auto simp: cache_ok_def)
qed

lemma cache_ok_use:
  assumes "cache_ok c" and "cache_find h (slots c) = Some i" and "entry_ok e"
    and "ce_hash e = ce_hash (slots c ! i)" and "cache_ready c'" and "slots c' = (slots c)[i := e]"
  shows "cache_ok c'"
proof (rule cache_ok_slot [OF assms(1) _ assms(3,5,6)])
  have i: "i < length (slots c)" "cached h (slots c ! i)" using cache_find_iff(1) [OF assms(2)] by auto
  then show "i < length (slots c)" by simp
  fix g k assume "cached g e" "k \<noteq> i" "k < length (slots c)"
  then have "cached g (slots c ! i)" using i(2) assms(4) by (simp add: cached_def)
  then show "\<not> cached g (slots c ! k)"
    using assms(1) i(1) \<open>k \<noteq> i\<close> \<open>k < length (slots c)\<close> unfolding cache_ok_def by blast
qed

text \<open>The calls of the clients.\<close>

datatype cache_call =
    Lookup nat octets
  | Store nat octets nat u32 u32
  | Release octets
  | Invalidate octets

fun call_time :: "cache_call \<Rightarrow> nat" where
  "call_time (Lookup now h) = now"
| "call_time (Store now h m b l) = now"
| "call_time (Release h) = 0"
| "call_time (Invalidate h) = 0"

fun after_call :: "cache_call \<Rightarrow> module_cache \<Rightarrow> module_cache" where
  "after_call (Lookup now h) c = snd (module_cache_lookup now (Some h) c)"
| "after_call (Store now h m b l) c = snd (module_cache_store now (Some h) m b l c)"
| "after_call (Release h) c = module_cache_release (Some h) c"
| "after_call (Invalidate h) c = module_cache_invalidate (Some h) c"

lemma cache_init_ok: "cache_ok (module_cache_init gone)"
  by (auto simp: cache_ok_def module_cache_init_def cached_def empty_entry_def entry_ok_def INT64_MAX_def)

lemma slot_entry: "cache_ok c \<Longrightarrow> i < length (slots c) \<Longrightarrow> entry_ok (slots c ! i)"
  by (simp add: cache_ok_def)

lemma cache_store_ok:
  assumes "cache_ok c" and "int now < INT64_MAX"
  shows "cache_ok (snd (module_cache_store now (Some h) m b l c))"
proof (cases "m = 0")
  case False
  have r: "cache_ready c" using assms(1) by (simp add: cache_ok_def)
  show ?thesis
  proof (cases "cache_find h (slots c)")
    case (Some i)
    have i: "i < length (slots c)" "cached h (slots c ! i)" using cache_find_iff(1) [OF Some] by auto
    have "cache_ok (upd_slot i (\<lambda>e. e\<lparr>ref_count := ref_count e + 1, last_used_ms := int now\<rparr>) c)"
      by (rule cache_ok_use [OF assms(1) Some])
        (use slot_entry [OF assms(1) i(1)] i(2) assms(2) r in \<open>auto simp: upd_slot_def entry_ok_def cached_def\<close>)
    then show ?thesis using Some False r by (simp add: module_cache_store_def)
  next
    case None
    show ?thesis
    proof (cases "cache_find_lru (slots c)")
      case None': None
      then show ?thesis using None False r assms(1) by (simp add: module_cache_store_def)
    next
      case (Some i)
      have "\<forall>e \<in> set (slots c). last_used_ms e < INT64_MAX" "\<forall>e \<in> set (slots c). \<not> ce_used e \<longrightarrow> ref_count e = 0"
        using assms(1) by (auto simp: cache_ok_def entry_ok_def)
      from cache_find_lru_spec [OF this] Some
      have i: "i < length (slots c)" "ref_count (slots c ! i) = 0" by auto
      let ?e = "\<lparr>ce_used = True, ce_hash = take 32 h, ce_module = m, ref_count = 1, load_time_ms = l, binary_size = b,
        last_used_ms = int now\<rparr>"
      obtain c' where c': "snd (module_cache_store now (Some h) m b l c) = c'" "cache_ready c'" "slots c' = (slots c)[i := ?e]"
        using None Some False r i by (auto simp: module_cache_store_def upd_slot_def Let_def)
      have "cache_ok c'"
      proof (rule cache_ok_slot [OF assms(1) i(1) _ c'(2,3)])
        show "entry_ok ?e" using assms(2) False by (simp add: entry_ok_def)
        fix g k assume g: "cached g ?e" "k \<noteq> i" "k < length (slots c)"
        have "\<not> cached h (slots c ! k)" using None g(3) by (simp add: cache_find_iff)
        then show "\<not> cached g (slots c ! k)" using g(1) by (simp add: cached_def)
      qed
      then show ?thesis using c'(1) by simp
    qed
  qed
qed (use assms in \<open>simp add: module_cache_store_def\<close>)

lemma cache_call_ok:
  assumes "cache_ok c" and "int (call_time call) < INT64_MAX"
  shows "cache_ok (after_call call c)"
proof -
  have r: "cache_ready c" using assms(1) by (simp add: cache_ok_def)
  have same: "cache_ok (c\<lparr>stats := x\<rparr>)" for x using assms(1) by (simp add: cache_ok_def)
  show ?thesis
  proof (cases call)
    case (Lookup now h)
    show ?thesis
    proof (cases "cache_find h (slots c)")
      case (Some i)
      then have i: "i < length (slots c)" "cached h (slots c ! i)" using cache_find_iff(1) by auto
      have "cache_ok (upd_slot i (\<lambda>e. e\<lparr>ref_count := ref_count e + 1, last_used_ms := int now\<rparr>) (c\<lparr>stats := x\<rparr>))" for x
        by (rule cache_ok_use [OF assms(1) Some])
          (use slot_entry [OF assms(1) i(1)] i(2) assms(2) Lookup r in \<open>auto simp: upd_slot_def entry_ok_def cached_def\<close>)
      then show ?thesis using Some Lookup r by (simp add: module_cache_lookup_def)
    qed (use Lookup r same in \<open>simp add: module_cache_lookup_def\<close>)
  next
    case (Store now h m b l)
    then show ?thesis using cache_store_ok [OF assms(1)] assms(2) by simp
  next
    case (Release h)
    show ?thesis
    proof (cases "cache_find h (slots c)")
      case (Some i)
      then have i: "i < length (slots c)" "cached h (slots c ! i)" using cache_find_iff(1) by auto
      have "cache_ok (upd_slot i (\<lambda>e. e\<lparr>ref_count := ref_count e - 1\<rparr>) c)"
        by (rule cache_ok_use [OF assms(1) Some])
          (use slot_entry [OF assms(1) i(1)] i(2) r in \<open>auto simp: upd_slot_def entry_ok_def cached_def\<close>)
      then show ?thesis using Some Release r assms(1) by (simp add: module_cache_release_def)
    qed (use Release r assms(1) in \<open>simp add: module_cache_release_def\<close>)
  next
    case (Invalidate h)
    show ?thesis
    proof (cases "cache_find h (slots c)")
      case (Some i)
      then have i: "i < length (slots c)" using cache_find_iff(1) by auto
      have "cache_ok (upd_slot i (\<lambda>e. e\<lparr>ce_module := 0, ce_used := False, ref_count := 0\<rparr>) (c\<lparr>stats := x\<rparr>))" for x
        by (rule cache_ok_use [OF assms(1) Some])
          (use slot_entry [OF assms(1) i] r in \<open>auto simp: upd_slot_def entry_ok_def\<close>)
      then show ?thesis using Some Invalidate r by (simp add: module_cache_invalidate_def)
    qed (use Invalidate r assms(1) in \<open>simp add: module_cache_invalidate_def\<close>)
  qed
qed

lemma cache_calls_ok:
  "cache_ok c \<Longrightarrow> \<forall>x \<in> set calls. int (call_time x) < INT64_MAX \<Longrightarrow> cache_ok (fold after_call calls c)"
  by (induction calls arbitrary: c) (auto intro: cache_call_ok)


section \<open>The instance map: without removals a finite map\<close>

text \<open>Every stored instance is found by its probe.\<close>

definition find_bucket :: "u64 \<Rightarrow> instance_bucket list \<Rightarrow> nat option" where
  "find_bucket inst bs = probe_loop {0, inst} inst bs 0 INSTANCE_MAP_SIZE"

definition imap_ok :: "instance_map \<Rightarrow> bool" where
  "imap_ok m \<longleftrightarrow>
     map_ready m \<and> length (buckets m) = INSTANCE_MAP_SIZE \<and>
     (\<forall>q < INSTANCE_MAP_SIZE. bk_inst (buckets m ! q) \<noteq> 0 \<longrightarrow>
        find_bucket (bk_inst (buckets m ! q)) (buckets m) = Some q)"

lemma probe_Some:
  "probe_loop stop inst bs i k = Some p \<Longrightarrow>
     \<exists>j. i \<le> j \<and> j < i + k \<and> p = map_probe inst j \<and> bk_inst (bs ! p) \<in> stop \<and>
       (\<forall>j'. i \<le> j' \<and> j' < j \<longrightarrow> bk_inst (bs ! map_probe inst j') \<notin> stop)"
proof (induction k arbitrary: i)
  case (Suc k)
  show ?case
  proof (cases "bk_inst (bs ! map_probe inst i) \<in> stop")
    case False
    obtain j where "i + 1 \<le> j" "j < i + 1 + k" "p = map_probe inst j" "bk_inst (bs ! p) \<in> stop"
        "\<forall>j'. i + 1 \<le> j' \<and> j' < j \<longrightarrow> bk_inst (bs ! map_probe inst j') \<notin> stop"
      using Suc.IH [of "i + 1"] Suc.prems False by auto
    moreover have "bk_inst (bs ! map_probe inst j') \<notin> stop" if "i \<le> j'" "j' < j" for j'
      using that False calculation(5) by (cases "j' = i") auto
    ultimately show ?thesis by (intro exI [of _ j]) auto
  qed (use Suc.prems in auto)
qed simp

lemma probe_SomeI:
  "i \<le> j \<Longrightarrow> j < i + k \<Longrightarrow> bk_inst (bs ! map_probe inst j) \<in> stop \<Longrightarrow>
     \<forall>j'. i \<le> j' \<and> j' < j \<longrightarrow> bk_inst (bs ! map_probe inst j') \<notin> stop \<Longrightarrow>
     probe_loop stop inst bs i k = Some (map_probe inst j)"
proof (induction k arbitrary: i)
  case (Suc k)
  show ?case
  proof (cases "i = j")
    case False
    then show ?thesis using Suc.IH [of "i + 1"] Suc.prems by auto
  qed (use Suc.prems in simp)
qed simp

lemma probe_None: "probe_loop stop inst bs i k = None \<Longrightarrow> i \<le> j \<Longrightarrow> j < i + k \<Longrightarrow> bk_inst (bs ! map_probe inst j) \<notin> stop"
proof (induction k arbitrary: i)
  case (Suc k)
  then show ?case by (cases "i = j") (auto split: if_splits)
qed simp

lemma map_probe_less: "map_probe inst j < INSTANCE_MAP_SIZE"
  by (simp add: map_probe_def INSTANCE_MAP_SIZE_def)

lemma map_probe_onto: "q < INSTANCE_MAP_SIZE \<Longrightarrow> \<exists>j < INSTANCE_MAP_SIZE. map_probe inst j = q"
proof -
  assume q: "q < INSTANCE_MAP_SIZE"
  define h where "h = ptr_hash inst mod 16"
  let ?j = "(q + 16 - h) mod 16"
  have "(a + x) mod 16 = (a mod 16 + x) mod 16" for a x :: nat by (simp add: mod_simps)
  then have "(ptr_hash inst + ?j) mod 16 = (h + ?j) mod 16" unfolding h_def .
  also have "(h + ?j) mod 16 = (h + (q + 16 - h)) mod 16" by (simp add: mod_simps)
  also have "h + (q + 16 - h) = q + 16" using mod_less_divisor [of 16 "ptr_hash inst"] by (simp add: h_def)
  also have "(q + 16) mod 16 = q" using q by (simp add: INSTANCE_MAP_SIZE_def)
  finally show ?thesis by (intro exI [of _ ?j]) (simp add: map_probe_def INSTANCE_MAP_SIZE_def)
qed

text \<open>An update of a bucket that was free, or that held the same instance.\<close>

lemma imap_put:
  assumes ok: "imap_ok m" and x: "inst \<noteq> 0" and p: "find_bucket inst (buckets m) = Some p"
    and bs': "bs' = (buckets m)[p := \<lparr>bk_inst = inst, bk_slot = sl\<rparr>]"
  shows "imap_ok (m\<lparr>buckets := bs'\<rparr>)" and "find_bucket inst bs' = Some p"
    and "y \<noteq> 0 \<Longrightarrow> y \<noteq> inst \<Longrightarrow> q < INSTANCE_MAP_SIZE \<Longrightarrow> bk_inst (bs' ! q) = y \<longleftrightarrow> bk_inst (buckets m ! q) = y"
proof -
  have len: "length (buckets m) = INSTANCE_MAP_SIZE" using ok by (simp add: imap_ok_def)
  obtain j where j: "j < INSTANCE_MAP_SIZE" "p = map_probe inst j" "bk_inst (buckets m ! p) \<in> {0, inst}"
      "\<forall>j' < j. bk_inst (buckets m ! map_probe inst j') \<notin> {0, inst}"
    using probe_Some [OF p [unfolded find_bucket_def]] by auto
  have pl: "p < length (buckets m)" using map_probe_less len by (simp add: j(2))
  have at: "bs' ! p = \<lparr>bk_inst = inst, bk_slot = sl\<rparr>" "q \<noteq> p \<Longrightarrow> bs' ! q = buckets m ! q" for q
    using pl by (simp_all add: bs')
  show other: "bk_inst (bs' ! q) = y \<longleftrightarrow> bk_inst (buckets m ! q) = y"
    if "y \<noteq> 0" "y \<noteq> inst" "q < INSTANCE_MAP_SIZE" for q y
    using at j(3) that by (cases "q = p") auto
  have early: "map_probe inst j' \<noteq> p" if "j' < j" for j' using j(3,4) that by auto
  have "bk_inst (bs' ! map_probe inst j') \<notin> {0, inst}" if "j' < j" for j'
    using j(4) that at(2) [OF early [OF that]] by simp
  then show here: "find_bucket inst bs' = Some p"
    unfolding find_bucket_def j(2) using j(1) at(1) by (intro probe_SomeI) (auto simp: j(2))
  have "find_bucket (bk_inst (bs' ! q)) bs' = Some q" if q: "q < INSTANCE_MAP_SIZE" "bk_inst (bs' ! q) \<noteq> 0" for q
  proof (cases "q = p")
    case True
    then show ?thesis using at(1) here by simp
  next
    case False
    let ?y = "bk_inst (buckets m ! q)"
    have y: "bk_inst (bs' ! q) = ?y" "?y \<noteq> 0" using at(2) [OF False] q by simp_all
    have fq: "find_bucket ?y (buckets m) = Some q" using ok q(1) y(2) by (simp add: imap_ok_def)
    then obtain i where i: "i < INSTANCE_MAP_SIZE" "q = map_probe ?y i"
        "\<forall>j' < i. bk_inst (buckets m ! map_probe ?y j') \<notin> {0, ?y}"
      using probe_Some [of "{0, ?y}" ?y "buckets m" 0 INSTANCE_MAP_SIZE q] by (auto simp: find_bucket_def)
    have "?y \<noteq> inst" using p fq False by auto
    then have "bk_inst (bs' ! map_probe ?y j') \<notin> {0, ?y}" if "j' < i" for j'
      using i(3) that at x by (cases "map_probe ?y j' = p") auto
    then have "find_bucket ?y bs' = Some (map_probe ?y i)"
      unfolding find_bucket_def using i(1,2) y(1) by (intro probe_SomeI) auto
    then show ?thesis using i(2) y(1) by simp
  qed
  then show "imap_ok (m\<lparr>buckets := bs'\<rparr>)" using ok len by (simp add: imap_ok_def bs')
qed

text \<open>The map that the buckets stand for.\<close>

definition imap_abs :: "instance_map \<Rightarrow> u64 \<rightharpoonup> int" where
  "imap_abs m y =
     (if y = 0 then None
      else map_option (\<lambda>q. bk_slot (buckets m ! q)) (List.find (\<lambda>q. bk_inst (buckets m ! q) = y) [0..<INSTANCE_MAP_SIZE]))"

lemma imap_abs_iff:
  assumes "imap_ok m" and "y \<noteq> 0"
  shows "imap_abs m y = Some v \<longleftrightarrow> (\<exists>q < INSTANCE_MAP_SIZE. bk_inst (buckets m ! q) = y \<and> bk_slot (buckets m ! q) = v)"
proof -
  have one: "q = q'" if "q < INSTANCE_MAP_SIZE" "q' < INSTANCE_MAP_SIZE" "bk_inst (buckets m ! q) = y" "bk_inst (buckets m ! q') = y" for q q'
    using that assms unfolding imap_ok_def by (metis option.inject)
  show ?thesis
  proof (cases "List.find (\<lambda>q. bk_inst (buckets m ! q) = y) [0..<INSTANCE_MAP_SIZE]")
    case None
    then have "\<forall>q < INSTANCE_MAP_SIZE. bk_inst (buckets m ! q) \<noteq> y" by (auto simp: find_None_iff)
    then show ?thesis using None assms(2) by (auto simp: imap_abs_def)
  next
    case (Some q)
    then have "q < INSTANCE_MAP_SIZE" "bk_inst (buckets m ! q) = y" by (auto simp: find_Some_iff)
    then show ?thesis using Some assms(2) one by (auto simp: imap_abs_def)
  qed
qed

lemma imap_init_ok: "imap_ok instance_map_init"
  by (simp add: imap_ok_def instance_map_init_def no_instance_def)

lemma find_bucket_full:
  assumes "find_bucket inst (buckets m) = None"
  shows "\<forall>q < INSTANCE_MAP_SIZE. bk_inst (buckets m ! q) \<notin> {0, inst}"
proof (intro allI impI)
  fix q assume "q < INSTANCE_MAP_SIZE"
  then obtain j where "j < INSTANCE_MAP_SIZE" "map_probe inst j = q" using map_probe_onto by blast
  then show "bk_inst (buckets m ! q) \<notin> {0, inst}"
    using probe_None [OF assms [unfolded find_bucket_def], of j] by simp
qed

lemma imap_get:
  assumes "imap_ok m" and "inst \<noteq> 0"
  shows "instance_map_get inst m = (case imap_abs m inst of None \<Rightarrow> - 1 | Some v \<Rightarrow> v)"
proof (cases "find_bucket inst (buckets m)")
  case None
  then have "imap_abs m inst = None"
    using imap_abs_iff [OF assms] find_bucket_full [OF None] by (cases "imap_abs m inst") auto
  then show ?thesis using None assms by (simp add: instance_map_get_def imap_ok_def find_bucket_def)
next
  case (Some p)
  obtain j where j: "j < INSTANCE_MAP_SIZE" "p = map_probe inst j" "bk_inst (buckets m ! p) \<in> {0, inst}"
    using probe_Some [OF Some [unfolded find_bucket_def]] by auto
  have pl: "p < INSTANCE_MAP_SIZE" by (simp add: j(2) map_probe_less)
  have get: "instance_map_get inst m = (if bk_inst (buckets m ! p) = inst then bk_slot (buckets m ! p) else - 1)"
    using Some assms by (simp add: instance_map_get_def imap_ok_def find_bucket_def)
  show ?thesis
  proof (cases "bk_inst (buckets m ! p) = inst")
    case True
    then have "imap_abs m inst = Some (bk_slot (buckets m ! p))" using imap_abs_iff [OF assms] pl by blast
    then show ?thesis using get True by simp
  next
    case False
    have "imap_abs m inst = None"
    proof (cases "imap_abs m inst")
      case (Some v)
      then obtain q where "q < INSTANCE_MAP_SIZE" "bk_inst (buckets m ! q) = inst" using imap_abs_iff [OF assms] by blast
      then have "find_bucket inst (buckets m) = Some q" using assms by (auto simp: imap_ok_def)
      then show ?thesis using \<open>find_bucket inst (buckets m) = Some p\<close> False \<open>bk_inst (buckets m ! q) = inst\<close> by simp
    qed simp
    then show ?thesis using get False by simp
  qed
qed

lemma imap_put_spec:
  assumes "imap_ok m" and "inst \<noteq> 0"
  shows "case instance_map_put inst sl m of
      (r, m') \<Rightarrow> imap_ok m' \<and>
        (r = 0 \<and> imap_abs m' = (imap_abs m)(inst \<mapsto> sl) \<or>
         r = - ENOMEM \<and> m' = m \<and> imap_abs m inst = None \<and> (\<forall>q < INSTANCE_MAP_SIZE. bk_inst (buckets m ! q) \<noteq> 0))"
proof (cases "find_bucket inst (buckets m)")
  case None
  have "imap_abs m inst = None"
    using imap_abs_iff [OF assms] find_bucket_full [OF None] by (cases "imap_abs m inst") auto
  then show ?thesis
    using None assms find_bucket_full [OF None] by (simp add: instance_map_put_def imap_ok_def find_bucket_def)
next
  case (Some p)
  let ?bs = "(buckets m)[p := \<lparr>bk_inst = inst, bk_slot = sl\<rparr>]"
  let ?m = "m\<lparr>buckets := ?bs\<rparr>"
  note new = imap_put [OF assms Some refl [of ?bs]]
  have pl: "p < INSTANCE_MAP_SIZE"
    using probe_Some [OF Some [unfolded find_bucket_def]] map_probe_less by auto
  have len: "length (buckets m) = INSTANCE_MAP_SIZE" using assms(1) by (simp add: imap_ok_def)
  have "imap_abs ?m y = ((imap_abs m)(inst \<mapsto> sl)) y" for y
  proof (cases "y = 0 \<or> y = inst")
    case True
    then show ?thesis
      using imap_abs_iff [OF new(1) assms(2), of sl] pl len assms(2) by (auto simp: imap_abs_def [of _ 0])
  next
    case False
    have "imap_abs ?m y = Some v \<longleftrightarrow> imap_abs m y = Some v" for v
    proof -
      have "bk_slot (?bs ! q) = bk_slot (buckets m ! q)" if "bk_inst (buckets m ! q) = y" "bk_inst (?bs ! q) = y" for q
        using that False by (cases "q = p") (auto simp: nth_list_update len pl)
      then show ?thesis
        using imap_abs_iff [OF new(1), of y v] imap_abs_iff [OF assms(1), of y v] new(3) [of y] False by auto
    qed
    then have "imap_abs ?m y = imap_abs m y" by (cases "imap_abs m y"; cases "imap_abs ?m y") auto
    then show ?thesis using False by simp
  qed
  then have "imap_abs ?m = (imap_abs m)(inst \<mapsto> sl)" by blast
  then show ?thesis
    using Some assms new(1) by (simp add: instance_map_put_def imap_ok_def find_bucket_def)
qed

text \<open>Registering a list of instances.\<close>

fun put_all :: "(u64 \<times> int) list \<Rightarrow> instance_map \<Rightarrow> instance_map" where
  "put_all [] m = m"
| "put_all ((inst, sl) # ps) m = put_all ps (snd (instance_map_put inst sl m))"

lemma put_all_ok: "imap_ok m \<Longrightarrow> \<forall>(i, s) \<in> set ps. i \<noteq> 0 \<Longrightarrow> imap_ok (put_all ps m)"
proof (induction ps m rule: put_all.induct)
  case (2 inst sl ps m)
  then show ?case using imap_put_spec [of m inst sl] by auto
qed simp

text \<open>
  Until an instance is removed the instance map is a finite map. After any registrations from
  initialisation, a registration either updates the map at its instance or is refused for lack of
  space with nothing changed, which happens only when all buckets are taken and the instance is new;
  and a lookup returns the slot registered last for the instance, or \<open>-1\<close> for one never registered.
\<close>

theorem instance_map_refines_finite_map:
  assumes "\<forall>(i, s) \<in> set ps. i \<noteq> 0" and "m = put_all ps instance_map_init" and "inst \<noteq> 0"
  shows "instance_map_get inst m = (case imap_abs m inst of None \<Rightarrow> - 1 | Some v \<Rightarrow> v) \<and>
    (case instance_map_put inst sl m of
       (r, m') \<Rightarrow>
         r = 0 \<and> imap_abs m' = (imap_abs m)(inst \<mapsto> sl) \<or>
         r = - ENOMEM \<and> m' = m \<and> imap_abs m inst = None \<and> (\<forall>q < INSTANCE_MAP_SIZE. bk_inst (buckets m ! q) \<noteq> 0)) \<and>
    imap_abs instance_map_init inst = None"
proof -
  have ok: "imap_ok m" unfolding assms(2) by (rule put_all_ok [OF imap_init_ok assms(1)])
  have "imap_abs instance_map_init inst = None"
    using imap_abs_iff [OF imap_init_ok assms(3)] assms(3)
    by (cases "imap_abs instance_map_init inst") (auto simp: instance_map_init_def no_instance_def)
  then show ?thesis
    using imap_get [OF ok assms(3)] imap_put_spec [OF ok assms(3), of sl] by auto
qed

section \<open>Examples\<close>

text \<open>
  A removal empties its bucket without a mark, so an instance that was placed behind it is no longer
  found, and registering it again leaves the old entry behind.
\<close>

lemma removal_hides_instance:
  "instance_map_get 0x110 (put_all [(0x10, 1), (0x110, 2)] instance_map_init) = 2"
  "instance_map_get 0x110 (instance_map_remove 0x10 (put_all [(0x10, 1), (0x110, 2)] instance_map_init)) = - 1"
  by code_simp+

lemma instance_map_refines_finite_map_witness:
  "instance_map_get 0x110 (put_all [(0x10, 1), (0x110, 2)] instance_map_init) = 2 \<and>
   instance_map_get 0x210 (put_all [(0x10, 1), (0x110, 2)] instance_map_init) = - 1"
proof -
  have v: "imap_abs (put_all [(0x10, 1), (0x110, 2)] instance_map_init) 0x110 = Some 2"
      "imap_abs (put_all [(0x10, 1), (0x110, 2)] instance_map_init) 0x210 = None" by code_simp+
  define m where "m = put_all [(0x10, 1), (0x110, 2)] instance_map_init"
  have "\<forall>(i, s) \<in> set [(0x10 :: u64, 1 :: int), (0x110, 2)]. i \<noteq> 0" by simp
  note get = instance_map_refines_finite_map [OF this m_def]
  have "instance_map_get 0x110 m = 2" "instance_map_get 0x210 m = - 1"
    using get [where inst = "0x110", THEN conjunct1] get [where inst = "0x210", THEN conjunct1] v
    unfolding m_def [symmetric] by simp_all
  then show ?thesis unfolding m_def by simp
qed

definition demo_hash :: "u8 \<Rightarrow> octets" where
  "demo_hash b = replicate 32 b"

text \<open>Four modules, two of them released: the older of the two makes room for a fifth.\<close>

definition demo_cache_calls :: "cache_call list" where
  "demo_cache_calls =
     [Store 1 (demo_hash 1) 11 0 0, Store 2 (demo_hash 2) 12 0 0, Store 3 (demo_hash 3) 13 0 0,
      Store 4 (demo_hash 4) 14 0 0, Release (demo_hash 3), Release (demo_hash 2)]"


end
