(* ===== verification/Runtime_Ipc.thy ===== *)
theory Runtime_Ipc
  imports Runtime_Security
begin

text \<open>
  Messages between applications (\<open>src/src/runtime/akira_ipc.c\<close>): named topics, each with a few
  subscribers, each with a bounded queue.

  Topics and subscribers are fixed arrays whose slots are in use or free; a queue is the list of its
  messages. The limits are the defaults of \<open>akira_ipc.h\<close>. Whether the queue buffer of a new
  subscriber can be allocated is an argument. Every operation runs under one mutex, apart from the second
  half of a reception: it takes a message from the queue the first half has found.
\<close>

definition CONFIG_AKIRA_IPC_MAX_TOPICS :: nat where "CONFIG_AKIRA_IPC_MAX_TOPICS = 8"
definition CONFIG_AKIRA_IPC_MAX_SUBS_PER_TOPIC :: nat where "CONFIG_AKIRA_IPC_MAX_SUBS_PER_TOPIC = 4"
definition CONFIG_AKIRA_IPC_MSG_MAX_SIZE :: nat where "CONFIG_AKIRA_IPC_MSG_MAX_SIZE = 256"
definition CONFIG_AKIRA_IPC_QUEUE_DEPTH :: nat where "CONFIG_AKIRA_IPC_QUEUE_DEPTH = 4"
definition AKIRA_IPC_TOPIC_NAME_MAX :: nat where "AKIRA_IPC_TOPIC_NAME_MAX = 32"
definition AKIRA_IPC_APP_NAME_MAX :: nat where "AKIRA_IPC_APP_NAME_MAX = 32"

lemmas ipc_limits = CONFIG_AKIRA_IPC_MAX_TOPICS_def CONFIG_AKIRA_IPC_MAX_SUBS_PER_TOPIC_def
  AKIRA_IPC_TOPIC_NAME_MAX_def AKIRA_IPC_APP_NAME_MAX_def

section \<open>State\<close>

record ipc_sub =
  app_name :: octets
  msgq :: "octets list"
  msg_buf :: bool
  sub_used :: bool

record ipc_topic =
  topic_name :: octets
  subs :: "ipc_sub list"
  topic_used :: bool

type_synonym ipc_topics = "ipc_topic list"

definition ipc_init :: ipc_topics where
  "ipc_init = replicate CONFIG_AKIRA_IPC_MAX_TOPICS
     \<lparr>topic_name = replicate AKIRA_IPC_TOPIC_NAME_MAX 0,
      subs = replicate CONFIG_AKIRA_IPC_MAX_SUBS_PER_TOPIC
        \<lparr>app_name = replicate AKIRA_IPC_APP_NAME_MAX 0, msgq = [], msg_buf = False, sub_used = False\<rparr>,
      topic_used = False\<rparr>"

section \<open>Helpers\<close>

definition strncmp_eq :: "octets \<Rightarrow> c_chars \<Rightarrow> nat \<Rightarrow> bool" where
  "strncmp_eq a name n \<longleftrightarrow> take n (c_string_at a) = take n name"

definition find_topic :: "ipc_topics \<Rightarrow> c_chars \<Rightarrow> nat option" where
  "find_topic ts name =
     first_index (\<lambda>t. topic_used t \<and> strncmp_eq (topic_name t) name AKIRA_IPC_TOPIC_NAME_MAX) ts"

definition get_or_create_topic :: "ipc_topics \<Rightarrow> c_chars \<Rightarrow> nat option \<times> ipc_topics" where
  "get_or_create_topic ts name =
     (case find_topic ts name of
        Some i \<Rightarrow> (Some i, ts)
      | None \<Rightarrow>
          (case first_index (\<lambda>t. \<not> topic_used t) ts of
             None \<Rightarrow> (None, ts)
           | Some i \<Rightarrow>
               (Some i, ts[i := (ts ! i)\<lparr>topic_name := copied_name (topic_name (ts ! i)) name AKIRA_IPC_TOPIC_NAME_MAX,
                          topic_used := True\<rparr>])))"

definition find_sub :: "ipc_topic \<Rightarrow> c_chars \<Rightarrow> nat option" where
  "find_sub topic name =
     first_index (\<lambda>s. sub_used s \<and> strncmp_eq (app_name s) name AKIRA_IPC_APP_NAME_MAX) (subs topic)"

definition create_sub :: "bool \<Rightarrow> ipc_topic \<Rightarrow> c_chars \<Rightarrow> nat option \<times> ipc_topic" where
  "create_sub mem topic name =
     (case first_index (\<lambda>s. \<not> sub_used s) (subs topic) of
        None \<Rightarrow> (None, topic)
      | Some j \<Rightarrow>
          let s = (subs topic ! j)\<lparr>msg_buf := mem\<rparr> in
          if \<not> mem then (None, topic\<lparr>subs := (subs topic)[j := s]\<rparr>)
          else
            (Some j, topic\<lparr>subs := (subs topic)[j :=
               s\<lparr>msgq := [], app_name := copied_name (app_name s) name AKIRA_IPC_APP_NAME_MAX, sub_used := True\<rparr>]\<rparr>))"

definition destroy_sub :: "ipc_sub \<Rightarrow> ipc_sub" where
  "destroy_sub s = s\<lparr>msgq := [], msg_buf := False, sub_used := False, app_name := (app_name s)[0 := 0]\<rparr>"

definition free_topic :: "ipc_topic \<Rightarrow> ipc_topic" where
  "free_topic t = t\<lparr>topic_used := False, topic_name := (topic_name t)[0 := 0]\<rparr>"

definition free_if_empty :: "ipc_topic \<Rightarrow> ipc_topic" where
  "free_if_empty t = (if \<exists>s \<in> set (subs t). sub_used s then t else free_topic t)"

section \<open>Operations\<close>

text \<open>Null pointers are \<open>None\<close>.\<close>

definition no_name :: "c_chars option \<Rightarrow> bool" where
  "no_name name \<longleftrightarrow> name = None \<or> name = Some []"

definition akira_ipc_subscribe :: "bool \<Rightarrow> c_chars option \<Rightarrow> c_chars option \<Rightarrow> ipc_topics \<Rightarrow> int \<times> ipc_topics" where
  "akira_ipc_subscribe mem topic app ts =
     (if no_name topic \<or> no_name app then (- EINVAL, ts)
      else
        case get_or_create_topic ts (the topic) of
          (None, ts) \<Rightarrow> (- ENOMEM, ts)
        | (Some i, ts) \<Rightarrow>
            if find_sub (ts ! i) (the app) \<noteq> None then (0, ts)
            else
              case create_sub mem (ts ! i) (the app) of
                (r, t) \<Rightarrow> (if r = None then - ENOMEM else 0, ts[i := t]))"

definition akira_ipc_unsubscribe :: "c_chars option \<Rightarrow> c_chars option \<Rightarrow> ipc_topics \<Rightarrow> int \<times> ipc_topics" where
  "akira_ipc_unsubscribe topic app ts =
     (case (topic, app) of
        (Some topic, Some app) \<Rightarrow>
          (case find_topic ts topic of
             None \<Rightarrow> (- ENOENT, ts)
           | Some i \<Rightarrow>
               (case find_sub (ts ! i) app of
                  None \<Rightarrow> (- ENOENT, ts)
                | Some j \<Rightarrow>
                    let t = ts ! i in
                    (0, ts[i := free_if_empty (t\<lparr>subs := (subs t)[j := destroy_sub (subs t ! j)]\<rparr>)])))
      | _ \<Rightarrow> (- EINVAL, ts))"

text \<open>A message that does not fit a queue is dropped for its subscriber.\<close>

definition msgq_put :: "octets \<Rightarrow> ipc_sub \<Rightarrow> ipc_sub" where
  "msgq_put data s =
     (if sub_used s \<and> length (msgq s) < CONFIG_AKIRA_IPC_QUEUE_DEPTH then s\<lparr>msgq := msgq s @ [data]\<rparr> else s)"

definition akira_ipc_publish :: "c_chars option \<Rightarrow> octets option \<Rightarrow> ipc_topics \<Rightarrow> int \<times> ipc_topics" where
  "akira_ipc_publish topic data ts =
     (case (topic, data) of
        (Some topic, Some data) \<Rightarrow>
          if length data = 0 \<or> length data > CONFIG_AKIRA_IPC_MSG_MAX_SIZE then (- EMSGSIZE, ts)
          else
            (case find_topic ts topic of
               None \<Rightarrow> (0, ts)
             | Some i \<Rightarrow>
                 let t = ts ! i in
                 (int (length (filter (\<lambda>s. sub_used s \<and> length (msgq s) < CONFIG_AKIRA_IPC_QUEUE_DEPTH) (subs t))),
                  ts[i := t\<lparr>subs := map (msgq_put data) (subs t)\<rparr>]))
      | _ \<Rightarrow> (- EINVAL, ts))"

text \<open>
  The first half of a reception finds the queue. The second takes its first message, once there is
  one or the time is over, and copies what the buffer of \<open>len\<close> octets can hold.
\<close>

definition ipc_recv_find :: "c_chars \<Rightarrow> c_chars \<Rightarrow> ipc_topics \<Rightarrow> (nat \<times> nat) result" where
  "ipc_recv_find topic app ts =
     (case find_topic ts topic of
        None \<Rightarrow> Inl (- ENOENT)
      | Some i \<Rightarrow> (case find_sub (ts ! i) app of None \<Rightarrow> Inl (- ENOENT) | Some j \<Rightarrow> Inr (i, j)))"

definition ipc_recv_take :: "nat \<times> nat \<Rightarrow> nat \<Rightarrow> ipc_topics \<Rightarrow> octets result \<times> ipc_topics" where
  "ipc_recv_take q len ts =
     (case q of
        (i, j) \<Rightarrow>
          (case msgq (subs (ts ! i) ! j) of
             [] \<Rightarrow> (Inl (- EAGAIN), ts)
           | m # ms \<Rightarrow>
               (Inr (take len m),
                ts[i := (ts ! i)\<lparr>subs := (subs (ts ! i))[j := (subs (ts ! i) ! j)\<lparr>msgq := ms\<rparr>]\<rparr>])))"

definition akira_ipc_recv ::
  "c_chars option \<Rightarrow> c_chars option \<Rightarrow> nat option \<Rightarrow> ipc_topics \<Rightarrow> octets result \<times> ipc_topics" where
  "akira_ipc_recv topic app len ts =
     (case (topic, app, len) of
        (Some topic, Some app, Some len) \<Rightarrow>
          if len = 0 then (Inl (- EINVAL), ts)
          else (case ipc_recv_find topic app ts of Inl e \<Rightarrow> (Inl e, ts) | Inr q \<Rightarrow> ipc_recv_take q len ts)
      | _ \<Rightarrow> (Inl (- EINVAL), ts))"

definition akira_ipc_pending :: "c_chars option \<Rightarrow> c_chars option \<Rightarrow> ipc_topics \<Rightarrow> int" where
  "akira_ipc_pending topic app ts =
     (case (topic, app) of
        (Some topic, Some app) \<Rightarrow>
          (case find_topic ts topic of
             None \<Rightarrow> - ENOENT
           | Some i \<Rightarrow>
               (case find_sub (ts ! i) app of None \<Rightarrow> - ENOENT | Some j \<Rightarrow> int (length (msgq (subs (ts ! i) ! j)))))
      | _ \<Rightarrow> - EINVAL)"

definition cleanup_topic :: "c_chars \<Rightarrow> ipc_topic \<Rightarrow> ipc_topic" where
  "cleanup_topic app t =
     (if \<not> topic_used t then t
      else free_if_empty
        (t\<lparr>subs := map (\<lambda>s. if sub_used s \<and> strncmp_eq (app_name s) app AKIRA_IPC_APP_NAME_MAX then destroy_sub s else s)
           (subs t)\<rparr>))"

definition akira_ipc_cleanup_app :: "c_chars option \<Rightarrow> ipc_topics \<Rightarrow> ipc_topics" where
  "akira_ipc_cleanup_app app ts = (if no_name app then ts else map (cleanup_topic (the app)) ts)"

section \<open>Tables of named slots\<close>

text \<open>
  Topics and the subscribers of a topic are both arrays of slots with a flag and a name. The laws a
  slot type provides: a slot made for a name is in use under it, a freed slot is not in use.
\<close>

definition short_name :: "c_chars \<Rightarrow> bool" where
  "short_name n \<longleftrightarrow> n \<noteq> [] \<and> length n < 32 \<and> is_c_chars n"

definition slot_named :: "('a \<Rightarrow> bool) \<Rightarrow> ('a \<Rightarrow> octets) \<Rightarrow> c_chars \<Rightarrow> 'a \<Rightarrow> bool" where
  "slot_named used nm n x \<longleftrightarrow> used x \<and> strncmp_eq (nm x) n 32"

definition table_ok :: "('a \<Rightarrow> bool) \<Rightarrow> ('a \<Rightarrow> octets) \<Rightarrow> 'a list \<Rightarrow> bool" where
  "table_ok used nm xs \<longleftrightarrow>
     (\<forall>x \<in> set xs. length (nm x) = 32 \<and> (used x \<longrightarrow> short_name (c_string_at (nm x)))) \<and>
     (\<forall>i < length xs. \<forall>k < length xs. \<forall>n. slot_named used nm n (xs ! i) \<and> slot_named used nm n (xs ! k) \<longrightarrow> i = k)"

lemma copied_short_name: "length a = 32 \<Longrightarrow> short_name n \<Longrightarrow> c_string_at (copied_name a n 32) = n"
  using copied_name_string [of a n] by (simp add: short_name_def)

text \<open>A stored name is shorter than the limit of the comparison, so it only matches itself.\<close>

lemma strncmp_short: "length (c_string_at a) < 32 \<Longrightarrow> strncmp_eq a n 32 \<longleftrightarrow> c_string_at a = n"
proof -
  assume l: "length (c_string_at a) < 32"
  show ?thesis
  proof (cases "length n < 32")
    case False
    then have "length (take 32 n) = 32" by simp
    then show ?thesis using l False by (auto simp: strncmp_eq_def)
  qed (use l in \<open>simp add: strncmp_eq_def\<close>)
qed

locale named_slots =
  fixes used :: "'a \<Rightarrow> bool" and nm :: "'a \<Rightarrow> octets" and make :: "c_chars \<Rightarrow> 'a \<Rightarrow> 'a" and free :: "'a \<Rightarrow> 'a"
  assumes made: "short_name n \<Longrightarrow> length (nm x) = 32 \<Longrightarrow>
      used (make n x) \<and> length (nm (make n x)) = 32 \<and> c_string_at (nm (make n x)) = n"
    and freed: "length (nm x) = 32 \<Longrightarrow> \<not> used (free x) \<and> length (nm (free x)) = 32"
begin

lemma found_iff:
  "table_ok used nm xs \<Longrightarrow> first_index (slot_named used nm n) xs = Some i \<longleftrightarrow> i < length xs \<and> slot_named used nm n (xs ! i)"
  using first_index_Some [of "slot_named used nm n" xs i] first_index_SomeI [of i xs "slot_named used nm n"]
  unfolding table_ok_def by blast

lemma not_found_iff:
  "first_index (slot_named used nm n) xs = None \<longleftrightarrow> (\<forall>i < length xs. \<not> slot_named used nm n (xs ! i))"
  by (simp add: first_index_None all_set_conv_all_nth)

text \<open>Replacing a slot by one whose name no other slot has.\<close>

lemma replaced:
  assumes ok: "table_ok used nm xs" and i: "i < length xs" and len: "length (nm y) = 32"
    and short: "used y \<Longrightarrow> short_name (c_string_at (nm y))"
    and fresh: "\<And>n k. slot_named used nm n y \<Longrightarrow> k < length xs \<Longrightarrow> slot_named used nm n (xs ! k) \<Longrightarrow> k = i"
  shows "table_ok used nm (xs[i := y])"
    and "first_index (slot_named used nm n) (xs[i := y]) =
      (if slot_named used nm n y then Some i
       else if first_index (slot_named used nm n) xs = Some i then None
       else first_index (slot_named used nm n) xs)"
proof -
  have orig: "a = b" if "a < length xs" "b < length xs" "slot_named used nm n (xs ! a)" "slot_named used nm n (xs ! b)" for a b n
    using that ok unfolding table_ok_def by blast
  have at: "xs[i := y] ! a = (if a = i then y else xs ! a)" for a using i by simp
  have one: "a = b" if l: "a < length xs" "b < length xs"
    and s: "slot_named used nm n (xs[i := y] ! a)" "slot_named used nm n (xs[i := y] ! b)" for a b n
  proof (cases "a = i")
    case True
    then show ?thesis using fresh [of n b] s l by (cases "b = i") (simp_all add: at)
  next
    case False
    then show ?thesis using fresh [of n a] orig [OF l, of n] s l by (cases "b = i") (simp_all add: at)
  qed
  show ok': "table_ok used nm (xs[i := y])"
  proof -
    have "\<forall>x \<in> set (xs[i := y]). length (nm x) = 32 \<and> (used x \<longrightarrow> short_name (c_string_at (nm x)))"
      using ok len short set_update_subset_insert [of xs i y] unfolding table_ok_def by blast
    moreover have "\<forall>a < length xs. \<forall>b < length xs. \<forall>n.
        slot_named used nm n (xs[i := y] ! a) \<and> slot_named used nm n (xs[i := y] ! b) \<longrightarrow> a = b"
      by (intro allI impI) (elim conjE, rule one)
    ultimately show ?thesis by (simp only: table_ok_def length_list_update)
  qed
  show "first_index (slot_named used nm n) (xs[i := y]) =
      (if slot_named used nm n y then Some i
       else if first_index (slot_named used nm n) xs = Some i then None
       else first_index (slot_named used nm n) xs)"
  proof (cases "slot_named used nm n y")
    case True
    then show ?thesis using found_iff [OF ok', of n i] i by simp
  next
    case False
    show ?thesis
    proof (cases "first_index (slot_named used nm n) xs")
      case None
      then have "first_index (slot_named used nm n) (xs[i := y]) = None"
        using False unfolding not_found_iff length_list_update at by simp
      then show ?thesis using None False by simp
    next
      case (Some k)
      then have k: "k < length xs" "slot_named used nm n (xs ! k)" using found_iff [OF ok] by auto
      show ?thesis
      proof (cases "k = i")
        case True
        then have "first_index (slot_named used nm n) (xs[i := y]) = None"
          using False orig k unfolding not_found_iff length_list_update at by auto
        then show ?thesis using Some True False by simp
      next
        case ne: False
        then have "first_index (slot_named used nm n) (xs[i := y]) = Some k"
          using found_iff [OF ok', of n k] k by simp
        then show ?thesis using Some ne False by simp
      qed
    qed
  qed
qed

text \<open>A new slot under a name that is not in the table, in the place of an unused one.\<close>

lemma slot_named_short: "length (c_string_at (nm y)) < 32 \<Longrightarrow> slot_named used nm n y \<longleftrightarrow> used y \<and> c_string_at (nm y) = n"
  by (simp add: slot_named_def strncmp_short)

lemma slot_named_take: "slot_named used nm n y \<Longrightarrow> slot_named used nm n z \<Longrightarrow> slot_named used nm m y \<Longrightarrow> slot_named used nm m z"
  by (simp add: slot_named_def strncmp_eq_def)

lemma made_in_table:
  assumes "table_ok used nm xs" and "first_index (slot_named used nm m) xs = None" and "short_name m"
    and "i < length xs" and "\<not> used (xs ! i)"
    and y: "used y" "nm y = nm (make m (xs ! i))"
  shows "table_ok used nm (xs[i := y])" and
    "first_index (slot_named used nm n) (xs[i := y]) = (if n = m then Some i else first_index (slot_named used nm n) xs)"
proof -
  have "length (nm (xs ! i)) = 32" using assms(1,4) by (simp add: table_ok_def)
  from made [OF assms(3) this] have len: "length (nm y) = 32" and str: "c_string_at (nm y) = m" using y by simp_all
  have named: "slot_named used nm n y \<longleftrightarrow> n = m" for n
    using slot_named_short [of y n] str assms(3) y(1) by (auto simp: short_name_def)
  have m: "slot_named used nm m y" using named by simp
  have fresh: "k = i" if "slot_named used nm n y" "k < length xs" "slot_named used nm n (xs ! k)" for n k
    using slot_named_take [OF that(1,3) m] that(2) assms(2) unfolding not_found_iff by blast
  note r = replaced [OF assms(1,4) len _ fresh]
  show "table_ok used nm (xs[i := y])" by (rule r(1)) (use str assms(3) in simp_all)
  have "first_index (slot_named used nm n) xs \<noteq> Some i"
    using assms(5) first_index_Some [of "slot_named used nm n" xs i] by (auto simp: slot_named_def)
  then show "first_index (slot_named used nm n) (xs[i := y]) = (if n = m then Some i else first_index (slot_named used nm n) xs)"
    using r(2) [where n = n] named [of n] str assms(3) by simp
qed

lemma freed_in_table:
  assumes "table_ok used nm xs" and "i < length xs" and y: "\<not> used y" "length (nm y) = 32"
  shows "table_ok used nm (xs[i := y])" and
    "first_index (slot_named used nm n) (xs[i := y]) =
      (if first_index (slot_named used nm n) xs = Some i then None else first_index (slot_named used nm n) xs)"
proof -
  have no: "\<not> slot_named used nm n y" for n using y(1) by (simp add: slot_named_def)
  note r = replaced [OF assms(1,2) y(2), simplified y(1) no]
  show "table_ok used nm (xs[i := y])" by (rule r(1)) simp_all
  show "first_index (slot_named used nm n) (xs[i := y]) =
      (if first_index (slot_named used nm n) xs = Some i then None else first_index (slot_named used nm n) xs)"
    using r(2) by simp
qed

lemma used_name: "table_ok used nm xs \<Longrightarrow> i < length xs \<Longrightarrow> slot_named used nm n (xs ! i) \<longleftrightarrow> used (xs ! i) \<and> c_string_at (nm (xs ! i)) = n"
  using slot_named_short [of "xs ! i" n] by (auto simp: table_ok_def short_name_def slot_named_def)

text \<open>A change of slots that keeps flags and names.\<close>

lemma kept_in_table:
  assumes "length xs = length ys" and "\<And>k. k < length xs \<Longrightarrow> used (ys ! k) = used (xs ! k) \<and> nm (ys ! k) = nm (xs ! k)"
  shows "table_ok used nm ys = table_ok used nm xs"
    and "first_index (slot_named used nm n) ys = first_index (slot_named used nm n) xs"
proof -
  have "slot_named used nm n (ys ! k) = slot_named used nm n (xs ! k)" if "k < length xs" for n k
    using assms(2) [OF that] by (simp add: slot_named_def)
  then show "first_index (slot_named used nm n) ys = first_index (slot_named used nm n) xs"
    by (intro first_index_cong) (use assms(1) in auto)
  show "table_ok used nm ys = table_ok used nm xs"
    using assms \<open>\<And>n k. k < length xs \<Longrightarrow> slot_named used nm n (ys ! k) = slot_named used nm n (xs ! k)\<close>
    by (auto simp: table_ok_def all_set_conv_all_nth)
qed

end

interpretation topic_slots: named_slots topic_used topic_name
  "\<lambda>n t. t\<lparr>topic_name := copied_name (topic_name t) n AKIRA_IPC_TOPIC_NAME_MAX, topic_used := True\<rparr>" free_topic
  by unfold_locales (simp_all add: ipc_limits length_copied_name copied_short_name free_topic_def)

interpretation sub_slots: named_slots sub_used app_name
  "\<lambda>n s. s\<lparr>msgq := [], app_name := copied_name (app_name s) n AKIRA_IPC_APP_NAME_MAX, sub_used := True\<rparr>" destroy_sub
  by unfold_locales (simp_all add: ipc_limits length_copied_name copied_short_name destroy_sub_def)

lemma find_topic_slots: "find_topic ts n = first_index (slot_named topic_used topic_name n) ts"
  by (simp add: find_topic_def slot_named_def [abs_def] AKIRA_IPC_TOPIC_NAME_MAX_def)

lemma find_sub_slots: "find_sub t n = first_index (slot_named sub_used app_name n) (subs t)"
  by (simp add: find_sub_def slot_named_def [abs_def] AKIRA_IPC_APP_NAME_MAX_def)

section \<open>Mailboxes\<close>

text \<open>The abstract state: the queue of each topic and application that is subscribed to it.\<close>

type_synonym mailboxes = "c_chars \<times> c_chars \<rightharpoonup> octets list"

definition topic_box :: "ipc_topic \<Rightarrow> c_chars \<rightharpoonup> octets list" where
  "topic_box t app = map_option (\<lambda>j. msgq (subs t ! j)) (find_sub t app)"

definition mailbox :: "ipc_topics \<Rightarrow> mailboxes" where
  "mailbox ts = (\<lambda>(topic, app).
     (case find_topic ts topic of None \<Rightarrow> None | Some i \<Rightarrow> topic_box (ts ! i) app))"

definition topic_ok :: "ipc_topic \<Rightarrow> bool" where
  "topic_ok t \<longleftrightarrow>
     length (subs t) = CONFIG_AKIRA_IPC_MAX_SUBS_PER_TOPIC \<and> table_ok sub_used app_name (subs t) \<and>
     (\<forall>s \<in> set (subs t). (sub_used s \<longrightarrow> topic_used t) \<and> length (msgq s) \<le> CONFIG_AKIRA_IPC_QUEUE_DEPTH)"

definition topics_ok :: "ipc_topics \<Rightarrow> bool" where
  "topics_ok ts \<longleftrightarrow>
     length ts = CONFIG_AKIRA_IPC_MAX_TOPICS \<and> table_ok topic_used topic_name ts \<and> (\<forall>t \<in> set ts. topic_ok t)"

lemma topics_okD:
  assumes "topics_ok ts"
  shows "table_ok topic_used topic_name ts" and "i < length ts \<Longrightarrow> topic_ok (ts ! i)"
    and "i < length ts \<Longrightarrow> length (topic_name (ts ! i)) = 32"
  using assms by (simp_all add: topics_ok_def table_ok_def)

lemma topic_okD:
  assumes "topic_ok t"
  shows "table_ok sub_used app_name (subs t)" and "j < length (subs t) \<Longrightarrow> length (app_name (subs t ! j)) = 32"
    and "\<forall>s \<in> set (subs t). length (msgq s) \<le> CONFIG_AKIRA_IPC_QUEUE_DEPTH"
    and "\<forall>s \<in> set (subs t). sub_used s \<longrightarrow> topic_used t"
  using assms by (auto simp: topic_ok_def table_ok_def)

lemma find_topic_iff: "topics_ok ts \<Longrightarrow> find_topic ts n = Some i \<longleftrightarrow> i < length ts \<and> slot_named topic_used topic_name n (ts ! i)"
  unfolding find_topic_slots by (rule topic_slots.found_iff) (rule topics_okD)

lemma find_sub_iff: "topic_ok t \<Longrightarrow> find_sub t n = Some j \<longleftrightarrow> j < length (subs t) \<and> slot_named sub_used app_name n (subs t ! j)"
  unfolding find_sub_slots by (rule sub_slots.found_iff) (rule topic_okD)

lemma topic_box_unused: "\<forall>s \<in> set (subs t). \<not> sub_used s \<Longrightarrow> topic_box t a = None"
  unfolding topic_box_def find_sub_slots by (simp add: first_index_None slot_named_def)

text \<open>Replacing a topic by one with the same name that is freed when it has no subscriber left.\<close>

lemma free_if_empty_ok: "topic_ok t \<Longrightarrow> topic_ok (free_if_empty t)"
  by (auto simp: topic_ok_def free_if_empty_def free_topic_def)

lemma replace_topic:
  assumes ok: "topics_ok ts" and i: "i < length ts" and t: "topic_ok t" "topic_used t = topic_used (ts ! i)" "topic_name t = topic_name (ts ! i)"
  shows "topics_ok (ts[i := t])"
    and "mailbox (ts[i := t]) (n, a) = (if find_topic ts n = Some i then topic_box t a else mailbox ts (n, a))"
proof -
  have same: "topic_used (ts[i := t] ! k) = topic_used (ts ! k) \<and> topic_name (ts[i := t] ! k) = topic_name (ts ! k)"
    if "k < length ts" for k using t i that by (cases "k = i") auto
  note kept = topic_slots.kept_in_table [of ts "ts[i := t]", OF _ same]
  show "topics_ok (ts[i := t])"
    using ok kept(1) t(1) set_update_subset_insert [of ts i t] unfolding topics_ok_def by auto
  show "mailbox (ts[i := t]) (n, a) = (if find_topic ts n = Some i then topic_box t a else mailbox ts (n, a))"
    using kept(2) i by (cases "find_topic ts n") (auto simp: mailbox_def find_topic_slots nth_list_update)
qed

lemma replace_topic_free:
  assumes ok: "topics_ok ts" and i: "i < length ts" and t: "topic_ok t" "topic_used t = topic_used (ts ! i)" "topic_name t = topic_name (ts ! i)"
  shows "topics_ok (ts[i := free_if_empty t])"
    and "mailbox (ts[i := free_if_empty t]) (n, a) = (if find_topic ts n = Some i then topic_box t a else mailbox ts (n, a))"
proof -
  have "topics_ok (ts[i := free_if_empty t]) \<and>
      mailbox (ts[i := free_if_empty t]) (n, a) = (if find_topic ts n = Some i then topic_box t a else mailbox ts (n, a))"
  proof (cases "\<exists>s \<in> set (subs t). sub_used s")
    case True
    then show ?thesis using replace_topic [OF ok i t] by (simp add: free_if_empty_def)
  next
    case False
    then have f: "free_if_empty t = free_topic t" by (simp add: free_if_empty_def)
    have l: "\<not> topic_used (free_topic t)" "length (topic_name (free_topic t)) = 32"
      using topics_okD(3) [OF ok i] t(3) by (simp_all add: free_topic_def)
    note freed = topic_slots.freed_in_table [OF topics_okD(1) [OF ok] i l]
    have "topics_ok (ts[i := free_topic t])"
      using ok freed(1) free_if_empty_ok [OF t(1)] f set_update_subset_insert [of ts i "free_topic t"]
      unfolding topics_ok_def by auto
    moreover have "mailbox (ts[i := free_topic t]) (n, a) = (if find_topic ts n = Some i then topic_box t a else mailbox ts (n, a))"
      using freed(2) topic_box_unused [of t a] False i
      by (cases "find_topic ts n") (auto simp: mailbox_def find_topic_slots nth_list_update)
    ultimately show ?thesis using f by simp
  qed
  then show "topics_ok (ts[i := free_if_empty t])"
    and "mailbox (ts[i := free_if_empty t]) (n, a) = (if find_topic ts n = Some i then topic_box t a else mailbox ts (n, a))"
    by simp_all
qed

text \<open>The operations on the subscribers of one topic.\<close>

lemma replace_sub:
  assumes "topic_ok t" and "j < length (subs t)" and "table_ok sub_used app_name ((subs t)[j := s])"
    and "length (msgq s) \<le> CONFIG_AKIRA_IPC_QUEUE_DEPTH" and "topic_used t"
  shows "topic_ok (t\<lparr>subs := (subs t)[j := s]\<rparr>)"
  using assms by (auto simp: topic_ok_def dest!: subsetD [OF set_update_subset_insert])

lemma create_sub_spec:
  assumes ok: "topic_ok t" and used: "topic_used t" and new: "find_sub t a = None" and a: "short_name a"
    and run: "create_sub mem t a = (r, t')"
  shows "topic_ok t' \<and> topic_used t' = topic_used t \<and> topic_name t' = topic_name t \<and>
    topic_box t' b = (if r \<noteq> None \<and> b = a then Some [] else topic_box t b)"
proof (cases "first_index (\<lambda>s. \<not> sub_used s) (subs t)")
  case None
  then show ?thesis using run ok by (auto simp: create_sub_def)
next
  case (Some j)
  then have j: "j < length (subs t)" "\<not> sub_used (subs t ! j)" using first_index_Some by fastforce+
  have q: "length (msgq (subs t ! j)) \<le> CONFIG_AKIRA_IPC_QUEUE_DEPTH" using topic_okD(3) [OF ok] j(1) by simp
  show ?thesis
  proof (cases mem)
    case False
    let ?s = "(subs t ! j)\<lparr>msg_buf := False\<rparr>"
    have t': "t' = t\<lparr>subs := (subs t)[j := ?s]\<rparr>" "r = None" using run Some False by (auto simp: create_sub_def)
    have "sub_used ((subs t)[j := ?s] ! k) = sub_used (subs t ! k) \<and> app_name ((subs t)[j := ?s] ! k) = app_name (subs t ! k)"
      if "k < length (subs t)" for k using that by (cases "k = j") auto
    note kept = sub_slots.kept_in_table [of "subs t" "(subs t)[j := ?s]", OF _ this]
    have "topic_ok t'" unfolding t' by (rule replace_sub [OF ok j(1)]) (use kept(1) topic_okD(1) [OF ok] q used in auto)
    moreover have "topic_box t' b = topic_box t b"
      using kept(2) j(1) by (cases "find_sub t b") (auto simp: topic_box_def find_sub_slots t' nth_list_update)
    ultimately show ?thesis using t' by simp
  next
    case True
    let ?s = "(subs t ! j)\<lparr>msg_buf := True, msgq := [], app_name := copied_name (app_name (subs t ! j)) a 32, sub_used := True\<rparr>"
    have t': "t' = t\<lparr>subs := (subs t)[j := ?s]\<rparr>" "r = Some j"
      using run Some True by (auto simp: create_sub_def AKIRA_IPC_APP_NAME_MAX_def)
    note made = sub_slots.made_in_table [OF topic_okD(1) [OF ok] _ a j, of ?s]
    have none: "first_index (slot_named sub_used app_name a) (subs t) = None" using new by (simp add: find_sub_slots)
    have nm: "sub_used ?s" "app_name ?s = app_name ((subs t ! j)\<lparr>msgq := [],
        app_name := copied_name (app_name (subs t ! j)) a AKIRA_IPC_APP_NAME_MAX, sub_used := True\<rparr>)"
      by (simp_all add: AKIRA_IPC_APP_NAME_MAX_def)
    have "topic_ok t'" unfolding t' by (rule replace_sub [OF ok j(1)]) (use made(1) [OF none nm] used in auto)
    moreover have "topic_box t' b = (if b = a then Some [] else topic_box t b)"
    proof -
      have "find_sub t b \<noteq> Some j" using j(2) find_sub_iff [OF ok] by (auto simp: slot_named_def)
      then show ?thesis
        using made(2) [OF none nm, of b] j(1)
        by (cases "find_sub t b") (auto simp: topic_box_def find_sub_slots t' nth_list_update)
    qed
    ultimately show ?thesis using t' by simp
  qed
qed

lemma destroy_sub_spec:
  assumes ok: "topic_ok t" and used: "topic_used t" and j: "find_sub t a = Some j"
  shows "topic_ok (t\<lparr>subs := (subs t)[j := destroy_sub (subs t ! j)]\<rparr>)"
    and "topic_box (t\<lparr>subs := (subs t)[j := destroy_sub (subs t ! j)]\<rparr>) b = (if b = a then None else topic_box t b)"
proof -
  let ?s = "destroy_sub (subs t ! j)"
  have jl: "j < length (subs t)" "slot_named sub_used app_name a (subs t ! j)" using j find_sub_iff [OF ok] by auto
  have l: "\<not> sub_used ?s" "length (app_name ?s) = 32" using topic_okD(2) [OF ok jl(1)] by (simp_all add: destroy_sub_def)
  note freed = sub_slots.freed_in_table [OF topic_okD(1) [OF ok] jl(1) l]
  show "topic_ok (t\<lparr>subs := (subs t)[j := ?s]\<rparr>)"
    by (rule replace_sub [OF ok jl(1)]) (use freed(1) used in \<open>auto simp: destroy_sub_def\<close>)
  have "find_sub t b = Some j \<longleftrightarrow> b = a"
    using find_sub_iff [OF ok, of b j] jl sub_slots.used_name [OF topic_okD(1) [OF ok] jl(1)] by auto
  then show "topic_box (t\<lparr>subs := (subs t)[j := ?s]\<rparr>) b = (if b = a then None else topic_box t b)"
    using freed(2) [of b] jl(1) by (cases "find_sub t b") (auto simp: topic_box_def find_sub_slots nth_list_update)
qed

lemma take_sub_spec:
  assumes ok: "topic_ok t" and used: "topic_used t" and j: "find_sub t a = Some j" and q: "length q \<le> CONFIG_AKIRA_IPC_QUEUE_DEPTH"
  shows "topic_ok (t\<lparr>subs := (subs t)[j := (subs t ! j)\<lparr>msgq := q\<rparr>]\<rparr>)"
    and "topic_box (t\<lparr>subs := (subs t)[j := (subs t ! j)\<lparr>msgq := q\<rparr>]\<rparr>) b = (if b = a then Some q else topic_box t b)"
proof -
  let ?s = "(subs t ! j)\<lparr>msgq := q\<rparr>"
  have jl: "j < length (subs t)" "slot_named sub_used app_name a (subs t ! j)" using j find_sub_iff [OF ok] by auto
  have "sub_used ((subs t)[j := ?s] ! k) = sub_used (subs t ! k) \<and> app_name ((subs t)[j := ?s] ! k) = app_name (subs t ! k)"
    if "k < length (subs t)" for k using that by (cases "k = j") auto
  note kept = sub_slots.kept_in_table [of "subs t" "(subs t)[j := ?s]", OF _ this]
  show "topic_ok (t\<lparr>subs := (subs t)[j := ?s]\<rparr>)"
    by (rule replace_sub [OF ok jl(1)]) (use kept(1) topic_okD(1) [OF ok] used q in auto)
  have "find_sub t b = Some j \<longleftrightarrow> b = a"
    using find_sub_iff [OF ok, of b j] jl sub_slots.used_name [OF topic_okD(1) [OF ok] jl(1)] by auto
  then show "topic_box (t\<lparr>subs := (subs t)[j := ?s]\<rparr>) b = (if b = a then Some q else topic_box t b)"
    using kept(2) [of b] jl(1) by (cases "find_sub t b") (auto simp: topic_box_def find_sub_slots nth_list_update)
qed

definition enqueue :: "octets \<Rightarrow> octets list \<Rightarrow> octets list" where
  "enqueue data q = (if length q < CONFIG_AKIRA_IPC_QUEUE_DEPTH then q @ [data] else q)"

lemma put_subs_spec:
  assumes ok: "topic_ok t"
  shows "topic_ok (t\<lparr>subs := map (msgq_put data) (subs t)\<rparr>)"
    and "topic_box (t\<lparr>subs := map (msgq_put data) (subs t)\<rparr>) a = map_option (enqueue data) (topic_box t a)"
proof -
  have same: "sub_used (msgq_put data s) = sub_used s" "app_name (msgq_put data s) = app_name s" for s
    by (simp_all add: msgq_put_def)
  have "sub_used (map (msgq_put data) (subs t) ! k) = sub_used (subs t ! k) \<and>
      app_name (map (msgq_put data) (subs t) ! k) = app_name (subs t ! k)" if "k < length (subs t)" for k
    using that same by simp
  note kept = sub_slots.kept_in_table [of "subs t" "map (msgq_put data) (subs t)", OF _ this]
  have "length (msgq (msgq_put data s)) \<le> CONFIG_AKIRA_IPC_QUEUE_DEPTH" if "s \<in> set (subs t)" for s
    using topic_okD(3) [OF ok] that by (auto simp: msgq_put_def)
  then show "topic_ok (t\<lparr>subs := map (msgq_put data) (subs t)\<rparr>)"
    using ok kept(1) same by (auto simp: topic_ok_def)
  show "topic_box (t\<lparr>subs := map (msgq_put data) (subs t)\<rparr>) a = map_option (enqueue data) (topic_box t a)"
  proof (cases "find_sub t a")
    case (Some j)
    then have "j < length (subs t)" "sub_used (subs t ! j)" using find_sub_iff [OF ok] by (auto simp: slot_named_def)
    then show ?thesis using Some kept(2) [of a] by (simp add: topic_box_def find_sub_slots msgq_put_def enqueue_def)
  qed (use kept(2) [of a] in \<open>simp add: topic_box_def find_sub_slots\<close>)
qed

text \<open>The number of deliveries of a publication.\<close>

lemma put_subs_count:
  assumes ok: "topic_ok t"
  shows "length (filter (\<lambda>s. sub_used s \<and> length (msgq s) < CONFIG_AKIRA_IPC_QUEUE_DEPTH) (subs t)) =
    card {a. \<exists>q. topic_box t a = Some q \<and> length q < CONFIG_AKIRA_IPC_QUEUE_DEPTH}"
proof -
  let ?P = "\<lambda>s. sub_used s \<and> length (msgq s) < CONFIG_AKIRA_IPC_QUEUE_DEPTH"
  let ?J = "{j. j < length (subs t) \<and> ?P (subs t ! j)}"
  let ?n = "\<lambda>j. c_string_at (app_name (subs t ! j))"
  have found: "find_sub t a = Some j \<longleftrightarrow> j < length (subs t) \<and> sub_used (subs t ! j) \<and> ?n j = a" for a j
    using find_sub_iff [OF ok] sub_slots.used_name [OF topic_okD(1) [OF ok]] by blast
  have inj: "inj_on ?n ?J" using found by (intro inj_onI) (metis (mono_tags, lifting) mem_Collect_eq option.inject)
  have "?n ` ?J = {a. \<exists>q. topic_box t a = Some q \<and> length q < CONFIG_AKIRA_IPC_QUEUE_DEPTH}"
    using found by (auto simp: topic_box_def image_iff)
  then have "card {a. \<exists>q. topic_box t a = Some q \<and> length q < CONFIG_AKIRA_IPC_QUEUE_DEPTH} = card ?J"
    using card_image [OF inj] by simp
  then show ?thesis by (simp add: length_filter_conv_card)
qed

lemma topic_box_free: "topic_box (free_if_empty t) b = topic_box t b"
  by (simp add: free_if_empty_def free_topic_def topic_box_def find_sub_def)

lemma free_if_empty_flags:
  "topic_used (free_if_empty t) \<Longrightarrow> topic_name (free_if_empty t) = topic_name t \<and> topic_used t"
  "length (topic_name (free_if_empty t)) = length (topic_name t)"
  "topic_used t \<Longrightarrow> \<not> topic_used (free_if_empty t) \<Longrightarrow> \<forall>s \<in> set (subs t). \<not> sub_used s"
  by (auto simp: free_if_empty_def free_topic_def split: if_splits)

lemma cleanup_flags:
  "topic_used (cleanup_topic a t) \<longrightarrow> topic_used t \<and> topic_name (cleanup_topic a t) = topic_name t"
  "length (topic_name (cleanup_topic a t)) = length (topic_name t)"
  unfolding cleanup_topic_def by (auto dest: free_if_empty_flags(1) simp: free_if_empty_flags(2) simp del: set_map)

text \<open>Cleaning up after an application, in one topic and in all.\<close>

lemma cleanup_topic_spec:
  assumes ok: "topic_ok t" and l: "length (topic_name t) = 32"
  shows "topic_ok (cleanup_topic a t)" and "topic_box (cleanup_topic a t) b = (if b = a then None else topic_box t b)"
    and "topic_used (cleanup_topic a t) \<Longrightarrow> topic_used t \<and> topic_name (cleanup_topic a t) = topic_name t"
    and "length (topic_name (cleanup_topic a t)) = 32"
    and "topic_used t \<Longrightarrow> \<not> topic_used (cleanup_topic a t) \<Longrightarrow> topic_box t b \<noteq> None \<Longrightarrow> b = a"
proof -
  let ?f = "\<lambda>s. if sub_used s \<and> strncmp_eq (app_name s) a AKIRA_IPC_APP_NAME_MAX then destroy_sub s else s"
  let ?t = "t\<lparr>subs := map ?f (subs t)\<rparr>"
  have tab: "table_ok sub_used app_name (subs t)" by (rule topic_okD [OF ok])
  have keep: "sub_used (?f s) \<Longrightarrow> sub_used s \<and> app_name (?f s) = app_name s" "length (app_name s) = 32 \<Longrightarrow> length (app_name (?f s)) = 32"
      "length (msgq (?f s)) \<le> length (msgq s)" for s by (auto simp: destroy_sub_def)
  have named: "slot_named sub_used app_name b (?f s) \<longleftrightarrow> slot_named sub_used app_name b s \<and> b \<noteq> a" if s: "s \<in> set (subs t)" for s b
  proof -
    obtain k where k: "k < length (subs t)" "s = subs t ! k" using s by (auto simp: in_set_conv_nth)
    show ?thesis
      using sub_slots.used_name [OF tab k(1), of a] sub_slots.used_name [OF tab k(1), of b] k(2)
      by (auto simp: slot_named_def destroy_sub_def AKIRA_IPC_APP_NAME_MAX_def)
  qed
  have tab': "table_ok sub_used app_name (map ?f (subs t))"
  proof -
    have "length (app_name x) = 32 \<and> (sub_used x \<longrightarrow> short_name (c_string_at (app_name x)))" if x: "x \<in> set (map ?f (subs t))" for x
    proof -
      obtain s where s: "s \<in> set (subs t)" "x = ?f s" using x by auto
      have "length (app_name s) = 32" "sub_used s \<longrightarrow> short_name (c_string_at (app_name s))"
        using tab s(1) by (simp_all add: table_ok_def)
      then show ?thesis using keep(1) [of s] keep(2) [of s] unfolding s(2) by metis
    qed
    moreover have "i = k" if "i < length (subs t)" "k < length (subs t)"
        "slot_named sub_used app_name n (map ?f (subs t) ! i)" "slot_named sub_used app_name n (map ?f (subs t) ! k)" for i k n
    proof -
      have "slot_named sub_used app_name n (subs t ! i)" "slot_named sub_used app_name n (subs t ! k)"
        using that named [of "subs t ! i" n] named [of "subs t ! k" n] by simp_all
      then show ?thesis using that(1,2) tab unfolding table_ok_def by blast
    qed
    ultimately show ?thesis unfolding table_ok_def by (simp only: length_map) blast
  qed
  have ok': "topic_ok ?t"
  proof -
    have "(sub_used x \<longrightarrow> topic_used t) \<and> length (msgq x) \<le> CONFIG_AKIRA_IPC_QUEUE_DEPTH" if x: "x \<in> set (map ?f (subs t))" for x
    proof -
      obtain s where s: "s \<in> set (subs t)" "x = ?f s" using x by auto
      then show ?thesis using keep(1,3) [of s] topic_okD(3,4) [OF ok] by (meson order_trans)
    qed
    then show ?thesis using ok tab' by (simp add: topic_ok_def)
  qed
  have box: "topic_box ?t b = (if b = a then None else topic_box t b)"
  proof (cases "b = a")
    case True
    have "\<not> slot_named sub_used app_name b x" if x: "x \<in> set (map ?f (subs t))" for x
    proof -
      obtain s where s: "s \<in> set (subs t)" "x = ?f s" using x by auto
      show ?thesis unfolding s(2) named [OF s(1)] using True by blast
    qed
    then have "find_sub ?t b = None" by (simp add: find_sub_slots first_index_None del: set_map)
    then show ?thesis using True by (simp add: topic_box_def)
  next
    case False
    have "find_sub ?t b = find_sub t b"
      unfolding find_sub_slots using named False by (intro first_index_cong) auto
    moreover have "msgq (map ?f (subs t) ! j) = msgq (subs t ! j)" if j: "find_sub t b = Some j" for j
    proof -
      have l: "j < length (subs t)" "slot_named sub_used app_name b (subs t ! j)" using j find_sub_iff [OF ok] by auto
      then have "slot_named sub_used app_name b (?f (subs t ! j))" using named [of "subs t ! j" b] False by simp
      then have "?f (subs t ! j) = subs t ! j" by (auto simp: slot_named_def destroy_sub_def)
      then show ?thesis using l(1) by (simp only: nth_map)
    qed
    ultimately show ?thesis using False by (cases "find_sub t b") (simp_all add: topic_box_def del: nth_map)
  qed
  have free: "topic_box (free_if_empty ?t) b = topic_box ?t b" for b by (rule topic_box_free)
  show "topic_ok (cleanup_topic a t)" using ok free_if_empty_ok [OF ok'] by (simp add: cleanup_topic_def)
  have unused: "topic_box t b = None" if "\<not> topic_used t" for b
    using topic_box_unused [of t b] topic_okD(4) [OF ok] that by blast
  show "topic_box (cleanup_topic a t) b = (if b = a then None else topic_box t b)"
  proof (cases "topic_used t")
    case True
    then have "cleanup_topic a t = free_if_empty ?t" by (simp add: cleanup_topic_def)
    then show ?thesis by (simp only: free box)
  next
    case False
    then show ?thesis using unused [OF False, of b] by (simp add: cleanup_topic_def)
  qed
  show "topic_used (cleanup_topic a t) \<Longrightarrow> topic_used t \<and> topic_name (cleanup_topic a t) = topic_name t"
    using cleanup_flags [of a t] by blast
  show "length (topic_name (cleanup_topic a t)) = 32"
    using cleanup_flags [of a t] l by simp
  assume u: "topic_used t" "\<not> topic_used (cleanup_topic a t)" "topic_box t b \<noteq> None"
  have "\<forall>s \<in> set (subs ?t). \<not> sub_used s"
    using free_if_empty_flags(3) [of ?t] u(1,2) by (simp add: cleanup_topic_def del: set_map)
  then have "topic_box ?t b = None" by (rule topic_box_unused)
  then show "b = a" using box u(3) by (auto split: if_splits)
qed

lemma cleanup_spec:
  assumes ok: "topics_ok ts"
  shows "topics_ok (map (cleanup_topic a) ts)"
    and "mailbox (map (cleanup_topic a) ts) (n, b) = (if b = a then None else mailbox ts (n, b))"
proof -
  have tab: "table_ok topic_used topic_name ts" and len: "length ts = CONFIG_AKIRA_IPC_MAX_TOPICS"
    using ok by (simp_all add: topics_ok_def)
  note c = cleanup_topic_spec [OF topics_okD(2) [OF ok] topics_okD(3) [OF ok]]
  have named: "slot_named topic_used topic_name n (cleanup_topic a (ts ! k)) \<Longrightarrow> slot_named topic_used topic_name n (ts ! k)"
    if "k < length ts" for n k using c(3) [OF that that, of a] by (auto simp: slot_named_def)
  have tab': "table_ok topic_used topic_name (map (cleanup_topic a) ts)"
  proof -
    have "length (topic_name (cleanup_topic a (ts ! k))) = 32 \<and>
        (topic_used (cleanup_topic a (ts ! k)) \<longrightarrow> short_name (c_string_at (topic_name (cleanup_topic a (ts ! k)))))"
      if "k < length ts" for k
      using c(3,4) [OF that that, of a] tab that by (auto simp: table_ok_def)
    moreover have "i = k" if "i < length ts" "k < length ts"
        "slot_named topic_used topic_name n (cleanup_topic a (ts ! i))" "slot_named topic_used topic_name n (cleanup_topic a (ts ! k))" for i k n
      using named [OF that(1) that(3)] named [OF that(2) that(4)] that(1,2) tab unfolding table_ok_def by blast
    ultimately show ?thesis unfolding table_ok_def by (simp add: all_set_conv_all_nth) blast
  qed
  show ok': "topics_ok (map (cleanup_topic a) ts)"
    using tab' len c(1) by (auto simp: topics_ok_def in_set_conv_nth)
  show "mailbox (map (cleanup_topic a) ts) (n, b) = (if b = a then None else mailbox ts (n, b))"
  proof (cases "find_topic (map (cleanup_topic a) ts) n")
    case (Some i)
    then have i: "i < length ts" "slot_named topic_used topic_name n (cleanup_topic a (ts ! i))"
      using find_topic_iff [OF ok'] by auto
    then have "find_topic ts n = Some i" using find_topic_iff [OF ok] named by blast
    then show ?thesis using Some i(1) c(2) [OF i(1) i(1), of a b] by (simp add: mailbox_def)
  next
    case None
    show ?thesis
    proof (cases "find_topic ts n")
      case (Some i)
      then have i: "i < length ts" "slot_named topic_used topic_name n (ts ! i)" using find_topic_iff [OF ok] by auto
      have "\<not> slot_named topic_used topic_name n (cleanup_topic a (ts ! i))"
        using None find_topic_iff [OF ok', of n i] i(1) by auto
      then have "\<not> topic_used (cleanup_topic a (ts ! i))" using c(3) [OF i(1) i(1), of a] i(2) by (auto simp: slot_named_def)
      then have "topic_box (ts ! i) b \<noteq> None \<Longrightarrow> b = a" using c(5) [OF i(1) i(1)] i(2) by (auto simp: slot_named_def)
      then show ?thesis using None Some by (cases "topic_box (ts ! i) b") (auto simp: mailbox_def)
    qed (use None in \<open>simp add: mailbox_def\<close>)
  qed
qed

section \<open>Calls on the mailboxes\<close>

datatype ipc_call =
    Subscribe bool c_chars c_chars
  | Unsubscribe c_chars c_chars
  | Publish c_chars octets
  | Receive c_chars c_chars nat
  | Pending c_chars c_chars
  | Cleanup c_chars

datatype ipc_answer = Code int | Message octets

fun ipc_do :: "ipc_call \<Rightarrow> ipc_topics \<Rightarrow> ipc_answer \<times> ipc_topics" where
  "ipc_do (Subscribe mem t a) ts = map_prod Code id (akira_ipc_subscribe mem (Some t) (Some a) ts)"
| "ipc_do (Unsubscribe t a) ts = map_prod Code id (akira_ipc_unsubscribe (Some t) (Some a) ts)"
| "ipc_do (Publish t d) ts = map_prod Code id (akira_ipc_publish (Some t) (Some d) ts)"
| "ipc_do (Receive t a len) ts = map_prod (case_sum Code Message) id (akira_ipc_recv (Some t) (Some a) (Some len) ts)"
| "ipc_do (Pending t a) ts = (Code (akira_ipc_pending (Some t) (Some a) ts), ts)"
| "ipc_do (Cleanup a) ts = (Code 0, akira_ipc_cleanup_app (Some a) ts)"

text \<open>Names in the documented limits.\<close>

fun call_ok :: "ipc_call \<Rightarrow> bool" where
  "call_ok (Subscribe mem t a) \<longleftrightarrow> short_name t \<and> short_name a"
| "call_ok (Cleanup a) \<longleftrightarrow> a \<noteq> []"
| "call_ok c \<longleftrightarrow> True"

text \<open>What a call may answer and do on the mailboxes.\<close>

fun mailbox_step :: "ipc_call \<Rightarrow> ipc_answer \<Rightarrow> mailboxes \<Rightarrow> mailboxes \<Rightarrow> bool" where
  "mailbox_step (Subscribe mem t a) r b b' \<longleftrightarrow>
     r = Code 0 \<and> b' = b((t, a) \<mapsto> case b (t, a) of None \<Rightarrow> [] | Some q \<Rightarrow> q) \<or>
     r = Code (- ENOMEM) \<and> b (t, a) = None \<and> b' = b"
| "mailbox_step (Unsubscribe t a) r b b' \<longleftrightarrow>
     (if b (t, a) = None then r = Code (- ENOENT) \<and> b' = b else r = Code 0 \<and> b' = b((t, a) := None))"
| "mailbox_step (Publish t d) r b b' \<longleftrightarrow>
     (if d = [] \<or> length d > CONFIG_AKIRA_IPC_MSG_MAX_SIZE then r = Code (- EMSGSIZE) \<and> b' = b
      else
        r = Code (int (card {a. \<exists>q. b (t, a) = Some q \<and> length q < CONFIG_AKIRA_IPC_QUEUE_DEPTH})) \<and>
        b' = (\<lambda>(t', a). if t' = t then map_option (enqueue d) (b (t', a)) else b (t', a)))"
| "mailbox_step (Receive t a len) r b b' \<longleftrightarrow>
     (if len = 0 then r = Code (- EINVAL) \<and> b' = b
      else
        case b (t, a) of
          None \<Rightarrow> r = Code (- ENOENT) \<and> b' = b
        | Some [] \<Rightarrow> r = Code (- EAGAIN) \<and> b' = b
        | Some (m # q) \<Rightarrow> r = Message (take len m) \<and> b' = b((t, a) \<mapsto> q))"
| "mailbox_step (Pending t a) r b b' \<longleftrightarrow>
     r = Code (case b (t, a) of None \<Rightarrow> - ENOENT | Some q \<Rightarrow> int (length q)) \<and> b' = b"
| "mailbox_step (Cleanup a) r b b' \<longleftrightarrow> r = Code 0 \<and> b' = (\<lambda>(t, a'). if a' = a then None else b (t, a'))"

lemma find_topic_name:
  assumes "topics_ok ts" and "find_topic ts t = Some i"
  shows "find_topic ts n = Some i \<longleftrightarrow> n = t"
proof -
  have i: "i < length ts" using assms find_topic_iff by auto
  note nm = topic_slots.used_name [OF topics_okD(1) [OF assms(1)] i]
  show ?thesis using find_topic_iff [OF assms(1)] assms(2) nm [of t] nm [of n] i by auto
qed

lemma find_topic_used: "topics_ok ts \<Longrightarrow> find_topic ts t = Some i \<Longrightarrow> i < length ts \<and> topic_used (ts ! i)"
  by (auto simp: find_topic_iff slot_named_def)

lemma create_topic_spec:
  assumes ok: "topics_ok ts" and t: "short_name t" and run: "get_or_create_topic ts t = (r, ts')"
  shows "topics_ok ts' \<and> mailbox ts' = mailbox ts \<and>
    (case r of Some i \<Rightarrow> find_topic ts' t = Some i | None \<Rightarrow> find_topic ts t = None)"
proof (cases "find_topic ts t")
  case (Some i)
  then have "r = Some i" "ts' = ts" using run by (simp_all add: get_or_create_topic_def)
  then show ?thesis using ok Some by simp
next
  case None
  show ?thesis
  proof (cases "first_index (\<lambda>t. \<not> topic_used t) ts")
    case free: None
    then show ?thesis using run ok None by (auto simp: get_or_create_topic_def)
  next
    case (Some i)
    let ?t = "(ts ! i)\<lparr>topic_name := copied_name (topic_name (ts ! i)) t AKIRA_IPC_TOPIC_NAME_MAX, topic_used := True\<rparr>"
    have i: "i < length ts" "\<not> topic_used (ts ! i)" using Some first_index_Some by fastforce+
    have r: "r = Some i" "ts' = ts[i := ?t]" using run None Some by (auto simp: get_or_create_topic_def)
    have none: "first_index (slot_named topic_used topic_name t) ts = None" using None by (simp add: find_topic_slots)
    note made = topic_slots.made_in_table [OF topics_okD(1) [OF ok] none t i, of ?t, simplified]
    have tok: "topic_ok (ts ! i)" by (rule topics_okD(2) [OF ok i(1)])
    then have "topic_ok ?t" by (simp add: topic_ok_def)
    then have ok': "topics_ok ts'"
      using ok made(1) set_update_subset_insert [of ts i ?t] unfolding topics_ok_def r by auto
    have nobox: "topic_box ?t a = None" for a
      using topic_box_unused [of ?t a] topic_okD(4) [OF tok] i(2) by auto
    have "mailbox ts' (n, a) = mailbox ts (n, a)" for n a
    proof -
      have "find_topic ts n \<noteq> Some i" using find_topic_used [OF ok] i(2) by blast
      moreover have "find_topic ts' n = (if n = t then Some i else find_topic ts n)"
        unfolding r find_topic_slots by (rule made(2))
      ultimately show ?thesis
        using nobox [of a] None i(1) by (cases "find_topic ts n") (auto simp: mailbox_def r nth_list_update)
    qed
    then have "mailbox ts' = mailbox ts" by auto
    moreover have "find_topic ts' t = Some i" using made(2) [of t] by (simp add: r find_topic_slots)
    ultimately show ?thesis using ok' r by simp
  qed
qed

lemma mailbox_none: "find_topic ts t = None \<Longrightarrow> mailbox ts (t, a) = None"
  by (simp add: mailbox_def)

lemma mailbox_some: "find_topic ts t = Some i \<Longrightarrow> mailbox ts (t, a) = topic_box (ts ! i) a"
  by (simp add: mailbox_def)

lemma topic_box_none: "topic_box t a = None \<longleftrightarrow> find_sub t a = None"
  by (simp add: topic_box_def)

lemma subscribe_step:
  assumes ok: "topics_ok ts" and t: "short_name t" and a: "short_name a"
    and run: "ipc_do (Subscribe mem t a) ts = (r, ts')"
  shows "topics_ok ts' \<and> mailbox_step (Subscribe mem t a) r (mailbox ts) (mailbox ts')"
proof -
  have names: "\<not> no_name (Some t)" "\<not> no_name (Some a)" using t a by (auto simp: no_name_def short_name_def)
  obtain ri ts1 where g: "get_or_create_topic ts t = (ri, ts1)" by (cases "get_or_create_topic ts t")
  note c = create_topic_spec [OF ok t g]
  show ?thesis
  proof (cases ri)
    case None
    then show ?thesis using run names g c mailbox_none [of ts t a] by (auto simp: akira_ipc_subscribe_def)
  next
    case (Some i)
    then have f: "find_topic ts1 t = Some i" and ok1: "topics_ok ts1" and m: "mailbox ts1 = mailbox ts" using c by auto
    have i: "i < length ts1" "topic_used (ts1 ! i)" using find_topic_used [OF ok1 f] by auto
    have tok: "topic_ok (ts1 ! i)" by (rule topics_okD(2) [OF ok1 i(1)])
    have box: "mailbox ts (t, a) = topic_box (ts1 ! i) a" using mailbox_some [OF f] m by metis
    show ?thesis
    proof (cases "find_sub (ts1 ! i) a")
      case (Some j)
      then have "mailbox ts (t, a) = Some (msgq (subs (ts1 ! i) ! j))" using box by (simp add: topic_box_def)
      then show ?thesis
        using run names g \<open>ri = Some i\<close> Some ok1 m by (auto simp: akira_ipc_subscribe_def)
    next
      case None
      obtain rj t' where cr: "create_sub mem (ts1 ! i) a = (rj, t')" by (cases "create_sub mem (ts1 ! i) a")
      have t': "topic_ok t'" "topic_used t' = topic_used (ts1 ! i)" "topic_name t' = topic_name (ts1 ! i)"
          "\<And>b. topic_box t' b = (if rj \<noteq> None \<and> b = a then Some [] else topic_box (ts1 ! i) b)"
        using create_sub_spec [OF tok i(2) None a cr] by auto
      have r: "r = Code (if rj = None then - ENOMEM else 0)" "ts' = ts1[i := t']"
        using run names g \<open>ri = Some i\<close> None cr by (auto simp: akira_ipc_subscribe_def)
      note rep = replace_topic [OF ok1 i(1) t'(1-3)]
      have new: "mailbox ts' (n, b) = (if rj \<noteq> None \<and> (n, b) = (t, a) then Some [] else mailbox ts (n, b))" for n b
        using rep(2) [of n b] find_topic_name [OF ok1 f] t'(4) m mailbox_some [OF f, of b] by (auto simp: r)
      have "mailbox ts (t, a) = None" using box None by (simp add: topic_box_def)
      then have "mailbox ts' = (if rj = None then mailbox ts else (mailbox ts)((t, a) \<mapsto> []))"
        using new by (auto simp: fun_eq_iff)
      then show ?thesis using r rep(1) \<open>mailbox ts (t, a) = None\<close> by simp
    qed
  qed
qed

lemma found_box:
  assumes "topics_ok ts" and "find_topic ts t = Some i" and "find_sub (ts ! i) a = Some j"
  shows "i < length ts" and "topic_used (ts ! i)" and "topic_ok (ts ! i)"
    and "mailbox ts (t, a) = Some (msgq (subs (ts ! i) ! j))"
  using find_topic_used [OF assms(1,2)] topics_okD(2) [OF assms(1)] mailbox_some [OF assms(2), of a] assms(3)
  by (simp_all add: topic_box_def)

lemma unsubscribe_step:
  assumes ok: "topics_ok ts" and run: "ipc_do (Unsubscribe t a) ts = (r, ts')"
  shows "topics_ok ts' \<and> mailbox_step (Unsubscribe t a) r (mailbox ts) (mailbox ts')"
proof (cases "\<exists>i j. find_topic ts t = Some i \<and> find_sub (ts ! i) a = Some j")
  case False
  then have "mailbox ts (t, a) = None" by (auto simp: mailbox_def topic_box_def split: option.split)
  then show ?thesis using False run ok by (auto simp: akira_ipc_unsubscribe_def split: option.splits)
next
  case True
  then obtain i j where f: "find_topic ts t = Some i" "find_sub (ts ! i) a = Some j" by blast
  note b = found_box [OF ok f]
  let ?t = "(ts ! i)\<lparr>subs := (subs (ts ! i))[j := destroy_sub (subs (ts ! i) ! j)]\<rparr>"
  have r: "r = Code 0" "ts' = ts[i := free_if_empty ?t]" using run f by (simp_all add: akira_ipc_unsubscribe_def Let_def)
  note d = destroy_sub_spec [OF b(3,2) f(2)]
  have u: "topic_used ?t = topic_used (ts ! i)" "topic_name ?t = topic_name (ts ! i)" by simp_all
  note rep = replace_topic_free [OF ok b(1) d(1) u]
  have "mailbox ts' (n, c) = ((mailbox ts)((t, a) := None)) (n, c)" for n c
    unfolding r(2) rep(2) d(2) find_topic_name [OF ok f(1)] by (simp add: mailbox_some [OF f(1)])
  then have "mailbox ts' = (mailbox ts)((t, a) := None)" by (auto simp: fun_eq_iff)
  then show ?thesis using rep(1) r b(4) by simp
qed

lemma publish_step:
  assumes ok: "topics_ok ts" and run: "ipc_do (Publish t d) ts = (r, ts')"
  shows "topics_ok ts' \<and> mailbox_step (Publish t d) r (mailbox ts) (mailbox ts')"
proof (cases "d = [] \<or> length d > CONFIG_AKIRA_IPC_MSG_MAX_SIZE")
  case True
  then show ?thesis using run ok by (auto simp: akira_ipc_publish_def)
next
  case False
  show ?thesis
  proof (cases "find_topic ts t")
    case None
    then have none: "mailbox ts (t, a) = None" for a by (rule mailbox_none)
    have "r = Code 0" "ts' = ts" using run None False by (auto simp: akira_ipc_publish_def)
    then show ?thesis using False ok none by (auto simp: fun_eq_iff)
  next
    case (Some i)
    have i: "i < length ts" "topic_used (ts ! i)" using find_topic_used [OF ok Some] by auto
    have tok: "topic_ok (ts ! i)" by (rule topics_okD(2) [OF ok i(1)])
    let ?t = "(ts ! i)\<lparr>subs := map (msgq_put d) (subs (ts ! i))\<rparr>"
    have r: "r = Code (int (length (filter (\<lambda>s. sub_used s \<and> length (msgq s) < CONFIG_AKIRA_IPC_QUEUE_DEPTH) (subs (ts ! i)))))"
        "ts' = ts[i := ?t]"
      using run Some False by (auto simp: akira_ipc_publish_def Let_def)
    note put = put_subs_spec [OF tok, of d]
    note rep = replace_topic [OF ok i(1) put(1)]
    have "mailbox ts' (n, a) = (if n = t then map_option (enqueue d) (mailbox ts (n, a)) else mailbox ts (n, a))" for n a
      using rep(2) [of n a] find_topic_name [OF ok Some] put(2) [of a] mailbox_some [OF Some, of a] by (auto simp: r)
    then have "mailbox ts' = (\<lambda>(n, a). if n = t then map_option (enqueue d) (mailbox ts (n, a)) else mailbox ts (n, a))"
      by (auto simp: fun_eq_iff)
    then show ?thesis
      using False r(1) rep(1) put_subs_count [OF tok] by (simp add: r(2) mailbox_some [OF Some])
  qed
qed

lemma receive_step:
  assumes ok: "topics_ok ts" and run: "ipc_do (Receive t a len) ts = (r, ts')"
  shows "topics_ok ts' \<and> mailbox_step (Receive t a len) r (mailbox ts) (mailbox ts')"
proof (cases "len = 0")
  case True
  then show ?thesis using run ok by (auto simp: akira_ipc_recv_def)
next
  case len: False
  show ?thesis
  proof (cases "\<exists>i j. find_topic ts t = Some i \<and> find_sub (ts ! i) a = Some j")
    case False
    then have "mailbox ts (t, a) = None" by (auto simp: mailbox_def topic_box_def split: option.split)
    moreover have "ipc_recv_find t a ts = Inl (- ENOENT)" using False by (auto simp: ipc_recv_find_def split: option.split)
    ultimately show ?thesis using run ok len by (auto simp: akira_ipc_recv_def)
  next
    case True
    then obtain i j where f: "find_topic ts t = Some i" "find_sub (ts ! i) a = Some j" by blast
    note b = found_box [OF ok f]
    have find: "ipc_recv_find t a ts = Inr (i, j)" using f by (simp add: ipc_recv_find_def)
    show ?thesis
    proof (cases "msgq (subs (ts ! i) ! j)")
      case Nil
      then show ?thesis using run ok len find b(4) by (auto simp: akira_ipc_recv_def ipc_recv_take_def)
    next
      case (Cons m q)
      let ?t = "(ts ! i)\<lparr>subs := (subs (ts ! i))[j := (subs (ts ! i) ! j)\<lparr>msgq := q\<rparr>]\<rparr>"
      have r: "r = Message (take len m)" "ts' = ts[i := ?t]"
        using run len find Cons by (auto simp: akira_ipc_recv_def ipc_recv_take_def)
      have "j < length (subs (ts ! i))" using f(2) find_sub_iff [OF b(3)] by blast
      then have "length (msgq (subs (ts ! i) ! j)) \<le> CONFIG_AKIRA_IPC_QUEUE_DEPTH" using topic_okD(3) [OF b(3)] by simp
      then have "length q \<le> CONFIG_AKIRA_IPC_QUEUE_DEPTH" using Cons by simp
      note d = take_sub_spec [OF b(3,2) f(2) this]
      have u: "topic_used ?t = topic_used (ts ! i)" "topic_name ?t = topic_name (ts ! i)" by simp_all
      note rep = replace_topic [OF ok b(1) d(1) u]
      have "mailbox ts' (n, c) = ((mailbox ts)((t, a) \<mapsto> q)) (n, c)" for n c
        unfolding r(2) rep(2) d(2) find_topic_name [OF ok f(1)] by (simp add: mailbox_some [OF f(1)])
      then have "mailbox ts' = (mailbox ts)((t, a) \<mapsto> q)" by (auto simp: fun_eq_iff)
      then show ?thesis using rep(1) r b(4) Cons len by simp
    qed
  qed
qed

lemma pending_step:
  assumes "ipc_do (Pending t a) ts = (r, ts')"
  shows "ts' = ts \<and> mailbox_step (Pending t a) r (mailbox ts) (mailbox ts')"
  using assms by (auto simp: akira_ipc_pending_def mailbox_def topic_box_def split: option.splits)

lemma cleanup_step:
  assumes ok: "topics_ok ts" and "a \<noteq> []" and run: "ipc_do (Cleanup a) ts = (r, ts')"
  shows "topics_ok ts' \<and> mailbox_step (Cleanup a) r (mailbox ts) (mailbox ts')"
proof -
  have r: "r = Code 0" "ts' = map (cleanup_topic a) ts"
    using run assms(2) by (auto simp: akira_ipc_cleanup_app_def no_name_def)
  then show ?thesis using cleanup_spec [OF ok, of a] by (auto simp: fun_eq_iff)
qed

lemma ipc_step:
  assumes "topics_ok ts" and "call_ok c" and "ipc_do c ts = (r, ts')"
  shows "topics_ok ts' \<and> mailbox_step c r (mailbox ts) (mailbox ts')"
proof (cases c)
  case (Subscribe mem t a)
  then show ?thesis using subscribe_step [OF assms(1)] assms(2,3) by (metis call_ok.simps(1))
next
  case (Unsubscribe t a)
  then show ?thesis using unsubscribe_step [OF assms(1)] assms(3) by metis
next
  case (Publish t d)
  then show ?thesis using publish_step [OF assms(1)] assms(3) by metis
next
  case (Receive t a len)
  then show ?thesis using receive_step [OF assms(1)] assms(3) by metis
next
  case (Pending t a)
  then show ?thesis using pending_step assms(1,3) by metis
next
  case (Cleanup a)
  then show ?thesis using cleanup_step [OF assms(1)] assms(2,3) by (metis call_ok.simps(2))
qed

lemma ipc_init_ok: "topics_ok ipc_init"
  by (auto simp: topics_ok_def ipc_init_def topic_ok_def table_ok_def slot_named_def ipc_limits)

text \<open>The answers of a sequence of calls.\<close>

fun ipc_run :: "ipc_call list \<Rightarrow> ipc_topics \<Rightarrow> ipc_answer list \<times> ipc_topics" where
  "ipc_run [] ts = ([], ts)"
| "ipc_run (c # cs) ts =
     (case ipc_do c ts of (r, ts) \<Rightarrow> case ipc_run cs ts of (rs, ts) \<Rightarrow> (r # rs, ts))"

fun mailbox_run :: "ipc_call list \<Rightarrow> ipc_answer list \<Rightarrow> mailboxes \<Rightarrow> mailboxes \<Rightarrow> bool" where
  "mailbox_run [] rs b b' \<longleftrightarrow> rs = [] \<and> b' = b"
| "mailbox_run (c # cs) [] b b' \<longleftrightarrow> False"
| "mailbox_run (c # cs) (r # rs) b b' \<longleftrightarrow> (\<exists>b1. mailbox_step c r b b1 \<and> mailbox_run cs rs b1 b')"

lemma ipc_run_refines:
  "topics_ok ts \<Longrightarrow> \<forall>c \<in> set cs. call_ok c \<Longrightarrow> ipc_run cs ts = (rs, ts') \<Longrightarrow>
     topics_ok ts' \<and> mailbox_run cs rs (mailbox ts) (mailbox ts')"
proof (induction cs arbitrary: ts rs)
  case (Cons c cs)
  obtain r ts1 where one: "ipc_do c ts = (r, ts1)" by (cases "ipc_do c ts")
  obtain rs1 where rest: "ipc_run cs ts1 = (rs1, ts')" "rs = r # rs1"
    using Cons.prems(3) one by (auto split: prod.splits)
  have s: "topics_ok ts1" "mailbox_step c r (mailbox ts) (mailbox ts1)"
    using ipc_step [OF Cons.prems(1) _ one] Cons.prems(2) by auto
  then show ?case using Cons.IH [OF s(1) _ rest(1)] Cons.prems(2) rest(2) by auto
qed auto

text \<open>
  C25: The message service is a set of bounded mailboxes. For names within the documented length, any
  sequence of calls from start-up gives the answers, and does to the queues, what it would on one
  bounded queue per topic and subscriber: a publication reaches, once and in order, each subscriber
  of its topic whose queue is not full, and counts them; a reception takes the oldest message; a
  subscription may be refused for lack of space and then changes nothing; and ending a
  subscription or an application drops exactly its queues.
\<close>

theorem ipc_refines_mailboxes:
  assumes "\<forall>c \<in> set cs. call_ok c" and "ipc_run cs ipc_init = (rs, ts)"
  shows "mailbox_run cs rs Map.empty (mailbox ts)"
proof -
  have "find_topic ipc_init t = None" for t
    by (auto simp: find_topic_slots first_index_None ipc_init_def slot_named_def)
  then have "mailbox ipc_init (t, a) = None" for t a by (rule mailbox_none)
  then have "mailbox ipc_init = Map.empty" by (auto simp: fun_eq_iff)
  then show ?thesis using ipc_run_refines [OF ipc_init_ok assms] by simp
qed

text \<open>
  The tables stay well formed. After any calls with names within the documented length every topic
  and application name is zero-terminated in its array, no two topics in use and no two subscribers of
  a topic have the same name, a free topic has no subscriber and no queue is longer than its depth.
\<close>

theorem ipc_tables_well_formed:
  assumes "\<forall>c \<in> set cs. call_ok c" and "ipc_run cs ipc_init = (rs, ts)"
  shows "topics_ok ts"
  using ipc_run_refines [OF ipc_init_ok assms] by simp

section \<open>Examples\<close>

definition chat :: c_chars where "chat = text_chars ''chat''"
definition game :: c_chars where "game = text_chars ''game''"

definition demo_ipc :: "ipc_call list" where
  "demo_ipc = [Subscribe True chat game, Publish chat [1, 2, 3], Publish chat [4], Receive chat game 2, Pending chat game]"

lemma ipc_refines_mailboxes_witness:
  "mailbox_run demo_ipc [Code 0, Code 1, Code 1, Message [1, 2], Code 1] Map.empty (mailbox (snd (ipc_run demo_ipc ipc_init)))"
proof -
  have "\<forall>c \<in> set demo_ipc. call_ok c" by code_simp
  moreover have "fst (ipc_run demo_ipc ipc_init) = [Code 0, Code 1, Code 1, Message [1, 2], Code 1]" by code_simp
  then have "ipc_run demo_ipc ipc_init = ([Code 0, Code 1, Code 1, Message [1, 2], Code 1], snd (ipc_run demo_ipc ipc_init))"
    by (metis prod.collapse)
  ultimately show ?thesis by (rule ipc_refines_mailboxes)
qed

lemma ipc_tables_well_formed_witness: "topics_ok (snd (ipc_run demo_ipc ipc_init))"
proof -
  have "\<forall>c \<in> set demo_ipc. call_ok c" by code_simp
  then show ?thesis by (rule ipc_tables_well_formed) (rule prod.collapse [symmetric])
qed

text \<open>
  A topic name of 32 characters is stored without its last one and never matches itself: a second
  subscription to it makes a second topic.
\<close>

lemma long_names_duplicate_topics:
  "let n = replicate 32 97 in
   length (filter topic_used (snd (ipc_run [Subscribe True n game, Subscribe True n game] ipc_init))) = 2"
  by code_simp

text \<open>A subscription that fails for lack of memory leaves its new topic in use, without a subscriber.\<close>

lemma failed_subscription_keeps_topic:
  "ipc_run [Subscribe False chat game] ipc_init = ([Code (- ENOMEM)], snd (ipc_run [Subscribe False chat game] ipc_init))"
  "length (filter topic_used (snd (ipc_run [Subscribe False chat game] ipc_init))) = 1"
  by code_simp+

end
