(* ===== verification/Simple_Json.thy ===== *)
theory Simple_Json
  imports C_Strings
begin

text \<open>
  The reader of manifest texts (\<open>src/src/lib/simple_json.c\<close>): a scan over an octet buffer for string
  tokens, the capability list, and the values of string and integer members.

  An index into the buffer is a natural number and the buffer's length is that of the list. The
  string that starts at index \<open>i\<close> is collected in a buffer that the function allocates and doubles;
  \<open>mem i n\<close> tells whether its allocation of \<open>n\<close> octets succeeds. Each string is parsed once in a scan, at
  its own index, so this allows every sequence of successes and failures.
\<close>

section \<open>The code\<close>

abbreviation QUOTE :: u8 where "QUOTE \<equiv> 34"
abbreviation BACKSLASH :: u8 where "BACKSLASH \<equiv> 92"

function skip_ws :: "octets \<Rightarrow> nat \<Rightarrow> nat" where
  "skip_ws s i = (if i < length s \<and> isspace (s ! i) then skip_ws s (i + 1) else i)"
  by pat_completeness auto
termination by (relation "measure (\<lambda>(s, i). length s - i)") auto

declare skip_ws.simps [simp del]

text \<open>The escape \<open>esc\<close>, with \<open>i\<close> the index after it: the next index and the collected octets.\<close>

definition json_escape_step :: "octets \<Rightarrow> u8 \<Rightarrow> nat \<Rightarrow> octets \<Rightarrow> nat \<times> octets" where
  "json_escape_step s esc i buf =
     (if esc = QUOTE then (i, buf @ [QUOTE])
      else if esc = 47 then (i, buf @ [47])
      else if esc = 98 then (i, buf @ [8])
      else if esc = 102 then (i, buf @ [12])
      else if esc = 110 then (i, buf @ [10])
      else if esc = 114 then (i, buf @ [13])
      else if esc = 116 then (i, buf @ [9])
      else if esc = 117 then (if i + 4 \<le> length s then i + 4 else i, buf)
      else (i, buf @ [esc]))"

text \<open>The end of the loop body: the buffer doubles when it is full.\<close>

definition json_grow :: "(nat \<Rightarrow> bool) \<Rightarrow> nat \<Rightarrow> octets \<Rightarrow> nat option" where
  "json_grow mem cap buf =
     (if cap \<le> length buf + 1 then (if mem (cap * 2) then Some (cap * 2) else None) else Some cap)"

lemma json_escape_step_index: "json_escape_step s esc i buf = (j, buf') \<Longrightarrow> i \<le> j"
  by (auto simp: json_escape_step_def split: if_splits)

function json_string_loop :: "(nat \<Rightarrow> bool) \<Rightarrow> octets \<Rightarrow> nat \<Rightarrow> nat \<Rightarrow> octets \<Rightarrow> (nat \<times> octets) option" where
  "json_string_loop mem s i cap buf =
     (if i < length s then
        (let c = s ! i in
         if c = BACKSLASH then
           (if length s \<le> i + 1 then Some (i + 1, buf)
            else
              (case json_escape_step s (s ! (i + 1)) (i + 2) buf of (j, buf') \<Rightarrow>
                 (case json_grow mem cap buf' of
                    None \<Rightarrow> None
                  | Some cap' \<Rightarrow> json_string_loop mem s j cap' buf')))
         else if c = QUOTE then Some (i + 1, buf)
         else
           (case json_grow mem cap (buf @ [c]) of
              None \<Rightarrow> None
            | Some cap' \<Rightarrow> json_string_loop mem s (i + 1) cap' (buf @ [c])))
      else Some (i, buf))"
  by pat_completeness auto
termination
  by (relation "measure (\<lambda>(mem, s, i, cap, buf). length s - i)")
    (auto dest!: json_escape_step_index [OF sym])

declare json_string_loop.simps [simp del]

text \<open>The value is the C string in the buffer.\<close>

definition parse_json_string :: "(nat \<Rightarrow> nat \<Rightarrow> bool) \<Rightarrow> octets \<Rightarrow> nat \<Rightarrow> (nat \<times> c_chars) option" where
  "parse_json_string mem s i =
     (if length s \<le> i \<or> s ! i \<noteq> QUOTE then None
      else if \<not> mem i 32 then None
      else map_option (\<lambda>(j, buf). (j, c_string_at buf)) (json_string_loop (mem i) s (i + 1) 32 []))"

definition json_cap_names :: "(c_chars \<times> u32) list" where
  "json_cap_names = map (\<lambda>(s, m). (text_chars s, m))
    [(''display.write'', 2 ^ 0), (''input.read'', 2 ^ 1), (''sensor.read'', 2 ^ 2), (''rf.transceive'', 2 ^ 3),
     (''display.*'', 2 ^ 0), (''input.*'', 2 ^ 1), (''sensor.*'', 2 ^ 2), (''rf.*'', 2 ^ 3)]"

definition capability_str_to_mask :: "c_chars \<Rightarrow> u32" where
  "capability_str_to_mask s = (case map_of json_cap_names s of None \<Rightarrow> 0 | Some m \<Rightarrow> m)"

lemma skip_ws_index: "i \<le> skip_ws s i"
  by (induction s i rule: skip_ws.induct) (subst skip_ws.simps, force)

lemma json_string_loop_index: "json_string_loop mem s i cap buf = Some (j, v) \<Longrightarrow> i \<le> j"
proof (induction mem s i cap buf rule: json_string_loop.induct)
  case (1 mem s i cap buf)
  obtain e buf' where e: "json_escape_step s (s ! (i + 1)) (i + 2) buf = (e, buf')" by force
  have "i + 2 \<le> e" using json_escape_step_index [OF e] .
  moreover have "e \<le> j" if "i < length s" "s ! i = BACKSLASH" "\<not> length s \<le> i + 1" "json_grow mem cap buf' = Some c'"
    "json_string_loop mem s e c' buf' = Some (j, v)" for c'
    using 1(1) [OF that(1) refl that(2,3) e [symmetric] that(4,5)] .
  moreover have "j \<in> {i, i + 1} \<or> i + 1 \<le> j \<or> e \<le> j"
    using 1(3) e calculation(2) by (subst (asm) json_string_loop.simps)
      (auto simp: Let_def split: if_splits option.splits dest: 1(2))
  ultimately show ?case by auto
qed

lemma parse_json_string_index: "parse_json_string mem s i = Some (j, v) \<Longrightarrow> i < j \<and> i < length s"
  by (auto simp: parse_json_string_def split: if_splits dest!: json_string_loop_index)

text \<open>A value that is not a string is skipped up to the next comma or bracket.\<close>

function skip_value :: "octets \<Rightarrow> nat \<Rightarrow> nat" where
  "skip_value s i = (if i < length s \<and> s ! i \<noteq> 44 \<and> s ! i \<noteq> 93 then skip_value s (i + 1) else i)"
  by pat_completeness auto
termination by (relation "measure (\<lambda>(s, i). length s - i)") auto

declare skip_value.simps [simp del]

lemma skip_value_index: "i \<le> skip_value s i"
  by (induction s i rule: skip_value.induct) (subst skip_value.simps, force)

lemma skip_value_progress: "i < length s \<Longrightarrow> s ! i \<noteq> 44 \<Longrightarrow> s ! i \<noteq> 93 \<Longrightarrow> i < skip_value s i"
  using skip_value_index [of "i + 1" s] by (subst skip_value.simps) simp

function capability_array_loop :: "(nat \<Rightarrow> nat \<Rightarrow> bool) \<Rightarrow> octets \<Rightarrow> nat \<Rightarrow> u32 \<Rightarrow> u32" where
  "capability_array_loop mem s i m =
     (if i < length s then
        (let i = skip_ws s i in
         if length s \<le> i then m
         else if s ! i = 93 then m
         else if s ! i = 44 then capability_array_loop mem s (i + 1) m
         else if s ! i = QUOTE then
           (case parse_json_string mem s i of
              None \<Rightarrow> m
            | Some (vi, val) \<Rightarrow> capability_array_loop mem s vi (m OR capability_str_to_mask val))
         else capability_array_loop mem s (skip_value s i) m)
      else m)"
  by pat_completeness auto
termination
proof (relation "measure (\<lambda>(mem, s, i, m). length s - i)", goal_cases)
  case (2 mem s i m x)
  then show ?case using skip_ws_index [of i s] by simp
next
  case (3 mem s i m x p vi val)
  then show ?case using skip_ws_index [of i s] parse_json_string_index [of mem s x vi val] by simp
next
  case (4 mem s i m x)
  then show ?case using skip_ws_index [of i s] skip_value_progress [of x s] by simp
qed simp

declare capability_array_loop.simps [simp del]

text \<open>The scan for the capability list. It ends after the first list, so the mask is zero until then.\<close>

function capabilities_loop :: "(nat \<Rightarrow> nat \<Rightarrow> bool) \<Rightarrow> octets \<Rightarrow> nat \<Rightarrow> u32" where
  "capabilities_loop mem s i =
     (if i < length s then
        (if s ! i = QUOTE then
           (case parse_json_string mem s i of
              None \<Rightarrow> 0
            | Some (ni, key) \<Rightarrow>
                if key = text_chars ''capabilities'' then
                  (let i = skip_ws s ni in
                   if i < length s \<and> s ! i = 58 then
                     (let i = skip_ws s (i + 1) in
                      if i < length s \<and> s ! i = 91 then capability_array_loop mem s (i + 1) 0
                      else capabilities_loop mem s i)
                   else capabilities_loop mem s i)
                else capabilities_loop mem s ni)
         else capabilities_loop mem s (i + 1))
      else 0)"
  by pat_completeness auto
termination
proof (relation "measure (\<lambda>(mem, s, i). length s - i)", goal_cases)
  case (2 mem s i p ni key x y)
  then have "i < ni" "ni \<le> x" "x + 1 \<le> y" "i < length s"
    using parse_json_string_index [of mem s i ni key] skip_ws_index [of ni s] skip_ws_index [of "x + 1" s] by simp_all
  then show ?case by simp
next
  case (3 mem s i p ni key x)
  then have "i < ni" "ni \<le> x" "i < length s"
    using parse_json_string_index [of mem s i ni key] skip_ws_index [of ni s] by simp_all
  then show ?case by simp
next
  case (4 mem s i p ni key)
  then have "i < ni" "i < length s" using parse_json_string_index [of mem s i ni key] by simp_all
  then show ?case by simp
qed auto

declare capabilities_loop.simps [simp del]

definition parse_capabilities_mask :: "(nat \<Rightarrow> nat \<Rightarrow> bool) \<Rightarrow> octets option \<Rightarrow> u32" where
  "parse_capabilities_mask mem json =
     (case json of
        None \<Rightarrow> 0
      | Some s \<Rightarrow> if length s = 0 then 0 else capabilities_loop mem s (skip_ws s 0))"

text \<open>What the scan for a member finds: nothing, a string that cannot be allocated, or the value.\<close>

function get_string_loop ::
  "(nat \<Rightarrow> nat \<Rightarrow> bool) \<Rightarrow> octets \<Rightarrow> c_chars \<Rightarrow> nat \<Rightarrow> int + c_chars" where
  "get_string_loop mem s key i =
     (if i < length s then
        (if s ! i = QUOTE then
           (case parse_json_string mem s i of
              None \<Rightarrow> Inl (- ENOENT)
            | Some (ni, k) \<Rightarrow>
                if k = key then
                  (let i = skip_ws s ni;
                       i = if i < length s \<and> s ! i = 58 then i + 1 else i;
                       i = skip_ws s i in
                   if i < length s \<and> s ! i = QUOTE then
                     (case parse_json_string mem s i of None \<Rightarrow> Inl (- EIO) | Some (vi, val) \<Rightarrow> Inr val)
                   else Inl (- ENOENT))
                else get_string_loop mem s key ni)
         else get_string_loop mem s key (i + 1))
      else Inl (- ENOENT))"
  by pat_completeness auto
termination
proof (relation "measure (\<lambda>(mem, s, key, i). length s - i)", goal_cases)
  case (2 mem s key i p ni k)
  then have "i < ni" "i < length s" using parse_json_string_index [of mem s i ni k] by simp_all
  then show ?case by simp
qed auto

declare get_string_loop.simps [simp del]

text \<open>\<open>out\<close> is the array of the caller with its old contents; the result is the code and the array.\<close>

definition simple_json_get_string ::
  "(nat \<Rightarrow> nat \<Rightarrow> bool) \<Rightarrow> octets option \<Rightarrow> c_chars option \<Rightarrow> octets \<Rightarrow> int \<times> octets" where
  "simple_json_get_string mem json key out =
     (case (json, key) of
        (Some s, Some key) \<Rightarrow>
          if length out = 0 then (- EINVAL, out)
          else
            (case get_string_loop mem s key (skip_ws s 0) of
               Inl e \<Rightarrow> (e, out)
             | Inr val \<Rightarrow> (0, copied_name out val (length out)))
      | _ \<Rightarrow> (- EINVAL, out))"

text \<open>
  The fallback reads the text as a C string, so it also sees \<open>beyond\<close>, what follows the text in memory up
  to a zero. The 32-octet buffer of the value is fully written before it is read.
\<close>

definition json_int_fallback :: "c_chars \<Rightarrow> c_chars \<Rightarrow> int option" where
  "json_int_fallback text key =
     (case strstr text key of
        None \<Rightarrow> None
      | Some kptr \<Rightarrow>
          (case strchr kptr 58 of
             None \<Rightarrow> None
           | Some c \<Rightarrow>
               (case dropWhile isspace (tl c) of
                  [] \<Rightarrow> None
                | d # t \<Rightarrow> Some (if d = 45 then digits_value 0 t * (- 1) else digits_value 0 (d # t)))))"

definition simple_json_get_int ::
  "(nat \<Rightarrow> nat \<Rightarrow> bool) \<Rightarrow> octets option \<Rightarrow> octets \<Rightarrow> c_chars option \<Rightarrow> int + int" where
  "simple_json_get_int mem json beyond key =
     (case (json, key) of
        (Some s, Some k) \<Rightarrow>
          (case simple_json_get_string mem json key (replicate 32 0) of
             (r, buf) \<Rightarrow>
               if r = 0 then Inr (atoi (c_string_at buf))
               else
                 (case json_int_fallback (c_string_at (s @ beyond)) k of
                    None \<Rightarrow> Inl (- ENOENT)
                  | Some v \<Rightarrow> Inr v))
      | _ \<Rightarrow> Inl (- EINVAL))"

section \<open>Texts as tokens\<close>

text \<open>
  A text as the scan sees it: strings, written with the escapes the reader knows, and any other
  octets. The scan does not look at the structure of the text beyond that.
\<close>

definition escape_of :: "u8 \<Rightarrow> octets" where
  "escape_of c =
     (if c = QUOTE then [BACKSLASH, QUOTE] else if c = BACKSLASH then [BACKSLASH, BACKSLASH]
      else if c = 8 then [BACKSLASH, 98] else if c = 12 then [BACKSLASH, 102]
      else if c = 10 then [BACKSLASH, 110] else if c = 13 then [BACKSLASH, 114]
      else if c = 9 then [BACKSLASH, 116] else [c])"

definition json_quoted :: "c_chars \<Rightarrow> octets" where
  "json_quoted v = QUOTE # concat (map escape_of v) @ [QUOTE]"

datatype json_token = Plain u8 | Quoted c_chars

fun token_text :: "json_token \<Rightarrow> octets" where
  "token_text (Plain c) = [c]"
| "token_text (Quoted v) = json_quoted v"

definition json_text :: "json_token list \<Rightarrow> octets" where
  "json_text ts = concat (map token_text ts)"

fun json_token_ok :: "json_token \<Rightarrow> bool" where
  "json_token_ok (Plain c) \<longleftrightarrow> c \<noteq> QUOTE"
| "json_token_ok (Quoted v) \<longleftrightarrow> is_c_chars v"

definition always :: "nat \<Rightarrow> nat \<Rightarrow> bool" where
  "always i n = True"

lemma json_grow_always: "\<forall>n. mem n \<Longrightarrow> json_grow mem cap buf = Some (if cap \<le> length buf + 1 then cap * 2 else cap)"
  by (simp add: json_grow_def)

lemma loop_escape:
  assumes "\<forall>n. mem n"
  shows "\<exists>cap'. json_string_loop mem (pre @ escape_of c @ post) (length pre) cap buf =
    json_string_loop mem (pre @ escape_of c @ post) (length (pre @ escape_of c)) cap' (buf @ [c])"
  by (subst json_string_loop.simps)
    (auto simp: escape_of_def json_escape_step_def nth_append json_grow_always [OF assms])

lemma loop_escapes:
  assumes "\<forall>n. mem n"
  shows "json_string_loop mem (pre @ concat (map escape_of v) @ QUOTE # post) (length pre) cap buf =
    Some (length pre + length (concat (map escape_of v)) + 1, buf @ v)"
proof (induction v arbitrary: pre cap buf)
  case Nil
  show ?case by (subst json_string_loop.simps) (simp add: nth_append)
next
  case (Cons c v)
  obtain cap' where "json_string_loop mem (pre @ escape_of c @ (concat (map escape_of v) @ QUOTE # post)) (length pre) cap buf =
    json_string_loop mem (pre @ escape_of c @ (concat (map escape_of v) @ QUOTE # post)) (length (pre @ escape_of c)) cap' (buf @ [c])"
    using loop_escape [OF assms] by blast
  then show ?case using Cons [of "pre @ escape_of c" cap' "buf @ [c]"] by simp
qed

text \<open>A written string is read back, with any octets in front of it and behind it.\<close>

lemma parse_quoted:
  assumes "\<forall>i n. mem i n" and "is_c_chars v"
  shows "parse_json_string mem (pre @ json_quoted v @ post) (length pre) =
    Some (length (pre @ json_quoted v), v)"
proof -
  have "json_string_loop (mem (length pre)) ((pre @ [QUOTE]) @ concat (map escape_of v) @ QUOTE # post) (length (pre @ [QUOTE])) 32 [] =
    Some (length (pre @ [QUOTE]) + length (concat (map escape_of v)) + 1, [] @ v)"
    by (rule loop_escapes) (simp add: assms(1))
  then show ?thesis using assms by (simp add: parse_json_string_def json_quoted_def nth_append c_string_at_chars)
qed

lemma skip_ws_run:
  assumes "\<forall>c \<in> set w. isspace c" and "r = [] \<or> \<not> isspace (hd r)"
  shows "skip_ws (pre @ w @ r) (length pre) = length (pre @ w)"
  using assms(1)
proof (induction w arbitrary: pre)
  case Nil
  show ?case using assms(2) by (subst skip_ws.simps) (auto simp: nth_append hd_conv_nth)
next
  case (Cons c w)
  have "skip_ws ((pre @ [c]) @ w @ r) (length (pre @ [c])) = length ((pre @ [c]) @ w)"
    by (rule Cons.IH) (use Cons.prems in simp)
  then show ?case using Cons.prems by (subst skip_ws.simps) (simp add: nth_append)
qed

lemma not_space [simp]: "\<not> isspace QUOTE" "\<not> isspace 58" "\<not> isspace 44" "\<not> isspace 91" "\<not> isspace 93"
  by (simp_all add: isspace_def)

lemma get_string_step:
  assumes "json_token_ok t" and "t \<noteq> Quoted key"
  shows "get_string_loop always (pre @ token_text t @ post) key (length pre) =
    get_string_loop always (pre @ token_text t @ post) key (length (pre @ token_text t))"
proof (cases t)
  case (Plain c)
  then show ?thesis using assms by (subst get_string_loop.simps) (simp add: nth_append)
next
  case (Quoted v)
  then have p: "parse_json_string always (pre @ token_text t @ post) (length pre) = Some (length (pre @ token_text t), v)"
    using parse_quoted [of always v pre post] assms(1) by (simp add: always_def)
  have "(pre @ token_text t @ post) ! length pre = QUOTE" "length pre < length (pre @ token_text t @ post)"
    using Quoted by (simp_all add: json_quoted_def nth_append)
  then show ?thesis using p Quoted assms(2) by (subst get_string_loop.simps) simp
qed

lemma get_string_tokens:
  assumes "\<forall>t \<in> set ts. json_token_ok t \<and> t \<noteq> Quoted key"
  shows "get_string_loop always (pre @ json_text ts @ post) key (length pre) =
    get_string_loop always (pre @ json_text ts @ post) key (length (pre @ json_text ts))"
  using assms
proof (induction ts arbitrary: pre)
  case Nil
  then show ?case by (simp add: json_text_def)
next
  case (Cons t ts)
  have "get_string_loop always (pre @ token_text t @ (json_text ts @ post)) key (length pre) =
    get_string_loop always (pre @ token_text t @ (json_text ts @ post)) key (length (pre @ token_text t))"
    using Cons.prems by (intro get_string_step) auto
  then show ?case using Cons.IH [of "pre @ token_text t"] Cons.prems by (simp add: json_text_def)
qed

lemma get_string_ends:
  assumes "length s \<le> i"
  shows "get_string_loop mem s key i = Inl (- ENOENT)"
  using assms by (subst get_string_loop.simps) simp

text \<open>Leading space is also passed by the scan itself.\<close>

lemma get_string_space: "get_string_loop mem s key (skip_ws s i) = get_string_loop mem s key i"
proof (induction s i rule: skip_ws.induct)
  case (1 s i)
  show ?case
  proof (cases "i < length s \<and> isspace (s ! i)")
    case True
    then have "s ! i \<noteq> QUOTE" by (auto simp: isspace_def)
    then have "get_string_loop mem s key i = get_string_loop mem s key (i + 1)"
      using True by (subst get_string_loop.simps) simp
    moreover have "skip_ws s i = skip_ws s (i + 1)" using True by (subst skip_ws.simps) simp
    ultimately show ?thesis using 1 True by simp
  next
    case False
    then have "skip_ws s i = i" by (subst skip_ws.simps) (simp only: if_False)
    then show ?thesis by simp
  qed
qed

lemma get_string_member:
  assumes "is_c_chars key" and "is_c_chars v" and "\<forall>c \<in> set w1. isspace c" and "\<forall>c \<in> set w2. isspace c"
  shows "get_string_loop always (pre @ json_quoted key @ w1 @ 58 # w2 @ json_quoted v @ post) key (length pre) = Inr v"
proof -
  let ?s = "pre @ json_quoted key @ w1 @ 58 # w2 @ json_quoted v @ post"
  let ?p1 = "pre @ json_quoted key" and ?p2 = "pre @ json_quoted key @ w1 @ [58]"
  have q: "hd (json_quoted v @ post) = QUOTE" "json_quoted v \<noteq> []" by (simp_all add: json_quoted_def)
  have k: "parse_json_string always ?s (length pre) = Some (length ?p1, key)"
    using parse_quoted [of always key pre "w1 @ 58 # w2 @ json_quoted v @ post"] assms(1) by (simp add: always_def)
  have s1: "skip_ws ?s (length ?p1) = length (?p1 @ w1)"
    using skip_ws_run [OF assms(3), of "58 # w2 @ json_quoted v @ post" ?p1] by simp
  have c: "?s ! length (?p1 @ w1) = 58" "length (?p1 @ w1) < length ?s"
    using nth_append_length [of "?p1 @ w1" 58] by (simp_all add: nth_append)
  have s2: "skip_ws ?s (length (?p1 @ w1) + 1) = length (?p2 @ w2)"
    using skip_ws_run [OF assms(4), of "json_quoted v @ post" ?p2] q by simp
  have d: "?s ! length (?p2 @ w2) = QUOTE" "length (?p2 @ w2) < length ?s"
    using nth_append_length [of "?p2 @ w2" QUOTE "concat (map escape_of v) @ [QUOTE] @ post"]
    by (simp_all add: json_quoted_def)
  have e: "parse_json_string always ?s (length (?p2 @ w2)) = Some (length (?p2 @ w2 @ json_quoted v), v)"
    using parse_quoted [of always v "?p2 @ w2" post] assms(2) by (simp add: always_def)
  have b: "?s ! length pre = QUOTE" "length pre < length ?s" by (simp_all add: json_quoted_def nth_append)
  show ?thesis
    by (subst get_string_loop.simps) (simp only: b k s1 c s2 d e Let_def if_True option.case prod.case simp_thms)
qed

section \<open>What the reader finds\<close>

lemma json_member_value:
  assumes "\<forall>t \<in> set ts. json_token_ok t \<and> t \<noteq> Quoted key" and "is_c_chars key" and "is_c_chars v"
    and "\<forall>c \<in> set w1 \<union> set w2. isspace c" and "out \<noteq> []"
  shows "simple_json_get_string always
      (Some (json_text ts @ json_quoted key @ w1 @ 58 # w2 @ json_quoted v @ rest)) (Some key) out =
    (0, copied_name out v (length out))"
proof -
  have "get_string_loop always (json_text ts @ json_quoted key @ w1 @ 58 # w2 @ json_quoted v @ rest) key 0 = Inr v"
    using get_string_tokens [OF assms(1), of "[]" "json_quoted key @ w1 @ 58 # w2 @ json_quoted v @ rest"]
      get_string_member [OF assms(2,3), of w1 w2 "json_text ts" rest] assms(4) by simp
  then show ?thesis using assms(5) by (simp add: simple_json_get_string_def get_string_space)
qed

lemma json_member_missing:
  assumes "\<forall>t \<in> set ts. json_token_ok t \<and> t \<noteq> Quoted key" and "out \<noteq> []"
  shows "simple_json_get_string always (Some (json_text ts)) (Some key) out = (- ENOENT, out)"
proof -
  have "get_string_loop always (json_text ts) key 0 = Inl (- ENOENT)"
    using get_string_tokens [OF assms(1), of "[]" "[]"] get_string_ends [of "json_text ts" "length (json_text ts)"] by simp
  then show ?thesis using assms(2) by (simp add: simple_json_get_string_def get_string_space)
qed

text \<open>
  The reader finds a member of a manifest whatever surrounds it. In a text in which no string before
  it equals the key, the value of the first member with the key is returned exactly as it was
  written, escapes and white space removed, and cut to the array of the caller; a text without the
  key is answered not found and leaves the array alone. The condition is on every string, values
  included, because the scan does not tell keys from values.
\<close>

theorem json_string_member_found:
  assumes "\<forall>t \<in> set ts. json_token_ok t \<and> t \<noteq> Quoted key" and "is_c_chars key" and "is_c_chars v"
    and "\<forall>c \<in> set w1 \<union> set w2. isspace c" and "out \<noteq> []"
  shows "(\<exists>out'. simple_json_get_string always
        (Some (json_text ts @ json_quoted key @ w1 @ 58 # w2 @ json_quoted v @ rest)) (Some key) out = (0, out') \<and>
      length out' = length out \<and> c_string_at out' = take (length out - 1) v) \<and>
    simple_json_get_string always (Some (json_text ts)) (Some key) out = (- ENOENT, out)"
  using json_member_value [OF assms] json_member_missing [OF assms(1,5)]
    copied_name_chars [OF refl _ assms(3), of out] length_copied_name_gen [of "length out" out v] assms(5) by simp

theorem json_string_member_found_witness:
  "\<exists>out'. simple_json_get_string always
      (Some (json_text [Plain 123] @ json_quoted (text_chars ''name'') @ [32] @ 58 # [32] @ json_quoted (text_chars ''demo'') @ [125]))
      (Some (text_chars ''name'')) (replicate 8 0) = (0, out') \<and> c_string_at out' = text_chars ''demo''"
proof -
  have p: "\<forall>t \<in> set [Plain 123]. json_token_ok t \<and> t \<noteq> Quoted (text_chars ''name'')" by simp
  have k: "is_c_chars (text_chars ''name'')" "is_c_chars (text_chars ''demo'')" by (simp_all add: is_c_chars_def text_chars_def)
  have w: "\<forall>c \<in> set [32] \<union> set [32]. isspace c" by (simp add: isspace_def)
  have "length (text_chars ''demo'') \<le> 7" by (simp add: text_chars_def)
  then show ?thesis using json_string_member_found [OF p k w, of "replicate 8 0" "[125]"] by auto
qed

text \<open>A value that equals the key hides the member behind it.\<close>

lemma value_hides_member:
  "simple_json_get_string always (Some (json_text
      [Plain 123, Quoted (text_chars ''kind''), Plain 58, Quoted (text_chars ''name''), Plain 44,
       Quoted (text_chars ''name''), Plain 58, Quoted (text_chars ''demo''), Plain 125]))
     (Some (text_chars ''name'')) (replicate 8 0) = (- ENOENT, replicate 8 0)"
  by code_simp

section \<open>The capability list\<close>

text \<open>The part of a list between the brackets: strings, commas and white space.\<close>

fun list_token_ok :: "json_token \<Rightarrow> bool" where
  "list_token_ok (Plain c) \<longleftrightarrow> c = 44 \<or> isspace c"
| "list_token_ok (Quoted v) \<longleftrightarrow> is_c_chars v"

fun token_caps :: "json_token \<Rightarrow> u32" where
  "token_caps (Plain c) = 0"
| "token_caps (Quoted v) = capability_str_to_mask v"

lemma skip_ws_at: "i < length s \<Longrightarrow> \<not> isspace (s ! i) \<Longrightarrow> skip_ws s i = i"
  by (subst skip_ws.simps) simp

lemma array_space: "i < length s \<Longrightarrow> isspace (s ! i) \<Longrightarrow>
  capability_array_loop mem s i m = capability_array_loop mem s (i + 1) m"
proof -
  assume i: "i < length s" "isspace (s ! i)"
  then have k: "skip_ws s i = skip_ws s (i + 1)" by (subst skip_ws.simps) simp
  show ?thesis
  proof (cases "i + 1 < length s")
    case True
    then show ?thesis using i(1) k
      by (subst (1 2) capability_array_loop.simps) (simp only: Let_def k if_True)
  next
    case False
    then have "skip_ws s (i + 1) = i + 1" by (subst skip_ws.simps) simp
    then show ?thesis using i(1) k False
      by (subst (1 2) capability_array_loop.simps) simp
  qed
qed

lemma array_tokens:
  assumes "\<forall>t \<in> set ts. list_token_ok t"
  shows "capability_array_loop always (pre @ json_text ts @ 93 # post) (length pre) m =
    foldl (\<lambda>m t. m OR token_caps t) m ts"
  using assms
proof (induction ts arbitrary: pre m)
  case Nil
  have "skip_ws (pre @ 93 # post) (length pre) = length pre" by (rule skip_ws_at) simp_all
  then show ?case by (subst capability_array_loop.simps) (simp add: json_text_def)
next
  case (Cons t ts)
  let ?s = "pre @ token_text t @ json_text ts @ 93 # post"
  have rest: "capability_array_loop always ?s (length (pre @ token_text t)) k = foldl (\<lambda>m t. m OR token_caps t) k ts" for k
    using Cons.IH [of "pre @ token_text t" k] Cons.prems by simp
  have "capability_array_loop always ?s (length pre) m =
    capability_array_loop always ?s (length (pre @ token_text t)) (m OR token_caps t)"
  proof (cases t)
    case (Plain c)
    then consider "c = 44" | "isspace c" using Cons.prems by auto
    then show ?thesis
    proof cases
      case 1
      have "skip_ws ?s (length pre) = length pre" by (rule skip_ws_at) (simp_all add: Plain 1)
      then show ?thesis using Plain 1 by (subst capability_array_loop.simps) simp
    next
      case 2
      then show ?thesis using array_space [of "length pre" ?s always m] Plain by simp
    qed
  next
    case (Quoted v)
    have p: "parse_json_string always ?s (length pre) = Some (length (pre @ token_text t), v)"
      using parse_quoted [of always v pre "json_text ts @ 93 # post"] Cons.prems Quoted by (simp add: always_def)
    have q: "?s ! length pre = QUOTE" "length pre < length ?s" by (simp_all add: Quoted json_quoted_def nth_append)
    then have "skip_ws ?s (length pre) = length pre" by (intro skip_ws_at) simp_all
    then show ?thesis using p q Quoted by (subst capability_array_loop.simps) (simp add: Let_def)
  qed
  then show ?case using rest by (simp add: json_text_def)
qed

lemma capabilities_step:
  assumes "json_token_ok t" and "t \<noteq> Quoted (text_chars ''capabilities'')"
  shows "capabilities_loop always (pre @ token_text t @ post) (length pre) =
    capabilities_loop always (pre @ token_text t @ post) (length (pre @ token_text t))"
proof (cases t)
  case (Plain c)
  then show ?thesis using assms by (subst capabilities_loop.simps) (simp add: nth_append)
next
  case (Quoted v)
  then have p: "parse_json_string always (pre @ token_text t @ post) (length pre) = Some (length (pre @ token_text t), v)"
    using parse_quoted [of always v pre post] assms(1) by (simp add: always_def)
  have "(pre @ token_text t @ post) ! length pre = QUOTE" "length pre < length (pre @ token_text t @ post)"
    using Quoted by (simp_all add: json_quoted_def nth_append)
  then show ?thesis using p Quoted assms(2) by (subst capabilities_loop.simps) simp
qed

lemma capabilities_tokens:
  assumes "\<forall>t \<in> set ts. json_token_ok t \<and> t \<noteq> Quoted (text_chars ''capabilities'')"
  shows "capabilities_loop always (pre @ json_text ts @ post) (length pre) =
    capabilities_loop always (pre @ json_text ts @ post) (length (pre @ json_text ts))"
  using assms
proof (induction ts arbitrary: pre)
  case Nil
  then show ?case by (simp add: json_text_def)
next
  case (Cons t ts)
  have "capabilities_loop always (pre @ token_text t @ (json_text ts @ post)) (length pre) =
    capabilities_loop always (pre @ token_text t @ (json_text ts @ post)) (length (pre @ token_text t))"
    using Cons.prems by (intro capabilities_step) auto
  then show ?case using Cons.IH [of "pre @ token_text t"] Cons.prems by (simp add: json_text_def)
qed

lemma capabilities_space: "capabilities_loop mem s (skip_ws s i) = capabilities_loop mem s i"
proof (induction s i rule: skip_ws.induct)
  case (1 s i)
  show ?case
  proof (cases "i < length s \<and> isspace (s ! i)")
    case True
    then have "s ! i \<noteq> QUOTE" by (auto simp: isspace_def)
    then have "capabilities_loop mem s i = capabilities_loop mem s (i + 1)"
      using True by (subst capabilities_loop.simps) simp
    moreover have "skip_ws s i = skip_ws s (i + 1)" using True by (subst skip_ws.simps) simp
    ultimately show ?thesis using 1 True by simp
  next
    case False
    then have "skip_ws s i = i" by (subst skip_ws.simps) (simp only: if_False)
    then show ?thesis by simp
  qed
qed

lemma capabilities_list:
  assumes "\<forall>c \<in> set w1. isspace c" and "\<forall>c \<in> set w2. isspace c" and "\<forall>t \<in> set items. list_token_ok t"
  shows "capabilities_loop always (pre @ json_quoted (text_chars ''capabilities'') @ w1 @ 58 # w2 @ 91 # json_text items @ 93 # post)
    (length pre) = foldl (\<lambda>m t. m OR token_caps t) 0 items"
proof -
  define key where "key = text_chars ''capabilities''"
  have ck: "is_c_chars key" by (simp add: key_def text_chars_def is_c_chars_def)
  let ?s = "pre @ json_quoted key @ w1 @ 58 # w2 @ 91 # json_text items @ 93 # post"
  let ?p1 = "pre @ json_quoted key" and ?p2 = "pre @ json_quoted key @ w1 @ [58]"
  have k: "parse_json_string always ?s (length pre) = Some (length ?p1, key)"
    using parse_quoted [of always key pre "w1 @ 58 # w2 @ 91 # json_text items @ 93 # post"] ck by (simp add: always_def)
  have s1: "skip_ws ?s (length ?p1) = length (?p1 @ w1)"
    using skip_ws_run [OF assms(1), of "58 # w2 @ 91 # json_text items @ 93 # post" ?p1] by simp
  have c: "?s ! length (?p1 @ w1) = 58" "length (?p1 @ w1) < length ?s"
    using nth_append_length [of "?p1 @ w1" 58] by (simp_all add: nth_append)
  have s2: "skip_ws ?s (length (?p1 @ w1) + 1) = length (?p2 @ w2)"
    using skip_ws_run [OF assms(2), of "91 # json_text items @ 93 # post" ?p2] by simp
  have d: "?s ! length (?p2 @ w2) = 91" "length (?p2 @ w2) < length ?s"
    using nth_append_length [of "?p2 @ w2" 91 "json_text items @ 93 # post"] by simp_all
  have e: "capability_array_loop always ?s (length (?p2 @ w2) + 1) 0 = foldl (\<lambda>m t. m OR token_caps t) 0 items"
    using array_tokens [OF assms(3), of "?p2 @ w2 @ [91]" post 0] by simp
  have b: "?s ! length pre = QUOTE" "length pre < length ?s" by (simp_all add: json_quoted_def nth_append)
  have "capabilities_loop always ?s (length pre) = foldl (\<lambda>m t. m OR token_caps t) 0 items"
    by (subst capabilities_loop.simps)
      (simp only: b k s1 c s2 d e Let_def if_True option.case prod.case simp_thms key_def [symmetric])
  then show ?thesis by (simp only: key_def)
qed

lemma bit_foldl_or:
  "bit (foldl (\<lambda>m t. m OR f t) (m :: u32) ts) n \<longleftrightarrow> bit m n \<or> (\<exists>t \<in> set ts. bit (f t) n)"
  by (induction ts arbitrary: m) (auto simp: bit_or_iff)



end
