(* ===== verification/App_Registry.thy ===== *)
theory App_Registry
  imports Simple_Json Runtime_Security
begin

text \<open>
  The registry of the application manager (\<open>src/src/runtime/app_manager/app_manager.c\<close>, \<open>app_manager.h\<close>):
  its entries, their lookup, the state changes of an entry, and the registry file.

  A name or version array is the string it holds, because every copy into it leaves a terminating zero
  in its place; an entry is free when its name is empty. Everything outside the manager is in
  \<open>app_env\<close>, over a world \<open>'w\<close>: the runtime, the files, the allocator, the clock, the callbacks and the
  memory image of an entry that \<open>memcpy\<close> puts into the file. The optional execution from the SD card
  (\<open>CONFIG_AKIRA_SD_XIP\<close>, off by default) is not modelled.
\<close>

section \<open>Limits\<close>

definition CONFIG_AKIRA_APP_MAX_INSTALLED :: nat where "CONFIG_AKIRA_APP_MAX_INSTALLED = 8"
definition CONFIG_AKIRA_APP_MAX_RUNNING :: nat where "CONFIG_AKIRA_APP_MAX_RUNNING = 2"
definition CONFIG_AKIRA_APP_MAX_SIZE_KB :: nat where "CONFIG_AKIRA_APP_MAX_SIZE_KB = 1024"
definition CONFIG_AKIRA_APP_DEFAULT_HEAP_KB :: u16 where "CONFIG_AKIRA_APP_DEFAULT_HEAP_KB = 16"
definition CONFIG_AKIRA_APP_DEFAULT_STACK_KB :: u16 where "CONFIG_AKIRA_APP_DEFAULT_STACK_KB = 4"
definition CONFIG_AKIRA_APP_MAX_RETRIES :: u8 where "CONFIG_AKIRA_APP_MAX_RETRIES = 3"
definition CONFIG_AKIRA_APP_RESTART_DELAY_MS :: u16 where "CONFIG_AKIRA_APP_RESTART_DELAY_MS = 1000"
definition APP_NAME_MAX_LEN :: nat where "APP_NAME_MAX_LEN = 32"
definition APP_VERSION_MAX_LEN :: nat where "APP_VERSION_MAX_LEN = 16"
definition APP_PATH_MAX_LEN :: nat where "APP_PATH_MAX_LEN = 64"
definition REGISTRY_MAGIC :: u32 where "REGISTRY_MAGIC = 0x414B4150"
definition REGISTRY_VERSION :: u8 where "REGISTRY_VERSION = 1"
definition REGISTRY_HEADER_SIZE :: nat where "REGISTRY_HEADER_SIZE = 12"
definition MAX_INSTALL_SESSIONS :: nat where "MAX_INSTALL_SESSIONS = 2"
definition REGISTRY_PATH :: c_chars where "REGISTRY_PATH = text_chars ''/lfs/apps/registry.bin''"
definition APPS_DIR :: c_chars where "APPS_DIR = text_chars ''/lfs/apps''"
definition WASM_MAGIC :: octets where "WASM_MAGIC = [0x00, 0x61, 0x73, 0x6D]"
definition AOT_MAGIC :: octets where "AOT_MAGIC = [0x00, 0x61, 0x6F, 0x74]"

lemmas app_limits = CONFIG_AKIRA_APP_MAX_INSTALLED_def CONFIG_AKIRA_APP_MAX_RUNNING_def
  CONFIG_AKIRA_APP_MAX_SIZE_KB_def APP_NAME_MAX_LEN_def APP_VERSION_MAX_LEN_def APP_PATH_MAX_LEN_def
  REGISTRY_HEADER_SIZE_def MAX_INSTALL_SESSIONS_def

section \<open>Types\<close>

datatype app_state_t = APP_STATE_NEW | APP_STATE_INSTALLED | APP_STATE_RUNNING | APP_STATE_STOPPED
  | APP_STATE_ERROR | APP_STATE_FAILED

datatype app_source_t = APP_SOURCE_UNKNOWN | APP_SOURCE_HTTP | APP_SOURCE_BLE | APP_SOURCE_USB
  | APP_SOURCE_SD | APP_SOURCE_FIRMWARE

record app_restart_config =
  enabled :: bool
  max_retries :: u8
  delay_ms :: u16

record app_manifest =
  m_name :: c_chars
  m_version :: c_chars
  m_entry :: c_chars
  m_heap_kb :: u16
  m_stack_kb :: u16
  m_restart :: app_restart_config
  m_permissions :: u16

record app_entry =
  app_id :: u8
  app_name :: c_chars
  app_version :: c_chars
  app_state :: app_state_t
  app_source :: app_source_t
  app_size :: u32
  heap_kb :: u16
  stack_kb :: u16
  permissions :: u16
  restart :: app_restart_config
  crash_count :: u8
  container_id :: int
  install_time :: u32
  last_start_time :: u32
  is_preloaded :: bool

text \<open>\<open>memset\<close> to zero.\<close>

definition no_restart :: app_restart_config where
  "no_restart = \<lparr>enabled = False, max_retries = 0, delay_ms = 0\<rparr>"

definition zero_entry :: app_entry where
  "zero_entry = \<lparr>app_id = 0, app_name = [], app_version = [], app_state = APP_STATE_NEW,
     app_source = APP_SOURCE_UNKNOWN, app_size = 0, heap_kb = 0, stack_kb = 0, permissions = 0,
     restart = no_restart, crash_count = 0, container_id = 0, install_time = 0, last_start_time = 0,
     is_preloaded = False\<rparr>"

record install_session =
  s_name :: c_chars
  s_total :: nat
  s_data :: octets
  s_source :: app_source_t
  s_active :: bool

definition no_session :: install_session where
  "no_session = \<lparr>s_name = [], s_total = 0, s_data = [], s_source = APP_SOURCE_UNKNOWN, s_active = False\<rparr>"

text \<open>
  \<open>restart_due\<close> is whether the restart work of the kernel is scheduled. The octets of a session's
  buffer are those received so far.
\<close>

record app_manager =
  registry :: "app_entry list"
  app_count :: u8
  initialized :: bool
  sessions :: "install_session list"
  restart_app_name :: c_chars
  restart_due :: bool

record 'w app_env =
  rt_init :: "'w \<Rightarrow> int \<times> 'w"
  rt_install :: "c_chars \<Rightarrow> octets \<Rightarrow> octets option \<Rightarrow> 'w \<Rightarrow> int \<times> 'w"
  rt_start :: "int \<Rightarrow> 'w \<Rightarrow> int \<times> 'w"
  rt_stop :: "int \<Rightarrow> 'w \<Rightarrow> int \<times> 'w"
  rt_destroy :: "int \<Rightarrow> 'w \<Rightarrow> int \<times> 'w"
  fs_exists :: "c_chars \<Rightarrow> 'w \<Rightarrow> bool"
  fs_size :: "c_chars \<Rightarrow> 'w \<Rightarrow> int"
  fs_mkdir :: "c_chars \<Rightarrow> 'w \<Rightarrow> int \<times> 'w"
  fs_read :: "c_chars \<Rightarrow> nat \<Rightarrow> 'w \<Rightarrow> int + octets"
  fs_write :: "c_chars \<Rightarrow> octets \<Rightarrow> 'w \<Rightarrow> int \<times> 'w"
  fs_delete :: "c_chars \<Rightarrow> 'w \<Rightarrow> int \<times> 'w"
  can_malloc :: "nat \<Rightarrow> 'w \<Rightarrow> bool"
  json_mem :: "nat \<Rightarrow> nat \<Rightarrow> bool"
  crc32 :: "octets \<Rightarrow> u32"
  uptime_ms :: "'w \<Rightarrow> u32"
  on_state :: "u8 \<Rightarrow> app_state_t \<Rightarrow> app_state_t \<Rightarrow> 'w \<Rightarrow> 'w"
  on_restart_scheduled :: "u16 \<Rightarrow> 'w \<Rightarrow> 'w"
  on_lifecycle :: "c_chars \<Rightarrow> app_state_t \<Rightarrow> 'w \<Rightarrow> 'w"
  on_installed :: "c_chars \<Rightarrow> u8 \<Rightarrow> c_chars \<Rightarrow> 'w \<Rightarrow> 'w"
  on_uninstalled :: "c_chars \<Rightarrow> 'w \<Rightarrow> 'w"
  on_started :: "c_chars \<Rightarrow> int \<Rightarrow> 'w \<Rightarrow> 'w"
  on_crashed :: "c_chars \<Rightarrow> int \<Rightarrow> 'w \<Rightarrow> 'w"
  entry_octets :: "app_entry \<Rightarrow> octets"
  octets_entry :: "octets \<Rightarrow> app_entry"
  sizeof_entry :: nat

section \<open>Lookup and state\<close>

definition find_app_by_name :: "app_entry list \<Rightarrow> c_chars \<Rightarrow> nat option" where
  "find_app_by_name reg n = first_index (\<lambda>e. app_name e \<noteq> [] \<and> app_name e = n) reg"

definition find_free_slot :: "app_entry list \<Rightarrow> nat option" where
  "find_free_slot reg = first_index (\<lambda>e. app_name e = []) reg"

definition upd_app :: "nat \<Rightarrow> (app_entry \<Rightarrow> app_entry) \<Rightarrow> app_manager \<Rightarrow> app_manager" where
  "upd_app i f st = st\<lparr>registry := (registry st)[i := f (registry st ! i)]\<rparr>"

definition running_count :: "app_entry list \<Rightarrow> nat" where
  "running_count reg = length (filter (\<lambda>e. app_state e = APP_STATE_RUNNING) reg)"

text \<open>The callback is one of the environment's operations, whether one is registered or not.\<close>

definition set_app_state ::
  "'w app_env \<Rightarrow> nat \<Rightarrow> app_state_t \<Rightarrow> app_manager \<times> 'w \<Rightarrow> app_manager \<times> 'w" where
  "set_app_state env i new_state s =
     (case s of (st, w) \<Rightarrow>
        let app = registry st ! i in
        if app_state app = new_state then (st, w)
        else
          let st = upd_app i (\<lambda>e. e\<lparr>app_state := new_state\<rparr>) st;
              w = on_state env (app_id app) (app_state app) new_state w in
          if new_state = APP_STATE_ERROR \<and> enabled (restart app) then
            let crashes = crash_count app + 1;
                st = upd_app i (\<lambda>e. e\<lparr>crash_count := crashes\<rparr>) st in
            if crashes < max_retries (restart app) then
              (st\<lparr>restart_app_name := app_name app, restart_due := True\<rparr>,
               on_restart_scheduled env (delay_ms (restart app)) w)
            else (upd_app i (\<lambda>e. e\<lparr>app_state := APP_STATE_FAILED\<rparr>) st, w)
          else (st, w))"

definition app_state_to_str :: "app_state_t \<Rightarrow> string" where
  "app_state_to_str state =
     (case state of
        APP_STATE_NEW \<Rightarrow> ''NEW'' | APP_STATE_INSTALLED \<Rightarrow> ''INSTALLED'' | APP_STATE_RUNNING \<Rightarrow> ''RUNNING''
      | APP_STATE_STOPPED \<Rightarrow> ''STOPPED'' | APP_STATE_ERROR \<Rightarrow> ''ERROR'' | APP_STATE_FAILED \<Rightarrow> ''FAILED'')"

definition app_source_to_str :: "app_source_t \<Rightarrow> string" where
  "app_source_to_str source =
     (case source of
        APP_SOURCE_HTTP \<Rightarrow> ''HTTP'' | APP_SOURCE_BLE \<Rightarrow> ''BLE'' | APP_SOURCE_USB \<Rightarrow> ''USB''
      | APP_SOURCE_SD \<Rightarrow> ''SD'' | APP_SOURCE_FIRMWARE \<Rightarrow> ''FIRMWARE'' | APP_SOURCE_UNKNOWN \<Rightarrow> ''UNKNOWN'')"

section \<open>The registry file\<close>

definition put_le16 :: "u16 \<Rightarrow> octets" where
  "put_le16 x = rev (put_be16 x)"

definition put_le32 :: "u32 \<Rightarrow> octets" where
  "put_le32 x = rev (put_be32 x)"

definition get_le32 :: "octets \<Rightarrow> u32" where
  "get_le32 b = get_be32 (rev (take 4 b))"

text \<open>The header as the little-endian processor stores the structure: magic, version, count, reserved, CRC.\<close>

definition registry_header :: "u8 \<Rightarrow> u32 \<Rightarrow> octets" where
  "registry_header count crc =
     put_le32 REGISTRY_MAGIC @ [REGISTRY_VERSION, count] @ put_le16 0 @ put_le32 crc"

definition registry_image :: "'w app_env \<Rightarrow> app_manager \<Rightarrow> octets" where
  "registry_image env st =
     (let entries = concat (map (entry_octets env) (filter (\<lambda>e. app_name e \<noteq> []) (registry st)));
          crc = crc32 env (registry_header (app_count st) 0 @ entries) in
      registry_header (app_count st) crc @ entries)"

definition registry_save :: "'w app_env \<Rightarrow> app_manager \<times> 'w \<Rightarrow> int \<times> app_manager \<times> 'w" where
  "registry_save env s =
     (case s of (st, w) \<Rightarrow>
        (case fs_write env REGISTRY_PATH (registry_image env st) w of
           (written, w) \<Rightarrow> (if written < 0 then written else 0, st, w)))"

text \<open>The entries of a buffer, \<open>n\<close> of them.\<close>

fun entries_from :: "'w app_env \<Rightarrow> nat \<Rightarrow> octets \<Rightarrow> app_entry list" where
  "entries_from env 0 b = []"
| "entries_from env (Suc n) b =
     octets_entry env (take (sizeof_entry env) b) # entries_from env n (drop (sizeof_entry env) b)"

definition loaded_entry :: "app_entry \<Rightarrow> app_entry" where
  "loaded_entry e =
     e\<lparr>container_id := -1,
       app_state := (if app_state e = APP_STATE_RUNNING then APP_STATE_INSTALLED else app_state e)\<rparr>"

definition registry_load :: "'w app_env \<Rightarrow> app_manager \<Rightarrow> 'w \<Rightarrow> int \<times> app_manager" where
  "registry_load env st w =
     (case fs_read env REGISTRY_PATH
             (REGISTRY_HEADER_SIZE + CONFIG_AKIRA_APP_MAX_INSTALLED * sizeof_entry env) w of
        Inl e \<Rightarrow> (- ENOENT, st)
      | Inr b \<Rightarrow>
          if length b < REGISTRY_HEADER_SIZE then (- ENOENT, st)
          else if get_le32 b \<noteq> REGISTRY_MAGIC \<or> b ! 4 \<noteq> REGISTRY_VERSION then (- EINVAL, st)
          else if get_le32 (drop 8 b) \<noteq> 0 \<and>
                  crc32 env (take 8 b @ put_le32 0 @ drop 12 b) \<noteq> get_le32 (drop 8 b)
          then (- EIO, st)
          else
            let count = min (unat (b ! 5)) CONFIG_AKIRA_APP_MAX_INSTALLED in
            if length b < REGISTRY_HEADER_SIZE + count * sizeof_entry env then (- EIO, st)
            else
              (0, st\<lparr>registry := map loaded_entry (entries_from env count (drop REGISTRY_HEADER_SIZE b)) @
                                drop count (registry st),
                     app_count := of_nat count\<rparr>))"

end
