(* ===== verification/App_Manager.thy ===== *)
theory App_Manager
  imports App_Registry Akpkg_Archive
begin

text \<open>
  The operations of the application manager (\<open>src/src/runtime/app_manager/app_manager.c\<close>): manifests,
  installation from memory, from a file, in chunks and from a package; start, stop, restart, removal,
  the exit of an application and the automatic restart; queries.

  An operation takes and returns the manager and the world. The operations run under the mutex of the
  registry, except that starting and stopping release it while the runtime works: those are split
  where the mutex is released, and composed as the code composes them when nothing intervenes.
\<close>

section \<open>Manifests\<close>

definition app_manifest_init_defaults :: "c_chars option \<Rightarrow> app_manifest" where
  "app_manifest_init_defaults name =
     \<lparr>m_name = (case name of None \<Rightarrow> [] | Some n \<Rightarrow> take (APP_NAME_MAX_LEN - 1) n),
      m_version = text_chars ''0.0.0'', m_entry = text_chars ''_start'',
      m_heap_kb = CONFIG_AKIRA_APP_DEFAULT_HEAP_KB, m_stack_kb = CONFIG_AKIRA_APP_DEFAULT_STACK_KB,
      m_restart = \<lparr>enabled = False, max_retries = CONFIG_AKIRA_APP_MAX_RETRIES,
                   delay_ms = CONFIG_AKIRA_APP_RESTART_DELAY_MS\<rparr>,
      m_permissions = 0\<rparr>"

text \<open>The array after a call that may fill it, and its string. The old content is the string and zeros.\<close>

definition json_field :: "(nat \<Rightarrow> nat \<Rightarrow> bool) \<Rightarrow> octets \<Rightarrow> string \<Rightarrow> nat \<Rightarrow> c_chars \<Rightarrow> c_chars" where
  "json_field mem json key cap old =
     c_string_at (snd (simple_json_get_string mem (Some json) (Some (text_chars key))
                         (old @ replicate (cap - length old) 0)))"

text \<open>\<open>beyond\<close> is what follows the text in memory; the callers put a zero there.\<close>

definition json_u16 :: "(nat \<Rightarrow> nat \<Rightarrow> bool) \<Rightarrow> octets \<Rightarrow> octets \<Rightarrow> string \<Rightarrow> u16 \<Rightarrow> u16" where
  "json_u16 mem json beyond key old =
     (case simple_json_get_int mem (Some json) beyond (Some (text_chars key)) of
        Inl e \<Rightarrow> old | Inr v \<Rightarrow> of_int v)"

definition app_manifest_parse :: "(nat \<Rightarrow> nat \<Rightarrow> bool) \<Rightarrow> octets \<Rightarrow> octets \<Rightarrow> app_manifest" where
  "app_manifest_parse mem json beyond =
     (let m = app_manifest_init_defaults None in
      m\<lparr>m_name := json_field mem json ''name'' APP_NAME_MAX_LEN (m_name m),
        m_version := json_field mem json ''version'' APP_VERSION_MAX_LEN (m_version m),
        m_entry := json_field mem json ''entry'' 32 (m_entry m),
        m_heap_kb := json_u16 mem json beyond ''heap_kb'' (m_heap_kb m),
        m_stack_kb := json_u16 mem json beyond ''stack_kb'' (m_stack_kb m),
        m_permissions := ucast (parse_capabilities_mask mem (Some json))\<rparr>)"

section \<open>Files of an application\<close>

definition dec3 :: "u8 \<Rightarrow> c_chars" where
  "dec3 n = map (\<lambda>d. of_nat (48 + d)) [unat n div 100, unat n div 10 mod 10, unat n mod 10]"

definition hex_digit :: "nat \<Rightarrow> u8" where
  "hex_digit d = of_nat (if d < 10 then 48 + d else 87 + d)"

definition hex8 :: "u32 \<Rightarrow> c_chars" where
  "hex8 x = map (\<lambda>k. hex_digit (unat (drop_bit (4 * k) x AND 0xF))) [7, 6, 5, 4, 3, 2, 1, 0]"

definition app_path :: "u8 \<Rightarrow> c_chars \<Rightarrow> string \<Rightarrow> c_chars" where
  "app_path i name ext =
     take (APP_PATH_MAX_LEN - 1) (APPS_DIR @ text_chars ''/'' @ dec3 i @ text_chars ''_'' @ name @ text_chars ext)"

definition is_valid_wasm_or_aot :: "octets \<Rightarrow> bool" where
  "is_valid_wasm_or_aot b \<longleftrightarrow> 4 \<le> length b \<and> (take 4 b = WASM_MAGIC \<or> take 4 b = AOT_MAGIC)"

definition binary_ext :: "octets \<Rightarrow> string" where
  "binary_ext b = (if 4 \<le> length b \<and> take 4 b = AOT_MAGIC then ''.aot'' else ''.wasm'')"

definition validate_wasm :: "octets \<Rightarrow> int" where
  "validate_wasm b = (if length b < 4 then - EINVAL else if \<not> is_valid_wasm_or_aot b then - EINVAL else 0)"

definition save_app_binary :: "'w app_env \<Rightarrow> c_chars \<Rightarrow> octets \<Rightarrow> app_manager \<times> 'w \<Rightarrow> int \<times> app_manager \<times> 'w" where
  "save_app_binary env name b s =
     (case s of (st, w) \<Rightarrow>
        if length b = 0 then (- EINVAL, st, w)
        else
          let k = (case find_app_by_name (registry st) name of
                      Some i \<Rightarrow> app_id (registry st ! i) | None \<Rightarrow> app_count st + 1) in
          (case fs_write env (app_path k name (binary_ext b)) b w of
             (written, w) \<Rightarrow>
               (if written < 0 then written else if written \<noteq> int (length b) then - EIO else 0, st, w)))"

fun delete_paths :: "'w app_env \<Rightarrow> c_chars list \<Rightarrow> 'w \<Rightarrow> int \<times> 'w" where
  "delete_paths env [] w = (0, w)"
| "delete_paths env (p # ps) w =
     (case fs_delete env p w of
        (ret, w) \<Rightarrow> if ret < 0 \<and> ret \<noteq> - ENOENT then (ret, w) else delete_paths env ps w)"

definition delete_app_binary :: "'w app_env \<Rightarrow> c_chars \<Rightarrow> app_manager \<times> 'w \<Rightarrow> int \<times> app_manager \<times> 'w" where
  "delete_app_binary env name s =
     (case s of (st, w) \<Rightarrow>
        (case find_app_by_name (registry st) name of
           None \<Rightarrow> (- ENOENT, st, w)
         | Some i \<Rightarrow>
             (case delete_paths env (map (app_path (app_id (registry st ! i)) name) [''.wasm'', ''.aot'', ''.json'']) w of
                (ret, w) \<Rightarrow> (ret, st, w))))"

section \<open>Installation\<close>

definition install_name :: "'w app_env \<Rightarrow> c_chars option \<Rightarrow> octets \<Rightarrow> app_manifest option \<Rightarrow> c_chars" where
  "install_name env name b manifest =
     (let fallback = (case manifest of
            Some m \<Rightarrow> if m_name m \<noteq> [] then m_name m else text_chars ''app_'' @ hex8 (crc32 env (take 256 b))
          | None \<Rightarrow> text_chars ''app_'' @ hex8 (crc32 env (take 256 b))) in
      take (APP_NAME_MAX_LEN - 1) (case name of Some n \<Rightarrow> if n \<noteq> [] then n else fallback | None \<Rightarrow> fallback))"

definition app_too_large :: "nat \<Rightarrow> bool" where
  "app_too_large n \<longleftrightarrow> CONFIG_AKIRA_APP_MAX_SIZE_KB * 1024 < n"

lemma app_too_large_code [code]: "app_too_large n \<longleftrightarrow> 1048576 < int n"
  by (auto simp: app_too_large_def CONFIG_AKIRA_APP_MAX_SIZE_KB_def)

text \<open>The slot of an installation: the entry of that name, its container destroyed, or a free one.\<close>

definition take_install_slot ::
  "'w app_env \<Rightarrow> c_chars \<Rightarrow> app_manager \<times> 'w \<Rightarrow> nat option \<times> app_manager \<times> 'w" where
  "take_install_slot env name s =
     (case s of (st, w) \<Rightarrow>
        (case find_app_by_name (registry st) name of
           Some i \<Rightarrow>
             let old_cid = container_id (registry st ! i);
                 w = (if 0 \<le> old_cid then
                        let w = (if app_state (registry st ! i) = APP_STATE_RUNNING
                                 then snd (rt_stop env old_cid w) else w) in
                        snd (rt_destroy env old_cid w)
                      else w) in
             (Some i, upd_app i (\<lambda>e. e\<lparr>container_id := -1\<rparr>) st, w)
         | None \<Rightarrow>
             (case find_free_slot (registry st) of
                None \<Rightarrow> (None, st, w)
              | Some i \<Rightarrow>
                  (Some i, (upd_app i (\<lambda>e. e\<lparr>app_id := of_nat i + 1\<rparr>) st)\<lparr>app_count := app_count st + 1\<rparr>, w))))"

definition installed_entry ::
  "'w app_env \<Rightarrow> octets \<Rightarrow> app_manifest option \<Rightarrow> app_source_t \<Rightarrow> 'w \<Rightarrow> app_entry \<Rightarrow> app_entry" where
  "installed_entry env b manifest source w e =
     (let e = e\<lparr>app_source := source, app_size := of_nat (length b), container_id := -1, crash_count := 0,
                install_time := uptime_ms env w div 1000, is_preloaded := (source = APP_SOURCE_FIRMWARE)\<rparr> in
      case manifest of
        Some m \<Rightarrow>
          e\<lparr>app_version := take APP_VERSION_MAX_LEN (m_version m), heap_kb := m_heap_kb m,
            stack_kb := m_stack_kb m, permissions := m_permissions m, restart := m_restart m\<rparr>
      | None \<Rightarrow>
          e\<lparr>app_version := text_chars ''0.0.0'', heap_kb := CONFIG_AKIRA_APP_DEFAULT_HEAP_KB,
            stack_kb := CONFIG_AKIRA_APP_DEFAULT_STACK_KB, permissions := 0,
            restart := \<lparr>enabled = False, max_retries = CONFIG_AKIRA_APP_MAX_RETRIES,
                        delay_ms = CONFIG_AKIRA_APP_RESTART_DELAY_MS\<rparr>\<rparr>)"

definition app_manager_install ::
  "'w app_env \<Rightarrow> c_chars option \<Rightarrow> octets option \<Rightarrow> app_manifest option \<Rightarrow> app_source_t
    \<Rightarrow> app_manager \<times> 'w \<Rightarrow> int \<times> app_manager \<times> 'w" where
  "app_manager_install env name binary manifest source s =
     (if \<not> initialized (fst s) then (- ENODEV, s)
      else
        case binary of
          None \<Rightarrow> (- EINVAL, s)
        | Some b \<Rightarrow>
            if length b = 0 then (- EINVAL, s)
            else if validate_wasm b < 0 then (validate_wasm b, s)
            else if app_too_large (length b) then (- EFBIG, s)
            else
              let n = install_name env name b manifest in
              (case take_install_slot env n s of
                 (None, s) \<Rightarrow> (- ENOMEM, s)
               | (Some i, st, w) \<Rightarrow>
                   (case save_app_binary env n b (upd_app i (\<lambda>e. e\<lparr>app_name := n\<rparr>) st, w) of
                      (ret, st, w) \<Rightarrow>
                        if ret < 0 then
                          let st = (if app_name (registry st ! i) = [] then st\<lparr>app_count := app_count st - 1\<rparr> else st) in
                          (ret, upd_app i (\<lambda>e. e\<lparr>app_name := []\<rparr>) st, w)
                        else
                          (case set_app_state env i APP_STATE_INSTALLED
                                  (upd_app i (installed_entry env b manifest source w) st, w) of
                             s \<Rightarrow>
                               (case registry_save env s of
                                  (_, st, w) \<Rightarrow>
                                    let e = registry st ! i in
                                    (int (unat (app_id e)), st, on_installed env n (app_id e) (app_version e) w))))))"

text \<open>The file part of a path, the name without its extension, and where a path comes from.\<close>

definition file_name_of :: "c_chars \<Rightarrow> c_chars" where
  "file_name_of path = (case strrchr path 47 of None \<Rightarrow> path | Some t \<Rightarrow> tl t)"

definition without_ext :: "c_chars \<Rightarrow> c_chars" where
  "without_ext name =
     (case strstr name (text_chars ''.wasm'') of
        Some t \<Rightarrow> take (length name - length t) name
      | None \<Rightarrow> (case strstr name (text_chars ''.aot'') of
                   Some t \<Rightarrow> take (length name - length t) name
                 | None \<Rightarrow> name))"

definition path_source :: "c_chars \<Rightarrow> app_source_t" where
  "path_source path =
     (if strstr path (text_chars ''/SD:'') \<noteq> None \<or> strstr path (text_chars ''/sd/'') \<noteq> None \<or>
         strstr path (text_chars ''/sd:'') \<noteq> None then APP_SOURCE_SD
      else if strstr path (text_chars ''/usb/'') \<noteq> None then APP_SOURCE_USB
      else APP_SOURCE_UNKNOWN)"

definition app_manager_install_from_path ::
  "'w app_env \<Rightarrow> c_chars option \<Rightarrow> app_manager \<times> 'w \<Rightarrow> int \<times> app_manager \<times> 'w" where
  "app_manager_install_from_path env path s =
     (case path of
        None \<Rightarrow> (- EINVAL, s)
      | Some path \<Rightarrow>
          let w = snd s; size = fs_size env path w in
          if size < 0 then (size, s)
          else if app_too_large (nat size) then (- EFBIG, s)
          else if \<not> can_malloc env (nat size) w then (- ENOMEM, s)
          else
            (case fs_read env path (nat size) w of
               Inl e \<Rightarrow> (- EIO, s)
             | Inr b \<Rightarrow>
                 if int (length b) \<noteq> size then (- EIO, s)
                 else
                   let name = without_ext (take (APP_NAME_MAX_LEN - 1) (file_name_of path));
                       source = path_source path;
                       manifest_path = take (APP_PATH_MAX_LEN - 1) (take (length name) path @ text_chars ''.json'') in
                   if \<not> can_malloc env 512 w then (- ENOMEM, s)
                   else
                     (case fs_read env manifest_path 511 w of
                        Inr json \<Rightarrow>
                          if json \<noteq> [] then
                            (case app_manager_install env (Some name) (Some b)
                                    (Some (app_manifest_parse (json_mem env) json [0])) source s of
                               (ret, st, w) \<Rightarrow>
                                 if 0 < ret then (ret, st, snd (fs_write env (app_path (of_int ret) name ''.json'') json w))
                                 else (ret, st, w))
                          else app_manager_install env (Some name) (Some b) None source s
                      | Inl e \<Rightarrow> app_manager_install env (Some name) (Some b) None source s)))"

text \<open>A container is released by stopping and destroying it.\<close>

definition akira_runtime_uninstall :: "'w app_env \<Rightarrow> int \<Rightarrow> 'w \<Rightarrow> 'w" where
  "akira_runtime_uninstall env cid w =
     (if 0 \<le> cid then snd (rt_destroy env cid (snd (rt_stop env cid w))) else w)"

definition app_manager_uninstall ::
  "'w app_env \<Rightarrow> c_chars option \<Rightarrow> app_manager \<times> 'w \<Rightarrow> int \<times> app_manager \<times> 'w" where
  "app_manager_uninstall env name s =
     (case s of (st, w) \<Rightarrow>
        (case name of
           None \<Rightarrow> (- EINVAL, s)
         | Some n \<Rightarrow>
             if \<not> initialized st then (- EINVAL, s)
             else
               (case find_app_by_name (registry st) n of
                  None \<Rightarrow> (- ENOENT, s)
                | Some i \<Rightarrow>
                    let app = registry st ! i in
                    if is_preloaded app then (- EPERM, s)
                    else
                      let w = (if app_state app = APP_STATE_RUNNING \<and> 0 \<le> container_id app
                               then snd (rt_stop env (container_id app) w) else w) in
                      (case delete_app_binary env n (st, w) of
                         (_, st, w) \<Rightarrow>
                           let w = akira_runtime_uninstall env (container_id app) w;
                               st = (upd_app i (\<lambda>_. zero_entry) st)\<lparr>app_count := app_count st - 1\<rparr> in
                           (case registry_save env (st, w) of
                              (_, st, w) \<Rightarrow> (0, st, on_uninstalled env n w))))))"

section \<open>Start and stop\<close>

text \<open>The binary and the stored manifest of an entry that is not loaded, put into a container.\<close>

definition stored_manifest :: "'w app_env \<Rightarrow> app_entry \<Rightarrow> 'w \<Rightarrow> octets option" where
  "stored_manifest env app w =
     (let json_path = app_path (app_id app) (app_name app) ''.json'' in
      if fs_exists env json_path w \<and> 0 < fs_size env json_path w \<and>
         can_malloc env (nat (fs_size env json_path w) + 1) w then
        (case fs_read env json_path (nat (fs_size env json_path w)) w of
           Inl e \<Rightarrow> None
         | Inr json \<Rightarrow> if json \<noteq> [] then Some json else None)
      else None)"

definition load_container :: "'w app_env \<Rightarrow> c_chars \<Rightarrow> app_entry \<Rightarrow> 'w \<Rightarrow> int \<times> 'w" where
  "load_container env name app w =
     (let aot = app_path (app_id app) (app_name app) ''.aot'';
          path = (if fs_exists env aot w then aot else app_path (app_id app) (app_name app) ''.wasm'') in
      if \<not> can_malloc env (unat (app_size app)) w then (- ENOMEM, w)
      else
        (case fs_read env path (unat (app_size app)) w of
           Inl e \<Rightarrow> (e, w)
         | Inr b \<Rightarrow>
             if length b \<noteq> unat (app_size app) then (- EIO, w)
             else rt_install env name b (stored_manifest env app w) w))"

text \<open>The first half of a start, under the mutex: an answer, or the container to be started.\<close>

definition start_prepare ::
  "'w app_env \<Rightarrow> c_chars option \<Rightarrow> app_manager \<times> 'w \<Rightarrow> (int + int) \<times> app_manager \<times> 'w" where
  "start_prepare env name s =
     (case s of (st, w) \<Rightarrow>
        (case name of
           None \<Rightarrow> (Inl (- EINVAL), s)
         | Some n \<Rightarrow>
             if \<not> initialized st then (Inl (- EINVAL), s)
             else
               (case find_app_by_name (registry st) n of
                  None \<Rightarrow> (Inl (- ENOENT), s)
                | Some i \<Rightarrow>
                    if app_state (registry st ! i) = APP_STATE_RUNNING then (Inl 0, s)
                    else
                      let st = (if app_state (registry st ! i) = APP_STATE_FAILED
                                then upd_app i (\<lambda>e. e\<lparr>crash_count := 0\<rparr>) st else st) in
                      if CONFIG_AKIRA_APP_MAX_RUNNING \<le> running_count (registry st) then (Inl (- EBUSY), st, w)
                      else if container_id (registry st ! i) < 0 then
                        (case load_container env n (registry st ! i) w of
                           (ret, w) \<Rightarrow>
                             if ret < 0 then (Inl ret, st, w)
                             else (Inr ret, upd_app i (\<lambda>e. e\<lparr>container_id := ret\<rparr>) st, w))
                      else (Inr (container_id (registry st ! i)), st, w))))"

text \<open>The second half: \<open>ret\<close> is what the runtime answered for the container.\<close>

definition start_finish ::
  "'w app_env \<Rightarrow> c_chars \<Rightarrow> int \<Rightarrow> int \<Rightarrow> app_manager \<times> 'w \<Rightarrow> int \<times> app_manager \<times> 'w" where
  "start_finish env n cid ret s =
     (case s of (st, w) \<Rightarrow>
        (case find_app_by_name (registry st) n of
           None \<Rightarrow> (- ENOENT, st, if ret = 0 then snd (rt_stop env cid w) else w)
         | Some i \<Rightarrow>
             if ret < 0 then
               (case set_app_state env i APP_STATE_ERROR (st, w) of
                  (st, w) \<Rightarrow> (ret, upd_app i (\<lambda>e. e\<lparr>container_id := -1\<rparr>) st, snd (rt_destroy env cid w)))
             else
               (case set_app_state env i APP_STATE_RUNNING
                       (upd_app i (\<lambda>e. e\<lparr>last_start_time := uptime_ms env w div 1000\<rparr>) st, w) of
                  s \<Rightarrow>
                    (case registry_save env s of
                       (_, st, w) \<Rightarrow> (0, st, on_lifecycle env n APP_STATE_RUNNING (on_started env n cid w))))))"

definition app_manager_start ::
  "'w app_env \<Rightarrow> c_chars option \<Rightarrow> app_manager \<times> 'w \<Rightarrow> int \<times> app_manager \<times> 'w" where
  "app_manager_start env name s =
     (case start_prepare env name s of
        (Inl ret, s) \<Rightarrow> (ret, s)
      | (Inr cid, st, w) \<Rightarrow>
          (case rt_start env cid w of (ret, w) \<Rightarrow> start_finish env (the name) cid ret (st, w)))"

definition stop_prepare ::
  "'w app_env \<Rightarrow> c_chars option \<Rightarrow> app_manager \<times> 'w \<Rightarrow> (int + int) \<times> app_manager \<times> 'w" where
  "stop_prepare env name s =
     (case s of (st, w) \<Rightarrow>
        (case name of
           None \<Rightarrow> (Inl (- EINVAL), s)
         | Some n \<Rightarrow>
             if \<not> initialized st then (Inl (- EINVAL), s)
             else
               (case find_app_by_name (registry st) n of
                  None \<Rightarrow> (Inl (- ENOENT), s)
                | Some i \<Rightarrow>
                    if app_state (registry st ! i) \<noteq> APP_STATE_RUNNING then (Inl 0, s)
                    else if container_id (registry st ! i) < 0 then (Inl (- EINVAL), s)
                    else (Inr (container_id (registry st ! i)), upd_app i (\<lambda>e. e\<lparr>container_id := -1\<rparr>) st, w))))"

definition stop_finish ::
  "'w app_env \<Rightarrow> c_chars \<Rightarrow> int \<Rightarrow> app_manager \<times> 'w \<Rightarrow> int \<times> app_manager \<times> 'w" where
  "stop_finish env n ret s =
     (let s =
        (case s of (st, w) \<Rightarrow>
           (case find_app_by_name (registry st) n of
              None \<Rightarrow> (st, w)
            | Some i \<Rightarrow>
                (case set_app_state env i APP_STATE_STOPPED (st, w) of
                   (st, w) \<Rightarrow>
                     snd (registry_save env
                       (if 0 \<le> container_id (registry st ! i) then upd_app i (\<lambda>e. e\<lparr>container_id := -1\<rparr>) st else st, w)))))
      in (if ret < 0 then ret else 0, fst s, on_lifecycle env n APP_STATE_STOPPED (snd s)))"

definition app_manager_stop ::
  "'w app_env \<Rightarrow> c_chars option \<Rightarrow> app_manager \<times> 'w \<Rightarrow> int \<times> app_manager \<times> 'w" where
  "app_manager_stop env name s =
     (case stop_prepare env name s of
        (Inl ret, s) \<Rightarrow> (ret, s)
      | (Inr cid, st, w) \<Rightarrow>
          (case rt_stop env cid w of (ret, w) \<Rightarrow> stop_finish env (the name) ret (st, w)))"

definition app_manager_restart ::
  "'w app_env \<Rightarrow> c_chars option \<Rightarrow> app_manager \<times> 'w \<Rightarrow> int \<times> app_manager \<times> 'w" where
  "app_manager_restart env name s =
     (case s of (st, w) \<Rightarrow>
        (case name of
           None \<Rightarrow> (- EINVAL, s)
         | Some n \<Rightarrow>
             if \<not> initialized st then (- EINVAL, s)
             else
               (case find_app_by_name (registry st) n of
                  None \<Rightarrow> (- ENOENT, s)
                | Some i \<Rightarrow>
                    let st = upd_app i (\<lambda>e. e\<lparr>crash_count := 0\<rparr>) st;
                        cid = container_id (registry st ! i) in
                    if app_state (registry st ! i) = APP_STATE_RUNNING \<and> 0 \<le> cid then
                      let st = upd_app i (\<lambda>e. e\<lparr>container_id := -1\<rparr>) st;
                          w = snd (rt_stop env cid w) in
                      (case find_app_by_name (registry st) n of
                         None \<Rightarrow> (- ENOENT, st, w)
                       | Some i \<Rightarrow> app_manager_start env name (set_app_state env i APP_STATE_STOPPED (st, w)))
                    else app_manager_start env name (st, w))))"

text \<open>The exit of an application, reported by its thread with the container and an exit code.\<close>

definition app_manager_on_runtime_exit ::
  "'w app_env \<Rightarrow> int \<Rightarrow> int \<Rightarrow> app_manager \<times> 'w \<Rightarrow> app_manager \<times> 'w" where
  "app_manager_on_runtime_exit env slot exit_code s =
     (case s of (st, w) \<Rightarrow>
        (case first_index (\<lambda>e. app_state e = APP_STATE_RUNNING \<and> container_id e = slot) (registry st) of
           None \<Rightarrow> (st, w)
         | Some i \<Rightarrow>
             let new_state = (if exit_code = 0 then APP_STATE_STOPPED else APP_STATE_ERROR);
                 lc_name = app_name (registry st ! i) in
             (case registry_save env (set_app_state env i new_state (upd_app i (\<lambda>e. e\<lparr>container_id := -1\<rparr>) st, w)) of
                (_, st, w) \<Rightarrow>
                  let w = (if exit_code \<noteq> 0 \<and> lc_name \<noteq> [] then on_crashed env lc_name exit_code w else w) in
                  (st, on_lifecycle env lc_name new_state w))))"

text \<open>The scheduled work of an automatic restart.\<close>

definition restart_work_handler :: "'w app_env \<Rightarrow> app_manager \<times> 'w \<Rightarrow> app_manager \<times> 'w" where
  "restart_work_handler env s =
     (case s of (st, w) \<Rightarrow>
        let st = st\<lparr>restart_due := False\<rparr> in
        if restart_app_name st = [] then (st, w)
        else
          (case app_manager_start env (Some (restart_app_name st)) (st, w) of
             (_, st, w) \<Rightarrow> (st\<lparr>restart_app_name := []\<rparr>, w)))"

section \<open>Installation in chunks and from packages\<close>

definition upd_session :: "nat \<Rightarrow> (install_session \<Rightarrow> install_session) \<Rightarrow> app_manager \<Rightarrow> app_manager" where
  "upd_session i f st = st\<lparr>sessions := (sessions st)[i := f (sessions st ! i)]\<rparr>"

definition app_manager_install_begin ::
  "'w app_env \<Rightarrow> c_chars option \<Rightarrow> nat \<Rightarrow> app_source_t \<Rightarrow> app_manager \<times> 'w \<Rightarrow> int \<times> app_manager" where
  "app_manager_install_begin env name total_size source s =
     (case s of (st, w) \<Rightarrow>
        (case name of
           None \<Rightarrow> (- EINVAL, st)
         | Some n \<Rightarrow>
             if \<not> initialized st \<or> total_size = 0 then (- EINVAL, st)
             else if app_too_large total_size then (- EFBIG, st)
             else
               (case first_index (\<lambda>x. \<not> s_active x) (sessions st) of
                  None \<Rightarrow> (- EBUSY, st)
                | Some i \<Rightarrow>
                    if \<not> can_malloc env total_size w then (- ENOMEM, st)
                    else
                      (int i, upd_session i (\<lambda>_. \<lparr>s_name = take APP_NAME_MAX_LEN n, s_total = total_size, s_data = [],
                         s_source = source, s_active = True\<rparr>) st))))"

definition app_manager_install_chunk :: "int \<Rightarrow> octets option \<Rightarrow> app_manager \<Rightarrow> int \<times> app_manager" where
  "app_manager_install_chunk session data st =
     (if session < 0 \<or> int MAX_INSTALL_SESSIONS \<le> session then (- EINVAL, st)
      else
        let x = sessions st ! nat session in
        case data of
          None \<Rightarrow> (- EINVAL, st)
        | Some d \<Rightarrow>
            if \<not> s_active x \<or> length d = 0 then (- EINVAL, st)
            else if s_total x < length (s_data x) + length d then (- ENOSPC, st)
            else (0, upd_session (nat session) (\<lambda>x. x\<lparr>s_data := s_data x @ d\<rparr>) st))"

definition app_manager_install_abort :: "int \<Rightarrow> app_manager \<Rightarrow> app_manager" where
  "app_manager_install_abort session st =
     (if session < 0 \<or> int MAX_INSTALL_SESSIONS \<le> session then st
      else upd_session (nat session) (\<lambda>x. x\<lparr>s_data := [], s_active := False\<rparr>) st)"

text \<open>
  A package: inflate, find the two files, parse the manifest, install. \<open>imem\<close> is the memory of the
  decompressor and \<open>beyond\<close> what follows the archive in memory. The name is read in the caller's
  buffer of \<open>name_size\<close> octets, where the manifest's name replaces it.
\<close>

definition package_name :: "nat \<Rightarrow> c_chars \<Rightarrow> app_manifest option \<Rightarrow> c_chars" where
  "package_name name_size name manifest =
     (let name = (if name = [] then take (name_size - 1) (text_chars ''uploaded_app'') else name) in
      case manifest of
        Some m \<Rightarrow> if m_name m \<noteq> [] then take (name_size - 1) (m_name m) else name
      | None \<Rightarrow> name)"

text \<open>
  The announced size of the archive is read from the last four octets, also when the package has only
  two or three: then it includes octets \<open>before\<close> the package in memory.
\<close>

definition package_isize :: "octets \<Rightarrow> octets \<Rightarrow> nat" where
  "package_isize before pkg = unat (get_le32 (drop (length (before @ pkg) - 4) (before @ pkg)))"

definition app_manager_install_akpkg ::
  "'w app_env \<Rightarrow> inf_env \<Rightarrow> octets \<Rightarrow> octets \<Rightarrow> c_chars option \<Rightarrow> nat \<Rightarrow> octets option \<Rightarrow> app_source_t
    \<Rightarrow> app_manager \<times> 'w \<Rightarrow> int \<times> app_manager \<times> 'w" where
  "app_manager_install_akpkg env imem before beyond name name_size pkg source s =
     (if \<not> initialized (fst s) then (- ENODEV, s)
      else
        case pkg of
          None \<Rightarrow> (- EINVAL, s)
        | Some pkg \<Rightarrow>
            if length pkg = 0 then (- EINVAL, s)
            else if \<not> akpkg_is_gzip pkg then (- EINVAL, s)
            else
              let isize = package_isize before pkg; w = snd s in
              if isize = 0 \<or> 4 * 1024 * 1024 < isize then (- EINVAL, s)
              else if \<not> can_malloc env isize w then (- ENOMEM, s)
              else
                (case akpkg_inflate imem pkg isize of
                   Inl e \<Rightarrow> (e, s)
                 | Inr tar \<Rightarrow>
                     (case akpkg_tar_extract 32 tar beyond of
                        Inl e \<Rightarrow> (e, s)
                      | Inr ((wasm_at, wasm_size), (mfst_at, mfst_size)) \<Rightarrow>
                          (case name of
                             None \<Rightarrow> (- EINVAL, s)
                           | Some name \<Rightarrow>
                               if name_size = 0 then (- EINVAL, s)
                               else
                                 let wasm = take wasm_size (drop wasm_at tar);
                                     json = take mfst_size (drop mfst_at tar);
                                     manifest = (if 0 < mfst_size \<and> mfst_size < 4096 \<and> can_malloc env (mfst_size + 1) w
                                                 then Some (app_manifest_parse (json_mem env) json [0]) else None);
                                     final_name = package_name name_size name manifest in
                                 (case app_manager_install env (Some final_name) (Some wasm) manifest source s of
                                    (ret, st, w) \<Rightarrow>
                                      if 0 < ret \<and> 0 < mfst_size
                                      then (ret, st, snd (fs_write env (app_path (of_int ret) final_name ''.json'') json w))
                                      else (ret, st, w))))))"

definition app_manager_install_end ::
  "'w app_env \<Rightarrow> inf_env \<Rightarrow> octets \<Rightarrow> octets \<Rightarrow> int \<Rightarrow> app_manifest option
    \<Rightarrow> app_manager \<times> 'w \<Rightarrow> int \<times> app_manager \<times> 'w" where
  "app_manager_install_end env imem before beyond session manifest s =
     (case s of (st, w) \<Rightarrow>
        if session < 0 \<or> int MAX_INSTALL_SESSIONS \<le> session then (- EINVAL, s)
        else
          let x = sessions st ! nat session in
          if \<not> s_active x then (- EINVAL, s)
          else if length (s_data x) \<noteq> s_total x then (- EAGAIN, app_manager_install_abort session st, w)
          else
            (case (if akpkg_is_gzip (s_data x)
                   then app_manager_install_akpkg env imem before beyond (Some (s_name x)) APP_NAME_MAX_LEN
                          (Some (s_data x)) (s_source x) s
                   else app_manager_install env (Some (s_name x)) (Some (s_data x)) manifest (s_source x) s) of
               (ret, st, w) \<Rightarrow> (ret, upd_session (nat session) (\<lambda>x. x\<lparr>s_data := [], s_active := False\<rparr>) st, w)))"

section \<open>Queries\<close>

record app_info =
  i_id :: u8
  i_name :: c_chars
  i_version :: c_chars
  i_state :: app_state_t
  i_size :: u32
  i_heap_kb :: u16
  i_stack_kb :: u16
  i_crash_count :: u8
  i_auto_restart :: bool

definition info_of :: "app_entry \<Rightarrow> app_info" where
  "info_of e =
     \<lparr>i_id = app_id e, i_name = app_name e, i_version = app_version e, i_state = app_state e, i_size = app_size e,
      i_heap_kb = heap_kb e, i_stack_kb = stack_kb e, i_crash_count = crash_count e,
      i_auto_restart = enabled (restart e)\<rparr>"

definition app_manager_list :: "app_manager \<Rightarrow> int \<Rightarrow> app_info list result" where
  "app_manager_list st max_count =
     (if \<not> initialized st \<or> max_count \<le> 0 then Inl (- EINVAL)
      else Inr (take (nat max_count) (map info_of (filter (\<lambda>e. app_name e \<noteq> []) (registry st)))))"

definition app_manager_get_info :: "app_manager \<Rightarrow> c_chars option \<Rightarrow> app_info result" where
  "app_manager_get_info st name =
     (case name of
        None \<Rightarrow> Inl (- EINVAL)
      | Some n \<Rightarrow>
          if \<not> initialized st then Inl (- EINVAL)
          else (case find_app_by_name (registry st) n of
                  None \<Rightarrow> Inl (- ENOENT) | Some i \<Rightarrow> Inr (info_of (registry st ! i))))"

definition app_manager_get_state :: "app_manager \<Rightarrow> c_chars option \<Rightarrow> app_state_t" where
  "app_manager_get_state st name =
     (case name of
        None \<Rightarrow> APP_STATE_NEW
      | Some n \<Rightarrow>
          if \<not> initialized st then APP_STATE_NEW
          else (case find_app_by_name (registry st) n of
                  None \<Rightarrow> APP_STATE_NEW | Some i \<Rightarrow> app_state (registry st ! i)))"

definition app_manager_get_count :: "app_manager \<Rightarrow> nat" where
  "app_manager_get_count st = (if initialized st then unat (app_count st) else 0)"

definition app_manager_get_running_count :: "app_manager \<Rightarrow> nat" where
  "app_manager_get_running_count st = (if initialized st then running_count (registry st) else 0)"

text \<open>The names that a directory listing \<open>entries\<close> yields; an empty name ends it.\<close>

definition ends_with :: "c_chars \<Rightarrow> string \<Rightarrow> bool" where
  "ends_with n ext \<longleftrightarrow> length ext < length n \<and> drop (length n - length ext) n = text_chars ext"

fun app_manager_scan_dir :: "c_chars list \<Rightarrow> nat \<Rightarrow> c_chars list" where
  "app_manager_scan_dir [] max_count = []"
| "app_manager_scan_dir (n # ns) 0 = []"
| "app_manager_scan_dir (n # ns) (Suc max_count) =
     (if n = [] then []
      else if ends_with n ''.wasm'' \<or> ends_with n ''.aot'' then
        (let name_len = (case strrchr n 46 of None \<Rightarrow> length n | Some t \<Rightarrow> length n - length t) in
         take (if APP_NAME_MAX_LEN \<le> name_len then APP_NAME_MAX_LEN - 1 else name_len) n #
         app_manager_scan_dir ns max_count)
      else app_manager_scan_dir ns (Suc max_count))"

section \<open>Start-up and shutdown\<close>

definition ensure_dirs_exist :: "'w app_env \<Rightarrow> 'w \<Rightarrow> 'w" where
  "ensure_dirs_exist env w = (if fs_exists env APPS_DIR w then w else snd (fs_mkdir env APPS_DIR w))"

definition app_manager_init :: "'w app_env \<Rightarrow> app_manager \<times> 'w \<Rightarrow> int \<times> app_manager \<times> 'w" where
  "app_manager_init env s =
     (case s of (st, w) \<Rightarrow>
        if initialized st then (0, s)
        else
          (case rt_init env w of
             (ret, w) \<Rightarrow>
               if ret < 0 then (ret, st, w)
               else
                 let w = ensure_dirs_exist env w;
                     st = st\<lparr>registry := replicate CONFIG_AKIRA_APP_MAX_INSTALLED zero_entry,
                             sessions := replicate MAX_INSTALL_SESSIONS no_session, app_count := 0\<rparr> in
                 (case registry_load env st w of
                    (ret, st) \<Rightarrow>
                      (case (if ret < 0 then snd (registry_save env (st, w)) else (st, w)) of
                         (st, w) \<Rightarrow> (0, st\<lparr>restart_due := False, initialized := True\<rparr>, w)))))"

definition stop_at_shutdown :: "'w app_env \<Rightarrow> nat \<Rightarrow> app_manager \<times> 'w \<Rightarrow> app_manager \<times> 'w" where
  "stop_at_shutdown env i s =
     (case s of (st, w) \<Rightarrow>
        if app_state (registry st ! i) = APP_STATE_RUNNING \<and> 0 \<le> container_id (registry st ! i)
        then (upd_app i (\<lambda>e. e\<lparr>app_state := APP_STATE_STOPPED\<rparr>) st, snd (rt_stop env (container_id (registry st ! i)) w))
        else s)"

definition app_manager_shutdown :: "'w app_env \<Rightarrow> app_manager \<times> 'w \<Rightarrow> app_manager \<times> 'w" where
  "app_manager_shutdown env s =
     (if \<not> initialized (fst s) then s
      else
        (case registry_save env (fold (stop_at_shutdown env) [0..<CONFIG_AKIRA_APP_MAX_INSTALLED] s) of
           (_, st, w) \<Rightarrow> (st\<lparr>initialized := False\<rparr>, w)))"

end
