(* ===== verification/App_Lifecycle.thy ===== *)
theory App_Lifecycle
  imports App_Manager
begin

text \<open>
  What the application manager guarantees: the registry file gives the entries back, the registry stays
  well-formed under any interleaving of the operations, the number of running applications is bounded
  when the operations follow each other, automatic restarts end, and an upload in chunks is the
  installation of its concatenation.
\<close>

section \<open>Lookup\<close>

lemma find_app_SomeD: "find_app_by_name reg n = Some i \<Longrightarrow> i < length reg \<and> app_name (reg ! i) = n \<and> n \<noteq> []"
  unfolding find_app_by_name_def by (drule first_index_Some) auto

lemma find_app_None: "find_app_by_name reg n = None \<longleftrightarrow> n = [] \<or> n \<notin> app_name ` set reg"
  by (auto simp: find_app_by_name_def first_index_None)

lemma find_free_SomeD: "find_free_slot reg = Some i \<Longrightarrow> i < length reg \<and> app_name (reg ! i) = []"
  unfolding find_free_slot_def by (drule first_index_Some) simp

lemma upd_app_simps [simp]:
  "registry (upd_app i f st) = (registry st)[i := f (registry st ! i)]"
  "app_count (upd_app i f st) = app_count st" "initialized (upd_app i f st) = initialized st"
  "sessions (upd_app i f st) = sessions st" "restart_app_name (upd_app i f st) = restart_app_name st"
  "restart_due (upd_app i f st) = restart_due st"
  by (simp_all add: upd_app_def)

section \<open>The registry file\<close>

text \<open>
  What the load relies on: the memory image of each stored entry has the size of an entry and gives
  the entry back, as copying a structure does.
\<close>

definition image_contract :: "'w app_env \<Rightarrow> app_entry list \<Rightarrow> bool" where
  "image_contract env es \<longleftrightarrow>
     (\<forall>e \<in> set es. length (entry_octets env e) = sizeof_entry env \<and> octets_entry env (entry_octets env e) = e)"

definition named :: "app_manager \<Rightarrow> app_entry list" where
  "named st = filter (\<lambda>e. app_name e \<noteq> []) (registry st)"

lemma length_put_le [simp]: "length (put_le16 v) = 2" "length (put_le32 x) = 4"
  by (simp_all add: put_le16_def put_le32_def)

lemma get_put_le32 [simp]: "get_le32 (put_le32 x @ r) = x"
  by (simp add: get_le32_def put_le32_def)

lemma length_registry_header [simp]: "length (registry_header c x) = 12"
  by (simp add: registry_header_def)

lemma entries_from_images:
  "image_contract env es \<Longrightarrow> n \<le> length es \<Longrightarrow>
   entries_from env n (concat (map (entry_octets env) es)) = take n es"
proof (induction n arbitrary: es)
  case (Suc n)
  then obtain e es' where es: "es = e # es'" by (cases es) auto
  then show ?case using Suc by (simp add: image_contract_def)
qed simp

lemma length_images:
  "image_contract env es \<Longrightarrow> length (concat (map (entry_octets env) es)) = length es * sizeof_entry env"
  by (induction es) (auto simp: image_contract_def)

lemma registry_header_fields:
  "get_le32 (registry_header c x @ r) = REGISTRY_MAGIC"
  "(registry_header c x @ r) ! 4 = REGISTRY_VERSION" "(registry_header c x @ r) ! 5 = c"
  "get_le32 (drop 8 (registry_header c x @ r)) = x"
  "take 8 (registry_header c x @ r) @ put_le32 0 @ drop 12 (registry_header c x @ r) = registry_header c 0 @ r"
proof -
  obtain a b c' d where m: "put_le32 REGISTRY_MAGIC = [a, b, c', d]"
    using length_put_le(2) [of REGISTRY_MAGIC] by (auto simp: length_Suc_conv numeral_eq_Suc simp del: length_put_le)
  obtain p q where z: "put_le16 0 = [p, q]"
    using length_put_le(1) [of 0] by (auto simp: length_Suc_conv numeral_eq_Suc simp del: length_put_le)
  show "get_le32 (registry_header c x @ r) = REGISTRY_MAGIC"
    unfolding registry_header_def append_assoc by (rule get_put_le32)
  show "(registry_header c x @ r) ! 4 = REGISTRY_VERSION" "(registry_header c x @ r) ! 5 = c"
    by (simp_all add: registry_header_def m)
  show "get_le32 (drop 8 (registry_header c x @ r)) = x"
    by (simp add: registry_header_def m z)
  show "take 8 (registry_header c x @ r) @ put_le32 0 @ drop 12 (registry_header c x @ r) = registry_header c 0 @ r"
    by (simp add: registry_header_def m z)
qed

lemma registry_load_saved:
  assumes "image_contract env (named st)" and "length (registry st) = CONFIG_AKIRA_APP_MAX_INSTALLED"
    and "fs_read env REGISTRY_PATH (REGISTRY_HEADER_SIZE + CONFIG_AKIRA_APP_MAX_INSTALLED * sizeof_entry env) w =
      Inr (registry_image env st)" and "0 < sizeof_entry env"
  shows "registry_load env st0 w =
    (let count = min (unat (app_count st)) CONFIG_AKIRA_APP_MAX_INSTALLED in
     if count \<le> length (named st)
     then (0, st0\<lparr>registry := map loaded_entry (take count (named st)) @ drop count (registry st0),
                  app_count := of_nat count\<rparr>)
     else (- EIO, st0))"
proof -
  define crc where "crc = crc32 env (registry_header (app_count st) 0 @ concat (map (entry_octets env) (named st)))"
  have img: "registry_image env st = registry_header (app_count st) crc @ concat (map (entry_octets env) (named st))"
    by (simp add: registry_image_def named_def crc_def Let_def)
  have len: "length (registry_image env st) = 12 + length (named st) * sizeof_entry env"
    by (simp add: img length_images [OF assms(1)])
  have fits: "12 + length (named st) * sizeof_entry env < REGISTRY_HEADER_SIZE + c * sizeof_entry env \<longleftrightarrow> \<not> c \<le> length (named st)" for c
    using assms(4) by (auto simp: REGISTRY_HEADER_SIZE_def not_le)
  have body: "drop REGISTRY_HEADER_SIZE (registry_image env st) = concat (map (entry_octets env) (named st))"
    by (simp add: img REGISTRY_HEADER_SIZE_def)
  note f = registry_header_fields [of "app_count st" crc "concat (map (entry_octets env) (named st))", folded img]
  show ?thesis
    unfolding registry_load_def assms(3) sum.case Let_def f(1,2,3,4,5) fits len body crc_def [symmetric]
    using entries_from_images [OF assms(1)] by (simp add: REGISTRY_HEADER_SIZE_def)
qed


section \<open>Well-formed managers\<close>

text \<open>Under any interleaving: the tables have their size, no two applications share a name, a session
  holds no more than it announced and no more than an application may have.\<close>

definition session_ok :: "install_session \<Rightarrow> bool" where
  "session_ok x \<longleftrightarrow> (s_active x \<longrightarrow>
     length (s_data x) \<le> s_total x \<and> s_total x \<le> CONFIG_AKIRA_APP_MAX_SIZE_KB * 1024)"

definition names_distinct :: "app_entry list \<Rightarrow> bool" where
  "names_distinct reg \<longleftrightarrow>
     (\<forall>i < length reg. \<forall>j < length reg. app_name (reg ! i) = app_name (reg ! j) \<and> app_name (reg ! i) \<noteq> [] \<longrightarrow> i = j)"

definition manager_ok :: "app_manager \<Rightarrow> bool" where
  "manager_ok st \<longleftrightarrow>
     length (registry st) = CONFIG_AKIRA_APP_MAX_INSTALLED \<and> length (sessions st) = MAX_INSTALL_SESSIONS \<and>
     names_distinct (registry st) \<and> (\<forall>x \<in> set (sessions st). session_ok x)"

text \<open>With the operations one after the other: the limit of running applications, a container behind
  each of them, and a crash counter below the limit of restarts.\<close>

definition app_entry_ok :: "app_entry \<Rightarrow> bool" where
  "app_entry_ok e \<longleftrightarrow>
     (app_name e \<noteq> [] \<and> app_state e = APP_STATE_RUNNING \<longrightarrow> 0 \<le> container_id e) \<and>
     (enabled (restart e) \<and> app_state e \<noteq> APP_STATE_FAILED \<longrightarrow> crash_count e < max_retries (restart e) \<or> crash_count e = 0)"

definition lifecycle_ok :: "app_manager \<Rightarrow> bool" where
  "lifecycle_ok st \<longleftrightarrow>
     running_count (registry st) \<le> CONFIG_AKIRA_APP_MAX_RUNNING \<and> (\<forall>e \<in> set (registry st). app_entry_ok e)"

lemma names_distinct_upd:
  assumes "names_distinct reg" and "app_name e = app_name (reg ! i) \<or> app_name e = [] \<or> app_name e \<notin> app_name ` set reg"
  shows "names_distinct (reg[i := e])"
proof (cases "i < length reg")
  case True
  have other: "app_name e = app_name (reg ! j) \<Longrightarrow> app_name e \<noteq> [] \<Longrightarrow> j < length reg \<Longrightarrow> j = i" for j
    using assms True unfolding names_distinct_def by (metis image_eqI nth_mem)
  have same: "a = b" if "a < length reg" "b < length reg" "app_name (reg ! a) = app_name (reg ! b)" "app_name (reg ! a) \<noteq> []" for a b
    using assms(1) that unfolding names_distinct_def by blast
  show ?thesis unfolding names_distinct_def
  proof (intro allI impI, goal_cases)
    case (1 a b)
    then have ab: "a < length reg" "b < length reg" by simp_all
    consider "a = i" "b = i" | "a = i" "b \<noteq> i" | "a \<noteq> i" "b = i" | "a \<noteq> i" "b \<noteq> i" by blast
    then show ?case
    proof cases
      case 2
      then have "app_name e = app_name (reg ! b)" "app_name e \<noteq> []" using 1 True by auto
      then show ?thesis using other [of b] ab(2) 2 by simp
    next
      case 3
      then have "app_name e = app_name (reg ! a)" "app_name e \<noteq> []" using 1 True by auto
      then show ?thesis using other [of a] ab(1) 3 by simp
    next
      case 4
      then show ?thesis using 1 same [OF ab] by auto
    qed simp
  qed
qed (simp add: assms(1) list_update_beyond)

lemma find_app_unique:
  assumes "names_distinct reg" and "i < length reg" and "app_name (reg ! i) \<noteq> []"
  shows "find_app_by_name reg (app_name (reg ! i)) = Some i"
  unfolding find_app_by_name_def
  by (rule first_index_SomeI) (use assms in \<open>auto simp: names_distinct_def\<close>)

lemma running_count_upd_le:
  "i < length reg \<Longrightarrow> app_state e \<noteq> APP_STATE_RUNNING \<or> app_state (reg ! i) = APP_STATE_RUNNING \<Longrightarrow>
   running_count (reg[i := e]) \<le> running_count reg"
proof (induction reg arbitrary: i)
  case (Cons x reg)
  then show ?case
  proof (cases i)
    case 0
    then show ?thesis using Cons.prems by (auto simp: running_count_def)
  next
    case (Suc k)
    then show ?thesis using Cons.IH [of k] Cons.prems by (auto simp: running_count_def)
  qed
qed simp

lemma running_count_upd_Suc: "running_count (reg[i := e]) \<le> Suc (running_count reg)"
proof (induction reg arbitrary: i)
  case (Cons x reg)
  then show ?case
  proof (cases i)
    case (Suc k)
    then show ?thesis using Cons.IH [of k] by (auto simp: running_count_def)
  qed (auto simp: running_count_def)
qed simp

text \<open>What a change of state does to an entry and to the manager, apart from the callbacks.\<close>

definition changed_entry :: "app_state_t \<Rightarrow> app_entry \<Rightarrow> app_entry" where
  "changed_entry new_state e =
     (if app_state e = new_state then e
      else if new_state = APP_STATE_ERROR \<and> enabled (restart e) then
        (if crash_count e + 1 < max_retries (restart e)
         then e\<lparr>app_state := APP_STATE_ERROR, crash_count := crash_count e + 1\<rparr>
         else e\<lparr>crash_count := crash_count e + 1, app_state := APP_STATE_FAILED\<rparr>)
      else e\<lparr>app_state := new_state\<rparr>)"

definition schedules_restart :: "app_state_t \<Rightarrow> app_entry \<Rightarrow> bool" where
  "schedules_restart new_state e \<longleftrightarrow> app_state e \<noteq> new_state \<and> new_state = APP_STATE_ERROR \<and> enabled (restart e) \<and>
     crash_count e + 1 < max_retries (restart e)"

lemma upd_app_upd_app: "upd_app i f (upd_app i g st) = upd_app i (\<lambda>_. f (g (registry st ! i))) st" if "i < length (registry st)"
  using that by (simp add: upd_app_def)

lemma set_app_state_fst:
  assumes "i < length (registry st)"
  shows "fst (set_app_state env i new_state (st, w)) =
    (if schedules_restart new_state (registry st ! i)
     then (upd_app i (changed_entry new_state) st)\<lparr>restart_app_name := app_name (registry st ! i), restart_due := True\<rparr>
     else upd_app i (changed_entry new_state) st)"
  using assms
  by (auto simp: set_app_state_def schedules_restart_def changed_entry_def Let_def upd_app_def list_update_id)

lemma changed_entry_simps [simp]:
  "app_name (changed_entry s e) = app_name e" "container_id (changed_entry s e) = container_id e"
  "restart (changed_entry s e) = restart e" "app_id (changed_entry s e) = app_id e"
  by (simp_all add: changed_entry_def)

lemma set_app_state_keeps:
  assumes "i < length (registry st)" and "set_app_state env i new_state (st, w) = (st', w')"
  shows "registry st' = (registry st)[i := changed_entry new_state (registry st ! i)]"
    and "sessions st' = sessions st" and "app_count st' = app_count st" and "initialized st' = initialized st"
    and "restart_app_name st' =
      (if schedules_restart new_state (registry st ! i) then app_name (registry st ! i) else restart_app_name st)"
  using set_app_state_fst [OF assms(1), of env new_state w] assms(2) by auto

lemma registry_save_fst [simp]: "fst (snd (registry_save env s)) = fst s"
  by (simp add: registry_save_def split: prod.splits)

lemma registry_saveD: "registry_save env (st, w) = (r, st', w') \<Longrightarrow> st' = st"
  using registry_save_fst [of env "(st, w)"] by simp

lemma save_app_binaryD: "save_app_binary env n b (st, w) = (r, st', w') \<Longrightarrow> st' = st"
  by (auto simp: save_app_binary_def Let_def split: if_splits prod.splits)

lemma delete_app_binaryD: "delete_app_binary env n (st, w) = (r, st', w') \<Longrightarrow> st' = st"
  by (auto simp: delete_app_binary_def split: option.splits prod.splits)

subsection \<open>Under any interleaving\<close>

lemma manager_ok_fields [simp]:
  "manager_ok (st\<lparr>app_count := c\<rparr>) = manager_ok st" "manager_ok (st\<lparr>restart_app_name := n\<rparr>) = manager_ok st"
  "manager_ok (st\<lparr>restart_due := d\<rparr>) = manager_ok st" "manager_ok (st\<lparr>initialized := z\<rparr>) = manager_ok st"
  by (simp_all add: manager_ok_def)

lemma manager_ok_upd:
  assumes "manager_ok st"
    and "app_name (f (registry st ! i)) = app_name (registry st ! i) \<or> app_name (f (registry st ! i)) = [] \<or>
         app_name (f (registry st ! i)) \<notin> app_name ` set (registry st)"
  shows "manager_ok (upd_app i f st)"
  using assms names_distinct_upd [of "registry st" "f (registry st ! i)" i] by (simp add: manager_ok_def)

lemma manager_ok_state:
  assumes "manager_ok st" and "i < length (registry st)" and "set_app_state env i new_state (st, w) = (st', w')"
  shows "manager_ok st'"
proof -
  have "manager_ok (upd_app i (changed_entry new_state) st)" using assms(1) by (rule manager_ok_upd) simp
  then show ?thesis using set_app_state_fst [OF assms(2), of env new_state w] assms(3) by (auto split: if_splits)
qed

lemma manager_ok_session:
  assumes "manager_ok st" and "session_ok (f (sessions st ! i))"
  shows "manager_ok (upd_session i f st)"
  using assms set_update_subset_insert [of "sessions st" i "f (sessions st ! i)"]
  by (auto simp: manager_ok_def upd_session_def)

lemma image_update_same: "i < length xs \<Longrightarrow> f y = f (xs ! i) \<Longrightarrow> f ` set (xs[i := y]) = f ` set xs"
  by (metis list_update_id map_update nth_map set_map)

lemma take_install_slotD:
  assumes "take_install_slot env n (st, w) = (Some i, st', w')" and "manager_ok st"
  shows "manager_ok st' \<and> i < length (registry st) \<and> length (registry st') = length (registry st) \<and>
    (app_name (registry st' ! i) = n \<or> n = [] \<or> n \<notin> app_name ` set (registry st'))"
proof (cases "find_app_by_name (registry st) n")
  case (Some j)
  then have st': "i = j" "st' = upd_app j (\<lambda>e. e\<lparr>container_id := -1\<rparr>) st"
    using assms(1) by (auto simp: take_install_slot_def Let_def)
  then show ?thesis using manager_ok_upd [OF assms(2), of "\<lambda>e. e\<lparr>container_id := -1\<rparr>" j] find_app_SomeD [OF Some] by simp
next
  case None
  then obtain free: "find_free_slot (registry st) = Some i"
    and st': "st' = (upd_app i (\<lambda>e. e\<lparr>app_id := of_nat i + 1\<rparr>) st)\<lparr>app_count := app_count st + 1\<rparr>"
    using assms(1) by (auto simp: take_install_slot_def split: option.splits)
  have i: "i < length (registry st)" "app_name (registry st ! i) = []" using find_free_SomeD [OF free] by simp_all
  have "app_name ` set (registry st') = app_name ` set (registry st)"
    using image_update_same [OF i(1), of app_name "(registry st ! i)\<lparr>app_id := of_nat i + 1\<rparr>"] by (simp add: st')
  then show ?thesis using None manager_ok_upd [OF assms(2), of "\<lambda>e. e\<lparr>app_id := of_nat i + 1\<rparr>" i] i
    by (auto simp: st' find_app_None)
qed

lemma app_name_installed_entry [simp]: "app_name (installed_entry env b m src w e) = app_name e"
  by (simp add: installed_entry_def Let_def split: option.splits)

lemma manager_ok_install:
  assumes "manager_ok (fst s)"
  shows "manager_ok (fst (snd (app_manager_install env name binary m src s)))"
proof (cases "\<exists>b. binary = Some b \<and> initialized (fst s) \<and> length b \<noteq> 0 \<and> \<not> validate_wasm b < 0 \<and>
    \<not> app_too_large (length b)")
  case False
  then show ?thesis using assms by (auto simp: app_manager_install_def split: option.splits)
next
  case True
  then obtain b where b: "binary = Some b" "initialized (fst s)" "length b \<noteq> 0" "\<not> validate_wasm b < 0"
    "\<not> app_too_large (length b)" by blast
  let ?n = "install_name env name b m"
  obtain st w where s: "s = (st, w)" by (cases s)
  obtain x st1 w1 where slot: "take_install_slot env ?n (st, w) = (x, st1, w1)" by (cases "take_install_slot env ?n (st, w)") auto
  show ?thesis
  proof (cases x)
    case None
    then have "st1 = st" using slot by (auto simp: take_install_slot_def Let_def split: option.splits)
    then show ?thesis using b assms None slot s by (simp add: app_manager_install_def Let_def)
  next
    case (Some i)
    have t: "manager_ok st1" "i < length (registry st1)"
      "app_name (registry st1 ! i) = ?n \<or> ?n = [] \<or> ?n \<notin> app_name ` set (registry st1)"
      using take_install_slotD [OF slot [unfolded Some]] assms s by auto
    let ?st2 = "upd_app i (\<lambda>e. e\<lparr>app_name := ?n\<rparr>) st1"
    have ok2: "manager_ok ?st2" using t by (intro manager_ok_upd) auto
    obtain ret st3 w3 where save: "save_app_binary env ?n b (?st2, w1) = (ret, st3, w3)"
      by (cases "save_app_binary env ?n b (?st2, w1)") auto
    have st3: "st3 = ?st2" using save_app_binaryD [OF save] .
    let ?st4 = "upd_app i (installed_entry env b m src w3) ?st2"
    have ok4: "manager_ok ?st4" using ok2 by (rule manager_ok_upd) simp
    obtain st5 w5 where set: "set_app_state env i APP_STATE_INSTALLED (?st4, w3) = (st5, w5)"
      by (cases "set_app_state env i APP_STATE_INSTALLED (?st4, w3)") auto
    have ok5: "manager_ok st5" using manager_ok_state [OF ok4 _ set] t(2) by simp
    have okf: "manager_ok (upd_app i (\<lambda>e. e\<lparr>app_name := []\<rparr>) ?st2)" using ok2 by (rule manager_ok_upd) simp
    then have okf': "manager_ok (upd_app i (\<lambda>e. e\<lparr>app_name := []\<rparr>) (?st2\<lparr>app_count := k\<rparr>))" for k
      by (simp add: upd_app_def manager_ok_def)
    show ?thesis
      using b s slot Some save st3 set ok5 okf okf'
      by (auto simp: app_manager_install_def Let_def dest!: registry_saveD split: prod.splits)
  qed
qed

lemma manager_ok_install_path:
  assumes "manager_ok (fst s)"
  shows "manager_ok (fst (snd (app_manager_install_from_path env path s)))"
proof -
  have "manager_ok st'" if "app_manager_install env n b m src s = (r, st', w')" for n b m src r st' w'
    using manager_ok_install [OF assms, of env n b m src] that by simp
  then show ?thesis using assms manager_ok_install [OF assms]
    by (auto simp: app_manager_install_from_path_def Let_def split: option.splits sum.splits prod.splits)
qed

lemma manager_ok_zero: "manager_ok st \<Longrightarrow> manager_ok (upd_app i (\<lambda>_. zero_entry) st)"
  by (rule manager_ok_upd) (simp_all add: zero_entry_def)

lemma manager_ok_uninstall:
  assumes "manager_ok (fst s)"
  shows "manager_ok (fst (snd (app_manager_uninstall env name s)))"
  using assms manager_ok_zero
  by (auto simp: app_manager_uninstall_def Let_def dest!: registry_saveD delete_app_binaryD split: option.splits prod.splits)

lemma manager_ok_keep_name: "manager_ok st \<Longrightarrow> (\<And>e. app_name (f e) = app_name e) \<Longrightarrow> manager_ok (upd_app i f st)"
  by (rule manager_ok_upd) simp_all

lemma manager_ok_start_prepare:
  assumes "manager_ok (fst s)"
  shows "manager_ok (fst (snd (start_prepare env name s)))"
proof -
  have a: "manager_ok (upd_app i (\<lambda>e. e\<lparr>crash_count := 0\<rparr>) st)" if "manager_ok st" for i st
    using that by (rule manager_ok_keep_name) simp
  have b: "manager_ok (upd_app i (\<lambda>e. e\<lparr>container_id := c\<rparr>) st)" if "manager_ok st" for i st c
    using that by (rule manager_ok_keep_name) simp
  show ?thesis using assms a b
    by (auto simp: start_prepare_def Let_def split: option.splits prod.splits)
qed

lemma manager_ok_start_finish:
  assumes "manager_ok (fst s)"
  shows "manager_ok (fst (snd (start_finish env n cid ret s)))"
proof -
  obtain st w where s: "s = (st, w)" by (cases s)
  show ?thesis
  proof (cases "find_app_by_name (registry st) n")
    case None
    then show ?thesis using assms s by (simp add: start_finish_def)
  next
    case (Some i)
    have i: "i < length (registry st)" using find_app_SomeD [OF Some] by simp
    let ?st1 = "upd_app i (\<lambda>e. e\<lparr>last_start_time := uptime_ms env w div 1000\<rparr>) st"
    have ok1: "manager_ok ?st1" using assms s by (auto intro: manager_ok_keep_name)
    obtain st2 w2 where e: "set_app_state env i APP_STATE_ERROR (st, w) = (st2, w2)"
      by (cases "set_app_state env i APP_STATE_ERROR (st, w)") auto
    obtain st3 w3 where r: "set_app_state env i APP_STATE_RUNNING (?st1, w) = (st3, w3)"
      by (cases "set_app_state env i APP_STATE_RUNNING (?st1, w)") auto
    have "manager_ok (upd_app i (\<lambda>e. e\<lparr>container_id := - 1\<rparr>) st2)"
      using manager_ok_state [OF _ i e] assms s by (auto intro: manager_ok_keep_name)
    moreover have "manager_ok st3" using manager_ok_state [OF ok1 _ r] i by simp
    ultimately show ?thesis using Some s e r
      by (auto simp: start_finish_def dest!: registry_saveD split: prod.splits)
  qed
qed

lemma manager_ok_start:
  assumes "manager_ok (fst s)"
  shows "manager_ok (fst (snd (app_manager_start env name s)))"
proof -
  obtain x st w where p: "start_prepare env name s = (x, st, w)" by (cases "start_prepare env name s") auto
  have "manager_ok st" using manager_ok_start_prepare [OF assms, of env name] p by simp
  then show ?thesis using p manager_ok_start_finish [of "(st, y)" for y]
    by (auto simp: app_manager_start_def split: sum.splits prod.splits)
qed

lemma manager_ok_stop_prepare:
  assumes "manager_ok (fst s)"
  shows "manager_ok (fst (snd (stop_prepare env name s)))"
  using assms manager_ok_keep_name [of "fst s" "\<lambda>e. e\<lparr>container_id := - 1\<rparr>"]
  by (auto simp: stop_prepare_def split: option.splits prod.splits)

lemma manager_ok_stop_finish:
  assumes "manager_ok (fst s)"
  shows "manager_ok (fst (snd (stop_finish env n ret s)))"
proof -
  obtain st w where s: "s = (st, w)" by (cases s)
  show ?thesis
  proof (cases "find_app_by_name (registry st) n")
    case None
    then show ?thesis using assms s by (simp add: stop_finish_def Let_def)
  next
    case (Some i)
    have i: "i < length (registry st)" using find_app_SomeD [OF Some] by simp
    obtain st2 w2 where e: "set_app_state env i APP_STATE_STOPPED (st, w) = (st2, w2)"
      by (cases "set_app_state env i APP_STATE_STOPPED (st, w)") auto
    have ok2: "manager_ok st2" using manager_ok_state [OF _ i e] assms s by simp
    then have "manager_ok (upd_app i (\<lambda>e. e\<lparr>container_id := - 1\<rparr>) st2)" by (rule manager_ok_keep_name) simp
    then show ?thesis using Some s e ok2 by (simp add: stop_finish_def Let_def)
  qed
qed

lemma manager_ok_stop:
  assumes "manager_ok (fst s)"
  shows "manager_ok (fst (snd (app_manager_stop env name s)))"
proof -
  obtain x st w where p: "stop_prepare env name s = (x, st, w)" by (cases "stop_prepare env name s") auto
  have "manager_ok st" using manager_ok_stop_prepare [OF assms, of env name] p by simp
  then show ?thesis using p manager_ok_stop_finish [of "(st, y)" for y]
    by (auto simp: app_manager_stop_def split: sum.splits prod.splits)
qed

lemma manager_ok_restart:
  assumes "manager_ok (fst s)"
  shows "manager_ok (fst (snd (app_manager_restart env name s)))"
proof -
  have a: "manager_ok (upd_app i (\<lambda>e. e\<lparr>crash_count := 0\<rparr>) st)" if "manager_ok st" for i st
    using that by (rule manager_ok_keep_name) simp
  have b: "manager_ok (upd_app i (\<lambda>e. e\<lparr>container_id := - 1\<rparr>) st)" if "manager_ok st" for i st
    using that by (rule manager_ok_keep_name) simp
  have c: "manager_ok (fst (set_app_state env i APP_STATE_STOPPED (st, w)))"
    if "manager_ok st" "find_app_by_name (registry st) n = Some i" for i st w n
    using manager_ok_state [OF that(1), of i env] find_app_SomeD [OF that(2)]
    by (cases "set_app_state env i APP_STATE_STOPPED (st, w)") auto
  show ?thesis using assms
    by (auto simp: app_manager_restart_def Let_def split: option.splits prod.splits
        intro!: manager_ok_start a b c)
qed

lemma manager_ok_exit:
  assumes "manager_ok (fst s)"
  shows "manager_ok (fst (app_manager_on_runtime_exit env slot code s))"
proof -
  obtain st w where s: "s = (st, w)" by (cases s)
  show ?thesis
  proof (cases "first_index (\<lambda>e. app_state e = APP_STATE_RUNNING \<and> container_id e = slot) (registry st)")
    case None
    then show ?thesis using assms s by (simp add: app_manager_on_runtime_exit_def)
  next
    case (Some i)
    let ?new = "if code = 0 then APP_STATE_STOPPED else APP_STATE_ERROR"
    let ?st1 = "upd_app i (\<lambda>e. e\<lparr>container_id := - 1\<rparr>) st"
    have i: "i < length (registry ?st1)" using first_index_Some [OF Some] by simp
    have ok1: "manager_ok ?st1" using assms s by (auto intro: manager_ok_keep_name)
    obtain st2 w2 where e: "set_app_state env i ?new (?st1, w) = (st2, w2)"
      by (cases "set_app_state env i ?new (?st1, w)") auto
    have "manager_ok st2" by (rule manager_ok_state [OF ok1 i e])
    then show ?thesis using Some s e
      by (auto simp: app_manager_on_runtime_exit_def Let_def dest!: registry_saveD split: prod.splits)
  qed
qed

lemma manager_ok_restart_work:
  assumes "manager_ok (fst s)"
  shows "manager_ok (fst (restart_work_handler env s))"
  using assms manager_ok_start [of "((fst s)\<lparr>restart_due := False\<rparr>, snd s)" env "Some (restart_app_name (fst s))"]
  by (auto simp: restart_work_handler_def Let_def split: prod.splits)

lemma manager_ok_begin:
  assumes "manager_ok (fst s)"
  shows "manager_ok (snd (app_manager_install_begin env name n src s))"
  using assms by (auto simp: app_manager_install_begin_def app_too_large_def session_ok_def not_less
      intro!: manager_ok_session split: option.splits prod.splits)

lemma manager_ok_chunk:
  assumes "manager_ok st"
  shows "manager_ok (snd (app_manager_install_chunk session data st))"
proof -
  have "session_ok (sessions st ! nat session)" if "0 \<le> session" "session < int MAX_INSTALL_SESSIONS"
    using assms that nth_mem [of "nat session" "sessions st"] by (auto simp: manager_ok_def)
  then show ?thesis using assms
    by (auto simp: app_manager_install_chunk_def Let_def session_ok_def not_less not_le
        intro!: manager_ok_session split: option.splits)
qed

lemma manager_ok_abort: "manager_ok st \<Longrightarrow> manager_ok (app_manager_install_abort session st)"
  by (auto simp: app_manager_install_abort_def session_ok_def intro!: manager_ok_session)

lemma manager_ok_package:
  assumes "manager_ok (fst s)"
  shows "manager_ok (fst (snd (app_manager_install_akpkg env imem before beyond name k pkg src s)))"
proof -
  have "manager_ok st'" if "app_manager_install env n b m src s = (r, st', w')" for n b m src r st' w'
    using manager_ok_install [OF assms, of env n b m src] that by simp
  then show ?thesis using assms
    by (auto simp: app_manager_install_akpkg_def Let_def split: option.splits sum.splits prod.splits)
qed

lemma manager_ok_end:
  assumes "manager_ok (fst s)"
  shows "manager_ok (fst (snd (app_manager_install_end env imem before beyond session m s)))"
proof -
  have "manager_ok st'" if "app_manager_install env n b m src s = (r, st', w')" for n b m src r st' w'
    using manager_ok_install [OF assms, of env n b m src] that by simp
  moreover have "manager_ok st'"
    if "app_manager_install_akpkg env imem before beyond n k b src s = (r, st', w')" for n k b src r st' w'
    using manager_ok_package [OF assms, of env imem before beyond n k b src] that by simp
  ultimately show ?thesis using assms
    by (auto simp: app_manager_install_end_def Let_def session_ok_def
        intro!: manager_ok_session manager_ok_abort split: if_splits prod.splits)
qed

lemma manager_ok_shutdown:
  assumes "manager_ok (fst s)"
  shows "manager_ok (fst (app_manager_shutdown env s))"
proof -
  have step: "manager_ok (fst (stop_at_shutdown env i x))" if "manager_ok (fst x)" for i x
    using that manager_ok_keep_name [of "fst x" "\<lambda>e. e\<lparr>app_state := APP_STATE_STOPPED\<rparr>" i]
    by (auto simp: stop_at_shutdown_def split: prod.splits)
  have "manager_ok (fst (fold (stop_at_shutdown env) is s))" for "is"
    using assms by (induction "is" arbitrary: s) (simp_all add: step)
  from this [of "[0..<CONFIG_AKIRA_APP_MAX_INSTALLED]"] show ?thesis using assms
    by (cases "fold (stop_at_shutdown env) [0..<CONFIG_AKIRA_APP_MAX_INSTALLED] s")
      (auto simp: app_manager_shutdown_def dest!: registry_saveD split: prod.splits)
qed

text \<open>
  The operations as events. The four halves are the parts of a start and of a stop between which
  other threads may run.
\<close>

datatype app_op =
    Install "c_chars option" "octets option" "app_manifest option" app_source_t
  | Install_path "c_chars option"
  | Package octets octets "c_chars option" nat "octets option" app_source_t
  | Begin "c_chars option" nat app_source_t
  | Chunk int "octets option"
  | Abort int
  | End octets octets int "app_manifest option"
  | Uninstall "c_chars option"
  | Start "c_chars option"
  | Stop "c_chars option"
  | Restart "c_chars option"
  | Exit int int
  | Restart_work
  | Shutdown
  | Start_begins "c_chars option"
  | Start_ends c_chars int int
  | Stop_begins "c_chars option"
  | Stop_ends c_chars int

fun app_do :: "'w app_env \<Rightarrow> inf_env \<Rightarrow> app_op \<Rightarrow> app_manager \<times> 'w \<Rightarrow> app_manager \<times> 'w" where
  "app_do env imem (Install n b m src) s = snd (app_manager_install env n b m src s)"
| "app_do env imem (Install_path p) s = snd (app_manager_install_from_path env p s)"
| "app_do env imem (Package before beyond n k b src) s =
     snd (app_manager_install_akpkg env imem before beyond n k b src s)"
| "app_do env imem (Begin n k src) s = (snd (app_manager_install_begin env n k src s), snd s)"
| "app_do env imem (Chunk k d) s = (snd (app_manager_install_chunk k d (fst s)), snd s)"
| "app_do env imem (Abort k) s = (app_manager_install_abort k (fst s), snd s)"
| "app_do env imem (End before beyond k m) s = snd (app_manager_install_end env imem before beyond k m s)"
| "app_do env imem (Uninstall n) s = snd (app_manager_uninstall env n s)"
| "app_do env imem (Start n) s = snd (app_manager_start env n s)"
| "app_do env imem (Stop n) s = snd (app_manager_stop env n s)"
| "app_do env imem (Restart n) s = snd (app_manager_restart env n s)"
| "app_do env imem (Exit slot code) s = app_manager_on_runtime_exit env slot code s"
| "app_do env imem Restart_work s = restart_work_handler env s"
| "app_do env imem Shutdown s = app_manager_shutdown env s"
| "app_do env imem (Start_begins n) s = snd (start_prepare env n s)"
| "app_do env imem (Start_ends n cid ret) s = snd (start_finish env n cid ret s)"
| "app_do env imem (Stop_begins n) s = snd (stop_prepare env n s)"
| "app_do env imem (Stop_ends n ret) s = snd (stop_finish env n ret s)"

definition app_run :: "'w app_env \<Rightarrow> inf_env \<Rightarrow> app_op list \<Rightarrow> app_manager \<times> 'w \<Rightarrow> app_manager \<times> 'w" where
  "app_run env imem ops s = fold (app_do env imem) ops s"

lemmas manager_ok_ops = manager_ok_install manager_ok_install_path manager_ok_package manager_ok_begin manager_ok_chunk
  manager_ok_abort manager_ok_end manager_ok_uninstall manager_ok_start manager_ok_stop manager_ok_restart manager_ok_exit
  manager_ok_restart_work manager_ok_shutdown manager_ok_start_prepare manager_ok_start_finish manager_ok_stop_prepare
  manager_ok_stop_finish

lemma manager_ok_do: "manager_ok (fst s) \<Longrightarrow> manager_ok (fst (app_do env imem op s))"
  by (cases op) (simp_all add: manager_ok_ops)

lemma manager_ok_run: "manager_ok (fst s) \<Longrightarrow> manager_ok (fst (app_run env imem ops s))"
  unfolding app_run_def by (induction ops arbitrary: s) (simp_all add: manager_ok_do)

section \<open>Operations one after the other\<close>

definition one_after_other :: "app_op \<Rightarrow> bool" where
  "one_after_other op \<longleftrightarrow>
     (case op of Start_begins _ \<Rightarrow> False | Start_ends _ _ _ \<Rightarrow> False | Stop_begins _ \<Rightarrow> False | Stop_ends _ _ \<Rightarrow> False
      | _ \<Rightarrow> True)"

lemma lifecycle_ok_fields [simp]:
  "lifecycle_ok (st\<lparr>app_count := c\<rparr>) = lifecycle_ok st" "lifecycle_ok (st\<lparr>restart_app_name := n\<rparr>) = lifecycle_ok st"
  "lifecycle_ok (st\<lparr>restart_due := d\<rparr>) = lifecycle_ok st" "lifecycle_ok (st\<lparr>initialized := z\<rparr>) = lifecycle_ok st"
  "lifecycle_ok (upd_session i g st) = lifecycle_ok st"
  by (simp_all add: lifecycle_ok_def upd_session_def)

lemma lifecycle_ok_entry: "lifecycle_ok st \<Longrightarrow> i < length (registry st) \<Longrightarrow> app_entry_ok (registry st ! i)"
  by (simp add: lifecycle_ok_def)

text \<open>One entry replaced by a good one that does not newly run.\<close>

lemma lifecycle_ok_replace:
  assumes "lifecycle_ok st" and "registry st' = (registry st)[i := e]" and "i < length (registry st)"
    and "app_entry_ok e" and "app_state e \<noteq> APP_STATE_RUNNING \<or> app_state (registry st ! i) = APP_STATE_RUNNING"
  shows "lifecycle_ok st'"
  using assms running_count_upd_le [OF assms(3,5)] set_update_subset_insert [of "registry st" i e]
  by (auto simp: lifecycle_ok_def)

lemma app_entry_ok_changed:
  assumes "app_entry_ok e" and "app_state e \<noteq> APP_STATE_FAILED \<or> crash_count e = 0"
    and "s = APP_STATE_RUNNING \<Longrightarrow> 0 \<le> container_id e" and "s \<noteq> APP_STATE_FAILED"
  shows "app_entry_ok (changed_entry s e)"
  using assms by (auto simp: app_entry_ok_def changed_entry_def)

lemma changed_entry_running: "app_state (changed_entry s e) = APP_STATE_RUNNING \<longleftrightarrow> s = APP_STATE_RUNNING"
  by (auto simp: changed_entry_def)

lemma find_app_upd: "app_name e = app_name (reg ! i) \<Longrightarrow> find_app_by_name (reg[i := e]) n = find_app_by_name reg n"
proof (cases "i < length reg")
  case True
  assume e: "app_name e = app_name (reg ! i)"
  have "app_name (reg[i := e] ! j) = app_name (reg ! j)" for j using e True by (cases "j = i") simp_all
  then show ?thesis unfolding find_app_by_name_def by (intro first_index_cong) simp_all
qed (simp add: list_update_beyond)

text \<open>What an installation leaves of an entry: on an error its name is gone, otherwise it is installed.\<close>

definition install_shape :: "app_entry \<Rightarrow> app_entry \<Rightarrow> bool" where
  "install_shape e x \<longleftrightarrow>
     app_name x = [] \<and> app_state x = app_state e \<and> crash_count x = crash_count e \<and> restart x = restart e \<or>
     app_state x = APP_STATE_INSTALLED \<and> crash_count x = 0"

lemma take_install_slot_registry:
  assumes "take_install_slot env n (st, w) = (Some i, st', w')"
  shows "i < length (registry st) \<and> (\<exists>x. registry st' = (registry st)[i := x] \<and> app_state x = app_state (registry st ! i) \<and>
    crash_count x = crash_count (registry st ! i) \<and> restart x = restart (registry st ! i))"
  using assms find_app_SomeD [of "registry st" n i] find_free_SomeD [of "registry st" i]
  by (auto simp: take_install_slot_def Let_def split: option.splits)

lemma installed_entry_simps [simp]:
  "app_state (installed_entry env b m src w e) = app_state e" "crash_count (installed_entry env b m src w e) = 0"
  by (simp_all add: installed_entry_def Let_def split: option.splits)

lemma install_registry:
  assumes "app_manager_install env name binary m src (st, w) = (r, st', w')"
  shows "registry st' = registry st \<or>
    (\<exists>i x. i < length (registry st) \<and> registry st' = (registry st)[i := x] \<and> install_shape (registry st ! i) x)"
proof (cases "\<exists>b. binary = Some b \<and> initialized st \<and> length b \<noteq> 0 \<and> \<not> validate_wasm b < 0 \<and>
    \<not> app_too_large (length b)")
  case False
  then show ?thesis using assms by (auto simp: app_manager_install_def split: option.splits if_splits)
next
  case True
  then obtain b where b: "binary = Some b" "initialized st" "length b \<noteq> 0" "\<not> validate_wasm b < 0"
    "\<not> app_too_large (length b)" by blast
  let ?n = "install_name env name b m"
  obtain y st1 w1 where slot: "take_install_slot env ?n (st, w) = (y, st1, w1)" by (cases "take_install_slot env ?n (st, w)") auto
  show ?thesis
  proof (cases y)
    case None
    then have "st1 = st" using slot by (auto simp: take_install_slot_def Let_def split: option.splits)
    then show ?thesis using b assms None slot by (simp add: app_manager_install_def Let_def)
  next
    case (Some i)
    obtain x where i: "i < length (registry st)" and x: "registry st1 = (registry st)[i := x]"
      "app_state x = app_state (registry st ! i)" "crash_count x = crash_count (registry st ! i)" "restart x = restart (registry st ! i)"
      using take_install_slot_registry [OF slot [unfolded Some]] by blast
    let ?st2 = "upd_app i (\<lambda>e. e\<lparr>app_name := ?n\<rparr>) st1"
    obtain ret st3 w3 where save: "save_app_binary env ?n b (?st2, w1) = (ret, st3, w3)"
      by (cases "save_app_binary env ?n b (?st2, w1)") auto
    have st3: "st3 = ?st2" using save_app_binaryD [OF save] .
    let ?x4 = "installed_entry env b m src w3 (x\<lparr>app_name := ?n\<rparr>)"
    let ?st4 = "upd_app i (installed_entry env b m src w3) ?st2"
    have r4: "registry ?st4 = (registry st)[i := ?x4]" using i x by simp
    obtain st5 w5 where set: "set_app_state env i APP_STATE_INSTALLED (?st4, w3) = (st5, w5)"
      by (cases "set_app_state env i APP_STATE_INSTALLED (?st4, w3)") auto
    have "registry st5 = (registry st)[i := changed_entry APP_STATE_INSTALLED ?x4]"
      using set_app_state_keeps(1) [OF _ set] r4 i x(1) by simp
    moreover have "install_shape (registry st ! i) (changed_entry APP_STATE_INSTALLED ?x4)"
      by (simp add: install_shape_def changed_entry_def)
    moreover have "install_shape (registry st ! i) (x\<lparr>app_name := []\<rparr>)" using x by (simp add: install_shape_def)
    ultimately show ?thesis using assms b slot Some save st3 set i x(1)
      by (auto simp: app_manager_install_def Let_def dest!: registry_saveD split: prod.splits if_splits)
  qed
qed

lemma lifecycle_ok_install:
  assumes "lifecycle_ok (fst s)"
  shows "lifecycle_ok (fst (snd (app_manager_install env name binary m src s)))"
proof -
  obtain st w where s: "s = (st, w)" by (cases s)
  obtain r st' w' where r: "app_manager_install env name binary m src (st, w) = (r, st', w')"
    by (cases "app_manager_install env name binary m src (st, w)") auto
  consider "registry st' = registry st"
    | i x where "i < length (registry st)" "registry st' = (registry st)[i := x]" "install_shape (registry st ! i) x"
    using install_registry [OF r] by blast
  then have "lifecycle_ok st'"
  proof cases
    case 1
    then show ?thesis using assms s by (simp add: lifecycle_ok_def)
  next
    case 2
    have "app_entry_ok x" using lifecycle_ok_entry [OF _ 2(1)] assms s 2(3) by (auto simp: app_entry_ok_def install_shape_def)
    then show ?thesis using lifecycle_ok_replace [OF _ 2(2,1)] assms s 2(3) by (auto simp: install_shape_def)
  qed
  then show ?thesis using r s by simp
qed

lemma lifecycle_ok_installs:
  assumes "lifecycle_ok (fst s)"
  shows "lifecycle_ok (fst (snd (app_manager_install_from_path env path s)))"
    and "lifecycle_ok (fst (snd (app_manager_install_akpkg env imem before beyond name k pkg src s)))"
    and "lifecycle_ok (fst (snd (app_manager_install_end env imem before beyond session m s)))"
proof -
  have a: "lifecycle_ok st'" if "app_manager_install env n b m src s = (r, st', w')" for n b m src r st' w'
    using lifecycle_ok_install [OF assms, of env n b m src] that by simp
  show "lifecycle_ok (fst (snd (app_manager_install_from_path env path s)))"
    using assms a lifecycle_ok_install [OF assms]
    by (auto simp: app_manager_install_from_path_def Let_def split: option.splits sum.splits prod.splits)
  have p: "lifecycle_ok (fst (snd (app_manager_install_akpkg env imem before beyond name k pkg src s)))" for name k pkg src
    using assms a by (auto simp: app_manager_install_akpkg_def Let_def split: option.splits sum.splits prod.splits)
  show "lifecycle_ok (fst (snd (app_manager_install_akpkg env imem before beyond name k pkg src s)))" by (rule p)
  have "lifecycle_ok st'"
    if "app_manager_install_akpkg env imem before beyond n k b src s = (r, st', w')" for n k b src r st' w'
    using p [of n k b src] that by simp
  then show "lifecycle_ok (fst (snd (app_manager_install_end env imem before beyond session m s)))"
    using assms a
    by (auto simp: app_manager_install_end_def app_manager_install_abort_def Let_def split: if_splits prod.splits)
qed

lemma app_entry_ok_zero [simp]: "app_entry_ok zero_entry"
  by (simp add: app_entry_ok_def zero_entry_def no_restart_def)

lemma lifecycle_ok_uninstall:
  assumes "lifecycle_ok (fst s)"
  shows "lifecycle_ok (fst (snd (app_manager_uninstall env name s)))"
proof -
  have z: "app_state zero_entry \<noteq> APP_STATE_RUNNING" by (simp add: zero_entry_def)
  have "lifecycle_ok ((upd_app i (\<lambda>_. zero_entry) st)\<lparr>app_count := c\<rparr>)"
    if "lifecycle_ok st" "find_app_by_name (registry st) n = Some i" for i st n c
    using lifecycle_ok_replace [OF that(1), of "upd_app i (\<lambda>_. zero_entry) st" i zero_entry] find_app_SomeD [OF that(2)] z
    by simp
  then show ?thesis using assms
    by (auto simp: app_manager_uninstall_def Let_def simp del: lifecycle_ok_fields
        dest!: registry_saveD delete_app_binaryD split: option.splits prod.splits)
qed

lemma start_prepare_Inr:
  assumes "start_prepare env name (st, w) = (Inr cid, st', w')" and "lifecycle_ok st"
  obtains n i where "name = Some n" and "find_app_by_name (registry st') n = Some i" and "i < length (registry st')"
    and "running_count (registry st') < CONFIG_AKIRA_APP_MAX_RUNNING" and "container_id (registry st' ! i) = cid" and "0 \<le> cid"
    and "lifecycle_ok st'" and "app_state (registry st' ! i) \<noteq> APP_STATE_FAILED \<or> crash_count (registry st' ! i) = 0"
    and "app_state (registry st' ! i) \<noteq> APP_STATE_RUNNING"
proof -
  obtain n where n: "name = Some n" using assms(1) by (cases name) (auto simp: start_prepare_def)
  obtain i where f: "find_app_by_name (registry st) n = Some i" and nr: "app_state (registry st ! i) \<noteq> APP_STATE_RUNNING"
    using assms(1) n by (auto simp: start_prepare_def split: option.splits if_splits)
  have i: "i < length (registry st)" using find_app_SomeD [OF f] by simp
  define e1 where "e1 = (if app_state (registry st ! i) = APP_STATE_FAILED then (registry st ! i)\<lparr>crash_count := 0\<rparr> else registry st ! i)"
  define st1 where "st1 = (if app_state (registry st ! i) = APP_STATE_FAILED then upd_app i (\<lambda>e. e\<lparr>crash_count := 0\<rparr>) st else st)"
  have r1: "registry st1 = (registry st)[i := e1]" by (simp add: st1_def e1_def)
  have e1: "app_name e1 = app_name (registry st ! i)" "app_state e1 = app_state (registry st ! i)" "app_entry_ok e1"
    "app_state e1 \<noteq> APP_STATE_FAILED \<or> crash_count e1 = 0"
    using lifecycle_ok_entry [OF assms(2) i] by (auto simp: e1_def app_entry_ok_def)
  have ok1: "lifecycle_ok st1" using lifecycle_ok_replace [OF assms(2) r1 i e1(3)] e1(2) nr by simp
  have P: "running_count (registry st1) < CONFIG_AKIRA_APP_MAX_RUNNING \<and>
    (\<exists>e2. registry st' = (registry st)[i := e2] \<and> container_id e2 = cid \<and> 0 \<le> cid \<and> app_name e2 = app_name e1 \<and>
       app_state e2 = app_state e1 \<and> crash_count e2 = crash_count e1 \<and> restart e2 = restart e1)"
    using assms(1) n f nr i r1 unfolding start_prepare_def
    by (auto simp: Let_def st1_def [symmetric] not_less split: if_splits prod.splits)
  then obtain e2 where e2: "registry st' = (registry st)[i := e2]" "container_id e2 = cid" "0 \<le> cid" "app_name e2 = app_name e1"
    "app_state e2 = app_state e1" "crash_count e2 = crash_count e1" "restart e2 = restart e1" by blast
  have ok2: "app_entry_ok e2" using e1(3) e2(3,5-7) e2(2) nr e1(2) by (auto simp: app_entry_ok_def)
  have "find_app_by_name (registry st') n = Some i" using find_app_upd [of e2 "registry st" i n] e2(1,4) e1(1) f by simp
  moreover have "running_count (registry st') < CONFIG_AKIRA_APP_MAX_RUNNING"
  proof -
    have "running_count (registry st') \<le> running_count (registry st1)"
      using running_count_upd_le [of i "registry st1" e2] i r1 e2(1,5) nr e1(2) by simp
    then show ?thesis using P by simp
  qed
  moreover have "lifecycle_ok st'" using lifecycle_ok_replace [OF assms(2) e2(1) i ok2] e2(5) e1(2) nr by simp
  ultimately show ?thesis using that [OF n] e2 e1 i nr by simp
qed

lemma lifecycle_ok_reset_crashes:
  assumes "lifecycle_ok st" and "i < length (registry st)" and "app_state (registry st ! i) \<noteq> APP_STATE_RUNNING \<or> c = container_id (registry st ! i)"
  shows "lifecycle_ok (upd_app i (\<lambda>e. e\<lparr>crash_count := 0, container_id := c\<rparr>) st)"
  using lifecycle_ok_replace [OF assms(1), of "upd_app i (\<lambda>e. e\<lparr>crash_count := 0, container_id := c\<rparr>) st" i] assms(2,3)
    lifecycle_ok_entry [OF assms(1,2)]
  by (auto simp: app_entry_ok_def)

lemma lifecycle_ok_start_prepare:
  assumes "lifecycle_ok (fst s)"
  shows "lifecycle_ok (fst (snd (start_prepare env name s)))"
proof -
  obtain st w where s: "s = (st, w)" by (cases s)
  obtain x st' w' where p: "start_prepare env name (st, w) = (x, st', w')" by (cases "start_prepare env name (st, w)") auto
  have ok: "lifecycle_ok st" using assms s by simp
  have "lifecycle_ok st'"
  proof (cases x)
    case (Inl r)
    have "lifecycle_ok (upd_app i (\<lambda>e. e\<lparr>crash_count := 0\<rparr>) st)" if "find_app_by_name (registry st) n = Some i" for i n
    proof -
      have "upd_app i (\<lambda>e. e\<lparr>crash_count := 0\<rparr>) st =
        upd_app i (\<lambda>e. e\<lparr>crash_count := 0, container_id := container_id (registry st ! i)\<rparr>) st"
        by (simp add: upd_app_def)
      then show ?thesis using lifecycle_ok_reset_crashes [OF ok, of i "container_id (registry st ! i)"] find_app_SomeD [OF that] by metis
    qed
    then show ?thesis using p ok Inl unfolding start_prepare_def
      by (auto simp: Let_def split: option.splits if_splits prod.splits)
  next
    case (Inr cid)
    show ?thesis by (rule start_prepare_Inr [OF p [unfolded Inr] ok])
  qed
  then show ?thesis using p s by simp
qed

lemma lifecycle_ok_start:
  assumes "lifecycle_ok (fst s)"
  shows "lifecycle_ok (fst (snd (app_manager_start env name s)))"
proof -
  obtain st w where s: "s = (st, w)" by (cases s)
  obtain x st1 w1 where p: "start_prepare env name (st, w) = (x, st1, w1)" by (cases "start_prepare env name (st, w)") auto
  have ok1: "lifecycle_ok st1" using lifecycle_ok_start_prepare [OF assms, of env name] p s by simp
  show ?thesis
  proof (cases x)
    case (Inl r)
    then show ?thesis using p s ok1 by (simp add: app_manager_start_def)
  next
    case (Inr cid)
    obtain n i where n: "name = Some n" and f: "find_app_by_name (registry st1) n = Some i" and i: "i < length (registry st1)"
      and few: "running_count (registry st1) < CONFIG_AKIRA_APP_MAX_RUNNING" and c: "container_id (registry st1 ! i) = cid" "0 \<le> cid"
      and nf: "app_state (registry st1 ! i) \<noteq> APP_STATE_FAILED \<or> crash_count (registry st1 ! i) = 0"
      using start_prepare_Inr [OF p [unfolded Inr]] assms s by (metis fst_conv)
    have ei: "app_entry_ok (registry st1 ! i)" using lifecycle_ok_entry [OF ok1 i] .
    obtain ret w2 where start: "rt_start env cid w1 = (ret, w2)" by (cases "rt_start env cid w1")
    let ?t = "\<lambda>e. e\<lparr>last_start_time := uptime_ms env w2 div 1000\<rparr>"
    let ?st2 = "upd_app i ?t st1"
    obtain st3 w3 where e: "set_app_state env i APP_STATE_ERROR (st1, w2) = (st3, w3)"
      by (cases "set_app_state env i APP_STATE_ERROR (st1, w2)") auto
    obtain st4 w4 where r: "set_app_state env i APP_STATE_RUNNING (?st2, w2) = (st4, w4)"
      by (cases "set_app_state env i APP_STATE_RUNNING (?st2, w2)") auto
    let ?x3 = "(changed_entry APP_STATE_ERROR (registry st1 ! i))\<lparr>container_id := - 1\<rparr>"
    have r3: "registry (upd_app i (\<lambda>e. e\<lparr>container_id := - 1\<rparr>) st3) = (registry st1)[i := ?x3]"
      using set_app_state_keeps(1) [OF i e] i by simp
    have x3: "app_entry_ok ?x3" "app_state ?x3 \<noteq> APP_STATE_RUNNING"
      using app_entry_ok_changed [OF ei nf, of APP_STATE_ERROR] changed_entry_running [of APP_STATE_ERROR "registry st1 ! i"]
      by (auto simp: app_entry_ok_def)
    have fail: "lifecycle_ok (upd_app i (\<lambda>e. e\<lparr>container_id := - 1\<rparr>) st3)"
      using lifecycle_ok_replace [OF ok1 r3 i x3(1)] x3(2) by simp
    let ?x4 = "changed_entry APP_STATE_RUNNING (?t (registry st1 ! i))"
    have r4: "registry st4 = (registry st1)[i := ?x4]" using set_app_state_keeps(1) [OF _ r] i by simp
    have "app_entry_ok (?t (registry st1 ! i))" using ei by (simp add: app_entry_ok_def)
    then have x4: "app_entry_ok ?x4" using nf c by (intro app_entry_ok_changed) simp_all
    have "running_count (registry st4) \<le> CONFIG_AKIRA_APP_MAX_RUNNING"
      using running_count_upd_Suc [of "registry st1" i ?x4] few r4 by simp
    then have "lifecycle_ok st4"
      using ok1 x4 r4 set_update_subset_insert [of "registry st1" i ?x4] by (auto simp: lifecycle_ok_def)
    then show ?thesis using p s Inr n start f e r fail
      by (auto simp: app_manager_start_def start_finish_def dest!: registry_saveD split: prod.splits)
  qed
qed

text \<open>An entry that stops running.\<close>

lemma lifecycle_ok_stopping:
  assumes "lifecycle_ok st" and "i < length (registry st)" and "app_state (registry st ! i) = APP_STATE_RUNNING"
    and "registry st1 = (registry st)[i := (registry st ! i)\<lparr>container_id := - 1\<rparr>]"
    and "set_app_state env i new_state (st1, w) = (st2, w2)" and "new_state = APP_STATE_STOPPED \<or> new_state = APP_STATE_ERROR"
  shows "lifecycle_ok st2"
proof -
  let ?e = "(registry st ! i)\<lparr>container_id := - 1\<rparr>"
  have len: "i < length (registry st1)" using assms(2,4) by simp
  have r2: "registry st2 = (registry st)[i := changed_entry new_state ?e]"
    using set_app_state_keeps(1) [OF len assms(5)] assms(2,4) by simp
  have "app_entry_ok (changed_entry new_state ?e)"
    using lifecycle_ok_entry [OF assms(1,2)] assms(3,6) by (auto simp: app_entry_ok_def changed_entry_def)
  then show ?thesis using lifecycle_ok_replace [OF assms(1) r2 assms(2)] assms(3) by simp
qed

lemma lifecycle_ok_stop:
  assumes "lifecycle_ok (fst s)"
  shows "lifecycle_ok (fst (snd (app_manager_stop env name s)))"
proof -
  obtain st w where s: "s = (st, w)" by (cases s)
  show ?thesis
  proof (cases "\<exists>n i. name = Some n \<and> initialized st \<and> find_app_by_name (registry st) n = Some i \<and>
      app_state (registry st ! i) = APP_STATE_RUNNING \<and> \<not> container_id (registry st ! i) < 0")
    case False
    then show ?thesis using assms s
      by (auto simp: app_manager_stop_def stop_prepare_def split: option.splits)
  next
    case True
    then obtain n i where n: "name = Some n" "initialized st" and f: "find_app_by_name (registry st) n = Some i"
      and r: "app_state (registry st ! i) = APP_STATE_RUNNING" "\<not> container_id (registry st ! i) < 0" by blast
    have i: "i < length (registry st)" using find_app_SomeD [OF f] by simp
    let ?st1 = "upd_app i (\<lambda>e. e\<lparr>container_id := - 1\<rparr>) st"
    have f1: "find_app_by_name (registry ?st1) n = Some i" using find_app_upd f by simp
    obtain ret w1 where stop: "rt_stop env (container_id (registry st ! i)) w = (ret, w1)"
      by (cases "rt_stop env (container_id (registry st ! i)) w")
    obtain st2 w2 where set: "set_app_state env i APP_STATE_STOPPED (?st1, w1) = (st2, w2)"
      by (cases "set_app_state env i APP_STATE_STOPPED (?st1, w1)") auto
    have ok2: "lifecycle_ok st2" using lifecycle_ok_stopping [OF _ i r(1) _ set] assms s by simp
    have "container_id (registry st2 ! i) = - 1" using set_app_state_keeps(1) [OF _ set] i by simp
    then show ?thesis using s n f r f1 stop set ok2
      by (simp add: app_manager_stop_def stop_prepare_def stop_finish_def Let_def del: upd_app_simps)
  qed
qed

lemma lifecycle_ok_restart:
  assumes "lifecycle_ok (fst s)"
  shows "lifecycle_ok (fst (snd (app_manager_restart env name s)))"
proof -
  obtain st w where s: "s = (st, w)" by (cases s)
  show ?thesis
  proof (cases "\<exists>n i. name = Some n \<and> initialized st \<and> find_app_by_name (registry st) n = Some i")
    case False
    then show ?thesis using assms s by (auto simp: app_manager_restart_def split: option.splits)
  next
    case True
    then obtain n i where n: "name = Some n" "initialized st" and f: "find_app_by_name (registry st) n = Some i" by blast
    have i: "i < length (registry st)" using find_app_SomeD [OF f] by simp
    have ok: "lifecycle_ok st" using assms s by simp
    let ?st1 = "upd_app i (\<lambda>e. e\<lparr>crash_count := 0\<rparr>) st"
    have same: "?st1 = upd_app i (\<lambda>e. e\<lparr>crash_count := 0, container_id := container_id (registry st ! i)\<rparr>) st"
      by (simp add: upd_app_def)
    have ok1: "lifecycle_ok ?st1" unfolding same by (rule lifecycle_ok_reset_crashes [OF ok i]) simp
    let ?st2 = "upd_app i (\<lambda>e. e\<lparr>container_id := - 1\<rparr>) ?st1"
    have f2: "find_app_by_name (registry ?st2) n = Some i" using find_app_upd f i by simp
    let ?w = "snd (rt_stop env (container_id (registry ?st1 ! i)) w)"
    obtain st3 w3 where set: "set_app_state env i APP_STATE_STOPPED (?st2, ?w) = (st3, w3)"
      by (cases "set_app_state env i APP_STATE_STOPPED (?st2, ?w)") auto
    have "lifecycle_ok st3" if "app_state (registry ?st1 ! i) = APP_STATE_RUNNING"
      using lifecycle_ok_stopping [OF ok1 _ that _ set] i by simp
    then show ?thesis using s n f f2 set ok1 i lifecycle_ok_start [of "(st3, w3)" env name] lifecycle_ok_start [of "(?st1, w)" env name]
      by (auto simp: app_manager_restart_def Let_def simp del: upd_app_simps)
  qed
qed

lemma lifecycle_ok_exit:
  assumes "lifecycle_ok (fst s)"
  shows "lifecycle_ok (fst (app_manager_on_runtime_exit env slot code s))"
proof -
  obtain st w where s: "s = (st, w)" by (cases s)
  show ?thesis
  proof (cases "first_index (\<lambda>e. app_state e = APP_STATE_RUNNING \<and> container_id e = slot) (registry st)")
    case None
    then show ?thesis using assms s by (simp add: app_manager_on_runtime_exit_def)
  next
    case (Some i)
    let ?new = "if code = 0 then APP_STATE_STOPPED else APP_STATE_ERROR"
    let ?st1 = "upd_app i (\<lambda>e. e\<lparr>container_id := - 1\<rparr>) st"
    have i: "i < length (registry st)" "app_state (registry st ! i) = APP_STATE_RUNNING" using first_index_Some [OF Some] by simp_all
    obtain st2 w2 where e: "set_app_state env i ?new (?st1, w) = (st2, w2)"
      by (cases "set_app_state env i ?new (?st1, w)") auto
    have "lifecycle_ok st2" using lifecycle_ok_stopping [OF _ i _ e] assms s by simp
    then show ?thesis using Some s e
      by (auto simp: app_manager_on_runtime_exit_def Let_def dest!: registry_saveD split: prod.splits)
  qed
qed

lemma lifecycle_ok_restart_work:
  assumes "lifecycle_ok (fst s)"
  shows "lifecycle_ok (fst (restart_work_handler env s))"
  using assms lifecycle_ok_start [of "((fst s)\<lparr>restart_due := False\<rparr>, snd s)" env "Some (restart_app_name (fst s))"]
  by (auto simp: restart_work_handler_def Let_def split: prod.splits)

lemma lifecycle_ok_shutdown:
  assumes "lifecycle_ok (fst s)"
  shows "lifecycle_ok (fst (app_manager_shutdown env s))"
proof -
  have step: "lifecycle_ok (fst (stop_at_shutdown env i x))" if "lifecycle_ok (fst x)" for i x
  proof (cases "i < length (registry (fst x))")
    case True
    let ?e = "(registry (fst x) ! i)\<lparr>app_state := APP_STATE_STOPPED\<rparr>"
    have "app_entry_ok ?e" if "app_state (registry (fst x) ! i) = APP_STATE_RUNNING"
      using lifecycle_ok_entry [OF \<open>lifecycle_ok (fst x)\<close> True] that by (auto simp: app_entry_ok_def)
    then show ?thesis using that lifecycle_ok_replace [OF that, of "upd_app i (\<lambda>e. e\<lparr>app_state := APP_STATE_STOPPED\<rparr>) (fst x)" i ?e] True
      by (auto simp: stop_at_shutdown_def split: prod.splits)
  next
    case False
    then show ?thesis using that by (auto simp: stop_at_shutdown_def lifecycle_ok_def list_update_beyond split: prod.splits)
  qed
  have "lifecycle_ok (fst (fold (stop_at_shutdown env) is s))" for "is"
    using assms by (induction "is" arbitrary: s) (simp_all add: step)
  from this [of "[0..<CONFIG_AKIRA_APP_MAX_INSTALLED]"] show ?thesis using assms
    by (cases "fold (stop_at_shutdown env) [0..<CONFIG_AKIRA_APP_MAX_INSTALLED] s")
      (auto simp: app_manager_shutdown_def dest!: registry_saveD split: prod.splits)
qed

lemma lifecycle_ok_sessions:
  "lifecycle_ok (fst s) \<Longrightarrow> lifecycle_ok (snd (app_manager_install_begin env n k src s))"
  "lifecycle_ok st \<Longrightarrow> lifecycle_ok (snd (app_manager_install_chunk j d st))"
  "lifecycle_ok st \<Longrightarrow> lifecycle_ok (app_manager_install_abort j st)"
  by (auto simp: app_manager_install_begin_def app_manager_install_chunk_def app_manager_install_abort_def Let_def
      split: option.splits prod.splits)

lemmas lifecycle_ok_ops = lifecycle_ok_install lifecycle_ok_installs lifecycle_ok_uninstall lifecycle_ok_start lifecycle_ok_stop
  lifecycle_ok_restart lifecycle_ok_exit lifecycle_ok_restart_work lifecycle_ok_shutdown lifecycle_ok_sessions

lemma lifecycle_ok_do: "one_after_other op \<Longrightarrow> lifecycle_ok (fst s) \<Longrightarrow> lifecycle_ok (fst (app_do env imem op s))"
  by (cases op) (simp_all add: lifecycle_ok_ops one_after_other_def)

lemma lifecycle_ok_run:
  "\<forall>op \<in> set ops. one_after_other op \<Longrightarrow> lifecycle_ok (fst s) \<Longrightarrow> lifecycle_ok (fst (app_run env imem ops s))"
  unfolding app_run_def by (induction ops arbitrary: s) (simp_all add: lifecycle_ok_do)


section \<open>Automatic restarts\<close>

definition automatic :: "app_op \<Rightarrow> bool" where
  "automatic op \<longleftrightarrow> (case op of Exit _ _ \<Rightarrow> True | Restart_work \<Rightarrow> True | _ \<Rightarrow> False)"

text \<open>The number of restart works of a sequence that have an application to start.\<close>

fun auto_restarts :: "'w app_env \<Rightarrow> inf_env \<Rightarrow> app_op list \<Rightarrow> app_manager \<times> 'w \<Rightarrow> nat" where
  "auto_restarts env imem [] s = 0"
| "auto_restarts env imem (op # ops) s =
     (if op = Restart_work \<and> restart_app_name (fst s) \<noteq> [] then 1 else 0) + auto_restarts env imem ops (app_do env imem op s)"

definition entry_budget :: "app_entry \<Rightarrow> nat" where
  "entry_budget e = (if enabled (restart e) then unat (max_retries (restart e)) - unat (crash_count e) else 0)"

definition restart_budget :: "app_manager \<Rightarrow> nat" where
  "restart_budget st = sum_list (map entry_budget (registry st))"

definition pending_restart :: "app_manager \<Rightarrow> nat" where
  "pending_restart st = (if restart_app_name st = [] then 0 else 1)"

text \<open>The application that waits for its restart has crashed and was not started since.\<close>

definition waits_crashed :: "app_manager \<Rightarrow> bool" where
  "waits_crashed st \<longleftrightarrow> restart_app_name st = [] \<or>
     (\<forall>e \<in> set (registry st). app_name e = restart_app_name st \<longrightarrow> app_state e = APP_STATE_ERROR)"

lemma budget_update:
  assumes "registry st' = (registry st)[i := x]" and "i < length (registry st)" and "entry_budget x \<le> entry_budget (registry st ! i)"
  shows "restart_budget st' + entry_budget (registry st ! i) = restart_budget st + entry_budget x"
proof -
  have "entry_budget (registry st ! i) \<le> sum_list (map entry_budget (registry st))"
    using assms(2) by (metis elem_le_sum_list length_map nth_map)
  then show ?thesis using assms(1,2) by (simp add: restart_budget_def map_update sum_list_update)
qed

lemma exit_step:
  assumes "manager_ok st" and "lifecycle_ok st" and "waits_crashed st"
  shows "restart_budget (fst (app_manager_on_runtime_exit env slot code (st, w))) +
      pending_restart (fst (app_manager_on_runtime_exit env slot code (st, w))) \<le> restart_budget st + pending_restart st \<and>
    waits_crashed (fst (app_manager_on_runtime_exit env slot code (st, w)))"
proof (cases "first_index (\<lambda>e. app_state e = APP_STATE_RUNNING \<and> container_id e = slot) (registry st)")
  case None
  then show ?thesis using assms(3) by (simp add: app_manager_on_runtime_exit_def)
next
  case (Some i)
  let ?e = "(registry st ! i)\<lparr>container_id := - 1\<rparr>" and ?new = "if code = 0 then APP_STATE_STOPPED else APP_STATE_ERROR"
  let ?st1 = "upd_app i (\<lambda>e. e\<lparr>container_id := - 1\<rparr>) st"
  have i: "i < length (registry st)" and run: "app_state (registry st ! i) = APP_STATE_RUNNING" using first_index_Some [OF Some] by simp_all
  obtain st2 w2 where set: "set_app_state env i ?new (?st1, w) = (st2, w2)"
    by (cases "set_app_state env i ?new (?st1, w)") auto
  have res: "fst (app_manager_on_runtime_exit env slot code (st, w)) = st2"
    using Some set by (auto simp: app_manager_on_runtime_exit_def Let_def dest!: registry_saveD split: prod.splits)
  let ?x = "changed_entry ?new ?e"
  have r2: "registry st2 = (registry st)[i := ?x]" using set_app_state_keeps(1) [OF _ set] i by simp
  have n2: "restart_app_name st2 = (if schedules_restart ?new ?e then app_name (registry st ! i) else restart_app_name st)"
    using set_app_state_keeps(5) [OF _ set] i by simp
  have ok: "crash_count (registry st ! i) < max_retries (restart (registry st ! i)) \<or> crash_count (registry st ! i) = 0"
    if "enabled (restart (registry st ! i))"
    using lifecycle_ok_entry [OF assms(2) i] run that by (simp add: app_entry_ok_def)
  have suc: "unat (crash_count (registry st ! i) + 1) = unat (crash_count (registry st ! i)) + 1" if "enabled (restart (registry st ! i))"
  proof -
    have m: "unat (max_retries (restart (registry st ! i))) < 256" by (rule unat_octet_less)
    have "unat (crash_count (registry st ! i)) < 255"
      using ok [OF that]
    proof
      assume "crash_count (registry st ! i) < max_retries (restart (registry st ! i))"
      then have "unat (crash_count (registry st ! i)) < unat (max_retries (restart (registry st ! i)))"
        by (simp only: word_less_nat_alt)
      then show ?thesis using m by linarith
    qed simp
    then show ?thesis by (simp add: unat_word_ariths)
  qed
  have le: "entry_budget ?x \<le> entry_budget (registry st ! i)"
    using suc by (auto simp: entry_budget_def changed_entry_def)
  have sched: "entry_budget ?x + 1 = entry_budget (registry st ! i)" if "schedules_restart ?new ?e"
    using that suc run by (auto simp: entry_budget_def changed_entry_def schedules_restart_def word_less_nat_alt split: if_splits)
  have "restart_budget st2 + pending_restart st2 \<le> restart_budget st + pending_restart st"
    using budget_update [OF r2 i le] le sched n2 by (auto simp: pending_restart_def split: if_splits)
  moreover have "waits_crashed st2"
  proof (cases "schedules_restart ?new ?e")
    case True
    have x: "app_state ?x = APP_STATE_ERROR" using True by (auto simp: schedules_restart_def changed_entry_def)
    have "app_state e = APP_STATE_ERROR" if e: "e \<in> set (registry st2)" "app_name e = restart_app_name st2" "restart_app_name st2 \<noteq> []" for e
    proof -
      obtain j where j: "j < length (registry st)" "e = registry st2 ! j" using e(1) r2 by (auto simp: in_set_conv_nth)
      have "j = i"
      proof (rule ccontr)
        assume "j \<noteq> i"
        then have "app_name (registry st ! j) = app_name (registry st ! i)" "app_name (registry st ! j) \<noteq> []"
          using e(2,3) j r2 n2 True by auto
        then show False using assms(1) i j(1) \<open>j \<noteq> i\<close> by (auto simp: manager_ok_def names_distinct_def)
      qed
      then show ?thesis using x j i r2 by simp
    qed
    then show ?thesis by (auto simp: waits_crashed_def)
  next
    case False
    have "app_state e = APP_STATE_ERROR" if e: "e \<in> set (registry st2)" "app_name e = restart_app_name st" "restart_app_name st \<noteq> []" for e
    proof -
      have w: "app_state y = APP_STATE_ERROR" if "y \<in> set (registry st)" "app_name y = restart_app_name st" for y
        using assms(3) e(3) that by (auto simp: waits_crashed_def)
      have "e = ?x \<or> e \<in> set (registry st)" using e(1) r2 set_update_subset_insert [of "registry st" i ?x] by auto
      then show ?thesis using w [of "registry st ! i"] w [of e] e(2) run i by auto
    qed
    then show ?thesis using False n2 by (auto simp: waits_crashed_def)
  qed
  ultimately show ?thesis by (simp add: res)
qed

text \<open>A start of a crashed application changes neither its crash counter nor the pending restart.\<close>

lemma start_crashed:
  assumes "lifecycle_ok st" and "\<forall>e \<in> set (registry st). app_name e = n \<longrightarrow> app_state e = APP_STATE_ERROR"
    and "app_manager_start env (Some n) (st, w) = (r, st', w')"
  shows "restart_budget st' = restart_budget st"
proof -
  have same: "restart_budget (upd_app i f st) = restart_budget st"
    if "i < length (registry st)" "entry_budget (f (registry st ! i)) = entry_budget (registry st ! i)" for i f st
    using budget_update [of "upd_app i f st" st i "f (registry st ! i)"] that by simp
  obtain x st1 w1 where p: "start_prepare env (Some n) (st, w) = (x, st1, w1)" by (cases "start_prepare env (Some n) (st, w)") auto
  show ?thesis
  proof (cases "find_app_by_name (registry st) n")
    case None
    then show ?thesis using assms(3) by (auto simp: app_manager_start_def start_prepare_def split: if_splits)
  next
    case (Some i)
    have i: "i < length (registry st)" "app_name (registry st ! i) = n" using find_app_SomeD [OF Some] by simp_all
    then have err: "app_state (registry st ! i) = APP_STATE_ERROR" using assms(2) nth_mem by blast
    have c: "restart_budget (upd_app i (\<lambda>e. e\<lparr>container_id := c\<rparr>) st) = restart_budget st" for c
      using i(1) by (intro same) (simp_all add: entry_budget_def)
    have st1: "restart_budget st1 = restart_budget st \<and> (\<exists>c. registry st1 = (registry st)[i := (registry st ! i)\<lparr>container_id := c\<rparr>])"
    proof -
      have "\<exists>c. reg = reg[i := (reg ! i)\<lparr>container_id := c\<rparr>]" for reg
        by (rule exI [of _ "container_id (reg ! i)"]) (simp add: list_update_id)
      then show ?thesis using p Some err c
        by (auto simp: start_prepare_def Let_def split: if_splits prod.splits)
    qed
    show ?thesis
    proof (cases x)
      case (Inl a)
      then show ?thesis using assms(3) p st1 by (simp add: app_manager_start_def)
    next
      case (Inr cid)
      obtain c where r1: "registry st1 = (registry st)[i := (registry st ! i)\<lparr>container_id := c\<rparr>]" using st1 by blast
      have f1: "find_app_by_name (registry st1) n = Some i" using find_app_upd Some r1 by simp
      have i1: "i < length (registry st1)" "app_state (registry st1 ! i) = APP_STATE_ERROR" using i err r1 by simp_all
      obtain ret w2 where start: "rt_start env cid w1 = (ret, w2)" by (cases "rt_start env cid w1")
      have e: "set_app_state env i APP_STATE_ERROR (st1, w2) = (st1, w2)" using i1(2) by (simp add: set_app_state_def Let_def)
      let ?t = "\<lambda>e. e\<lparr>last_start_time := uptime_ms env w2 div 1000\<rparr>"
      obtain st3 w3 where s: "set_app_state env i APP_STATE_RUNNING (upd_app i ?t st1, w2) = (st3, w3)"
        by (cases "set_app_state env i APP_STATE_RUNNING (upd_app i ?t st1, w2)") auto
      have "registry st3 = (registry st1)[i := changed_entry APP_STATE_RUNNING (?t (registry st1 ! i))]"
        using set_app_state_keeps(1) [OF _ s] i1(1) by simp
      moreover have "entry_budget (changed_entry APP_STATE_RUNNING (?t (registry st1 ! i))) = entry_budget (registry st1 ! i)"
        by (simp add: entry_budget_def changed_entry_def)
      ultimately have "restart_budget st3 = restart_budget st1" using budget_update [OF _ i1(1), of st3 "changed_entry APP_STATE_RUNNING (?t (registry st1 ! i))"] by linarith
      moreover have "restart_budget (upd_app i (\<lambda>e. e\<lparr>container_id := - 1\<rparr>) st1) = restart_budget st1"
        using i1(1) by (intro same) (simp_all add: entry_budget_def)
      ultimately show ?thesis using assms(3) p Inr start f1 e s st1
        by (auto simp: app_manager_start_def start_finish_def dest!: registry_saveD split: prod.splits if_splits)
    qed
  qed
qed

lemma automatic_step:
  assumes "manager_ok (fst s)" and "lifecycle_ok (fst s)" and "waits_crashed (fst s)" and "automatic op"
  shows "(if op = Restart_work \<and> restart_app_name (fst s) \<noteq> [] then 1 else 0) +
      restart_budget (fst (app_do env imem op s)) + pending_restart (fst (app_do env imem op s)) \<le>
      restart_budget (fst s) + pending_restart (fst s) \<and> waits_crashed (fst (app_do env imem op s))"
proof -
  obtain st w where s: "s = (st, w)" by (cases s)
  show ?thesis
  proof (cases op)
    case (Exit slot code)
    then show ?thesis using exit_step [of st env slot code w] assms s by simp
  next
    case Restart_work
    let ?st0 = "st\<lparr>restart_due := False\<rparr>"
    show ?thesis
    proof (cases "restart_app_name st = []")
      case True
      then show ?thesis using Restart_work s
        by (simp add: restart_work_handler_def Let_def restart_budget_def pending_restart_def waits_crashed_def)
    next
      case False
      obtain r st1 w1 where st: "app_manager_start env (Some (restart_app_name st)) (?st0, w) = (r, st1, w1)"
        by (cases "app_manager_start env (Some (restart_app_name st)) (?st0, w)") auto
      have "restart_budget st1 = restart_budget ?st0"
      proof (rule start_crashed [OF _ _ st])
        show "lifecycle_ok ?st0" using assms(2) s by simp
        show "\<forall>e \<in> set (registry ?st0). app_name e = restart_app_name st \<longrightarrow> app_state e = APP_STATE_ERROR"
          using assms(3) s False by (simp add: waits_crashed_def)
      qed
      then show ?thesis using Restart_work s False st
        by (simp add: restart_work_handler_def Let_def restart_budget_def pending_restart_def waits_crashed_def)
    qed
  qed (use assms(4) in \<open>simp_all add: automatic_def\<close>)
qed

text \<open>
  C14: Crash loops end. From any well-formed manager without a pending restart, and with no call from
  outside, any sequence of exits and restart works starts applications automatically at most as
  often as the restart limits of the installed applications leave: each crash uses up one of the
  retries, and no automatic restart gives one back.
\<close>

theorem crash_loops_end:
  assumes "manager_ok (fst s)" and "lifecycle_ok (fst s)" and "restart_app_name (fst s) = []" and "\<forall>op \<in> set ops. automatic op"
  shows "auto_restarts env imem ops s \<le> restart_budget (fst s)"
proof -
  have "auto_restarts env imem ops s \<le> restart_budget (fst s) + pending_restart (fst s)"
    if "manager_ok (fst s)" "lifecycle_ok (fst s)" "waits_crashed (fst s)" "\<forall>op \<in> set ops. automatic op" for s
    using that
  proof (induction ops arbitrary: s)
    case (Cons op ops)
    have op: "automatic op" "one_after_other op" using Cons.prems(4) by (cases op; simp add: automatic_def one_after_other_def)+
    let ?s = "app_do env imem op s"
    have step: "(if op = Restart_work \<and> restart_app_name (fst s) \<noteq> [] then 1 else 0) +
        restart_budget (fst ?s) + pending_restart (fst ?s) \<le> restart_budget (fst s) + pending_restart (fst s)"
      "waits_crashed (fst ?s)"
      using automatic_step [OF Cons.prems(1-3) op(1), of env imem] by auto
    have "auto_restarts env imem ops ?s \<le> restart_budget (fst ?s) + pending_restart (fst ?s)"
      using Cons.prems(1,2,4) op(2) step(2) by (intro Cons.IH) (simp_all add: manager_ok_do lifecycle_ok_do)
    then show ?case using step(1) by simp
  qed simp
  from this [of s] show ?thesis using assms by (simp add: pending_restart_def waits_crashed_def)
qed

section \<open>Uploads in chunks\<close>

text \<open>The chunks of an upload, one call after the other; the code of the first that is refused.\<close>

fun send_chunks :: "int \<Rightarrow> octets list \<Rightarrow> app_manager \<Rightarrow> int \<times> app_manager" where
  "send_chunks session [] st = (0, st)"
| "send_chunks session (d # ds) st =
     (case app_manager_install_chunk session (Some d) st of
        (ret, st) \<Rightarrow> if ret \<noteq> 0 then (ret, st) else send_chunks session ds st)"

lemma send_chunks_fit:
  assumes "k < length (sessions st)" and "length (sessions st) = MAX_INSTALL_SESSIONS" and "s_active (sessions st ! k)"
    and "\<forall>d \<in> set ds. d \<noteq> []" and "length (s_data (sessions st ! k)) + length (concat ds) \<le> s_total (sessions st ! k)"
  shows "send_chunks (int k) ds st = (0, upd_session k (\<lambda>x. x\<lparr>s_data := s_data x @ concat ds\<rparr>) st)"
  using assms
proof (induction ds arbitrary: st)
  case Nil
  then show ?case by (simp add: upd_session_def list_update_id)
next
  case (Cons d ds)
  let ?st1 = "upd_session k (\<lambda>x. x\<lparr>s_data := s_data x @ d\<rparr>) st"
  have "app_manager_install_chunk (int k) (Some d) st = (0, ?st1)"
    using Cons.prems by (simp add: app_manager_install_chunk_def Let_def)
  moreover have "send_chunks (int k) ds ?st1 = (0, upd_session k (\<lambda>x. x\<lparr>s_data := s_data x @ concat ds\<rparr>) ?st1)"
    using Cons.prems by (intro Cons.IH) (simp_all add: upd_session_def)
  ultimately show ?case using Cons.prems(1) by (simp add: upd_session_def)
qed

text \<open>An installation leaves the sessions alone and does not look at them.\<close>

definition with_sessions :: "install_session list \<Rightarrow> app_manager \<Rightarrow> app_manager" where
  "with_sessions xs st = st\<lparr>sessions := xs\<rparr>"

lemma set_app_state_sessions:
  "set_app_state env i new_state (with_sessions xs st, w) =
    (case set_app_state env i new_state (st, w) of (st', w') \<Rightarrow> (with_sessions xs st', w'))"
  by (simp add: set_app_state_def with_sessions_def Let_def upd_app_def)

lemma install_sessions:
  "app_manager_install env name binary m src (with_sessions xs st, w) =
    (case app_manager_install env name binary m src (st, w) of (r, st', w') \<Rightarrow> (r, with_sessions xs st', w'))"
proof -
  have upd: "upd_app i f (with_sessions xs st) = with_sessions xs (upd_app i f st)" for i f st
    by (simp add: upd_app_def with_sessions_def)
  have reg: "registry (with_sessions xs st) = registry st" "initialized (with_sessions xs st) = initialized st"
    "app_count (with_sessions xs st) = app_count st" "(with_sessions xs st)\<lparr>app_count := c\<rparr> = with_sessions xs (st\<lparr>app_count := c\<rparr>)"
    for st c by (simp_all add: with_sessions_def)
  have slot: "take_install_slot env n (with_sessions xs st, w) =
    (case take_install_slot env n (st, w) of (y, st', w') \<Rightarrow> (y, with_sessions xs st', w'))" for n st w
    by (simp add: take_install_slot_def Let_def upd reg split: option.splits)
  have save: "save_app_binary env n b (with_sessions xs st, w) =
    (case save_app_binary env n b (st, w) of (r, st', w') \<Rightarrow> (r, with_sessions xs st', w'))" for n b st w
    by (simp add: save_app_binary_def Let_def reg split: option.splits prod.splits)
  have image: "registry_save env (with_sessions xs st, w) =
    (case registry_save env (st, w) of (r, st', w') \<Rightarrow> (r, with_sessions xs st', w'))" for st w
    by (simp add: registry_save_def registry_image_def reg split: prod.splits)
  show ?thesis
    by (simp add: app_manager_install_def Let_def upd reg slot save image set_app_state_sessions split: option.splits prod.splits)
qed

lemma install_cut_name:
  "app_manager_install env (Some (take APP_NAME_MAX_LEN n)) binary m src s = app_manager_install env (Some n) binary m src s"
proof -
  have cut: "install_name env (Some (take APP_NAME_MAX_LEN n)) b m = install_name env (Some n) b m" for b
    by (simp add: install_name_def Let_def APP_NAME_MAX_LEN_def)
  show ?thesis unfolding app_manager_install_def cut by (rule refl)
qed

text \<open>
  C16: An upload in chunks is the installation of its concatenation. However the binary is cut, the
  end of the session answers and leaves the registry exactly as one call of install with the whole
  binary would, when all announced octets have arrived; otherwise it refuses and changes nothing.
  Either way the session is free again. (A gzip binary is a package and takes the other path.)
\<close>

theorem chunked_upload_installs_concatenation:
  assumes "manager_ok st" and "initialized st" and "first_index (\<lambda>x. \<not> s_active x) (sessions st) = Some k"
    and "can_malloc env total_size w" and "0 < total_size" and "total_size \<le> CONFIG_AKIRA_APP_MAX_SIZE_KB * 1024"
    and "\<forall>d \<in> set ds. d \<noteq> []" and "length (concat ds) \<le> total_size" and "\<not> akpkg_is_gzip (concat ds)"
    and "app_manager_install_begin env (Some n) total_size src (st, w) = (session, st1)"
    and "send_chunks session ds st1 = (ret, st2)"
    and "app_manager_install_end env imem before beyond session m (st2, w) = (r, st3, w3)"
    and "app_manager_install env (Some n) (Some (concat ds)) m src (st, w) = (r', st', w')"
  shows "session = int k \<and> ret = 0 \<and> \<not> s_active (sessions st3 ! k) \<and>
    (if length (concat ds) = total_size
     then r = r' \<and> w3 = w' \<and> registry st3 = registry st' \<and> app_count st3 = app_count st'
     else r = - EAGAIN \<and> w3 = w \<and> registry st3 = registry st \<and> app_count st3 = app_count st)"
proof -
  have k: "k < length (sessions st)" using first_index_Some [OF assms(3)] by simp
  have len: "length (sessions st) = MAX_INSTALL_SESSIONS" using assms(1) by (simp add: manager_ok_def)
  let ?x = "\<lparr>s_name = take APP_NAME_MAX_LEN n, s_total = total_size, s_data = [], s_source = src, s_active = True\<rparr>"
  have b: "session = int k" "st1 = upd_session k (\<lambda>_. ?x) st"
    using assms(2-6,10) by (auto simp: app_manager_install_begin_def app_too_large_def)
  have "send_chunks (int k) ds st1 = (0, upd_session k (\<lambda>x. x\<lparr>s_data := s_data x @ concat ds\<rparr>) st1)"
    using k len assms(7,8) b(2) by (intro send_chunks_fit) (simp_all add: upd_session_def)
  then have st2: "ret = 0" "st2 = upd_session k (\<lambda>x. x\<lparr>s_data := s_data x @ concat ds\<rparr>) st1" using assms(11) b(1) by simp_all
  let ?xs = "(sessions st)[k := ?x\<lparr>s_data := concat ds\<rparr>]"
  have s2: "st2 = with_sessions ?xs st" using k b(2) st2(2) by (simp add: upd_session_def with_sessions_def)
  have xk: "sessions st2 ! k = ?x\<lparr>s_data := concat ds\<rparr>" using k s2 by (simp add: with_sessions_def)
  have range: "\<not> int k < 0" "\<not> int MAX_INSTALL_SESSIONS \<le> int k" using k len by simp_all
  show ?thesis
  proof (cases "length (concat ds) = total_size")
    case True
    have inst: "app_manager_install env (Some (take APP_NAME_MAX_LEN n)) (Some (concat ds)) m src (st2, w) = (r', with_sessions ?xs st', w')"
      using install_sessions [of env "Some n" "Some (concat ds)" m src ?xs st w] assms(13) by (simp add: install_cut_name s2)
    have "r = r' \<and> w3 = w' \<and> st3 = upd_session k (\<lambda>x. x\<lparr>s_data := [], s_active := False\<rparr>) (with_sessions ?xs st')"
      using assms(12) b(1) range xk True assms(9) inst by (simp add: app_manager_install_end_def Let_def)
    then show ?thesis using b st2 True k by (simp add: upd_session_def with_sessions_def)
  next
    case False
    have "r = - EAGAIN \<and> w3 = w \<and> st3 = upd_session k (\<lambda>x. x\<lparr>s_data := [], s_active := False\<rparr>) st2"
      using assms(12) b(1) range xk False by (simp add: app_manager_install_end_def app_manager_install_abort_def Let_def)
    then show ?thesis using b st2 False k s2 by (simp add: upd_session_def with_sessions_def)
  qed
qed

section \<open>A concrete environment\<close>

text \<open>Files in memory, containers numbered from zero, a runtime that always succeeds.\<close>

type_synonym demo_files = "(c_chars \<times> octets) list \<times> int"

definition demo_apps :: "demo_files app_env" where
  "demo_apps =
     \<lparr>rt_init = \<lambda>w. (0, w), rt_install = \<lambda>_ _ _ w. (snd w, (fst w, snd w + 1)), rt_start = \<lambda>_ w. (0, w),
      rt_stop = \<lambda>_ w. (0, w), rt_destroy = \<lambda>_ w. (0, w),
      fs_exists = \<lambda>p w. map_of (fst w) p \<noteq> None,
      fs_size = \<lambda>p w. (case map_of (fst w) p of None \<Rightarrow> - ENOENT | Some b \<Rightarrow> int (length b)),
      fs_mkdir = \<lambda>_ w. (0, w),
      fs_read = \<lambda>p cap w. (case map_of (fst w) p of None \<Rightarrow> Inl (- ENOENT) | Some b \<Rightarrow> Inr (take cap b)),
      fs_write = \<lambda>p b w. (int (length b), ((p, b) # fst w, snd w)),
      fs_delete = \<lambda>p w. (0, (filter (\<lambda>f. fst f \<noteq> p) (fst w), snd w)),
      can_malloc = \<lambda>_ _. True, json_mem = always, crc32 = \<lambda>b. of_nat (length b), uptime_ms = \<lambda>_. 5000,
      on_state = \<lambda>_ _ _ w. w, on_restart_scheduled = \<lambda>_ w. w, on_lifecycle = \<lambda>_ _ w. w, on_installed = \<lambda>_ _ _ w. w,
      on_uninstalled = \<lambda>_ w. w, on_started = \<lambda>_ _ w. w, on_crashed = \<lambda>_ _ w. w,
      entry_octets = \<lambda>e. [app_id e, hd (app_name e)],
      octets_entry = \<lambda>b. zero_entry\<lparr>app_id := b ! 0, app_name := [b ! 1]\<rparr>, sizeof_entry = 2\<rparr>"

text \<open>A file store that is full for binaries and has room for the registry.\<close>

definition demo_full :: "demo_files app_env" where
  "demo_full = demo_apps\<lparr>fs_write := \<lambda>p b w. if p = REGISTRY_PATH then fs_write demo_apps p b w else (- ENOSPC, w)\<rparr>"

definition demo_manager :: app_manager where
  "demo_manager =
     \<lparr>registry = replicate CONFIG_AKIRA_APP_MAX_INSTALLED zero_entry, app_count = 0, initialized = True,
      sessions = replicate MAX_INSTALL_SESSIONS no_session, restart_app_name = [], restart_due = False\<rparr>"

definition demo_binary :: octets where
  "demo_binary = WASM_MAGIC @ [1, 0, 0, 0]"

definition no_tables :: inf_env where
  "no_tables = \<lparr>table_mem = \<lambda>_. None, lens_mem = \<lambda>_. False\<rparr>"

definition demo_install :: "c_chars \<Rightarrow> app_op" where
  "demo_install n = Install (Some n) (Some demo_binary) None APP_SOURCE_HTTP"

definition state_of :: "app_manager \<times> 'w \<Rightarrow> c_chars \<Rightarrow> app_state_t" where
  "state_of s n = app_manager_get_state (fst s) (Some n)"

text \<open>An installation that cannot write its binary leaves the count one too high.\<close>

lemma failed_install_leaks_count:
  "(let s = app_do demo_full no_tables (demo_install [98]) (app_run demo_apps no_tables [demo_install [97]] (demo_manager, [], 0)) in
    (app_count (fst s), length (named (fst s)))) = (2, 1)"
  by code_simp

text \<open>After the next save and a reboot the registry is refused as truncated and every application is gone.\<close>

lemma failed_install_loses_registry:
  "(let s = app_do demo_full no_tables (demo_install [98]) (app_run demo_apps no_tables [demo_install [97]] (demo_manager, [], 0));
        s = app_run demo_apps no_tables [Start (Some [97]), Stop (Some [97])] s;
        booted = snd (app_manager_init demo_apps (demo_manager\<lparr>initialized := False\<rparr>, snd s)) in
    (state_of s [97], length (named (fst booted)))) = (APP_STATE_STOPPED, 0)"
  by code_simp

text \<open>Removing an application renumbers the table at the next boot, but not the identifiers in it.\<close>

lemma identifiers_collide_after_reboot:
  "(let s = app_run demo_apps no_tables [demo_install [97], demo_install [98], Uninstall (Some [97])] (demo_manager, [], 0);
        booted = snd (app_manager_init demo_apps (demo_manager\<lparr>initialized := False\<rparr>, snd s));
        s = app_do demo_apps no_tables (demo_install [99]) booted in
    map (\<lambda>e. (app_name e, app_id e)) (named (fst s))) = [([98], 2), ([99], 2)]"
  by code_simp

text \<open>The limit is tested before the mutex is released, so starts that overlap pass it together.\<close>

lemma overlapping_starts_exceed_limit:
  "running_count (registry (fst (app_run demo_apps no_tables
     ([demo_install [97], demo_install [98], demo_install [99]] @
      [Start_begins (Some [97]), Start_begins (Some [98]), Start_begins (Some [99])] @
      [Start_ends [97] 0 0, Start_ends [98] 1 0, Start_ends [99] 2 0]) (demo_manager, [], 0)))) = 3"
  by code_simp

text \<open>An application that ends before its start is entered in the registry stays running there.\<close>

lemma early_exit_stays_running:
  "state_of (app_run demo_apps no_tables
     [demo_install [97], Start_begins (Some [97]), Exit 0 0, Start_ends [97] 0 0] (demo_manager, [], 0)) [97] = APP_STATE_RUNNING"
  by code_simp

text \<open>A preloaded application can be replaced, and the replacement removed.\<close>

lemma preloaded_is_removable:
  "(let s = app_run demo_apps no_tables [Install (Some [97]) (Some demo_binary) None APP_SOURCE_FIRMWARE] (demo_manager, [], 0) in
    (fst (app_manager_uninstall demo_apps (Some [97]) s),
     fst (app_manager_uninstall demo_apps (Some [97]) (app_do demo_apps no_tables (demo_install [97]) s)))) = (- EPERM, 0)"
  by code_simp

text \<open>A failed update of a running application leaves a nameless entry that counts as running.\<close>

lemma failed_update_keeps_running_slot:
  "(let s = app_run demo_apps no_tables [demo_install [97], Start (Some [97])] (demo_manager, [], 0);
        s = app_do demo_full no_tables (demo_install [97]) s in
    (state_of s [97], running_count (registry (fst s)))) = (APP_STATE_NEW, 1)"
  by code_simp

text \<open>The sidecar manifest of a file in a directory is looked for under a cut path and not found.\<close>

lemma sidecar_manifest_missed:
  "(let files = [(text_chars ''/SD:/apps/a.wasm'', demo_binary), (text_chars ''/SD:/apps/a.json'', text_chars (''{'' @ [CHR 34] @ ''heap_kb'' @ [CHR 34] @ '':64}''))];
        s = snd (app_manager_install_from_path demo_apps (Some (text_chars ''/SD:/apps/a.wasm'')) (demo_manager, files, 0)) in
    map (\<lambda>e. (app_name e, heap_kb e)) (named (fst s))) = [([97], 16)]"
  by code_simp

text \<open>The capability names of a manifest stand for other bits than those the runtime checks.\<close>

lemma manifest_masks_differ:
  "capability_str_to_mask (text_chars ''sensor.read'') = AKIRA_CAP_INPUT_WRITE \<and>
   capability_str_to_mask (text_chars ''rf.transceive'') = AKIRA_CAP_SENSOR_READ"
  by code_simp

section \<open>Instances\<close>

definition demo_app_entry :: app_entry where
  "demo_app_entry = zero_entry\<lparr>app_id := 1, app_name := [97]\<rparr>"

definition demo_saved :: app_manager where
  "demo_saved = demo_manager\<lparr>registry := demo_app_entry # replicate 7 zero_entry, app_count := 1\<rparr>"



definition demo_looping :: app_manager where
  "demo_looping = demo_manager\<lparr>registry :=
     demo_app_entry\<lparr>app_state := APP_STATE_RUNNING, container_id := 0, app_size := 8,
       restart := \<lparr>enabled = True, max_retries = 3, delay_ms = 1000\<rparr>\<rparr> # replicate 7 zero_entry, app_count := 1\<rparr>"

theorem crash_loops_end_witness:
  "auto_restarts demo_apps no_tables [Exit 0 (- 5), Restart_work, Exit 1 (- 5), Restart_work, Exit 2 (- 5), Restart_work]
     (demo_looping, [], 1) \<le> 3"
proof -
  have a: "manager_ok (fst (demo_looping, [] :: (c_chars \<times> octets) list, 1 :: int))"
    by (auto simp: manager_ok_def demo_looping_def demo_manager_def names_distinct_def session_ok_def no_session_def
        demo_app_entry_def zero_entry_def CONFIG_AKIRA_APP_MAX_INSTALLED_def nth_Cons split: nat.splits)
  have b: "lifecycle_ok (fst (demo_looping, [] :: (c_chars \<times> octets) list, 1 :: int))"
    by (simp add: lifecycle_ok_def demo_looping_def running_count_def demo_app_entry_def CONFIG_AKIRA_APP_MAX_RUNNING_def app_entry_ok_def)
      (simp add: zero_entry_def no_restart_def)
  have c: "restart_app_name (fst (demo_looping, [] :: (c_chars \<times> octets) list, 1 :: int)) = []"
    by (simp add: demo_looping_def demo_manager_def)
  have d: "\<forall>op \<in> set [Exit 0 (- 5), Restart_work, Exit 1 (- 5), Restart_work, Exit 2 (- 5), Restart_work]. automatic op"
    by (simp add: automatic_def)
  have "restart_budget (fst (demo_looping, [] :: (c_chars \<times> octets) list, 1 :: int)) = 3"
    by (simp add: restart_budget_def demo_looping_def demo_app_entry_def zero_entry_def no_restart_def entry_budget_def)
  then show ?thesis using crash_loops_end [OF a b c d, of demo_apps no_tables] by simp
qed

theorem chunked_upload_installs_concatenation_witness:
  "(case app_manager_install_begin demo_apps (Some [97]) 8 APP_SOURCE_BLE (demo_manager, [], 0) of (session, st1) \<Rightarrow>
     (case send_chunks session [take 3 demo_binary, drop 3 demo_binary] st1 of (ret, st2) \<Rightarrow>
        (case app_manager_install_end demo_apps no_tables [] [] session None (st2, [], 0) of (r, st3, w3) \<Rightarrow>
           (case app_manager_install demo_apps (Some [97]) (Some demo_binary) None APP_SOURCE_BLE (demo_manager, [], 0) of
              (r', st', w') \<Rightarrow> session = 0 \<and> ret = 0 \<and> r = r' \<and> registry st3 = registry st'))))"
proof -
  have a: "manager_ok demo_manager"
    by (auto simp: manager_ok_def demo_manager_def names_distinct_def session_ok_def no_session_def zero_entry_def)
  have b: "initialized demo_manager" by (simp add: demo_manager_def)
  have c: "first_index (\<lambda>x. \<not> s_active x) (sessions demo_manager) = Some 0"
    by (simp add: demo_manager_def MAX_INSTALL_SESSIONS_def no_session_def numeral_2_eq_2)
  have d: "can_malloc demo_apps 8 ([], 0)" by (simp add: demo_apps_def)
  have e: "\<forall>d \<in> set [take 3 demo_binary, drop 3 demo_binary]. d \<noteq> []" by (simp add: demo_binary_def WASM_MAGIC_def)
  have l: "concat [take 3 demo_binary, drop 3 demo_binary] = demo_binary" "length demo_binary = 8"
    by (simp_all add: demo_binary_def WASM_MAGIC_def)
  have f: "\<not> akpkg_is_gzip (concat [take 3 demo_binary, drop 3 demo_binary])"
    by (simp add: l akpkg_is_gzip_def) (simp add: demo_binary_def WASM_MAGIC_def GZIP_ID1_def)
  have g: "(8 :: nat) \<le> CONFIG_AKIRA_APP_MAX_SIZE_KB * 1024" by (simp add: CONFIG_AKIRA_APP_MAX_SIZE_KB_def)
  have h: "length (concat [take 3 demo_binary, drop 3 demo_binary]) \<le> 8" using l by simp
  obtain session st1 where 1: "app_manager_install_begin demo_apps (Some [97]) 8 APP_SOURCE_BLE (demo_manager, [], 0) = (session, st1)"
    by fastforce
  obtain ret st2 where 2: "send_chunks session [take 3 demo_binary, drop 3 demo_binary] st1 = (ret, st2)" by fastforce
  obtain r st3 w3 where 3: "app_manager_install_end demo_apps no_tables [] [] session None (st2, [], 0) = (r, st3, w3)"
    by (cases "app_manager_install_end demo_apps no_tables [] [] session None (st2, [], 0)") auto
  obtain r' st' w' where 4: "app_manager_install demo_apps (Some [97])
      (Some (concat [take 3 demo_binary, drop 3 demo_binary])) None APP_SOURCE_BLE (demo_manager, [], 0) = (r', st', w')"
    by (cases "app_manager_install demo_apps (Some [97])
      (Some (concat [take 3 demo_binary, drop 3 demo_binary])) None APP_SOURCE_BLE (demo_manager, [], 0)") auto
  have "(0 :: nat) < 8" by simp
  from chunked_upload_installs_concatenation [OF a b c d this g e h f 1 2 3 4]
  show ?thesis using 4 unfolding 1 2 3 prod.case l by (simp only: prod.case l) simp
qed

end
