(* ===== verification/Manifest_Parser.thy ===== *)
theory Manifest_Parser
  imports C_Strings Runtime_Security
begin

text \<open>
  The manifest of a loaded module (\<open>src/src/runtime/manifest_parser.c\<close>): the JSON parser and the
  structure it fills. \<open>Manifest_Sections\<close> has the search for the manifest inside a binary.

  A pointer with its end is the list of the octets between them, a null result \<open>None\<close>. A character
  array that the parser fills is the string it holds. On an error the manifest keeps what was parsed
  before it, as in the code.
\<close>

section \<open>Types\<close>

definition MANIFEST_NET_MAX_HOSTS :: nat where "MANIFEST_NET_MAX_HOSTS = 4"
definition MANIFEST_NET_MAX_PORTS :: nat where "MANIFEST_NET_MAX_PORTS = 8"
definition MANIFEST_NET_HOST_LEN :: nat where "MANIFEST_NET_HOST_LEN = 64"

text \<open>The counters of the policy are the lengths of the lists.\<close>

record net_policy =
  present :: bool
  deny_all :: bool
  allowed_hosts :: "c_chars list"
  allowed_ports :: "u16 list"

record akira_manifest =
  mf_cap_mask :: u32
  memory_quota :: u32
  mf_name :: c_chars
  mf_version :: c_chars
  mf_valid :: bool
  policy :: net_policy

definition no_policy :: net_policy where
  "no_policy = \<lparr>present = False, deny_all = False, allowed_hosts = [], allowed_ports = []\<rparr>"

definition manifest_init_defaults :: akira_manifest where
  "manifest_init_defaults =
     \<lparr>mf_cap_mask = 0, memory_quota = 0, mf_name = [], mf_version = [], mf_valid = False, policy = no_policy\<rparr>"

section \<open>Tokens\<close>

definition json_space :: "u8 \<Rightarrow> bool" where
  "json_space c \<longleftrightarrow> c = 32 \<or> c = 9 \<or> c = 10 \<or> c = 13"

definition json_skip_ws :: "octets \<Rightarrow> octets" where
  "json_skip_ws p = dropWhile json_space p"

definition json_unescape :: "u8 \<Rightarrow> u8" where
  "json_unescape c = (if c = 110 then 10 else if c = 114 then 13 else if c = 116 then 9 else c)"

text \<open>The characters up to a quote or until the array is full.\<close>

fun json_chars :: "nat \<Rightarrow> octets \<Rightarrow> octets \<Rightarrow> octets \<times> octets" where
  "json_chars n [] out = ([], out)"
| "json_chars n (c # p) out =
     (if c = 34 \<or> n - 1 \<le> length out then (c # p, out)
      else
        (case p of
           e # p' \<Rightarrow> if c = 92 then json_chars n p' (out @ [json_unescape e]) else json_chars n p (out @ [c])
         | [] \<Rightarrow> json_chars n p (out @ [c])))"

definition json_parse_string :: "octets \<Rightarrow> nat \<Rightarrow> c_chars \<Rightarrow> octets option \<times> c_chars" where
  "json_parse_string p n old =
     (case p of
        [] \<Rightarrow> (None, old)
      | c # p' \<Rightarrow>
          if c \<noteq> 34 then (None, old)
          else
            (case json_chars n p' [] of
               (q, out) \<Rightarrow> (if q = [] \<or> hd q \<noteq> 34 then None else Some (tl q), c_string_at out)))"

fun json_digits :: "octets \<Rightarrow> u32 \<Rightarrow> octets \<times> u32" where
  "json_digits [] v = ([], v)"
| "json_digits (c # p) v = (if isdigit c then json_digits p (v * 10 + (ucast c - 48)) else (c # p, v))"

definition json_parse_int :: "octets \<Rightarrow> (octets \<times> u32) option" where
  "json_parse_int p =
     (let p = json_skip_ws p in
      if p = [] \<or> \<not> isdigit (hd p) then None else Some (json_digits p 0))"

text \<open>The end of a value of an unknown key.\<close>

fun json_skip_value :: "octets \<Rightarrow> nat \<Rightarrow> bool \<Rightarrow> octets" where
  "json_skip_value [] depth in_string = []"
| "json_skip_value (c # p) depth in_string =
     (if \<not> in_string then
        (if c = 34 then json_skip_value p depth True
         else if c = 123 \<or> c = 91 then json_skip_value p (depth + 1) False
         else if c = 125 \<or> c = 93 then (if depth = 0 then c # p else json_skip_value p (depth - 1) False)
         else if c = 44 \<and> depth = 0 then c # p
         else json_skip_value p depth False)
      else
        (case p of
           e # p' \<Rightarrow> if c = 92 then json_skip_value p' depth True else json_skip_value p depth (c \<noteq> 34)
         | [] \<Rightarrow> json_skip_value p depth (c \<noteq> 34)))"

subsection \<open>No parser moves backwards\<close>

lemma length_json_skip_ws: "length (json_skip_ws p) \<le> length p"
  by (simp add: json_skip_ws_def length_dropWhile_le)

lemma length_json_chars: "length (fst (json_chars n p out)) \<le> length p"
proof (induction n p out rule: json_chars.induct)
  case (2 n c p out)
  then show ?case by (cases p) (auto intro: le_SucI)
qed simp

lemma length_json_parse_string: "json_parse_string p n old = (Some q, out) \<Longrightarrow> length q < length p"
  using length_json_chars [of n "tl p" "[]"]
  by (cases p) (auto simp: json_parse_string_def split: if_splits prod.splits)

lemma length_json_digits: "length (fst (json_digits p v)) \<le> length p"
  by (induction p v rule: json_digits.induct) (auto intro: le_SucI)

lemma length_json_parse_int:
  assumes "json_parse_int p = Some (q, v)"
  shows "length q < length p"
proof -
  obtain c r where r: "json_skip_ws p = c # r" "isdigit c"
    using assms by (cases "json_skip_ws p") (auto simp: json_parse_int_def Let_def split: if_splits)
  have "(q, v) = json_digits (c # r) 0" using assms r by (simp only: json_parse_int_def Let_def) simp
  then have "q = fst (json_digits r (ucast c - 48))" using r(2) by (simp add: prod_eq_iff)
  then have "length q \<le> length r" by (simp add: length_json_digits)
  then show ?thesis using length_json_skip_ws [of p] r(1) by simp
qed

lemma length_json_skip_value: "length (json_skip_value p depth s) \<le> length p"
proof (induction "length p" arbitrary: p depth s rule: less_induct)
  case less
  then show ?case
  proof (cases p)
    case (Cons c q)
    have q: "length (json_skip_value q d t) \<le> length q" for d t using less Cons by simp
    have r: "length (json_skip_value r d t) \<le> length r" if "q = e # r" for e r d t using less Cons that by simp
    have t: "length (json_skip_value (e # r) d t) \<le> Suc (Suc (length r))" if "q = e # r" for e r d t
      using q [of d t] that by simp
    show ?thesis unfolding Cons
      by (subst json_skip_value.simps(2))
        (auto simp del: json_skip_value.simps(2) simp: le_SucI [OF q] le_SucI [OF le_SucI [OF r]] t split: list.splits)
  qed simp
qed

section \<open>Values\<close>

text \<open>
  The loops over the elements of a list. A result \<open>None\<close> is the return of an error; otherwise it is the
  rest after the closing bracket, or nothing when the text ends first.
\<close>

function caps_loop :: "octets \<Rightarrow> u32 \<Rightarrow> octets option \<times> u32" where
  "caps_loop p m =
     (case json_skip_ws p of
        [] \<Rightarrow> (Some [], m)
      | c # q \<Rightarrow>
          if c = 93 then (Some q, m)
          else if c = 44 then caps_loop q m
          else
            (case json_parse_string (c # q) 64 [] of
               (None, s) \<Rightarrow> (None, m)
             | (Some r, s) \<Rightarrow> caps_loop r (m OR akira_capability_str_to_mask (Some s))))"
  by pat_completeness auto
termination
proof (relation "measure (\<lambda>(p, m). length p)", goal_cases)
  case (2 p m c q)
  then show ?case using length_json_skip_ws [of p] by simp
next
  case (3 p m c q x s r)
  then show ?case using length_json_skip_ws [of p] length_json_parse_string [of "c # q" 64 "[]" r s] by simp
qed simp

declare caps_loop.simps [simp del]

function hosts_loop :: "octets \<Rightarrow> c_chars list \<Rightarrow> octets option \<times> c_chars list" where
  "hosts_loop p hosts =
     (case json_skip_ws p of
        [] \<Rightarrow> (Some [], hosts)
      | c # q \<Rightarrow>
          if c = 93 then (Some q, hosts)
          else if c = 44 then hosts_loop q hosts
          else if length hosts < MANIFEST_NET_MAX_HOSTS then
            (case json_parse_string (c # q) MANIFEST_NET_HOST_LEN [] of
               (None, s) \<Rightarrow> (None, hosts)
             | (Some r, s) \<Rightarrow> hosts_loop r (hosts @ [s]))
          else
            (case json_parse_string (c # q) 64 [] of
               (None, s) \<Rightarrow> (None, hosts)
             | (Some r, s) \<Rightarrow> hosts_loop r hosts))"
  by pat_completeness auto
termination
proof (relation "measure (\<lambda>(p, m). length p)", goal_cases)
  case (2 p hosts c q)
  then show ?case using length_json_skip_ws [of p] by simp
next
  case (3 p hosts c q x s r)
  then show ?case using length_json_skip_ws [of p] length_json_parse_string [of "c # q" MANIFEST_NET_HOST_LEN "[]" r s] by simp
next
  case (4 p hosts c q x s r)
  then show ?case using length_json_skip_ws [of p] length_json_parse_string [of "c # q" 64 "[]" r s] by simp
qed simp

declare hosts_loop.simps [simp del]

function ports_loop :: "octets \<Rightarrow> u16 list \<Rightarrow> octets option \<times> u16 list" where
  "ports_loop p ports =
     (case json_skip_ws p of
        [] \<Rightarrow> (Some [], ports)
      | c # q \<Rightarrow>
          if c = 93 then (Some q, ports)
          else if c = 44 then ports_loop q ports
          else
            (case json_parse_int (c # q) of
               None \<Rightarrow> (None, ports)
             | Some (r, v) \<Rightarrow>
                 if 65535 < v then (None, ports)
                 else ports_loop r (if length ports < MANIFEST_NET_MAX_PORTS then ports @ [ucast v] else ports)))"
  by pat_completeness auto
termination
proof (relation "measure (\<lambda>(p, m). length p)", goal_cases)
  case (2 p ports c q)
  then show ?case using length_json_skip_ws [of p] by simp
next
  case (3 p ports c q x r v)
  then show ?case using length_json_skip_ws [of p] length_json_parse_int [of "c # q" r v] by simp
qed simp

declare ports_loop.simps [simp del]

lemma length_caps_loop: "caps_loop p m = (Some q, m') \<Longrightarrow> length q \<le> length p"
proof (induction p m rule: caps_loop.induct)
  case (1 p m)
  show ?case
  proof (cases "json_skip_ws p")
    case (Cons c r)
    then have "length r < length p" using length_json_skip_ws [of p] by simp
    then show ?thesis using 1(3) 1(1) [OF Cons] 1(2) [OF Cons] Cons length_json_parse_string [of "c # r" 64 "[]"]
      by (subst (asm) caps_loop.simps) (fastforce split: if_splits option.splits prod.splits)
  qed (use 1(3) in \<open>simp add: caps_loop.simps\<close>)
qed

lemma length_hosts_loop: "hosts_loop p m = (Some q, m') \<Longrightarrow> length q \<le> length p"
proof (induction p m rule: hosts_loop.induct)
  case (1 p m)
  show ?case
  proof (cases "json_skip_ws p")
    case (Cons c r)
    then have "length r < length p" using length_json_skip_ws [of p] by simp
    then show ?thesis using 1(4) 1(1) [OF Cons] 1(2) [OF Cons] 1(3) [OF Cons] Cons
        length_json_parse_string [of "c # r" 64 "[]"] length_json_parse_string [of "c # r" MANIFEST_NET_HOST_LEN "[]"]
      by (subst (asm) hosts_loop.simps) (fastforce split: if_splits option.splits prod.splits)
  qed (use 1(4) in \<open>simp add: hosts_loop.simps\<close>)
qed

lemma length_ports_loop: "ports_loop p m = (Some q, m') \<Longrightarrow> length q \<le> length p"
proof (induction p m rule: ports_loop.induct)
  case (1 p m)
  show ?case
  proof (cases "json_skip_ws p")
    case (Cons c r)
    then have "length r < length p" using length_json_skip_ws [of p] by simp
    then show ?thesis using 1(3) 1(1) [OF Cons] 1(2) [OF Cons] Cons length_json_parse_int [of "c # r"]
      by (subst (asm) ports_loop.simps) (fastforce split: if_splits option.splits prod.splits)
  qed (use 1(3) in \<open>simp add: ports_loop.simps\<close>)
qed

section \<open>The network policy\<close>

definition policy_value :: "c_chars \<Rightarrow> octets \<Rightarrow> net_policy \<Rightarrow> octets option \<times> net_policy" where
  "policy_value key v n =
     (if key = text_chars ''deny_all'' then
        (if take 4 v = text_chars ''true'' then (Some (drop 4 v), n\<lparr>deny_all := True\<rparr>)
         else if take 5 v = text_chars ''false'' then (Some (drop 5 v), n\<lparr>deny_all := False\<rparr>)
         else (None, n))
      else if key = text_chars ''allowed_hosts'' then
        (case json_skip_ws v of
           [] \<Rightarrow> (None, n)
         | c # q \<Rightarrow>
             if c \<noteq> 91 then (None, n)
             else (case hosts_loop q (allowed_hosts n) of (r, hosts) \<Rightarrow> (r, n\<lparr>allowed_hosts := hosts\<rparr>)))
      else if key = text_chars ''allowed_ports'' then
        (case json_skip_ws v of
           [] \<Rightarrow> (None, n)
         | c # q \<Rightarrow>
             if c \<noteq> 91 then (None, n)
             else (case ports_loop q (allowed_ports n) of (r, ports) \<Rightarrow> (r, n\<lparr>allowed_ports := ports\<rparr>)))
      else (Some (json_skip_value v 0 False), n))"

lemma length_policy_value: "policy_value key v n = (Some q, n') \<Longrightarrow> length q \<le> length v"
  using length_json_skip_ws [of v] length_json_skip_value [of v 0 False]
  by (auto simp: policy_value_def split: if_splits list.splits prod.splits dest!: length_hosts_loop length_ports_loop)

text \<open>A key with its colon: what follows, or \<open>None\<close> for an error.\<close>

definition json_key :: "octets \<Rightarrow> (octets \<times> c_chars) option" where
  "json_key p =
     (case json_parse_string p 32 [] of
        (None, key) \<Rightarrow> None
      | (Some q, key) \<Rightarrow>
          (case json_skip_ws q of
             [] \<Rightarrow> None
           | c # r \<Rightarrow> if c \<noteq> 58 then None else Some (json_skip_ws r, key)))"

lemma length_json_key: "json_key p = Some (q, key) \<Longrightarrow> length q < length p"
proof -
  assume "json_key p = Some (q, key)"
  then obtain r c t where r: "json_parse_string p 32 [] = (Some r, key)" "json_skip_ws r = c # t" "q = json_skip_ws t"
    by (auto simp: json_key_def split: prod.splits option.splits list.splits if_splits)
  show ?thesis
    using length_json_parse_string [OF r(1)] length_json_skip_ws [of r] length_json_skip_ws [of t] r(2,3) by simp
qed

function policy_loop :: "octets \<Rightarrow> net_policy \<Rightarrow> octets option \<times> net_policy" where
  "policy_loop p n =
     (case json_skip_ws p of
        [] \<Rightarrow> (Some [], n)
      | c # q \<Rightarrow>
          if c = 125 then (Some q, n)
          else if c = 44 then policy_loop q n
          else
            (case json_key (c # q) of
               None \<Rightarrow> (None, n)
             | Some (v, key) \<Rightarrow>
                 (case policy_value key v n of
                    (None, n') \<Rightarrow> (None, n')
                  | (Some r, n') \<Rightarrow> policy_loop r n')))"
  by pat_completeness auto
termination
proof (relation "measure (\<lambda>(p, m). length p)", goal_cases)
  case (2 p n c q)
  then show ?case using length_json_skip_ws [of p] by simp
next
  case (3 p n c q x v key y n' r)
  then show ?case
    using length_json_skip_ws [of p] length_json_key [of "c # q" v key] length_policy_value [of key v n r n'] by simp
qed simp

declare policy_loop.simps [simp del]

lemma length_policy_loop: "policy_loop p n = (Some q, n') \<Longrightarrow> length q \<le> length p"
proof (induction p n rule: policy_loop.induct)
  case (1 p n)
  show ?case
  proof (cases "json_skip_ws p")
    case (Cons c r)
    then have l: "length r < length p" using length_json_skip_ws [of p] by simp
    consider "c = 125" | "c = 44" "c \<noteq> 125" | "c \<noteq> 125" "c \<noteq> 44" by blast
    then show ?thesis
    proof cases
      case 3
      then obtain v key t m where v: "json_key (c # r) = Some (v, key)" "policy_value key v n = (Some t, m)"
        "policy_loop t m = (Some q, n')"
        using 1(3) Cons by (auto simp: policy_loop.simps [of p] split: option.splits prod.splits)
      have "length q \<le> length t" by (rule 1(2) [OF Cons 3 v(1) refl v(2) [symmetric] refl v(3)])
      then show ?thesis using length_json_key [OF v(1)] length_policy_value [OF v(2)] l by simp
    qed (use 1(1) [OF Cons] 1(3) Cons l in \<open>auto simp: policy_loop.simps [of p]\<close>)
  qed (use 1(3) in \<open>simp add: policy_loop.simps\<close>)
qed

section \<open>The manifest\<close>

definition manifest_value :: "c_chars \<Rightarrow> octets \<Rightarrow> akira_manifest \<Rightarrow> octets option \<times> akira_manifest" where
  "manifest_value key v m =
     (if key = text_chars ''name'' then
        (case json_parse_string v 32 (mf_name m) of (r, s) \<Rightarrow> (r, m\<lparr>mf_name := s\<rparr>))
      else if key = text_chars ''version'' then
        (case json_parse_string v 16 (mf_version m) of (r, s) \<Rightarrow> (r, m\<lparr>mf_version := s\<rparr>))
      else if key = text_chars ''memory_quota'' then
        (case json_parse_int v of
           None \<Rightarrow> (None, m)
         | Some (r, i) \<Rightarrow> (Some r, m\<lparr>memory_quota := i\<rparr>))
      else if key = text_chars ''capabilities'' then
        (case json_skip_ws v of
           [] \<Rightarrow> (None, m)
         | c # q \<Rightarrow>
             if c \<noteq> 91 then (None, m)
             else (case caps_loop q (mf_cap_mask m) of (r, caps) \<Rightarrow> (r, m\<lparr>mf_cap_mask := caps\<rparr>)))
      else if key = text_chars ''network_policy'' then
        (case json_skip_ws v of
           [] \<Rightarrow> (None, m)
         | c # q \<Rightarrow>
             if c \<noteq> 123 then (None, m)
             else (case policy_loop q ((policy m)\<lparr>present := True\<rparr>) of (r, n) \<Rightarrow> (r, m\<lparr>policy := n\<rparr>)))
      else (Some (json_skip_value v 0 False), m))"

lemma length_manifest_value: "manifest_value key v m = (Some q, m') \<Longrightarrow> length q \<le> length v"
  using length_json_skip_ws [of v] length_json_skip_value [of v 0 False]
  by (auto simp: manifest_value_def split: if_splits list.splits prod.splits option.splits
      dest!: length_caps_loop length_policy_loop length_json_parse_int length_json_parse_string)

text \<open>The loop over the members, with its return value; the text may end before the closing brace.\<close>

function members_loop :: "octets \<Rightarrow> akira_manifest \<Rightarrow> int \<times> akira_manifest" where
  "members_loop p m =
     (case json_skip_ws p of
        [] \<Rightarrow> (0, m\<lparr>mf_valid := True\<rparr>)
      | c # q \<Rightarrow>
          if c = 125 then (0, m\<lparr>mf_valid := True\<rparr>)
          else if c = 44 then members_loop q m
          else
            (case json_key (c # q) of
               None \<Rightarrow> (- EINVAL, m)
             | Some (v, key) \<Rightarrow>
                 (case manifest_value key v m of
                    (None, m') \<Rightarrow> (- EINVAL, m')
                  | (Some r, m') \<Rightarrow> members_loop r m')))"
  by pat_completeness auto
termination
proof (relation "measure (\<lambda>(p, m). length p)", goal_cases)
  case (2 p n c q)
  then show ?case using length_json_skip_ws [of p] by simp
next
  case (3 p n c q x v key y n' r)
  then show ?case
    using length_json_skip_ws [of p] length_json_key [of "c # q" v key] length_manifest_value [of key v n r n'] by simp
qed simp

declare members_loop.simps [simp del]

definition manifest_parse_json :: "octets \<Rightarrow> akira_manifest \<Rightarrow> int \<times> akira_manifest" where
  "manifest_parse_json json manifest =
     (if json = [] then (- EINVAL, manifest)
      else
        (case json_skip_ws json of
           [] \<Rightarrow> (- EINVAL, manifest_init_defaults)
         | c # p \<Rightarrow>
             if c \<noteq> 123 then (- EINVAL, manifest_init_defaults)
             else members_loop p manifest_init_defaults))"

end
