(* ===== verification/Manifest_Text.thy ===== *)
theory Manifest_Text
  imports Manifest_Parser
begin

text \<open>
  What the manifest parser promises: on the JSON text of a list of members, with any white space
  between the tokens, it returns the manifest those members describe.

  \<open>jval\<close>, \<open>net_member\<close> and \<open>mf_member\<close> are the values, \<open>val_text\<close>, \<open>net_text\<close> and \<open>member_text\<close> their texts,
  \<open>apply_net\<close> and \<open>apply_member\<close> the reference semantics.
\<close>

section \<open>The values and their text\<close>

datatype jval = JString c_chars | JPlain c_chars | JArray "jval list" | JObject "(c_chars \<times> jval) list"

datatype net_member =
  Net_deny_all bool | Net_hosts "c_chars list" | Net_ports "c_chars list" | Net_other c_chars jval

datatype mf_member =
  Mf_name c_chars | Mf_version c_chars | Mf_quota c_chars | Mf_caps "c_chars list"
| Mf_policy "net_member list" | Mf_other c_chars jval

definition escape_char :: "u8 \<Rightarrow> octets" where
  "escape_char c =
     (if c = 34 \<or> c = 92 then [92, c] else if c = 10 then [92, 110] else if c = 13 then [92, 114]
      else if c = 9 then [92, 116] else [c])"

definition string_text :: "c_chars \<Rightarrow> octets" where
  "string_text s = 34 # concat (map escape_char s) @ [34]"

fun commas :: "octets list \<Rightarrow> octets" where
  "commas [] = []"
| "commas [x] = x"
| "commas (x # y # zs) = x @ 44 # commas (y # zs)"

definition key_text :: "octets \<Rightarrow> c_chars \<Rightarrow> octets \<Rightarrow> octets" where
  "key_text sp k v = sp @ string_text k @ sp @ 58 # sp @ v @ sp"

definition padded :: "octets \<Rightarrow> octets \<Rightarrow> octets" where
  "padded sp v = sp @ v @ sp"

fun val_text :: "octets \<Rightarrow> jval \<Rightarrow> octets" where
  "val_text sp (JString s) = string_text s"
| "val_text sp (JPlain t) = t"
| "val_text sp (JArray vs) = 91 # commas (map (\<lambda>v. padded sp (val_text sp v)) vs) @ [93]"
| "val_text sp (JObject ms) = 123 # commas (map (\<lambda>(k, v). key_text sp k (val_text sp v)) ms) @ [125]"

fun val_ok :: "jval \<Rightarrow> bool" where
  "val_ok (JString s) = True"
| "val_ok (JPlain t) = (set t \<inter> {34, 44, 91, 93, 123, 125} = {})"
| "val_ok (JArray vs) = (\<forall>v \<in> set vs. val_ok v)"
| "val_ok (JObject ms) = (\<forall>(k, v) \<in> set ms. val_ok v)"

definition list_text :: "octets \<Rightarrow> octets list \<Rightarrow> octets" where
  "list_text sp vs = 91 # commas (map (padded sp) vs) @ [93]"

definition net_text :: "octets \<Rightarrow> net_member \<Rightarrow> octets" where
  "net_text sp x =
     (case x of
        Net_deny_all b \<Rightarrow> key_text sp (text_chars ''deny_all'') (text_chars (if b then ''true'' else ''false''))
      | Net_hosts hs \<Rightarrow> key_text sp (text_chars ''allowed_hosts'') (list_text sp (map string_text hs))
      | Net_ports ps \<Rightarrow> key_text sp (text_chars ''allowed_ports'') (list_text sp ps)
      | Net_other k v \<Rightarrow> key_text sp k (val_text sp v))"

definition member_text :: "octets \<Rightarrow> mf_member \<Rightarrow> octets" where
  "member_text sp x =
     (case x of
        Mf_name s \<Rightarrow> key_text sp (text_chars ''name'') (string_text s)
      | Mf_version s \<Rightarrow> key_text sp (text_chars ''version'') (string_text s)
      | Mf_quota d \<Rightarrow> key_text sp (text_chars ''memory_quota'') d
      | Mf_caps cs \<Rightarrow> key_text sp (text_chars ''capabilities'') (list_text sp (map string_text cs))
      | Mf_policy ns \<Rightarrow>
          key_text sp (text_chars ''network_policy'') (123 # commas (map (net_text sp) ns) @ [125])
      | Mf_other k v \<Rightarrow> key_text sp k (val_text sp v))"

definition manifest_text :: "octets \<Rightarrow> mf_member list \<Rightarrow> octets" where
  "manifest_text sp ms = sp @ 123 # commas (map (member_text sp) ms) @ [125]"

section \<open>The reference semantics\<close>

text \<open>At most four hosts and eight ports are kept, in the order of the text.\<close>

definition apply_net :: "net_member \<Rightarrow> net_policy \<Rightarrow> net_policy" where
  "apply_net x n =
     (case x of
        Net_deny_all b \<Rightarrow> n\<lparr>deny_all := b\<rparr>
      | Net_hosts hs \<Rightarrow> n\<lparr>allowed_hosts := allowed_hosts n @ take (4 - length (allowed_hosts n)) hs\<rparr>
      | Net_ports ps \<Rightarrow>
          n\<lparr>allowed_ports := allowed_ports n @ map (\<lambda>d. word_of_int (digits_value 0 d)) (take (8 - length (allowed_ports n)) ps)\<rparr>
      | Net_other k v \<Rightarrow> n)"

definition apply_member :: "mf_member \<Rightarrow> akira_manifest \<Rightarrow> akira_manifest" where
  "apply_member x m =
     (case x of
        Mf_name s \<Rightarrow> m\<lparr>mf_name := s\<rparr>
      | Mf_version s \<Rightarrow> m\<lparr>mf_version := s\<rparr>
      | Mf_quota d \<Rightarrow> m\<lparr>memory_quota := word_of_int (digits_value 0 d)\<rparr>
      | Mf_caps cs \<Rightarrow> m\<lparr>mf_cap_mask := fold (\<lambda>c caps. caps OR akira_capability_str_to_mask (Some c)) cs (mf_cap_mask m)\<rparr>
      | Mf_policy ns \<Rightarrow> m\<lparr>policy := fold apply_net ns ((policy m)\<lparr>present := True\<rparr>)\<rparr>
      | Mf_other k v \<Rightarrow> m)"

definition chars_ok :: "nat \<Rightarrow> c_chars \<Rightarrow> bool" where
  "chars_ok n s \<longleftrightarrow> is_c_chars s \<and> length s < n"

definition digits_ok :: "c_chars \<Rightarrow> bool" where
  "digits_ok d \<longleftrightarrow> d \<noteq> [] \<and> (\<forall>c \<in> set d. isdigit c)"

definition net_ok :: "net_member \<Rightarrow> bool" where
  "net_ok x =
     (case x of
        Net_deny_all b \<Rightarrow> True
      | Net_hosts hs \<Rightarrow> \<forall>h \<in> set hs. chars_ok 64 h
      | Net_ports ps \<Rightarrow> \<forall>d \<in> set ps. digits_ok d \<and> digits_value 0 d \<le> 65535
      | Net_other k v \<Rightarrow> chars_ok 32 k \<and> val_ok v \<and>
          k \<notin> text_chars ` {''deny_all'', ''allowed_hosts'', ''allowed_ports''})"

definition member_ok :: "mf_member \<Rightarrow> bool" where
  "member_ok x =
     (case x of
        Mf_name s \<Rightarrow> chars_ok 32 s
      | Mf_version s \<Rightarrow> chars_ok 16 s
      | Mf_quota d \<Rightarrow> digits_ok d
      | Mf_caps cs \<Rightarrow> \<forall>c \<in> set cs. chars_ok 64 c
      | Mf_policy ns \<Rightarrow> \<forall>n \<in> set ns. net_ok n
      | Mf_other k v \<Rightarrow> chars_ok 32 k \<and> val_ok v \<and>
          k \<notin> text_chars ` {''name'', ''version'', ''memory_quota'', ''capabilities'', ''network_policy''})"

section \<open>Tokens\<close>

definition spaces :: "octets \<Rightarrow> bool" where
  "spaces sp \<longleftrightarrow> (\<forall>c \<in> set sp. json_space c)"

lemma skip_spaces [simp]: "spaces sp \<Longrightarrow> json_skip_ws (sp @ p) = json_skip_ws p"
  by (simp add: spaces_def json_skip_ws_def dropWhile_append2)

lemma skip_char [simp]: "\<not> json_space c \<Longrightarrow> json_skip_ws (c # p) = c # p"
  by (simp add: json_skip_ws_def)

lemma not_json_space [simp]: "\<not> json_space 34" "\<not> json_space 44" "\<not> json_space 58" "\<not> json_space 91"
  "\<not> json_space 93" "\<not> json_space 123" "\<not> json_space 125"
  by (simp_all add: json_space_def)

lemma json_chars_escaped:
  "length out + length s \<le> n - 1 \<Longrightarrow>
     json_chars n (concat (map escape_char s) @ 34 # r) out = (34 # r, out @ s)"
proof (induction s arbitrary: out)
  case (Cons c s)
  obtain e p where p: "concat (map escape_char s) @ 34 # r = e # p"
    by (cases "concat (map escape_char s) @ 34 # r") auto
  have "json_chars n (escape_char c @ e # p) out = json_chars n (e # p) (out @ [c])"
    using Cons.prems by (auto simp: escape_char_def json_unescape_def)
  then show ?case using Cons.IH [of "out @ [c]"] Cons.prems by (simp add: p [symmetric])
qed simp

lemma parse_string_text:
  assumes "chars_ok n s"
  shows "json_parse_string (string_text s @ r) n old = (Some r, s)"
proof -
  have "json_chars n (concat (map escape_char s) @ 34 # r) [] = (34 # r, s)"
    using assms by (subst json_chars_escaped) (auto simp: chars_ok_def)
  then show ?thesis using assms
    by (simp add: json_parse_string_def string_text_def chars_ok_def c_string_at_chars)
qed

lemma string_text_Cons: "\<exists>t. string_text s @ r = 34 # t"
  by (simp add: string_text_def)

lemma skip_string [simp]: "json_skip_ws (string_text s @ r) = string_text s @ r"
  by (simp add: string_text_def)

lemma json_key_text:
  assumes "chars_ok 32 k" and "spaces sp"
  shows "json_key (string_text k @ sp @ 58 # sp @ v) = Some (json_skip_ws v, k)"
  using assms by (simp add: json_key_def parse_string_text)

lemma digit_step: "word_of_int v * 10 + (ucast (c::u8) - 48) = (word_of_int (v * 10 + (int (unat c) - 48)) :: u32)"
  by (transfer, simp)

lemma digits_text:
  "\<forall>c \<in> set d. isdigit c \<Longrightarrow> r = [] \<or> \<not> isdigit (hd r) \<Longrightarrow>
     json_digits (d @ r) (word_of_int v) = (r, word_of_int (digits_value v d))"
proof (induction d arbitrary: v)
  case Nil
  then show ?case by (cases r) (auto simp: digits_value_def)
next
  case (Cons c d)
  have "json_digits ((c # d) @ r) (word_of_int v) = json_digits (d @ r) (word_of_int v * 10 + (ucast c - 48))"
    using Cons.prems(1) by simp
  also have "\<dots> = (r, word_of_int (digits_value (v * 10 + (int (unat c) - 48)) d))"
    unfolding digit_step using Cons.prems by (intro Cons.IH) auto
  finally show ?case using Cons.prems(1) by (simp add: digits_value_def)
qed

lemma parse_int_text:
  assumes "digits_ok d" and "r = [] \<or> \<not> isdigit (hd r)"
  shows "json_parse_int (d @ r) = Some (r, word_of_int (digits_value 0 d))"
proof -
  obtain c t where d: "d = c # t" using assms(1) by (cases d) (auto simp: digits_ok_def)
  have "isdigit c" using assms(1) by (simp add: digits_ok_def d)
  then have "\<not> json_space c" by (auto simp: json_space_def isdigit_def)
  moreover have "json_digits (d @ r) 0 = (r, word_of_int (digits_value 0 d))"
    using digits_text [of d r 0] assms by (simp add: digits_ok_def)
  ultimately show ?thesis using \<open>isdigit c\<close> by (simp add: json_parse_int_def Let_def d)
qed

text \<open>A loop over the texts of a list that skips commas folds their effects.\<close>

lemma commas_fold:
  assumes "\<forall>x \<in> set xs. \<forall>r s. Q r \<longrightarrow> f (g x @ r) s = f r (h x s)"
    and "\<forall>r s. f (44 # r) s = f r s" and "\<forall>r. Q (44 # r)" and "Q r"
  shows "f (commas (map g xs) @ r) s = f r (fold h xs s)"
  using assms(1)
proof (induction xs arbitrary: s)
  case (Cons x xs)
  show ?case
  proof (cases xs)
    case Nil
    then show ?thesis using Cons.prems assms(4) by simp
  next
    case (Cons y ys)
    then have "f (commas (map g (x # xs)) @ r) s = f (g x @ 44 # commas (map g xs) @ r) s" by simp
    also have "\<dots> = f (commas (map g xs) @ r) (h x s)" using Cons.prems assms(2,3) by simp
    finally show ?thesis using Cons.IH Cons.prems by simp
  qed
qed simp

section \<open>Values of unknown keys\<close>

lemma skip_escaped:
  "json_skip_value (concat (map escape_char s) @ 34 # r) d True = json_skip_value r d False"
proof (induction s)
  case Nil
  then show ?case by (cases r) simp_all
next
  case (Cons c s)
  obtain e p where p: "concat (map escape_char s) @ 34 # r = e # p"
    by (cases "concat (map escape_char s) @ 34 # r") auto
  have "json_skip_value (escape_char c @ e # p) d True = json_skip_value (e # p) d True"
    by (simp add: escape_char_def json_skip_value.simps(2) [of _ "_ # _"] del: json_skip_value.simps)
  then show ?case using Cons.IH by (simp add: p [symmetric])
qed

lemma skip_string_value: "json_skip_value (string_text s @ r) d False = json_skip_value r d False"
  using skip_escaped [of s r d] by (simp add: string_text_def del: json_skip_value.simps add: json_skip_value.simps(2) [of 34])

lemma skip_plain: "set t \<inter> {34, 44, 91, 93, 123, 125} = {} \<Longrightarrow> json_skip_value (t @ r) d False = json_skip_value r d False"
proof (induction t)
  case (Cons c t)
  then show ?case by (subst append_Cons, subst json_skip_value.simps(2)) simp
qed simp

lemma skip_space_value: "spaces sp \<Longrightarrow> json_skip_value (sp @ r) d False = json_skip_value r d False"
  by (rule skip_plain) (auto simp: spaces_def json_space_def)

lemma skip_open: "c = 123 \<or> c = 91 \<Longrightarrow> json_skip_value (c # r) d False = json_skip_value r (Suc d) False"
  by (subst json_skip_value.simps(2)) auto

lemma skip_close: "c = 125 \<or> c = 93 \<Longrightarrow> json_skip_value (c # r) (Suc d) False = json_skip_value r d False"
  by (subst json_skip_value.simps(2)) auto

lemma skip_other: "c = 44 \<and> 0 < d \<or> c = 58 \<Longrightarrow> json_skip_value (c # r) d False = json_skip_value r d False"
  by (subst json_skip_value.simps(2)) auto

lemmas skip_text = skip_string_value skip_space_value skip_open skip_close skip_other key_text_def padded_def

lemma skip_value_text:
  assumes "spaces sp"
  shows "val_ok v \<Longrightarrow> json_skip_value (val_text sp v @ r) d False = json_skip_value r d False"
proof (induction v arbitrary: r d)
  case (JArray vs)
  have "(\<lambda>p (u::unit). json_skip_value p (Suc d) False) (commas (map (\<lambda>v. padded sp (val_text sp v)) vs) @ 93 # r) ()
      = (\<lambda>p (u::unit). json_skip_value p (Suc d) False) (93 # r) (fold (\<lambda>v u. u) vs ())"
    using JArray assms
    by (intro commas_fold [where Q = "\<lambda>_. True"]) (simp_all add: skip_text del: json_skip_value.simps)
  then show ?case by (simp add: skip_text del: json_skip_value.simps)
next
  case (JObject ms)
  have "(\<lambda>p (u::unit). json_skip_value p (Suc d) False)
        (commas (map (\<lambda>(k, v). key_text sp k (val_text sp v)) ms) @ 125 # r) ()
      = (\<lambda>p (u::unit). json_skip_value p (Suc d) False) (125 # r) (fold (\<lambda>v u. u) ms ())"
    using JObject assms
    by (intro commas_fold [where Q = "\<lambda>_. True"])
      (auto simp: skip_text split: prod.splits simp del: json_skip_value.simps)
  then show ?case by (simp add: skip_text del: json_skip_value.simps)
qed (simp_all add: skip_string_value skip_plain)

text \<open>The value of an unknown key is skipped up to the comma or bracket after it.\<close>

lemma skip_unknown:
  assumes "spaces sp" and "val_ok v" and "c = 44 \<or> c = 125"
  shows "json_skip_value (json_skip_ws (val_text sp v @ sp @ c # r)) 0 False = c # r"
proof -
  have "json_skip_value (json_skip_ws p) 0 False = json_skip_value p 0 False" for p
  proof -
    have "spaces (takeWhile json_space p)" by (auto simp: spaces_def dest: set_takeWhileD)
    then show ?thesis using skip_space_value [of "takeWhile json_space p" "dropWhile json_space p" 0]
      by (simp add: json_skip_ws_def)
  qed
  moreover have "json_skip_value (c # r) 0 False = c # r" using assms(3) by (subst json_skip_value.simps(2)) auto
  ultimately show ?thesis using assms by (simp add: skip_value_text skip_space_value)
qed

section \<open>Lists\<close>

definition ends_item :: "octets \<Rightarrow> bool" where
  "ends_item r \<longleftrightarrow> (\<exists>c t. r = c # t \<and> c \<in> {44, 93, 125})"

lemma ends_item_Cons [simp]: "ends_item (c # t) \<longleftrightarrow> c \<in> {44, 93, 125}"
  by (simp add: ends_item_def)

lemma after_digits: "spaces sp \<Longrightarrow> ends_item r \<Longrightarrow> \<not> isdigit (hd (sp @ r))"
  by (cases sp) (auto simp: spaces_def ends_item_def json_space_def isdigit_def)

lemma caps_loop_text:
  assumes "spaces sp" and "\<forall>c \<in> set cs. chars_ok 64 c"
  shows "caps_loop (commas (map (padded sp \<circ> string_text) cs) @ 93 # r) m =
    (Some r, fold (\<lambda>c caps. caps OR akira_capability_str_to_mask (Some c)) cs m)"
proof -
  have sp: "caps_loop (sp @ p) m = caps_loop p m" for p m
    using assms(1) by (simp add: caps_loop.simps [of "sp @ p"] caps_loop.simps [of p])
  have item: "caps_loop (string_text c @ p) m = caps_loop p (m OR akira_capability_str_to_mask (Some c))"
    if "chars_ok 64 c" for c p m
    using parse_string_text [OF that, of p "[]"] string_text_Cons [of c p]
    by (auto simp: caps_loop.simps [of "string_text c @ p"])
  have "caps_loop (commas (map (padded sp \<circ> string_text) cs) @ 93 # r) m
      = caps_loop (93 # r) (fold (\<lambda>c caps. caps OR akira_capability_str_to_mask (Some c)) cs m)"
    using assms(2)
    by (intro commas_fold [where Q = "\<lambda>_. True"]) (simp_all add: padded_def sp item caps_loop.simps [of "44 # _"])
  then show ?thesis by (simp add: caps_loop.simps [of "93 # _"])
qed

lemma fold_capped: "fold (\<lambda>x xs. if length xs < n then xs @ [g x] else xs) ys xs = xs @ map g (take (n - length xs) ys)"
proof (induction ys arbitrary: xs)
  case (Cons y ys)
  show ?case
  proof (cases "n - length xs")
    case (Suc k)
    moreover from this have "n - Suc (length xs) = k" by simp
    ultimately show ?thesis using Cons by auto
  qed (use Cons in auto)
qed simp

lemma hosts_loop_text:
  assumes "spaces sp" and "\<forall>h \<in> set hs. chars_ok 64 h"
  shows "hosts_loop (commas (map (padded sp \<circ> string_text) hs) @ 93 # r) old = (Some r, old @ take (4 - length old) hs)"
proof -
  have sp: "hosts_loop (sp @ p) m = hosts_loop p m" for p m
    using assms(1) by (simp add: hosts_loop.simps [of "sp @ p"] hosts_loop.simps [of p])
  have item: "hosts_loop (string_text h @ p) m = hosts_loop p (if length m < 4 then m @ [id h] else m)"
    if "chars_ok 64 h" for h p m
    using parse_string_text [OF that, of p "[]"] string_text_Cons [of h p]
    by (auto simp: hosts_loop.simps [of "string_text h @ p"] MANIFEST_NET_MAX_HOSTS_def MANIFEST_NET_HOST_LEN_def)
  have "hosts_loop (commas (map (padded sp \<circ> string_text) hs) @ 93 # r) old
      = hosts_loop (93 # r) (fold (\<lambda>h m. if length m < 4 then m @ [id h] else m) hs old)"
    using assms(2)
    by (intro commas_fold [where Q = "\<lambda>_. True"])
      (simp_all add: padded_def sp item hosts_loop.simps [of "44 # _"] del: id_apply)
  then show ?thesis by (simp add: hosts_loop.simps [of "93 # _"] fold_capped del: id_apply) simp
qed

lemma digits_value_nonneg: "\<forall>c \<in> set d. isdigit c \<Longrightarrow> 0 \<le> v \<Longrightarrow> 0 \<le> digits_value v d"
proof (induction d arbitrary: v)
  case (Cons c d)
  then have "48 \<le> unat c" by (simp add: isdigit_def)
  then have "48 \<le> int (unat c)" by linarith
  then have "0 \<le> v * 10 + (int (unat c) - 48)" using Cons.prems(2) by linarith
  then show ?case using Cons by (simp add: digits_value_def)
qed (simp add: digits_value_def)

lemma port_in_range:
  assumes "0 \<le> k" and "k \<le> 65535"
  shows "\<not> 65535 < (word_of_int k :: u32)" and "ucast (word_of_int k :: u32) = (word_of_int k :: u16)"
proof -
  have "uint (word_of_int k :: u32) = k" using assms by (simp add: uint_word_of_int_eq take_bit_int_eq_self)
  then show "\<not> 65535 < (word_of_int k :: u32)" using assms by (simp add: word_less_def)
  show "ucast (word_of_int k :: u32) = (word_of_int k :: u16)" by (transfer, simp)
qed

lemma ports_loop_text:
  assumes "spaces sp" and "\<forall>d \<in> set ps. digits_ok d \<and> digits_value 0 d \<le> 65535"
  shows "ports_loop (commas (map (padded sp) ps) @ 93 # r) old =
    (Some r, old @ map (\<lambda>d. word_of_int (digits_value 0 d)) (take (8 - length old) ps))"
proof -
  have sp: "ports_loop (sp @ p) m = ports_loop p m" for p m
    using assms(1) by (simp add: ports_loop.simps [of "sp @ p"] ports_loop.simps [of p])
  have item: "ports_loop (d @ sp @ p) m =
      ports_loop p (if length m < 8 then m @ [word_of_int (digits_value 0 d)] else m)"
    if d: "digits_ok d" "digits_value 0 d \<le> 65535" and p: "ends_item p" for d p m
  proof -
    obtain c t where c: "d = c # t" "isdigit c" using d(1) by (cases d) (auto simp: digits_ok_def)
    then have "\<not> json_space c" "c \<noteq> 93" "c \<noteq> 44" by (auto simp: json_space_def isdigit_def)
    moreover have "json_parse_int (c # t @ sp @ p) = Some (sp @ p, word_of_int (digits_value 0 d))"
      using parse_int_text [OF d(1), of "sp @ p"] after_digits [OF assms(1) p] c by simp
    moreover have "0 \<le> digits_value 0 d" using d(1) digits_value_nonneg [of d 0] by (simp add: digits_ok_def)
    ultimately show ?thesis using d(2) port_in_range [of "digits_value 0 d"]
      by (simp add: ports_loop.simps [of "c # _"] c(1) sp MANIFEST_NET_MAX_PORTS_def)
  qed
  have "ports_loop (commas (map (padded sp) ps) @ 93 # r) old
      = ports_loop (93 # r) (fold (\<lambda>d m. if length m < 8 then m @ [word_of_int (digits_value 0 d)] else m) ps old)"
    using assms(2)
    by (intro commas_fold [where Q = ends_item])
      (simp_all add: padded_def sp item ports_loop.simps [of "44 # _"])
  then show ?thesis by (simp add: ports_loop.simps [of "93 # _"] fold_capped)
qed

section \<open>Members\<close>

definition ends_member :: "octets \<Rightarrow> bool" where
  "ends_member r \<longleftrightarrow> (\<exists>c t. r = c # t \<and> c \<in> {44, 125})"

lemma ends_member_Cons [simp]: "ends_member (c # t) \<longleftrightarrow> c \<in> {44, 125}"
  by (simp add: ends_member_def)

lemma ends_memberD: "ends_member r \<Longrightarrow> ends_item r"
  by (auto simp: ends_member_def ends_item_def)

lemma known_keys [simp]:
  "text_chars ''deny_all'' \<noteq> text_chars ''allowed_hosts''" "text_chars ''deny_all'' \<noteq> text_chars ''allowed_ports''"
  "text_chars ''allowed_hosts'' \<noteq> text_chars ''allowed_ports''"
  "text_chars ''allowed_hosts'' \<noteq> text_chars ''deny_all''" "text_chars ''allowed_ports'' \<noteq> text_chars ''deny_all''"
  "text_chars ''allowed_ports'' \<noteq> text_chars ''allowed_hosts''"
  by (simp_all add: text_chars_def)

lemma known_keys_ok [simp]:
  "chars_ok 32 (text_chars ''deny_all'')" "chars_ok 32 (text_chars ''allowed_hosts'')" "chars_ok 32 (text_chars ''allowed_ports'')"
  "chars_ok 32 (text_chars ''name'')" "chars_ok 32 (text_chars ''version'')" "chars_ok 32 (text_chars ''memory_quota'')"
  "chars_ok 32 (text_chars ''capabilities'')" "chars_ok 32 (text_chars ''network_policy'')"
  by (simp_all add: text_chars_def chars_ok_def is_c_chars_def)

lemma list_text_append: "json_skip_ws (list_text sp vs @ r) = 91 # commas (map (padded sp) vs) @ 93 # r"
  by (simp add: list_text_def)

text \<open>One step of the loops: a member whose value is parsed up to the white space after it.\<close>

lemma policy_loop_member:
  assumes "spaces sp" and "chars_ok 32 k"
    and "policy_value k (json_skip_ws (v @ sp @ r)) n = (Some q, n')"
    and "policy_loop q n' = policy_loop r n'"
  shows "policy_loop (key_text sp k v @ r) n = policy_loop r n'"
proof -
  obtain t where t: "string_text k @ sp @ 58 # sp @ v @ sp @ r = 34 # t" using string_text_Cons by blast
  have "json_key (34 # t) = Some (json_skip_ws (v @ sp @ r), k)"
    using json_key_text [OF assms(2,1), of "v @ sp @ r"] by (simp add: t)
  moreover have "json_skip_ws (key_text sp k v @ r) = 34 # t" using assms(1) t by (simp add: key_text_def)
  ultimately show ?thesis using assms(3,4) by (simp add: policy_loop.simps [of "key_text sp k v @ r"])
qed

lemma members_loop_member:
  assumes "spaces sp" and "chars_ok 32 k"
    and "manifest_value k (json_skip_ws (v @ sp @ r)) m = (Some q, m')"
    and "members_loop q m' = members_loop r m'"
  shows "members_loop (key_text sp k v @ r) m = members_loop r m'"
proof -
  obtain t where t: "string_text k @ sp @ 58 # sp @ v @ sp @ r = 34 # t" using string_text_Cons by blast
  have "json_key (34 # t) = Some (json_skip_ws (v @ sp @ r), k)"
    using json_key_text [OF assms(2,1), of "v @ sp @ r"] by (simp add: t)
  moreover have "json_skip_ws (key_text sp k v @ r) = 34 # t" using assms(1) t by (simp add: key_text_def)
  ultimately show ?thesis using assms(3,4) by (simp add: members_loop.simps [of "key_text sp k v @ r"])
qed

lemma policy_loop_spaces: "spaces sp \<Longrightarrow> policy_loop (sp @ p) n = policy_loop p n"
  by (simp add: policy_loop.simps [of "sp @ p"] policy_loop.simps [of p])

lemma members_loop_spaces: "spaces sp \<Longrightarrow> members_loop (sp @ p) n = members_loop p n"
  by (simp add: members_loop.simps [of "sp @ p"] members_loop.simps [of p])

lemma policy_loop_net:
  assumes sp: "spaces sp" and ok: "net_ok x" and r: "ends_member r"
  shows "policy_loop (net_text sp x @ r) n = policy_loop r (apply_net x n)"
proof (cases x)
  case (Net_deny_all b)
  have "json_skip_ws (text_chars (if b then ''true'' else ''false'') @ sp @ r) = text_chars (if b then ''true'' else ''false'') @ sp @ r"
    by (simp add: text_chars_def json_space_def)
  then show ?thesis using sp Net_deny_all
    by (auto simp: net_text_def apply_net_def policy_value_def text_chars_def chars_ok_def is_c_chars_def
        intro!: policy_loop_member policy_loop_spaces)
next
  case (Net_hosts hs)
  then show ?thesis using sp ok hosts_loop_text [of sp hs "sp @ r" "allowed_hosts n"]
    by (auto simp: net_text_def apply_net_def net_ok_def policy_value_def list_text_append intro!: policy_loop_member policy_loop_spaces)
next
  case (Net_ports ps)
  then show ?thesis using sp ok ports_loop_text [of sp ps "sp @ r" "allowed_ports n"]
    by (auto simp: net_text_def apply_net_def net_ok_def policy_value_def list_text_append intro!: policy_loop_member policy_loop_spaces)
next
  case (Net_other k v)
  obtain c t where c: "r = c # t" "c = 44 \<or> c = 125" using r by (auto simp: ends_member_def)
  have "policy_value k (json_skip_ws (val_text sp v @ sp @ r)) n = (Some r, n)"
    using ok sp skip_unknown [of sp v c t] c by (simp add: Net_other net_ok_def policy_value_def)
  then show ?thesis using sp ok Net_other
    by (auto simp: net_text_def apply_net_def net_ok_def intro: policy_loop_member)
qed

lemma policy_loop_text:
  assumes "spaces sp" and "\<forall>x \<in> set ns. net_ok x"
  shows "policy_loop (commas (map (net_text sp) ns) @ 125 # r) n = (Some r, fold apply_net ns n)"
proof -
  have "policy_loop (commas (map (net_text sp) ns) @ 125 # r) n = policy_loop (125 # r) (fold apply_net ns n)"
    using assms by (intro commas_fold [where Q = ends_member]) (simp_all add: policy_loop_net policy_loop.simps [of "44 # _"])
  then show ?thesis by (simp add: policy_loop.simps [of "125 # _"])
qed

lemma manifest_keys [simp]:
  "text_chars ''name'' \<noteq> text_chars ''version''" "text_chars ''name'' \<noteq> text_chars ''memory_quota''"
  "text_chars ''name'' \<noteq> text_chars ''capabilities''" "text_chars ''name'' \<noteq> text_chars ''network_policy''"
  "text_chars ''version'' \<noteq> text_chars ''name''" "text_chars ''memory_quota'' \<noteq> text_chars ''name''"
  "text_chars ''capabilities'' \<noteq> text_chars ''name''" "text_chars ''network_policy'' \<noteq> text_chars ''name''"
  "text_chars ''version'' \<noteq> text_chars ''memory_quota''" "text_chars ''version'' \<noteq> text_chars ''capabilities''"
  "text_chars ''version'' \<noteq> text_chars ''network_policy''" "text_chars ''memory_quota'' \<noteq> text_chars ''version''"
  "text_chars ''capabilities'' \<noteq> text_chars ''version''" "text_chars ''network_policy'' \<noteq> text_chars ''version''"
  "text_chars ''memory_quota'' \<noteq> text_chars ''capabilities''" "text_chars ''memory_quota'' \<noteq> text_chars ''network_policy''"
  "text_chars ''capabilities'' \<noteq> text_chars ''memory_quota''" "text_chars ''network_policy'' \<noteq> text_chars ''memory_quota''"
  "text_chars ''capabilities'' \<noteq> text_chars ''network_policy''" "text_chars ''network_policy'' \<noteq> text_chars ''capabilities''"
  by (simp_all add: text_chars_def)

lemma members_loop_step:
  assumes sp: "spaces sp" and ok: "member_ok x" and r: "ends_member r"
  shows "members_loop (member_text sp x @ r) m = members_loop r (apply_member x m)"
proof (cases x)
  case (Mf_name s)
  then show ?thesis using sp ok parse_string_text [of 32 s "sp @ r" "mf_name m"]
    by (auto simp: member_text_def apply_member_def member_ok_def manifest_value_def intro!: members_loop_member members_loop_spaces)
next
  case (Mf_version s)
  then show ?thesis using sp ok parse_string_text [of 16 s "sp @ r" "mf_version m"]
    by (auto simp: member_text_def apply_member_def member_ok_def manifest_value_def intro!: members_loop_member members_loop_spaces)
next
  case (Mf_quota d)
  then have d: "digits_ok d" using ok by (simp add: member_ok_def)
  then obtain c t where c: "d = c # t" "isdigit c" by (cases d) (auto simp: digits_ok_def)
  then have "\<not> json_space c" by (auto simp: json_space_def isdigit_def)
  then have "json_skip_ws (d @ sp @ r) = d @ sp @ r" by (simp add: c(1))
  moreover have "json_parse_int (d @ sp @ r) = Some (sp @ r, word_of_int (digits_value 0 d))"
    using parse_int_text [OF d] after_digits [OF sp ends_memberD [OF r]] by blast
  ultimately show ?thesis using sp Mf_quota
    by (auto simp: member_text_def apply_member_def manifest_value_def intro!: members_loop_member members_loop_spaces)
next
  case (Mf_caps cs)
  then show ?thesis using sp ok caps_loop_text [of sp cs "sp @ r" "mf_cap_mask m"]
    by (auto simp: member_text_def apply_member_def member_ok_def manifest_value_def list_text_append
        intro!: members_loop_member members_loop_spaces)
next
  case (Mf_policy ns)
  then show ?thesis using sp ok policy_loop_text [of sp ns "sp @ r" "(policy m)\<lparr>present := True\<rparr>"]
    by (auto simp: member_text_def apply_member_def member_ok_def manifest_value_def
        intro!: members_loop_member members_loop_spaces)
next
  case (Mf_other k v)
  obtain c t where c: "r = c # t" "c = 44 \<or> c = 125" using r by (auto simp: ends_member_def)
  have "manifest_value k (json_skip_ws (val_text sp v @ sp @ r)) m = (Some r, m)"
    using ok sp skip_unknown [of sp v c t] c by (simp add: Mf_other member_ok_def manifest_value_def)
  then show ?thesis using sp ok Mf_other
    by (auto simp: member_text_def apply_member_def member_ok_def intro: members_loop_member)
qed

text \<open>
  The manifest parser inverts the text of a manifest: for any list of members within the limits of
  the fields (known keys with values of any white space and escapes, unknown keys with any nested value),
  the result is success and the manifest the members describe, whatever follows the closing brace.
\<close>

theorem manifest_parser_inverts_text:
  assumes "\<forall>c \<in> set sp. json_space c" and "\<forall>x \<in> set ms. member_ok x"
  shows "manifest_parse_json (manifest_text sp ms @ r) old =
    (0, (fold apply_member ms manifest_init_defaults)\<lparr>mf_valid := True\<rparr>)"
proof -
  have sp: "spaces sp" using assms(1) by (simp add: spaces_def)
  have "members_loop (commas (map (member_text sp) ms) @ 125 # r) manifest_init_defaults
      = members_loop (125 # r) (fold apply_member ms manifest_init_defaults)"
    using assms(2) sp
    by (intro commas_fold [where Q = ends_member]) (simp_all add: members_loop_step members_loop.simps [of "44 # _"])
  then show ?thesis using sp by (simp add: manifest_parse_json_def manifest_text_def members_loop.simps [of "125 # _"])
qed

lemma manifest_parser_inverts_text_witness:
  "manifest_parse_json
     (manifest_text [32]
        [Mf_name (text_chars ''cam''), Mf_other (text_chars ''x'') (JArray [JString [34], JPlain [49], JObject []]),
         Mf_caps [text_chars ''display.write''], Mf_quota (text_chars ''64''),
         Mf_policy [Net_ports [text_chars ''443''], Net_deny_all False]] @ []) manifest_init_defaults =
   (0, \<lparr>mf_cap_mask = akira_capability_str_to_mask (Some (text_chars ''display.write'')), memory_quota = 64,
        mf_name = text_chars ''cam'', mf_version = [], mf_valid = True,
        policy = \<lparr>present = True, deny_all = False, allowed_hosts = [], allowed_ports = [443]\<rparr>\<rparr>)"
  by (subst manifest_parser_inverts_text)
    (simp_all add: json_space_def member_ok_def net_ok_def chars_ok_def digits_ok_def text_chars_def is_c_chars_def
      isdigit_def digits_value_def apply_member_def apply_net_def manifest_init_defaults_def no_policy_def)

text \<open>A text that ends inside the object is accepted as well.\<close>

lemma truncated_manifest_accepted:
  "manifest_parse_json (text_chars ''{'') old = (0, manifest_init_defaults\<lparr>mf_valid := True\<rparr>)"
  by (simp add: manifest_parse_json_def text_chars_def json_skip_ws_def json_space_def members_loop.simps)

text \<open>A port is read modulo the word: 4294967376 is taken for port 80.\<close>

lemma port_number_wraps:
  "json_parse_int (text_chars ''4294967376'') = Some ([], 80)"
  by (simp add: json_parse_int_def Let_def text_chars_def json_skip_ws_def json_space_def isdigit_def)

end
