(* ===== verification/Manifest_Sections.thy ===== *)
theory Manifest_Sections
  imports Manifest_Text
begin

text \<open>
  The search for the manifest inside a module (\<open>src/src/runtime/manifest_parser.c\<close>): the sections of a
  WebAssembly binary and of a compiled (AOT) image, and the choice between the embedded manifest and
  the text given beside it.

  The buffer is the list of its octets. \<open>w\<close> is the width of \<open>size_t\<close>: the sums the code computes on it
  are taken modulo \<open>2 ^ w\<close>. A read outside the buffer, or handing a region outside it to the parser, is
  the result \<open>Out_of_bounds\<close>. The loops over the sections take fuel, since they need not end.
\<close>

unbundle bit_operations_syntax

datatype 'a checked = Out_of_bounds | In_bounds 'a

datatype section_step = Returns int akira_manifest | Continues nat

section \<open>LEB128\<close>

text \<open>The number of octets read, 0 for an incomplete number, with the value.\<close>

function leb128_loop :: "octets \<Rightarrow> nat \<Rightarrow> nat \<Rightarrow> u32 \<Rightarrow> (nat \<times> u32) checked" where
  "leb128_loop p max_len i v =
     (if i < max_len \<and> i < 5 then
        (if length p \<le> i then Out_of_bounds
         else
           (let b = p ! i; v' = v OR push_bit (7 * i) (ucast (b AND 127)) in
            if b AND 128 = 0 then In_bounds (i + 1, v') else leb128_loop p max_len (i + 1) v'))
      else In_bounds (0, 0))"
  by pat_completeness auto
termination by (relation "measure (\<lambda>(p, n, i, v). 5 - i)") auto

declare leb128_loop.simps [simp del]

definition read_leb128_u32 :: "octets \<Rightarrow> nat \<Rightarrow> (nat \<times> u32) checked" where
  "read_leb128_u32 p max_len = leb128_loop p max_len 0 0"

section \<open>WebAssembly\<close>

definition AKIRA_MANIFEST_SECTION :: c_chars where
  "AKIRA_MANIFEST_SECTION = text_chars ''.akira.manifest''"

text \<open>One round of the loop, for \<open>pos\<close> inside the buffer.\<close>

definition wasm_section_step :: "nat \<Rightarrow> octets \<Rightarrow> akira_manifest \<Rightarrow> nat \<Rightarrow> section_step checked" where
  "wasm_section_step w data m pos =
     (let size = length data; section_id = data ! pos; pos = pos + 1 in
      if size \<le> pos then In_bounds (Returns (- ENOENT) m)
      else
        (case read_leb128_u32 (drop pos data) (size - pos) of
           Out_of_bounds \<Rightarrow> Out_of_bounds
         | In_bounds (leb_len, section_size) \<Rightarrow>
             if leb_len = 0 then In_bounds (Returns (- EINVAL) m)
             else
               (let pos = pos + leb_len; sr = unat section_size; next_pos = (pos + sr) mod 2 ^ w in
                if size < next_pos then In_bounds (Returns (- EINVAL) m)
                else if section_id = 0 then
                  (case read_leb128_u32 (drop pos data) sr of
                     Out_of_bounds \<Rightarrow> Out_of_bounds
                   | In_bounds (leb_len, name_len) \<Rightarrow>
                       if leb_len = 0 \<or> sr < (leb_len + unat name_len) mod 2 ^ w then In_bounds (Continues next_pos)
                       else if unat name_len = length AKIRA_MANIFEST_SECTION then
                         (if size < pos + leb_len + unat name_len then Out_of_bounds
                          else if take (unat name_len) (drop (pos + leb_len) data) = AKIRA_MANIFEST_SECTION then
                            (if size < pos + sr then Out_of_bounds
                             else
                               (case manifest_parse_json
                                   (take (sr - leb_len - unat name_len) (drop (pos + leb_len + unat name_len) data)) m of
                                  (ret, m') \<Rightarrow> In_bounds (Returns ret m')))
                          else In_bounds (Continues next_pos))
                       else In_bounds (Continues next_pos))
                else In_bounds (Continues next_pos))))"

fun manifest_parse_wasm_binary ::
  "nat \<Rightarrow> octets \<Rightarrow> akira_manifest \<Rightarrow> nat \<Rightarrow> nat \<Rightarrow> (int \<times> akira_manifest) checked option" where
  "manifest_parse_wasm_binary w data m 0 pos = None"
| "manifest_parse_wasm_binary w data m (Suc fuel) pos =
     (if pos < length data then
        (case wasm_section_step w data m pos of
           Out_of_bounds \<Rightarrow> Some Out_of_bounds
         | In_bounds (Returns ret m') \<Rightarrow> Some (In_bounds (ret, m'))
         | In_bounds (Continues pos') \<Rightarrow> manifest_parse_wasm_binary w data m fuel pos')
      else Some (In_bounds (- ENOENT, m)))"

section \<open>AOT images\<close>

definition le_word :: "octets \<Rightarrow> nat" where
  "le_word bs = foldr (\<lambda>b n. unat b + 256 * n) bs 0"

definition read_le :: "octets \<Rightarrow> nat \<Rightarrow> nat \<Rightarrow> nat" where
  "read_le data pos n = le_word (take n (drop pos data))"

definition AOT_SECTION_TYPE_CUSTOM :: nat where
  "AOT_SECTION_TYPE_CUSTOM = 100"

definition align4 :: "nat \<Rightarrow> nat \<Rightarrow> nat" where
  "align4 w pos = (pos + 3) mod 2 ^ w div 4 * 4"

text \<open>One round of the loop, for \<open>pos + 8\<close> inside the buffer; the result of the loop is -ENOENT at a break.\<close>

definition aot_section_step :: "nat \<Rightarrow> octets \<Rightarrow> akira_manifest \<Rightarrow> nat \<Rightarrow> section_step checked" where
  "aot_section_step w data m pos0 =
     (let size = length data; pos = align4 w pos0 in
      if size < (pos + 8) mod 2 ^ w then In_bounds (Returns (- ENOENT) m)
      else if size < pos + 8 then Out_of_bounds
      else
        (let sec_type = read_le data pos 4; sec_size = read_le data (pos + 4) 4;
             pos = pos + 8; next_pos = (pos + sec_size) mod 2 ^ w in
         if size < next_pos then In_bounds (Returns (- ENOENT) m)
         else if sec_type = AOT_SECTION_TYPE_CUSTOM \<and> 8 < sec_size then
           (if size < pos + 4 then Out_of_bounds
            else if read_le data pos 4 \<noteq> 0 then In_bounds (Continues next_pos)
            else if size < pos + 6 then Out_of_bounds
            else
              (let name_len = read_le data (pos + 4) 2; n = length AKIRA_MANIFEST_SECTION in
               if 6 + name_len \<le> sec_size \<and> n \<le> name_len then
                 (if size < pos + 6 + n then Out_of_bounds
                  else if take n (drop (pos + 6) data) = AKIRA_MANIFEST_SECTION then
                    (if size < pos + sec_size then Out_of_bounds
                     else
                       (case manifest_parse_json (take (sec_size - 6 - name_len) (drop (pos + 6 + name_len) data)) m of
                          (ret, m') \<Rightarrow> In_bounds (Returns ret m')))
                  else In_bounds (Continues next_pos))
               else In_bounds (Continues next_pos)))
         else In_bounds (Continues next_pos)))"

fun manifest_parse_aot_binary ::
  "nat \<Rightarrow> octets \<Rightarrow> akira_manifest \<Rightarrow> nat \<Rightarrow> nat \<Rightarrow> (int \<times> akira_manifest) checked option" where
  "manifest_parse_aot_binary w data m 0 pos = None"
| "manifest_parse_aot_binary w data m (Suc fuel) pos =
     (if (pos + 8) mod 2 ^ w \<le> length data then
        (case aot_section_step w data m pos of
           Out_of_bounds \<Rightarrow> Some Out_of_bounds
         | In_bounds (Returns ret m') \<Rightarrow> Some (In_bounds (ret, m'))
         | In_bounds (Continues pos') \<Rightarrow> manifest_parse_aot_binary w data m fuel pos')
      else Some (In_bounds (- ENOENT, m)))"

section \<open>The entry points\<close>

text \<open>A null pointer is \<open>None\<close>.\<close>

definition manifest_parse_wasm_section ::
  "nat \<Rightarrow> nat \<Rightarrow> octets option \<Rightarrow> akira_manifest \<Rightarrow> (int \<times> akira_manifest) checked option" where
  "manifest_parse_wasm_section w fuel wasm_data manifest =
     (case wasm_data of
        None \<Rightarrow> Some (In_bounds (- EINVAL, manifest))
      | Some data \<Rightarrow>
          if length data < 8 then Some (In_bounds (- EINVAL, manifest))
          else if take 4 data = 0 # text_chars ''aot'' then
            manifest_parse_aot_binary w data manifest_init_defaults fuel 8
          else if take 4 data = 0 # text_chars ''asm'' then
            manifest_parse_wasm_binary w data manifest_init_defaults fuel 8
          else Some (In_bounds (- EINVAL, manifest_init_defaults)))"

definition fallback_json_parse :: "octets option \<Rightarrow> akira_manifest \<Rightarrow> int \<times> akira_manifest" where
  "fallback_json_parse fallback_json manifest =
     (case fallback_json of
        None \<Rightarrow> (- ENOENT, manifest)
      | Some json \<Rightarrow> if json = [] then (- ENOENT, manifest) else manifest_parse_json json manifest)"

definition manifest_parse_with_fallback ::
  "nat \<Rightarrow> nat \<Rightarrow> octets option \<Rightarrow> octets option \<Rightarrow> (int \<times> akira_manifest) checked option" where
  "manifest_parse_with_fallback w fuel wasm_data fallback_json =
     (case wasm_data of
        None \<Rightarrow> Some (In_bounds (fallback_json_parse fallback_json manifest_init_defaults))
      | Some data \<Rightarrow>
          if data = [] then Some (In_bounds (fallback_json_parse fallback_json manifest_init_defaults))
          else
            (case manifest_parse_wasm_section w fuel wasm_data manifest_init_defaults of
               None \<Rightarrow> None
             | Some Out_of_bounds \<Rightarrow> Some Out_of_bounds
             | Some (In_bounds (ret, m)) \<Rightarrow>
                 if ret = 0 then Some (In_bounds (0, m))
                 else Some (In_bounds (fallback_json_parse fallback_json m))))"

section \<open>Bounds\<close>

text \<open>
  With a \<open>size_t\<close> wide enough for the buffer and any section size, the position only grows, nothing
  outside the buffer is read, and the loops end within one round per octet.
\<close>

lemma leb128_loop_in_bounds:
  "max_len \<le> length p \<Longrightarrow> \<exists>n v'. leb128_loop p max_len i v = In_bounds (n, v') \<and> n \<le> max_len"
proof (induction p max_len i v rule: leb128_loop.induct)
  case (1 p max_len i v)
  show ?case
  proof (cases "i < max_len \<and> i < 5")
    case True
    then have "\<not> length p \<le> i" using 1(2) by simp
    then show ?thesis
    proof (cases "p ! i AND 128 = 0")
      case False
      then show ?thesis using 1(1) [OF True _ refl refl] \<open>\<not> length p \<le> i\<close> 1(2) True
        by (simp add: leb128_loop.simps [of p max_len i v] Let_def)
    qed (use True \<open>\<not> length p \<le> i\<close> in \<open>simp add: leb128_loop.simps [of p max_len i v] Let_def\<close>)
  qed (auto simp: leb128_loop.simps [of p max_len i v])
qed

lemma read_leb128_in_bounds:
  assumes "max_len \<le> length p"
  obtains n v where "read_leb128_u32 p max_len = In_bounds (n, v)" and "n \<le> max_len"
  using leb128_loop_in_bounds [OF assms, of 0 0] that by (auto simp: read_leb128_u32_def)

definition progress :: "nat \<Rightarrow> nat \<Rightarrow> section_step checked \<Rightarrow> bool" where
  "progress n pos s =
     (case s of
        Out_of_bounds \<Rightarrow> False
      | In_bounds (Returns _ _) \<Rightarrow> True
      | In_bounds (Continues p) \<Rightarrow> pos < p \<and> p \<le> n)"

lemma progress_simps [simp]:
  "\<not> progress n pos Out_of_bounds" "progress n pos (In_bounds (Returns r m))"
  "progress n pos (In_bounds (Continues p)) \<longleftrightarrow> pos < p \<and> p \<le> n"
  by (simp_all add: progress_def)

lemma unat_u32: "unat (v::u32) < 4294967296"
  using unsigned_less [of v] by simp

lemma wasm_section_step_progress:
  assumes w: "length data + 4294967296 < 2 ^ w" and pos: "pos < length data"
  shows "progress (length data) pos (wasm_section_step w data m pos)"
proof (cases "length data \<le> pos + 1")
  case False
  obtain k v where k: "read_leb128_u32 (drop (pos + 1) data) (length data - (pos + 1)) = In_bounds (k, v)"
      "k \<le> length data - (pos + 1)"
    using read_leb128_in_bounds [of "length data - (pos + 1)" "drop (pos + 1) data"] by auto
  define q where "q = pos + 1 + k"
  have q: "pos < q" "q \<le> length data" using k False by (simp_all add: q_def)
  have no_wrap: "(q + unat v) mod 2 ^ w = q + unat v" by (rule mod_less) (use q w unat_u32 [of v] in linarith)
  show ?thesis
  proof (cases "k = 0 \<or> length data < q + unat v")
    case True
    then show ?thesis using False k no_wrap by (auto simp: wasm_section_step_def Let_def q_def)
  next
    case fits: False
    have "unat v \<le> length (drop q data)" using fits by (simp only: length_drop de_Morgan_disj not_less) linarith
    then obtain j l where j: "read_leb128_u32 (drop q data) (unat v) = In_bounds (j, l)" "j \<le> unat v"
      by (rule read_leb128_in_bounds)
    have "(j + unat l) mod 2 ^ w = j + unat l" by (rule mod_less) (use j fits w unat_u32 [of l] in linarith)
    then show ?thesis using fits False k j no_wrap q
      by (auto simp: wasm_section_step_def Let_def q_def split: prod.splits)
  qed
qed (use pos in \<open>simp add: wasm_section_step_def Let_def\<close>)

lemma le_word_bound: "le_word bs < 256 ^ length bs"
proof (induction bs)
  case (Cons b bs)
  have "unat b < 256" using unsigned_less [of b] by simp
  then have "unat b + 256 * le_word bs < 256 * Suc (le_word bs)" by simp
  also have "\<dots> \<le> 256 * 256 ^ length bs" using Cons by (intro mult_le_mono) auto
  finally show ?case by (simp add: le_word_def)
qed (simp add: le_word_def)

lemma read_le_bound: "read_le data pos n < 256 ^ n"
proof -
  have "read_le data pos n < 256 ^ length (take n (drop pos data))" unfolding read_le_def by (rule le_word_bound)
  also have "\<dots> \<le> 256 ^ n" by (rule power_increasing) auto
  finally show ?thesis .
qed

lemma aot_section_step_progress:
  assumes w: "length data + 8589934592 < 2 ^ w" and pos: "pos + 8 \<le> length data"
  shows "progress (length data) pos (aot_section_step w data m pos)"
proof -
  have "(pos + 3) mod 2 ^ w = pos + 3" by (rule mod_less) (use w pos in linarith)
  then have a: "align4 w pos = (pos + 3) div 4 * 4" by (simp add: align4_def)
  define q where "q = align4 w pos"
  have q: "pos \<le> q" "q \<le> pos + 3" unfolding q_def a by linarith+
  have r: "(q + 8) mod 2 ^ w = q + 8" by (rule mod_less) (use q w pos in linarith)
  define s where "s = read_le data (q + 4) 4"
  have s: "s < 4294967296" using read_le_bound [of data "q + 4" 4] by (simp add: s_def)
  have n: "(q + 8 + s) mod 2 ^ w = q + 8 + s" by (rule mod_less) (use s q w pos in linarith)
  show ?thesis using q
    unfolding aot_section_step_def Let_def q_def [symmetric] s_def [symmetric] r n
    by (auto split: prod.splits)
qed

text \<open>
  C19: the search for the manifest ends and reads only the buffer, on any octets, whole or damaged, when
  \<open>size_t\<close> is wide enough that a position and a section size can be added (64 bits).
\<close>

theorem manifest_search_ends_in_bounds:
  assumes "length data + 2 ^ 33 < 2 ^ w" and "length data < fuel"
  shows "\<exists>ret m'. manifest_parse_wasm_section w fuel (Some data) m = Some (In_bounds (ret, m'))"
proof -
  have w: "length data + 8589934592 < 2 ^ w" using assms(1) by simp
  have wasm: "\<exists>ret m'. manifest_parse_wasm_binary w data m0 f pos = Some (In_bounds (ret, m'))"
    if "length data < f + pos" "pos \<le> length data" for m0 f pos
    using that
  proof (induction f arbitrary: pos)
    case (Suc f)
    show ?case
    proof (cases "pos < length data")
      case True
      then have "progress (length data) pos (wasm_section_step w data m0 pos)"
        using w by (intro wasm_section_step_progress) auto
      then show ?thesis using True Suc by (auto simp: progress_def split: checked.splits section_step.splits)
    qed simp
  qed simp
  have aot: "\<exists>ret m'. manifest_parse_aot_binary w data m0 f pos = Some (In_bounds (ret, m'))"
    if "length data < f + pos" "pos \<le> length data" for m0 f pos
    using that
  proof (induction f arbitrary: pos)
    case (Suc f)
    have "(pos + 8) mod 2 ^ w = pos + 8" by (rule mod_less) (use w Suc.prems in linarith)
    show ?case
    proof (cases "pos + 8 \<le> length data")
      case True
      then have "progress (length data) pos (aot_section_step w data m0 pos)" using w by (intro aot_section_step_progress) auto
      then show ?thesis using True Suc \<open>(pos + 8) mod 2 ^ w = pos + 8\<close>
        by (auto simp: progress_def split: checked.splits section_step.splits)
    qed (use \<open>(pos + 8) mod 2 ^ w = pos + 8\<close> in simp)
  qed simp
  show ?thesis using wasm [of fuel 8] aot [of fuel 8] assms(2) by (auto simp: manifest_parse_wasm_section_def)
qed

lemma manifest_search_ends_in_bounds_witness:
  "\<exists>ret m'. manifest_parse_wasm_section 64 9 (Some [0, 97, 115, 109, 1, 0, 0, 0]) manifest_init_defaults = Some (In_bounds (ret, m'))"
  by (rule manifest_search_ends_in_bounds) simp_all

text \<open>
  With a 32-bit \<open>size_t\<close> the sum wraps: in this module of 14 octets a section of size 0xFFFFFFFA leads
  back to the first section, and the search never returns.
\<close>

definition endless_module :: octets where
  "endless_module = [0, 0x61, 0x73, 0x6d, 1, 0, 0, 0, 1, 0xFA, 0xFF, 0xFF, 0xFF, 0x0F]"

lemma endless_section: "read_leb128_u32 (drop 9 endless_module) 5 = In_bounds (5, 0xFFFFFFFA)"
  by code_simp

lemma endless_step: "wasm_section_step 32 endless_module m 8 = In_bounds (Continues 8)"
proof -
  have "endless_module ! 8 = 1" "length endless_module = 14" by (simp_all add: endless_module_def)
  then show ?thesis using endless_section by (simp add: wasm_section_step_def Let_def)
qed

lemma endless_module_loops: "manifest_parse_wasm_section 32 fuel (Some endless_module) m = None"
proof -
  have "length endless_module = 14" "take 4 endless_module = [0, 0x61, 0x73, 0x6d]"
    by (simp_all add: endless_module_def)
  moreover have "manifest_parse_wasm_binary 32 endless_module m0 f 8 = None" for m0 f
    using \<open>length endless_module = 14\<close> by (induction f) (simp_all add: endless_step)
  ultimately show ?thesis by (simp add: manifest_parse_wasm_section_def text_chars_def)
qed

text \<open>The same header in front of a custom section makes a 32-bit build read behind the buffer.\<close>

lemma wrapped_section_reads_outside:
  "manifest_parse_wasm_section 32 (Suc f) (Some (endless_module[8 := 0])) m = Some Out_of_bounds"
proof -
  have "read_leb128_u32 (drop 9 (endless_module[8 := 0])) 5 = In_bounds (5, 0xFFFFFFFA)" by code_simp
  moreover have "read_leb128_u32 [] 4294967290 = Out_of_bounds"
    by (simp add: read_leb128_u32_def leb128_loop.simps)
  moreover have "length (endless_module[8 := 0]) = 14" "take 4 (endless_module[8 := 0]) = [0, 0x61, 0x73, 0x6d]"
    "endless_module[8 := 0] ! 8 = 0" "drop 14 (endless_module[8 := 0]) = []"
    by (simp_all add: endless_module_def)
  ultimately show ?thesis by (simp add: manifest_parse_wasm_section_def text_chars_def wasm_section_step_def Let_def)
qed

section \<open>The manifest of a well-formed module\<close>

fun leb_text :: "nat \<Rightarrow> octets" where
  "leb_text n = (if n < 128 then [of_nat n] else of_nat (n mod 128 + 128) # leb_text (n div 128))"

declare leb_text.simps [simp del]

lemma octet_of_nat: "n < 256 \<Longrightarrow> unat (of_nat n :: u8) = n"
  by (simp add: unat_of_nat take_bit_nat_eq_self)

lemma and_127: "(a::u8) AND 127 = take_bit 7 a"
  by (simp add: take_bit_eq_mask mask_eq_exp_minus_1)

lemma and_128: "(a::u8) AND 128 = 0 \<longleftrightarrow> \<not> bit a 7"
  using and_exp_eq_0_iff_not_bit [of a 7] by simp

lemma low_octet:
  assumes "n < 128"
  shows "ucast ((of_nat n :: u8) AND 127) = (of_nat n :: u32)" and "(of_nat n :: u8) AND 128 = 0"
    and "ucast ((of_nat (n + 128) :: u8) AND 127) = (of_nat n :: u32)" and "(of_nat (n + 128) :: u8) AND 128 \<noteq> 0"
proof -
  have u: "ucast (of_nat k :: u8) = (of_nat k :: u32)" if "k < 256" for k
    using that by (simp add: unsigned_of_nat take_bit_nat_eq_self)
  have t: "take_bit 7 n = n" "take_bit 7 (n + 128) = n" using assms by (simp_all add: take_bit_eq_mod)
  have "take_bit 7 (of_nat n :: u8) = of_nat n" "take_bit 7 (of_nat (n + 128) :: u8) = of_nat n"
    unfolding take_bit_of_nat t by simp_all
  then show "ucast ((of_nat n :: u8) AND 127) = (of_nat n :: u32)" "ucast ((of_nat (n + 128) :: u8) AND 127) = (of_nat n :: u32)"
    using u [of n] assms by (simp_all add: and_127)
  have "n div 128 = 0" "(n + 128) div 128 = 1" using assms by simp_all
  then have "\<not> bit n 7" "bit (n + 128) 7" by (simp_all add: bit_iff_odd)
  then show "(of_nat n :: u8) AND 128 = 0" "(of_nat (n + 128) :: u8) AND 128 \<noteq> 0"
    unfolding and_128 bit_of_nat_iff by simp_all
qed

lemma or_push:
  assumes "m < 2 ^ k"
  shows "(of_nat m :: u32) OR push_bit k (of_nat x) = of_nat (m + x * 2 ^ k)"
proof -
  have "\<not> bit m j" if "k \<le> j" for j
    using assms that by (simp add: bit_iff_odd) (metis div_less dvd_0_right less_le_trans one_le_numeral power_increasing)
  then have "(of_nat m :: u32) AND push_bit k (of_nat x) = 0"
    by (auto simp: bit_eq_iff bit_simps)
  then show ?thesis by (simp add: disjunctive_add_eq_or [symmetric] push_bit_eq_mult)
qed

lemma leb128_loop_text:
  assumes "n * 2 ^ (7 * i) < 2 ^ 32" and "i < 5" and "m < 2 ^ (7 * i)"
    and "i + length (leb_text n) \<le> max_len" and "length pre = i"
  shows "leb128_loop (pre @ leb_text n @ r) max_len i (of_nat m) =
    In_bounds (i + length (leb_text n), of_nat (m + n * 2 ^ (7 * i)))"
  using assms
proof (induction n arbitrary: i m pre rule: leb_text.induct)
  case (1 n)
  define b where "b = n mod 128"
  have b: "b < 128" by (simp add: b_def)
  have pos: "0 < length (leb_text n)" by (simp add: leb_text.simps [of n])
  then have i: "i < max_len" "\<not> length (pre @ leb_text n @ r) \<le> i"
    using "1.prems"(4,5) by (simp_all only: length_append)
  have or: "(of_nat m :: u32) OR push_bit (7 * i) (of_nat b) = of_nat (m + b * 2 ^ (7 * i))"
    using "1.prems"(3) by (rule or_push)
  show ?case
  proof (cases "n < 128")
    case True
    then have "b = n" by (simp add: b_def)
    have "(pre @ leb_text n @ r) ! i = of_nat n" using True "1.prems"(5) by (simp add: leb_text.simps [of n] nth_append)
    then show ?thesis using i "1.prems"(2) True or \<open>b = n\<close> low_octet(1,2) [OF True]
      by (simp add: leb128_loop.simps [of _ max_len i] Let_def leb_text.simps [of n])
  next
    case False
    define m' where "m' = m + b * 2 ^ (7 * i)"
    have "(pre @ leb_text n @ r) ! i = of_nat (b + 128)" using False "1.prems"(5)
      by (simp add: leb_text.simps [of n] nth_append b_def)
    then have "leb128_loop (pre @ leb_text n @ r) max_len i (of_nat m)
        = leb128_loop (pre @ leb_text n @ r) max_len (i + 1) (of_nat m')"
      using i "1.prems"(2) or low_octet(3,4) [OF b] by (simp add: leb128_loop.simps [of _ max_len i] Let_def m'_def)
    also have "\<dots> = leb128_loop ((pre @ [of_nat (b + 128)]) @ leb_text (n div 128) @ r) max_len (i + 1) (of_nat m')"
      using False by (simp add: leb_text.simps [of n] b_def)
    also have "\<dots> = In_bounds (i + 1 + length (leb_text (n div 128)), of_nat (m' + n div 128 * 2 ^ (7 * (i + 1))))"
    proof (rule "1.IH" [OF False])
      have "n div 128 * 2 ^ (7 * (i + 1)) = n div 128 * 128 * 2 ^ (7 * i)" by (simp add: power_add)
      also have "\<dots> \<le> n * 2 ^ (7 * i)" by (intro mult_le_mono1) simp
      also note "1.prems"(1)
      finally show small: "n div 128 * 2 ^ (7 * (i + 1)) < 2 ^ 32" .
      have "1 * 2 ^ (7 * (i + 1)) \<le> n div 128 * 2 ^ (7 * (i + 1))" using False by (intro mult_le_mono1) (simp add: div_greater_zero_iff Suc_le_eq)
      then have "(2::nat) ^ (7 * (i + 1)) < 2 ^ 32" using small by linarith
      then have "7 * (i + 1) < 32" by (rule power_less_imp_less_exp [rotated]) simp
      then show "i + 1 < 5" by simp
      have "m' < (b + 1) * 2 ^ (7 * i)" using "1.prems"(3) by (simp add: m'_def)
      also have "\<dots> \<le> 128 * 2 ^ (7 * i)" using b by (intro mult_le_mono1) simp
      finally show "m' < 2 ^ (7 * (i + 1))" by (simp add: power_add)
    qed (use "1.prems"(4,5) False in \<open>simp_all add: leb_text.simps [of n]\<close>)
    also have "m' + n div 128 * 2 ^ (7 * (i + 1)) = m + (n mod 128 + n div 128 * 128) * 2 ^ (7 * i)"
    proof -
      have "2 ^ (7 * (i + 1)) = 128 * (2 ^ (7 * i) :: nat)" by (simp add: power_add)
      then show ?thesis by (simp only: m'_def b_def distrib_right mult.assoc add.assoc)
    qed
    also have "n mod 128 + n div 128 * 128 = n" by simp
    finally show ?thesis using False by (simp add: leb_text.simps [of n])
  qed
qed

lemma read_leb_text:
  "n < 2 ^ 32 \<Longrightarrow> length (leb_text n) \<le> max_len \<Longrightarrow>
     read_leb128_u32 (leb_text n @ r) max_len = In_bounds (length (leb_text n), of_nat n)"
  using leb128_loop_text [of n 0 0 max_len "[]" r] by (simp add: read_leb128_u32_def)

lemma leb_text_pos: "0 < length (leb_text n)"
  by (simp add: leb_text.simps [of n])

datatype wasm_section = Standard_section u8 octets | Custom_section c_chars octets

definition section_body :: "wasm_section \<Rightarrow> octets" where
  "section_body s =
     (case s of
        Standard_section n body \<Rightarrow> body
      | Custom_section name content \<Rightarrow> leb_text (length name) @ name @ content)"

definition section_id :: "wasm_section \<Rightarrow> u8" where
  "section_id s = (case s of Standard_section n body \<Rightarrow> n | Custom_section name content \<Rightarrow> 0)"

definition section_text :: "wasm_section \<Rightarrow> octets" where
  "section_text s = section_id s # leb_text (length (section_body s)) @ section_body s"

definition section_ok :: "wasm_section \<Rightarrow> bool" where
  "section_ok s \<longleftrightarrow> length (section_body s) < 2 ^ 32 \<and>
     (case s of Standard_section n body \<Rightarrow> n \<noteq> 0 | Custom_section name content \<Rightarrow> name \<noteq> AKIRA_MANIFEST_SECTION)"

text \<open>The part of a round that all sections share.\<close>

lemma wasm_section_header:
  assumes "length (pre @ section_text s @ post) < 2 ^ w" and "length (section_body s) < 2 ^ 32"
  shows "wasm_section_step w (pre @ section_text s @ post) m (length pre) =
    (let data = pre @ section_text s @ post; sr = length (section_body s);
         pos = length pre + 1 + length (leb_text sr); next_pos = length pre + length (section_text s) in
     if section_id s = 0 then
       (case read_leb128_u32 (section_body s @ post) sr of
          Out_of_bounds \<Rightarrow> Out_of_bounds
        | In_bounds (leb_len, name_len) \<Rightarrow>
            if leb_len = 0 \<or> sr < (leb_len + unat name_len) mod 2 ^ w then In_bounds (Continues next_pos)
            else if unat name_len = length AKIRA_MANIFEST_SECTION then
              (if length data < pos + leb_len + unat name_len then Out_of_bounds
               else if take (unat name_len) (drop leb_len (section_body s @ post)) = AKIRA_MANIFEST_SECTION then
                 (case manifest_parse_json (take (sr - leb_len - unat name_len)
                     (drop (leb_len + unat name_len) (section_body s @ post))) m of
                    (ret, m') \<Rightarrow> In_bounds (Returns ret m'))
               else In_bounds (Continues next_pos))
            else In_bounds (Continues next_pos))
     else In_bounds (Continues next_pos))"
proof -
  define sr where "sr = length (section_body s)"
  define lb where "lb = leb_text sr"
  define data where "data = pre @ section_text s @ post"
  have data: "data = pre @ section_id s # lb @ section_body s @ post" by (simp add: data_def section_text_def lb_def sr_def)
  have lb: "0 < length lb" unfolding lb_def by (rule leb_text_pos)
  have hd: "data ! length pre = section_id s" "drop (length pre + 1) data = lb @ section_body s @ post"
    "\<not> length data \<le> length pre + 1"
    using lb by (simp_all add: data)
  have d: "drop (length pre + 1 + length lb + k) data = drop k (section_body s @ post)" for k by (simp add: data)
  have "length lb \<le> length data - (length pre + 1)" by (simp add: data)
  then have rd: "read_leb128_u32 (drop (length pre + 1) data) (length data - (length pre + 1)) = In_bounds (length lb, of_nat sr)"
    unfolding hd lb_def using assms(2) by (intro read_leb_text) (simp_all add: sr_def)
  have sr: "unat (of_nat sr :: u32) = sr" using assms(2) by (simp add: sr_def unat_of_nat take_bit_nat_eq_self)
  define pos where "pos = length pre + 1 + length lb"
  have nx: "pos + sr = length pre + length (section_text s)"
    by (simp add: section_text_def lb_def sr_def pos_def)
  have w: "(length pre + length (section_text s)) mod 2 ^ w = length pre + length (section_text s)"
    using assms(1) by simp
  have le: "(length data < length pre + length (section_text s)) = False" by (simp add: data_def)
  have d: "drop pos data = section_body s @ post" "drop (pos + k) data = drop k (section_body s @ post)"
    "drop (pos + j + k) data = drop (j + k) (section_body s @ post)" for k j
    by (simp_all add: data pos_def add.assoc)
  have lb0: "(length lb = 0) = False" "(length data \<le> length pre + 1) = False" using lb hd(3) by simp_all
  show ?thesis
    unfolding data_def [symmetric] sr_def [symmetric] wasm_section_step_def Let_def rd checked.case prod.case sr hd(1)
      lb_def [symmetric] pos_def [symmetric] nx w d le lb0 if_False
    by simp
qed

lemma custom_name_read:
  assumes "section_body s = leb_text (length name) @ name @ content" and "length (section_body s) < 2 ^ 32"
    and "(2::nat) ^ 32 \<le> 2 ^ w"
  shows "read_leb128_u32 (section_body s @ post) (length (section_body s)) =
      In_bounds (length (leb_text (length name)), of_nat (length name))"
    and "unat (of_nat (length name) :: u32) = length name"
    and "(length (leb_text (length name)) + length name) mod 2 ^ w = length (leb_text (length name)) + length name"
proof -
  have n: "length name < 2 ^ 32" using assms by simp
  show "read_leb128_u32 (section_body s @ post) (length (section_body s)) =
      In_bounds (length (leb_text (length name)), of_nat (length name))"
    unfolding assms(1) append.assoc by (rule read_leb_text) (use n in simp_all)
  show "unat (of_nat (length name) :: u32) = length name" using n by (simp add: unat_of_nat take_bit_nat_eq_self)
  have "length (leb_text (length name)) + length name < 2 ^ 32" using assms(1,2) by simp
  also note assms(3)
  finally have "length (leb_text (length name)) + length name < 2 ^ w" .
  then show "(length (leb_text (length name)) + length name) mod 2 ^ w = length (leb_text (length name)) + length name"
    by simp
qed

lemma wasm_section_skipped:
  assumes "section_ok s" and "length (pre @ section_text s @ post) < 2 ^ w" and "(2::nat) ^ 32 \<le> 2 ^ w"
  shows "wasm_section_step w (pre @ section_text s @ post) m (length pre) =
    In_bounds (Continues (length pre + length (section_text s)))"
proof (cases s)
  case (Standard_section n body)
  then show ?thesis using assms(1) wasm_section_header [OF assms(2)] by (simp add: section_ok_def section_id_def Let_def)
next
  case (Custom_section name content)
  have b: "section_body s = leb_text (length name) @ name @ content" "length (section_body s) < 2 ^ 32"
    using assms(1) by (simp_all add: Custom_section section_body_def section_ok_def)
  have len: "length (section_text s) = 1 + length (leb_text (length (section_body s))) + length (section_body s)"
    by (simp add: section_text_def)
  show ?thesis
    unfolding wasm_section_header [OF assms(2) b(2)] Let_def custom_name_read [OF b assms(3)] checked.case prod.case len
    using assms(1) leb_text_pos [of "length name"]
    by (simp add: section_id_def section_ok_def Custom_section len [unfolded Custom_section] b(1) [unfolded Custom_section])
qed

lemma wasm_section_found:
  assumes "length (section_body s) < 2 ^ 32" and "s = Custom_section AKIRA_MANIFEST_SECTION json"
    and "length (pre @ section_text s @ post) < 2 ^ w" and "(2::nat) ^ 32 \<le> 2 ^ w"
  shows "wasm_section_step w (pre @ section_text s @ post) m (length pre) =
    (case manifest_parse_json json m of (ret, m') \<Rightarrow> In_bounds (Returns ret m'))"
proof -
  let ?n = AKIRA_MANIFEST_SECTION
  have b: "section_body s = leb_text (length ?n) @ ?n @ json" using assms(2) by (simp add: section_body_def)
  have len: "length (section_text s) = 1 + length (leb_text (length (section_body s))) + length (section_body s)"
    by (simp add: section_text_def)
  show ?thesis
    unfolding wasm_section_header [OF assms(3,1)] Let_def custom_name_read [OF b assms(1,4)] checked.case prod.case len
    using leb_text_pos [of "length ?n"]
    by (simp add: section_id_def assms(2) len [unfolded assms(2)] b [unfolded assms(2)])
qed

lemma wasm_walk_finds:
  assumes "\<forall>s \<in> set ss. section_ok s" and "length ss < fuel"
    and "length (section_body (Custom_section AKIRA_MANIFEST_SECTION json)) < 2 ^ 32"
    and "length (pre @ concat (map section_text ss) @ section_text (Custom_section AKIRA_MANIFEST_SECTION json) @ post) < 2 ^ w"
    and "(2::nat) ^ 32 \<le> 2 ^ w"
  shows "manifest_parse_wasm_binary w
     (pre @ concat (map section_text ss) @ section_text (Custom_section AKIRA_MANIFEST_SECTION json) @ post)
     m fuel (length pre) = Some (In_bounds (manifest_parse_json json m))"
  using assms(1,2,4)
proof (induction ss arbitrary: pre fuel)
  case Nil
  obtain f where f: "fuel = Suc f" using Nil.prems(2) by (cases fuel) auto
  have "wasm_section_step w (pre @ section_text (Custom_section AKIRA_MANIFEST_SECTION json) @ post) m (length pre) =
    (case manifest_parse_json json m of (ret, m') \<Rightarrow> In_bounds (Returns ret m'))"
    using assms(3,5) Nil.prems(3) by (intro wasm_section_found) simp_all
  then show ?case by (simp add: f section_text_def split: prod.splits)
next
  case (Cons s ss)
  obtain f where f: "fuel = Suc f" using Cons.prems(2) by (cases fuel) auto
  let ?rest = "concat (map section_text ss) @ section_text (Custom_section AKIRA_MANIFEST_SECTION json) @ post"
  have "wasm_section_step w (pre @ section_text s @ ?rest) m (length pre) =
    In_bounds (Continues (length pre + length (section_text s)))"
    using assms(5) Cons.prems by (intro wasm_section_skipped) simp_all
  moreover have "length pre < length (pre @ section_text s @ ?rest)" by (simp add: section_text_def)
  moreover have "manifest_parse_wasm_binary w ((pre @ section_text s) @ ?rest) m f (length (pre @ section_text s)) =
    Some (In_bounds (manifest_parse_json json m))"
    using Cons.prems f by (intro Cons.IH) simp_all
  ultimately show ?case by (simp add: f)
qed

text \<open>
  C18: a module whose sections are well formed carries its own manifest: the sections before it are
  passed over and the text of the first section called .akira.manifest gives the manifest, whatever
  follows it and whatever text is given beside the module.
\<close>

theorem embedded_manifest_found:
  assumes "length version = 4" and "\<forall>s \<in> set ss. section_ok s" and "length ss < fuel"
    and "\<forall>c \<in> set sp. json_space c" and "\<forall>x \<in> set ms. member_ok x"
    and "json = manifest_text sp ms @ trailer"
    and "length (section_body (Custom_section AKIRA_MANIFEST_SECTION json)) < 2 ^ 32"
    and "data = 0 # text_chars ''asm'' @ version @ concat (map section_text ss)
      @ section_text (Custom_section AKIRA_MANIFEST_SECTION json) @ rest"
    and "length data < 2 ^ w" and "32 \<le> w"
  shows "manifest_parse_with_fallback w fuel (Some data) fallback_json =
    Some (In_bounds (0, (fold apply_member ms manifest_init_defaults)\<lparr>mf_valid := True\<rparr>))"
proof -
  let ?pre = "0 # text_chars ''asm'' @ version"
  have pre: "length ?pre = 8" "take 4 ?pre = 0 # text_chars ''asm''" using assms(1) by (simp_all add: text_chars_def)
  have d: "data = ?pre @ concat (map section_text ss) @ section_text (Custom_section AKIRA_MANIFEST_SECTION json) @ rest"
    using assms(8) by simp
  have w: "2 ^ 32 \<le> (2::nat) ^ w" using assms(10) by (rule power_increasing) simp
  have "manifest_parse_wasm_binary w data manifest_init_defaults fuel 8
      = Some (In_bounds (manifest_parse_json json manifest_init_defaults))"
    using wasm_walk_finds [OF assms(2,3,7) assms(9) [unfolded d] w] by (simp only: d pre(1))
  moreover have "take 4 data = 0 # text_chars ''asm''" using pre unfolding d by (simp add: text_chars_def)
  moreover have "\<not> length data < 8" "data \<noteq> []" using pre(1) by (simp_all add: d)
  moreover have "0 # text_chars ''asm'' \<noteq> 0 # text_chars ''aot''" by (simp add: text_chars_def)
  moreover have "manifest_parse_json json manifest_init_defaults = (0, (fold apply_member ms manifest_init_defaults)\<lparr>mf_valid := True\<rparr>)"
    unfolding assms(6) by (rule manifest_parser_inverts_text [OF assms(4,5)])
  ultimately show ?thesis by (simp add: manifest_parse_with_fallback_def manifest_parse_wasm_section_def)
qed

lemma leb_text_small: "n < 128 \<Longrightarrow> leb_text n = [of_nat n]"
  by (simp add: leb_text.simps [of n])

lemma embedded_manifest_found_witness:
  "manifest_parse_with_fallback 32 3
     (Some (0 # text_chars ''asm'' @ [1, 0, 0, 0]
        @ concat (map section_text [Standard_section 1 [7, 8], Custom_section (text_chars ''name'') [9]])
        @ section_text (Custom_section AKIRA_MANIFEST_SECTION (manifest_text [] [Mf_name (text_chars ''cam'')] @ [])) @ [10]))
     None =
   Some (In_bounds (0, (fold apply_member [Mf_name (text_chars ''cam'')] manifest_init_defaults)\<lparr>mf_valid := True\<rparr>))"
  by (rule embedded_manifest_found [where version = "[1, 0, 0, 0]" and sp = "[]" and trailer = "[]" and rest = "[10]"
        and ss = "[Standard_section 1 [7, 8], Custom_section (text_chars ''name'') [9]]"
        and json = "manifest_text [] [Mf_name (text_chars ''cam'')] @ []"])
    (simp_all add: section_ok_def section_body_def section_text_def section_id_def leb_text_small text_chars_def
      AKIRA_MANIFEST_SECTION_def member_ok_def chars_ok_def is_c_chars_def manifest_text_def member_text_def key_text_def
      string_text_def escape_char_def)

end
