(* ===== verification/App_Signing.thy ===== *)
theory App_Signing
  imports Manifest_Sections Runtime_Sandbox
begin

text \<open>
  Signatures and integrity of applications (\<open>src/src/runtime/security/app_signing_v2.c\<close>, built with
  mbedTLS, X.509 and public key parsing).

  The cryptographic library is a parameter, a record \<open>crypto\<close> of what it computes: a hash, the public
  key of a certificate in its exported form, whether a stored key can be read, and whether a signature
  is right. The platform's list of allowed applications is a parameter too. The calls that write the
  audit log are kept in order in the state.
\<close>

unbundle bit_operations_syntax

section \<open>Types and state\<close>

definition MAX_TRUSTED_ROOTS :: nat where "MAX_TRUSTED_ROOTS = 8"
definition MAX_PUBKEY_DER_SIZE :: nat where "MAX_PUBKEY_DER_SIZE = 300"

datatype sign_alg = SIGN_ALG_NONE | SIGN_ALG_RSA2048_SHA256 | SIGN_ALG_ED25519 | Other_alg int

record app_signature =
  algorithm :: sign_alg
  sig_bytes :: octets
  cert_hash :: octets

record cert =
  cert_data :: octets
  is_root :: bool

record crypto =
  sha256 :: "octets \<Rightarrow> octets option"
  cert_key :: "octets \<Rightarrow> octets option"
  key_ok :: "octets \<Rightarrow> bool"
  sig_ok :: "octets \<Rightarrow> sign_alg \<Rightarrow> octets \<Rightarrow> octets \<Rightarrow> bool"
  allowlisted :: "octets \<Rightarrow> bool"

type_synonym audit_call = "audit_event_type \<times> c_chars \<times> u32"

record signing =
  root_hashes :: "octets list"
  root_pubkeys :: "octets list"
  root_count :: nat
  signing_ready :: bool
  sg_audit :: "audit_call list"

definition app_signing_init :: "signing \<Rightarrow> int \<times> signing" where
  "app_signing_init st =
     (0, st\<lparr>root_hashes := replicate MAX_TRUSTED_ROOTS (replicate 32 0), root_pubkeys := replicate MAX_TRUSTED_ROOTS [],
            root_count := 0, signing_ready := True\<rparr>)"

definition signing_audit :: "audit_event_type \<Rightarrow> string \<Rightarrow> u32 \<Rightarrow> signing \<Rightarrow> signing" where
  "signing_audit ty name d st = st\<lparr>sg_audit := sg_audit st @ [(ty, text_chars name, d)]\<rparr>"

section \<open>Hashes\<close>

text \<open>The data reaches the hash in pieces of at most 4096 octets.\<close>

function hash_chunks :: "octets \<Rightarrow> octets \<Rightarrow> octets" where
  "hash_chunks fed p = (if p = [] then fed else (let chunk = min (length p) 4096 in hash_chunks (fed @ take chunk p) (drop chunk p)))"
  by pat_completeness auto
termination by (relation "measure (\<lambda>(fed, p). length p)") auto

declare hash_chunks.simps [simp del]

definition app_compute_hash :: "crypto \<Rightarrow> octets \<Rightarrow> int + octets" where
  "app_compute_hash cr data =
     (if data = [] then Inl (- EINVAL)
      else (case sha256 cr (hash_chunks [] data) of None \<Rightarrow> Inl (- EIO) | Some h \<Rightarrow> Inr h))"

lemma hash_chunks_all: "hash_chunks fed p = fed @ p"
proof (induction fed p rule: hash_chunks.induct)
  case (1 fed p)
  then show ?case by (subst hash_chunks.simps) (simp add: Let_def)
qed

lemma app_compute_hash_eq:
  "app_compute_hash cr data =
     (if data = [] then Inl (- EINVAL) else case sha256 cr data of None \<Rightarrow> Inl (- EIO) | Some h \<Rightarrow> Inr h)"
  by (simp add: app_compute_hash_def hash_chunks_all)

section \<open>Trusted roots\<close>

definition app_is_root_trusted :: "octets \<Rightarrow> signing \<Rightarrow> bool" where
  "app_is_root_trusted h st \<longleftrightarrow> (\<exists>i \<in> set [0..<root_count st]. root_hashes st ! i = h)"

definition app_add_trusted_root :: "crypto \<Rightarrow> cert option \<Rightarrow> signing \<Rightarrow> int \<times> signing" where
  "app_add_trusted_root cr c st =
     (case c of
        None \<Rightarrow> (- EINVAL, st)
      | Some c \<Rightarrow>
          if cert_data c = [] then (- EINVAL, st)
          else if MAX_TRUSTED_ROOTS \<le> root_count st then (- ENOMEM, st)
          else
            (case app_compute_hash cr (cert_data c) of
               Inl e \<Rightarrow> (e, st)
             | Inr h \<Rightarrow>
                 if app_is_root_trusted h st then (0, st)
                 else
                   (let slot = root_count st; st = st\<lparr>root_hashes := (root_hashes st)[slot := h]\<rparr> in
                    case cert_key cr (cert_data c) of
                      None \<Rightarrow> (- EINVAL, st)
                    | Some k \<Rightarrow>
                        if k = [] \<or> MAX_PUBKEY_DER_SIZE < length k then (- EIO, st)
                        else (0, st\<lparr>root_pubkeys := (root_pubkeys st)[slot := k], root_count := slot + 1\<rparr>))))"

definition app_verify_cert_chain :: "crypto \<Rightarrow> cert list \<Rightarrow> signing \<Rightarrow> int" where
  "app_verify_cert_chain cr certs st =
     (if certs = [] then - EINVAL
      else
        (let root = (case List.find is_root certs of Some c \<Rightarrow> c | None \<Rightarrow> last certs) in
         case app_compute_hash cr (cert_data root) of
           Inl e \<Rightarrow> e
         | Inr h \<Rightarrow> if app_is_root_trusted h st then 0 else - EACCES))"

section \<open>Signatures\<close>

text \<open>\<open>dev\<close>: unsigned applications are allowed by the configuration.\<close>

definition app_verify_signature ::
  "crypto \<Rightarrow> bool \<Rightarrow> octets \<Rightarrow> app_signature option \<Rightarrow> signing \<Rightarrow> int \<times> signing" where
  "app_verify_signature cr dev binary sg st =
     (case sg of
        None \<Rightarrow> (- EINVAL, st)
      | Some sg \<Rightarrow>
          if binary = [] then (- EINVAL, st)
          else if \<not> signing_ready st then (- ENODEV, st)
          else if algorithm sg = SIGN_ALG_NONE then
            (if dev then (0, st) else (- EACCES, signing_audit AUDIT_EVENT_SIGNATURE_FAIL ''unsigned'' 0 st))
          else
            (case app_compute_hash cr binary of
               Inl e \<Rightarrow> (e, st)
             | Inr h \<Rightarrow>
                 (case List.find (\<lambda>i. root_hashes st ! i = cert_hash sg) [0..<root_count st] of
                    None \<Rightarrow> (- EACCES, signing_audit AUDIT_EVENT_SIGNATURE_FAIL ''untrusted_cert'' 0 st)
                  | Some slot \<Rightarrow>
                      (let key = root_pubkeys st ! slot in
                       if key = [] then (- EACCES, signing_audit AUDIT_EVENT_SIGNATURE_FAIL ''no_pubkey'' 0 st)
                       else if \<not> key_ok cr key then (- EINVAL, signing_audit AUDIT_EVENT_SIGNATURE_FAIL ''bad_pubkey'' 0 st)
                       else
                         (case algorithm sg of
                            SIGN_ALG_RSA2048_SHA256 \<Rightarrow>
                              (if sig_ok cr key (algorithm sg) h (sig_bytes sg)
                               then (0, signing_audit AUDIT_EVENT_SIGNATURE_OK ''rsa2048'' 0 st)
                               else (- EACCES, signing_audit AUDIT_EVENT_SIGNATURE_FAIL ''rsa2048_bad_sig'' 0 st))
                          | SIGN_ALG_ED25519 \<Rightarrow>
                              (if sig_ok cr key (algorithm sg) h (sig_bytes sg)
                               then (0, signing_audit AUDIT_EVENT_SIGNATURE_OK ''ed25519'' 0 st)
                               else (- EACCES, signing_audit AUDIT_EVENT_SIGNATURE_FAIL ''ed25519_bad_sig'' 0 st))
                          | _ \<Rightarrow> (- EINVAL, st))))))"

section \<open>Integrity\<close>

definition is_wasm_or_aot :: "octets \<Rightarrow> bool" where
  "is_wasm_or_aot data \<longleftrightarrow> take 4 data = [0x00, 0x61, 0x73, 0x6D] \<or> take 4 data = [0x00, 0x61, 0x6F, 0x74]"

definition is_aot :: "octets \<Rightarrow> bool" where
  "is_aot data \<longleftrightarrow> take 4 data = [0x00, 0x61, 0x6F, 0x74]"

text \<open>The position after a size, and the size; a size without an end counts with the octets there are.\<close>

function section_size_loop :: "octets \<Rightarrow> nat \<Rightarrow> nat \<Rightarrow> u32 \<Rightarrow> nat \<times> u32" where
  "section_size_loop data pos leb_bytes v =
     (if pos < length data \<and> leb_bytes < 5 then
        (let b = data ! pos; v' = v OR push_bit (7 * leb_bytes) (ucast (b AND 127)) in
         if b AND 128 = 0 then (pos + 1, v') else section_size_loop data (pos + 1) (leb_bytes + 1) v')
      else (pos, v))"
  by pat_completeness auto
termination by (relation "measure (\<lambda>(data, pos, n, v). 5 - n)") auto

declare section_size_loop.simps [simp del]

text \<open>The walk over the sections: the identifier of a section that leaves the file, or none.\<close>

fun integrity_walk :: "nat \<Rightarrow> octets \<Rightarrow> nat \<Rightarrow> nat \<Rightarrow> u8 option option" where
  "integrity_walk w data 0 pos = None"
| "integrity_walk w data (Suc fuel) pos =
     (if pos < length data then
        (case section_size_loop data (pos + 1) 0 0 of
           (pos', sz) \<Rightarrow>
             (let next_pos = (pos' + unat sz) mod 2 ^ w in
              if length data < next_pos then Some (Some (data ! pos)) else integrity_walk w data fuel next_pos))
      else Some None)"

definition wasm_version :: "octets \<Rightarrow> u32" where
  "wasm_version data =
     ucast (data ! 4) OR push_bit 8 (ucast (data ! 5)) OR push_bit 16 (ucast (data ! 6)) OR push_bit 24 (ucast (data ! 7))"

definition hash_and_allow :: "crypto \<Rightarrow> octets \<Rightarrow> signing \<Rightarrow> (int + octets) \<times> signing" where
  "hash_and_allow cr binary st =
     (case app_compute_hash cr binary of
        Inl e \<Rightarrow> (Inl e, st)
      | Inr h \<Rightarrow>
          if allowlisted cr h then (Inr h, st)
          else (Inl (- EACCES), signing_audit AUDIT_EVENT_SIGNATURE_FAIL ''allowlist_deny'' 0 st))"

text \<open>The outer \<open>None\<close> is a walk that does not end; the result is an error or the hash.\<close>

definition app_verify_wasm_integrity ::
  "crypto \<Rightarrow> nat \<Rightarrow> nat \<Rightarrow> octets \<Rightarrow> signing \<Rightarrow> ((int + octets) \<times> signing) option" where
  "app_verify_wasm_integrity cr w fuel binary st =
     (if length binary < 8 then Some (Inl (- EINVAL), st)
      else if \<not> is_wasm_or_aot binary then
        Some (Inl (- EINVAL), signing_audit AUDIT_EVENT_INTEGRITY_FAIL ''bad_magic'' 0 st)
      else if is_aot binary then Some (hash_and_allow cr binary st)
      else if wasm_version binary \<noteq> 1 then
        Some (Inl (- EINVAL), signing_audit AUDIT_EVENT_INTEGRITY_FAIL ''bad_version'' (wasm_version binary) st)
      else
        (case integrity_walk w binary fuel 8 of
           None \<Rightarrow> None
         | Some (Some n) \<Rightarrow> Some (Inl (- EINVAL), signing_audit AUDIT_EVENT_INTEGRITY_FAIL ''truncated'' (ucast n) st)
         | Some None \<Rightarrow> Some (hash_and_allow cr binary st)))"

section \<open>Only keys of trusted certificates verify\<close>

text \<open>The certificates that are taken, as pairs of hash and key.\<close>

definition accept_root :: "crypto \<Rightarrow> cert \<Rightarrow> (octets \<times> octets) list \<Rightarrow> (octets \<times> octets) list" where
  "accept_root cr c roots =
     (case (sha256 cr (cert_data c), cert_key cr (cert_data c)) of
        (Some h, Some k) \<Rightarrow>
          if cert_data c \<noteq> [] \<and> length roots < 8 \<and> h \<notin> fst ` set roots \<and> k \<noteq> [] \<and> length k \<le> 300
          then roots @ [(h, k)] else roots
      | _ \<Rightarrow> roots)"

definition holds_roots :: "(octets \<times> octets) list \<Rightarrow> signing \<Rightarrow> bool" where
  "holds_roots roots st \<longleftrightarrow>
     signing_ready st \<and> length (root_hashes st) = 8 \<and> length (root_pubkeys st) = 8 \<and> root_count st = length roots \<and>
     length roots \<le> 8 \<and> (\<forall>i < length roots. root_hashes st ! i = fst (roots ! i) \<and> root_pubkeys st ! i = snd (roots ! i)) \<and>
     (\<forall>(h, k) \<in> set roots. k \<noteq> [])"

lemma trusted_iff:
  assumes "holds_roots roots st"
  shows "app_is_root_trusted h st \<longleftrightarrow> h \<in> fst ` set roots"
proof -
  have "h \<in> fst ` set roots \<longleftrightarrow> (\<exists>i < length roots. fst (roots ! i) = h)"
    unfolding set_map [symmetric] in_set_conv_nth by auto
  then show ?thesis using assms by (auto simp: app_is_root_trusted_def holds_roots_def)
qed

lemma add_root_holds:
  assumes "holds_roots roots st"
  shows "holds_roots (accept_root cr c roots) (snd (app_add_trusted_root cr (Some c) st))"
proof -
  have n: "root_count st = length roots" "length roots \<le> 8" using assms by (simp_all add: holds_roots_def)
  show ?thesis
  proof (cases "sha256 cr (cert_data c)")
    case None
    then show ?thesis using assms
      by (simp add: accept_root_def app_add_trusted_root_def app_compute_hash_eq MAX_TRUSTED_ROOTS_def)
  next
    case (Some h)
    have t: "app_is_root_trusted h st \<longleftrightarrow> h \<in> fst ` set roots" by (rule trusted_iff [OF assms])
    show ?thesis
    proof (cases "cert_data c = [] \<or> 8 \<le> length roots \<or> h \<in> fst ` set roots")
      case True
      then show ?thesis using assms Some t n
        by (auto simp: accept_root_def app_add_trusted_root_def app_compute_hash_eq MAX_TRUSTED_ROOTS_def split: option.splits)
    next
      case False
      then show ?thesis using assms Some t n
        by (auto simp: accept_root_def app_add_trusted_root_def app_compute_hash_eq MAX_TRUSTED_ROOTS_def Let_def
            holds_roots_def nth_append MAX_PUBKEY_DER_SIZE_def less_Suc_eq split: option.splits)
    qed
  qed
qed

definition trusting :: "crypto \<Rightarrow> cert list \<Rightarrow> signing \<Rightarrow> signing" where
  "trusting cr cs st = fold (\<lambda>c st. snd (app_add_trusted_root cr (Some c) st)) cs (snd (app_signing_init st))"

lemma trusting_holds: "holds_roots (fold (accept_root cr) cs []) (trusting cr cs st0)"
proof -
  have "holds_roots roots st \<Longrightarrow>
      holds_roots (fold (accept_root cr) cs roots) (fold (\<lambda>c st. snd (app_add_trusted_root cr (Some c) st)) cs st)" for roots st
    by (induction cs arbitrary: roots st) (simp_all add: add_root_holds)
  moreover have "holds_roots [] (snd (app_signing_init st0))"
    by (simp add: holds_roots_def app_signing_init_def MAX_TRUSTED_ROOTS_def)
  ultimately show ?thesis by (simp add: trusting_def)
qed

lemma accepted_from_cert:
  "(h, k) \<in> set (fold (accept_root cr) cs []) \<Longrightarrow>
     \<exists>c \<in> set cs. sha256 cr (cert_data c) = Some h \<and> cert_key cr (cert_data c) = Some k"
proof -
  have "(h, k) \<in> set (fold (accept_root cr) cs roots) \<Longrightarrow> (h, k) \<notin> set roots \<Longrightarrow>
     \<exists>c \<in> set cs. sha256 cr (cert_data c) = Some h \<and> cert_key cr (cert_data c) = Some k" for roots
  proof (induction cs arbitrary: roots)
    case (Cons c cs)
    show ?case
    proof (cases "(h, k) \<in> set (accept_root cr c roots)")
      case True
      then show ?thesis using Cons.prems(2) by (auto simp: accept_root_def split: option.splits if_splits)
    qed (use Cons in auto)
  qed simp
  then show "(h, k) \<in> set (fold (accept_root cr) cs []) \<Longrightarrow> ?thesis" by auto
qed

lemma accepted_distinct: "distinct (map fst (fold (accept_root cr) cs []))"
proof -
  have "distinct (map fst roots) \<Longrightarrow> distinct (map fst (fold (accept_root cr) cs roots))" for roots
    by (induction cs arbitrary: roots) (simp_all add: accept_root_def split: option.splits)
  then show ?thesis by simp
qed


text \<open>
  Of a chain only one certificate is looked at: the others can be any, and no signature between them is
  checked.
\<close>

lemma cert_chain_ignores_leaves:
  assumes "is_root root"
  shows "app_verify_cert_chain cr (leaves @ [root]) st = app_verify_cert_chain cr [root] st \<or> (\<exists>c \<in> set leaves. is_root c)"
proof (cases "\<exists>c \<in> set leaves. is_root c")
  case False
  then have "List.find is_root (leaves @ [root]) = Some root"
    using assms by (induction leaves) auto
  then show ?thesis using assms by (simp add: app_verify_cert_chain_def)
qed simp

section \<open>Integrity of well-formed modules\<close>

lemma section_size_leb:
  "leb128_loop p (length p) i v = In_bounds (k, x) \<Longrightarrow> 0 < k \<Longrightarrow>
     section_size_loop (pre @ p) (length pre + i) i v = (length pre + k, x)"
proof (induction p "length p" i v rule: leb128_loop.induct)
  case (1 p i v)
  show ?case
  proof (cases "i < length p \<and> i < 5")
    case True
    show ?thesis
    proof (cases "p ! i AND 128 = 0")
      case True
      then show ?thesis using "1.prems" \<open>i < length p \<and> i < 5\<close>
        by (auto simp: leb128_loop.simps [of p "length p" i] section_size_loop.simps [of "pre @ p"] Let_def)
    next
      case False
      then show ?thesis using "1.hyps" [OF True _ refl refl] "1.prems" True
        by (auto simp: leb128_loop.simps [of p "length p" i v] section_size_loop.simps [of "pre @ p" "length pre + i"] Let_def)
    qed
  qed (use "1.prems" in \<open>auto simp: leb128_loop.simps [of p "length p" i]\<close>)
qed

lemma section_size_text:
  assumes "n < 2 ^ 32"
  shows "section_size_loop (pre @ leb_text n @ r) (length pre) 0 0 = (length pre + length (leb_text n), of_nat n)"
  using section_size_leb [of "leb_text n @ r" 0 0 "length (leb_text n)" "of_nat n" pre] leb_text_pos [of n]
    read_leb_text [of n "length (leb_text n @ r)" r] assms by (simp add: read_leb128_u32_def)

lemma integrity_walk_sections:
  assumes "\<forall>s \<in> set ss. length (section_body s) < 2 ^ 32" and "length ss < fuel"
    and "length (pre @ concat (map section_text ss)) < 2 ^ w"
  shows "integrity_walk w (pre @ concat (map section_text ss)) fuel (length pre) = Some None"
  using assms
proof (induction ss arbitrary: pre fuel)
  case Nil
  then show ?case by (cases fuel) simp_all
next
  case (Cons s ss)
  obtain f where f: "fuel = Suc f" using Cons.prems(2) by (cases fuel) auto
  let ?b = "section_body s" and ?rest = "concat (map section_text ss)"
  have n: "length ?b < 2 ^ 32" using Cons.prems(1) by simp
  let ?pre = "pre @ [section_id s]"
  have d: "pre @ concat (map section_text (s # ss)) = ?pre @ leb_text (length ?b) @ (?b @ ?rest)"
    by (simp add: section_text_def)
  have sz: "section_size_loop (pre @ concat (map section_text (s # ss))) (length pre + 1) 0 0
      = (length pre + 1 + length (leb_text (length ?b)), of_nat (length ?b))"
    using section_size_text [OF n, of ?pre "?b @ ?rest"] unfolding d by simp
  have u: "unat (of_nat (length ?b) :: u32) = length ?b" using n by (simp add: unat_of_nat take_bit_nat_eq_self)
  have next_pos: "(length pre + 1 + length (leb_text (length ?b)) + length ?b) mod 2 ^ w = length (pre @ section_text s)"
    using Cons.prems(3) by (simp add: section_text_def)
  have "integrity_walk w ((pre @ section_text s) @ ?rest) f (length (pre @ section_text s)) = Some None"
    using Cons.prems f by (intro Cons.IH) simp_all
  moreover have "length pre < length (pre @ concat (map section_text (s # ss)))" by (simp add: section_text_def)
  ultimately show ?case unfolding f integrity_walk.simps sz prod.case u next_pos Let_def by simp
qed

text \<open>On a 32-bit target the same 14 octets keep this walk busy for ever.\<close>

lemma endless_integrity_walk: "integrity_walk 32 endless_module fuel 8 = None"
proof -
  have "section_size_loop endless_module 9 0 0 = (14, 0xFFFFFFFA)" by code_simp
  moreover have "length endless_module = 14" by (simp add: endless_module_def)
  ultimately show ?thesis by (induction fuel) (simp_all add: Let_def)
qed

end
