(* ===== verification/Akira_Runtime.thy ===== *)
theory Akira_Runtime
  imports App_Signing Runtime_Cache
begin

text \<open>
  The runtime of WebAssembly applications (\<open>src/src/runtime/akira_runtime.c\<close>): the slots, loading,
  starting, stopping and destroying an application, and the thread that runs it.

  The engine (WAMR), the kernel and the allocator are outside: what a call returns is an argument, and
  \<open>engine\<close> records what the code holds of them: the buffers, the modules with the buffer each was loaded
  from, the instances with the module of each. \<open>misuse\<close> becomes true when something is used or given
  back that the code does not hold, or given back while something built on it is still held.
  A blocking call is two operations, what it does before it waits and what it does after; \<open>pending\<close> is
  the call in progress. The thread of a slot runs in four pieces, with its state in \<open>ap_thread\<close>.
\<close>

unbundle bit_operations_syntax

section \<open>Types and state\<close>

definition AKIRA_MAX_WASM_INSTANCES :: nat where "AKIRA_MAX_WASM_INSTANCES = 8"
definition CHUNK_BUFFER_SIZE :: nat where "CHUNK_BUFFER_SIZE = 16 * 1024"

datatype app_status =
    AKIRA_APP_STATUS_CREATED | AKIRA_APP_STATUS_RUNNING | AKIRA_APP_STATUS_EXITED | AKIRA_APP_STATUS_STOPPED
  | AKIRA_APP_STATUS_ERROR

datatype thread_state = No_thread | Created | Running u64 | Exiting | Signalled

record perf_stats =
  exec_time_us :: u64
  call_count :: u32
  trap_count :: u32
  last_exec_start_ms :: int
  peak_memory :: u32

record managed_app =
  ap_used :: bool
  ap_name :: c_chars
  ap_module :: "nat option"
  ap_instance :: "u64 option"
  ap_exec_env :: bool
  ap_status :: app_status
  ap_exit_code :: int
  ap_tid :: bool
  ap_cap_mask :: u32
  ap_memory_quota :: u32
  ap_memory_used :: int
  ap_sandbox :: sandbox_ctx
  ap_trust :: nat
  ap_perf :: perf_stats
  ap_hash :: octets
  ap_hash_valid :: bool
  ap_binary :: "nat option"
  ap_thread :: thread_state

record engine =
  live_buffers :: "nat set"
  live_modules :: "(nat \<times> nat) set"
  live_instances :: "(u64 \<times> nat) set"
  custom_data :: "u64 \<Rightarrow> nat option"
  misuse :: bool

datatype pending_call = Idle | Starting nat | Stopping nat | Destroying nat

record runtime =
  g_apps :: "managed_app list"
  g_ready :: bool
  g_stacks :: "bool list"
  g_exit_cb :: bool
  rt_cache :: module_cache
  rt_imap :: instance_map
  rt_signing :: signing
  rt_engine :: engine
  rt_audit :: "audit_call list"
  rt_ipc_cleanups :: "c_chars list"
  rt_callbacks :: "(nat \<times> int) list"
  pending :: pending_call

definition no_perf :: perf_stats where
  "no_perf = \<lparr>exec_time_us = 0, call_count = 0, trap_count = 0, last_exec_start_ms = 0, peak_memory = 0\<rparr>"

text \<open>The sandbox of a zeroed slot.\<close>

definition no_sandbox :: sandbox_ctx where
  "no_sandbox =
     \<lparr>allowed_syscalls = 0, trust_level = 0,
      rate_buckets = replicate SANDBOX_NUM_RATE_BUCKETS \<lparr>tokens = 0, max_tokens = 0, refill_per_sec = 0, last_refill_ms = 0\<rparr>,
      exec_timeout_ms = 0, exec_start_ms = 0, exec_active = False, total_syscalls = 0, denied_syscalls = 0,
      rate_limited_count = 0, watchdog_kills = 0, ctx_initialized = False\<rparr>"

definition no_app :: managed_app where
  "no_app =
     \<lparr>ap_used = False, ap_name = [], ap_module = None, ap_instance = None, ap_exec_env = False,
      ap_status = AKIRA_APP_STATUS_CREATED, ap_exit_code = 0, ap_tid = False, ap_cap_mask = 0, ap_memory_quota = 0,
      ap_memory_used = 0, ap_sandbox = no_sandbox, ap_trust = 0, ap_perf = no_perf, ap_hash = replicate 32 0,
      ap_hash_valid = False, ap_binary = None, ap_thread = No_thread\<rparr>"

definition set_app :: "nat \<Rightarrow> (managed_app \<Rightarrow> managed_app) \<Rightarrow> runtime \<Rightarrow> runtime" where
  "set_app i f rt = rt\<lparr>g_apps := (g_apps rt)[i := f (g_apps rt ! i)]\<rparr>"

definition audit_call :: "audit_event_type \<Rightarrow> c_chars \<Rightarrow> u32 \<Rightarrow> runtime \<Rightarrow> runtime" where
  "audit_call ty name d rt = rt\<lparr>rt_audit := rt_audit rt @ [(ty, name, d)]\<rparr>"

definition perf_exec_begin :: "nat \<Rightarrow> perf_stats \<Rightarrow> perf_stats" where
  "perf_exec_begin now p = p\<lparr>last_exec_start_ms := int now\<rparr>"

definition perf_exec_end :: "nat \<Rightarrow> perf_stats \<Rightarrow> perf_stats" where
  "perf_exec_end now p =
     (if 0 < last_exec_start_ms p
      then p\<lparr>exec_time_us := exec_time_us p + word_of_int ((int now - last_exec_start_ms p) * 1000),
             call_count := call_count p + 1, last_exec_start_ms := 0\<rparr>
      else p)"

section \<open>What the code holds of the engine\<close>

definition buffer_alloc :: "nat \<Rightarrow> engine \<Rightarrow> engine" where
  "buffer_alloc b e = e\<lparr>live_buffers := insert b (live_buffers e)\<rparr>"

definition buffer_free :: "nat \<Rightarrow> engine \<Rightarrow> engine" where
  "buffer_free b e =
     e\<lparr>live_buffers := live_buffers e - {b}, misuse := misuse e \<or> b \<notin> live_buffers e \<or> b \<in> snd ` live_modules e\<rparr>"

definition module_load :: "nat \<Rightarrow> nat \<Rightarrow> engine \<Rightarrow> engine" where
  "module_load m b e = e\<lparr>live_modules := insert (m, b) (live_modules e), misuse := misuse e \<or> b \<notin> live_buffers e\<rparr>"

definition module_unload :: "nat \<Rightarrow> engine \<Rightarrow> engine" where
  "module_unload m e =
     e\<lparr>live_modules := {p \<in> live_modules e. fst p \<noteq> m},
       misuse := misuse e \<or> m \<notin> fst ` live_modules e \<or> m \<in> snd ` live_instances e\<rparr>"

text \<open>Instantiating needs a module; a failed call holds nothing afterwards.\<close>

definition module_used :: "nat option \<Rightarrow> engine \<Rightarrow> engine" where
  "module_used m e = e\<lparr>misuse := misuse e \<or> (case m of None \<Rightarrow> True | Some m \<Rightarrow> m \<notin> fst ` live_modules e)\<rparr>"

definition instantiate_module :: "nat \<Rightarrow> u64 \<Rightarrow> engine \<Rightarrow> engine" where
  "instantiate_module m x e = e\<lparr>live_instances := insert (x, m) (live_instances e)\<rparr>"

definition deinstantiate :: "u64 \<Rightarrow> engine \<Rightarrow> engine" where
  "deinstantiate x e =
     e\<lparr>live_instances := {p \<in> live_instances e. fst p \<noteq> x}, misuse := misuse e \<or> x \<notin> fst ` live_instances e\<rparr>"

definition on_engine :: "(engine \<Rightarrow> engine) \<Rightarrow> runtime \<Rightarrow> runtime" where
  "on_engine f rt = rt\<lparr>rt_engine := f (rt_engine rt)\<rparr>"

section \<open>Lookups\<close>

definition app_at :: "runtime \<Rightarrow> nat \<Rightarrow> managed_app" where
  "app_at rt i = g_apps rt ! i"

definition slot_valid :: "runtime \<Rightarrow> int \<Rightarrow> bool" where
  "slot_valid rt i \<longleftrightarrow> 0 \<le> i \<and> i < int AKIRA_MAX_WASM_INSTANCES \<and> ap_used (app_at rt (nat i))"

definition slot_of_instance :: "runtime \<Rightarrow> u64 \<Rightarrow> nat option" where
  "slot_of_instance rt x =
     List.find (\<lambda>i. ap_used (app_at rt i) \<and> ap_instance (app_at rt i) = Some x) [0..<AKIRA_MAX_WASM_INSTANCES]"

text \<open>A null instance is 0.\<close>

definition akira_runtime_get_cap_mask_for_module_inst :: "runtime \<Rightarrow> u64 \<Rightarrow> u32" where
  "akira_runtime_get_cap_mask_for_module_inst rt inst =
     (if inst = 0 then 0
      else
        (case custom_data (rt_engine rt) inst of
           Some i \<Rightarrow> ap_cap_mask (app_at rt i)
         | None \<Rightarrow>
             (let slot = instance_map_get inst (rt_imap rt) in
              if 0 \<le> slot then ap_cap_mask (app_at rt (nat slot)) else 0)))"

definition akira_runtime_get_name_for_module_inst :: "runtime \<Rightarrow> u64 \<Rightarrow> octets \<Rightarrow> int \<times> octets" where
  "akira_runtime_get_name_for_module_inst rt inst buf =
     (if inst = 0 \<or> buf = [] then (- EINVAL, buf)
      else
        (case slot_of_instance rt inst of
           Some i \<Rightarrow> (0, copied_name buf (ap_name (app_at rt i)) (length buf))
         | None \<Rightarrow> (- ENOENT, buf)))"

definition get_slot_for_module_inst :: "runtime \<Rightarrow> u64 \<Rightarrow> int \<times> runtime" where
  "get_slot_for_module_inst rt inst =
     (if inst = 0 then (- 1, rt)
      else
        (let slot = instance_map_get inst (rt_imap rt) in
         if 0 \<le> slot then (slot, rt)
         else
           (case slot_of_instance rt inst of
              Some i \<Rightarrow> (int i, rt\<lparr>rt_imap := snd (instance_map_put inst (int i) (rt_imap rt))\<rparr>)
            | None \<Rightarrow> (- 1, rt))))"

definition akira_runtime_get_memory_used :: "runtime \<Rightarrow> int \<Rightarrow> u32" where
  "akira_runtime_get_memory_used rt i = (if slot_valid rt i then word_of_int (ap_memory_used (app_at rt (nat i))) else 0)"

definition akira_runtime_get_memory_quota :: "runtime \<Rightarrow> int \<Rightarrow> u32" where
  "akira_runtime_get_memory_quota rt i = (if slot_valid rt i then ap_memory_quota (app_at rt (nat i)) else 0)"

definition akira_runtime_get_sandbox :: "runtime \<Rightarrow> int \<Rightarrow> sandbox_ctx option" where
  "akira_runtime_get_sandbox rt i = (if slot_valid rt i then Some (ap_sandbox (app_at rt (nat i))) else None)"

definition akira_runtime_get_perf_stats :: "runtime \<Rightarrow> int \<Rightarrow> perf_stats option" where
  "akira_runtime_get_perf_stats rt i = (if slot_valid rt i then Some (ap_perf (app_at rt (nat i))) else None)"

definition akira_runtime_get_cache_stats :: "runtime \<Rightarrow> cache_stats" where
  "akira_runtime_get_cache_stats rt = module_cache_get_stats (rt_cache rt)"

definition akira_runtime_set_exit_callback :: "bool \<Rightarrow> runtime \<Rightarrow> runtime" where
  "akira_runtime_set_exit_callback cb rt = rt\<lparr>g_exit_cb := cb\<rparr>"

section \<open>Initialisation\<close>

definition wasm_stacks_early_alloc :: "bool list \<Rightarrow> runtime \<Rightarrow> runtime" where
  "wasm_stacks_early_alloc ok rt = rt\<lparr>g_stacks := take AKIRA_MAX_WASM_INSTANCES ok\<rparr>"

text \<open>
  \<open>engine_ok\<close>, \<open>apis_ok\<close>: the engine starts, the native functions are registered. The instance map is set
  up and the directory of applications is made by other components.
\<close>

definition akira_runtime_init :: "bool \<Rightarrow> bool \<Rightarrow> runtime \<Rightarrow> int \<times> runtime" where
  "akira_runtime_init engine_ok apis_ok rt =
     (if g_ready rt then (0, rt)
      else
        (let rt = rt\<lparr>g_ready := True, rt_cache := module_cache_init (unloaded (rt_cache rt)),
               rt_imap := instance_map_init, rt_signing := snd (app_signing_init (rt_signing rt))\<rparr> in
         if \<not> engine_ok then (- ENODEV, rt)
         else if \<not> apis_ok then (- EIO, rt)
         else (0, rt)))"

section \<open>Loading\<close>

record load_env =
  probe :: bool
  psram :: bool
  staged :: "nat option"
  owned :: "nat option"
  loaded_module :: "nat option"

text \<open>
  \<open>snprintf\<close> with one \<open>int\<close> argument: the conversions \<open>%d\<close> and \<open>%%\<close>; any other is outside the model.
\<close>

fun format_int :: "int option \<Rightarrow> c_chars \<Rightarrow> c_chars option" where
  "format_int arg [] = Some []"
| "format_int arg (c # s) =
     (if c \<noteq> 37 then map_option (Cons c) (format_int arg s)
      else
        (case s of
           [] \<Rightarrow> None
         | d # t \<Rightarrow>
             if d = 37 then map_option (Cons 37) (format_int arg t)
             else
               (case arg of
                  None \<Rightarrow> None
                | Some i \<Rightarrow> if d = 100 \<and> 0 \<le> i \<and> i < 10 then map_option (Cons (word_of_int (48 + i))) (format_int None t) else None)))"

text \<open>The copy to external memory goes in pieces; the rest of \<open>dst\<close> from \<open>offset\<close> on is not yet written.\<close>

function stage_chunks :: "octets \<Rightarrow> octets \<Rightarrow> nat \<Rightarrow> octets" where
  "stage_chunks dst src offset =
     (if offset < length src then
        (let chunk_len = min CHUNK_BUFFER_SIZE (length src - offset) in
         stage_chunks (take offset dst @ take chunk_len (drop offset src) @ drop (offset + chunk_len) dst) src (offset + chunk_len))
      else dst)"
  by pat_completeness auto
termination by (relation "measure (\<lambda>(dst, src, offset). length src - offset)") (auto simp: CHUNK_BUFFER_SIZE_def)

declare stage_chunks.simps [simp del]

definition copy_buffer :: "load_env \<Rightarrow> nat \<Rightarrow> nat option" where
  "copy_buffer env n =
     (if CHUNK_BUFFER_SIZE < n \<and> psram env then (case staged env of Some b \<Rightarrow> Some b | None \<Rightarrow> owned env) else owned env)"

definition free_slot :: "managed_app list \<Rightarrow> nat option" where
  "free_slot apps = List.find (\<lambda>i. \<not> ap_used (apps ! i)) [0..<AKIRA_MAX_WASM_INSTANCES]"

definition loaded_app :: "nat \<Rightarrow> nat \<Rightarrow> nat \<Rightarrow> octets \<Rightarrow> akira_manifest \<Rightarrow> c_chars \<Rightarrow> managed_app \<Rightarrow> managed_app" where
  "loaded_app now m b h mf name a =
     a\<lparr>ap_module := Some m, ap_binary := Some b, ap_status := AKIRA_APP_STATUS_CREATED, ap_exit_code := 0, ap_tid := False,
       ap_cap_mask := (if mf_valid mf then mf_cap_mask mf else 0),
       ap_memory_quota := (if mf_valid mf then memory_quota mf else 0), ap_memory_used := 0, ap_hash := h,
       ap_hash_valid := True, ap_trust := TRUST_LEVEL_USER, ap_name := take 31 name,
       ap_sandbox := sandbox_ctx_init now TRUST_LEVEL_USER (if mf_valid mf then mf_cap_mask mf else 0), ap_perf := no_perf\<rparr>"

text \<open>
  \<open>None\<close> when the call does not return or its effect is not defined: a search of the sections that does
  not end or leaves the buffer, a name that is no format for one number.
\<close>

definition akira_runtime_load_wasm ::
  "crypto \<Rightarrow> nat \<Rightarrow> nat \<Rightarrow> nat \<Rightarrow> nat \<Rightarrow> load_env \<Rightarrow> octets \<Rightarrow> runtime \<Rightarrow> (int \<times> runtime) option" where
  "akira_runtime_load_wasm cr w fuel now later env buffer rt =
     (if \<not> g_ready rt then Some (- ENODEV, rt)
      else if length buffer < 8 \<or> take 4 buffer \<notin> {0 # text_chars ''asm'', 0 # text_chars ''aot''} then Some (- EINVAL, rt)
      else
        (case free_slot (g_apps rt) of
           None \<Rightarrow> Some (- ENOMEM, rt)
         | Some slot \<Rightarrow>
             (let rt = set_app slot (\<lambda>a. a\<lparr>ap_used := True\<rparr>) rt;
                  release = set_app slot (\<lambda>a. a\<lparr>ap_used := False\<rparr>) in
              case app_verify_wasm_integrity cr w fuel buffer (rt_signing rt) of
                None \<Rightarrow> None
              | Some (Inl e, sg) \<Rightarrow>
                  Some (e, release (audit_call AUDIT_EVENT_INTEGRITY_FAIL (text_chars ''load'') (of_nat (length buffer))
                    (rt\<lparr>rt_signing := sg\<rparr>)))
              | Some (Inr h, sg) \<Rightarrow>
                  (let rt = rt\<lparr>rt_signing := sg\<rparr> in
                   case manifest_parse_wasm_section w fuel (Some buffer) manifest_init_defaults of
                     Some (In_bounds (ret, mf)) \<Rightarrow>
                       if \<not> probe env then Some (- ENOMEM, release rt)
                       else
                         (case copy_buffer env (length buffer) of
                            None \<Rightarrow> Some (- ENOMEM, release rt)
                          | Some b \<Rightarrow>
                              (let rt = on_engine (buffer_alloc b) rt in
                               case loaded_module env of
                                 None \<Rightarrow> Some (- EIO, release (on_engine (buffer_free b) rt))
                               | Some m \<Rightarrow>
                                   (case format_int (Some (int slot))
                                       (if mf_valid mf \<and> mf_name mf \<noteq> [] then mf_name mf else text_chars ''app%d'') of
                                      None \<Rightarrow> None
                                    | Some name \<Rightarrow>
                                        (let rt = on_engine (module_load m b) rt;
                                             rt = set_app slot (loaded_app now m b h mf name) rt;
                                             rt = rt\<lparr>rt_cache := snd (module_cache_store later (Some h) m (of_nat (length buffer))
                                               (of_nat (later - now)) (rt_cache rt))\<rparr> in
                                         Some (int slot,
                                           audit_call AUDIT_EVENT_APP_LOADED (take 31 name) (of_nat (length buffer)) rt)))))
                   | _ \<Rightarrow> None))))"

section \<open>The thread of an application\<close>

datatype instantiation_outcome = No_instance | No_env u64 | Instance u64

definition start_failed :: "int \<Rightarrow> managed_app \<Rightarrow> managed_app" where
  "start_failed code a = a\<lparr>ap_exit_code := code, ap_status := AKIRA_APP_STATUS_ERROR, ap_thread := Exiting\<rparr>"

text \<open>From the entry to the start of the execution; the waiting start call is released.\<close>

definition thread_instantiate :: "nat \<Rightarrow> nat \<Rightarrow> instantiation_outcome \<Rightarrow> runtime \<Rightarrow> runtime" where
  "thread_instantiate now i out rt =
     (let rt = on_engine (module_used (ap_module (app_at rt i))) rt in
      case out of
        No_instance \<Rightarrow> set_app i (start_failed (- EIO)) rt
      | No_env x \<Rightarrow>
          set_app i (start_failed (- ENOMEM))
            (on_engine (\<lambda>e. deinstantiate x (instantiate_module (the (ap_module (app_at rt i))) x e)) rt)
      | Instance x \<Rightarrow>
          (let rt = on_engine (instantiate_module (the (ap_module (app_at rt i))) x) rt;
               rt = on_engine (\<lambda>e. e\<lparr>custom_data := (custom_data e)(x := Some i)\<rparr>) rt;
               rt = rt\<lparr>rt_imap := snd (instance_map_put x (int i) (rt_imap rt))\<rparr> in
           set_app i (\<lambda>a. a\<lparr>ap_instance := Some x, ap_exec_env := True, ap_sandbox := sandbox_exec_begin now (ap_sandbox a),
             ap_perf := perf_exec_begin now (ap_perf a), ap_thread := Running x\<rparr>) rt))"

datatype main_outcome = Ran | No_entry_point | Trapped | Failed_silently

definition main_exit_code :: "main_outcome \<Rightarrow> int" where
  "main_exit_code out = (if out = Trapped then - EIO else 0)"

definition thread_finish :: "nat \<Rightarrow> nat \<Rightarrow> main_outcome \<Rightarrow> runtime \<Rightarrow> runtime" where
  "thread_finish now i out rt =
     (case ap_thread (app_at rt i) of
        Running inst \<Rightarrow>
          (let rt = set_app i (\<lambda>a. a\<lparr>ap_perf := perf_exec_end now
                      (if out = Trapped then (ap_perf a)\<lparr>trap_count := trap_count (ap_perf a) + 1\<rparr> else ap_perf a),
                    ap_exec_env := False\<rparr>) rt;
               rt = rt\<lparr>rt_imap := instance_map_remove inst (rt_imap rt)\<rparr>;
               rt = on_engine (deinstantiate inst) rt;
               rt = set_app i (\<lambda>a. a\<lparr>ap_instance := None, ap_memory_used := 0, ap_sandbox := sandbox_exec_end (ap_sandbox a),
                      ap_exit_code := main_exit_code out, ap_thread := Exiting\<rparr>) rt;
               rt = audit_call AUDIT_EVENT_APP_STOPPED (ap_name (app_at rt i)) (of_nat i) rt in
           rt\<lparr>rt_ipc_cleanups := rt_ipc_cleanups rt @ [ap_name (app_at rt i)]\<rparr>)
      | _ \<Rightarrow> rt)"

definition thread_signal :: "nat \<Rightarrow> runtime \<Rightarrow> runtime" where
  "thread_signal i rt =
     set_app i (\<lambda>a. a\<lparr>ap_status := (if ap_status a = AKIRA_APP_STATUS_ERROR then AKIRA_APP_STATUS_ERROR else AKIRA_APP_STATUS_EXITED),
       ap_thread := Signalled\<rparr>) rt"

definition unload_module :: "nat \<Rightarrow> runtime \<Rightarrow> runtime" where
  "unload_module i rt =
     (case ap_module (app_at rt i) of
        None \<Rightarrow> rt
      | Some m \<Rightarrow> set_app i (\<lambda>a. a\<lparr>ap_module := None\<rparr>) (on_engine (module_unload m) rt))"

definition free_binary :: "nat \<Rightarrow> runtime \<Rightarrow> runtime" where
  "free_binary i rt =
     (case ap_binary (app_at rt i) of
        None \<Rightarrow> rt
      | Some b \<Rightarrow> set_app i (\<lambda>a. a\<lparr>ap_binary := None\<rparr>) (on_engine (buffer_free b) rt))"

definition drop_instance :: "nat \<Rightarrow> runtime \<Rightarrow> runtime" where
  "drop_instance i rt =
     (case ap_instance (app_at rt i) of
        None \<Rightarrow> rt
      | Some x \<Rightarrow> set_app i (\<lambda>a. a\<lparr>ap_instance := None\<rparr>)
          (on_engine (deinstantiate x) (rt\<lparr>rt_imap := instance_map_remove x (rt_imap rt)\<rparr>)))"

definition cache_drop :: "nat \<Rightarrow> runtime \<Rightarrow> runtime" where
  "cache_drop i rt =
     (if ap_hash_valid (app_at rt i) then
        (let h = Some (ap_hash (app_at rt i)) in
         set_app i (\<lambda>a. a\<lparr>ap_hash_valid := False\<rparr>)
           (rt\<lparr>rt_cache := module_cache_invalidate h (module_cache_release h (rt_cache rt))\<rparr>))
      else rt)"

definition thread_release :: "nat \<Rightarrow> runtime \<Rightarrow> runtime" where
  "thread_release i rt =
     (let rt = cache_drop i (free_binary i (unload_module i rt));
          rt = set_app i (\<lambda>a. a\<lparr>ap_name := [], ap_tid := False, ap_used := False, ap_thread := No_thread\<rparr>) rt in
      if g_exit_cb rt then rt\<lparr>rt_callbacks := rt_callbacks rt @ [(i, ap_exit_code (app_at rt i))]\<rparr> else rt)"

section \<open>Starting\<close>

text \<open>
  The first part returns a value, or \<open>None\<close> when it waits for the thread. A join of the last thread of
  the slot is the caller's to wait for: the second part of the call begins when that thread is gone.
\<close>

definition start_begin :: "bool \<Rightarrow> int \<Rightarrow> runtime \<Rightarrow> int option \<times> runtime" where
  "start_begin thread_ok instance_id rt =
     (if \<not> slot_valid rt instance_id then (Some (- EINVAL), rt)
      else
        (let i = nat instance_id in
         if ap_status (app_at rt i) = AKIRA_APP_STATUS_RUNNING then (Some 0, rt)
         else
           (let rt = (if ap_tid (app_at rt i) then set_app i (\<lambda>a. a\<lparr>ap_tid := False\<rparr>) rt else rt) in
            if \<not> g_stacks rt ! i then (Some (- ENOMEM), rt)
            else
              (let rt = set_app i (\<lambda>a. a\<lparr>ap_exit_code := 0, ap_tid := thread_ok\<rparr>) rt in
               if \<not> thread_ok then (Some (- ENOMEM), rt)
               else (None, set_app i (\<lambda>a. a\<lparr>ap_thread := Created\<rparr>) (rt\<lparr>pending := Starting i\<rparr>))))))"

definition start_timeout :: "nat \<Rightarrow> runtime \<Rightarrow> int \<times> runtime" where
  "start_timeout i rt =
     (- ETIMEDOUT, set_app i (\<lambda>a. a\<lparr>ap_tid := False, ap_used := False, ap_thread := No_thread\<rparr>) (rt\<lparr>pending := Idle\<rparr>))"

definition start_end :: "nat \<Rightarrow> runtime \<Rightarrow> int \<times> runtime" where
  "start_end i rt =
     (let rt = rt\<lparr>pending := Idle\<rparr> in
      if ap_status (app_at rt i) = AKIRA_APP_STATUS_ERROR then (- EIO, set_app i (\<lambda>a. a\<lparr>ap_tid := False\<rparr>) rt)
      else
        (let rt = set_app i (\<lambda>a. a\<lparr>ap_status := AKIRA_APP_STATUS_RUNNING\<rparr>) rt in
         (0, audit_call AUDIT_EVENT_APP_STARTED (ap_name (app_at rt i)) (of_nat i) rt)))"

section \<open>Stopping and destroying\<close>

definition stop_begin :: "int \<Rightarrow> runtime \<Rightarrow> int option \<times> runtime" where
  "stop_begin instance_id rt =
     (if \<not> slot_valid rt instance_id then (Some (- EINVAL), rt)
      else
        (let i = nat instance_id in
         if ap_status (app_at rt i) \<in> {AKIRA_APP_STATUS_STOPPED, AKIRA_APP_STATUS_CREATED} then (Some 0, rt)
         else (None, rt\<lparr>pending := Stopping i\<rparr>)))"

text \<open>After the wait, which ended with the thread's signal or, \<open>timed_out\<close>, without it.\<close>

definition stop_abort :: "nat \<Rightarrow> runtime \<Rightarrow> runtime" where
  "stop_abort i rt =
     (let rt = set_app i (\<lambda>a. a\<lparr>ap_tid := False, ap_exec_env := False, ap_thread := No_thread\<rparr>) rt;
          rt = cache_drop i (unload_module i (drop_instance i rt)) in
      set_app i (\<lambda>a. a\<lparr>ap_memory_used := 0\<rparr>) rt)"

definition stop_end :: "bool \<Rightarrow> nat \<Rightarrow> runtime \<Rightarrow> int \<times> runtime" where
  "stop_end timed_out i rt =
     (let rt = rt\<lparr>pending := Idle\<rparr>;
          rt = (if timed_out \<and> ap_status (app_at rt i) = AKIRA_APP_STATUS_RUNNING then stop_abort i rt else rt);
          rt = set_app i (\<lambda>a. a\<lparr>ap_status := AKIRA_APP_STATUS_STOPPED, ap_tid := False\<rparr>) rt in
      (0, audit_call AUDIT_EVENT_APP_STOPPED (ap_name (app_at rt i)) (of_nat i) rt))"

definition cleared_app :: "managed_app \<Rightarrow> managed_app" where
  "cleared_app a =
     a\<lparr>ap_used := False, ap_status := AKIRA_APP_STATUS_STOPPED, ap_exit_code := 0, ap_tid := False, ap_cap_mask := 0,
       ap_hash_valid := False, ap_name := [], ap_sandbox := no_sandbox, ap_perf := no_perf\<rparr>"

text \<open>What is left of destroying a slot after a stop that was needed; the validity is not looked at again.\<close>

definition destroy_rest :: "nat \<Rightarrow> runtime \<Rightarrow> int \<times> runtime" where
  "destroy_rest i rt =
     (let rt = set_app i (\<lambda>a. a\<lparr>ap_exec_env := False\<rparr>) rt;
          rt = drop_instance i rt;
          h = Some (ap_hash (app_at rt i)); v = ap_hash_valid (app_at rt i);
          rt = (if v then rt\<lparr>rt_cache := module_cache_release h (rt_cache rt)\<rparr> else rt);
          rt = unload_module i rt;
          rt = (if v then rt\<lparr>rt_cache := module_cache_invalidate h (rt_cache rt)\<rparr> else rt);
          rt = free_binary i rt in
      (0, set_app i cleared_app rt))"

definition destroy_begin :: "int \<Rightarrow> runtime \<Rightarrow> int option \<times> runtime" where
  "destroy_begin instance_id rt =
     (if \<not> slot_valid rt instance_id then (Some (- EINVAL), rt)
      else
        (let i = nat instance_id in
         if ap_status (app_at rt i) \<in> {AKIRA_APP_STATUS_RUNNING, AKIRA_APP_STATUS_EXITED}
         then (None, rt\<lparr>pending := Destroying i\<rparr>)
         else (case destroy_rest i rt of (r, rt) \<Rightarrow> (Some r, rt))))"

definition destroy_end :: "bool \<Rightarrow> nat \<Rightarrow> runtime \<Rightarrow> int \<times> runtime" where
  "destroy_end timed_out i rt = destroy_rest i (snd (stop_end timed_out i rt))"

section \<open>Installing with a manifest\<close>

text \<open>The file beside the application is written only when one is there already.\<close>

definition akira_runtime_install_with_manifest ::
  "crypto \<Rightarrow> nat \<Rightarrow> nat \<Rightarrow> nat \<Rightarrow> nat \<Rightarrow> load_env \<Rightarrow> c_chars \<Rightarrow> octets \<Rightarrow> octets option \<Rightarrow> runtime \<Rightarrow>
     (int \<times> runtime) option" where
  "akira_runtime_install_with_manifest cr w fuel now later env app_name binary manifest_json rt =
     (if binary = [] then Some (- EINVAL, rt)
      else
        (case manifest_parse_with_fallback w fuel (Some binary) manifest_json of
           Some (In_bounds (ret, mf)) \<Rightarrow>
             (case akira_runtime_load_wasm cr w fuel now later env binary rt of
                None \<Rightarrow> None
              | Some (r, rt) \<Rightarrow>
                  if r < 0 then Some (r, rt)
                  else
                    (let rt = (if mf_valid mf \<and> mf_cap_mask mf \<noteq> 0
                         then set_app (nat r) (\<lambda>a. a\<lparr>ap_cap_mask := ap_cap_mask a OR mf_cap_mask mf,
                                ap_memory_quota := (if 0 < memory_quota mf then memory_quota mf else ap_memory_quota a)\<rparr>) rt
                         else rt) in
                     Some (r, set_app (nat r) (\<lambda>a. a\<lparr>ap_name := take 31 app_name\<rparr>) rt)))
         | _ \<Rightarrow> None))"

definition akira_runtime_install ::
  "crypto \<Rightarrow> nat \<Rightarrow> nat \<Rightarrow> nat \<Rightarrow> nat \<Rightarrow> load_env \<Rightarrow> c_chars \<Rightarrow> octets \<Rightarrow> runtime \<Rightarrow> (int \<times> runtime) option" where
  "akira_runtime_install cr w fuel now later env app_name binary rt =
     akira_runtime_install_with_manifest cr w fuel now later env app_name binary None rt"

definition akira_runtime_verify_binary ::
  "crypto \<Rightarrow> nat \<Rightarrow> nat \<Rightarrow> octets \<Rightarrow> runtime \<Rightarrow> ((int + octets) \<times> runtime) option" where
  "akira_runtime_verify_binary cr w fuel binary rt =
     map_option (\<lambda>(r, sg). (r, rt\<lparr>rt_signing := sg\<rparr>)) (app_verify_wasm_integrity cr w fuel binary (rt_signing rt))"

section \<open>Uninstalling\<close>

text \<open>A stop, then a destruction, both as far as they go; after the stop the destruction does not wait.\<close>

definition uninstall_begin :: "c_chars option \<Rightarrow> int \<Rightarrow> runtime \<Rightarrow> int option \<times> runtime" where
  "uninstall_begin app_name instance_id rt =
     (if app_name = None then (Some (- EINVAL), rt)
      else if instance_id < 0 then (Some 0, rt)
      else
        (case stop_begin instance_id rt of
           (None, rt) \<Rightarrow> (None, rt)
         | (Some _, rt) \<Rightarrow> (Some 0, snd (destroy_begin instance_id rt))))"

definition uninstall_end :: "bool \<Rightarrow> nat \<Rightarrow> runtime \<Rightarrow> int \<times> runtime" where
  "uninstall_end timed_out i rt = (0, snd (destroy_begin (int i) (snd (stop_end timed_out i rt))))"

end
