(* ===== verification/Runtime_Ownership.thy ===== *)
theory Runtime_Ownership
  imports Akira_Runtime
begin

text \<open>
  What the slots of the runtime hold of the engine. \<open>owns\<close> relates buffers, modules and instances to
  the slots, \<open>threads_ok\<close> the slots to their threads; each operation of \<open>Akira_Runtime\<close> keeps them.
\<close>

section \<open>What the engine may return\<close>

definition fresh_for :: "load_env \<Rightarrow> octets \<Rightarrow> engine \<Rightarrow> bool" where
  "fresh_for env buffer e \<longleftrightarrow>
     (\<forall>b. copy_buffer env (length buffer) = Some b \<longrightarrow> b \<notin> live_buffers e) \<and>
     (\<forall>m. loaded_module env = Some m \<longrightarrow> m \<noteq> 0 \<and> m \<notin> fst ` live_modules e)"

definition fresh_instance :: "instantiation_outcome \<Rightarrow> engine \<Rightarrow> bool" where
  "fresh_instance out e \<longleftrightarrow>
     (case out of No_instance \<Rightarrow> True | No_env x \<Rightarrow> x \<noteq> 0 \<and> x \<notin> fst ` live_instances e
      | Instance x \<Rightarrow> x \<noteq> 0 \<and> x \<notin> fst ` live_instances e)"

text \<open>How the wait of a stop ends: after its time with the application still running, or when the thread is gone.\<close>

definition stop_waited :: "bool \<Rightarrow> managed_app \<Rightarrow> bool" where
  "stop_waited timed_out a \<longleftrightarrow>
     (if timed_out \<and> ap_status a = AKIRA_APP_STATUS_RUNNING then True
      else ap_status a \<noteq> AKIRA_APP_STATUS_RUNNING \<and> ap_thread a = No_thread)"

section \<open>What the slots hold\<close>

text \<open>The modules, binaries and instances of the slots as functions of the slot.\<close>

definition held_pairs :: "(nat \<Rightarrow> u64 option) \<Rightarrow> (nat \<Rightarrow> nat option) \<Rightarrow> (u64 \<times> nat) set" where
  "held_pairs I M = {(x, m). \<exists>i < 8. I i = Some x \<and> M i = Some m}"

definition owns :: "engine \<Rightarrow> (nat \<Rightarrow> nat option) \<Rightarrow> (nat \<Rightarrow> nat option) \<Rightarrow> (nat \<Rightarrow> u64 option) \<Rightarrow> bool" where
  "owns e M B I \<longleftrightarrow>
     \<not> misuse e \<and>
     (\<forall>i < 8. \<forall>m. M i = Some m \<longrightarrow> (\<exists>b. B i = Some b \<and> (m, b) \<in> live_modules e)) \<and>
     (\<forall>i < 8. \<forall>b. B i = Some b \<longrightarrow> b \<in> live_buffers e) \<and>
     (\<forall>i < 8. \<forall>j < 8. \<forall>b. B i = Some b \<longrightarrow> B j = Some b \<longrightarrow> i = j) \<and>
     (\<forall>i < 8. \<forall>m b. B i = Some b \<longrightarrow> (m, b) \<in> live_modules e \<longrightarrow> M i = Some m) \<and>
     (\<forall>m b. (m, b) \<in> live_modules e \<longrightarrow> b \<in> live_buffers e) \<and>
     (\<forall>m b b'. (m, b) \<in> live_modules e \<longrightarrow> (m, b') \<in> live_modules e \<longrightarrow> b = b') \<and>
     (\<forall>i < 8. \<forall>j < 8. \<forall>x. I i = Some x \<longrightarrow> I j = Some x \<longrightarrow> i = j) \<and>
     (\<forall>i < 8. I i \<noteq> None \<longrightarrow> M i \<noteq> None) \<and>
     live_instances e = held_pairs I M"

lemma ownsD:
  assumes "owns e M B I"
  shows "\<not> misuse e"
    and "i < 8 \<Longrightarrow> M i = Some m \<Longrightarrow> \<exists>b. B i = Some b \<and> (m, b) \<in> live_modules e"
    and "i < 8 \<Longrightarrow> B i = Some b \<Longrightarrow> b \<in> live_buffers e"
    and "i < 8 \<Longrightarrow> j < 8 \<Longrightarrow> B i = Some b \<Longrightarrow> B j = Some b \<Longrightarrow> i = j"
    and "i < 8 \<Longrightarrow> B i = Some b \<Longrightarrow> (m, b) \<in> live_modules e \<Longrightarrow> M i = Some m"
    and "(m, b) \<in> live_modules e \<Longrightarrow> b \<in> live_buffers e"
    and "(m, b) \<in> live_modules e \<Longrightarrow> (m, b') \<in> live_modules e \<Longrightarrow> b = b'"
    and "i < 8 \<Longrightarrow> j < 8 \<Longrightarrow> I i = Some x \<Longrightarrow> I j = Some x \<Longrightarrow> i = j"
    and "i < 8 \<Longrightarrow> I i \<noteq> None \<Longrightarrow> M i \<noteq> None"
    and "live_instances e = held_pairs I M"
proof -
  note o = assms [unfolded owns_def]
  show "\<not> misuse e" using o by simp
  show "i < 8 \<Longrightarrow> M i = Some m \<Longrightarrow> \<exists>b. B i = Some b \<and> (m, b) \<in> live_modules e" using o by simp
  show "i < 8 \<Longrightarrow> B i = Some b \<Longrightarrow> b \<in> live_buffers e" using o by simp
  show "i < 8 \<Longrightarrow> j < 8 \<Longrightarrow> B i = Some b \<Longrightarrow> B j = Some b \<Longrightarrow> i = j" using o by blast
  show "i < 8 \<Longrightarrow> B i = Some b \<Longrightarrow> (m, b) \<in> live_modules e \<Longrightarrow> M i = Some m" using o by simp
  show "(m, b) \<in> live_modules e \<Longrightarrow> b \<in> live_buffers e" using o by blast
  show "(m, b) \<in> live_modules e \<Longrightarrow> (m, b') \<in> live_modules e \<Longrightarrow> b = b'" using o by blast
  show "i < 8 \<Longrightarrow> j < 8 \<Longrightarrow> I i = Some x \<Longrightarrow> I j = Some x \<Longrightarrow> i = j" using o by blast
  show "i < 8 \<Longrightarrow> I i \<noteq> None \<Longrightarrow> M i \<noteq> None" using o by simp
  show "live_instances e = held_pairs I M" using o by simp
qed

lemma owns_module_unique:
  assumes "owns e M B I" and "i < 8" and "j < 8" and "M i = Some m" and "M j = Some m"
  shows "i = j"
proof -
  obtain b b' where b: "B i = Some b" "(m, b) \<in> live_modules e" "B j = Some b'" "(m, b') \<in> live_modules e"
    using ownsD(2) [OF assms(1)] assms(2-5) by meson
  then have "b = b'" using ownsD(7) [OF assms(1)] by blast
  then show ?thesis using ownsD(4) [OF assms(1-3)] b by blast
qed

lemma owns_custom: "owns e M B I \<Longrightarrow> owns (e\<lparr>custom_data := f\<rparr>) M B I"
  by (simp add: owns_def)

lemma owns_alloc_free:
  assumes "owns e M B I" and "b \<notin> live_buffers e"
  shows "buffer_free b (buffer_alloc b e) = e"
proof -
  have "b \<notin> snd ` live_modules e" using ownsD(6) [OF assms(1)] assms(2) by force
  then show ?thesis using assms(2) by (cases e) (auto simp: buffer_free_def buffer_alloc_def)
qed

lemma pairs_add: "i < 8 \<Longrightarrow> I i = None \<Longrightarrow> held_pairs (I(i := Some x)) (M(i := Some m)) = insert (x, m) (held_pairs I M)"
  by (auto simp: held_pairs_def split: if_splits) (metis option.distinct(1))

lemma pairs_none:
  assumes "I i = None"
  shows "held_pairs I (M(i := v)) = held_pairs I M"
proof -
  have "(I k = Some x \<and> (M(i := v)) k = Some m) = (I k = Some x \<and> M k = Some m)" for k x m
    using assms by (cases "k = i") auto
  then show ?thesis by (simp only: held_pairs_def)
qed

lemma pairs_remove:
  assumes "i < 8" and "I i = Some x" and "\<forall>j < 8. I j = Some x \<longrightarrow> j = i"
  shows "held_pairs (I(i := None)) M = {p \<in> held_pairs I M. fst p \<noteq> x}"
proof -
  have "(k < 8 \<and> (I(i := None)) k = Some y \<and> M k = Some m) = (k < 8 \<and> I k = Some y \<and> M k = Some m \<and> y \<noteq> x)" for k y m
  proof (cases "k = i")
    case False
    then have "\<not> (k < 8 \<and> I k = Some x)" using assms(3) by blast
    then show ?thesis using False by auto
  qed (use assms(2) in auto)
  then show ?thesis by (auto simp: held_pairs_def simp del: fun_upd_apply)
qed

lemma owns_load:
  assumes o: "owns e M B I" and "i < 8" and b: "b \<notin> live_buffers e" and m: "m \<notin> fst ` live_modules e" and I: "I i = None"
  shows "owns (module_load m b (buffer_alloc b e)) (M(i := Some m)) (B(i := Some b)) I"
proof -
  have nm: "(m, b') \<notin> live_modules e" for b' using m by force
  have nb: "(m', b) \<notin> live_modules e" for m' using b ownsD(6) [OF o] by blast
  have nB: "B j \<noteq> Some b" if "j < 8" for j using b ownsD(3) [OF o] that by blast
  let ?e = "module_load m b (buffer_alloc b e)"
  have live: "live_modules ?e = insert (m, b) (live_modules e)" "live_buffers ?e = insert b (live_buffers e)"
    "live_instances ?e = live_instances e" "misuse ?e = misuse e"
    by (simp_all add: module_load_def buffer_alloc_def)
  show ?thesis
    unfolding owns_def live pairs_none [of I i, OF I]
  proof (intro conjI)
    show "\<forall>k < 8. \<forall>m'. (M(i := Some m)) k = Some m' \<longrightarrow>
        (\<exists>b'. (B(i := Some b)) k = Some b' \<and> (m', b') \<in> insert (m, b) (live_modules e))"
    proof (intro allI impI)
      fix k m' assume "k < 8" "(M(i := Some m)) k = Some m'"
      then show "\<exists>b'. (B(i := Some b)) k = Some b' \<and> (m', b') \<in> insert (m, b) (live_modules e)"
        using ownsD(2) [OF o, of k m'] by (cases "k = i") auto
    qed
    show "\<forall>k < 8. \<forall>m' b'. (B(i := Some b)) k = Some b' \<longrightarrow> (m', b') \<in> insert (m, b) (live_modules e) \<longrightarrow> (M(i := Some m)) k = Some m'"
      using ownsD(5) [OF o] nb nB by (auto split: if_splits)
    show "\<forall>k < 8. I k \<noteq> None \<longrightarrow> (M(i := Some m)) k \<noteq> None" using ownsD(9) [OF o] by auto
    show "\<forall>m' b' b''. (m', b') \<in> insert (m, b) (live_modules e) \<longrightarrow> (m', b'') \<in> insert (m, b) (live_modules e) \<longrightarrow> b' = b''"
      using ownsD(7) [OF o] nm by auto
    show "\<forall>k < 8. \<forall>j < 8. \<forall>b'. (B(i := Some b)) k = Some b' \<longrightarrow> (B(i := Some b)) j = Some b' \<longrightarrow> k = j"
      using ownsD(4) [OF o] nB by (auto split: if_splits)
  qed (use ownsD [OF o] in \<open>auto split: if_splits\<close>)
qed

lemma owns_instantiate:
  assumes o: "owns e M B I" and i: "i < 8" and m: "M i = Some m" and x: "x \<notin> fst ` live_instances e" and I: "I i = None"
  shows "owns (instantiate_module m x e) M B (I(i := Some x))"
proof -
  have nx: "I j \<noteq> Some x" if j: "j < 8" for j
  proof
    assume a: "I j = Some x"
    then obtain m' where "M j = Some m'" using ownsD(9) [OF o, of j] j a by auto
    then have "(x, m') \<in> live_instances e" using a j by (auto simp: ownsD(10) [OF o] held_pairs_def)
    then show False using x by force
  qed
  have p: "held_pairs (I(i := Some x)) M = insert (x, m) (held_pairs I M)"
    using pairs_add [of i I x M m] i I m by (simp add: fun_upd_idem)
  let ?e = "instantiate_module m x e"
  have live: "live_modules ?e = live_modules e" "live_buffers ?e = live_buffers e"
    "live_instances ?e = insert (x, m) (live_instances e)" "misuse ?e = misuse e"
    by (simp_all add: instantiate_module_def)
  show ?thesis
    unfolding owns_def live p
  proof (intro conjI)
    show "\<forall>k < 8. \<forall>j < 8. \<forall>y. (I(i := Some x)) k = Some y \<longrightarrow> (I(i := Some x)) j = Some y \<longrightarrow> k = j"
      using ownsD(8) [OF o] nx by (auto split: if_splits)
    show "\<forall>k < 8. (I(i := Some x)) k \<noteq> None \<longrightarrow> M k \<noteq> None" using ownsD(9) [OF o] m by auto
    show "insert (x, m) (live_instances e) = insert (x, m) (held_pairs I M)" by (simp add: ownsD(10) [OF o])
  qed (use o in \<open>simp_all add: owns_def\<close>)
qed

lemma owns_no_env:
  assumes "owns e M B I" and "x \<notin> fst ` live_instances e"
  shows "owns (deinstantiate x (instantiate_module m x e)) M B I"
proof -
  have "{p \<in> insert (x, m) (live_instances e). fst p \<noteq> x} = live_instances e" using assms(2) by force
  then show ?thesis using assms(1) by (simp add: owns_def deinstantiate_def instantiate_module_def)
qed

lemma owns_deinstantiate:
  assumes o: "owns e M B I" and i: "i < 8" and x: "I i = Some x"
  shows "owns (deinstantiate x e) M B (I(i := None))"
proof -
  obtain m where m: "M i = Some m" using ownsD(9) [OF o, of i] i x by auto
  have held: "x \<in> fst ` live_instances e" using i x m by (force simp: ownsD(10) [OF o] held_pairs_def)
  have one: "\<forall>j < 8. I j = Some x \<longrightarrow> j = i" using ownsD(8) [OF o, of _ i x] i x by blast
  let ?e = "deinstantiate x e"
  have live: "live_modules ?e = live_modules e" "live_buffers ?e = live_buffers e"
    "live_instances ?e = {p \<in> live_instances e. fst p \<noteq> x}" "misuse ?e = misuse e"
    using held by (simp_all add: deinstantiate_def)
  show ?thesis
    unfolding owns_def live pairs_remove [OF i x one]
  proof (intro conjI)
    show "\<forall>k < 8. \<forall>j < 8. \<forall>y. (I(i := None)) k = Some y \<longrightarrow> (I(i := None)) j = Some y \<longrightarrow> k = j"
      using ownsD(8) [OF o] by (auto split: if_splits)
    show "\<forall>k < 8. (I(i := None)) k \<noteq> None \<longrightarrow> M k \<noteq> None" using ownsD(9) [OF o] by auto
    show "{p \<in> live_instances e. fst p \<noteq> x} = {p \<in> held_pairs I M. fst p \<noteq> x}" by (simp add: ownsD(10) [OF o])
  qed (use o in \<open>simp_all add: owns_def\<close>)
qed

lemma owns_unload:
  assumes o: "owns e M B I" and i: "i < 8" and m: "M i = Some m" and I: "I i = None"
  shows "owns (module_unload m e) (M(i := None)) B I"
proof -
  have held: "m \<in> fst ` live_modules e" using ownsD(2) [OF o i m] by force
  have one: "j = i" if "j < 8" "M j = Some m" for j using owns_module_unique [OF o that(1) i that(2) m] .
  have none: "m \<notin> snd ` live_instances e" using one I by (auto simp: ownsD(10) [OF o] held_pairs_def)
  let ?e = "module_unload m e"
  have live: "live_modules ?e = {p \<in> live_modules e. fst p \<noteq> m}" "live_buffers ?e = live_buffers e"
    "live_instances ?e = live_instances e" "misuse ?e = misuse e"
    using held none by (simp_all add: module_unload_def)
  show ?thesis
    unfolding owns_def live pairs_none [of I i, OF I]
  proof (intro conjI)
    show "\<forall>k < 8. \<forall>m'. (M(i := None)) k = Some m' \<longrightarrow> (\<exists>b. B k = Some b \<and> (m', b) \<in> {p \<in> live_modules e. fst p \<noteq> m})"
    proof (intro allI impI)
      fix k m' assume k: "k < 8" "(M(i := None)) k = Some m'"
      then have "M k = Some m'" "k \<noteq> i" by (auto split: if_splits)
      then have "m' \<noteq> m" using one k(1) by blast
      then show "\<exists>b. B k = Some b \<and> (m', b) \<in> {p \<in> live_modules e. fst p \<noteq> m}"
        using ownsD(2) [OF o k(1) \<open>M k = Some m'\<close>] by simp
    qed
    show "\<forall>k < 8. \<forall>m' b. B k = Some b \<longrightarrow> (m', b) \<in> {p \<in> live_modules e. fst p \<noteq> m} \<longrightarrow> (M(i := None)) k = Some m'"
      using ownsD(5) [OF o] m by (auto split: if_splits)
    show "\<forall>k < 8. I k \<noteq> None \<longrightarrow> (M(i := None)) k \<noteq> None" using ownsD(9) [OF o] I by auto
    show "live_instances e = held_pairs I M" by (rule ownsD(10) [OF o])
    show "\<forall>m' b b'. (m', b) \<in> {p \<in> live_modules e. fst p \<noteq> m} \<longrightarrow> (m', b') \<in> {p \<in> live_modules e. fst p \<noteq> m} \<longrightarrow> b = b'"
      using ownsD(7) [OF o] by auto
    show "\<forall>m' b. (m', b) \<in> {p \<in> live_modules e. fst p \<noteq> m} \<longrightarrow> b \<in> live_buffers e" using ownsD(6) [OF o] by auto
  qed (use o in \<open>simp_all add: owns_def\<close>)
qed

lemma owns_free:
  assumes o: "owns e M B I" and i: "i < 8" and b: "B i = Some b" and M: "M i = None"
  shows "owns (buffer_free b e) M (B(i := None)) I"
proof -
  have none: "(m, b) \<notin> live_modules e" for m using ownsD(5) [OF o i b] M by force
  have one: "j = i" if "j < 8" "B j = Some b" for j using ownsD(4) [OF o that(1) i that(2) b] .
  let ?e = "buffer_free b e"
  have live: "live_modules ?e = live_modules e" "live_buffers ?e = live_buffers e - {b}"
    "live_instances ?e = live_instances e" "misuse ?e = misuse e"
    using none ownsD(3) [OF o i b] by (auto simp: buffer_free_def)
  show ?thesis
    unfolding owns_def live
  proof (intro conjI)
    show "\<forall>k < 8. \<forall>m. M k = Some m \<longrightarrow> (\<exists>b'. (B(i := None)) k = Some b' \<and> (m, b') \<in> live_modules e)"
      using ownsD(2) [OF o] M by auto
    show "\<forall>k < 8. \<forall>b'. (B(i := None)) k = Some b' \<longrightarrow> b' \<in> live_buffers e - {b}"
      using ownsD(3) [OF o] one by (auto split: if_splits)
    show "\<forall>k < 8. \<forall>j < 8. \<forall>b'. (B(i := None)) k = Some b' \<longrightarrow> (B(i := None)) j = Some b' \<longrightarrow> k = j"
      using ownsD(4) [OF o] by (auto split: if_splits)
    show "\<forall>k < 8. \<forall>m b'. (B(i := None)) k = Some b' \<longrightarrow> (m, b') \<in> live_modules e \<longrightarrow> M k = Some m"
      using ownsD(5) [OF o] by (auto split: if_splits)
    show "\<forall>m b'. (m, b') \<in> live_modules e \<longrightarrow> b' \<in> live_buffers e - {b}" using ownsD(6) [OF o] none by auto
  qed (use o in \<open>simp_all add: owns_def\<close>)
qed

section \<open>Slots and threads\<close>

definition rt_owns :: "runtime \<Rightarrow> bool" where
  "rt_owns rt \<longleftrightarrow> length (g_apps rt) = 8 \<and>
     owns (rt_engine rt) (\<lambda>i. ap_module (app_at rt i)) (\<lambda>i. ap_binary (app_at rt i)) (\<lambda>i. ap_instance (app_at rt i))"

definition slot_ok :: "pending_call \<Rightarrow> nat \<Rightarrow> managed_app \<Rightarrow> bool" where
  "slot_ok p i a \<longleftrightarrow>
     (\<forall>x. ap_instance a = Some x \<longleftrightarrow> ap_thread a = Running x) \<and>
     (ap_thread a \<noteq> No_thread \<longrightarrow>
        ap_used a \<and>
        (ap_status a \<in> {AKIRA_APP_STATUS_RUNNING, AKIRA_APP_STATUS_EXITED, AKIRA_APP_STATUS_ERROR} \<or> p = Starting i)) \<and>
     (ap_thread a = Created \<longrightarrow> ap_module a \<noteq> None \<and> p = Starting i) \<and>
     (ap_used a \<and> ap_thread a = No_thread \<longrightarrow>
        ap_status a \<in> {AKIRA_APP_STATUS_CREATED, AKIRA_APP_STATUS_STOPPED} \<and> p \<noteq> Starting i) \<and>
     (ap_used a \<and> ap_status a = AKIRA_APP_STATUS_ERROR \<longrightarrow> p = Starting i)"

definition threads_ok :: "runtime \<Rightarrow> bool" where
  "threads_ok rt \<longleftrightarrow>
     length (g_apps rt) = 8 \<and> (\<forall>i < 8. slot_ok (pending rt) i (app_at rt i)) \<and>
     (\<forall>i. pending rt \<in> {Starting i, Stopping i, Destroying i} \<longrightarrow> i < 8)"

named_theorems rt_simps

lemma app_at_set_app [rt_simps]:
  "app_at (set_app i f rt) = (if i < length (g_apps rt) then (app_at rt)(i := f (app_at rt i)) else app_at rt)"
  by (auto simp: app_at_def set_app_def fun_eq_iff list_update_beyond nth_list_update)

lemma set_app_simps [rt_simps]:
  "length (g_apps (set_app i f rt)) = length (g_apps rt)" "rt_engine (set_app i f rt) = rt_engine rt"
  "pending (set_app i f rt) = pending rt" "rt_cache (set_app i f rt) = rt_cache rt" "rt_imap (set_app i f rt) = rt_imap rt"
  "g_exit_cb (set_app i f rt) = g_exit_cb rt" "rt_audit (set_app i f rt) = rt_audit rt" "g_stacks (set_app i f rt) = g_stacks rt"
  by (simp_all add: set_app_def)

lemma on_engine_simps [rt_simps]:
  "app_at (on_engine f rt) = app_at rt" "length (g_apps (on_engine f rt)) = length (g_apps rt)"
  "rt_engine (on_engine f rt) = f (rt_engine rt)" "pending (on_engine f rt) = pending rt"
  "rt_cache (on_engine f rt) = rt_cache rt" "rt_imap (on_engine f rt) = rt_imap rt" "g_exit_cb (on_engine f rt) = g_exit_cb rt"
  by (simp_all add: on_engine_def app_at_def fun_eq_iff)

lemma audit_call_simps [rt_simps]:
  "app_at (audit_call t n d rt) = app_at rt" "length (g_apps (audit_call t n d rt)) = length (g_apps rt)"
  "rt_engine (audit_call t n d rt) = rt_engine rt" "pending (audit_call t n d rt) = pending rt"
  "rt_cache (audit_call t n d rt) = rt_cache rt" "rt_imap (audit_call t n d rt) = rt_imap rt"
  by (simp_all add: audit_call_def app_at_def fun_eq_iff)

lemma field_simps_rt [rt_simps]:
  "app_at (rt\<lparr>rt_cache := c\<rparr>) = app_at rt" "app_at (rt\<lparr>rt_imap := m\<rparr>) = app_at rt" "app_at (rt\<lparr>pending := p\<rparr>) = app_at rt"
  "app_at (rt\<lparr>rt_signing := sg\<rparr>) = app_at rt" "app_at (rt\<lparr>rt_ipc_cleanups := l\<rparr>) = app_at rt" "app_at (rt\<lparr>rt_callbacks := k\<rparr>) = app_at rt"
  by (simp_all add: app_at_def fun_eq_iff)

text \<open>A change of a slot that keeps what it holds.\<close>

lemma rt_owns_set_app:
  assumes "rt_owns rt" and "ap_module (f (app_at rt i)) = ap_module (app_at rt i)"
    and "ap_binary (f (app_at rt i)) = ap_binary (app_at rt i)" and "ap_instance (f (app_at rt i)) = ap_instance (app_at rt i)"
  shows "rt_owns (set_app i f rt)"
proof -
  have "(\<lambda>j. ap_module (app_at (set_app i f rt) j)) = (\<lambda>j. ap_module (app_at rt j))"
    "(\<lambda>j. ap_binary (app_at (set_app i f rt) j)) = (\<lambda>j. ap_binary (app_at rt j))"
    "(\<lambda>j. ap_instance (app_at (set_app i f rt) j)) = (\<lambda>j. ap_instance (app_at rt j))"
    using assms(2-4) by (auto simp: rt_simps fun_eq_iff)
  then show ?thesis using assms(1) unfolding rt_owns_def by (simp add: rt_simps)
qed

lemma rt_owns_simps [simp]:
  "rt_owns (audit_call t n d rt) = rt_owns rt" "rt_owns (rt\<lparr>rt_cache := c\<rparr>) = rt_owns rt" "rt_owns (rt\<lparr>rt_imap := m\<rparr>) = rt_owns rt"
  "rt_owns (rt\<lparr>pending := p\<rparr>) = rt_owns rt" "rt_owns (rt\<lparr>rt_signing := sg\<rparr>) = rt_owns rt"
  "rt_owns (rt\<lparr>rt_ipc_cleanups := l\<rparr>) = rt_owns rt" "rt_owns (rt\<lparr>rt_callbacks := k\<rparr>) = rt_owns rt"
  by (simp_all add: rt_owns_def rt_simps)

lemma upd_fields:
  assumes "length (g_apps rt) = 8" and "i < 8"
  shows "(\<lambda>j. ap_module (app_at (set_app i f rt) j)) = (\<lambda>j. ap_module (app_at rt j))(i := ap_module (f (app_at rt i)))"
    and "(\<lambda>j. ap_binary (app_at (set_app i f rt) j)) = (\<lambda>j. ap_binary (app_at rt j))(i := ap_binary (f (app_at rt i)))"
    and "(\<lambda>j. ap_instance (app_at (set_app i f rt) j)) = (\<lambda>j. ap_instance (app_at rt j))(i := ap_instance (f (app_at rt i)))"
  using assms by (simp_all add: rt_simps fun_eq_iff)

section \<open>The pieces\<close>

lemma unload_module_simps [rt_simps]:
  assumes "i < length (g_apps rt)"
  shows "app_at (unload_module i rt) = (app_at rt)(i := (app_at rt i)\<lparr>ap_module := None\<rparr>)"
    and "length (g_apps (unload_module i rt)) = length (g_apps rt)" and "pending (unload_module i rt) = pending rt"
    and "rt_cache (unload_module i rt) = rt_cache rt" and "rt_imap (unload_module i rt) = rt_imap rt"
    and "g_exit_cb (unload_module i rt) = g_exit_cb rt"
  using assms by (auto simp: unload_module_def rt_simps fun_eq_iff split: option.splits)

lemma free_binary_simps [rt_simps]:
  assumes "i < length (g_apps rt)"
  shows "app_at (free_binary i rt) = (app_at rt)(i := (app_at rt i)\<lparr>ap_binary := None\<rparr>)"
    and "length (g_apps (free_binary i rt)) = length (g_apps rt)" and "pending (free_binary i rt) = pending rt"
    and "rt_cache (free_binary i rt) = rt_cache rt" and "rt_imap (free_binary i rt) = rt_imap rt"
    and "g_exit_cb (free_binary i rt) = g_exit_cb rt"
  using assms by (auto simp: free_binary_def rt_simps fun_eq_iff split: option.splits)

lemma drop_instance_simps [rt_simps]:
  assumes "i < length (g_apps rt)"
  shows "app_at (drop_instance i rt) = (app_at rt)(i := (app_at rt i)\<lparr>ap_instance := None\<rparr>)"
    and "length (g_apps (drop_instance i rt)) = length (g_apps rt)" and "pending (drop_instance i rt) = pending rt"
    and "rt_cache (drop_instance i rt) = rt_cache rt" and "g_exit_cb (drop_instance i rt) = g_exit_cb rt"
  using assms by (auto simp: drop_instance_def rt_simps fun_eq_iff split: option.splits)

lemma cache_drop_simps [rt_simps]:
  assumes "i < length (g_apps rt)"
  shows "app_at (cache_drop i rt) = (app_at rt)(i := (app_at rt i)\<lparr>ap_hash_valid := False\<rparr>)"
    and "length (g_apps (cache_drop i rt)) = length (g_apps rt)" and "pending (cache_drop i rt) = pending rt"
    and "rt_engine (cache_drop i rt) = rt_engine rt" and "rt_imap (cache_drop i rt) = rt_imap rt"
    and "g_exit_cb (cache_drop i rt) = g_exit_cb rt"
  using assms by (auto simp: cache_drop_def Let_def rt_simps fun_eq_iff)

lemma rt_ownsI:
  assumes "length (g_apps rt) = 8" and "owns (rt_engine rt) M B I"
    and "\<And>j. ap_module (app_at rt j) = M j" and "\<And>j. ap_binary (app_at rt j) = B j" and "\<And>j. ap_instance (app_at rt j) = I j"
  shows "rt_owns rt"
  using assms by (simp add: rt_owns_def)

lemma rt_ownsD:
  assumes "rt_owns rt"
  shows "length (g_apps rt) = 8"
    and "owns (rt_engine rt) (\<lambda>i. ap_module (app_at rt i)) (\<lambda>i. ap_binary (app_at rt i)) (\<lambda>i. ap_instance (app_at rt i))"
  using assms by (simp_all add: rt_owns_def)

lemma rt_owns_unload:
  assumes o: "rt_owns rt" and i: "i < 8" and I: "ap_instance (app_at rt i) = None"
  shows "rt_owns (unload_module i rt)"
proof (cases "ap_module (app_at rt i)")
  case (Some m)
  note l = rt_ownsD(1) [OF o]
  show ?thesis
  proof (rule rt_ownsI)
    show "owns (rt_engine (unload_module i rt)) ((\<lambda>j. ap_module (app_at rt j))(i := None)) (\<lambda>j. ap_binary (app_at rt j))
        (\<lambda>j. ap_instance (app_at rt j))"
      using owns_unload [OF rt_ownsD(2) [OF o] i, of m] I Some by (simp add: unload_module_def rt_simps)
  qed (use l i in \<open>simp_all add: rt_simps\<close>)
qed (use o in \<open>simp add: unload_module_def\<close>)

lemma rt_owns_free:
  assumes o: "rt_owns rt" and i: "i < 8" and M: "ap_module (app_at rt i) = None"
  shows "rt_owns (free_binary i rt)"
proof (cases "ap_binary (app_at rt i)")
  case (Some b)
  note l = rt_ownsD(1) [OF o]
  show ?thesis
  proof (rule rt_ownsI)
    show "owns (rt_engine (free_binary i rt)) (\<lambda>j. ap_module (app_at rt j)) ((\<lambda>j. ap_binary (app_at rt j))(i := None))
        (\<lambda>j. ap_instance (app_at rt j))"
      using owns_free [OF rt_ownsD(2) [OF o] i, of b] M Some by (simp add: free_binary_def rt_simps)
  qed (use l i in \<open>simp_all add: rt_simps\<close>)
qed (use o in \<open>simp add: free_binary_def\<close>)

lemma rt_owns_drop_instance:
  assumes o: "rt_owns rt" and i: "i < 8"
  shows "rt_owns (drop_instance i rt)"
proof (cases "ap_instance (app_at rt i)")
  case (Some x)
  note l = rt_ownsD(1) [OF o]
  show ?thesis
  proof (rule rt_ownsI)
    show "owns (rt_engine (drop_instance i rt)) (\<lambda>j. ap_module (app_at rt j)) (\<lambda>j. ap_binary (app_at rt j))
        ((\<lambda>j. ap_instance (app_at rt j))(i := None))"
      using owns_deinstantiate [OF rt_ownsD(2) [OF o] i, of x] Some by (simp add: drop_instance_def rt_simps)
  qed (use l i in \<open>simp_all add: rt_simps\<close>)
qed (use o in \<open>simp add: drop_instance_def\<close>)

lemma rt_owns_cache_drop: "rt_owns rt \<Longrightarrow> rt_owns (cache_drop i rt)"
  by (auto simp: cache_drop_def Let_def intro!: rt_owns_set_app simp: rt_simps)

section \<open>Calls and threads keep the relation\<close>

lemma rt_owns_engine:
  assumes "rt_owns rt" and "owns (f (rt_engine rt)) (\<lambda>i. ap_module (app_at rt i)) (\<lambda>i. ap_binary (app_at rt i)) (\<lambda>i. ap_instance (app_at rt i))"
  shows "rt_owns (on_engine f rt)"
  using assms by (simp add: rt_owns_def rt_simps)

lemma module_used_live:
  assumes "owns e M B I" and "i < 8" and "M i = Some m"
  shows "module_used (M i) e = e"
proof -
  have "m \<in> fst ` live_modules e" using ownsD(2) [OF assms] by force
  then show ?thesis using assms(3) by (simp add: module_used_def)
qed

lemma rt_owns_instantiate:
  assumes o: "rt_owns rt" and i: "i < 8" and m: "ap_module (app_at rt i) = Some m" and n: "ap_instance (app_at rt i) = None"
    and fresh: "fresh_instance out (rt_engine rt)"
  shows "rt_owns (thread_instantiate now i out rt)"
proof -
  note l = rt_ownsD(1) [OF o] and ow = rt_ownsD(2) [OF o]
  have u: "on_engine (module_used (ap_module (app_at rt i))) rt = rt"
    using module_used_live [OF ow i m] by (simp add: on_engine_def)
  show ?thesis
  proof (cases out)
    case No_instance
    then show ?thesis using o unfolding thread_instantiate_def u
      by (simp add: start_failed_def rt_owns_set_app)
  next
    case (No_env x)
    then have "x \<notin> fst ` live_instances (rt_engine rt)" using fresh by (simp add: fresh_instance_def)
    then have "rt_owns (on_engine (\<lambda>e. deinstantiate x (instantiate_module m x e)) rt)"
      using owns_no_env [OF ow, of x m] o by (intro rt_owns_engine) simp_all
    then show ?thesis using No_env m unfolding thread_instantiate_def u
      by (simp add: start_failed_def rt_owns_set_app)
  next
    case (Instance x)
    then have x: "x \<notin> fst ` live_instances (rt_engine rt)" using fresh by (simp add: fresh_instance_def)
    show ?thesis
    proof (rule rt_ownsI)
      show "owns (rt_engine (thread_instantiate now i out rt)) (\<lambda>j. ap_module (app_at rt j)) (\<lambda>j. ap_binary (app_at rt j))
          ((\<lambda>j. ap_instance (app_at rt j))(i := Some x))"
        using owns_custom [OF owns_instantiate [OF ow i m x n]] m unfolding thread_instantiate_def u Instance
        by (simp add: Let_def rt_simps)
    qed (use l i m in \<open>simp_all add: thread_instantiate_def u Instance Let_def rt_simps\<close>)
  qed
qed

lemma rt_owns_finish:
  assumes o: "rt_owns rt" and i: "i < 8" and t: "ap_thread (app_at rt i) = Running x" and n: "ap_instance (app_at rt i) = Some x"
  shows "rt_owns (thread_finish now i out rt)"
proof (rule rt_ownsI)
  note l = rt_ownsD(1) [OF o] and ow = rt_ownsD(2) [OF o]
  show "owns (rt_engine (thread_finish now i out rt)) (\<lambda>j. ap_module (app_at rt j)) (\<lambda>j. ap_binary (app_at rt j))
      ((\<lambda>j. ap_instance (app_at rt j))(i := None))"
    using owns_deinstantiate [OF ow i n] t by (simp add: thread_finish_def Let_def rt_simps)
qed (use t rt_ownsD(1) [OF o] i in \<open>simp_all add: thread_finish_def Let_def rt_simps\<close>)

lemma rt_owns_signal: "rt_owns rt \<Longrightarrow> rt_owns (thread_signal i rt)"
  by (simp add: thread_signal_def rt_owns_set_app)

lemma rt_owns_release:
  assumes o: "rt_owns rt" and i: "i < 8" and n: "ap_instance (app_at rt i) = None"
  shows "rt_owns (thread_release i rt)"
proof -
  have l: "i < length (g_apps rt)" using rt_ownsD(1) [OF o] i by simp
  have "rt_owns (free_binary i (unload_module i rt))"
    using rt_owns_unload [OF o i n] i l by (intro rt_owns_free) (simp_all add: rt_simps)
  then show ?thesis by (simp add: thread_release_def Let_def rt_owns_set_app rt_owns_cache_drop)
qed

lemma rt_owns_start_begin: "rt_owns rt \<Longrightarrow> start_begin ok k rt = (r, rt') \<Longrightarrow> rt_owns rt'"
  by (auto simp: start_begin_def Let_def split: if_splits intro!: rt_owns_set_app)

lemma rt_owns_start_end: "rt_owns rt \<Longrightarrow> rt_owns (snd (start_end i rt))"
  by (auto simp: start_end_def Let_def intro!: rt_owns_set_app)

lemma rt_owns_start_timeout: "rt_owns rt \<Longrightarrow> rt_owns (snd (start_timeout i rt))"
  by (auto simp: start_timeout_def intro!: rt_owns_set_app)

lemma rt_owns_stop_abort:
  assumes o: "rt_owns rt" and i: "i < 8"
  shows "rt_owns (stop_abort i rt)"
proof -
  define r1 where "r1 = set_app i (\<lambda>a. a\<lparr>ap_tid := False, ap_exec_env := False, ap_thread := No_thread\<rparr>) rt"
  have o1: "rt_owns r1" using o by (simp add: r1_def rt_owns_set_app)
  have l: "i < length (g_apps r1)" using rt_ownsD(1) [OF o1] i by simp
  have "rt_owns (unload_module i (drop_instance i r1))"
    using rt_owns_drop_instance [OF o1 i] i l by (intro rt_owns_unload) (simp_all add: rt_simps)
  then show ?thesis
    by (simp add: stop_abort_def Let_def r1_def [symmetric] rt_owns_set_app rt_owns_cache_drop)
qed

lemma rt_owns_stop_end: "rt_owns rt \<Longrightarrow> i < 8 \<Longrightarrow> rt_owns (snd (stop_end timed_out i rt))"
  by (auto simp: stop_end_def Let_def rt_owns_stop_abort intro!: rt_owns_set_app)

lemma rt_owns_destroy_rest:
  assumes o: "rt_owns rt" and i: "i < 8"
  shows "rt_owns (snd (destroy_rest i rt))"
proof -
  define r1 where "r1 = drop_instance i (set_app i (\<lambda>a. a\<lparr>ap_exec_env := False\<rparr>) rt)"
  have o1: "rt_owns r1" using o i unfolding r1_def by (intro rt_owns_drop_instance rt_owns_set_app) simp_all
  have l0: "i < length (g_apps rt)" using rt_ownsD(1) [OF o] i by simp
  have l: "i < length (g_apps r1)" using rt_ownsD(1) [OF o1] i by simp
  define r2 where "r2 = (if ap_hash_valid (app_at r1 i) then r1\<lparr>rt_cache := module_cache_release (Some (ap_hash (app_at r1 i))) (rt_cache r1)\<rparr> else r1)"
  have o2: "rt_owns r2" and n2: "ap_instance (app_at r2 i) = None" and l2: "i < length (g_apps r2)"
    using o1 l l0 by (auto simp: r2_def r1_def rt_simps)
  define r3 where "r3 = unload_module i r2"
  have o3: "rt_owns r3" and m3: "ap_module (app_at r3 i) = None" and l3: "i < length (g_apps r3)"
    using rt_owns_unload [OF o2 i n2] l2 by (simp_all add: r3_def rt_simps)
  define r4 where "r4 = (if ap_hash_valid (app_at r1 i) then r3\<lparr>rt_cache := module_cache_invalidate (Some (ap_hash (app_at r1 i))) (rt_cache r3)\<rparr> else r3)"
  have "rt_owns r4" "ap_module (app_at r4 i) = None" using o3 m3 by (auto simp: r4_def rt_simps)
  then have "rt_owns (free_binary i r4)" using i by (intro rt_owns_free)
  moreover have "snd (destroy_rest i rt) = set_app i cleared_app (free_binary i r4)"
    by (simp add: destroy_rest_def Let_def r4_def r3_def r2_def r1_def)
  ultimately show ?thesis by (simp add: rt_owns_set_app cleared_app_def)
qed

lemma free_slotD:
  assumes "free_slot apps = Some i"
  shows "i < 8" and "\<not> ap_used (apps ! i)"
  using assms by (auto simp: free_slot_def find_Some_iff AKIRA_MAX_WASM_INSTANCES_def)

lemma free_slot_unused:
  assumes "threads_ok rt" and "free_slot (g_apps rt) = Some i"
  shows "i < 8" and "i < length (g_apps rt)" and "\<not> ap_used (app_at rt i)" and "ap_thread (app_at rt i) = No_thread"
    and "ap_instance (app_at rt i) = None"
proof -
  show i: "i < 8" "\<not> ap_used (app_at rt i)" using free_slotD [OF assms(2)] by (simp_all add: app_at_def)
  show "i < length (g_apps rt)" using i assms(1) by (simp add: threads_ok_def)
  have ok: "slot_ok (pending rt) i (app_at rt i)" using assms(1) i(1) by (simp add: threads_ok_def)
  then show t: "ap_thread (app_at rt i) = No_thread" using i(2) unfolding slot_ok_def by blast
  show "ap_instance (app_at rt i) = None" using ok t unfolding slot_ok_def
    by (cases "ap_instance (app_at rt i)") auto
qed

text \<open>The state a load leaves behind: nothing but the signing state and the log changed, or a new application.\<close>

definition unchanged_slots :: "runtime \<Rightarrow> runtime \<Rightarrow> bool" where
  "unchanged_slots rt rt' \<longleftrightarrow>
     length (g_apps rt') = length (g_apps rt) \<and> (\<forall>i. app_at rt' i = app_at rt i) \<and> rt_engine rt' = rt_engine rt \<and>
     pending rt' = pending rt \<and> rt_cache rt' = rt_cache rt \<and> rt_imap rt' = rt_imap rt"

definition loaded_slot :: "load_env \<Rightarrow> octets \<Rightarrow> runtime \<Rightarrow> nat \<Rightarrow> runtime \<Rightarrow> bool" where
  "loaded_slot env buffer rt i rt' \<longleftrightarrow>
     (\<exists>b m a. copy_buffer env (length buffer) = Some b \<and> loaded_module env = Some m \<and>
        length (g_apps rt') = length (g_apps rt) \<and> app_at rt' = (app_at rt)(i := a) \<and>
        rt_engine rt' = module_load m b (buffer_alloc b (rt_engine rt)) \<and> pending rt' = pending rt \<and> rt_imap rt' = rt_imap rt \<and>
        ap_used a \<and> ap_module a = Some m \<and> ap_binary a = Some b \<and> ap_instance a = ap_instance (app_at rt i) \<and>
        ap_thread a = ap_thread (app_at rt i) \<and> ap_status a = AKIRA_APP_STATUS_CREATED)"

lemma integrity_error_negative:
  "app_verify_wasm_integrity cr w fuel buffer sg = Some (Inl e, sg') \<Longrightarrow> e < 0"
  by (auto simp: app_verify_wasm_integrity_def hash_and_allow_def app_compute_hash_eq errno_defs
      split: if_splits option.splits sum.splits)

lemma load_cases:
  assumes t: "threads_ok rt" and o: "rt_owns rt" and f: "fresh_for env buffer (rt_engine rt)"
    and l: "akira_runtime_load_wasm cr w fuel now later env buffer rt = Some (r, rt')"
  shows "r < 0 \<and> unchanged_slots rt rt' \<or>
    (\<exists>i. r = int i \<and> free_slot (g_apps rt) = Some i \<and> loaded_slot env buffer rt i rt')"
proof (cases "g_ready rt \<and> 8 \<le> length buffer \<and> take 4 buffer \<in> {0 # text_chars ''asm'', 0 # text_chars ''aot''}")
  case False
  then show ?thesis using l by (auto simp: akira_runtime_load_wasm_def unchanged_slots_def errno_defs split: if_splits)
next
  case True
  show ?thesis
  proof (cases "free_slot (g_apps rt)")
    case None
    then show ?thesis using l True by (auto simp: akira_runtime_load_wasm_def unchanged_slots_def errno_defs split: if_splits)
  next
    case (Some i)
    note i = free_slot_unused [OF t Some]
    have unreserve: "(app_at rt i)\<lparr>ap_used := False\<rparr> = app_at rt i" using i(3) by (cases "app_at rt i") simp
    define rt1 where "rt1 = set_app i (\<lambda>a. a\<lparr>ap_used := True\<rparr>) rt"
    define release where "release = set_app i (\<lambda>a. a\<lparr>ap_used := False\<rparr>)"
    have undo: "unchanged_slots rt (release rt2)"
      if "app_at rt2 = app_at rt1" "length (g_apps rt2) = length (g_apps rt)" "rt_engine rt2 = rt_engine rt"
        "pending rt2 = pending rt" "rt_cache rt2 = rt_cache rt" "rt_imap rt2 = rt_imap rt" for rt2
      using that i(2) unreserve by (simp add: unchanged_slots_def release_def rt_simps rt1_def)
    note ld = l [unfolded akira_runtime_load_wasm_def Let_def Some option.case rt1_def [symmetric] release_def [symmetric]]
    have g: "\<not> \<not> g_ready rt" "\<not> (length buffer < 8 \<or> take 4 buffer \<notin> {0 # text_chars ''asm'', 0 # text_chars ''aot''})"
      using True by auto
    obtain res sg where v: "app_verify_wasm_integrity cr w fuel buffer (rt_signing rt1) = Some (res, sg)"
      using ld g by (auto split: option.splits)
    show ?thesis
    proof (cases res)
      case (Inl e)
      then have "r = e" "rt' = release (audit_call AUDIT_EVENT_INTEGRITY_FAIL (text_chars ''load'') (of_nat (length buffer)) (rt1\<lparr>rt_signing := sg\<rparr>))"
        using ld g v by auto
      moreover have "e < 0" using integrity_error_negative v Inl by blast
      ultimately show ?thesis by (auto intro!: undo simp: rt_simps rt1_def)
    next
      case (Inr h)
      define rt2 where "rt2 = rt1\<lparr>rt_signing := sg\<rparr>"
      have rt2: "app_at rt2 = app_at rt1" "length (g_apps rt2) = length (g_apps rt)" "rt_engine rt2 = rt_engine rt"
        "pending rt2 = pending rt" "rt_cache rt2 = rt_cache rt" "rt_imap rt2 = rt_imap rt" "g_apps rt2 = g_apps rt1"
        by (simp_all add: rt2_def rt1_def rt_simps)
      obtain ret mf where mf: "manifest_parse_wasm_section w fuel (Some buffer) manifest_init_defaults = Some (In_bounds (ret, mf))"
        using ld g v Inr by (auto split: option.splits checked.splits)
      note ld2 = ld [unfolded v option.case prod.case Inr sum.case mf checked.case rt2_def [symmetric]]
      show ?thesis
      proof (cases "probe env \<and> copy_buffer env (length buffer) \<noteq> None")
        case False
        then show ?thesis using ld2 g rt2 by (auto simp: errno_defs split: if_splits intro!: undo)
      next
        case True
        then obtain b where b: "probe env" "copy_buffer env (length buffer) = Some b" by blast
        then have nb: "b \<notin> live_buffers (rt_engine rt)" using f by (simp add: fresh_for_def)
        show ?thesis
        proof (cases "loaded_module env")
          case None
          then have "r = - EIO" "rt' = release (on_engine (buffer_free b) (on_engine (buffer_alloc b) rt2))"
            using ld2 g b by auto
          then show ?thesis using rt2 owns_alloc_free [OF rt_ownsD(2) [OF o] nb]
            by (auto simp: errno_defs rt_simps intro!: undo)
        next
          case (Some m)
          show ?thesis
            using ld2 g b Some rt2 i(2) \<open>free_slot (g_apps rt) = Some i\<close>
            by (auto simp: loaded_slot_def rt_simps rt1_def loaded_app_def split: option.splits)
              (rule exI, rule conjI, rule refl, simp)+
        qed
      qed
    qed
  qed
qed

lemma loaded_slot_owns:
  assumes o: "rt_owns rt" and i: "i < 8" "ap_instance (app_at rt i) = None" and f: "fresh_for env buffer (rt_engine rt)"
    and l: "loaded_slot env buffer rt i rt'"
  shows "rt_owns rt'"
proof -
  obtain b m a where a: "copy_buffer env (length buffer) = Some b" "loaded_module env = Some m"
      "length (g_apps rt') = length (g_apps rt)" "app_at rt' = (app_at rt)(i := a)"
      "rt_engine rt' = module_load m b (buffer_alloc b (rt_engine rt))" "ap_module a = Some m" "ap_binary a = Some b"
      "ap_instance a = ap_instance (app_at rt i)"
    using l by (auto simp: loaded_slot_def)
  have "b \<notin> live_buffers (rt_engine rt)" "m \<notin> fst ` live_modules (rt_engine rt)" using f a(1,2) by (simp_all add: fresh_for_def)
  then have "owns (rt_engine rt') ((\<lambda>j. ap_module (app_at rt j))(i := Some m)) ((\<lambda>j. ap_binary (app_at rt j))(i := Some b))
      (\<lambda>j. ap_instance (app_at rt j))"
    unfolding a(5) using i by (intro owns_load [OF rt_ownsD(2) [OF o]]) simp_all
  then show ?thesis by (rule rt_ownsI [rotated]) (use a rt_ownsD(1) [OF o] i in simp_all)
qed

section \<open>Slots and their threads\<close>

lemma slot_ok_instance: "slot_ok p i a \<Longrightarrow> \<forall>x. ap_thread a \<noteq> Running x \<Longrightarrow> ap_instance a = None"
  by (cases "ap_instance a") (auto simp: slot_ok_def)

lemma slot_ok_cong: "(p = Starting i) = (q = Starting i) \<Longrightarrow> slot_ok p i a = slot_ok q i a"
  by (simp add: slot_ok_def)

lemma threads_okI:
  assumes t: "threads_ok rt" and "i < 8" and "length (g_apps rt') = length (g_apps rt)" and "app_at rt' = (app_at rt)(i := a)"
    and "slot_ok (pending rt') i a"
    and "\<forall>j. j \<noteq> i \<longrightarrow> (pending rt = Starting j) = (pending rt' = Starting j)"
    and "\<forall>j. pending rt' \<in> {Starting j, Stopping j, Destroying j} \<longrightarrow> j < 8"
  shows "threads_ok rt'"
proof -
  have "slot_ok (pending rt') j (app_at rt' j)" if "j < 8" for j
  proof (cases "j = i")
    case False
    then have "slot_ok (pending rt) j (app_at rt j)" using t that by (simp add: threads_ok_def)
    then show ?thesis using slot_ok_cong assms(4,6) False by (metis fun_upd_other)
  qed (use assms(4,5) in simp)
  then show ?thesis using t assms(3,7) by (simp add: threads_ok_def)
qed

lemma threads_okD:
  assumes "threads_ok rt" and "i < 8"
  shows "slot_ok (pending rt) i (app_at rt i)" and "i < length (g_apps rt)"
  using assms by (simp_all add: threads_ok_def)

lemma threads_ok_length: "threads_ok rt \<Longrightarrow> length (g_apps rt) = 8"
  by (simp add: threads_ok_def)

lemma pending_index: "threads_ok rt \<Longrightarrow> pending rt \<in> {Starting i, Stopping i, Destroying i} \<Longrightarrow> i < 8"
  unfolding threads_ok_def by blast

lemma threads_same:
  assumes "threads_ok rt" and "length (g_apps rt') = length (g_apps rt)" and "\<forall>i. app_at rt' i = app_at rt i"
    and "\<forall>j. (pending rt = Starting j) = (pending rt' = Starting j)"
    and "\<forall>j. pending rt' \<in> {Starting j, Stopping j, Destroying j} \<longrightarrow> j < 8"
  shows "threads_ok rt'"
  using assms slot_ok_cong unfolding threads_ok_def by metis

lemma slot_valid_index: "slot_valid rt k \<Longrightarrow> nat k < 8 \<and> ap_used (app_at rt (nat k))"
  by (auto simp: slot_valid_def AKIRA_MAX_WASM_INSTANCES_def)

lemma loaded_slot_threads:
  assumes t: "threads_ok rt" and "free_slot (g_apps rt) = Some i" and "pending rt = Idle" and l: "loaded_slot env buffer rt i rt'"
  shows "threads_ok rt'"
proof -
  note i = free_slot_unused [OF t assms(2)]
  obtain a where a: "length (g_apps rt') = length (g_apps rt)" "app_at rt' = (app_at rt)(i := a)" "pending rt' = pending rt"
      "ap_used a" "ap_instance a = ap_instance (app_at rt i)" "ap_thread a = ap_thread (app_at rt i)"
      "ap_status a = AKIRA_APP_STATUS_CREATED"
    using l by (auto simp: loaded_slot_def)
  show ?thesis
    by (rule threads_okI [OF t i(1) a(1,2)]) (use a i assms(3) in \<open>auto simp: slot_ok_def\<close>)
qed

lemma start_begin_threads:
  assumes t: "threads_ok rt" and p: "pending rt = Idle" and v: "slot_valid rt k"
    and n: "ap_thread (app_at rt (nat k)) = No_thread" "ap_module (app_at rt (nat k)) \<noteq> None"
    and s: "start_begin ok k rt = (r, rt')"
  shows "threads_ok rt'"
proof -
  define i where "i = nat k"
  have i: "i < 8" "ap_used (app_at rt i)" using slot_valid_index [OF v] by (simp_all add: i_def)
  note sk = threads_okD [OF t i(1)]
  have inst: "ap_instance (app_at rt i) = None" using sk(1) n(1) unfolding slot_ok_def i_def by (metis not_None_eq thread_state.distinct(3))
  have st: "ap_status (app_at rt i) \<in> {AKIRA_APP_STATUS_CREATED, AKIRA_APP_STATUS_STOPPED}"
    using sk(1) n(1) i(2) unfolding slot_ok_def i_def by blast
  define rt1 where "rt1 = (if ap_tid (app_at rt i) then set_app i (\<lambda>a. a\<lparr>ap_tid := False\<rparr>) rt else rt)"
  have rt1: "app_at rt1 = (app_at rt)(i := (app_at rt i)\<lparr>ap_tid := False\<rparr>)" "pending rt1 = Idle"
    "length (g_apps rt1) = length (g_apps rt)" "g_stacks rt1 = g_stacks rt"
  proof -
    have "(app_at rt i)\<lparr>ap_tid := False\<rparr> = app_at rt i" if "\<not> ap_tid (app_at rt i)" using that by (cases "app_at rt i") simp
    then show "app_at rt1 = (app_at rt)(i := (app_at rt i)\<lparr>ap_tid := False\<rparr>)"
      using sk(2) by (cases "ap_tid (app_at rt i)") (simp_all add: rt1_def rt_simps fun_upd_idem)
  qed (simp_all add: rt1_def p rt_simps)
  have e: "start_begin ok k rt =
      (if \<not> g_stacks rt1 ! i then (Some (- ENOMEM), rt1)
       else (let rt = set_app i (\<lambda>a. a\<lparr>ap_exit_code := 0, ap_tid := ok\<rparr>) rt1 in
             if \<not> ok then (Some (- ENOMEM), rt) else (None, set_app i (\<lambda>a. a\<lparr>ap_thread := Created\<rparr>) (rt\<lparr>pending := Starting i\<rparr>))))"
    using st v by (auto simp: start_begin_def i_def [symmetric] rt1_def Let_def)
  consider "\<not> g_stacks rt1 ! i" | "g_stacks rt1 ! i" "\<not> ok" | "g_stacks rt1 ! i" ok by blast
  then show ?thesis
  proof cases
    case 1
    show ?thesis
      by (rule threads_okI [OF t i(1), where a = "(app_at rt i)\<lparr>ap_tid := False\<rparr>"])
        (use 1 s e rt1 p sk(1) in \<open>auto simp: slot_ok_def\<close>)
  next
    case 2
    show ?thesis
      by (rule threads_okI [OF t i(1), where a = "(app_at rt i)\<lparr>ap_tid := False, ap_exit_code := 0\<rparr>"])
        (use 2 s e rt1 p sk in \<open>auto simp: slot_ok_def rt_simps\<close>)
  next
    case 3
    show ?thesis
      by (rule threads_okI [OF t i(1), where a = "(app_at rt i)\<lparr>ap_tid := True, ap_exit_code := 0, ap_thread := Created\<rparr>"])
        (use 3 s e rt1 p sk i inst n(2) in \<open>auto simp: slot_ok_def rt_simps i_def [symmetric]\<close>)
  qed
qed

lemma thread_pending: "threads_ok rt \<Longrightarrow> \<forall>j. pending rt \<in> {Starting j, Stopping j, Destroying j} \<longrightarrow> j < 8"
  by (simp add: threads_ok_def)

lemma instantiate_threads:
  assumes t: "threads_ok rt" and i: "i < 8" and c: "ap_thread (app_at rt i) = Created"
  shows "threads_ok (thread_instantiate now i out rt)"
proof -
  note sk = threads_okD [OF t i]
  have n: "ap_instance (app_at rt i) = None" using slot_ok_instance [OF sk(1)] c by simp
  have "ap_used (app_at rt i)" "pending rt = Starting i" using sk(1) c by (simp_all add: slot_ok_def)
  note u = this n
  show ?thesis
  proof (cases out)
    case No_instance
    show ?thesis
      by (rule threads_okI [OF t i, where a = "start_failed (- EIO) (app_at rt i)"])
        (use No_instance sk u thread_pending [OF t] in \<open>auto simp: thread_instantiate_def Let_def rt_simps slot_ok_def start_failed_def\<close>)
  next
    case (No_env x)
    show ?thesis
      by (rule threads_okI [OF t i, where a = "start_failed (- ENOMEM) (app_at rt i)"])
        (use No_env sk u thread_pending [OF t] in \<open>auto simp: thread_instantiate_def Let_def rt_simps slot_ok_def start_failed_def\<close>)
  next
    case (Instance x)
    show ?thesis
      by (rule threads_okI [OF t i, where a = "(app_at rt i)\<lparr>ap_instance := Some x, ap_exec_env := True,
            ap_sandbox := sandbox_exec_begin now (ap_sandbox (app_at rt i)),
            ap_perf := perf_exec_begin now (ap_perf (app_at rt i)), ap_thread := Running x\<rparr>"])
        (use Instance sk u thread_pending [OF t] in \<open>auto simp: thread_instantiate_def Let_def rt_simps slot_ok_def\<close>)
  qed
qed

lemma finish_threads:
  assumes t: "threads_ok rt" and i: "i < 8" and x: "ap_thread (app_at rt i) = Running x"
  shows "threads_ok (thread_finish now i out rt)"
proof -
  note sk = threads_okD [OF t i]
  obtain a where a: "app_at (thread_finish now i out rt) = (app_at rt)(i := a)" "ap_thread a = Exiting" "ap_instance a = None"
      "ap_used a = ap_used (app_at rt i)" "ap_status a = ap_status (app_at rt i)"
    using sk(2) x by (simp add: thread_finish_def Let_def rt_simps)
  have p: "pending (thread_finish now i out rt) = pending rt" "length (g_apps (thread_finish now i out rt)) = length (g_apps rt)"
    using x by (simp_all add: thread_finish_def Let_def rt_simps)
  show ?thesis
    by (rule threads_okI [OF t i p(2) a(1)]) (use sk x a p thread_pending [OF t] in \<open>auto simp: slot_ok_def\<close>)
qed

lemma signal_threads:
  assumes t: "threads_ok rt" and i: "i < 8" and x: "ap_thread (app_at rt i) = Exiting"
  shows "threads_ok (thread_signal i rt)"
proof -
  note sk = threads_okD [OF t i]
  have n: "ap_instance (app_at rt i) = None" using slot_ok_instance [OF sk(1)] x by simp
  show ?thesis
    by (rule threads_okI [OF t i, where a = "(app_at rt i)\<lparr>ap_status :=
          (if ap_status (app_at rt i) = AKIRA_APP_STATUS_ERROR then AKIRA_APP_STATUS_ERROR else AKIRA_APP_STATUS_EXITED),
          ap_thread := Signalled\<rparr>"])
      (use sk x n thread_pending [OF t] in \<open>auto simp: thread_signal_def rt_simps slot_ok_def\<close>)
qed

lemma unused_slot_ok: "\<not> ap_used a \<Longrightarrow> ap_thread a = No_thread \<Longrightarrow> ap_instance a = None \<Longrightarrow> slot_ok p i a"
  by (simp add: slot_ok_def)

lemma stopped_slot_ok:
  "ap_status a = AKIRA_APP_STATUS_STOPPED \<Longrightarrow> ap_thread a = No_thread \<Longrightarrow> ap_instance a = None \<Longrightarrow> p \<noteq> Starting i \<Longrightarrow> slot_ok p i a"
  by (simp add: slot_ok_def)

lemma release_threads:
  assumes t: "threads_ok rt" and i: "i < 8" and x: "ap_thread (app_at rt i) = Signalled"
  shows "threads_ok (thread_release i rt)"
proof -
  note sk = threads_okD [OF t i]
  have n: "ap_instance (app_at rt i) = None" using slot_ok_instance [OF sk(1)] x by simp
  obtain a where a: "app_at (thread_release i rt) = (app_at rt)(i := a)" "ap_thread a = No_thread" "ap_instance a = None" "\<not> ap_used a"
    using sk(2) n by (simp add: thread_release_def Let_def rt_simps)
  have p: "pending (thread_release i rt) = pending rt" "length (g_apps (thread_release i rt)) = length (g_apps rt)"
    using sk(2) by (simp_all add: thread_release_def Let_def rt_simps)
  show ?thesis
    by (rule threads_okI [OF t i p(2) a(1)]) (use a p thread_pending [OF t] in \<open>simp_all add: unused_slot_ok\<close>)
qed

lemma start_timeout_threads:
  assumes t: "threads_ok rt" and p: "pending rt = Starting i" and x: "ap_thread (app_at rt i) = Created"
  shows "threads_ok (snd (start_timeout i rt))"
proof -
  have i: "i < 8" using pending_index [OF t] p by simp
  note sk = threads_okD [OF t i]
  have n: "ap_instance (app_at rt i) = None" using slot_ok_instance [OF sk(1)] x by simp
  show ?thesis
    by (rule threads_okI [OF t i, where a = "(app_at rt i)\<lparr>ap_tid := False, ap_used := False, ap_thread := No_thread\<rparr>"])
      (use sk p n in \<open>auto simp: start_timeout_def rt_simps unused_slot_ok\<close>)
qed

lemma start_end_threads:
  assumes t: "threads_ok rt" and p: "pending rt = Starting i" and c: "ap_thread (app_at rt i) \<noteq> Created"
    and e: "ap_status (app_at rt i) = AKIRA_APP_STATUS_ERROR \<longrightarrow> ap_thread (app_at rt i) = No_thread"
  shows "threads_ok (snd (start_end i rt))"
proof -
  have i: "i < 8" using pending_index [OF t] p by simp
  note sk = threads_okD [OF t i]
  define a where "a = (if ap_status (app_at rt i) = AKIRA_APP_STATUS_ERROR then (app_at rt i)\<lparr>ap_tid := False\<rparr>
    else (app_at rt i)\<lparr>ap_status := AKIRA_APP_STATUS_RUNNING\<rparr>)"
  have q: "app_at (snd (start_end i rt)) = (app_at rt)(i := a)" "pending (snd (start_end i rt)) = Idle"
    "length (g_apps (snd (start_end i rt))) = length (g_apps rt)"
    using sk(2) by (simp_all add: start_end_def Let_def rt_simps a_def)
  have u: "ap_thread (app_at rt i) = No_thread \<Longrightarrow> \<not> ap_used (app_at rt i)" using sk(1) p unfolding slot_ok_def by blast
  have "slot_ok Idle i a"
  proof (cases "ap_thread (app_at rt i) = No_thread")
    case True
    then have "ap_instance (app_at rt i) = None" using slot_ok_instance [OF sk(1)] by simp
    then show ?thesis using True u by (simp add: a_def unused_slot_ok)
  next
    case False
    then show ?thesis using sk(1) p c e by (auto simp: a_def slot_ok_def)
  qed
  then show ?thesis
    by (intro threads_okI [OF t i q(3,1)]) (use p q(2) in auto)
qed

lemma stop_begin_threads:
  assumes "threads_ok rt" and "pending rt = Idle" and "stop_begin k rt = (r, rt')"
  shows "threads_ok rt'"
  by (rule threads_same [OF assms(1)])
    (use assms(2,3) slot_valid_index in \<open>auto simp: stop_begin_def Let_def rt_simps split: if_splits\<close>)

lemma stop_end_slot:
  assumes "i < length (g_apps rt)"
    and "timed_out \<and> ap_status (app_at rt i) = AKIRA_APP_STATUS_RUNNING \<or> ap_thread (app_at rt i) = No_thread \<and> ap_instance (app_at rt i) = None"
  shows "\<exists>a. app_at (snd (stop_end timed_out i rt)) = (app_at rt)(i := a) \<and> ap_status a = AKIRA_APP_STATUS_STOPPED \<and>
    ap_thread a = No_thread \<and> ap_instance a = None"
  using assms by (auto simp: stop_end_def Let_def stop_abort_def rt_simps)

lemma stop_end_rest:
  assumes "i < length (g_apps rt)"
  shows "pending (snd (stop_end timed_out i rt)) = Idle" "length (g_apps (snd (stop_end timed_out i rt))) = length (g_apps rt)"
  using assms by (auto simp: stop_end_def Let_def stop_abort_def rt_simps)

lemma stop_end_threads:
  assumes t: "threads_ok rt" and p: "pending rt \<in> {Stopping i, Destroying i}" and w: "stop_waited timed_out (app_at rt i)"
  shows "threads_ok (snd (stop_end timed_out i rt))"
    and "ap_thread (app_at (snd (stop_end timed_out i rt)) i) = No_thread"
proof -
  have i: "i < 8" using pending_index [OF t] p by auto
  note sk = threads_okD [OF t i]
  have "timed_out \<and> ap_status (app_at rt i) = AKIRA_APP_STATUS_RUNNING \<or> ap_thread (app_at rt i) = No_thread \<and> ap_instance (app_at rt i) = None"
    using w slot_ok_instance [OF sk(1)] by (auto simp: stop_waited_def split: if_splits)
  then obtain a where a: "app_at (snd (stop_end timed_out i rt)) = (app_at rt)(i := a)" "ap_status a = AKIRA_APP_STATUS_STOPPED"
      "ap_thread a = No_thread" "ap_instance a = None"
    using stop_end_slot [OF sk(2), of timed_out] by blast
  show "threads_ok (snd (stop_end timed_out i rt))"
    by (rule threads_okI [OF t i stop_end_rest(2) [OF sk(2)] a(1)])
      (use a p stop_end_rest(1) [OF sk(2)] in \<open>auto simp: stopped_slot_ok\<close>)
  show "ap_thread (app_at (snd (stop_end timed_out i rt)) i) = No_thread" using a by simp
qed

lemma destroy_rest_threads:
  assumes t: "threads_ok rt" and i: "i < 8" and n: "ap_thread (app_at rt i) = No_thread" and p: "pending rt = Idle"
  shows "threads_ok (snd (destroy_rest i rt))"
proof -
  note sk = threads_okD [OF t i]
  obtain a where a: "app_at (snd (destroy_rest i rt)) = (app_at rt)(i := a)" "\<not> ap_used a" "ap_thread a = No_thread" "ap_instance a = None"
    using sk(2) n by (simp add: destroy_rest_def Let_def rt_simps cleared_app_def)
  have q: "pending (snd (destroy_rest i rt)) = Idle" "length (g_apps (snd (destroy_rest i rt))) = length (g_apps rt)"
    using sk(2) p by (simp_all add: destroy_rest_def Let_def rt_simps)
  show ?thesis
    by (rule threads_okI [OF t i q(2) a(1)]) (use a q(1) p in \<open>auto simp: unused_slot_ok\<close>)
qed

end
