(* ===== verification/Runtime_Instances.thy ===== *)
theory Runtime_Instances
  imports Runtime_Ownership
begin

text \<open>
  Which slot the instance map and the custom data of the engine give for a running instance, and which
  buffers are held without a slot that knows them.

  A removal from the map hides entries behind its bucket, so a running instance may not be found there;
  what \<open>map_right\<close> says is that it is never found with a wrong slot.
\<close>

section \<open>The first entry of an instance\<close>

definition first_entry :: "u64 \<Rightarrow> instance_map \<Rightarrow> int option" where
  "first_entry x m = map_option (\<lambda>p. bk_slot (buckets m ! p)) (probe_loop {x} x (buckets m) 0 INSTANCE_MAP_SIZE)"

definition sound_map :: "instance_map \<Rightarrow> bool" where
  "sound_map m \<longleftrightarrow> map_ready m \<and> length (buckets m) = INSTANCE_MAP_SIZE"

lemma probe_cong:
  "\<forall>q < INSTANCE_MAP_SIZE. (bk_inst (bs ! q) \<in> S) = (bk_inst (bs' ! q) \<in> S) \<Longrightarrow> probe_loop S x bs i k = probe_loop S x bs' i k"
  by (induction k arbitrary: i) (simp_all add: map_probe_less)

lemma probe_mem: "probe_loop S x bs i k = Some p \<Longrightarrow> p < INSTANCE_MAP_SIZE \<and> bk_inst (bs ! p) \<in> S"
  using probe_Some [of S x bs i k p] map_probe_less by auto

lemma first_entry_upd:
  assumes "sound_map m" and "p < INSTANCE_MAP_SIZE" and "bk_inst (buckets m ! p) \<noteq> y" and "bk_inst b \<noteq> y"
  shows "first_entry y (m\<lparr>buckets := (buckets m)[p := b]\<rparr>) = first_entry y m"
proof -
  let ?bs = "(buckets m)[p := b]"
  have len: "length (buckets m) = INSTANCE_MAP_SIZE" using assms(1) by (simp add: sound_map_def)
  have at: "(bk_inst (?bs ! q) \<in> {y}) = (bk_inst (buckets m ! q) \<in> {y})" if "q < INSTANCE_MAP_SIZE" for q
    using assms that len by (cases "q = p") auto
  then have pr: "probe_loop {y} y ?bs 0 INSTANCE_MAP_SIZE = probe_loop {y} y (buckets m) 0 INSTANCE_MAP_SIZE"
    using probe_cong [of ?bs "{y}" "buckets m"] by blast
  have "?bs ! q = buckets m ! q" if "probe_loop {y} y (buckets m) 0 INSTANCE_MAP_SIZE = Some q" for q
    using probe_mem [OF that] assms(3) by (cases "q = p") auto
  then show ?thesis
    using pr by (cases "probe_loop {y} y (buckets m) 0 INSTANCE_MAP_SIZE") (simp_all add: first_entry_def)
qed

lemma first_entry_put_other:
  assumes "sound_map m" and "y \<noteq> x" and "y \<noteq> 0"
  shows "first_entry y (snd (instance_map_put x s m)) = first_entry y m"
proof (cases "x = 0 \<or> probe_loop {0, x} x (buckets m) 0 INSTANCE_MAP_SIZE = None")
  case False
  then obtain p where p: "probe_loop {0, x} x (buckets m) 0 INSTANCE_MAP_SIZE = Some p" by blast
  then have "p < INSTANCE_MAP_SIZE \<and> bk_inst (buckets m ! p) \<noteq> y" using probe_mem [OF p] assms(2,3) by auto
  then show ?thesis
    using False p assms first_entry_upd [OF assms(1), of p y] by (simp add: instance_map_put_def sound_map_def)
qed (use assms in \<open>auto simp: instance_map_put_def sound_map_def\<close>)

lemma first_entry_remove_other:
  assumes "sound_map m" and "y \<noteq> x" and "y \<noteq> 0"
  shows "first_entry y (instance_map_remove x m) = first_entry y m"
proof (cases "x = 0 \<or> probe_loop {0, x} x (buckets m) 0 INSTANCE_MAP_SIZE = None")
  case False
  then obtain p where p: "probe_loop {0, x} x (buckets m) 0 INSTANCE_MAP_SIZE = Some p" by blast
  then have "p < INSTANCE_MAP_SIZE \<and> bk_inst (buckets m ! p) \<noteq> y" using probe_mem [OF p] assms(2,3) by auto
  then show ?thesis
    using False p assms first_entry_upd [OF assms(1), of p y no_instance]
    by (simp add: instance_map_remove_def sound_map_def no_instance_def)
qed (use assms in \<open>auto simp: instance_map_remove_def sound_map_def\<close>)

text \<open>A registration is first on its own path, whatever older entries of the same instance lie behind.\<close>

lemma first_entry_put_same:
  assumes "sound_map m" and "x \<noteq> 0"
  shows "first_entry x (snd (instance_map_put x s m)) \<in> {None, Some s}"
proof (cases "probe_loop {0, x} x (buckets m) 0 INSTANCE_MAP_SIZE")
  case None
  have "probe_loop {x} x (buckets m) 0 INSTANCE_MAP_SIZE = None"
  proof (cases "probe_loop {x} x (buckets m) 0 INSTANCE_MAP_SIZE")
    case (Some p)
    then show ?thesis using probe_Some [OF Some] probe_None [OF None] by auto
  qed
  then show ?thesis using None assms by (simp add: instance_map_put_def first_entry_def sound_map_def)
next
  case (Some p)
  obtain j where j: "j < INSTANCE_MAP_SIZE" "p = map_probe x j"
      "\<forall>j' < j. bk_inst (buckets m ! map_probe x j') \<notin> {0, x}" and pi: "bk_inst (buckets m ! p) \<in> {0, x}"
    using probe_Some [OF Some] by auto
  have pl: "p < length (buckets m)" using assms(1) map_probe_less by (simp add: j(2) sound_map_def)
  let ?bs = "(buckets m)[p := \<lparr>bk_inst = x, bk_slot = s\<rparr>]"
  have "bk_inst (?bs ! map_probe x j') \<notin> {x}" if "j' < j" for j'
  proof -
    have "map_probe x j' \<noteq> p" using j(3) pi that by auto
    then show ?thesis using j(3) that by simp
  qed
  then have "probe_loop {x} x ?bs 0 INSTANCE_MAP_SIZE = Some p"
    unfolding j(2) by (intro probe_SomeI) (use j pl in auto)
  then show ?thesis using Some assms pl by (simp add: instance_map_put_def first_entry_def sound_map_def)
qed

lemma sound_map_ops [simp]:
  "sound_map (snd (instance_map_put x s m)) = sound_map m" "sound_map (instance_map_remove x m) = sound_map m"
  by (auto simp: sound_map_def instance_map_put_def instance_map_remove_def split: option.splits)

lemma map_get_cases:
  assumes "sound_map m"
  shows "instance_map_get x m = - 1 \<or> first_entry x m = Some (instance_map_get x m)"
proof (cases "x = 0 \<or> probe_loop {0, x} x (buckets m) 0 INSTANCE_MAP_SIZE = None")
  case False
  then obtain p where p: "probe_loop {0, x} x (buckets m) 0 INSTANCE_MAP_SIZE = Some p" by blast
  obtain j where j: "j < INSTANCE_MAP_SIZE" "p = map_probe x j"
      "\<forall>j' < j. bk_inst (buckets m ! map_probe x j') \<notin> {0, x}"
    using probe_Some [OF p] by auto
  show ?thesis
  proof (cases "bk_inst (buckets m ! p) = x")
    case True
    then have "probe_loop {x} x (buckets m) 0 INSTANCE_MAP_SIZE = Some p"
      unfolding j(2) using j by (intro probe_SomeI) auto
    then show ?thesis using True False p assms by (simp add: first_entry_def instance_map_get_def sound_map_def)
  qed (use False p assms in \<open>simp add: instance_map_get_def sound_map_def\<close>)
qed (use assms in \<open>auto simp: instance_map_get_def sound_map_def\<close>)

section \<open>Running instances and the map\<close>

definition map_right :: "runtime \<Rightarrow> bool" where
  "map_right rt \<longleftrightarrow>
     sound_map (rt_imap rt) \<and>
     (\<forall>i < 8. \<forall>x. ap_thread (app_at rt i) = Running x \<longrightarrow>
        x \<noteq> 0 \<and> custom_data (rt_engine rt) x = Some i \<and> first_entry x (rt_imap rt) \<in> {None, Some (int i)})"

lemma map_rightD:
  assumes "map_right rt"
  shows "sound_map (rt_imap rt)"
    and "i < 8 \<Longrightarrow> ap_thread (app_at rt i) = Running x \<Longrightarrow> x \<noteq> 0"
    and "i < 8 \<Longrightarrow> ap_thread (app_at rt i) = Running x \<Longrightarrow> custom_data (rt_engine rt) x = Some i"
    and "i < 8 \<Longrightarrow> ap_thread (app_at rt i) = Running x \<Longrightarrow> first_entry x (rt_imap rt) \<in> {None, Some (int i)}"
  using assms by (simp_all add: map_right_def)

text \<open>No new running instance, and at most an instance that no longer runs is taken out of the map.\<close>

lemma map_right_keep:
  assumes m: "map_right rt" and "custom_data (rt_engine rt') = custom_data (rt_engine rt)"
    and r: "\<forall>i < 8. \<forall>x. ap_thread (app_at rt' i) = Running x \<longrightarrow> ap_thread (app_at rt i) = Running x"
    and "rt_imap rt' = rt_imap rt \<or>
      (\<exists>y. rt_imap rt' = instance_map_remove y (rt_imap rt) \<and> (\<forall>i < 8. ap_thread (app_at rt' i) \<noteq> Running y))"
  shows "map_right rt'"
proof -
  note d = map_rightD [OF m]
  have "first_entry x (rt_imap rt') \<in> {None, Some (int i)}" if "i < 8" "ap_thread (app_at rt' i) = Running x" for i x
    using assms(4) d(4) [of i x] r that d(2) [of i x] first_entry_remove_other [OF d(1), of x] by auto
  then show ?thesis using d r assms(2,4) by (auto simp: map_right_def)
qed

lemma map_right_put:
  assumes m: "map_right rt" and "i < 8" and x: "ap_thread (app_at rt i) = Running x"
    and u: "\<forall>j < 8. ap_thread (app_at rt j) = Running x \<longrightarrow> j = i"
  shows "map_right (rt\<lparr>rt_imap := snd (instance_map_put x (int i) (rt_imap rt))\<rparr>)"
proof -
  note d = map_rightD [OF m]
  have "first_entry y (snd (instance_map_put x (int i) (rt_imap rt))) \<in> {None, Some (int j)}"
    if j: "j < 8" "ap_thread (app_at rt j) = Running y" for j y
  proof (cases "y = x")
    case True
    then have "j = i" using u j by blast
    then show ?thesis using True first_entry_put_same [OF d(1) d(2) [OF assms(2) x]] by simp
  next
    case False
    then show ?thesis using d(4) [OF j] first_entry_put_other [OF d(1) False d(2) [OF j]] by simp
  qed
  then show ?thesis using d by (simp add: map_right_def rt_simps)
qed

section \<open>Each operation on the map\<close>

text \<open>What an operation on slot \<open>i\<close> does to the map, to the custom data and to the other slots.\<close>

definition map_step :: "nat \<Rightarrow> runtime \<Rightarrow> runtime \<Rightarrow> bool" where
  "map_step i rt rt' \<longleftrightarrow>
     custom_data (rt_engine rt') = custom_data (rt_engine rt) \<and>
     (\<forall>j. j \<noteq> i \<longrightarrow> ap_thread (app_at rt' j) = ap_thread (app_at rt j)) \<and>
     (\<forall>x. ap_thread (app_at rt' i) = Running x \<longrightarrow> ap_thread (app_at rt i) = Running x) \<and>
     (rt_imap rt' = rt_imap rt \<or>
      (\<exists>x. ap_instance (app_at rt i) = Some x \<and> rt_imap rt' = instance_map_remove x (rt_imap rt) \<and>
         (\<forall>y. ap_thread (app_at rt' i) \<noteq> Running y)))"

lemma running_instance:
  assumes "threads_ok rt" and "i < 8"
  shows "ap_instance (app_at rt i) = Some x \<longleftrightarrow> ap_thread (app_at rt i) = Running x"
  using threads_okD(1) [OF assms] by (simp add: slot_ok_def)

lemma running_unique:
  assumes "threads_ok rt" and "rt_owns rt" and "i < 8" and "j < 8"
    and "ap_thread (app_at rt i) = Running x" and "ap_thread (app_at rt j) = Running x"
  shows "i = j"
  using ownsD(8) [OF rt_ownsD(2) [OF assms(2)] assms(3,4)] running_instance [OF assms(1)] assms(3-6) by blast

lemma map_right_step:
  assumes m: "map_right rt" and t: "threads_ok rt" and o: "rt_owns rt" and i: "i < 8" and s: "map_step i rt rt'"
  shows "map_right rt'"
proof (rule map_right_keep [OF m])
  have r: "ap_thread (app_at rt j) = Running x" if "ap_thread (app_at rt' j) = Running x" for j x
    using s that unfolding map_step_def by (cases "j = i") auto
  then show "\<forall>j < 8. \<forall>x. ap_thread (app_at rt' j) = Running x \<longrightarrow> ap_thread (app_at rt j) = Running x" by blast
  have "ap_thread (app_at rt' j) \<noteq> Running x"
    if "j < 8" "ap_instance (app_at rt i) = Some x" "\<forall>y. ap_thread (app_at rt' i) \<noteq> Running y" for j x
  proof
    assume "ap_thread (app_at rt' j) = Running x"
    then have "i = j" using r running_unique [OF t o i that(1)] running_instance [OF t i] that(2) by blast
    then show False using that(3) \<open>ap_thread (app_at rt' j) = Running x\<close> by blast
  qed
  then show "rt_imap rt' = rt_imap rt \<or>
      (\<exists>y. rt_imap rt' = instance_map_remove y (rt_imap rt) \<and> (\<forall>j < 8. ap_thread (app_at rt' j) \<noteq> Running y))"
    using s unfolding map_step_def by blast
qed (use s in \<open>simp add: map_step_def\<close>)

lemma engine_custom [rt_simps]:
  "custom_data (buffer_alloc b e) = custom_data e" "custom_data (buffer_free b e) = custom_data e"
  "custom_data (module_load m b e) = custom_data e" "custom_data (module_unload m e) = custom_data e"
  "custom_data (module_used mo e) = custom_data e" "custom_data (instantiate_module m x e) = custom_data e"
  "custom_data (deinstantiate x e) = custom_data e"
  by (simp_all add: buffer_alloc_def buffer_free_def module_load_def module_unload_def module_used_def
      instantiate_module_def deinstantiate_def)

lemma piece_custom [rt_simps]:
  "custom_data (rt_engine (unload_module i rt)) = custom_data (rt_engine rt)"
  "custom_data (rt_engine (free_binary i rt)) = custom_data (rt_engine rt)"
  "custom_data (rt_engine (drop_instance i rt)) = custom_data (rt_engine rt)"
  by (simp_all add: unload_module_def free_binary_def drop_instance_def rt_simps split: option.splits)

lemma drop_instance_imap [rt_simps]:
  "rt_imap (drop_instance i rt) =
     (case ap_instance (app_at rt i) of None \<Rightarrow> rt_imap rt | Some x \<Rightarrow> instance_map_remove x (rt_imap rt))"
  by (simp add: drop_instance_def rt_simps split: option.splits)

lemma map_step_simple:
  assumes "length (g_apps rt') = length (g_apps rt)" and "app_at rt' = (app_at rt)(i := a)"
    and "\<forall>x. ap_thread a = Running x \<longrightarrow> ap_thread (app_at rt i) = Running x" and "rt_imap rt' = rt_imap rt"
    and "custom_data (rt_engine rt') = custom_data (rt_engine rt)"
  shows "map_step i rt rt'"
  using assms by (simp add: map_step_def)

lemma map_step_finish:
  assumes t: "threads_ok rt" and i: "i < 8" and x: "ap_thread (app_at rt i) = Running x"
  shows "map_step i rt (thread_finish now i out rt)"
  using running_instance [OF t i, of x] threads_okD(2) [OF t i] x by (simp add: map_step_def thread_finish_def Let_def rt_simps)

lemma map_step_signal: "i < length (g_apps rt) \<Longrightarrow> map_step i rt (thread_signal i rt)"
  by (simp add: map_step_def thread_signal_def rt_simps)

lemma map_step_release: "i < length (g_apps rt) \<Longrightarrow> map_step i rt (thread_release i rt)"
  by (simp add: map_step_def thread_release_def Let_def rt_simps)

lemma map_step_start_timeout: "i < length (g_apps rt) \<Longrightarrow> map_step i rt (snd (start_timeout i rt))"
  by (simp add: map_step_def start_timeout_def rt_simps)

lemma map_step_start_end: "i < length (g_apps rt) \<Longrightarrow> map_step i rt (snd (start_end i rt))"
  by (simp add: map_step_def start_end_def Let_def rt_simps)

lemma map_step_stop_end: "i < length (g_apps rt) \<Longrightarrow> map_step i rt (snd (stop_end timed_out i rt))"
  by (auto simp: map_step_def stop_end_def stop_abort_def Let_def rt_simps split: option.splits)

lemma map_step_destroy_rest:
  "i < length (g_apps rt) \<Longrightarrow> ap_thread (app_at rt i) = No_thread \<Longrightarrow> map_step i rt (snd (destroy_rest i rt))"
  by (auto simp: map_step_def destroy_rest_def Let_def rt_simps cleared_app_def split: option.splits)

lemma map_step_start_begin:
  assumes "slot_valid rt k" and "length (g_apps rt) = 8" and "start_begin ok k rt = (r, rt')"
  shows "map_step (nat k) rt rt'"
  using assms slot_valid_index [OF assms(1)]
  by (auto simp: map_step_def start_begin_def Let_def rt_simps split: if_splits)

lemma map_right_instantiate:
  assumes m: "map_right rt" and t: "threads_ok rt" and o: "rt_owns rt" and i: "i < 8"
    and c: "ap_thread (app_at rt i) = Created" and f: "fresh_instance out (rt_engine rt)"
  shows "map_right (thread_instantiate now i out rt)"
proof -
  note l = threads_okD(2) [OF t i] and d = map_rightD [OF m]
  have simple: "map_step i rt (thread_instantiate now i out rt)" if "\<forall>x. out \<noteq> Instance x"
    using that l by (cases out) (auto simp: map_step_def thread_instantiate_def Let_def rt_simps start_failed_def)
  show ?thesis
  proof (cases "\<exists>x. out = Instance x")
    case False
    then show ?thesis using map_right_step [OF m t o i] simple by blast
  next
    case True
    then obtain x where x: "out = Instance x" by blast
    have nx: "x \<noteq> 0" "x \<notin> fst ` live_instances (rt_engine rt)" using f by (simp_all add: x fresh_instance_def)
    let ?rt = "thread_instantiate now i out rt"
    have im: "rt_imap ?rt = snd (instance_map_put x (int i) (rt_imap rt))"
      "custom_data (rt_engine ?rt) = (custom_data (rt_engine rt))(x := Some i)"
      by (simp_all add: x thread_instantiate_def Let_def rt_simps)
    have th: "ap_thread (app_at ?rt j) = (if j = i then Running x else ap_thread (app_at rt j))" for j
      using l by (simp add: x thread_instantiate_def Let_def rt_simps)
    have live: "y \<in> fst ` live_instances (rt_engine rt)" if j: "j < 8" "ap_thread (app_at rt j) = Running y" for j y
    proof -
      have "ap_instance (app_at rt j) = Some y" using running_instance [OF t j(1)] j(2) by blast
      then show ?thesis using ownsD(9) [OF rt_ownsD(2) [OF o], of j] ownsD(10) [OF rt_ownsD(2) [OF o]] j(1) by (force simp: held_pairs_def)
    qed
    have "y \<noteq> 0 \<and> custom_data (rt_engine ?rt) y = Some j \<and> first_entry y (rt_imap ?rt) \<in> {None, Some (int j)}"
      if j: "j < 8" "ap_thread (app_at ?rt j) = Running y" for j y
    proof (cases "j = i")
      case True
      then show ?thesis using j(2) th nx(1) first_entry_put_same [OF d(1) nx(1), of "int i"] im by simp
    next
      case False
      then have jy: "ap_thread (app_at rt j) = Running y" using j(2) th by simp
      then have "y \<noteq> x" using live [OF j(1)] nx(2) by blast
      then show ?thesis
        using d(2-4) [OF j(1) jy] im first_entry_put_other [OF d(1), of y x] by simp
    qed
    then show ?thesis using d(1) im by (simp add: map_right_def)
  qed
qed

section \<open>Buffers without a slot\<close>

definition no_leak :: "runtime \<Rightarrow> bool" where
  "no_leak rt \<longleftrightarrow>
     (\<forall>b \<in> live_buffers (rt_engine rt). \<exists>i < 8. ap_binary (app_at rt i) = Some b) \<and>
     (\<forall>i < 8. ap_binary (app_at rt i) \<noteq> None \<longrightarrow> ap_used (app_at rt i))"

lemma no_leak_keep:
  assumes "no_leak rt" and "live_buffers (rt_engine rt') = live_buffers (rt_engine rt)"
    and "\<forall>i. ap_binary (app_at rt' i) = ap_binary (app_at rt i)"
    and "\<forall>i < 8. ap_used (app_at rt i) \<longrightarrow> ap_used (app_at rt' i)"
  shows "no_leak rt'"
  using assms by (simp add: no_leak_def)

lemma no_leak_free:
  assumes "no_leak rt" and "i < 8"
    and "live_buffers (rt_engine rt') = live_buffers (rt_engine rt) - set_option (ap_binary (app_at rt i))"
    and "app_at rt' = (app_at rt)(i := a)" and "ap_binary a = None"
  shows "no_leak rt'"
proof -
  have "\<exists>j < 8. ap_binary (app_at rt' j) = Some b" if "b \<in> live_buffers (rt_engine rt')" for b
  proof -
    have b: "b \<in> live_buffers (rt_engine rt)" "ap_binary (app_at rt i) \<noteq> Some b" using that assms(3) by auto
    then obtain j where j: "j < 8" "ap_binary (app_at rt j) = Some b" using assms(1) by (auto simp: no_leak_def)
    then have "j \<noteq> i" using b(2) by blast
    then show ?thesis using j assms(4) by auto
  qed
  moreover have "ap_used (app_at rt' j)" if "j < 8" "ap_binary (app_at rt' j) \<noteq> None" for j
    using assms(1,4,5) that by (cases "j = i") (auto simp: no_leak_def)
  ultimately show ?thesis by (simp add: no_leak_def)
qed

lemma no_leak_load:
  assumes n: "no_leak rt" and i: "i < 8" "\<not> ap_used (app_at rt i)" and l: "loaded_slot env buffer rt i rt'"
  shows "no_leak rt'"
proof -
  obtain b m a where a: "app_at rt' = (app_at rt)(i := a)" "rt_engine rt' = module_load m b (buffer_alloc b (rt_engine rt))"
      "ap_used a" "ap_binary a = Some b"
    using l by (auto simp: loaded_slot_def)
  have none: "ap_binary (app_at rt i) = None" using n i by (auto simp: no_leak_def)
  have live: "live_buffers (rt_engine rt') = insert b (live_buffers (rt_engine rt))"
    by (simp add: a(2) module_load_def buffer_alloc_def)
  have "\<exists>j < 8. ap_binary (app_at rt' j) = Some b'" if "b' \<in> live_buffers (rt_engine rt')" for b'
  proof (cases "b' = b")
    case False
    then have "b' \<in> live_buffers (rt_engine rt)" using that live by simp
    then obtain j where j: "j < 8" "ap_binary (app_at rt j) = Some b'" using n unfolding no_leak_def by blast
    then have "j \<noteq> i" using none by auto
    then show ?thesis using j a(1) by auto
  qed (use a i in \<open>auto intro!: exI [of _ i]\<close>)
  moreover have "ap_used (app_at rt' j)" if "j < 8" "ap_binary (app_at rt' j) \<noteq> None" for j
    using n a that by (cases "j = i") (auto simp: no_leak_def)
  ultimately show ?thesis by (simp add: no_leak_def)
qed

lemma engine_buffers [rt_simps]:
  "live_buffers (buffer_free b e) = live_buffers e - {b}"
  "live_buffers (module_load m b e) = live_buffers e" "live_buffers (module_unload m e) = live_buffers e"
  "live_buffers (module_used mo e) = live_buffers e" "live_buffers (instantiate_module m x e) = live_buffers e"
  "live_buffers (deinstantiate x e) = live_buffers e"
  by (simp_all add: buffer_free_def module_load_def module_unload_def module_used_def instantiate_module_def deinstantiate_def)

lemma piece_buffers [rt_simps]:
  "live_buffers (rt_engine (unload_module i rt)) = live_buffers (rt_engine rt)"
  "live_buffers (rt_engine (free_binary i rt)) = live_buffers (rt_engine rt) - set_option (ap_binary (app_at rt i))"
  "live_buffers (rt_engine (drop_instance i rt)) = live_buffers (rt_engine rt)"
  by (simp_all add: unload_module_def free_binary_def drop_instance_def rt_simps split: option.splits)

lemma no_leak_instantiate: "no_leak rt \<Longrightarrow> i < length (g_apps rt) \<Longrightarrow> no_leak (thread_instantiate now i out rt)"
  by (rule no_leak_keep, assumption)
    (auto simp: thread_instantiate_def Let_def rt_simps start_failed_def split: instantiation_outcome.splits)

lemma no_leak_finish: "no_leak rt \<Longrightarrow> i < length (g_apps rt) \<Longrightarrow> no_leak (thread_finish now i out rt)"
  by (rule no_leak_keep, assumption) (auto simp: thread_finish_def Let_def rt_simps split: thread_state.splits)

lemma no_leak_signal: "no_leak rt \<Longrightarrow> i < length (g_apps rt) \<Longrightarrow> no_leak (thread_signal i rt)"
  by (rule no_leak_keep, assumption) (auto simp: thread_signal_def rt_simps)

lemma no_leak_release: "no_leak rt \<Longrightarrow> length (g_apps rt) = 8 \<Longrightarrow> i < 8 \<Longrightarrow> no_leak (thread_release i rt)"
  by (rule no_leak_free, assumption, assumption) (auto simp: thread_release_def Let_def rt_simps)

lemma no_leak_start_begin:
  assumes "no_leak rt" and "length (g_apps rt) = 8" and "start_begin ok k rt = (r, rt')"
  shows "no_leak rt'"
proof (rule no_leak_keep [OF assms(1)])
  show "live_buffers (rt_engine rt') = live_buffers (rt_engine rt)" "\<forall>i. ap_binary (app_at rt' i) = ap_binary (app_at rt i)"
    "\<forall>i < 8. ap_used (app_at rt i) \<longrightarrow> ap_used (app_at rt' i)"
    using assms(2,3) by (auto simp: start_begin_def Let_def rt_simps split: if_splits)
qed

lemma no_leak_start_end: "no_leak rt \<Longrightarrow> i < length (g_apps rt) \<Longrightarrow> no_leak (snd (start_end i rt))"
  by (rule no_leak_keep, assumption) (auto simp: start_end_def Let_def rt_simps)

lemma no_leak_stop_begin: "no_leak rt \<Longrightarrow> stop_begin k rt = (r, rt') \<Longrightarrow> no_leak rt'"
  by (rule no_leak_keep, assumption) (auto simp: stop_begin_def Let_def rt_simps split: if_splits)

lemma no_leak_stop_end: "no_leak rt \<Longrightarrow> i < length (g_apps rt) \<Longrightarrow> no_leak (snd (stop_end timed_out i rt))"
  by (rule no_leak_keep, assumption) (auto simp: stop_end_def stop_abort_def Let_def rt_simps)

lemma no_leak_destroy_rest:
  assumes "no_leak rt" and "length (g_apps rt) = 8" and "i < 8"
  shows "no_leak (snd (destroy_rest i rt))"
proof (rule no_leak_free [OF assms(1,3)])
  show "live_buffers (rt_engine (snd (destroy_rest i rt))) = live_buffers (rt_engine rt) - set_option (ap_binary (app_at rt i))"
    using assms(2,3) by (auto simp: destroy_rest_def Let_def rt_simps cleared_app_def)
  show "app_at (snd (destroy_rest i rt)) = (app_at rt)(i := app_at (snd (destroy_rest i rt)) i)"
    "ap_binary (app_at (snd (destroy_rest i rt)) i) = None"
    using assms(2,3) by (auto simp: destroy_rest_def Let_def rt_simps cleared_app_def fun_eq_iff)
qed

end
