(* ===== verification/Runtime_Safety.thy ===== *)
theory Runtime_Safety
  imports Runtime_Instances
begin

text \<open>
  What the runtime of applications promises about the engine: whatever the threads of the applications
  do in between, every buffer, module and instance is given back once, a module never outlives its
  buffer nor an instance its module, and without a start that timed out nothing is held that no
  application needs.

  \<open>runtime_step\<close> is one step of a thread or of a call.
\<close>

section \<open>Steps\<close>

text \<open>
  One call is in progress at a time. A call that joins a thread goes on when the thread is gone, and a
  slot whose stop timed out is destroyed before it is started again. \<open>late\<close>: a start may give up.
\<close>

inductive runtime_step :: "bool \<Rightarrow> runtime \<Rightarrow> runtime \<Rightarrow> bool" for late :: bool where
  load: "pending rt = Idle \<Longrightarrow> fresh_for env buffer (rt_engine rt) \<Longrightarrow>
    akira_runtime_load_wasm cr w fuel now later env buffer rt = Some (r, rt') \<Longrightarrow> runtime_step late rt rt'"
| install: "pending rt = Idle \<Longrightarrow> fresh_for env buffer (rt_engine rt) \<Longrightarrow>
    akira_runtime_install_with_manifest cr w fuel now later env nm buffer json rt = Some (r, rt') \<Longrightarrow>
    runtime_step late rt rt'"
| start: "pending rt = Idle \<Longrightarrow>
    slot_valid rt k \<Longrightarrow> ap_thread (app_at rt (nat k)) = No_thread \<Longrightarrow> ap_module (app_at rt (nat k)) \<noteq> None \<Longrightarrow>
    start_begin ok k rt = (r, rt') \<Longrightarrow> runtime_step late rt rt'"
| instantiate: "i < AKIRA_MAX_WASM_INSTANCES \<Longrightarrow> ap_thread (app_at rt i) = Created \<Longrightarrow>
    fresh_instance out (rt_engine rt) \<Longrightarrow> runtime_step late rt (thread_instantiate now i out rt)"
| finish: "i < AKIRA_MAX_WASM_INSTANCES \<Longrightarrow> ap_thread (app_at rt i) = Running x \<Longrightarrow>
    runtime_step late rt (thread_finish now i mo rt)"
| signal: "i < AKIRA_MAX_WASM_INSTANCES \<Longrightarrow> ap_thread (app_at rt i) = Exiting \<Longrightarrow>
    runtime_step late rt (thread_signal i rt)"
| release: "i < AKIRA_MAX_WASM_INSTANCES \<Longrightarrow> ap_thread (app_at rt i) = Signalled \<Longrightarrow>
    runtime_step late rt (thread_release i rt)"
| started: "pending rt = Starting i \<Longrightarrow> ap_thread (app_at rt i) \<noteq> Created \<Longrightarrow>
    ap_status (app_at rt i) = AKIRA_APP_STATUS_ERROR \<longrightarrow> ap_thread (app_at rt i) = No_thread \<Longrightarrow>
    runtime_step late rt (snd (start_end i rt))"
| start_timed_out: "late \<Longrightarrow> pending rt = Starting i \<Longrightarrow> ap_thread (app_at rt i) = Created \<Longrightarrow>
    runtime_step late rt (snd (start_timeout i rt))"
| stop: "pending rt = Idle \<Longrightarrow> stop_begin k rt = (r, rt') \<Longrightarrow> runtime_step late rt rt'"
| stopped: "pending rt = Stopping i \<Longrightarrow> stop_waited timed_out (app_at rt i) \<Longrightarrow>
    runtime_step late rt (snd (stop_end timed_out i rt))"
| destroy: "pending rt = Idle \<Longrightarrow> destroy_begin k rt = (r, rt') \<Longrightarrow> runtime_step late rt rt'"
| destroyed: "pending rt = Destroying i \<Longrightarrow> stop_waited timed_out (app_at rt i) \<Longrightarrow>
    runtime_step late rt (snd (destroy_end timed_out i rt))"
| uninstall: "pending rt = Idle \<Longrightarrow> uninstall_begin nmo k rt = (r, rt') \<Longrightarrow> runtime_step late rt rt'"
| uninstalled: "pending rt = Stopping i \<Longrightarrow> stop_waited timed_out (app_at rt i) \<Longrightarrow>
    runtime_step late rt (snd (uninstall_end timed_out i rt))"
| lookup: "runtime_step late rt (snd (get_slot_for_module_inst rt x))"

definition no_engine :: engine where
  "no_engine = \<lparr>live_buffers = {}, live_modules = {}, live_instances = {}, custom_data = (\<lambda>_. None), misuse = False\<rparr>"

text \<open>The state at boot, after the allocation of the stacks and the initialisation.\<close>

definition booted :: "bool list \<Rightarrow> signing \<Rightarrow> runtime" where
  "booted stacks sg =
     snd (akira_runtime_init True True (wasm_stacks_early_alloc stacks
       \<lparr>g_apps = replicate AKIRA_MAX_WASM_INSTANCES no_app, g_ready = False, g_stacks = [], g_exit_cb = False,
        rt_cache = module_cache_init [], rt_imap = instance_map_init, rt_signing = sg, rt_engine = no_engine, rt_audit = [],
        rt_ipc_cleanups = [], rt_callbacks = [], pending = Idle\<rparr>))"

inductive runtime_reachable :: "bool \<Rightarrow> runtime \<Rightarrow> bool" for late :: bool where
  boot: "runtime_reachable late (booted stacks sg)"
| step: "runtime_reachable late rt \<Longrightarrow> runtime_step late rt rt' \<Longrightarrow> runtime_reachable late rt'"

section \<open>The invariant\<close>

definition runtime_ok :: "bool \<Rightarrow> runtime \<Rightarrow> bool" where
  "runtime_ok late rt \<longleftrightarrow> rt_owns rt \<and> threads_ok rt \<and> map_right rt \<and> (\<not> late \<longrightarrow> no_leak rt)"

lemma runtime_okD:
  assumes "runtime_ok late rt"
  shows "rt_owns rt" and "threads_ok rt" and "map_right rt" and "\<not> late \<Longrightarrow> no_leak rt" and "length (g_apps rt) = 8"
  using assms by (simp_all add: runtime_ok_def threads_ok_def)

lemma slot_step_ok:
  assumes ok: "runtime_ok late rt" and "i < 8" and "map_step i rt rt'" and "rt_owns rt'" and "threads_ok rt'"
    and "\<not> late \<Longrightarrow> no_leak rt \<Longrightarrow> no_leak rt'"
  shows "runtime_ok late rt'"
  using assms map_right_step [of rt i rt'] by (simp add: runtime_ok_def)

lemma booted_app: "i < 8 \<Longrightarrow> app_at (booted stacks sg) i = no_app"
  by (simp add: booted_def akira_runtime_init_def wasm_stacks_early_alloc_def app_at_def AKIRA_MAX_WASM_INSTANCES_def)

lemma booted_simps:
  "length (g_apps (booted stacks sg)) = 8" "rt_engine (booted stacks sg) = no_engine" "pending (booted stacks sg) = Idle"
  "rt_imap (booted stacks sg) = instance_map_init"
  by (simp_all add: booted_def akira_runtime_init_def wasm_stacks_early_alloc_def AKIRA_MAX_WASM_INSTANCES_def)

lemma booted_ok: "runtime_ok late (booted stacks sg)"
  unfolding runtime_ok_def
proof (intro conjI impI)
  have a: "app_at (booted stacks sg) i = no_app" if "i < 8" for i using booted_app that by simp
  show "rt_owns (booted stacks sg)"
    by (auto simp: rt_owns_def owns_def booted_simps no_engine_def a no_app_def held_pairs_def)
  show "threads_ok (booted stacks sg)" by (simp add: threads_ok_def booted_simps a slot_ok_def no_app_def)
  show "map_right (booted stacks sg)"
    by (simp add: map_right_def sound_map_def booted_simps instance_map_init_def a no_app_def)
  show "no_leak (booted stacks sg)" by (simp add: no_leak_def booted_simps no_engine_def a no_app_def)
qed

section \<open>Each step keeps the invariant\<close>

lemma unchanged_ok:
  assumes ok: "runtime_ok late rt" and u: "unchanged_slots rt rt'"
  shows "runtime_ok late rt'"
proof -
  have a: "app_at rt' = app_at rt" and e: "rt_engine rt' = rt_engine rt" "pending rt' = pending rt" "rt_imap rt' = rt_imap rt"
    "length (g_apps rt') = length (g_apps rt)" using u by (auto simp: unchanged_slots_def fun_eq_iff)
  show ?thesis using ok by (simp add: runtime_ok_def rt_owns_def threads_ok_def map_right_def no_leak_def a e)
qed

lemma loaded_ok:
  assumes ok: "runtime_ok late rt" and p: "pending rt = Idle" and f: "fresh_for env buffer (rt_engine rt)"
    and s: "free_slot (g_apps rt) = Some i" and l: "loaded_slot env buffer rt i rt'"
  shows "runtime_ok late rt'"
proof (rule slot_step_ok [OF ok])
  note d = runtime_okD [OF ok]
  note i = free_slot_unused [OF d(2) s]
  show "i < 8" by (rule i(1))
  show "rt_owns rt'" by (rule loaded_slot_owns [OF d(1) i(1,5) f l])
  show "threads_ok rt'" by (rule loaded_slot_threads [OF d(2) s p l])
  show "no_leak rt'" if "no_leak rt" by (rule no_leak_load [OF that i(1,3) l])
  show "map_step i rt rt'" using l by (auto simp: loaded_slot_def map_step_def rt_simps)
qed

lemma load_ok:
  assumes "runtime_ok late rt" and "pending rt = Idle" and "fresh_for env buffer (rt_engine rt)"
    and "akira_runtime_load_wasm cr w fuel now later env buffer rt = Some (r, rt')"
  shows "runtime_ok late rt'" and "0 \<le> r \<Longrightarrow> nat r < 8"
proof -
  note d = runtime_okD [OF assms(1)]
  note c = load_cases [OF d(2,1) assms(3,4)]
  show "runtime_ok late rt'" using c unchanged_ok [OF assms(1)] loaded_ok [OF assms(1-3)] by blast
  show "0 \<le> r \<Longrightarrow> nat r < 8" using c free_slot_unused(1) [OF d(2)] by auto
qed

text \<open>A change of the capabilities, the quota or the name of a slot.\<close>

lemma set_app_ok:
  assumes ok: "runtime_ok late rt" and i: "i < 8"
    and f: "ap_module (f (app_at rt i)) = ap_module (app_at rt i)" "ap_binary (f (app_at rt i)) = ap_binary (app_at rt i)"
      "ap_instance (f (app_at rt i)) = ap_instance (app_at rt i)" "ap_thread (f (app_at rt i)) = ap_thread (app_at rt i)"
      "ap_used (f (app_at rt i)) = ap_used (app_at rt i)" "ap_status (f (app_at rt i)) = ap_status (app_at rt i)"
  shows "runtime_ok late (set_app i f rt)"
proof (rule slot_step_ok [OF ok i])
  note d = runtime_okD [OF ok]
  have sk: "slot_ok (pending rt) i (app_at rt i)" using threads_okD(1) [OF d(2) i] .
  show "map_step i rt (set_app i f rt)" using d(5) i f by (simp add: map_step_def rt_simps)
  show "rt_owns (set_app i f rt)" using d(1) f by (simp add: rt_owns_set_app)
  show "threads_ok (set_app i f rt)"
    by (rule threads_okI [OF d(2) i, where a = "f (app_at rt i)"])
      (use d(5) i f sk thread_pending [OF d(2)] in \<open>simp_all add: rt_simps slot_ok_def\<close>)
  show "no_leak (set_app i f rt)" if "no_leak rt"
    by (rule no_leak_keep [OF that]) (use d(5) i f in \<open>auto simp: rt_simps\<close>)
qed

lemma install_ok:
  assumes ok: "runtime_ok late rt" and "pending rt = Idle" and "fresh_for env buffer (rt_engine rt)"
    and s: "akira_runtime_install_with_manifest cr w fuel now later env nm buffer json rt = Some (r, rt')"
  shows "runtime_ok late rt'"
proof (cases "buffer = []")
  case True
  then show ?thesis using s ok by (simp add: akira_runtime_install_with_manifest_def)
next
  case False
  then obtain ret mf where mf: "manifest_parse_with_fallback w fuel (Some buffer) json = Some (In_bounds (ret, mf))"
    using s by (auto simp: akira_runtime_install_with_manifest_def split: option.splits checked.splits)
  obtain q rt1 where l: "akira_runtime_load_wasm cr w fuel now later env buffer rt = Some (q, rt1)"
    using s False mf by (auto simp: akira_runtime_install_with_manifest_def split: option.splits)
  note d = load_ok [OF assms(1-3) l]
  show ?thesis
  proof (cases "q < 0")
    case True
    then show ?thesis using s False mf l d(1) by (auto simp: akira_runtime_install_with_manifest_def)
  next
    case nonneg: False
    then have i: "nat q < 8" using d(2) by simp
    show ?thesis
      using s False mf l d(1) nonneg i
      by (auto simp: akira_runtime_install_with_manifest_def Let_def split: if_splits intro!: set_app_ok)
  qed
qed

lemma start_ok:
  assumes ok: "runtime_ok late rt" and p: "pending rt = Idle" and v: "slot_valid rt k"
    and n: "ap_thread (app_at rt (nat k)) = No_thread" "ap_module (app_at rt (nat k)) \<noteq> None"
    and s: "start_begin okt k rt = (r, rt')"
  shows "runtime_ok late rt'"
proof (rule slot_step_ok [OF ok])
  note d = runtime_okD [OF ok]
  show "nat k < 8" using slot_valid_index [OF v] by simp
  show "map_step (nat k) rt rt'" by (rule map_step_start_begin [OF v d(5) s])
  show "rt_owns rt'" by (rule rt_owns_start_begin [OF d(1) s])
  show "threads_ok rt'" by (rule start_begin_threads [OF d(2) p v n s])
  show "no_leak rt'" if "no_leak rt" by (rule no_leak_start_begin [OF that d(5) s])
qed

lemma thread_ok:
  assumes ok: "runtime_ok late rt" and i: "i < 8"
  shows "ap_thread (app_at rt i) = Created \<Longrightarrow> fresh_instance out (rt_engine rt) \<Longrightarrow> runtime_ok late (thread_instantiate now i out rt)"
    and "ap_thread (app_at rt i) = Running x \<Longrightarrow> runtime_ok late (thread_finish now i mo rt)"
    and "ap_thread (app_at rt i) = Exiting \<Longrightarrow> runtime_ok late (thread_signal i rt)"
    and "ap_thread (app_at rt i) = Signalled \<Longrightarrow> runtime_ok late (thread_release i rt)"
proof -
  note d = runtime_okD [OF ok]
  have l: "i < length (g_apps rt)" using d(5) i by simp
  note sk = threads_okD(1) [OF d(2) i]
  have n: "ap_instance (app_at rt i) = None" if "\<forall>x. ap_thread (app_at rt i) \<noteq> Running x"
    using slot_ok_instance [OF sk that] .
  show "runtime_ok late (thread_instantiate now i out rt)"
    if c: "ap_thread (app_at rt i) = Created" and f: "fresh_instance out (rt_engine rt)"
  proof -
    obtain m where m: "ap_module (app_at rt i) = Some m" using sk c by (auto simp: slot_ok_def)
    have "ap_instance (app_at rt i) = None" using n c by simp
    then show ?thesis
      using rt_owns_instantiate [OF d(1) i m _ f] instantiate_threads [OF d(2) i c] map_right_instantiate [OF d(3,2,1) i c f]
        no_leak_instantiate [OF d(4) l] by (simp add: runtime_ok_def)
  qed
  show "runtime_ok late (thread_finish now i mo rt)" if x: "ap_thread (app_at rt i) = Running x"
    by (rule slot_step_ok [OF ok i map_step_finish [OF d(2) i x]])
      (use rt_owns_finish [OF d(1) i x] running_instance [OF d(2) i, of x] x finish_threads [OF d(2) i x] no_leak_finish l in auto)
  show "runtime_ok late (thread_signal i rt)" if x: "ap_thread (app_at rt i) = Exiting"
    by (rule slot_step_ok [OF ok i map_step_signal [OF l]])
      (use rt_owns_signal [OF d(1)] signal_threads [OF d(2) i x] no_leak_signal l in auto)
  show "runtime_ok late (thread_release i rt)" if x: "ap_thread (app_at rt i) = Signalled"
    by (rule slot_step_ok [OF ok i map_step_release [OF l]])
      (use rt_owns_release [OF d(1) i] n x release_threads [OF d(2) i x] no_leak_release d(5) i in auto)
qed

lemma started_ok:
  assumes ok: "runtime_ok late rt" and p: "pending rt = Starting i"
  shows "ap_thread (app_at rt i) \<noteq> Created \<Longrightarrow> ap_status (app_at rt i) = AKIRA_APP_STATUS_ERROR \<longrightarrow> ap_thread (app_at rt i) = No_thread \<Longrightarrow>
      runtime_ok late (snd (start_end i rt))"
    and "late \<Longrightarrow> ap_thread (app_at rt i) = Created \<Longrightarrow> runtime_ok late (snd (start_timeout i rt))"
proof -
  note d = runtime_okD [OF ok]
  have i: "i < 8" "i < length (g_apps rt)" using pending_index [OF d(2)] p d(5) by simp_all
  show "runtime_ok late (snd (start_end i rt))"
    if "ap_thread (app_at rt i) \<noteq> Created" "ap_status (app_at rt i) = AKIRA_APP_STATUS_ERROR \<longrightarrow> ap_thread (app_at rt i) = No_thread"
    by (rule slot_step_ok [OF ok i(1) map_step_start_end [OF i(2)]])
      (use rt_owns_start_end [OF d(1)] start_end_threads [OF d(2) p that] no_leak_start_end i in auto)
  show "runtime_ok late (snd (start_timeout i rt))" if late "ap_thread (app_at rt i) = Created"
    by (rule slot_step_ok [OF ok i(1) map_step_start_timeout [OF i(2)]])
      (use rt_owns_start_timeout [OF d(1)] start_timeout_threads [OF d(2) p that(2)] that in auto)
qed

lemma stop_begin_ok:
  assumes ok: "runtime_ok late rt" and p: "pending rt = Idle" and s: "stop_begin k rt = (r, rt')"
  shows "runtime_ok late rt'"
proof -
  note d = runtime_okD [OF ok]
  have "rt' = rt \<or> (\<exists>i. rt' = rt\<lparr>pending := Stopping i\<rparr>)" using s by (auto simp: stop_begin_def Let_def split: if_splits)
  then have "map_right rt'" "rt_owns rt'" "no_leak rt \<Longrightarrow> no_leak rt'"
    using d(1,3) by (auto simp: map_right_def rt_simps no_leak_def)
  then show ?thesis using stop_begin_threads [OF d(2) p s] d by (simp add: runtime_ok_def)
qed

lemma stop_end_ok:
  assumes ok: "runtime_ok late rt" and p: "pending rt \<in> {Stopping i, Destroying i}" and w: "stop_waited timed_out (app_at rt i)"
  shows "runtime_ok late (snd (stop_end timed_out i rt))"
    and "ap_thread (app_at (snd (stop_end timed_out i rt)) i) = No_thread"
    and "pending (snd (stop_end timed_out i rt)) = Idle"
    and "ap_status (app_at (snd (stop_end timed_out i rt)) i) = AKIRA_APP_STATUS_STOPPED"
proof -
  note d = runtime_okD [OF ok]
  have i: "i < 8" "i < length (g_apps rt)" using pending_index [OF d(2)] p d(5) by auto
  note th = stop_end_threads [OF d(2) p w]
  show "runtime_ok late (snd (stop_end timed_out i rt))"
    by (rule slot_step_ok [OF ok i(1) map_step_stop_end [OF i(2)]])
      (use rt_owns_stop_end [OF d(1) i(1)] th(1) no_leak_stop_end i in auto)
  show "ap_thread (app_at (snd (stop_end timed_out i rt)) i) = No_thread" by (rule th(2))
  show "pending (snd (stop_end timed_out i rt)) = Idle" by (rule stop_end_rest(1) [OF i(2)])
  show "ap_status (app_at (snd (stop_end timed_out i rt)) i) = AKIRA_APP_STATUS_STOPPED"
    using i(2) by (simp add: stop_end_def Let_def rt_simps stop_abort_def)
qed

lemma destroy_rest_ok:
  assumes ok: "runtime_ok late rt" and i: "i < 8" and n: "ap_thread (app_at rt i) = No_thread" and p: "pending rt = Idle"
  shows "runtime_ok late (snd (destroy_rest i rt))"
proof -
  note d = runtime_okD [OF ok]
  have l: "i < length (g_apps rt)" using d(5) i by simp
  show ?thesis
    by (rule slot_step_ok [OF ok i map_step_destroy_rest [OF l n]])
      (use rt_owns_destroy_rest [OF d(1) i] destroy_rest_threads [OF d(2) i n p] no_leak_destroy_rest d(5) i in auto)
qed

lemma destroy_begin_ok:
  assumes ok: "runtime_ok late rt" and p: "pending rt = Idle" and s: "destroy_begin k rt = (r, rt')"
  shows "runtime_ok late rt'"
proof (cases "slot_valid rt k")
  case False
  then show ?thesis using s ok by (simp add: destroy_begin_def)
next
  case v: True
  note d = runtime_okD [OF ok]
  have i: "nat k < 8" "ap_used (app_at rt (nat k))" using slot_valid_index [OF v] by simp_all
  note sk = threads_okD(1) [OF d(2) i(1)]
  show ?thesis
  proof (cases "ap_status (app_at rt (nat k)) \<in> {AKIRA_APP_STATUS_RUNNING, AKIRA_APP_STATUS_EXITED}")
    case True
    then have rt': "rt' = rt\<lparr>pending := Destroying (nat k)\<rparr>" using s v by (auto simp: destroy_begin_def)
    have "threads_ok rt'"
      by (rule threads_same [OF d(2)]) (use p i in \<open>simp_all add: rt' rt_simps\<close>)
    then show ?thesis using d by (auto simp: runtime_ok_def rt' map_right_def rt_simps no_leak_def)
  next
    case False
    then have "ap_thread (app_at rt (nat k)) = No_thread" using sk i p by (auto simp: slot_ok_def)
    then have "runtime_ok late (snd (destroy_rest (nat k) rt))" using destroy_rest_ok ok i p by blast
    then show ?thesis using s v False by (auto simp: destroy_begin_def split: prod.splits)
  qed
qed

lemma destroy_end_ok:
  assumes ok: "runtime_ok late rt" and p: "pending rt = Destroying i" and w: "stop_waited timed_out (app_at rt i)"
  shows "runtime_ok late (snd (destroy_end timed_out i rt))"
proof -
  have i: "i < 8" using pending_index [OF runtime_okD(2) [OF ok]] p by auto
  note s = stop_end_ok [OF ok _ w, unfolded p, simplified]
  show ?thesis using destroy_rest_ok [OF s(1) i s(2,3)] by (simp add: destroy_end_def)
qed

lemma uninstall_ok:
  assumes ok: "runtime_ok late rt"
  shows "pending rt = Idle \<Longrightarrow> uninstall_begin nmo k rt = (r, rt') \<Longrightarrow> runtime_ok late rt'"
    and "pending rt = Stopping i \<Longrightarrow> stop_waited timed_out (app_at rt i) \<Longrightarrow> runtime_ok late (snd (uninstall_end timed_out i rt))"
proof -
  show "runtime_ok late rt'" if p: "pending rt = Idle" and s: "uninstall_begin nmo k rt = (r, rt')"
  proof (cases "nmo = None \<or> k < 0")
    case False
    obtain q rt1 where s1: "stop_begin k rt = (q, rt1)" by fastforce
    have "q = None \<or> rt1 = rt" using s1 by (auto simp: stop_begin_def Let_def split: if_splits)
    then show ?thesis
      using False s s1 stop_begin_ok [OF ok p s1] destroy_begin_ok [OF ok p, of k "fst (destroy_begin k rt)" "snd (destroy_begin k rt)"]
      by (auto simp: uninstall_begin_def split: option.splits)
  qed (use s ok in \<open>auto simp: uninstall_begin_def split: if_splits\<close>)
  show "runtime_ok late (snd (uninstall_end timed_out i rt))"
    if p: "pending rt = Stopping i" and w: "stop_waited timed_out (app_at rt i)"
  proof -
    note s = stop_end_ok [OF ok _ w, unfolded p, simplified]
    show ?thesis using destroy_begin_ok [OF s(1,3) prod.collapse [symmetric], of "int i"] by (simp add: uninstall_end_def)
  qed
qed

lemma slot_of_instance_iff:
  assumes ok: "runtime_ok late rt" and i: "i < 8" and x: "ap_thread (app_at rt i) = Running x"
  shows "slot_of_instance rt x = Some i"
proof -
  note d = runtime_okD [OF ok]
  have "ap_used (app_at rt i)" "ap_instance (app_at rt i) = Some x"
    using threads_okD(1) [OF d(2) i] x by (simp_all add: slot_ok_def)
  then have "slot_of_instance rt x \<noteq> None"
    using i by (simp add: slot_of_instance_def find_None_iff AKIRA_MAX_WASM_INSTANCES_def) blast
  then obtain j where j: "slot_of_instance rt x = Some j" by blast
  then have "j < 8" "ap_instance (app_at rt j) = Some x"
    by (auto simp: slot_of_instance_def find_Some_iff AKIRA_MAX_WASM_INSTANCES_def)
  then have "j = i" using running_unique [OF d(2,1) _ i] running_instance [OF d(2)] x by blast
  then show ?thesis using j by simp
qed

lemma slot_of_instance_SomeD:
  assumes ok: "runtime_ok late rt" and s: "slot_of_instance rt x = Some i"
  shows "i < 8" and "ap_thread (app_at rt i) = Running x"
proof -
  have i: "i < 8" "ap_instance (app_at rt i) = Some x"
    using s by (auto simp: slot_of_instance_def find_Some_iff AKIRA_MAX_WASM_INSTANCES_def)
  then show "i < 8" "ap_thread (app_at rt i) = Running x" using running_instance [OF runtime_okD(2) [OF ok]] by auto
qed

lemma lookup_ok:
  assumes ok: "runtime_ok late rt"
  shows "runtime_ok late (snd (get_slot_for_module_inst rt x))"
proof (cases "x = 0 \<or> 0 \<le> instance_map_get x (rt_imap rt) \<or> slot_of_instance rt x = None")
  case False
  then obtain i where s: "slot_of_instance rt x = Some i" by blast
  note d = runtime_okD [OF ok] and i = slot_of_instance_SomeD [OF ok s]
  let ?rt = "rt\<lparr>rt_imap := snd (instance_map_put x (int i) (rt_imap rt))\<rparr>"
  have "map_right ?rt"
    by (rule map_right_put [OF d(3) i]) (use running_unique [OF d(2,1) _ i(1) _ i(2)] in blast)
  moreover have "rt_owns ?rt" "threads_ok ?rt" "no_leak rt \<Longrightarrow> no_leak ?rt"
    using d(1,2) by (simp_all add: threads_ok_def no_leak_def rt_simps)
  ultimately have "runtime_ok late ?rt" using d(4) by (simp add: runtime_ok_def)
  then show ?thesis using False s by (simp add: get_slot_for_module_inst_def Let_def)
qed (use ok in \<open>auto simp: get_slot_for_module_inst_def Let_def\<close>)

lemma step_ok:
  assumes "runtime_step late rt rt'" and "runtime_ok late rt"
  shows "runtime_ok late rt'"
  using assms
proof (induction rule: runtime_step.induct)
  case load then show ?case using load_ok(1) by blast
next
  case install then show ?case using install_ok by blast
next
  case start then show ?case using start_ok by blast
next
  case instantiate then show ?case using thread_ok(1) by (simp add: AKIRA_MAX_WASM_INSTANCES_def)
next
  case finish then show ?case using thread_ok(2) by (simp add: AKIRA_MAX_WASM_INSTANCES_def)
next
  case signal then show ?case using thread_ok(3) by (simp add: AKIRA_MAX_WASM_INSTANCES_def)
next
  case release then show ?case using thread_ok(4) by (simp add: AKIRA_MAX_WASM_INSTANCES_def)
next
  case started then show ?case using started_ok(1) by blast
next
  case start_timed_out then show ?case using started_ok(2) by blast
next
  case stop then show ?case using stop_begin_ok by blast
next
  case stopped then show ?case using stop_end_ok(1) by blast
next
  case destroy then show ?case using destroy_begin_ok by blast
next
  case destroyed then show ?case using destroy_end_ok by blast
next
  case uninstall then show ?case using uninstall_ok(1) by blast
next
  case uninstalled then show ?case using uninstall_ok(2) by blast
next
  case lookup then show ?case using lookup_ok by blast
qed

lemma reachable_ok: "runtime_reachable late rt \<Longrightarrow> runtime_ok late rt"
  by (induction rule: runtime_reachable.induct) (auto intro: booted_ok step_ok)

section \<open>Properties\<close>


text \<open>
  C22: A running application is found as itself. Whatever was removed from the instance map before, the
  slot of a running instance is the slot of the thread that runs it, and its capabilities and its name
  are those of that slot.
\<close>

theorem running_app_is_found:
  assumes "runtime_reachable late rt" and "i < 8" and "ap_thread (app_at rt i) = Running x"
  shows "fst (get_slot_for_module_inst rt x) = int i \<and>
    akira_runtime_get_cap_mask_for_module_inst rt x = ap_cap_mask (app_at rt i) \<and>
    (buf \<noteq> [] \<longrightarrow>
      akira_runtime_get_name_for_module_inst rt x buf = (0, copied_name buf (ap_name (app_at rt i)) (length buf)))"
proof -
  note ok = reachable_ok [OF assms(1)]
  note m = map_rightD [OF runtime_okD(3) [OF ok]]
  note s = slot_of_instance_iff [OF ok assms(2,3)] and r = m(2-4) [OF assms(2,3)]
  have "instance_map_get x (rt_imap rt) \<in> {- 1, int i}" using map_get_cases [OF m(1), of x] r(3) by auto
  then show ?thesis
    using s r(1,2)
    by (auto simp: get_slot_for_module_inst_def akira_runtime_get_cap_mask_for_module_inst_def
        akira_runtime_get_name_for_module_inst_def)
qed

section \<open>Runs\<close>

definition tiny_module :: octets where
  "tiny_module = [0x00, 0x61, 0x73, 0x6D, 1, 0, 0, 0]"

definition demo_crypto :: crypto where
  "demo_crypto = \<lparr>sha256 = (\<lambda>_. Some (replicate 32 5)), cert_key = (\<lambda>_. None), key_ok = (\<lambda>_. False),
     sig_ok = (\<lambda>_ _ _ _. False), allowlisted = (\<lambda>_. True)\<rparr>"

definition demo_signing :: signing where
  "demo_signing = \<lparr>root_hashes = [], root_pubkeys = [], root_count = 0, signing_ready = False, sg_audit = []\<rparr>"

definition demo_env :: "nat \<Rightarrow> nat \<Rightarrow> load_env" where
  "demo_env b m = \<lparr>probe = True, psram = False, staged = None, owned = Some b, loaded_module = Some m\<rparr>"

definition demo_load :: "nat \<Rightarrow> nat \<Rightarrow> runtime \<Rightarrow> (int \<times> runtime) option" where
  "demo_load b m rt = akira_runtime_load_wasm demo_crypto 32 4 10 20 (demo_env b m) tiny_module rt"

definition demo_boot :: runtime where
  "demo_boot = booted (replicate 8 True) demo_signing"

definition demo_loaded :: runtime where
  "demo_loaded = snd (the (demo_load 7 3 demo_boot))"

definition demo_created :: runtime where
  "demo_created = snd (start_begin True 0 demo_loaded)"

definition demo_running :: runtime where
  "demo_running = thread_instantiate 30 0 (Instance 0x100) demo_created"

lemma demo_values:
  "map_option fst (demo_load 7 3 demo_boot) = Some 0"
  by code_simp

lemma demo_run_reachable: "runtime_reachable False demo_running"
proof -
  have "runtime_reachable False demo_boot" unfolding demo_boot_def by (rule runtime_reachable.boot)
  moreover have "runtime_step False demo_boot demo_loaded"
  proof (rule runtime_step.load)
    show "pending demo_boot = Idle" "fresh_for (demo_env 7 3) tiny_module (rt_engine demo_boot)"
      by (simp_all add: demo_boot_def booted_simps fresh_for_def no_engine_def demo_env_def)
    show "akira_runtime_load_wasm demo_crypto 32 4 10 20 (demo_env 7 3) tiny_module demo_boot = Some (0, demo_loaded)"
      using demo_values by (auto simp: demo_load_def demo_loaded_def)
  qed
  moreover have "runtime_step False demo_loaded demo_created"
  proof (rule runtime_step.start)
    show "pending demo_loaded = Idle" "slot_valid demo_loaded 0" "ap_thread (app_at demo_loaded (nat 0)) = No_thread"
      "ap_module (app_at demo_loaded (nat 0)) \<noteq> None" by code_simp+
    show "start_begin True 0 demo_loaded = (fst (start_begin True 0 demo_loaded), demo_created)" by (simp add: demo_created_def)
  qed
  moreover have "runtime_step False demo_created demo_running"
    unfolding demo_running_def by (rule runtime_step.instantiate) code_simp+
  ultimately show ?thesis using runtime_reachable.step by blast
qed


lemma running_app_is_found_witness:
  "fst (get_slot_for_module_inst demo_running 0x100) = 0 \<and>
   akira_runtime_get_name_for_module_inst demo_running 0x100 (replicate 6 1) = (0, text_chars ''app0'' @ [0, 0])"
proof -
  have "ap_thread (app_at demo_running 0) = Running 0x100" by code_simp
  note f = running_app_is_found [OF demo_run_reachable _ this, of "replicate 6 1"]
  have "copied_name (replicate 6 1) (ap_name (app_at demo_running 0)) 6 = text_chars ''app0'' @ [0, 0]" by code_simp
  then show ?thesis using f by simp
qed

section \<open>Outside the assumptions\<close>

text \<open>A start that gives up frees the slot but neither its module nor its buffer; the next load overwrites both.\<close>

lemma start_timeout_leaks:
  "let rt = snd (start_timeout 0 demo_created); rt' = snd (the (demo_load 8 4 rt)) in
   \<not> ap_used (app_at rt 0) \<and> 7 \<in> live_buffers (rt_engine rt') \<and> (\<forall>i \<in> {0..<8}. ap_binary (app_at rt' i) \<noteq> Some 7)"
  by code_simp

text \<open>
  A call that destroys a running application waits for its thread, which frees the slot itself; an
  application loaded into the slot meanwhile is destroyed in its place.
\<close>

lemma destroy_hits_next_application:
  "let rt = snd (destroy_begin 0 demo_running);
       rt = thread_release 0 (thread_signal 0 (thread_finish 40 0 Ran rt));
       rt' = snd (the (demo_load 8 4 rt)) in
   slot_valid rt' 0 \<and> ap_module (app_at rt' 0) = Some 4 \<and>
   (let rt'' = snd (destroy_end False 0 rt') in \<not> slot_valid rt'' 0 \<and> live_modules (rt_engine rt'') = {})"
  by code_simp

text \<open>An application whose stop timed out has no module but can be started.\<close>

lemma start_after_aborted_stop:
  "let rt = snd (start_end 0 demo_running);
       rt = snd (stop_end True 0 (snd (stop_begin 0 rt)));
       rt = snd (start_begin True 0 rt) in
   ap_module (app_at rt 0) = None \<and> ap_thread (app_at rt 0) = Created \<and>
   misuse (rt_engine (thread_instantiate 50 0 No_instance rt))"
  by code_simp

text \<open>The name of a manifest is used as a format; with \<open>%s\<close> in it the number of the slot is taken for a pointer.\<close>

lemma name_is_a_format: "format_int (Some 0) (text_chars ''a%s'') = None"
  by code_simp

end
