(* ===== verification/Spec2Isabelle.thy ===== *)
theory Spec2Isabelle
  imports Crc16 Bch Reed_Solomon Randomizer Cltu Tc_Profile Tm_Frame Cfdp_Transfer Akpkg_Archive Runtime_Audit Runtime_Cache Runtime_Ipc App_Lifecycle Runtime_Safety
begin

text \<open>
  A verification library for AkiraOS with its CCSDS protocol stack (the C code under \<open>src/src/\<close>).

  AkiraOS runs WASM applications on small devices and links them to the ground over the CCSDS
  space protocols. Two chains of the program meet in this library.

  \<^item> The link (\<open>src/src/connectivity/ccsds/\<close>). Upwards, a telecommand arrives as a CLTU: the blocks
    are corrected (BCH), de-randomized, decoded as a transfer frame with its CRC-16, accepted or
    refused by the frame acceptance state FARM-1, and the packets of the frame go through a router
    to their handlers. Downwards, packets wait in the queues of virtual channels; a generator
    cycle fills one transfer frame, adds the control word CLCW, the frame CRC, Reed-Solomon parity
    and the randomizer, and hands it to the routes. File delivery (CFDP) runs over packets in
    both directions.
  \<^item> The applications (\<open>src/src/lib/\<close>, \<open>src/src/runtime/\<close>). A package is an archive (\<open>akpkg\<close>: base64, gzip,
    tar); an application has capabilities and a trust level, calls the system through a
    sandbox with rate limits, a watchdog and an audit ring, exchanges messages with others, and
    its module is kept in a cache.

  \<^bold>\<open>Theories and files.\<close>

  \<^item> \<open>Ccsds_Prelude\<close>: words for the C integer types, octet lists for buffers, errno values, the
    big-endian order of octets.
  \<^item> \<open>Crc16\<close>, \<open>Bch\<close>, \<open>Reed_Solomon\<close>, \<open>Randomizer\<close>, \<open>Cltu\<close>: \<open>ccsds_crc16.c\<close>, \<open>ccsds_bch.c\<close>, \<open>ccsds_rs.c\<close>,
    \<open>ccsds_rnd.c\<close>, \<open>ccsds_cltu.c\<close>. Each coder is shown equal to its mathematical reference:
    polynomial division over GF(2) or GF(256), the syndromes of single and double errors, the
    exact language of CLTUs.
  \<^item> \<open>Space_Packet\<close>, \<open>Tc_Frame\<close>, \<open>Tc_Segment\<close>, \<open>Router\<close>: \<open>ccsds_space_packet.c\<close>, \<open>ccsds_tc_frame.c\<close>,
    \<open>ccsds_tc_segment.c\<close>, \<open>ccsds_router.c\<close>. Round trips, exact acceptance conditions, the walk over a
    segment, and the router as a bounded finite map (locale \<open>bounded_table\<close>).
  \<^item> \<open>Tc_Profile\<close>: \<open>ccsds_profile.c\<close>. The receiver state is the record \<open>ccsds_profile_tc_rx\<close>; \<open>tc_reachable\<close> are the
    states of any sequence of calls. Frame acceptance, lockout, reassembly, counters.
  \<^item> \<open>Tm_Frame\<close>: \<open>ccsds_tm_frame.c\<close>. Admission to the queues, one frame per cycle, draining.
  \<^item> \<open>Cfdp_Types\<close>, \<open>Cfdp_Pdu\<close>, \<open>Cfdp_Checksum\<close>, \<open>Cfdp_Ranges\<close>, \<open>Cfdp_Entity\<close>: \<open>ccsds_cfdp_types.h\<close>,
    \<open>ccsds_cfdp_config.h\<close>, \<open>ccsds_cfdp_status.h\<close> and the files \<open>ccsds_cfdp_pdu.c\<close>, \<open>ccsds_cfdp_checksum.c\<close>,
    \<open>ccsds_cfdp_ranges.c\<close>, \<open>ccsds_cfdp_entity.c\<close>, operation by operation. \<open>Cfdp_Transactions\<close> has the invariant of the
    entity, the effect of errors and the bound on retries; \<open>Cfdp_Transfer\<close> what a transfer achieves.
  \<^item> \<open>Akpkg_Inflate\<close>, \<open>Akpkg_Huffman\<close>, \<open>Akpkg_Deflate\<close>, \<open>Akpkg_Bounds\<close>, \<open>Akpkg_Archive\<close>: \<open>akpkg.c\<close>; the decompressor inverts
    an encoder of RFC 1951 and stays inside its buffers on every input.
  \<^item> \<open>Runtime_Security\<close>, \<open>Runtime_Sandbox\<close>, \<open>Runtime_Audit\<close>, \<open>Runtime_Cache\<close>, \<open>Runtime_Ipc\<close>: \<open>security.c\<close>,
    \<open>security/sandbox.c\<close>, \<open>runtime_cache.c\<close>, \<open>akira_ipc.c\<close>.

  \<^bold>\<open>Conventions.\<close> A C string is the octet list before its terminating zero and a null pointer is
  \<open>None\<close>. An operation on a static table takes and returns the table. A loop is structural recursion or
  recursion on a number of steps that is at least the length of its input; nothing is assumed to
  terminate. Each operation runs under the lock the code takes, so it is one step; the lock-free rate
  limiter is the exception and is modelled access by access, with any number of threads.

  \<^bold>\<open>Limits.\<close> Sizes are the defaults of \<open>Kconfig\<close> and of the headers (frame lengths, eight router entries,
  four received ranges, window widths, table sizes); where a proof needs a bound it is a
  definition with that value, or an argument.

  \<^bold>\<open>What is a parameter.\<close> The kernel's pipe (\<open>pipe_contract\<close>), the kernel's CRC-32 routines
  (\<open>crc_contract\<close>), the application's file store (\<open>store_contract\<close>), the memory behind a buffer, the allocator and the
  uptime are arguments, with their documented behaviour as named hypotheses where a theorem
  needs it; every such theorem has a witness at a concrete instance.
\<close>

end
